(* ===== verification/Prelude.thy ===== *)
theory Prelude
  imports
    Main
    "HOL-Library.Char_ord"
    "HOL-Library.List_Lexorder"
    "HOL-Library.Product_Lexorder"
    "HOL-Library.Multiset"
    "HOL-Library.Sublist"
begin

text \<open>
  What the component theories share: the model of Go values the code uses everywhere (times,
  durations, results, iteration over maps), the collections of rewrite rules, and the generic
  lemmas on lists, maps and sorting that the component proofs rest on.

  \<^item> A Go \<open>time.Time\<close> is the number of nanoseconds since the zero time (1 January of year 1,
    UTC), so \<open>IsZero\<close> is \<open>t = 0\<close>, \<open>Before\<close> and \<open>After\<close> are \<open><\<close> and \<open>>\<close>.
  \<^item> A Go \<open>time.Duration\<close> is an int64 count of nanoseconds; \<open>Sub\<close> saturates at its bounds.
  \<^item> A Go string is a list of bytes, compared bytewise from the left, which is the order that
    \<open>List_Lexorder\<close> gives to \<open>string\<close>.
  \<^item> A function that returns \<open>(value, error)\<close> returns \<open>error + value\<close>.
  \<^item> Ranging over a Go map visits the keys in an unspecified order: such a loop takes the order
    as an argument, a list of the keys.
\<close>

named_theorems go_simps \<open>unfolding rules for the small Go helpers\<close>

section \<open>Times and durations\<close>

type_synonym time = int
type_synonym duration = int

definition max_duration :: duration where
  "max_duration = 9223372036854775807"

definition min_duration :: duration where
  "min_duration = - 9223372036854775808"

definition time_sub :: "time \<Rightarrow> time \<Rightarrow> duration" where
  "time_sub t u = max min_duration (min max_duration (t - u))"

definition is_zero :: "time \<Rightarrow> bool" where
  "is_zero t \<longleftrightarrow> t = 0"

definition second :: duration where "second = 1000000000"
definition minute :: duration where "minute = 60 * second"
definition hour :: duration where "hour = 60 * minute"
definition day :: duration where "day = 24 * hour"

lemmas duration_defs = second_def minute_def hour_def day_def

lemma time_sub_exact:
  "\<bar>t - u\<bar> \<le> max_duration \<Longrightarrow> time_sub t u = t - u"
  by (simp add: time_sub_def max_duration_def min_duration_def)

lemma time_sub_gt:
  "w < max_duration \<Longrightarrow> min_duration \<le> w \<Longrightarrow> time_sub t u > w \<longleftrightarrow> t - u > w"
  by (auto simp: time_sub_def max_duration_def min_duration_def)

lemma is_zero_zero [simp]: "is_zero 0"
  by (simp add: is_zero_def)

section \<open>Results\<close>

fun bindE :: "'e + 'a \<Rightarrow> ('a \<Rightarrow> 'e + 'b) \<Rightarrow> 'e + 'b" where
  "bindE (Inl e) f = Inl e"
| "bindE (Inr x) f = f x"

lemma bindE_Inr: "bindE m f = Inr y \<longleftrightarrow> (\<exists>x. m = Inr x \<and> f x = Inr y)"
  by (cases m) auto

lemma bindE_Inl: "bindE m f = Inl e \<longleftrightarrow> m = Inl e \<or> (\<exists>x. m = Inr x \<and> f x = Inl e)"
  by (cases m) auto

definition is_ok :: "'e + 'a \<Rightarrow> bool" where
  "is_ok r \<longleftrightarrow> (case r of Inl _ \<Rightarrow> False | Inr _ \<Rightarrow> True)"

lemma is_ok_simps [simp]: "is_ok (Inr x)" "\<not> is_ok (Inl e)"
  by (simp_all add: is_ok_def)

lemma is_ok_iff: "is_ok r \<longleftrightarrow> (\<exists>x. r = Inr x)"
  by (cases r) auto

text \<open>
  A loop that returns the first error some element of a list gives, and carries on otherwise.
\<close>

fun first_error :: "('a \<Rightarrow> 'e option) \<Rightarrow> 'a list \<Rightarrow> 'e option" where
  "first_error f [] = None"
| "first_error f (x # xs) = (case f x of Some e \<Rightarrow> Some e | None \<Rightarrow> first_error f xs)"

lemma first_error_None: "first_error f xs = None \<longleftrightarrow> (\<forall>x \<in> set xs. f x = None)"
  by (induction xs) (auto split: option.splits)

lemma first_error_Some:
  "first_error f xs = Some e \<Longrightarrow> \<exists>x \<in> set xs. f x = Some e"
  by (induction xs) (auto split: option.splits)

text \<open>The same with the index of the element, counted from \<open>i\<close>.\<close>

fun first_error_at :: "(nat \<Rightarrow> 'a \<Rightarrow> 'e option) \<Rightarrow> nat \<Rightarrow> 'a list \<Rightarrow> 'e option" where
  "first_error_at f i [] = None"
| "first_error_at f i (x # xs) =
     (case f i x of Some e \<Rightarrow> Some e | None \<Rightarrow> first_error_at f (Suc i) xs)"

lemma first_error_at_None:
  assumes "\<And>j x. f j x = None \<longleftrightarrow> P x"
  shows "first_error_at f i xs = None \<longleftrightarrow> (\<forall>x \<in> set xs. P x)"
proof (induction xs arbitrary: i)
  case (Cons x xs)
  then show ?case using assms [of i x] by (cases "f i x") auto
qed simp

text \<open>
  A workflow's activity under a retry policy: up to \<open>n\<close> attempts, each with its own environment,
  until one is not to be tried again.
\<close>

fun retry :: "('i \<Rightarrow> 's \<Rightarrow> 'r \<times> 's) \<Rightarrow> ('r \<Rightarrow> bool) \<Rightarrow> nat \<Rightarrow> 'i list \<Rightarrow> 's \<Rightarrow> 'r list \<times> 's" where
  "retry act again 0 env s = ([], s)"
| "retry act again (Suc n) [] s = ([], s)"
| "retry act again (Suc n) (x # env) s =
     (case act x s of (r, s') \<Rightarrow>
        if again r then (case retry act again n env s' of (rs, s'') \<Rightarrow> (r # rs, s''))
        else ([r], s'))"

lemma retry_invariant:
  assumes "P s" and "\<And>x s r s'. P s \<Longrightarrow> act x s = (r, s') \<Longrightarrow> P s'"
  shows "P (snd (retry act again n env s))"
  using assms(1)
proof (induction n arbitrary: env s)
  case (Suc n)
  show ?case
  proof (cases env)
    case (Cons x xs)
    obtain r s' where act: "act x s = (r, s')" by (cases "act x s")
    with Suc.prems assms(2) have "P s'" by blast
    obtain rs s'' where rest: "retry act again n xs s' = (rs, s'')" by (cases "retry act again n xs s'")
    from Suc.IH [OF \<open>P s'\<close>, of xs] \<open>P s'\<close> show ?thesis by (simp add: Cons act rest)
  qed (simp add: Suc.prems)
qed simp

section \<open>Strings\<close>

text \<open>
  Text is bytes; letters are lowered and spaces trimmed in the ASCII range, which is where the
  texts the code compares against lie.
\<close>

definition lower_char :: "char \<Rightarrow> char" where
  "lower_char c = (if CHR ''A'' \<le> c \<and> c \<le> CHR ''Z'' then char_of (of_char c + 32 :: nat) else c)"

definition ToLower :: "string \<Rightarrow> string" where
  "ToLower s = map lower_char s"

definition is_space :: "char \<Rightarrow> bool" where
  "is_space c \<longleftrightarrow> (of_char c :: nat) \<in> {9, 10, 11, 12, 13, 32}"

definition TrimSpace :: "string \<Rightarrow> string" where
  "TrimSpace s = rev (dropWhile is_space (rev (dropWhile is_space s)))"

definition Contains :: "string \<Rightarrow> string \<Rightarrow> bool" where
  "Contains s cue \<longleftrightarrow> sublist cue s"

definition TrimSuffix :: "string \<Rightarrow> string \<Rightarrow> string" where
  "TrimSuffix s suf = (if suffix suf s then take (length s - length suf) s else s)"

fun decimal :: "nat \<Rightarrow> string" where
  "decimal n = (if n < 10 then [char_of (48 + n)] else decimal (n div 10) @ [char_of (48 + n mod 10)])"

declare decimal.simps [simp del]

definition itoa :: "int \<Rightarrow> string" where
  "itoa k = (if k < 0 then ''-'' @ decimal (nat (- k)) else decimal (nat k))"

section \<open>Lists and sorting\<close>

lemma sorted_unique:
  "sorted (xs :: 'a::linorder list) \<Longrightarrow> sorted ys \<Longrightarrow> mset xs = mset ys \<Longrightarrow> xs = ys"
  by (metis properties_for_sort sorted_sort_id mset_sort)

lemma sorted_last_max: "sorted xs \<Longrightarrow> x \<in> set xs \<Longrightarrow> x \<le> last xs"
  by (induction xs rule: rev_induct) (auto simp: sorted_append)

lemma length_filter_partition3:
  assumes "\<And>x. x \<in> set xs \<Longrightarrow> P x \<Longrightarrow> \<not> Q x"
  shows "length (filter P xs) + length (filter Q xs)
       + length (filter (\<lambda>x. \<not> P x \<and> \<not> Q x) xs) = length xs"
  using assms by (induction xs) auto

end
