(* ===== verification/Authz.thy ===== *)
theory Authz
  imports Prelude
begin

text \<open>
  \<open>services/platform/platform/authz\<close>: the capability catalogue and role bundles generated from
  the contract (\<open>catalogue.gen.go\<close>), the lookups over them (\<open>catalogue.go\<close>) and the one decision
  every module calls (\<open>decide.go\<close>: \<open>Context.Can\<close>, \<open>CanGrant\<close>).  Capabilities, roles and scope
  kinds are Go string types and stay strings, so a capability outside the catalogue is a value
  of the model.  The formatted reason of a denial is a constructor with the format's arguments.
\<close>

section \<open>The vocabulary\<close>

type_synonym capability = string
type_synonym role = string
type_synonym scope_kind = string

definition ScopeNone :: scope_kind where "ScopeNone = ''''"
definition ScopeCampaign :: scope_kind where "ScopeCampaign = ''campaign''"

record requirement =
  r_tenant :: bool
  r_scope :: scope_kind
  r_owner :: bool
  r_platform :: bool
  r_privileged :: bool
  r_step_up :: bool

record scope =
  s_kind :: scope_kind
  s_value :: string

definition no_requirement :: requirement where
  "no_requirement = \<lparr>r_tenant = False, r_scope = ScopeNone, r_owner = False,
     r_platform = False, r_privileged = False, r_step_up = False\<rparr>"

definition tenant_req :: requirement where "tenant_req = no_requirement\<lparr>r_tenant := True\<rparr>"
definition owner_req :: requirement where "owner_req = no_requirement\<lparr>r_owner := True\<rparr>"
definition platform_req :: requirement where "platform_req = no_requirement\<lparr>r_platform := True\<rparr>"
definition campaign_req :: requirement where "campaign_req = tenant_req\<lparr>r_scope := ScopeCampaign\<rparr>"

lemmas req_defs = no_requirement_def tenant_req_def owner_req_def platform_req_def
  campaign_req_def ScopeNone_def ScopeCampaign_def

section \<open>The catalogue and the role bundles\<close>

definition TenantMemberManage :: capability where
  "TenantMemberManage = ''tenant.member_manage''"

definition catalogue :: "(capability \<times> requirement) list" where
  "catalogue = [
    (''appeal.manage'', campaign_req),
    (''appeal.raise'', campaign_req),
    (''campaign.manage'', campaign_req),
    (''campaign.read'', tenant_req),
    (''candidate.practice.delete_own'', owner_req\<lparr>r_step_up := True\<rparr>),
    (''candidate.practice.read_own'', owner_req),
    (''candidate.profile.read_own'', owner_req),
    (''candidate.profile.write_own'', owner_req),
    (''content.artifact_draft'', platform_req),
    (''content.artifact_publish'', platform_req\<lparr>r_step_up := True\<rparr>),
    (''content.artifact_rollback'', platform_req\<lparr>r_step_up := True\<rparr>),
    (''evaluation.compare'', campaign_req),
    (''evaluation.read_screen'', campaign_req),
    (''evaluation.review'', campaign_req),
    (''invitation.manage'', tenant_req),
    (''invitation.read'', tenant_req),
    (''platform.analytics_read'', platform_req),
    (''platform.audit_read'', platform_req\<lparr>r_privileged := True\<rparr>),
    (''platform.operations_execute'', platform_req\<lparr>r_privileged := True\<rparr>),
    (''platform.operations_read'', platform_req),
    (''platform.privileged_elevate'', platform_req\<lparr>r_step_up := True\<rparr>),
    (''platform.quota_manage'', platform_req\<lparr>r_privileged := True, r_step_up := True\<rparr>),
    (''rubric.draft'', tenant_req),
    (''rubric.publish'', tenant_req\<lparr>r_step_up := True\<rparr>),
    (''rubric.read'', tenant_req),
    (''session.accept_invitation'', owner_req),
    (''session.create_practice'', owner_req),
    (''session.participate'', owner_req),
    (''session.read_own_practice'', owner_req),
    (''session.read_screen_confirmation'', owner_req),
    (''tenant.billing_read'', tenant_req),
    (''tenant.integration_manage'', tenant_req\<lparr>r_step_up := True\<rparr>),
    (''tenant.member_manage'', tenant_req\<lparr>r_step_up := True\<rparr>),
    (''tenant.member_read'', tenant_req),
    (''tenant.retention_manage'', tenant_req\<lparr>r_step_up := True\<rparr>),
    (''tenant.settings_manage'', tenant_req),
    (''tenant.settings_read'', tenant_req)]"

definition RoleCandidate :: role where "RoleCandidate = ''candidate''"

definition admin_bundle :: "capability list" where
  "admin_bundle = [''appeal.manage'', ''appeal.raise'', ''campaign.manage'', ''campaign.read'',
     ''evaluation.read_screen'', ''evaluation.review'', ''invitation.manage'',
     ''invitation.read'', ''rubric.draft'', ''rubric.publish'', ''rubric.read'',
     ''tenant.billing_read'', ''tenant.integration_manage'', ''tenant.member_manage'',
     ''tenant.member_read'', ''tenant.retention_manage'', ''tenant.settings_manage'',
     ''tenant.settings_read'']"

definition candidate_bundle :: "capability list" where
  "candidate_bundle = [''candidate.practice.delete_own'', ''candidate.practice.read_own'',
     ''candidate.profile.read_own'', ''candidate.profile.write_own'',
     ''session.accept_invitation'', ''session.create_practice'', ''session.participate'',
     ''session.read_own_practice'', ''session.read_screen_confirmation'']"

definition hiring_manager_bundle :: "capability list" where
  "hiring_manager_bundle = [''appeal.manage'', ''appeal.raise'', ''campaign.manage'',
     ''campaign.read'', ''evaluation.read_screen'', ''evaluation.review'',
     ''invitation.manage'', ''invitation.read'', ''rubric.read'', ''tenant.member_read'',
     ''tenant.settings_read'']"

definition recruiter_bundle :: "capability list" where
  "recruiter_bundle = [''appeal.raise'', ''campaign.manage'', ''campaign.read'',
     ''evaluation.read_screen'', ''evaluation.review'', ''invitation.manage'',
     ''invitation.read'', ''rubric.read'', ''tenant.member_read'', ''tenant.settings_read'']"

definition viewer_bundle :: "capability list" where
  "viewer_bundle = [''campaign.read'', ''evaluation.read_screen'', ''invitation.read'',
     ''rubric.read'', ''tenant.member_read'', ''tenant.settings_read'']"

definition bundles :: "(role \<times> capability list) list" where
  "bundles = [(''admin'', admin_bundle), (RoleCandidate, candidate_bundle),
     (''hiring_manager'', hiring_manager_bundle), (''owner'', admin_bundle),
     (''recruiter'', recruiter_bundle), (''viewer'', viewer_bundle)]"

lemmas bundle_defs = admin_bundle_def candidate_bundle_def hiring_manager_bundle_def
  recruiter_bundle_def viewer_bundle_def

section \<open>Lookups\<close>

definition Describe :: "capability \<Rightarrow> requirement option" where
  "Describe c = map_of catalogue c"

definition CapabilitiesOf :: "role \<Rightarrow> capability list" where
  "CapabilitiesOf r = (case map_of bundles r of Some cs \<Rightarrow> cs | None \<Rightarrow> [])"

definition RoleRequiresMembership :: "role \<Rightarrow> bool" where
  "RoleRequiresMembership r \<longleftrightarrow> r \<noteq> RoleCandidate"

text \<open>
  \<open>sortCapabilities\<close> is an insertion sort by adjacent swaps; \<open>sink\<close> is its inner loop, which moves
  the element at \<open>j\<close> left while it is smaller than its neighbour.
\<close>

fun sink :: "nat \<Rightarrow> capability list \<Rightarrow> capability list" where
  "sink 0 xs = xs"
| "sink (Suc j) xs =
     (if xs ! Suc j < xs ! j then sink j (xs[Suc j := xs ! j, j := xs ! Suc j]) else xs)"

definition sortCapabilities :: "capability list \<Rightarrow> capability list" where
  "sortCapabilities xs = fold sink [1..<length xs] xs"

text \<open>\<open>order\<close> is the order in which ranging over the catalogue map yields its keys.\<close>

definition All :: "capability list \<Rightarrow> capability list" where
  "All order = sortCapabilities order"

definition Catalogue :: "capability list \<Rightarrow> capability list" where
  "Catalogue order = sort order"

definition Roles :: "role list \<Rightarrow> role list" where
  "Roles order = sort order"

section \<open>The decision\<close>

definition stepUpWindow :: duration where "stepUpWindow = 15 * minute"

record elevation =
  e_grant_id :: string
  e_reason :: string
  e_ticket :: string
  e_expires_at :: time

fun elevation_valid :: "elevation option \<Rightarrow> time \<Rightarrow> bool" where
  "elevation_valid None at = False"
| "elevation_valid (Some e) at =
     (e_grant_id e \<noteq> '''' \<and> e_reason e \<noteq> '''' \<and> e_ticket e \<noteq> '''' \<and> at < e_expires_at e)"

record authz_context =
  c_subject :: string
  c_active_tenant :: string
  c_capabilities :: "capability list"
  c_scopes :: "scope list"
  c_elevation :: "elevation option"
  c_authenticated_at :: time
  c_expires_at :: time

record request =
  q_tenant :: string
  q_scope :: "scope option"
  q_owner :: string

datatype reason =
    AllowedBy capability
  | NotInCatalogue capability
  | ContextExpired
  | NotHeld capability
  | NeedsRecentAuthentication capability
  | NeedsElevation capability
  | NoTenantActive capability
  | RequestNamesNoTenant capability
  | OtherTenant capability string
  | RequestNamesNoScope capability scope_kind
  | WrongScopeKind capability scope_kind scope_kind
  | NotAssigned capability scope_kind string
  | RequestNamesNoOwner capability
  | NotTheOwner capability

record decision =
  d_allowed :: bool
  d_reason :: reason

definition allow :: "capability \<Rightarrow> decision" where
  "allow c = \<lparr>d_allowed = True, d_reason = AllowedBy c\<rparr>"

definition deny :: "reason \<Rightarrow> decision" where
  "deny r = \<lparr>d_allowed = False, d_reason = r\<rparr>"

fun holds_in :: "capability list \<Rightarrow> capability \<Rightarrow> bool" where
  "holds_in [] c = False"
| "holds_in (h # hs) c = (if h = c then True else holds_in hs c)"

definition holds :: "authz_context \<Rightarrow> capability \<Rightarrow> bool" where
  "holds ctx c = holds_in (c_capabilities ctx) c"

fun scoped_in :: "scope list \<Rightarrow> scope \<Rightarrow> bool" where
  "scoped_in [] s = False"
| "scoped_in (h # hs) s =
     (if s_kind h = s_kind s \<and> s_value h = s_value s then True else scoped_in hs s)"

definition scoped :: "authz_context \<Rightarrow> scope \<Rightarrow> bool" where
  "scoped ctx s = scoped_in (c_scopes ctx) s"

text \<open>
  The three blocks of \<open>Can\<close> that apply to non-platform capabilities, in the code's order; \<open>None\<close>
  is falling through to the next block.
\<close>

definition tenant_block :: "authz_context \<Rightarrow> capability \<Rightarrow> request \<Rightarrow> reason option" where
  "tenant_block ctx c q =
     (if c_active_tenant ctx = '''' then Some (NoTenantActive c)
      else if q_tenant q = '''' then Some (RequestNamesNoTenant c)
      else if q_tenant q \<noteq> c_active_tenant ctx then Some (OtherTenant c (q_tenant q))
      else None)"

definition scope_block ::
  "authz_context \<Rightarrow> capability \<Rightarrow> scope_kind \<Rightarrow> request \<Rightarrow> reason option" where
  "scope_block ctx c k q =
     (case q_scope q of
        None \<Rightarrow> Some (RequestNamesNoScope c k)
      | Some s \<Rightarrow>
          (if s_kind s \<noteq> k then Some (WrongScopeKind c k (s_kind s))
           else if \<not> scoped ctx s then Some (NotAssigned c (s_kind s) (s_value s))
           else None))"

definition owner_block :: "authz_context \<Rightarrow> capability \<Rightarrow> request \<Rightarrow> reason option" where
  "owner_block ctx c q =
     (if q_owner q = '''' then Some (RequestNamesNoOwner c)
      else if q_owner q \<noteq> c_subject ctx then Some (NotTheOwner c)
      else None)"

definition Can :: "authz_context \<Rightarrow> capability \<Rightarrow> request \<Rightarrow> time \<Rightarrow> decision" where
  "Can ctx c q at =
     (case Describe c of
        None \<Rightarrow> deny (NotInCatalogue c)
      | Some r \<Rightarrow>
          if is_zero (c_expires_at ctx) \<or> \<not> at < c_expires_at ctx then deny ContextExpired
          else if \<not> holds ctx c then deny (NotHeld c)
          else if r_step_up r \<and> time_sub at (c_authenticated_at ctx) > stepUpWindow
          then deny (NeedsRecentAuthentication c)
          else if r_platform r then
            (if r_privileged r \<and> \<not> elevation_valid (c_elevation ctx) at
             then deny (NeedsElevation c) else allow c)
          else case (if r_tenant r then tenant_block ctx c q else None) of
            Some e \<Rightarrow> deny e
          | None \<Rightarrow>
              (case (if r_scope r \<noteq> ScopeNone then scope_block ctx c (r_scope r) q else None) of
                 Some e \<Rightarrow> deny e
               | None \<Rightarrow>
                   (case (if r_owner r then owner_block ctx c q else None) of
                      Some e \<Rightarrow> deny e
                    | None \<Rightarrow> allow c)))"

datatype grant_error = NeedsMemberManage | GrantUnknown capability | GrantNotHeld capability

definition CanGrant :: "authz_context \<Rightarrow> capability list \<Rightarrow> grant_error option" where
  "CanGrant ctx cs =
     (if \<not> holds ctx TenantMemberManage then Some NeedsMemberManage
      else first_error (\<lambda>c.
        if Describe c = None then Some (GrantUnknown c)
        else if \<not> holds ctx c then Some (GrantNotHeld c)
        else None) cs)"

section \<open>Lemmas\<close>

lemma holds_iff [simp]: "holds ctx c \<longleftrightarrow> c \<in> set (c_capabilities ctx)"
proof -
  have "holds_in cs c \<longleftrightarrow> c \<in> set cs" for cs
    by (induction cs) auto
  then show ?thesis by (simp add: holds_def)
qed

lemma scoped_iff [simp]:
  "scoped ctx s \<longleftrightarrow> (\<exists>h \<in> set (c_scopes ctx). s_kind h = s_kind s \<and> s_value h = s_value s)"
proof -
  have "scoped_in hs s \<longleftrightarrow> (\<exists>h \<in> set hs. s_kind h = s_kind s \<and> s_value h = s_value s)" for hs
    by (induction hs) auto
  then show ?thesis by (simp add: scoped_def)
qed

lemma decision_simps [simp]:
  "d_allowed (allow c)" "\<not> d_allowed (deny r)" "d_reason (deny r) = r" "d_reason (allow c) = AllowedBy c"
  by (simp_all add: allow_def deny_def)

lemma tenant_block_None:
  "tenant_block ctx c q = None \<longleftrightarrow>
     c_active_tenant ctx \<noteq> '''' \<and> q_tenant q = c_active_tenant ctx"
  by (auto simp: tenant_block_def)

lemma scope_block_None:
  "scope_block ctx c k q = None \<longleftrightarrow>
     (\<exists>s. q_scope q = Some s \<and> s_kind s = k \<and>
        (\<exists>h \<in> set (c_scopes ctx). s_kind h = k \<and> s_value h = s_value s))"
  by (auto simp: scope_block_def split: option.splits)

lemma owner_block_None:
  "owner_block ctx c q = None \<longleftrightarrow> q_owner q \<noteq> '''' \<and> q_owner q = c_subject ctx"
  by (auto simp: owner_block_def)

lemma allowed_block:
  "d_allowed (case (if b then m else None) of Some e \<Rightarrow> deny e | None \<Rightarrow> X)
     \<longleftrightarrow> (b \<longrightarrow> m = None) \<and> d_allowed X"
  by (cases m) auto

lemma allowed_if: "d_allowed (if b then deny e else X) \<longleftrightarrow> \<not> b \<and> d_allowed X"
  by simp

lemma Can_allowed_iff:
  "d_allowed (Can ctx c q at) \<longleftrightarrow>
     (\<exists>r. Describe c = Some r \<and> c_expires_at ctx \<noteq> 0 \<and> at < c_expires_at ctx
        \<and> c \<in> set (c_capabilities ctx)
        \<and> (r_step_up r \<longrightarrow> time_sub at (c_authenticated_at ctx) \<le> stepUpWindow)
        \<and> (if r_platform r then r_privileged r \<longrightarrow> elevation_valid (c_elevation ctx) at
           else (r_tenant r \<longrightarrow> c_active_tenant ctx \<noteq> '''' \<and> q_tenant q = c_active_tenant ctx)
              \<and> (r_scope r \<noteq> ScopeNone \<longrightarrow>
                   (\<exists>s. q_scope q = Some s \<and> s_kind s = r_scope r
                      \<and> (\<exists>h \<in> set (c_scopes ctx). s_kind h = r_scope r \<and> s_value h = s_value s)))
              \<and> (r_owner r \<longrightarrow> q_owner q \<noteq> '''' \<and> q_owner q = c_subject ctx)))"
proof (cases "Describe c")
  case None
  then show ?thesis by (simp add: Can_def)
next
  case (Some r)
  note parts = tenant_block_None scope_block_None owner_block_None is_zero_def
  show ?thesis
  proof (cases "r_platform r")
    case True
    then show ?thesis unfolding Can_def Some option.case
      by (auto simp: is_zero_def)
  next
    case False
    then show ?thesis
      unfolding Can_def Some option.case if_not_P [OF False] allowed_if allowed_block
      by (simp add: parts not_less not_le)
  qed
qed

definition tenant_only :: "requirement \<Rightarrow> bool" where
  "tenant_only q \<longleftrightarrow> \<not> r_platform q \<and> \<not> r_owner q \<and> r_tenant q"

definition owner_only :: "requirement \<Rightarrow> bool" where
  "owner_only q \<longleftrightarrow> \<not> r_platform q \<and> r_owner q \<and> \<not> r_tenant q"

lemma Describe_in_catalogue: "Describe c = Some q \<Longrightarrow> (c, q) \<in> set catalogue"
  by (simp add: Describe_def map_of_SomeD)

lemma Describe_known: "c \<in> fst ` set catalogue \<Longrightarrow> \<exists>q. Describe c = Some q"
  by (metis Describe_def domIff dom_map_of_conv_image_fst not_None_eq)

lemma req_classes [simp]:
  "tenant_only tenant_req" "tenant_only campaign_req" "owner_only owner_req"
  "tenant_only (tenant_req\<lparr>r_step_up := True\<rparr>)" "owner_only (owner_req\<lparr>r_step_up := True\<rparr>)"
  by (simp_all add: req_defs tenant_only_def owner_only_def)

lemma admin_bundle_tenant:
  assumes "c \<in> set admin_bundle"
  shows "\<exists>q. Describe c = Some q \<and> tenant_only q"
proof -
  have "set admin_bundle \<subseteq> fst ` set catalogue"
    by (simp add: admin_bundle_def catalogue_def)
  with assms obtain q where q: "Describe c = Some q" using Describe_known by blast
  have "\<forall>(k, q) \<in> set catalogue. k \<in> set admin_bundle \<longrightarrow> tenant_only q"
    by (simp add: admin_bundle_def catalogue_def)
  with q assms show ?thesis by (auto dest!: Describe_in_catalogue)
qed

lemma candidate_bundle_owner:
  assumes "c \<in> set candidate_bundle"
  shows "\<exists>q. Describe c = Some q \<and> owner_only q"
proof -
  have "set candidate_bundle \<subseteq> fst ` set catalogue"
    by (simp add: candidate_bundle_def catalogue_def)
  with assms obtain q where q: "Describe c = Some q" using Describe_known by blast
  have "\<forall>(k, q) \<in> set catalogue. k \<in> set candidate_bundle \<longrightarrow> owner_only q"
    by (simp add: candidate_bundle_def catalogue_def)
  with q assms show ?thesis by (auto dest!: Describe_in_catalogue)
qed

lemma bundles_nested:
  "set viewer_bundle \<subseteq> set recruiter_bundle" "set recruiter_bundle \<subseteq> set hiring_manager_bundle"
  "set hiring_manager_bundle \<subseteq> set admin_bundle"
  by (simp_all add: bundle_defs)

lemma bundle_cases:
  assumes "map_of bundles r = Some cs"
  shows "(r = RoleCandidate \<and> cs = candidate_bundle)
       \<or> (r \<noteq> RoleCandidate \<and> set cs \<subseteq> set admin_bundle)"
  using assms bundles_nested by (auto simp: bundles_def RoleCandidate_def split: if_splits)

lemma CapabilitiesOf_classified:
  assumes "c \<in> set (CapabilitiesOf r)"
  obtains q where "Describe c = Some q" "r = RoleCandidate" "owner_only q"
  | q where "Describe c = Some q" "r \<noteq> RoleCandidate" "tenant_only q"
proof -
  from assms obtain cs where "map_of bundles r = Some cs" "c \<in> set cs"
    by (cases "map_of bundles r") (auto simp: CapabilitiesOf_def)
  with bundle_cases [of r cs] admin_bundle_tenant [of c] candidate_bundle_owner [of c]
  show thesis by (auto intro: that)
qed

lemma CanGrant_None:
  "CanGrant ctx cs = None \<longleftrightarrow> TenantMemberManage \<in> set (c_capabilities ctx) \<and>
     (\<forall>c \<in> set cs. Describe c \<noteq> None \<and> c \<in> set (c_capabilities ctx))"
  by (auto simp: CanGrant_def first_error_None)

text \<open>
  \<open>delegated a b\<close>: \<open>b\<close> is a context somebody obtained from \<open>a\<close> by a chain of grants, each
  passing \<open>CanGrant\<close> of the context that makes it.
\<close>

inductive delegated :: "authz_context \<Rightarrow> authz_context \<Rightarrow> bool" where
  self: "delegated a a"
| grant: "delegated a b \<Longrightarrow> CanGrant b cs = None \<Longrightarrow> set (c_capabilities d) \<subseteq> set cs \<Longrightarrow> delegated a d"

lemma delegated_subset: "delegated a b \<Longrightarrow> set (c_capabilities b) \<subseteq> set (c_capabilities a)"
  by (induction rule: delegated.induct) (auto simp: CanGrant_None)

text \<open>The inner loop inserts the element at \<open>j\<close> into the sorted prefix before it.\<close>

lemma sink_suffix:
  "j < length xs \<Longrightarrow> sink j (xs @ zs) = sink j xs @ zs"
  by (induction j xs rule: sink.induct) (auto simp: nth_append list_update_append)

lemma sink_insort:
  "sorted ys \<Longrightarrow> sink (length ys) (ys @ [x]) = insort x ys"
proof (induction ys rule: rev_induct)
  case Nil
  show ?case by simp
next
  case (snoc y ys)
  have swap: "(ys @ [y, x])[Suc (length ys) := y, length ys := x] = (ys @ [x]) @ [y]"
    by (simp add: list_update_append)
  from snoc.prems have ys: "sorted ys" and le: "\<forall>z \<in> set ys. z \<le> y"
    by (auto simp: sorted_append)
  show ?case
  proof (cases "x < y")
    case True
    have "sink (length (ys @ [y])) ((ys @ [y]) @ [x]) = sink (length ys) ((ys @ [x]) @ [y])"
      using True swap by (simp add: nth_append)
    also have "\<dots> = insort x ys @ [y]"
      using sink_suffix [of "length ys" "ys @ [x]" "[y]"] snoc.IH [OF ys] by simp
    also have "\<dots> = insort x (ys @ [y])"
      by (rule sorted_unique)
        (use True le ys in \<open>auto simp: sorted_append sorted_insort set_insort_key\<close>)
    finally show ?thesis .
  next
    case False
    then have "sink (length (ys @ [y])) ((ys @ [y]) @ [x]) = ys @ [y, x]"
      by (simp add: nth_append)
    also have "\<dots> = insort x (ys @ [y])"
      by (rule sorted_unique) (use False le snoc.prems in \<open>auto simp: sorted_append sorted_insort\<close>)
    finally show ?thesis .
  qed
qed

lemma fold_sink_prefix:
  "n \<le> length xs \<Longrightarrow> fold sink [1..<n] xs = sort (take n xs) @ drop n xs"
proof (induction n)
  case 0
  show ?case by simp
next
  case (Suc n)
  show ?case
  proof (cases "n = 0")
    case True
    with Suc.prems show ?thesis by (cases xs) auto
  next
    case False
    let ?ys = "sort (take n xs)"
    from Suc.prems have n: "n < length xs" by simp
    then have len: "length ?ys = n" by simp
    have "fold sink [1..<Suc n] xs = sink n (fold sink [1..<n] xs)"
      using False by simp
    also have "\<dots> = sink n ((?ys @ [xs ! n]) @ drop (Suc n) xs)"
      using Suc n by (simp add: Cons_nth_drop_Suc)
    also have "\<dots> = insort (xs ! n) ?ys @ drop (Suc n) xs"
      using sink_suffix [of n "?ys @ [xs ! n]" "drop (Suc n) xs"]
        sink_insort [OF sorted_sort, of "take n xs" "xs ! n"] len
      by (simp del: append_assoc)
    also have "insort (xs ! n) ?ys = sort (take (Suc n) xs)"
      by (rule sorted_unique) (use n in \<open>auto simp: sorted_insort take_Suc_conv_app_nth\<close>)
    finally show ?thesis .
  qed
qed

lemma sortCapabilities_sort: "sortCapabilities xs = sort xs"
  using fold_sink_prefix [of "length xs" xs] by (simp add: sortCapabilities_def)

lemma time_sub_mono: "t \<le> t' \<Longrightarrow> time_sub t u \<le> time_sub t' u"
  by (auto simp: time_sub_def)

lemma elevation_valid_earlier:
  "elevation_valid e at \<Longrightarrow> at' \<le> at \<Longrightarrow> elevation_valid e at'"
  by (cases e) auto

section \<open>Properties\<close>

text \<open>Authority that comes from roles is confined. If every capability of a context is granted by
  one of the subject's roles, then whatever \<open>Can\<close> allows is either an exercise of a tenant
  capability, obtained from a membership role, inside the context's own active tenant; or an
  exercise of an own-data capability, obtained from the candidate role, on data the subject owns.
  No role reaches a platform capability, and no membership role reaches practice data.\<close>

theorem role_authority_confined:
  assumes roles: "\<forall>c \<in> set (c_capabilities ctx). \<exists>r \<in> set roles. c \<in> set (CapabilitiesOf r)"
    and allowed: "d_allowed (Can ctx c q at)"
  shows "\<exists>req. Describe c = Some req \<and>
     ((tenant_only req \<and> q_tenant q = c_active_tenant ctx \<and> q_tenant q \<noteq> ''''
         \<and> (\<exists>r \<in> set roles. r \<noteq> RoleCandidate))
      \<or> (owner_only req \<and> q_owner q = c_subject ctx \<and> q_owner q \<noteq> ''''
         \<and> RoleCandidate \<in> set roles))"
proof -
  from allowed have "c \<in> set (c_capabilities ctx)" by (auto simp: Can_allowed_iff)
  with roles obtain r where r: "r \<in> set roles" "c \<in> set (CapabilitiesOf r)" by blast
  from r(2) show ?thesis
  proof (cases rule: CapabilitiesOf_classified)
    case (1 req)
    with allowed r(1) show ?thesis by (auto simp: Can_allowed_iff owner_only_def)
  next
    case (2 req)
    with allowed r(1) show ?thesis by (auto simp: Can_allowed_iff tenant_only_def)
  qed
qed

definition viewer_context :: authz_context where
  "viewer_context = \<lparr>c_subject = ''ada'', c_active_tenant = ''acme'',
     c_capabilities = viewer_bundle, c_scopes = [], c_elevation = None,
     c_authenticated_at = 5, c_expires_at = 100\<rparr>"

definition acme_request :: request where
  "acme_request = \<lparr>q_tenant = ''acme'', q_scope = None, q_owner = ''''\<rparr>"

lemma Describe_rubric_read: "Describe ''rubric.read'' = Some tenant_req"
  by (simp add: Describe_def catalogue_def)

lemma viewer_reads_rubrics: "d_allowed (Can viewer_context ''rubric.read'' acme_request 10)"
  by (simp add: Can_allowed_iff Describe_rubric_read viewer_context_def acme_request_def
      viewer_bundle_def req_defs)

theorem role_authority_confined_witness:
  "q_tenant acme_request = c_active_tenant viewer_context"
proof -
  have "\<forall>c \<in> set (c_capabilities viewer_context).
      \<exists>r \<in> set [''viewer'']. c \<in> set (CapabilitiesOf r)"
    by (simp add: viewer_context_def CapabilitiesOf_def bundles_def RoleCandidate_def)
  from role_authority_confined [OF this viewer_reads_rubrics] show ?thesis
    by (auto simp: RoleCandidate_def)
qed

text \<open>C31: Granting cannot escalate. However long the chain of grants, each of which \<open>CanGrant\<close>
  permitted to the context that made it, a context at its end is allowed to exercise only
  capabilities that the context at its start holds.\<close>

theorem delegation_no_escalation:
  assumes "delegated a b" and "d_allowed (Can b c q at)"
  shows "holds a c"
  using assms delegated_subset [of a b] by (auto simp: Can_allowed_iff)

definition manager_context :: authz_context where
  "manager_context = viewer_context\<lparr>c_capabilities := TenantMemberManage # viewer_bundle\<rparr>"

theorem delegation_no_escalation_witness: "holds manager_context ''rubric.read''"
proof -
  have "Describe c \<noteq> None" if "c \<in> set viewer_bundle" for c
    using that bundles_nested admin_bundle_tenant [of c] by auto
  then have "CanGrant manager_context viewer_bundle = None"
    by (auto simp: CanGrant_None manager_context_def viewer_context_def)
  then have "delegated manager_context viewer_context"
    by (rule delegated.grant [OF delegated.self]) (simp add: viewer_context_def)
  from delegation_no_escalation [OF this viewer_reads_rubrics] show ?thesis .
qed

text \<open>Authority only shrinks as time passes. A request that \<open>Can\<close> allows at one moment was
  already allowed, with the same context, at every earlier moment; in other words no denial ever
  turns into an allowance by waiting (the saturating subtraction of the step-up check included).\<close>

theorem authority_shrinks_with_time:
  assumes "d_allowed (Can ctx c q at)" and "at' \<le> at"
  shows "d_allowed (Can ctx c q at')"
  using assms time_sub_mono [OF assms(2), of "c_authenticated_at ctx"]
    elevation_valid_earlier [OF _ assms(2), of "c_elevation ctx"]
  by (fastforce simp: Can_allowed_iff split: if_splits)

theorem authority_shrinks_with_time_witness:
  "d_allowed (Can viewer_context ''rubric.read'' acme_request 3)"
  by (rule authority_shrinks_with_time [OF viewer_reads_rubrics]) simp

text \<open>The hand-written insertion sort behind \<open>All\<close> sorts: for every order in which the catalogue
  map is visited, \<open>All\<close> and \<open>Catalogue\<close> return the same list, in ascending order, with exactly the
  capabilities visited.\<close>

theorem All_is_Catalogue:
  "All order = Catalogue order \<and> sorted (All order) \<and> mset (All order) = mset order"
  by (simp add: All_def Catalogue_def sortCapabilities_sort)

end
