(* ===== verification/Observations.thy ===== *)
theory Observations
  imports Prelude
begin

text \<open>
  \<open>services/platform/internal/progression/observations.go\<close> and \<open>freshness.go\<close>: the append-only
  competency readings of a candidate, the store that keeps them, how old a reading is, and the
  one rule all readers of the history share for which of several readings is the latest.
  Readiness, goals and targeting each contain that rule as a loop of their own; it is stated
  here once as the interface \<open>latest_choice\<close> and interpreted on the code's comparison.

  The provenance columns that no function of the package reads back (confidence, the evidence
  counts, and the aggregation, extraction, model and policy versions) are not fields of the
  model.
\<close>

section \<open>Observations and the store\<close>

record observation =
  o_id :: string
  o_session :: string
  o_evaluation :: string
  o_competency :: string
  o_status :: string
  o_band :: string
  o_rubric_reference :: string
  o_rubric_version :: string
  o_supersedes :: string
  o_observed_at :: time

text \<open>
  The table: \<open>InsertObservation\<close> leaves an existing row for the same (evaluation, competency)
  standing (\<open>ON CONFLICT DO NOTHING\<close>).  The identifier is the store's own (\<open>id.New()\<close>), so
  \<open>Append\<close> takes, with each observation, the identifier drawn for it.
\<close>

definition stored_for :: "observation list \<Rightarrow> string \<Rightarrow> string \<Rightarrow> bool" where
  "stored_for rows e c \<longleftrightarrow> (\<exists>r \<in> set rows. o_evaluation r = e \<and> o_competency r = c)"

definition insert_observation ::
  "string \<Rightarrow> observation \<Rightarrow> observation list \<Rightarrow> observation list" where
  "insert_observation new_id x rows =
     (if stored_for rows (o_evaluation x) (o_competency x) then rows
      else rows @ [x\<lparr>o_id := new_id\<rparr>])"

fun Append :: "(string \<times> observation) list \<Rightarrow> observation list \<Rightarrow> observation list" where
  "Append [] rows = rows"
| "Append ((i, x) # xs) rows = Append xs (insert_observation i x rows)"

section \<open>Freshness\<close>

definition EvidenceFresh :: string where "EvidenceFresh = ''fresh''"
definition EvidenceAging :: string where "EvidenceAging = ''aging''"
definition EvidenceStale :: string where "EvidenceStale = ''stale''"
definition EvidenceNone :: string where "EvidenceNone = ''none''"

lemmas standing_defs = EvidenceFresh_def EvidenceAging_def EvidenceStale_def EvidenceNone_def

definition freshDays :: int where "freshDays = 30"
definition staleDays :: int where "staleDays = 90"

record evidence =
  ev_standing :: string
  ev_age_days :: int
  ev_observed_at :: time

text \<open>
  \<open>int(d.Hours() / 24)\<close> truncates the quotient of the duration by a day; the division is done in
  float64, which agrees with the exact quotient at every microsecond the database can store, and
  a negative age, however it rounds, is clamped to zero by the next statement.
\<close>

definition Freshness :: "time \<Rightarrow> time \<Rightarrow> evidence" where
  "Freshness observedAt at =
     (if is_zero observedAt
      then \<lparr>ev_standing = EvidenceNone, ev_age_days = 0, ev_observed_at = 0\<rparr>
      else
        let days = max 0 (time_sub at observedAt div day) in
        \<lparr>ev_standing =
           (if days < freshDays then EvidenceFresh
            else if days < staleDays then EvidenceAging
            else EvidenceStale),
         ev_age_days = days, ev_observed_at = observedAt\<rparr>)"

section \<open>The latest of several readings\<close>

text \<open>
  A loop that keeps a best element and replaces it by each element that beats it.  What the loops
  of the package promise their callers is that \<open>newer\<close> compares by a key.
\<close>

fun pick :: "('a \<Rightarrow> 'a \<Rightarrow> bool) \<Rightarrow> 'a option \<Rightarrow> 'a list \<Rightarrow> 'a option" where
  "pick newer best [] = best"
| "pick newer best (x # xs) =
     (case best of
        None \<Rightarrow> pick newer (Some x) xs
      | Some b \<Rightarrow> pick newer (if newer x b then Some x else best) xs)"

locale latest_choice =
  fixes newer :: "'a \<Rightarrow> 'a \<Rightarrow> bool"
    and key :: "'a \<Rightarrow> 'k::linorder"
  assumes newer_key: "newer x y \<longleftrightarrow> key y < key x"
begin

lemma pick_Some:
  "\<exists>x. pick newer (Some b) xs = Some x \<and> x \<in> insert b (set xs)
     \<and> (\<forall>y \<in> insert b (set xs). key y \<le> key x)"
proof (induction xs arbitrary: b)
  case Nil
  show ?case by simp
next
  case (Cons a xs)
  show ?case
  proof (cases "newer a b")
    case True
    then have "key b < key a" by (simp add: newer_key)
    with True Cons [of a] show ?thesis by fastforce
  next
    case False
    then have "key a \<le> key b" by (simp add: newer_key)
    with False Cons [of b] show ?thesis by (auto intro: order_trans)
  qed
qed

lemma pick_None_iff: "pick newer None xs = None \<longleftrightarrow> xs = []"
proof (cases xs)
  case (Cons a list)
  then show ?thesis using pick_Some [of a list] by auto
qed simp

lemma pick_max:
  assumes "pick newer None xs = Some x"
  shows "x \<in> set xs" and "\<And>y. y \<in> set xs \<Longrightarrow> key y \<le> key x"
proof -
  from assms obtain a ys where "xs = a # ys" by (cases xs) auto
  with assms pick_Some [of a ys] show "x \<in> set xs" and "\<And>y. y \<in> set xs \<Longrightarrow> key y \<le> key x"
    by auto
qed

lemma pick_eqI:
  assumes "x \<in> set xs" and "\<And>y. y \<in> set xs \<Longrightarrow> y \<noteq> x \<Longrightarrow> key y < key x"
  shows "pick newer None xs = Some x"
proof -
  from assms(1) obtain z where z: "pick newer None xs = Some z"
    using pick_None_iff [of xs] by (cases "pick newer None xs") auto
  have "z = x"
  proof (rule ccontr)
    assume "z \<noteq> x"
    with pick_max [OF z] assms show False by (meson leD)
  qed
  with z show ?thesis by simp
qed

text \<open>Where no two elements share a key, the order of the elements does not matter.\<close>

lemma pick_set:
  assumes "set xs = set ys" and "inj_on key (set xs)"
  shows "pick newer None xs = pick newer None ys"
proof (cases "pick newer None xs")
  case None
  with assms(1) show ?thesis by (auto simp: pick_None_iff)
next
  case (Some x)
  note max = pick_max [OF Some]
  have "pick newer None ys = Some x"
  proof (rule pick_eqI)
    show "x \<in> set ys" using max(1) assms(1) by simp
    show "key y < key x" if "y \<in> set ys" "y \<noteq> x" for y
      using that max assms by (metis inj_onD order_le_less)
  qed
  with Some show ?thesis by simp
qed

end

definition newer_reading :: "observation \<Rightarrow> observation \<Rightarrow> bool" where
  "newer_reading x y \<longleftrightarrow> o_observed_at x > o_observed_at y
     \<or> (o_observed_at x = o_observed_at y \<and> o_id x > o_id y)"

definition reading_key :: "observation \<Rightarrow> time \<times> string" where
  "reading_key x = (o_observed_at x, o_id x)"

interpretation reading: latest_choice newer_reading reading_key
  by unfold_locales (auto simp: newer_reading_def reading_key_def less_prod_def)

lemma inj_on_reading_key: "inj_on o_id A \<Longrightarrow> inj_on reading_key A"
  by (auto simp: inj_on_def reading_key_def)

section \<open>What every reader of the history filters by\<close>

text \<open>The identifiers some row of the history supersedes.\<close>

definition superseded :: "observation list \<Rightarrow> string \<Rightarrow> bool" where
  "superseded os i \<longleftrightarrow> (\<exists>x \<in> set os. o_supersedes x \<noteq> '''' \<and> o_supersedes x = i)"

text \<open>
  \<open>rank\<close>: the map from a band to its index on the scale, built by assigning in scale order, and
  Go's map read, which answers the zero value for a missing key.
\<close>

fun rank_from :: "nat \<Rightarrow> string list \<Rightarrow> (string \<rightharpoonup> nat) \<Rightarrow> (string \<rightharpoonup> nat)" where
  "rank_from i [] m = m"
| "rank_from i (b # bs) m = rank_from (Suc i) bs (m(b \<mapsto> i))"

definition rank :: "string list \<Rightarrow> (string \<rightharpoonup> nat)" where
  "rank bands = rank_from 0 bands Map.empty"

definition rank_of :: "string list \<Rightarrow> string \<Rightarrow> nat" where
  "rank_of bands b = (case rank bands b of Some i \<Rightarrow> i | None \<Rightarrow> 0)"

definition placed :: "string list \<Rightarrow> string \<Rightarrow> bool" where
  "placed bands b \<longleftrightarrow> rank bands b \<noteq> None"

lemma rank_from_dom: "rank_from i bs m b = None \<longleftrightarrow> b \<notin> set bs \<and> m b = None"
  by (induction bs arbitrary: i m) auto

lemma placed_iff [simp]: "placed bands b \<longleftrightarrow> b \<in> set bands"
  by (simp add: placed_def rank_def rank_from_dom)

lemma rank_from_value:
  "rank_from i bs m b = Some k \<Longrightarrow> m b = Some k \<or> (i \<le> k \<and> k < i + length bs \<and> bs ! (k - i) = b)"
proof (induction bs arbitrary: i m)
  case (Cons a bs)
  from Cons.prems have "rank_from (Suc i) bs (m(a \<mapsto> i)) b = Some k" by simp
  from Cons.IH [OF this] show ?case
    by (auto simp: nth_Cons' split: if_splits)
qed simp

lemma rank_of_nth:
  assumes "b \<in> set bands"
  shows "rank_of bands b < length bands" and "bands ! rank_of bands b = b"
proof -
  from assms obtain k where k: "rank bands b = Some k"
    unfolding placed_iff [symmetric] placed_def by blast
  with rank_from_value [of 0 bands Map.empty b k]
  show "rank_of bands b < length bands" and "bands ! rank_of bands b = b"
    by (simp_all add: rank_def rank_of_def)
qed

lemma rank_from_append: "rank_from i (bs @ bs') m = rank_from (i + length bs) bs' (rank_from i bs m)"
  by (induction bs arbitrary: i m) simp_all

lemma rank_of_last: "bands \<noteq> [] \<Longrightarrow> rank_of bands (last bands) = length bands - 1"
  by (cases bands rule: rev_cases) (simp_all add: rank_of_def rank_def rank_from_append)

lemma rank_of_inj: "inj_on (rank_of bands) (set bands)"
  by (metis inj_onI rank_of_nth(2))

section \<open>Lemmas on freshness\<close>

lemma Freshness_standing:
  "ev_standing (Freshness o_at at) \<in> {EvidenceNone, EvidenceFresh, EvidenceAging, EvidenceStale}"
  by (simp add: Freshness_def Let_def)

lemma Freshness_none: "ev_standing (Freshness o_at at) = EvidenceNone \<longleftrightarrow> o_at = 0"
  by (simp add: Freshness_def Let_def is_zero_def standing_defs)

lemma Freshness_age: "o_at \<noteq> 0 \<Longrightarrow> ev_age_days (Freshness o_at at) = max 0 (time_sub at o_at div day)"
  by (simp add: Freshness_def Let_def is_zero_def)

lemma Freshness_self: "ev_standing (Freshness t t) = (if t = 0 then EvidenceNone else EvidenceFresh)"
  by (simp add: Freshness_def is_zero_def time_sub_def min_duration_def max_duration_def freshDays_def)

end
