(* ===== verification/Readiness.thy ===== *)
theory Readiness
  imports Observations
begin

text \<open>
  \<open>services/platform/internal/progression/readiness.go\<close>: a pinned role standard, when one is
  coherent (\<open>Standard.validate\<close>), and the readiness of a candidate's history against it
  (\<open>Compute\<close>, \<open>resolve\<close>, \<open>recount\<close>, \<open>ComputeAll\<close>).  JSON decoding in \<open>ParseStandard\<close> is an
  argument: the decoded document, or \<open>None\<close> where the body does not decode.
\<close>

section \<open>Standards\<close>

record pin =
  pin_reference :: string
  pin_version :: string
  pin_digest :: string

record competency_requirement =
  cr_competency :: string
  cr_target :: string

record standard =
  st_pin :: pin
  st_role :: string
  st_discipline :: string
  st_rubric :: string
  st_bands :: "string list"
  st_requirements :: "competency_requirement list"

datatype standard_error =
    Undecodable
  | Unpinned
  | Ungrouped
  | NoRubricReference
  | NoBandScale
  | NamelessBand
  | BandTwice string
  | NoRequirements
  | NamelessCompetency
  | RequiredTwice string
  | TargetOffScale string string

fun check_bands :: "string set \<Rightarrow> string list \<Rightarrow> standard_error option" where
  "check_bands seen [] = None"
| "check_bands seen (b # bs) =
     (if b = '''' then Some NamelessBand
      else if b \<in> seen then Some (BandTwice b)
      else check_bands (insert b seen) bs)"

fun check_requirements ::
  "string set \<Rightarrow> string set \<Rightarrow> competency_requirement list \<Rightarrow> standard_error option" where
  "check_requirements bands seen [] = None"
| "check_requirements bands seen (r # rs) =
     (if cr_competency r = '''' then Some NamelessCompetency
      else if cr_competency r \<in> seen then Some (RequiredTwice (cr_competency r))
      else if cr_target r \<notin> bands then Some (TargetOffScale (cr_competency r) (cr_target r))
      else check_requirements bands (insert (cr_competency r) seen) rs)"

definition validate :: "standard \<Rightarrow> standard_error option" where
  "validate s =
     (if pin_reference (st_pin s) = '''' \<or> pin_version (st_pin s) = '''' \<or> pin_digest (st_pin s) = ''''
      then Some Unpinned
      else if st_role s = '''' \<or> st_discipline s = '''' then Some Ungrouped
      else if st_rubric s = '''' then Some NoRubricReference
      else if st_bands s = [] then Some NoBandScale
      else case check_bands {} (st_bands s) of
        Some e \<Rightarrow> Some e
      | None \<Rightarrow>
          (if st_requirements s = [] then Some NoRequirements
           else check_requirements (set (st_bands s)) {} (st_requirements s)))"

definition ParseStandard :: "pin \<Rightarrow> standard option \<Rightarrow> standard_error + standard" where
  "ParseStandard p body =
     (case body of
        None \<Rightarrow> Inl Undecodable
      | Some decoded \<Rightarrow>
          let s = decoded\<lparr>st_pin := p\<rparr> in
          (case validate s of Some e \<Rightarrow> Inl e | None \<Rightarrow> Inr s))"

section \<open>Resolving one requirement\<close>

definition OutcomeMet :: string where "OutcomeMet = ''met''"
definition OutcomeBelow :: string where "OutcomeBelow = ''below''"
definition OutcomeUnassessed :: string where "OutcomeUnassessed = ''unassessed''"
definition ReasonNeverObserved :: string where "ReasonNeverObserved = ''never_observed''"
definition ReasonNotAssessed :: string where "ReasonNotAssessed = ''not_assessed''"
definition ReasonIncomparableRubric :: string where "ReasonIncomparableRubric = ''incomparable_rubric''"
definition ReasonIncomparableBand :: string where "ReasonIncomparableBand = ''incomparable_band''"

lemmas outcome_defs = OutcomeMet_def OutcomeBelow_def OutcomeUnassessed_def
lemmas reason_defs = ReasonNeverObserved_def ReasonNotAssessed_def ReasonIncomparableRubric_def
  ReasonIncomparableBand_def

record competency_readiness =
  cp_competency :: string
  cp_target :: string
  cp_outcome :: string
  cp_band :: string
  cp_reason :: string
  cp_observation :: string
  cp_observed_at :: time

text \<open>The four variables the loop of \<open>resolve\<close> carries.\<close>

record scan =
  sc_latest :: "observation option"
  sc_unassessed :: bool
  sc_foreign :: bool
  sc_unplaceable :: bool

definition scan_start :: scan where
  "scan_start = \<lparr>sc_latest = None, sc_unassessed = False, sc_foreign = False, sc_unplaceable = False\<rparr>"

definition scan_step ::
  "string \<Rightarrow> string \<Rightarrow> string list \<Rightarrow> (string \<Rightarrow> bool) \<Rightarrow> observation \<Rightarrow> scan \<Rightarrow> scan" where
  "scan_step competency rubric bands gone x sc =
     (if o_competency x \<noteq> competency \<or> gone (o_id x) then sc
      else if o_rubric_reference x \<noteq> rubric then sc\<lparr>sc_foreign := True\<rparr>
      else if o_status x \<noteq> ''assessed'' then sc\<lparr>sc_unassessed := True\<rparr>
      else if \<not> placed bands (o_band x) then sc\<lparr>sc_unplaceable := True\<rparr>
      else (case sc_latest sc of
              None \<Rightarrow> sc\<lparr>sc_latest := Some x\<rparr>
            | Some l \<Rightarrow> if newer_reading x l then sc\<lparr>sc_latest := Some x\<rparr> else sc))"

definition resolve ::
  "competency_requirement \<Rightarrow> standard \<Rightarrow> (string \<Rightarrow> bool) \<Rightarrow> observation list
     \<Rightarrow> competency_readiness" where
  "resolve r s gone os =
     (let sc = fold (scan_step (cr_competency r) (st_rubric s) (st_bands s) gone) os scan_start;
          answer = \<lparr>cp_competency = cr_competency r, cp_target = cr_target r, cp_outcome = '''',
            cp_band = '''', cp_reason = '''', cp_observation = '''', cp_observed_at = 0\<rparr> in
      case sc_latest sc of
        None \<Rightarrow>
          answer\<lparr>cp_outcome := OutcomeUnassessed,
            cp_reason :=
              (if sc_unassessed sc then ReasonNotAssessed
               else if sc_unplaceable sc then ReasonIncomparableBand
               else if sc_foreign sc then ReasonIncomparableRubric
               else ReasonNeverObserved)\<rparr>
      | Some l \<Rightarrow>
          answer\<lparr>cp_band := o_band l, cp_observation := o_id l, cp_observed_at := o_observed_at l,
            cp_outcome :=
              (if rank_of (st_bands s) (o_band l) \<ge> rank_of (st_bands s) (cr_target r)
               then OutcomeMet else OutcomeBelow)\<rparr>)"

section \<open>Computing a readiness\<close>

record readiness =
  rd_standard :: pin
  rd_role :: string
  rd_discipline :: string
  rd_rubric :: string
  rd_competencies :: "competency_readiness list"
  rd_met :: nat
  rd_below :: nat
  rd_unassessed :: nat
  rd_computed_at :: time

fun count_outcomes :: "competency_readiness list \<Rightarrow> nat \<times> nat \<times> nat \<Rightarrow> nat \<times> nat \<times> nat" where
  "count_outcomes [] acc = acc"
| "count_outcomes (c # cs) (m, b, u) =
     count_outcomes cs
       (if cp_outcome c = OutcomeMet then (Suc m, b, u)
        else if cp_outcome c = OutcomeBelow then (m, Suc b, u)
        else (m, b, Suc u))"

definition recount :: "readiness \<Rightarrow> readiness" where
  "recount r = (case count_outcomes (rd_competencies r) (0, 0, 0) of
     (m, b, u) \<Rightarrow> r\<lparr>rd_met := m, rd_below := b, rd_unassessed := u\<rparr>)"

text \<open>
  \<open>sort.Slice\<close> is not stable, but a coherent standard requires each competency once, so the sort
  key is injective and every sort gives the same list.
\<close>

definition Compute :: "standard \<Rightarrow> observation list \<Rightarrow> time \<Rightarrow> standard_error + readiness" where
  "Compute s os at =
     (case validate s of
        Some e \<Rightarrow> Inl e
      | None \<Rightarrow>
          let requirements = sort_key cr_competency (st_requirements s) in
          Inr (recount
            \<lparr>rd_standard = st_pin s, rd_role = st_role s, rd_discipline = st_discipline s,
             rd_rubric = st_rubric s,
             rd_competencies = map (\<lambda>r. resolve r s (superseded os) os) requirements,
             rd_met = 0, rd_below = 0, rd_unassessed = 0, rd_computed_at = at\<rparr>))"

datatype all_error =
    RoleClaimedTwice string
  | StandardTwice string
  | StandardFailed standard_error

fun compute_each ::
  "string set \<Rightarrow> string set \<Rightarrow> standard list \<Rightarrow> observation list \<Rightarrow> time \<Rightarrow> all_error + readiness list"
where
  "compute_each roles refs [] os at = Inr []"
| "compute_each roles refs (s # ss) os at =
     (if st_role s \<in> roles then Inl (RoleClaimedTwice (st_role s))
      else if pin_reference (st_pin s) \<in> refs then Inl (StandardTwice (pin_reference (st_pin s)))
      else case Compute s os at of
        Inl e \<Rightarrow> Inl (StandardFailed e)
      | Inr r \<Rightarrow>
          (case compute_each (insert (st_role s) roles) (insert (pin_reference (st_pin s)) refs) ss os at of
             Inl e \<Rightarrow> Inl e
           | Inr rs \<Rightarrow> Inr (r # rs)))"

definition ComputeAll ::
  "standard list \<Rightarrow> observation list \<Rightarrow> time \<Rightarrow> all_error + readiness list" where
  "ComputeAll ss os at =
     (case compute_each {} {} ss os at of
        Inl e \<Rightarrow> Inl e
      | Inr rs \<Rightarrow> Inr (sort_key (\<lambda>r. (rd_discipline r, rd_role r)) rs))"

section \<open>Lemmas\<close>

text \<open>What makes a reading count for a competency under a rubric and a scale.\<close>

definition comparable ::
  "string \<Rightarrow> string \<Rightarrow> string list \<Rightarrow> (string \<Rightarrow> bool) \<Rightarrow> observation \<Rightarrow> bool" where
  "comparable competency rubric bands gone x \<longleftrightarrow>
     o_competency x = competency \<and> \<not> gone (o_id x) \<and> o_rubric_reference x = rubric
     \<and> o_status x = ''assessed'' \<and> placed bands (o_band x)"

lemma scan_latest:
  "sc_latest (fold (scan_step c rub bands gone) os sc)
     = pick newer_reading (sc_latest sc) (filter (comparable c rub bands gone) os)"
  by (induction os arbitrary: sc) (auto simp: scan_step_def comparable_def split: option.splits)

lemma scan_unassessed:
  "sc_unassessed (fold (scan_step c rub bands gone) os sc) \<longleftrightarrow> sc_unassessed sc \<or>
     (\<exists>x \<in> set os. o_competency x = c \<and> \<not> gone (o_id x) \<and> o_rubric_reference x = rub
        \<and> o_status x \<noteq> ''assessed'')"
  by (induction os arbitrary: sc) (auto simp: scan_step_def split: option.splits)

lemma scan_foreign:
  "sc_foreign (fold (scan_step c rub bands gone) os sc) \<longleftrightarrow> sc_foreign sc \<or>
     (\<exists>x \<in> set os. o_competency x = c \<and> \<not> gone (o_id x) \<and> o_rubric_reference x \<noteq> rub)"
  by (induction os arbitrary: sc) (auto simp: scan_step_def split: option.splits)

lemma scan_unplaceable:
  "sc_unplaceable (fold (scan_step c rub bands gone) os sc) \<longleftrightarrow> sc_unplaceable sc \<or>
     (\<exists>x \<in> set os. o_competency x = c \<and> \<not> gone (o_id x) \<and> o_rubric_reference x = rub
        \<and> o_status x = ''assessed'' \<and> \<not> placed bands (o_band x))"
  by (induction os arbitrary: sc) (auto simp: scan_step_def split: option.splits)

lemmas scan_fields = scan_latest scan_unassessed scan_foreign scan_unplaceable

lemma scan_start_fields [simp]:
  "sc_latest scan_start = None" "\<not> sc_unassessed scan_start" "\<not> sc_foreign scan_start"
  "\<not> sc_unplaceable scan_start"
  by (simp_all add: scan_start_def)

text \<open>The reading \<open>resolve\<close> settles on.\<close>

definition current_reading ::
  "string \<Rightarrow> string \<Rightarrow> string list \<Rightarrow> observation list \<Rightarrow> observation option" where
  "current_reading c rub bands os =
     pick newer_reading None (filter (comparable c rub bands (superseded os)) os)"

lemma current_reading_Some:
  assumes "current_reading c rub bands os = Some x"
  shows "x \<in> set os" and "comparable c rub bands (superseded os) x"
    and "\<And>y. y \<in> set os \<Longrightarrow> comparable c rub bands (superseded os) y \<Longrightarrow> reading_key y \<le> reading_key x"
  using reading.pick_max [OF assms [unfolded current_reading_def]] by auto

lemma current_reading_None:
  "current_reading c rub bands os = None \<longleftrightarrow>
     (\<forall>x \<in> set os. \<not> comparable c rub bands (superseded os) x)"
  by (simp add: current_reading_def reading.pick_None_iff filter_empty_conv)

lemma resolve_static [simp]:
  "cp_competency (resolve r s gone os) = cr_competency r" "cp_target (resolve r s gone os) = cr_target r"
  by (simp_all add: resolve_def Let_def split: option.split)

lemma resolve_Some:
  assumes "current_reading (cr_competency r) (st_rubric s) (st_bands s) os = Some x"
  shows "cp_outcome (resolve r s (superseded os) os) =
           (if rank_of (st_bands s) (cr_target r) \<le> rank_of (st_bands s) (o_band x)
            then OutcomeMet else OutcomeBelow)"
    and "cp_band (resolve r s (superseded os) os) = o_band x"
    and "cp_observation (resolve r s (superseded os) os) = o_id x"
    and "cp_observed_at (resolve r s (superseded os) os) = o_observed_at x"
    and "cp_reason (resolve r s (superseded os) os) = ''''"
  using assms by (simp_all add: resolve_def Let_def scan_fields current_reading_def)

lemma resolve_None:
  assumes "current_reading (cr_competency r) (st_rubric s) (st_bands s) os = None"
  shows "cp_outcome (resolve r s (superseded os) os) = OutcomeUnassessed"
    and "cp_band (resolve r s (superseded os) os) = ''''"
    and "cp_observation (resolve r s (superseded os) os) = ''''"
    and "cp_reason (resolve r s (superseded os) os)
           \<in> {ReasonNotAssessed, ReasonIncomparableBand, ReasonIncomparableRubric, ReasonNeverObserved}"
  using assms by (simp_all add: resolve_def Let_def scan_fields current_reading_def)

lemma count_outcomes_eq:
  "count_outcomes cs (m, b, u) =
     (m + length (filter (\<lambda>c. cp_outcome c = OutcomeMet) cs),
      b + length (filter (\<lambda>c. cp_outcome c = OutcomeBelow) cs),
      u + length (filter (\<lambda>c. cp_outcome c \<noteq> OutcomeMet \<and> cp_outcome c \<noteq> OutcomeBelow) cs))"
  by (induction cs arbitrary: m b u) (auto simp: outcome_defs)

lemma recount_fields [simp]:
  "rd_competencies (recount r) = rd_competencies r" "rd_role (recount r) = rd_role r"
  "rd_discipline (recount r) = rd_discipline r" "rd_standard (recount r) = rd_standard r"
  "rd_rubric (recount r) = rd_rubric r" "rd_computed_at (recount r) = rd_computed_at r"
  by (simp_all add: recount_def split: prod.split)

lemma recount_totals:
  "rd_met (recount r) = length (filter (\<lambda>c. cp_outcome c = OutcomeMet) (rd_competencies r))"
  "rd_below (recount r) = length (filter (\<lambda>c. cp_outcome c = OutcomeBelow) (rd_competencies r))"
  "rd_unassessed (recount r) = length (filter (\<lambda>c. cp_outcome c \<noteq> OutcomeMet
     \<and> cp_outcome c \<noteq> OutcomeBelow) (rd_competencies r))"
  by (simp_all add: recount_def count_outcomes_eq)

lemma Compute_Inr:
  assumes "Compute s os at = Inr rd"
  shows "validate s = None"
    and "rd_competencies rd =
           map (\<lambda>r. resolve r s (superseded os) os) (sort_key cr_competency (st_requirements s))"
    and "rd_standard rd = st_pin s" and "rd_role rd = st_role s"
    and "rd_discipline rd = st_discipline s"
    and "\<exists>r0. rd = recount r0"
  using assms by (auto simp: Compute_def Let_def split: option.splits)

lemma check_requirements_None:
  "check_requirements bands seen rs = None \<longleftrightarrow>
     distinct (map cr_competency rs) \<and>
     (\<forall>r \<in> set rs. cr_competency r \<noteq> '''' \<and> cr_competency r \<notin> seen \<and> cr_target r \<in> bands)"
proof (induction rs arbitrary: seen)
  case (Cons r rs)
  have "check_requirements bands seen (r # rs) = None \<longleftrightarrow>
      cr_competency r \<noteq> '''' \<and> cr_competency r \<notin> seen \<and> cr_target r \<in> bands
      \<and> check_requirements bands (insert (cr_competency r) seen) rs = None"
    by simp
  then show ?case unfolding Cons.IH by (auto 4 4 intro: rev_image_eqI)
qed simp

lemma check_bands_None:
  "check_bands seen bs = None \<longleftrightarrow> distinct bs \<and> (\<forall>b \<in> set bs. b \<noteq> '''' \<and> b \<notin> seen)"
  by (induction bs arbitrary: seen) auto

lemma validate_None:
  "validate s = None \<longleftrightarrow>
     pin_reference (st_pin s) \<noteq> '''' \<and> pin_version (st_pin s) \<noteq> '''' \<and> pin_digest (st_pin s) \<noteq> ''''
     \<and> st_role s \<noteq> '''' \<and> st_discipline s \<noteq> '''' \<and> st_rubric s \<noteq> ''''
     \<and> st_bands s \<noteq> [] \<and> distinct (st_bands s) \<and> '''' \<notin> set (st_bands s)
     \<and> st_requirements s \<noteq> [] \<and> distinct (map cr_competency (st_requirements s))
     \<and> (\<forall>r \<in> set (st_requirements s). cr_competency r \<noteq> '''' \<and> cr_target r \<in> set (st_bands s))"
proof (cases "check_bands {} (st_bands s)")
  case None
  note bands = None [unfolded check_bands_None]
  show ?thesis
    unfolding validate_def None option.case using bands
    by (auto simp: check_requirements_None)
next
  case (Some e)
  then have "\<not> (distinct (st_bands s) \<and> '''' \<notin> set (st_bands s))"
    using check_bands_None [of "{}" "st_bands s"] by auto
  with Some show ?thesis by (auto simp: validate_def)
qed

lemma current_reading_set:
  assumes "set os = set os'" and "inj_on o_id (set os)"
  shows "current_reading c rub bands os = current_reading c rub bands os'"
proof -
  have gone: "superseded os' = superseded os"
    using assms(1) by (simp add: superseded_def fun_eq_iff)
  show ?thesis
    unfolding current_reading_def gone
    by (rule reading.pick_set)
      (use assms in \<open>auto intro!: inj_on_reading_key intro: inj_on_subset\<close>)
qed

lemma resolve_set:
  assumes "set os = set os'" and "inj_on o_id (set os)"
  shows "resolve r s (superseded os) os = resolve r s (superseded os') os'"
proof -
  have gone: "superseded os' = superseded os"
    using assms(1) by (simp add: superseded_def fun_eq_iff)
  let ?step = "scan_step (cr_competency r) (st_rubric s) (st_bands s) (superseded os)"
  have "sc_latest (fold ?step os scan_start) = sc_latest (fold ?step os' scan_start)"
    using current_reading_set [OF assms, of "cr_competency r" "st_rubric s" "st_bands s"]
    by (simp add: scan_latest current_reading_def gone)
  moreover have "sc_unassessed (fold ?step os scan_start) = sc_unassessed (fold ?step os' scan_start)"
    "sc_foreign (fold ?step os scan_start) = sc_foreign (fold ?step os' scan_start)"
    "sc_unplaceable (fold ?step os scan_start) = sc_unplaceable (fold ?step os' scan_start)"
    unfolding scan_fields assms(1) by simp_all
  ultimately have "fold ?step os scan_start = fold ?step os' scan_start" by simp
  then show ?thesis by (simp add: resolve_def gone)
qed

lemma compute_each_refs:
  "compute_each roles refs ss os at = Inr rs \<Longrightarrow> t \<in> set ss \<Longrightarrow> pin_reference (st_pin t) \<notin> refs"
proof (induction ss arbitrary: roles refs rs)
  case (Cons s ss)
  from Cons.prems(1) obtain rs' where
    rest: "compute_each (insert (st_role s) roles) (insert (pin_reference (st_pin s)) refs) ss os at = Inr rs'"
    and "pin_reference (st_pin s) \<notin> refs"
    by (auto split: if_splits sum.splits)
  with Cons.IH [OF rest] Cons.prems(2) show ?case by auto
qed simp

lemma compute_each_Inr:
  assumes "compute_each roles refs ss os at = Inr rs"
  shows "list_all2 (\<lambda>s r. Compute s os at = Inr r) ss rs \<and> distinct (map st_role ss)
       \<and> distinct (map (\<lambda>s. pin_reference (st_pin s)) ss) \<and> set (map st_role ss) \<inter> roles = {}"
  using assms
proof (induction ss arbitrary: roles refs rs)
  case (Cons s ss)
  from Cons.prems obtain r rs' where r: "Compute s os at = Inr r"
    and rest: "compute_each (insert (st_role s) roles) (insert (pin_reference (st_pin s)) refs) ss os at = Inr rs'"
    and "rs = r # rs'" "st_role s \<notin> roles"
    by (auto split: if_splits sum.splits)
  from Cons.IH [OF rest] have IH: "list_all2 (\<lambda>s r. Compute s os at = Inr r) ss rs'"
    "distinct (map st_role ss)" "distinct (map (\<lambda>s. pin_reference (st_pin s)) ss)"
    "set (map st_role ss) \<inter> insert (st_role s) roles = {}" by auto
  have "pin_reference (st_pin s) \<notin> set (map (\<lambda>s. pin_reference (st_pin s)) ss)"
    using compute_each_refs [OF rest] by force
  with IH r \<open>rs = r # rs'\<close> \<open>st_role s \<notin> roles\<close> show ?case by auto
qed simp

section \<open>Properties\<close>

text \<open>A readiness answers every requirement exactly once and hides nothing in its totals: the
  competencies answered are the standard's, in ascending order without repetition, and met, below
  and unassessed partition them.\<close>

theorem readiness_partitions_requirements:
  assumes "Compute s os at = Inr rd"
  shows "map cp_competency (rd_competencies rd) = sort (map cr_competency (st_requirements s))
       \<and> distinct (map cp_competency (rd_competencies rd))
       \<and> rd_met rd + rd_below rd + rd_unassessed rd = length (st_requirements s)"
proof -
  note Inr = Compute_Inr [OF assms]
  let ?rs = "sort_key cr_competency (st_requirements s)"
  have eq: "map cp_competency (rd_competencies rd) = map cr_competency ?rs"
    by (simp add: Inr(2))
  have "map cr_competency ?rs = sort (map cr_competency (st_requirements s))"
    by (rule sorted_unique) simp_all
  moreover have "distinct (map cr_competency (st_requirements s))"
    using Inr(1) by (simp add: validate_None)
  moreover have "rd_met rd + rd_below rd + rd_unassessed rd = length (rd_competencies rd)"
    using Inr(6) length_filter_partition3 [of "rd_competencies rd"
        "\<lambda>c. cp_outcome c = OutcomeMet" "\<lambda>c. cp_outcome c = OutcomeBelow"]
    by (auto simp: recount_totals outcome_defs)
  ultimately show ?thesis unfolding eq by (simp add: Inr(2))
qed

definition ex_standard :: standard where
  "ex_standard = \<lparr>st_pin = \<lparr>pin_reference = ''std/be'', pin_version = ''1'', pin_digest = ''d''\<rparr>,
     st_role = ''backend'', st_discipline = ''eng'', st_rubric = ''rubric/core'',
     st_bands = [''weak'', ''solid'', ''strong''],
     st_requirements = [\<lparr>cr_competency = ''design'', cr_target = ''solid''\<rparr>,
       \<lparr>cr_competency = ''coding'', cr_target = ''solid''\<rparr>]\<rparr>"

definition ex_reading :: "string \<Rightarrow> string \<Rightarrow> string \<Rightarrow> string \<Rightarrow> time \<Rightarrow> observation" where
  "ex_reading i c b sup_of t = \<lparr>o_id = i, o_session = ''s'', o_evaluation = ''e'', o_competency = c,
     o_status = ''assessed'', o_band = b, o_rubric_reference = ''rubric/core'',
     o_rubric_version = ''1'', o_supersedes = sup_of, o_observed_at = t\<rparr>"

definition ex_history :: "observation list" where
  "ex_history = [ex_reading ''o1'' ''design'' ''weak'' '''' 10,
     ex_reading ''o2'' ''design'' ''strong'' ''o1'' 20]"

lemmas ex_defs = ex_standard_def ex_history_def ex_reading_def

lemma ex_Compute: "\<exists>rd. Compute ex_standard ex_history 30 = Inr rd"
  by (simp add: Compute_def validate_def ex_standard_def Let_def)

lemma ex_design:
  assumes "Compute ex_standard ex_history 30 = Inr rd"
  shows "\<exists>c \<in> set (rd_competencies rd). cp_competency c = ''design''"
  using Compute_Inr(2) [OF assms] by (simp add: ex_standard_def)

theorem readiness_partitions_requirements_witness:
  "\<exists>rd. Compute ex_standard ex_history 30 = Inr rd \<and> rd_met rd + rd_below rd + rd_unassessed rd = 2"
proof -
  obtain rd where rd: "Compute ex_standard ex_history 30 = Inr rd" using ex_Compute by blast
  from readiness_partitions_requirements [OF this] have "rd_met rd + rd_below rd + rd_unassessed rd = 2"
    by (simp add: ex_standard_def)
  with rd show ?thesis by blast
qed

definition counts_for :: "standard \<Rightarrow> observation list \<Rightarrow> string \<Rightarrow> observation \<Rightarrow> bool" where
  "counts_for s os c = comparable c (st_rubric s) (st_bands s) (superseded os)"

text \<open>C39: Every answer of a readiness is backed by the history. A competency is unassessed exactly
  when no reading is comparable (right competency and rubric, assessed, a band of the scale, not
  superseded), and then it has a reason; it is met or below exactly by the latest comparable
  reading, which it cites.\<close>

theorem readiness_answer_sound:
  assumes "Compute s os at = Inr rd" and "c \<in> set (rd_competencies rd)"
  shows "(cp_outcome c = OutcomeUnassessed \<longleftrightarrow> (\<forall>x \<in> set os. \<not> counts_for s os (cp_competency c) x))
       \<and> (cp_outcome c = OutcomeUnassessed \<longleftrightarrow> cp_reason c \<noteq> '''')
       \<and> (cp_outcome c \<noteq> OutcomeUnassessed \<longrightarrow>
            (\<exists>x \<in> set os. counts_for s os (cp_competency c) x \<and> (\<forall>y \<in> set os. counts_for s os (cp_competency c) y \<longrightarrow> reading_key y \<le> reading_key x)
               \<and> cp_observation c = o_id x \<and> cp_band c = o_band x
               \<and> cp_outcome c = (if rank_of (st_bands s) (cp_target c) \<le> rank_of (st_bands s) (o_band x)
                                 then OutcomeMet else OutcomeBelow)))"
proof -
  from assms(1,2) obtain r where c: "c = resolve r s (superseded os) os"
    by (auto simp: Compute_Inr(2))
  show ?thesis
  proof (cases "current_reading (cr_competency r) (st_rubric s) (st_bands s) os")
    case None
    then have "\<forall>x \<in> set os. \<not> counts_for s os (cp_competency c) x" by (simp add: current_reading_None counts_for_def c)
    then show ?thesis using resolve_None [OF None] by (auto simp: c reason_defs)
  next
    case (Some x)
    note cur = current_reading_Some [OF Some]
    have "counts_for s os (cp_competency c) x" using cur(2) by (simp add: counts_for_def c)
    moreover have "\<forall>y \<in> set os. counts_for s os (cp_competency c) y \<longrightarrow> reading_key y \<le> reading_key x"
      using cur(3) by (simp add: counts_for_def c)
    ultimately show ?thesis
      using cur(1) resolve_Some [OF Some] by (auto simp: c outcome_defs)
  qed
qed

theorem readiness_answer_sound_witness:
  "\<exists>rd. \<exists>c \<in> set (rd_competencies rd). Compute ex_standard ex_history 30 = Inr rd
     \<and> cp_competency c = ''design'' \<and> cp_outcome c = OutcomeMet"
proof -
  obtain rd where rd: "Compute ex_standard ex_history 30 = Inr rd" using ex_Compute by blast
  obtain c where c: "c \<in> set (rd_competencies rd)" "cp_competency c = ''design''"
    using ex_design [OF rd] by blast
  have "comparable ''design'' ''rubric/core'' [''weak'', ''solid'', ''strong''] (superseded ex_history)
      (ex_reading ''o2'' ''design'' ''strong'' ''o1'' 20)"
    by (simp add: comparable_def superseded_def ex_history_def ex_reading_def)
  with readiness_answer_sound [OF rd c(1)] c have "cp_outcome c \<noteq> OutcomeUnassessed"
    by (auto simp: ex_history_def ex_standard_def counts_for_def)
  moreover have "\<not> comparable ''design'' ''rubric/core'' [''weak'', ''solid'', ''strong'']
      (superseded ex_history) (ex_reading ''o1'' ''design'' ''weak'' '''' 10)"
    by (simp add: comparable_def superseded_def ex_history_def ex_reading_def)
  moreover have "cp_target c = ''solid''"
    using Compute_Inr(2) [OF rd] c by (auto simp: ex_standard_def)
  ultimately have "cp_outcome c = OutcomeMet"
    using readiness_answer_sound [OF rd c(1)] c(2)
    by (auto simp: counts_for_def ex_history_def ex_standard_def rank_of_def rank_def ex_reading_def)
  with rd c show ?thesis by blast
qed

text \<open>Readiness is a function of what the history holds and not of the order in which it is read:
  two readings of the same rows, each with its own identifier, give the same answer or the same
  refusal.\<close>

theorem readiness_order_independent:
  assumes "set os = set os'" and "inj_on o_id (set os)"
  shows "Compute s os at = Compute s os' at"
  unfolding Compute_def resolve_set [OF assms] by simp

theorem readiness_order_independent_witness:
  "Compute ex_standard ex_history 30 = Compute ex_standard (rev ex_history) 30"
  by (rule readiness_order_independent) (auto simp: ex_history_def ex_reading_def)

text \<open>A superseded reading is never current: once some row of the history supersedes an
  identifier, no answer of any readiness computed from that history cites it.\<close>

theorem superseded_never_cited:
  assumes "Compute s os at = Inr rd" and "c \<in> set (rd_competencies rd)"
    and "x \<in> set os" and "o_supersedes x = i" and "i \<noteq> ''''"
  shows "cp_observation c \<noteq> i"
proof -
  from assms(1,2) obtain r where c: "c = resolve r s (superseded os) os"
    by (auto simp: Compute_Inr(2))
  have gone: "superseded os i" using assms(3-5) by (auto simp: superseded_def)
  show ?thesis
  proof (cases "current_reading (cr_competency r) (st_rubric s) (st_bands s) os")
    case None
    with assms(5) show ?thesis using resolve_None(3) by (simp add: c)
  next
    case (Some y)
    from current_reading_Some(2) [OF this] gone show ?thesis
      using resolve_Some(3) [OF Some] by (auto simp: c comparable_def)
  qed
qed

theorem superseded_never_cited_witness:
  "\<exists>rd. Compute ex_standard ex_history 30 = Inr rd
     \<and> (\<forall>c \<in> set (rd_competencies rd). cp_observation c \<noteq> ''o1'')"
proof -
  obtain rd where rd: "Compute ex_standard ex_history 30 = Inr rd" using ex_Compute by blast
  have "ex_reading ''o2'' ''design'' ''strong'' ''o1'' 20 \<in> set ex_history"
    by (simp add: ex_history_def)
  from superseded_never_cited [OF rd _ this] rd show ?thesis by (auto simp: ex_reading_def)
qed

text \<open>Roles are never folded together: computing several standards gives, up to the order by
  discipline and role, exactly the readiness of each standard on its own, one per standard, and it
  is refused when two of them claim one role or one reference.\<close>

theorem ComputeAll_one_answer_per_role:
  assumes "ComputeAll ss os at = Inr rds"
  shows "\<exists>rs. mset rds = mset rs \<and> list_all2 (\<lambda>s r. Compute s os at = Inr r) ss rs
       \<and> sorted (map (\<lambda>r. (rd_discipline r, rd_role r)) rds)
       \<and> distinct (map st_role ss) \<and> distinct (map (\<lambda>s. pin_reference (st_pin s)) ss)"
proof -
  from assms obtain rs where "compute_each {} {} ss os at = Inr rs"
    and "rds = sort_key (\<lambda>r. (rd_discipline r, rd_role r)) rs"
    by (auto simp: ComputeAll_def split: sum.splits)
  with compute_each_Inr [OF this(1)] show ?thesis by (intro exI [of _ rs]) simp
qed

theorem ComputeAll_one_answer_per_role_witness:
  "\<exists>rds. ComputeAll [ex_standard] ex_history 30 = Inr rds \<and> length rds = 1"
proof -
  have "\<exists>rds. ComputeAll [ex_standard] ex_history 30 = Inr rds"
    using ex_Compute by (auto simp: ComputeAll_def)
  then obtain rds where rds: "ComputeAll [ex_standard] ex_history 30 = Inr rds" by blast
  from ComputeAll_one_answer_per_role [OF this] have "length rds = 1"
    by (auto dest!: mset_eq_length list_all2_lengthD)
  with rds show ?thesis by blast
qed

end
