(* ===== verification/Targeting.thy ===== *)
theory Targeting
  imports Readiness
begin

text \<open>
  \<open>services/platform/internal/progression/targeting.go\<close>: which competencies the next session
  should cover, and why (\<open>Recommend\<close>, \<open>latestPerCompetency\<close>, \<open>assess\<close>, \<open>targetPriority\<close>,
  \<open>caution\<close>).  The catalogue port \<open>RoleCompetencies\<close> is implemented elsewhere: its answer for the
  role, an error or the list of competencies, is an argument.  Sentences are kept as data: the
  reason and the values the sentence quotes (\<open>because\<close>).
\<close>

section \<open>Requests and recommendations\<close>

definition TargetBelowBand :: string where "TargetBelowBand = ''below_band''"
definition TargetNeverObserved :: string where "TargetNeverObserved = ''never_observed''"
definition TargetStaleEvidence :: string where "TargetStaleEvidence = ''stale_evidence''"

lemmas target_reason_defs = TargetBelowBand_def TargetNeverObserved_def TargetStaleEvidence_def

definition reservedSlots :: int where "reservedSlots = 1"

record targeting_request =
  tr_role :: string
  tr_rubric :: string
  tr_bands :: "string list"
  tr_slots :: int

text \<open>The sentence a candidate reads, by its format and arguments.\<close>

datatype because =
    NothingAsked string
  | BelowTop string string
  | OldReading string string int

record target =
  t_competency :: string
  t_reason :: string
  t_band :: string
  t_observation :: string
  t_observed_at :: time
  t_evidence :: evidence
  t_because :: because

datatype caution_text = NoCaution | AllForeign | NoHistory | FewReadings

record recommendation =
  rc_role :: string
  rc_rubric :: string
  rc_covers :: "string list"
  rc_targeted :: "target list"
  rc_cautious :: bool
  rc_caution :: caution_text

datatype targeting_error = NoRole | NoScale | CatalogueFailed | NothingToAsk string

section \<open>The latest comparable reading of each competency\<close>

definition usable :: "targeting_request \<Rightarrow> observation list \<Rightarrow> observation \<Rightarrow> bool" where
  "usable q os x \<longleftrightarrow> \<not> (superseded os (o_id x) \<or> o_rubric_reference x \<noteq> tr_rubric q
     \<or> o_status x \<noteq> ''assessed'') \<and> placed (tr_bands q) (o_band x)"

fun latest_step ::
  "observation \<Rightarrow> (string \<rightharpoonup> observation) \<times> nat \<Rightarrow> (string \<rightharpoonup> observation) \<times> nat" where
  "latest_step x (latest, n) =
     (case latest (o_competency x) of
        None \<Rightarrow> (latest(o_competency x \<mapsto> x), Suc n)
      | Some held \<Rightarrow>
          ((if newer_reading x held then latest(o_competency x \<mapsto> x) else latest), Suc n))"

definition latestPerCompetency ::
  "targeting_request \<Rightarrow> observation list \<Rightarrow> (string \<rightharpoonup> observation) \<times> nat" where
  "latestPerCompetency q os =
     fold (\<lambda>x acc. if usable q os x then latest_step x acc else acc) os (Map.empty, 0)"

section \<open>Assessing one competency\<close>

definition assess ::
  "string \<Rightarrow> observation option \<Rightarrow> targeting_request \<Rightarrow> time \<Rightarrow> target option" where
  "assess c reading q at =
     (case (case reading of None \<Rightarrow> None | Some x \<Rightarrow> if o_id x = '''' then None else Some x) of
        None \<Rightarrow>
          Some \<lparr>t_competency = c, t_reason = TargetNeverObserved, t_band = '''', t_observation = '''',
            t_observed_at = 0, t_evidence = Freshness 0 at, t_because = NothingAsked c\<rparr>
      | Some x \<Rightarrow>
          let ev = Freshness (o_observed_at x) at;
              t = \<lparr>t_competency = c, t_reason = '''', t_band = o_band x, t_observation = o_id x,
                t_observed_at = o_observed_at x, t_evidence = ev, t_because = NothingAsked c\<rparr>;
              best = int (length (tr_bands q)) - 1 in
          (if int (rank_of (tr_bands q) (o_band x)) < best
           then Some (t\<lparr>t_reason := TargetBelowBand, t_because := BelowTop c (o_band x)\<rparr>)
           else if ev_standing ev = EvidenceStale
           then Some (t\<lparr>t_reason := TargetStaleEvidence,
                  t_because := OldReading c (o_band x) (ev_age_days ev)\<rparr>)
           else None))"

definition targetPriority :: "string list \<Rightarrow> target \<Rightarrow> nat" where
  "targetPriority bands t =
     (if t_reason t = TargetNeverObserved then 0
      else if t_reason t = TargetBelowBand then 10 + rank_of bands (t_band t)
      else 100)"

definition caution :: "nat \<Rightarrow> nat \<Rightarrow> observation list \<Rightarrow> bool \<times> caution_text" where
  "caution readings competencies os =
     (if readings = 0
      then (if os \<noteq> [] then (True, AllForeign) else (True, NoHistory))
      else if readings \<le> competencies then (True, FewReadings)
      else (False, NoCaution))"

section \<open>The recommendation\<close>

text \<open>The loop that fills what the targeted competencies leave, in the catalogue's order.\<close>

fun fill_covers :: "int \<Rightarrow> string set \<Rightarrow> string list \<Rightarrow> string list \<Rightarrow> string list" where
  "fill_covers slots chosen [] covers = covers"
| "fill_covers slots chosen (c # cs) covers =
     (if int (length covers) \<ge> slots then covers
      else if c \<in> chosen then fill_covers slots chosen cs covers
      else fill_covers slots chosen cs (covers @ [c]))"

text \<open>The competencies worth asking about, in the order they compete for the slots.\<close>

definition candidates_for ::
  "targeting_request \<Rightarrow> string list \<Rightarrow> observation list \<Rightarrow> time \<Rightarrow> target list" where
  "candidates_for q cs os at =
     sort_key (targetPriority (tr_bands q))
       (List.map_filter (\<lambda>c. assess c (fst (latestPerCompetency q os) c) q at) cs)"

definition Recommend ::
  "targeting_request \<Rightarrow> string list option \<Rightarrow> observation list \<Rightarrow> time
     \<Rightarrow> targeting_error + recommendation" where
  "Recommend q catalogue os at =
     (if tr_role q = '''' then Inl NoRole
      else if tr_rubric q = '''' \<or> tr_bands q = [] then Inl NoScale
      else case catalogue of
        None \<Rightarrow> Inl CatalogueFailed
      | Some cs \<Rightarrow>
          (if cs = [] then Inl (NothingToAsk (tr_role q))
           else
             let candidates = candidates_for q cs os at;
                 (cautious, text) = caution (snd (latestPerCompetency q os)) (length cs) os;
                 slots = min (tr_slots q) (int (length cs));
                 room = max 0 (slots - reservedSlots);
                 targeted = take (nat room) candidates;
                 chosen = map t_competency targeted in
             Inr \<lparr>rc_role = tr_role q, rc_rubric = tr_rubric q,
               rc_covers = fill_covers slots (set chosen) cs chosen,
               rc_targeted = targeted, rc_cautious = cautious, rc_caution = text\<rparr>))"

section \<open>Lemmas\<close>

lemma latest_fold:
  "fst (fold (\<lambda>x acc. if usable q os x then latest_step x acc else acc) xs (m, n)) c
     = pick newer_reading (m c) (filter (\<lambda>x. usable q os x \<and> o_competency x = c) xs)"
  by (induction xs arbitrary: m n) (auto split: option.splits)

lemma usable_comparable:
  "usable q os x \<and> o_competency x = c \<longleftrightarrow> comparable c (tr_rubric q) (tr_bands q) (superseded os) x"
  by (auto simp: usable_def comparable_def)

text \<open>Targeting reads a competency through the same reading as readiness and goals do.\<close>

lemma latest_is_current:
  "fst (latestPerCompetency q os) c = current_reading c (tr_rubric q) (tr_bands q) os"
  by (simp add: latestPerCompetency_def latest_fold usable_comparable current_reading_def)

lemma covered_fold:
  "snd (fold (\<lambda>x acc. if usable q os x then latest_step x acc else acc) xs (m, n))
     = n + length (filter (usable q os) xs)"
  by (induction xs arbitrary: m n) (auto split: option.splits)

lemma latest_count: "snd (latestPerCompetency q os) = length (filter (usable q os) os)"
  by (simp add: latestPerCompetency_def covered_fold)

lemma assess_competency [simp]: "assess c r q at = Some t \<Longrightarrow> t_competency t = c"
  by (auto simp: assess_def Let_def split: option.splits if_splits)

lemma assess_blank:
  "assess c None q at = Some t \<Longrightarrow> t_reason t = TargetNeverObserved \<and> t_band t = ''''
     \<and> t_observation t = '''' \<and> t_observed_at t = 0 \<and> t_evidence t = Freshness 0 at"
  by (auto simp: assess_def)

lemma assess_reading:
  "assess c (Some x) q at = Some t \<Longrightarrow> o_id x \<noteq> '''' \<Longrightarrow>
     t_band t = o_band x \<and> t_observation t = o_id x \<and> t_observed_at t = o_observed_at x
     \<and> t_evidence t = Freshness (o_observed_at x) at
     \<and> (t_reason t = TargetBelowBand \<and> int (rank_of (tr_bands q) (o_band x)) < int (length (tr_bands q)) - 1
        \<or> t_reason t = TargetStaleEvidence \<and> ev_standing (t_evidence t) = EvidenceStale)"
  by (auto simp: assess_def Let_def split: if_splits)

lemma assess_list:
  "map t_competency (List.map_filter (\<lambda>c. assess c (f c) q at) cs)
     = filter (\<lambda>c. assess c (f c) q at \<noteq> None) cs"
  by (induction cs) (auto simp: List.map_filter_simps split: option.split)

lemma candidates_competencies:
  "mset (map t_competency (candidates_for q cs os at)) =
     mset (filter (\<lambda>c. assess c (fst (latestPerCompetency q os) c) q at \<noteq> None) cs)"
proof -
  have "mset (map t_competency (candidates_for q cs os at)) =
      mset (map t_competency (List.map_filter (\<lambda>c. assess c (fst (latestPerCompetency q os) c) q at) cs))"
    unfolding candidates_for_def mset_map by simp
  then show ?thesis unfolding assess_list .
qed

lemma candidates_set:
  "set (candidates_for q cs os at) =
     {t. \<exists>c \<in> set cs. assess c (current_reading c (tr_rubric q) (tr_bands q) os) q at = Some t}"
  by (force simp: candidates_for_def List.map_filter_def latest_is_current)

lemma candidates_distinct:
  assumes "distinct cs"
  shows "distinct (map t_competency (candidates_for q cs os at))"
  using assms unfolding mset_eq_imp_distinct_iff [OF candidates_competencies] by simp

lemma fill_covers_take:
  "fill_covers (int n) chosen cs covers =
     covers @ take (n - length covers) (filter (\<lambda>c. c \<notin> chosen) cs)"
proof (induction cs arbitrary: covers)
  case (Cons c cs)
  show ?case
  proof (cases "n \<le> length covers")
    case False
    then obtain k where k: "n - length covers = Suc k" by (metis Suc_diff_Suc not_le)
    then have "n - length (covers @ [c]) = k" by simp
    with k Cons False show ?thesis by (simp del: length_append)
  qed simp
qed simp

lemma fill_covers_stop: "slots \<le> int (length covers) \<Longrightarrow> fill_covers slots chosen cs covers = covers"
  by (cases cs) auto

lemma Recommend_Inr:
  assumes "Recommend q cat os at = Inr r"
  shows "\<exists>cs. cat = Some cs \<and> cs \<noteq> [] \<and> tr_role q \<noteq> '''' \<and> tr_rubric q \<noteq> '''' \<and> tr_bands q \<noteq> []
     \<and> rc_targeted r = take (nat (min (tr_slots q) (int (length cs)) - 1)) (candidates_for q cs os at)
     \<and> rc_covers r = fill_covers (min (tr_slots q) (int (length cs)))
          (t_competency ` set (rc_targeted r)) cs (map t_competency (rc_targeted r))
     \<and> (rc_cautious r, rc_caution r) = caution (length (filter (usable q os) os)) (length cs) os"
  using assms
  by (auto simp: Recommend_def Let_def reservedSlots_def latest_count max_def split: if_splits option.splits
      prod.splits)

section \<open>Properties\<close>

text \<open>The history never claims the whole session. A recommendation covers as many distinct
  competencies of the catalogue as there are slots and competencies for, the targeted ones first,
  and where it covers anything at least one slot is not targeted.\<close>

theorem targeting_leaves_breadth:
  assumes "Recommend q (Some cs) os at = Inr r" and "distinct cs"
  shows "length (rc_covers r) = nat (min (tr_slots q) (int (length cs)))
       \<and> distinct (rc_covers r) \<and> set (rc_covers r) \<subseteq> set cs
       \<and> take (length (rc_targeted r)) (rc_covers r) = map t_competency (rc_targeted r)
       \<and> length (rc_targeted r) \<le> length (rc_covers r) - 1"
proof -
  let ?k = "nat (min (tr_slots q) (int (length cs)))"
  let ?names = "map t_competency (rc_targeted r)"
  note r = Recommend_Inr [OF assms(1), simplified]
  have targeted: "rc_targeted r = take (?k - 1) (candidates_for q cs os at)"
  proof -
    have "nat (x - 1) = nat x - 1" for x :: int by arith
    then show ?thesis using r by metis
  qed
  have le: "length ?names \<le> ?k - 1" unfolding targeted by simp
  have d: "distinct ?names"
    using candidates_distinct [OF assms(2), of q os at] unfolding targeted take_map [symmetric]
    by (rule distinct_take)
  have sub: "set ?names \<subseteq> set cs"
    using set_take_subset [of "?k - 1" "candidates_for q cs os at"] unfolding targeted
    by (auto simp: candidates_set)
  let ?rest = "filter (\<lambda>c. c \<notin> t_competency ` set (rc_targeted r)) cs"
  have covers: "rc_covers r = ?names @ take (?k - length ?names) ?rest"
  proof (cases "tr_slots q < 0")
    case True
    with r show ?thesis by (simp add: fill_covers_stop)
  next
    case False
    then have "min (tr_slots q) (int (length cs)) = int ?k" by simp
    with r fill_covers_take [of ?k] show ?thesis by metis
  qed
  have "length ?rest = length cs - length ?names"
  proof -
    have "set ?rest = set cs - set ?names" by auto
    moreover have "distinct ?rest" using assms(2) by simp
    ultimately have "length ?rest = card (set cs - set ?names)" by (metis distinct_card)
    also have "\<dots> = length cs - length ?names"
      using card_Diff_subset [OF _ sub] distinct_card [OF d] distinct_card [OF assms(2)]
      by (metis List.finite_set)
    finally show ?thesis .
  qed
  moreover have "?k \<le> length cs" by simp
  moreover have "n + min (c - n) (k - n) = k" if "n \<le> k - 1" "k \<le> c" for n c k :: nat
    using that by arith
  ultimately have "length (rc_covers r) = ?k"
    using le unfolding covers length_append length_take by metis
  moreover have "distinct (rc_covers r)"
    using d assms(2) set_take_subset [of "?k - length ?names" ?rest] unfolding covers by auto
  moreover have "set (rc_covers r) \<subseteq> set cs"
    using sub set_take_subset [of "?k - length ?names" ?rest] unfolding covers by auto
  ultimately show ?thesis using le by (simp add: covers)
qed

definition ex_request :: targeting_request where
  "ex_request = \<lparr>tr_role = ''backend'', tr_rubric = ''rubric/core'',
     tr_bands = [''weak'', ''solid'', ''strong''], tr_slots = 3\<rparr>"

definition ex_recommendation :: recommendation where
  "ex_recommendation = \<lparr>rc_role = ''backend'', rc_rubric = ''rubric/core'',
     rc_covers = [''coding'', ''testing'', ''design''],
     rc_targeted =
       [\<lparr>t_competency = ''coding'', t_reason = TargetNeverObserved, t_band = '''', t_observation = '''',
          t_observed_at = 0, t_evidence = Freshness 0 30, t_because = NothingAsked ''coding''\<rparr>,
        \<lparr>t_competency = ''testing'', t_reason = TargetNeverObserved, t_band = '''', t_observation = '''',
          t_observed_at = 0, t_evidence = Freshness 0 30, t_because = NothingAsked ''testing''\<rparr>],
     rc_cautious = True, rc_caution = FewReadings\<rparr>"

lemma ex_Recommend:
  "Recommend ex_request (Some [''design'', ''coding'', ''testing'']) ex_history 30 = Inr ex_recommendation"
  by (simp add: Recommend_def ex_request_def ex_recommendation_def ex_history_def ex_reading_def
      candidates_for_def latestPerCompetency_def usable_def superseded_def assess_def caution_def
      targetPriority_def target_reason_defs reservedSlots_def rank_of_def rank_def
      Freshness_def is_zero_def time_sub_def duration_defs freshDays_def max_duration_def
      min_duration_def standing_defs Let_def)

theorem targeting_leaves_breadth_witness: "length (rc_covers ex_recommendation) = 3"
  using targeting_leaves_breadth [OF ex_Recommend] by (simp add: ex_request_def)

text \<open>The slots go to the competencies that most want asking about. What is targeted is in the order
  of priority (a blank, then weak readings weakest first, then stale ones), everything targeted is
  wanted, and a wanted competency that is left out gives way only to a full room of targets none of
  which has a lower priority.\<close>

theorem targeting_priority_order:
  assumes "Recommend q (Some cs) os at = Inr r"
  defines "wanted \<equiv> candidates_for q cs os at"
  shows "sorted (map (targetPriority (tr_bands q)) (rc_targeted r))
       \<and> set (rc_targeted r) \<subseteq> set wanted
       \<and> (\<forall>t \<in> set wanted - set (rc_targeted r).
            int (length (rc_targeted r)) = max 0 (min (tr_slots q) (int (length cs)) - 1)
            \<and> (\<forall>u \<in> set (rc_targeted r). targetPriority (tr_bands q) u \<le> targetPriority (tr_bands q) t))"
proof -
  let ?k = "nat (min (tr_slots q) (int (length cs)) - 1)"
  let ?p = "targetPriority (tr_bands q)"
  have r: "rc_targeted r = take ?k wanted"
    using Recommend_Inr [OF assms(1)] by (simp add: wanted_def)
  have sorted: "sorted (map ?p wanted)" by (simp add: wanted_def candidates_for_def)
  then have split: "sorted (map ?p (take ?k wanted @ drop ?k wanted))" by simp
  then have "\<forall>u \<in> set (take ?k wanted). \<forall>t \<in> set (drop ?k wanted). ?p u \<le> ?p t"
    unfolding map_append sorted_append by auto
  moreover have "t \<in> set (drop ?k wanted) \<and> ?k \<le> length wanted"
    if "t \<in> set wanted - set (take ?k wanted)" for t
  proof -
    from that have "t \<in> set (take ?k wanted @ drop ?k wanted)" "t \<notin> set (take ?k wanted)" by simp_all
    then have "t \<in> set (drop ?k wanted)" unfolding set_append by blast
    then show ?thesis by (cases "?k \<le> length wanted") auto
  qed
  moreover have "int (length (take ?k wanted)) = max 0 (min (tr_slots q) (int (length cs)) - 1)"
    if "?k \<le> length wanted"
  proof -
    have "int (nat m) = max 0 m" for m by simp
    with that show ?thesis by (metis length_take min.absorb2)
  qed
  ultimately show ?thesis
    using split set_take_subset [of ?k wanted] unfolding r map_append sorted_append by blast
qed

theorem targeting_priority_order_witness:
  "sorted (map (targetPriority (tr_bands ex_request)) (rc_targeted ex_recommendation))"
  using targeting_priority_order [OF ex_Recommend] by blast

text \<open>A blank in the history is never rendered as a weak result. A competency is targeted as never
  observed exactly when readiness against the same rubric and scale has nothing to say about it, and
  then it carries no band and no reading; otherwise it is targeted with the band, the reading and the
  day that readiness cites, either below the top band of the scale or stale.\<close>

theorem targeting_agrees_with_readiness:
  assumes "Recommend q (Some cs) os at = Inr r" and "t \<in> set (rc_targeted r)"
    and "\<And>x. x \<in> set os \<Longrightarrow> o_id x \<noteq> ''''"
    and "st_rubric s = tr_rubric q" and "st_bands s = tr_bands q" and "cr_competency w = t_competency t"
  defines "answer \<equiv> resolve w s (superseded os) os"
  shows "(t_reason t = TargetNeverObserved \<longleftrightarrow> cp_outcome answer = OutcomeUnassessed)
       \<and> t_competency t \<in> set cs
       \<and> t_band t = cp_band answer \<and> t_observation t = cp_observation answer
       \<and> t_observed_at t = cp_observed_at answer \<and> t_evidence t = Freshness (t_observed_at t) at
       \<and> (t_reason t = TargetNeverObserved
          \<or> t_reason t = TargetBelowBand \<and> t_band t \<noteq> last (tr_bands q)
          \<or> t_reason t = TargetStaleEvidence \<and> ev_standing (t_evidence t) = EvidenceStale)"
proof -
  from Recommend_Inr [OF assms(1)] have bands: "tr_bands q \<noteq> []"
    and "rc_targeted r = take (nat (min (tr_slots q) (int (length cs)) - 1)) (candidates_for q cs os at)"
    by simp_all
  with assms(2) have "t \<in> set (candidates_for q cs os at)" by (metis in_set_takeD)
  then obtain c where c: "c \<in> set cs"
    and t: "assess c (current_reading c (tr_rubric q) (tr_bands q) os) q at = Some t"
    by (auto simp: candidates_set)
  have name: "t_competency t = c" using t by simp
  show ?thesis
  proof (cases "current_reading c (tr_rubric q) (tr_bands q) os")
    case None
    with resolve_None [of w s os] assms(4-6)
    have "cp_outcome answer = OutcomeUnassessed" "cp_band answer = ''''" "cp_observation answer = ''''"
      by (simp_all add: answer_def name)
    moreover have "cp_observed_at answer = 0"
      using None assms(4-6)
      by (simp add: answer_def name resolve_def Let_def scan_fields current_reading_def)
    ultimately show ?thesis using assess_blank [OF t [unfolded None]] c name by simp
  next
    case (Some x)
    note read = resolve_Some [of w s os x]
    from Some assms(4-6) read have ans: "cp_outcome answer \<noteq> OutcomeUnassessed" "cp_band answer = o_band x"
      "cp_observation answer = o_id x" "cp_observed_at answer = o_observed_at x"
      by (simp_all add: answer_def name outcome_defs)
    have "o_id x \<noteq> ''''" using current_reading_Some(1) [OF Some] assms(3) by blast
    note read = assess_reading [OF t [unfolded Some] this]
    have "o_band x \<noteq> last (tr_bands q)"
      if "int (rank_of (tr_bands q) (o_band x)) < int (length (tr_bands q)) - 1"
      using that rank_of_last [OF bands] by auto
    with read ans c name show ?thesis by (auto simp: target_reason_defs)
  qed
qed

theorem targeting_agrees_with_readiness_witness:
  "\<exists>t \<in> set (rc_targeted ex_recommendation). t_competency t = ''coding''
     \<and> cp_outcome (resolve \<lparr>cr_competency = ''coding'', cr_target = ''solid''\<rparr> ex_standard
          (superseded ex_history) ex_history) = OutcomeUnassessed"
proof -
  let ?t = "rc_targeted ex_recommendation ! 0"
  obtain t where t: "t \<in> set (rc_targeted ex_recommendation)" "t_competency t = ''coding''"
    "t_reason t = TargetNeverObserved"
    using that [of ?t] by (simp add: ex_recommendation_def)
  with targeting_agrees_with_readiness [OF ex_Recommend, of t ex_standard "\<lparr>cr_competency = ''coding'', cr_target = ''solid''\<rparr>"]
  show ?thesis by (force simp: ex_history_def ex_reading_def ex_request_def ex_standard_def)
qed

text \<open>
  The caution a candidate reads when no reading is usable says that every previous reading was
  produced under a different rubric; a history of unassessed readings under the very rubric of the
  request gets the same words.
\<close>

lemma caution_blames_the_rubric:
  "\<exists>q os r. Recommend q (Some [''design'']) os 30 = Inr r \<and> os \<noteq> []
     \<and> (\<forall>x \<in> set os. o_rubric_reference x = tr_rubric q) \<and> rc_caution r = AllForeign"
proof -
  let ?x = "(ex_reading ''o1'' ''design'' '''' '''' 10)\<lparr>o_status := ''unassessed''\<rparr>"
  have "latestPerCompetency ex_request [?x] = (Map.empty, 0)"
    by (simp add: latestPerCompetency_def usable_def ex_reading_def)
  then have "\<exists>r. Recommend ex_request (Some [''design'']) [?x] 30 = Inr r \<and> rc_caution r = AllForeign"
    by (simp add: Recommend_def ex_request_def caution_def Let_def)
  then show ?thesis
    by (intro exI [of _ ex_request] exI [of _ "[?x]"]) (simp add: ex_request_def ex_reading_def)
qed

end
