(* ===== verification/Goals.thy ===== *)
theory Goals
  imports Readiness
begin

text \<open>
  \<open>services/platform/internal/progression/goals.go\<close>: goals and their milestones (\<open>Goal.Validate\<close>,
  \<open>TrackGoal\<close> and the functions under it) and the practice cadence (\<open>Practice\<close>, \<open>weekOf\<close>).
\<close>

section \<open>Goals\<close>

definition GoalFromGap :: string where "GoalFromGap = ''gap''"
definition GoalFromDrill :: string where "GoalFromDrill = ''drill''"
definition GoalFromCompetency :: string where "GoalFromCompetency = ''competency''"
definition GoalActive :: string where "GoalActive = ''active''"
definition GoalPaused :: string where "GoalPaused = ''paused''"
definition GoalRetired :: string where "GoalRetired = ''retired''"
definition GoalNotStarted :: string where "GoalNotStarted = ''not_started''"
definition GoalInProgress :: string where "GoalInProgress = ''in_progress''"
definition GoalReached :: string where "GoalReached = ''reached''"
definition GoalIncomparable :: string where "GoalIncomparable = ''incomparable''"

lemmas goal_state_defs = GoalNotStarted_def GoalInProgress_def GoalReached_def GoalIncomparable_def
lemmas goal_status_defs = GoalActive_def GoalPaused_def GoalRetired_def
lemmas goal_origin_defs = GoalFromGap_def GoalFromDrill_def GoalFromCompetency_def

record goal =
  g_id :: string
  g_origin :: string
  g_competency :: string
  g_target :: string
  g_rubric :: string
  g_bands :: "string list"
  g_status :: string

record milestone =
  m_goal :: string
  m_band :: string
  m_rubric :: string
  m_rubric_version :: string
  m_observation :: string
  m_reached_at :: time

record goal_progress =
  gp_goal :: goal
  gp_state :: string
  gp_band :: string
  gp_reason :: string
  gp_observation :: string
  gp_observed_at :: time
  gp_evidence :: evidence
  gp_milestones :: "milestone list"
  gp_fresh :: "milestone list"

datatype goal_error =
    BadOrigin string
  | BadStatus string
  | GoalMeasuresNothing
  | GoalNoRubric
  | GoalNoScale
  | GoalTargetOffScale string

definition Validate :: "goal \<Rightarrow> goal_error option" where
  "Validate g =
     (if g_origin g \<notin> {GoalFromGap, GoalFromDrill, GoalFromCompetency} then Some (BadOrigin (g_origin g))
      else if g_status g \<notin> {GoalActive, GoalPaused, GoalRetired} then Some (BadStatus (g_status g))
      else if g_competency g = '''' then Some GoalMeasuresNothing
      else if g_rubric g = '''' then Some GoalNoRubric
      else if g_bands g = [] then Some GoalNoScale
      else if \<not> list_ex (\<lambda>b. b = g_target g) (g_bands g) then Some (GoalTargetOffScale (g_target g))
      else None)"

section \<open>Tracking\<close>

definition comparableReadings :: "goal \<Rightarrow> observation list \<Rightarrow> observation list" where
  "comparableReadings g os =
     filter (\<lambda>x. \<not> (o_competency x \<noteq> g_competency g \<or> superseded os (o_id x))
               \<and> \<not> (o_rubric_reference x \<noteq> g_rubric g \<or> o_status x \<noteq> ''assessed'')
               \<and> placed (g_bands g) (o_band x)) os"

definition latestOf :: "observation list \<Rightarrow> observation option" where
  "latestOf os = pick newer_reading None os"

text \<open>Unlike the loop of \<open>resolve\<close>, the loop of \<open>silenceReason\<close> does not skip superseded rows.\<close>

definition silenceReason :: "goal \<Rightarrow> observation list \<Rightarrow> string" where
  "silenceReason g os =
     (let mine = filter (\<lambda>x. o_competency x = g_competency g) os;
          sawForeign = list_ex (\<lambda>x. o_rubric_reference x \<noteq> g_rubric g) mine;
          sawUnassessed = list_ex (\<lambda>x. o_rubric_reference x = g_rubric g
                                      \<and> o_status x \<noteq> ''assessed'') mine;
          sawUnplaceable = list_ex (\<lambda>x. o_rubric_reference x = g_rubric g
                                      \<and> o_status x = ''assessed'' \<and> \<not> placed (g_bands g) (o_band x)) mine in
      if sawUnassessed then ReasonNotAssessed
      else if sawUnplaceable then ReasonIncomparableBand
      else if sawForeign then ReasonIncomparableRubric
      else ReasonNeverObserved)"

text \<open>
  The map \<open>first\<close> of \<open>newMilestones\<close>: the first reading of a band, by observation time, the
  earlier row winning a tie.
\<close>

definition earlier_reading :: "observation \<Rightarrow> observation \<Rightarrow> bool" where
  "earlier_reading x y \<longleftrightarrow> o_observed_at x < o_observed_at y"

interpretation first: latest_choice earlier_reading "\<lambda>x. - o_observed_at x"
  by unfold_locales (simp add: earlier_reading_def)

definition first_of :: "observation list \<Rightarrow> string \<Rightarrow> observation option" where
  "first_of os b = pick earlier_reading None (filter (\<lambda>x. o_band x = b) os)"

definition milestone_of :: "goal \<Rightarrow> string \<Rightarrow> observation \<Rightarrow> milestone" where
  "milestone_of g b x = \<lparr>m_goal = g_id g, m_band = b, m_rubric = o_rubric_reference x,
     m_rubric_version = o_rubric_version x, m_observation = o_id x, m_reached_at = o_observed_at x\<rparr>"

text \<open>\<open>order\<close> is the order in which ranging over the map \<open>first\<close> yields the bands.\<close>

definition newMilestones_in ::
  "string list \<Rightarrow> goal \<Rightarrow> observation list \<Rightarrow> milestone list \<Rightarrow> milestone list" where
  "newMilestones_in order g os earned =
     (let already = set (map m_band earned);
          fresh = map (\<lambda>b. milestone_of g b (the (first_of os b)))
                    (filter (\<lambda>b. b \<notin> already) order) in
      sort_key (\<lambda>m. (m_reached_at m, rank_of (g_bands g) (m_band m))) fresh)"

definition newMilestones :: "goal \<Rightarrow> observation list \<Rightarrow> milestone list \<Rightarrow> milestone list" where
  "newMilestones g os earned = newMilestones_in (remdups (map o_band os)) g os earned"

definition TrackGoal :: "goal \<Rightarrow> observation list \<Rightarrow> milestone list \<Rightarrow> time \<Rightarrow> goal_progress" where
  "TrackGoal g os earned at =
     (let milestones = sort_key m_reached_at earned;
          comparables = comparableReadings g os;
          (state, band, reason, obs, seen) =
            (case latestOf comparables of
               Some x \<Rightarrow>
                 ((if rank_of (g_bands g) (o_band x) \<ge> rank_of (g_bands g) (g_target g)
                   then GoalReached else GoalInProgress), o_band x, '''', o_id x, o_observed_at x)
             | None \<Rightarrow>
                 (let why = silenceReason g os in
                  ((if why = ReasonIncomparableRubric \<or> why = ReasonIncomparableBand
                    then GoalIncomparable else GoalNotStarted), '''', why, '''', 0)));
          fresh = (if g_status g = GoalActive then newMilestones g comparables milestones else []);
          all_milestones = (if g_status g = GoalActive
                            then sort_key m_reached_at (milestones @ fresh) else milestones) in
      \<lparr>gp_goal = g, gp_state = state, gp_band = band, gp_reason = reason, gp_observation = obs,
       gp_observed_at = seen, gp_evidence = Freshness seen at,
       gp_milestones = all_milestones, gp_fresh = fresh\<rparr>)"

section \<open>The cadence\<close>

definition week :: duration where "week = 7 * day"

text \<open>
  The zero time is a Monday, so \<open>at div day\<close> counts days from a Monday.  \<open>Weekday\<close> numbers the
  days from Sunday, and \<open>AddDate(0, 0, n)\<close> on a UTC midnight moves by \<open>n\<close> days.
\<close>

definition weekday :: "time \<Rightarrow> int" where
  "weekday at = (at div day + 1) mod 7"

definition weekOf :: "time \<Rightarrow> time" where
  "weekOf at = (at div day) * day - ((weekday at + 6) mod 7) * day"

record cadence =
  cd_run :: nat
  cd_longest :: nat
  cd_weeks :: nat
  cd_active :: bool
  cd_last :: time
  cd_resting :: bool

definition no_cadence :: cadence where
  "no_cadence = \<lparr>cd_run = 0, cd_longest = 0, cd_weeks = 0, cd_active = False, cd_last = 0,
     cd_resting = False\<rparr>"

definition practised_weeks :: "observation list \<Rightarrow> time list" where
  "practised_weeks os =
     sort (remdups (map (\<lambda>x. weekOf (o_observed_at x)) (filter (\<lambda>x. \<not> is_zero (o_observed_at x)) os)))"

definition last_practised :: "observation list \<Rightarrow> time" where
  "last_practised os =
     foldl (\<lambda>l x. if o_observed_at x > l then o_observed_at x else l) 0
       (filter (\<lambda>x. \<not> is_zero (o_observed_at x)) os)"

text \<open>One turn of the loop over the ordered weeks: (run, longest, previous).\<close>

fun run_step :: "nat \<times> nat \<times> time \<Rightarrow> time \<Rightarrow> nat \<times> nat \<times> time" where
  "run_step (run, longest, previous) w =
     (let run' = (if \<not> is_zero previous \<and> w = previous + 7 * day then Suc run else 1) in
      (run', max longest run', w))"

definition Practice :: "observation list \<Rightarrow> time \<Rightarrow> cadence" where
  "Practice os now =
     (let ordered = practised_weeks os in
      if ordered = [] then no_cadence
      else
        let (run, longest, _) = foldl run_step (0, 0, 0) ordered;
            thisWeek = weekOf now;
            lastWeek = last ordered;
            current = (lastWeek = thisWeek \<or> lastWeek = thisWeek - 7 * day) in
        \<lparr>cd_run = (if current then run else 0), cd_longest = longest, cd_weeks = length ordered,
         cd_active = (thisWeek \<in> set ordered), cd_last = last_practised os,
         cd_resting = (\<not> current)\<rparr>)"

section \<open>Lemmas on tracking\<close>

lemma comparableReadings_eq:
  "comparableReadings g os =
     filter (comparable (g_competency g) (g_rubric g) (g_bands g) (superseded os)) os"
  by (auto simp: comparableReadings_def comparable_def intro!: filter_cong)

lemma latest_comparable:
  "latestOf (comparableReadings g os) = current_reading (g_competency g) (g_rubric g) (g_bands g) os"
  by (simp add: latestOf_def comparableReadings_eq current_reading_def)

lemma TrackGoal_Some:
  assumes "current_reading (g_competency g) (g_rubric g) (g_bands g) os = Some x"
  shows "gp_state (TrackGoal g os earned at) =
      (if rank_of (g_bands g) (g_target g) \<le> rank_of (g_bands g) (o_band x) then GoalReached else GoalInProgress)"
    and "gp_band (TrackGoal g os earned at) = o_band x"
    and "gp_observation (TrackGoal g os earned at) = o_id x"
  using assms by (simp_all add: TrackGoal_def Let_def latest_comparable)

lemma TrackGoal_None:
  assumes "current_reading (g_competency g) (g_rubric g) (g_bands g) os = None"
  shows "gp_state (TrackGoal g os earned at) \<in> {GoalIncomparable, GoalNotStarted}"
    and "gp_band (TrackGoal g os earned at) = ''''"
    and "gp_observation (TrackGoal g os earned at) = ''''"
    and "gp_reason (TrackGoal g os earned at) = silenceReason g os"
  using assms by (simp_all add: TrackGoal_def Let_def latest_comparable)

lemma TrackGoal_fresh:
  "gp_fresh (TrackGoal g os earned at) =
     (if g_status g = GoalActive
      then newMilestones g (comparableReadings g os) (sort_key m_reached_at earned) else [])"
  by (simp add: TrackGoal_def Let_def split: prod.split option.split)

lemma TrackGoal_milestones:
  "gp_milestones (TrackGoal g os earned at) =
     (if g_status g = GoalActive
      then sort_key m_reached_at (sort_key m_reached_at earned @ gp_fresh (TrackGoal g os earned at))
      else sort_key m_reached_at earned)"
  by (simp add: TrackGoal_def Let_def split: prod.split option.split)

lemma first_of_Some:
  assumes "b \<in> set (map o_band os)"
  obtains x where "first_of os b = Some x" "x \<in> set os" "o_band x = b"
    "\<And>y. y \<in> set os \<Longrightarrow> o_band y = b \<Longrightarrow> o_observed_at x \<le> o_observed_at y"
proof -
  from assms have "filter (\<lambda>x. o_band x = b) os \<noteq> []" by (auto simp: filter_empty_conv)
  then obtain x where x: "first_of os b = Some x"
    unfolding first_of_def using first.pick_None_iff by fastforce
  note max = first.pick_max [OF x [unfolded first_of_def]]
  show thesis using that [OF x] max by auto
qed

lemma newMilestones_in_set:
  "set (newMilestones_in order g os earned) =
     (\<lambda>b. milestone_of g b (the (first_of os b))) ` {b \<in> set order. b \<notin> m_band ` set earned}"
  by (simp add: newMilestones_in_def Let_def)

lemma milestone_of_band [simp]: "m_band (milestone_of g b x) = b" "m_reached_at (milestone_of g b x) = o_observed_at x"
  by (simp_all add: milestone_of_def)

lemma newMilestones_in_bands:
  "mset (map m_band (newMilestones_in order g os earned)) =
     mset (filter (\<lambda>b. b \<notin> m_band ` set earned) order)"
  by (simp add: newMilestones_in_def Let_def image_mset.compositionality comp_def)

text \<open>The order in which the map of first readings is visited does not show in the result.\<close>

lemma newMilestones_order:
  assumes "distinct order" and "set order = set (map o_band os)"
    and "\<And>x. x \<in> set os \<Longrightarrow> o_band x \<in> set (g_bands g)"
  shows "newMilestones_in order g os earned = newMilestones g os earned"
proof -
  let ?ms = "\<lambda>bs. map (\<lambda>b. milestone_of g b (the (first_of os b)))
    (filter (\<lambda>b. b \<notin> set (map m_band earned)) bs)"
  let ?key = "\<lambda>m. (m_reached_at m, rank_of (g_bands g) (m_band m))"
  let ?bs = "remdups (map o_band os)"
  have "mset order = mset ?bs"
    using assms(1,2) by (metis distinct_remdups set_eq_iff_mset_eq_distinct set_remdups)
  then have "mset (?ms order) = mset (?ms ?bs)" by simp
  moreover have "inj_on ?key (set (?ms order))"
  proof (rule inj_onI)
    fix m m' assume "m \<in> set (?ms order)" "m' \<in> set (?ms order)" and key: "?key m = ?key m'"
    then obtain b b' where bs: "b \<in> set order" "b' \<in> set order"
      and m: "m = milestone_of g b (the (first_of os b))" "m' = milestone_of g b' (the (first_of os b'))"
      by auto
    from bs assms(2,3) have "b \<in> set (g_bands g)" "b' \<in> set (g_bands g)" by auto
    with key m have "b = b'" using rank_of_inj [of "g_bands g"] by (simp add: inj_on_eq_iff)
    with m show "m = m'" by simp
  qed
  ultimately have "sort_key ?key (?ms order) = sort_key ?key (?ms ?bs)"
    by (intro sort_key_inj_key_eq) simp_all
  then show ?thesis by (simp add: newMilestones_def newMilestones_in_def Let_def)
qed

lemma newMilestones_none:
  "m_band ` set earned \<supseteq> set (map o_band os) \<Longrightarrow> newMilestones g os earned = []"
proof -
  assume "m_band ` set earned \<supseteq> set (map o_band os)"
  then have "set (newMilestones g os earned) = {}"
    unfolding newMilestones_def newMilestones_in_set by auto
  then show ?thesis by simp
qed

section \<open>Lemmas on the cadence\<close>

lemma week_pos: "0 < week" by (simp add: week_def duration_defs)

lemma weekOf_eq: "weekOf at = at - at mod week"
proof -
  let ?d = "at div day"
  have "((d + 1) mod 7 + 6) mod 7 = d mod 7" for d :: int by presburger
  then have "weekOf at = ?d * day - ?d mod 7 * day"
    by (simp only: weekOf_def weekday_def)
  also have "\<dots> = (?d - ?d mod 7) * day" by (simp add: left_diff_distrib)
  also have "\<dots> = ?d div 7 * week" by (simp add: week_def minus_mod_eq_mult_div)
  also have "?d div 7 = at div week"
    by (simp add: week_def zdiv_zmult2_eq [symmetric] mult.commute duration_defs)
  finally show ?thesis by (simp add: minus_mod_eq_div_mult)
qed

lemma weekOf_dvd: "week dvd weekOf at"
  by (simp add: weekOf_eq)

text \<open>\<open>chain S n e\<close>: the \<open>n\<close> weeks that end with \<open>e\<close> are all in \<open>S\<close>.\<close>

definition chain :: "time set \<Rightarrow> nat \<Rightarrow> time \<Rightarrow> bool" where
  "chain S n e \<longleftrightarrow> (\<forall>k < n. e - int k * week \<in> S)"

lemma chain_0 [simp]: "chain S 0 e"
  by (simp add: chain_def)

lemma chain_Suc: "chain S (Suc n) e \<longleftrightarrow> e \<in> S \<and> chain S n (e - week)"
proof
  assume "chain S (Suc n) e"
  then have "e - int 0 * week \<in> S" and "\<And>k. k < n \<Longrightarrow> e - int (Suc k) * week \<in> S"
    unfolding chain_def by (blast, blast)
  then show "e \<in> S \<and> chain S n (e - week)" by (simp add: chain_def algebra_simps)
next
  assume "e \<in> S \<and> chain S n (e - week)"
  then show "chain S (Suc n) e"
    by (auto simp: chain_def less_Suc_eq_0_disj algebra_simps)
qed

lemma chain_mono: "chain S n e \<Longrightarrow> S \<subseteq> T \<Longrightarrow> chain T n e"
  by (auto simp: chain_def)

lemma chain_insert_above:
  assumes "chain (insert w S) n e" and "e < w"
  shows "chain S n e"
  unfolding chain_def
proof (intro allI impI)
  fix k assume "k < n"
  with assms(1) have "e - int k * week \<in> insert w S" by (simp add: chain_def)
  moreover have "e - int k * week < w" using assms(2) week_pos
    by (metis diff_ge_0_iff_ge diff_gt_0_iff_gt diff_le_eq le_add_same_cancel1 le_less_trans
        less_imp_le mult_nonneg_nonneg of_nat_0_le_iff)
  ultimately show "e - int k * week \<in> S" by auto
qed

text \<open>What the loop knows after the ascending list \<open>ws\<close> of weeks.\<close>

definition run_inv :: "time list \<Rightarrow> nat \<times> nat \<times> time \<Rightarrow> bool" where
  "run_inv ws st \<longleftrightarrow> (case st of (run, longest, previous) \<Rightarrow>
     previous = last ws
     \<and> chain (set ws) run previous \<and> previous - int run * week \<notin> set ws
     \<and> (\<exists>e. chain (set ws) longest e) \<and> (\<forall>n e. chain (set ws) n e \<longrightarrow> n \<le> longest))"

definition week_list :: "time list \<Rightarrow> bool" where
  "week_list ws \<longleftrightarrow> sorted ws \<and> distinct ws \<and> (\<forall>w \<in> set ws. week dvd w \<and> w \<noteq> 0)"

lemma run_step_inv:
  assumes inv: "run_inv ws (run, longest, previous)" and ws: "week_list (ws @ [w])" and ne: "ws \<noteq> []"
  shows "run_inv (ws @ [w]) (run_step (run, longest, previous) w)"
proof -
  let ?S = "set ws" and ?run = "if w = previous + week then Suc run else 1"
  have prev: "previous = last ws" "previous \<in> ?S" using inv ne by (auto simp: run_inv_def)
  have below: "e < w" if "e \<in> ?S" for e
    using that ws by (auto simp: week_list_def sorted_append order_less_le)
  have top: "e \<le> previous" if "e \<in> ?S" for e
  proof -
    from ws have "sorted ws" by (simp add: week_list_def sorted_append)
    with that show ?thesis unfolding prev(1) by (rule sorted_last_max [rotated])
  qed
  have nonzero: "previous \<noteq> 0" using ws prev(2) by (auto simp: week_list_def)
  have step: "run_step (run, longest, previous) w = (?run, max longest ?run, w)"
    using nonzero by (simp add: Let_def is_zero_def week_def)
  have gap: "w - week \<in> ?S \<longleftrightarrow> w = previous + week"
  proof
    assume in_S: "w - week \<in> ?S"
    have "week dvd w - previous"
      using ws prev(2) by (auto simp: week_list_def intro!: dvd_diff)
    moreover have "0 < w - previous" "w - previous \<le> week"
      using below [OF prev(2)] top [OF in_S] by simp_all
    ultimately have "w - previous = week" using zdvd_imp_le by fastforce
    then show "w = previous + week" by simp
  qed (use prev(2) in simp)
  have up: "chain (insert w ?S) (Suc n) w \<longleftrightarrow> chain ?S n (w - week)" for n
    using chain_insert_above [of w ?S n "w - week"] week_pos chain_mono [of ?S n "w - week" "insert w ?S"]
    by (auto simp: chain_Suc)
  have new: "chain (insert w ?S) ?run w"
    using inv up [of "?run - 1"] by (auto simp: run_inv_def)
  have below_prev: "n \<le> run" if "chain ?S n previous" for n
  proof (rule ccontr)
    assume "\<not> n \<le> run"
    with that have "previous - int run * week \<in> ?S" unfolding chain_def by simp
    with inv show False by (simp add: run_inv_def)
  qed
  have stop: "w - int ?run * week \<notin> insert w ?S"
    using inv gap week_pos by (auto simp: run_inv_def algebra_simps)
  have bound: "n \<le> max longest ?run" if "chain (insert w ?S) n e" for n e
  proof (cases n)
    case (Suc m)
    with that consider "e = w" "chain ?S m (w - week)" | "e \<in> ?S" by (auto simp: chain_Suc up [symmetric])
    then show ?thesis
    proof cases
      case 1
      show ?thesis
      proof (cases "w = previous + week")
        case True
        with 1 below_prev [of m] Suc show ?thesis by (auto simp: le_max_iff_disj)
      next
        case False
        with 1 gap have "m = 0" by (cases m) (auto simp: chain_Suc)
        with Suc show ?thesis by (auto simp: le_max_iff_disj)
      qed
    next
      case 2
      with that chain_insert_above below have "chain ?S n e" by blast
      with inv show ?thesis by (auto simp: run_inv_def intro: le_max_iff_disj [THEN iffD2])
    qed
  qed simp
  have "\<exists>e. chain (insert w ?S) (max longest ?run) e"
    using inv new by (auto simp: run_inv_def max_def intro: chain_mono)
  moreover define q where "q = ?run"
  ultimately show ?thesis
    using step new stop bound unfolding q_def [symmetric] by (auto simp: run_inv_def)
qed

lemma run_fold: "week_list ws \<Longrightarrow> ws \<noteq> [] \<Longrightarrow> run_inv ws (foldl run_step (0, 0, 0) ws)"
proof (induction ws rule: rev_induct)
  case (snoc w ws)
  show ?case
  proof (cases "ws = []")
    case True
    have one: "n \<le> 1" if "chain {w} n e" for n e
    proof (rule ccontr)
      assume "\<not> n \<le> 1"
      with that have "e - int 0 * week \<in> {w}" "e - int 1 * week \<in> {w}"
        unfolding chain_def by (metis not_le order.strict_trans zero_less_one, metis not_le)
      with week_pos show False by simp
    qed
    have "chain {w} 1 w" by (simp add: chain_def)
    with True one week_pos show ?thesis by (auto simp: run_inv_def)
  next
    case False
    from snoc.prems have "week_list ws" by (simp add: week_list_def sorted_append)
    with False snoc.IH have "run_inv ws (foldl run_step (0, 0, 0) ws)" by simp
    moreover obtain r l p where "foldl run_step (0, 0, 0) ws = (r, l, p)" by (metis prod_cases3)
    ultimately show ?thesis using run_step_inv [OF _ snoc.prems(1) False] by simp
  qed
qed simp

definition practised :: "observation list \<Rightarrow> time set" where
  "practised os = weekOf ` o_observed_at ` {x \<in> set os. o_observed_at x \<noteq> 0}"

lemma set_practised_weeks: "set (practised_weeks os) = practised os"
  by (auto simp: practised_weeks_def practised_def is_zero_def)

lemma practised_weeks_list:
  assumes "0 \<notin> practised os"
  shows "week_list (practised_weeks os)"
proof -
  have "week dvd w \<and> w \<noteq> 0" if "w \<in> set (practised_weeks os)" for w
    using that assms weekOf_dvd unfolding set_practised_weeks by (auto simp: practised_def)
  then show ?thesis by (simp add: week_list_def practised_weeks_def)
qed

lemma last_practised_weeks:
  assumes "practised os \<noteq> {}"
  shows "last (practised_weeks os) = Max (practised os)"
proof -
  have ne: "practised_weeks os \<noteq> []" using assms set_practised_weeks [of os] by auto
  have "sorted (practised_weeks os)" by (simp add: practised_weeks_def)
  with ne have "last (practised_weeks os) = Max (set (practised_weeks os))"
    by (intro Max_eqI [symmetric]) (auto intro: sorted_last_max)
  then show ?thesis by (simp add: set_practised_weeks)
qed

section \<open>Properties\<close>

text \<open>A goal and a readiness screen agree. For a goal that targets what a requirement of a
  standard targets, on the same rubric and scale, \<open>TrackGoal\<close> cites the same reading as the
  readiness answer, and calls the goal reached, in progress or without a reading exactly where the
  readiness says met, below or unassessed.\<close>

theorem goal_agrees_with_readiness:
  assumes "g_competency g = cr_competency r" and "g_target g = cr_target r"
    and "g_rubric g = st_rubric s" and "g_bands g = st_bands s"
  shows "gp_observation (TrackGoal g os earned at) = cp_observation (resolve r s (superseded os) os)
       \<and> gp_band (TrackGoal g os earned at) = cp_band (resolve r s (superseded os) os)
       \<and> (gp_state (TrackGoal g os earned at) = GoalReached
            \<longleftrightarrow> cp_outcome (resolve r s (superseded os) os) = OutcomeMet)
       \<and> (gp_state (TrackGoal g os earned at) = GoalInProgress
            \<longleftrightarrow> cp_outcome (resolve r s (superseded os) os) = OutcomeBelow)"
proof (cases "current_reading (cr_competency r) (st_rubric s) (st_bands s) os")
  case None
  with assms have "current_reading (g_competency g) (g_rubric g) (g_bands g) os = None" by simp
  from TrackGoal_None [OF this, of earned at] resolve_None [OF None] show ?thesis
    by (auto simp: goal_state_defs outcome_defs)
next
  case (Some x)
  with assms have "current_reading (g_competency g) (g_rubric g) (g_bands g) os = Some x" by simp
  from TrackGoal_Some [OF this, of earned at] resolve_Some [OF Some] assms show ?thesis
    by (auto simp: goal_state_defs outcome_defs)
qed

definition ex_goal :: goal where
  "ex_goal = \<lparr>g_id = ''g'', g_origin = GoalFromGap, g_competency = ''design'', g_target = ''solid'',
     g_rubric = ''rubric/core'', g_bands = [''weak'', ''solid'', ''strong''], g_status = GoalActive\<rparr>"

theorem goal_agrees_with_readiness_witness:
  "gp_observation (TrackGoal ex_goal ex_history [] 30) =
     cp_observation (resolve \<lparr>cr_competency = ''design'', cr_target = ''solid''\<rparr> ex_standard
       (superseded ex_history) ex_history)"
  using goal_agrees_with_readiness
    [of ex_goal "\<lparr>cr_competency = ''design'', cr_target = ''solid''\<rparr>" ex_standard ex_history "[]" 30]
  by (simp add: ex_goal_def ex_standard_def)

text \<open>The two screens can still give different reasons for the same silence. \<open>silenceReason\<close> reads
  superseded rows, which \<open>resolve\<close> skips: an unassessed reading that was corrected by one under
  another rubric makes the goal say not assessed where the readiness says incomparable rubric.\<close>

theorem silence_reasons_diverge:
  "\<exists>g r s os at. validate s = None \<and> Validate g = None \<and> r \<in> set (st_requirements s)
     \<and> g_competency g = cr_competency r \<and> g_target g = cr_target r
     \<and> g_rubric g = st_rubric s \<and> g_bands g = st_bands s
     \<and> gp_reason (TrackGoal g os [] at) = ReasonNotAssessed
     \<and> cp_reason (resolve r s (superseded os) os) = ReasonIncomparableRubric"
proof -
  let ?r = "\<lparr>cr_competency = ''design'', cr_target = ''solid''\<rparr>"
  let ?old = "(ex_reading ''o1'' ''design'' '''' '''' 10)\<lparr>o_status := ''unassessed''\<rparr>"
  let ?new = "(ex_reading ''o2'' ''design'' ''solid'' ''o1'' 20)\<lparr>o_rubric_reference := ''rubric/new''\<rparr>"
  let ?os = "[?old, ?new]"
  have valid: "validate ex_standard = None"
    by (simp add: validate_def ex_standard_def)
  have goal: "Validate ex_goal = None"
    by (simp add: Validate_def ex_goal_def goal_origin_defs goal_status_defs)
  have "current_reading (g_competency ex_goal) (g_rubric ex_goal) (g_bands ex_goal) ?os = None"
    by (simp add: current_reading_None comparable_def ex_reading_def ex_goal_def)
  from TrackGoal_None(4) [OF this] have "gp_reason (TrackGoal ex_goal ?os [] 30) = ReasonNotAssessed"
    by (simp add: ex_goal_def silenceReason_def ex_reading_def)
  moreover have "cp_reason (resolve ?r ex_standard (superseded ?os) ?os) = ReasonIncomparableRubric"
    by (simp add: resolve_def Let_def scan_step_def scan_start_def ex_standard_def ex_reading_def
        superseded_def)
  ultimately show ?thesis
    using valid goal by (intro exI [of _ ex_goal] exI [of _ ?r] exI [of _ ex_standard] exI [of _ ?os]
        exI [of _ 30]) (simp add: ex_goal_def ex_standard_def)
qed

text \<open>Milestones are append-only and earned once. Tracking keeps every milestone already earned
  and adds exactly the fresh ones, ordered by the day they were reached; the fresh ones name bands
  not earned before, each band once, and none accrues unless the goal is active; tracking again
  from the resulting milestones recognises nothing new.\<close>

theorem milestones_append_only:
  "mset (gp_milestones (TrackGoal g os earned at)) = mset earned + mset (gp_fresh (TrackGoal g os earned at))
   \<and> sorted (map m_reached_at (gp_milestones (TrackGoal g os earned at)))
   \<and> distinct (map m_band (gp_fresh (TrackGoal g os earned at)))
   \<and> m_band ` set (gp_fresh (TrackGoal g os earned at)) \<inter> m_band ` set earned = {}
   \<and> (g_status g = GoalActive \<or> gp_fresh (TrackGoal g os earned at) = [])
   \<and> gp_fresh (TrackGoal g os (gp_milestones (TrackGoal g os earned at)) at') = []"
proof (cases "g_status g = GoalActive")
  case False
  then show ?thesis by (simp add: TrackGoal_fresh TrackGoal_milestones)
next
  case True
  let ?cs = "comparableReadings g os" and ?old = "sort_key m_reached_at earned"
  let ?fresh = "gp_fresh (TrackGoal g os earned at)"
  let ?all = "gp_milestones (TrackGoal g os earned at)"
  have fresh: "?fresh = newMilestones_in (remdups (map o_band ?cs)) g ?cs ?old"
    using True by (simp add: TrackGoal_fresh newMilestones_def)
  have bands: "mset (map m_band ?fresh) =
      mset (filter (\<lambda>b. b \<notin> m_band ` set earned) (remdups (map o_band ?cs)))"
    unfolding fresh newMilestones_in_bands by simp
  have "m_band ` set ?fresh = set (filter (\<lambda>b. b \<notin> m_band ` set earned) (remdups (map o_band ?cs)))"
    using mset_eq_setD [OF bands] by (simp only: set_map)
  then have set_bands: "m_band ` set ?fresh = {b \<in> o_band ` set ?cs. b \<notin> m_band ` set earned}"
    by simp
  have "distinct (map m_band ?fresh)"
    unfolding mset_eq_imp_distinct_iff [OF bands] by simp
  moreover have all: "mset ?all = mset earned + mset ?fresh" "sorted (map m_reached_at ?all)"
    using True by (simp_all add: TrackGoal_milestones)
  moreover have "gp_fresh (TrackGoal g os ?all at') = []"
  proof -
    have "set ?all = set earned \<union> set ?fresh"
      using all(1) by (metis set_mset_mset set_mset_union)
    with set_bands have "set (map o_band ?cs) \<subseteq> m_band ` set (sort_key m_reached_at ?all)"
      by (auto simp: image_Un)
    then show ?thesis by (simp add: TrackGoal_fresh newMilestones_none)
  qed
  ultimately show ?thesis using True set_bands by auto
qed

text \<open>A fresh milestone is evidenced and dated to when it was earned: it cites a comparable reading
  of its band, with that reading's rubric version, and no comparable reading of the band is
  earlier.\<close>

theorem fresh_milestone_evidenced:
  assumes "m \<in> set (gp_fresh (TrackGoal g os earned at))"
  shows "\<exists>x \<in> set (comparableReadings g os). m_observation m = o_id x \<and> m_band m = o_band x
       \<and> m_rubric_version m = o_rubric_version x \<and> m_reached_at m = o_observed_at x
       \<and> (\<forall>y \<in> set (comparableReadings g os). o_band y = m_band m \<longrightarrow> m_reached_at m \<le> o_observed_at y)"
proof -
  let ?cs = "comparableReadings g os"
  from assms have "m \<in> set (newMilestones g ?cs (sort_key m_reached_at earned))"
    by (auto simp: TrackGoal_fresh split: if_splits)
  then obtain b where b: "b \<in> set (map o_band ?cs)" "m = milestone_of g b (the (first_of ?cs b))"
    unfolding newMilestones_def newMilestones_in_set by auto
  from first_of_Some [OF b(1)] obtain x where "first_of ?cs b = Some x" "x \<in> set ?cs" "o_band x = b"
    "\<And>y. y \<in> set ?cs \<Longrightarrow> o_band y = b \<Longrightarrow> o_observed_at x \<le> o_observed_at y" by metis
  with b(2) show ?thesis by (auto simp: milestone_of_def intro!: bexI [of _ x])
qed

lemma ex_fresh:
  "gp_fresh (TrackGoal ex_goal ex_history [] 30) = [\<lparr>m_goal = ''g'', m_band = ''strong'',
     m_rubric = ''rubric/core'', m_rubric_version = ''1'', m_observation = ''o2'', m_reached_at = 20\<rparr>]"
  by (simp add: TrackGoal_fresh newMilestones_def newMilestones_in_def Let_def comparableReadings_def
      ex_goal_def ex_history_def ex_reading_def superseded_def first_of_def milestone_of_def)

theorem fresh_milestone_evidenced_witness:
  "\<exists>x \<in> set (comparableReadings ex_goal ex_history). o_id x = ''o2''"
  using fresh_milestone_evidenced [of _ ex_goal ex_history "[]" 30, unfolded ex_fresh] by auto

text \<open>The cadence counts exactly what was practised. With at least one practised week, none in the
  week of the zero time, the weeks counted are the distinct weeks practised; the longest run is the
  length of a longest chain of consecutive practised weeks; the run is the maximal chain that ends
  with the last practised week where that week is this one or the one before, and where it is
  neither the run is zero and the cadence says resting.\<close>

theorem cadence_counts_chains:
  assumes "practised os \<noteq> {}" and "0 \<notin> practised os"
  shows "cd_weeks (Practice os now) = card (practised os)
       \<and> (cd_active (Practice os now) \<longleftrightarrow> weekOf now \<in> practised os)
       \<and> (\<exists>e. chain (practised os) (cd_longest (Practice os now)) e)
       \<and> (\<forall>n e. chain (practised os) n e \<longrightarrow> n \<le> cd_longest (Practice os now))
       \<and> (if Max (practised os) \<in> {weekOf now, weekOf now - week}
          then \<not> cd_resting (Practice os now)
             \<and> chain (practised os) (cd_run (Practice os now)) (Max (practised os))
             \<and> Max (practised os) - int (cd_run (Practice os now)) * week \<notin> practised os
          else cd_resting (Practice os now) \<and> cd_run (Practice os now) = 0)"
proof -
  let ?ws = "practised_weeks os"
  have ne: "?ws \<noteq> []" using assms(1) set_practised_weeks [of os] by auto
  obtain r l p where st: "foldl run_step (0, 0, 0) ?ws = (r, l, p)" by (metis prod_cases3)
  with run_fold [OF practised_weeks_list [OF assms(2)] ne] have "run_inv ?ws (r, l, p)" by simp
  then have inv: "p = Max (practised os)" "chain (practised os) r p" "p - int r * week \<notin> practised os"
    "\<exists>e. chain (practised os) l e" "\<forall>n e. chain (practised os) n e \<longrightarrow> n \<le> l"
    by (auto simp: run_inv_def set_practised_weeks last_practised_weeks [OF assms(1)])
  have "length ?ws = card (practised os)"
    by (metis distinct_card distinct_remdups distinct_sort practised_weeks_def set_practised_weeks)
  with inv ne st show ?thesis
    by (simp add: Practice_def Let_def last_practised_weeks [OF assms(1)] set_practised_weeks
        week_def [symmetric])
qed

definition ex_weeks :: "observation list" where
  "ex_weeks = [ex_reading ''o1'' ''design'' ''weak'' '''' (week + 3), ex_reading ''o2'' ''design'' ''weak'' '''' (2 * week)]"

theorem cadence_counts_chains_witness: "cd_weeks (Practice ex_weeks (3 * week)) = 2"
proof -
  have w: "weekOf (week + 3) = week" "weekOf (2 * week) = 2 * week"
    by (simp_all add: weekOf_eq week_def duration_defs)
  have "practised ex_weeks = {week, 2 * week}"
  proof -
    have "{x \<in> set ex_weeks. o_observed_at x \<noteq> 0} = set ex_weeks"
      using week_pos by (auto simp: ex_weeks_def ex_reading_def)
    then have "practised ex_weeks = weekOf ` o_observed_at ` set ex_weeks"
      by (auto simp: practised_def is_zero_def image_image)
    also have "\<dots> = {week, 2 * week}"
      using w by (simp add: ex_weeks_def ex_reading_def)
    finally show ?thesis .
  qed
  with week_pos cadence_counts_chains [of ex_weeks "3 * week"] show ?thesis by simp
qed

end
