(* ===== verification/Float64.thy ===== *)
theory Float64
  imports Prelude Complex_Main "HOL-Library.Log_Nat"
begin

text \<open>
  Go's \<open>float64\<close>, as far as the platform uses it: ratios of counts, compared with one another and
  with thresholds.  A value is the rational number it stands for; an operation is the exact
  operation followed by \<open>fl\<close>, rounding to the nearest multiple of the unit in the last place of a
  53-bit significand, ties to even (IEEE 754 binary64).  Counts are far below the range where a
  ratio could overflow or be subnormal, so neither is modelled.
\<close>

definition round_even :: "rat \<Rightarrow> int" where
  "round_even x =
     (let f = \<lfloor>x\<rfloor>; d = x - of_int f in
      if d < 1 / 2 then f else if d > 1 / 2 then f + 1 else if even f then f else f + 1)"

definition exponent :: "rat \<Rightarrow> int" where
  "exponent x =
     (case quotient_of x of (n, d) \<Rightarrow>
        let e = bitlen n - bitlen d in if 2 powi e \<le> x then e else e - 1)"

definition ulp :: "rat \<Rightarrow> rat" where
  "ulp x = 2 powi (exponent x - 52)"

definition fl :: "rat \<Rightarrow> rat" where
  "fl x = (if x = 0 then 0 else of_int (round_even (x / ulp x)) * ulp x)"

definition fdiv :: "rat \<Rightarrow> rat \<Rightarrow> rat" where
  "fdiv x y = fl (x / y)"

section \<open>Rounding\<close>

lemma round_even_cases: "round_even x = \<lfloor>x\<rfloor> \<or> round_even x = \<lfloor>x\<rfloor> + 1 \<and> 1 / 2 \<le> x - of_int \<lfloor>x\<rfloor>"
  by (simp add: round_even_def Let_def)

lemma round_even_of_int [simp]: "round_even (of_int n) = n"
  by (simp add: round_even_def)

lemma round_even_mono:
  assumes "x \<le> y"
  shows "round_even x \<le> round_even y"
proof (cases "\<lfloor>x\<rfloor> = \<lfloor>y\<rfloor>")
  case True
  with assms show ?thesis by (simp add: round_even_def Let_def)
next
  case False
  with assms have "\<lfloor>x\<rfloor> + 1 \<le> \<lfloor>y\<rfloor>" by (meson floor_mono le_less zless_imp_add1_zle)
  then show ?thesis using round_even_cases [of x] round_even_cases [of y] by linarith
qed

lemma bitlen_powi:
  assumes "0 < n"
  shows "2 powi (bitlen n - 1) \<le> (of_int n :: rat)" and "(of_int n :: rat) < 2 powi bitlen n"
proof -
  have len: "1 \<le> bitlen n" using assms bitlen_nonneg [of n] bitlen_eq_zero_iff [of n] by linarith
  have cast: "(2 :: rat) powi k = of_int (2 ^ nat k)" if "0 \<le> k" for k
    using that by (simp add: power_int_def)
  show "2 powi (bitlen n - 1) \<le> (of_int n :: rat)"
    using bitlen_bounds [OF assms] len by (simp only: cast of_int_le_iff diff_ge_0_iff_ge)
  show "(of_int n :: rat) < 2 powi bitlen n"
    using bitlen_bounds [OF assms] len by (simp only: cast of_int_less_iff)
qed

lemma exponent_bounds:
  assumes "0 < x"
  shows "2 powi exponent x \<le> x" and "x < 2 powi (exponent x + 1)"
proof -
  obtain n d where q: "quotient_of x = (n, d)" by (cases "quotient_of x")
  then have d: "0 < d" and x: "x = of_int n / of_int d"
    by (simp_all add: quotient_of_denom_pos quotient_of_div)
  with assms have n: "0 < n" by (simp add: zero_less_divide_iff)
  let ?e = "bitlen n - bitlen d"
  have "2 powi (?e - 1) = (2 :: rat) powi (bitlen n - 1) / 2 powi bitlen d"
    by (simp add: power_int_diff [symmetric] algebra_simps)
  also have "\<dots> \<le> of_int n / of_int d"
    using bitlen_powi [OF n] bitlen_powi(2) [OF d] d n by (intro frac_le) auto
  finally have lower: "2 powi (?e - 1) \<le> x" by (simp add: x)
  have "of_int n / of_int d < (2 :: rat) powi bitlen n / 2 powi (bitlen d - 1)"
    using bitlen_powi [OF n] bitlen_powi(1) [OF d] d n by (intro frac_less) auto
  also have "\<dots> = 2 powi (?e + 1)"
    by (simp add: power_int_diff [symmetric] algebra_simps)
  finally have upper: "x < 2 powi (?e + 1)" by (simp add: x)
  show "2 powi exponent x \<le> x" and "x < 2 powi (exponent x + 1)"
    using lower upper by (auto simp: exponent_def q Let_def)
qed

lemma powi_less_exp: "(2 :: rat) powi a < 2 powi b \<Longrightarrow> a < b"
  by (metis linorder_not_le power_int_increasing one_le_numeral)

lemma fl_zero [simp]: "fl 0 = 0"
  by (simp add: fl_def)

text \<open>A power of two in range of a value bounds its rounding as well.\<close>

lemma fl_bounds:
  assumes "0 < x"
  shows "2 powi exponent x \<le> fl x" and "fl x \<le> 2 powi (exponent x + 1)"
proof -
  note b = exponent_bounds [OF assms]
  have split: "(2 :: rat) powi (exponent x + k) = 2 powi (52 + k) * ulp x" for k
    by (simp add: ulp_def power_int_add [symmetric] algebra_simps)
  have u: "0 < ulp x" by (simp add: ulp_def)
  have pow: "(2 :: rat) powi 52 = of_int (2 ^ 52)" "(2 :: rat) powi 53 = of_int (2 ^ 53)"
    by (simp_all add: power_int_def)
  have "of_int (2 ^ 52) \<le> x / ulp x" "x / ulp x \<le> of_int (2 ^ 53)"
    using b split [of 0] split [of 1] u pow by (simp_all add: field_simps del: of_int_power)
  then have "2 ^ 52 \<le> round_even (x / ulp x)" "round_even (x / ulp x) \<le> 2 ^ 53"
    by (metis round_even_mono round_even_of_int)+
  then have "of_int (2 ^ 52) \<le> (of_int (round_even (x / ulp x)) :: rat)"
    "(of_int (round_even (x / ulp x)) :: rat) \<le> of_int (2 ^ 53)"
    by (simp_all only: of_int_le_iff)
  then show "2 powi exponent x \<le> fl x" and "fl x \<le> 2 powi (exponent x + 1)"
    using split [of 0] split [of 1] u assms pow
    by (simp_all add: fl_def mult_right_mono del: of_int_power)
qed

lemma fl_mono:
  assumes "0 \<le> x" and "x \<le> y"
  shows "fl x \<le> fl y"
proof (cases "x = 0")
  case True
  show ?thesis
  proof (cases "y = 0")
    case False
    with assms True have "0 < y" by simp
    then have "2 powi exponent y \<le> fl y" by (rule fl_bounds)
    then have "0 \<le> fl y" by (rule order_trans [rotated]) simp
    with True show ?thesis by simp
  qed (simp add: True)
next
  case False
  with assms have x: "0 < x" and y: "0 < y" by simp_all
  have "(2 :: rat) powi exponent x < 2 powi (exponent y + 1)"
    using exponent_bounds(1) [OF x] exponent_bounds(2) [OF y] assms(2) by (meson order.strict_trans1 order_trans)
  then have le: "exponent x \<le> exponent y" using powi_less_exp by fastforce
  show ?thesis
  proof (cases "exponent x = exponent y")
    case True
    have "round_even (x / ulp x) \<le> round_even (y / ulp x)"
      by (rule round_even_mono) (simp add: assms(2) divide_right_mono ulp_def)
    then have "(of_int (round_even (x / ulp x)) :: rat) * ulp x \<le> of_int (round_even (y / ulp x)) * ulp x"
      by (intro mult_right_mono) (simp_all add: ulp_def)
    with True x y show ?thesis by (simp add: fl_def ulp_def)
  next
    case False
    with le have "exponent x + 1 \<le> exponent y" by simp
    then have "(2 :: rat) powi (exponent x + 1) \<le> 2 powi exponent y" by (intro power_int_increasing) simp_all
    with fl_bounds(2) [OF x] fl_bounds(1) [OF y] show ?thesis by linarith
  qed
qed

text \<open>Powers of two, and so zero, one and a half, are exact.\<close>

lemma fl_power [simp]: "fl (2 powi k) = 2 powi k"
proof -
  have "exponent (2 powi k) = k"
  proof -
    have "0 < (2 :: rat) powi k" by simp
    note b = exponent_bounds [OF this]
    from powi_less_exp [OF order.strict_trans1 [OF b(1)], of "k + 1"] powi_less_exp [OF b(2)]
    show ?thesis by (simp add: power_int_strict_increasing)
  qed
  then have "2 powi k / ulp (2 powi k) = of_int (2 ^ 52)"
    by (simp add: ulp_def power_int_diff [symmetric])
  then have "fl (2 powi k) = of_int (2 ^ 52) * ulp (2 powi k)"
    unfolding fl_def \<open>2 powi k / ulp (2 powi k) = of_int (2 ^ 52)\<close> round_even_of_int by simp
  also have "\<dots> = 2 powi k"
    using \<open>2 powi k / ulp (2 powi k) = of_int (2 ^ 52)\<close>
    by (metis divide_eq_eq mult_zero_left nonzero_eq_divide_eq power_int_not_zero ulp_def zero_neq_numeral)
  finally show ?thesis .
qed

lemma fl_one [simp]: "fl 1 = 1"
  using fl_power [of 0] by simp

lemma fl_half [simp]: "fl (1 / 2) = 1 / 2"
  using fl_power [of "- 1"] by (simp add: power_int_minus)

lemma fl_unit: "0 \<le> x \<Longrightarrow> x \<le> 1 \<Longrightarrow> 0 \<le> fl x \<and> fl x \<le> 1"
  using fl_mono [of 0 x] fl_mono [of x 1] by simp

end
