(* ===== verification/Personal_Requirements.thy ===== *)
theory Personal_Requirements
  imports Observations Float64
begin

text \<open>
  \<open>services/platform/internal/progression/requirements.go\<close>: what a candidate asked a session to
  test.  \<open>Resolve\<close> turns the request into criteria, a reframing or a refusal; \<open>NewRequirement\<close>,
  \<open>MoveTo\<close> and \<open>Revise\<close> are the life of a requirement; \<open>Judge\<close> is what one session says about it,
  \<open>Measure\<close> the metric over comparable sessions, \<open>NewSelfReport\<close> a self-rating.
\<close>

section \<open>Criteria, requirements and outcomes\<close>

definition RequirementDraft :: string where "RequirementDraft = ''draft''"
definition RequirementActive :: string where "RequirementActive = ''active''"
definition RequirementPaused :: string where "RequirementPaused = ''paused''"
definition RequirementRetired :: string where "RequirementRetired = ''retired''"

definition ResolutionAccepted :: string where "ResolutionAccepted = ''accepted''"
definition ResolutionReframed :: string where "ResolutionReframed = ''reframed''"
definition ResolutionRefused :: string where "ResolutionRefused = ''refused''"
definition ResolutionUnclear :: string where "ResolutionUnclear = ''unclear''"

definition RequirementAchieved :: string where "RequirementAchieved = ''achieved''"
definition RequirementPartiallyAchieved :: string where
  "RequirementPartiallyAchieved = ''partially_achieved''"
definition RequirementNotDemonstrated :: string where "RequirementNotDemonstrated = ''not_demonstrated''"
definition RequirementNotAssessable :: string where "RequirementNotAssessable = ''not_assessable''"

definition NoFairOpportunity :: string where "NoFairOpportunity = ''no_fair_opportunity''"
definition NoEvidenceOffered :: string where "NoEvidenceOffered = ''no_evidence_offered''"
definition EvidenceSufficient :: string where "EvidenceSufficient = ''sufficient''"
definition EvidenceInsufficient :: string where "EvidenceInsufficient = ''insufficient''"

definition sufficientSessions :: nat where "sufficientSessions = 3"

lemmas status_defs = RequirementDraft_def RequirementActive_def RequirementPaused_def RequirementRetired_def
lemmas resolution_defs = ResolutionAccepted_def ResolutionReframed_def ResolutionRefused_def ResolutionUnclear_def
lemmas judged_defs = RequirementAchieved_def RequirementPartiallyAchieved_def
  RequirementNotDemonstrated_def RequirementNotAssessable_def

record criterion =
  cn_id :: string
  cn_statement :: string
  cn_observable :: string

record resolution =
  rs_outcome :: string
  rs_criteria :: "criterion list"
  rs_explanation :: string
  rs_prohibited :: string

record personal_requirement =
  pq_id :: string
  pq_intent :: string
  pq_status :: string
  pq_version :: int
  pq_criteria :: "criterion list"
  pq_reframing :: string
  pq_prohibited :: string
  pq_created_at :: time

section \<open>The catalogue and the prohibitions\<close>

record criterion_template =
  ct_id :: string
  ct_statement :: string
  ct_observable :: string
  ct_cues :: "string list"

definition criterionCatalogue :: "criterion_template list" where
  "criterionCatalogue = [
    \<lparr>ct_id = ''greeting'',
      ct_statement = ''Open with a greeting that acknowledges the interviewer.'',
      ct_observable = ''The first turn contains a greeting addressed to the interviewer.'',
      ct_cues = [''greet'', ''greeting'', ''hello'', ''open the interview'', ''introduce myself to'']\<rparr>,
    \<lparr>ct_id = ''introduction'',
      ct_statement = ''Give a short introduction that names your role and focus.'',
      ct_observable = ''An early turn states the candidate's current role and area of work in under a minute.'',
      ct_cues = [''introduction'', ''introduce'', ''about myself'', ''elevator'', ''summary of me'']\<rparr>,
    \<lparr>ct_id = ''answer-structure'',
      ct_statement = ''Lead each answer with the point, then the supporting detail.'',
      ct_observable = ''Answers state a conclusion before the detail that supports it.'',
      ct_cues = [''structure'', ''structured'', ''star'', ''headline'', ''get to the point'', ''rambl'', ''waffle'', ''hedg'']\<rparr>,
    \<lparr>ct_id = ''trade-offs'',
      ct_statement = ''Name the trade-offs behind a technical choice.'',
      ct_observable = ''A technical answer names at least one alternative and why it was not chosen.'',
      ct_cues = [''trade-off'', ''tradeoff'', ''trade off'', ''technical decision'', ''why i chose'', ''alternatives'']\<rparr>,
    \<lparr>ct_id = ''evidence'',
      ct_statement = ''Support claims with a concrete example.'',
      ct_observable = ''A claim about past work is followed by a specific example with a result.'',
      ct_cues = [''example'', ''evidence'', ''concrete'', ''specific'', ''back up'']\<rparr>,
    \<lparr>ct_id = ''questions'',
      ct_statement = ''Ask the interviewer at least one relevant question.'',
      ct_observable = ''The candidate asks a question about the role, team or work.'',
      ct_cues = [''question'', ''ask them'', ''ask the interviewer'', ''curious'']\<rparr>,
    \<lparr>ct_id = ''closing'',
      ct_statement = ''Close with a short summary and a clear next step.'',
      ct_observable = ''The final turn summarises and states interest or a next step.'',
      ct_cues = [''clos'', ''wrap up'', ''end the interview'', ''finish'', ''sign off'']\<rparr>,
    \<lparr>ct_id = ''conciseness'',
      ct_statement = ''Keep answers to the length the question asked for.'',
      ct_observable = ''Answer length stays within the range the pinned policy considers concise.'',
      ct_cues = [''concise'', ''brief'', ''shorter'', ''too long'', ''conciseness'', ''succinct'']\<rparr>]"

record prohibition =
  pr_name :: string
  pr_cues :: "string list"
  pr_reframe_to :: string
  pr_because :: string

definition prohibitions :: "prohibition list" where
  "prohibitions = [
    \<lparr>pr_name = ''accent or speech background'',
      pr_cues = [''accent'', ''sound native'', ''sound american'', ''sound british'', ''neutral accent'', ''how i pronounce'', ''my english sounds''],
      pr_reframe_to = '''',
      pr_because = ''How somebody speaks is not something this system judges, and there is no version of the question it can answer instead.''\<rparr>,
    \<lparr>pr_name = ''personality'',
      pr_cues = [''personality'', ''what kind of person'', ''my character'', ''am i likeable'', ''likeable'', ''likable'', ''charisma'', ''charismatic''],
      pr_reframe_to = '''',
      pr_because = ''Personality is not observable from an interview answer, and inferring one from a recording is not something this system will do.''\<rparr>,
    \<lparr>pr_name = ''emotional state'',
      pr_cues = [''anxious'', ''nervous'', ''nervousness'', ''stressed'', ''calm'', ''my mood'', ''emotion'', ''how i feel'', ''sound relaxed''],
      pr_reframe_to = ''answer-structure'',
      pr_because = ''Emotional state is not inferred from voice or delivery. What can be observed is the shape of an answer, so that is what this requirement asks for.''\<rparr>,
    \<lparr>pr_name = ''confidence'',
      pr_cues = [''confident'', ''confidence'', ''self-assured'', ''sound sure of myself'', ''assertive'', ''sound authoritative''],
      pr_reframe_to = ''answer-structure'',
      pr_because = ''Confidence is not inferred from how somebody sounds. It is collected only as your own optional self-rating. What can be observed is whether an answer leads with its point, so that is what this requirement asks for.''\<rparr>,
    \<lparr>pr_name = ''enthusiasm'',
      pr_cues = [''enthusiastic'', ''enthusiasm'', ''passionate'', ''passion'', ''excited'', ''energy level''],
      pr_reframe_to = ''questions'',
      pr_because = ''Enthusiasm is a feeling, not a behaviour a transcript records. What can be observed is whether you asked about the role and the work, so that is what this requirement asks for.''\<rparr>,
    \<lparr>pr_name = ''appearance, age, health or another protected characteristic'',
      pr_cues = [''how i look'', ''my age'', ''look older'', ''look younger'', ''attractive'', ''my disability'', ''my accent is foreign'', ''sound foreign'', ''mental health'', ''neurodiver''],
      pr_reframe_to = '''',
      pr_because = ''This is a characteristic the system must never judge, and no interview result will ever be based on one.''\<rparr>]"

section \<open>Resolving a request\<close>

fun mentions :: "string \<Rightarrow> string list \<Rightarrow> bool" where
  "mentions s [] = False"
| "mentions s (cue # cues) = (if Contains s cue then True else mentions s cues)"

fun template_in :: "criterion_template list \<Rightarrow> string \<Rightarrow> criterion_template option" where
  "template_in [] i = None"
| "template_in (t # ts) i = (if ct_id t = i then Some t else template_in ts i)"

definition templateByID :: "string \<Rightarrow> criterion_template option" where
  "templateByID i = template_in criterionCatalogue i"

definition criterionOf :: "criterion_template \<Rightarrow> criterion" where
  "criterionOf t = \<lparr>cn_id = ct_id t, cn_statement = ct_statement t, cn_observable = ct_observable t\<rparr>"

text \<open>The loop over the prohibitions: the first one the request mentions decides.\<close>

fun prohibited_by :: "prohibition list \<Rightarrow> string \<Rightarrow> resolution option" where
  "prohibited_by [] s = None"
| "prohibited_by (p # ps) s =
     (if \<not> mentions s (pr_cues p) then prohibited_by ps s
      else
        let r = \<lparr>rs_outcome = ResolutionRefused, rs_criteria = [], rs_explanation = pr_because p,
                 rs_prohibited = pr_name p\<rparr> in
        Some (if pr_reframe_to p = '''' then r
              else case templateByID (pr_reframe_to p) of
                None \<Rightarrow> r
              | Some t \<Rightarrow> r\<lparr>rs_outcome := ResolutionReframed, rs_criteria := [criterionOf t]\<rparr>))"

definition unclear :: "string \<Rightarrow> resolution" where
  "unclear why = \<lparr>rs_outcome = ResolutionUnclear, rs_criteria = [], rs_explanation = why, rs_prohibited = ''''\<rparr>"

definition Resolve :: "string \<Rightarrow> resolution" where
  "Resolve intent =
     (let s = ToLower (TrimSpace intent) in
      if s = '''' then unclear ''Tell us what you would like this session to look for.''
      else case prohibited_by prohibitions s of
        Some r \<Rightarrow> r
      | None \<Rightarrow>
          let matched = map criterionOf (filter (\<lambda>t. mentions s (ct_cues t)) criterionCatalogue) in
          (if matched = []
           then unclear ''We could not turn that into something a session can observe. Try naming a moment or a behaviour, such as the greeting, the introduction, how an answer is structured, the trade-offs behind a decision, the questions you ask, or how you close.''
           else \<lparr>rs_outcome = ResolutionAccepted, rs_criteria = matched, rs_explanation = '''',
                  rs_prohibited = ''''\<rparr>))"

section \<open>The life of a requirement\<close>

datatype requirement_error =
    ProhibitedInference string string
  | UnclearRequest string
  | NoLifecycleState string
  | StaysRetired
  | NoSession
  | NoPhase string
  | OffScale int

definition NewRequirement :: "string \<Rightarrow> string \<Rightarrow> requirement_error + personal_requirement" where
  "NewRequirement i intent =
     (let r = Resolve intent in
      if rs_outcome r = ResolutionRefused
      then Inl (ProhibitedInference (rs_explanation r) (rs_prohibited r))
      else if rs_outcome r = ResolutionUnclear then Inl (UnclearRequest (rs_explanation r))
      else Inr \<lparr>pq_id = i, pq_intent = intent, pq_status = RequirementDraft, pq_version = 1,
             pq_criteria = rs_criteria r,
             pq_reframing = (if rs_outcome r = ResolutionReframed then rs_explanation r else ''''),
             pq_prohibited = rs_prohibited r, pq_created_at = 0\<rparr>)"

definition MoveTo :: "personal_requirement \<Rightarrow> string \<Rightarrow> requirement_error + personal_requirement" where
  "MoveTo r status =
     (if status \<notin> {RequirementDraft, RequirementActive, RequirementPaused, RequirementRetired}
      then Inl (NoLifecycleState status)
      else if pq_status r = RequirementRetired \<and> status \<noteq> RequirementRetired then Inl StaysRetired
      else Inr (r\<lparr>pq_status := status\<rparr>))"

definition Revise :: "personal_requirement \<Rightarrow> string \<Rightarrow> requirement_error + personal_requirement" where
  "Revise r intent =
     (case NewRequirement (pq_id r) intent of
        Inl e \<Rightarrow> Inl e
      | Inr revised \<Rightarrow>
          Inr (revised\<lparr>pq_version := pq_version r + 1, pq_status := pq_status r,
                 pq_created_at := pq_created_at r\<rparr>))"

section \<open>Judging one session\<close>

record criterion_finding =
  cf_criterion :: string
  cf_demonstrated :: bool
  cf_evidence :: "string list"

record requirement_outcome =
  ro_requirement :: string
  ro_version :: int
  ro_session :: string
  ro_role :: string
  ro_shape :: string
  ro_outcome :: string
  ro_reason :: string
  ro_demonstrated :: "string list"
  ro_missing :: "string list"
  ro_evidence :: "string list"
  ro_next_actions :: "string list"
  ro_observed_at :: time

definition Score :: "requirement_outcome \<Rightarrow> rat option" where
  "Score x =
     (if ro_outcome x = RequirementAchieved then Some 1
      else if ro_outcome x = RequirementPartiallyAchieved then Some (1 / 2)
      else if ro_outcome x = RequirementNotDemonstrated then Some 0
      else None)"

definition nextAction :: "criterion \<Rightarrow> string" where
  "nextAction c = ''Next time: '' @ TrimSuffix (cn_statement c) ''.'' @ ''.''"

definition findings_by :: "criterion_finding list \<Rightarrow> (string \<rightharpoonup> criterion_finding)" where
  "findings_by fs = fold (\<lambda>f m. m(cf_criterion f \<mapsto> f)) fs Map.empty"

definition judge_criterion ::
  "(string \<rightharpoonup> criterion_finding) \<Rightarrow> criterion \<Rightarrow> requirement_outcome \<Rightarrow> requirement_outcome" where
  "judge_criterion by c out =
     (case by (cn_id c) of
        Some f \<Rightarrow>
          (if cf_demonstrated f \<and> cf_evidence f \<noteq> []
           then out\<lparr>ro_demonstrated := ro_demonstrated out @ [cn_id c],
                    ro_evidence := ro_evidence out @ cf_evidence f\<rparr>
           else out\<lparr>ro_missing := ro_missing out @ [cn_id c],
                    ro_next_actions := ro_next_actions out @ [nextAction c]\<rparr>)
      | None \<Rightarrow> out\<lparr>ro_missing := ro_missing out @ [cn_id c],
                   ro_next_actions := ro_next_actions out @ [nextAction c]\<rparr>)"

definition blank_outcome :: "personal_requirement \<Rightarrow> time \<Rightarrow> requirement_outcome" where
  "blank_outcome r now = \<lparr>ro_requirement = pq_id r, ro_version = pq_version r, ro_session = '''',
     ro_role = '''', ro_shape = '''', ro_outcome = '''', ro_reason = '''', ro_demonstrated = [],
     ro_missing = [], ro_evidence = [], ro_next_actions = [], ro_observed_at = now\<rparr>"

definition Judge ::
  "personal_requirement \<Rightarrow> criterion_finding list \<Rightarrow> bool \<Rightarrow> time \<Rightarrow> requirement_outcome" where
  "Judge r fs opportunity now =
     (let out = blank_outcome r now in
      if \<not> opportunity
      then out\<lparr>ro_outcome := RequirementNotAssessable, ro_reason := NoFairOpportunity,
             ro_next_actions := [''This session never reached a point where '' @ ToLower (pq_intent r)
               @ '' would have fitted. Try a shape or a duration that makes room for it.'']\<rparr>
      else if fs = []
      then out\<lparr>ro_outcome := RequirementNotAssessable, ro_reason := NoEvidenceOffered\<rparr>
      else
        let out = fold (judge_criterion (findings_by fs)) (pq_criteria r) out in
        out\<lparr>ro_outcome :=
              (if ro_missing out = [] then RequirementAchieved
               else if ro_demonstrated out = [] then RequirementNotDemonstrated
               else RequirementPartiallyAchieved),
            ro_next_actions := take 2 (ro_next_actions out)\<rparr>)"

section \<open>Measuring comparable sessions\<close>

record metric =
  mt_requirement :: string
  mt_version :: int
  mt_basis :: string
  mt_assessed :: nat
  mt_not_assessable :: nat
  mt_achieved :: nat
  mt_partially :: nat
  mt_not_demonstrated :: nat
  mt_sufficiency :: string
  mt_rate :: rat
  mt_first :: time
  mt_last :: time
  mt_evidence :: evidence

type_synonym metric_key = "string \<times> int \<times> string \<times> string"

definition outcome_key :: "requirement_outcome \<Rightarrow> metric_key" where
  "outcome_key x = (ro_requirement x, ro_version x, ro_role x, ro_shape x)"

definition new_metric :: "requirement_outcome \<Rightarrow> metric" where
  "new_metric x = \<lparr>mt_requirement = ro_requirement x, mt_version = ro_version x,
     mt_basis = ''role '' @ ro_role x @ '', shape '' @ ro_shape x @ '', criterion version ''
       @ itoa (ro_version x),
     mt_assessed = 0, mt_not_assessable = 0, mt_achieved = 0, mt_partially = 0,
     mt_not_demonstrated = 0, mt_sufficiency = '''', mt_rate = 0, mt_first = 0, mt_last = 0,
     mt_evidence = \<lparr>ev_standing = '''', ev_age_days = 0, ev_observed_at = 0\<rparr>\<rparr>"

definition observe_dates :: "requirement_outcome \<Rightarrow> metric \<Rightarrow> metric" where
  "observe_dates x m =
     (let m = (if ro_observed_at x > mt_last m then m\<lparr>mt_last := ro_observed_at x\<rparr> else m) in
      if is_zero (mt_first m) \<or> ro_observed_at x < mt_first m
      then m\<lparr>mt_first := ro_observed_at x\<rparr> else m)"

definition observe :: "requirement_outcome \<Rightarrow> metric \<Rightarrow> metric" where
  "observe x m =
     (let m = observe_dates x m in
      if ro_outcome x = RequirementAchieved
      then m\<lparr>mt_achieved := mt_achieved m + 1, mt_assessed := mt_assessed m + 1\<rparr>
      else if ro_outcome x = RequirementPartiallyAchieved
      then m\<lparr>mt_partially := mt_partially m + 1, mt_assessed := mt_assessed m + 1\<rparr>
      else if ro_outcome x = RequirementNotDemonstrated
      then m\<lparr>mt_not_demonstrated := mt_not_demonstrated m + 1, mt_assessed := mt_assessed m + 1\<rparr>
      else m\<lparr>mt_not_assessable := mt_not_assessable m + 1\<rparr>)"

text \<open>One step of the grouping loop: the map of metrics and the keys in the order first seen.\<close>

fun group_step ::
  "requirement_outcome \<Rightarrow> (metric_key \<rightharpoonup> metric) \<times> metric_key list
     \<Rightarrow> (metric_key \<rightharpoonup> metric) \<times> metric_key list" where
  "group_step x (grouped, order) =
     (case grouped (outcome_key x) of
        Some m \<Rightarrow> (grouped(outcome_key x \<mapsto> observe x m), order)
      | None \<Rightarrow> (grouped(outcome_key x \<mapsto> observe x (new_metric x)), order @ [outcome_key x]))"

definition finish_metric :: "metric \<Rightarrow> metric" where
  "finish_metric m =
     m\<lparr>mt_rate :=
         (if mt_assessed m > 0
          then fdiv (of_nat (mt_achieved m) + of_nat (mt_partially m) / 2) (of_nat (mt_assessed m))
          else mt_rate m),
       mt_sufficiency :=
         (if mt_assessed m \<ge> sufficientSessions then EvidenceSufficient else EvidenceInsufficient),
       mt_evidence := Freshness (mt_last m) (mt_last m)\<rparr>"

definition Measure :: "requirement_outcome list \<Rightarrow> metric list" where
  "Measure outs =
     (case fold group_step outs (Map.empty, []) of
        (grouped, order) \<Rightarrow>
          sort_key (\<lambda>m. (mt_requirement m, mt_basis m))
            (map (\<lambda>k. finish_metric (the (grouped k))) order))"

section \<open>Self-ratings\<close>

definition SelfReportBefore :: string where "SelfReportBefore = ''before''"
definition SelfReportAfter :: string where "SelfReportAfter = ''after''"

record self_report =
  sr_session :: string
  sr_phase :: string
  sr_rating :: int
  sr_reported_at :: time

definition NewSelfReport :: "string \<Rightarrow> string \<Rightarrow> int \<Rightarrow> time \<Rightarrow> requirement_error + self_report" where
  "NewSelfReport session phase rating now =
     (if session = '''' then Inl NoSession
      else if phase \<noteq> SelfReportBefore \<and> phase \<noteq> SelfReportAfter then Inl (NoPhase phase)
      else if rating < 1 \<or> rating > 5 then Inl (OffScale rating)
      else Inr \<lparr>sr_session = session, sr_phase = phase, sr_rating = rating, sr_reported_at = now\<rparr>)"

section \<open>Lemmas\<close>

lemma mentions_iff: "mentions s cues \<longleftrightarrow> (\<exists>cue \<in> set cues. Contains s cue)"
  by (induction cues) auto

lemma template_in_Some: "template_in ts i = Some t \<Longrightarrow> t \<in> set ts \<and> ct_id t = i"
  by (induction ts) (auto split: if_splits)

text \<open>Every reframing the prohibitions name is in the catalogue.\<close>

lemma reframings_exist: "p \<in> set prohibitions \<Longrightarrow> pr_reframe_to p \<noteq> '''' \<Longrightarrow> templateByID (pr_reframe_to p) \<noteq> None"
  by (auto simp: prohibitions_def templateByID_def criterionCatalogue_def)

lemma prohibited_by_None: "prohibited_by ps s = None \<longleftrightarrow> (\<forall>p \<in> set ps. \<not> mentions s (pr_cues p))"
  by (induction ps) (auto simp: Let_def)

lemma prohibited_by_Some:
  assumes "prohibited_by ps s = Some r"
  shows "\<exists>p \<in> set ps. mentions s (pr_cues p) \<and> rs_prohibited r = pr_name p \<and> rs_explanation r = pr_because p
     \<and> (case (if pr_reframe_to p = '''' then None else templateByID (pr_reframe_to p)) of
          None \<Rightarrow> rs_outcome r = ResolutionRefused \<and> rs_criteria r = []
        | Some t \<Rightarrow> rs_outcome r = ResolutionReframed \<and> rs_criteria r = [criterionOf t])"
  using assms
proof (induction ps)
  case (Cons p ps)
  then show ?case
  proof (cases "mentions s (pr_cues p)")
    case True
    with Cons.prems show ?thesis by (auto simp: Let_def split: option.splits if_splits)
  qed auto
qed simp

definition normalise :: "string \<Rightarrow> string" where
  "normalise intent = ToLower (TrimSpace intent)"

lemma Resolve_empty: "normalise intent = '''' \<Longrightarrow> rs_outcome (Resolve intent) = ResolutionUnclear"
  by (simp add: Resolve_def normalise_def unclear_def)

lemma Resolve_prohibited:
  assumes "normalise intent \<noteq> ''''" and "prohibited_by prohibitions (normalise intent) = Some r"
  shows "Resolve intent = r"
  using assms by (simp add: Resolve_def normalise_def Let_def)

lemma Resolve_catalogue:
  assumes "normalise intent \<noteq> ''''" and "prohibited_by prohibitions (normalise intent) = None"
  defines "matched \<equiv> map criterionOf (filter (\<lambda>t. mentions (normalise intent) (ct_cues t)) criterionCatalogue)"
  shows "rs_outcome (Resolve intent) = (if matched = [] then ResolutionUnclear else ResolutionAccepted)"
    and "rs_criteria (Resolve intent) = matched" and "rs_prohibited (Resolve intent) = ''''"
  using assms(1,2) unfolding matched_def
  by (simp_all add: Resolve_def normalise_def [symmetric] Let_def unclear_def)

text \<open>The loop of \<open>Judge\<close> sorts the criteria into demonstrated and missing.\<close>

definition shown :: "criterion_finding list \<Rightarrow> criterion \<Rightarrow> bool" where
  "shown fs c \<longleftrightarrow>
     (case findings_by fs (cn_id c) of Some f \<Rightarrow> cf_demonstrated f \<and> cf_evidence f \<noteq> [] | None \<Rightarrow> False)"

lemma findings_fold:
  "fold (\<lambda>f m. m(cf_criterion f \<mapsto> f)) fs m i = Some f \<Longrightarrow>
     m i = Some f \<or> (f \<in> set fs \<and> cf_criterion f = i)"
  by (induction fs arbitrary: m) (fastforce split: if_splits)+

lemma findings_by_Some: "findings_by fs i = Some f \<Longrightarrow> f \<in> set fs \<and> cf_criterion f = i"
  unfolding findings_by_def by (drule findings_fold) simp

lemma judge_fold:
  "fold (judge_criterion (findings_by fs)) cs out = out\<lparr>
     ro_demonstrated := ro_demonstrated out @ map cn_id (filter (shown fs) cs),
     ro_missing := ro_missing out @ map cn_id (filter (\<lambda>c. \<not> shown fs c) cs),
     ro_evidence := ro_evidence out
       @ concat (map (\<lambda>c. cf_evidence (the (findings_by fs (cn_id c)))) (filter (shown fs) cs)),
     ro_next_actions := ro_next_actions out @ map nextAction (filter (\<lambda>c. \<not> shown fs c) cs)\<rparr>"
proof (induction cs arbitrary: out)
  case (Cons c cs)
  have "judge_criterion (findings_by fs) c out =
      (if shown fs c
       then out\<lparr>ro_demonstrated := ro_demonstrated out @ [cn_id c],
              ro_evidence := ro_evidence out @ cf_evidence (the (findings_by fs (cn_id c)))\<rparr>
       else out\<lparr>ro_missing := ro_missing out @ [cn_id c],
              ro_next_actions := ro_next_actions out @ [nextAction c]\<rparr>)"
    by (auto simp: judge_criterion_def shown_def split: option.splits)
  then show ?case by (simp add: Cons.IH)
qed simp

lemma Judge_assessed:
  assumes "opportunity" and "fs \<noteq> []"
  shows "ro_demonstrated (Judge r fs opportunity now) = map cn_id (filter (shown fs) (pq_criteria r))"
    and "ro_missing (Judge r fs opportunity now) = map cn_id (filter (\<lambda>c. \<not> shown fs c) (pq_criteria r))"
    and "ro_evidence (Judge r fs opportunity now) =
           concat (map (\<lambda>c. cf_evidence (the (findings_by fs (cn_id c)))) (filter (shown fs) (pq_criteria r)))"
    and "ro_next_actions (Judge r fs opportunity now) =
           take 2 (map nextAction (filter (\<lambda>c. \<not> shown fs c) (pq_criteria r)))"
    and "ro_outcome (Judge r fs opportunity now) =
           (if filter (\<lambda>c. \<not> shown fs c) (pq_criteria r) = [] then RequirementAchieved
            else if filter (shown fs) (pq_criteria r) = [] then RequirementNotDemonstrated
            else RequirementPartiallyAchieved)"
    and "ro_reason (Judge r fs opportunity now) = ''''"
  using assms by (simp_all add: Judge_def Let_def judge_fold blank_outcome_def)

lemma Score_None:
  "Score x = None \<longleftrightarrow> ro_outcome x \<notin> {RequirementAchieved, RequirementPartiallyAchieved, RequirementNotDemonstrated}"
  unfolding Score_def by auto

lemma Judge_static:
  "ro_requirement (Judge r fs opportunity now) = pq_id r" "ro_version (Judge r fs opportunity now) = pq_version r"
  "ro_observed_at (Judge r fs opportunity now) = now"
  by (simp_all add: Judge_def Let_def judge_fold blank_outcome_def)

section \<open>Properties\<close>

text \<open>A prohibited inference is never half accepted. A request that mentions a prohibited cue is
  refused, or reframed to one criterion of the catalogue that the prohibition itself names, with the
  prohibition and its reason stated; a request is accepted only where it mentions none, and then its
  criteria are exactly those of the catalogue whose cues it mentions, at least one.\<close>

theorem prohibition_decides:
  assumes "normalise intent \<noteq> ''''"
  shows "(if \<exists>p \<in> set prohibitions. mentions (normalise intent) (pr_cues p)
          then \<exists>p \<in> set prohibitions. mentions (normalise intent) (pr_cues p)
                 \<and> rs_prohibited (Resolve intent) = pr_name p
                 \<and> rs_explanation (Resolve intent) = pr_because p
                 \<and> (if pr_reframe_to p = ''''
                    then rs_outcome (Resolve intent) = ResolutionRefused \<and> rs_criteria (Resolve intent) = []
                    else rs_outcome (Resolve intent) = ResolutionReframed
                       \<and> (\<exists>t \<in> set criterionCatalogue. ct_id t = pr_reframe_to p
                            \<and> rs_criteria (Resolve intent) = [criterionOf t]))
          else rs_criteria (Resolve intent) =
                 map criterionOf (filter (\<lambda>t. mentions (normalise intent) (ct_cues t)) criterionCatalogue)
             \<and> rs_prohibited (Resolve intent) = ''''
             \<and> rs_outcome (Resolve intent) =
                 (if rs_criteria (Resolve intent) = [] then ResolutionUnclear else ResolutionAccepted))"
proof (cases "prohibited_by prohibitions (normalise intent)")
  case None
  then have none: "\<forall>p \<in> set prohibitions. \<not> mentions (normalise intent) (pr_cues p)"
    unfolding prohibited_by_None .
  note cat = Resolve_catalogue [OF assms None]
  show ?thesis using none unfolding cat by auto
next
  case (Some r)
  note res = Resolve_prohibited [OF assms Some]
  from prohibited_by_Some [OF Some] obtain p where p: "p \<in> set prohibitions"
    "mentions (normalise intent) (pr_cues p)" "rs_prohibited r = pr_name p" "rs_explanation r = pr_because p"
    and out: "case (if pr_reframe_to p = '''' then None else templateByID (pr_reframe_to p)) of
          None \<Rightarrow> rs_outcome r = ResolutionRefused \<and> rs_criteria r = []
        | Some t \<Rightarrow> rs_outcome r = ResolutionReframed \<and> rs_criteria r = [criterionOf t]" by blast
  have "if pr_reframe_to p = '''' then rs_outcome r = ResolutionRefused \<and> rs_criteria r = []
     else rs_outcome r = ResolutionReframed
        \<and> (\<exists>t \<in> set criterionCatalogue. ct_id t = pr_reframe_to p \<and> rs_criteria r = [criterionOf t])"
  proof (cases "pr_reframe_to p = ''''")
    case False
    then obtain t where t: "templateByID (pr_reframe_to p) = Some t"
      using reframings_exist [OF p(1)] by auto
    with template_in_Some [of criterionCatalogue "pr_reframe_to p" t] out False show ?thesis
      by (auto simp: templateByID_def)
  qed (use out in simp)
  with p show ?thesis unfolding res by metis
qed

theorem prohibition_decides_witness:
  "rs_outcome (Resolve '' Do I sound Confident in my structure?'') = ResolutionReframed"
proof -
  let ?i = "'' Do I sound Confident in my structure?''"
  have n: "normalise ?i = ''do i sound confident in my structure?''"
    by code_simp
  have m: "map (\<lambda>p. (pr_name p, pr_reframe_to p)) (filter (\<lambda>p. mentions (normalise ?i) (pr_cues p)) prohibitions)
      = [(''confidence'', ''answer-structure'')]"
    by code_simp
  have "pr_reframe_to p = ''answer-structure''"
    if "p \<in> set prohibitions" "mentions (normalise ?i) (pr_cues p)" for p
    using that arg_cong [OF m, of set] by auto
  moreover have "\<exists>p \<in> set prohibitions. mentions (normalise ?i) (pr_cues p)"
    using arg_cong [OF m, of "\<lambda>x. x = []"] by (simp add: filter_empty_conv)
  ultimately show ?thesis using prohibition_decides [of ?i] n by auto
qed

text \<open>A session's answer about a requirement is evidenced and never turns silence into a low result.
  Without an opportunity, or without findings, the outcome is not assessable, has a reason and no
  score. Otherwise the criteria, in their order, are split into demonstrated and missing; every
  demonstrated one has a finding of this session that says so and names evidence, the outcome has a
  score, it is achieved exactly when nothing is missing, and it names at most two next actions, and
  at least one where something is missing.\<close>

theorem judge_is_evidenced:
  "if opportunity \<and> fs \<noteq> []
   then mset (ro_demonstrated (Judge r fs opportunity now)) + mset (ro_missing (Judge r fs opportunity now))
          = mset (map cn_id (pq_criteria r))
      \<and> subseq (ro_demonstrated (Judge r fs opportunity now)) (map cn_id (pq_criteria r))
      \<and> (\<forall>i. i \<notin> set (ro_demonstrated (Judge r fs opportunity now))
           \<or> (\<exists>f \<in> set fs. cf_criterion f = i \<and> cf_demonstrated f \<and> cf_evidence f \<noteq> []
                \<and> set (cf_evidence f) \<subseteq> set (ro_evidence (Judge r fs opportunity now))))
      \<and> Score (Judge r fs opportunity now) \<noteq> None
      \<and> (ro_outcome (Judge r fs opportunity now) = RequirementAchieved
           \<longleftrightarrow> ro_missing (Judge r fs opportunity now) = [])
      \<and> length (ro_next_actions (Judge r fs opportunity now))
          = min 2 (length (ro_missing (Judge r fs opportunity now)))
   else ro_outcome (Judge r fs opportunity now) = RequirementNotAssessable
      \<and> ro_reason (Judge r fs opportunity now) \<noteq> '''' \<and> Score (Judge r fs opportunity now) = None"
proof (cases "opportunity \<and> fs \<noteq> []")
  case False
  then show ?thesis
    by (auto simp: Judge_def Let_def Score_def judged_defs NoFairOpportunity_def NoEvidenceOffered_def
        blank_outcome_def)
next
  case True
  then have "opportunity" "fs \<noteq> []" by simp_all
  note j = Judge_assessed [OF this, of r now]
  have parts: "mset (map cn_id (filter (shown fs) cs)) + mset (map cn_id (filter (\<lambda>c. \<not> shown fs c) cs))
      = mset (map cn_id cs)" for cs
    by (induction cs) auto
  have evidence: "\<exists>f \<in> set fs. cf_criterion f = i \<and> cf_demonstrated f \<and> cf_evidence f \<noteq> []
      \<and> set (cf_evidence f) \<subseteq> set (ro_evidence (Judge r fs opportunity now))"
    if "i \<in> set (ro_demonstrated (Judge r fs opportunity now))" for i
  proof -
    from that obtain c where c: "c \<in> set (pq_criteria r)" "shown fs c" "i = cn_id c" by (auto simp: j)
    then obtain f where f: "findings_by fs (cn_id c) = Some f" "cf_demonstrated f" "cf_evidence f \<noteq> []"
      by (auto simp: shown_def split: option.splits)
    with findings_by_Some [OF f(1)] c show ?thesis unfolding j by (intro bexI [of _ f]) force+
  qed
  have "subseq (map cn_id (filter (shown fs) (pq_criteria r))) (map cn_id (pq_criteria r))"
    by (simp add: subseq_map)
  moreover have "ro_outcome (Judge r fs opportunity now) = RequirementAchieved
      \<longleftrightarrow> ro_missing (Judge r fs opportunity now) = []"
    unfolding j by (simp add: judged_defs)
  moreover have "Score (Judge r fs opportunity now) \<noteq> None"
    by (simp add: Score_None j)
  moreover have "length (ro_next_actions (Judge r fs opportunity now))
      = min 2 (length (ro_missing (Judge r fs opportunity now)))"
    unfolding j by simp
  ultimately show ?thesis
    unfolding if_P [OF True] using evidence parts [of "pq_criteria r"] j(1,2) by metis
qed

theorem judge_is_evidenced_witness:
  "\<exists>f \<in> set [\<lparr>cf_criterion = ''c'', cf_demonstrated = True, cf_evidence = [''turn 3'']\<rparr>].
     cf_criterion f = ''c'' \<and> cf_evidence f \<noteq> []"
proof -
  let ?fs = "[\<lparr>cf_criterion = ''c'', cf_demonstrated = True, cf_evidence = [''turn 3'']\<rparr>]"
  let ?r = "\<lparr>pq_id = ''r'', pq_intent = ''i'', pq_status = RequirementActive, pq_version = 1,
    pq_criteria = [\<lparr>cn_id = ''c'', cn_statement = ''s.'', cn_observable = ''o''\<rparr>],
    pq_reframing = '''', pq_prohibited = '''', pq_created_at = 0\<rparr>"
  have "''c'' \<in> set (ro_demonstrated (Judge ?r ?fs True 7))"
    by (simp add: Judge_assessed shown_def findings_by_def)
  with judge_is_evidenced [of True ?fs ?r 7] show ?thesis by auto
qed

text \<open>The requirements reached by accepted moves and revisions, with the revisions made so far and
  whether it was ever retired.\<close>

inductive lived :: "personal_requirement \<Rightarrow> nat \<Rightarrow> bool \<Rightarrow> bool" where
  created: "NewRequirement i intent = Inr r \<Longrightarrow> lived r 0 False"
| moved: "lived r n b \<Longrightarrow> MoveTo r status = Inr r' \<Longrightarrow> lived r' n (b \<or> status = RequirementRetired)"
| revised: "lived r n b \<Longrightarrow> Revise r intent = Inr r' \<Longrightarrow> lived r' (Suc n) b"

lemma NewRequirement_Inr:
  assumes "NewRequirement i intent = Inr r"
  shows "pq_version r = 1" and "pq_status r = RequirementDraft" and "pq_id r = i"
    and "pq_criteria r \<noteq> []" and "set (pq_criteria r) \<subseteq> criterionOf ` set criterionCatalogue"
proof -
  let ?r = "Resolve intent"
  from assms have r: "r = \<lparr>pq_id = i, pq_intent = intent, pq_status = RequirementDraft, pq_version = 1,
       pq_criteria = rs_criteria ?r,
       pq_reframing = (if rs_outcome ?r = ResolutionReframed then rs_explanation ?r else ''''),
       pq_prohibited = rs_prohibited ?r, pq_created_at = 0\<rparr>"
    and out: "rs_outcome ?r \<noteq> ResolutionRefused" "rs_outcome ?r \<noteq> ResolutionUnclear"
    by (auto simp: NewRequirement_def Let_def split: if_splits)
  show "pq_version r = 1" and "pq_status r = RequirementDraft" and "pq_id r = i" by (simp_all add: r)
  have "normalise intent \<noteq> ''''" using out Resolve_empty by blast
  then have "rs_criteria ?r \<noteq> [] \<and> set (rs_criteria ?r) \<subseteq> criterionOf ` set criterionCatalogue"
  proof (cases "prohibited_by prohibitions (normalise intent)")
    case None
    note cat = Resolve_catalogue [OF \<open>normalise intent \<noteq> ''''\<close> None]
    with out(2) show ?thesis unfolding cat(2) by (auto simp: cat(1))
  next
    case (Some q)
    note res = Resolve_prohibited [OF \<open>normalise intent \<noteq> ''''\<close> Some]
    from prohibited_by_Some [OF Some] obtain p :: prohibition where
      "case (if pr_reframe_to p = '''' then None else templateByID (pr_reframe_to p)) of
          None \<Rightarrow> rs_outcome q = ResolutionRefused \<and> rs_criteria q = []
        | Some t \<Rightarrow> rs_outcome q = ResolutionReframed \<and> rs_criteria q = [criterionOf t]"
      by blast
    with out(1) have "\<exists>t. templateByID (pr_reframe_to p) = Some t \<and> rs_criteria q = [criterionOf t]"
      unfolding res by (cases "pr_reframe_to p = ''''"; cases "templateByID (pr_reframe_to p)") simp_all
    then show ?thesis unfolding res by (auto simp: templateByID_def dest!: template_in_Some)
  qed
  then show "pq_criteria r \<noteq> []" and "set (pq_criteria r) \<subseteq> criterionOf ` set criterionCatalogue"
    by (simp_all add: r)
qed

lemma Revise_Inr:
  assumes "Revise r intent = Inr r'"
  shows "pq_version r' = pq_version r + 1" and "pq_status r' = pq_status r" and "pq_id r' = pq_id r"
    and "pq_criteria r' \<noteq> []" and "set (pq_criteria r') \<subseteq> criterionOf ` set criterionCatalogue"
proof -
  from assms obtain n where n: "NewRequirement (pq_id r) intent = Inr n"
    and r': "r' = n\<lparr>pq_version := pq_version r + 1, pq_status := pq_status r, pq_created_at := pq_created_at r\<rparr>"
    by (auto simp: Revise_def split: sum.splits)
  show "pq_version r' = pq_version r + 1" and "pq_status r' = pq_status r" and "pq_id r' = pq_id r"
    and "pq_criteria r' \<noteq> []" and "set (pq_criteria r') \<subseteq> criterionOf ` set criterionCatalogue"
    using NewRequirement_Inr [OF n] by (simp_all add: r')
qed

lemma MoveTo_Inr:
  "MoveTo r status = Inr r' \<longleftrightarrow>
     status \<in> {RequirementDraft, RequirementActive, RequirementPaused, RequirementRetired}
     \<and> (pq_status r = RequirementRetired \<longrightarrow> status = RequirementRetired) \<and> r' = r\<lparr>pq_status := status\<rparr>"
  by (auto simp: MoveTo_def)

text \<open>The life of a requirement. Starting from a new one, through any accepted moves and
  revisions, its version is one more than the revisions made, its criteria are always a non-empty
  selection of the catalogue, its status is a lifecycle state, and it is retired exactly when it was
  ever moved to retired: retiring is final, for moves and revisions alike.\<close>

theorem requirement_life:
  assumes "lived r n ever"
  shows "pq_version r = int n + 1
       \<and> pq_criteria r \<noteq> [] \<and> set (pq_criteria r) \<subseteq> criterionOf ` set criterionCatalogue
       \<and> pq_status r \<in> {RequirementDraft, RequirementActive, RequirementPaused, RequirementRetired}
       \<and> (pq_status r = RequirementRetired \<longleftrightarrow> ever)"
  using assms
proof induction
  case (created i intent r)
  then show ?case by (simp add: NewRequirement_Inr status_defs)
next
  case (moved r n b status r')
  then show ?case by (auto simp: MoveTo_Inr)
next
  case (revised r n b intent r')
  then show ?case using Revise_Inr [OF revised.hyps(2)] by auto
qed

theorem requirement_life_witness:
  "\<exists>r. lived r 1 True \<and> pq_version r = 2 \<and> pq_status r = RequirementRetired"
proof -
  have "is_ok (NewRequirement ''r'' ''be concise'')" "is_ok (NewRequirement ''r'' ''be brief'')"
    by code_simp+
  then obtain r s where r: "NewRequirement ''r'' ''be concise'' = Inr r"
    and s: "NewRequirement ''r'' ''be brief'' = Inr s" by (auto simp: is_ok_iff)
  let ?m = "r\<lparr>pq_status := RequirementRetired\<rparr>"
  have m: "lived ?m 0 True"
    using lived.moved [OF lived.created [OF r], of RequirementRetired ?m]
    by (simp add: MoveTo_Inr NewRequirement_Inr [OF r] status_defs)
  have "\<exists>q. Revise ?m ''be brief'' = Inr q"
    using s by (simp add: Revise_def NewRequirement_Inr [OF r])
  then obtain q where "Revise ?m ''be brief'' = Inr q" by blast
  with m have "lived q 1 True" using lived.revised [OF m] by simp
  with requirement_life [OF this] show ?thesis by auto
qed

section \<open>Measuring\<close>

definition series :: "requirement_outcome list \<Rightarrow> metric_key \<Rightarrow> requirement_outcome list" where
  "series outs k = filter (\<lambda>x. outcome_key x = k) outs"

definition scores :: "requirement_outcome list \<Rightarrow> rat list" where
  "scores xs = List.map_filter Score xs"

definition grouped_metric :: "requirement_outcome list \<Rightarrow> metric option" where
  "grouped_metric xs = (case xs of [] \<Rightarrow> None | x # _ \<Rightarrow> Some (fold observe xs (new_metric x)))"

lemma grouped_fold:
  "fst (fold group_step outs (g, ks)) k =
     (case g k of
        Some m \<Rightarrow> Some (fold observe (series outs k) m)
      | None \<Rightarrow> grouped_metric (series outs k))"
proof (induction outs arbitrary: g ks)
  case (Cons x outs)
  show ?case
    by (auto simp: Cons.IH series_def grouped_metric_def split: option.splits list.splits)
qed (simp add: series_def grouped_metric_def split: option.splits)

lemma order_fold:
  assumes "distinct ks" and "dom g = set ks"
  shows "distinct (snd (fold group_step outs (g, ks))) \<and>
     set (snd (fold group_step outs (g, ks))) = set ks \<union> outcome_key ` set outs"
  using assms
proof (induction outs arbitrary: g ks)
  case (Cons x outs)
  show ?case
  proof (cases "g (outcome_key x)")
    case None
    then have "outcome_key x \<notin> set ks" using Cons.prems(2) by blast
    then have "distinct (ks @ [outcome_key x])"
      and "dom (g(outcome_key x \<mapsto> observe x (new_metric x))) = set (ks @ [outcome_key x])"
      using Cons.prems by simp_all
    from Cons.IH [OF this] None show ?thesis by (simp del: fun_upd_apply)
  next
    case (Some m)
    then have "outcome_key x \<in> set ks" using Cons.prems(2) by blast
    then have "dom (g(outcome_key x \<mapsto> observe x m)) = set ks" using Cons.prems(2) by auto
    from Cons.IH [OF Cons.prems(1) this] Some \<open>outcome_key x \<in> set ks\<close> show ?thesis
      by (simp add: insert_absorb del: fun_upd_apply)
  qed
qed simp

lemma Measure_series:
  "\<exists>ks. distinct ks \<and> set ks = outcome_key ` set outs
     \<and> mset (Measure outs) = mset (map (\<lambda>k. finish_metric (the (grouped_metric (series outs k)))) ks)"
proof -
  obtain g ks where gk: "fold group_step outs (Map.empty, []) = (g, ks)" by fastforce
  have "distinct ks" "set ks = outcome_key ` set outs"
    using order_fold [of "[]" Map.empty outs] gk by simp_all
  moreover have "g k = grouped_metric (series outs k)" for k
    using grouped_fold [of outs Map.empty "[]" k] gk by simp
  ultimately show ?thesis
    by (intro exI [of _ ks]) (simp add: Measure_def gk)
qed

lemma observe_counts:
  "mt_achieved (observe x m) + mt_partially (observe x m) + mt_not_demonstrated (observe x m)
     = mt_achieved m + mt_partially m + mt_not_demonstrated m + (if Score x = None then 0 else 1)"
  "mt_assessed (observe x m) = mt_assessed m + (if Score x = None then 0 else 1)"
  "mt_not_assessable (observe x m) = mt_not_assessable m + (if Score x = None then 1 else 0)"
  "of_nat (mt_achieved (observe x m)) + of_nat (mt_partially (observe x m)) / (2 :: rat)
     = of_nat (mt_achieved m) + of_nat (mt_partially m) / 2 + (case Score x of None \<Rightarrow> 0 | Some v \<Rightarrow> v)"
  "mt_requirement (observe x m) = mt_requirement m" "mt_version (observe x m) = mt_version m"
  "mt_rate (observe x m) = mt_rate m"
  by (simp_all add: observe_def observe_dates_def Let_def Score_def judged_defs field_simps)

lemma observe_fold_all:
  "mt_assessed (fold observe xs m) = mt_assessed m + length (scores xs)
   \<and> mt_not_assessable (fold observe xs m) = mt_not_assessable m + (length xs - length (scores xs))
   \<and> of_nat (mt_achieved (fold observe xs m)) + of_nat (mt_partially (fold observe xs m)) / (2 :: rat)
       = of_nat (mt_achieved m) + of_nat (mt_partially m) / 2 + sum_list (scores xs)
   \<and> mt_requirement (fold observe xs m) = mt_requirement m
   \<and> mt_version (fold observe xs m) = mt_version m
   \<and> mt_rate (fold observe xs m) = mt_rate m"
proof (induction xs arbitrary: m)
  case (Cons x xs)
  have "length (scores xs) \<le> length xs" by (simp add: scores_def List.map_filter_def)
  with Cons.IH [of "observe x m", unfolded observe_counts] show ?case
    by (simp add: scores_def split: option.split)
qed (simp add: scores_def)

lemmas observe_fold = observe_fold_all [THEN conjunct1]
  observe_fold_all [THEN conjunct2, THEN conjunct1]
  observe_fold_all [THEN conjunct2, THEN conjunct2, THEN conjunct1]
  observe_fold_all [THEN conjunct2, THEN conjunct2, THEN conjunct2]

lemma scores_range: "v \<in> set (scores xs) \<Longrightarrow> 0 \<le> v \<and> v \<le> 1"
  by (auto simp: scores_def List.map_filter_def Score_def split: if_splits)

lemma sum_list_unit:
  "(\<And>v. v \<in> set vs \<Longrightarrow> 0 \<le> v \<and> v \<le> 1) \<Longrightarrow> 0 \<le> sum_list vs \<and> sum_list vs \<le> (of_nat (length vs) :: rat)"
  by (induction vs) fastforce+

definition mean :: "rat list \<Rightarrow> rat" where
  "mean vs = (if vs = [] then 0 else fdiv (sum_list vs) (of_nat (length vs)))"

lemma mean_scores: "0 \<le> mean (scores xs) \<and> mean (scores xs) \<le> 1"
proof (cases "scores xs = []")
  case False
  have s: "0 \<le> sum_list (scores xs) \<and> sum_list (scores xs) \<le> of_nat (length (scores xs))"
    by (rule sum_list_unit) (rule scores_range)
  have "0 \<le> sum_list (scores xs) / of_nat (length (scores xs))"
    "sum_list (scores xs) / of_nat (length (scores xs)) \<le> 1"
    using s False by (simp_all add: divide_le_eq)
  with False show ?thesis by (simp add: mean_def fdiv_def fl_unit)
qed (simp add: mean_def)

text \<open>What a metric says of its series, read off the series directly.\<close>

definition reading_of :: "requirement_outcome list \<Rightarrow> metric_key \<Rightarrow> (string \<times> int) \<times> nat \<times> nat \<times> rat \<times> string" where
  "reading_of xs k = ((fst k, fst (snd k)), length (scores xs), length xs - length (scores xs),
     mean (scores xs),
     if length (scores xs) < 3 then EvidenceInsufficient else EvidenceSufficient)"

definition reported :: "metric \<Rightarrow> (string \<times> int) \<times> nat \<times> nat \<times> rat \<times> string" where
  "reported m = ((mt_requirement m, mt_version m), mt_assessed m, mt_not_assessable m, mt_rate m,
     mt_sufficiency m)"

lemma reported_series:
  assumes "k \<in> outcome_key ` set outs"
  shows "reported (finish_metric (the (grouped_metric (series outs k)))) = reading_of (series outs k) k"
proof -
  from assms obtain x xs where s: "series outs k = x # xs"
    by (cases "series outs k") (auto simp: series_def filter_empty_conv)
  then have k: "outcome_key x = k"
  proof -
    from s have "x \<in> set (series outs k)" by simp
    then show ?thesis by (simp add: series_def)
  qed
  let ?m = "fold observe (x # xs) (new_metric x)"
  have new: "mt_achieved (new_metric x) = 0" "mt_partially (new_metric x) = 0" "mt_assessed (new_metric x) = 0"
    "mt_not_assessable (new_metric x) = 0" "mt_rate (new_metric x) = 0"
    "mt_requirement (new_metric x) = fst k" "mt_version (new_metric x) = fst (snd k)"
    using k by (simp_all add: new_metric_def outcome_key_def) (auto simp: outcome_key_def)
  obtain m where m: "?m = m" by simp
  note f = observe_fold [of "x # xs" "new_metric x", unfolded new m]
  have g: "the (grouped_metric (x # xs)) = m" unfolding grouped_metric_def by (simp add: m [symmetric])
  have sc: "scores (x # xs) = [] \<longleftrightarrow> length (scores (x # xs)) = 0" by simp
  show ?thesis
    unfolding reported_def reading_of_def s g mean_def finish_metric_def sc
    using f by (auto simp: sufficientSessions_def)
qed

text \<open>A metric is the mean of the scores there are. The metrics are one for each requirement,
  criterion version, role and shape that occurs; each counts the outcomes of its own series with a
  score and, apart from them, those without; its rate is the mean of the scores alone, between zero
  and one, so a session that could not assess leaves it as it was; and it is sufficient from three
  scores on.\<close>

theorem measure_is_mean_of_scores:
  "image_mset reported (mset (Measure outs))
     = image_mset (\<lambda>k. reading_of (series outs k) k) (mset_set (outcome_key ` set outs))
   \<and> mt_rate ` set (Measure outs) \<subseteq> {0..1}"
proof -
  obtain ks where ks: "distinct ks" "set ks = outcome_key ` set outs"
    and m: "mset (Measure outs) = mset (map (\<lambda>k. finish_metric (the (grouped_metric (series outs k)))) ks)"
    using Measure_series by blast
  have "image_mset reported (mset (Measure outs))
      = mset (map (\<lambda>k. reported (finish_metric (the (grouped_metric (series outs k))))) ks)"
    unfolding m by (simp add: image_mset.compositionality comp_def)
  also have "\<dots> = mset (map (\<lambda>k. reading_of (series outs k) k) ks)"
    by (intro arg_cong [of _ _ mset] map_cong refl) (simp add: reported_series ks(2) [symmetric])
  also have "\<dots> = image_mset (\<lambda>k. reading_of (series outs k) k) (mset_set (outcome_key ` set outs))"
    using mset_set_set [OF ks(1)] by (simp add: ks(2))
  finally have eq: "image_mset reported (mset (Measure outs)) =
      image_mset (\<lambda>k. reading_of (series outs k) k) (mset_set (outcome_key ` set outs))" .
  have "mt_rate x \<in> {0..1}" if "x \<in> set (Measure outs)" for x
  proof -
    from that have "reported x \<in># image_mset reported (mset (Measure outs))" by simp
    then obtain k where "reported x = reading_of (series outs k) k" unfolding eq by auto
    then have "mt_rate x = mean (scores (series outs k))" by (simp add: reported_def reading_of_def)
    with mean_scores show ?thesis by simp
  qed
  with eq show ?thesis by blast
qed

text \<open>
  The evidence a metric carries compares its last observation with itself, so whatever day it is
  read its standing is fresh and its age zero.
\<close>

lemma measure_evidence_never_ages:
  assumes "m \<in> set (Measure outs)" and "mt_last m \<noteq> 0"
  shows "ev_standing (mt_evidence m) = EvidenceFresh \<and> ev_age_days (mt_evidence m) = 0"
proof -
  obtain ks where "mset (Measure outs) = mset (map (\<lambda>k. finish_metric (the (grouped_metric (series outs k)))) ks)"
    using Measure_series by blast
  from mset_eq_setD [OF this] assms(1)
  obtain m0 where "m = finish_metric m0" by auto
  then have "mt_evidence m = Freshness (mt_last m) (mt_last m)" by (simp add: finish_metric_def)
  then show ?thesis
    using assms(2) by (simp add: Freshness_self Freshness_age time_sub_def max_duration_def min_duration_def)
qed

end
