(* ===== verification/Row_Scope.thy ===== *)
theory Row_Scope
  imports Prelude
begin

text \<open>
  The row scope every candidate-facing table shares: a practice row belongs to its candidate, a
  screening row to its tenant.  \<open>database.SetUser\<close> and \<open>database.SetTenant\<close> enter a scope for the
  length of a transaction, the \<open>scope\<close> function of each context chooses between them by the mode,
  and the row-level policies of the migrations (\<open>..._practice_owner\<close>, \<open>..._tenant\<close>) decide what the
  transaction sees and may write.  An empty tenant stands for SQL's \<open>NULL\<close>.
\<close>

datatype row_scope = AsUser string | AsTenant string

record session_ref =
  ref_session :: string
  ref_mode :: string
  ref_candidate :: string
  ref_tenant :: string

definition SetUser :: "string \<Rightarrow> row_scope option" where
  "SetUser u = (if TrimSpace u = '''' then None else Some (AsUser u))"

definition SetTenant :: "string \<Rightarrow> row_scope option" where
  "SetTenant t = (if TrimSpace t = '''' then None else Some (AsTenant t))"

definition scope_of :: "session_ref \<Rightarrow> row_scope option" where
  "scope_of ref =
     (if ref_mode ref = ''practice'' then SetUser (ref_candidate ref) else SetTenant (ref_tenant ref))"

text \<open>The row-level policies: \<open>USING\<close> and \<open>WITH CHECK\<close> state the same condition.\<close>

definition visible :: "row_scope \<Rightarrow> session_ref \<Rightarrow> bool" where
  "visible sc r =
     (case sc of
        AsUser u \<Rightarrow> ref_mode r = ''practice'' \<and> ref_candidate r = u
      | AsTenant t \<Rightarrow> ref_tenant r \<noteq> '''' \<and> ref_tenant r = t)"

text \<open>The columns' own constraints: the mode is one of two, and practice has no tenant.\<close>

definition ref_ok :: "session_ref \<Rightarrow> bool" where
  "ref_ok r \<longleftrightarrow> ref_mode r \<in> {''practice'', ''screening''}
     \<and> (ref_mode r = ''practice'' \<longleftrightarrow> ref_tenant r = '''')"

lemma scope_sees_own:
  "scope_of r = Some sc \<Longrightarrow> visible sc r"
  by (auto simp: scope_of_def SetUser_def SetTenant_def visible_def TrimSpace_def split: if_splits)

text \<open>A screening row is never visible to a candidate's own scope, nor one candidate's practice to another.\<close>

lemma user_scope_is_practice:
  "visible (AsUser u) r \<Longrightarrow> ref_mode r = ''practice'' \<and> ref_candidate r = u"
  by (simp add: visible_def)

lemma tenant_scope_is_screening:
  "ref_ok r \<Longrightarrow> visible (AsTenant t) r \<Longrightarrow> ref_mode r = ''screening'' \<and> ref_tenant r = t"
  by (auto simp: visible_def ref_ok_def)

definition to_int32 :: "int \<Rightarrow> int" where
  "to_int32 x = (x + 2147483648) mod 4294967296 - 2147483648"

lemma to_int32_id: "- 2147483648 \<le> x \<Longrightarrow> x < 2147483648 \<Longrightarrow> to_int32 x = x"
  by (simp add: to_int32_def)

lemma to_int32_range: "- 2147483648 \<le> to_int32 x \<and> to_int32 x < 2147483648"
  unfolding to_int32_def by (simp add: pos_mod_bound [of 4294967296 "x + 2147483648", simplified])

end
