(* ===== verification/Evidence.thy ===== *)
theory Evidence
  imports Row_Scope
begin

text \<open>
  \<open>services/platform/internal/evaluation/evidence.go\<close>: spans and contradictions cited from a sealed
  transcript, the gates that hold them to it (\<open>Validate\<close>, \<open>ValidateContradictions\<close>), and the store
  that replaces one extraction wholesale (\<open>Replace\<close>, \<open>List\<close>, \<open>Contradictions\<close>).  Texts are byte
  strings, as Go's are, and character ranges index bytes.  Identifiers the store draws and the time
  of the transaction are arguments.  JSON decoding (\<open>DecodeSealedInput\<close>) is not modelled.
\<close>

section \<open>Spans, turns and the sealed input\<close>

record span =
  sp_competency :: string
  sp_kind :: string
  sp_segment :: int
  sp_quote :: string
  sp_char_start :: int
  sp_char_end :: int
  sp_start_ms :: int
  sp_end_ms :: int
  sp_version :: string

record competency =
  co_id :: string
  co_name :: string

record turn =
  tn_sequence :: int
  tn_speaker :: string
  tn_text :: string
  tn_start_ms :: int
  tn_end_ms :: int

record sealed_input =
  si_session :: string
  si_competencies :: "competency list"
  si_turns :: "turn list"

record contradiction_side =
  cs_segment :: int
  cs_quote :: string
  cs_char_start :: int
  cs_char_end :: int
  cs_start_ms :: int
  cs_end_ms :: int

record contradiction =
  ct_topic :: "string list"
  ct_side_a :: contradiction_side
  ct_side_b :: contradiction_side
  ct_version :: string

section \<open>The honesty gate\<close>

text \<open>\<open>turns[turn.Sequence] = turn\<close> in the order of the turns: a repeated sequence keeps the last.\<close>

definition turn_map :: "turn list \<Rightarrow> (int \<rightharpoonup> turn)" where
  "turn_map ts = fold (\<lambda>t m. m(tn_sequence t \<mapsto> t)) ts Map.empty"

definition slice :: "string \<Rightarrow> int \<Rightarrow> int \<Rightarrow> string" where
  "slice s a b = take (nat (b - a)) (drop (nat a) s)"

datatype fabrication =
    NoSuchSegment nat int
  | NobodyAsked nat string
  | OutsideSegment nat
  | NotTheText nat
  | OutsideClock nat
  | NoVersion nat
  | NotCandidate nat

definition check_span ::
  "(int \<rightharpoonup> turn) \<Rightarrow> string set \<Rightarrow> nat \<Rightarrow> span \<Rightarrow> fabrication option" where
  "check_span turns asked i s =
     (case turns (sp_segment s) of
        None \<Rightarrow> Some (NoSuchSegment i (sp_segment s))
      | Some t \<Rightarrow>
          (if sp_competency s \<notin> asked then Some (NobodyAsked i (sp_competency s))
           else if sp_char_start s < 0 \<or> sp_char_end s > int (length (tn_text t))
                \<or> sp_char_end s \<le> sp_char_start s
           then Some (OutsideSegment i)
           else if slice (tn_text t) (sp_char_start s) (sp_char_end s) \<noteq> sp_quote s
           then Some (NotTheText i)
           else if sp_start_ms s < tn_start_ms t \<or> sp_end_ms s > tn_end_ms t \<or> sp_end_ms s \<le> sp_start_ms s
           then Some (OutsideClock i)
           else if sp_version s = '''' then Some (NoVersion i)
           else None))"

definition Validate :: "sealed_input \<Rightarrow> span list \<Rightarrow> fabrication option" where
  "Validate input spans =
     first_error_at (check_span (turn_map (si_turns input)) (co_id ` set (si_competencies input))) 0 spans"

definition check_side :: "(int \<rightharpoonup> turn) \<Rightarrow> nat \<Rightarrow> contradiction_side \<Rightarrow> fabrication option" where
  "check_side turns i s =
     (case turns (cs_segment s) of
        None \<Rightarrow> Some (NoSuchSegment i (cs_segment s))
      | Some t \<Rightarrow>
          (if tn_speaker t \<noteq> ''candidate'' then Some (NotCandidate i)
           else if cs_char_start s < 0 \<or> cs_char_end s > int (length (tn_text t))
                \<or> cs_char_end s \<le> cs_char_start s
           then Some (OutsideSegment i)
           else if slice (tn_text t) (cs_char_start s) (cs_char_end s) \<noteq> cs_quote s
           then Some (NotTheText i)
           else if cs_start_ms s < tn_start_ms t \<or> cs_end_ms s > tn_end_ms t \<or> cs_end_ms s \<le> cs_start_ms s
           then Some (OutsideClock i)
           else None))"

definition check_pair :: "(int \<rightharpoonup> turn) \<Rightarrow> nat \<Rightarrow> contradiction \<Rightarrow> fabrication option" where
  "check_pair turns i p =
     (case check_side turns i (ct_side_a p) of
        Some e \<Rightarrow> Some e
      | None \<Rightarrow>
          (case check_side turns i (ct_side_b p) of
             Some e \<Rightarrow> Some e
           | None \<Rightarrow> (if ct_version p = '''' then Some (NoVersion i) else None)))"

definition ValidateContradictions :: "sealed_input \<Rightarrow> contradiction list \<Rightarrow> fabrication option" where
  "ValidateContradictions input pairs = first_error_at (check_pair (turn_map (si_turns input))) 0 pairs"

section \<open>The store\<close>

record stored_span =
  ss_id :: string
  ss_span :: span
  ss_created_at :: time

record evidence_row =
  er_ref :: session_ref
  er_stored :: stored_span

record contradiction_row =
  kr_ref :: session_ref
  kr_id :: string
  kr_pair :: contradiction

record evidence_db =
  ed_spans :: "evidence_row list"
  ed_pairs :: "contradiction_row list"

text \<open>The \<open>int32\<close> conversions of the insert, and the columns' \<open>CHECK\<close>s.\<close>

definition span32 :: "span \<Rightarrow> span" where
  "span32 s = s\<lparr>sp_segment := to_int32 (sp_segment s), sp_char_start := to_int32 (sp_char_start s),
     sp_char_end := to_int32 (sp_char_end s), sp_start_ms := to_int32 (sp_start_ms s),
     sp_end_ms := to_int32 (sp_end_ms s)\<rparr>"

definition span_ok :: "span \<Rightarrow> bool" where
  "span_ok s \<longleftrightarrow> sp_kind s \<in> {''supporting'', ''contradictory'', ''claim_unverified'', ''gap''}
     \<and> sp_segment s \<ge> 1 \<and> sp_char_start s \<ge> 0 \<and> sp_char_end s > sp_char_start s
     \<and> sp_start_ms s \<ge> 0 \<and> sp_end_ms s > sp_start_ms s"

definition side32 :: "contradiction_side \<Rightarrow> contradiction_side" where
  "side32 s = s\<lparr>cs_segment := to_int32 (cs_segment s), cs_char_start := to_int32 (cs_char_start s),
     cs_char_end := to_int32 (cs_char_end s), cs_start_ms := to_int32 (cs_start_ms s),
     cs_end_ms := to_int32 (cs_end_ms s)\<rparr>"

definition pair32 :: "contradiction \<Rightarrow> contradiction" where
  "pair32 p = p\<lparr>ct_side_a := side32 (ct_side_a p), ct_side_b := side32 (ct_side_b p)\<rparr>"

definition side_ok :: "contradiction_side \<Rightarrow> bool" where
  "side_ok s \<longleftrightarrow> cs_segment s \<ge> 1 \<and> cs_char_start s \<ge> 0 \<and> cs_char_end s > cs_char_start s
     \<and> cs_start_ms s \<ge> 0 \<and> cs_end_ms s > cs_start_ms s"

datatype store_error = NoScope | RowRefused | NotStored

definition insert_span ::
  "row_scope \<Rightarrow> session_ref \<Rightarrow> time \<Rightarrow> string \<times> span \<Rightarrow> evidence_row list \<Rightarrow> store_error + evidence_row list"
where
  "insert_span sc ref now x rows =
     (case x of (i, s) \<Rightarrow>
        if ref_ok ref \<and> visible sc ref \<and> span_ok (span32 s)
        then Inr (rows @ [\<lparr>er_ref = ref, er_stored = \<lparr>ss_id = i, ss_span = span32 s, ss_created_at = now\<rparr>\<rparr>])
        else Inl RowRefused)"

fun insert_spans ::
  "row_scope \<Rightarrow> session_ref \<Rightarrow> time \<Rightarrow> (string \<times> span) list \<Rightarrow> evidence_row list
     \<Rightarrow> store_error + evidence_row list" where
  "insert_spans sc ref now [] rows = Inr rows"
| "insert_spans sc ref now (x # xs) rows =
     bindE (insert_span sc ref now x rows) (insert_spans sc ref now xs)"

definition insert_pair ::
  "row_scope \<Rightarrow> session_ref \<Rightarrow> string \<times> contradiction \<Rightarrow> contradiction_row list
     \<Rightarrow> store_error + contradiction_row list" where
  "insert_pair sc ref x rows =
     (case x of (i, p) \<Rightarrow>
        if ref_ok ref \<and> visible sc ref \<and> side_ok (ct_side_a (pair32 p)) \<and> side_ok (ct_side_b (pair32 p))
        then Inr (rows @ [\<lparr>kr_ref = ref, kr_id = i, kr_pair = pair32 p\<rparr>])
        else Inl RowRefused)"

fun insert_pairs ::
  "row_scope \<Rightarrow> session_ref \<Rightarrow> (string \<times> contradiction) list \<Rightarrow> contradiction_row list
     \<Rightarrow> store_error + contradiction_row list" where
  "insert_pairs sc ref [] rows = Inr rows"
| "insert_pairs sc ref (x # xs) rows = bindE (insert_pair sc ref x rows) (insert_pairs sc ref xs)"

definition delete_spans :: "row_scope \<Rightarrow> string \<Rightarrow> string \<Rightarrow> evidence_row list \<Rightarrow> evidence_row list" where
  "delete_spans sc session version rows =
     filter (\<lambda>r. \<not> (visible sc (er_ref r) \<and> ref_session (er_ref r) = session
       \<and> sp_version (ss_span (er_stored r)) = version)) rows"

definition delete_pairs ::
  "row_scope \<Rightarrow> string \<Rightarrow> string \<Rightarrow> contradiction_row list \<Rightarrow> contradiction_row list" where
  "delete_pairs sc session version rows =
     filter (\<lambda>r. \<not> (visible sc (kr_ref r) \<and> ref_session (kr_ref r) = session
       \<and> ct_version (kr_pair r) = version)) rows"

text \<open>One transaction: on an error nothing is written.\<close>

definition Replace ::
  "session_ref \<Rightarrow> string \<Rightarrow> time \<Rightarrow> (string \<times> span) list \<Rightarrow> (string \<times> contradiction) list
     \<Rightarrow> evidence_db \<Rightarrow> store_error + evidence_db" where
  "Replace ref version now spans pairs db =
     (case scope_of ref of
        None \<Rightarrow> Inl NoScope
      | Some sc \<Rightarrow>
          bindE (insert_spans sc ref now spans (delete_spans sc (ref_session ref) version (ed_spans db)))
            (\<lambda>rows. bindE (insert_pairs sc ref pairs
                (delete_pairs sc (ref_session ref) version (ed_pairs db)))
              (\<lambda>prows. Inr \<lparr>ed_spans = rows, ed_pairs = prows\<rparr>)))"

text \<open>The database breaks ties of the provenance order arbitrarily; the model keeps insertion order.\<close>

definition provenance :: "stored_span \<Rightarrow> int \<times> int \<times> string \<times> string" where
  "provenance s = (sp_segment (ss_span s), sp_char_start (ss_span s), sp_competency (ss_span s),
     sp_kind (ss_span s))"

definition ListSpans :: "session_ref \<Rightarrow> evidence_db \<Rightarrow> store_error + stored_span list" where
  "ListSpans ref db =
     (case scope_of ref of
        None \<Rightarrow> Inl NoScope
      | Some sc \<Rightarrow>
          Inr (sort_key provenance (map er_stored
            (filter (\<lambda>r. visible sc (er_ref r) \<and> ref_session (er_ref r) = ref_session ref) (ed_spans db)))))"

definition pair_order :: "contradiction_row \<Rightarrow> int \<times> int \<times> int \<times> int" where
  "pair_order r = (cs_segment (ct_side_a (kr_pair r)), cs_char_start (ct_side_a (kr_pair r)),
     cs_segment (ct_side_b (kr_pair r)), cs_char_start (ct_side_b (kr_pair r)))"

definition Contradictions :: "session_ref \<Rightarrow> evidence_db \<Rightarrow> store_error + contradiction list" where
  "Contradictions ref db =
     (case scope_of ref of
        None \<Rightarrow> Inl NoScope
      | Some sc \<Rightarrow>
          Inr (map kr_pair (sort_key pair_order
            (filter (\<lambda>r. visible sc (kr_ref r) \<and> ref_session (kr_ref r) = ref_session ref) (ed_pairs db)))))"

section \<open>Lemmas\<close>

lemma turn_map_fold:
  "fold (\<lambda>t m. m(tn_sequence t \<mapsto> t)) ts m k = Some t \<Longrightarrow>
     m k = Some t \<or> (t \<in> set ts \<and> tn_sequence t = k)"
  by (induction ts arbitrary: m) (fastforce split: if_splits)+

lemma turn_map_Some: "turn_map ts k = Some t \<Longrightarrow> t \<in> set ts \<and> tn_sequence t = k"
  unfolding turn_map_def by (drule turn_map_fold) simp

lemma turn_map_fold_notin:
  "k \<notin> tn_sequence ` set ts \<Longrightarrow> fold (\<lambda>t m. m(tn_sequence t \<mapsto> t)) ts m k = m k"
  by (induction ts arbitrary: m) auto

lemma turn_map_distinct:
  assumes "distinct (map tn_sequence ts)"
  shows "turn_map ts k = Some t \<longleftrightarrow> t \<in> set ts \<and> tn_sequence t = k"
proof -
  have "fold (\<lambda>t m. m(tn_sequence t \<mapsto> t)) ts m (tn_sequence t) = Some t"
    if "t \<in> set ts" for m t
    using that assms
    by (induction ts arbitrary: m) (auto simp: turn_map_fold_notin image_iff)
  then show ?thesis using turn_map_Some [of ts k t] by (auto simp: turn_map_def)
qed

text \<open>What it is for a turn of the sealed input to carry a span, and a side of a contradiction.\<close>

definition cites :: "sealed_input \<Rightarrow> turn \<Rightarrow> span \<Rightarrow> bool" where
  "cites input t s \<longleftrightarrow> t \<in> set (si_turns input) \<and> tn_sequence t = sp_segment s
     \<and> sp_competency s \<in> co_id ` set (si_competencies input)
     \<and> 0 \<le> sp_char_start s \<and> sp_char_start s < sp_char_end s \<and> sp_char_end s \<le> int (length (tn_text t))
     \<and> sp_quote s = slice (tn_text t) (sp_char_start s) (sp_char_end s)
     \<and> tn_start_ms t \<le> sp_start_ms s \<and> sp_start_ms s < sp_end_ms s \<and> sp_end_ms s \<le> tn_end_ms t
     \<and> sp_version s \<noteq> ''''"

definition states :: "sealed_input \<Rightarrow> turn \<Rightarrow> contradiction_side \<Rightarrow> bool" where
  "states input t s \<longleftrightarrow> t \<in> set (si_turns input) \<and> tn_sequence t = cs_segment s
     \<and> tn_speaker t = ''candidate''
     \<and> 0 \<le> cs_char_start s \<and> cs_char_start s < cs_char_end s \<and> cs_char_end s \<le> int (length (tn_text t))
     \<and> cs_quote s = slice (tn_text t) (cs_char_start s) (cs_char_end s)
     \<and> tn_start_ms t \<le> cs_start_ms s \<and> cs_start_ms s < cs_end_ms s \<and> cs_end_ms s \<le> tn_end_ms t"

lemma check_span_None:
  "check_span (turn_map (si_turns input)) (co_id ` set (si_competencies input)) i s = None \<longleftrightarrow>
     (\<exists>t. turn_map (si_turns input) (sp_segment s) = Some t \<and> cites input t s)"
proof (cases "turn_map (si_turns input) (sp_segment s)")
  case (Some t)
  then show ?thesis using turn_map_Some [OF Some] by (auto simp: check_span_def cites_def)
qed (simp add: check_span_def)

lemma check_side_None:
  "check_side (turn_map (si_turns input)) i s = None \<longleftrightarrow>
     (\<exists>t. turn_map (si_turns input) (cs_segment s) = Some t \<and> states input t s)"
proof (cases "turn_map (si_turns input) (cs_segment s)")
  case (Some t)
  then show ?thesis using turn_map_Some [OF Some] by (auto simp: check_side_def states_def)
qed (simp add: check_side_def)

lemma Validate_None:
  "Validate input spans = None \<longleftrightarrow>
     (\<forall>s \<in> set spans. \<exists>t. turn_map (si_turns input) (sp_segment s) = Some t \<and> cites input t s)"
  unfolding Validate_def by (rule first_error_at_None) (rule check_span_None)

lemma check_pair_None:
  "check_pair (turn_map (si_turns input)) i p = None \<longleftrightarrow> ct_version p \<noteq> ''''
     \<and> (\<exists>t. turn_map (si_turns input) (cs_segment (ct_side_a p)) = Some t \<and> states input t (ct_side_a p))
     \<and> (\<exists>t. turn_map (si_turns input) (cs_segment (ct_side_b p)) = Some t \<and> states input t (ct_side_b p))"
  unfolding check_side_None [symmetric, of input _ i] by (simp add: check_pair_def split: option.split)

lemma ValidateContradictions_None:
  "ValidateContradictions input pairs = None \<longleftrightarrow>
     (\<forall>p \<in> set pairs. ct_version p \<noteq> ''''
        \<and> (\<exists>t. turn_map (si_turns input) (cs_segment (ct_side_a p)) = Some t \<and> states input t (ct_side_a p))
        \<and> (\<exists>t. turn_map (si_turns input) (cs_segment (ct_side_b p)) = Some t \<and> states input t (ct_side_b p)))"
  unfolding ValidateContradictions_def by (rule first_error_at_None) (rule check_pair_None)

section \<open>The replaced extraction\<close>

definition row_of :: "session_ref \<Rightarrow> time \<Rightarrow> string \<times> span \<Rightarrow> evidence_row" where
  "row_of ref now x = \<lparr>er_ref = ref,
     er_stored = \<lparr>ss_id = fst x, ss_span = span32 (snd x), ss_created_at = now\<rparr>\<rparr>"

definition pair_row_of :: "session_ref \<Rightarrow> string \<times> contradiction \<Rightarrow> contradiction_row" where
  "pair_row_of ref x = \<lparr>kr_ref = ref, kr_id = fst x, kr_pair = pair32 (snd x)\<rparr>"

lemma insert_spans_Inr:
  "insert_spans sc ref now xs rows = Inr rows' \<longleftrightarrow>
     (xs = [] \<or> ref_ok ref \<and> visible sc ref) \<and> (\<forall>x \<in> set xs. span_ok (span32 (snd x)))
     \<and> rows' = rows @ map (row_of ref now) xs"
proof (induction xs arbitrary: rows)
  case (Cons x xs)
  then show ?case by (cases x) (auto simp: bindE_Inr insert_span_def row_of_def)
qed auto

lemma insert_pairs_Inr:
  "insert_pairs sc ref xs rows = Inr rows' \<longleftrightarrow>
     (xs = [] \<or> ref_ok ref \<and> visible sc ref)
     \<and> (\<forall>x \<in> set xs. side_ok (ct_side_a (pair32 (snd x))) \<and> side_ok (ct_side_b (pair32 (snd x))))
     \<and> rows' = rows @ map (pair_row_of ref) xs"
proof (induction xs arbitrary: rows)
  case (Cons x xs)
  then show ?case by (cases x) (auto simp: bindE_Inr insert_pair_def pair_row_of_def)
qed auto

lemma Replace_Inr:
  "Replace ref v now spans pairs db = Inr db' \<longleftrightarrow>
     (\<exists>sc. scope_of ref = Some sc
        \<and> (spans = [] \<and> pairs = [] \<or> ref_ok ref)
        \<and> (\<forall>x \<in> set spans. span_ok (span32 (snd x)))
        \<and> (\<forall>x \<in> set pairs. side_ok (ct_side_a (pair32 (snd x))) \<and> side_ok (ct_side_b (pair32 (snd x))))
        \<and> db' = \<lparr>ed_spans = delete_spans sc (ref_session ref) v (ed_spans db) @ map (row_of ref now) spans,
                 ed_pairs = delete_pairs sc (ref_session ref) v (ed_pairs db) @ map (pair_row_of ref) pairs\<rparr>)"
  using scope_sees_own [of ref]
  by (auto simp: Replace_def bindE_Inr insert_spans_Inr insert_pairs_Inr split: option.splits)

lemma span32_version [simp]: "sp_version (span32 s) = sp_version s"
  by (simp add: span32_def)

lemma pair32_version [simp]: "ct_version (pair32 p) = ct_version p"
  by (simp add: pair32_def)

lemma delete_spans_own:
  assumes "scope_of ref = Some sc" and "\<forall>x \<in> set xs. sp_version (snd x) = v"
  shows "delete_spans sc (ref_session ref) v (delete_spans sc (ref_session ref) v rows @ map (row_of ref now) xs)
       = delete_spans sc (ref_session ref) v rows"
  using assms scope_sees_own [OF assms(1)] by (auto simp: delete_spans_def row_of_def filter_empty_conv)

lemma delete_pairs_own:
  assumes "scope_of ref = Some sc" and "\<forall>x \<in> set xs. ct_version (snd x) = v"
  shows "delete_pairs sc (ref_session ref) v (delete_pairs sc (ref_session ref) v rows @ map (pair_row_of ref) xs)
       = delete_pairs sc (ref_session ref) v rows"
  using assms scope_sees_own [OF assms(1)] by (auto simp: delete_pairs_def pair_row_of_def filter_empty_conv)

section \<open>Properties\<close>

text \<open>C40: The honesty gate is exact. Accepted spans each cite a turn of the sealed input: the quote is
  the exact slice of that turn's text, the competency was asked about, the clock range lies inside
  the turn's, and the extraction is versioned; accepted contradictions do so on both sides, and only
  the candidate's own turns. Where no two turns share a sequence, every batch of such spans, and of
  such contradictions, is accepted.\<close>

theorem evidence_gate_exact:
  "(Validate input spans = None \<longrightarrow> (\<forall>s \<in> set spans. \<exists>t. cites input t s))
   \<and> (ValidateContradictions input pairs = None \<longrightarrow>
        (\<forall>p \<in> set pairs. ct_version p \<noteq> '''' \<and> (\<exists>t. states input t (ct_side_a p)) \<and> (\<exists>t. states input t (ct_side_b p))))
   \<and> (distinct (map tn_sequence (si_turns input)) \<longrightarrow>
        (Validate input spans = None \<longleftrightarrow> (\<forall>s \<in> set spans. \<exists>t. cites input t s))
        \<and> (ValidateContradictions input pairs = None \<longleftrightarrow>
             (\<forall>p \<in> set pairs. ct_version p \<noteq> '''' \<and> (\<exists>t. states input t (ct_side_a p)) \<and> (\<exists>t. states input t (ct_side_b p)))))"
proof -
  have "cites input t s \<longleftrightarrow> turn_map (si_turns input) (sp_segment s) = Some t \<and> cites input t s"
    if "distinct (map tn_sequence (si_turns input))" for t s
    using turn_map_distinct [OF that] by (auto simp: cites_def)
  moreover have "states input t s \<longleftrightarrow> turn_map (si_turns input) (cs_segment s) = Some t \<and> states input t s"
    if "distinct (map tn_sequence (si_turns input))" for t s
    using turn_map_distinct [OF that] by (auto simp: states_def)
  ultimately show ?thesis
    unfolding Validate_None ValidateContradictions_None by (intro conjI impI iffI; blast)
qed

definition ex_input :: sealed_input where
  "ex_input = \<lparr>si_session = ''s'', si_competencies = [\<lparr>co_id = ''perf'', co_name = ''performance''\<rparr>],
     si_turns = [\<lparr>tn_sequence = 1, tn_speaker = ''candidate'', tn_text = ''We cut latency by half.'',
       tn_start_ms = 0, tn_end_ms = 4000\<rparr>]\<rparr>"

definition ex_span :: span where
  "ex_span = \<lparr>sp_competency = ''perf'', sp_kind = ''supporting'', sp_segment = 1, sp_quote = ''cut latency'',
     sp_char_start = 3, sp_char_end = 14, sp_start_ms = 500, sp_end_ms = 1500, sp_version = ''evidence-1''\<rparr>"

lemma ex_cites: "cites ex_input (hd (si_turns ex_input)) ex_span"
  by (simp add: cites_def ex_input_def ex_span_def slice_def)

theorem evidence_gate_exact_witness: "Validate ex_input [ex_span] = None"
  using evidence_gate_exact [of ex_input "[ex_span]" "[]"] ex_cites
  by (auto simp: ex_input_def)

text \<open>A retried extraction converges. Storing a batch that carries one extraction version replaces
  exactly that version's rows of the session in its own scope and keeps every other row; storing the
  same batch again, with whatever identifiers and time the second run draws, succeeds and leaves the
  same evidence and contradictions as once.\<close>

theorem replace_converges:
  assumes "Replace ref v now spans pairs db = Inr db'"
    and "\<forall>x \<in> set spans. sp_version (snd x) = v" and "\<forall>x \<in> set pairs. ct_version (snd x) = v"
    and "map snd spans' = map snd spans" and "map snd pairs' = map snd pairs"
  shows "\<exists>sc db''. scope_of ref = Some sc
       \<and> delete_spans sc (ref_session ref) v (ed_spans db') = delete_spans sc (ref_session ref) v (ed_spans db)
       \<and> delete_pairs sc (ref_session ref) v (ed_pairs db') = delete_pairs sc (ref_session ref) v (ed_pairs db)
       \<and> Replace ref v now' spans' pairs' db' = Inr db''
       \<and> map (\<lambda>r. (er_ref r, ss_span (er_stored r))) (ed_spans db'') = map (\<lambda>r. (er_ref r, ss_span (er_stored r))) (ed_spans db')
       \<and> map (\<lambda>r. (kr_ref r, kr_pair r)) (ed_pairs db'') = map (\<lambda>r. (kr_ref r, kr_pair r)) (ed_pairs db')"
proof -
  from assms(1) obtain sc where sc: "scope_of ref = Some sc" "spans = [] \<and> pairs = [] \<or> ref_ok ref"
    "\<forall>x \<in> set spans. span_ok (span32 (snd x))"
    "\<forall>x \<in> set pairs. side_ok (ct_side_a (pair32 (snd x))) \<and> side_ok (ct_side_b (pair32 (snd x)))"
    and db': "db' = \<lparr>ed_spans = delete_spans sc (ref_session ref) v (ed_spans db) @ map (row_of ref now) spans,
                 ed_pairs = delete_pairs sc (ref_session ref) v (ed_pairs db) @ map (pair_row_of ref) pairs\<rparr>"
    unfolding Replace_Inr by blast
  have kept: "delete_spans sc (ref_session ref) v (ed_spans db') = delete_spans sc (ref_session ref) v (ed_spans db)"
    "delete_pairs sc (ref_session ref) v (ed_pairs db') = delete_pairs sc (ref_session ref) v (ed_pairs db)"
    unfolding db' using delete_spans_own [OF sc(1) assms(2)] delete_pairs_own [OF sc(1) assms(3)] by simp_all
  have sets: "snd ` set spans' = snd ` set spans" "snd ` set pairs' = snd ` set pairs"
    using assms(4,5) by (metis set_map)+
  have ok: "\<forall>x \<in> set spans'. span_ok (span32 (snd x))"
    "\<forall>x \<in> set pairs'. side_ok (ct_side_a (pair32 (snd x))) \<and> side_ok (ct_side_b (pair32 (snd x)))"
    "spans' = [] \<and> pairs' = [] \<or> ref_ok ref"
    using sc(2-4) sets assms(4,5) by (metis (no_types, lifting) image_iff, metis (no_types, lifting) image_iff, auto)
  have rows: "map (\<lambda>r. (er_ref r, ss_span (er_stored r))) (map (row_of ref t) xs) = map (\<lambda>s. (ref, span32 s)) (map snd xs)"
    for t xs by (simp add: row_of_def comp_def)
  have prows: "map (\<lambda>r. (kr_ref r, kr_pair r)) (map (pair_row_of ref) xs) = map (\<lambda>p. (ref, pair32 p)) (map snd xs)"
    for xs by (simp add: pair_row_of_def comp_def)
  let ?db = "\<lparr>ed_spans = delete_spans sc (ref_session ref) v (ed_spans db') @ map (row_of ref now') spans',
              ed_pairs = delete_pairs sc (ref_session ref) v (ed_pairs db') @ map (pair_row_of ref) pairs'\<rparr>"
  have "Replace ref v now' spans' pairs' db' = Inr ?db"
    unfolding Replace_Inr using sc(1) ok by blast
  moreover have "map (\<lambda>r. (er_ref r, ss_span (er_stored r))) (ed_spans ?db) = map (\<lambda>r. (er_ref r, ss_span (er_stored r))) (ed_spans db')"
    using kept(1) assms(4) by (simp only: evidence_db.simps map_append rows db')
  moreover have "map (\<lambda>r. (kr_ref r, kr_pair r)) (ed_pairs ?db) = map (\<lambda>r. (kr_ref r, kr_pair r)) (ed_pairs db')"
    using kept(2) assms(5) by (simp only: evidence_db.simps map_append prows db')
  ultimately show ?thesis using sc(1) kept by blast
qed

definition ex_ref :: session_ref where
  "ex_ref = \<lparr>ref_session = ''s'', ref_mode = ''practice'', ref_candidate = ''u'', ref_tenant = ''''\<rparr>"

lemma ex_scope: "scope_of ex_ref = Some (AsUser ''u'')"
  by (simp add: scope_of_def ex_ref_def SetUser_def TrimSpace_def is_space_def)

theorem replace_converges_witness:
  "\<exists>db' db''. Replace ex_ref ''evidence-1'' 9 [(''e1'', ex_span)] [] \<lparr>ed_spans = [], ed_pairs = []\<rparr> = Inr db'
     \<and> Replace ex_ref ''evidence-1'' 12 [(''e2'', ex_span)] [] db' = Inr db''
     \<and> length (ed_spans db'') = length (ed_spans db')"
proof -
  let ?db = "\<lparr>ed_spans = [], ed_pairs = []\<rparr>"
  have "ref_ok ex_ref" "span_ok (span32 ex_span)"
    by (simp_all add: ref_ok_def ex_ref_def span_ok_def span32_def ex_span_def to_int32_def)
  then obtain db' where db': "Replace ex_ref ''evidence-1'' 9 [(''e1'', ex_span)] [] ?db = Inr db'"
    unfolding Replace_Inr ex_scope by auto
  from replace_converges [OF this, of "[(''e2'', ex_span)]" "[]" 12]
  obtain db'' where "Replace ex_ref ''evidence-1'' 12 [(''e2'', ex_span)] [] db' = Inr db''"
    "map (\<lambda>r. (er_ref r, ss_span (er_stored r))) (ed_spans db'')
       = map (\<lambda>r. (er_ref r, ss_span (er_stored r))) (ed_spans db')"
    by (auto simp: ex_span_def)
  with db' map_eq_imp_length_eq show ?thesis by blast
qed

text \<open>
  Two limits of the gate, each an honest quote refused.  A session that reconnected has a transcript
  of two epochs whose sequences both start at one, and the map of turns keeps only the later of two
  turns with one sequence.
\<close>

lemma gate_refuses_reconnected_quote:
  "\<exists>input t s. cites input t s \<and> Validate input [s] \<noteq> None"
proof -
  let ?late = "\<lparr>tn_sequence = 1, tn_speaker = ''candidate'', tn_text = ''Hello again.'',
    tn_start_ms = 9000, tn_end_ms = 9900\<rparr>"
  let ?input = "ex_input\<lparr>si_turns := si_turns ex_input @ [?late]\<rparr>"
  have "cites ?input (hd (si_turns ex_input)) ex_span"
    using ex_cites by (simp add: cites_def)
  moreover have "Validate ?input [ex_span] \<noteq> None"
    unfolding Validate_None by (simp add: turn_map_def ex_input_def ex_span_def cites_def slice_def)
  ultimately show ?thesis by blast
qed

text \<open>
  And the extractor (\<open>services/intelligence/.../evidence.py\<close>) counts its character ranges in code
  points, the gate in bytes: \<open>code_points\<close> groups the bytes of a UTF-8 text, and a quote cut by code
  points after a letter outside ASCII is not the slice of its own range.
\<close>

definition continuation :: "char \<Rightarrow> bool" where
  "continuation c \<longleftrightarrow> (of_char c :: nat) div 64 = 2"

fun code_points :: "string \<Rightarrow> string list" where
  "code_points [] = []"
| "code_points (c # cs) =
     (case code_points cs of
        [] \<Rightarrow> [[c]]
      | p # ps \<Rightarrow> if continuation (hd p) then (c # p) # ps else [c] # p # ps)"

definition code_point_slice :: "string \<Rightarrow> int \<Rightarrow> int \<Rightarrow> string" where
  "code_point_slice s a b = concat (take (nat (b - a)) (drop (nat a) (code_points s)))"

lemma gate_refuses_code_point_ranges:
  "\<exists>t. let s = ex_span\<lparr>sp_quote := code_point_slice t 3 14\<rparr>;
         input = ex_input\<lparr>si_turns := [(hd (si_turns ex_input))\<lparr>tn_text := t\<rparr>]\<rparr> in
     sp_quote s = ''cut latency'' \<and> Contains t (sp_quote s) \<and> Validate input [s] = Some (NotTheText 0)"
  by (rule exI [of _ "char_of (195 :: nat) # char_of (169 :: nat) # ''e cut latency.''"]) code_simp

end
