(* ===== verification/Rubric.thy ===== *)
theory Rubric
  imports Evidence Float64
begin

text \<open>
  \<open>services/platform/internal/evaluation/rubric.go\<close>: a coherent rubric (\<open>ParseRubric\<close>), the
  aggregation of stored evidence into competency results (\<open>Aggregate\<close>, \<open>confidenceOf\<close>,
  \<open>CoverageOf\<close>) and the publication gate (\<open>ValidatePublication\<close>).  JSON decoding is an argument of
  \<open>ParseRubric\<close>; a band's floor and the supporting ratio are float64 values.
\<close>

section \<open>Rubrics\<close>

record confidence_rule =
  cr_min_supporting :: int
  cr_max_contradictory :: int

record band =
  bd_id :: string
  bd_min_ratio :: rat

record rubric =
  rb_min_supporting :: int
  rb_bands :: "band list"
  rb_high :: confidence_rule
  rb_medium :: confidence_rule

datatype rubric_error =
    RubricUndecodable
  | ScoresSilence
  | NoBands
  | BandUnnamed
  | RatioOutside string
  | NotAscending string
  | LowestNotZero
  | MediumBelowSufficiency
  | HighBelowMedium
  | HighTolerates

fun check_rubric_bands :: "rat \<Rightarrow> band list \<Rightarrow> rubric_error option" where
  "check_rubric_bands previous [] = None"
| "check_rubric_bands previous (b # bs) =
     (if bd_id b = '''' then Some BandUnnamed
      else if bd_min_ratio b < 0 \<or> bd_min_ratio b > 1 then Some (RatioOutside (bd_id b))
      else if bd_min_ratio b \<le> previous then Some (NotAscending (bd_id b))
      else check_rubric_bands (bd_min_ratio b) bs)"

definition ParseRubric :: "rubric option \<Rightarrow> rubric_error + rubric" where
  "ParseRubric body =
     (case body of
        None \<Rightarrow> Inl RubricUndecodable
      | Some r \<Rightarrow>
          (if rb_min_supporting r < 1 then Inl ScoresSilence
           else if rb_bands r = [] then Inl NoBands
           else case check_rubric_bands (- 1) (rb_bands r) of
             Some e \<Rightarrow> Inl e
           | None \<Rightarrow>
               (if bd_min_ratio (hd (rb_bands r)) \<noteq> 0 then Inl LowestNotZero
                else if cr_min_supporting (rb_medium r) < rb_min_supporting r
                then Inl MediumBelowSufficiency
                else if cr_min_supporting (rb_high r) < cr_min_supporting (rb_medium r)
                then Inl HighBelowMedium
                else if cr_max_contradictory (rb_high r) > cr_max_contradictory (rb_medium r)
                then Inl HighTolerates
                else Inr r)))"

section \<open>Aggregation\<close>

record competency_result =
  re_competency :: string
  re_status :: string
  re_band :: string
  re_evidence_count :: nat
  re_supporting :: nat
  re_contradictory :: nat
  re_unverified :: nat
  re_gaps :: nat
  re_confidence :: string
  re_evidence_ids :: "string list"
  re_reason_codes :: "string list"

record coverage =
  cv_reached :: "string list"
  cv_not_reached :: "string list"

record aggregation =
  ag_competencies :: "competency_result list"
  ag_coverage :: coverage
  ag_covered :: nat
  ag_total :: nat

definition count_span :: "stored_span \<Rightarrow> competency_result \<Rightarrow> competency_result" where
  "count_span x r =
     (let r = r\<lparr>re_evidence_ids := re_evidence_ids r @ [ss_id x]\<rparr> in
      if sp_kind (ss_span x) = ''supporting'' then r\<lparr>re_supporting := re_supporting r + 1\<rparr>
      else if sp_kind (ss_span x) = ''contradictory'' then r\<lparr>re_contradictory := re_contradictory r + 1\<rparr>
      else if sp_kind (ss_span x) = ''claim_unverified'' then r\<lparr>re_unverified := re_unverified r + 1\<rparr>
      else if sp_kind (ss_span x) = ''gap'' then r\<lparr>re_gaps := re_gaps r + 1\<rparr>
      else r)"

definition confidenceOf :: "rubric \<Rightarrow> competency_result \<Rightarrow> string" where
  "confidenceOf rb r =
     (if int (re_supporting r) \<ge> cr_min_supporting (rb_high rb)
         \<and> int (re_contradictory r) \<le> cr_max_contradictory (rb_high rb) then ''high''
      else if int (re_supporting r) \<ge> cr_min_supporting (rb_medium rb)
         \<and> int (re_contradictory r) \<le> cr_max_contradictory (rb_medium rb) then ''medium''
      else ''low'')"

text \<open>The last band whose floor the ratio reaches.\<close>

fun earned_band :: "rat \<Rightarrow> string \<Rightarrow> band list \<Rightarrow> string" where
  "earned_band ratio b [] = b"
| "earned_band ratio b (x # xs) = earned_band ratio (if ratio \<ge> bd_min_ratio x then bd_id x else b) xs"

text \<open>
  With nothing eligible the quotient is not a number and reaches no floor; a rubric that
  \<open>ParseRubric\<close> accepted never gets there, since its sufficiency threshold is at least one.
\<close>

definition supporting_ratio :: "competency_result \<Rightarrow> rat option" where
  "supporting_ratio r =
     (let eligible = re_supporting r + re_contradictory r + re_unverified r in
      if eligible = 0 then None else Some (fdiv (of_nat (re_supporting r)) (of_nat eligible)))"

definition settle :: "rubric \<Rightarrow> competency_result \<Rightarrow> competency_result" where
  "settle rb r =
     (if int (re_supporting r) < rb_min_supporting rb
      then r\<lparr>re_status := ''unassessed'', re_confidence := ''not_assessable'',
             re_reason_codes :=
               (if re_evidence_count r = 0 then [''NOT_DISCUSSED''] else [''INSUFFICIENT_EVIDENCE''])
               @ (if re_gaps r > 0 then [''GAPS_ACKNOWLEDGED''] else [])\<rparr>
      else r\<lparr>re_status := ''assessed'',
             re_band := (case supporting_ratio r of None \<Rightarrow> '''' | Some q \<Rightarrow> earned_band q '''' (rb_bands rb)),
             re_confidence := confidenceOf rb r,
             re_reason_codes := (if re_contradictory r > 0 then [''CONTRADICTIONS_PRESENT''] else [])\<rparr>)"

definition aggregate_one :: "rubric \<Rightarrow> stored_span list \<Rightarrow> competency \<Rightarrow> competency_result" where
  "aggregate_one rb spans c =
     (let evidence = filter (\<lambda>x. sp_competency (ss_span x) = co_id c) spans;
          start = \<lparr>re_competency = co_id c, re_status = '''', re_band = '''',
            re_evidence_count = length evidence, re_supporting = 0, re_contradictory = 0,
            re_unverified = 0, re_gaps = 0, re_confidence = '''', re_evidence_ids = [],
            re_reason_codes = []\<rparr>;
          r = fold count_span evidence start in
      settle rb (r\<lparr>re_evidence_ids := sort (re_evidence_ids r)\<rparr>))"

definition CoverageOf :: "competency_result list \<Rightarrow> coverage" where
  "CoverageOf rs =
     \<lparr>cv_reached = sort (map re_competency (filter (\<lambda>r. re_evidence_count r > 0) rs)),
      cv_not_reached = sort (map re_competency (filter (\<lambda>r. \<not> re_evidence_count r > 0) rs))\<rparr>"

text \<open>
  \<open>sort.Slice\<close> is not stable, but the result of a competency is a function of its identifier, so
  results with one key are equal and every sort gives the same list.
\<close>

definition Aggregate :: "rubric \<Rightarrow> competency list \<Rightarrow> stored_span list \<Rightarrow> aggregation" where
  "Aggregate rb cs spans =
     (let results = sort_key re_competency (map (aggregate_one rb spans) cs);
          cov = CoverageOf results in
      \<lparr>ag_competencies = results, ag_coverage = cov, ag_covered = length (cv_reached cov),
       ag_total = length cs\<rparr>)"

section \<open>The publication gate\<close>

datatype unpublishable =
    WrongNumber nat nat
  | NotRecomputed string
  | CoverageNotRecomputed

fun check_results :: "competency_result list \<Rightarrow> competency_result list \<Rightarrow> unpublishable option" where
  "check_results (g # gs) (e # es) = (if g \<noteq> e then Some (NotRecomputed (re_competency g)) else check_results gs es)"
| "check_results _ _ = None"

definition ValidatePublication ::
  "rubric \<Rightarrow> competency list \<Rightarrow> stored_span list \<Rightarrow> aggregation \<Rightarrow> unpublishable option" where
  "ValidatePublication rb cs spans ag =
     (let re = Aggregate rb cs spans in
      if length (ag_competencies ag) \<noteq> length (ag_competencies re)
      then Some (WrongNumber (length (ag_competencies ag)) (length (ag_competencies re)))
      else case check_results (ag_competencies ag) (ag_competencies re) of
        Some e \<Rightarrow> Some e
      | None \<Rightarrow>
          (if ag_coverage ag \<noteq> ag_coverage re \<or> ag_covered ag \<noteq> ag_covered re \<or> ag_total ag \<noteq> ag_total re
           then Some CoverageNotRecomputed else None))"

section \<open>Lemmas\<close>

definition kind_count :: "string \<Rightarrow> string \<Rightarrow> stored_span list \<Rightarrow> nat" where
  "kind_count k c spans = length (filter (\<lambda>x. sp_competency (ss_span x) = c \<and> sp_kind (ss_span x) = k) spans)"

definition about :: "string \<Rightarrow> stored_span list \<Rightarrow> stored_span list" where
  "about c spans = filter (\<lambda>x. sp_competency (ss_span x) = c) spans"

lemma count_fold:
  "fold count_span xs r = r\<lparr>
     re_evidence_ids := re_evidence_ids r @ map ss_id xs,
     re_supporting := re_supporting r + length (filter (\<lambda>x. sp_kind (ss_span x) = ''supporting'') xs),
     re_contradictory := re_contradictory r + length (filter (\<lambda>x. sp_kind (ss_span x) = ''contradictory'') xs),
     re_unverified := re_unverified r + length (filter (\<lambda>x. sp_kind (ss_span x) = ''claim_unverified'') xs),
     re_gaps := re_gaps r + length (filter (\<lambda>x. sp_kind (ss_span x) = ''gap'') xs)\<rparr>"
  by (induction xs arbitrary: r) (simp_all add: count_span_def)

text \<open>The counts of one competency, before the rubric settles them.\<close>

definition counted :: "stored_span list \<Rightarrow> string \<Rightarrow> competency_result" where
  "counted spans c = \<lparr>re_competency = c, re_status = '''', re_band = '''',
     re_evidence_count = length (about c spans), re_supporting = kind_count ''supporting'' c spans,
     re_contradictory = kind_count ''contradictory'' c spans,
     re_unverified = kind_count ''claim_unverified'' c spans, re_gaps = kind_count ''gap'' c spans,
     re_confidence = '''', re_evidence_ids = sort (map ss_id (about c spans)), re_reason_codes = []\<rparr>"

lemma aggregate_one_counted: "aggregate_one rb spans c = settle rb (counted spans (co_id c))"
  by (simp add: aggregate_one_def Let_def count_fold counted_def kind_count_def about_def filter_filter
      conj_commute)

lemma settle_static [simp]:
  "re_competency (settle rb r) = re_competency r" "re_supporting (settle rb r) = re_supporting r"
  "re_contradictory (settle rb r) = re_contradictory r" "re_unverified (settle rb r) = re_unverified r"
  "re_gaps (settle rb r) = re_gaps r" "re_evidence_count (settle rb r) = re_evidence_count r"
  "re_evidence_ids (settle rb r) = re_evidence_ids r"
  by (simp_all add: settle_def)

lemma counted_static [simp]:
  "re_competency (counted spans c) = c" "re_supporting (counted spans c) = kind_count ''supporting'' c spans"
  "re_contradictory (counted spans c) = kind_count ''contradictory'' c spans"
  "re_unverified (counted spans c) = kind_count ''claim_unverified'' c spans"
  "re_evidence_count (counted spans c) = length (about c spans)"
  "re_evidence_ids (counted spans c) = sort (map ss_id (about c spans))"
  by (simp_all add: counted_def)

lemma counted_perm: "mset spans = mset spans' \<Longrightarrow> counted spans c = counted spans' c"
proof -
  assume eq: "mset spans = mset spans'"
  have len: "length (filter P spans) = length (filter P spans')" for P :: "stored_span \<Rightarrow> bool"
    by (metis eq mset_filter size_mset)
  have "mset (map ss_id (about c spans)) = mset (map ss_id (about c spans'))"
    by (simp add: about_def eq)
  then have "sort (map ss_id (about c spans)) = sort (map ss_id (about c spans'))"
    by (intro sorted_unique) simp_all
  then show ?thesis by (simp add: counted_def kind_count_def about_def len)
qed

lemma Aggregate_results:
  "ag_competencies (Aggregate rb cs spans) = sort_key re_competency (map (\<lambda>c. settle rb (counted spans (co_id c))) cs)"
  by (simp add: Aggregate_def Let_def aggregate_one_counted cong: map_cong)

lemma check_results_None: "length gs = length es \<Longrightarrow> check_results gs es = None \<longleftrightarrow> gs = es"
  by (induction gs es rule: list_induct2) auto

lemma check_rubric_bands_None:
  "check_rubric_bands p bs = None \<longleftrightarrow>
     sorted_wrt (<) (p # map bd_min_ratio bs) \<and> (\<forall>b \<in> set bs. bd_id b \<noteq> '''' \<and> 0 \<le> bd_min_ratio b \<and> bd_min_ratio b \<le> 1)"
proof (induction bs arbitrary: p)
  case (Cons b bs)
  show ?case
    by (auto simp: Cons.IH not_le not_less intro: order.strict_trans)
qed simp

lemma ParseRubric_Inr:
  "ParseRubric body = Inr r \<longleftrightarrow> body = Some r \<and> 1 \<le> rb_min_supporting r
     \<and> rb_bands r \<noteq> [] \<and> sorted_wrt (<) (map bd_min_ratio (rb_bands r))
     \<and> (\<forall>b \<in> set (rb_bands r). bd_id b \<noteq> '''' \<and> 0 \<le> bd_min_ratio b \<and> bd_min_ratio b \<le> 1)
     \<and> bd_min_ratio (hd (rb_bands r)) = 0
     \<and> rb_min_supporting r \<le> cr_min_supporting (rb_medium r)
     \<and> cr_min_supporting (rb_medium r) \<le> cr_min_supporting (rb_high r)
     \<and> cr_max_contradictory (rb_high r) \<le> cr_max_contradictory (rb_medium r)"
proof (cases body)
  case (Some b)
  have "check_rubric_bands (- 1) (rb_bands b) = None \<longleftrightarrow> sorted_wrt (<) (map bd_min_ratio (rb_bands b))
      \<and> (\<forall>x \<in> set (rb_bands b). bd_id x \<noteq> '''' \<and> 0 \<le> bd_min_ratio x \<and> bd_min_ratio x \<le> 1)"
    unfolding check_rubric_bands_None by (auto intro: order.strict_trans2 [of _ 0])
  then show ?thesis
    using Some
    by (cases "check_rubric_bands (- 1) (rb_bands b)") (auto simp: ParseRubric_def not_le not_less)
qed (simp add: ParseRubric_def)

lemma earned_band_cases:
  "earned_band q b bs = b \<and> (\<forall>x \<in> set bs. q < bd_min_ratio x)
   \<or> (\<exists>i < length bs. earned_band q b bs = bd_id (bs ! i) \<and> bd_min_ratio (bs ! i) \<le> q
        \<and> (\<forall>j < length bs. i < j \<longrightarrow> q < bd_min_ratio (bs ! j)))"
proof (induction bs rule: rev_induct)
  case (snoc x xs)
  have app: "earned_band q b (xs @ [x]) = (if bd_min_ratio x \<le> q then bd_id x else earned_band q b xs)" for b
    by (induction xs arbitrary: b) auto
  show ?case
  proof (cases "bd_min_ratio x \<le> q")
    case True
    then show ?thesis by (intro disjI2 exI [of _ "length xs"]) (auto simp: app nth_append)
  next
    case False
    with snoc show ?thesis
      by (auto simp: app nth_append not_le less_Suc_eq split: if_splits)
  qed
qed simp

lemma Aggregate_set:
  "r \<in> set (ag_competencies (Aggregate rb cs spans)) \<longleftrightarrow>
     (\<exists>c \<in> set cs. r = settle rb (counted spans (co_id c)))"
  by (auto simp: Aggregate_results)

lemma sort_key_unique:
  assumes "mset xs = mset ys" and "\<And>x y. x \<in> set xs \<Longrightarrow> y \<in> set xs \<Longrightarrow> f x = f y \<Longrightarrow> x = y"
  shows "sort_key f xs = sort_key f ys"
proof (rule properties_for_sort_key)
  have eq: "set xs = set ys" using assms(1) by (rule mset_eq_setD)
  show "mset (sort_key f ys) = mset xs" using assms(1) by simp
  show "sorted (map f (sort_key f ys))" by simp
  fix k
  assume "k \<in> set (sort_key f ys)"
  then have k: "k \<in> set xs" by (simp add: eq)
  have all: "filter (\<lambda>x. f k = f x) zs = replicate (count (mset zs) k) k" if "set zs \<subseteq> set xs" for zs
    using that
  proof (induction zs)
    case (Cons z zs)
    then show ?case using assms(2) [OF k, of z] by auto
  qed simp
  show "filter (\<lambda>x. f k = f x) (sort_key f ys) = filter (\<lambda>x. f k = f x) xs"
    using all [of "sort_key f ys"] all [of xs] by (simp add: eq assms(1))
qed

lemma settle_unassessed:
  "int (re_supporting r) < rb_min_supporting rb \<Longrightarrow>
     re_status (settle rb r) = ''unassessed'' \<and> re_band (settle rb r) = re_band r
     \<and> re_confidence (settle rb r) = ''not_assessable''
     \<and> (''NOT_DISCUSSED'' \<in> set (re_reason_codes (settle rb r)) \<longleftrightarrow> re_evidence_count r = 0)"
  by (simp add: settle_def)

definition eligible :: "stored_span list \<Rightarrow> string \<Rightarrow> nat" where
  "eligible spans c = kind_count ''supporting'' c spans + kind_count ''contradictory'' c spans
     + kind_count ''claim_unverified'' c spans"

text \<open>The share of the eligible evidence about a competency that supports it.\<close>

definition share :: "stored_span list \<Rightarrow> string \<Rightarrow> rat" where
  "share spans c = fdiv (of_nat (kind_count ''supporting'' c spans)) (of_nat (eligible spans c))"

text \<open>The level a share earns: the highest band of the rubric whose floor it reaches.\<close>

definition earns :: "rubric \<Rightarrow> rat \<Rightarrow> nat \<Rightarrow> bool" where
  "earns rb q i \<longleftrightarrow> i < length (rb_bands rb) \<and> bd_min_ratio (rb_bands rb ! i) \<le> q
     \<and> (\<forall>j < length (rb_bands rb). i < j \<longrightarrow> q < bd_min_ratio (rb_bands rb ! j))"

lemma settle_assessed:
  assumes "ParseRubric body = Inr rb" and "rb_min_supporting rb \<le> int (kind_count ''supporting'' c spans)"
  shows "re_status (settle rb (counted spans c)) = ''assessed''
     \<and> (\<exists>i. earns rb (share spans c) i \<and> re_band (settle rb (counted spans c)) = bd_id (rb_bands rb ! i))
     \<and> re_confidence (settle rb (counted spans c)) = confidenceOf rb (counted spans c)"
proof -
  note rb = assms(1) [unfolded ParseRubric_Inr]
  have el: "eligible spans c \<noteq> 0" using rb assms(2) by (simp add: eligible_def)
  then have ratio: "supporting_ratio (counted spans c) = Some (share spans c)"
    by (simp add: supporting_ratio_def share_def eligible_def)
  have "0 \<le> share spans c"
    unfolding share_def fdiv_def using fl_mono [of 0] by simp
  moreover obtain b bs where "rb_bands rb = b # bs" "bd_min_ratio b = 0" using rb by (cases "rb_bands rb") auto
  ultimately have "\<not> (\<forall>x \<in> set (rb_bands rb). share spans c < bd_min_ratio x)" by simp
  with earned_band_cases [of "share spans c" "''''" "rb_bands rb"]
  have "\<exists>i. earns rb (share spans c) i \<and> earned_band (share spans c) '''' (rb_bands rb) = bd_id (rb_bands rb ! i)"
    unfolding earns_def by blast
  then show ?thesis using assms(2) ratio by (simp add: settle_def confidenceOf_def)
qed

section \<open>Properties\<close>

text \<open>A competency result is earned by its evidence. Under a rubric that parsed, a result is about one
  of the competencies asked and lists exactly the stored spans about it; it is unassessed exactly when
  fewer of them support it than the sufficiency threshold, then it has no band, confidence not
  assessable, and the reason NOT_DISCUSSED exactly when there is no evidence at all; otherwise its band is
  the highest one whose floor the supporting share of the eligible evidence reaches.\<close>

theorem aggregation_is_earned:
  assumes "ParseRubric body = Inr rb" and "r \<in> set (ag_competencies (Aggregate rb cs spans))"
  shows "\<exists>c \<in> co_id ` set cs. re_competency r = c
       \<and> re_evidence_ids r = sort (map ss_id (filter (\<lambda>x. sp_competency (ss_span x) = c) spans))
       \<and> (if int (kind_count ''supporting'' c spans) < rb_min_supporting rb
          then re_status r = ''unassessed'' \<and> re_band r = '''' \<and> re_confidence r = ''not_assessable''
             \<and> (''NOT_DISCUSSED'' \<in> set (re_reason_codes r) \<longleftrightarrow> c \<notin> (\<lambda>x. sp_competency (ss_span x)) ` set spans)
          else re_status r = ''assessed''
             \<and> (\<exists>i. earns rb (share spans c) i \<and> re_band r = bd_id (rb_bands rb ! i)))"
proof -
  from assms(2) obtain k where k: "k \<in> set cs" "r = settle rb (counted spans (co_id k))"
    unfolding Aggregate_set by blast
  let ?c = "co_id k"
  have nd: "length (about ?c spans) = 0 \<longleftrightarrow> ?c \<notin> (\<lambda>x. sp_competency (ss_span x)) ` set spans"
    by (force simp: about_def filter_empty_conv)
  have "if int (kind_count ''supporting'' ?c spans) < rb_min_supporting rb
          then re_status r = ''unassessed'' \<and> re_band r = '''' \<and> re_confidence r = ''not_assessable''
             \<and> (''NOT_DISCUSSED'' \<in> set (re_reason_codes r) \<longleftrightarrow> ?c \<notin> (\<lambda>x. sp_competency (ss_span x)) ` set spans)
          else re_status r = ''assessed'' \<and> (\<exists>i. earns rb (share spans ?c) i \<and> re_band r = bd_id (rb_bands rb ! i))"
  proof (cases "int (kind_count ''supporting'' ?c spans) < rb_min_supporting rb")
    case True
    with settle_unassessed [of "counted spans ?c" rb] nd show ?thesis by (simp add: k(2)) (simp add: counted_def)
  next
    case False
    with settle_assessed [OF assms(1), of ?c spans] show ?thesis by (simp add: k(2))
  qed
  moreover have "re_competency r = ?c" "re_evidence_ids r = sort (map ss_id (filter (\<lambda>x. sp_competency (ss_span x) = ?c) spans))"
    by (simp_all add: k(2) about_def)
  ultimately show ?thesis using k(1) by blast
qed

definition ex_rubric :: rubric where
  "ex_rubric = \<lparr>rb_min_supporting = 1,
     rb_bands = [\<lparr>bd_id = ''emerging'', bd_min_ratio = 0\<rparr>, \<lparr>bd_id = ''strong'', bd_min_ratio = 3 / 4\<rparr>],
     rb_high = \<lparr>cr_min_supporting = 3, cr_max_contradictory = 0\<rparr>,
     rb_medium = \<lparr>cr_min_supporting = 1, cr_max_contradictory = 1\<rparr>\<rparr>"

lemma ex_parse: "ParseRubric (Some ex_rubric) = Inr ex_rubric"
  by (simp add: ParseRubric_def ex_rubric_def)

definition ex_stored :: stored_span where
  "ex_stored = \<lparr>ss_id = ''e1'', ss_span = ex_span, ss_created_at = 5\<rparr>"

theorem aggregation_is_earned_witness:
  "\<exists>r \<in> set (ag_competencies (Aggregate ex_rubric (si_competencies ex_input) [ex_stored])).
     re_status r = ''assessed'' \<and> re_band r = ''strong''"
proof -
  let ?r = "settle ex_rubric (counted [ex_stored] ''perf'')"
  have r: "?r \<in> set (ag_competencies (Aggregate ex_rubric (si_competencies ex_input) [ex_stored]))"
    unfolding Aggregate_set by (simp add: ex_input_def)
  have one: "kind_count ''supporting'' ''perf'' [ex_stored] = 1" and q: "share [ex_stored] ''perf'' = 1"
    by (simp_all add: share_def eligible_def kind_count_def ex_stored_def ex_span_def fdiv_def)
  have "re_status ?r = ''assessed'' \<and> (\<exists>i. earns ex_rubric 1 i \<and> re_band ?r = bd_id (rb_bands ex_rubric ! i))"
    using aggregation_is_earned [OF ex_parse r] one q by (auto simp: ex_input_def ex_rubric_def)
  moreover have "i = 1" if "earns ex_rubric 1 i" for i
    using that by (auto simp: earns_def ex_rubric_def less_Suc_eq)
  moreover have "bd_id (rb_bands ex_rubric ! 1) = ''strong''" by (simp add: ex_rubric_def)
  ultimately show ?thesis using r by metis
qed

text \<open>The aggregation is a function of what was stored, not of the order it was read in: permuting
  the stored spans, or the competencies asked, gives the same result, so a retried or later
  recomputation is the same document; and only evidence about a competency bears on its result.\<close>

theorem aggregate_order_independent:
  assumes "mset cs = mset cs'" and "mset spans = mset spans'"
  shows "Aggregate rb cs spans = Aggregate rb cs' spans'
       \<and> (\<forall>c. settle rb (counted spans c) = aggregate_one rb (filter (\<lambda>x. sp_competency (ss_span x) = c) spans) \<lparr>co_id = c, co_name = ''''\<rparr>)"
proof -
  have "counted spans = counted spans'" using counted_perm [OF assms(2)] by (simp add: fun_eq_iff)
  moreover have "sort_key re_competency (map (\<lambda>c. settle rb (counted spans (co_id c))) cs)
      = sort_key re_competency (map (\<lambda>c. settle rb (counted spans (co_id c))) cs')"
    by (rule sort_key_unique) (auto simp: assms(1))
  ultimately have "Aggregate rb cs spans = Aggregate rb cs' spans'"
    using mset_eq_length [OF assms(1)]
    by (simp add: Aggregate_def Let_def aggregate_one_counted cong: map_cong)
  moreover have "counted (filter (\<lambda>x. sp_competency (ss_span x) = c) spans) c = counted spans c" for c
    by (simp add: counted_def kind_count_def about_def filter_filter)
  ultimately show ?thesis by (simp add: aggregate_one_counted)
qed

theorem aggregate_order_independent_witness:
  "Aggregate ex_rubric [] [ex_stored, ex_stored\<lparr>ss_id := ''e2''\<rparr>]
     = Aggregate ex_rubric [] [ex_stored\<lparr>ss_id := ''e2''\<rparr>, ex_stored]"
  using aggregate_order_independent [of "[]" "[]" "[ex_stored, ex_stored\<lparr>ss_id := ''e2''\<rparr>]"
      "[ex_stored\<lparr>ss_id := ''e2''\<rparr>, ex_stored]" ex_rubric] by (simp add: add_mset_commute)

lemma share_mono:
  assumes "s \<le> s'" and "u' \<le> u" and "0 < s"
  shows "fdiv (of_nat s) (of_nat (s + u)) \<le> fdiv (of_nat s') (of_nat (s' + u'))"
proof -
  have "s * u' \<le> s' * u" using assms(1,2) by (rule mult_le_mono)
  then have "(of_nat s :: rat) * of_nat u' \<le> of_nat s' * of_nat u"
    by (metis of_nat_le_iff of_nat_mult)
  then have "(of_nat s :: rat) / of_nat (s + u) \<le> of_nat s' / of_nat (s' + u')"
    using assms by (simp add: field_simps)
  then show ?thesis unfolding fdiv_def by (intro fl_mono) simp_all
qed

lemma earns_mono: "earns rb q i \<Longrightarrow> earns rb q' j \<Longrightarrow> q \<le> q' \<Longrightarrow> i \<le> j"
  by (meson earns_def leI order.trans not_le)

text \<open>How much a confidence label claims.\<close>

definition confidence_rank :: "string \<Rightarrow> nat" where
  "confidence_rank l = (if l = ''high'' then 2 else if l = ''medium'' then 1 else 0)"

text \<open>Evidence moves a result the way it points. With the same rubric, more supporting evidence and no
  more contradiction or unverified claims about a competency never unassesses it, never lowers its band
  and never lowers its confidence; read the other way, more contradiction never raises any of them.\<close>

theorem evidence_moves_results_monotonically:
  assumes "ParseRubric body = Inr rb"
    and "kind_count ''supporting'' c spans \<le> kind_count ''supporting'' c spans'"
    and "kind_count ''contradictory'' c spans' \<le> kind_count ''contradictory'' c spans"
    and "kind_count ''claim_unverified'' c spans' \<le> kind_count ''claim_unverified'' c spans"
    and "re_status (aggregate_one rb spans \<lparr>co_id = c, co_name = nm\<rparr>) = ''assessed''"
  defines "before \<equiv> aggregate_one rb spans \<lparr>co_id = c, co_name = nm\<rparr>"
    and "later \<equiv> aggregate_one rb spans' \<lparr>co_id = c, co_name = nm\<rparr>"
  shows "re_status later = ''assessed''
       \<and> confidence_rank (re_confidence before) \<le> confidence_rank (re_confidence later)
       \<and> (\<exists>i j. re_band before = bd_id (rb_bands rb ! i) \<and> re_band later = bd_id (rb_bands rb ! j)
            \<and> i \<le> j \<and> j < length (rb_bands rb))"
proof -
  note rb = assms(1) [unfolded ParseRubric_Inr]
  have b: "before = settle rb (counted spans c)" and l: "later = settle rb (counted spans' c)"
    by (simp_all add: before_def later_def aggregate_one_counted)
  have enough: "rb_min_supporting rb \<le> int (kind_count ''supporting'' c spans)"
    using assms(5) settle_unassessed [of "counted spans c" rb]
    unfolding before_def [symmetric] b by (cases "int (kind_count ''supporting'' c spans) < rb_min_supporting rb") simp_all
  with assms(2) have enough': "rb_min_supporting rb \<le> int (kind_count ''supporting'' c spans')" by simp
  note sb = settle_assessed [OF assms(1) enough] and sl = settle_assessed [OF assms(1) enough']
  have conf: "confidence_rank (confidenceOf rb (counted spans c)) \<le> confidence_rank (confidenceOf rb (counted spans' c))"
    using assms(2,3) by (simp add: confidenceOf_def confidence_rank_def)
  have "share spans c \<le> share spans' c"
    unfolding share_def eligible_def add.assoc
    using assms(2-4) enough rb by (intro share_mono) auto
  then show ?thesis using sb sl conf earns_mono [of rb "share spans c" _ "share spans' c"]
    unfolding b l by (metis earns_def)
qed

theorem evidence_moves_results_monotonically_witness:
  "re_status (aggregate_one ex_rubric [ex_stored, ex_stored\<lparr>ss_id := ''e2''\<rparr>] \<lparr>co_id = ''perf'', co_name = ''''\<rparr>) = ''assessed''"
proof -
  have "kind_count ''supporting'' ''perf'' [ex_stored] = 1"
    by (simp add: kind_count_def ex_stored_def ex_span_def)
  with settle_assessed [OF ex_parse, of "''perf''" "[ex_stored]"]
  have "re_status (aggregate_one ex_rubric [ex_stored] \<lparr>co_id = ''perf'', co_name = ''''\<rparr>) = ''assessed''"
    by (simp add: aggregate_one_counted) (simp add: ex_rubric_def)
  from evidence_moves_results_monotonically [OF ex_parse _ _ _ this, of "[ex_stored, ex_stored\<lparr>ss_id := ''e2''\<rparr>]"]
  show ?thesis by (simp add: kind_count_def ex_stored_def ex_span_def)
qed

lemma publication_gate_iff:
  "ValidatePublication rb cs spans ag = None \<longleftrightarrow> ag = Aggregate rb cs spans"
proof -
  let ?re = "Aggregate rb cs spans"
  have "ValidatePublication rb cs spans ag = None \<longleftrightarrow> ag_competencies ag = ag_competencies ?re
      \<and> ag_coverage ag = ag_coverage ?re \<and> ag_covered ag = ag_covered ?re \<and> ag_total ag = ag_total ?re"
    using check_results_None [of "ag_competencies ag" "ag_competencies ?re"]
    by (auto simp: ValidatePublication_def Let_def split: option.splits)
  then show ?thesis by auto
qed

lemma publication_bounds: "ag_covered (Aggregate rb cs spans) \<le> ag_total (Aggregate rb cs spans)"
proof -
  have "length (filter P (sort_key re_competency (map (aggregate_one rb spans) cs))) \<le> length cs" for P
    by (metis length_filter_le length_map length_sort)
  then show ?thesis by (simp add: Aggregate_def Let_def CoverageOf_def)
qed

text \<open>Only what recomputes is published. The publication gate accepts an aggregation exactly when it
  is the one the stored evidence and the rubric give; and what it accepts answers every competency
  asked, in order, with its coverage naming each of them once as reached or not reached.\<close>

theorem publication_gate_exact:
  "(ValidatePublication rb cs spans ag = None \<longleftrightarrow> ag = Aggregate rb cs spans)
   \<and> (ag = Aggregate rb cs spans \<longrightarrow>
        map re_competency (ag_competencies ag) = sort (map co_id cs)
        \<and> mset (cv_reached (ag_coverage ag)) + mset (cv_not_reached (ag_coverage ag)) = mset (map co_id cs)
        \<and> set (cv_reached (ag_coverage ag)) \<subseteq> (\<lambda>x. sp_competency (ss_span x)) ` set spans
        \<and> set (cv_not_reached (ag_coverage ag)) \<inter> (\<lambda>x. sp_competency (ss_span x)) ` set spans = {}
        \<and> ag_covered ag \<le> ag_total ag)"
proof -
  let ?re = "Aggregate rb cs spans"
  let ?rs = "ag_competencies ?re"
  note publication_gate_iff [of rb cs spans ag]
  moreover have names: "mset (map re_competency ?rs) = mset (map co_id cs)"
    by (simp add: Aggregate_results image_mset.compositionality comp_def)
  have "map re_competency ?rs = sort (map co_id cs)"
    by (rule sorted_unique) (use names in \<open>simp_all add: Aggregate_results\<close>)
  moreover have cov: "ag_coverage ?re = CoverageOf ?rs" "ag_total ?re = length cs"
    "ag_covered ?re = length (cv_reached (ag_coverage ?re))"
    by (simp_all add: Aggregate_def Let_def)
  have parts: "mset (cv_reached (CoverageOf rs)) + mset (cv_not_reached (CoverageOf rs)) = mset (map re_competency rs)" for rs
    by (induction rs) (auto simp: CoverageOf_def)
  have "mset (cv_reached (ag_coverage ?re)) + mset (cv_not_reached (ag_coverage ?re)) = mset (map co_id cs)"
    unfolding cov parts names ..
  moreover from arg_cong [OF this, of size] have "ag_covered ?re \<le> ag_total ?re" unfolding cov by simp
  moreover have "re_evidence_count r = 0 \<longleftrightarrow> (\<forall>x \<in> set spans. sp_competency (ss_span x) \<noteq> re_competency r)"
    if "r \<in> set ?rs" for r
    using that unfolding Aggregate_set by (force simp: about_def filter_empty_conv)
  then have "set (cv_reached (ag_coverage ?re)) \<subseteq> (\<lambda>x. sp_competency (ss_span x)) ` set spans"
    "set (cv_not_reached (ag_coverage ?re)) \<inter> (\<lambda>x. sp_competency (ss_span x)) ` set spans = {}"
    unfolding cov CoverageOf_def by (auto simp: image_iff) (metis less_numeral_extra(3))
  ultimately show ?thesis by blast
qed

theorem publication_gate_exact_witness:
  "ValidatePublication ex_rubric (si_competencies ex_input) [ex_stored]
     (Aggregate ex_rubric (si_competencies ex_input) [ex_stored]) = None"
  using publication_gate_exact [of ex_rubric "si_competencies ex_input" "[ex_stored]"] by blast

end
