(* ===== verification/Stage_Policy.thy ===== *)
theory Stage_Policy
  imports Row_Scope
begin

text \<open>
  \<open>services/platform/internal/evaluation/policy.go\<close> and \<open>stages.go\<close>: the model policy and its
  coherence (\<open>ParsePolicy\<close>, \<open>Stage\<close>), the append-only record of stage attempts (\<open>RecordStage\<close>,
  \<open>StageOutcomes\<close>), what a stage has spent and may spend (\<open>Spent\<close>, \<open>Standing\<close>, \<open>Affords\<close>) and
  what is missing from a result (\<open>Omissions\<close>).  JSON decoding is an argument of \<open>ParsePolicy\<close>.
\<close>

section \<open>The policy\<close>

record stage_policy =
  pl_id :: string
  pl_required :: bool
  pl_budget :: int

type_synonym policy = "stage_policy list"

datatype policy_error =
    PolicyUndecodable
  | NoStages
  | StageUnnamed
  | StageTwice string
  | NegativeBudget string
  | RequiredUnbudgeted string

fun check_stages :: "string set \<Rightarrow> stage_policy list \<Rightarrow> policy_error option" where
  "check_stages seen [] = None"
| "check_stages seen (s # ss) =
     (if pl_id s = '''' then Some StageUnnamed
      else if pl_id s \<in> seen then Some (StageTwice (pl_id s))
      else if pl_budget s < 0 then Some (NegativeBudget (pl_id s))
      else if pl_required s \<and> pl_budget s = 0 then Some (RequiredUnbudgeted (pl_id s))
      else check_stages (insert (pl_id s) seen) ss)"

definition ParsePolicy :: "policy option \<Rightarrow> policy_error + policy" where
  "ParsePolicy body =
     (case body of
        None \<Rightarrow> Inl PolicyUndecodable
      | Some p \<Rightarrow>
          (if p = [] then Inl NoStages
           else case check_stages {} p of Some e \<Rightarrow> Inl e | None \<Rightarrow> Inr p))"

text \<open>Whether the stage is required, what it may spend, and whether the policy names it.\<close>

fun Stage :: "policy \<Rightarrow> string \<Rightarrow> bool \<times> int \<times> bool" where
  "Stage [] i = (False, 0, False)"
| "Stage (s # ss) i = (if pl_id s = i then (pl_required s, pl_budget s, True) else Stage ss i)"

section \<open>Stage attempts\<close>

definition StageEvidence :: string where "StageEvidence = ''evidence''"
definition StageAggregation :: string where "StageAggregation = ''aggregation''"
definition StageArticulation :: string where "StageArticulation = ''articulation''"
definition StageCoaching :: string where "StageCoaching = ''coaching''"
definition ReasonBudgetExhausted :: string where "ReasonBudgetExhausted = ''BUDGET_EXHAUSTED''"

lemmas stage_defs = StageEvidence_def StageAggregation_def StageArticulation_def StageCoaching_def

record stage_outcome =
  so_stage :: string
  so_status :: string
  so_reason :: string
  so_retryable :: bool
  so_required :: bool
  so_cost :: int
  so_created_at :: time

record stage_row =
  sw_ref :: session_ref
  sw_outcome :: stage_outcome

datatype record_error = RecordNoScope | RecordRefused

definition RecordStage ::
  "session_ref \<Rightarrow> stage_outcome \<Rightarrow> time \<Rightarrow> stage_row list \<Rightarrow> record_error + stage_row list" where
  "RecordStage ref out now rows =
     (case scope_of ref of
        None \<Rightarrow> Inl RecordNoScope
      | Some sc \<Rightarrow>
          (if ref_ok ref \<and> visible sc ref \<and> so_status out \<in> {''completed'', ''omitted'', ''failed''}
              \<and> to_int32 (so_cost out) \<ge> 0
           then Inr (rows @ [\<lparr>sw_ref = ref,
                  sw_outcome = out\<lparr>so_cost := to_int32 (so_cost out), so_created_at := now\<rparr>\<rparr>])
           else Inl RecordRefused))"

text \<open>\<open>ORDER BY created_at, id\<close>: identifiers are drawn in time order, so ties stand as inserted.\<close>

definition StageOutcomes :: "session_ref \<Rightarrow> stage_row list \<Rightarrow> record_error + stage_outcome list" where
  "StageOutcomes ref rows =
     (case scope_of ref of
        None \<Rightarrow> Inl RecordNoScope
      | Some sc \<Rightarrow>
          Inr (sort_key so_created_at (map sw_outcome
            (filter (\<lambda>r. visible sc (sw_ref r) \<and> ref_session (sw_ref r) = ref_session ref) rows))))"

fun Spent :: "stage_outcome list \<Rightarrow> string \<Rightarrow> int" where
  "Spent [] stage = 0"
| "Spent (x # xs) stage = (if so_stage x = stage then so_cost x else 0) + Spent xs stage"

fun standing_from :: "stage_outcome option \<Rightarrow> stage_outcome list \<Rightarrow> string \<Rightarrow> stage_outcome option" where
  "standing_from latest [] stage = latest"
| "standing_from latest (x # xs) stage =
     standing_from (if so_stage x = stage then Some x else latest) xs stage"

definition Standing :: "stage_outcome list \<Rightarrow> string \<Rightarrow> stage_outcome option" where
  "Standing xs stage = standing_from None xs stage"

datatype afford_error = NotInPolicy string | RequiredUnaffordable string

definition Affords :: "policy \<Rightarrow> stage_outcome list \<Rightarrow> string \<Rightarrow> afford_error + bool" where
  "Affords p outs stage =
     (case Stage p stage of (required, budget, known) \<Rightarrow>
        if \<not> known then Inl (NotInPolicy stage)
        else if Spent outs stage < budget then Inr True
        else if required then Inl (RequiredUnaffordable stage)
        else Inr False)"

record omission =
  om_stage :: string
  om_reason :: string
  om_retryable :: bool

fun omissions_over :: "string list \<Rightarrow> string set \<Rightarrow> stage_outcome list \<Rightarrow> omission list" where
  "omissions_over [] seen outs = []"
| "omissions_over (s # ss) seen outs =
     (case Standing outs s of
        None \<Rightarrow> omissions_over ss seen outs
      | Some x \<Rightarrow>
          (if so_required x \<or> so_status x = ''completed'' \<or> s \<in> seen then omissions_over ss seen outs
           else \<lparr>om_stage = s, om_reason = so_reason x, om_retryable = so_retryable x\<rparr>
                  # omissions_over ss (insert s seen) outs))"

definition Omissions :: "stage_outcome list \<Rightarrow> omission list" where
  "Omissions outs = omissions_over [StageArticulation, StageCoaching] {} outs"

section \<open>Lemmas\<close>

lemma check_stages_None:
  "check_stages seen ss = None \<longleftrightarrow> distinct (map pl_id ss)
     \<and> (\<forall>s \<in> set ss. pl_id s \<noteq> '''' \<and> pl_id s \<notin> seen \<and> 0 \<le> pl_budget s \<and> (pl_required s \<longrightarrow> 0 < pl_budget s))"
proof (induction ss arbitrary: seen)
  case (Cons s ss)
  have "check_stages seen (s # ss) = None \<longleftrightarrow> pl_id s \<noteq> '''' \<and> pl_id s \<notin> seen \<and> 0 \<le> pl_budget s
      \<and> (pl_required s \<longrightarrow> 0 < pl_budget s) \<and> check_stages (insert (pl_id s) seen) ss = None"
    by auto
  then show ?case unfolding Cons.IH by (auto 4 4 intro: rev_image_eqI)
qed simp

lemma ParsePolicy_Inr:
  "ParsePolicy body = Inr p \<longleftrightarrow> body = Some p \<and> p \<noteq> [] \<and> distinct (map pl_id p)
     \<and> (\<forall>s \<in> set p. pl_id s \<noteq> '''' \<and> 0 \<le> pl_budget s \<and> (pl_required s \<longrightarrow> 0 < pl_budget s))"
proof (cases body)
  case (Some b)
  then show ?thesis
    using check_stages_None [of "{}" b] by (cases "check_stages {} b") (auto simp: ParsePolicy_def)
qed (simp add: ParsePolicy_def)

lemma Stage_known:
  "Stage p i = (r, b, True) \<Longrightarrow> \<exists>s \<in> set p. pl_id s = i \<and> pl_required s = r \<and> pl_budget s = b"
  by (induction p) (auto split: if_splits)

lemma Stage_unknown: "snd (snd (Stage p i)) \<longleftrightarrow> i \<in> pl_id ` set p"
  by (induction p) auto

lemma Spent_append [simp]: "Spent (xs @ ys) stage = Spent xs stage + Spent ys stage"
  by (induction xs) auto

lemma Spent_sort: "Spent (sort_key f xs) stage = Spent xs stage"
proof -
  have "Spent ys stage = sum_mset (image_mset (\<lambda>x. if so_stage x = stage then so_cost x else 0) (mset ys))" for ys
    by (induction ys) auto
  then show ?thesis by simp
qed

lemma standing_from_append:
  "standing_from l (xs @ ys) stage = standing_from (standing_from l xs stage) ys stage"
  by (induction xs arbitrary: l) auto

lemma standing_from_cases:
  "standing_from l xs stage = (if \<exists>x \<in> set xs. so_stage x = stage
     then Some (last (filter (\<lambda>x. so_stage x = stage) xs)) else l)"
  by (induction xs arbitrary: l) (auto simp: filter_empty_conv)

lemma RecordStage_Inr:
  "RecordStage ref out now rows = Inr rows' \<longleftrightarrow>
     scope_of ref \<noteq> None \<and> ref_ok ref \<and> so_status out \<in> {''completed'', ''omitted'', ''failed''}
     \<and> 0 \<le> to_int32 (so_cost out)
     \<and> rows' = rows @ [\<lparr>sw_ref = ref, sw_outcome = out\<lparr>so_cost := to_int32 (so_cost out), so_created_at := now\<rparr>\<rparr>]"
  using scope_sees_own [of ref] by (auto simp: RecordStage_def split: option.splits)

section \<open>Properties\<close>

text \<open>A policy governs what may be spent. Under a policy that parsed, a stage may run exactly when the
  policy names it and what it has spent is below its budget; a required stage can always run once, and
  once its budget is gone it is an error and never an omission; an optional stage over budget is refused
  quietly, and a stage nobody budgeted for never runs.\<close>

theorem policy_governs_spending:
  assumes "ParsePolicy body = Inr p"
  shows "(Affords p outs stage = Inr True \<longleftrightarrow>
            (\<exists>s \<in> set p. pl_id s = stage \<and> Spent outs stage < pl_budget s))
       \<and> (Affords p outs stage = Inr False \<longleftrightarrow>
            (\<exists>s \<in> set p. pl_id s = stage \<and> \<not> pl_required s \<and> pl_budget s \<le> Spent outs stage))
       \<and> (Affords p outs stage = Inl (RequiredUnaffordable stage) \<longleftrightarrow>
            (\<exists>s \<in> set p. pl_id s = stage \<and> pl_required s \<and> pl_budget s \<le> Spent outs stage))
       \<and> (Affords p outs stage = Inl (NotInPolicy stage) \<longleftrightarrow> stage \<notin> pl_id ` set p)
       \<and> (stage \<in> pl_id ` set (filter pl_required p) \<longrightarrow> Affords p [] stage = Inr True)"
proof -
  note p = assms [unfolded ParsePolicy_Inr]
  have uniq: "s = t" if "s \<in> set p" "t \<in> set p" "pl_id s = pl_id t" for s t
    using p that by (auto simp: distinct_map inj_on_def)
  show ?thesis
  proof (cases "stage \<in> pl_id ` set p")
    case False
    then have "Stage p stage = (False, 0, False)" by (induction p) auto
    with False show ?thesis by (auto simp: Affords_def)
  next
    case True
    then obtain r b where st: "Stage p stage = (r, b, True)"
      using Stage_unknown [of p stage] by (cases "Stage p stage") auto
    from Stage_known [OF st] obtain s where s: "s \<in> set p" "pl_id s = stage" "pl_required s = r" "pl_budget s = b"
      by blast
    have ex: "(\<exists>t \<in> set p. pl_id t = stage \<and> P t) \<longleftrightarrow> P s" for P
      using uniq s by blast
    have req: "stage \<in> pl_id ` set (filter pl_required p) \<longleftrightarrow> r"
      using ex [of pl_required] s(3) by auto
    have "r \<longrightarrow> 0 < b" using p s by blast
    then show ?thesis unfolding ex req using True by (simp add: Affords_def st s not_less)
  qed
qed

definition ex_policy :: policy where
  "ex_policy = [\<lparr>pl_id = ''evidence'', pl_required = True, pl_budget = 10\<rparr>,
     \<lparr>pl_id = ''articulation'', pl_required = False, pl_budget = 4\<rparr>]"

lemma ex_policy_parses: "ParsePolicy (Some ex_policy) = Inr ex_policy"
  by (simp add: ParsePolicy_def ex_policy_def)

theorem policy_governs_spending_witness: "Affords ex_policy [] ''evidence'' = Inr True"
  using policy_governs_spending [OF ex_policy_parses, of "[]" "''evidence''"] by (simp add: ex_policy_def)

text \<open>What is missing is said, and only that. A result's omissions are exactly the optional
  stages whose latest attempt did not complete, each once, with the reason and the retry advice of that
  latest attempt; a stage that was retried into completion, or never attempted, is not an omission.\<close>

theorem omissions_are_latest_failures:
  "map om_stage (Omissions outs) = filter (\<lambda>s. \<exists>x. Standing outs s = Some x \<and> \<not> so_required x
        \<and> so_status x \<noteq> ''completed'') [''articulation'', ''coaching'']
   \<and> (\<forall>o' \<in> set (Omissions outs). \<exists>x. Standing outs (om_stage o') = Some x \<and> om_reason o' = so_reason x
        \<and> om_retryable o' = so_retryable x)
   \<and> (Standing outs s = Some x \<longleftrightarrow> (\<exists>before later. outs = before @ x # later \<and> so_stage x = s
        \<and> s \<notin> so_stage ` set later))"
proof -
  have "Standing outs s = Some x \<longleftrightarrow> (\<exists>before later. outs = before @ x # later \<and> so_stage x = s \<and> s \<notin> so_stage ` set later)"
  proof
    assume st: "Standing outs s = Some x"
    then have "\<exists>x \<in> set outs. so_stage x = s"
      by (auto simp: Standing_def standing_from_cases split: if_splits)
    then obtain us y vs where y: "outs = us @ y # vs" "so_stage y = s" "\<forall>z \<in> set vs. so_stage z \<noteq> s"
      using split_list_last_prop [of outs "\<lambda>x. so_stage x = s"] by auto
    then have "Standing outs s = Some y"
      by (auto simp: Standing_def standing_from_append standing_from_cases)
    with st y show "\<exists>before later. outs = before @ x # later \<and> so_stage x = s \<and> s \<notin> so_stage ` set later"
      by (intro exI [of _ us] exI [of _ vs]) auto
  next
    assume "\<exists>before later. outs = before @ x # later \<and> so_stage x = s \<and> s \<notin> so_stage ` set later"
    then obtain us vs where x: "outs = us @ x # vs" "so_stage x = s" "s \<notin> so_stage ` set vs" by blast
    have "filter (\<lambda>x. so_stage x = s) vs = []" using x(3) by (induction vs) auto
    with x(2) show "Standing outs s = Some x"
      by (simp add: Standing_def standing_from_cases x(1))
  qed
  then show ?thesis
    by (auto simp: Omissions_def stage_defs split: option.splits)
qed

theorem omissions_are_latest_failures_witness:
  "map om_stage (Omissions [\<lparr>so_stage = ''articulation'', so_status = ''omitted'', so_reason = ''BUDGET_EXHAUSTED'',
     so_retryable = False, so_required = False, so_cost = 0, so_created_at = 3\<rparr>]) = [''articulation'']"
  using omissions_are_latest_failures [of "[\<lparr>so_stage = ''articulation'', so_status = ''omitted'',
     so_reason = ''BUDGET_EXHAUSTED'', so_retryable = False, so_required = False, so_cost = 0, so_created_at = 3\<rparr>]"]
  by (simp add: Standing_def)

end
