(* ===== verification/Evaluation_Pipeline.thy ===== *)
theory Evaluation_Pipeline
  imports Rubric Stage_Policy
begin

text \<open>
  \<open>services/platform/internal/evaluation/workflow.go\<close> and \<open>result.go\<close>: the durable stage that
  extracts, validates and stores evidence (\<open>ExtractAndStore\<close>), aggregates it against the pinned rubric
  behind the publication gate (\<open>AggregateActivity\<close> for \<open>Activities.Aggregate\<close>), stores one immutable
  result with its event (\<open>StoreResult\<close>, \<open>ResultOf\<close>), publishes a failure (\<open>PublishFailed\<close>) and drives
  them (\<open>EvidenceWorkflow\<close>).  What the extractor and the rubric source answer, the identifiers drawn
  and the times are arguments; \<open>digest\<close> is the SHA-256 of the encoded competencies.  The outbox is the
  list of events published, in order.
\<close>

section \<open>State\<close>

record eval_result =
  rt_id :: string
  rt_session :: string
  rt_rubric_reference :: string
  rt_rubric_version :: string
  rt_rubric_digest :: string
  rt_extraction :: string
  rt_competencies :: "competency_result list"
  rt_digest :: string
  rt_covered :: int
  rt_total :: int
  rt_warnings :: "string list"
  rt_created_at :: time

record result_row =
  rw_ref :: session_ref
  rw_result :: eval_result

datatype payload =
    Completed (pay_evaluation: string) (pay_session: string) (pay_rubric: string) (pay_version: string) (pay_digest: string)
  | Failed (pay_evaluation: string) (pay_session: string) (pay_code: string)

record outbox_event =
  ob_type :: string
  ob_tenant :: string
  ob_actor :: string
  ob_purpose :: string
  ob_payload :: payload

record pipeline =
  pipe_evidence :: evidence_db
  pipe_results :: "result_row list"
  pipe_outbox :: "outbox_event list"
  pipe_stages :: "stage_row list"

section \<open>The result\<close>

record rubric_pin =
  rp_reference :: string
  rp_version :: string
  rp_digest :: string
  rp_body :: "rubric option"

datatype result_error = NoResult | ResultScope | ResultRefused

definition ResultOf :: "session_ref \<Rightarrow> result_row list \<Rightarrow> result_error + eval_result" where
  "ResultOf ref rows =
     (case scope_of ref of
        None \<Rightarrow> Inl ResultScope
      | Some sc \<Rightarrow>
          (case filter (\<lambda>r. visible sc (rw_ref r) \<and> ref_session (rw_ref r) = ref_session ref) rows of
             [] \<Rightarrow> Inl NoResult
           | r # _ \<Rightarrow> Inr (rw_result r)))"

text \<open>The coverage a stored result is read back with.\<close>

definition result_aggregation :: "eval_result \<Rightarrow> aggregation" where
  "result_aggregation x =
     \<lparr>ag_competencies = rt_competencies x, ag_coverage = CoverageOf (rt_competencies x),
      ag_covered = nat (rt_covered x), ag_total = nat (rt_total x)\<rparr>"

definition StoreResult ::
  "(competency_result list \<Rightarrow> string) \<Rightarrow> session_ref \<Rightarrow> rubric_pin \<Rightarrow> string \<Rightarrow> aggregation \<Rightarrow> string list
     \<Rightarrow> string \<Rightarrow> time \<Rightarrow> pipeline \<Rightarrow> result_error + eval_result \<times> pipeline" where
  "StoreResult digest ref pin version ag warnings new_id now st =
     (case scope_of ref of
        None \<Rightarrow> Inl ResultScope
      | Some sc \<Rightarrow>
          (let covered = to_int32 (int (ag_covered ag)); total = to_int32 (int (ag_total ag)) in
           if \<not> (ref_ok ref \<and> visible sc ref \<and> 0 \<le> covered \<and> covered \<le> total) then Inl ResultRefused
           else if ref_session ref \<in> (\<lambda>r. ref_session (rw_ref r)) ` set (pipe_results st)
           then bindE (ResultOf ref (pipe_results st)) (\<lambda>x. Inr (x, st))
           else
             let row = \<lparr>rw_ref = ref, rw_result = \<lparr>rt_id = new_id, rt_session = ref_session ref,
                   rt_rubric_reference = rp_reference pin, rt_rubric_version = rp_version pin,
                   rt_rubric_digest = rp_digest pin, rt_extraction = version,
                   rt_competencies = ag_competencies ag, rt_digest = digest (ag_competencies ag),
                   rt_covered = covered, rt_total = total, rt_warnings = warnings, rt_created_at = now\<rparr>\<rparr>;
                 event = \<lparr>ob_type = ''evaluation.completed.v1'', ob_tenant = ref_tenant ref,
                   ob_actor = ref_candidate ref, ob_purpose = ref_mode ref,
                   ob_payload = Completed new_id (ref_session ref) (rp_reference pin) (rp_version pin)
                     (digest (ag_competencies ag))\<rparr>;
                 st' = st\<lparr>pipe_results := pipe_results st @ [row], pipe_outbox := pipe_outbox st @ [event]\<rparr> in
             bindE (ResultOf ref (pipe_results st')) (\<lambda>x. Inr (x, st'))))"

section \<open>Extraction\<close>

datatype extractor_answer =
    ExtractFailed string bool
  | ExtractUnavailable string
  | Extracted sealed_input "span list" "contradiction list" int

text \<open>
  How an activity ends: a plain error, by the type name the workflow engine reports, which is tried
  again; an application error that is not; or a value.
\<close>

datatype 'a ended = PlainError string | NonRetryable string | Value 'a

definition extraction_stage :: "string \<Rightarrow> string \<Rightarrow> bool \<Rightarrow> int \<Rightarrow> stage_outcome" where
  "extraction_stage status reason retryable cost =
     \<lparr>so_stage = StageEvidence, so_status = status, so_reason = reason, so_retryable = retryable,
      so_required = True, so_cost = cost, so_created_at = 0\<rparr>"

definition noted :: "session_ref \<Rightarrow> stage_outcome \<Rightarrow> time \<Rightarrow> pipeline \<Rightarrow> pipeline" where
  "noted ref out now st =
     (case RecordStage ref out now (pipe_stages st) of Inl _ \<Rightarrow> st | Inr rows \<Rightarrow> st\<lparr>pipe_stages := rows\<rparr>)"

definition numbered :: "(nat \<Rightarrow> string) \<Rightarrow> nat \<Rightarrow> 'a list \<Rightarrow> (string \<times> 'a) list" where
  "numbered fresh i xs = map (\<lambda>(k, x). (fresh k, x)) (enumerate i xs)"

definition extraction_version :: "span list \<Rightarrow> contradiction list \<Rightarrow> string" where
  "extraction_version spans pairs =
     (case spans of
        s # _ \<Rightarrow> sp_version s
      | [] \<Rightarrow> (case pairs of p # _ \<Rightarrow> ct_version p | [] \<Rightarrow> ''evidence-unknown''))"

text \<open>The part of the activity up to and including the stored evidence.\<close>

definition extract_validate_replace ::
  "session_ref \<Rightarrow> sealed_input \<Rightarrow> span list \<Rightarrow> contradiction list \<Rightarrow> (nat \<Rightarrow> string) \<Rightarrow> time \<Rightarrow> pipeline
     \<Rightarrow> string ended \<times> pipeline" where
  "extract_validate_replace ref input spans pairs fresh now st =
     (if Validate input spans \<noteq> None \<or> ValidateContradictions input pairs \<noteq> None
      then (NonRetryable ''FAILURE_CODE_SCHEMA_VALIDATION_FAILED'', st)
      else
        let version = extraction_version spans pairs in
        (case Replace ref version now (numbered fresh 0 spans) (numbered fresh (length spans) pairs) (pipe_evidence st) of
           Inl _ \<Rightarrow> (PlainError ''wrapError'', st)
         | Inr db \<Rightarrow> (Value version, st\<lparr>pipe_evidence := db\<rparr>)))"

definition ExtractAndStore ::
  "session_ref \<Rightarrow> extractor_answer \<Rightarrow> (nat \<Rightarrow> string) \<Rightarrow> time \<Rightarrow> pipeline
     \<Rightarrow> (string \<times> competency list) ended \<times> pipeline" where
  "ExtractAndStore ref answer fresh now st =
     (case answer of
        ExtractFailed code retryable \<Rightarrow>
          (if retryable then PlainError ''ExtractFailure'' else NonRetryable code,
           noted ref (extraction_stage ''failed'' code retryable 0) now st)
      | ExtractUnavailable e \<Rightarrow> (PlainError e, st)
      | Extracted input spans pairs cost \<Rightarrow>
          (case extract_validate_replace ref input spans pairs fresh now st of
             (NonRetryable c, st1) \<Rightarrow> (NonRetryable c, st1)
           | (PlainError e, st1) \<Rightarrow> (PlainError e, st1)
           | (Value version, st1) \<Rightarrow>
               (case RecordStage ref (extraction_stage ''completed'' '''' False cost) now (pipe_stages st1) of
                  Inl _ \<Rightarrow> (PlainError ''wrapError'', st1)
                | Inr rows \<Rightarrow> (Value (version, si_competencies input), st1\<lparr>pipe_stages := rows\<rparr>))))"

section \<open>Aggregation\<close>

datatype rubric_answer = PinFailed string bool | PinUnavailable string | Pin rubric_pin

text \<open>
  The store is read twice; \<open>between\<close> is whatever other transactions do to it in the meantime.  The
  activity up to and including the stored result:
\<close>

definition aggregate_and_store ::
  "(competency_result list \<Rightarrow> string) \<Rightarrow> session_ref \<Rightarrow> rubric_pin \<Rightarrow> string \<Rightarrow> competency list
     \<Rightarrow> (pipeline \<Rightarrow> pipeline) \<Rightarrow> string \<Rightarrow> time \<Rightarrow> pipeline \<Rightarrow> unit ended \<times> pipeline" where
  "aggregate_and_store digest ref pin version competencies between new_id now st =
     (case ParseRubric (rp_body pin) of
        Inl _ \<Rightarrow> (NonRetryable ''FAILURE_CODE_SCHEMA_VALIDATION_FAILED'', st)
      | Inr rb \<Rightarrow>
          (case ListSpans ref (pipe_evidence st) of
             Inl _ \<Rightarrow> (PlainError ''wrapError'', st)
           | Inr spans \<Rightarrow>
               let ag = Aggregate rb competencies spans; st = between st in
               (case ListSpans ref (pipe_evidence st) of
                  Inl _ \<Rightarrow> (PlainError ''wrapError'', st)
                | Inr reread \<Rightarrow>
                    (if ValidatePublication rb competencies reread ag \<noteq> None
                     then (NonRetryable ''FAILURE_CODE_SCHEMA_VALIDATION_FAILED'', st)
                     else
                       let warnings = (if ag_covered ag = 0 \<and> ag_total ag > 0 then [''NO_COMPETENCY_EVIDENCED''] else []) in
                       (case StoreResult digest ref pin version ag warnings new_id now st of
                          Inl _ \<Rightarrow> (PlainError ''wrapError'', st)
                        | Inr (_, st') \<Rightarrow> (Value (), st'))))))"

definition aggregation_note :: stage_outcome where
  "aggregation_note = \<lparr>so_stage = StageAggregation, so_status = ''completed'', so_reason = '''', so_retryable = False,
     so_required = True, so_cost = 0, so_created_at = 0\<rparr>"

definition AggregateActivity ::
  "(competency_result list \<Rightarrow> string) \<Rightarrow> session_ref \<Rightarrow> rubric_answer \<Rightarrow> string \<Rightarrow> competency list
     \<Rightarrow> (pipeline \<Rightarrow> pipeline) \<Rightarrow> string \<Rightarrow> time \<Rightarrow> pipeline \<Rightarrow> unit ended \<times> pipeline" where
  "AggregateActivity digest ref answer version competencies between new_id now st =
     (case answer of
        PinFailed code retryable \<Rightarrow> (if retryable then PlainError ''ExtractFailure'' else NonRetryable code, st)
      | PinUnavailable e \<Rightarrow> (PlainError e, st)
      | Pin pin \<Rightarrow>
          (case aggregate_and_store digest ref pin version competencies between new_id now st of
             (Value _, st1) \<Rightarrow>
               (case RecordStage ref aggregation_note now (pipe_stages st1) of
                  Inl _ \<Rightarrow> (PlainError ''wrapError'', st1)
                | Inr rows \<Rightarrow> (Value (), st1\<lparr>pipe_stages := rows\<rparr>))
           | (PlainError e, st1) \<Rightarrow> (PlainError e, st1)
           | (NonRetryable c, st1) \<Rightarrow> (NonRetryable c, st1)))"

section \<open>Failure and the workflow\<close>

definition PublishFailed :: "session_ref \<Rightarrow> string \<Rightarrow> string \<Rightarrow> pipeline \<Rightarrow> pipeline" where
  "PublishFailed ref code new_id st =
     st\<lparr>pipe_outbox := pipe_outbox st @ [\<lparr>ob_type = ''evaluation.failed.v1'', ob_tenant = ref_tenant ref,
       ob_actor = ref_candidate ref, ob_purpose = ref_mode ref,
       ob_payload = Failed new_id (ref_session ref) code\<rparr>]\<rparr>"

definition ended_again :: "'a ended \<Rightarrow> bool" where
  "ended_again r = (case r of PlainError _ \<Rightarrow> True | _ \<Rightarrow> False)"

definition EvidenceAttempts :: nat where "EvidenceAttempts = 5"

definition failure_code :: "'a ended \<Rightarrow> string" where
  "failure_code r =
     (case r of PlainError e \<Rightarrow> if e = '''' then ''EVIDENCE_EXTRACTION_FAILED'' else e
      | NonRetryable c \<Rightarrow> if c = '''' then ''EVIDENCE_EXTRACTION_FAILED'' else c
      | Value _ \<Rightarrow> '''')"

text \<open>
  The workflow: extraction under the retry policy, then aggregation under it, and on the failure of
  either the failure event.  An environment that runs out stands for a worker that never comes back.
\<close>

definition EvidenceWorkflow ::
  "(competency_result list \<Rightarrow> string) \<Rightarrow> session_ref
     \<Rightarrow> (extractor_answer \<times> (nat \<Rightarrow> string) \<times> time) list
     \<Rightarrow> (rubric_answer \<times> (pipeline \<Rightarrow> pipeline) \<times> string \<times> time) list
     \<Rightarrow> string \<Rightarrow> pipeline \<Rightarrow> unit ended option \<times> pipeline" where
  "EvidenceWorkflow digest ref env1 env2 failure_id st =
     (case retry (\<lambda>(ans, fresh, now). ExtractAndStore ref ans fresh now) ended_again EvidenceAttempts env1 st of
        (r1, st1) \<Rightarrow>
          (if r1 = [] then (None, st1)
           else case last r1 of
             Value (version, competencies) \<Rightarrow>
               (case retry (\<lambda>(ans, between, i, now). AggregateActivity digest ref ans version competencies between i now)
                       ended_again EvidenceAttempts env2 st1 of
                  (r2, st2) \<Rightarrow>
                    (if r2 = [] then (None, st2)
                     else case last r2 of
                       Value u \<Rightarrow> (Some (Value u), st2)
                     | PlainError e \<Rightarrow> (Some (PlainError e), PublishFailed ref (failure_code (last r2)) failure_id st2)
                     | NonRetryable c \<Rightarrow> (Some (NonRetryable c), PublishFailed ref (failure_code (last r2)) failure_id st2)))
           | PlainError e \<Rightarrow> (Some (PlainError e), PublishFailed ref (failure_code (last r1)) failure_id st1)
           | NonRetryable c \<Rightarrow> (Some (NonRetryable c), PublishFailed ref (failure_code (last r1)) failure_id st1)))"

section \<open>Lemmas\<close>

definition completed_of :: "result_row \<Rightarrow> payload" where
  "completed_of r = Completed (rt_id (rw_result r)) (rt_session (rw_result r)) (rt_rubric_reference (rw_result r))
     (rt_rubric_version (rw_result r)) (rt_digest (rw_result r))"

fun is_completed :: "payload \<Rightarrow> bool" where
  "is_completed (Completed _ _ _ _ _) = True"
| "is_completed (Failed _ _ _) = False"

definition completed_events :: "pipeline \<Rightarrow> payload list" where
  "completed_events st = filter is_completed (map ob_payload (pipe_outbox st))"

text \<open>What a new result row holds.\<close>

definition result_of :: "(competency_result list \<Rightarrow> string) \<Rightarrow> session_ref \<Rightarrow> rubric_pin \<Rightarrow> aggregation \<Rightarrow> result_row \<Rightarrow> bool" where
  "result_of digest ref pin ag r \<longleftrightarrow> rw_ref r = ref \<and> rt_session (rw_result r) = ref_session ref
     \<and> rt_competencies (rw_result r) = ag_competencies ag \<and> rt_digest (rw_result r) = digest (ag_competencies ag)
     \<and> rt_rubric_reference (rw_result r) = rp_reference pin \<and> rt_rubric_version (rw_result r) = rp_version pin
     \<and> rt_rubric_digest (rw_result r) = rp_digest pin"

lemma StoreResult_Inr:
  assumes "StoreResult digest ref pin version ag warnings i now st = Inr (x, st')"
  shows "st' = st \<or> (ref_session ref \<notin> (\<lambda>r. ref_session (rw_ref r)) ` set (pipe_results st)
     \<and> (\<exists>row. result_of digest ref pin ag row \<and> pipe_results st' = pipe_results st @ [row]
          \<and> completed_events st' = completed_events st @ [completed_of row]
          \<and> pipe_evidence st' = pipe_evidence st \<and> pipe_stages st' = pipe_stages st))"
  using assms
  by (auto simp: StoreResult_def Let_def bindE_Inr result_of_def completed_events_def completed_of_def
      split: option.splits if_splits)

lemma noted_static [simp]:
  "pipe_results (noted ref out now st) = pipe_results st" "pipe_outbox (noted ref out now st) = pipe_outbox st"
  "pipe_evidence (noted ref out now st) = pipe_evidence st"
  by (simp_all add: noted_def split: sum.splits)

lemma numbered_snd: "map snd (numbered fresh i xs) = xs"
  by (induction xs arbitrary: i) (simp_all add: numbered_def)

lemma numbered_set: "x \<in> set (numbered fresh i xs) \<Longrightarrow> snd x \<in> set xs"
  by (metis image_eqI list.set_map numbered_snd)

lemma extract_cases:
  assumes "extract_validate_replace ref input spans pairs fresh now st = (r, st')"
  shows "st' = st \<or> (Validate input spans = None \<and> ValidateContradictions input pairs = None
     \<and> (\<exists>db v. st' = st\<lparr>pipe_evidence := db\<rparr>
          \<and> Replace ref v now (numbered fresh 0 spans) (numbered fresh (length spans) pairs) (pipe_evidence st) = Inr db))"
  using assms by (auto simp: extract_validate_replace_def Let_def split: if_splits sum.splits)

lemma ExtractAndStore_cases:
  assumes "ExtractAndStore ref ans fresh now st = (r, st')"
  shows "\<exists>st1. (st1 = st \<or> (\<exists>input spans pairs e. extract_validate_replace ref input spans pairs fresh now st = (e, st1)))
     \<and> pipe_results st' = pipe_results st1 \<and> pipe_outbox st' = pipe_outbox st1 \<and> pipe_evidence st' = pipe_evidence st1"
proof (cases ans)
  case (ExtractFailed c b)
  with assms show ?thesis by (intro exI [of _ st]) (auto simp: ExtractAndStore_def)
next
  case (ExtractUnavailable e)
  with assms show ?thesis by (intro exI [of _ st]) (auto simp: ExtractAndStore_def)
next
  case (Extracted input spans pairs cost)
  obtain e st1 where e: "extract_validate_replace ref input spans pairs fresh now st = (e, st1)" by fastforce
  have "pipe_results st' = pipe_results st1 \<and> pipe_outbox st' = pipe_outbox st1 \<and> pipe_evidence st' = pipe_evidence st1"
    using assms unfolding ExtractAndStore_def Extracted extractor_answer.case e prod.case
    by (cases e) (auto split: sum.splits)
  with e show ?thesis by blast
qed

lemma aggregate_cases:
  assumes "aggregate_and_store digest ref pin version cs between i now st = (r, st')"
  shows "st' = st \<or> st' = between st
     \<or> (\<exists>rb reread warnings x. ParseRubric (rp_body pin) = Inr rb
          \<and> ListSpans ref (pipe_evidence (between st)) = Inr reread
          \<and> StoreResult digest ref pin version (Aggregate rb cs reread) warnings i now (between st) = Inr (x, st'))"
proof (cases "ParseRubric (rp_body pin)")
  case (Inr rb)
  show ?thesis
  proof (cases "ListSpans ref (pipe_evidence st)")
    case spans: (Inr spans)
    show ?thesis
    proof (cases "ListSpans ref (pipe_evidence (between st))")
      case re: (Inr reread)
      let ?ag = "Aggregate rb cs spans"
      show ?thesis
      proof (cases "ValidatePublication rb cs reread ?ag = None")
        case True
        then have ag: "?ag = Aggregate rb cs reread"
          by (simp add: publication_gate_iff)
        then show ?thesis using assms True
          by (auto simp: aggregate_and_store_def Inr spans re Let_def split: sum.splits prod.splits)
      qed (use assms Inr spans re in \<open>auto simp: aggregate_and_store_def Let_def\<close>)
    qed (use assms Inr spans in \<open>auto simp: aggregate_and_store_def Let_def\<close>)
  qed (use assms Inr in \<open>auto simp: aggregate_and_store_def\<close>)
qed (use assms in \<open>auto simp: aggregate_and_store_def\<close>)

lemma AggregateActivity_cases:
  assumes "AggregateActivity digest ref ans version cs between i now st = (r, st')"
  shows "\<exists>st1. (st1 = st \<or> (\<exists>pin e. aggregate_and_store digest ref pin version cs between i now st = (e, st1)))
     \<and> pipe_results st' = pipe_results st1 \<and> pipe_outbox st' = pipe_outbox st1 \<and> pipe_evidence st' = pipe_evidence st1"
proof (cases ans)
  case (Pin pin)
  obtain e st1 where e: "aggregate_and_store digest ref pin version cs between i now st = (e, st1)" by fastforce
  have "pipe_results st' = pipe_results st1 \<and> pipe_outbox st' = pipe_outbox st1 \<and> pipe_evidence st' = pipe_evidence st1"
    using assms unfolding AggregateActivity_def Pin rubric_answer.case e prod.case
    by (cases e) (auto split: sum.splits)
  with e show ?thesis by blast
qed (use assms in \<open>auto simp: AggregateActivity_def intro!: exI [of _ st]\<close>)

section \<open>Everything that can happen to the pipeline\<close>

text \<open>
  The states reached by any sessions' activities in any order: whole runs, runs cut short by a dying
  worker after their first transaction, and failures published.  Between the two reads of an
  aggregation anything else may happen.
\<close>

inductive evolves :: "(competency_result list \<Rightarrow> string) \<Rightarrow> pipeline \<Rightarrow> pipeline \<Rightarrow> bool"
  for digest where
  same: "evolves digest st st"
| extracted: "evolves digest s st \<Longrightarrow> ExtractAndStore ref ans fresh now st = (r, st') \<Longrightarrow> evolves digest s st'"
| extraction_died: "evolves digest s st \<Longrightarrow>
     extract_validate_replace ref input spans pairs fresh now st = (r, st') \<Longrightarrow> evolves digest s st'"
| aggregated: "evolves digest s st \<Longrightarrow> evolves digest st mid \<Longrightarrow>
     AggregateActivity digest ref ans' version cs (\<lambda>_. mid) i now st = (r', st') \<Longrightarrow> evolves digest s st'"
| aggregation_died: "evolves digest s st \<Longrightarrow> evolves digest st mid \<Longrightarrow>
     aggregate_and_store digest ref pin version cs (\<lambda>_. mid) i now st = (r', st') \<Longrightarrow> evolves digest s st'"
| failed: "evolves digest s st \<Longrightarrow> evolves digest s (PublishFailed ref code i st)"

text \<open>
  Any relation between states that holds of an unchanged pipeline, composes, and is kept by the four
  changes the activities make, holds of every evolution.
\<close>

lemma evolves_relation:
  assumes "evolves digest s st"
    and refl: "\<And>st. R st st"
    and trans: "\<And>a b c. R a b \<Longrightarrow> R b c \<Longrightarrow> R a c"
    and view: "\<And>a b c. R a b \<Longrightarrow> pipe_results c = pipe_results b \<Longrightarrow> pipe_outbox c = pipe_outbox b
        \<Longrightarrow> pipe_evidence c = pipe_evidence b \<Longrightarrow> R a c"
    and replaced: "\<And>ref input spans pairs fresh now st r st'.
        extract_validate_replace ref input spans pairs fresh now st = (r, st') \<Longrightarrow> R st st'"
    and stored: "\<And>ref pin version rb cs reread warnings i now st x st'. ParseRubric (rp_body pin) = Inr rb \<Longrightarrow>
        ListSpans ref (pipe_evidence st) = Inr reread \<Longrightarrow>
        StoreResult digest ref pin version (Aggregate rb cs reread) warnings i now st = Inr (x, st') \<Longrightarrow> R st st'"
    and failure: "\<And>ref code i st. R st (PublishFailed ref code i st)"
  shows "R s st"
proof -
  have agg: "R st st'" if "R st mid" "aggregate_and_store digest ref pin version cs (\<lambda>_. mid) i now st = (e, st')"
    for st st' mid ref pin version cs i now e
    using aggregate_cases [OF that(2)] that(1) refl trans [OF that(1)] stored by blast
  show ?thesis
    using assms(1)
  proof induction
    case (extracted s st ref ans fresh now r st')
    from ExtractAndStore_cases [OF extracted.hyps(2)] obtain st1 where
      st1: "st1 = st \<or> (\<exists>input spans pairs e. extract_validate_replace ref input spans pairs fresh now st = (e, st1))"
      "pipe_results st' = pipe_results st1" "pipe_outbox st' = pipe_outbox st1" "pipe_evidence st' = pipe_evidence st1"
      by blast
    from st1(1) have "R st st1" using refl replaced by blast
    with trans [OF extracted.IH] view st1 show ?case by blast
  next
    case (aggregated s st mid ref ans' version cs i now r' st')
    from AggregateActivity_cases [OF aggregated.hyps(3)] obtain st1 where
      st1: "st1 = st \<or> (\<exists>pin e. aggregate_and_store digest ref pin version cs (\<lambda>_. mid) i now st = (e, st1))"
      "pipe_results st' = pipe_results st1" "pipe_outbox st' = pipe_outbox st1" "pipe_evidence st' = pipe_evidence st1"
      by blast
    from st1(1) have "R st st1" using refl agg aggregated.IH(2) by blast
    with trans [OF aggregated.IH(1)] view st1 show ?case by blast
  next
    case (extraction_died s st ref input spans pairs fresh now r st')
    then show ?case using trans replaced by blast
  next
    case (aggregation_died s st mid ref pin version cs i now r' st')
    then show ?case using trans agg by blast
  next
    case (failed s st ref code i)
    then show ?case using trans failure by blast
  qed (rule refl)
qed

section \<open>Properties\<close>

text \<open>C32: One result per session, one notification per result, and neither is ever changed. However the
  activities of any sessions are interleaved, retried, or cut short by a dying worker, the results
  stored before stand as they were, no session ever has two, and the completed events in the outbox are,
  in order, exactly one for each result, carrying its identifier, rubric and digest.\<close>

theorem result_exactly_once:
  assumes "evolves digest s st"
    and "distinct (map (\<lambda>r. ref_session (rw_ref r)) (pipe_results s))"
    and "completed_events s = map completed_of (pipe_results s)"
  shows "prefix (pipe_results s) (pipe_results st)
       \<and> distinct (map (\<lambda>r. ref_session (rw_ref r)) (pipe_results st))
       \<and> completed_events st = map completed_of (pipe_results st)"
proof -
  let ?good = "\<lambda>st. distinct (map (\<lambda>r. ref_session (rw_ref r)) (pipe_results st))
     \<and> completed_events st = map completed_of (pipe_results st)"
  have "prefix (pipe_results s) (pipe_results st) \<and> (?good s \<longrightarrow> ?good st)"
  proof (rule evolves_relation [OF assms(1), where R = "\<lambda>a b. prefix (pipe_results a) (pipe_results b) \<and> (?good a \<longrightarrow> ?good b)"])
    fix a b c :: pipeline
    assume "prefix (pipe_results a) (pipe_results b) \<and> (?good a \<longrightarrow> ?good b)"
      "pipe_results c = pipe_results b" "pipe_outbox c = pipe_outbox b"
    then show "prefix (pipe_results a) (pipe_results c) \<and> (?good a \<longrightarrow> ?good c)"
      by (simp add: completed_events_def)
  next
    fix ref input spans pairs fresh now and st st' :: pipeline and r
    assume "extract_validate_replace ref input spans pairs fresh now st = (r, st')"
    from extract_cases [OF this] show "prefix (pipe_results st) (pipe_results st') \<and> (?good st \<longrightarrow> ?good st')"
      by (auto simp: completed_events_def)
  next
    fix ref pin version rb cs reread warnings i now x and st st' :: pipeline
    assume "StoreResult digest ref pin version (Aggregate rb cs reread) warnings i now st = Inr (x, st')"
    from StoreResult_Inr [OF this] show "prefix (pipe_results st) (pipe_results st') \<and> (?good st \<longrightarrow> ?good st')"
      by (auto simp: result_of_def)
  next
    fix ref code i and st :: pipeline
    show "prefix (pipe_results st) (pipe_results (PublishFailed ref code i st)) \<and> (?good st \<longrightarrow> ?good (PublishFailed ref code i st))"
      by (simp add: PublishFailed_def completed_events_def)
  qed (auto intro: prefix_order.trans)
  with assms(2,3) show ?thesis by blast
qed

text \<open>A span row is honest when it is a span, at the width of its columns, that some sealed input carries.\<close>

definition honest_row :: "evidence_row \<Rightarrow> bool" where
  "honest_row r \<longleftrightarrow> (\<exists>input t s. cites input t s \<and> ss_span (er_stored r) = span32 s)"

definition honest_pair :: "contradiction_row \<Rightarrow> bool" where
  "honest_pair r \<longleftrightarrow> (\<exists>input t u p. states input t (ct_side_a p) \<and> states input u (ct_side_b p) \<and> kr_pair r = pair32 p)"

lemma replaced_honest:
  assumes "Validate input spans = None" and "ValidateContradictions input pairs = None"
    and "Replace ref v now (numbered fresh 0 spans) (numbered fresh k pairs) db = Inr db'"
  shows "\<forall>r \<in> set (ed_spans db'). r \<in> set (ed_spans db) \<or> honest_row r"
    and "\<forall>r \<in> set (ed_pairs db'). r \<in> set (ed_pairs db) \<or> honest_pair r"
proof -
  from assms(3) obtain sc where db': "db' = \<lparr>ed_spans = delete_spans sc (ref_session ref) v (ed_spans db)
        @ map (row_of ref now) (numbered fresh 0 spans),
      ed_pairs = delete_pairs sc (ref_session ref) v (ed_pairs db) @ map (pair_row_of ref) (numbered fresh k pairs)\<rparr>"
    unfolding Replace_Inr by blast
  have "honest_row (row_of ref now x)" if "x \<in> set (numbered fresh 0 spans)" for x
    using assms(1) numbered_set [OF that] unfolding Validate_None honest_row_def row_of_def by fastforce
  then show "\<forall>r \<in> set (ed_spans db'). r \<in> set (ed_spans db) \<or> honest_row r"
    by (auto simp: db' delete_spans_def)
  have "honest_pair (pair_row_of ref x)" if "x \<in> set (numbered fresh k pairs)" for x
    using assms(2) numbered_set [OF that] unfolding ValidateContradictions_None honest_pair_def pair_row_of_def
    by fastforce
  then show "\<forall>r \<in> set (ed_pairs db'). r \<in> set (ed_pairs db) \<or> honest_pair r"
    by (auto simp: db' delete_pairs_def)
qed

lemma extract_honest:
  assumes "extract_validate_replace ref input spans pairs fresh now st = (r, st')"
  shows "pipe_results st' = pipe_results st"
    and "\<forall>x \<in> set (ed_spans (pipe_evidence st')). x \<in> set (ed_spans (pipe_evidence st)) \<or> honest_row x"
    and "\<forall>x \<in> set (ed_pairs (pipe_evidence st')). x \<in> set (ed_pairs (pipe_evidence st)) \<or> honest_pair x"
proof -
  have "pipe_results st' = pipe_results st
    \<and> (\<forall>x \<in> set (ed_spans (pipe_evidence st')). x \<in> set (ed_spans (pipe_evidence st)) \<or> honest_row x)
    \<and> (\<forall>x \<in> set (ed_pairs (pipe_evidence st')). x \<in> set (ed_pairs (pipe_evidence st)) \<or> honest_pair x)"
    using extract_cases [OF assms]
  proof (elim disjE conjE exE)
    fix db v
    assume v: "Validate input spans = None" "ValidateContradictions input pairs = None"
      "Replace ref v now (numbered fresh 0 spans) (numbered fresh (length spans) pairs) (pipe_evidence st) = Inr db"
      and st': "st' = st\<lparr>pipe_evidence := db\<rparr>"
    from replaced_honest [OF v] st' show ?thesis by simp
  qed simp
  then show "pipe_results st' = pipe_results st"
    and "\<forall>x \<in> set (ed_spans (pipe_evidence st')). x \<in> set (ed_spans (pipe_evidence st)) \<or> honest_row x"
    and "\<forall>x \<in> set (ed_pairs (pipe_evidence st')). x \<in> set (ed_pairs (pipe_evidence st)) \<or> honest_pair x"
    by blast+
qed

text \<open>Fabricated evidence never lands. Starting from honest evidence, whatever the extractors answer and
  however the activities run, every span and every contradiction ever stored is one some sealed input
  carries, word for word at its own place.\<close>

theorem no_fabricated_evidence:
  assumes "evolves digest s st"
    and "\<forall>r \<in> set (ed_spans (pipe_evidence s)). honest_row r"
    and "\<forall>r \<in> set (ed_pairs (pipe_evidence s)). honest_pair r"
  shows "(\<forall>r \<in> set (ed_spans (pipe_evidence st)). honest_row r)
       \<and> (\<forall>r \<in> set (ed_pairs (pipe_evidence st)). honest_pair r)"
proof -
  let ?R = "\<lambda>a b. (\<forall>r \<in> set (ed_spans (pipe_evidence b)). r \<in> set (ed_spans (pipe_evidence a)) \<or> honest_row r)
     \<and> (\<forall>r \<in> set (ed_pairs (pipe_evidence b)). r \<in> set (ed_pairs (pipe_evidence a)) \<or> honest_pair r)"
  have "?R s st"
  proof (rule evolves_relation [OF assms(1), where R = ?R])
    fix ref input spans pairs fresh now and st st' :: pipeline and r
    assume "extract_validate_replace ref input spans pairs fresh now st = (r, st')"
    from extract_honest [OF this] show "?R st st'" by blast
  next
    fix ref pin version rb cs reread warnings i now x and st st' :: pipeline
    assume "StoreResult digest ref pin version (Aggregate rb cs reread) warnings i now st = Inr (x, st')"
    from StoreResult_Inr [OF this] show "?R st st'" by auto
  qed (auto simp: PublishFailed_def)
  with assms(2,3) show ?thesis by blast
qed

text \<open>What supports a stored result: the rubric its pin named, the competencies asked, and stored spans.\<close>

definition supported :: "(competency_result list \<Rightarrow> string) \<Rightarrow> result_row \<Rightarrow> bool" where
  "supported digest r \<longleftrightarrow> (\<exists>(pin :: rubric_pin) rb cs spans. ParseRubric (rp_body pin) = Inr rb
     \<and> rt_rubric_reference (rw_result r) = rp_reference pin \<and> rt_rubric_version (rw_result r) = rp_version pin
     \<and> rt_competencies (rw_result r) = ag_competencies (Aggregate rb cs spans)
     \<and> rt_digest (rw_result r) = digest (rt_competencies (rw_result r))
     \<and> (\<forall>x \<in> set spans. \<exists>input t s. cites input t s \<and> ss_span x = span32 s))"

lemma ListSpans_rows: "ListSpans ref db = Inr spans \<Longrightarrow> x \<in> set spans \<Longrightarrow> \<exists>r \<in> set (ed_spans db). x = er_stored r"
  by (auto simp: ListSpans_def split: option.splits)

text \<open>Every stored result is supported. Starting from honest evidence, a result that any run stores is
  the aggregation, by a coherent rubric of the reference and version it names, of spans that were in the
  store and that sealed inputs carry word for word, with the digest of exactly those competencies; even
  where other transactions change the store while it is being aggregated.\<close>

theorem results_are_supported:
  assumes "evolves digest s st"
    and "\<forall>r \<in> set (ed_spans (pipe_evidence s)). honest_row r"
    and "\<forall>r \<in> set (ed_pairs (pipe_evidence s)). honest_pair r"
    and "r \<in> set (pipe_results st)" and "r \<notin> set (pipe_results s)"
  shows "supported digest r"
proof -
  let ?honest = "\<lambda>a. \<forall>r \<in> set (ed_spans (pipe_evidence a)). honest_row r"
  let ?R = "\<lambda>a b. ?honest a \<longrightarrow> ?honest b \<and> (\<forall>r \<in> set (pipe_results b). r \<in> set (pipe_results a) \<or> supported digest r)"
  have "?R s st"
  proof (rule evolves_relation [OF assms(1), where R = ?R])
    fix ref input spans pairs fresh now and st st' :: pipeline and r
    assume "extract_validate_replace ref input spans pairs fresh now st = (r, st')"
    from extract_honest [OF this] show "?R st st'" by auto
  next
    fix ref and pin :: rubric_pin and version rb cs reread warnings i now x and st st' :: pipeline
    assume rb: "ParseRubric (rp_body pin) = Inr rb" and reread: "ListSpans ref (pipe_evidence st) = Inr reread"
      and "StoreResult digest ref pin version (Aggregate rb cs reread) warnings i now st = Inr (x, st')"
    from StoreResult_Inr [OF this(3)]
    show "?R st st'"
    proof (elim disjE conjE exE)
      fix row
      assume row: "result_of digest ref pin (Aggregate rb cs reread) row" "pipe_results st' = pipe_results st @ [row]"
        "pipe_evidence st' = pipe_evidence st"
      have "supported digest row" if honest: "?honest st"
        unfolding supported_def
      proof (intro exI [of _ pin] exI [of _ rb] exI [of _ cs] exI [of _ reread] conjI ballI)
        fix x
        assume "x \<in> set reread"
        with ListSpans_rows [OF reread] honest show "\<exists>input t s. cites input t s \<and> ss_span x = span32 s"
          unfolding honest_row_def by metis
      qed (use row(1) rb in \<open>simp_all add: result_of_def\<close>)
      with row(2,3) show "?R st st'" by auto
    qed simp
  qed (auto simp: PublishFailed_def)
  with assms(2,4,5) show ?thesis by blast
qed

section \<open>One run\<close>

definition empty_pipeline :: pipeline where
  "empty_pipeline = \<lparr>pipe_evidence = \<lparr>ed_spans = [], ed_pairs = []\<rparr>, pipe_results = [], pipe_outbox = [], pipe_stages = []\<rparr>"

definition ex_pin :: rubric_pin where
  "ex_pin = \<lparr>rp_reference = ''rubric/core'', rp_version = ''1'', rp_digest = ''d'', rp_body = Some ex_rubric\<rparr>"

lemma ex_extracted:
  "\<exists>st. extract_validate_replace ex_ref ex_input [ex_span] [] (\<lambda>_. ''e1'') 5 empty_pipeline = (Value ''evidence-1'', st)
     \<and> ed_spans (pipe_evidence st) = [\<lparr>er_ref = ex_ref, er_stored = \<lparr>ss_id = ''e1'', ss_span = ex_span, ss_created_at = 5\<rparr>\<rparr>]
     \<and> pipe_results st = []"
proof -
  have ok: "Validate ex_input [ex_span] = None" "ValidateContradictions ex_input [] = None"
    unfolding Validate_None ValidateContradictions_None using ex_cites
    by (simp_all add: turn_map_def ex_input_def ex_span_def)
  have s: "span32 ex_span = ex_span" "ref_ok ex_ref" "span_ok ex_span" "sp_version ex_span = ''evidence-1''"
    by (simp_all add: span32_def ex_span_def to_int32_def ref_ok_def ex_ref_def span_ok_def)
  have "Replace ex_ref ''evidence-1'' 5 [(''e1'', ex_span)] [] \<lparr>ed_spans = [], ed_pairs = []\<rparr> =
      Inr \<lparr>ed_spans = [row_of ex_ref 5 (''e1'', ex_span)], ed_pairs = []\<rparr>"
    unfolding Replace_Inr by (simp add: ex_scope s delete_spans_def delete_pairs_def)
  then show ?thesis
    by (simp add: extract_validate_replace_def ok extraction_version_def numbered_def empty_pipeline_def
        row_of_def s Let_def)
qed

lemma ex_run:
  "\<exists>st r. evolves digest empty_pipeline st \<and> pipe_results st = [r]"
proof -
  obtain st where st: "extract_validate_replace ex_ref ex_input [ex_span] [] (\<lambda>_. ''e1'') 5 empty_pipeline
      = (Value ''evidence-1'', st)" "pipe_results st = []"
    using ex_extracted by blast
  have e: "evolves digest empty_pipeline st" by (rule evolves.extraction_died [OF evolves.same st(1)])
  obtain spans where spans: "ListSpans ex_ref (pipe_evidence st) = Inr spans" by (simp add: ListSpans_def ex_scope)
  let ?ag = "Aggregate ex_rubric (si_competencies ex_input) spans"
  let ?w = "if ag_covered ?ag = 0 \<and> ag_total ?ag > 0 then [''NO_COMPETENCY_EVIDENCED''] else []"
  have total: "ag_total ?ag = 1" by (simp add: Aggregate_def Let_def ex_input_def)
  moreover have "ag_covered ?ag \<le> ag_total ?ag" by (rule publication_bounds)
  ultimately have b: "to_int32 (int (ag_covered ?ag)) = int (ag_covered ?ag)" "to_int32 (int (ag_total ?ag)) = 1"
    "ag_covered ?ag \<le> 1" by (simp_all add: to_int32_id)
  have ok: "ref_ok ex_ref" "visible (AsUser ''u'') ex_ref"
    by (simp_all add: ref_ok_def ex_ref_def visible_def)
  obtain x st' where s: "StoreResult digest ex_ref ex_pin ''evidence-1'' ?ag ?w ''r1'' 9 st = Inr (x, st')"
    and r: "\<exists>r. pipe_results st' = [r]"
    using b ok by (auto simp: StoreResult_def ex_scope st(2) Let_def ResultOf_def)
  have "aggregate_and_store digest ex_ref ex_pin ''evidence-1'' (si_competencies ex_input) (\<lambda>_. st) ''r1'' 9 st = (Value (), st')"
    using s by (simp add: aggregate_and_store_def ex_pin_def ex_parse spans publication_gate_iff Let_def)
  from evolves.aggregation_died [OF e evolves.same this] r show ?thesis by blast
qed

theorem result_exactly_once_witness:
  "\<exists>st r. evolves (\<lambda>_. ''sha'') empty_pipeline st \<and> pipe_results st = [r] \<and> completed_events st = [completed_of r]"
proof -
  obtain st r where st: "evolves (\<lambda>_. ''sha'') empty_pipeline st" "pipe_results st = [r]"
    using ex_run [of "\<lambda>_. ''sha''"] by blast
  with result_exactly_once [OF st(1)] show ?thesis by (auto simp: empty_pipeline_def completed_events_def)
qed

theorem no_fabricated_evidence_witness:
  "\<exists>st. evolves (\<lambda>_. ''sha'') empty_pipeline st \<and> length (ed_spans (pipe_evidence st)) = 1
     \<and> (\<forall>r \<in> set (ed_spans (pipe_evidence st)). honest_row r)"
proof -
  obtain st where st: "extract_validate_replace ex_ref ex_input [ex_span] [] (\<lambda>_. ''e1'') 5 empty_pipeline
      = (Value ''evidence-1'', st)" "length (ed_spans (pipe_evidence st)) = 1"
    using ex_extracted by fastforce
  have e: "evolves (\<lambda>_. ''sha'') empty_pipeline st" by (rule evolves.extraction_died [OF evolves.same st(1)])
  from no_fabricated_evidence [OF e] e st(2) show ?thesis by (auto simp: empty_pipeline_def)
qed

theorem results_are_supported_witness:
  "\<exists>st r. evolves (\<lambda>_. ''sha'') empty_pipeline st \<and> pipe_results st = [r] \<and> supported (\<lambda>_. ''sha'') r"
proof -
  obtain st r where st: "evolves (\<lambda>_. ''sha'') empty_pipeline st" "pipe_results st = [r]"
    using ex_run [of "\<lambda>_. ''sha''"] by blast
  with results_are_supported [OF st(1), of r] show ?thesis by (auto simp: empty_pipeline_def)
qed

end
