(* ===== verification/Coaching.thy ===== *)
theory Coaching
  imports Evidence
begin

text \<open>
  \<open>services/platform/internal/evaluation/coaching.go\<close>: the coaching derived from stored evidence
  (\<open>Coach\<close>) and the gate that holds any coaching to the candidate's own words (\<open>ValidateCoaching\<close>).
\<close>

section \<open>Reviews\<close>

record coaching_point =
  pt_statement :: string
  pt_quote :: string

record rewrite_part =
  rp_kind :: string
  rp_text :: string

record answer_coaching =
  ac_sequence :: int
  ac_strengths :: "coaching_point list"
  ac_gaps :: "coaching_point list"
  ac_rewrite :: "rewrite_part list"

record review =
  rv_session :: string
  rv_version :: string
  rv_answers :: "answer_coaching list"

definition askOutcome :: string where
  "askOutcome = ''[What changed as a result? Add the number, the time saved, or what the outcome was.]''"

definition askGrounding :: string where
  "askGrounding = ''[Which project or moment shows this? Name it, and what happened.]''"

section \<open>Deriving\<close>

text \<open>One span's contribution to its answer.\<close>

definition coach_span :: "span \<Rightarrow> answer_coaching \<times> bool \<Rightarrow> answer_coaching \<times> bool" where
  "coach_span s acc =
     (case acc of (a, grounding) \<Rightarrow>
        if sp_kind s = ''supporting''
        then (a\<lparr>ac_strengths := ac_strengths a @ [\<lparr>pt_statement =
                ''You backed this with a concrete, measured outcome. Keep leading with it.'',
                pt_quote = sp_quote s\<rparr>]\<rparr>, grounding)
        else if sp_kind s = ''claim_unverified''
        then (a\<lparr>ac_gaps := ac_gaps a @ [\<lparr>pt_statement =
                ''This is a claim about yourself with nothing a listener could check. Ground it in one specific moment.'',
                pt_quote = sp_quote s\<rparr>],
              ac_rewrite := ac_rewrite a @ [\<lparr>rp_kind = ''quote'', rp_text = sp_quote s\<rparr>]\<rparr>, True)
        else if sp_kind s = ''gap''
        then (a\<lparr>ac_gaps := ac_gaps a @ [\<lparr>pt_statement =
                ''You named the limit of your experience honestly. Decide in advance what your nearest relevant example is.'',
                pt_quote = sp_quote s\<rparr>]\<rparr>, grounding)
        else if sp_kind s = ''contradictory''
        then (a\<lparr>ac_gaps := ac_gaps a @ [\<lparr>pt_statement =
                ''This conflicts with something you said elsewhere. Settle which version is precise before the next interview.'',
                pt_quote = sp_quote s\<rparr>]\<rparr>, grounding)
        else (a, grounding))"

definition coach_answer :: "int \<Rightarrow> span list \<Rightarrow> answer_coaching" where
  "coach_answer sequence spans =
     (case fold coach_span spans
        (\<lparr>ac_sequence = sequence, ac_strengths = [], ac_gaps = [], ac_rewrite = []\<rparr>, False) of
        (a, grounding) \<Rightarrow>
          let hasSupport = ac_strengths a \<noteq> [];
              outcome = (grounding \<and> \<not> hasSupport);
              a = (if grounding
                   then a\<lparr>ac_rewrite := ac_rewrite a @ [\<lparr>rp_kind = ''placeholder'', rp_text = askGrounding\<rparr>]\<rparr>
                   else a) in
          (if outcome
           then a\<lparr>ac_rewrite := ac_rewrite a @ [\<lparr>rp_kind = ''placeholder'', rp_text = askOutcome\<rparr>]\<rparr>
           else a))"

definition Coach :: "sealed_input \<Rightarrow> stored_span list \<Rightarrow> review" where
  "Coach input stored =
     (let spans = map ss_span stored;
          turns = turn_map (si_turns input);
          sequences = sort (remdups (map sp_segment spans));
          spoken = filter (\<lambda>q. case turns q of None \<Rightarrow> False | Some t \<Rightarrow> tn_speaker t = ''candidate'') sequences in
      \<lparr>rv_session = si_session input, rv_version = ''coaching-1'',
       rv_answers = map (\<lambda>q. coach_answer q (filter (\<lambda>s. sp_segment s = q) spans)) spoken\<rparr>)"

section \<open>The gate\<close>

datatype unpreserving =
    NotTheCandidates int
  | WordsNotInTurn int
  | RewriteInvents int
  | NotAQuestion int
  | UnknownPart int string

definition bracketed_question :: "string \<Rightarrow> bool" where
  "bracketed_question s \<longleftrightarrow> prefix ''['' s \<and> suffix '']'' s \<and> Contains s ''?''
     \<and> (\<forall>c \<in> set s. c \<notin> set ''0123456789'')"

fun check_points :: "turn \<Rightarrow> int \<Rightarrow> coaching_point list \<Rightarrow> unpreserving option" where
  "check_points t q [] = None"
| "check_points t q (p # ps) =
     (if pt_quote p = '''' \<or> \<not> Contains (tn_text t) (pt_quote p) then Some (WordsNotInTurn q)
      else check_points t q ps)"

fun check_parts :: "turn \<Rightarrow> int \<Rightarrow> rewrite_part list \<Rightarrow> unpreserving option" where
  "check_parts t q [] = None"
| "check_parts t q (p # ps) =
     (if rp_kind p = ''quote''
      then (if \<not> Contains (tn_text t) (rp_text p) then Some (RewriteInvents q) else check_parts t q ps)
      else if rp_kind p = ''placeholder''
      then (if \<not> bracketed_question (rp_text p) then Some (NotAQuestion q) else check_parts t q ps)
      else Some (UnknownPart q (rp_kind p)))"

definition check_answer :: "(int \<rightharpoonup> turn) \<Rightarrow> answer_coaching \<Rightarrow> unpreserving option" where
  "check_answer turns a =
     (case turns (ac_sequence a) of
        None \<Rightarrow> Some (NotTheCandidates (ac_sequence a))
      | Some t \<Rightarrow>
          (if tn_speaker t \<noteq> ''candidate'' then Some (NotTheCandidates (ac_sequence a))
           else case check_points t (ac_sequence a) (ac_strengths a @ ac_gaps a) of
             Some e \<Rightarrow> Some e
           | None \<Rightarrow> check_parts t (ac_sequence a) (ac_rewrite a)))"

definition ValidateCoaching :: "sealed_input \<Rightarrow> review \<Rightarrow> unpreserving option" where
  "ValidateCoaching input r = first_error (check_answer (turn_map (si_turns input))) (rv_answers r)"

section \<open>Lemmas\<close>

lemma check_points_None:
  "check_points t q ps = None \<longleftrightarrow> (\<forall>p \<in> set ps. pt_quote p \<noteq> '''' \<and> Contains (tn_text t) (pt_quote p))"
  by (induction ps) auto

definition part_ok :: "turn \<Rightarrow> rewrite_part \<Rightarrow> bool" where
  "part_ok t p \<longleftrightarrow> rp_kind p = ''quote'' \<and> Contains (tn_text t) (rp_text p)
     \<or> rp_kind p = ''placeholder'' \<and> bracketed_question (rp_text p)"

lemma check_parts_None: "check_parts t q ps = None \<longleftrightarrow> (\<forall>p \<in> set ps. part_ok t p)"
  by (induction ps) (auto simp: part_ok_def)

lemma check_answer_None:
  "check_answer turns a = None \<longleftrightarrow>
     (\<exists>t. turns (ac_sequence a) = Some t \<and> tn_speaker t = ''candidate''
        \<and> (\<forall>p \<in> set (ac_strengths a @ ac_gaps a). pt_quote p \<noteq> '''' \<and> Contains (tn_text t) (pt_quote p))
        \<and> (\<forall>p \<in> set (ac_rewrite a). part_ok t p))"
  unfolding check_points_None [symmetric, where q = "ac_sequence a"]
    check_parts_None [symmetric, where q = "ac_sequence a"]
  by (auto simp: check_answer_def split: option.splits if_splits)

lemma asks_are_questions: "bracketed_question askGrounding" "bracketed_question askOutcome"
  by code_simp+

lemma slice_sublist: "sublist (slice s a b) s"
  by (simp add: slice_def sublist_drop sublist_order.order.trans [OF sublist_take])

lemma cites_quote:
  assumes "cites input t s"
  shows "sp_quote s \<noteq> ''''" and "Contains (tn_text t) (sp_quote s)"
  using assms slice_sublist by (auto simp: cites_def Contains_def slice_def)

text \<open>What the spans of one answer keep true while they are folded in.\<close>

definition traced :: "turn \<Rightarrow> answer_coaching \<Rightarrow> bool" where
  "traced t a \<longleftrightarrow> (\<forall>p \<in> set (ac_strengths a @ ac_gaps a). pt_quote p \<noteq> '''' \<and> Contains (tn_text t) (pt_quote p))
     \<and> (\<forall>p \<in> set (ac_rewrite a). part_ok t p)"

lemma coach_span_traced:
  "traced t (fst acc) \<Longrightarrow> sp_quote s \<noteq> '''' \<Longrightarrow> Contains (tn_text t) (sp_quote s) \<Longrightarrow> traced t (fst (coach_span s acc))"
  by (auto simp: coach_span_def traced_def part_ok_def split: prod.splits)

lemma coach_span_sequence: "ac_sequence (fst (coach_span s acc)) = ac_sequence (fst acc)"
  by (simp add: coach_span_def split: prod.splits)

lemma coach_fold:
  assumes "\<And>s. s \<in> set spans \<Longrightarrow> sp_quote s \<noteq> '''' \<and> Contains (tn_text t) (sp_quote s)"
    and "traced t (fst acc)"
  shows "traced t (fst (fold coach_span spans acc)) \<and> ac_sequence (fst (fold coach_span spans acc)) = ac_sequence (fst acc)"
  using assms
proof (induction spans arbitrary: acc)
  case (Cons s spans)
  from Cons.prems(1) [of s] Cons.prems(2) have "traced t (fst (coach_span s acc))"
    by (simp add: coach_span_traced)
  with Cons.IH [of "coach_span s acc"] Cons.prems(1) show ?case by (simp add: coach_span_sequence)
qed simp

lemma coach_answer_traced:
  assumes "\<And>s. s \<in> set spans \<Longrightarrow> sp_quote s \<noteq> '''' \<and> Contains (tn_text t) (sp_quote s)"
  shows "traced t (coach_answer q spans) \<and> ac_sequence (coach_answer q spans) = q"
proof -
  let ?start = "\<lparr>ac_sequence = q, ac_strengths = [], ac_gaps = [], ac_rewrite = []\<rparr>"
  obtain a g where f: "fold coach_span spans (?start, False) = (a, g)" by fastforce
  have "traced t (fst (?start, False))" by (simp add: traced_def)
  with coach_fold [of spans t "(?start, False)"] assms f have "traced t a" "ac_sequence a = q" by simp_all
  then show ?thesis
    by (auto simp: coach_answer_def f Let_def traced_def part_ok_def asks_are_questions)
qed

section \<open>Properties\<close>

text \<open>Coaching cannot invent. For evidence that passed the honesty gate, the coaching derived from it
  passes the coaching gate: every statement quotes words of its own turn, every rewrite is made of such
  words and bracketed questions without digits. And any review the gate accepts has that property, whoever
  wrote it.\<close>

theorem coaching_preserves_words:
  "(Validate input (map ss_span stored) = None \<longrightarrow> ValidateCoaching input (Coach input stored) = None)
   \<and> (ValidateCoaching input review = None \<longrightarrow>
        (\<forall>a \<in> set (rv_answers review). \<exists>t \<in> set (si_turns input). tn_sequence t = ac_sequence a
           \<and> tn_speaker t = ''candidate''
           \<and> (\<forall>p \<in> set (ac_strengths a) \<union> set (ac_gaps a). pt_quote p \<noteq> '''' \<and> Contains (tn_text t) (pt_quote p))
           \<and> (\<forall>p \<in> set (ac_rewrite a). rp_kind p = ''quote'' \<and> Contains (tn_text t) (rp_text p)
                \<or> rp_kind p = ''placeholder'' \<and> bracketed_question (rp_text p))))"
proof
  show "Validate input (map ss_span stored) = None \<longrightarrow> ValidateCoaching input (Coach input stored) = None"
  proof
    assume "Validate input (map ss_span stored) = None"
    then have cited: "\<exists>t. turn_map (si_turns input) (sp_segment s) = Some t \<and> cites input t s"
      if "s \<in> ss_span ` set stored" for s
      using that unfolding Validate_None by auto
    have "check_answer (turn_map (si_turns input)) (coach_answer q (filter (\<lambda>s. sp_segment s = q) (map ss_span stored))) = None"
      if "turn_map (si_turns input) q = Some t" "tn_speaker t = ''candidate''" for q t
    proof -
      have "sp_quote s \<noteq> '''' \<and> Contains (tn_text t) (sp_quote s)"
        if "s \<in> set (filter (\<lambda>s. sp_segment s = q) (map ss_span stored))" for s
        using that cited [of s] \<open>turn_map (si_turns input) q = Some t\<close> cites_quote by auto
      from coach_answer_traced [OF this] that show ?thesis
        unfolding check_answer_None traced_def by metis
    qed
    then show "ValidateCoaching input (Coach input stored) = None"
      by (auto simp: ValidateCoaching_def first_error_None Coach_def Let_def split: option.splits)
  qed
  show "ValidateCoaching input review = None \<longrightarrow>
        (\<forall>a \<in> set (rv_answers review). \<exists>t \<in> set (si_turns input). tn_sequence t = ac_sequence a
           \<and> tn_speaker t = ''candidate''
           \<and> (\<forall>p \<in> set (ac_strengths a) \<union> set (ac_gaps a). pt_quote p \<noteq> '''' \<and> Contains (tn_text t) (pt_quote p))
           \<and> (\<forall>p \<in> set (ac_rewrite a). rp_kind p = ''quote'' \<and> Contains (tn_text t) (rp_text p)
                \<or> rp_kind p = ''placeholder'' \<and> bracketed_question (rp_text p)))"
    unfolding ValidateCoaching_def first_error_None check_answer_None part_ok_def
    using turn_map_Some by fastforce
qed

theorem coaching_preserves_words_witness:
  "ValidateCoaching ex_input (Coach ex_input [\<lparr>ss_id = ''e'', ss_span = ex_span, ss_created_at = 1\<rparr>]) = None"
proof -
  have "Validate ex_input (map ss_span [\<lparr>ss_id = ''e'', ss_span = ex_span, ss_created_at = 1\<rparr>]) = None"
    unfolding Validate_None using ex_cites by (simp add: turn_map_def ex_input_def ex_span_def)
  with coaching_preserves_words [of ex_input] show ?thesis by blast
qed

end
