(* ===== verification/Delivery.thy ===== *)
theory Delivery
  imports Stage_Policy Float64
begin

text \<open>
  \<open>services/platform/internal/evaluation/articulation.go\<close>, \<open>baseline.go\<close> and
  \<open>insight_feedback.go\<close>: the delivery analysis of a practice session, stored once and run inside its
  budget (\<open>AnalyzeAndStore\<close>, \<open>StoreArticulation\<close>, \<open>ArticulationWorkflow\<close>), the personal ranges drawn
  from a history of analyses (\<open>DeriveBaseline\<close>, \<open>quantile\<close>) and the verdicts a candidate gives about
  generated insights (\<open>RecordInsightFeedback\<close>).  What the analyzer and the pinned policy answer, the
  identifier drawn and the time of an attempt are arguments; the decoder of an analysis document is
  a parameter of \<open>DeriveBaseline\<close>.
\<close>

section \<open>Storing one analysis\<close>

record analysis =
  an_status :: string
  an_warnings :: "string list"
  an_document :: string
  an_calculation :: string
  an_policy :: string
  an_digest :: string
  an_cost :: int

record articulation =
  ar_id :: string
  ar_session :: string
  ar_status :: string
  ar_warnings :: "string list"
  ar_document :: string
  ar_calculation :: string
  ar_policy :: string
  ar_digest :: string
  ar_created_at :: time

record articulation_row =
  aw_ref :: session_ref
  aw_stored :: articulation

record delivery_db =
  dl_rows :: "articulation_row list"
  dl_stages :: "stage_row list"

datatype articulation_error = NoArticulation | ArticulationScope | ArticulationRow

text \<open>The table admits practice rows only, and has no policy that shows it to a tenant.\<close>

definition articulation_visible :: "row_scope \<Rightarrow> session_ref \<Rightarrow> bool" where
  "articulation_visible sc r \<longleftrightarrow> (case sc of AsUser _ \<Rightarrow> visible sc r | AsTenant _ \<Rightarrow> False)"

definition ArticulationOf ::
  "session_ref \<Rightarrow> articulation_row list \<Rightarrow> articulation_error + articulation" where
  "ArticulationOf ref rows =
     (case scope_of ref of
        None \<Rightarrow> Inl ArticulationScope
      | Some sc \<Rightarrow>
          (case filter (\<lambda>r. articulation_visible sc (aw_ref r) \<and> ref_session (aw_ref r) = ref_session ref) rows of
             [] \<Rightarrow> Inl NoArticulation
           | r # _ \<Rightarrow> Inr (aw_stored r)))"

definition StoreArticulation ::
  "session_ref \<Rightarrow> analysis \<Rightarrow> string \<Rightarrow> time \<Rightarrow> articulation_row list
     \<Rightarrow> articulation_error + articulation \<times> articulation_row list" where
  "StoreArticulation ref an new_id now rows =
     (case scope_of ref of
        None \<Rightarrow> Inl ArticulationScope
      | Some sc \<Rightarrow>
          (if \<not> (ref_mode ref = ''practice'' \<and> ref_ok ref \<and> articulation_visible sc ref
                \<and> an_status an \<in> {''assessable'', ''partially_assessable'', ''not_assessable''})
           then Inl ArticulationRow
           else if ref_session ref \<in> (\<lambda>r. ref_session (aw_ref r)) ` set rows
           then bindE (ArticulationOf ref rows) (\<lambda>a. Inr (a, rows))
           else
             let rows' = rows @ [\<lparr>aw_ref = ref, aw_stored = \<lparr>ar_id = new_id, ar_session = ref_session ref,
                   ar_status = an_status an, ar_warnings = an_warnings an,
                   ar_document = (if an_document an = '''' then ''{}'' else an_document an),
                   ar_calculation = an_calculation an, ar_policy = an_policy an,
                   ar_digest = an_digest an, ar_created_at = now\<rparr>\<rparr>] in
             bindE (ArticulationOf ref rows') (\<lambda>a. Inr (a, rows'))))"

section \<open>One attempt of the workflow's activity\<close>

datatype analyzer_answer = Failure string bool | Unanswered | Answer analysis

text \<open>No policy wired, the pin unreadable, or the pinned body as decoded.\<close>

datatype policy_source = Unbudgeted | PinUnreadable | Pinned "policy option"

datatype attempt =
    Refused string
  | PolicyFailed bool
  | Omitted
  | AnalyzerFailed string bool
  | AttemptError
  | Stored string

definition affords_delivery :: "session_ref \<Rightarrow> policy_source \<Rightarrow> stage_row list \<Rightarrow> attempt + bool" where
  "affords_delivery ref src stages =
     (case src of
        Unbudgeted \<Rightarrow> Inr True
      | PinUnreadable \<Rightarrow> Inl AttemptError
      | Pinned body \<Rightarrow>
          (case ParsePolicy body of
             Inl _ \<Rightarrow> Inl (PolicyFailed False)
           | Inr p \<Rightarrow>
               (case StageOutcomes ref stages of
                  Inl _ \<Rightarrow> Inl AttemptError
                | Inr outs \<Rightarrow>
                    (case Affords p outs StageArticulation of Inl _ \<Rightarrow> Inl (PolicyFailed True) | Inr b \<Rightarrow> Inr b))))"

definition stage_note :: "string \<Rightarrow> string \<Rightarrow> bool \<Rightarrow> int \<Rightarrow> stage_outcome" where
  "stage_note status reason retryable cost =
     \<lparr>so_stage = StageArticulation, so_status = status, so_reason = reason, so_retryable = retryable,
      so_required = False, so_cost = cost, so_created_at = 0\<rparr>"

definition AnalyzeAndStore ::
  "session_ref \<Rightarrow> policy_source \<Rightarrow> analyzer_answer \<Rightarrow> string \<Rightarrow> time \<Rightarrow> delivery_db \<Rightarrow> attempt \<times> delivery_db"
where
  "AnalyzeAndStore ref src answer new_id now db =
     (if ref_mode ref \<noteq> ''practice'' then (Refused (ref_mode ref), db)
      else case affords_delivery ref src (dl_stages db) of
        Inl e \<Rightarrow> (e, db)
      | Inr False \<Rightarrow>
          (case RecordStage ref (stage_note ''omitted'' ReasonBudgetExhausted False 0) now (dl_stages db) of
             Inl _ \<Rightarrow> (AttemptError, db)
           | Inr st \<Rightarrow> (Omitted, db\<lparr>dl_stages := st\<rparr>))
      | Inr True \<Rightarrow>
          (case answer of
             Unanswered \<Rightarrow> (AttemptError, db)
           | Failure code retryable \<Rightarrow>
               (AnalyzerFailed code retryable,
                case RecordStage ref (stage_note ''failed'' code retryable 0) now (dl_stages db) of
                  Inl _ \<Rightarrow> db
                | Inr st \<Rightarrow> db\<lparr>dl_stages := st\<rparr>)
           | Answer an \<Rightarrow>
               (case StoreArticulation ref an new_id now (dl_rows db) of
                  Inl _ \<Rightarrow> (AttemptError, db)
                | Inr (a, rows) \<Rightarrow>
                    (case RecordStage ref (stage_note ''completed'' '''' False (an_cost an)) now (dl_stages db) of
                       Inl _ \<Rightarrow> (AttemptError, db\<lparr>dl_rows := rows\<rparr>)
                     | Inr st \<Rightarrow> (Stored (ar_status a), db\<lparr>dl_rows := rows, dl_stages := st\<rparr>)))))"

text \<open>
  The workflow runs the activity under a retry policy of five attempts: a failure is tried again
  unless it is an application error marked non-retryable.  Each attempt has its own answer,
  identifier and time.
\<close>

definition tried_again :: "attempt \<Rightarrow> bool" where
  "tried_again r = (case r of
     Refused _ \<Rightarrow> True | PolicyFailed b \<Rightarrow> b | AnalyzerFailed _ b \<Rightarrow> b | AttemptError \<Rightarrow> True
   | Omitted \<Rightarrow> False | Stored _ \<Rightarrow> False)"

definition MaximumAttempts :: nat where "MaximumAttempts = 5"

definition ArticulationWorkflow ::
  "session_ref \<Rightarrow> policy_source \<Rightarrow> (analyzer_answer \<times> string \<times> time) list \<Rightarrow> delivery_db
     \<Rightarrow> attempt list \<times> delivery_db" where
  "ArticulationWorkflow ref src env db =
     retry (\<lambda>(ans, i, now). AnalyzeAndStore ref src ans i now) tried_again MaximumAttempts env db"

section \<open>Personal ranges\<close>

definition MinBaselineSessions :: nat where "MinBaselineSessions = 5"

record range =
  rg_low :: rat
  rg_high :: rat

record baseline =
  bl_measured :: nat
  bl_ready :: bool
  bl_ranges :: "string \<rightharpoonup> range"

definition ArticulationHistory :: "session_ref \<Rightarrow> articulation_row list \<Rightarrow> articulation_error + articulation list" where
  "ArticulationHistory ref rows =
     (case scope_of ref of
        None \<Rightarrow> Inl ArticulationScope
      | Some sc \<Rightarrow>
          Inr (sort_key ar_created_at (map aw_stored
            (filter (\<lambda>r. articulation_visible sc (aw_ref r) \<and> ref_mode (aw_ref r) = ref_mode ref) rows))))"

definition baselineMetrics :: "string list" where
  "baselineMetrics = [''words_per_minute'', ''fillers_per_100_words'', ''long_pause_count'']"

text \<open>
  The metrics of a document, \<open>None\<close> where it does not decode or names none.  The products the rank is
  computed from are exact in float64: the fraction is a power of two's quarter and the length small.
\<close>

definition quantile :: "rat list \<Rightarrow> rat \<Rightarrow> rat" where
  "quantile xs q =
     (if xs = [] then 0
      else
        let rank = \<lfloor>q * of_nat (length xs) + 1 / 2\<rfloor>;
            rank = (if rank < 1 then 1 else rank);
            rank = (if rank > int (length xs) then int (length xs) else rank) in
        xs ! nat (rank - 1))"

definition measured :: "(string \<Rightarrow> (string \<rightharpoonup> rat) option) \<Rightarrow> articulation list \<Rightarrow> (string \<rightharpoonup> rat) list" where
  "measured metrics history =
     List.map_filter (\<lambda>a.
       if ar_status a \<noteq> ''assessable'' \<and> ar_status a \<noteq> ''partially_assessable'' then None
       else metrics (ar_document a)) history"

definition values_of :: "(string \<rightharpoonup> rat) list \<Rightarrow> string \<Rightarrow> rat list" where
  "values_of ds metric = List.map_filter (\<lambda>d. d metric) ds"

definition DeriveBaseline :: "(string \<Rightarrow> (string \<rightharpoonup> rat) option) \<Rightarrow> articulation list \<Rightarrow> baseline" where
  "DeriveBaseline metrics history =
     (let ds = measured metrics history in
      if length ds < MinBaselineSessions
      then \<lparr>bl_measured = length ds, bl_ready = False, bl_ranges = Map.empty\<rparr>
      else \<lparr>bl_measured = length ds, bl_ready = True,
        bl_ranges = (\<lambda>m.
          if m \<in> set baselineMetrics \<and> \<not> length (values_of ds m) < MinBaselineSessions
          then Some \<lparr>rg_low = quantile (sort (values_of ds m)) (1 / 4),
                     rg_high = quantile (sort (values_of ds m)) (3 / 4)\<rparr>
          else None)\<rparr>)"

section \<open>Verdicts about insights\<close>

record insight_verdict =
  iv_kind :: string
  iv_key :: string
  iv_dimension :: string
  iv_helpful :: bool
  iv_artifact :: string
  iv_policy :: string
  iv_input :: string
  iv_updated_at :: time

record insight_row =
  ir_ref :: session_ref
  ir_verdict :: insight_verdict

datatype insight_error = ScreeningFeedback | UnknownInsightKind string | InsightKeyMissing | InsightScope

definition validKind :: "string \<Rightarrow> bool" where
  "validKind k \<longleftrightarrow> k = ''strength'' \<or> k = ''priority'' \<or> k = ''drill''"

definition same_insight :: "session_ref \<Rightarrow> insight_verdict \<Rightarrow> insight_row \<Rightarrow> bool" where
  "same_insight ref v r \<longleftrightarrow> ref_session (ir_ref r) = ref_session ref
     \<and> ref_candidate (ir_ref r) = ref_candidate ref
     \<and> iv_kind (ir_verdict r) = iv_kind v \<and> iv_key (ir_verdict r) = iv_key v"

definition RecordInsightFeedback ::
  "session_ref \<Rightarrow> insight_verdict \<Rightarrow> time \<Rightarrow> insight_row list \<Rightarrow> insight_error + insight_row list" where
  "RecordInsightFeedback ref v now rows =
     (if ref_mode ref \<noteq> ''practice'' then Inl ScreeningFeedback
      else if \<not> validKind (iv_kind v) then Inl (UnknownInsightKind (iv_kind v))
      else if iv_key v = '''' then Inl InsightKeyMissing
      else case scope_of ref of
        None \<Rightarrow> Inl InsightScope
      | Some _ \<Rightarrow>
          (if \<exists>r \<in> set rows. same_insight ref v r
           then Inr (map (\<lambda>r. if same_insight ref v r then r\<lparr>ir_verdict := v\<lparr>iv_updated_at := now\<rparr>\<rparr> else r) rows)
           else Inr (rows @ [\<lparr>ir_ref = ref\<lparr>ref_tenant := ''''\<rparr>, ir_verdict = v\<lparr>iv_updated_at := now\<rparr>\<rparr>])))"

definition InsightFeedbackFor :: "session_ref \<Rightarrow> insight_row list \<Rightarrow> insight_error + insight_verdict list" where
  "InsightFeedbackFor ref rows =
     (case scope_of ref of
        None \<Rightarrow> Inl InsightScope
      | Some sc \<Rightarrow>
          Inr (sort_key (\<lambda>v. (iv_kind v, iv_key v)) (map
            (\<lambda>r. (ir_verdict r)\<lparr>iv_artifact := '''', iv_policy := '''', iv_input := ''''\<rparr>)
            (filter (\<lambda>r. visible sc (ir_ref r) \<and> ref_session (ir_ref r) = ref_session ref) rows))))"

section \<open>Lemmas\<close>

lemma StoreArticulation_Inr:
  assumes "StoreArticulation ref an i now rows = Inr (a, rows')"
  shows "ref_mode ref = ''practice''"
    and "rows' = rows \<or> (ref_session ref \<notin> (\<lambda>r. ref_session (aw_ref r)) ` set rows
           \<and> (\<exists>row. rows' = rows @ [row] \<and> aw_ref row = ref))"
  using assms by (auto simp: StoreArticulation_def Let_def bindE_Inr split: option.splits if_splits)

lemma AnalyzeAndStore_cases:
  assumes "AnalyzeAndStore ref src ans i now db = (r, db')"
  shows "(dl_rows db' = dl_rows db \<or> (\<exists>an a. StoreArticulation ref an i now (dl_rows db) = Inr (a, dl_rows db')))
       \<and> (dl_stages db' = dl_stages db
          \<or> (\<exists>out. RecordStage ref out now (dl_stages db) = Inr (dl_stages db') \<and> so_stage out = StageArticulation
               \<and> (so_cost out = 0 \<or> affords_delivery ref src (dl_stages db) = Inr True
                    \<and> (\<exists>an. ans = Answer an \<and> so_cost out = an_cost an))))"
  using assms
  by (auto simp: AnalyzeAndStore_def stage_note_def
      split: if_splits sum.splits bool.splits analyzer_answer.splits prod.splits)

text \<open>
  The states a session's delivery goes through: whole attempts, and attempts whose worker died after
  the analysis was stored and before the stage was recorded.
\<close>

inductive attempted :: "session_ref \<Rightarrow> policy_source \<Rightarrow> delivery_db \<Rightarrow> delivery_db \<Rightarrow> bool"
  for ref src where
  ran: "AnalyzeAndStore ref src ans i now db = (r, db') \<Longrightarrow> attempted ref src db db'"
| died: "ref_mode ref = ''practice'' \<Longrightarrow> affords_delivery ref src (dl_stages db) = Inr True \<Longrightarrow>
     StoreArticulation ref an i now (dl_rows db) = Inr (a, rows) \<Longrightarrow>
     attempted ref src db (db\<lparr>dl_rows := rows\<rparr>)"

lemma attempted_rows:
  assumes "attempted ref src db db'"
  shows "dl_rows db' = dl_rows db
       \<or> (ref_mode ref = ''practice'' \<and> ref_session ref \<notin> (\<lambda>r. ref_session (aw_ref r)) ` set (dl_rows db)
           \<and> (\<exists>row. dl_rows db' = dl_rows db @ [row] \<and> aw_ref row = ref))"
  using assms
proof cases
  case (ran ans i now r)
  from AnalyzeAndStore_cases [OF ran, THEN conjunct1] show ?thesis
  proof (elim disjE exE)
    fix an a
    assume "StoreArticulation ref an i now (dl_rows db) = Inr (a, dl_rows db')"
    from StoreArticulation_Inr [OF this] show ?thesis by simp
  qed simp
next
  case (died an i now a rows)
  have "dl_rows db' = rows" by (simp add: died(1))
  with StoreArticulation_Inr [OF died(4)] show ?thesis by simp
qed

section \<open>Properties\<close>

text \<open>Delivery is stored at most once, for practice only, and never edited. Whatever attempts a
  session's delivery workflow makes, completed, failed or cut short by a dying worker, they keep every
  analysis already stored as it is and add at most one, for the session itself, and none at all
  when it is not practice.\<close>

theorem delivery_stored_once:
  assumes "(attempted ref src)\<^sup>*\<^sup>* db db'"
    and "distinct (map (\<lambda>r. ref_session (aw_ref r)) (dl_rows db))"
  shows "\<exists>new. dl_rows db' = dl_rows db @ new \<and> length new \<le> 1
       \<and> (\<forall>r \<in> set new. aw_ref r = ref \<and> ref_mode ref = ''practice'')
       \<and> distinct (map (\<lambda>r. ref_session (aw_ref r)) (dl_rows db'))"
  using assms(1)
proof induction
  case base
  show ?case by (intro exI [of _ "[]"]) (simp add: assms(2))
next
  case (step y z)
  then obtain new where new: "dl_rows y = dl_rows db @ new" "length new \<le> 1"
    "\<forall>r \<in> set new. aw_ref r = ref \<and> ref_mode ref = ''practice''"
    "distinct (map (\<lambda>r. ref_session (aw_ref r)) (dl_rows y))" by blast
  from attempted_rows [OF step.hyps(2)] show ?case
  proof (elim disjE conjE exE)
    assume "dl_rows z = dl_rows y"
    with new show ?thesis by (intro exI [of _ new]) auto
  next
    fix row
    assume row: "ref_mode ref = ''practice''" "ref_session ref \<notin> (\<lambda>r. ref_session (aw_ref r)) ` set (dl_rows y)"
      "dl_rows z = dl_rows y @ [row]" "aw_ref row = ref"
    have "new = []"
    proof (cases new)
      case (Cons r rs)
      then have "r \<in> set (dl_rows y)" "aw_ref r = ref" using new(1,3) by simp_all
      with row(2) have False by blast
      then show ?thesis ..
    qed simp
    then have same: "dl_rows y = dl_rows db" using new(1) by simp
    have "distinct (map (\<lambda>r. ref_session (aw_ref r)) (dl_rows z))"
      unfolding row(3) using new(4) row(2) by (simp add: row(4))
    then show ?thesis using row(1,4)
      by (intro exI [of _ "[row]"] conjI) (simp_all add: row(3) same)
  qed
qed

definition ex_practice :: session_ref where
  "ex_practice = \<lparr>ref_session = ''s'', ref_mode = ''practice'', ref_candidate = ''u'', ref_tenant = ''''\<rparr>"

definition ex_analysis :: analysis where
  "ex_analysis = \<lparr>an_status = ''assessable'', an_warnings = [], an_document = ''{}'', an_calculation = ''c1'',
     an_policy = ''p1'', an_digest = ''d'', an_cost = 3\<rparr>"

lemma ex_practice_scope: "scope_of ex_practice = Some (AsUser ''u'')"
  by (simp add: scope_of_def ex_practice_def SetUser_def TrimSpace_def is_space_def)

lemma ex_practice_ok: "ref_ok ex_practice" "ref_mode ex_practice = ''practice''" "ref_session ex_practice = ''s''"
  "articulation_visible (AsUser ''u'') ex_practice"
  by (simp_all add: ref_ok_def ex_practice_def articulation_visible_def visible_def)

lemma ex_attempt:
  "\<exists>db'. AnalyzeAndStore ex_practice Unbudgeted (Answer ex_analysis) ''a1'' 7 \<lparr>dl_rows = [], dl_stages = []\<rparr>
     = (Stored ''assessable'', db') \<and> length (dl_rows db') = 1"
  by (simp add: AnalyzeAndStore_def affords_delivery_def ex_practice_ok StoreArticulation_def ex_practice_scope
      ArticulationOf_def RecordStage_def stage_note_def ex_analysis_def to_int32_def Let_def
      scope_sees_own [OF ex_practice_scope])

theorem delivery_stored_once_witness:
  "\<exists>db'. attempted ex_practice Unbudgeted \<lparr>dl_rows = [], dl_stages = []\<rparr> db' \<and> length (dl_rows db') = 1
     \<and> distinct (map (\<lambda>r. ref_session (aw_ref r)) (dl_rows db'))"
proof -
  let ?db = "\<lparr>dl_rows = [], dl_stages = []\<rparr>"
  obtain db' where db': "AnalyzeAndStore ex_practice Unbudgeted (Answer ex_analysis) ''a1'' 7 ?db
     = (Stored ''assessable'', db')" "length (dl_rows db') = 1" using ex_attempt by blast
  then have "attempted ex_practice Unbudgeted ?db db'" by (blast intro: attempted.ran)
  with delivery_stored_once [OF r_into_rtranclp [of "attempted ex_practice Unbudgeted", OF this]] db'(2)
  show ?thesis by auto
qed

definition spent_by :: "session_ref \<Rightarrow> delivery_db \<Rightarrow> int" where
  "spent_by ref db = (case StageOutcomes ref (dl_stages db) of Inl _ \<Rightarrow> 0 | Inr outs \<Rightarrow> Spent outs StageArticulation)"

lemma RecordStage_spent:
  assumes "RecordStage ref out now rows = Inr rows'" and "so_stage out = StageArticulation"
  shows "\<exists>outs outs'. StageOutcomes ref rows = Inr outs \<and> StageOutcomes ref rows' = Inr outs'
     \<and> Spent outs' StageArticulation = Spent outs StageArticulation + to_int32 (so_cost out)"
proof -
  from assms(1) obtain sc where sc: "scope_of ref = Some sc"
    and rows': "rows' = rows @ [\<lparr>sw_ref = ref, sw_outcome = out\<lparr>so_cost := to_int32 (so_cost out), so_created_at := now\<rparr>\<rparr>]"
    unfolding RecordStage_Inr by auto
  then show ?thesis
    using scope_sees_own [OF sc] assms(2) by (simp add: StageOutcomes_def Spent_sort)
qed

lemma affords_budget:
  assumes "affords_delivery ref (Pinned (Some p)) stages = Inr True"
    and "StageOutcomes ref stages = Inr outs" and "s \<in> set p" and "pl_id s = StageArticulation"
  shows "Spent outs StageArticulation < pl_budget s"
proof -
  from assms(1,2) obtain p' where "ParsePolicy (Some p) = Inr p'" "Affords p' outs StageArticulation = Inr True"
    by (auto simp: affords_delivery_def split: sum.splits)
  then have p: "ParsePolicy (Some p) = Inr p" "Affords p outs StageArticulation = Inr True"
    by (auto simp: ParsePolicy_Inr)
  note p' = p(1) [unfolded ParsePolicy_Inr]
  have "Stage p StageArticulation = (pl_required s, pl_budget s, True)"
  proof -
    have "StageArticulation \<in> pl_id ` set p" using assms(3,4) by (metis image_eqI)
    with Stage_unknown [of p StageArticulation]
    obtain r b where st: "Stage p StageArticulation = (r, b, True)"
      by (cases "Stage p StageArticulation") auto
    from Stage_known [OF st] obtain t where "t \<in> set p" "pl_id t = StageArticulation" "pl_required t = r"
      "pl_budget t = b" by blast
    with p' assms(3,4) have "t = s" by (metis distinct_map inj_onD)
    with st \<open>pl_required t = r\<close> \<open>pl_budget t = b\<close> show ?thesis by simp
  qed
  with p(2) show ?thesis by (simp add: Affords_def split: if_splits)
qed

text \<open>Delivery stays inside its budget. Under a pinned policy that names the delivery stage, with
  attempts that each cost between zero and \<open>k\<close>, what a session's delivery workflow has recorded as
  spent never exceeds the budget by more than the one attempt that crossed it, and a stage budgeted
  nothing spends nothing.\<close>

theorem delivery_stays_in_budget:
  assumes "s \<in> set p" and "pl_id s = StageArticulation" and "0 \<le> k" and "k < 2147483648"
    and "\<forall>(ans, i, now) \<in> set env. \<forall>an. ans = Answer an \<longrightarrow> 0 \<le> an_cost an \<and> an_cost an \<le> k"
    and "spent_by ref db \<le> max 0 (pl_budget s - 1 + k)"
  shows "spent_by ref (snd (ArticulationWorkflow ref (Pinned (Some p)) env db)) \<le> max 0 (pl_budget s - 1 + k)"
proof -
  let ?P = "\<lambda>db. spent_by ref db \<le> max 0 (pl_budget s - 1 + k)"
  have step: "?P db'" if "?P d" and att: "AnalyzeAndStore ref (Pinned (Some p)) ans i now d = (r, db')"
    and cost: "\<forall>an. ans = Answer an \<longrightarrow> 0 \<le> an_cost an \<and> an_cost an \<le> k" for d ans i now r db'
    using AnalyzeAndStore_cases [OF att, THEN conjunct2]
  proof (elim disjE exE conjE)
    assume "dl_stages db' = dl_stages d"
    with that(1) show ?thesis by (simp add: spent_by_def)
  next
    fix out
    assume rec: "RecordStage ref out now (dl_stages d) = Inr (dl_stages db')" "so_stage out = StageArticulation"
      and "so_cost out = 0"
    with RecordStage_spent [OF rec] that(1) show ?thesis by (auto simp: spent_by_def to_int32_def)
  next
    fix out an
    assume rec: "RecordStage ref out now (dl_stages d) = Inr (dl_stages db')" "so_stage out = StageArticulation"
      and aff: "affords_delivery ref (Pinned (Some p)) (dl_stages d) = Inr True"
      and an: "ans = Answer an" "so_cost out = an_cost an"
    from RecordStage_spent [OF rec] obtain outs outs' where o: "StageOutcomes ref (dl_stages d) = Inr outs"
      "StageOutcomes ref (dl_stages db') = Inr outs'"
      "Spent outs' StageArticulation = Spent outs StageArticulation + to_int32 (so_cost out)" by blast
    have "Spent outs StageArticulation < pl_budget s" by (rule affords_budget [OF aff o(1) assms(1,2)])
    moreover have "to_int32 (so_cost out) \<le> k" using cost an assms(4) by (simp add: to_int32_id)
    ultimately show ?thesis using o by (simp add: spent_by_def)
  qed
  have "?P (snd (retry (\<lambda>(ans, i, now). AnalyzeAndStore ref (Pinned (Some p)) ans i now) tried_again n env d))"
    if "?P d" "set env \<subseteq> {(ans, i, now). \<forall>an. ans = Answer an \<longrightarrow> 0 \<le> an_cost an \<and> an_cost an \<le> k}" for n env d
    using that
  proof (induction n arbitrary: env d)
    case (Suc n)
    show ?case
    proof (cases env)
      case (Cons x xs)
      obtain ans i now where x: "x = (ans, i, now)" by (metis prod_cases3)
      obtain r d' where act: "AnalyzeAndStore ref (Pinned (Some p)) ans i now d = (r, d')" by fastforce
      have "?P d'" using step [OF Suc.prems(1) act] Suc.prems(2) by (simp add: Cons x)
      from Suc.IH [OF this, of xs] Suc.prems(2) \<open>?P d'\<close> show ?thesis
        by (auto simp: Cons x act split: prod.split)
    qed (use Suc.prems in simp)
  qed simp
  from this [OF assms(6), of env] assms(5) show ?thesis
    unfolding ArticulationWorkflow_def by blast
qed

theorem delivery_stays_in_budget_witness:
  "spent_by ex_practice (snd (ArticulationWorkflow ex_practice (Pinned (Some ex_policy))
     [(Answer ex_analysis, ''a'', 7)] \<lparr>dl_rows = [], dl_stages = []\<rparr>)) \<le> 6"
proof -
  have "spent_by ex_practice \<lparr>dl_rows = [], dl_stages = []\<rparr> = 0"
    by (simp add: spent_by_def StageOutcomes_def ex_practice_scope)
  with delivery_stays_in_budget [of "\<lparr>pl_id = ''articulation'', pl_required = False, pl_budget = 4\<rparr>" ex_policy 3
      "[(Answer ex_analysis, ''a'', 7)]" ex_practice "\<lparr>dl_rows = [], dl_stages = []\<rparr>"]
  show ?thesis by (simp add: ex_policy_def StageArticulation_def ex_analysis_def)
qed

text \<open>
  The refusal of a screening session is documented as not retryable, ending the workflow rather than
  looping it; as a plain error it is retried under the workflow's policy until its attempts are used
  up, each refused again.
\<close>

lemma screening_refusal_is_retried:
  assumes "ref_mode ref = ''screening''" and "length env = 5"
  shows "ArticulationWorkflow ref src env db = (replicate 5 (Refused ''screening''), db)"
proof -
  have "retry (\<lambda>(ans, i, now). AnalyzeAndStore ref src ans i now) tried_again n env db
      = (replicate n (Refused ''screening''), db)" if "length env = n" for n env
    using that
  proof (induction n arbitrary: env)
    case (Suc n)
    then show ?case using assms(1)
      by (cases env) (auto simp: AnalyzeAndStore_def tried_again_def)
  qed simp
  from this [OF assms(2)] show ?thesis by (simp add: ArticulationWorkflow_def MaximumAttempts_def)
qed

lemma quantile_in:
  assumes "xs \<noteq> []"
  shows "\<exists>i < length xs. quantile xs q = xs ! i
     \<and> int i = min (int (length xs)) (max 1 \<lfloor>q * of_nat (length xs) + 1 / 2\<rfloor>) - 1"
proof -
  let ?r = "min (int (length xs)) (max 1 \<lfloor>q * of_nat (length xs) + 1 / 2\<rfloor>)"
  have r: "1 \<le> ?r" "?r \<le> int (length xs)" using assms by (auto simp: Suc_le_eq)
  have "quantile xs q = xs ! nat (?r - 1)"
    using assms by (auto simp: quantile_def Let_def min_def max_def)
  with r show ?thesis by (intro exI [of _ "nat (?r - 1)"]) auto
qed

lemma quantile_mono:
  assumes "sorted xs" and "xs \<noteq> []" and "q \<le> q'"
  shows "quantile xs q \<le> quantile xs q'"
proof -
  from quantile_in [OF assms(2), of q] obtain i where i: "i < length xs" "quantile xs q = xs ! i"
    "int i = min (int (length xs)) (max 1 \<lfloor>q * of_nat (length xs) + 1 / 2\<rfloor>) - 1" by blast
  from quantile_in [OF assms(2), of q'] obtain j where j: "j < length xs" "quantile xs q' = xs ! j"
    "int j = min (int (length xs)) (max 1 \<lfloor>q' * of_nat (length xs) + 1 / 2\<rfloor>) - 1" by blast
  have "\<lfloor>q * of_nat (length xs) + 1 / 2\<rfloor> \<le> \<lfloor>q' * of_nat (length xs) + 1 / 2\<rfloor>"
    using assms(3) by (intro floor_mono) (simp add: mult_right_mono)
  with i(3) j(3) have "int i \<le> int j" by linarith
  then show ?thesis using assms(1) i j by (simp add: sorted_nth_mono)
qed

text \<open>A baseline is about this person and is made of what happened. It is ready exactly from five
  measured sessions on, counting only assessable or partly assessable analyses; a range is drawn only
  for a metric measured five times, its ends are values that occurred in the history, and the low end
  does not exceed the high one.\<close>

theorem baseline_is_made_of_history:
  "(bl_ready (DeriveBaseline metrics history) \<longleftrightarrow> 5 \<le> bl_measured (DeriveBaseline metrics history))
   \<and> bl_measured (DeriveBaseline metrics history)
       = length (filter (\<lambda>a. ar_status a \<in> {''assessable'', ''partially_assessable''} \<and> metrics (ar_document a) \<noteq> None) history)
   \<and> (bl_ranges (DeriveBaseline metrics history) m = Some rg \<longrightarrow>
        bl_ready (DeriveBaseline metrics history) \<and> rg_low rg \<le> rg_high rg
        \<and> 5 \<le> length (values_of (measured metrics history) m)
        \<and> {rg_low rg, rg_high rg} \<subseteq> {v. \<exists>a \<in> set history. \<exists>d. ar_status a \<in> {''assessable'', ''partially_assessable''}
             \<and> metrics (ar_document a) = Some d \<and> d m = Some v})"
proof -
  let ?ds = "measured metrics history" and ?b = "DeriveBaseline metrics history"
  have len: "length ?ds = length (filter (\<lambda>a. ar_status a \<in> {''assessable'', ''partially_assessable''}
      \<and> metrics (ar_document a) \<noteq> None) history)"
    unfolding measured_def by (induction history) (auto split: option.split)
  have occurs: "\<exists>a \<in> set history. \<exists>d. ar_status a \<in> {''assessable'', ''partially_assessable''}
      \<and> metrics (ar_document a) = Some d \<and> d m = Some v" if "v \<in> set (values_of ?ds m)" for v
    using that by (auto simp: values_of_def measured_def List.map_filter_def split: if_splits)
  have "bl_ready ?b \<and> rg_low rg \<le> rg_high rg \<and> 5 \<le> length (values_of ?ds m)
      \<and> {rg_low rg, rg_high rg} \<subseteq> set (values_of ?ds m)" if "bl_ranges ?b m = Some rg"
  proof -
    let ?vs = "sort (values_of ?ds m)"
    from that have ready: "bl_ready ?b" and five: "5 \<le> length (values_of ?ds m)"
      and rg: "rg = \<lparr>rg_low = quantile ?vs (1 / 4), rg_high = quantile ?vs (3 / 4)\<rparr>"
      by (auto simp: DeriveBaseline_def Let_def MinBaselineSessions_def split: if_splits)
    have ne: "?vs \<noteq> []" using five by (metis length_sort list.size(3) not_numeral_le_zero)
    have "quantile ?vs q \<in> set (values_of ?ds m)" for q
      using quantile_in [OF ne, of q] nth_mem [of _ ?vs] by auto
    with ready five quantile_mono [of ?vs "1 / 4" "3 / 4"] ne show ?thesis by (simp add: rg)
  qed
  then show ?thesis using len occurs by (auto simp: DeriveBaseline_def Let_def MinBaselineSessions_def)
qed

definition ex_delivery :: articulation where
  "ex_delivery = \<lparr>ar_id = ''a'', ar_session = ''s'', ar_status = ''assessable'', ar_warnings = [],
     ar_document = ''d'', ar_calculation = ''c'', ar_policy = ''p'', ar_digest = ''g'', ar_created_at = 1\<rparr>"

theorem baseline_is_made_of_history_witness:
  "bl_ready (DeriveBaseline (\<lambda>_. Some [''words_per_minute'' \<mapsto> 120]) (replicate 5 ex_delivery))"
  using baseline_is_made_of_history [of "\<lambda>_. Some [''words_per_minute'' \<mapsto> 120]" "replicate 5 ex_delivery"]
  by (simp add: ex_delivery_def)

end
