(* ===== verification/Outbox.thy ===== *)
theory Outbox
  imports Prelude
begin

text \<open>
  \<open>services/platform/platform/outbox/outbox.go\<close>, the publishing half: an event in its envelope, the
  check against the generated event catalogue (\<open>packages/generated/go/prepeetevents\<close>) that every
  producer goes through (\<open>Event.validate\<close>, \<open>validateAgainstCatalogue\<close>, \<open>validatePayload\<close>), and
  \<open>Publish\<close>, which writes the row inside the caller's transaction.  The payload is the decoded JSON
  document; the trace context and the wake-up signal carry no state of the table and are left out.
\<close>

section \<open>The event catalogue\<close>

record definition_of =
  df_owner :: string
  df_schema_version :: string
  df_required :: "string list"
  df_known :: "string list"

definition Catalogue :: "(string \<times> definition_of) list" where
  "Catalogue = [
     (''appeal.requested.v1'', \<lparr>df_owner = ''recruiting'', df_schema_version = ''1.0'',
        df_required = [''appeal_id'', ''review_id'', ''candidate_id'', ''ground''],
        df_known = [''appeal_id'', ''candidate_id'', ''ground'', ''review_id'']\<rparr>),
     (''candidate.competency_observed.v1'', \<lparr>df_owner = ''evaluation'', df_schema_version = ''1.0'',
        df_required = [''candidate_id'', ''competency_id'', ''session_id'', ''observation_id''],
        df_known = [''candidate_id'', ''competency_id'', ''observation_id'', ''session_id'']\<rparr>),
     (''candidate.document_uploaded.v1'', \<lparr>df_owner = ''candidate'', df_schema_version = ''1.0'',
        df_required = [''document_id'', ''candidate_id'', ''storage_key'', ''media_type'', ''byte_size''],
        df_known = [''byte_size'', ''candidate_id'', ''document_id'', ''media_type'', ''storage_key'']\<rparr>),
     (''evaluation.completed.v1'', \<lparr>df_owner = ''evaluation'', df_schema_version = ''1.0'',
        df_required = [''evaluation_id'', ''session_id'', ''rubric_id'', ''rubric_version'', ''result_digest''],
        df_known = [''evaluation_id'', ''result_digest'', ''rubric_id'', ''rubric_version'', ''session_id'']\<rparr>),
     (''evaluation.failed.v1'', \<lparr>df_owner = ''evaluation'', df_schema_version = ''1.0'',
        df_required = [''evaluation_id'', ''session_id'', ''failure'', ''retryable''],
        df_known = [''evaluation_id'', ''failure'', ''retryable'', ''session_id'']\<rparr>),
     (''evaluation.insufficient_evidence.v1'', \<lparr>df_owner = ''evaluation'', df_schema_version = ''1.0'',
        df_required = [''evaluation_id'', ''session_id'', ''uncovered_competency_ids''],
        df_known = [''evaluation_id'', ''session_id'', ''uncovered_competency_ids'']\<rparr>),
     (''evaluation.requested.v1'', \<lparr>df_owner = ''evaluation'', df_schema_version = ''1.0'',
        df_required = [''evaluation_id'', ''session_id'', ''bundle_digest'', ''rubric_id'', ''rubric_version''],
        df_known = [''bundle_digest'', ''evaluation_id'', ''rubric_id'', ''rubric_version'', ''session_id'']\<rparr>),
     (''identity.user_registered.v1'', \<lparr>df_owner = ''identity'', df_schema_version = ''1.0'',
        df_required = [''user_id'', ''account_type''],
        df_known = [''account_type'', ''tenant_id'', ''user_id'']\<rparr>),
     (''integration.delivery_requested.v1'', \<lparr>df_owner = ''integration'', df_schema_version = ''1.0'',
        df_required = [''delivery_id'', ''endpoint_id'', ''source_event_id'', ''source_event_type''],
        df_known = [''delivery_id'', ''endpoint_id'', ''source_event_id'', ''source_event_type'']\<rparr>),
     (''interview.session_completed.v1'', \<lparr>df_owner = ''interview'', df_schema_version = ''1.0'',
        df_required = [''session_id'', ''completion'', ''turn_count'', ''duration_seconds''],
        df_known = [''completion'', ''duration_seconds'', ''session_id'', ''turn_count'']\<rparr>),
     (''interview.session_created.v1'', \<lparr>df_owner = ''interview'', df_schema_version = ''1.0'',
        df_required = [''session_id'', ''mode'', ''candidate_id''],
        df_known = [''blueprint_id'', ''candidate_id'', ''invitation_id'', ''mode'', ''session_id'']\<rparr>),
     (''interview.session_interrupted.v1'', \<lparr>df_owner = ''interview'', df_schema_version = ''1.0'',
        df_required = [''session_id'', ''reason'', ''resumable'', ''attempt''],
        df_known = [''attempt'', ''reason'', ''resumable'', ''session_id'']\<rparr>),
     (''interview.session_ready.v1'', \<lparr>df_owner = ''interview'', df_schema_version = ''1.0'',
        df_required = [''session_id'', ''bundle_id'', ''bundle_digest'', ''bundle_revision''],
        df_known = [''bundle_digest'', ''bundle_id'', ''bundle_revision'', ''session_id'']\<rparr>),
     (''interview.session_started.v1'', \<lparr>df_owner = ''interview'', df_schema_version = ''1.0'',
        df_required = [''session_id'', ''bundle_digest''],
        df_known = [''bundle_digest'', ''session_id'']\<rparr>),
     (''media.manifest_finalized.v1'', \<lparr>df_owner = ''media'', df_schema_version = ''1.0'',
        df_required = [''manifest_id'', ''session_id'', ''track_count'', ''duration_ms'', ''checksum''],
        df_known = [''checksum'', ''duration_ms'', ''manifest_id'', ''session_id'', ''track_count'']\<rparr>),
     (''privacy.deletion_requested.v1'', \<lparr>df_owner = ''privacy'', df_schema_version = ''1.0'',
        df_required = [''request_id'', ''subject_type'', ''subject_id'', ''scope''],
        df_known = [''request_id'', ''scope'', ''subject_id'', ''subject_type'']\<rparr>),
     (''review.decision_recorded.v1'', \<lparr>df_owner = ''recruiting'', df_schema_version = ''1.0'',
        df_required = [''review_id'', ''application_id'', ''decision'', ''decided_by'', ''evaluation_id''],
        df_known = [''application_id'', ''decided_by'', ''decision'', ''evaluation_id'', ''review_id'']\<rparr>),
     (''tenant.membership_changed.v1'', \<lparr>df_owner = ''tenancy'', df_schema_version = ''1.0'',
        df_required = [''membership_id'', ''user_id'', ''change''],
        df_known = [''change'', ''membership_id'', ''previous_role'', ''role'', ''user_id'']\<rparr>)]"

section \<open>Events\<close>

record outbox_actor =
  oa_type :: string
  oa_id :: string

datatype json = JString string | JInt int | JBool bool | JArray "json list" | JNull

text \<open>What the raw payload decodes to: absent, not an object, the literal null, or an object.\<close>

datatype payload = NoPayload | NotAnObject | NullPayload | Object "(string \<times> json) list"

record event =
  ev_type :: string
  ev_schema_version :: string
  ev_tenant :: string
  ev_occurred_at :: time
  ev_producer :: string
  ev_actor :: outbox_actor
  ev_purpose :: string
  ev_correlation :: string
  ev_causation :: string
  ev_payload :: payload

section \<open>The shape of an event type\<close>

text \<open>
  \<open>versionedType\<close> is the regular expression of at least two dot-separated identifiers and a version:
  split at the dots, every part but the last is an identifier and the last is \<open>v\<close> and digits.
\<close>

fun split_dots :: "string \<Rightarrow> string list" where
  "split_dots [] = [[]]"
| "split_dots (c # cs) =
     (if c = CHR ''.'' then [] # split_dots cs
      else case split_dots cs of [] \<Rightarrow> [[c]] | p # ps \<Rightarrow> (c # p) # ps)"

definition lower_alpha :: "char \<Rightarrow> bool" where
  "lower_alpha c \<longleftrightarrow> CHR ''a'' \<le> c \<and> c \<le> CHR ''z''"

definition digit :: "char \<Rightarrow> bool" where
  "digit c \<longleftrightarrow> CHR ''0'' \<le> c \<and> c \<le> CHR ''9''"

fun ident_part :: "string \<Rightarrow> bool" where
  "ident_part [] = False"
| "ident_part (c # cs) = (lower_alpha c \<and> list_all (\<lambda>x. lower_alpha x \<or> digit x \<or> x = CHR ''_'') cs)"

fun version_part :: "string \<Rightarrow> bool" where
  "version_part [] = False"
| "version_part (c # cs) = (c = CHR ''v'' \<and> cs \<noteq> [] \<and> list_all digit cs)"

definition versionedType :: "string \<Rightarrow> bool" where
  "versionedType s =
     (let ps = split_dots s in
      3 \<le> length ps \<and> list_all ident_part (butlast ps) \<and> version_part (last ps))"

section \<open>Validation\<close>

datatype invalid_event =
    TypeRequired
  | TypeUnversioned string
  | SchemaVersionRequired
  | ProducerRequired
  | ActorRequired
  | NotInCatalogue string
  | NotTheOwner string string
  | WrongSchemaVersion string string
  | PayloadNotObject
  | PayloadNull
  | FieldMissing string
  | FieldUnknown string

definition validatePayload :: "payload \<Rightarrow> definition_of \<Rightarrow> invalid_event option" where
  "validatePayload p d =
     (case (if p = NoPayload then Object [] else p) of
        NotAnObject \<Rightarrow> Some PayloadNotObject
      | NullPayload \<Rightarrow> Some PayloadNull
      | NoPayload \<Rightarrow> None
      | Object kvs \<Rightarrow>
          (case first_error (\<lambda>r. if r \<notin> fst ` set kvs then Some (FieldMissing r) else None) (df_required d) of
             Some e \<Rightarrow> Some e
           | None \<Rightarrow> first_error (\<lambda>f. if f \<notin> set (df_known d) then Some (FieldUnknown f) else None) (map fst kvs)))"

definition validateAgainstCatalogue :: "event \<Rightarrow> invalid_event option" where
  "validateAgainstCatalogue e =
     (case map_of Catalogue (ev_type e) of
        None \<Rightarrow> Some (NotInCatalogue (ev_type e))
      | Some d \<Rightarrow>
          (if ev_producer e \<noteq> df_owner d then Some (NotTheOwner (df_owner d) (ev_producer e))
           else if ev_schema_version e \<noteq> df_schema_version d
           then Some (WrongSchemaVersion (df_schema_version d) (ev_schema_version e))
           else validatePayload (ev_payload e) d))"

definition validate :: "event \<Rightarrow> invalid_event option" where
  "validate e =
     (if ev_type e = '''' then Some TypeRequired
      else if \<not> versionedType (ev_type e) then Some (TypeUnversioned (ev_type e))
      else if ev_schema_version e = '''' then Some SchemaVersionRequired
      else if ev_producer e = '''' then Some ProducerRequired
      else if oa_type (ev_actor e) = '''' \<or> oa_id (ev_actor e) = '''' then Some ActorRequired
      else validateAgainstCatalogue e)"

section \<open>The table and Publish\<close>

text \<open>
  A row of \<open>integration.outbox\<close>: the envelope, which nothing ever changes, and the state of its
  delivery.
\<close>

record outbox_row =
  ob_id :: string
  ob_event :: event
  ob_published :: "time option"
  ob_attempts :: int
  ob_next :: time
  ob_error :: string
  ob_dead :: "time option"
  ob_discarded :: "time option"
  ob_reason :: string

datatype publish_error = Refused invalid_event | InsertFailed

text \<open>The row of an event: the moment and an empty payload are filled in, nothing else is touched.\<close>

definition new_row :: "string \<Rightarrow> time \<Rightarrow> event \<Rightarrow> outbox_row" where
  "new_row new_id now e =
     \<lparr>ob_id = new_id,
       ob_event = e\<lparr>ev_occurred_at := (if is_zero (ev_occurred_at e) then now else ev_occurred_at e),
                    ev_payload := (if ev_payload e = NoPayload then Object [] else ev_payload e)\<rparr>,
       ob_published = None, ob_attempts = 0, ob_next = now, ob_error = '''', ob_dead = None,
       ob_discarded = None, ob_reason = ''''\<rparr>"

definition Publish ::
  "string \<Rightarrow> time \<Rightarrow> event \<Rightarrow> outbox_row list \<Rightarrow> publish_error + outbox_row list" where
  "Publish new_id now e rows =
     (case validate e of
        Some err \<Rightarrow> Inl (Refused err)
      | None \<Rightarrow> (if new_id \<in> ob_id ` set rows then Inl InsertFailed else Inr (rows @ [new_row new_id now e])))"

lemma Publish_row: "Publish new_id now e rows = Inr rows' \<Longrightarrow> rows' = rows @ [new_row new_id now e]"
  by (auto simp: Publish_def split: option.splits if_splits)

lemma Publish_Inr:
  "Publish new_id now e rows = Inr rows' \<Longrightarrow>
     validate e = None \<and> new_id \<notin> ob_id ` set rows
     \<and> (\<exists>r. rows' = rows @ [r] \<and> ob_id r = new_id \<and> ev_type (ob_event r) = ev_type e \<and> ob_published r = None
          \<and> ob_attempts r = 0 \<and> ob_next r = now \<and> ob_dead r = None \<and> ob_discarded r = None)"
  by (auto simp: Publish_def new_row_def split: option.splits if_splits)

end
