(* ===== verification/Dispatcher.thy ===== *)
theory Dispatcher
  imports Outbox "HOL-Library.Word"
begin

text \<open>
  The delivering half of \<open>services/platform/platform/outbox\<close>: the store a dispatcher works against
  (\<open>outbox.go\<close>: \<open>Claim\<close>, \<open>MarkDelivered\<close>, \<open>MarkFailed\<close>, \<open>Backoff\<close>), the delivery loop's body
  (\<open>dispatcher.go\<close>: \<open>deliver\<close>, \<open>drain\<close>), the router that hands an event to its handler
  (\<open>router.go\<close>) and the operator's transitions over failed work (\<open>recovery.go\<close>).  Each database
  transaction is one step at one moment; \<open>outbox_step\<close> interleaves those of any number of
  dispatchers, producers and operators.  The contract \<open>EventStore\<close> of \<open>dispatcher.go\<close> is the
  locale \<open>event_store\<close>, and the store is its interpretation.
\<close>

section \<open>Backoff\<close>

text \<open>
  \<open>math.Pow(2, n)\<close> is an exact float; its conversion to the int64 of a duration is exact below
  \<open>2 ^ 63\<close> and left to the processor above, which answers the smallest or the largest int64.  The
  product with ten seconds wraps.
\<close>

definition MaxAttempts :: int where "MaxAttempts = 10"

definition backoff_base :: duration where "backoff_base = 10 * second"
definition backoff_cap :: duration where "backoff_cap = 30 * minute"

definition Backoff :: "64 word \<Rightarrow> int \<Rightarrow> duration" where
  "Backoff overflow attempt =
     (let n = nat ((if attempt < 1 then 1 else attempt) - 1);
          factor = (if n < 63 then word_of_int (2 ^ n) else overflow);
          wait = factor * word_of_int backoff_base :: 64 word in
      if sint wait > backoff_cap \<or> sint wait \<le> 0 then backoff_cap else sint wait)"

section \<open>The store\<close>

definition claimVisibility :: duration where "claimVisibility = 5 * minute"

definition claimable :: "time \<Rightarrow> outbox_row \<Rightarrow> bool" where
  "claimable now r \<longleftrightarrow> ob_published r = None \<and> ob_dead r = None \<and> ob_next r \<le> now"

definition Claim :: "nat \<Rightarrow> time \<Rightarrow> outbox_row list \<Rightarrow> outbox_row list \<times> outbox_row list" where
  "Claim limit now rows =
     (let claimed = take limit (sort_key (\<lambda>r. (ob_next r, ob_id r)) (filter (claimable now) rows));
          ids = map ob_id claimed in
      (claimed, map (\<lambda>r. if ob_id r \<in> set ids then r\<lparr>ob_next := now + claimVisibility\<rparr> else r) rows))"

definition on_row :: "string \<Rightarrow> (outbox_row \<Rightarrow> bool) \<Rightarrow> (outbox_row \<Rightarrow> outbox_row) \<Rightarrow> outbox_row list \<Rightarrow> outbox_row list" where
  "on_row i P f = map (\<lambda>r. if ob_id r = i \<and> P r then f r else r)"

definition MarkDelivered :: "string \<Rightarrow> time \<Rightarrow> outbox_row list \<Rightarrow> outbox_row list" where
  "MarkDelivered i now = on_row i (\<lambda>r. ob_published r = None) (\<lambda>r. r\<lparr>ob_published := Some now\<rparr>)"

definition MarkFailed :: "64 word \<Rightarrow> string \<Rightarrow> string \<Rightarrow> time \<Rightarrow> outbox_row list \<Rightarrow> outbox_row list" where
  "MarkFailed ov i reason now rows =
     on_row i (\<lambda>_. True)
       (\<lambda>r. let attempts = ob_attempts r + 1 in
         r\<lparr>ob_attempts := attempts, ob_error := take 1000 reason, ob_next := now + Backoff ov attempts,
           ob_dead := (if attempts \<ge> MaxAttempts then Some now else None)\<rparr>) rows"

section \<open>The operator's transitions\<close>

definition failed_work :: "outbox_row \<Rightarrow> bool" where
  "failed_work r \<longleftrightarrow> ob_published r = None \<and> ob_dead r \<noteq> None \<and> ob_discarded r = None"

definition Recover :: "string \<Rightarrow> time \<Rightarrow> outbox_row list \<Rightarrow> bool \<times> outbox_row list" where
  "Recover i now rows =
     (\<exists>r \<in> set rows. ob_id r = i \<and> failed_work r,
      on_row i failed_work (\<lambda>r. r\<lparr>ob_dead := None, ob_attempts := 0, ob_next := now\<rparr>) rows)"

definition Discard :: "string \<Rightarrow> string \<Rightarrow> time \<Rightarrow> outbox_row list \<Rightarrow> bool \<times> outbox_row list" where
  "Discard i reason now rows =
     (\<exists>r \<in> set rows. ob_id r = i \<and> failed_work r,
      on_row i failed_work (\<lambda>r. r\<lparr>ob_discarded := Some now, ob_reason := take 1000 reason\<rparr>) rows)"

record backlog =
  bl_pending :: nat
  bl_failed :: nat
  bl_oldest :: duration

definition in_backlog :: "outbox_row \<Rightarrow> bool" where
  "in_backlog r \<longleftrightarrow> ob_published r = None \<and> ob_dead r = None \<and> ob_discarded r = None"

text \<open>The oldest wait, in whole nanoseconds: the code rounds it to the microseconds of the database.\<close>

definition Backlog :: "time \<Rightarrow> outbox_row list \<Rightarrow> backlog" where
  "Backlog now rows =
     (let pending = filter in_backlog rows in
      \<lparr>bl_pending = length pending, bl_failed = length (filter failed_work rows),
       bl_oldest = (if pending = [] then 0
         else max 0 (now - Min ((ev_occurred_at \<circ> ob_event) ` set pending)))\<rparr>)"

definition FailedEvents :: "nat \<Rightarrow> outbox_row list \<Rightarrow> outbox_row list" where
  "FailedEvents limit rows =
     take limit (sort_key (\<lambda>r. (- the (ob_dead r), ob_id r)) (filter failed_work rows))"

section \<open>The router\<close>

text \<open>A handler answers \<open>None\<close> when the event arrived, and the error or the panic otherwise.\<close>

type_synonym handler = "event \<Rightarrow> string option"

record router =
  rt_handlers :: "string \<rightharpoonup> handler"
  rt_ignored :: "string \<rightharpoonup> string"

definition NewRouter :: router where
  "NewRouter = \<lparr>rt_handlers = Map.empty, rt_ignored = Map.empty\<rparr>"

datatype router_panic = AlreadyHandled string | AlreadyIgnored string

definition mustBeUnregistered :: "router \<Rightarrow> string \<Rightarrow> router_panic option" where
  "mustBeUnregistered r ty =
     (if rt_handlers r ty \<noteq> None then Some (AlreadyHandled ty)
      else if rt_ignored r ty \<noteq> None then Some (AlreadyIgnored ty) else None)"

definition Handle :: "string \<Rightarrow> handler \<Rightarrow> router \<Rightarrow> router_panic + router" where
  "Handle ty h r =
     (case mustBeUnregistered r ty of Some p \<Rightarrow> Inl p | None \<Rightarrow> Inr (r\<lparr>rt_handlers := (rt_handlers r)(ty \<mapsto> h)\<rparr>))"

definition Ignore :: "string \<Rightarrow> string \<Rightarrow> router \<Rightarrow> router_panic + router" where
  "Ignore ty reason r =
     (case mustBeUnregistered r ty of Some p \<Rightarrow> Inl p | None \<Rightarrow> Inr (r\<lparr>rt_ignored := (rt_ignored r)(ty \<mapsto> reason)\<rparr>))"

definition Deliver :: "router \<Rightarrow> handler" where
  "Deliver r e =
     (case rt_handlers r (ev_type e) of
        Some h \<Rightarrow> h e
      | None \<Rightarrow> (if rt_ignored r (ev_type e) \<noteq> None then None
                 else Some (''outbox: no route for event type: '' @ ev_type e
                   @ '' has no handler and is not explicitly ignored'')))"

definition Routes :: "router \<Rightarrow> string \<rightharpoonup> string" where
  "Routes r =
     (\<lambda>ty. case rt_ignored r ty of
        Some reason \<Rightarrow> Some (''ignored: '' @ reason)
      | None \<Rightarrow> map_option (\<lambda>_. ''handled'') (rt_handlers r ty))"

section \<open>The delivery loop\<close>

text \<open>
  One delivery of a claimed event: what its handler does with it at that moment, whether the database
  records the outcome, and whether the process was told to stop before it.
\<close>

record delivery =
  dl_handler :: handler
  dl_now :: time
  dl_recorded :: bool
  dl_stopped :: bool

definition deliver ::
  "(string \<Rightarrow> time \<Rightarrow> 's \<Rightarrow> 's) \<Rightarrow> (string \<Rightarrow> string \<Rightarrow> time \<Rightarrow> 's \<Rightarrow> 's) \<Rightarrow> delivery \<Rightarrow> outbox_row \<Rightarrow> 's \<Rightarrow> 's" where
  "deliver delivered failed d e s =
     (case dl_handler d (ob_event e) of
        Some err \<Rightarrow> (if dl_recorded d then failed (ob_id e) err (dl_now d) s else s)
      | None \<Rightarrow> (if dl_recorded d then delivered (ob_id e) (dl_now d) s else s))"

fun deliver_all ::
  "(string \<Rightarrow> time \<Rightarrow> 's \<Rightarrow> 's) \<Rightarrow> (string \<Rightarrow> string \<Rightarrow> time \<Rightarrow> 's \<Rightarrow> 's)
     \<Rightarrow> (outbox_row \<times> delivery) list \<Rightarrow> 's \<Rightarrow> 's" where
  "deliver_all delivered failed [] s = s"
| "deliver_all delivered failed ((e, d) # rest) s =
     (if dl_stopped d then s else deliver_all delivered failed rest (deliver delivered failed d e s))"

definition drain ::
  "(nat \<Rightarrow> time \<Rightarrow> 's \<Rightarrow> outbox_row list \<times> 's) \<Rightarrow> (string \<Rightarrow> time \<Rightarrow> 's \<Rightarrow> 's)
     \<Rightarrow> (string \<Rightarrow> string \<Rightarrow> time \<Rightarrow> 's \<Rightarrow> 's) \<Rightarrow> nat \<Rightarrow> time \<Rightarrow> (outbox_row \<Rightarrow> delivery) \<Rightarrow> 's \<Rightarrow> nat \<times> 's" where
  "drain claim delivered failed batch now how s =
     (case claim batch now s of
        (claimed, s') \<Rightarrow>
          (length claimed, deliver_all delivered failed (map (\<lambda>e. (e, how e)) claimed) s'))"

section \<open>The contract of an event store\<close>

datatype work = Waiting int time | Dead | Delivered

definition work_of :: "outbox_row \<Rightarrow> work" where
  "work_of r =
     (if ob_published r \<noteq> None then Delivered
      else if ob_dead r \<noteq> None then Dead else Waiting (ob_attempts r) (ob_next r))"

definition after_failure :: "64 word \<Rightarrow> time \<Rightarrow> int \<Rightarrow> work" where
  "after_failure ov now a =
     (if a + 1 \<ge> MaxAttempts then Dead else Waiting (a + 1) (now + Backoff ov (a + 1)))"

text \<open>What a delivery leaves of work that was waiting.\<close>

definition delivery_outcome :: "64 word \<Rightarrow> delivery \<Rightarrow> event \<Rightarrow> int \<Rightarrow> time \<Rightarrow> work" where
  "delivery_outcome ov d x a t =
     (if dl_stopped d \<or> \<not> dl_recorded d then Waiting a t
      else if dl_handler d x = None then Delivered else after_failure ov (dl_now d) a)"

locale event_store =
  fixes claim :: "nat \<Rightarrow> time \<Rightarrow> 's \<Rightarrow> outbox_row list \<times> 's"
    and delivered :: "string \<Rightarrow> time \<Rightarrow> 's \<Rightarrow> 's"
    and failed :: "string \<Rightarrow> string \<Rightarrow> time \<Rightarrow> 's \<Rightarrow> 's"
    and ok :: "'s \<Rightarrow> bool"
    and work :: "'s \<Rightarrow> string \<Rightarrow> work option"
    and overflow :: "64 word"
  assumes ok_claim: "ok s \<Longrightarrow> ok (snd (claim n now s))"
    and ok_delivered: "ok s \<Longrightarrow> ok (delivered i now s)"
    and ok_failed: "ok s \<Longrightarrow> ok (failed i reason now s)"
    and claimed_ids: "ok s \<Longrightarrow> distinct (map ob_id (fst (claim n now s)))"
    and claimed_due: "ok s \<Longrightarrow> e \<in> set (fst (claim n now s)) \<Longrightarrow>
      \<exists>a t. work s (ob_id e) = Some (Waiting a t) \<and> t \<le> now"
    and claimed_hidden: "ok s \<Longrightarrow> e \<in> set (fst (claim n now s)) \<Longrightarrow> work s (ob_id e) = Some (Waiting a t) \<Longrightarrow>
      work (snd (claim n now s)) (ob_id e) = Some (Waiting a (now + claimVisibility))"
    and unclaimed_same: "ok s \<Longrightarrow> i \<notin> ob_id ` set (fst (claim n now s)) \<Longrightarrow>
      work (snd (claim n now s)) i = work s i"
    and delivered_work: "ok s \<Longrightarrow> work s i = Some w \<Longrightarrow> work (delivered i now s) i = Some Delivered"
    and delivered_other: "ok s \<Longrightarrow> j \<noteq> i \<Longrightarrow> work (delivered i now s) j = work s j"
    and failed_work: "ok s \<Longrightarrow> work s i = Some (Waiting a t) \<Longrightarrow>
      work (failed i reason now s) i = Some (after_failure overflow now a)"
    and failed_other: "ok s \<Longrightarrow> j \<noteq> i \<Longrightarrow> work (failed i reason now s) j = work s j"
begin

lemma deliver_other:
  "ok s \<Longrightarrow> j \<noteq> ob_id e \<Longrightarrow> work (deliver delivered failed d e s) j = work s j"
  by (auto simp: deliver_def delivered_other failed_other split: option.splits)

lemma deliver_ok: "ok s \<Longrightarrow> ok (deliver delivered failed d e s)"
  by (auto simp: deliver_def ok_delivered ok_failed split: option.splits)

lemma deliver_this:
  "ok s \<Longrightarrow> work s (ob_id e) = Some (Waiting a t) \<Longrightarrow> \<not> dl_stopped d \<Longrightarrow>
     work (deliver delivered failed d e s) (ob_id e) = Some (delivery_outcome overflow d (ob_event e) a t)"
  by (auto simp: deliver_def delivery_outcome_def delivered_work failed_work split: option.splits)

lemma deliver_all_other:
  "ok s \<Longrightarrow> j \<notin> ob_id ` fst ` set es \<Longrightarrow> work (deliver_all delivered failed es s) j = work s j"
proof (induction es arbitrary: s)
  case (Cons x es)
  obtain e d where x: "x = (e, d)" by (cases x)
  from Cons.prems(2) have j: "j \<noteq> ob_id e" "j \<notin> ob_id ` fst ` set es" by (auto simp: x)
  show ?case
    using Cons.IH [OF deliver_ok [OF Cons.prems(1)] j(2), of d e] deliver_other [OF Cons.prems(1) j(1), of d]
    by (simp add: x)
qed simp

lemma deliver_all_none_stopped:
  assumes "ok s" and "distinct (map (ob_id \<circ> fst) es)" and "\<forall>(e, d) \<in> set es. \<not> dl_stopped d"
    and "(e, d) \<in> set es" and "work s (ob_id e) = Some (Waiting a t)"
  shows "work (deliver_all delivered failed es s) (ob_id e) = Some (delivery_outcome overflow d (ob_event e) a t)"
  using assms
proof (induction es arbitrary: s)
  case (Cons x es)
  obtain e' d' where x: "x = (e', d')" by (cases x)
  from Cons.prems(3) have run: "\<not> dl_stopped d'" by (simp add: x)
  let ?s = "deliver delivered failed d' e' s"
  have ok: "ok ?s" using Cons.prems(1) by (rule deliver_ok)
  show ?case
  proof (cases "(e, d) = (e', d')")
    case True
    then have "ob_id e \<notin> ob_id ` fst ` set es" using Cons.prems(2) by (auto simp: x)
    from deliver_all_other [OF ok this] deliver_this [OF Cons.prems(1,5), of d'] True run show ?thesis
      by (simp add: x)
  next
    case False
    with Cons.prems(4) have mem: "(e, d) \<in> set es" by (auto simp: x)
    then have "ob_id e \<in> (ob_id \<circ> fst) ` set es" by force
    with Cons.prems(2) have "ob_id e \<noteq> ob_id e'" by (simp add: x) metis
    then have "work ?s (ob_id e) = Some (Waiting a t)"
      using deliver_other [OF Cons.prems(1)] Cons.prems(5) by simp
    with Cons.IH [OF ok _ _ mem] Cons.prems(2,3) run show ?thesis by (simp add: x)
  qed
qed simp

lemma deliver_all_either:
  assumes "ok s" and "distinct (map (ob_id \<circ> fst) es)"
    and "(e, d) \<in> set es" and "work s (ob_id e) = Some (Waiting a t)"
  shows "work (deliver_all delivered failed es s) (ob_id e)
    \<in> {Some (Waiting a t), Some (delivery_outcome overflow d (ob_event e) a t)}"
  using assms
proof (induction es arbitrary: s)
  case (Cons x es)
  obtain e' d' where x: "x = (e', d')" by (cases x)
  let ?s = "deliver delivered failed d' e' s"
  have ok: "ok ?s" using Cons.prems(1) by (rule deliver_ok)
  show ?case
  proof (cases "(e, d) = (e', d')")
    case True
    then have "ob_id e \<notin> ob_id ` fst ` set es" using Cons.prems(2) by (auto simp: x)
    from deliver_all_other [OF ok this] deliver_this [OF Cons.prems(1,4), of d'] True Cons.prems(4) show ?thesis
      by (simp add: x)
  next
    case False
    with Cons.prems(3) have mem: "(e, d) \<in> set es" by (auto simp: x)
    then have "ob_id e \<in> (ob_id \<circ> fst) ` set es" by force
    with Cons.prems(2) have "ob_id e \<noteq> ob_id e'" by (simp add: x) metis
    then have "work ?s (ob_id e) = Some (Waiting a t)"
      using deliver_other [OF Cons.prems(1)] Cons.prems(4) by simp
    with Cons.IH [OF ok _ mem] Cons.prems(2,4) show ?thesis by (simp add: x)
  qed
qed simp

lemma claimed_batch:
  assumes "ok s" and "e \<in> set (fst (claim n now s))" and "work s (ob_id e) = Some (Waiting a t)"
  shows "ok (snd (claim n now s)) \<and> distinct (map (ob_id \<circ> fst) (map (\<lambda>e. (e, how e)) (fst (claim n now s))))
    \<and> (e, how e) \<in> set (map (\<lambda>e. (e, how e)) (fst (claim n now s)))
    \<and> work (snd (claim n now s)) (ob_id e) = Some (Waiting a (now + claimVisibility))"
  using claimed_ids [OF assms(1), of n now] claimed_hidden [OF assms] ok_claim [OF assms(1)] assms(2)
  by (simp add: comp_def)

lemma drain_batch:
  assumes "ok s" and "\<And>e. \<not> dl_stopped (how e)"
    and "e \<in> set (fst (claim n now s))" and "work s (ob_id e) = Some (Waiting a t)"
  shows "work (snd (drain claim delivered failed n now how s)) (ob_id e)
    = Some (delivery_outcome overflow (how e) (ob_event e) a (now + claimVisibility))"
  using deliver_all_none_stopped [of "snd (claim n now s)" "map (\<lambda>e. (e, how e)) (fst (claim n now s))"]
    claimed_batch [OF assms(1,3,4), of how] assms(2)
  by (auto simp: drain_def split_beta)

text \<open>Whatever happens to a claimed event, it is not due again at the moment it was claimed.\<close>

lemma drain_hides:
  assumes "ok s" and "e \<in> set (fst (claim n now s))" and "now \<le> dl_now (how e)"
    and "\<And>k. 0 < Backoff overflow k"
  shows "\<nexists>a t. work (snd (drain claim delivered failed n now how s)) (ob_id e) = Some (Waiting a t) \<and> t \<le> now"
proof -
  from claimed_due [OF assms(1,2)] obtain a t where w: "work s (ob_id e) = Some (Waiting a t)" by blast
  have "work (snd (drain claim delivered failed n now how s)) (ob_id e)
      \<in> {Some (Waiting a (now + claimVisibility)),
         Some (delivery_outcome overflow (how e) (ob_event e) a (now + claimVisibility))}"
    using deliver_all_either [of "snd (claim n now s)" "map (\<lambda>e. (e, how e)) (fst (claim n now s))"]
      claimed_batch [OF assms(1,2) w, of how]
    by (simp add: drain_def split_beta)
  moreover have "0 < claimVisibility" by (simp add: claimVisibility_def duration_defs)
  moreover have "now < dl_now (how e) + Backoff overflow (a + 1)"
    using assms(3) assms(4) [of "a + 1"] by linarith
  ultimately show ?thesis
    by (auto simp: delivery_outcome_def after_failure_def split: if_splits)
qed

lemma drain_rest:
  assumes "ok s" and "i \<notin> ob_id ` set (fst (claim n now s))"
  shows "work (snd (drain claim delivered failed n now how s)) i = work s i"
proof -
  obtain claimed s' where c: "claim n now s = (claimed, s')" by (cases "claim n now s")
  have "ok s'" using ok_claim [OF assms(1), of n now] by (simp add: c)
  moreover have "i \<notin> ob_id ` fst ` set (map (\<lambda>e. (e, how e)) claimed)"
    using assms(2) by (auto simp: c image_iff)
  ultimately show ?thesis
    using deliver_all_other [of s' i "map (\<lambda>e. (e, how e)) claimed"] unclaimed_same [OF assms]
    by (simp add: drain_def c)
qed

end

section \<open>The store keeps the contract\<close>

definition row_of :: "outbox_row list \<Rightarrow> string \<Rightarrow> outbox_row option" where
  "row_of rows i = find (\<lambda>r. ob_id r = i) rows"

definition work_in :: "outbox_row list \<Rightarrow> string \<Rightarrow> work option" where
  "work_in rows i = map_option work_of (row_of rows i)"

definition keyed :: "outbox_row list \<Rightarrow> bool" where
  "keyed rows \<longleftrightarrow> distinct (map ob_id rows)"

lemma row_of_map: "(\<And>r. ob_id (f r) = ob_id r) \<Longrightarrow> row_of (map f rows) i = map_option f (row_of rows i)"
  by (induction rows) (auto simp: row_of_def)

lemma row_of_Some: "row_of rows i = Some r \<Longrightarrow> r \<in> set rows \<and> ob_id r = i"
  by (auto simp: row_of_def find_Some_iff)

lemma row_of_in: "keyed rows \<Longrightarrow> r \<in> set rows \<Longrightarrow> row_of rows (ob_id r) = Some r"
  by (induction rows) (auto simp: keyed_def row_of_def)

lemma keyed_map: "(\<And>r. ob_id (f r) = ob_id r) \<Longrightarrow> keyed (map f rows) = keyed rows"
  by (simp add: keyed_def comp_def)

lemma MarkFailed_row:
  "MarkFailed ov i reason now rows = map (\<lambda>r. if ob_id r = i then
       r\<lparr>ob_attempts := ob_attempts r + 1, ob_error := take 1000 reason,
         ob_next := now + Backoff ov (ob_attempts r + 1),
         ob_dead := (if ob_attempts r + 1 \<ge> MaxAttempts then Some now else None)\<rparr> else r) rows"
  by (simp add: MarkFailed_def on_row_def Let_def)

lemma Claim_fst: "fst (Claim n now rows) = take n (sort_key (\<lambda>r. (ob_next r, ob_id r)) (filter (claimable now) rows))"
  by (simp add: Claim_def Let_def)

lemma Claim_snd:
  "snd (Claim n now rows) =
     map (\<lambda>r. if ob_id r \<in> ob_id ` set (fst (Claim n now rows)) then r\<lparr>ob_next := now + claimVisibility\<rparr> else r) rows"
  by (simp add: Claim_def Let_def)

lemma Claim_claimable: "r \<in> set (fst (Claim n now rows)) \<Longrightarrow> r \<in> set rows \<and> claimable now r"
  unfolding Claim_fst by (auto dest: in_set_takeD)

lemma Claim_length: "length (fst (Claim n now rows)) = min n (length (filter (claimable now) rows))"
  by (simp add: Claim_fst min.commute)

lemma Claim_distinct: "keyed rows \<Longrightarrow> distinct (map ob_id (fst (Claim n now rows)))"
proof -
  assume "keyed rows"
  then have "inj_on ob_id (set rows)" and "distinct rows" by (auto simp: keyed_def distinct_map)
  then have "distinct (map ob_id (sort_key (\<lambda>r. (ob_next r, ob_id r)) (filter (claimable now) rows)))"
    by (simp add: distinct_map inj_on_def)
  then show ?thesis unfolding Claim_fst by (simp add: take_map [symmetric] distinct_take)
qed

lemmas row_updates = on_row_def MarkDelivered_def MarkFailed_row work_in_def row_of_map

interpretation outbox: event_store Claim MarkDelivered "MarkFailed ov" keyed work_in ov for ov
proof unfold_locales
  fix rows :: "outbox_row list" and n :: nat and now :: time and e a t i
  assume keyed: "keyed rows"
  show "keyed (snd (Claim n now rows))" using keyed by (subst Claim_snd, subst keyed_map) auto
  show "distinct (map ob_id (fst (Claim n now rows)))" using keyed by (rule Claim_distinct)
  { assume e: "e \<in> set (fst (Claim n now rows))"
    with row_of_in [OF keyed] Claim_claimable [OF e] have row: "row_of rows (ob_id e) = Some e" by blast
    from Claim_claimable [OF e] row
    show "\<exists>a t. work_in rows (ob_id e) = Some (Waiting a t) \<and> t \<le> now"
      by (simp add: work_in_def work_of_def claimable_def)
    assume w: "work_in rows (ob_id e) = Some (Waiting a t)"
    show "work_in (snd (Claim n now rows)) (ob_id e) = Some (Waiting a (now + claimVisibility))"
      using w row e by (subst Claim_snd) (auto simp: work_in_def row_of_map work_of_def split: if_splits) }
  assume "i \<notin> ob_id ` set (fst (Claim n now rows))"
  then show "work_in (snd (Claim n now rows)) i = work_in rows i"
    by (subst Claim_snd, cases "row_of rows i") (auto simp: work_in_def row_of_map dest: row_of_Some)
next
  fix rows :: "outbox_row list" and i reason :: string and now t :: time and w a
  assume keyed: "keyed rows"
  show "keyed (MarkDelivered i now rows)" using keyed by (simp add: row_updates keyed_map)
  show "keyed (MarkFailed ov i reason now rows)" using keyed by (simp add: row_updates keyed_map)
  { assume "work_in rows i = Some w"
    then show "work_in (MarkDelivered i now rows) i = Some Delivered"
      by (cases "row_of rows i") (auto simp: row_updates work_of_def dest: row_of_Some) }
  { assume "work_in rows i = Some (Waiting a t)"
    then show "work_in (MarkFailed ov i reason now rows) i = Some (after_failure ov now a)"
      by (cases "row_of rows i")
        (auto simp: row_updates work_of_def after_failure_def dest: row_of_Some split: if_splits) }
next
  fix rows :: "outbox_row list" and i j reason :: string and now :: time
  assume j: "j \<noteq> i"
  show "work_in (MarkDelivered i now rows) j = work_in rows j"
    using j by (cases "row_of rows j") (auto simp: row_updates dest: row_of_Some)
  show "work_in (MarkFailed ov i reason now rows) j = work_in rows j"
    using j by (cases "row_of rows j") (auto simp: row_updates dest: row_of_Some)
qed

section \<open>Interleaving\<close>

text \<open>
  One committed transaction of any producer, dispatcher or operator, whatever it believes: an
  identifier may be stale, a delivery may be recorded twice or after somebody else's.
\<close>

inductive outbox_step :: "outbox_row list \<Rightarrow> outbox_row list \<Rightarrow> bool" where
  published: "Publish new_id now e rows = Inr rows' \<Longrightarrow> outbox_step rows rows'"
| claimed: "outbox_step rows (snd (Claim n now rows))"
| delivered: "outbox_step rows (MarkDelivered i now rows)"
| failed: "outbox_step rows (MarkFailed ov i reason now rows)"
| recovered: "outbox_step rows (snd (Recover i now rows))"
| discarded: "outbox_step rows (snd (Discard i reason now rows))"

text \<open>What holds of every row of the table: the dispatcher gives up only after ten attempts, and only
  work it gave up on is discarded.\<close>

definition row_sound :: "outbox_row \<Rightarrow> bool" where
  "row_sound r \<longleftrightarrow> 0 \<le> ob_attempts r
     \<and> (ob_dead r \<noteq> None \<longrightarrow> MaxAttempts \<le> ob_attempts r)
     \<and> (ob_discarded r \<noteq> None \<longrightarrow> ob_dead r \<noteq> None)"

definition table_sound :: "outbox_row list \<Rightarrow> bool" where
  "table_sound rows \<longleftrightarrow> keyed rows \<and> (\<forall>r \<in> set rows. row_sound r)"

text \<open>What no step takes away from a row.\<close>

definition row_kept :: "outbox_row \<Rightarrow> outbox_row \<Rightarrow> bool" where
  "row_kept r r' \<longleftrightarrow> ob_id r' = ob_id r \<and> ob_event r' = ob_event r
     \<and> (ob_published r \<noteq> None \<longrightarrow> ob_published r' = ob_published r)
     \<and> (ob_discarded r \<noteq> None \<longrightarrow> ob_discarded r' = ob_discarded r \<and> ob_reason r' = ob_reason r)"

lemma row_kept_refl [simp]: "row_kept r r"
  by (simp add: row_kept_def)

lemma row_kept_trans: "row_kept r s \<Longrightarrow> row_kept s t \<Longrightarrow> row_kept r t"
  by (auto simp: row_kept_def)

text \<open>Every transaction but \<open>Publish\<close> rewrites the rows one by one.\<close>

definition harmless :: "(outbox_row \<Rightarrow> outbox_row) \<Rightarrow> bool" where
  "harmless f \<longleftrightarrow> (\<forall>r. row_kept r (f r) \<and> (row_sound r \<longrightarrow> row_sound (f r)))"

lemma claim_harmless: "harmless (\<lambda>r. if ob_id r \<in> ids then r\<lparr>ob_next := t\<rparr> else r)"
  by (simp add: harmless_def row_kept_def row_sound_def)

lemma delivered_harmless:
  "harmless (\<lambda>r. if ob_id r = i \<and> ob_published r = None then r\<lparr>ob_published := Some now\<rparr> else r)"
  by (simp add: harmless_def row_kept_def row_sound_def)

lemma failed_harmless:
  "harmless (\<lambda>r. if ob_id r = i then
       r\<lparr>ob_attempts := ob_attempts r + 1, ob_error := e, ob_next := t r,
         ob_dead := (if ob_attempts r + 1 \<ge> MaxAttempts then Some now else None)\<rparr> else r)"
  by (auto simp: harmless_def row_kept_def row_sound_def)

lemma recovered_harmless:
  "harmless (\<lambda>r. if ob_id r = i \<and> failed_work r
     then r\<lparr>ob_dead := None, ob_attempts := 0, ob_next := now\<rparr> else r)"
  by (simp add: harmless_def row_kept_def row_sound_def failed_work_def)

lemma discarded_harmless:
  "harmless (\<lambda>r. if ob_id r = i \<and> failed_work r
     then r\<lparr>ob_discarded := Some now, ob_reason := e\<rparr> else r)"
  by (auto simp: harmless_def row_kept_def row_sound_def failed_work_def)

lemma step_cases:
  assumes "outbox_step rows rows'"
  shows "(\<exists>f. harmless f \<and> rows' = map f rows)
    \<or> (\<exists>r. rows' = rows @ [r] \<and> ob_id r \<notin> ob_id ` set rows \<and> row_sound r)"
  using assms
proof cases
  case (published new_id now e)
  then show ?thesis by (auto dest!: Publish_Inr simp: row_sound_def)
next
  case claimed
  show ?thesis unfolding claimed(1) by (intro disjI1 exI conjI) (rule claim_harmless, rule Claim_snd)
next
  case (delivered i now)
  show ?thesis unfolding delivered(1)
    by (intro disjI1 exI conjI) (rule delivered_harmless [where i = i and now = now], simp add: MarkDelivered_def on_row_def)
next
  case (failed ov i reason now)
  show ?thesis unfolding failed(1)
    by (intro disjI1 exI conjI)
      (rule failed_harmless [where i = i and now = now and e = "take 1000 reason"
          and t = "\<lambda>r. now + Backoff ov (ob_attempts r + 1)"],
        simp add: MarkFailed_row)
next
  case (recovered i now)
  show ?thesis unfolding recovered(1)
    by (intro disjI1 exI conjI) (rule recovered_harmless [where i = i and now = now], simp add: Recover_def on_row_def)
next
  case (discarded i reason now)
  show ?thesis unfolding discarded(1)
    by (intro disjI1 exI conjI)
      (rule discarded_harmless [where i = i and now = now and e = "take 1000 reason"], simp add: Discard_def on_row_def)
qed

lemma keyed_update: "harmless f \<Longrightarrow> keyed (map f rows) = keyed rows"
  by (rule keyed_map) (simp add: harmless_def row_kept_def)

lemma step_sound:
  assumes "outbox_step rows rows'" and "table_sound rows"
  shows "table_sound rows'"
  using step_cases [OF assms(1)] assms(2)
  by (elim disjE exE conjE) (auto simp: table_sound_def keyed_update, auto simp: harmless_def keyed_def)

lemma step_kept: "outbox_step rows rows' \<Longrightarrow> r \<in> set rows \<Longrightarrow> \<exists>r' \<in> set rows'. row_kept r r'"
  by (drule step_cases) (auto simp: harmless_def intro: row_kept_refl)

lemma steps_sound: "outbox_step\<^sup>*\<^sup>* rows rows' \<Longrightarrow> table_sound rows \<Longrightarrow> table_sound rows'"
  by (induction rule: rtranclp_induct) (auto dest: step_sound)

lemma steps_kept: "outbox_step\<^sup>*\<^sup>* rows rows' \<Longrightarrow> r \<in> set rows \<Longrightarrow> \<exists>r' \<in> set rows'. row_kept r r'"
proof (induction rule: rtranclp_induct)
  case base
  then show ?case using row_kept_refl by blast
next
  case (step s t)
  then obtain r' where "r' \<in> set s" "row_kept r r'" by blast
  with step_kept [OF step.hyps(2)] row_kept_trans show ?case by blast
qed

section \<open>The backoff curve\<close>

definition saturated :: "64 word \<Rightarrow> bool" where
  "saturated ov \<longleftrightarrow> ov = 0x8000000000000000 \<or> ov = 0x7FFFFFFFFFFFFFFF"

lemma Backoff_low: "n < 63 \<Longrightarrow> Backoff ov (int n + 1) = min backoff_cap (backoff_base * 2 ^ n)"
proof -
  assume "n < 63"
  then have "n \<in> set [0..<63]" by simp
  moreover have "\<forall>n \<in> set [0..<63]. Backoff 0 (int n + 1) = min backoff_cap (backoff_base * 2 ^ n)"
    by code_simp
  moreover have "Backoff ov (int n + 1) = Backoff 0 (int n + 1)"
    using \<open>n < 63\<close> by (simp add: Backoff_def)
  ultimately show ?thesis by simp
qed

lemma Backoff_high: "saturated ov \<Longrightarrow> 64 \<le> k \<Longrightarrow> Backoff ov k = backoff_cap"
proof -
  assume "saturated ov" and "64 \<le> k"
  then have n: "\<not> nat (k - 1) < 63" "\<not> k < 1" by auto
  have "Backoff 0x8000000000000000 64 = backoff_cap" "Backoff 0x7FFFFFFFFFFFFFFF 64 = backoff_cap" by code_simp+
  then have "Backoff ov 64 = backoff_cap" using \<open>saturated ov\<close> by (auto simp: saturated_def)
  moreover have "Backoff ov k = Backoff ov 64" using n unfolding Backoff_def Let_def by simp
  ultimately show ?thesis by simp
qed

text \<open>C38: The wait before another attempt doubles from ten seconds and stops at thirty minutes, for
  every attempt number there is: neither the conversion of the power from floating point nor the
  wrapping multiplication of the 64-bit duration ever shortens it, whichever way the processor converts
  a float that is out of range.\<close>

theorem backoff_doubles_to_the_cap:
  assumes "saturated ov"
  shows "Backoff ov k = min (30 * minute) (10 * second * 2 ^ nat (k - 1))"
proof (cases "k < 64")
  case True
  have "Backoff ov k = Backoff ov (int (nat (k - 1)) + 1)"
    by (simp add: Backoff_def)
  also have "\<dots> = min backoff_cap (backoff_base * 2 ^ nat (k - 1))"
    using True by (intro Backoff_low) simp
  finally show ?thesis by (simp add: backoff_cap_def backoff_base_def)
next
  case False
  then have "(2::int) ^ 63 \<le> 2 ^ nat (k - 1)" by (intro power_increasing) auto
  then have "30 * minute \<le> 10 * second * 2 ^ nat (k - 1)" by (simp add: duration_defs)
  with Backoff_high [OF assms] False show ?thesis by (simp add: backoff_cap_def)
qed

theorem backoff_doubles_to_the_cap_witness:
  "Backoff 0x7FFFFFFFFFFFFFFF 4 = 80 * second \<and> Backoff 0x7FFFFFFFFFFFFFFF 70 = 30 * minute"
  using backoff_doubles_to_the_cap [of "0x7FFFFFFFFFFFFFFF" 4] backoff_doubles_to_the_cap [of "0x7FFFFFFFFFFFFFFF" 70]
  by (simp add: saturated_def duration_defs)

lemma Backoff_pos: "0 < Backoff ov k"
  by (simp add: Backoff_def Let_def backoff_cap_def duration_defs)

text \<open>
  The waits between ten attempts add up to an hour, twelve minutes and thirty seconds: the comment on
  \<open>MaxAttempts\<close> says they span roughly a day.
\<close>

lemma attempts_span_an_hour:
  "(\<Sum>k \<leftarrow> [1, 2, 3, 4, 5, 6, 7, 8, 9]. Backoff ov k) = hour + 12 * minute + 30 * second"
proof -
  have "Backoff ov k = Backoff 0 k" if "k < 10" for k
  proof -
    have "nat (k - 1) < 63" using that by simp
    then show ?thesis by (simp add: Backoff_def)
  qed
  moreover have "(\<Sum>k \<leftarrow> [1, 2, 3, 4, 5, 6, 7, 8, 9]. Backoff 0 k) = hour + 12 * minute + 30 * second"
    by code_simp
  ultimately show ?thesis by simp
qed

section \<open>Properties of delivery\<close>

lemma never_claimed:
  "table_sound rows \<Longrightarrow> r \<in> set rows \<Longrightarrow> ob_published r \<noteq> None \<or> ob_discarded r \<noteq> None
     \<Longrightarrow> ob_id r \<notin> ob_id ` set (fst (Claim n now rows))"
proof
  assume sound: "table_sound rows" and r: "r \<in> set rows" "ob_published r \<noteq> None \<or> ob_discarded r \<noteq> None"
    and "ob_id r \<in> ob_id ` set (fst (Claim n now rows))"
  then obtain c where c: "c \<in> set rows" "claimable now c" "ob_id c = ob_id r"
    by (auto dest: Claim_claimable)
  with r(1) sound have "c = r" by (metis keyed_def table_sound_def distinct_map inj_on_eq_iff)
  with c(2) r sound show False by (auto simp: claimable_def table_sound_def row_sound_def)
qed

lemma empty_sound: "table_sound []"
  by (simp add: table_sound_def keyed_def)

text \<open>C33: Nothing published is lost and what is settled stays settled. However producers, dispatchers and
  operators interleave, from an empty table: an event that was ever written is still there, once, in the
  envelope it was written in; once delivered, it stays delivered, at the moment first recorded; once an
  operator discarded it, it stays discarded, for the reason given; and an event that is delivered or
  discarded is never claimed again.\<close>

theorem settled_work_stays_settled:
  assumes "outbox_step\<^sup>*\<^sup>* [] rows" and "outbox_step\<^sup>*\<^sup>* rows rows'" and "r \<in> set rows"
  shows "(\<exists>!r'. r' \<in> set rows' \<and> ob_id r' = ob_id r)
    \<and> (\<exists>r' \<in> set rows'. ob_id r' = ob_id r \<and> ob_event r' = ob_event r
      \<and> (ob_published r \<noteq> None \<longrightarrow> ob_published r' = ob_published r)
      \<and> (ob_discarded r \<noteq> None \<longrightarrow> ob_discarded r' = ob_discarded r \<and> ob_reason r' = ob_reason r)
      \<and> (ob_published r \<noteq> None \<or> ob_discarded r \<noteq> None
           \<longrightarrow> (\<forall>n now. ob_id r \<notin> ob_id ` set (fst (Claim n now rows')))))"
proof (intro conjI)
  have "table_sound rows" using steps_sound [OF assms(1) empty_sound] .
  then have sound: "table_sound rows'" using steps_sound [OF assms(2)] by blast
  obtain r' where r': "r' \<in> set rows'" "row_kept r r'" using steps_kept [OF assms(2,3)] by blast
  then have id: "ob_id r' = ob_id r" by (simp add: row_kept_def)
  show "\<exists>!r'. r' \<in> set rows' \<and> ob_id r' = ob_id r"
    using r'(1) id sound by (metis keyed_def table_sound_def distinct_map inj_on_eq_iff)
  have "ob_published r \<noteq> None \<or> ob_discarded r \<noteq> None \<Longrightarrow> ob_id r \<notin> ob_id ` set (fst (Claim n now rows'))" for n now
    using never_claimed [OF sound r'(1), of n now] r'(2) id by (auto simp: row_kept_def)
  with r' id show "\<exists>r' \<in> set rows'. ob_id r' = ob_id r \<and> ob_event r' = ob_event r
      \<and> (ob_published r \<noteq> None \<longrightarrow> ob_published r' = ob_published r)
      \<and> (ob_discarded r \<noteq> None \<longrightarrow> ob_discarded r' = ob_discarded r \<and> ob_reason r' = ob_reason r)
      \<and> (ob_published r \<noteq> None \<or> ob_discarded r \<noteq> None
           \<longrightarrow> (\<forall>n now. ob_id r \<notin> ob_id ` set (fst (Claim n now rows'))))"
    by (auto simp: row_kept_def)
qed

text \<open>A session's event, delivered under one dispatcher, and one whose handler never stops failing.\<close>

definition ex_started :: event where
  "ex_started = \<lparr>ev_type = ''interview.session_started.v1'', ev_schema_version = ''1.0'', ev_tenant = '''',
     ev_occurred_at = 0, ev_producer = ''interview'', ev_actor = \<lparr>oa_type = ''user'', oa_id = ''u1''\<rparr>,
     ev_purpose = ''practice'', ev_correlation = '''', ev_causation = '''',
     ev_payload = Object [(''session_id'', JString ''s1''), (''bundle_digest'', JString ''d'')]\<rparr>"

definition ex_row :: "string \<Rightarrow> outbox_row" where
  "ex_row i = \<lparr>ob_id = i, ob_event = ex_started\<lparr>ev_occurred_at := 5\<rparr>, ob_published = None, ob_attempts = 0,
     ob_next = 5, ob_error = '''', ob_dead = None, ob_discarded = None, ob_reason = ''''\<rparr>"

lemma ex_row_id: "ob_id (ex_row i) = i" by (simp add: ex_row_def)

lemma ex_row_fresh:
  "ob_published (ex_row i) = None" "ob_attempts (ex_row i) = 0" "ob_dead (ex_row i) = None" "ob_discarded (ex_row i) = None"
  by (simp_all add: ex_row_def)

lemma ex_publish: "Publish i 5 ex_started [] = Inr [ex_row i]"
proof -
  have "validate ex_started = None" by code_simp
  then show ?thesis by (simp add: Publish_def new_row_def ex_row_def) (simp add: ex_started_def is_zero_def)
qed

lemma ex_reach:
  "outbox_step\<^sup>*\<^sup>* [] [(ex_row ''a'')\<lparr>ob_published := Some 9\<rparr>]"
proof -
  have "outbox_step [] [ex_row ''a'']" using ex_publish by (rule outbox_step.published)
  moreover have "outbox_step [ex_row ''a''] (MarkDelivered ''a'' 9 [ex_row ''a''])" by (rule outbox_step.delivered)
  moreover have "MarkDelivered ''a'' 9 [ex_row ''a''] = [(ex_row ''a'')\<lparr>ob_published := Some 9\<rparr>]"
    by (simp add: MarkDelivered_def on_row_def ex_row_def)
  ultimately show ?thesis by (metis rtranclp.rtrancl_into_rtrancl rtranclp.rtrancl_refl)
qed

theorem settled_work_stays_settled_witness:
  "\<forall>n now ov. ''a'' \<notin> ob_id ` set (fst (Claim n now
     (MarkFailed ov ''a'' ''timeout'' 20 [(ex_row ''a'')\<lparr>ob_published := Some 9\<rparr>])))"
proof (intro allI)
  fix n now ov
  let ?r = "(ex_row ''a'')\<lparr>ob_published := Some 9\<rparr>"
  have "outbox_step\<^sup>*\<^sup>* [?r] (MarkFailed ov ''a'' ''timeout'' 20 [?r])" using outbox_step.failed by blast
  from settled_work_stays_settled [OF ex_reach this, THEN conjunct2] list.set_intros(1)
  obtain r' where "ob_published ?r \<noteq> None \<or> ob_discarded ?r \<noteq> None \<longrightarrow>
      (\<forall>n now. ob_id ?r \<notin> ob_id ` set (fst (Claim n now (MarkFailed ov ''a'' ''timeout'' 20 [?r]))))"
    by (metis (no_types, lifting))
  then show "''a'' \<notin> ob_id ` set (fst (Claim n now (MarkFailed ov ''a'' ''timeout'' 20 [?r])))"
    by (simp add: ex_row_id)
qed

text \<open>Two dispatchers never hold the same work. What one of them claims, no other claims until five
  minutes have passed, however large the batches are; and a claim is only ever of work that is due,
  undelivered and not given up on, at most as much of it as the batch allows, each event once.\<close>

theorem claims_are_disjoint:
  assumes "keyed rows" and "later < now + claimVisibility"
  shows "ob_id ` set (fst (Claim n now rows)) \<inter> ob_id ` set (fst (Claim m later (snd (Claim n now rows)))) = {}
    \<and> distinct (map ob_id (fst (Claim n now rows))) \<and> length (fst (Claim n now rows)) \<le> n
    \<and> (\<forall>r \<in> set (fst (Claim n now rows)). r \<in> set rows \<and> claimable now r)"
proof (intro conjI)
  have keyed: "keyed (snd (Claim n now rows))" using outbox.ok_claim [OF assms(1)] .
  show "ob_id ` set (fst (Claim n now rows)) \<inter> ob_id ` set (fst (Claim m later (snd (Claim n now rows)))) = {}"
  proof (rule ccontr)
    assume "ob_id ` set (fst (Claim n now rows)) \<inter> ob_id ` set (fst (Claim m later (snd (Claim n now rows)))) \<noteq> {}"
    then obtain e e' where e: "e \<in> set (fst (Claim n now rows))" "ob_id e = ob_id e'"
      and e': "e' \<in> set (fst (Claim m later (snd (Claim n now rows))))" by auto
    from outbox.claimed_due [OF assms(1) e(1)] outbox.claimed_hidden [OF assms(1) e(1)]
    obtain a where "work_in (snd (Claim n now rows)) (ob_id e) = Some (Waiting a (now + claimVisibility))" by blast
    with outbox.claimed_due [OF keyed e'] e(2) assms(2) show False by auto
  qed
  show "distinct (map ob_id (fst (Claim n now rows)))" using assms(1) by (rule Claim_distinct)
  show "length (fst (Claim n now rows)) \<le> n" by (simp add: Claim_length)
  show "\<forall>r \<in> set (fst (Claim n now rows)). r \<in> set rows \<and> claimable now r" using Claim_claimable by blast
qed

theorem claims_are_disjoint_witness:
  "fst (Claim 1 10 (snd (Claim 1 10 [ex_row ''a'', ex_row ''b'']))) = [ex_row ''b'']
   \<and> ''a'' \<notin> ob_id ` set (fst (Claim 2 10 (snd (Claim 1 10 [ex_row ''a'', ex_row ''b'']))))"
proof
  have keyed: "keyed [ex_row ''a'', ex_row ''b'']" by (simp add: keyed_def ex_row_id)
  have c: "fst (Claim 1 10 [ex_row ''a'', ex_row ''b'']) = [ex_row ''a'']" by code_simp
  show "''a'' \<notin> ob_id ` set (fst (Claim 2 10 (snd (Claim 1 10 [ex_row ''a'', ex_row ''b'']))))"
    using claims_are_disjoint [OF keyed, of 10 10 1 2]
    by (simp add: c claimVisibility_def duration_defs ex_row_id del: One_nat_def)
  show "fst (Claim 1 10 (snd (Claim 1 10 [ex_row ''a'', ex_row ''b'']))) = [ex_row ''b'']" by code_simp
qed

text \<open>A drained batch is accounted for, event by event. With nothing interfering, each claimed event
  whose handler took it is delivered, each whose handler failed or that nobody routed is waiting for a
  later attempt, one attempt further on, or given up on at the tenth; an event of a type that is
  explicitly ignored is delivered; and work that was not claimed is exactly as it was.\<close>

theorem drain_accounts_for_batch:
  assumes "keyed rows" and "\<And>e. dl_handler (how e) = Deliver router" "\<And>e. dl_recorded (how e)" "\<And>e. \<not> dl_stopped (how e)"
    and "drain Claim MarkDelivered (MarkFailed ov) n now how rows = (taken, rows')"
  shows "taken = length (fst (Claim n now rows))
    \<and> (\<forall>e \<in> set (fst (Claim n now rows)). work_in rows' (ob_id e) = Some
        (case rt_handlers router (ev_type (ob_event e)) of
           Some h \<Rightarrow> (if h (ob_event e) = None then Delivered else after_failure ov (dl_now (how e)) (ob_attempts e))
         | None \<Rightarrow> (if rt_ignored router (ev_type (ob_event e)) \<noteq> None then Delivered
                   else after_failure ov (dl_now (how e)) (ob_attempts e))))
    \<and> (\<forall>i. i \<notin> ob_id ` set (fst (Claim n now rows)) \<longrightarrow> work_in rows' i = work_in rows i)"
proof (intro conjI ballI allI impI)
  from assms(5) have rows': "rows' = snd (drain Claim MarkDelivered (MarkFailed ov) n now how rows)" by simp
  show "taken = length (fst (Claim n now rows))" using assms(5) by (simp add: drain_def split_beta)
  fix i assume "i \<notin> ob_id ` set (fst (Claim n now rows))"
  with outbox.drain_rest [OF assms(1)] show "work_in rows' i = work_in rows i" unfolding rows' by blast
next
  from assms(5) have rows': "rows' = snd (drain Claim MarkDelivered (MarkFailed ov) n now how rows)" by simp
  fix e assume e: "e \<in> set (fst (Claim n now rows))"
  then have "work_in rows (ob_id e) = Some (Waiting (ob_attempts e) (ob_next e))"
    using row_of_in [OF assms(1)] Claim_claimable [OF e]
    by (auto simp: work_in_def work_of_def claimable_def)
  from outbox.drain_batch [where how = how and ov = ov, OF assms(1,4) e this] assms(2-4)
  show "work_in rows' (ob_id e) = Some
        (case rt_handlers router (ev_type (ob_event e)) of
           Some h \<Rightarrow> (if h (ob_event e) = None then Delivered else after_failure ov (dl_now (how e)) (ob_attempts e))
         | None \<Rightarrow> (if rt_ignored router (ev_type (ob_event e)) \<noteq> None then Delivered
                   else after_failure ov (dl_now (how e)) (ob_attempts e)))"
    unfolding rows' by (auto simp: delivery_outcome_def Deliver_def split: option.splits)
qed

definition ex_router :: router where
  "ex_router = \<lparr>rt_handlers = Map.empty, rt_ignored = [''interview.session_ready.v1'' \<mapsto> ''no consumer yet'']\<rparr>"

definition ex_delivery :: "outbox_row \<Rightarrow> delivery" where
  "ex_delivery e = \<lparr>dl_handler = Deliver ex_router, dl_now = 20, dl_recorded = True, dl_stopped = False\<rparr>"

theorem drain_accounts_for_batch_witness:
  "work_in (snd (drain Claim MarkDelivered (MarkFailed 0) 5 10 ex_delivery [ex_row ''a''])) ''a''
     = Some (Waiting 1 (20 + 10 * second))"
proof -
  obtain taken rows' where d: "drain Claim MarkDelivered (MarkFailed 0) 5 10 ex_delivery [ex_row ''a''] = (taken, rows')"
    by (cases "drain Claim MarkDelivered (MarkFailed 0) 5 10 ex_delivery [ex_row ''a'']")
  have "keyed [ex_row ''a'']" by (simp add: keyed_def)
  from drain_accounts_for_batch [OF this, of ex_delivery ex_router, OF _ _ _ d]
  have "\<forall>e \<in> set (fst (Claim 5 10 [ex_row ''a''])). work_in rows' (ob_id e) = Some
      (case rt_handlers ex_router (ev_type (ob_event e)) of
         Some h \<Rightarrow> (if h (ob_event e) = None then Delivered else after_failure 0 (dl_now (ex_delivery e)) (ob_attempts e))
       | None \<Rightarrow> (if rt_ignored ex_router (ev_type (ob_event e)) \<noteq> None then Delivered
                 else after_failure 0 (dl_now (ex_delivery e)) (ob_attempts e)))"
    by (simp add: ex_delivery_def)
  moreover have "fst (Claim 5 10 [ex_row ''a'']) = [ex_row ''a'']" by code_simp
  moreover have "after_failure 0 20 0 = Waiting 1 (20 + 10 * second)" by code_simp
  ultimately show ?thesis
    by (simp add: d) (simp add: ex_router_def ex_delivery_def ex_row_def ex_started_def)
qed

text \<open>
  The inner loop of \<open>Run\<close>: a full batch means there is probably more, so the next claim happens at
  once.  Every round reads the clock of its own claim, and its deliveries take the time they take, so that
  what one round put off may be due again in the next: a round is the moment of its claim and what becomes of
  each delivery in it.  The loop ends at the first claim that is not full, with that moment; \<open>None\<close> when the
  rounds given run out before.
\<close>

fun drain_loop ::
  "64 word \<Rightarrow> nat \<Rightarrow> (time \<times> (outbox_row \<Rightarrow> delivery)) list \<Rightarrow> outbox_row list \<Rightarrow> (time \<times> outbox_row list) option" where
  "drain_loop ov batch [] rows = None"
| "drain_loop ov batch ((now, how) # rounds) rows =
     (case drain Claim MarkDelivered (MarkFailed ov) batch now how rows of
        (taken, rows') \<Rightarrow> if taken = batch then drain_loop ov batch rounds rows' else Some (now, rows'))"

text \<open>How many deliveries may still be made of work: one for each failure it has left.\<close>

fun deliveries_left :: "work option \<Rightarrow> nat" where
  "deliveries_left (Some (Waiting a t)) = Suc (nat (MaxAttempts - 1 - a))"
| "deliveries_left _ = 0"

definition backlog_work :: "outbox_row list \<Rightarrow> nat" where
  "backlog_work rows = (\<Sum>r \<leftarrow> rows. deliveries_left (Some (work_of r)))"

text \<open>A round in which nothing is stopped and every outcome is recorded, after the claim.\<close>

definition recording :: "time \<times> (outbox_row \<Rightarrow> delivery) \<Rightarrow> bool" where
  "recording x \<longleftrightarrow> (\<forall>e. dl_recorded (snd x e) \<and> \<not> dl_stopped (snd x e) \<and> fst x \<le> dl_now (snd x e))"

lemma backlog_work_bound:
  assumes "\<forall>r \<in> set rows. 0 \<le> ob_attempts r"
  shows "backlog_work rows \<le> nat MaxAttempts * length (filter (\<lambda>r. ob_published r = None \<and> ob_dead r = None) rows)"
  using assms
proof (induction rows)
  case (Cons r rows)
  then have "0 \<le> ob_attempts r" by simp
  then have "deliveries_left (Some (work_of r)) \<le> (if ob_published r = None \<and> ob_dead r = None then nat MaxAttempts else 0)"
    by (simp add: work_of_def MaxAttempts_def nat_le_iff)
  with Cons show ?case by (auto simp: backlog_work_def split: if_splits)
qed (simp add: backlog_work_def)

lemma backlog_work_ids:
  assumes "keyed rows"
  shows "backlog_work rows = (\<Sum>i \<in> ob_id ` set rows. deliveries_left (work_in rows i))"
proof -
  have inj: "inj_on ob_id (set rows)" and "distinct rows" using assms by (auto simp: keyed_def distinct_map)
  then have "backlog_work rows = (\<Sum>r \<in> set rows. deliveries_left (Some (work_of r)))"
    by (simp add: backlog_work_def sum_list_distinct_conv_sum_set)
  also have "\<dots> = (\<Sum>r \<in> set rows. deliveries_left (work_in rows (ob_id r)))"
    using row_of_in [OF assms] by (intro sum.cong) (simp_all add: work_in_def)
  finally show ?thesis by (simp add: sum.reindex [OF inj])
qed

lemma drain_shape:
  "keyed rows \<Longrightarrow> keyed (snd (drain Claim MarkDelivered (MarkFailed ov) n now how rows))"
  "map ob_id (snd (drain Claim MarkDelivered (MarkFailed ov) n now how rows)) = map ob_id rows"
proof -
  have "keyed rows \<Longrightarrow> keyed (deliver_all MarkDelivered (MarkFailed ov) es rows)" for es rows
    by (induction es arbitrary: rows) (auto simp: outbox.deliver_ok)
  then show "keyed rows \<Longrightarrow> keyed (snd (drain Claim MarkDelivered (MarkFailed ov) n now how rows))"
    using outbox.ok_claim [of rows n now] by (simp add: drain_def split_beta)
  have one: "map ob_id (deliver MarkDelivered (MarkFailed ov) d e rows) = map ob_id rows" for d e rows
    by (simp add: deliver_def MarkDelivered_def MarkFailed_row on_row_def comp_def if_distrib [of ob_id] cong: if_cong split: option.split)
  have "map ob_id (deliver_all MarkDelivered (MarkFailed ov) es rows) = map ob_id rows" for es rows
    by (induction es arbitrary: rows) (auto simp: one)
  moreover have "map ob_id (snd (Claim n now rows)) = map ob_id rows"
    by (subst Claim_snd) (simp add: comp_def if_distrib [of ob_id] cong: if_cong)
  ultimately show "map ob_id (snd (drain Claim MarkDelivered (MarkFailed ov) n now how rows)) = map ob_id rows"
    by (simp add: drain_def split_beta)
qed

lemma drain_uses_up:
  assumes "keyed rows" and "recording (now, how)"
  shows "backlog_work (snd (drain Claim MarkDelivered (MarkFailed ov) n now how rows)) + length (fst (Claim n now rows))
    \<le> backlog_work rows"
proof -
  let ?rows = "snd (drain Claim MarkDelivered (MarkFailed ov) n now how rows)" and ?c = "ob_id ` set (fst (Claim n now rows))"
  let ?I = "ob_id ` set rows"
  have ids: "ob_id ` set ?rows = ?I" using arg_cong [OF drain_shape(2), of set ov n now how rows] by simp
  have sub: "?c \<subseteq> ?I" using Claim_claimable by blast
  have "deliveries_left (work_in ?rows i) + (if i \<in> ?c then 1 else 0) \<le> deliveries_left (work_in rows i)" for i
  proof (cases "i \<in> ?c")
    case True
    then obtain e where e: "e \<in> set (fst (Claim n now rows))" "i = ob_id e" by blast
    from outbox.claimed_due [OF assms(1) e(1)] obtain a t where w: "work_in rows i = Some (Waiting a t)" by (auto simp: e(2))
    have "work_in ?rows i = Some (delivery_outcome ov (how e) (ob_event e) a (now + claimVisibility))"
      using outbox.drain_batch [where how = how and ov = ov, OF assms(1) _ e(1)] w assms(2) by (simp add: e(2) recording_def)
    with w True assms(2) show ?thesis by (auto simp: delivery_outcome_def after_failure_def recording_def MaxAttempts_def)
  next
    case False
    with outbox.drain_rest [OF assms(1) False] show ?thesis by simp
  qed
  then have "(\<Sum>i \<in> ?I. deliveries_left (work_in ?rows i) + (if i \<in> ?c then 1 else 0)) \<le> (\<Sum>i \<in> ?I. deliveries_left (work_in rows i))"
    by (rule sum_mono)
  moreover have "(\<Sum>i \<in> ?I. if i \<in> ?c then 1 else 0) = card ?c"
    using sub by (simp add: sum.If_cases Int_absorb1)
  moreover have "card ?c = length (fst (Claim n now rows))"
    using distinct_card [OF Claim_distinct [OF assms(1), of n now]] by simp
  ultimately show ?thesis
    by (simp add: backlog_work_ids [OF assms(1)] backlog_work_ids [OF drain_shape(1) [OF assms(1)]] ids sum.distrib)
qed

text \<open>A claim that is not full leaves nothing due at its moment.\<close>

lemma drain_leaves_nothing_due:
  assumes "keyed rows" and "recording (now, how)" and "length (fst (Claim n now rows)) \<noteq> n"
  shows "filter (claimable now) (snd (drain Claim MarkDelivered (MarkFailed ov) n now how rows)) = []"
proof -
  let ?rows = "snd (drain Claim MarkDelivered (MarkFailed ov) n now how rows)"
  have all: "set (filter (claimable now) rows) \<subseteq> set (fst (Claim n now rows))"
    using assms(3) unfolding Claim_length by (simp add: Claim_fst min_def split: if_splits)
  have "\<not> claimable now r" if r: "r \<in> set ?rows" for r
  proof
    assume c: "claimable now r"
    then have w: "work_in ?rows (ob_id r) = Some (Waiting (ob_attempts r) (ob_next r))" "ob_next r \<le> now"
      using row_of_in [OF drain_shape(1) [OF assms(1)] r] by (simp_all add: work_in_def work_of_def claimable_def)
    show False
    proof (cases "ob_id r \<in> ob_id ` set (fst (Claim n now rows))")
      case True
      then obtain e where "e \<in> set (fst (Claim n now rows))" "ob_id r = ob_id e" by blast
      with outbox.drain_hides [OF assms(1) this(1) _ Backoff_pos, of how ov] w assms(2) show False by (simp add: recording_def)
    next
      case False
      from outbox.drain_rest [OF assms(1) False] w have "work_in rows (ob_id r) = Some (Waiting (ob_attempts r) (ob_next r))" by simp
      then obtain x where "row_of rows (ob_id r) = Some x" "work_of x = Waiting (ob_attempts r) (ob_next r)" by (auto simp: work_in_def)
      with row_of_Some [of rows "ob_id r" x] w(2) have "x \<in> set (filter (claimable now) rows)" "ob_id x = ob_id r"
        by (auto simp: work_of_def claimable_def split: if_splits)
      with all False show False by (metis image_eqI subsetD)
    qed
  qed
  then show ?thesis by (simp add: filter_empty_conv)
qed

lemma drain_loop_ends:
  assumes "keyed rows" and "0 < batch" and "backlog_work rows div batch < length rounds" and "list_all recording rounds"
  shows "\<exists>now rows'. drain_loop ov batch rounds rows = Some (now, rows') \<and> now \<in> fst ` set rounds
    \<and> filter (claimable now) rows' = [] \<and> map ob_id rows' = map ob_id rows \<and> backlog_work rows' \<le> backlog_work rows"
  using assms(1,3,4)
proof (induction rounds arbitrary: rows)
  case (Cons x rounds)
  obtain now how where x: "x = (now, how)" by (cases x)
  with Cons.prems(3) have rec: "recording (now, how)" "list_all recording rounds" by simp_all
  obtain taken rows1 where d: "drain Claim MarkDelivered (MarkFailed ov) batch now how rows = (taken, rows1)"
    by (cases "drain Claim MarkDelivered (MarkFailed ov) batch now how rows")
  have taken: "taken = length (fst (Claim batch now rows))" using d by (simp add: drain_def split_beta)
  have keyed: "keyed rows1" and ids: "map ob_id rows1 = map ob_id rows"
    using drain_shape [where ov = ov and n = batch and now = now and how = how and rows = rows] Cons.prems(1) by (simp_all add: d)
  have used: "backlog_work rows1 + taken \<le> backlog_work rows"
    using drain_uses_up [OF Cons.prems(1) rec(1), of ov batch] by (simp add: d taken)
  show ?case
  proof (cases "taken = batch")
    case True
    with used have "backlog_work rows1 \<le> backlog_work rows - batch" "batch \<le> backlog_work rows" by simp_all
    then have "backlog_work rows1 div batch \<le> (backlog_work rows - batch) div batch" by (simp add: div_le_mono)
    also have "Suc \<dots> = backlog_work rows div batch" using \<open>batch \<le> _\<close> assms(2) by (simp add: le_div_geq)
    finally have "backlog_work rows1 div batch < length rounds" using Cons.prems(2) by (simp add: x)
    from Cons.IH [OF keyed this rec(2)] obtain later rows' where
      "drain_loop ov batch rounds rows1 = Some (later, rows')" "later \<in> fst ` set rounds" "filter (claimable later) rows' = []"
      "map ob_id rows' = map ob_id rows1" "backlog_work rows' \<le> backlog_work rows1" by blast
    with True used ids show ?thesis by (intro exI [of _ later] exI [of _ rows']) (simp add: x d)
  next
    case False
    with drain_leaves_nothing_due [OF Cons.prems(1) rec(1), of batch ov] used ids
    show ?thesis by (intro exI [of _ now] exI [of _ rows1]) (simp add: x d taken)
  qed
qed simp

text \<open>C34: A backlog drains, whatever the handlers answer and however long they take. A dispatcher that goes
  straight round again after every full batch, reading the clock anew for every claim, ends, where
  outcomes are recorded, within one round more than the deliveries its backlog has left fill batches, at most
  ten for each undelivered event, even if everything it put off is due again at its next claim; and what it
  leaves behind is not due at the moment of its last claim. Nobody else writes to the table meanwhile: what
  others publish prolongs the drain by its own deliveries.\<close>

theorem backlog_drains:
  assumes "keyed rows" and "0 < batch" and "backlog_work rows div batch < length rounds" and "list_all recording rounds"
  shows "(\<exists>now rows'. drain_loop ov batch rounds rows = Some (now, rows') \<and> now \<in> fst ` set rounds
      \<and> filter (claimable now) rows' = [] \<and> map ob_id rows' = map ob_id rows \<and> backlog_work rows' \<le> backlog_work rows)
    \<and> ((\<forall>r \<in> set rows. 0 \<le> ob_attempts r) \<longrightarrow>
        backlog_work rows \<le> 10 * length (filter (\<lambda>r. ob_published r = None \<and> ob_dead r = None) rows))"
  using drain_loop_ends [OF assms, of ov] backlog_work_bound [of rows] by (simp add: MaxAttempts_def)

text \<open>Two events nobody routes, each claim an hour after the one before: everything is due again every time.\<close>

definition ex_hourly :: "nat \<Rightarrow> (time \<times> (outbox_row \<Rightarrow> delivery)) list" where
  "ex_hourly n = map (\<lambda>k. (10 + int k * hour, \<lambda>e. (ex_delivery e)\<lparr>dl_now := 20 + int k * hour\<rparr>)) [0..<n]"

theorem backlog_drains_witness:
  "\<exists>now rows'. drain_loop 0 1 (ex_hourly 21) [ex_row ''a'', ex_row ''b''] = Some (now, rows') \<and> filter (claimable now) rows' = []"
proof -
  have "keyed [ex_row ''a'', ex_row ''b'']" by (simp add: keyed_def ex_row_id)
  moreover have "backlog_work [ex_row ''a'', ex_row ''b''] div 1 < length (ex_hourly 21)" by code_simp
  moreover have "list_all recording (ex_hourly 21)" by (simp add: list_all_iff ex_hourly_def recording_def ex_delivery_def)
  ultimately show ?thesis using backlog_drains [of "[ex_row ''a'', ex_row ''b'']" 1 "ex_hourly 21" 0] by auto
qed

lemma hourly_rounds_take_all_attempts:
  "drain_loop 0 1 (ex_hourly 20) [ex_row ''a'', ex_row ''b''] = None"
  by code_simp

text \<open>
  Where outcomes are not recorded there is no such bound: an event that is delivered and cannot be marked is
  claimed at every round that comes five minutes after the one before, for as many rounds as there are.
\<close>

definition ex_unrecorded :: "time \<Rightarrow> nat \<Rightarrow> (time \<times> (outbox_row \<Rightarrow> delivery)) list" where
  "ex_unrecorded start n = map (\<lambda>k. (start + int k * claimVisibility, \<lambda>e. (ex_delivery e)\<lparr>dl_recorded := False\<rparr>)) [0..<n]"

lemma ex_unrecorded_Suc: "ex_unrecorded start (Suc n) = (start, \<lambda>e. (ex_delivery e)\<lparr>dl_recorded := False\<rparr>) # ex_unrecorded (start + claimVisibility) n"
  by (simp add: ex_unrecorded_def upt_conv_Cons map_Suc_upt [symmetric] algebra_simps del: upt_Suc)

lemma unrecorded_outcomes_spin:
  "claimable start r \<Longrightarrow> drain_loop ov 1 (ex_unrecorded start n) [r] = None"
proof (induction n arbitrary: start r)
  case (Suc n)
  let ?how = "\<lambda>e. (ex_delivery e)\<lparr>dl_recorded := False\<rparr>"
  have "drain Claim MarkDelivered (MarkFailed ov) 1 start ?how [r] = (1, [r\<lparr>ob_next := start + claimVisibility\<rparr>])"
    using Suc.prems by (simp add: drain_def Claim_def deliver_def ex_delivery_def split: option.split)
  moreover have "claimable (start + claimVisibility) (r\<lparr>ob_next := start + claimVisibility\<rparr>)"
    using Suc.prems by (simp add: claimable_def)
  ultimately show ?case using Suc.IH unfolding ex_unrecorded_Suc by simp
qed (simp add: ex_unrecorded_def)

text \<open>An event nobody can deliver is given up on at the tenth failure, not before and not never. After
  any number of failures of an undelivered event that started afresh, its attempts are counted exactly and
  it is dead-lettered precisely from the tenth on; dead-lettered work is not claimed any more; and an
  operator who recovers it gets it back with its attempts counted from zero, once: a second recovery is
  told that nothing was recovered.\<close>

theorem tenth_failure_dead_letters:
  assumes "row_of rows i = Some r" and "ob_published r = None" "ob_attempts r = 0" "ob_dead r = None" "ob_discarded r = None"
    and "rows' = fold (\<lambda>(reason, now). MarkFailed ov i reason now) fs rows"
  shows "\<exists>r'. row_of rows' i = Some r' \<and> ob_attempts r' = int (length fs)
    \<and> (ob_dead r' \<noteq> None \<longleftrightarrow> 10 \<le> length fs)
    \<and> (10 \<le> length fs \<longrightarrow> \<not> claimable now r'
        \<and> fst (Recover i now rows')
        \<and> row_of (snd (Recover i now rows')) i = Some (r'\<lparr>ob_dead := None, ob_attempts := 0, ob_next := now\<rparr>)
        \<and> (keyed rows' \<longrightarrow> \<not> fst (Recover i later (snd (Recover i now rows')))))"
proof -
  have "\<exists>r'. row_of rows' i = Some r' \<and> ob_attempts r' = int (length fs) \<and> ob_published r' = None
      \<and> ob_discarded r' = None \<and> (ob_dead r' \<noteq> None \<longleftrightarrow> 10 \<le> length fs)"
    unfolding assms(6)
  proof (induction fs rule: rev_induct)
    case Nil
    then show ?case using assms(1-5) by simp
  next
    case (snoc x fs)
    then obtain s where s: "row_of (fold (\<lambda>(reason, now). MarkFailed ov i reason now) fs rows) i = Some s"
      "ob_attempts s = int (length fs)" "ob_published s = None" "ob_discarded s = None" by blast
    obtain reason t where x: "x = (reason, t)" by (cases x)
    let ?s = "s\<lparr>ob_attempts := ob_attempts s + 1, ob_error := take 1000 reason, ob_next := t + Backoff ov (ob_attempts s + 1),
         ob_dead := (if ob_attempts s + 1 \<ge> MaxAttempts then Some t else None)\<rparr>"
    have "row_of (fold (\<lambda>(reason, now). MarkFailed ov i reason now) (fs @ [x]) rows) i = Some ?s"
      using s(1) row_of_Some [OF s(1)] by (simp add: x MarkFailed_row row_of_map)
    with s show ?case by (simp add: MaxAttempts_def)
  qed
  then obtain r' where r': "row_of rows' i = Some r'" "ob_attempts r' = int (length fs)" "ob_published r' = None"
    "ob_discarded r' = None" "ob_dead r' \<noteq> None \<longleftrightarrow> 10 \<le> length fs" by blast
  note in_rows = row_of_Some [OF r'(1)]
  { assume dead: "10 \<le> length fs"
    with r' have f: "failed_work r'" by (simp add: failed_work_def)
    have rec: "row_of (snd (Recover i now rows')) i = Some (r'\<lparr>ob_dead := None, ob_attempts := 0, ob_next := now\<rparr>)"
      using r'(1) f in_rows by (simp add: Recover_def on_row_def row_of_map)
    have "\<not> fst (Recover i later (snd (Recover i now rows')))" if "keyed rows'"
    proof -
      have "keyed (snd (Recover i now rows'))" using that by (simp add: Recover_def on_row_def keyed_map)
      from row_of_in [OF this] rec show ?thesis by (force simp: Recover_def failed_work_def)
    qed
    with rec f dead r'(5) in_rows have "\<not> claimable now r' \<and> fst (Recover i now rows')
      \<and> row_of (snd (Recover i now rows')) i = Some (r'\<lparr>ob_dead := None, ob_attempts := 0, ob_next := now\<rparr>)
      \<and> (keyed rows' \<longrightarrow> \<not> fst (Recover i later (snd (Recover i now rows'))))"
      by (auto simp: claimable_def Recover_def) }
  with r' show ?thesis by blast
qed

theorem tenth_failure_dead_letters_witness:
  "fst (Recover ''a'' 99 (fold (\<lambda>(reason, now). MarkFailed 0 ''a'' reason now)
     (replicate 10 (''timeout'', 50)) [ex_row ''a'']))"
proof -
  have "row_of [ex_row ''a''] ''a'' = Some (ex_row ''a'')" by (simp add: row_of_def ex_row_id)
  from tenth_failure_dead_letters [OF this ex_row_fresh refl, of 0 "replicate 10 (''timeout'', 50)" 99 99]
  show ?thesis by (elim exE) simp
qed

text \<open>
  A claim is hidden for five minutes and no longer: a batch whose deliveries take more than that is
  claimed again while it is still being delivered, although the batch is fifty events of up to thirty
  seconds each and the comment on the batch size says that the claim holds a row lock for the whole batch.
\<close>

lemma slow_batch_is_claimed_again:
  "fst (Claim 50 (10 + claimVisibility) (snd (Claim 50 10 [ex_row ''a'']))) = [(ex_row ''a'')\<lparr>ob_next := 10 + claimVisibility\<rparr>]"
  by code_simp

end
