(* ===== verification/Recruiting_Tables.thy ===== *)
theory Recruiting_Tables
  imports Row_Scope Outbox
begin

text \<open>
  The tables of the \<open>recruiting\<close> schema
  (\<open>services/platform/platform/database/sql/0043\<close>, \<open>0044\<close>, \<open>0055\<close> to \<open>0064\<close>) and the domain types of
  \<open>services/platform/internal/recruiting\<close> that their rows are read into, one record for both.  Identifiers
  are canonical UUID text; an empty string stands for SQL's \<open>NULL\<close> in the columns that are nullable.  A
  transaction is a function of the tables: what it refuses leaves them as they were, and its clock is the
  start of the transaction, an argument.
\<close>

section \<open>Campaigns\<close>

datatype campaign_status = StatusDraft | StatusOpen | StatusClosed

record determination =
  jd_id :: string
  jd_jurisdiction :: string
  jd_version :: int
  jd_disclosure :: string
  jd_appeal :: string
  jd_approver :: string
  jd_approved_at :: time

record campaign =
  cm_id :: string
  cm_tenant :: string
  cm_name :: string
  cm_status :: campaign_status
  cm_role :: string
  cm_jurisdiction :: string
  cm_determination :: string
  cm_opened_at :: "time option"
  cm_closed_at :: "time option"
  cm_created_at :: time
  cm_created_by :: string

record pin =
  pk_type :: string
  pk_reference :: string
  pk_version :: string
  pk_digest :: string
  pk_artifact :: string

record pin_row =
  pkr_campaign :: string
  pkr_tenant :: string
  pkr_pin :: pin
  pkr_pinned_at :: time

record recruiter_row =
  rk_campaign :: string
  rk_tenant :: string
  rk_user :: string
  rk_granted_at :: time
  rk_granted_by :: string

section \<open>Disclosure and consent\<close>

record acceptance =
  dq_tenant :: string
  dq_campaign :: string
  dq_candidate :: string
  dq_digest :: string
  dq_version :: string
  dq_accepted_at :: time

record consent_decision =
  kd_purpose :: string
  kd_required :: bool
  kd_granted :: bool

record consent_row =
  kdr_id :: string
  kdr_tenant :: string
  kdr_campaign :: string
  kdr_candidate :: string
  kdr_decision :: consent_decision
  kdr_digest :: string
  kdr_decided_at :: time

section \<open>Accommodations\<close>

record accommodation_request =
  qa_id :: string
  qa_tenant :: string
  qa_campaign :: string
  qa_candidate :: string
  qa_adjustment :: string
  qa_requested_at :: time

record accommodation_decision =
  qd_request :: string
  qd_granted :: bool
  qd_decided_by :: string
  qd_decided_at :: time

record accommodation_decision_row =
  qdr_id :: string
  qdr_tenant :: string
  qdr_decision :: accommodation_decision

record fulfilment =
  qf_request :: string
  qf_session :: string
  qf_fulfilled_at :: time

record fulfilment_row =
  qfr_id :: string
  qfr_tenant :: string
  qfr_fulfilment :: fulfilment

section \<open>Invitations\<close>

datatype invitation_outcome =
    InvitationLive
  | InvitationAccepted
  | InvitationDeclined
  | InvitationRevoked
  | InvitationSuperseded

record invitation =
  nv_id :: string
  nv_tenant :: string
  nv_campaign :: string
  nv_recipient :: string
  nv_email :: string
  nv_issued_by :: string
  nv_issued_at :: time
  nv_expires_at :: time
  nv_outcome :: invitation_outcome
  nv_outcome_at :: "time option"
  nv_accepted_candidate :: string

record invitation_row =
  nvr_token_hash :: string
  nvr_invitation :: invitation

record re_invitation =
  rn_id :: string
  rn_campaign :: string
  rn_tenant :: string
  rn_candidate :: string
  rn_reason :: string
  rn_decided_by :: string
  rn_interrupted :: string
  rn_consumed :: string
  rn_created_at :: time

section \<open>Decisions and appeals\<close>

record band_override =
  bo_competency :: string
  bo_recorded :: string
  bo_override :: string
  bo_rationale :: string

record evidence_version =
  vr_evaluation :: string
  vr_result :: string
  vr_rubric :: string

record review_decision =
  hd_id :: string
  hd_session :: string
  hd_decided_by :: string
  hd_decision :: string
  hd_reason :: string
  hd_evidence :: evidence_version
  hd_overrides :: "band_override list"
  hd_created_at :: time

record review_row =
  hdr_tenant :: string
  hdr_campaign :: string
  hdr_review :: review_decision

record resolution =
  rz_outcome :: string
  rz_rationale :: string
  rz_disclosure :: string
  rz_resolved_by :: string
  rz_resolved_at :: time

record re_review =
  ap_id :: string
  ap_session :: string
  ap_requested_by :: string
  ap_reason :: string
  ap_decision :: string
  ap_original_reviewer :: string
  ap_frozen :: evidence_version
  ap_bundle :: string
  ap_assigned_to :: string
  ap_raised_at :: time
  ap_due_at :: time
  ap_resolution :: "resolution option"

record re_review_row =
  apr_tenant :: string
  apr_campaign :: string
  apr_review :: re_review

section \<open>The job context\<close>

text \<open>Job text is a list of code points, measured in the bytes of their encoding.\<close>

type_synonym rune = nat

record job_context =
  jc_campaign :: string
  jc_tenant :: string
  jc_source :: "rune list"
  jc_version :: string
  jc_submitted_at :: time

record requirement =
  jq_id :: string
  jq_campaign :: string
  jq_text :: "rune list"
  jq_start :: int
  jq_end :: int
  jq_status :: string
  jq_version :: string

record requirement_row =
  jqr_tenant :: string
  jqr_requirement :: requirement
  jqr_created_at :: time

section \<open>The schema\<close>

record recruiting_db =
  ry_determinations :: "determination list"
  ry_campaigns :: "campaign list"
  ry_pins :: "pin_row list"
  ry_recruiters :: "recruiter_row list"
  ry_acceptances :: "(string \<times> acceptance) list"
  ry_consents :: "consent_row list"
  ry_requests :: "accommodation_request list"
  ry_answers :: "accommodation_decision_row list"
  ry_fulfilments :: "fulfilment_row list"
  ry_invitations :: "invitation_row list"
  ry_reinvitations :: "re_invitation list"
  ry_reviews :: "review_row list"
  ry_rereviews :: "re_review_row list"
  ry_contexts :: "job_context list"
  ry_requirements :: "requirement_row list"
  ry_outbox :: "outbox_row list"

definition empty_recruiting :: recruiting_db where
  "empty_recruiting = \<lparr>ry_determinations = [], ry_campaigns = [], ry_pins = [], ry_recruiters = [], ry_acceptances = [],
     ry_consents = [], ry_requests = [], ry_answers = [], ry_fulfilments = [], ry_invitations = [], ry_reinvitations = [],
     ry_reviews = [], ry_rereviews = [], ry_contexts = [], ry_requirements = [], ry_outbox = []\<rparr>"

section \<open>Errors\<close>

text \<open>
  The sentinels of the context, and the refusals that have none: an empty scope, a statement the database
  refuses, an event the outbox refuses, an email that was not enqueued, a field left unnamed.
\<close>

datatype recruiting_error =
    ErrNotPublished string
  | ErrNoDetermination
  | ErrIncompleteConfiguration string
  | ErrNotDraft
  | ErrDuplicateArtifact string
  | ErrNoAccess
  | ErrConsentRefused string
  | ErrConsentMissing string
  | ErrPurposeCannotBeRequired string
  | ErrDisclosureIncomplete string
  | ErrNotADigest
  | ErrUnknownAdjustment
  | ErrRequestTooLate
  | ErrUnknownPhase
  | ErrNoDecider
  | ErrRequestNotFound
  | ErrNotGranted
  | ErrCampaignNotOpen
  | ErrInvitationNotFound
  | ErrInvitationUnknownToken
  | ErrInvitationNotLive
  | ErrReInvitationReasonRequired
  | ErrReInvitationDeciderRequired
  | ErrNoReInvitation
  | ErrDecisionUnknown
  | ErrDecisionReasonRequired
  | ErrDecisionActorRequired
  | ErrOverrideIncomplete
  | ErrAppealNoDecision
  | ErrAppealReasonRequired
  | ErrAppealSelfReview
  | ErrAppealUnknown
  | ErrAppealResolved
  | ErrAppealResolverNotAssigned
  | ErrAppealOutcomeInvalid
  | ErrRequirementNotFound
  | ErrRequirementsFrozen
  | FieldUnnamed
  | NoTenantScope
  | StatementRefused
  | OutboxRefused publish_error
  | EnqueueRefused

section \<open>Transactions\<close>

text \<open>
  Every tenant-scoped method begins with \<open>database.SetTenant\<close>, which refuses a blank tenant; the policy of
  every table but the determinations then admits the rows that carry it.
\<close>

definition as_tenant :: "string \<Rightarrow> recruiting_error + 'a \<Rightarrow> recruiting_error + 'a" where
  "as_tenant tenant run = (if SetTenant tenant = None then Inl NoTenantScope else run)"

definition as_user :: "string \<Rightarrow> recruiting_error + 'a \<Rightarrow> recruiting_error + 'a" where
  "as_user user run = (if SetUser user = None then Inl NoTenantScope else run)"

lemma as_tenant_Inr: "as_tenant t r = Inr x \<longleftrightarrow> TrimSpace t \<noteq> '''' \<and> r = Inr x"
  by (simp add: as_tenant_def SetTenant_def)

lemma as_user_Inr: "as_user u r = Inr x \<longleftrightarrow> TrimSpace u \<noteq> '''' \<and> r = Inr x"
  by (simp add: as_user_def SetUser_def)

lemma find_SomeD: "find P xs = Some x \<Longrightarrow> x \<in> set xs \<and> P x"
  by (auto simp: find_Some_iff)

lemma TrimSpace_Nil [simp]: "TrimSpace '''' = ''''"
  by (simp add: TrimSpace_def)

text \<open>
  \<open>ORDER BY t DESC LIMIT 1\<close>: the row of the greatest key; of rows that tie, the one inserted last, where
  the database leaves the choice open.
\<close>

definition newest_by :: "('a \<Rightarrow> int) \<Rightarrow> 'a list \<Rightarrow> 'a option" where
  "newest_by t xs = (case xs of [] \<Rightarrow> None | y # ys \<Rightarrow> Some (last (sort_key t xs)))"

definition newest_first :: "('a \<Rightarrow> int) \<Rightarrow> 'a list \<Rightarrow> 'a list" where
  "newest_first t xs = rev (sort_key t xs)"

lemma newest_by_None [simp]: "newest_by t xs = None \<longleftrightarrow> xs = []"
  by (simp add: newest_by_def split: list.split)

lemma newest_by_Some:
  assumes "newest_by t xs = Some x"
  shows "x \<in> set xs" and "\<forall>y \<in> set xs. t y \<le> t x"
proof -
  from assms have ne: "xs \<noteq> []" and x: "x = last (sort_key t xs)"
    by (auto simp: newest_by_def split: list.splits)
  from ne have "sort_key t xs \<noteq> []" by (metis set_empty set_sort)
  then have "last (sort_key t xs) \<in> set (sort_key t xs)" by (rule last_in_set)
  with x show "x \<in> set xs" by simp
  have "sorted (map t (sort_key t xs))" by simp
  then have "\<forall>y \<in> set (sort_key t xs). t y \<le> t (last (sort_key t xs))"
    using sorted_last_max [of "map t (sort_key t xs)"] \<open>sort_key t xs \<noteq> []\<close> by (auto simp: last_map)
  with x show "\<forall>y \<in> set xs. t y \<le> t x" by simp
qed

lemma sort_key_append_max:
  fixes t :: "'a \<Rightarrow> int"
  assumes "\<forall>y \<in> set xs. t y \<le> t x"
  shows "sort_key t (xs @ [x]) = sort_key t xs @ [x]"
proof (rule properties_for_sort_key)
  show "mset (sort_key t xs @ [x]) = mset (xs @ [x])" by simp
next
  fix k assume "k \<in> set (sort_key t xs @ [x])"
  show "filter (\<lambda>y. t k = t y) (sort_key t xs @ [x]) = filter (\<lambda>y. t k = t y) (xs @ [x])"
    using sort_key_stable [of t "t k" xs] by (simp add: eq_commute)
next
  show "sorted (map t (sort_key t xs @ [x]))" using assms by (auto simp: sorted_append)
qed

lemma newest_by_append:
  assumes "\<forall>y \<in> set xs. t y \<le> t x"
  shows "newest_by t (xs @ [x]) = Some x"
  using sort_key_append_max [OF assms] by (auto simp: newest_by_def split: list.split)

text \<open>\<open>UPDATE ... WHERE ... RETURNING\<close>: the rows that match are rewritten, and the first of them returned.\<close>

definition update_returning :: "('a \<Rightarrow> bool) \<Rightarrow> ('a \<Rightarrow> 'a) \<Rightarrow> 'a list \<Rightarrow> ('a \<times> 'a list) option" where
  "update_returning P f xs =
     (case find P xs of None \<Rightarrow> None | Some x \<Rightarrow> Some (f x, map (\<lambda>y. if P y then f y else y) xs))"

lemma update_returning_Some:
  "update_returning P f xs = Some (y, ys) \<Longrightarrow>
     \<exists>x \<in> set xs. P x \<and> y = f x \<and> ys = map (\<lambda>y. if P y then f y else y) xs"
  by (auto simp: update_returning_def split: option.splits dest!: find_SomeD)

lemma update_returning_None: "update_returning P f xs = None \<longleftrightarrow> (\<forall>x \<in> set xs. \<not> P x)"
  by (auto simp: update_returning_def find_None_iff split: option.split dest: find_SomeD)

end
