(* ===== verification/Content_Registry.thy ===== *)
theory Content_Registry
  imports Row_Scope Outbox
begin

text \<open>
  \<open>services/platform/internal/content\<close>: the artifact registry.  An artifact is one version of one
  reference, identified by the digest of its body; a pointer names the version a reference resolves to.  The
  statements are those of \<open>content/db/queries.sql\<close> under the policies, triggers and constraints of migration
  0013 and its successors; an empty tenant is a row of the platform's, and rows of other schemas that a column
  refers to are taken to exist.  The canonical digest of a body is an argument: \<open>None\<close> is a body that does not
  decode.
\<close>

section \<open>The lifecycle\<close>

datatype artifact_status =
    ArtifactDraft | ArtifactValidating | ArtifactApproved | ArtifactPublished | ArtifactDeprecated | ArtifactRetired

definition artifact_transitions :: "artifact_status \<Rightarrow> artifact_status list" where
  "artifact_transitions s =
     (case s of
        ArtifactDraft \<Rightarrow> [ArtifactValidating]
      | ArtifactValidating \<Rightarrow> [ArtifactApproved, ArtifactDraft]
      | ArtifactApproved \<Rightarrow> [ArtifactPublished]
      | ArtifactPublished \<Rightarrow> [ArtifactDeprecated]
      | ArtifactDeprecated \<Rightarrow> [ArtifactRetired]
      | ArtifactRetired \<Rightarrow> [])"

definition artifact_can_move :: "artifact_status \<Rightarrow> artifact_status \<Rightarrow> bool" where
  "artifact_can_move from to \<longleftrightarrow> to \<in> set (artifact_transitions from)"

text \<open>The states a version has passed publication in.\<close>

definition past_publication :: "artifact_status \<Rightarrow> bool" where
  "past_publication s \<longleftrightarrow> s \<in> {ArtifactPublished, ArtifactDeprecated, ArtifactRetired}"

lemma past_publication_stays:
  "past_publication s \<Longrightarrow> artifact_can_move s s' \<Longrightarrow> past_publication s'"
  by (cases s) (auto simp: past_publication_def artifact_can_move_def artifact_transitions_def)

section \<open>Rows\<close>

type_synonym body = string

type_synonym digester = "body \<Rightarrow> string option"

record artifact =
  aa_id :: string
  aa_type :: string
  aa_reference :: string
  aa_version :: string
  aa_schema :: string
  aa_digest :: string
  aa_body :: body
  aa_status :: artifact_status
  aa_tenant :: string
  aa_created_by :: string
  aa_created_at :: time
  aa_published_by :: string
  aa_published_at :: "time option"

record artifact_draft =
  da_type :: string
  da_reference :: string
  da_version :: string
  da_schema :: string
  da_body :: body
  da_tenant :: string
  da_created_by :: string

record pointer =
  po_reference :: string
  po_tenant :: string
  po_artifact :: string
  po_updated_by :: string
  po_updated_at :: time

record registry_audit =
  ra_tenant :: string
  ra_actor :: string
  ra_action :: string
  ra_subject :: string
  ra_at :: time

record registry =
  xr_artifacts :: "artifact list"
  xr_pointers :: "pointer list"
  xr_audit :: "registry_audit list"

datatype content_error =
    ArtifactNotFound
  | StaleStatus
  | SelfPublish
  | NeverPublished
  | NotADraft
  | DigestMismatch
  | BodyUndecodable
  | TransitionInvalid
  | PublicationNeedsPublish
  | ContentScopeEmpty
  | ContentRefused

text \<open>The types the constraint on the column admits, as the last migration that restates it leaves them.\<close>

definition artifact_types :: "string list" where
  "artifact_types = [''persona'', ''plan'', ''rule_pack'', ''rubric'', ''role_standard'', ''prompt'', ''model_policy'',
     ''articulation_policy'', ''catalogue'', ''consent_text'', ''screening_disclosure'', ''accommodation_policy'']"

section \<open>Scopes\<close>

text \<open>
  \<open>scope\<close> enters the tenant's when there is one, and none otherwise; \<open>actingScope\<close> enters the actor's
  own where there is no tenant.  The policy admits the platform's rows to everyone.
\<close>

definition in_content_scope :: "string \<Rightarrow> content_error + 'a \<Rightarrow> content_error + 'a" where
  "in_content_scope tenant run =
     (if tenant \<noteq> '''' \<and> SetTenant tenant = None then Inl ContentScopeEmpty else run)"

definition in_acting_scope :: "string \<Rightarrow> string \<Rightarrow> content_error + 'a \<Rightarrow> content_error + 'a" where
  "in_acting_scope tenant actor run =
     in_content_scope tenant (if tenant = '''' \<and> SetUser actor = None then Inl ContentScopeEmpty else run)"

definition artifact_visible :: "string \<Rightarrow> artifact \<Rightarrow> bool" where
  "artifact_visible tenant a \<longleftrightarrow> aa_tenant a = '''' \<or> aa_tenant a = tenant"

definition pointer_visible :: "string \<Rightarrow> pointer \<Rightarrow> bool" where
  "pointer_visible tenant p \<longleftrightarrow> po_tenant p = '''' \<or> po_tenant p = tenant"

lemma in_content_scope_Inr:
  "in_content_scope t r = Inr x \<longleftrightarrow> (t = '''' \<or> TrimSpace t \<noteq> '''') \<and> r = Inr x"
  by (auto simp: in_content_scope_def SetTenant_def)

lemma in_acting_scope_Inr:
  "in_acting_scope t u r = Inr x \<longleftrightarrow> (t = '''' \<or> TrimSpace t \<noteq> '''') \<and> (t = '''' \<longrightarrow> TrimSpace u \<noteq> '''') \<and> r = Inr x"
  by (auto simp: in_acting_scope_def in_content_scope_Inr SetUser_def)

section \<open>Statements\<close>

definition artifact_key :: "artifact \<Rightarrow> string \<times> string \<times> string" where
  "artifact_key a = (aa_tenant a, aa_reference a, aa_version a)"

text \<open>
  A body is read back as it was written.  The \<open>jsonb\<close> column keeps the document and not its text; what it
  normalizes (the order of keys, white space) the digest normalizes too, except for a negative zero, which the
  column does not keep and the digest does: bodies with one are outside the model.
\<close>

definition InsertArtifact :: "string \<Rightarrow> artifact \<Rightarrow> registry \<Rightarrow> content_error + registry" where
  "InsertArtifact tenant a db =
     (if \<not> artifact_visible tenant a \<or> aa_type a \<notin> set artifact_types
         \<or> aa_id a \<in> aa_id ` set (xr_artifacts db) \<or> artifact_key a \<in> artifact_key ` set (xr_artifacts db)
      then Inl ContentRefused
      else Inr (db\<lparr>xr_artifacts := xr_artifacts db @ [a]\<rparr>))"

definition find_artifact :: "string \<Rightarrow> (artifact \<Rightarrow> bool) \<Rightarrow> registry \<Rightarrow> artifact option" where
  "find_artifact tenant P db = find (\<lambda>a. artifact_visible tenant a \<and> P a) (xr_artifacts db)"

definition GetArtifact :: "string \<Rightarrow> string \<Rightarrow> registry \<Rightarrow> artifact option" where
  "GetArtifact tenant i db = find_artifact tenant (\<lambda>a. aa_id a = i) db"

definition GetArtifactByVersion :: "string \<Rightarrow> string \<Rightarrow> string \<Rightarrow> registry \<Rightarrow> artifact option" where
  "GetArtifactByVersion tenant ref version db =
     find_artifact tenant (\<lambda>a. aa_reference a = ref \<and> aa_version a = version \<and> aa_tenant a = tenant) db"

definition GetArtifactByDigest :: "string \<Rightarrow> string \<Rightarrow> registry \<Rightarrow> artifact option" where
  "GetArtifactByDigest tenant digest db = find_artifact tenant (\<lambda>a. aa_digest a = digest) db"

text \<open>An update guarded by the status the caller saw; the rows it moved are counted.\<close>

definition guarded_update ::
  "string \<Rightarrow> string \<Rightarrow> artifact_status \<Rightarrow> (artifact \<Rightarrow> artifact) \<Rightarrow> registry \<Rightarrow> nat \<times> registry" where
  "guarded_update tenant i from f db =
     (let hit = (\<lambda>a. artifact_visible tenant a \<and> aa_id a = i \<and> aa_status a = from) in
      (length (filter hit (xr_artifacts db)),
       db\<lparr>xr_artifacts := map (\<lambda>a. if hit a then f a else a) (xr_artifacts db)\<rparr>))"

definition TransitionArtifact ::
  "string \<Rightarrow> string \<Rightarrow> artifact_status \<Rightarrow> artifact_status \<Rightarrow> registry \<Rightarrow> nat \<times> registry" where
  "TransitionArtifact tenant i from to db = guarded_update tenant i from (\<lambda>a. a\<lparr>aa_status := to\<rparr>) db"

definition MarkPublished :: "string \<Rightarrow> string \<Rightarrow> string \<Rightarrow> time \<Rightarrow> registry \<Rightarrow> nat \<times> registry" where
  "MarkPublished tenant i publisher now db =
     guarded_update tenant i ArtifactApproved
       (\<lambda>a. a\<lparr>aa_status := ArtifactPublished, aa_published_by := publisher, aa_published_at := Some now\<rparr>) db"

definition UpsertPointer :: "pointer \<Rightarrow> registry \<Rightarrow> registry" where
  "UpsertPointer p db =
     (if \<exists>q \<in> set (xr_pointers db). po_tenant q = po_tenant p \<and> po_reference q = po_reference p
      then db\<lparr>xr_pointers := map (\<lambda>q. if po_tenant q = po_tenant p \<and> po_reference q = po_reference p
                then q\<lparr>po_artifact := po_artifact p, po_updated_by := po_updated_by p, po_updated_at := po_updated_at p\<rparr>
                else q) (xr_pointers db)\<rparr>
      else db\<lparr>xr_pointers := xr_pointers db @ [p]\<rparr>)"

text \<open>The pointers a tenant sees joined to the versions they name; its own comes before the platform's.\<close>

definition pointed :: "string \<Rightarrow> string \<Rightarrow> registry \<Rightarrow> (pointer \<times> artifact) list" where
  "pointed tenant ref db =
     [(p, a). p \<leftarrow> filter (\<lambda>p. po_reference p = ref \<and> (po_tenant p = '''' \<or> po_tenant p = tenant)) (xr_pointers db),
              a \<leftarrow> filter (\<lambda>a. artifact_visible tenant a \<and> aa_id a = po_artifact p) (xr_artifacts db)]"

definition ResolvePointer :: "string \<Rightarrow> string \<Rightarrow> registry \<Rightarrow> artifact option" where
  "ResolvePointer tenant ref db =
     (case find (\<lambda>(p, a). po_tenant p \<noteq> '''') (pointed tenant ref db) of
        Some (p, a) \<Rightarrow> Some a
      | None \<Rightarrow> map_option snd (find (\<lambda>_. True) (pointed tenant ref db)))"

definition InsertAuditEvent :: "registry_audit \<Rightarrow> registry \<Rightarrow> registry" where
  "InsertAuditEvent e db = db\<lparr>xr_audit := xr_audit db @ [e]\<rparr>"

text \<open>A row that a pointer names is held by the foreign key, and one past a draft by the predicate.\<close>

definition DeleteDraftArtifact :: "string \<Rightarrow> string \<Rightarrow> registry \<Rightarrow> content_error + nat \<times> registry" where
  "DeleteDraftArtifact tenant i db =
     (let hit = (\<lambda>a. artifact_visible tenant a \<and> aa_id a = i \<and> aa_status a = ArtifactDraft) in
      if \<exists>a \<in> set (xr_artifacts db). hit a \<and> i \<in> po_artifact ` set (xr_pointers db) then Inl ContentRefused
      else Inr (length (filter hit (xr_artifacts db)),
             db\<lparr>xr_artifacts := filter (\<lambda>a. \<not> hit a) (xr_artifacts db)\<rparr>))"

section \<open>The store\<close>

text \<open>A write is committed, and what it wrote read back in a transaction of its own.\<close>

definition then_read ::
  "content_error + registry \<Rightarrow> registry \<Rightarrow> (registry \<Rightarrow> content_error + 'a) \<Rightarrow> (content_error + 'a) \<times> registry" where
  "then_read tx db rd = (case tx of Inl e \<Rightarrow> (Inl e, db) | Inr db' \<Rightarrow> (rd db', db'))"

definition some_artifact :: "artifact option \<Rightarrow> content_error + artifact" where
  "some_artifact r = (case r of None \<Rightarrow> Inl ArtifactNotFound | Some a \<Rightarrow> Inr a)"

definition Get_artifact :: "string \<Rightarrow> string \<Rightarrow> registry \<Rightarrow> content_error + artifact" where
  "Get_artifact i tenant db = in_content_scope tenant (some_artifact (GetArtifact tenant i db))"

definition drafted :: "string \<Rightarrow> time \<Rightarrow> string \<Rightarrow> artifact_draft \<Rightarrow> artifact" where
  "drafted i now digest d =
     \<lparr>aa_id = i, aa_type = da_type d, aa_reference = da_reference d, aa_version = da_version d,
      aa_schema = da_schema d, aa_digest = digest, aa_body = da_body d, aa_status = ArtifactDraft,
      aa_tenant = da_tenant d, aa_created_by = da_created_by d, aa_created_at = now,
      aa_published_by = '''', aa_published_at = None\<rparr>"

definition CreateDraftArtifact ::
  "digester \<Rightarrow> string \<Rightarrow> time \<Rightarrow> artifact_draft \<Rightarrow> registry \<Rightarrow> (content_error + artifact) \<times> registry" where
  "CreateDraftArtifact dg i now d db =
     then_read
       (case dg (da_body d) of
          None \<Rightarrow> Inl BodyUndecodable
        | Some digest \<Rightarrow> in_content_scope (da_tenant d) (InsertArtifact (da_tenant d) (drafted i now digest d) db))
       db (Get_artifact i (da_tenant d))"

definition GetByDigest :: "digester \<Rightarrow> string \<Rightarrow> string \<Rightarrow> registry \<Rightarrow> content_error + artifact" where
  "GetByDigest dg digest tenant db =
     in_content_scope tenant
       (case GetArtifactByDigest tenant digest db of
          None \<Rightarrow> Inl ArtifactNotFound
        | Some a \<Rightarrow>
            (case dg (aa_body a) of
               None \<Rightarrow> Inl BodyUndecodable
             | Some recomputed \<Rightarrow> (if recomputed \<noteq> aa_digest a then Inl DigestMismatch else Inr a)))"

definition moved_one :: "nat \<times> registry \<Rightarrow> content_error + registry" where
  "moved_one r = (if fst r = 0 then Inl StaleStatus else Inr (snd r))"

definition TransitionTo :: "artifact \<Rightarrow> artifact_status \<Rightarrow> registry \<Rightarrow> (content_error + artifact) \<times> registry" where
  "TransitionTo a to db =
     (if to = ArtifactPublished then (Inl PublicationNeedsPublish, db)
      else if \<not> artifact_can_move (aa_status a) to then (Inl TransitionInvalid, db)
      else then_read
        (in_content_scope (aa_tenant a) (moved_one (TransitionArtifact (aa_tenant a) (aa_id a) (aa_status a) to db)))
        db (Get_artifact (aa_id a) (aa_tenant a)))"

definition repointed :: "string \<Rightarrow> string \<Rightarrow> string \<Rightarrow> string \<Rightarrow> time \<Rightarrow> pointer" where
  "repointed ref tenant i actor now =
     \<lparr>po_reference = ref, po_tenant = tenant, po_artifact = i, po_updated_by = actor, po_updated_at = now\<rparr>"

definition audited :: "string \<Rightarrow> string \<Rightarrow> string \<Rightarrow> string \<Rightarrow> time \<Rightarrow> registry_audit" where
  "audited tenant actor action subject now =
     \<lparr>ra_tenant = tenant, ra_actor = actor, ra_action = action, ra_subject = subject, ra_at = now\<rparr>"

definition PublishArtifact :: "artifact \<Rightarrow> string \<Rightarrow> time \<Rightarrow> registry \<Rightarrow> (content_error + artifact) \<times> registry" where
  "PublishArtifact a publisher now db =
     (if publisher = aa_created_by a then (Inl SelfPublish, db)
      else if \<not> artifact_can_move (aa_status a) ArtifactPublished then (Inl TransitionInvalid, db)
      else then_read
        (in_acting_scope (aa_tenant a) publisher
          (bindE (moved_one (MarkPublished (aa_tenant a) (aa_id a) publisher now db)) (\<lambda>db1.
             Inr (InsertAuditEvent (audited (aa_tenant a) publisher ''content.artifact_published'' (aa_id a) now)
                   (UpsertPointer (repointed (aa_reference a) (aa_tenant a) (aa_id a) publisher now) db1)))))
        db (Get_artifact (aa_id a) (aa_tenant a)))"

definition Resolve :: "string \<Rightarrow> string \<Rightarrow> registry \<Rightarrow> content_error + artifact" where
  "Resolve ref tenant db = in_content_scope tenant (some_artifact (ResolvePointer tenant ref db))"

definition roll_back :: "string \<Rightarrow> string \<Rightarrow> string \<Rightarrow> string \<Rightarrow> time \<Rightarrow> registry \<Rightarrow> registry" where
  "roll_back ref target tenant actor now db =
     (let db1 = (case ResolvePointer tenant ref db of
                   Some current \<Rightarrow>
                     (if aa_id current \<noteq> target \<and> aa_status current = ArtifactPublished
                      then snd (TransitionArtifact tenant (aa_id current) ArtifactPublished ArtifactDeprecated db)
                      else db)
                 | None \<Rightarrow> db)
      in InsertAuditEvent (audited tenant actor ''content.artifact_rolled_back'' target now)
           (UpsertPointer (repointed ref tenant target actor now) db1))"

definition RollbackArtifact ::
  "string \<Rightarrow> string \<Rightarrow> string \<Rightarrow> string \<Rightarrow> time \<Rightarrow> registry
     \<Rightarrow> (content_error + artifact) \<times> registry" where
  "RollbackArtifact ref version tenant actor now db =
     (case in_acting_scope tenant actor (some_artifact (GetArtifactByVersion tenant ref version db)) of
        Inl e \<Rightarrow> (Inl e, db)
      | Inr target \<Rightarrow>
          (if aa_status target \<notin> {ArtifactPublished, ArtifactDeprecated} then (Inl NeverPublished, db)
           else then_read (Inr (roll_back ref (aa_id target) tenant actor now db)) db
             (Get_artifact (aa_id target) tenant)))"

definition Versions :: "string \<Rightarrow> string \<Rightarrow> registry \<Rightarrow> content_error + artifact list" where
  "Versions ref tenant db =
     in_content_scope tenant
       (Inr (rev (sort_key aa_created_at
         (filter (\<lambda>a. artifact_visible tenant a \<and> aa_reference a = ref \<and> aa_tenant a = tenant) (xr_artifacts db)))))"

definition DeleteDraft :: "string \<Rightarrow> string \<Rightarrow> registry \<Rightarrow> content_error + registry" where
  "DeleteDraft i tenant db =
     in_content_scope tenant
       (bindE (DeleteDraftArtifact tenant i db) (\<lambda>(removed, db').
          if removed = 0 then Inl NotADraft else Inr db'))"

section \<open>What the registry keeps\<close>

text \<open>
  An artifact in a caller's hands is one the registry returned, at this moment or an earlier one: its
  identifier names nothing else.
\<close>

definition read_from :: "registry \<Rightarrow> artifact \<Rightarrow> bool" where
  "read_from db a \<longleftrightarrow> (\<forall>r \<in> set (xr_artifacts db). aa_id r = aa_id a \<longrightarrow>
     aa_reference r = aa_reference a \<and> aa_tenant r = aa_tenant a \<and> aa_created_by r = aa_created_by a)"

inductive registry_step :: "digester \<Rightarrow> registry \<Rightarrow> registry \<Rightarrow> bool" for dg where
  drafts: "registry_step dg db (snd (CreateDraftArtifact dg i now d db))"
| moves: "read_from db a \<Longrightarrow> registry_step dg db (snd (TransitionTo a to db))"
| publishes: "read_from db a \<Longrightarrow> registry_step dg db (snd (PublishArtifact a publisher now db))"
| rolls_back: "registry_step dg db (snd (RollbackArtifact ref version tenant actor now db))"
| deletes: "DeleteDraft i tenant db = Inr db' \<Longrightarrow> registry_step dg db db'"

definition row_ok :: "digester \<Rightarrow> artifact \<Rightarrow> bool" where
  "row_ok dg a \<longleftrightarrow> dg (aa_body a) = Some (aa_digest a) \<and> aa_type a \<in> set artifact_types
     \<and> (past_publication (aa_status a) \<longrightarrow> aa_published_by a \<noteq> aa_created_by a \<and> aa_published_at a \<noteq> None)"

definition pointer_key :: "pointer \<Rightarrow> string \<times> string" where
  "pointer_key p = (po_tenant p, po_reference p)"

definition names_published :: "artifact list \<Rightarrow> pointer \<Rightarrow> bool" where
  "names_published as p \<longleftrightarrow> (\<exists>a \<in> set as. aa_id a = po_artifact p \<and> aa_reference a = po_reference p
     \<and> aa_tenant a = po_tenant p \<and> past_publication (aa_status a))"

definition registry_ok :: "digester \<Rightarrow> registry \<Rightarrow> bool" where
  "registry_ok dg db \<longleftrightarrow> distinct (map aa_id (xr_artifacts db)) \<and> distinct (map artifact_key (xr_artifacts db))
     \<and> (\<forall>a \<in> set (xr_artifacts db). row_ok dg a)
     \<and> distinct (map pointer_key (xr_pointers db))
     \<and> (\<forall>p \<in> set (xr_pointers db). names_published (xr_artifacts db) p)"

text \<open>What a version is, whatever its standing.\<close>

definition same_content :: "artifact \<Rightarrow> artifact \<Rightarrow> bool" where
  "same_content a b \<longleftrightarrow> (\<exists>s. b = a\<lparr>aa_status := s\<rparr>)"

lemma same_content_refl [simp]: "same_content a a"
  unfolding same_content_def by (rule exI [of _ "aa_status a"]) simp

lemma same_content_status: "same_content a (a\<lparr>aa_status := s\<rparr>)"
  by (auto simp: same_content_def)

lemma same_content_trans: "same_content a b \<Longrightarrow> same_content b c \<Longrightarrow> same_content a c"
  by (auto simp: same_content_def)

lemma same_content_fields:
  "same_content a b \<Longrightarrow> aa_id b = aa_id a \<and> aa_digest b = aa_digest a \<and> aa_body b = aa_body a
     \<and> aa_reference b = aa_reference a \<and> aa_tenant b = aa_tenant a \<and> aa_version b = aa_version a
     \<and> aa_created_by b = aa_created_by a \<and> aa_published_by b = aa_published_by a \<and> aa_published_at b = aa_published_at a"
  by (auto simp: same_content_def)

text \<open>Versions past publication stay, as they are but for their standing.\<close>

definition history_kept :: "artifact list \<Rightarrow> artifact list \<Rightarrow> bool" where
  "history_kept as bs \<longleftrightarrow> (\<forall>a \<in> set as. past_publication (aa_status a) \<longrightarrow>
     (\<exists>b \<in> set bs. same_content a b \<and> past_publication (aa_status b)))"

lemma history_kept_refl: "history_kept as as"
  unfolding history_kept_def using same_content_refl by blast

lemma history_kept_trans: "history_kept as bs \<Longrightarrow> history_kept bs cs \<Longrightarrow> history_kept as cs"
  unfolding history_kept_def by (meson same_content_trans)

lemma names_published_kept:
  assumes "history_kept as bs" and "names_published as p"
  shows "names_published bs p"
proof -
  from assms(2) obtain a where a: "a \<in> set as" "past_publication (aa_status a)" "aa_id a = po_artifact p"
    "aa_reference a = po_reference p" "aa_tenant a = po_tenant p" by (auto simp: names_published_def)
  with assms(1) obtain b where "b \<in> set bs" "same_content a b" "past_publication (aa_status b)"
    by (auto simp: history_kept_def)
  with a show ?thesis unfolding names_published_def using same_content_fields [of a b] by (intro bexI [of _ b]) auto
qed

text \<open>An update of rows that leaves what identifies them, and moves no published one but along the lifecycle.\<close>

definition keeps_identity :: "(artifact \<Rightarrow> artifact) \<Rightarrow> bool" where
  "keeps_identity f \<longleftrightarrow> (\<forall>a. aa_id (f a) = aa_id a \<and> artifact_key (f a) = artifact_key a \<and> aa_body (f a) = aa_body a
     \<and> aa_digest (f a) = aa_digest a \<and> aa_type (f a) = aa_type a \<and> aa_created_by (f a) = aa_created_by a)"

lemma registry_ok_map:
  assumes ok: "registry_ok dg db" and f: "keeps_identity f"
    and past: "\<And>a. a \<in> set (xr_artifacts db) \<Longrightarrow> past_publication (aa_status a) \<Longrightarrow>
      same_content a (f a) \<and> past_publication (aa_status (f a))"
    and fresh: "\<And>a. a \<in> set (xr_artifacts db) \<Longrightarrow> \<not> past_publication (aa_status a) \<Longrightarrow> past_publication (aa_status (f a)) \<Longrightarrow>
      aa_published_by (f a) \<noteq> aa_created_by a \<and> aa_published_at (f a) \<noteq> None"
  shows "registry_ok dg (db\<lparr>xr_artifacts := map f (xr_artifacts db)\<rparr>)"
    and "history_kept (xr_artifacts db) (map f (xr_artifacts db))"
proof -
  show h: "history_kept (xr_artifacts db) (map f (xr_artifacts db))"
    using past unfolding history_kept_def by auto
  have "row_ok dg (f a)" if "a \<in> set (xr_artifacts db)" for a
  proof -
    have r: "row_ok dg a" using ok that by (auto simp: registry_ok_def)
    show ?thesis
    proof (cases "past_publication (aa_status a)")
      case True
      with past [OF that True] r f show ?thesis using same_content_fields [of a "f a"]
        by (auto simp: row_ok_def keeps_identity_def)
    next
      case False
      with r f fresh [OF that False] show ?thesis by (auto simp: row_ok_def keeps_identity_def)
    qed
  qed
  moreover have "map aa_id (map f (xr_artifacts db)) = map aa_id (xr_artifacts db)"
    "map artifact_key (map f (xr_artifacts db)) = map artifact_key (xr_artifacts db)"
    using f by (auto simp: keeps_identity_def)
  ultimately show "registry_ok dg (db\<lparr>xr_artifacts := map f (xr_artifacts db)\<rparr>)"
    using ok names_published_kept [OF h] by (auto simp del: map_map simp: registry_ok_def)
qed

lemma UpsertPointer_artifacts [simp]: "xr_artifacts (UpsertPointer p db) = xr_artifacts db"
  by (simp add: UpsertPointer_def)

lemma InsertAuditEvent_frame [simp]:
  "xr_artifacts (InsertAuditEvent e db) = xr_artifacts db" "xr_pointers (InsertAuditEvent e db) = xr_pointers db"
  by (simp_all add: InsertAuditEvent_def)

lemma registry_ok_audit [simp]: "registry_ok dg (InsertAuditEvent e db) = registry_ok dg db"
  by (simp add: registry_ok_def)

lemma registry_ok_upsert:
  assumes ok: "registry_ok dg db" and p: "names_published (xr_artifacts db) p"
  shows "registry_ok dg (UpsertPointer p db)"
proof (cases "\<exists>q \<in> set (xr_pointers db). po_tenant q = po_tenant p \<and> po_reference q = po_reference p")
  case True
  let ?f = "\<lambda>q. if po_tenant q = po_tenant p \<and> po_reference q = po_reference p
    then q\<lparr>po_artifact := po_artifact p, po_updated_by := po_updated_by p, po_updated_at := po_updated_at p\<rparr> else q"
  have "map pointer_key (map ?f (xr_pointers db)) = map pointer_key (xr_pointers db)"
    by (auto simp: pointer_key_def)
  moreover have "\<forall>q \<in> set (map ?f (xr_pointers db)). names_published (xr_artifacts db) q"
    using ok p by (auto simp: registry_ok_def names_published_def)
  ultimately show ?thesis using ok True by (simp del: map_map set_map add: registry_ok_def UpsertPointer_def)
next
  case False
  then have "pointer_key p \<notin> pointer_key ` set (xr_pointers db)" by (force simp: pointer_key_def)
  with ok p False show ?thesis by (auto simp: registry_ok_def UpsertPointer_def)
qed

lemma guarded_update_map:
  "snd (guarded_update tenant i from f db) = db\<lparr>xr_artifacts :=
     map (\<lambda>a. if artifact_visible tenant a \<and> aa_id a = i \<and> aa_status a = from then f a else a) (xr_artifacts db)\<rparr>"
  by (simp add: guarded_update_def Let_def)

lemma guarded_update_hit:
  "fst (guarded_update tenant i from f db) \<noteq> 0 \<longleftrightarrow>
     (\<exists>a \<in> set (xr_artifacts db). artifact_visible tenant a \<and> aa_id a = i \<and> aa_status a = from)"
  by (auto simp: guarded_update_def Let_def filter_empty_conv)

lemma moved_one_Inr: "moved_one r = Inr db' \<longleftrightarrow> fst r \<noteq> 0 \<and> snd r = db'"
  by (auto simp: moved_one_def)

lemma then_read_wrote: "snd (then_read tx db rd) \<noteq> db \<Longrightarrow> tx = Inr (snd (then_read tx db rd))"
  by (auto simp: then_read_def split: sum.splits)

lemma TransitionArtifact_ok:
  assumes ok: "registry_ok dg db" and m: "artifact_can_move from to" and np: "to \<noteq> ArtifactPublished"
  shows "registry_ok dg (snd (TransitionArtifact tenant i from to db))
    \<and> history_kept (xr_artifacts db) (xr_artifacts (snd (TransitionArtifact tenant i from to db)))"
proof -
  let ?f = "\<lambda>a. if artifact_visible tenant a \<and> aa_id a = i \<and> aa_status a = from then a\<lparr>aa_status := to\<rparr> else a"
  have new: "past_publication from" if "past_publication to"
    using that m np by (cases "from") (auto simp: past_publication_def artifact_can_move_def artifact_transitions_def)
  have k: "keeps_identity ?f" by (auto simp: keeps_identity_def artifact_key_def)
  have p: "same_content a (?f a) \<and> past_publication (aa_status (?f a))" if "past_publication (aa_status a)" for a
    using that past_publication_stays [OF _ m] same_content_status by auto
  have q: "past_publication (aa_status a)" if "past_publication (aa_status (?f a))" for a
    using that new by (auto split: if_splits)
  have "registry_ok dg (db\<lparr>xr_artifacts := map ?f (xr_artifacts db)\<rparr>)"
    by (rule registry_ok_map(1) [OF ok k]) (use p q in blast)+
  moreover have "history_kept (xr_artifacts db) (map ?f (xr_artifacts db))"
    by (rule registry_ok_map(2) [OF ok k]) (use p q in blast)+
  ultimately show ?thesis unfolding TransitionArtifact_def guarded_update_map by simp
qed

lemma registry_step_ok:
  assumes ok: "registry_ok dg db" and step: "registry_step dg db db'"
  shows "registry_ok dg db' \<and> history_kept (xr_artifacts db) (xr_artifacts db')"
  using step ok
proof (cases rule: registry_step.cases)
  case (drafts i now d)
  show ?thesis
  proof (cases "\<exists>x. db' = x \<and> x \<noteq> db")
    case False
    with ok show ?thesis by (auto intro: history_kept_refl)
  next
    case True
    with drafts obtain digest where dg: "dg (da_body d) = Some digest"
      and ins: "InsertArtifact (da_tenant d) (drafted i now digest d) db = Inr db'"
      by (auto simp: CreateDraftArtifact_def then_read_def in_content_scope_Inr split: option.splits sum.splits)
    from ins have db': "db' = db\<lparr>xr_artifacts := xr_artifacts db @ [drafted i now digest d]\<rparr>"
      and fresh: "i \<notin> aa_id ` set (xr_artifacts db)" "artifact_key (drafted i now digest d) \<notin> artifact_key ` set (xr_artifacts db)"
      and ty: "da_type d \<in> set artifact_types"
      by (auto simp: InsertArtifact_def drafted_def split: if_splits)
    have h: "history_kept (xr_artifacts db) (xr_artifacts db')"
      using same_content_refl by (auto simp: db' history_kept_def)
    have "row_ok dg (drafted i now digest d)" using dg ty by (simp add: row_ok_def drafted_def past_publication_def)
    moreover have "aa_id (drafted i now digest d) = i" by (simp add: drafted_def)
    ultimately have "registry_ok dg db'"
      using ok fresh names_published_kept [OF h] by (auto simp: registry_ok_def db')
    with h show ?thesis by blast
  qed
next
  case (moves a to)
  show ?thesis
  proof (cases "db' = db")
    case False
    with moves then_read_wrote have "artifact_can_move (aa_status a) to" "to \<noteq> ArtifactPublished"
      "in_content_scope (aa_tenant a) (moved_one (TransitionArtifact (aa_tenant a) (aa_id a) (aa_status a) to db)) = Inr db'"
      by (auto simp: TransitionTo_def split: if_splits)
    with TransitionArtifact_ok [OF ok] show ?thesis by (auto simp: in_content_scope_Inr moved_one_Inr)
  qed (use ok history_kept_refl in auto)
next
  case (publishes a publisher now)
  show ?thesis
  proof (cases "db' = db")
    case True
    with ok show ?thesis by (simp add: history_kept_refl)
  next
    case False
    let ?db1 = "snd (MarkPublished (aa_tenant a) (aa_id a) publisher now db)"
    let ?p = "repointed (aa_reference a) (aa_tenant a) (aa_id a) publisher now"
    let ?hit = "\<lambda>r. artifact_visible (aa_tenant a) r \<and> aa_id r = aa_id a \<and> aa_status r = ArtifactApproved"
    let ?g = "\<lambda>r. r\<lparr>aa_status := ArtifactPublished, aa_published_by := publisher, aa_published_at := Some now\<rparr>"
    let ?f = "\<lambda>r. if ?hit r then ?g r else r"
    from False publishes have other: "publisher \<noteq> aa_created_by a"
      and tx: "in_acting_scope (aa_tenant a) publisher
          (bindE (moved_one (MarkPublished (aa_tenant a) (aa_id a) publisher now db)) (\<lambda>db1.
             Inr (InsertAuditEvent (audited (aa_tenant a) publisher ''content.artifact_published'' (aa_id a) now)
                   (UpsertPointer (repointed (aa_reference a) (aa_tenant a) (aa_id a) publisher now) db1)))) = Inr db'"
      using then_read_wrote by (auto simp: PublishArtifact_def split: if_splits)
    from tx have "True"
      and hit: "fst (MarkPublished (aa_tenant a) (aa_id a) publisher now db) \<noteq> 0"
      and db': "db' = InsertAuditEvent (audited (aa_tenant a) publisher ''content.artifact_published'' (aa_id a) now)
        (UpsertPointer ?p ?db1)"
      by (auto simp: in_acting_scope_Inr moved_one_Inr bindE_Inr)
    have db1: "?db1 = db\<lparr>xr_artifacts := map ?f (xr_artifacts db)\<rparr>" by (simp add: MarkPublished_def guarded_update_map)
    have k: "keeps_identity ?f" by (auto simp: keeps_identity_def artifact_key_def)
    have rf: "read_from db a" using publishes by blast
    have f1: "same_content r (?f r) \<and> past_publication (aa_status (?f r))" if "past_publication (aa_status r)" for r
      using that by (auto simp: past_publication_def same_content_def intro: exI [of _ "aa_status r"])
    have f2: "aa_published_by (?f r) \<noteq> aa_created_by r \<and> aa_published_at (?f r) \<noteq> None"
      if "r \<in> set (xr_artifacts db)" "\<not> past_publication (aa_status r)" "past_publication (aa_status (?f r))" for r
      using that rf other by (auto simp: read_from_def split: if_splits)
    have ok1: "registry_ok dg ?db1" and h: "history_kept (xr_artifacts db) (xr_artifacts ?db1)"
      unfolding db1 using registry_ok_map [OF ok k f1 f2] by simp_all
    from hit obtain r where r: "r \<in> set (xr_artifacts db)" "?hit r"
      unfolding MarkPublished_def guarded_update_hit by blast
    have "names_published (xr_artifacts ?db1) ?p"
      unfolding names_published_def db1 using r rf
      by (auto simp: repointed_def read_from_def past_publication_def intro!: bexI [of _ "?f r"])
    from registry_ok_upsert [OF ok1 this] h show ?thesis unfolding db' by simp
  qed
next
  case (rolls_back ref version tenant actor now)
  show ?thesis
  proof (cases "db' = db")
    case True
    with ok show ?thesis by (simp add: history_kept_refl)
  next
    case False
    with rolls_back obtain target where t: "GetArtifactByVersion tenant ref version db = Some target"
      and st: "aa_status target \<in> {ArtifactPublished, ArtifactDeprecated}"
      and db': "db' = roll_back ref (aa_id target) tenant actor now db"
      by (auto simp: RollbackArtifact_def then_read_def in_acting_scope_def in_content_scope_def some_artifact_def
          split: option.splits sum.splits if_splits)
    define db1 where "db1 = (case ResolvePointer tenant ref db of
        Some current \<Rightarrow> (if aa_id current \<noteq> aa_id target \<and> aa_status current = ArtifactPublished
          then snd (TransitionArtifact tenant (aa_id current) ArtifactPublished ArtifactDeprecated db) else db)
      | None \<Rightarrow> db)"
    have 1: "registry_ok dg db1 \<and> history_kept (xr_artifacts db) (xr_artifacts db1)"
      unfolding db1_def using ok TransitionArtifact_ok [OF ok, of ArtifactPublished ArtifactDeprecated] history_kept_refl
      by (auto simp: artifact_can_move_def artifact_transitions_def split: option.split)
    from t have "target \<in> set (xr_artifacts db)" "aa_reference target = ref" "aa_tenant target = tenant"
      by (auto simp: GetArtifactByVersion_def find_artifact_def find_Some_iff)
    with st have "names_published (xr_artifacts db) (repointed ref tenant (aa_id target) actor now)"
      by (auto simp: names_published_def repointed_def past_publication_def)
    with 1 have "names_published (xr_artifacts db1) (repointed ref tenant (aa_id target) actor now)"
      by (blast intro: names_published_kept)
    from registry_ok_upsert [OF _ this] 1 show ?thesis
      unfolding db' by (simp add: roll_back_def flip: db1_def)
  qed
next
  case (deletes i tenant)
  let ?hit = "\<lambda>a. artifact_visible tenant a \<and> aa_id a = i \<and> aa_status a = ArtifactDraft"
  from deletes have db': "db' = db\<lparr>xr_artifacts := filter (\<lambda>a. \<not> ?hit a) (xr_artifacts db)\<rparr>"
    by (auto simp: DeleteDraft_def DeleteDraftArtifact_def in_content_scope_Inr bindE_Inr Let_def split: if_splits)
  have h: "history_kept (xr_artifacts db) (xr_artifacts db')"
    using same_content_refl by (auto simp: db' history_kept_def past_publication_def intro!: bexI)
  with ok show ?thesis using names_published_kept [OF h]
    by (auto simp: db' registry_ok_def distinct_map_filter)
qed

lemma registry_reach:
  assumes "(registry_step dg)\<^sup>*\<^sup>* db db'" and "registry_ok dg db"
  shows "registry_ok dg db' \<and> history_kept (xr_artifacts db) (xr_artifacts db')"
  using assms
proof (induction rule: rtranclp_induct)
  case (step y z)
  then show ?case using registry_step_ok [of dg y z] history_kept_trans by blast
qed (simp add: history_kept_refl)

lemma GetByDigest_of_visible:
  assumes ok: "registry_ok dg db" and a: "a \<in> set (xr_artifacts db)" "artifact_visible tenant a"
    and t: "tenant = '''' \<or> TrimSpace tenant \<noteq> ''''"
  shows "\<exists>b. GetByDigest dg (aa_digest a) tenant db = Inr b \<and> aa_digest b = aa_digest a \<and> dg (aa_body b) = Some (aa_digest a)"
proof -
  obtain b where b: "GetArtifactByDigest tenant (aa_digest a) db = Some b"
    using a by (cases "GetArtifactByDigest tenant (aa_digest a) db")
      (auto simp: GetArtifactByDigest_def find_artifact_def find_None_iff)
  then have "b \<in> set (xr_artifacts db)" "aa_digest b = aa_digest a"
    by (auto simp: GetArtifactByDigest_def find_artifact_def find_Some_iff)
  moreover from this ok have "dg (aa_body b) = Some (aa_digest a)" by (auto simp: registry_ok_def row_ok_def)
  ultimately show ?thesis using b t by (auto simp: GetByDigest_def in_content_scope_Inr)
qed

text \<open>C22: What is published stays published, and what is pinned stays readable.  Whatever drafting,
  transitions, publications, rollbacks and deletions follow, a version that has passed publication is never
  removed, and nothing of it changes but its standing, which never returns to before publication; its publisher
  is recorded and is not its drafter; and its digest, read by anyone who may see it, gives a body that
  has that digest.\<close>

theorem published_history_is_kept:
  assumes "registry_ok dg db" and "(registry_step dg)\<^sup>*\<^sup>* db db'"
    and "a \<in> set (xr_artifacts db)" and "past_publication (aa_status a)"
  shows "(\<exists>s. a\<lparr>aa_status := s\<rparr> \<in> set (xr_artifacts db') \<and> past_publication s)
    \<and> aa_published_by a \<noteq> aa_created_by a \<and> aa_published_at a \<noteq> None
    \<and> (\<forall>tenant. artifact_visible tenant a \<and> (tenant = '''' \<or> TrimSpace tenant \<noteq> '''') \<longrightarrow>
         (\<exists>b. GetByDigest dg (aa_digest a) tenant db' = Inr b \<and> dg (aa_body b) = Some (aa_digest a)))"
proof -
  from registry_reach [OF assms(2,1)] have ok': "registry_ok dg db'" and h: "history_kept (xr_artifacts db) (xr_artifacts db')"
    by blast+
  from h assms(3,4) obtain b where b: "b \<in> set (xr_artifacts db')" "same_content a b" "past_publication (aa_status b)"
    by (auto simp: history_kept_def)
  then have 1: "\<exists>s. a\<lparr>aa_status := s\<rparr> \<in> set (xr_artifacts db') \<and> past_publication s"
    by (auto simp: same_content_def)
  have 2: "aa_published_by a \<noteq> aa_created_by a \<and> aa_published_at a \<noteq> None"
    using assms(1,3,4) by (auto simp: registry_ok_def row_ok_def)
  have 3: "\<exists>c. GetByDigest dg (aa_digest a) tenant db' = Inr c \<and> dg (aa_body c) = Some (aa_digest a)"
    if "artifact_visible tenant a" "tenant = '''' \<or> TrimSpace tenant \<noteq> ''''" for tenant
    using GetByDigest_of_visible [OF ok' b(1), of tenant] that same_content_fields [OF b(2)]
    by (auto simp: artifact_visible_def)
  show ?thesis using 1 2 3 by blast
qed

text \<open>Concrete registries.\<close>

definition ex_digester :: digester where
  "ex_digester b = (if b = '''' then None else Some (''sha256:'' @ b))"

definition ex_draft :: "string \<Rightarrow> artifact_draft" where
  "ex_draft v = \<lparr>da_type = ''rubric'', da_reference = ''backend'', da_version = v, da_schema = ''1'', da_body = v,
     da_tenant = ''t1'', da_created_by = ''author''\<rparr>"

definition empty_registry :: registry where
  "empty_registry = \<lparr>xr_artifacts = [], xr_pointers = [], xr_audit = []\<rparr>"

lemma empty_registry_ok: "registry_ok dg empty_registry"
  by (simp add: registry_ok_def empty_registry_def)

text \<open>Drafting a version, walking it through validation and approval, and publishing it.\<close>

definition walk :: "digester \<Rightarrow> string \<Rightarrow> time \<Rightarrow> artifact_draft \<Rightarrow> string \<Rightarrow> registry \<Rightarrow> (content_error + artifact) \<times> registry" where
  "walk dg i now d publisher db =
     (case CreateDraftArtifact dg i now d db of
        (Inl e, db1) \<Rightarrow> (Inl e, db1)
      | (Inr a, db1) \<Rightarrow>
          (case TransitionTo a ArtifactValidating db1 of
             (Inl e, db2) \<Rightarrow> (Inl e, db2)
           | (Inr b, db2) \<Rightarrow>
               (case TransitionTo b ArtifactApproved db2 of
                  (Inl e, db3) \<Rightarrow> (Inl e, db3)
                | (Inr c, db3) \<Rightarrow> PublishArtifact c publisher now db3)))"

definition ex_published :: registry where
  "ex_published = snd (walk ex_digester ''a1'' 5 (ex_draft ''1'') ''editor'' empty_registry)"

definition ex_twice :: registry where
  "ex_twice = snd (walk ex_digester ''a2'' 6 (ex_draft ''2'') ''editor'' ex_published)"

definition ex_second :: artifact where
  "ex_second = \<lparr>aa_id = ''a2'', aa_type = ''rubric'', aa_reference = ''backend'', aa_version = ''2'', aa_schema = ''1'',
     aa_digest = ''sha256:2'', aa_body = ''2'', aa_status = ArtifactPublished, aa_tenant = ''t1'',
     aa_created_by = ''author'', aa_created_at = 6, aa_published_by = ''editor'', aa_published_at = Some 6\<rparr>"

definition ex_back :: registry where
  "ex_back = snd (RollbackArtifact ''backend'' ''1'' ''t1'' ''operator'' 9 ex_twice)"

lemma ex_twice_ok: "registry_ok ex_digester ex_twice"
  by code_simp

lemma ex_second_published: "ex_second \<in> set (xr_artifacts ex_twice)"
  by code_simp

theorem published_history_is_kept_witness:
  "(\<exists>s. ex_second\<lparr>aa_status := s\<rparr> \<in> set (xr_artifacts ex_back) \<and> past_publication s)
    \<and> ex_second \<notin> set (xr_artifacts ex_back)"
proof -
  have "registry_step ex_digester ex_twice ex_back" unfolding ex_back_def by (rule rolls_back)
  then have "(registry_step ex_digester)\<^sup>*\<^sup>* ex_twice ex_back" by blast
  from published_history_is_kept [OF ex_twice_ok this ex_second_published]
  have "\<exists>s. ex_second\<lparr>aa_status := s\<rparr> \<in> set (xr_artifacts ex_back) \<and> past_publication s"
    by (simp add: ex_second_def past_publication_def)
  moreover have "ex_second \<notin> set (xr_artifacts ex_back)" by code_simp
  ultimately show ?thesis by blast
qed

section \<open>What a reference resolves to\<close>

lemma ResolvePointer_Some:
  assumes "ResolvePointer tenant ref db = Some a"
  shows "\<exists>p \<in> set (xr_pointers db). po_reference p = ref \<and> (po_tenant p = '''' \<or> po_tenant p = tenant)
    \<and> a \<in> set (xr_artifacts db) \<and> artifact_visible tenant a \<and> aa_id a = po_artifact p
    \<and> (po_tenant p = '''' \<longrightarrow> (\<forall>(q, b) \<in> set (pointed tenant ref db). po_tenant q = ''''))"
proof -
  have "\<exists>p. (p, a) \<in> set (pointed tenant ref db)
    \<and> (po_tenant p = '''' \<longrightarrow> (\<forall>(q, b) \<in> set (pointed tenant ref db). po_tenant q = ''''))"
  proof (cases "find (\<lambda>(p, a). po_tenant p \<noteq> '''') (pointed tenant ref db)")
    case (Some x)
    with assms obtain p where x: "x = (p, a)" by (cases x) (auto simp: ResolvePointer_def)
    from Some obtain i where "i < length (pointed tenant ref db)" "pointed tenant ref db ! i = (p, a)" "po_tenant p \<noteq> ''''"
      by (auto simp: x find_Some_iff)
    then show ?thesis using nth_mem by fastforce
  next
    case None
    with assms have "find (\<lambda>_. True) (pointed tenant ref db) = Some (fst (hd (pointed tenant ref db)), a)"
      by (cases "pointed tenant ref db") (auto simp: ResolvePointer_def)
    then have "(fst (hd (pointed tenant ref db)), a) \<in> set (pointed tenant ref db)"
      by (cases "pointed tenant ref db") auto
    moreover from None have "\<forall>(q, b) \<in> set (pointed tenant ref db). po_tenant q = ''''" by (auto simp: find_None_iff)
    ultimately show ?thesis by blast
  qed
  then show ?thesis by (auto simp: pointed_def)
qed

text \<open>A reference resolves to something that was published.  In a registry that every operation keeps, what a
  reference resolves to for a tenant is a version of that reference that passed publication, published by
  somebody other than its drafter; it is the tenant's own or the platform's, never another tenant's; and it
  is the platform's only when the tenant has no version of the reference in place.  A tenant that has one always
  gets one of its own.\<close>

theorem references_resolve_to_publications:
  assumes "registry_ok dg db" and "Resolve ref tenant db = Inr a"
  shows "a \<in> set (xr_artifacts db) \<and> aa_reference a = ref \<and> past_publication (aa_status a)
    \<and> aa_published_by a \<noteq> aa_created_by a \<and> dg (aa_body a) = Some (aa_digest a)
    \<and> aa_tenant a \<in> {'''', tenant}
    \<and> ((\<exists>p \<in> set (xr_pointers db). po_reference p = ref \<and> po_tenant p = tenant) \<longrightarrow> aa_tenant a = tenant)"
proof -
  from assms(2) have r: "ResolvePointer tenant ref db = Some a"
    by (auto simp: Resolve_def in_content_scope_Inr some_artifact_def split: option.splits)
  from ResolvePointer_Some [OF r] obtain p where p: "p \<in> set (xr_pointers db)" "po_reference p = ref"
    "po_tenant p = '''' \<or> po_tenant p = tenant" "a \<in> set (xr_artifacts db)" "aa_id a = po_artifact p"
    "po_tenant p = '''' \<longrightarrow> (\<forall>(q, b) \<in> set (pointed tenant ref db). po_tenant q = '''')" by blast
  have named: "\<exists>b \<in> set (xr_artifacts db). aa_id b = po_artifact q \<and> aa_reference b = po_reference q
    \<and> aa_tenant b = po_tenant q \<and> past_publication (aa_status b)" if "q \<in> set (xr_pointers db)" for q
    using assms(1) that by (auto simp: registry_ok_def names_published_def)
  from named [OF p(1)] obtain b where b: "b \<in> set (xr_artifacts db)" "aa_id b = po_artifact p" "aa_reference b = po_reference p"
    "aa_tenant b = po_tenant p" "past_publication (aa_status b)" by blast
  have "b = a" using assms(1) b(1,2) p(4,5) by (auto simp: registry_ok_def distinct_map inj_on_def)
  moreover have "aa_tenant a = tenant" if q: "q \<in> set (xr_pointers db)" "po_reference q = ref" "po_tenant q = tenant" for q
  proof (cases "po_tenant p = ''''")
    case True
    from named [OF q(1)] obtain c where "c \<in> set (xr_artifacts db)" "aa_id c = po_artifact q" "aa_tenant c = po_tenant q"
      by blast
    with q have "(q, c) \<in> set (pointed tenant ref db)" by (auto simp: pointed_def artifact_visible_def)
    with p(6) True have "po_tenant q = ''''" by blast
    with q(3) True b(4) \<open>b = a\<close> show ?thesis by simp
  qed (use p(3) b(4) \<open>b = a\<close> in auto)
  moreover have "row_ok dg a" using assms(1) p(4) by (simp add: registry_ok_def)
  ultimately show ?thesis using p(2,3,4) b by (auto simp: row_ok_def)
qed

theorem references_resolve_to_publications_witness:
  "Resolve ''backend'' ''t1'' ex_twice = Inr ex_second \<and> aa_tenant ex_second = ''t1''"
proof -
  have r: "Resolve ''backend'' ''t1'' ex_twice = Inr ex_second" by code_simp
  have "\<exists>p \<in> set (xr_pointers ex_twice). po_reference p = ''backend'' \<and> po_tenant p = ''t1''" by code_simp
  with references_resolve_to_publications [OF ex_twice_ok r] r show ?thesis by blast
qed

text \<open>Every artifact of a type: the tenant's own before the platform's, by reference, newest first.\<close>

definition ListByType :: "string \<Rightarrow> string \<Rightarrow> registry \<Rightarrow> content_error + artifact list" where
  "ListByType ty tenant db =
     in_content_scope tenant
       (Inr (sort_key (\<lambda>a. aa_tenant a = '''') (sort_key aa_reference (rev (sort_key aa_created_at
         (filter (\<lambda>a. artifact_visible tenant a \<and> aa_type a = ty) (xr_artifacts db)))))))"

end
