(* ===== verification/Campaigns.thy ===== *)
theory Campaigns
  imports Recruiting_Tables Content_Registry
begin

text \<open>
  \<open>services/platform/internal/recruiting/campaign.go\<close> and the campaign half of \<open>store.go\<close>, with the adapter
  of \<open>cmd/api/recruiting_adapter.go\<close> that composes them: a campaign is drafted by reference and opened by
  digest.  The two ports of the opening service are the registry of \<open>Content_Registry\<close>, read as it stands when the
  opening is resolved, and the table of legal determinations.
\<close>

section \<open>The opening decision\<close>

definition requiredArtifacts :: "string list" where
  "requiredArtifacts = [''rubric'', ''calibration'', ''persona'', ''plan'']"

text \<open>What recruiting knows of a published artifact.\<close>

record published_artifact =
  xa_reference :: string
  xa_type :: string
  xa_digest :: string
  xa_version :: string

record pin_request =
  pq_type :: string
  pq_reference :: string

record campaign_opening =
  og_determination :: determination
  og_pins :: "pin list"

fun choose_pins :: "(string \<Rightarrow> pin_request option) \<Rightarrow> pin_request list \<Rightarrow> recruiting_error + (string \<Rightarrow> pin_request option)" where
  "choose_pins m [] = Inr m"
| "choose_pins m (r # rs) =
     (if m (pq_type r) \<noteq> None then Inl (ErrDuplicateArtifact (pq_type r))
      else choose_pins (m(pq_type r \<mapsto> r)) rs)"

definition pin_for :: "string \<Rightarrow> published_artifact \<Rightarrow> pin" where
  "pin_for kind a =
     \<lparr>pk_type = kind, pk_reference = xa_reference a, pk_version = xa_version a, pk_digest = xa_digest a, pk_artifact = ''''\<rparr>"

fun resolve_pins ::
  "(string \<Rightarrow> published_artifact option) \<Rightarrow> (string \<Rightarrow> pin_request option) \<Rightarrow> string list \<Rightarrow> recruiting_error + pin list" where
  "resolve_pins published m [] = Inr []"
| "resolve_pins published m (kind # kinds) =
     (case published (pq_reference (the (m kind))) of
        None \<Rightarrow> Inl (ErrNotPublished (pq_reference (the (m kind))))
      | Some a \<Rightarrow> bindE (resolve_pins published m kinds) (\<lambda>pins. Inr (pin_for kind a # pins)))"

definition ResolveOpening ::
  "(string \<Rightarrow> string \<Rightarrow> published_artifact option) \<Rightarrow> (string \<Rightarrow> determination option) \<Rightarrow> campaign \<Rightarrow> pin_request list
     \<Rightarrow> recruiting_error + campaign_opening" where
  "ResolveOpening artifacts determinations c requests =
     (if cm_status c \<noteq> StatusDraft then Inl ErrNotDraft
      else case determinations (cm_jurisdiction c) of
        None \<Rightarrow> Inl ErrNoDetermination
      | Some d \<Rightarrow>
          bindE (choose_pins (\<lambda>_. None) requests) (\<lambda>chosen.
            case first_error (\<lambda>kind. if chosen kind = None then Some (ErrIncompleteConfiguration kind) else None)
                   requiredArtifacts of
              Some e \<Rightarrow> Inl e
            | None \<Rightarrow>
                bindE (resolve_pins (artifacts (cm_tenant c)) chosen requiredArtifacts) (\<lambda>pins.
                  Inr \<lparr>og_determination = d, og_pins = pins\<rparr>)))"

section \<open>The ports\<close>

text \<open>\<open>publishedArtifacts\<close>: what the reference resolves to, when it is published.\<close>

definition PublishedArtifact :: "registry \<Rightarrow> string \<Rightarrow> string \<Rightarrow> published_artifact option" where
  "PublishedArtifact content tenant reference =
     (case Resolve reference tenant content of
        Inl e \<Rightarrow> None
      | Inr a \<Rightarrow>
          (if aa_status a \<noteq> ArtifactPublished then None
           else Some \<lparr>xa_reference = aa_reference a, xa_type = aa_type a, xa_digest = aa_digest a, xa_version = aa_version a\<rparr>))"

definition LatestDetermination :: "recruiting_db \<Rightarrow> string \<Rightarrow> determination option" where
  "LatestDetermination db j = newest_by jd_version (filter (\<lambda>d. jd_jurisdiction d = j) (ry_determinations db))"

definition DeterminationByID :: "recruiting_db \<Rightarrow> string \<Rightarrow> recruiting_error + determination" where
  "DeterminationByID db i =
     (case find (\<lambda>d. jd_id d = i) (ry_determinations db) of
        None \<Rightarrow> Inl ErrNoDetermination
      | Some d \<Rightarrow> Inr d)"

section \<open>The store\<close>

text \<open>SQL's \<open>trim\<close> takes the spaces off both ends.\<close>

definition sql_trim :: "string \<Rightarrow> string" where
  "sql_trim s = (let f = dropWhile (\<lambda>c. c = CHR '' '') in rev (f (rev (f s))))"

definition CreateCampaign :: "campaign \<Rightarrow> recruiting_db \<Rightarrow> recruiting_error + recruiting_db" where
  "CreateCampaign c db =
     (if cm_id c \<in> cm_id ` set (ry_campaigns db) \<or> sql_trim (cm_name c) = '''' \<or> sql_trim (cm_role c) = ''''
      then Inl StatementRefused
      else Inr (db\<lparr>ry_campaigns := ry_campaigns db @ [c]\<rparr>))"

text \<open>The campaign need only exist; a grant that is already there is left as it is.\<close>

definition GrantCampaignAccess :: "recruiter_row \<Rightarrow> recruiting_db \<Rightarrow> recruiting_error + recruiting_db" where
  "GrantCampaignAccess r db =
     (if \<exists>q \<in> set (ry_recruiters db). rk_campaign q = rk_campaign r \<and> rk_user q = rk_user r then Inr db
      else if rk_campaign r \<notin> cm_id ` set (ry_campaigns db) then Inl StatementRefused
      else Inr (db\<lparr>ry_recruiters := ry_recruiters db @ [r]\<rparr>))"

definition draft_campaign :: "string \<Rightarrow> time \<Rightarrow> campaign \<Rightarrow> campaign" where
  "draft_campaign i now c =
     c\<lparr>cm_id := i, cm_status := StatusDraft, cm_determination := '''', cm_opened_at := None, cm_closed_at := None,
       cm_created_at := now\<rparr>"

definition CreateDraft :: "string \<Rightarrow> time \<Rightarrow> campaign \<Rightarrow> recruiting_db \<Rightarrow> recruiting_error + campaign \<times> recruiting_db" where
  "CreateDraft i now c db =
     as_tenant (cm_tenant c)
       (bindE (CreateCampaign (draft_campaign i now c) db) (\<lambda>db1.
        bindE (GrantCampaignAccess \<lparr>rk_campaign = i, rk_tenant = cm_tenant c, rk_user = cm_created_by c,
            rk_granted_at = now, rk_granted_by = cm_created_by c\<rparr> db1) (\<lambda>db2.
          Inr (draft_campaign i now c, db2))))"

text \<open>The identity of a digest: the algorithm and sixty-four hexadecimal digits.\<close>

definition lower_hex :: "char \<Rightarrow> bool" where
  "lower_hex c \<longleftrightarrow> c \<in> set ''0123456789abcdef''"

definition digestPattern :: "string \<Rightarrow> bool" where
  "digestPattern d \<longleftrightarrow> take 7 d = ''sha256:'' \<and> length d = 71 \<and> list_all lower_hex (drop 7 d)"

definition PinArtifact :: "pin_row \<Rightarrow> recruiting_db \<Rightarrow> recruiting_error + recruiting_db" where
  "PinArtifact p db =
     (if pkr_campaign p \<notin> cm_id ` set (ry_campaigns db) \<or> \<not> digestPattern (pk_digest (pkr_pin p))
         \<or> (\<exists>q \<in> set (ry_pins db). pkr_campaign q = pkr_campaign p \<and> pk_type (pkr_pin q) = pk_type (pkr_pin p))
      then Inl StatementRefused
      else Inr (db\<lparr>ry_pins := ry_pins db @ [p]\<rparr>))"

text \<open>The artifact a pin joins back to: its own, or one drawn for it.\<close>

definition pinArtifactID :: "(pin \<Rightarrow> string) \<Rightarrow> pin \<Rightarrow> string" where
  "pinArtifactID fresh p = (if pk_artifact p \<noteq> '''' then pk_artifact p else fresh p)"

fun pin_all ::
  "(pin \<Rightarrow> string) \<Rightarrow> time \<Rightarrow> campaign \<Rightarrow> pin list \<Rightarrow> recruiting_db \<Rightarrow> recruiting_error + recruiting_db" where
  "pin_all fresh now c [] db = Inr db"
| "pin_all fresh now c (p # ps) db =
     bindE (PinArtifact \<lparr>pkr_campaign = cm_id c, pkr_tenant = cm_tenant c,
         pkr_pin = p\<lparr>pk_artifact := pinArtifactID fresh p\<rparr>, pkr_pinned_at = now\<rparr> db)
       (pin_all fresh now c ps)"

definition opened :: "string \<Rightarrow> time \<Rightarrow> campaign \<Rightarrow> campaign" where
  "opened d now c = c\<lparr>cm_status := StatusOpen, cm_determination := d, cm_opened_at := Some now\<rparr>"

text \<open>The guard is in the statement: the tenant's campaign, while it is a draft.\<close>

definition OpenCampaign ::
  "string \<Rightarrow> string \<Rightarrow> string \<Rightarrow> time \<Rightarrow> recruiting_db \<Rightarrow> recruiting_error + campaign \<times> recruiting_db" where
  "OpenCampaign tenant i d now db =
     (let hit = (\<lambda>c. cm_tenant c = tenant \<and> cm_id c = i \<and> cm_status c = StatusDraft) in
      case find hit (ry_campaigns db) of
        None \<Rightarrow> Inl ErrNotDraft
      | Some c \<Rightarrow>
          (if d \<notin> jd_id ` set (ry_determinations db) then Inl StatementRefused
           else Inr (opened d now c,
             db\<lparr>ry_campaigns := map (\<lambda>c. if hit c then opened d now c else c) (ry_campaigns db)\<rparr>)))"

definition store_Open ::
  "(pin \<Rightarrow> string) \<Rightarrow> time \<Rightarrow> campaign \<Rightarrow> campaign_opening \<Rightarrow> recruiting_db \<Rightarrow> recruiting_error + campaign \<times> recruiting_db" where
  "store_Open fresh now c og db =
     as_tenant (cm_tenant c)
       (bindE (pin_all fresh now c (og_pins og) db)
         (OpenCampaign (cm_tenant c) (cm_id c) (jd_id (og_determination og)) now))"

text \<open>The adapter: the decision, then its record.\<close>

definition Open ::
  "(pin \<Rightarrow> string) \<Rightarrow> time \<Rightarrow> registry \<Rightarrow> campaign \<Rightarrow> pin_request list \<Rightarrow> recruiting_db
     \<Rightarrow> recruiting_error + campaign \<times> recruiting_db" where
  "Open fresh now content c requests db =
     bindE (ResolveOpening (PublishedArtifact content) (LatestDetermination db) c requests) (\<lambda>og.
       store_Open fresh now c og db)"

text \<open>A recruiter reads the campaigns of their tenant they have been put on.\<close>

definition CampaignsForRecruiter :: "string \<Rightarrow> string \<Rightarrow> recruiting_db \<Rightarrow> campaign list" where
  "CampaignsForRecruiter tenant user db =
     newest_first cm_created_at
       [c. c \<leftarrow> filter (\<lambda>c. cm_tenant c = tenant) (ry_campaigns db),
           r \<leftarrow> filter (\<lambda>r. rk_tenant r = tenant \<and> rk_campaign r = cm_id c \<and> rk_user r = user) (ry_recruiters db)]"

definition CampaignForRecruiter :: "string \<Rightarrow> string \<Rightarrow> string \<Rightarrow> recruiting_db \<Rightarrow> recruiting_error + campaign" where
  "CampaignForRecruiter tenant i user db =
     as_tenant tenant
       (case find (\<lambda>c. cm_id c = i) (CampaignsForRecruiter tenant user db) of
          None \<Rightarrow> Inl ErrNoAccess
        | Some c \<Rightarrow> Inr c)"

definition GrantAccess ::
  "string \<Rightarrow> string \<Rightarrow> string \<Rightarrow> string \<Rightarrow> time \<Rightarrow> recruiting_db \<Rightarrow> recruiting_error + recruiting_db" where
  "GrantAccess tenant i user by now db =
     as_tenant tenant
       (GrantCampaignAccess \<lparr>rk_campaign = i, rk_tenant = tenant, rk_user = user, rk_granted_at = now, rk_granted_by = by\<rparr> db)"

definition List_campaigns :: "string \<Rightarrow> recruiting_db \<Rightarrow> recruiting_error + campaign list" where
  "List_campaigns tenant db =
     as_tenant tenant (Inr (newest_first cm_created_at (filter (\<lambda>c. cm_tenant c = tenant) (ry_campaigns db))))"

definition CampaignsUsing :: "string \<Rightarrow> string \<Rightarrow> recruiting_db \<Rightarrow> recruiting_error + string list" where
  "CampaignsUsing tenant reference db =
     as_tenant tenant (Inr (sort
       [cm_name c. c \<leftarrow> filter (\<lambda>c. cm_tenant c = tenant \<and> cm_status c = StatusOpen) (ry_campaigns db),
          p \<leftarrow> filter (\<lambda>p. pkr_tenant p = tenant \<and> pkr_campaign p = cm_id c \<and> pk_reference (pkr_pin p) = reference) (ry_pins db)]))"

definition CampaignByID :: "string \<Rightarrow> string \<Rightarrow> recruiting_db \<Rightarrow> recruiting_error + campaign" where
  "CampaignByID tenant i db =
     as_tenant tenant
       (case find (\<lambda>c. cm_tenant c = tenant \<and> cm_id c = i) (ry_campaigns db) of
          None \<Rightarrow> Inl ErrNoAccess
        | Some c \<Rightarrow> Inr c)"

definition CampaignPins :: "string \<Rightarrow> string \<Rightarrow> recruiting_db \<Rightarrow> recruiting_error + pin list" where
  "CampaignPins tenant i db =
     as_tenant tenant (Inr (sort_key pk_type
       (map pkr_pin (filter (\<lambda>p. pkr_tenant p = tenant \<and> pkr_campaign p = i) (ry_pins db)))))"

section \<open>The handlers\<close>

text \<open>
  \<open>internal/api/campaigns.go\<close>: what concerns one campaign begins by admitting the caller to it; the campaign
  opened is the one the admission read.
\<close>

definition OpenCampaign_handler ::
  "(pin \<Rightarrow> string) \<Rightarrow> time \<Rightarrow> registry \<Rightarrow> string \<Rightarrow> string \<Rightarrow> string \<Rightarrow> pin_request list \<Rightarrow> recruiting_db
     \<Rightarrow> recruiting_error + campaign \<times> recruiting_db" where
  "OpenCampaign_handler fresh now content tenant user i requests db =
     bindE (CampaignForRecruiter tenant i user db) (\<lambda>c. Open fresh now content c requests db)"

definition GrantCampaignAccess_handler ::
  "time \<Rightarrow> string \<Rightarrow> string \<Rightarrow> string \<Rightarrow> string \<Rightarrow> recruiting_db \<Rightarrow> recruiting_error + recruiting_db" where
  "GrantCampaignAccess_handler now tenant caller i user db =
     bindE (CampaignForRecruiter tenant i caller db) (\<lambda>c. GrantAccess tenant i user caller now db)"

section \<open>What opening resolves\<close>

lemma choose_pins_Inr:
  assumes "choose_pins m rs = Inr m'"
  shows "(\<forall>k r. m' k = Some r \<longrightarrow> m k = Some r \<or> r \<in> set rs \<and> pq_type r = k) \<and> distinct (map pq_type rs)
    \<and> (\<forall>r \<in> set rs. m' (pq_type r) = Some r) \<and> (\<forall>k. m k \<noteq> None \<longrightarrow> m' k = m k \<and> k \<notin> pq_type ` set rs)"
  using assms
proof (induction rs arbitrary: m)
  case (Cons r rs)
  then have m: "m (pq_type r) = None" and rest: "choose_pins (m(pq_type r \<mapsto> r)) rs = Inr m'"
    by (auto split: if_splits)
  from Cons.IH [OF rest] have 1: "\<And>k x. m' k = Some x \<Longrightarrow> (m(pq_type r \<mapsto> r)) k = Some x \<or> x \<in> set rs \<and> pq_type x = k"
    and 2: "distinct (map pq_type rs)" "\<forall>r \<in> set rs. m' (pq_type r) = Some r"
    and 3: "\<And>k. (m(pq_type r \<mapsto> r)) k \<noteq> None \<Longrightarrow> m' k = (m(pq_type r \<mapsto> r)) k \<and> k \<notin> pq_type ` set rs" by blast+
  from 3 [of "pq_type r"] have 4: "m' (pq_type r) = Some r" "pq_type r \<notin> pq_type ` set rs" by auto
  have 5: "m' k = m k \<and> k \<notin> pq_type ` set (r # rs)" if "m k \<noteq> None" for k
    using that 3 [of k] m by (cases "k = pq_type r") auto
  have 6: "m k = Some x \<or> x \<in> set (r # rs) \<and> pq_type x = k" if "m' k = Some x" for k x
    using 1 [OF that] by (auto split: if_splits)
  show ?case using 2 4 5 6 by auto
qed auto

lemma resolve_pins_Inr:
  "resolve_pins published m kinds = Inr pins \<Longrightarrow>
     map pk_type pins = kinds
     \<and> (\<forall>p \<in> set pins. \<exists>a. published (pq_reference (the (m (pk_type p)))) = Some a \<and> p = pin_for (pk_type p) a)"
proof (induction kinds arbitrary: pins)
  case (Cons kind kinds)
  then obtain a rest where a: "published (pq_reference (the (m kind))) = Some a" and rest: "resolve_pins published m kinds = Inr rest"
    and pins: "pins = pin_for kind a # rest"
    by (auto simp: bindE_Inr split: option.splits)
  from Cons.IH [OF rest] a show ?case by (auto simp: pins pin_for_def)
qed auto

lemma ResolveOpening_Inr:
  assumes "ResolveOpening artifacts determinations c requests = Inr og"
  shows "cm_status c = StatusDraft \<and> determinations (cm_jurisdiction c) = Some (og_determination og)
    \<and> distinct (map pq_type requests) \<and> map pk_type (og_pins og) = requiredArtifacts
    \<and> (\<forall>p \<in> set (og_pins og). \<exists>r \<in> set requests. \<exists>a. pq_type r = pk_type p
         \<and> artifacts (cm_tenant c) (pq_reference r) = Some a \<and> p = pin_for (pk_type p) a)"
proof -
  from assms obtain chosen where d: "cm_status c = StatusDraft" "determinations (cm_jurisdiction c) = Some (og_determination og)"
    and ch: "choose_pins (\<lambda>_. None) requests = Inr chosen"
    and full: "first_error (\<lambda>kind. if chosen kind = None then Some (ErrIncompleteConfiguration kind) else None) requiredArtifacts = None"
    and res: "resolve_pins (artifacts (cm_tenant c)) chosen requiredArtifacts = Inr (og_pins og)"
    by (auto simp: ResolveOpening_def bindE_Inr split: if_splits option.splits)
  note c1 = choose_pins_Inr [OF ch] and r1 = resolve_pins_Inr [OF res]
  have "\<exists>r \<in> set requests. \<exists>a. pq_type r = pk_type p \<and> artifacts (cm_tenant c) (pq_reference r) = Some a \<and> p = pin_for (pk_type p) a"
    if p: "p \<in> set (og_pins og)" for p
  proof -
    have "pk_type p \<in> set requiredArtifacts" using r1 p by (metis image_eqI set_map)
    with full obtain r where r: "chosen (pk_type p) = Some r" by (auto simp: first_error_None split: if_splits)
    with c1 have "r \<in> set requests" "pq_type r = pk_type p" by auto
    moreover from r1 p r obtain a where "artifacts (cm_tenant c) (pq_reference r) = Some a" "p = pin_for (pk_type p) a" by auto
    ultimately show ?thesis by blast
  qed
  with d c1 r1 show ?thesis by blast
qed

text \<open>The refusals come in the order the recruiter can act on them.\<close>

lemma ResolveOpening_refusals:
  "cm_status c \<noteq> StatusDraft \<Longrightarrow> ResolveOpening artifacts determinations c requests = Inl ErrNotDraft"
  "cm_status c = StatusDraft \<Longrightarrow> determinations (cm_jurisdiction c) = None \<Longrightarrow>
     ResolveOpening artifacts determinations c requests = Inl ErrNoDetermination"
  by (simp_all add: ResolveOpening_def)

section \<open>What opening writes\<close>

definition pins_of :: "recruiting_db \<Rightarrow> string \<Rightarrow> pin_row list" where
  "pins_of db i = filter (\<lambda>p. pkr_campaign p = i) (ry_pins db)"

lemma pin_all_Inr:
  "pin_all fresh now c ps db = Inr db' \<Longrightarrow>
     (\<exists>rows. db' = db\<lparr>ry_pins := ry_pins db @ rows\<rparr>
        \<and> rows = map (\<lambda>p. \<lparr>pkr_campaign = cm_id c, pkr_tenant = cm_tenant c,
             pkr_pin = p\<lparr>pk_artifact := pinArtifactID fresh p\<rparr>, pkr_pinned_at = now\<rparr>) ps)
     \<and> (ps \<noteq> [] \<longrightarrow> cm_id c \<in> cm_id ` set (ry_campaigns db))
     \<and> (\<forall>p \<in> set ps. digestPattern (pk_digest p) \<and> pk_type p \<notin> pk_type ` pkr_pin ` set (pins_of db (cm_id c)))"
proof (induction ps arbitrary: db)
  case (Cons p ps)
  let ?row = "\<lambda>p. \<lparr>pkr_campaign = cm_id c, pkr_tenant = cm_tenant c,
    pkr_pin = p\<lparr>pk_artifact := pinArtifactID fresh p\<rparr>, pkr_pinned_at = now\<rparr>"
  from Cons.prems obtain db1 where a: "PinArtifact (?row p) db = Inr db1" and rest: "pin_all fresh now c ps db1 = Inr db'"
    by (auto simp: bindE_Inr)
  from a have db1: "db1 = db\<lparr>ry_pins := ry_pins db @ [?row p]\<rparr>" and e: "cm_id c \<in> cm_id ` set (ry_campaigns db)"
    and d: "digestPattern (pk_digest p)" and n: "pk_type p \<notin> pk_type ` pkr_pin ` set (pins_of db (cm_id c))"
    by (auto simp: PinArtifact_def pins_of_def split: if_splits)
  from Cons.IH [OF rest] e d n show ?case by (auto simp: db1 pins_of_def)
qed auto

lemma OpenCampaign_Inr:
  assumes "OpenCampaign tenant i d now db = Inr (c', db')"
  shows "\<exists>c \<in> set (ry_campaigns db). cm_tenant c = tenant \<and> cm_id c = i \<and> cm_status c = StatusDraft \<and> c' = opened d now c
    \<and> d \<in> jd_id ` set (ry_determinations db)
    \<and> db' = db\<lparr>ry_campaigns := map (\<lambda>c. if cm_tenant c = tenant \<and> cm_id c = i \<and> cm_status c = StatusDraft
          then opened d now c else c) (ry_campaigns db)\<rparr>"
  using assms by (auto simp: OpenCampaign_def Let_def find_Some_iff split: option.splits if_splits intro: nth_mem)

lemma Open_Inr:
  assumes "Open fresh now content c requests db = Inr (c', db')"
  shows "\<exists>og rows. ResolveOpening (PublishedArtifact content) (LatestDetermination db) c requests = Inr og
    \<and> TrimSpace (cm_tenant c) \<noteq> ''''
    \<and> rows = map (\<lambda>p. \<lparr>pkr_campaign = cm_id c, pkr_tenant = cm_tenant c,
             pkr_pin = p\<lparr>pk_artifact := pinArtifactID fresh p\<rparr>, pkr_pinned_at = now\<rparr>) (og_pins og)
    \<and> (\<forall>p \<in> set (og_pins og). digestPattern (pk_digest p) \<and> pk_type p \<notin> pk_type ` pkr_pin ` set (pins_of db (cm_id c)))
    \<and> OpenCampaign (cm_tenant c) (cm_id c) (jd_id (og_determination og)) now (db\<lparr>ry_pins := ry_pins db @ rows\<rparr>) = Inr (c', db')"
  using assms by (auto simp: Open_def store_Open_def bindE_Inr as_tenant_Inr dest!: pin_all_Inr)

lemma PublishedArtifact_Some:
  assumes ok: "registry_ok dg content" and p: "PublishedArtifact content tenant ref = Some x"
  shows "\<exists>a \<in> set (xr_artifacts content). aa_reference a = ref \<and> aa_status a = ArtifactPublished \<and> artifact_visible tenant a
    \<and> (tenant = '''' \<or> TrimSpace tenant \<noteq> '''')
    \<and> x = \<lparr>xa_reference = ref, xa_type = aa_type a, xa_digest = aa_digest a, xa_version = aa_version a\<rparr>"
proof -
  from p obtain a where r: "Resolve ref tenant content = Inr a" and st: "aa_status a = ArtifactPublished"
    and x: "x = \<lparr>xa_reference = aa_reference a, xa_type = aa_type a, xa_digest = aa_digest a, xa_version = aa_version a\<rparr>"
    by (auto simp: PublishedArtifact_def split: sum.splits if_splits)
  from r have rp: "ResolvePointer tenant ref content = Some a" and t: "tenant = '''' \<or> TrimSpace tenant \<noteq> ''''"
    by (auto simp: Resolve_def in_content_scope_Inr some_artifact_def split: option.splits)
  from ResolvePointer_Some [OF rp] obtain q where q: "q \<in> set (xr_pointers content)" "po_reference q = ref"
    "a \<in> set (xr_artifacts content)" "artifact_visible tenant a" "aa_id a = po_artifact q" by blast
  from ok q(1) obtain b where "b \<in> set (xr_artifacts content)" "aa_id b = po_artifact q" "aa_reference b = po_reference q"
    by (auto simp: registry_ok_def names_published_def)
  with ok q have "aa_reference a = ref" by (auto simp: registry_ok_def distinct_map inj_on_def)
  with q st x t show ?thesis by auto
qed

text \<open>C21: An open campaign is what was chosen, for good.  A campaign opens only from a draft, under the latest
  determination of its jurisdiction, and with exactly the four kinds an interview needs pinned, each once and in
  order, each to the digest of a version published at that moment under a reference the recruiter chose for that
  kind.  Whatever is drafted, published, rolled back or removed in the registry afterwards, every pin still reads
  as a body that has the digest pinned.\<close>

theorem opened_campaign_is_pinned_for_good:
  assumes "registry_ok dg content" and "Open fresh now content c requests db = Inr (c', db')"
    and "pins_of db (cm_id c) = []" and "(registry_step dg)\<^sup>*\<^sup>* content content'"
  shows "cm_status c = StatusDraft \<and> c' \<in> set (ry_campaigns db') \<and> cm_status c' = StatusOpen \<and> cm_opened_at c' = Some now
    \<and> (\<exists>d. LatestDetermination db (cm_jurisdiction c) = Some d \<and> cm_determination c' = jd_id d)
    \<and> map (\<lambda>r. pk_type (pkr_pin r)) (pins_of db' (cm_id c)) = requiredArtifacts
    \<and> (\<forall>r \<in> set (pins_of db' (cm_id c)).
         (\<exists>q \<in> set requests. pq_type q = pk_type (pkr_pin r) \<and> pk_reference (pkr_pin r) = pq_reference q
            \<and> (\<exists>a \<in> set (xr_artifacts content). aa_reference a = pq_reference q \<and> aa_status a = ArtifactPublished
                 \<and> aa_digest a = pk_digest (pkr_pin r) \<and> aa_version a = pk_version (pkr_pin r)))
         \<and> (\<exists>b. GetByDigest dg (pk_digest (pkr_pin r)) (cm_tenant c) content' = Inr b
              \<and> dg (aa_body b) = Some (pk_digest (pkr_pin r))))"
proof -
  from Open_Inr [OF assms(2)] obtain og rows where
    og: "ResolveOpening (PublishedArtifact content) (LatestDetermination db) c requests = Inr og"
    and rows: "rows = map (\<lambda>p. \<lparr>pkr_campaign = cm_id c, pkr_tenant = cm_tenant c,
             pkr_pin = p\<lparr>pk_artifact := pinArtifactID fresh p\<rparr>, pkr_pinned_at = now\<rparr>) (og_pins og)"
    and oc: "OpenCampaign (cm_tenant c) (cm_id c) (jd_id (og_determination og)) now (db\<lparr>ry_pins := ry_pins db @ rows\<rparr>) = Inr (c', db')"
    by blast
  from OpenCampaign_Inr [OF oc] obtain c0 where c0: "c0 \<in> set (ry_campaigns db)" "cm_tenant c0 = cm_tenant c" "cm_id c0 = cm_id c"
    "cm_status c0 = StatusDraft" and c': "c' = opened (jd_id (og_determination og)) now c0"
    and db': "db' = (db\<lparr>ry_pins := ry_pins db @ rows\<rparr>)\<lparr>ry_campaigns := map (\<lambda>x. if cm_tenant x = cm_tenant c \<and> cm_id x = cm_id c
        \<and> cm_status x = StatusDraft then opened (jd_id (og_determination og)) now x else x) (ry_campaigns db)\<rparr>" by auto
  note res = ResolveOpening_Inr [OF og]
  have mem: "c' \<in> set (ry_campaigns db')" using c0 by (auto simp: db' c')
  have pins: "pins_of db' (cm_id c) = rows" using assms(3) by (auto simp: pins_of_def db' rows)
  have types: "map (\<lambda>r. pk_type (pkr_pin r)) rows = requiredArtifacts" using res by (simp add: rows comp_def)
  have each: "(\<exists>q \<in> set requests. pq_type q = pk_type (pkr_pin r) \<and> pk_reference (pkr_pin r) = pq_reference q
            \<and> (\<exists>a \<in> set (xr_artifacts content). aa_reference a = pq_reference q \<and> aa_status a = ArtifactPublished
                 \<and> aa_digest a = pk_digest (pkr_pin r) \<and> aa_version a = pk_version (pkr_pin r)))
         \<and> (\<exists>b. GetByDigest dg (pk_digest (pkr_pin r)) (cm_tenant c) content' = Inr b
              \<and> dg (aa_body b) = Some (pk_digest (pkr_pin r)))" if r: "r \<in> set rows" for r
  proof -
    from r obtain p where p: "p \<in> set (og_pins og)" "pkr_pin r = p\<lparr>pk_artifact := pinArtifactID fresh p\<rparr>" by (auto simp: rows)
    with res obtain q x where q: "q \<in> set requests" "pq_type q = pk_type p"
      "PublishedArtifact content (cm_tenant c) (pq_reference q) = Some x" "p = pin_for (pk_type p) x" by blast
    from PublishedArtifact_Some [OF assms(1) q(3)] obtain a where a: "a \<in> set (xr_artifacts content)" "aa_reference a = pq_reference q"
      "aa_status a = ArtifactPublished" "artifact_visible (cm_tenant c) a" "cm_tenant c = '''' \<or> TrimSpace (cm_tenant c) \<noteq> ''''"
      "x = \<lparr>xa_reference = pq_reference q, xa_type = aa_type a, xa_digest = aa_digest a, xa_version = aa_version a\<rparr>" by blast
    from q(4) a(6) have p': "pk_reference p = pq_reference q" "pk_digest p = aa_digest a" "pk_version p = aa_version a"
      by (metis pin_for_def pin.select_convs published_artifact.select_convs)+
    have reach: "registry_ok dg content'" "history_kept (xr_artifacts content) (xr_artifacts content')"
      using registry_reach [OF assms(4,1)] by blast+
    with a(1,3) obtain b where b: "b \<in> set (xr_artifacts content')" "same_content a b"
      by (auto simp: history_kept_def past_publication_def)
    from GetByDigest_of_visible [OF reach(1) b(1), of "cm_tenant c"] a(4,5) same_content_fields [OF b(2)] p' p(2) q a(1,2,3)
    show ?thesis by (auto simp: artifact_visible_def)
  qed
  show ?thesis using res mem c0 c' types each by (auto simp: pins opened_def)
qed

text \<open>A registry with one version of each kind, and a draft campaign over it.\<close>

definition ex_hex :: digester where
  "ex_hex b = Some (''sha256:'' @ replicate 63 (CHR ''0'') @ b)"

fun ex_publish :: "(string \<times> string \<times> string) list \<Rightarrow> registry \<Rightarrow> registry" where
  "ex_publish [] db = db"
| "ex_publish ((i, ty, ref) # rest) db =
     ex_publish rest (snd (walk ex_hex i 1 \<lparr>da_type = ty, da_reference = ref, da_version = ''1'', da_schema = ''1'', da_body = i,
        da_tenant = ''t1'', da_created_by = ''author''\<rparr> ''editor'' db))"

definition ex_content :: registry where
  "ex_content = ex_publish [(''1'', ''rubric'', ''backend''), (''2'', ''model_policy'', ''calibrated''), (''3'', ''persona'', ''kind''),
     (''4'', ''plan'', ''screen'')] empty_registry"

definition ex_determination :: determination where
  "ex_determination = \<lparr>jd_id = ''d1'', jd_jurisdiction = ''GB'', jd_version = 1, jd_disclosure = ''full_evaluation'',
     jd_appeal = ''right'', jd_approver = ''counsel'', jd_approved_at = 0\<rparr>"

definition ex_campaign :: campaign where
  "ex_campaign = \<lparr>cm_id = ''c1'', cm_tenant = ''t1'', cm_name = ''Backend'', cm_status = StatusDraft, cm_role = ''role'',
     cm_jurisdiction = ''GB'', cm_determination = '''', cm_opened_at = None, cm_closed_at = None, cm_created_at = 1,
     cm_created_by = ''u1''\<rparr>"

definition ex_recruiting :: recruiting_db where
  "ex_recruiting = empty_recruiting\<lparr>ry_determinations := [ex_determination], ry_campaigns := [ex_campaign],
     ry_recruiters := [\<lparr>rk_campaign = ''c1'', rk_tenant = ''t1'', rk_user = ''u1'', rk_granted_at = 1, rk_granted_by = ''u1''\<rparr>]\<rparr>"

definition ex_requests :: "pin_request list" where
  "ex_requests = [\<lparr>pq_type = ''plan'', pq_reference = ''screen''\<rparr>, \<lparr>pq_type = ''rubric'', pq_reference = ''backend''\<rparr>,
     \<lparr>pq_type = ''persona'', pq_reference = ''kind''\<rparr>, \<lparr>pq_type = ''calibration'', pq_reference = ''calibrated''\<rparr>]"

lemma ex_content_ok: "registry_ok ex_hex ex_content"
  by code_simp

definition ex_rolled :: registry where
  "ex_rolled = snd (RollbackArtifact ''backend'' ''1'' ''t1'' ''op'' 9 ex_content)"

theorem opened_campaign_is_pinned_for_good_witness:
  "\<exists>c db. Open (\<lambda>_. ''x'') 5 ex_content ex_campaign ex_requests ex_recruiting = Inr (c, db) \<and> cm_status c = StatusOpen
     \<and> map (\<lambda>r. pk_type (pkr_pin r)) (pins_of db ''c1'') = requiredArtifacts
     \<and> (\<forall>r \<in> set (pins_of db ''c1''). \<exists>b. GetByDigest ex_hex (pk_digest (pkr_pin r)) ''t1'' ex_rolled = Inr b)"
proof -
  have "is_ok (Open (\<lambda>_. ''x'') 5 ex_content ex_campaign ex_requests ex_recruiting)" by code_simp
  then obtain c db where o: "Open (\<lambda>_. ''x'') 5 ex_content ex_campaign ex_requests ex_recruiting = Inr (c, db)"
    by (auto simp: is_ok_iff)
  have s: "(registry_step ex_hex)\<^sup>*\<^sup>* ex_content ex_rolled" unfolding ex_rolled_def by (intro r_into_rtranclp rolls_back)
  have p: "pins_of ex_recruiting (cm_id ex_campaign) = []" and i: "cm_id ex_campaign = ''c1''" "cm_tenant ex_campaign = ''t1''" by code_simp+
  from opened_campaign_is_pinned_for_good [OF ex_content_ok o p s] o show ?thesis unfolding i by blast
qed

text \<open>
  The kind a pin is stored under is the one asked for, and nothing compares it with the type of the
  artifact the reference resolves to.  No artifact has the type \<open>calibration\<close>, which every campaign must pin.
\<close>

lemma no_artifact_is_a_calibration:
  "registry_ok dg content \<Longrightarrow> a \<in> set (xr_artifacts content) \<Longrightarrow> aa_type a \<noteq> ''calibration''"
  by (auto simp: registry_ok_def row_ok_def artifact_types_def)

lemma a_plan_is_pinned_as_the_rubric:
  "\<exists>c db. Open (\<lambda>_. ''x'') 5 ex_content ex_campaign
     [\<lparr>pq_type = ''rubric'', pq_reference = ''screen''\<rparr>, \<lparr>pq_type = ''calibration'', pq_reference = ''screen''\<rparr>,
      \<lparr>pq_type = ''persona'', pq_reference = ''screen''\<rparr>, \<lparr>pq_type = ''plan'', pq_reference = ''screen''\<rparr>] ex_recruiting
     = Inr (c, db)"
proof -
  have "is_ok (Open (\<lambda>_. ''x'') 5 ex_content ex_campaign
     [\<lparr>pq_type = ''rubric'', pq_reference = ''screen''\<rparr>, \<lparr>pq_type = ''calibration'', pq_reference = ''screen''\<rparr>,
      \<lparr>pq_type = ''persona'', pq_reference = ''screen''\<rparr>, \<lparr>pq_type = ''plan'', pq_reference = ''screen''\<rparr>] ex_recruiting)"
    by code_simp
  then show ?thesis by (auto simp: is_ok_iff)
qed

text \<open>
  A rollback accepts a deprecated version, and leaves it deprecated: the reference then resolves to it, and
  no campaign can be opened with it.
\<close>

definition ex_there_and_back :: registry where
  "ex_there_and_back = snd (RollbackArtifact ''backend'' ''2'' ''t1'' ''operator'' 10 ex_back)"

lemma rollback_to_a_deprecated_version_unpublishes:
  "(case Resolve ''backend'' ''t1'' ex_there_and_back of Inr a \<Rightarrow> aa_version a = ''2'' \<and> aa_status a = ArtifactDeprecated | _ \<Rightarrow> False)
   \<and> PublishedArtifact ex_there_and_back ''t1'' ''backend'' = None"
  by code_simp

section \<open>Who may see and open a campaign\<close>

lemma CampaignForRecruiter_Inr:
  "CampaignForRecruiter tenant i user db = Inr c \<Longrightarrow>
     c \<in> set (ry_campaigns db) \<and> cm_id c = i \<and> cm_tenant c = tenant
     \<and> (\<exists>r \<in> set (ry_recruiters db). rk_tenant r = tenant \<and> rk_campaign r = i \<and> rk_user r = user)"
  by (auto simp: CampaignForRecruiter_def as_tenant_Inr CampaignsForRecruiter_def newest_first_def
      split: option.splits dest!: find_SomeD)


end
