(* ===== verification/Review.thy ===== *)
theory Review
  imports Campaigns
begin

text \<open>
  Decisions and appeals (\<open>services/platform/internal/recruiting/decision.go\<close>, \<open>rereview.go\<close>): recording a
  named human's decision with the event that announces it, the history of a session, and the appeal against
  the latest decision, raised, assigned and resolved.  The reads an appeal is checked by and the statement that
  writes it see the table at different moments, so what was read is an argument beside the table written.
  Nothing but \<open>RecordReviewDecision\<close> writes to the outbox of this schema.
\<close>

section \<open>Decisions\<close>

definition validDecisions :: "string list" where
  "validDecisions = [''advance'', ''reject'', ''hold'']"

definition override_incomplete :: "band_override \<Rightarrow> bool" where
  "override_incomplete o' \<longleftrightarrow> TrimSpace (bo_competency o') = '''' \<or> TrimSpace (bo_recorded o') = ''''
     \<or> TrimSpace (bo_override o') = '''' \<or> TrimSpace (bo_rationale o') = ''''"

definition InsertReviewDecision :: "review_row \<Rightarrow> recruiting_db \<Rightarrow> recruiting_error + recruiting_db" where
  "InsertReviewDecision r db =
     (if hd_id (hdr_review r) \<in> (\<lambda>q. hd_id (hdr_review q)) ` set (ry_reviews db)
        \<or> hdr_campaign r \<notin> cm_id ` set (ry_campaigns db)
        \<or> hd_decision (hdr_review r) \<notin> set validDecisions
        \<or> sql_trim (hd_reason (hdr_review r)) = ''''
        \<or> vr_result (hd_evidence (hdr_review r)) = '''' \<or> vr_rubric (hd_evidence (hdr_review r)) = ''''
      then Inl StatementRefused
      else Inr (db\<lparr>ry_reviews := ry_reviews db @ [r]\<rparr>))"

text \<open>The announcement: who decided what, informed by which evaluation, and none of the reasoning.\<close>

definition decision_payload :: "review_decision \<Rightarrow> Outbox.payload" where
  "decision_payload d = Object
     [(''review_id'', JString (hd_id d)), (''application_id'', JString (hd_session d)), (''decision'', JString (hd_decision d)),
      (''decided_by'', JString (hd_decided_by d)), (''evaluation_id'', JString (vr_evaluation (hd_evidence d)))]"

definition decision_event :: "string \<Rightarrow> review_decision \<Rightarrow> Outbox.event" where
  "decision_event tenant d =
     \<lparr>ev_type = ''review.decision_recorded.v1'', ev_schema_version = ''1.0'', ev_tenant = tenant, ev_occurred_at = 0,
      ev_producer = ''recruiting'', ev_actor = \<lparr>oa_type = ''user'', oa_id = hd_decided_by d\<rparr>, ev_purpose = ''screening'',
      ev_correlation = '''', ev_causation = '''', ev_payload = decision_payload d\<rparr>"

definition announce_decision ::
  "string \<Rightarrow> time \<Rightarrow> review_row \<Rightarrow> recruiting_db \<Rightarrow> recruiting_error + recruiting_db" where
  "announce_decision e now r db =
     (case Outbox.Publish e now (decision_event (hdr_tenant r) (hdr_review r)) (ry_outbox db) of
        Inl err \<Rightarrow> Inl (OutboxRefused err)
      | Inr rows \<Rightarrow> Inr (db\<lparr>ry_outbox := rows\<rparr>))"

text \<open>\<open>i\<close> and \<open>e\<close> are the identifiers drawn for the decision and for its event.\<close>

definition RecordReviewDecision ::
  "string \<Rightarrow> string \<Rightarrow> time \<Rightarrow> string \<Rightarrow> string \<Rightarrow> string \<Rightarrow> string \<Rightarrow> string \<Rightarrow> string \<Rightarrow> evidence_version
     \<Rightarrow> band_override list \<Rightarrow> recruiting_db \<Rightarrow> recruiting_error + review_decision \<times> recruiting_db" where
  "RecordReviewDecision i e now tenant campaign session by decision reason evidence overrides db =
     (if decision \<notin> set validDecisions then Inl ErrDecisionUnknown
      else if TrimSpace reason = '''' then Inl ErrDecisionReasonRequired
      else if TrimSpace by = '''' then Inl ErrDecisionActorRequired
      else if list_ex override_incomplete overrides then Inl ErrOverrideIncomplete
      else as_tenant tenant
        (let d = \<lparr>hd_id = i, hd_session = session, hd_decided_by = by, hd_decision = decision, hd_reason = reason,
               hd_evidence = evidence, hd_overrides = overrides, hd_created_at = now\<rparr>;
             r = \<lparr>hdr_tenant = tenant, hdr_campaign = campaign, hdr_review = d\<rparr> in
         bindE (InsertReviewDecision r db) (\<lambda>db1.
         bindE (announce_decision e now r db1) (\<lambda>db2. Inr (d, db2)))))"

definition decisions_on :: "string \<Rightarrow> string \<Rightarrow> string \<Rightarrow> recruiting_db \<Rightarrow> review_decision list" where
  "decisions_on tenant campaign session db =
     map hdr_review (filter (\<lambda>r. hdr_tenant r = tenant \<and> hdr_campaign r = campaign \<and> hd_session (hdr_review r) = session)
       (ry_reviews db))"

definition ReviewDecisionsForSession ::
  "string \<Rightarrow> string \<Rightarrow> string \<Rightarrow> recruiting_db \<Rightarrow> recruiting_error + review_decision list" where
  "ReviewDecisionsForSession tenant campaign session db =
     as_tenant tenant (Inr (sort_key hd_created_at (decisions_on tenant campaign session db)))"

definition LatestReviewDecision :: "string \<Rightarrow> string \<Rightarrow> string \<Rightarrow> recruiting_db \<Rightarrow> review_decision option" where
  "LatestReviewDecision tenant campaign session db = newest_by hd_created_at (decisions_on tenant campaign session db)"

section \<open>Appeals\<close>

definition ReReviewSLA :: duration where "ReReviewSLA = 7 * 24 * hour"

definition validOutcomes :: "string list" where
  "validOutcomes = [''upheld'', ''revised'']"

definition InsertReReview :: "re_review_row \<Rightarrow> recruiting_db \<Rightarrow> recruiting_error + recruiting_db" where
  "InsertReReview r db =
     (if ap_id (apr_review r) \<in> (\<lambda>q. ap_id (apr_review q)) ` set (ry_rereviews db)
        \<or> apr_campaign r \<notin> cm_id ` set (ry_campaigns db)
        \<or> ap_decision (apr_review r) \<notin> (\<lambda>q. hd_id (hdr_review q)) ` set (ry_reviews db)
        \<or> sql_trim (ap_reason (apr_review r)) = ''''
        \<or> vr_result (ap_frozen (apr_review r)) = '''' \<or> vr_rubric (ap_frozen (apr_review r)) = ''''
      then Inl StatementRefused
      else Inr (db\<lparr>ry_rereviews := ry_rereviews db @ [r]\<rparr>))"

definition appeal_of ::
  "string \<Rightarrow> time \<Rightarrow> time \<Rightarrow> string \<Rightarrow> string \<Rightarrow> string \<Rightarrow> string \<Rightarrow> review_decision \<Rightarrow> re_review" where
  "appeal_of i now clock session by reason bundle d =
     \<lparr>ap_id = i, ap_session = session, ap_requested_by = by, ap_reason = reason, ap_decision = hd_id d,
      ap_original_reviewer = hd_decided_by d, ap_frozen = hd_evidence d, ap_bundle = bundle, ap_assigned_to = '''',
      ap_raised_at = now, ap_due_at = clock + ReReviewSLA, ap_resolution = None\<rparr>"

text \<open>The due date is counted from the clock of the service, the rest is the transaction's.\<close>

definition RaiseReReview ::
  "string \<Rightarrow> time \<Rightarrow> time \<Rightarrow> string \<Rightarrow> string \<Rightarrow> string \<Rightarrow> string \<Rightarrow> string \<Rightarrow> string \<Rightarrow> recruiting_db
     \<Rightarrow> recruiting_error + re_review \<times> recruiting_db" where
  "RaiseReReview i now clock tenant campaign session by reason bundle db =
     (if TrimSpace reason = '''' then Inl ErrAppealReasonRequired
      else as_tenant tenant
        (case LatestReviewDecision tenant campaign session db of
           None \<Rightarrow> Inl ErrAppealNoDecision
         | Some d \<Rightarrow>
             (let a = appeal_of i now clock session by reason bundle d in
              bindE (InsertReReview \<lparr>apr_tenant = tenant, apr_campaign = campaign, apr_review = a\<rparr> db) (\<lambda>db'.
                Inr (a, db')))))"

definition named_appeal :: "string \<Rightarrow> string \<Rightarrow> string \<Rightarrow> re_review_row \<Rightarrow> bool" where
  "named_appeal tenant campaign i r \<longleftrightarrow> apr_tenant r = tenant \<and> apr_campaign r = campaign \<and> ap_id (apr_review r) = i"

definition ReReviewByID :: "string \<Rightarrow> string \<Rightarrow> string \<Rightarrow> recruiting_db \<Rightarrow> re_review option" where
  "ReReviewByID tenant campaign i db =
     map_option apr_review (find (named_appeal tenant campaign i) (ry_rereviews db))"

definition some_appeal :: "re_review option \<Rightarrow> recruiting_error + re_review" where
  "some_appeal a = (case a of None \<Rightarrow> Inl ErrAppealUnknown | Some a \<Rightarrow> Inr a)"

text \<open>
  An update of the rows that match: how many there were, and the table.  The schema refuses a row in which the
  original reviewer answers.
\<close>

definition independent :: "re_review \<Rightarrow> bool" where
  "independent a \<longleftrightarrow> (ap_assigned_to a = '''' \<or> ap_assigned_to a \<noteq> ap_original_reviewer a)
     \<and> (case ap_resolution a of None \<Rightarrow> True
        | Some z \<Rightarrow> rz_resolved_by z \<noteq> ap_original_reviewer a \<and> rz_outcome z \<in> set validOutcomes)"

lemma independent_iff:
  "independent a \<longleftrightarrow> (ap_assigned_to a = '''' \<or> ap_assigned_to a \<noteq> ap_original_reviewer a)
     \<and> (\<forall>z. ap_resolution a = Some z \<longrightarrow> rz_resolved_by z \<noteq> ap_original_reviewer a \<and> rz_outcome z \<in> set validOutcomes)"
  by (auto simp: independent_def split: option.splits)

definition update_appeals ::
  "(re_review_row \<Rightarrow> bool) \<Rightarrow> (re_review \<Rightarrow> re_review) \<Rightarrow> recruiting_db \<Rightarrow> recruiting_error + nat \<times> recruiting_db" where
  "update_appeals matches f db =
     (if list_ex (\<lambda>r. matches r \<and> \<not> independent (f (apr_review r))) (ry_rereviews db) then Inl StatementRefused
      else Inr (length (filter matches (ry_rereviews db)),
        db\<lparr>ry_rereviews := map (\<lambda>r. if matches r then r\<lparr>apr_review := f (apr_review r)\<rparr> else r) (ry_rereviews db)\<rparr>))"

definition set_assignee :: "string \<Rightarrow> string \<Rightarrow> string \<Rightarrow> string \<Rightarrow> recruiting_db \<Rightarrow> recruiting_error + nat \<times> recruiting_db" where
  "set_assignee tenant campaign i assignee db =
     (if assignee = '''' then Inl StatementRefused
      else update_appeals (\<lambda>r. named_appeal tenant campaign i r \<and> ap_resolution (apr_review r) = None)
        (ap_assigned_to_update (\<lambda>_. assignee)) db)"

definition set_resolution ::
  "string \<Rightarrow> string \<Rightarrow> string \<Rightarrow> resolution \<Rightarrow> recruiting_db \<Rightarrow> recruiting_error + nat \<times> recruiting_db" where
  "set_resolution tenant campaign i z db =
     (if rz_resolved_by z = '''' then Inl StatementRefused
      else update_appeals (\<lambda>r. named_appeal tenant campaign i r \<and> ap_resolution (apr_review r) = None
          \<and> ap_assigned_to (apr_review r) = rz_resolved_by z)
        (ap_resolution_update (\<lambda>_. Some z)) db)"

definition read_back ::
  "string \<Rightarrow> string \<Rightarrow> string \<Rightarrow> nat \<times> recruiting_db \<Rightarrow> recruiting_error + re_review \<times> recruiting_db" where
  "read_back tenant campaign i w =
     (if fst w = 0 then Inl ErrAppealResolved
      else bindE (some_appeal (ReReviewByID tenant campaign i (snd w))) (\<lambda>a. Inr (a, snd w)))"

text \<open>\<open>seen\<close> is the schema as the first read found it, \<open>db\<close> as the update finds it.\<close>

definition AssignReReview ::
  "string \<Rightarrow> string \<Rightarrow> string \<Rightarrow> string \<Rightarrow> recruiting_db \<Rightarrow> recruiting_db \<Rightarrow> recruiting_error + re_review \<times> recruiting_db" where
  "AssignReReview tenant campaign i assignee seen db =
     as_tenant tenant
       (bindE (some_appeal (ReReviewByID tenant campaign i seen)) (\<lambda>current.
          if ap_resolution current \<noteq> None then Inl ErrAppealResolved
          else if ap_original_reviewer current = assignee then Inl ErrAppealSelfReview
          else bindE (set_assignee tenant campaign i assignee db) (read_back tenant campaign i)))"

definition ResolveReReview ::
  "time \<Rightarrow> string \<Rightarrow> string \<Rightarrow> string \<Rightarrow> string \<Rightarrow> string \<Rightarrow> string \<Rightarrow> string \<Rightarrow> recruiting_db \<Rightarrow> recruiting_db
     \<Rightarrow> recruiting_error + re_review \<times> recruiting_db" where
  "ResolveReReview now tenant campaign i by outcome rationale disclosure seen db =
     (if outcome \<notin> set validOutcomes \<or> TrimSpace rationale = '''' \<or> TrimSpace disclosure = '''' then Inl ErrAppealOutcomeInvalid
      else as_tenant tenant
        (bindE (some_appeal (ReReviewByID tenant campaign i seen)) (\<lambda>current.
           if ap_resolution current \<noteq> None then Inl ErrAppealResolved
           else if ap_original_reviewer current = by then Inl ErrAppealSelfReview
           else if ap_assigned_to current = '''' \<or> ap_assigned_to current \<noteq> by then Inl ErrAppealResolverNotAssigned
           else bindE (set_resolution tenant campaign i
               \<lparr>rz_outcome = outcome, rz_rationale = rationale, rz_disclosure = disclosure, rz_resolved_by = by,
                rz_resolved_at = now\<rparr> db) (read_back tenant campaign i))))"

definition ReReviewsForSession ::
  "string \<Rightarrow> string \<Rightarrow> string \<Rightarrow> recruiting_db \<Rightarrow> recruiting_error + re_review list" where
  "ReReviewsForSession tenant campaign session db =
     as_tenant tenant (Inr (sort_key ap_raised_at (map apr_review
       (filter (\<lambda>r. apr_tenant r = tenant \<and> apr_campaign r = campaign \<and> ap_session (apr_review r) = session)
         (ry_rereviews db)))))"

section \<open>Steps and what they keep\<close>

inductive review_step :: "recruiting_db \<Rightarrow> recruiting_db \<Rightarrow> bool" where
  recorded: "RecordReviewDecision i e now tenant campaign session by decision reason evidence overrides db = Inr (d, db')
    \<Longrightarrow> review_step db db'"
| raised: "RaiseReReview i now clock tenant campaign session by reason bundle db = Inr (a, db') \<Longrightarrow> review_step db db'"
| assigned: "AssignReReview tenant campaign i assignee seen db = Inr (a, db') \<Longrightarrow> review_step db db'"
| resolved: "ResolveReReview now tenant campaign i by outcome rationale disclosure seen db = Inr (a, db')
    \<Longrightarrow> review_step db db'"

text \<open>A decision that can say whose it was, why, and on what; and the event that announces it.\<close>

definition accounted :: "review_row \<Rightarrow> bool" where
  "accounted r \<longleftrightarrow> hd_decision (hdr_review r) \<in> set validDecisions \<and> TrimSpace (hd_reason (hdr_review r)) \<noteq> ''''
     \<and> TrimSpace (hd_decided_by (hdr_review r)) \<noteq> '''' \<and> vr_result (hd_evidence (hdr_review r)) \<noteq> ''''
     \<and> vr_rubric (hd_evidence (hdr_review r)) \<noteq> '''' \<and> \<not> list_ex override_incomplete (hd_overrides (hdr_review r))"

definition announces :: "review_row \<Rightarrow> outbox_row \<Rightarrow> bool" where
  "announces r ob \<longleftrightarrow> ev_type (ob_event ob) = ''review.decision_recorded.v1'' \<and> ev_tenant (ob_event ob) = hdr_tenant r
     \<and> oa_id (ev_actor (ob_event ob)) = hd_decided_by (hdr_review r)
     \<and> ev_payload (ob_event ob) = decision_payload (hdr_review r)"

definition settled_appeal :: "review_row list \<Rightarrow> re_review_row \<Rightarrow> bool" where
  "settled_appeal decisions r \<longleftrightarrow> independent (apr_review r)
     \<and> (\<forall>z. ap_resolution (apr_review r) = Some z \<longrightarrow> rz_resolved_by z = ap_assigned_to (apr_review r) \<and> rz_resolved_by z \<noteq> ''''
          \<and> TrimSpace (rz_rationale z) \<noteq> '''' \<and> TrimSpace (rz_disclosure z) \<noteq> '''')
     \<and> (\<exists>d \<in> set decisions. hdr_tenant d = apr_tenant r \<and> hdr_campaign d = apr_campaign r
          \<and> hd_session (hdr_review d) = ap_session (apr_review r) \<and> hd_id (hdr_review d) = ap_decision (apr_review r)
          \<and> hd_decided_by (hdr_review d) = ap_original_reviewer (apr_review r)
          \<and> hd_evidence (hdr_review d) = ap_frozen (apr_review r))"

definition review_ok :: "recruiting_db \<Rightarrow> bool" where
  "review_ok db \<longleftrightarrow> list_all accounted (ry_reviews db) \<and> list_all2 announces (ry_reviews db) (ry_outbox db)
     \<and> distinct (map (\<lambda>r. ap_id (apr_review r)) (ry_rereviews db))
     \<and> list_all (settled_appeal (ry_reviews db)) (ry_rereviews db)"

text \<open>What an appeal may become: assigned to somebody, or resolved, and nothing once it is resolved.\<close>

definition appeal_goes :: "re_review_row \<Rightarrow> re_review_row \<Rightarrow> bool" where
  "appeal_goes r s \<longleftrightarrow>
     (\<exists>who z. s = r\<lparr>apr_review := (apr_review r)\<lparr>ap_assigned_to := who, ap_resolution := z\<rparr>\<rparr>)
     \<and> (ap_resolution (apr_review r) \<noteq> None \<longrightarrow> s = r)"

definition appeals_kept :: "re_review_row list \<Rightarrow> re_review_row list \<Rightarrow> bool" where
  "appeals_kept rs ss \<longleftrightarrow> length rs \<le> length ss \<and> (\<forall>j < length rs. appeal_goes (rs ! j) (ss ! j))"


lemma appeal_goes_refl: "appeal_goes r r"
  unfolding appeal_goes_def by (auto intro!: exI [of _ "ap_assigned_to (apr_review r)"] exI [of _ "ap_resolution (apr_review r)"])

lemma appeal_goes_trans: "appeal_goes r s \<Longrightarrow> appeal_goes s t \<Longrightarrow> appeal_goes r t"
  unfolding appeal_goes_def by (cases r; cases "apr_review r") auto

lemma appeals_kept_refl: "appeals_kept rs rs"
  by (simp add: appeals_kept_def appeal_goes_refl)

lemma appeals_kept_trans: "appeals_kept rs ss \<Longrightarrow> appeals_kept ss ts \<Longrightarrow> appeals_kept rs ts"
  unfolding appeals_kept_def by (auto intro: appeal_goes_trans [of "rs ! _" "ss ! _"])

lemma appeals_kept_append: "appeals_kept rs (rs @ ss)"
  by (simp add: appeals_kept_def nth_append appeal_goes_refl)

lemma appeals_kept_map:
  assumes "\<And>r. r \<in> set rs \<Longrightarrow> appeal_goes r (f r)"
  shows "appeals_kept rs (map f rs)"
  using assms by (simp add: appeals_kept_def)

lemma Publish_event:
  assumes "Outbox.Publish e now ev rows = Inr rows'" and "ev_payload ev = Object kvs"
  shows "\<exists>ob. rows' = rows @ [ob] \<and> ev_type (ob_event ob) = ev_type ev \<and> ev_tenant (ob_event ob) = ev_tenant ev
    \<and> ev_actor (ob_event ob) = ev_actor ev \<and> ev_payload (ob_event ob) = ev_payload ev"
  using assms by (auto simp: Outbox.Publish_def new_row_def split: option.splits if_splits)

lemma RecordReviewDecision_Inr:
  assumes "RecordReviewDecision i e now tenant campaign session by decision reason evidence overrides db = Inr (d, db')"
  shows "\<exists>r ob. accounted r \<and> announces r ob \<and> hdr_review r = d \<and> hdr_tenant r = tenant \<and> hdr_campaign r = campaign
    \<and> hd_id d = i \<and> hd_session d = session \<and> hd_decided_by d = by \<and> hd_decision d = decision \<and> hd_evidence d = evidence
    \<and> hd_created_at d = now \<and> i \<notin> (\<lambda>q. hd_id (hdr_review q)) ` set (ry_reviews db) \<and> TrimSpace tenant \<noteq> ''''
    \<and> db' = db\<lparr>ry_reviews := ry_reviews db @ [r], ry_outbox := ry_outbox db @ [ob]\<rparr>"
proof -
  let ?d = "\<lparr>hd_id = i, hd_session = session, hd_decided_by = by, hd_decision = decision, hd_reason = reason,
               hd_evidence = evidence, hd_overrides = overrides, hd_created_at = now\<rparr>"
  let ?r = "\<lparr>hdr_tenant = tenant, hdr_campaign = campaign, hdr_review = ?d\<rparr>"
  from assms have g: "decision \<in> set validDecisions" "TrimSpace reason \<noteq> ''''" "TrimSpace by \<noteq> ''''"
    "\<not> list_ex override_incomplete overrides" "TrimSpace tenant \<noteq> ''''" and d: "d = ?d"
    and ins: "InsertReviewDecision ?r db = Inr (db\<lparr>ry_reviews := ry_reviews db @ [?r]\<rparr>)"
    and ann: "announce_decision e now ?r (db\<lparr>ry_reviews := ry_reviews db @ [?r]\<rparr>) = Inr db'"
    by (auto simp: RecordReviewDecision_def as_tenant_Inr bindE_Inr Let_def InsertReviewDecision_def split: if_splits)
  from ann obtain rows where rows: "Outbox.Publish e now (decision_event tenant ?d) (ry_outbox db) = Inr rows"
    and db': "db' = db\<lparr>ry_reviews := ry_reviews db @ [?r], ry_outbox := rows\<rparr>"
    by (auto simp: announce_decision_def split: sum.splits)
  from Publish_event [OF rows] obtain ob where ob: "rows = ry_outbox db @ [ob]" "announces ?r ob"
    by (auto simp: announces_def decision_event_def decision_payload_def)
  have "accounted ?r" "i \<notin> (\<lambda>q. hd_id (hdr_review q)) ` set (ry_reviews db)"
    using g ins by (auto simp: accounted_def InsertReviewDecision_def split: if_splits)
  with ob db' d g(5) show ?thesis by (intro exI [of _ ?r] exI [of _ ob]) simp
qed

lemma RaiseReReview_Inr:
  assumes "RaiseReReview i now clock tenant campaign session by reason bundle db = Inr (a, db')"
  shows "\<exists>d. LatestReviewDecision tenant campaign session db = Some d
    \<and> a = appeal_of i now clock session by reason bundle d \<and> i \<notin> (\<lambda>q. ap_id (apr_review q)) ` set (ry_rereviews db)
    \<and> TrimSpace tenant \<noteq> ''''
    \<and> db' = db\<lparr>ry_rereviews := ry_rereviews db @ [\<lparr>apr_tenant = tenant, apr_campaign = campaign, apr_review = a\<rparr>]\<rparr>"
  using assms
  by (auto simp: RaiseReReview_def as_tenant_Inr bindE_Inr Let_def InsertReReview_def appeal_of_def split: option.splits if_splits)

lemma update_appeals_Inr:
  "update_appeals m f db = Inr (n, db') \<Longrightarrow>
     (\<forall>r \<in> set (ry_rereviews db). m r \<longrightarrow> independent (f (apr_review r)))
     \<and> n = length (filter m (ry_rereviews db))
     \<and> db' = db\<lparr>ry_rereviews := map (\<lambda>r. if m r then r\<lparr>apr_review := f (apr_review r)\<rparr> else r) (ry_rereviews db)\<rparr>"
  by (auto simp: update_appeals_def list_ex_iff split: if_splits)


definition assign_row :: "string \<Rightarrow> re_review_row \<Rightarrow> re_review_row" where
  "assign_row who r = r\<lparr>apr_review := (apr_review r)\<lparr>ap_assigned_to := who\<rparr>\<rparr>"

definition resolve_row :: "resolution \<Rightarrow> re_review_row \<Rightarrow> re_review_row" where
  "resolve_row z r = r\<lparr>apr_review := (apr_review r)\<lparr>ap_resolution := Some z\<rparr>\<rparr>"

definition rewrite :: "(re_review_row \<Rightarrow> bool) \<Rightarrow> (re_review_row \<Rightarrow> re_review_row) \<Rightarrow> recruiting_db \<Rightarrow> recruiting_db" where
  "rewrite m f db = db\<lparr>ry_rereviews := map (\<lambda>r. if m r then f r else r) (ry_rereviews db)\<rparr>"

lemma AssignReReview_Inr:
  assumes "AssignReReview tenant campaign i assignee seen db = Inr (a, db')"
  shows "\<exists>m. (\<forall>r. m r \<longrightarrow> named_appeal tenant campaign i r \<and> ap_resolution (apr_review r) = None)
    \<and> (\<forall>r \<in> set (ry_rereviews db). m r \<longrightarrow> independent (apr_review (assign_row assignee r)))
    \<and> (\<exists>r \<in> set (ry_rereviews db). m r) \<and> assignee \<noteq> ''''
    \<and> ReReviewByID tenant campaign i db' = Some a \<and> db' = rewrite m (assign_row assignee) db"
proof -
  let ?m = "\<lambda>r. named_appeal tenant campaign i r \<and> ap_resolution (apr_review r) = None"
  from assms obtain n where w: "set_assignee tenant campaign i assignee db = Inr (n, db')"
    and b: "n \<noteq> 0" "ReReviewByID tenant campaign i db' = Some a"
    by (auto simp: AssignReReview_def as_tenant_Inr bindE_Inr read_back_def some_appeal_def split: if_splits option.splits)
  then have u: "update_appeals ?m (ap_assigned_to_update (\<lambda>_. assignee)) db = Inr (n, db')" "assignee \<noteq> ''''"
    by (auto simp: set_assignee_def split: if_splits)
  from update_appeals_Inr [OF u(1)] b(1) have "\<exists>r \<in> set (ry_rereviews db). ?m r" by (auto simp: filter_empty_conv)
  with update_appeals_Inr [OF u(1)] u(2) b(2) show ?thesis
    by (intro exI [of _ ?m]) (simp add: assign_row_def [abs_def] rewrite_def)
qed

lemma ResolveReReview_Inr:
  assumes "ResolveReReview now tenant campaign i by outcome rationale disclosure seen db = Inr (a, db')"
  shows "\<exists>m z. (\<forall>r. m r \<longrightarrow> named_appeal tenant campaign i r \<and> ap_resolution (apr_review r) = None
        \<and> ap_assigned_to (apr_review r) = rz_resolved_by z)
    \<and> (\<forall>r \<in> set (ry_rereviews db). m r \<longrightarrow> independent (apr_review (resolve_row z r)))
    \<and> (\<exists>r \<in> set (ry_rereviews db). m r) \<and> rz_resolved_by z = by \<and> by \<noteq> '''' \<and> rz_outcome z = outcome
    \<and> TrimSpace (rz_rationale z) \<noteq> '''' \<and> TrimSpace (rz_disclosure z) \<noteq> ''''
    \<and> ReReviewByID tenant campaign i db' = Some a \<and> db' = rewrite m (resolve_row z) db"
proof -
  let ?z = "\<lparr>rz_outcome = outcome, rz_rationale = rationale, rz_disclosure = disclosure, rz_resolved_by = by,
                rz_resolved_at = now\<rparr>"
  let ?m = "\<lambda>r. named_appeal tenant campaign i r \<and> ap_resolution (apr_review r) = None \<and> ap_assigned_to (apr_review r) = rz_resolved_by ?z"
  from assms obtain n where w: "set_resolution tenant campaign i ?z db = Inr (n, db')"
    and b: "n \<noteq> 0" "ReReviewByID tenant campaign i db' = Some a" "TrimSpace rationale \<noteq> ''''" "TrimSpace disclosure \<noteq> ''''"
    by (auto simp: ResolveReReview_def as_tenant_Inr bindE_Inr read_back_def some_appeal_def split: if_splits option.splits)
  then have u: "update_appeals ?m (ap_resolution_update (\<lambda>_. Some ?z)) db = Inr (n, db')" "by \<noteq> ''''"
    by (auto simp: set_resolution_def split: if_splits)
  from update_appeals_Inr [OF u(1)] b(1) have "\<exists>r \<in> set (ry_rereviews db). ?m r" by (auto simp: filter_empty_conv)
  with update_appeals_Inr [OF u(1)] u(2) b show ?thesis
    by (intro exI [of _ ?m] exI [of _ ?z]) (simp add: resolve_row_def [abs_def] rewrite_def)
qed

lemma AssignReReview_open:
  assumes "AssignReReview tenant campaign i assignee seen db = Inr (a, db')"
  shows "\<exists>q \<in> set (ry_rereviews db). named_appeal tenant campaign i q \<and> ap_resolution (apr_review q) = None"
proof -
  from AssignReReview_Inr [OF assms] obtain m where "\<forall>r. m r \<longrightarrow> named_appeal tenant campaign i r \<and> ap_resolution (apr_review r) = None"
    and "\<exists>r \<in> set (ry_rereviews db). m r" by (elim exE conjE)
  then show ?thesis by blast
qed

lemma ResolveReReview_open:
  assumes "ResolveReReview now tenant campaign i by outcome rationale disclosure seen db = Inr (a, db')"
  shows "\<exists>q \<in> set (ry_rereviews db). named_appeal tenant campaign i q \<and> ap_resolution (apr_review q) = None"
  using ResolveReReview_Inr [OF assms]
proof (elim exE conjE bexE)
  fix m z r
  assume "\<forall>r. m r \<longrightarrow> named_appeal tenant campaign i r \<and> ap_resolution (apr_review r) = None
      \<and> ap_assigned_to (apr_review r) = rz_resolved_by z" and "r \<in> set (ry_rereviews db)" and "m r"
  then show ?thesis by blast
qed

lemma assign_row_goes:
  assumes "ap_resolution (apr_review r) = None"
  shows "appeal_goes r (assign_row who r)" and "appeal_goes r (resolve_row z r)"
  using assms by (cases r; cases "apr_review r"; auto simp: appeal_goes_def assign_row_def resolve_row_def)+

lemma assign_row_id [simp]: "ap_id (apr_review (assign_row who r)) = ap_id (apr_review r)"
  "ap_id (apr_review (resolve_row z r)) = ap_id (apr_review r)"
  by (simp_all add: assign_row_def resolve_row_def)

lemma rewrite_fields [simp]: "ry_reviews (rewrite m f db) = ry_reviews db" "ry_outbox (rewrite m f db) = ry_outbox db"
  "ry_rereviews (rewrite m f db) = map (\<lambda>r. if m r then f r else r) (ry_rereviews db)"
  by (simp_all add: rewrite_def)

lemma rewrite_ok:
  assumes "review_ok db" and "\<And>r. m r \<Longrightarrow> ap_id (apr_review (f r)) = ap_id (apr_review r)"
    and "\<And>r. m r \<Longrightarrow> appeal_goes r (f r)"
    and "\<And>r. r \<in> set (ry_rereviews db) \<Longrightarrow> m r \<Longrightarrow> settled_appeal (ry_reviews db) r \<Longrightarrow> settled_appeal (ry_reviews db) (f r)"
  shows "review_ok (rewrite m f db) \<and> prefix (ry_reviews db) (ry_reviews (rewrite m f db))
    \<and> appeals_kept (ry_rereviews db) (ry_rereviews (rewrite m f db))"
proof (intro conjI)
  let ?g = "\<lambda>r. if m r then f r else r"
  have ids: "map ((\<lambda>r. ap_id (apr_review r)) \<circ> ?g) (ry_rereviews db) = map (\<lambda>r. ap_id (apr_review r)) (ry_rereviews db)"
    using assms(2) by (intro map_cong) auto
  show "review_ok (rewrite m f db)" using assms(1,4) by (auto simp: review_ok_def list_all_iff ids)
  show "appeals_kept (ry_rereviews db) (ry_rereviews (rewrite m f db))"
    using assms(3) by (auto intro!: appeals_kept_map simp: appeal_goes_refl)
qed simp

lemma settled_assign:
  assumes "settled_appeal ds r" and "ap_resolution (apr_review r) = None" and "independent (apr_review (assign_row who r))"
  shows "settled_appeal ds (assign_row who r)"
  using assms by (simp add: settled_appeal_def assign_row_def)

lemma settled_resolve:
  assumes "settled_appeal ds r" and "ap_assigned_to (apr_review r) = rz_resolved_by z" and "rz_resolved_by z \<noteq> ''''"
    and "TrimSpace (rz_rationale z) \<noteq> ''''" and "TrimSpace (rz_disclosure z) \<noteq> ''''"
    and "independent (apr_review (resolve_row z r))"
  shows "settled_appeal ds (resolve_row z r)"
  using assms by (simp add: settled_appeal_def resolve_row_def)

lemma settled_appeal_mono:
  "settled_appeal ds r \<Longrightarrow> set ds \<subseteq> set es \<Longrightarrow> settled_appeal es r"
  unfolding settled_appeal_def by blast

lemma LatestReviewDecision_row:
  assumes "LatestReviewDecision tenant campaign session db = Some d"
  shows "\<exists>r \<in> set (ry_reviews db). hdr_tenant r = tenant \<and> hdr_campaign r = campaign \<and> hdr_review r = d \<and> hd_session d = session"
  using newest_by_Some(1) [OF assms [unfolded LatestReviewDecision_def]] by (auto simp: decisions_on_def)

lemma review_step_keeps:
  assumes "review_step db db'" and "review_ok db"
  shows "review_ok db' \<and> prefix (ry_reviews db) (ry_reviews db') \<and> appeals_kept (ry_rereviews db) (ry_rereviews db')"
  using assms
proof (cases rule: review_step.cases)
  case (recorded i e now tenant campaign session "by" decision reason evidence overrides d)
  from RecordReviewDecision_Inr [OF recorded(1)] obtain r ob where r: "accounted r" "announces r ob"
    and db': "db' = db\<lparr>ry_reviews := ry_reviews db @ [r], ry_outbox := ry_outbox db @ [ob]\<rparr>" by blast
  have "list_all (settled_appeal (ry_reviews db @ [r])) (ry_rereviews db)"
    using assms(2) by (auto simp: review_ok_def list_all_iff intro: settled_appeal_mono)
  with r assms(2) show ?thesis by (auto simp: db' review_ok_def appeals_kept_refl intro: list_all2_appendI)
next
  case (raised i now clock tenant campaign session "by" reason "bundle" a)
  from RaiseReReview_Inr [OF raised(1)] obtain d where d: "LatestReviewDecision tenant campaign session db = Some d"
    and a: "a = appeal_of i now clock session by reason bundle d" and i: "i \<notin> (\<lambda>q. ap_id (apr_review q)) ` set (ry_rereviews db)"
    and db': "db' = db\<lparr>ry_rereviews := ry_rereviews db @ [\<lparr>apr_tenant = tenant, apr_campaign = campaign, apr_review = a\<rparr>]\<rparr>"
    by blast
  have "settled_appeal (ry_reviews db) \<lparr>apr_tenant = tenant, apr_campaign = campaign, apr_review = a\<rparr>"
    using LatestReviewDecision_row [OF d] by (auto simp: settled_appeal_def a appeal_of_def independent_def)
  moreover have "ap_id a \<notin> (\<lambda>q. ap_id (apr_review q)) ` set (ry_rereviews db)" using i by (simp add: a appeal_of_def)
  ultimately show ?thesis using assms(2) by (auto simp: db' review_ok_def appeals_kept_append)
next
  case (assigned tenant campaign i assignee seen a)
  from AssignReReview_Inr [OF assigned(1)] obtain m where
    m: "\<forall>r. m r \<longrightarrow> named_appeal tenant campaign i r \<and> ap_resolution (apr_review r) = None"
    "\<forall>r \<in> set (ry_rereviews db). m r \<longrightarrow> independent (apr_review (assign_row assignee r))"
    and db': "db' = rewrite m (assign_row assignee) db" by blast
  show ?thesis unfolding db' using m assms(2)
    by (intro rewrite_ok) (auto intro: settled_assign assign_row_goes)
next
  case (resolved now tenant campaign i "by" outcome rationale disclosure seen a)
  from ResolveReReview_Inr [OF resolved(1)] obtain m z where
    m: "\<forall>r. m r \<longrightarrow> named_appeal tenant campaign i r \<and> ap_resolution (apr_review r) = None
        \<and> ap_assigned_to (apr_review r) = rz_resolved_by z"
    "\<forall>r \<in> set (ry_rereviews db). m r \<longrightarrow> independent (apr_review (resolve_row z r))"
    "rz_resolved_by z = by" "by \<noteq> ''''" "TrimSpace (rz_rationale z) \<noteq> ''''" "TrimSpace (rz_disclosure z) \<noteq> ''''"
    and db': "db' = rewrite m (resolve_row z) db" by blast
  show ?thesis unfolding db' using m assms(2)
    by (intro rewrite_ok) (auto intro!: settled_resolve assign_row_goes)
qed

lemma review_reach:
  assumes "review_step\<^sup>*\<^sup>* db db'" and "review_ok db"
  shows "review_ok db' \<and> prefix (ry_reviews db) (ry_reviews db') \<and> appeals_kept (ry_rereviews db) (ry_rereviews db')"
  using assms
proof (induction rule: rtranclp_induct)
  case base then show ?case by (simp add: appeals_kept_refl)
next
  case (step db1 db2)
  then have 1: "review_ok db1" "prefix (ry_reviews db) (ry_reviews db1)" "appeals_kept (ry_rereviews db) (ry_rereviews db1)"
    by blast+
  from review_step_keeps [OF step(2) 1(1)] 1(2,3) show ?case
    by (blast intro: prefix_order.trans appeals_kept_trans)
qed

text \<open>C11: The record of decisions is only ever added to, and every decision is announced.  Whatever is decided, appealed,
  assigned and resolved, the decisions recorded before stay, in order and unchanged, and are what the history of a session
  answers; each decision ever recorded carries a known outcome, the person who decided, a reason, the evidence version it was
  informed by and complete overrides; and the events of the outbox are exactly their announcements, one to a decision and in
  order, without the reasoning.\<close>

theorem decisions_are_appended_and_announced:
  assumes "review_ok db" and "review_step\<^sup>*\<^sup>* db db'"
  shows "prefix (ry_reviews db) (ry_reviews db')
    \<and> (\<forall>r \<in> set (ry_reviews db'). accounted r)
    \<and> length (ry_outbox db') = length (ry_reviews db')
    \<and> (\<forall>j < length (ry_reviews db'). announces (ry_reviews db' ! j) (ry_outbox db' ! j))
    \<and> (\<forall>r \<in> set (ry_reviews db). TrimSpace (hdr_tenant r) \<noteq> '''' \<longrightarrow>
         (\<exists>ds. ReviewDecisionsForSession (hdr_tenant r) (hdr_campaign r) (hd_session (hdr_review r)) db' = Inr ds
            \<and> hdr_review r \<in> set ds))"
proof -
  from review_reach [OF assms(2,1)] have ok: "review_ok db'" and p: "prefix (ry_reviews db) (ry_reviews db')" by blast+
  have "set (ry_reviews db) \<subseteq> set (ry_reviews db')" using p by (rule set_mono_prefix)
  then have "\<forall>r \<in> set (ry_reviews db). TrimSpace (hdr_tenant r) \<noteq> '''' \<longrightarrow>
         (\<exists>ds. ReviewDecisionsForSession (hdr_tenant r) (hdr_campaign r) (hd_session (hdr_review r)) db' = Inr ds
            \<and> hdr_review r \<in> set ds)"
    by (auto simp: ReviewDecisionsForSession_def as_tenant_Inr decisions_on_def)
  with ok p show ?thesis by (auto simp: review_ok_def list_all_iff list_all2_conv_all_nth)
qed

text \<open>C12: An appeal is answered once, by somebody else, on what was decided.  Whatever is decided, assigned and resolved, by
  whatever stale reads, every appeal is against a recorded decision of its session and stays frozen on the evidence that decision was
  informed by; it is never assigned to the person whose decision it is against; an answer is given by the person assigned, is
  one of the known outcomes with a rationale and a disclosure; and from then on nothing of the appeal changes, and
  nobody can be assigned to it or resolve it again.\<close>

theorem appeals_are_independent_and_final:
  assumes "review_ok db" and "review_step\<^sup>*\<^sup>* db db'" and "r \<in> set (ry_rereviews db)"
  shows "(\<exists>s \<in> set (ry_rereviews db'). appeal_goes r s
      \<and> ap_frozen (apr_review s) = ap_frozen (apr_review r) \<and> ap_due_at (apr_review s) = ap_due_at (apr_review r)
      \<and> (ap_assigned_to (apr_review s) = '''' \<or> ap_assigned_to (apr_review s) \<noteq> ap_original_reviewer (apr_review r))
      \<and> (\<exists>d \<in> set (ry_reviews db'). hd_id (hdr_review d) = ap_decision (apr_review r)
           \<and> hd_session (hdr_review d) = ap_session (apr_review r)
           \<and> hd_decided_by (hdr_review d) = ap_original_reviewer (apr_review r) \<and> hd_evidence (hdr_review d) = ap_frozen (apr_review r))
      \<and> (\<forall>z. ap_resolution (apr_review s) = Some z \<longrightarrow> rz_resolved_by z = ap_assigned_to (apr_review s)
           \<and> rz_resolved_by z \<noteq> ap_original_reviewer (apr_review r) \<and> rz_outcome z \<in> {''upheld'', ''revised''}
           \<and> TrimSpace (rz_rationale z) \<noteq> '''' \<and> TrimSpace (rz_disclosure z) \<noteq> ''''))
    \<and> (ap_resolution (apr_review r) \<noteq> None \<longrightarrow> r \<in> set (ry_rereviews db')
         \<and> (\<forall>campaign who now out why told seen.
              \<not> is_ok (AssignReReview (apr_tenant r) campaign (ap_id (apr_review r)) who seen db')
              \<and> \<not> is_ok (ResolveReReview now (apr_tenant r) campaign (ap_id (apr_review r)) who out why told seen db')))"
proof -
  from review_reach [OF assms(2,1)] have ok: "review_ok db'" and k: "appeals_kept (ry_rereviews db) (ry_rereviews db')" by blast+
  from assms(3) obtain j where j: "j < length (ry_rereviews db)" "r = ry_rereviews db ! j" by (auto simp: in_set_conv_nth)
  have "ry_rereviews db' ! j \<in> set (ry_rereviews db') \<and> appeal_goes r (ry_rereviews db' ! j)"
    using j k by (simp add: appeals_kept_def)
  then obtain s where s: "s \<in> set (ry_rereviews db')" "appeal_goes r s" by blast
  then have same: "ap_frozen (apr_review s) = ap_frozen (apr_review r)" "ap_due_at (apr_review s) = ap_due_at (apr_review r)"
    "ap_original_reviewer (apr_review s) = ap_original_reviewer (apr_review r)" "ap_decision (apr_review s) = ap_decision (apr_review r)"
    "ap_session (apr_review s) = ap_session (apr_review r)"
    by (auto simp: appeal_goes_def)
  have settled: "settled_appeal (ry_reviews db') s" using ok s(1) by (simp add: review_ok_def list_all_iff)
  have done': "r \<in> set (ry_rereviews db') \<and> \<not> is_ok (AssignReReview (apr_tenant r) campaign (ap_id (apr_review r)) who seen db')
      \<and> \<not> is_ok (ResolveReReview now (apr_tenant r) campaign (ap_id (apr_review r)) who out why told seen db')"
    if "ap_resolution (apr_review r) \<noteq> None" for campaign who now out why told seen
  proof -
    have r: "r \<in> set (ry_rereviews db')" using s that by (auto simp: appeal_goes_def)
    have none: False if "\<exists>q \<in> set (ry_rereviews db'). named_appeal (apr_tenant r) campaign (ap_id (apr_review r)) q
      \<and> ap_resolution (apr_review q) = None"
    proof -
      from that obtain q where q: "q \<in> set (ry_rereviews db')" "ap_id (apr_review q) = ap_id (apr_review r)"
        "ap_resolution (apr_review q) = None" by (auto simp: named_appeal_def)
      from ok r q(1,2) have "q = r" by (auto simp: review_ok_def distinct_map inj_on_def)
      with q(3) show False using \<open>ap_resolution (apr_review r) \<noteq> None\<close> by simp
    qed
    have "\<not> is_ok (AssignReReview (apr_tenant r) campaign (ap_id (apr_review r)) who seen db')"
    proof
      assume "is_ok (AssignReReview (apr_tenant r) campaign (ap_id (apr_review r)) who seen db')"
      then obtain a db2 where "AssignReReview (apr_tenant r) campaign (ap_id (apr_review r)) who seen db' = Inr (a, db2)"
        by (auto simp: is_ok_iff)
      from AssignReReview_open [OF this] show False using none by blast
    qed
    moreover have "\<not> is_ok (ResolveReReview now (apr_tenant r) campaign (ap_id (apr_review r)) who out why told seen db')"
    proof
      assume "is_ok (ResolveReReview now (apr_tenant r) campaign (ap_id (apr_review r)) who out why told seen db')"
      then obtain a db2 where "ResolveReReview now (apr_tenant r) campaign (ap_id (apr_review r)) who out why told seen db' = Inr (a, db2)"
        by (auto simp: is_ok_iff)
      from ResolveReReview_open [OF this] show False using none by blast
    qed
    ultimately show ?thesis using r by blast
  qed
  have first: "\<exists>s \<in> set (ry_rereviews db'). appeal_goes r s
      \<and> ap_frozen (apr_review s) = ap_frozen (apr_review r) \<and> ap_due_at (apr_review s) = ap_due_at (apr_review r)
      \<and> (ap_assigned_to (apr_review s) = '''' \<or> ap_assigned_to (apr_review s) \<noteq> ap_original_reviewer (apr_review r))
      \<and> (\<exists>d \<in> set (ry_reviews db'). hd_id (hdr_review d) = ap_decision (apr_review r)
           \<and> hd_session (hdr_review d) = ap_session (apr_review r)
           \<and> hd_decided_by (hdr_review d) = ap_original_reviewer (apr_review r) \<and> hd_evidence (hdr_review d) = ap_frozen (apr_review r))
      \<and> (\<forall>z. ap_resolution (apr_review s) = Some z \<longrightarrow> rz_resolved_by z = ap_assigned_to (apr_review s)
           \<and> rz_resolved_by z \<noteq> ap_original_reviewer (apr_review r) \<and> rz_outcome z \<in> {''upheld'', ''revised''}
           \<and> TrimSpace (rz_rationale z) \<noteq> '''' \<and> TrimSpace (rz_disclosure z) \<noteq> '''')"
    using settled s same by (intro bexI [of _ s]) (auto simp: settled_appeal_def independent_iff validOutcomes_def)
  with done' show ?thesis by blast
qed


definition ex_evidence :: evidence_version where
  "ex_evidence = \<lparr>vr_evaluation = ''e1'', vr_result = ''sha256:r'', vr_rubric = ''sha256:b''\<rparr>"

definition ex_desk :: recruiting_db where
  "ex_desk = empty_recruiting\<lparr>ry_campaigns := [\<lparr>cm_id = ''c1'', cm_tenant = ''t1'', cm_name = ''Backend'', cm_status = StatusOpen,
     cm_role = ''role'', cm_jurisdiction = ''ie'', cm_determination = ''d1'', cm_opened_at = Some 1, cm_closed_at = None,
     cm_created_at = 1, cm_created_by = ''u1''\<rparr>]\<rparr>"

definition ex_decided :: recruiting_db where
  "ex_decided = (case RecordReviewDecision ''r1'' ''ev1'' 5 ''t1'' ''c1'' ''s1'' ''u1'' ''reject'' ''thin evidence'' ex_evidence
     [\<lparr>bo_competency = ''k'', bo_recorded = ''strong'', bo_override = ''basic'', bo_rationale = ''one example''\<rparr>] ex_desk of
     Inr x \<Rightarrow> snd x | Inl _ \<Rightarrow> ex_desk)"

definition ex_raised :: recruiting_db where
  "ex_raised = (case RaiseReReview ''a1'' 6 6 ''t1'' ''c1'' ''s1'' ''u2'' ''please look again'' ''sha256:p'' ex_decided of
     Inr x \<Rightarrow> snd x | Inl _ \<Rightarrow> ex_decided)"

definition ex_assigned :: recruiting_db where
  "ex_assigned = (case AssignReReview ''t1'' ''c1'' ''a1'' ''u3'' ex_raised ex_raised of Inr x \<Rightarrow> snd x | Inl _ \<Rightarrow> ex_raised)"

definition ex_resolved :: recruiting_db where
  "ex_resolved = (case ResolveReReview 9 ''t1'' ''c1'' ''a1'' ''u3'' ''revised'' ''the example counts'' ''changed'' ex_assigned ex_assigned of
     Inr x \<Rightarrow> snd x | Inl _ \<Rightarrow> ex_assigned)"

lemma ex_review_steps:
  "review_step ex_desk ex_decided" "review_step ex_decided ex_raised" "review_step ex_raised ex_assigned"
  "review_step ex_assigned ex_resolved"
proof -
  have "\<exists>d. RecordReviewDecision ''r1'' ''ev1'' 5 ''t1'' ''c1'' ''s1'' ''u1'' ''reject'' ''thin evidence'' ex_evidence
     [\<lparr>bo_competency = ''k'', bo_recorded = ''strong'', bo_override = ''basic'', bo_rationale = ''one example''\<rparr>] ex_desk
     = Inr (d, ex_decided)" by (intro exI) code_simp
  then show "review_step ex_desk ex_decided" by (blast intro: review_step.recorded)
  have "\<exists>a. RaiseReReview ''a1'' 6 6 ''t1'' ''c1'' ''s1'' ''u2'' ''please look again'' ''sha256:p'' ex_decided = Inr (a, ex_raised)"
    by (intro exI) code_simp
  then show "review_step ex_decided ex_raised" by (blast intro: review_step.raised)
  have "\<exists>a. AssignReReview ''t1'' ''c1'' ''a1'' ''u3'' ex_raised ex_raised = Inr (a, ex_assigned)"
    by (intro exI) code_simp
  then show "review_step ex_raised ex_assigned" by (blast intro: review_step.assigned)
  have "\<exists>a. ResolveReReview 9 ''t1'' ''c1'' ''a1'' ''u3'' ''revised'' ''the example counts'' ''changed'' ex_assigned ex_assigned
      = Inr (a, ex_resolved)"
    by (intro exI) code_simp
  then show "review_step ex_assigned ex_resolved" by (blast intro: review_step.resolved)
qed

lemma ex_review_runs: "review_step\<^sup>*\<^sup>* ex_desk ex_decided" "review_step\<^sup>*\<^sup>* ex_decided ex_resolved" "review_ok ex_desk"
  using ex_review_steps by (auto simp: review_ok_def ex_desk_def empty_recruiting_def
      intro: converse_rtranclp_into_rtranclp r_into_rtranclp)


theorem decisions_are_appended_and_announced_witness:
  "map (\<lambda>r. hd_decision (hdr_review r)) (ry_reviews ex_resolved) = [''reject''] \<and> length (ry_outbox ex_resolved) = 1
    \<and> list_all accounted (ry_reviews ex_resolved)"
proof -
  have "review_step\<^sup>*\<^sup>* ex_desk ex_resolved" using ex_review_runs by (meson rtranclp_trans)
  note decisions_are_appended_and_announced [OF ex_review_runs(3) this]
  moreover have "map (\<lambda>r. hd_decision (hdr_review r)) (ry_reviews ex_resolved) = [''reject'']" by code_simp
  moreover from this have "length (ry_reviews ex_resolved) = 1" by (metis length_map length_Cons list.size(3) One_nat_def)
  ultimately show ?thesis by (simp add: list_all_iff)
qed

lemma ex_raised_ok: "review_ok ex_raised"
proof -
  have "review_step\<^sup>*\<^sup>* ex_desk ex_raised" using ex_review_steps by (meson rtranclp.simps)
  from review_reach [OF this ex_review_runs(3)] show ?thesis by blast
qed

theorem appeals_are_independent_and_final_witness:
  "\<exists>r \<in> set (ry_rereviews ex_raised). \<exists>s \<in> set (ry_rereviews ex_resolved). appeal_goes r s
     \<and> ap_frozen (apr_review s) = ex_evidence \<and> ap_assigned_to (apr_review s) = ''u3''"
proof -
  have run: "review_step\<^sup>*\<^sup>* ex_raised ex_resolved" using ex_review_steps by (meson rtranclp.simps)
  have one: "map (\<lambda>r. ap_frozen (apr_review r)) (ry_rereviews ex_raised) = [ex_evidence]" by code_simp
  then obtain r where r: "ry_rereviews ex_raised = [r]" "ap_frozen (apr_review r) = ex_evidence" by (auto simp: map_eq_Cons_conv)
  have who: "map (\<lambda>r. ap_assigned_to (apr_review r)) (ry_rereviews ex_resolved) = [''u3'']" by code_simp
  then have u: "ap_assigned_to (apr_review s) = ''u3''" if "s \<in> set (ry_rereviews ex_resolved)" for s
    using that by (auto simp: map_eq_Cons_conv)
  have "r \<in> set (ry_rereviews ex_raised)" using r by simp
  from appeals_are_independent_and_final [OF ex_raised_ok run this] obtain s where
    "s \<in> set (ry_rereviews ex_resolved)" "appeal_goes r s" "ap_frozen (apr_review s) = ap_frozen (apr_review r)" by blast
  with u r show ?thesis by (intro bexI [of _ r] bexI [of _ s]) auto
qed

end
