(* ===== verification/Session_Machine.thy ===== *)
theory Session_Machine
  imports Prelude
begin

text \<open>
  \<open>services/platform/internal/interview/machine.go\<close>: the session lifecycle.  The sixteen states, the
  diagram of legal transitions and \<open>CanTransition\<close>, with the shape of the diagram as the interface
  \<open>lifecycle\<close> that the store and the control channel rest on: which states a session can come to, from
  which it never returns, and through which it has come.
\<close>

section \<open>States and transitions\<close>

datatype state =
    StateDraft | StateComposing | StateReady | StateConnecting | StateInProgress | StateReconnecting
  | StateFinalizing | StateEvaluating | StateReviewReady | StateArchived
  | StateCancelled | StateExpired | StateCompositionFailed | StateInterrupted
  | StateFinalizationFailed | StateEvaluationFailed

fun state_text :: "state \<Rightarrow> string" where
  "state_text StateDraft = ''draft''"
| "state_text StateComposing = ''composing''"
| "state_text StateReady = ''ready''"
| "state_text StateConnecting = ''connecting''"
| "state_text StateInProgress = ''in_progress''"
| "state_text StateReconnecting = ''reconnecting''"
| "state_text StateFinalizing = ''finalizing''"
| "state_text StateEvaluating = ''evaluating''"
| "state_text StateReviewReady = ''review_ready''"
| "state_text StateArchived = ''archived''"
| "state_text StateCancelled = ''cancelled''"
| "state_text StateExpired = ''expired''"
| "state_text StateCompositionFailed = ''composition_failed''"
| "state_text StateInterrupted = ''interrupted''"
| "state_text StateFinalizationFailed = ''finalization_failed''"
| "state_text StateEvaluationFailed = ''evaluation_failed''"

definition States :: "state list" where
  "States =
     [StateDraft, StateComposing, StateReady, StateConnecting, StateInProgress,
      StateReconnecting, StateFinalizing, StateEvaluating, StateReviewReady,
      StateArchived, StateCancelled, StateExpired, StateCompositionFailed,
      StateInterrupted, StateFinalizationFailed, StateEvaluationFailed]"

text \<open>A state without an entry in the Go map has no successors.\<close>

fun transitions :: "state \<Rightarrow> state list" where
  "transitions StateDraft = [StateComposing, StateCancelled]"
| "transitions StateComposing = [StateReady, StateCompositionFailed]"
| "transitions StateCompositionFailed = [StateComposing]"
| "transitions StateReady = [StateConnecting, StateExpired]"
| "transitions StateConnecting = [StateInProgress, StateReady]"
| "transitions StateInProgress = [StateReconnecting, StateFinalizing]"
| "transitions StateReconnecting = [StateInProgress, StateFinalizing]"
| "transitions StateFinalizing = [StateEvaluating, StateFinalizationFailed]"
| "transitions StateFinalizationFailed = [StateFinalizing]"
| "transitions StateEvaluating = [StateReviewReady, StateEvaluationFailed]"
| "transitions StateEvaluationFailed = [StateEvaluating]"
| "transitions StateReviewReady = [StateArchived]"
| "transitions _ = []"

record transition_error =
  te_code :: string
  te_from :: state
  te_to :: state

definition CanTransition :: "state \<Rightarrow> state \<Rightarrow> transition_error option" where
  "CanTransition s t =
     (if list_ex (\<lambda>next. next = t) (transitions s) then None
      else Some \<lparr>te_code = ''SESSION_TRANSITION_INVALID'', te_from = s, te_to = t\<rparr>)"

instantiation state :: linorder
begin

fun state_index :: "state \<Rightarrow> nat" where
  "state_index StateDraft = 0" | "state_index StateComposing = 1" | "state_index StateReady = 2"
| "state_index StateConnecting = 3" | "state_index StateInProgress = 4" | "state_index StateReconnecting = 5"
| "state_index StateFinalizing = 6" | "state_index StateEvaluating = 7" | "state_index StateReviewReady = 8"
| "state_index StateArchived = 9" | "state_index StateCancelled = 10" | "state_index StateExpired = 11"
| "state_index StateCompositionFailed = 12" | "state_index StateInterrupted = 13"
| "state_index StateFinalizationFailed = 14" | "state_index StateEvaluationFailed = 15"

definition less_eq_state :: "state \<Rightarrow> state \<Rightarrow> bool" where
  "less_eq_state s t \<longleftrightarrow> state_index s \<le> state_index t"

definition less_state :: "state \<Rightarrow> state \<Rightarrow> bool" where
  "less_state s t \<longleftrightarrow> state_index s < state_index t"

instance
proof
  fix s t :: state
  show "s \<le> t \<Longrightarrow> t \<le> s \<Longrightarrow> s = t" by (cases s; cases t) (simp_all add: less_eq_state_def)
qed (auto simp: less_eq_state_def less_state_def)

end

lemma CanTransition_None: "CanTransition s t = None \<longleftrightarrow> t \<in> set (transitions s)"
  by (auto simp: CanTransition_def list_ex_iff)

lemma States_all: "s \<in> set States"
  by (cases s) (simp_all add: States_def)

lemma state_text_inj: "state_text s = state_text t \<Longrightarrow> s = t"
proof -
  have "distinct (map state_text States)" by code_simp
  then have "inj_on state_text (set States)" by (simp add: distinct_map)
  then show "state_text s = state_text t \<Longrightarrow> s = t" using States_all by (auto dest: inj_onD)
qed

section \<open>The shape of a lifecycle\<close>

text \<open>
  A diagram, where it starts, the milestones a session has passed when it is in a state, and how far
  each state is from an end.
\<close>

locale lifecycle =
  fixes nxt :: "'s \<Rightarrow> 's list" and start :: 's
    and passed :: "'s \<Rightarrow> 's list" and distance :: "'s \<Rightarrow> nat"
  assumes passed_start: "subseq (passed start) [start]"
    and passed_next: "t \<in> set (nxt s) \<Longrightarrow> subseq (passed t) (passed s @ [t])"
    and nearer: "nxt s \<noteq> [] \<Longrightarrow> \<exists>t \<in> set (nxt s). distance t < distance s"
begin

definition edge :: "'s \<Rightarrow> 's \<Rightarrow> bool" where
  "edge s t \<longleftrightarrow> t \<in> set (nxt s)"

fun walk :: "'s \<Rightarrow> 's list \<Rightarrow> bool" where
  "walk s [] = True"
| "walk s (t # ts) = (edge s t \<and> walk t ts)"

lemma walk_append: "walk s (ts @ us) \<longleftrightarrow> walk s ts \<and> walk (last (s # ts)) us"
  by (induction ts arbitrary: s) auto

lemma walk_steps: "walk s ts \<Longrightarrow> edge\<^sup>*\<^sup>* s (last (s # ts))"
  by (induction ts arbitrary: s) (auto intro: converse_rtranclp_into_rtranclp)

lemma steps_walk: "edge\<^sup>*\<^sup>* s t \<Longrightarrow> \<exists>ts. walk s ts \<and> last (s # ts) = t"
proof (induction rule: rtranclp_induct)
  case base
  show ?case by (intro exI [of _ "[]"]) simp
next
  case (step t u)
  then obtain ts where "walk s ts" "last (s # ts) = t" by blast
  with step.hyps(2) show ?case by (intro exI [of _ "ts @ [u]"]) (simp add: walk_append)
qed

lemma walk_reaches: "walk s ts \<Longrightarrow> t \<in> set ts \<Longrightarrow> edge\<^sup>*\<^sup>* s t"
  by (induction ts arbitrary: s) (auto intro: converse_rtranclp_into_rtranclp)

lemma closed_never_left:
  "\<forall>s \<in> S. set (nxt s) \<subseteq> S \<Longrightarrow> s \<in> S \<Longrightarrow> walk s ts \<Longrightarrow> set ts \<subseteq> S"
  by (induction ts arbitrary: s) (auto simp: edge_def)

lemma milestones: "walk start ts \<Longrightarrow> subseq (passed (last (start # ts))) (start # ts)"
proof (induction ts rule: rev_induct)
  case Nil
  show ?case using passed_start by simp
next
  case (snoc t ts)
  let ?s = "last (start # ts)"
  from snoc.prems have "walk start ts" "edge ?s t" by (simp_all add: walk_append)
  then have "subseq (passed ?s @ [t]) ((start # ts) @ [t])" and "subseq (passed t) (passed ?s @ [t])"
    using snoc.IH passed_next by (auto simp: edge_def simp del: append_Cons)
  then show ?case using subseq_order.trans by fastforce
qed

lemma can_end: "\<exists>ts. walk s ts \<and> nxt (last (s # ts)) = []"
proof (induction "distance s" arbitrary: s rule: less_induct)
  case less
  show ?case
  proof (cases "nxt s = []")
    case True
    then show ?thesis by (intro exI [of _ "[]"]) simp
  next
    case False
    then obtain t where t: "t \<in> set (nxt s)" "distance t < distance s" using nearer by blast
    from less [OF t(2)] obtain ts where "walk t ts" "nxt (last (t # ts)) = []" by blast
    with t(1) show ?thesis by (intro exI [of _ "t # ts"]) (simp add: edge_def)
  qed
qed

end

section \<open>The session lifecycle\<close>

definition before_start :: "state list" where
  "before_start = [StateDraft, StateComposing, StateReady, StateConnecting]"

text \<open>The stations every session in a state has passed, in their order.\<close>

fun passed :: "state \<Rightarrow> state list" where
  "passed StateDraft = [StateDraft]"
| "passed StateComposing = [StateDraft, StateComposing]"
| "passed StateCompositionFailed = [StateDraft, StateComposing, StateCompositionFailed]"
| "passed StateReady = [StateDraft, StateComposing, StateReady]"
| "passed StateConnecting = before_start"
| "passed StateInProgress = before_start @ [StateInProgress]"
| "passed StateReconnecting = before_start @ [StateInProgress, StateReconnecting]"
| "passed StateFinalizing = before_start @ [StateInProgress, StateFinalizing]"
| "passed StateFinalizationFailed = before_start @ [StateInProgress, StateFinalizing, StateFinalizationFailed]"
| "passed StateEvaluating = before_start @ [StateInProgress, StateFinalizing, StateEvaluating]"
| "passed StateEvaluationFailed = before_start @ [StateInProgress, StateFinalizing, StateEvaluating, StateEvaluationFailed]"
| "passed StateReviewReady = before_start @ [StateInProgress, StateFinalizing, StateEvaluating, StateReviewReady]"
| "passed StateArchived = before_start @ [StateInProgress, StateFinalizing, StateEvaluating, StateReviewReady, StateArchived]"
| "passed StateCancelled = [StateDraft, StateCancelled]"
| "passed StateExpired = [StateDraft, StateComposing, StateReady, StateExpired]"
| "passed StateInterrupted = []"

fun distance :: "state \<Rightarrow> nat" where
  "distance StateDraft = 1" | "distance StateComposing = 2" | "distance StateCompositionFailed = 3"
| "distance StateReady = 1" | "distance StateConnecting = 2" | "distance StateInProgress = 4"
| "distance StateReconnecting = 4" | "distance StateFinalizing = 3" | "distance StateFinalizationFailed = 4"
| "distance StateEvaluating = 2" | "distance StateEvaluationFailed = 3" | "distance StateReviewReady = 1"
| "distance _ = 0"

interpretation session: lifecycle transitions StateDraft passed distance
proof unfold_locales
  show "subseq (passed StateDraft) [StateDraft]" by simp
  show "subseq (passed t) (passed s @ [t])" if "t \<in> set (transitions s)" for s t
  proof -
    have "\<forall>s \<in> set States. \<forall>t \<in> set (transitions s). subseq (passed t) (passed s @ [t])" by code_simp
    with that States_all [of s] show ?thesis by blast
  qed
  show "\<exists>t \<in> set (transitions s). distance t < distance s" if "transitions s \<noteq> []" for s
    using that by (cases s) simp_all
qed

definition ended :: "state set" where
  "ended = {StateArchived, StateCancelled, StateExpired, StateInterrupted}"

definition conversing :: "state set" where
  "conversing = {StateConnecting, StateInProgress, StateReconnecting}"

definition concluded :: "state set" where
  "concluded = {StateFinalizing, StateFinalizationFailed, StateEvaluating, StateEvaluationFailed,
     StateReviewReady, StateArchived}"

lemma no_transition_iff: "transitions s = [] \<longleftrightarrow> s \<in> ended"
  by (cases s) (simp_all add: ended_def)

lemma concluded_closed: "\<forall>s \<in> concluded. set (transitions s) \<subseteq> concluded"
  by (simp add: concluded_def)

lemma reachable_states:
  "session.edge\<^sup>*\<^sup>* StateDraft s \<longleftrightarrow> s \<noteq> StateInterrupted"
proof
  have "session.edge\<^sup>*\<^sup>* StateDraft s \<Longrightarrow> s \<in> set States - {StateInterrupted}"
  proof (induction rule: rtranclp_induct)
    case (step s t)
    then show ?case by (cases s) (auto simp: session.edge_def States_def)
  qed (simp add: States_def)
  then show "session.edge\<^sup>*\<^sup>* StateDraft s \<Longrightarrow> s \<noteq> StateInterrupted" by simp
next
  assume "s \<noteq> StateInterrupted"
  moreover have "session.walk StateDraft [StateComposing, StateCompositionFailed, StateComposing, StateReady,
      StateConnecting, StateInProgress, StateReconnecting, StateFinalizing, StateFinalizationFailed,
      StateFinalizing, StateEvaluating, StateEvaluationFailed, StateEvaluating, StateReviewReady, StateArchived]"
    by (simp add: session.edge_def)
  note main = session.walk_reaches [OF this]
  have "session.walk StateDraft [StateCancelled]"
    and "session.walk StateDraft [StateComposing, StateReady, StateExpired]"
    by (simp_all add: session.edge_def)
  note side = this [THEN session.walk_reaches]
  ultimately show "session.edge\<^sup>*\<^sup>* StateDraft s"
    using main [of s] side [of s] by (cases s) simp_all
qed

text \<open>
  The diagram has no edge into \<open>interrupted\<close>, and the machine is the diagram transcribed.  ADR-0012
  ("past the window the session is interrupted"), ADR-0014 and ADR-0016 ("grace expiry finalizes the session
  as interrupted"), and the list of terminal states under the diagram itself, have sessions end there: in the
  code an expired grace leads to \<open>finalizing\<close>, and the interruption is a row of its own.
\<close>

lemma no_way_to_interrupted: "CanTransition s StateInterrupted \<noteq> None"
  by (cases s) (simp_all add: CanTransition_def)

text \<open>C3: The lifecycle has one shape and no dead ends. Along every walk of legal transitions from a draft,
  a session has passed the stations of the state it is in, in their order, so that nothing is in
  progress that was not composed, ready and connecting first; and from wherever it is, legal transitions
  lead to an end, where no transition is legal any more. Of the declared states exactly interrupted is never
  come to, against ADR-0012, ADR-0014 and ADR-0016, which have sessions end there (recorded as a finding).\<close>

theorem lifecycle_passes_its_stations:
  assumes "session.walk StateDraft ts" and "s = last (StateDraft # ts)"
  shows "subseq (passed s) (StateDraft # ts)
    \<and> (s \<noteq> StateInterrupted \<and> (\<forall>t. t \<noteq> StateInterrupted \<longrightarrow> (\<exists>us. session.walk StateDraft us \<and> last (StateDraft # us) = t)))
    \<and> (\<exists>us. session.walk s us \<and> last (s # us) \<in> ended \<and> (\<forall>t. CanTransition (last (s # us)) t \<noteq> None))"
proof (intro conjI)
  show "subseq (passed s) (StateDraft # ts)" unfolding assms(2) using session.milestones [OF assms(1)] .
  show "s \<noteq> StateInterrupted" unfolding assms(2)
    using session.walk_steps [OF assms(1)] reachable_states by blast
  show "\<forall>t. t \<noteq> StateInterrupted \<longrightarrow> (\<exists>us. session.walk StateDraft us \<and> last (StateDraft # us) = t)"
    using reachable_states session.steps_walk by blast
  obtain us where us: "session.walk s us" "transitions (last (s # us)) = []" using session.can_end by blast
  then have "last (s # us) \<in> ended" by (simp only: no_transition_iff)
  with us show "\<exists>us. session.walk s us \<and> last (s # us) \<in> ended \<and> (\<forall>t. CanTransition (last (s # us)) t \<noteq> None)"
    unfolding CanTransition_None by (intro exI [of _ us]) simp
qed

theorem lifecycle_passes_its_stations_witness:
  "subseq [StateDraft, StateComposing, StateReady, StateConnecting, StateInProgress, StateReconnecting]
     [StateDraft, StateComposing, StateCompositionFailed, StateComposing, StateReady, StateConnecting,
      StateReady, StateConnecting, StateInProgress, StateReconnecting]"
  using lifecycle_passes_its_stations [of "[StateComposing, StateCompositionFailed, StateComposing, StateReady,
      StateConnecting, StateReady, StateConnecting, StateInProgress, StateReconnecting]" StateReconnecting]
  by (simp add: session.edge_def before_start_def)

end
