(* ===== verification/Interview_Tables.thy ===== *)
theory Interview_Tables
  imports Session_Machine Outbox Row_Scope Complex_Main
begin

text \<open>
  The state the interview context keeps: the rows of the \<open>interview\<close> schema
  (\<open>services/platform/internal/interview\<close>), with the audit trail and the outbox its transactions write
  to, as one record.  A row carries the reference that decides who sees it (\<open>Row_Scope\<close>).  An empty
  string or a zero stands for the \<open>NULL\<close> that the queries coalesce to it.  Identifiers are canonical
  UUID texts; references to the tables of other contexts are taken to hold, and so is the uniqueness of
  the audit row's own identifier.
\<close>

section \<open>Sessions\<close>

record session =
  se_ref :: session_ref
  se_campaign :: string
  se_blueprint :: string
  se_config :: string
  se_preference :: string
  se_consent :: string
  se_epoch :: int
  se_accepted :: int
  se_state :: state
  se_version :: int
  se_bundle_ref :: string
  se_bundle_digest :: string
  se_bundle_revision :: int
  se_failure :: string
  se_timing :: int
  se_created_at :: time
  se_changed_at :: time

abbreviation se_id :: "session \<Rightarrow> string" where
  "se_id s \<equiv> ref_session (se_ref s)"

record actor =
  ac_id :: string
  ac_type :: string

record bundle_row =
  br_session :: string
  br_digest :: string
  br_body :: string

record timing_policy =
  tp_version :: int
  tp_grace :: int
  tp_overrun :: int

record audit_row =
  au_tenant :: string
  au_actor :: actor
  au_action :: string
  au_session :: string
  au_outcome :: string

section \<open>The control timeline\<close>

record transcript_word =
  tw_word :: string
  tw_start :: int
  tw_end :: int
  tw_confidence :: real

record transcript_payload =
  tr_speaker :: string
  tr_text :: string
  tr_start :: int
  tr_end :: int
  tr_confidence :: real
  tr_words :: "transcript_word list"
  tr_supersedes :: int

record interruption_payload =
  ip_cause :: string
  ip_duration :: int

text \<open>
  A raw payload by what \<open>json.Unmarshal\<close> makes of it: whether the bytes (or \<open>{}\<close>, when there are none)
  are a JSON document the database stores, and what they decode to as a transcript segment and as a
  report of an interruption, \<open>None\<close> where they do not decode.
\<close>

record control_payload =
  py_valid :: bool
  py_segment :: "transcript_payload option"
  py_interruption :: "interruption_payload option"

record control_event =
  cv_id :: string
  cv_epoch :: int
  cv_sequence :: int
  cv_type :: string
  cv_payload :: control_payload
  cv_occurred_at :: time

record control_row =
  ce_ref :: session_ref
  ce_event :: control_event

record attempt_row =
  am_ref :: session_ref
  am_epoch :: int
  am_superseded :: "time option"

record interruption_row =
  ir_id :: string
  ir_ref :: session_ref
  ir_cause :: string
  ir_duration :: int
  ir_epoch :: int
  ir_occurred_at :: time

section \<open>Seals and recordings\<close>

type_synonym sequence_range = "int \<times> int"

record seal_row =
  sl_ref :: session_ref
  sl_epoch :: int
  sl_sequence :: int
  sl_gaps :: "sequence_range list"
  sl_transcript_digest :: string
  sl_bundle_digest :: string
  sl_media :: string
  sl_warnings :: "string list"
  sl_input_digest :: string
  sl_created_at :: time

record track_row =
  mt_ref :: session_ref
  mt_track :: string
  mt_key :: string
  mt_egress :: string
  mt_state :: string
  mt_digest :: string
  mt_size :: int
  mt_created_at :: time

record interview_db =
  db_sessions :: "session list"
  db_bundles :: "bundle_row list"
  db_policies :: "timing_policy list"
  db_attempts :: "attempt_row list"
  db_events :: "control_row list"
  db_interruptions :: "interruption_row list"
  db_seals :: "seal_row list"
  db_tracks :: "track_row list"
  db_audit :: "audit_row list"
  db_outbox :: "outbox_row list"

section \<open>Refusals\<close>

text \<open>The sentinel errors of the context; any other failure of the database is \<open>DatabaseRefused\<close>.\<close>

datatype interview_error =
    IllegalTransition transition_error
  | SessionNotFound
  | SessionStale
  | EmptyScope
  | DatabaseRefused
  | EventRefused invalid_event
  | EpochStale
  | NoAttempt
  | UnknownCause string
  | NotInterruptible state
  | CompleteNotRunning
  | SealConflict
  | NotSealed
  | CorruptSegment string
  | StartExpired
  | StartAlreadyStarted
  | StartNotReady
  | StartQuotaExhausted
  | ResumeNotResumable
  | ResumeGraceExpired
  | Unavailable string

section \<open>Reading and writing rows\<close>

text \<open>
  The policies of the sessions table: a tenant's screenings, a candidate's own practice, and, for
  reading only, a candidate's own screenings.
\<close>

definition session_visible :: "row_scope \<Rightarrow> session_ref \<Rightarrow> bool" where
  "session_visible sc r \<longleftrightarrow> visible sc r
     \<or> (case sc of AsUser u \<Rightarrow> ref_mode r = ''screening'' \<and> ref_candidate r = u | AsTenant _ \<Rightarrow> False)"

definition find_session :: "row_scope \<Rightarrow> string \<Rightarrow> interview_db \<Rightarrow> session option" where
  "find_session sc i db = find (\<lambda>s. se_id s = i \<and> session_visible sc (se_ref s)) (db_sessions db)"

text \<open>An update of the session rows a guard admits, in a scope: how many rows it moved, and the table.\<close>

definition update_sessions ::
  "row_scope \<Rightarrow> string \<Rightarrow> (session \<Rightarrow> bool) \<Rightarrow> (session \<Rightarrow> session) \<Rightarrow> interview_db \<Rightarrow> nat \<times> interview_db" where
  "update_sessions sc i guard f db =
     (let hit = (\<lambda>s. se_id s = i \<and> visible sc (se_ref s) \<and> guard s) in
      (length (filter hit (db_sessions db)),
       db\<lparr>db_sessions := map (\<lambda>s. if hit s then f s else s) (db_sessions db)\<rparr>))"

definition publish_event :: "string \<Rightarrow> time \<Rightarrow> event \<Rightarrow> interview_db \<Rightarrow> interview_error + interview_db" where
  "publish_event eid now e db =
     (case Publish eid now e (db_outbox db) of
        Inl (Refused err) \<Rightarrow> Inl (EventRefused err)
      | Inl InsertFailed \<Rightarrow> Inl DatabaseRefused
      | Inr rows \<Rightarrow> Inr (db\<lparr>db_outbox := rows\<rparr>))"

lemma visible_session_visible: "visible sc r \<Longrightarrow> session_visible sc r"
  by (simp add: session_visible_def)

lemma find_session_Some:
  "find_session sc i db = Some s \<Longrightarrow> s \<in> set (db_sessions db) \<and> se_id s = i \<and> session_visible sc (se_ref s)"
  by (auto simp: find_session_def find_Some_iff)

lemma publish_event_Inr:
  "publish_event eid now e db = Inr db' \<Longrightarrow>
     validate e = None \<and> (\<exists>r. db' = db\<lparr>db_outbox := db_outbox db @ [r]\<rparr> \<and> ev_type (ob_event r) = ev_type e)"
  by (auto simp: publish_event_def split: sum.splits publish_error.splits dest!: Publish_Inr)

lemma publish_event_row:
  "publish_event eid now e db = Inr db' \<Longrightarrow> db_outbox db' = db_outbox db @ [new_row eid now e]"
  by (auto simp: publish_event_def split: sum.splits publish_error.splits dest!: Publish_row)

end
