(* ===== verification/Session_Store.thy ===== *)
theory Session_Store
  imports Interview_Tables
begin

text \<open>
  \<open>services/platform/internal/interview/store.go\<close>: sessions as they are created, read and moved.  Every
  transition is one transaction over the guarded row, its bundle, its event and its audit row; the
  session a caller passes is the one it read earlier, which may no longer be the one in the table.
  Identifiers drawn for events and the time of a transaction are arguments.
\<close>

section \<open>Audit and events\<close>

definition audit_visible :: "row_scope \<Rightarrow> audit_row \<Rightarrow> bool" where
  "audit_visible sc a =
     (case sc of
        AsUser u \<Rightarrow> au_tenant a = '''' \<and> ac_id (au_actor a) = u
      | AsTenant t \<Rightarrow> au_tenant a \<noteq> '''' \<and> au_tenant a = t)"

definition audit ::
  "row_scope \<Rightarrow> session \<Rightarrow> actor \<Rightarrow> string \<Rightarrow> string \<Rightarrow> interview_db \<Rightarrow> interview_error + interview_db" where
  "audit sc s actor action outcome db =
     (let row = \<lparr>au_tenant = ref_tenant (se_ref s), au_actor = actor, au_action = action,
            au_session = se_id s, au_outcome = outcome\<rparr> in
      if audit_visible sc row \<and> ac_type actor \<in> {''user'', ''service'', ''platform''}
      then Inr (db\<lparr>db_audit := db_audit db @ [row]\<rparr>) else Inl DatabaseRefused)"

definition session_event :: "string \<Rightarrow> session \<Rightarrow> actor \<Rightarrow> (string \<times> json) list \<Rightarrow> event" where
  "session_event ty s actor kvs =
     \<lparr>ev_type = ty, ev_schema_version = ''1.0'', ev_tenant = ref_tenant (se_ref s), ev_occurred_at = 0,
      ev_producer = ''interview'', ev_actor = \<lparr>oa_type = ac_type actor, oa_id = ac_id actor\<rparr>,
      ev_purpose = ref_mode (se_ref s), ev_correlation = '''', ev_causation = '''', ev_payload = Object kvs\<rparr>"

definition created_event :: "session \<Rightarrow> actor \<Rightarrow> event" where
  "created_event s actor = session_event ''interview.session_created.v1'' s actor
     [(''session_id'', JString (se_id s)), (''candidate_id'', JString (ref_candidate (se_ref s))),
      (''mode'', JString (ref_mode (se_ref s))), (''blueprint_id'', JString (se_blueprint s))]"

section \<open>Create\<close>

definition RecordingAudioAndTranscript :: string where "RecordingAudioAndTranscript = ''audio_and_transcript''"
definition RecordingTranscriptOnly :: string where "RecordingTranscriptOnly = ''transcript_only''"

text \<open>The row's own constraints: mode and tenant, campaign for screening, a known preference.\<close>

definition session_row_ok :: "session \<Rightarrow> bool" where
  "session_row_ok s \<longleftrightarrow> ref_ok (se_ref s)
     \<and> (ref_mode (se_ref s) = ''screening'' \<longleftrightarrow> se_campaign s \<noteq> '''')
     \<and> se_preference s \<in> {RecordingAudioAndTranscript, RecordingTranscriptOnly}"

definition InsertSession :: "row_scope \<Rightarrow> session \<Rightarrow> interview_db \<Rightarrow> interview_error + interview_db" where
  "InsertSession sc s db =
     (if session_row_ok s \<and> visible sc (se_ref s) \<and> se_id s \<notin> se_id ` set (db_sessions db)
      then Inr (db\<lparr>db_sessions := db_sessions db @ [s]\<rparr>) else Inl DatabaseRefused)"

definition Create ::
  "session \<Rightarrow> actor \<Rightarrow> string \<Rightarrow> time \<Rightarrow> interview_db \<Rightarrow> interview_error + interview_db" where
  "Create s actor eid now db =
     (case scope_of (se_ref s) of
        None \<Rightarrow> Inl EmptyScope
      | Some sc \<Rightarrow>
          (let row = s\<lparr>se_config := (if se_config s = '''' then ''{}'' else se_config s),
                 se_preference := (if se_preference s = '''' then RecordingTranscriptOnly else se_preference s),
                 se_epoch := 0, se_accepted := 0, se_state := StateDraft, se_version := 1,
                 se_bundle_ref := '''', se_bundle_digest := '''', se_bundle_revision := 0, se_failure := '''',
                 se_timing := 0, se_created_at := now, se_changed_at := now\<rparr> in
           bindE (InsertSession sc row db)
             (\<lambda>db. bindE (publish_event eid now (created_event s actor) db)
               (\<lambda>db. audit sc s actor ''interview.session_created'' ''allowed'' db))))"

section \<open>Reading\<close>

definition get :: "row_scope \<Rightarrow> string \<Rightarrow> interview_db \<Rightarrow> interview_error + session" where
  "get sc i db = (case find_session sc i db of None \<Rightarrow> Inl SessionNotFound | Some s \<Rightarrow> Inr s)"

definition Get :: "session_ref \<Rightarrow> interview_db \<Rightarrow> interview_error + session" where
  "Get ref db = (case scope_of ref of None \<Rightarrow> Inl EmptyScope | Some sc \<Rightarrow> get sc (ref_session ref) db)"

definition GetScreeningForCandidate :: "string \<Rightarrow> string \<Rightarrow> interview_db \<Rightarrow> interview_error + session" where
  "GetScreeningForCandidate i candidate db =
     (case SetUser candidate of
        None \<Rightarrow> Inl EmptyScope
      | Some sc \<Rightarrow> bindE (get sc i db)
          (\<lambda>s. if ref_mode (se_ref s) \<noteq> ''screening'' then Inl SessionNotFound else Inr s))"

definition ListMine :: "session_ref \<Rightarrow> interview_db \<Rightarrow> interview_error + session list" where
  "ListMine ref db =
     (case scope_of ref of
        None \<Rightarrow> Inl EmptyScope
      | Some sc \<Rightarrow> Inr (sort_key (\<lambda>s. - se_created_at s)
          (filter (\<lambda>s. session_visible sc (se_ref s)) (db_sessions db))))"

record campaign_session =
  cs_id :: string
  cs_candidate :: string
  cs_state :: state
  cs_changed_at :: time
  cs_digest :: string

definition CampaignSessions :: "string \<Rightarrow> string \<Rightarrow> interview_db \<Rightarrow> interview_error + campaign_session list" where
  "CampaignSessions tenant campaign db =
     (case SetTenant tenant of
        None \<Rightarrow> Inl EmptyScope
      | Some sc \<Rightarrow> Inr (map (\<lambda>s. \<lparr>cs_id = se_id s, cs_candidate = ref_candidate (se_ref s), cs_state = se_state s,
            cs_changed_at = se_changed_at s, cs_digest = se_bundle_digest s\<rparr>)
          (sort_key se_created_at
            (filter (\<lambda>s. session_visible sc (se_ref s) \<and> se_campaign s = campaign) (db_sessions db)))))"

definition ScreeningPhaseForCandidate ::
  "string \<Rightarrow> string \<Rightarrow> interview_db \<Rightarrow> interview_error + state option" where
  "ScreeningPhaseForCandidate campaign candidate db =
     (case SetUser candidate of
        None \<Rightarrow> Inl EmptyScope
      | Some sc \<Rightarrow> Inr (map_option se_state (case sort_key (\<lambda>s. - se_created_at s)
          (filter (\<lambda>s. session_visible sc (se_ref s) \<and> se_campaign s = campaign
             \<and> ref_candidate (se_ref s) = candidate \<and> ref_mode (se_ref s) = ''screening'') (db_sessions db)) of
          [] \<Rightarrow> None | s # _ \<Rightarrow> Some s)))"

section \<open>Transition\<close>

record effects =
  ef_bundle_ref :: string
  ef_bundle_digest :: string
  ef_bundle_revision :: int
  ef_body :: string
  ef_failure :: string
  ef_event :: "event option"

definition no_effects :: effects where
  "no_effects = \<lparr>ef_bundle_ref = '''', ef_bundle_digest = '''', ef_bundle_revision = 0, ef_body = '''',
     ef_failure = '''', ef_event = None\<rparr>"

text \<open>
  What the guarded update writes: a bundle field only when the transition carries it, the failure code
  always.
\<close>

definition transitioned :: "state \<Rightarrow> effects \<Rightarrow> time \<Rightarrow> session \<Rightarrow> session" where
  "transitioned to ef now r =
     r\<lparr>se_state := to, se_version := se_version r + 1, se_changed_at := now,
       se_bundle_ref := (if ef_bundle_ref ef = '''' then se_bundle_ref r else ef_bundle_ref ef),
       se_bundle_digest := (if ef_bundle_digest ef = '''' then se_bundle_digest r else ef_bundle_digest ef),
       se_bundle_revision := (if to_int32 (ef_bundle_revision ef) > 0 then to_int32 (ef_bundle_revision ef)
         else se_bundle_revision r),
       se_failure := ef_failure ef\<rparr>"

text \<open>The version column is a PostgreSQL integer, whose overflow is an error.\<close>

definition TransitionSession ::
  "row_scope \<Rightarrow> session \<Rightarrow> state \<Rightarrow> effects \<Rightarrow> time \<Rightarrow> interview_db \<Rightarrow> interview_error + nat \<times> interview_db" where
  "TransitionSession sc s to ef now db =
     (let guard = (\<lambda>r. se_state r = se_state s \<and> se_version r = to_int32 (se_version s)) in
      if \<exists>r \<in> set (db_sessions db). se_id r = se_id s \<and> visible sc (se_ref r) \<and> guard r \<and> se_version r = 2147483647
      then Inl DatabaseRefused
      else Inr (update_sessions sc (se_id s) guard (transitioned to ef now) db))"

definition InsertSessionBundle :: "row_scope \<Rightarrow> bundle_row \<Rightarrow> interview_db \<Rightarrow> interview_error + interview_db" where
  "InsertSessionBundle sc b db =
     (if find_session sc (br_session b) db \<noteq> None \<and> br_session b \<notin> br_session ` set (db_bundles db)
      then Inr (db\<lparr>db_bundles := db_bundles db @ [b]\<rparr>) else Inl DatabaseRefused)"

definition Transition ::
  "session \<Rightarrow> state \<Rightarrow> effects \<Rightarrow> actor \<Rightarrow> string \<Rightarrow> time \<Rightarrow> interview_db
     \<Rightarrow> interview_error + session \<times> interview_db" where
  "Transition s to ef actor eid now db =
     (case CanTransition (se_state s) to of
        Some e \<Rightarrow> Inl (IllegalTransition e)
      | None \<Rightarrow>
          (case scope_of (se_ref s) of
             None \<Rightarrow> Inl EmptyScope
           | Some sc \<Rightarrow>
               bindE (TransitionSession sc s to ef now db)
                 (\<lambda>(moved, db1).
                   if moved = 0
                   then (case get sc (se_id s) db1 of
                           Inl SessionNotFound \<Rightarrow> Inl SessionNotFound | _ \<Rightarrow> Inl SessionStale)
                   else
                     bindE (if ef_body ef = '''' then Inr db1
                            else InsertSessionBundle sc \<lparr>br_session = se_id s, br_digest = ef_bundle_digest ef,
                              br_body = ef_body ef\<rparr> db1)
                       (\<lambda>db2. bindE (case ef_event ef of None \<Rightarrow> Inr db2 | Some e \<Rightarrow> publish_event eid now e db2)
                         (\<lambda>db3. bindE (audit sc s actor (''interview.session_'' @ state_text to) ''allowed'' db3)
                           (\<lambda>db4. bindE (get sc (se_id s) db4) (\<lambda>s'. Inr (s', db4))))))))"

section \<open>Bundles and timing policies\<close>

definition ReadyEvent :: "session \<Rightarrow> effects \<Rightarrow> actor \<Rightarrow> event" where
  "ReadyEvent s ef actor = session_event ''interview.session_ready.v1'' s actor
     [(''session_id'', JString (se_id s)), (''bundle_id'', JString (se_id s)),
      (''bundle_digest'', JString (ef_bundle_digest ef)), (''bundle_revision'', JInt (ef_bundle_revision ef))]"

definition Bundle :: "session_ref \<Rightarrow> interview_db \<Rightarrow> interview_error + string" where
  "Bundle ref db =
     (case scope_of ref of
        None \<Rightarrow> Inl EmptyScope
      | Some sc \<Rightarrow>
          (case find (\<lambda>b. br_session b = ref_session ref) (db_bundles db) of
             Some b \<Rightarrow> (if find_session sc (ref_session ref) db \<noteq> None then Inr (br_body b) else Inl SessionNotFound)
           | None \<Rightarrow> Inl SessionNotFound))"

definition CurrentTimingPolicy :: "interview_db \<Rightarrow> interview_error + timing_policy" where
  "CurrentTimingPolicy db =
     (case sort_key (\<lambda>p. - tp_version p) (db_policies db) of
        [] \<Rightarrow> Inl (Unavailable ''timing policy'') | p # _ \<Rightarrow> Inr p)"

definition TimingPolicyByVersion :: "int \<Rightarrow> interview_db \<Rightarrow> interview_error + timing_policy" where
  "TimingPolicyByVersion v db =
     (case find (\<lambda>p. tp_version p = to_int32 v) (db_policies db) of
        None \<Rightarrow> Inl (Unavailable ''timing policy'') | Some p \<Rightarrow> Inr p)"

text \<open>The policy stamped must exist: the column references the policies.\<close>

definition StampTimingPolicy ::
  "session \<Rightarrow> timing_policy \<Rightarrow> interview_db \<Rightarrow> interview_error + interview_db" where
  "StampTimingPolicy s p db =
     (case scope_of (se_ref s) of
        None \<Rightarrow> Inl EmptyScope
      | Some sc \<Rightarrow>
          (case update_sessions sc (se_id s) (\<lambda>r. se_timing r = 0) (\<lambda>r. r\<lparr>se_timing := to_int32 (tp_version p)\<rparr>) db of
             (moved, db') \<Rightarrow>
               (if moved > 0 \<and> to_int32 (tp_version p) \<notin> tp_version ` set (db_policies db)
                then Inl DatabaseRefused else Inr db')))"

section \<open>What a transition does\<close>

definition sessions_keyed :: "interview_db \<Rightarrow> bool" where
  "sessions_keyed db \<longleftrightarrow> distinct (map se_id (db_sessions db))"

lemma keyed_unique:
  "sessions_keyed db \<Longrightarrow> r \<in> set (db_sessions db) \<Longrightarrow> r' \<in> set (db_sessions db) \<Longrightarrow> se_id r = se_id r' \<Longrightarrow> r = r'"
  unfolding sessions_keyed_def distinct_map by (auto dest: inj_onD)

lemma update_sessions_moved:
  "update_sessions sc i guard f db = (moved, db') \<Longrightarrow> moved \<noteq> 0 \<longleftrightarrow>
     (\<exists>r \<in> set (db_sessions db). se_id r = i \<and> visible sc (se_ref r) \<and> guard r)"
  by (auto simp: update_sessions_def Let_def filter_empty_conv)

lemma update_sessions_db:
  "update_sessions sc i guard f db = (moved, db') \<Longrightarrow>
     db' = db\<lparr>db_sessions := map (\<lambda>s. if se_id s = i \<and> visible sc (se_ref s) \<and> guard s then f s else s) (db_sessions db)\<rparr>"
  by (auto simp: update_sessions_def Let_def)

lemma transitioned_fields [simp]:
  "se_ref (transitioned to ef now r) = se_ref r" "se_state (transitioned to ef now r) = to"
  "se_version (transitioned to ef now r) = se_version r + 1" "se_config (transitioned to ef now r) = se_config r"
  "se_preference (transitioned to ef now r) = se_preference r" "se_consent (transitioned to ef now r) = se_consent r"
  "se_campaign (transitioned to ef now r) = se_campaign r" "se_blueprint (transitioned to ef now r) = se_blueprint r"
  "se_epoch (transitioned to ef now r) = se_epoch r" "se_accepted (transitioned to ef now r) = se_accepted r"
  "se_timing (transitioned to ef now r) = se_timing r" "se_created_at (transitioned to ef now r) = se_created_at r"
  "se_changed_at (transitioned to ef now r) = now"
  by (simp_all add: transitioned_def)

lemma audit_Inr:
  "audit sc s actor action outcome db = Inr db' \<Longrightarrow>
     db' = db\<lparr>db_audit := db_audit db @ [\<lparr>au_tenant = ref_tenant (se_ref s), au_actor = actor, au_action = action,
       au_session = se_id s, au_outcome = outcome\<rparr>]\<rparr>"
  by (auto simp: audit_def Let_def split: if_splits)

text \<open>Every part of the database a transition leaves alone, and what it adds to the rest.\<close>

definition transition_frame ::
  "interview_db \<Rightarrow> interview_db \<Rightarrow> session list \<Rightarrow> bundle_row list \<Rightarrow> outbox_row list \<Rightarrow> audit_row list \<Rightarrow> bool" where
  "transition_frame db db' rows bundles events audits \<longleftrightarrow>
     db' = db\<lparr>db_sessions := rows, db_bundles := db_bundles db @ bundles,
       db_outbox := db_outbox db @ events, db_audit := db_audit db @ audits\<rparr>"

lemma transition_frame_fields:
  assumes "transition_frame db db' rows bundles events audits"
  shows "db_sessions db' = rows" "db_bundles db' = db_bundles db @ bundles" "db_outbox db' = db_outbox db @ events"
    "db_audit db' = db_audit db @ audits" "db_policies db' = db_policies db" "db_attempts db' = db_attempts db"
    "db_events db' = db_events db" "db_interruptions db' = db_interruptions db" "db_seals db' = db_seals db"
    "db_tracks db' = db_tracks db"
  using assms by (simp_all add: transition_frame_def)

definition read_row :: "row_scope \<Rightarrow> session \<Rightarrow> session \<Rightarrow> bool" where
  "read_row sc s r \<longleftrightarrow> se_id r = se_id s \<and> visible sc (se_ref r) \<and> se_state r = se_state s
     \<and> se_version r = to_int32 (se_version s)"

definition transition_audit :: "session \<Rightarrow> state \<Rightarrow> actor \<Rightarrow> audit_row" where
  "transition_audit s to actor =
     \<lparr>au_tenant = ref_tenant (se_ref s), au_actor = actor, au_action = ''interview.session_'' @ state_text to,
      au_session = se_id s, au_outcome = ''allowed''\<rparr>"

definition transition_bundles :: "session \<Rightarrow> effects \<Rightarrow> bundle_row list" where
  "transition_bundles s ef = (if ef_body ef = '''' then []
     else [\<lparr>br_session = se_id s, br_digest = ef_bundle_digest ef, br_body = ef_body ef\<rparr>])"

definition transition_events :: "effects \<Rightarrow> string \<Rightarrow> time \<Rightarrow> outbox_row list" where
  "transition_events ef eid now = (case ef_event ef of None \<Rightarrow> [] | Some e \<Rightarrow> [new_row eid now e])"

lemma Transition_Inr:
  assumes "Transition s to ef actor eid now db = Inr (s', db')"
  shows "\<exists>sc events. to \<in> set (transitions (se_state s)) \<and> scope_of (se_ref s) = Some sc
    \<and> (\<exists>r \<in> set (db_sessions db). read_row sc s r \<and> se_version r \<noteq> 2147483647)
    \<and> transition_frame db db' (map (\<lambda>r. if read_row sc s r then transitioned to ef now r else r) (db_sessions db))
        (transition_bundles s ef) events [transition_audit s to actor]
    \<and> map (ev_type \<circ> ob_event) events = (case ef_event ef of None \<Rightarrow> [] | Some e \<Rightarrow> [ev_type e])
    \<and> events = transition_events ef eid now
    \<and> (\<forall>e. ef_event ef = Some e \<longrightarrow> validate e = None)
    \<and> find_session sc (se_id s) db' = Some s'"
proof -
  let ?guard = "\<lambda>r. se_state r = se_state s \<and> se_version r = to_int32 (se_version s)"
  from assms obtain sc where to: "to \<in> set (transitions (se_state s))" and sc: "scope_of (se_ref s) = Some sc"
    by (auto simp: Transition_def CanTransition_None split: option.splits)
  from assms obtain moved db1 where t: "TransitionSession sc s to ef now db = Inr (moved, db1)" and "moved \<noteq> 0"
    by (auto simp: Transition_def sc bindE_Inr split: option.splits if_splits sum.splits interview_error.splits)
  from t have u: "update_sessions sc (se_id s) ?guard (transitioned to ef now) db = (moved, db1)"
    and small: "\<not> (\<exists>r \<in> set (db_sessions db). se_id r = se_id s \<and> visible sc (se_ref r) \<and> ?guard r \<and> se_version r = 2147483647)"
    by (auto simp: TransitionSession_def Let_def split: if_splits)
  from update_sessions_moved [OF u] \<open>moved \<noteq> 0\<close> small
  have hit: "\<exists>r \<in> set (db_sessions db). read_row sc s r \<and> se_version r \<noteq> 2147483647"
    unfolding read_row_def by blast
  from assms to \<open>moved \<noteq> 0\<close> obtain db2 db3 db4 where
    b: "(if ef_body ef = '''' then Inr db1 else InsertSessionBundle sc \<lparr>br_session = se_id s,
        br_digest = ef_bundle_digest ef, br_body = ef_body ef\<rparr> db1) = Inr db2"
    and e: "(case ef_event ef of None \<Rightarrow> Inr db2 | Some e \<Rightarrow> publish_event eid now e db2) = Inr db3"
    and a: "audit sc s actor (''interview.session_'' @ state_text to) ''allowed'' db3 = Inr db4"
    and g: "get sc (se_id s) db4 = Inr s'" and db': "db' = db4"
    by (auto simp: Transition_def sc t bindE_Inr CanTransition_None [symmetric])
  let ?bundles = "if ef_body ef = '''' then [] else [\<lparr>br_session = se_id s, br_digest = ef_bundle_digest ef, br_body = ef_body ef\<rparr>]"
  from b have db2: "db2 = db1\<lparr>db_bundles := db_bundles db1 @ ?bundles\<rparr>"
    by (auto simp: InsertSessionBundle_def split: if_splits)
  from e obtain events where db3: "db3 = db2\<lparr>db_outbox := db_outbox db2 @ events\<rparr>"
    and ev: "map (ev_type \<circ> ob_event) events = (case ef_event ef of None \<Rightarrow> [] | Some e \<Rightarrow> [ev_type e])"
    and rows: "events = transition_events ef eid now"
    and valid: "\<And>e. ef_event ef = Some e \<Longrightarrow> validate e = None"
  proof (cases "ef_event ef")
    case None
    with e that [of "[]"] show thesis by (simp add: transition_events_def)
  next
    case (Some x)
    with e have p: "publish_event eid now x db2 = Inr db3" by simp
    from publish_event_Inr [OF p] obtain r where "db3 = db2\<lparr>db_outbox := db_outbox db2 @ [r]\<rparr>" "validate x = None" by blast
    with publish_event_row [OF p] Some that [of "[r]"] show thesis by (simp add: transition_events_def new_row_def)
  qed
  have "transition_frame db db' (map (\<lambda>r. if read_row sc s r then transitioned to ef now r else r) (db_sessions db))
      (transition_bundles s ef) events [transition_audit s to actor]"
    unfolding transition_frame_def db' audit_Inr [OF a] db3 db2 update_sessions_db [OF u]
    by (simp add: read_row_def transition_audit_def transition_bundles_def)
  moreover from g have "find_session sc (se_id s) db' = Some s'"
    by (auto simp: get_def db' split: option.splits)
  ultimately show ?thesis using to sc hit ev rows valid by blast
qed

lemma Transition_row:
  assumes "sessions_keyed db" and "Transition s to ef actor eid now db = Inr (s', db')"
  shows "\<exists>sc r. scope_of (se_ref s) = Some sc \<and> r \<in> set (db_sessions db) \<and> read_row sc s r
    \<and> s' = transitioned to ef now r \<and> db_sessions db' = map (\<lambda>x. if x = r then s' else x) (db_sessions db)"
proof -
  from Transition_Inr [OF assms(2)] obtain sc where sc: "scope_of (se_ref s) = Some sc"
    and hit: "\<exists>r \<in> set (db_sessions db). read_row sc s r"
    and fr: "\<exists>events. transition_frame db db' (map (\<lambda>r. if read_row sc s r then transitioned to ef now r else r) (db_sessions db))
        (transition_bundles s ef) events [transition_audit s to actor]"
    and found: "find_session sc (se_id s) db' = Some s'" by blast
  from fr have rows0: "db_sessions db' = map (\<lambda>r. if read_row sc s r then transitioned to ef now r else r) (db_sessions db)"
    by (auto simp: transition_frame_def)
  from hit obtain r where r: "r \<in> set (db_sessions db)" "read_row sc s r" by blast
  let ?t = "transitioned to ef now r"
  have "read_row sc s x \<longleftrightarrow> x = r" if "x \<in> set (db_sessions db)" for x
    using keyed_unique [OF assms(1) that r(1)] r(2) by (auto simp: read_row_def)
  then have rows: "db_sessions db' = map (\<lambda>x. if x = r then ?t else x) (db_sessions db)" using rows0 by simp
  have "x = ?t" if "x \<in> set (db_sessions db')" "se_id x = se_id s" for x
  proof -
    from that(1) obtain y where y: "y \<in> set (db_sessions db)" "x = (if y = r then ?t else y)"
      unfolding rows set_map by blast
    show ?thesis
    proof (cases "y = r")
      case False
      with y that(2) r(2) have "se_id y = se_id r" by (simp add: read_row_def)
      with keyed_unique [OF assms(1) y(1) r(1)] False show ?thesis by blast
    qed (simp add: y(2))
  qed
  with find_session_Some [OF found] have "s' = ?t" by blast
  with sc r rows show ?thesis by blast
qed

lemma Transition_keyed:
  "sessions_keyed db \<Longrightarrow> Transition s to ef actor eid now db = Inr (s', db') \<Longrightarrow> sessions_keyed db'"
  by (auto simp: sessions_keyed_def dest!: Transition_Inr) (simp add: transition_frame_def comp_def if_distrib [of se_id] cong: if_cong)

text \<open>A session just read is not stale.\<close>

lemma never_stale [simp]:
  "InsertSessionBundle sc b db \<noteq> Inl SessionStale" "publish_event eid now e db \<noteq> Inl SessionStale"
  "audit sc s actor action outcome db \<noteq> Inl SessionStale" "get sc i db \<noteq> Inl SessionStale"
  "TransitionSession sc s to ef now db \<noteq> Inl SessionStale"
  by (simp_all add: InsertSessionBundle_def publish_event_def audit_def get_def TransitionSession_def Let_def
      split: option.splits sum.splits publish_error.splits)

lemma Transition_not_stale:
  assumes "s \<in> set (db_sessions db)" and "to_int32 (se_version s) = se_version s"
  shows "Transition s to ef actor eid now db \<noteq> Inl SessionStale"
proof (cases "scope_of (se_ref s)")
  case (Some sc)
  show ?thesis
  proof (cases "TransitionSession sc s to ef now db")
    case (Inr p)
    obtain moved db1 where p: "p = (moved, db1)" by (cases p)
    then have u: "update_sessions sc (se_id s) (\<lambda>r. se_state r = se_state s \<and> se_version r = to_int32 (se_version s))
        (transitioned to ef now) db = (moved, db1)" using Inr by (auto simp: TransitionSession_def Let_def split: if_splits)
    have "moved \<noteq> 0" using update_sessions_moved [OF u] assms scope_sees_own [OF Some] by auto
    then show ?thesis by (simp add: Transition_def Some Inr p bindE_Inl split: option.splits)
  next
    case (Inl e)
    then have "e \<noteq> SessionStale" using never_stale(5) by blast
    with Inl show ?thesis by (simp add: Transition_def Some split: option.splits)
  qed
qed (simp add: Transition_def split: option.splits)

text \<open>C4: A transition is optimistic, atomic and attributed. When it succeeds, the row was still in the state
  and at the version the caller had read; exactly that row moved, its version one higher, with nothing
  about its owner, its configuration, its consent or its connection changed; exactly one audit row names
  the actor and the new state; its bundle is written with it, and so is its event: the outbox keeps its rows
  and gains exactly the event the transition carries, valid and undelivered, or nothing when it carries none;
  and whoever else had read the same session is now told that it is stale, so no update is ever lost. A
  transition that fails changes nothing.\<close>

theorem transition_is_optimistic:
  assumes "sessions_keyed db" and "Transition s to ef actor eid now db = Inr (s', db')"
  shows "\<exists>r \<in> set (db_sessions db). se_id r = se_id s \<and> se_state r = se_state s \<and> se_version r = to_int32 (se_version s)
    \<and> s' = transitioned to ef now r
    \<and> db_sessions db' = map (\<lambda>x. if x = r then s' else x) (db_sessions db)
    \<and> db_audit db' = db_audit db @ [\<lparr>au_tenant = ref_tenant (se_ref s), au_actor = actor,
        au_action = ''interview.session_'' @ state_text to, au_session = se_id s, au_outcome = ''allowed''\<rparr>]
    \<and> db_outbox db' = db_outbox db @ (case ef_event ef of None \<Rightarrow> [] | Some e \<Rightarrow> [new_row eid now e])
    \<and> (\<forall>e. ef_event ef = Some e \<longrightarrow> validate e = None)
    \<and> db_bundles db' = db_bundles db @ (if ef_body ef = '''' then []
        else [\<lparr>br_session = se_id s, br_digest = ef_bundle_digest ef, br_body = ef_body ef\<rparr>])
    \<and> (\<forall>to2 ef2 actor2 eid2 now2. CanTransition (se_state s) to2 = None
          \<longrightarrow> Transition s to2 ef2 actor2 eid2 now2 db' = Inl SessionStale)"
proof -
  from Transition_Inr [OF assms(2)] obtain sc events where sc: "scope_of (se_ref s) = Some sc"
    and fr: "transition_frame db db' (map (\<lambda>r. if read_row sc s r then transitioned to ef now r else r) (db_sessions db))
        (transition_bundles s ef) events [transition_audit s to actor]"
    and events: "events = transition_events ef eid now" and valid: "\<forall>e. ef_event ef = Some e \<longrightarrow> validate e = None"
    and found: "find_session sc (se_id s) db' = Some s'" by blast
  from Transition_row [OF assms] obtain sc' r where sc': "scope_of (se_ref s) = Some sc'"
    and r0: "r \<in> set (db_sessions db)" "read_row sc' s r"
    and s': "s' = transitioned to ef now r" and rows: "db_sessions db' = map (\<lambda>x. if x = r then s' else x) (db_sessions db)"
    by blast
  have "sc' = sc" using sc sc' by simp
  with r0 have r: "r \<in> set (db_sessions db)" "read_row sc s r" by simp_all
  have "sessions_keyed db'" by (rule Transition_keyed [OF assms])
  moreover have "s' \<in> set (db_sessions db')" using r(1) by (auto simp: rows)
  moreover have "se_id s' = se_id s" using r(2) by (simp add: s' read_row_def)
  ultimately have only: "x = s'" if "x \<in> set (db_sessions db')" "se_id x = se_id s" for x
    using that keyed_unique [of db' x s'] by simp
  have stale: "Transition s to2 ef2 actor2 eid2 now2 db' = Inl SessionStale"
    if "CanTransition (se_state s) to2 = None" for to2 ef2 actor2 eid2 now2
  proof -
    have no: "\<not> (se_id x = se_id s \<and> visible sc (se_ref x) \<and> se_state x = se_state s
        \<and> se_version x = to_int32 (se_version s))" if "x \<in> set (db_sessions db')" for x
      using only [OF that] r(2) by (auto simp: read_row_def s')
    then have "map (\<lambda>x. if se_id x = se_id s \<and> visible sc (se_ref x) \<and> se_state x = se_state s
        \<and> se_version x = to_int32 (se_version s) then transitioned to2 ef2 now2 x else x) (db_sessions db') = db_sessions db'"
      by (intro map_idI) (auto dest: no)
    then have "TransitionSession sc s to2 ef2 now2 db' = Inr (0, db')"
      using no by (auto simp: TransitionSession_def Let_def update_sessions_def filter_empty_conv)
    then show ?thesis using that found by (simp add: Transition_def sc get_def)
  qed
  from r s' rows fr stale valid show ?thesis unfolding events
    by (intro bexI [of _ r])
      (simp_all add: transition_frame_def read_row_def transition_audit_def transition_bundles_def transition_events_def)
qed

definition ex_session :: session where
  "ex_session = \<lparr>se_ref = \<lparr>ref_session = ''s1'', ref_mode = ''practice'', ref_candidate = ''u1'', ref_tenant = ''''\<rparr>,
     se_campaign = '''', se_blueprint = ''backend'', se_config = ''{}'', se_preference = ''transcript_only'',
     se_consent = ''1.0.0'', se_epoch = 0, se_accepted = 0, se_state = StateDraft, se_version = 1,
     se_bundle_ref = '''', se_bundle_digest = '''', se_bundle_revision = 0, se_failure = '''', se_timing = 0,
     se_created_at = 5, se_changed_at = 5\<rparr>"

definition ex_actor :: actor where
  "ex_actor = \<lparr>ac_id = ''u1'', ac_type = ''user''\<rparr>"

definition empty_db :: interview_db where
  "empty_db = \<lparr>db_sessions = [], db_bundles = [], db_policies = [], db_attempts = [], db_events = [],
     db_interruptions = [], db_seals = [], db_tracks = [], db_audit = [], db_outbox = []\<rparr>"

definition ex_db :: interview_db where
  "ex_db = empty_db\<lparr>db_sessions := [ex_session]\<rparr>"

lemma ex_transition:
  "Transition ex_session StateComposing no_effects ex_actor ''e1'' 9 ex_db
    = Inr (transitioned StateComposing no_effects 9 ex_session,
        ex_db\<lparr>db_sessions := [transitioned StateComposing no_effects 9 ex_session],
          db_audit := [\<lparr>au_tenant = '''', au_actor = ex_actor, au_action = ''interview.session_composing'',
            au_session = ''s1'', au_outcome = ''allowed''\<rparr>]\<rparr>)"
  by code_simp

theorem transition_is_optimistic_witness:
  "\<exists>db'. Transition ex_session StateComposing no_effects ex_actor ''e1'' 9 ex_db
       = Inr (transitioned StateComposing no_effects 9 ex_session, db')
    \<and> Transition ex_session StateCancelled no_effects ex_actor ''e2'' 9 db' = Inl SessionStale"
proof -
  have keyed: "sessions_keyed ex_db" by (simp add: sessions_keyed_def ex_db_def)
  have "CanTransition (se_state ex_session) StateCancelled = None" by code_simp
  with transition_is_optimistic [OF keyed ex_transition] ex_transition show ?thesis by blast
qed

text \<open>Sessions stay with whom they belong to. Whatever reference a caller presents, a practice session it
  is answered is the session it named and belongs to the candidate it acts as; a screening session is
  answered to the tenant that runs it, or to the candidate who sits it through the candidate's own read,
  which never answers a practice session; and a list holds nothing a read would refuse.\<close>

theorem sessions_stay_with_their_owner:
  assumes "\<forall>s \<in> set (db_sessions db). ref_ok (se_ref s)"
  shows "(Get ref db = Inr s \<longrightarrow> se_id s = ref_session ref
        \<and> (if ref_mode ref = ''practice'' then ref_candidate (se_ref s) = ref_candidate ref
           else ref_mode (se_ref s) = ''screening'' \<and> ref_tenant (se_ref s) = ref_tenant ref))
    \<and> (GetScreeningForCandidate i candidate db = Inr s' \<longrightarrow>
        se_id s' = i \<and> ref_mode (se_ref s') = ''screening'' \<and> ref_candidate (se_ref s') = candidate)
    \<and> (ListMine ref db = Inr ss \<longrightarrow> (\<forall>x \<in> set ss. \<exists>y. Get (ref\<lparr>ref_session := se_id x\<rparr>) db = Inr y))"
proof (intro conjI impI)
  assume "Get ref db = Inr s"
  then obtain sc where sc: "scope_of ref = Some sc" and f: "find_session sc (ref_session ref) db = Some s"
    by (auto simp: Get_def get_def split: option.splits)
  from find_session_Some [OF f] assms sc
  show "se_id s = ref_session ref"
    and "if ref_mode ref = ''practice'' then ref_candidate (se_ref s) = ref_candidate ref
      else ref_mode (se_ref s) = ''screening'' \<and> ref_tenant (se_ref s) = ref_tenant ref"
    by (auto simp: session_visible_def visible_def scope_of_def SetUser_def SetTenant_def ref_ok_def split: if_splits)
next
  assume g: "GetScreeningForCandidate i candidate db = Inr s'"
  then obtain sc where sc: "SetUser candidate = Some sc" and f: "find_session sc i db = Some s'"
    and m: "ref_mode (se_ref s') = ''screening''"
    by (auto simp: GetScreeningForCandidate_def get_def bindE_Inr split: option.splits if_splits)
  from find_session_Some [OF f] sc m
  show "se_id s' = i" "ref_mode (se_ref s') = ''screening''" "ref_candidate (se_ref s') = candidate"
    by (auto simp: session_visible_def visible_def SetUser_def split: if_splits)
next
  assume "ListMine ref db = Inr ss"
  then obtain sc where sc: "scope_of ref = Some sc"
    and ss: "set ss = {s \<in> set (db_sessions db). session_visible sc (se_ref s)}"
    by (auto simp: ListMine_def split: option.splits)
  show "\<forall>x \<in> set ss. \<exists>y. Get (ref\<lparr>ref_session := se_id x\<rparr>) db = Inr y"
  proof
    fix x assume "x \<in> set ss"
    with ss have "find_session sc (se_id x) db \<noteq> None" by (auto simp: find_session_def find_None_iff)
    then show "\<exists>y. Get (ref\<lparr>ref_session := se_id x\<rparr>) db = Inr y"
      using sc by (auto simp: Get_def get_def scope_of_def)
  qed
qed

theorem sessions_stay_with_their_owner_witness:
  "Get (se_ref ex_session) ex_db = Inr ex_session \<and> ref_candidate (se_ref ex_session) = ''u1''
   \<and> \<not> is_ok (GetScreeningForCandidate ''s1'' ''u1'' ex_db)"
proof -
  have g: "Get (se_ref ex_session) ex_db = Inr ex_session" by code_simp
  have "\<forall>s \<in> set (db_sessions ex_db). ref_ok (se_ref s)" by code_simp
  from sessions_stay_with_their_owner [OF this, of "se_ref ex_session" ex_session "''s1''" "''u1''"] g
  have "ref_candidate (se_ref ex_session) = ref_candidate (se_ref ex_session)" by blast
  moreover have "\<not> is_ok (GetScreeningForCandidate ''s1'' ''u1'' ex_db)" by code_simp
  ultimately show ?thesis using g by (simp add: ex_session_def)
qed

end
