(* ===== verification/Review_Desk.thy ===== *)
theory Review_Desk
  imports Review Session_Store Evaluation_Pipeline
begin

text \<open>
  The reviewer's desk (\<open>services/platform/cmd/api/decision_adapter.go\<close>, \<open>appeal_adapter.go\<close>): where the
  sessions of a campaign, the stored evaluation and the record of decisions meet.  A decision is recorded on what
  the stored result says, never on what the request says it was; an appeal freezes the bundle the session ran.
  Each store answers in a transaction of its own, and a read of one is not repeated.
\<close>

datatype desk_error =
    ErrReviewSessionMissing
  | ErrDecisionNotReady
  | ErrOverrideUnknownCompetency
  | ErrDecisionReasonMissing
  | ErrOverrideIncompleteAPI
  | ErrDecisionInvalid
  | ErrAppealNothingDecided
  | ErrAppealReasonMissing
  | ErrAppealSelfReviewAPI
  | ErrAppealMissing
  | ErrAppealDone
  | ErrAppealNotAssignee
  | ErrAppealIncomplete
  | DeskRecruiting recruiting_error
  | DeskInterview interview_error
  | DeskResult result_error

definition sessionOn :: "string \<Rightarrow> string \<Rightarrow> string \<Rightarrow> interview_db \<Rightarrow> desk_error + campaign_session" where
  "sessionOn tenant campaign session db =
     (case CampaignSessions tenant campaign db of
        Inl e \<Rightarrow> Inl (DeskInterview e)
      | Inr sessions \<Rightarrow>
          (case find (\<lambda>s. cs_id s = session) sessions of None \<Rightarrow> Inl ErrReviewSessionMissing | Some s \<Rightarrow> Inr s))"

section \<open>Recording a decision\<close>

text \<open>The band of each assessed competency; of two entries for one competency the later.\<close>

definition assessed_bands :: "competency_result list \<Rightarrow> string \<Rightarrow> string option" where
  "assessed_bands cs =
     map_of (rev (map (\<lambda>c. (re_competency c, re_band c)) (filter (\<lambda>c. re_status c = ''assessed'') cs)))"

record override_input =
  oi_competency :: string
  oi_band :: string
  oi_rationale :: string

fun enrich :: "(string \<Rightarrow> string option) \<Rightarrow> override_input list \<Rightarrow> desk_error + band_override list" where
  "enrich bands [] = Inr []"
| "enrich bands (v # vs) =
     (case bands (oi_competency v) of
        None \<Rightarrow> Inl ErrOverrideUnknownCompetency
      | Some recorded \<Rightarrow> bindE (enrich bands vs) (\<lambda>rest.
          Inr (\<lparr>bo_competency = oi_competency v, bo_recorded = recorded, bo_override = oi_band v,
                bo_rationale = oi_rationale v\<rparr> # rest)))"

definition decision_error :: "recruiting_error \<Rightarrow> desk_error" where
  "decision_error e =
     (if e = ErrDecisionReasonRequired then ErrDecisionReasonMissing
      else if e = ErrOverrideIncomplete then ErrOverrideIncompleteAPI
      else if e = ErrDecisionUnknown then ErrDecisionInvalid
      else DeskRecruiting e)"

definition map_error :: "('e \<Rightarrow> 'f) \<Rightarrow> 'e + 'a \<Rightarrow> 'f + 'a" where
  "map_error f r = (case r of Inl e \<Rightarrow> Inl (f e) | Inr x \<Rightarrow> Inr x)"

lemma map_error_Inr [simp]: "map_error f r = Inr x \<longleftrightarrow> r = Inr x"
  by (simp add: map_error_def split: sum.split)

definition screening_ref :: "string \<Rightarrow> string \<Rightarrow> string \<Rightarrow> session_ref" where
  "screening_ref session candidate tenant =
     \<lparr>ref_session = session, ref_mode = ''screening'', ref_candidate = candidate, ref_tenant = tenant\<rparr>"

definition Record_decision ::
  "string \<Rightarrow> string \<Rightarrow> time \<Rightarrow> string \<Rightarrow> string \<Rightarrow> string \<Rightarrow> string \<Rightarrow> string \<Rightarrow> string \<Rightarrow> override_input list
     \<Rightarrow> interview_db \<Rightarrow> result_row list \<Rightarrow> recruiting_db \<Rightarrow> desk_error + review_decision \<times> recruiting_db" where
  "Record_decision i e now tenant campaign session by decision reason overrides sessions results db =
     bindE (sessionOn tenant campaign session sessions) (\<lambda>s.
     bindE (map_error (\<lambda>err. if err = NoResult then ErrDecisionNotReady else DeskResult err)
       (ResultOf (screening_ref session (cs_candidate s) tenant) results)) (\<lambda>result.
     bindE (enrich (assessed_bands (rt_competencies result)) overrides) (\<lambda>enriched.
       map_error decision_error
         (RecordReviewDecision i e now tenant campaign session by decision reason
           \<lparr>vr_evaluation = rt_id result, vr_result = rt_digest result, vr_rubric = rt_rubric_digest result\<rparr> enriched db))))"

definition decision_History ::
  "string \<Rightarrow> string \<Rightarrow> string \<Rightarrow> interview_db \<Rightarrow> recruiting_db \<Rightarrow> desk_error + review_decision list" where
  "decision_History tenant campaign session sessions db =
     bindE (sessionOn tenant campaign session sessions) (\<lambda>_.
       map_error DeskRecruiting (ReviewDecisionsForSession tenant campaign session db))"

section \<open>Appeals\<close>

definition translateAppeal :: "recruiting_error \<Rightarrow> desk_error" where
  "translateAppeal e =
     (if e = ErrAppealNoDecision then ErrAppealNothingDecided
      else if e = ErrAppealReasonRequired then ErrAppealReasonMissing
      else if e = ErrAppealSelfReview then ErrAppealSelfReviewAPI
      else if e = ErrAppealUnknown then ErrAppealMissing
      else if e = ErrAppealResolved then ErrAppealDone
      else if e = ErrAppealResolverNotAssigned then ErrAppealNotAssignee
      else if e = ErrAppealOutcomeInvalid then ErrAppealIncomplete
      else DeskRecruiting e)"

definition Raise_appeal ::
  "string \<Rightarrow> time \<Rightarrow> time \<Rightarrow> string \<Rightarrow> string \<Rightarrow> string \<Rightarrow> string \<Rightarrow> string \<Rightarrow> interview_db \<Rightarrow> recruiting_db
     \<Rightarrow> desk_error + re_review \<times> recruiting_db" where
  "Raise_appeal i now clock tenant campaign session by reason sessions db =
     bindE (sessionOn tenant campaign session sessions) (\<lambda>s.
       map_error translateAppeal (RaiseReReview i now clock tenant campaign session by reason (cs_digest s) db))"

definition Assign_appeal ::
  "string \<Rightarrow> string \<Rightarrow> string \<Rightarrow> string \<Rightarrow> recruiting_db \<Rightarrow> recruiting_db \<Rightarrow> desk_error + re_review \<times> recruiting_db" where
  "Assign_appeal tenant campaign i assignee seen db =
     map_error translateAppeal (AssignReReview tenant campaign i assignee seen db)"

definition Resolve_appeal ::
  "time \<Rightarrow> string \<Rightarrow> string \<Rightarrow> string \<Rightarrow> string \<Rightarrow> string \<Rightarrow> string \<Rightarrow> string \<Rightarrow> recruiting_db \<Rightarrow> recruiting_db
     \<Rightarrow> desk_error + re_review \<times> recruiting_db" where
  "Resolve_appeal now tenant campaign i by outcome rationale disclosure seen db =
     map_error translateAppeal (ResolveReReview now tenant campaign i by outcome rationale disclosure seen db)"

definition List_appeals :: "string \<Rightarrow> string \<Rightarrow> string \<Rightarrow> recruiting_db \<Rightarrow> desk_error + re_review list" where
  "List_appeals tenant campaign session db = map_error translateAppeal (ReReviewsForSession tenant campaign session db)"

section \<open>What a decision rests on\<close>

lemma sessionOn_Inr:
  assumes "sessionOn tenant campaign session db = Inr s"
  shows "\<exists>x \<in> set (db_sessions db). se_id x = session \<and> se_campaign x = campaign \<and> ref_tenant (se_ref x) = tenant
    \<and> cs_id s = session \<and> cs_candidate s = ref_candidate (se_ref x) \<and> cs_digest s = se_bundle_digest x"
proof -
  from assms obtain x where "x \<in> set (db_sessions db) \<and> session_visible (AsTenant tenant) (se_ref x) \<and> se_campaign x = campaign
      \<and> s = \<lparr>cs_id = se_id x, cs_candidate = ref_candidate (se_ref x), cs_state = se_state x, cs_changed_at = se_changed_at x,
             cs_digest = se_bundle_digest x\<rparr> \<and> cs_id s = session"
    by (auto simp: sessionOn_def CampaignSessions_def SetTenant_def split: sum.splits option.splits if_splits dest!: find_SomeD)
  then show ?thesis by (intro bexI [of _ x]) (auto simp: session_visible_def visible_def)
qed

lemma assessed_bands_Some:
  "assessed_bands cs k = Some b \<Longrightarrow> \<exists>c \<in> set cs. re_competency c = k \<and> re_status c = ''assessed'' \<and> re_band c = b"
  by (auto simp: assessed_bands_def dest!: map_of_SomeD)

lemma enrich_Inr:
  "enrich bands vs = Inr ds \<Longrightarrow>
     map bo_competency ds = map oi_competency vs \<and> map bo_override ds = map oi_band vs \<and> map bo_rationale ds = map oi_rationale vs
     \<and> (\<forall>d \<in> set ds. bands (bo_competency d) = Some (bo_recorded d))"
  by (induction vs arbitrary: ds) (auto simp: bindE_Inr split: option.splits)


text \<open>C24: A decision rests on the stored evaluation of a session of its campaign.  Whoever decides whatever from the desk,
  the decision that is recorded is on a session of that campaign and tenant, carries the identity and the digests of the evaluation
  stored for that session and candidate, and each override names a competency that evaluation assessed and the very band it
  assessed, whatever the request claimed; without a stored evaluation nothing can be recorded.\<close>

theorem decision_rests_on_the_evaluation:
  assumes "Record_decision i e now tenant campaign session by decision reason overrides sessions results db = Inr (d, db')"
  shows "\<exists>x \<in> set (db_sessions sessions). \<exists>r \<in> set results.
      se_id x = session \<and> se_campaign x = campaign \<and> ref_tenant (se_ref x) = tenant
      \<and> ref_session (rw_ref r) = session \<and> ref_tenant (rw_ref r) = tenant
      \<and> ResultOf (screening_ref session (ref_candidate (se_ref x)) tenant) results = Inr (rw_result r)
      \<and> hd_session d = session \<and> hd_decided_by d = by \<and> hd_decision d = decision
      \<and> hd_evidence d = \<lparr>vr_evaluation = rt_id (rw_result r), vr_result = rt_digest (rw_result r),
                          vr_rubric = rt_rubric_digest (rw_result r)\<rparr>
      \<and> map bo_override (hd_overrides d) = map oi_band overrides
      \<and> (\<forall>o' \<in> set (hd_overrides d). \<exists>c \<in> set (rt_competencies (rw_result r)).
           re_competency c = bo_competency o' \<and> re_status c = ''assessed'' \<and> re_band c = bo_recorded o')
      \<and> (\<exists>q \<in> set (ry_reviews db'). hdr_review q = d \<and> hdr_tenant q = tenant \<and> hdr_campaign q = campaign)"
proof -
  from assms obtain s result enriched where s: "sessionOn tenant campaign session sessions = Inr s"
    and result: "ResultOf (screening_ref session (cs_candidate s) tenant) results = Inr result"
    and en: "enrich (assessed_bands (rt_competencies result)) overrides = Inr enriched"
    and rec: "RecordReviewDecision i e now tenant campaign session by decision reason
           \<lparr>vr_evaluation = rt_id result, vr_result = rt_digest result, vr_rubric = rt_rubric_digest result\<rparr> enriched db = Inr (d, db')"
    by (auto simp: Record_decision_def bindE_Inr)
  from sessionOn_Inr [OF s] obtain x where x: "x \<in> set (db_sessions sessions)" "se_id x = session" "se_campaign x = campaign"
    "ref_tenant (se_ref x) = tenant" "cs_candidate s = ref_candidate (se_ref x)" by blast
  from result obtain r rs where r: "filter (\<lambda>r. visible (AsTenant tenant) (rw_ref r) \<and> ref_session (rw_ref r) = session) results = r # rs"
    "result = rw_result r"
    by (auto simp: ResultOf_def scope_of_def screening_ref_def SetTenant_def split: option.splits if_splits list.splits)
  then have "r \<in> set (filter (\<lambda>r. visible (AsTenant tenant) (rw_ref r) \<and> ref_session (rw_ref r) = session) results)" by simp
  then have r1: "r \<in> set results" "ref_session (rw_ref r) = session" "ref_tenant (rw_ref r) = tenant" by (auto simp: visible_def)
  have ov: "hd_overrides d = enriched" using rec
    by (auto simp: RecordReviewDecision_def as_tenant_Inr bindE_Inr Let_def split: if_splits)
  from enrich_Inr [OF en] have bands: "\<forall>o' \<in> set enriched. \<exists>c \<in> set (rt_competencies result).
      re_competency c = bo_competency o' \<and> re_status c = ''assessed'' \<and> re_band c = bo_recorded o'"
    and same: "map bo_override enriched = map oi_band overrides"
    by (blast dest: assessed_bands_Some)+
  from RecordReviewDecision_Inr [OF rec] obtain q where q: "q \<in> set (ry_reviews db')" "hdr_review q = d" "hdr_tenant q = tenant"
    "hdr_campaign q = campaign" "hd_session d = session" "hd_decided_by d = by" "hd_decision d = decision"
    "hd_evidence d = \<lparr>vr_evaluation = rt_id result, vr_result = rt_digest result, vr_rubric = rt_rubric_digest result\<rparr>"
    by auto
  show ?thesis using x r(2) r1 q ov bands same result by (intro bexI [of _ x] bexI [of _ r]) auto
qed


definition ex_campaign_session :: session where
  "ex_campaign_session = \<lparr>se_ref = screening_ref ''s1'' ''k1'' ''t1'', se_campaign = ''c1'', se_blueprint = ''campaign/c1'',
     se_config = '''', se_preference = '''', se_consent = ''1'', se_epoch = 0, se_accepted = 0, se_state = StateEvaluating,
     se_version = 3, se_bundle_ref = '''', se_bundle_digest = ''sha256:p'', se_bundle_revision = 1, se_failure = '''',
     se_timing = 0, se_created_at = 1, se_changed_at = 2\<rparr>"

definition ex_sessions :: interview_db where
  "ex_sessions = empty_db\<lparr>db_sessions := [ex_campaign_session]\<rparr>"

definition ex_competency :: competency_result where
  "ex_competency = \<lparr>re_competency = ''k'', re_status = ''assessed'', re_band = ''strong'', re_evidence_count = 1, re_supporting = 1,
     re_contradictory = 0, re_unverified = 0, re_gaps = 0, re_confidence = ''medium'', re_evidence_ids = [], re_reason_codes = []\<rparr>"

definition ex_results :: "result_row list" where
  "ex_results = [\<lparr>rw_ref = screening_ref ''s1'' ''k1'' ''t1'', rw_result = \<lparr>rt_id = ''e1'', rt_session = ''s1'', rt_rubric_reference = ''rubric'',
     rt_rubric_version = ''1'', rt_rubric_digest = ''sha256:b'', rt_extraction = ''x'', rt_competencies = [ex_competency],
     rt_digest = ''sha256:r'', rt_covered = 1, rt_total = 1, rt_warnings = [], rt_created_at = 3\<rparr>\<rparr>]"

definition ex_record :: "desk_error + review_decision \<times> recruiting_db" where
  "ex_record = Record_decision ''r1'' ''ev1'' 5 ''t1'' ''c1'' ''s1'' ''u1'' ''reject'' ''thin evidence''
     [\<lparr>oi_competency = ''k'', oi_band = ''basic'', oi_rationale = ''one example''\<rparr>] ex_sessions ex_results ex_desk"

theorem decision_rests_on_the_evaluation_witness:
  "\<exists>d :: review_decision. hd_evidence d = ex_evidence \<and> map bo_override (hd_overrides d) = [''basic'']
     \<and> (\<forall>o' \<in> set (hd_overrides d). bo_recorded o' = ''strong'')"
proof -
  have "is_ok ex_record" by code_simp
  then obtain d db' where x: "ex_record = Inr (d, db')" by (auto simp: is_ok_iff)
  from decision_rests_on_the_evaluation [OF x [unfolded ex_record_def]] obtain r where r: "r \<in> set ex_results"
    "hd_evidence d = \<lparr>vr_evaluation = rt_id (rw_result r), vr_result = rt_digest (rw_result r), vr_rubric = rt_rubric_digest (rw_result r)\<rparr>"
    "map bo_override (hd_overrides d) = [''basic'']"
    "\<forall>o' \<in> set (hd_overrides d). \<exists>c \<in> set (rt_competencies (rw_result r)).
           re_competency c = bo_competency o' \<and> re_status c = ''assessed'' \<and> re_band c = bo_recorded o'" by auto
  then show ?thesis by (intro exI [of _ d]) (auto simp: ex_results_def ex_competency_def ex_evidence_def)
qed

end
