(* ===== verification/Job_Context.thy ===== *)
theory Job_Context
  imports Campaigns
begin

text \<open>
  The job context of a campaign (\<open>services/platform/internal/recruiting/requirements.go\<close>,
  \<open>requirements_store.go\<close>): the rule extractor, which reads a job description line by line and says of each
  requirement which bytes of the source it came from, and the store, which replaces a draft campaign's
  requirements with a fresh extraction, corrects them, and freezes them when the campaign opens.

  Text is a list of code points; \<open>utf8\<close> is its encoding, and offsets and lengths are in its bytes, as the code has
  them.  White space is \<open>unicode.IsSpace\<close> written out; which code points are letters and which are upper case are
  tables of the standard library, arguments.
\<close>

section \<open>Text\<close>

definition utf8_rune :: "rune \<Rightarrow> nat list" where
  "utf8_rune c =
     (if c < 128 then [c]
      else if c < 2048 then [192 + c div 64, 128 + c mod 64]
      else if c < 65536 then [224 + c div 4096, 128 + (c div 64) mod 64, 128 + c mod 64]
      else [240 + c div 262144, 128 + (c div 4096) mod 64, 128 + (c div 64) mod 64, 128 + c mod 64])"

definition utf8 :: "rune list \<Rightarrow> nat list" where
  "utf8 s = concat (map utf8_rune s)"

definition blen :: "rune list \<Rightarrow> nat" where
  "blen s = length (utf8 s)"

definition unicode_space :: "rune \<Rightarrow> bool" where
  "unicode_space c \<longleftrightarrow> c \<in> {9, 10, 11, 12, 13, 32, 133, 160, 5760, 8232, 8233, 8239, 8287, 12288} \<or> 8192 \<le> c \<and> c \<le> 8202"

definition trim_left :: "rune list \<Rightarrow> rune list" where
  "trim_left s = dropWhile unicode_space s"

definition trim_right :: "rune list \<Rightarrow> rune list" where
  "trim_right s = rev (dropWhile unicode_space (rev s))"

definition trim_runes :: "rune list \<Rightarrow> rune list" where
  "trim_runes s = trim_right (trim_left s)"

section \<open>Extraction\<close>

record extracted =
  ek_text :: "rune list"
  ek_start :: nat
  ek_end :: nat

record source_line =
  ln_text :: "rune list"
  ln_leading :: nat
  ln_sep :: nat

definition leadingSpaces :: "rune list \<Rightarrow> nat" where
  "leadingSpaces s = blen s - blen (trim_left s)"

definition line_of :: "rune list \<Rightarrow> nat \<Rightarrow> source_line" where
  "line_of segment sep = \<lparr>ln_text = segment, ln_leading = leadingSpaces segment, ln_sep = sep\<rparr>"

text \<open>The loop over the newlines: each turn takes one line off the text.\<close>

function splitKeepingOffsets :: "rune list \<Rightarrow> source_line list" where
  "splitKeepingOffsets s =
     (if s = [] then []
      else if 10 \<notin> set s then [line_of s 0]
      else (let segment = takeWhile (\<lambda>c. c \<noteq> 10) s in
            line_of segment 1 # splitKeepingOffsets (drop (length segment + 1) s)))"
  by pat_completeness auto

termination
  by (relation "measure length") (auto simp: length_greater_0_conv [symmetric] simp del: length_greater_0_conv)

declare splitKeepingOffsets.simps [simp del]

record unicode_tables =
  un_letter :: "rune \<Rightarrow> bool"
  un_upper :: "rune \<Rightarrow> bool"

definition isHeading :: "unicode_tables \<Rightarrow> rune list \<Rightarrow> bool" where
  "isHeading u line \<longleftrightarrow>
     suffix [58] line
     \<or> (let letters = length (filter (un_letter u) line);
            upper = length (filter (\<lambda>c. un_letter u c \<and> un_upper u c) line) in
        letters > 0 \<and> upper = letters \<and> blen line \<le> 40)"

text \<open>The cut set: dash, asterisk, bullet, middle dot, em dash, the digits, full stop, parentheses, space and tab.\<close>

definition bullet :: "rune \<Rightarrow> bool" where
  "bullet c \<longleftrightarrow> c \<in> {45, 42, 8226, 183, 8212, 46, 40, 41, 32, 9} \<or> 48 \<le> c \<and> c \<le> 57"

definition stripBullet :: "rune list \<Rightarrow> rune list" where
  "stripBullet line = trim_runes (dropWhile bullet line)"

fun extract_lines :: "unicode_tables \<Rightarrow> nat \<Rightarrow> source_line list \<Rightarrow> extracted list" where
  "extract_lines u offset [] = []"
| "extract_lines u offset (line # lines) =
     (let trimmed = trim_runes (ln_text line);
          start = offset + ln_leading line;
          stop = start + blen (trim_right (trim_left (ln_text line)));
          rest = extract_lines u (offset + blen (ln_text line) + ln_sep line) lines in
      if trimmed = [] \<or> isHeading u trimmed then rest
      else \<lparr>ek_text = stripBullet trimmed, ek_start = start, ek_end = stop\<rparr> # rest)"

definition RuleExtractorVersion :: string where
  "RuleExtractorVersion = ''requirements-rule-1''"

definition Extract :: "unicode_tables \<Rightarrow> rune list \<Rightarrow> string \<times> extracted list" where
  "Extract u source = (RuleExtractorVersion, extract_lines u 0 (splitKeepingOffsets source))"

section \<open>The store\<close>

definition sql_blank :: "rune list \<Rightarrow> bool" where
  "sql_blank s \<longleftrightarrow> list_all (\<lambda>c. c = 32) s"

definition campaign_seen :: "string \<Rightarrow> string \<Rightarrow> recruiting_db \<Rightarrow> campaign option" where
  "campaign_seen tenant i db = find (\<lambda>c. cm_tenant c = tenant \<and> cm_id c = i) (ry_campaigns db)"

definition mustBeDraft :: "string \<Rightarrow> string \<Rightarrow> recruiting_db \<Rightarrow> recruiting_error option" where
  "mustBeDraft tenant i db =
     (case campaign_seen tenant i db of
        None \<Rightarrow> Some StatementRefused
      | Some c \<Rightarrow> (if cm_status c \<noteq> StatusDraft then Some ErrRequirementsFrozen else None))"

text \<open>A column of text takes no zero and less than a gigabyte.\<close>

definition UpsertJobContext :: "job_context \<Rightarrow> recruiting_db \<Rightarrow> recruiting_error + recruiting_db" where
  "UpsertJobContext c db =
     (if sql_blank (jc_source c) \<or> 0 \<in> set (jc_source c) \<or> blen (jc_source c) \<ge> 1073741824 then Inl StatementRefused
      else if jc_campaign c \<in> jc_campaign ` set (ry_contexts db)
      then Inr (db\<lparr>ry_contexts := map (\<lambda>q. if jc_campaign q = jc_campaign c
             then q\<lparr>jc_source := jc_source c, jc_version := jc_version c, jc_submitted_at := jc_submitted_at c\<rparr> else q)
           (ry_contexts db)\<rparr>)
      else Inr (db\<lparr>ry_contexts := ry_contexts db @ [c]\<rparr>))"

text \<open>The trigger before every change of a requirement: its campaign is a draft.\<close>

definition frozen_row :: "string \<Rightarrow> string \<Rightarrow> recruiting_db \<Rightarrow> bool" where
  "frozen_row tenant i db \<longleftrightarrow> map_option cm_status (campaign_seen tenant i db) \<noteq> Some StatusDraft"

definition of_campaign :: "string \<Rightarrow> string \<Rightarrow> requirement_row \<Rightarrow> bool" where
  "of_campaign tenant i r \<longleftrightarrow> jqr_tenant r = tenant \<and> jq_campaign (jqr_requirement r) = i"

definition DeleteRequirementsForCampaign :: "string \<Rightarrow> string \<Rightarrow> recruiting_db \<Rightarrow> recruiting_error + recruiting_db" where
  "DeleteRequirementsForCampaign tenant i db =
     (if list_ex (of_campaign tenant i) (ry_requirements db) \<and> frozen_row tenant i db then Inl StatementRefused
      else Inr (db\<lparr>ry_requirements := filter (\<lambda>r. \<not> of_campaign tenant i r) (ry_requirements db)\<rparr>))"

definition InsertRequirement :: "requirement_row \<Rightarrow> recruiting_db \<Rightarrow> recruiting_error + recruiting_db" where
  "InsertRequirement r db =
     (if frozen_row (jqr_tenant r) (jq_campaign (jqr_requirement r)) db
        \<or> jq_id (jqr_requirement r) \<in> (\<lambda>q. jq_id (jqr_requirement q)) ` set (ry_requirements db)
        \<or> sql_blank (jq_text (jqr_requirement r)) \<or> jq_start (jqr_requirement r) < 0
        \<or> jq_end (jqr_requirement r) \<le> jq_start (jqr_requirement r)
      then Inl StatementRefused
      else Inr (db\<lparr>ry_requirements := ry_requirements db @ [r]\<rparr>))"

definition requirement_of :: "string \<Rightarrow> string \<Rightarrow> time \<Rightarrow> string \<Rightarrow> string \<Rightarrow> extracted \<Rightarrow> requirement_row" where
  "requirement_of tenant campaign now version i e =
     \<lparr>jqr_tenant = tenant, jqr_requirement = \<lparr>jq_id = i, jq_campaign = campaign, jq_text = ek_text e,
        jq_start = to_int32 (int (ek_start e)), jq_end = to_int32 (int (ek_end e)), jq_status = ''proposed'', jq_version = version\<rparr>,
      jqr_created_at = now\<rparr>"

fun insert_requirements :: "requirement_row list \<Rightarrow> recruiting_db \<Rightarrow> recruiting_error + recruiting_db" where
  "insert_requirements [] db = Inr db"
| "insert_requirements (r # rs) db = bindE (InsertRequirement r db) (insert_requirements rs)"

definition requirement_rows ::
  "string \<Rightarrow> string \<Rightarrow> time \<Rightarrow> (nat \<Rightarrow> string) \<Rightarrow> string \<times> extracted list \<Rightarrow> requirement_row list" where
  "requirement_rows tenant campaign now ids x =
     map (\<lambda>(n, e). requirement_of tenant campaign now (fst x) (ids n) e) (enumerate 0 (snd x))"

text \<open>\<open>ids\<close> are the identifiers drawn, in order.\<close>

definition SubmitJobContext ::
  "(rune list \<Rightarrow> string \<times> extracted list) \<Rightarrow> (nat \<Rightarrow> string) \<Rightarrow> time \<Rightarrow> string \<Rightarrow> string \<Rightarrow> rune list \<Rightarrow> recruiting_db
     \<Rightarrow> recruiting_error + requirement list \<times> recruiting_db" where
  "SubmitJobContext extractor ids now tenant campaign source db =
     as_tenant tenant
       (case mustBeDraft tenant campaign db of
          Some e \<Rightarrow> Inl e
        | None \<Rightarrow>
            bindE (UpsertJobContext \<lparr>jc_campaign = campaign, jc_tenant = tenant, jc_source = source,
                jc_version = fst (extractor source), jc_submitted_at = now\<rparr> db) (\<lambda>db1.
            bindE (DeleteRequirementsForCampaign tenant campaign db1) (\<lambda>db2.
            bindE (insert_requirements (requirement_rows tenant campaign now ids (extractor source)) db2) (\<lambda>db3.
              Inr (map jqr_requirement (requirement_rows tenant campaign now ids (extractor source)), db3)))))"

definition RequirementsForCampaign :: "string \<Rightarrow> string \<Rightarrow> recruiting_db \<Rightarrow> recruiting_error + requirement list" where
  "RequirementsForCampaign tenant campaign db =
     as_tenant tenant (Inr (map jqr_requirement
       (sort_key (\<lambda>r. (jqr_created_at r, jq_id (jqr_requirement r))) (filter (of_campaign tenant campaign) (ry_requirements db)))))"

text \<open>An empty text keeps the one there was; the span is not written.\<close>

definition corrected_row :: "rune list \<Rightarrow> string \<Rightarrow> requirement_row \<Rightarrow> requirement_row" where
  "corrected_row s status r =
     r\<lparr>jqr_requirement := (jqr_requirement r)\<lparr>jq_text := (if s = [] then jq_text (jqr_requirement r) else s), jq_status := status\<rparr>\<rparr>"

definition CorrectRequirement ::
  "string \<Rightarrow> string \<Rightarrow> string \<Rightarrow> rune list \<Rightarrow> string \<Rightarrow> recruiting_db \<Rightarrow> recruiting_error + requirement \<times> recruiting_db" where
  "CorrectRequirement tenant campaign i s status db =
     as_tenant tenant
       (case mustBeDraft tenant campaign db of
          Some e \<Rightarrow> Inl e
        | None \<Rightarrow>
            (case update_returning (\<lambda>r. of_campaign tenant campaign r \<and> jq_id (jqr_requirement r) = i) (corrected_row s status)
                (ry_requirements db) of
               None \<Rightarrow> Inl ErrRequirementNotFound
             | Some (r, rows) \<Rightarrow>
                 (if status \<notin> {''proposed'', ''corrected'', ''rejected''} \<or> sql_blank (jq_text (jqr_requirement r))
                     \<or> 0 \<in> set s \<or> frozen_row tenant campaign db
                  then Inl StatementRefused
                  else Inr (jqr_requirement r, db\<lparr>ry_requirements := rows\<rparr>))))"


section \<open>Lines and offsets\<close>

lemma utf8_append [simp]: "utf8 (a @ b) = utf8 a @ utf8 b"
  by (simp add: utf8_def)

lemma utf8_Nil [simp]: "utf8 [] = []" and blen_Nil [simp]: "blen [] = 0"
  by (simp_all add: utf8_def blen_def)

lemma utf8_newline [simp]: "utf8 [10] = [10]"
  by (simp add: utf8_def utf8_rune_def)

lemma blen_append [simp]: "blen (a @ b) = blen a + blen b"
  by (simp add: blen_def)

lemma utf8_rune_pos: "0 < length (utf8_rune c)"
  by (simp add: utf8_rune_def)

lemma blen_pos: "s \<noteq> [] \<Longrightarrow> 0 < blen s"
  using utf8_rune_pos by (cases s) (auto simp: blen_def utf8_def)

lemma trim_left_decomp: "s = takeWhile unicode_space s @ trim_left s"
  by (simp add: trim_left_def)

lemma trim_right_decomp: "s = trim_right s @ rev (takeWhile unicode_space (rev s))"
proof -
  have "rev s = takeWhile unicode_space (rev s) @ dropWhile unicode_space (rev s)" by simp
  then have "rev (rev s) = rev (dropWhile unicode_space (rev s)) @ rev (takeWhile unicode_space (rev s))"
    by (metis rev_append)
  then show ?thesis by (simp add: trim_right_def)
qed

lemma trim_runes_decomp: "s = takeWhile unicode_space s @ trim_runes s @ rev (takeWhile unicode_space (rev (trim_left s)))"
  using trim_left_decomp [of s] trim_right_decomp [of "trim_left s"] unfolding trim_runes_def by metis

lemma leadingSpaces_takeWhile: "leadingSpaces s = blen (takeWhile unicode_space s)"
proof -
  have "blen s = blen (takeWhile unicode_space s @ trim_left s)" by (simp only: trim_left_decomp [symmetric])
  then show ?thesis by (simp add: leadingSpaces_def)
qed

lemma trim_runes_ends:
  assumes "trim_runes s \<noteq> []"
  shows "\<not> unicode_space (hd (trim_runes s))" and "\<not> unicode_space (last (trim_runes s))"
proof -
  let ?r = "dropWhile unicode_space (rev (trim_left s))"
  have ne: "?r \<noteq> []" using assms by (simp add: trim_runes_def trim_right_def)
  then show "\<not> unicode_space (last (trim_runes s))"
    using hd_dropWhile [OF ne [unfolded neq_Nil_conv [symmetric]]] by (simp add: trim_runes_def trim_right_def last_rev)
  have p: "trim_left s = trim_runes s @ rev (takeWhile unicode_space (rev (trim_left s)))"
    unfolding trim_runes_def by (rule trim_right_decomp)
  then have "hd (trim_left s) = hd (trim_runes s)" using assms by (metis hd_append2)
  moreover have "trim_left s \<noteq> []" using assms by (auto simp: trim_runes_def trim_right_def)
  ultimately show "\<not> unicode_space (hd (trim_runes s))"
    using hd_dropWhile [of unicode_space s] by (simp add: trim_left_def)
qed

definition joined :: "source_line list \<Rightarrow> rune list" where
  "joined ls = concat (map (\<lambda>l. ln_text l @ replicate (ln_sep l) 10) ls)"

definition line_ok :: "source_line \<Rightarrow> bool" where
  "line_ok l \<longleftrightarrow> 10 \<notin> set (ln_text l) \<and> ln_leading l = leadingSpaces (ln_text l)"

lemma segment_decomp:
  assumes "10 \<in> set s"
  shows "s = takeWhile (\<lambda>c. c \<noteq> 10) s @ 10 # drop (length (takeWhile (\<lambda>c. c \<noteq> 10) s) + 1) s"
proof -
  let ?a = "takeWhile (\<lambda>c. c \<noteq> 10) s"
  have b: "s = ?a @ dropWhile (\<lambda>c. c \<noteq> 10) s" by simp
  moreover have "dropWhile (\<lambda>c. c \<noteq> 10) s \<noteq> []" using assms by (auto simp: dropWhile_eq_Nil_conv)
  ultimately obtain z where z: "dropWhile (\<lambda>c. c \<noteq> 10) s = 10 # z"
    by (metis (mono_tags, lifting) hd_dropWhile list.collapse)
  then have "drop (length ?a + 1) (?a @ 10 # z) = z" by simp
  with b z show ?thesis by metis
qed

lemma splitKeepingOffsets_lines:
  "joined (splitKeepingOffsets s) = s \<and> list_all line_ok (splitKeepingOffsets s)
     \<and> (\<forall>l \<in> set (butlast (splitKeepingOffsets s)). ln_sep l = 1)
     \<and> length (splitKeepingOffsets s) = length (filter (\<lambda>c. c = 10) s) + (if s = [] \<or> last s = 10 then 0 else 1)"
proof (induction s rule: splitKeepingOffsets.induct)
  case (1 s)
  let ?a = "takeWhile (\<lambda>c. c \<noteq> 10) s"
  let ?z = "drop (length ?a + 1) s"
  consider "s = []" | "s \<noteq> []" "10 \<notin> set s" | "s \<noteq> []" "10 \<in> set s" by blast
  then show ?case
  proof cases
    case 1 then show ?thesis by (simp add: splitKeepingOffsets.simps joined_def)
  next
    case 2
    then have "last s \<noteq> 10" by (metis last_in_set)
    moreover have "filter (\<lambda>c. c = 10) s = []" using 2 by (auto simp: filter_empty_conv)
    ultimately show ?thesis using 2 by (simp add: splitKeepingOffsets.simps [of s] joined_def line_of_def line_ok_def)
  next
    case 3
    from 1 [OF 3(1) _ refl] 3 have IH: "joined (splitKeepingOffsets ?z) = ?z" "list_all line_ok (splitKeepingOffsets ?z)"
      "\<forall>l \<in> set (butlast (splitKeepingOffsets ?z)). ln_sep l = 1"
      "length (splitKeepingOffsets ?z) = length (filter (\<lambda>c. c = 10) ?z) + (if ?z = [] \<or> last ?z = 10 then 0 else 1)" by auto
    have e: "splitKeepingOffsets s = line_of ?a 1 # splitKeepingOffsets ?z"
      using 3 by (simp add: splitKeepingOffsets.simps [of s] Let_def)
    have d: "s = ?a @ 10 # ?z" using 3(2) by (rule segment_decomp)
    have na: "10 \<notin> set ?a" by (auto dest: set_takeWhileD)
    have j: "joined (splitKeepingOffsets s) = ?a @ 10 # ?z"
      using IH(1) by (simp add: e joined_def line_of_def)
    have fs: "filter (\<lambda>c. c = 10) (?a @ 10 # ?z) = 10 # filter (\<lambda>c. c = 10) ?z" using na by (auto simp: filter_empty_conv)
    have l: "last (?a @ 10 # ?z) = (if ?z = [] then 10 else last ?z)" by simp
    have "length (splitKeepingOffsets s) = length (filter (\<lambda>c. c = 10) (?a @ 10 # ?z))
        + (if ?a @ 10 # ?z = [] \<or> last (?a @ 10 # ?z) = 10 then 0 else 1)"
      unfolding e fs l using IH(4) by simp
    moreover have "list_all line_ok (splitKeepingOffsets s)" using IH(2) na by (simp add: e line_of_def line_ok_def)
    moreover have "\<forall>l \<in> set (butlast (splitKeepingOffsets s)). ln_sep l = 1" using IH(3) by (simp add: e line_of_def)
    ultimately show ?thesis using j unfolding d [symmetric] by blast
  qed
qed


section \<open>Where a requirement came from\<close>

lemma extract_lines_from: "e \<in> set (extract_lines u off ls) \<Longrightarrow> off \<le> ek_start e"
proof (induction ls arbitrary: off)
  case (Cons l ls)
  then show ?case by (auto simp: Let_def split: if_splits dest: Cons.IH)
qed simp

definition stated :: "unicode_tables \<Rightarrow> source_line list \<Rightarrow> rune list list" where
  "stated u ls = filter (\<lambda>c. c \<noteq> [] \<and> \<not> isHeading u c) (map (\<lambda>l. trim_runes (ln_text l)) ls)"

lemma extract_lines_texts: "map ek_text (extract_lines u off ls) = map stripBullet (stated u ls)"
  by (induction ls arbitrary: off) (auto simp: stated_def Let_def)

text \<open>A span of the source: where it starts and ends in bytes, and what is there.\<close>

definition span_of :: "rune list \<Rightarrow> nat \<Rightarrow> nat \<Rightarrow> rune list \<Rightarrow> bool" where
  "span_of source i j c \<longleftrightarrow> (\<exists>a z. source = a @ c @ z \<and> i = blen a \<and> j = blen a + blen c)"

lemma span_of_bytes: "span_of source i j c \<Longrightarrow> take (j - i) (drop i (utf8 source)) = utf8 c \<and> j \<le> blen source"
  by (auto simp: span_of_def blen_def)

lemma line_span:
  assumes "line_ok l"
  shows "span_of (pre @ ln_text l @ z) (blen pre + ln_leading l)
    (blen pre + ln_leading l + blen (trim_right (trim_left (ln_text l)))) (trim_runes (ln_text l))"
    and "ln_leading l + blen (trim_right (trim_left (ln_text l))) \<le> blen (ln_text l)"
proof -
  let ?s = "takeWhile unicode_space (ln_text l)" and ?t = "rev (takeWhile unicode_space (rev (trim_left (ln_text l))))"
  have d: "ln_text l = ?s @ trim_runes (ln_text l) @ ?t" by (rule trim_runes_decomp)
  then have "pre @ ln_text l @ z = (pre @ ?s) @ trim_runes (ln_text l) @ (?t @ z)" by (metis append.assoc)
  then show "span_of (pre @ ln_text l @ z) (blen pre + ln_leading l)
    (blen pre + ln_leading l + blen (trim_right (trim_left (ln_text l)))) (trim_runes (ln_text l))"
    unfolding span_of_def using assms
    by (intro exI [of _ "pre @ ?s"] exI [of _ "?t @ z"]) (simp add: line_ok_def leadingSpaces_takeWhile trim_runes_def)
  have "blen (ln_text l) = blen (?s @ trim_runes (ln_text l) @ ?t)" by (simp only: d [symmetric])
  then show "ln_leading l + blen (trim_right (trim_left (ln_text l))) \<le> blen (ln_text l)"
    using assms by (simp add: line_ok_def leadingSpaces_takeWhile trim_runes_def)
qed

lemma extract_lines_spans:
  assumes "list_all line_ok ls" and "e \<in> set (extract_lines u (blen pre) ls)"
  shows "\<exists>c \<in> set (stated u ls). span_of (pre @ joined ls) (ek_start e) (ek_end e) c \<and> ek_text e = stripBullet c"
  using assms
proof (induction ls arbitrary: pre)
  case (Cons l ls)
  have j: "pre @ joined (l # ls) = (pre @ ln_text l @ replicate (ln_sep l) 10) @ joined ls" by (simp add: joined_def)
  have b: "blen (pre @ ln_text l @ replicate (ln_sep l) 10) = blen pre + blen (ln_text l) + ln_sep l"
  proof -
    have "blen (replicate n 10) = n" for n by (induction n) (simp_all add: blen_def utf8_def utf8_rune_def)
    then show ?thesis by simp
  qed
  consider "e \<in> set (extract_lines u (blen pre + blen (ln_text l) + ln_sep l) ls)"
    | "trim_runes (ln_text l) \<noteq> []" "\<not> isHeading u (trim_runes (ln_text l))"
      "e = \<lparr>ek_text = stripBullet (trim_runes (ln_text l)), ek_start = blen pre + ln_leading l,
            ek_end = blen pre + ln_leading l + blen (trim_right (trim_left (ln_text l)))\<rparr>"
    using Cons.prems(2) by (auto simp: Let_def split: if_splits)
  then show ?case
  proof cases
    case 1
    then have "e \<in> set (extract_lines u (blen (pre @ ln_text l @ replicate (ln_sep l) 10)) ls)" by (simp only: b)
    from Cons.IH [OF _ this] Cons.prems(1) obtain c where "c \<in> set (stated u ls)"
      "span_of ((pre @ ln_text l @ replicate (ln_sep l) 10) @ joined ls) (ek_start e) (ek_end e) c" "ek_text e = stripBullet c"
      by auto
    then show ?thesis unfolding j by (intro bexI [of _ c]) (auto simp: stated_def)
  next
    case 2
    from line_span(1) [of l pre "replicate (ln_sep l) 10 @ joined ls"] Cons.prems(1)
    have "span_of (pre @ joined (l # ls)) (ek_start e) (ek_end e) (trim_runes (ln_text l))"
      by (simp add: 2(3) joined_def)
    with 2 show ?thesis by (intro bexI [of _ "trim_runes (ln_text l)"]) (auto simp: stated_def)
  qed
qed simp

lemma extract_lines_apart:
  assumes "list_all line_ok ls" and "\<forall>l \<in> set (butlast ls). ln_sep l = 1"
  shows "sorted_wrt (\<lambda>e f. ek_end e < ek_start f) (extract_lines u off ls)"
  using assms
proof (induction ls arbitrary: off)
  case (Cons l ls)
  have IH: "sorted_wrt (\<lambda>e f. ek_end e < ek_start f) (extract_lines u (off + blen (ln_text l) + ln_sep l) ls)"
    using Cons.prems by (intro Cons.IH) (auto split: if_splits)
  have "off + ln_leading l + blen (trim_right (trim_left (ln_text l))) < ek_start f"
    if "f \<in> set (extract_lines u (off + blen (ln_text l) + ln_sep l) ls)" for f
  proof -
    have "ls \<noteq> []" using that by auto
    then have "ln_sep l = 1" using Cons.prems(2) by simp
    with extract_lines_from [OF that] line_span(2) [of l] Cons.prems(1) show ?thesis by simp
  qed
  with IH show ?case by (simp add: Let_def)
qed simp

text \<open>C26: Splitting the source into lines ends, after one turn to a line.  Every turn of the loop takes a line and its newline off
  the text that is left, so it stops after as many turns as there are newlines, and one more for what follows the last;
  put back together, with their separators, the lines are the source exactly.\<close>

theorem splitting_ends:
  "length (splitKeepingOffsets s) = length (filter (\<lambda>c. c = 10) s) + (if s = [] \<or> last s = 10 then 0 else 1)
    \<and> (\<forall>l \<in> set (splitKeepingOffsets s). 10 \<notin> set (ln_text l) \<and> ln_leading l = leadingSpaces (ln_text l))
    \<and> concat (map (\<lambda>l. ln_text l @ replicate (ln_sep l) 10) (splitKeepingOffsets s)) = s"
  using splitKeepingOffsets_lines [of s] by (auto simp: joined_def line_ok_def list_all_iff)

theorem splitting_ends_witness:
  "length (splitKeepingOffsets [71, 111, 10, 10, 83, 113, 108]) = 3
    \<and> list_all (\<lambda>l. 10 \<notin> set (ln_text l)) (splitKeepingOffsets [71, 111, 10, 10, 83, 113, 108])"
  using splitting_ends [of "[71, 111, 10, 10, 83, 113, 108]"] by (auto simp: list_all_iff)

text \<open>C25: A requirement can say exactly where it came from.  What extraction proposes are, in order, the lines of the source that
  are neither blank nor a heading, less their bullets; each span is not empty, lies within the source, and the bytes of
  the source it names are the encoding of that whole line without the white space around it, bullet included; no two
  spans touch.\<close>

theorem spans_index_the_source:
  assumes "Extract u source = (version, es)"
  shows "version = RuleExtractorVersion
    \<and> map ek_text es = map stripBullet (stated u (splitKeepingOffsets source))
    \<and> sorted_wrt (\<lambda>e f. ek_end e < ek_start f) es
    \<and> (\<forall>e \<in> set es. ek_start e < ek_end e \<and> ek_end e \<le> length (utf8 source)
         \<and> (\<exists>c \<in> set (stated u (splitKeepingOffsets source)).
              take (ek_end e - ek_start e) (drop (ek_start e) (utf8 source)) = utf8 c \<and> ek_text e = stripBullet c
              \<and> \<not> unicode_space (hd c) \<and> \<not> unicode_space (last c)))"
proof -
  let ?ls = "splitKeepingOffsets source"
  from splitKeepingOffsets_lines [of source] have ok: "joined ?ls = source" "list_all line_ok ?ls"
    "\<forall>l \<in> set (butlast ?ls). ln_sep l = 1" by blast+
  from assms have es: "es = extract_lines u 0 ?ls" "version = RuleExtractorVersion" by (auto simp: Extract_def)
  have "ek_start e < ek_end e \<and> ek_end e \<le> length (utf8 source)
         \<and> (\<exists>c \<in> set (stated u ?ls). take (ek_end e - ek_start e) (drop (ek_start e) (utf8 source)) = utf8 c
              \<and> ek_text e = stripBullet c \<and> \<not> unicode_space (hd c) \<and> \<not> unicode_space (last c))"
    if "e \<in> set es" for e
  proof -
    from extract_lines_spans [OF ok(2), of e u "[]"] that es ok(1) obtain c where
      c: "c \<in> set (stated u ?ls)" "span_of source (ek_start e) (ek_end e) c" "ek_text e = stripBullet c" by auto
    from c(1) have "\<exists>l :: source_line. c = trim_runes (ln_text l) \<and> c \<noteq> []" by (auto simp: stated_def)
    then obtain l :: source_line where l: "c = trim_runes (ln_text l)" "c \<noteq> []" by blast
    have "ek_start e < ek_end e" using c(2) blen_pos [OF l(2)] by (auto simp: span_of_def)
    with span_of_bytes [OF c(2)] c(1,3) trim_runes_ends [of "ln_text l"] l show ?thesis
      by (auto simp: blen_def)
  qed
  with es extract_lines_texts [of u 0 ?ls] extract_lines_apart [OF ok(2,3)] show ?thesis by auto
qed

definition ascii_tables :: unicode_tables where
  "ascii_tables = \<lparr>un_letter = (\<lambda>c. 65 \<le> c \<and> c \<le> 90 \<or> 97 \<le> c \<and> c \<le> 122), un_upper = (\<lambda>c. 65 \<le> c \<and> c \<le> 90)\<rparr>"


lemmas text_evaluation = splitKeepingOffsets.simps line_of_def leadingSpaces_def trim_left_def trim_right_def trim_runes_def
  unicode_space_def blen_def utf8_def utf8_rune_def isHeading_def ascii_tables_def stripBullet_def bullet_def Let_def suffix_def

text \<open>\<open>MUST HAVE\<close>, then a bullet (a code point of three bytes) and \<open> Go\<close>, then \<open>5 years\<close>.\<close>

definition ex_source :: "rune list" where
  "ex_source = [77, 85, 83, 84, 32, 72, 65, 86, 69, 10, 8226, 32, 71, 111, 10, 53, 32, 121, 101, 97, 114, 115]"

theorem spans_index_the_source_witness:
  "Extract ascii_tables ex_source = (RuleExtractorVersion,
     [\<lparr>ek_text = [71, 111], ek_start = 10, ek_end = 16\<rparr>, \<lparr>ek_text = [121, 101, 97, 114, 115], ek_start = 17, ek_end = 24\<rparr>])
   \<and> (\<exists>c \<in> set (stated ascii_tables (splitKeepingOffsets ex_source)). take 6 (drop 10 (utf8 ex_source)) = utf8 c)"
proof -
  have e: "Extract ascii_tables ex_source = (RuleExtractorVersion,
     [\<lparr>ek_text = [71, 111], ek_start = 10, ek_end = 16\<rparr>, \<lparr>ek_text = [121, 101, 97, 114, 115], ek_start = 17, ek_end = 24\<rparr>])"
    by (simp add: Extract_def ex_source_def text_evaluation RuleExtractorVersion_def)
  from spans_index_the_source [OF e] have "\<exists>c \<in> set (stated ascii_tables (splitKeepingOffsets ex_source)).
      take (16 - 10) (drop 10 (utf8 ex_source)) = utf8 c" by auto
  with e show ?thesis by simp
qed


text \<open>The number a requirement states is taken for its bullet; a line of dashes states a requirement with no text.\<close>

lemma stated_quantity_is_stripped:
  "stripBullet [53, 32, 121, 101, 97, 114, 115] = [121, 101, 97, 114, 115]"
  by (simp add: text_evaluation)

lemma rule_line_is_a_requirement:
  "snd (Extract ascii_tables [45, 45, 45]) = [\<lparr>ek_text = [], ek_start = 0, ek_end = 3\<rparr>]"
  by (simp add: Extract_def text_evaluation RuleExtractorVersion_def)

section \<open>Steps and what they keep\<close>

inductive job_step :: "unicode_tables \<Rightarrow> recruiting_db \<Rightarrow> recruiting_db \<Rightarrow> bool" for u where
  drafted: "CreateDraft i now c db = Inr (c', db') \<Longrightarrow> job_step u db db'"
| submitted: "SubmitJobContext (Extract u) ids now tenant campaign source db = Inr (rs, db') \<Longrightarrow> job_step u db db'"
| corrected: "CorrectRequirement tenant campaign i s status db = Inr (r, db') \<Longrightarrow> job_step u db db'"
| opened: "store_Open fresh now c og db = Inr (c', db') \<Longrightarrow> job_step u db db'"

definition sourced :: "unicode_tables \<Rightarrow> job_context list \<Rightarrow> requirement_row \<Rightarrow> bool" where
  "sourced u contexts r \<longleftrightarrow>
     (\<exists>c \<in> set contexts. jc_campaign c = jq_campaign (jqr_requirement r) \<and> jc_tenant c = jqr_tenant r
        \<and> (\<exists>e \<in> set (snd (Extract u (jc_source c))). jq_start (jqr_requirement r) = int (ek_start e)
             \<and> jq_end (jqr_requirement r) = int (ek_end e)))"

text \<open>Campaigns by one tenant each, one context to a campaign, and every requirement read from it.\<close>

definition jobs_ok :: "unicode_tables \<Rightarrow> recruiting_db \<Rightarrow> bool" where
  "jobs_ok u db \<longleftrightarrow> distinct (map cm_id (ry_campaigns db)) \<and> distinct (map jc_campaign (ry_contexts db))
     \<and> (\<forall>c \<in> set (ry_contexts db). \<exists>m \<in> set (ry_campaigns db). cm_id m = jc_campaign c \<and> cm_tenant m = jc_tenant c)
     \<and> list_all (sourced u (ry_contexts db)) (ry_requirements db)"

text \<open>What a campaign that is past its draft has, and what stays of it.\<close>

definition fixed_parts :: "campaign \<Rightarrow> recruiting_db \<Rightarrow> requirement_row list \<times> job_context list" where
  "fixed_parts c db =
     (filter (of_campaign (cm_tenant c) (cm_id c)) (ry_requirements db), filter (\<lambda>q. jc_campaign q = cm_id c) (ry_contexts db))"

definition frozen_kept :: "recruiting_db \<Rightarrow> recruiting_db \<Rightarrow> bool" where
  "frozen_kept db db' \<longleftrightarrow> (\<forall>c \<in> set (ry_campaigns db). cm_status c \<noteq> StatusDraft \<longrightarrow>
     c \<in> set (ry_campaigns db') \<and> fixed_parts c db' = fixed_parts c db)"

lemma mustBeDraft_None:
  assumes "mustBeDraft tenant i db = None"
  shows "\<exists>c \<in> set (ry_campaigns db). cm_tenant c = tenant \<and> cm_id c = i \<and> cm_status c = StatusDraft"
  using assms by (auto simp: mustBeDraft_def campaign_seen_def split: option.splits if_splits dest!: find_SomeD)

lemma insert_requirements_Inr:
  "insert_requirements rs db = Inr db' \<Longrightarrow>
     db' = db\<lparr>ry_requirements := ry_requirements db @ rs\<rparr> \<and> (\<forall>r \<in> set rs. \<not> sql_blank (jq_text (jqr_requirement r)))"
proof (induction rs arbitrary: db)
  case (Cons r rs)
  from Cons.prems have r: "\<not> sql_blank (jq_text (jqr_requirement r))"
    "insert_requirements rs (db\<lparr>ry_requirements := ry_requirements db @ [r]\<rparr>) = Inr db'"
    by (auto simp: bindE_Inr InsertRequirement_def split: if_splits)
  from Cons.IH [OF r(2)] r(1) show ?case by simp
qed simp

lemma UpsertJobContext_Inr:
  assumes "UpsertJobContext c db = Inr db'"
  shows "\<exists>contexts. db' = db\<lparr>ry_contexts := contexts\<rparr> \<and> blen (jc_source c) < 1073741824
    \<and> contexts = (if jc_campaign c \<in> jc_campaign ` set (ry_contexts db)
        then map (\<lambda>q. if jc_campaign q = jc_campaign c
             then q\<lparr>jc_source := jc_source c, jc_version := jc_version c, jc_submitted_at := jc_submitted_at c\<rparr> else q) (ry_contexts db)
        else ry_contexts db @ [c])"
  using assms by (auto simp: UpsertJobContext_def split: if_splits)

lemma SubmitJobContext_Inr:
  assumes "SubmitJobContext extractor ids now tenant campaign source db = Inr (rs, db')"
  shows "mustBeDraft tenant campaign db = None \<and> TrimSpace tenant \<noteq> '''' \<and> blen source < 1073741824
    \<and> (\<exists>contexts. UpsertJobContext \<lparr>jc_campaign = campaign, jc_tenant = tenant, jc_source = source,
            jc_version = fst (extractor source), jc_submitted_at = now\<rparr> db = Inr (db\<lparr>ry_contexts := contexts\<rparr>)
        \<and> db' = db\<lparr>ry_contexts := contexts,
             ry_requirements := filter (\<lambda>r. \<not> of_campaign tenant campaign r) (ry_requirements db)
               @ requirement_rows tenant campaign now ids (extractor source)\<rparr>)
    \<and> (\<forall>e \<in> set (snd (extractor source)). \<not> sql_blank (ek_text e))"
proof -
  let ?c = "\<lparr>jc_campaign = campaign, jc_tenant = tenant, jc_source = source, jc_version = fst (extractor source), jc_submitted_at = now\<rparr>"
  from assms obtain db1 db2 where m: "mustBeDraft tenant campaign db = None" "TrimSpace tenant \<noteq> ''''"
    and u: "UpsertJobContext ?c db = Inr db1" and d: "DeleteRequirementsForCampaign tenant campaign db1 = Inr db2"
    and i: "insert_requirements (requirement_rows tenant campaign now ids (extractor source)) db2 = Inr db'"
    by (auto simp: SubmitJobContext_def as_tenant_Inr bindE_Inr split: option.splits)
  have "\<exists>contexts. db1 = db\<lparr>ry_contexts := contexts\<rparr> \<and> blen source < 1073741824"
    using UpsertJobContext_Inr [OF u] by (elim exE conjE) (intro exI conjI, assumption, simp)
  then obtain contexts where c: "db1 = db\<lparr>ry_contexts := contexts\<rparr>" "blen source < 1073741824" by (elim exE conjE)
  from d have d2: "db2 = db1\<lparr>ry_requirements := filter (\<lambda>r. \<not> of_campaign tenant campaign r) (ry_requirements db1)\<rparr>"
    by (auto simp: DeleteRequirementsForCampaign_def split: if_splits)
  have "\<not> sql_blank (ek_text e)" if "e \<in> set (snd (extractor source))" for e
  proof -
    from that obtain n where n: "n < length (snd (extractor source))" "snd (extractor source) ! n = e" by (auto simp: in_set_conv_nth)
    have "requirement_of tenant campaign now (fst (extractor source)) (ids n) e
        \<in> set (requirement_rows tenant campaign now ids (extractor source))"
      unfolding requirement_rows_def set_map using n by (intro image_eqI [of _ _ "(n, e)"]) (auto simp: in_set_enumerate_eq)
    with insert_requirements_Inr [OF i] show ?thesis by (force simp: requirement_of_def)
  qed
  with insert_requirements_Inr [OF i] m u c d2 show ?thesis by (intro conjI exI [of _ contexts]) auto
qed


lemma campaigns_only:
  assumes "jobs_ok u db" and "distinct (map cm_id (ry_campaigns db'))"
    and "(\<lambda>m. (cm_id m, cm_tenant m)) ` set (ry_campaigns db) \<subseteq> (\<lambda>m. (cm_id m, cm_tenant m)) ` set (ry_campaigns db')"
    and "\<And>c. c \<in> set (ry_campaigns db) \<Longrightarrow> cm_status c \<noteq> StatusDraft \<Longrightarrow> c \<in> set (ry_campaigns db')"
    and "ry_contexts db' = ry_contexts db" and "ry_requirements db' = ry_requirements db"
  shows "jobs_ok u db' \<and> frozen_kept db db'"
proof -
  have "\<exists>m \<in> set (ry_campaigns db'). cm_id m = jc_campaign c \<and> cm_tenant m = jc_tenant c" if "c \<in> set (ry_contexts db)" for c
  proof -
    from that assms(1) obtain m where m: "m \<in> set (ry_campaigns db)" "cm_id m = jc_campaign c" "cm_tenant m = jc_tenant c"
      by (auto simp: jobs_ok_def)
    with assms(3) have "(cm_id m, cm_tenant m) \<in> (\<lambda>m. (cm_id m, cm_tenant m)) ` set (ry_campaigns db')" by blast
    with m(2,3) show ?thesis by auto
  qed
  with assms show ?thesis by (auto simp: jobs_ok_def frozen_kept_def fixed_parts_def)
qed

lemma CreateDraft_Inr:
  assumes "CreateDraft i now c db = Inr (c', db')"
  shows "c' = draft_campaign i now c \<and> i \<notin> cm_id ` set (ry_campaigns db) \<and> ry_campaigns db' = ry_campaigns db @ [c']
    \<and> ry_contexts db' = ry_contexts db \<and> ry_requirements db' = ry_requirements db"
  using assms
  by (auto simp: CreateDraft_def as_tenant_Inr bindE_Inr CreateCampaign_def GrantCampaignAccess_def draft_campaign_def split: if_splits)

lemma store_Open_Inr:
  assumes "store_Open fresh now c og db = Inr (c', db')"
  shows "ry_contexts db' = ry_contexts db \<and> ry_requirements db' = ry_requirements db
    \<and> (\<exists>d. ry_campaigns db' = map (\<lambda>m. if cm_tenant m = cm_tenant c \<and> cm_id m = cm_id c \<and> cm_status m = StatusDraft
          then Campaigns.opened d now m else m) (ry_campaigns db))"
  using assms
  by (auto simp: store_Open_def as_tenant_Inr bindE_Inr dest!: pin_all_Inr OpenCampaign_Inr)

lemma draft_is_the_only:
  assumes "jobs_ok u db" and "mustBeDraft tenant i db = None" and "c \<in> set (ry_campaigns db)" and "cm_id c = i"
  shows "cm_tenant c = tenant \<and> cm_status c = StatusDraft"
proof -
  from mustBeDraft_None [OF assms(2)] obtain m where m: "m \<in> set (ry_campaigns db)" "cm_tenant m = tenant" "cm_id m = i"
    "cm_status m = StatusDraft" by blast
  with assms(1,3,4) have "m = c" by (auto simp: jobs_ok_def distinct_map inj_on_def)
  with m show ?thesis by blast
qed

lemma fixed_other:
  assumes "cm_id c \<noteq> i"
    and "filter (\<lambda>r. jq_campaign (jqr_requirement r) \<noteq> i) (ry_requirements db') = filter (\<lambda>r. jq_campaign (jqr_requirement r) \<noteq> i) (ry_requirements db)"
    and "filter (\<lambda>q. jc_campaign q \<noteq> i) (ry_contexts db') = filter (\<lambda>q. jc_campaign q \<noteq> i) (ry_contexts db)"
  shows "fixed_parts c db' = fixed_parts c db"
proof -
  have r: "filter (of_campaign (cm_tenant c) (cm_id c)) xs = filter (of_campaign (cm_tenant c) (cm_id c))
      (filter (\<lambda>r. jq_campaign (jqr_requirement r) \<noteq> i) xs)" for xs
    using assms(1) by (auto simp: of_campaign_def intro!: filter_cong)
  have q: "filter (\<lambda>q. jc_campaign q = cm_id c) xs = filter (\<lambda>q. jc_campaign q = cm_id c) (filter (\<lambda>q. jc_campaign q \<noteq> i) xs)"
    for xs :: "job_context list"
    using assms(1) by (auto intro!: filter_cong)
  show ?thesis unfolding fixed_parts_def
    using assms(2,3) r [of "ry_requirements db"] r [of "ry_requirements db'"] q [of "ry_contexts db"] q [of "ry_contexts db'"] by metis
qed

lemma frozen_kept_draft:
  assumes "jobs_ok u db" and "mustBeDraft tenant i db = None" and "ry_campaigns db' = ry_campaigns db"
    and "filter (\<lambda>r. jq_campaign (jqr_requirement r) \<noteq> i) (ry_requirements db') = filter (\<lambda>r. jq_campaign (jqr_requirement r) \<noteq> i) (ry_requirements db)"
    and "filter (\<lambda>q. jc_campaign q \<noteq> i) (ry_contexts db') = filter (\<lambda>q. jc_campaign q \<noteq> i) (ry_contexts db)"
  shows "frozen_kept db db'"
  unfolding frozen_kept_def
proof (intro ballI impI conjI)
  fix c assume c: "c \<in> set (ry_campaigns db)" "cm_status c \<noteq> StatusDraft"
  then show "c \<in> set (ry_campaigns db')" using assms(3) by simp
  from c draft_is_the_only [OF assms(1,2)] have "cm_id c \<noteq> i" by blast
  from fixed_other [OF this assms(4,5)] show "fixed_parts c db' = fixed_parts c db" .
qed

lemma requirement_rows_at: "r \<in> set (requirement_rows tenant campaign now ids x) \<Longrightarrow>
    \<exists>e \<in> set (snd x). \<exists>i. r = requirement_of tenant campaign now (fst x) i e"
  by (auto simp: requirement_rows_def in_set_enumerate_eq)

lemma extracted_span_int32:
  assumes "e \<in> set (snd (Extract u source))" and "blen source < 1073741824"
  shows "to_int32 (int (ek_start e)) = int (ek_start e) \<and> to_int32 (int (ek_end e)) = int (ek_end e)"
proof -
  from splitKeepingOffsets_lines [of source] have ok: "joined (splitKeepingOffsets source) = source" "list_all line_ok (splitKeepingOffsets source)"
    by blast+
  from assms(1) extract_lines_spans [OF ok(2), of e u "[]"] ok(1) obtain c where "span_of source (ek_start e) (ek_end e) c"
    by (auto simp: Extract_def)
  with assms(2) have "ek_start e < 1073741824" "ek_end e < 1073741824" by (auto simp: span_of_def)
  then show ?thesis by (intro conjI to_int32_id) simp_all
qed


definition upserted :: "job_context \<Rightarrow> job_context list \<Rightarrow> job_context list" where
  "upserted c cs = (if jc_campaign c \<in> jc_campaign ` set cs
        then map (\<lambda>q. if jc_campaign q = jc_campaign c
             then q\<lparr>jc_source := jc_source c, jc_version := jc_version c, jc_submitted_at := jc_submitted_at c\<rparr> else q) cs
        else cs @ [c])"

lemma upserted_others: "filter (\<lambda>q. jc_campaign q \<noteq> jc_campaign c) (upserted c cs) = filter (\<lambda>q. jc_campaign q \<noteq> jc_campaign c) cs"
proof -
  have "filter (\<lambda>q. jc_campaign q \<noteq> k) (map (\<lambda>q. if jc_campaign q = k then q\<lparr>jc_source := a, jc_version := b, jc_submitted_at := d\<rparr> else q) cs)
      = filter (\<lambda>q. jc_campaign q \<noteq> k) cs" for k a b d
    by (induction cs) auto
  then show ?thesis by (simp add: upserted_def)
qed


lemma upserted_distinct:
  assumes "distinct (map jc_campaign cs)" shows "distinct (map jc_campaign (upserted c cs))"
proof (cases "jc_campaign c \<in> jc_campaign ` set cs")
  case True
  then have "map jc_campaign (upserted c cs) = map jc_campaign cs" by (simp add: upserted_def)
  with assms show ?thesis by simp
next
  case False
  with assms show ?thesis by (simp add: upserted_def)
qed

lemma upserted_members:
  assumes "q \<in> set (upserted c cs)"
  shows "q \<in> set cs \<and> jc_campaign q \<noteq> jc_campaign c \<or> q = c
    \<or> (\<exists>p \<in> set cs. jc_campaign p = jc_campaign c \<and> jc_campaign q = jc_campaign c \<and> jc_tenant q = jc_tenant p)"
  using assms by (auto simp: upserted_def split: if_splits)

lemma upserted_has:
  assumes "\<And>p. p \<in> set cs \<Longrightarrow> jc_campaign p = jc_campaign c \<Longrightarrow> jc_tenant p = jc_tenant c"
  shows "\<exists>q \<in> set (upserted c cs). jc_campaign q = jc_campaign c \<and> jc_tenant q = jc_tenant c \<and> jc_source q = jc_source c"
proof (cases "jc_campaign c \<in> jc_campaign ` set cs")
  case True
  then obtain p where p: "p \<in> set cs" "jc_campaign p = jc_campaign c" by auto
  let ?q = "p\<lparr>jc_source := jc_source c, jc_version := jc_version c, jc_submitted_at := jc_submitted_at c\<rparr>"
  have "?q \<in> set (upserted c cs)" using True p by (auto simp: upserted_def intro!: image_eqI [of _ _ p])
  with p assms show ?thesis by (intro bexI [of _ ?q]) auto
next
  case False
  then show ?thesis by (intro bexI [of _ c]) (auto simp: upserted_def)
qed

lemma submitted_keeps:
  assumes s: "SubmitJobContext (Extract u) ids now tenant campaign source db = Inr (rs, db')" and ok: "jobs_ok u db"
  shows "jobs_ok u db' \<and> frozen_kept db db'"
proof -
  let ?c = "\<lparr>jc_campaign = campaign, jc_tenant = tenant, jc_source = source, jc_version = fst (Extract u source), jc_submitted_at = now\<rparr>"
  let ?rows = "requirement_rows tenant campaign now ids (Extract u source)"
  have m: "mustBeDraft tenant campaign db = None" and b: "blen source < 1073741824"
    and db': "db' = db\<lparr>ry_contexts := upserted ?c (ry_contexts db),
             ry_requirements := filter (\<lambda>r. \<not> of_campaign tenant campaign r) (ry_requirements db) @ ?rows\<rparr>"
    using SubmitJobContext_Inr [OF s] by (auto simp: UpsertJobContext_def upserted_def split: if_splits)
  have tenants: "jc_tenant p = tenant" if "p \<in> set (ry_contexts db)" "jc_campaign p = campaign" for p
  proof -
    from ok that obtain m where "m \<in> set (ry_campaigns db)" "cm_id m = campaign" "cm_tenant m = jc_tenant p"
      by (auto simp: jobs_ok_def)
    with draft_is_the_only [OF ok m, of m] show ?thesis by simp
  qed
  have mine: "of_campaign tenant campaign r" if "r \<in> set (ry_requirements db)" "jq_campaign (jqr_requirement r) = campaign" for r
  proof -
    from ok that(1) have "sourced u (ry_contexts db) r" by (simp add: jobs_ok_def list_all_iff)
    with that(2) tenants show ?thesis by (auto simp: sourced_def of_campaign_def)
  qed
  have others: "filter (\<lambda>r. jq_campaign (jqr_requirement r) \<noteq> campaign) (ry_requirements db')
      = filter (\<lambda>r. jq_campaign (jqr_requirement r) \<noteq> campaign) (ry_requirements db)"
  proof -
    have "filter (\<lambda>r. jq_campaign (jqr_requirement r) \<noteq> campaign) ?rows = []"
      by (auto simp: filter_empty_conv requirement_of_def dest!: requirement_rows_at)
    then show ?thesis using mine by (auto simp: db' of_campaign_def intro!: filter_cong)
  qed
  have frozen: "frozen_kept db db'"
    using frozen_kept_draft [OF ok m _ others] upserted_others [of ?c "ry_contexts db"] by (simp add: db')
  have contexts: "\<exists>m \<in> set (ry_campaigns db). cm_id m = jc_campaign q \<and> cm_tenant m = jc_tenant q"
    if "q \<in> set (upserted ?c (ry_contexts db))" for q
    using upserted_members [OF that] ok mustBeDraft_None [OF m] tenants by (fastforce simp: jobs_ok_def)
  have "sourced u (ry_contexts db') r" if "r \<in> set (ry_requirements db')" for r
  proof (cases "r \<in> set ?rows")
    case True
    then obtain e i where e: "e \<in> set (snd (Extract u source))" "r = requirement_of tenant campaign now (fst (Extract u source)) i e"
      by (blast dest: requirement_rows_at)
    from upserted_has [of "ry_contexts db" ?c] tenants obtain q where q: "q \<in> set (ry_contexts db')" "jc_campaign q = campaign"
      "jc_tenant q = tenant" "jc_source q = source" by (auto simp: db')
    with e extracted_span_int32 [OF e(1) b] show ?thesis
      unfolding sourced_def by (intro bexI [of _ q] conjI bexI [of _ e]) (simp_all add: requirement_of_def)
  next
    case False
    with that have r: "r \<in> set (ry_requirements db)" "\<not> of_campaign tenant campaign r" by (auto simp: db')
    with mine have ne: "jq_campaign (jqr_requirement r) \<noteq> campaign" by blast
    from ok r(1) have "sourced u (ry_contexts db) r" by (simp add: jobs_ok_def list_all_iff)
    then obtain q where q: "q \<in> set (ry_contexts db)" "jc_campaign q = jq_campaign (jqr_requirement r)" "jc_tenant q = jqr_tenant r"
      "\<exists>e \<in> set (snd (Extract u (jc_source q))). jq_start (jqr_requirement r) = int (ek_start e) \<and> jq_end (jqr_requirement r) = int (ek_end e)"
      by (auto simp: sourced_def)
    have "q \<in> set (filter (\<lambda>q. jc_campaign q \<noteq> jc_campaign ?c) (upserted ?c (ry_contexts db)))"
      using q(1,2) ne by (simp only: upserted_others) simp
    then have "q \<in> set (ry_contexts db')" by (simp add: db')
    with q(2-4) show ?thesis unfolding sourced_def by blast
  qed
  moreover have "distinct (map jc_campaign (ry_contexts db'))" using ok by (simp add: db' upserted_distinct jobs_ok_def)
  ultimately have "jobs_ok u db'" using ok contexts unfolding jobs_ok_def by (simp add: db' list_all_iff)
  with frozen show ?thesis by blast
qed

lemma CorrectRequirement_Inr:
  assumes "CorrectRequirement tenant campaign i s status db = Inr (r, db')"
  shows "mustBeDraft tenant campaign db = None
    \<and> db' = db\<lparr>ry_requirements := map (\<lambda>q. if of_campaign tenant campaign q \<and> jq_id (jqr_requirement q) = i
         then corrected_row s status q else q) (ry_requirements db)\<rparr>"
  using assms
  by (auto simp: CorrectRequirement_def as_tenant_Inr split: option.splits if_splits prod.splits dest!: update_returning_Some)

lemma corrected_keeps:
  assumes c: "CorrectRequirement tenant campaign i s status db = Inr (r, db')" and ok: "jobs_ok u db"
  shows "jobs_ok u db' \<and> frozen_kept db db'"
proof -
  from CorrectRequirement_Inr [OF c] have m: "mustBeDraft tenant campaign db = None"
    and db': "db' = db\<lparr>ry_requirements := map (\<lambda>q. if of_campaign tenant campaign q \<and> jq_id (jqr_requirement q) = i
         then corrected_row s status q else q) (ry_requirements db)\<rparr>" by blast+
  have "filter (\<lambda>r. jq_campaign (jqr_requirement r) \<noteq> campaign)
        (map (\<lambda>q. if of_campaign tenant campaign q \<and> jq_id (jqr_requirement q) = i then corrected_row s status q else q) xs)
      = filter (\<lambda>r. jq_campaign (jqr_requirement r) \<noteq> campaign) xs" for xs
    by (induction xs) (auto simp: of_campaign_def corrected_row_def)
  then have "frozen_kept db db'" by (intro frozen_kept_draft [OF ok m]) (simp_all add: db')
  moreover have "sourced u cs (corrected_row s status q)" if "sourced u cs q" for cs q
    using that by (simp add: sourced_def corrected_row_def)
  then have "jobs_ok u db'" using ok by (auto simp: jobs_ok_def db' list_all_iff)
  ultimately show ?thesis by blast
qed

lemma job_step_keeps:
  assumes "job_step u db db'" and "jobs_ok u db"
  shows "jobs_ok u db' \<and> frozen_kept db db'"
  using assms
proof (cases rule: job_step.cases)
  case (drafted i now c c')
  from CreateDraft_Inr [OF drafted] assms(2) show ?thesis
    by (intro campaigns_only) (auto simp: draft_campaign_def jobs_ok_def)
next
  case (submitted ids now tenant campaign source rs)
  from submitted_keeps [OF submitted assms(2)] show ?thesis .
next
  case (corrected tenant campaign i s status r)
  from corrected_keeps [OF corrected assms(2)] show ?thesis .
next
  case (opened fresh now c og c')
  from store_Open_Inr [OF opened] obtain d where o': "ry_contexts db' = ry_contexts db" "ry_requirements db' = ry_requirements db"
    and cs: "ry_campaigns db' = map (\<lambda>m. if cm_tenant m = cm_tenant c \<and> cm_id m = cm_id c \<and> cm_status m = StatusDraft
          then Campaigns.opened d now m else m) (ry_campaigns db)" by blast
  have "map cm_id (ry_campaigns db') = map cm_id (ry_campaigns db)" by (auto simp: cs Campaigns.opened_def)
  moreover have "(\<lambda>m. (cm_id m, cm_tenant m)) ` set (ry_campaigns db') = (\<lambda>m. (cm_id m, cm_tenant m)) ` set (ry_campaigns db)"
    unfolding cs set_map image_image by (intro image_cong) (auto simp: Campaigns.opened_def)
  moreover have "distinct (map cm_id (ry_campaigns db))" using assms(2) by (simp add: jobs_ok_def)
  moreover have "m \<in> set (ry_campaigns db')" if "m \<in> set (ry_campaigns db)" "cm_status m \<noteq> StatusDraft" for m
    using that unfolding cs set_map by (intro image_eqI [of _ _ m]) auto
  ultimately show ?thesis using o' by (intro campaigns_only [OF assms(2)]) auto
qed


lemma frozen_kept_trans: "frozen_kept a b \<Longrightarrow> frozen_kept b c \<Longrightarrow> frozen_kept a c"
  unfolding frozen_kept_def by metis

lemma jobs_reach:
  assumes "(job_step u)\<^sup>*\<^sup>* db db'" and "jobs_ok u db"
  shows "jobs_ok u db' \<and> frozen_kept db db'"
  using assms
proof (induction rule: rtranclp_induct)
  case base then show ?case by (simp add: frozen_kept_def)
next
  case (step db1 db2)
  then have 1: "jobs_ok u db1" "frozen_kept db db1" by blast+
  from job_step_keeps [OF step(2) 1(1)] 1(2) show ?case by (blast intro: frozen_kept_trans)
qed

text \<open>C16: An open campaign's requirements are fixed, and every requirement can be traced.  Whatever is drafted, submitted,
  corrected and opened, each requirement of each campaign keeps the span of a requirement that extraction reads in the
  job description stored for that campaign now, through corrections and resubmissions; and once a campaign is past its draft its
  description and its requirements never change, and submitting or correcting is refused as frozen.\<close>

theorem open_campaign_requirements_are_frozen:
  assumes "jobs_ok u db" and "(job_step u)\<^sup>*\<^sup>* db db'"
    and "c \<in> set (ry_campaigns db)" and "cm_status c \<noteq> StatusDraft"
  shows "c \<in> set (ry_campaigns db')
    \<and> RequirementsForCampaign (cm_tenant c) (cm_id c) db' = RequirementsForCampaign (cm_tenant c) (cm_id c) db
    \<and> filter (\<lambda>q. jc_campaign q = cm_id c) (ry_contexts db') = filter (\<lambda>q. jc_campaign q = cm_id c) (ry_contexts db)
    \<and> (TrimSpace (cm_tenant c) \<noteq> '''' \<longrightarrow>
         SubmitJobContext (Extract u) ids now (cm_tenant c) (cm_id c) source db' = Inl ErrRequirementsFrozen
         \<and> CorrectRequirement (cm_tenant c) (cm_id c) i s status db' = Inl ErrRequirementsFrozen)
    \<and> (\<forall>r \<in> set (ry_requirements db'). \<exists>q \<in> set (ry_contexts db'). jc_campaign q = jq_campaign (jqr_requirement r)
         \<and> (\<exists>e \<in> set (snd (Extract u (jc_source q))). jq_start (jqr_requirement r) = int (ek_start e)
              \<and> jq_end (jqr_requirement r) = int (ek_end e)))"
proof -
  from jobs_reach [OF assms(2,1)] have ok: "jobs_ok u db'" and k: "frozen_kept db db'" by blast+
  from k assms(3,4) have c: "c \<in> set (ry_campaigns db')" "fixed_parts c db' = fixed_parts c db" by (auto simp: frozen_kept_def)
  have "campaign_seen (cm_tenant c) (cm_id c) db' = Some c"
  proof -
    from c(1) have "campaign_seen (cm_tenant c) (cm_id c) db' \<noteq> None" by (auto simp: campaign_seen_def find_None_iff)
    then obtain m where m: "campaign_seen (cm_tenant c) (cm_id c) db' = Some m" by blast
    then have "m \<in> set (ry_campaigns db')" "cm_id m = cm_id c" by (auto simp: campaign_seen_def dest!: find_SomeD)
    with ok c(1) have "m = c" by (auto simp: jobs_ok_def distinct_map inj_on_def)
    with m show ?thesis by simp
  qed
  then have d: "mustBeDraft (cm_tenant c) (cm_id c) db' = Some ErrRequirementsFrozen" using assms(4) by (simp add: mustBeDraft_def)
  then have "TrimSpace (cm_tenant c) \<noteq> '''' \<longrightarrow>
         SubmitJobContext (Extract u) ids now (cm_tenant c) (cm_id c) source db' = Inl ErrRequirementsFrozen
         \<and> CorrectRequirement (cm_tenant c) (cm_id c) i s status db' = Inl ErrRequirementsFrozen"
    by (simp add: SubmitJobContext_def CorrectRequirement_def as_tenant_def SetTenant_def)
  moreover have "RequirementsForCampaign (cm_tenant c) (cm_id c) db' = RequirementsForCampaign (cm_tenant c) (cm_id c) db"
    using c(2) by (simp add: RequirementsForCampaign_def fixed_parts_def)
  moreover have "\<forall>r \<in> set (ry_requirements db'). sourced u (ry_contexts db') r" using ok by (simp add: jobs_ok_def list_all_iff)
  ultimately show ?thesis using c unfolding fixed_parts_def sourced_def by blast
qed

definition ex_job_campaign :: campaign where
  "ex_job_campaign = \<lparr>cm_id = ''c1'', cm_tenant = ''t1'', cm_name = ''Backend'', cm_status = StatusDraft,
     cm_role = ''role'', cm_jurisdiction = ''ie'', cm_determination = '''', cm_opened_at = None, cm_closed_at = None,
     cm_created_at = 1, cm_created_by = ''u1''\<rparr>"

definition ex_job_db :: recruiting_db where
  "ex_job_db = empty_recruiting\<lparr>ry_determinations := [ex_determination], ry_campaigns := [ex_job_campaign]\<rparr>"

text \<open>\<open>Go\<close> and \<open>SQL\<close>, a line each.\<close>

definition ex_submitted :: recruiting_db where
  "ex_submitted = ex_job_db\<lparr>
     ry_contexts := [\<lparr>jc_campaign = ''c1'', jc_tenant = ''t1'', jc_source = [71, 111, 10, 83, 113, 108],
        jc_version = RuleExtractorVersion, jc_submitted_at = 2\<rparr>],
     ry_requirements := [requirement_of ''t1'' ''c1'' 2 RuleExtractorVersion ''q0'' \<lparr>ek_text = [71, 111], ek_start = 0, ek_end = 2\<rparr>,
        requirement_of ''t1'' ''c1'' 2 RuleExtractorVersion ''q1'' \<lparr>ek_text = [83, 113, 108], ek_start = 3, ek_end = 6\<rparr>]\<rparr>"

definition ex_job_opened :: recruiting_db where
  "ex_job_opened = ex_submitted\<lparr>ry_campaigns := [Campaigns.opened (jd_id ex_determination) 3 ex_job_campaign]\<rparr>"

lemma ex_extract: "Extract ascii_tables [71, 111, 10, 83, 113, 108]
    = (RuleExtractorVersion, [\<lparr>ek_text = [71, 111], ek_start = 0, ek_end = 2\<rparr>, \<lparr>ek_text = [83, 113, 108], ek_start = 3, ek_end = 6\<rparr>])"
  by (simp add: Extract_def text_evaluation)

definition ex_ids :: "nat \<Rightarrow> string" where
  "ex_ids n = (if n = 0 then ''q0'' else ''q1'')"

lemma ex_job_steps: "job_step ascii_tables ex_job_db ex_submitted" "job_step ascii_tables ex_submitted ex_job_opened"
proof -
  have l: "find (\<lambda>c. cm_tenant c = ''t1'' \<and> cm_id c = ''c1'') (ry_campaigns ex_job_db) = Some ex_job_campaign"
    by (simp add: ex_job_db_def ex_job_campaign_def)
  have "\<exists>rs. SubmitJobContext (Extract ascii_tables) ex_ids 2 ''t1'' ''c1'' [71, 111, 10, 83, 113, 108] ex_job_db = Inr (rs, ex_submitted)"
    by (simp add: SubmitJobContext_def as_tenant_def SetTenant_def TrimSpace_def is_space_def mustBeDraft_def campaign_seen_def
        ex_extract UpsertJobContext_def DeleteRequirementsForCampaign_def requirement_rows_def ex_ids_def requirement_of_def
        InsertRequirement_def frozen_row_def ex_submitted_def ex_job_db_def ex_job_campaign_def empty_recruiting_def sql_blank_def
        blen_def utf8_def utf8_rune_def to_int32_id)
  then show "job_step ascii_tables ex_job_db ex_submitted" by (blast intro: job_step.submitted)
  have "\<exists>c. store_Open (\<lambda>_. ''x'') 3 ex_job_campaign \<lparr>og_determination = ex_determination, og_pins = []\<rparr> ex_submitted = Inr (c, ex_job_opened)"
    by (simp add: store_Open_def as_tenant_def SetTenant_def TrimSpace_def is_space_def OpenCampaign_def ex_job_opened_def
        ex_submitted_def ex_job_db_def ex_job_campaign_def empty_recruiting_def)
  then show "job_step ascii_tables ex_submitted ex_job_opened" by (blast intro: job_step.opened)
qed

lemma ex_job_ok: "jobs_ok ascii_tables ex_job_db"
  by (simp add: jobs_ok_def ex_job_db_def empty_recruiting_def ex_job_campaign_def)

lemma ex_job_opened_ok: "jobs_ok ascii_tables ex_job_opened"
proof -
  have "(job_step ascii_tables)\<^sup>*\<^sup>* ex_job_db ex_job_opened" using ex_job_steps by (meson rtranclp.simps)
  from jobs_reach [OF this ex_job_ok] show ?thesis by blast
qed

theorem open_campaign_requirements_are_frozen_witness:
  "CorrectRequirement ''t1'' ''c1'' ''q0'' [71] ''corrected'' ex_job_opened = Inl ErrRequirementsFrozen
    \<and> SubmitJobContext (Extract ascii_tables) ex_ids 4 ''t1'' ''c1'' [71] ex_job_opened = Inl ErrRequirementsFrozen"
proof -
  let ?c = "Campaigns.opened (jd_id ex_determination) 3 ex_job_campaign"
  have c: "?c \<in> set (ry_campaigns ex_job_opened)" "cm_status ?c \<noteq> StatusDraft" "cm_tenant ?c = ''t1''" "cm_id ?c = ''c1''"
    "TrimSpace (cm_tenant ?c) \<noteq> ''''"
    by (simp_all add: ex_job_opened_def Campaigns.opened_def ex_job_campaign_def TrimSpace_def is_space_def)
  have run: "(job_step ascii_tables)\<^sup>*\<^sup>* ex_job_opened ex_job_opened" by simp
  from open_campaign_requirements_are_frozen [OF ex_job_opened_ok run c(1,2)] c(3-5) show ?thesis by simp
qed

end
