(* ===== verification/Accommodations.thy ===== *)
theory Accommodations
  imports Campaigns
begin

text \<open>
  Accommodations (\<open>services/platform/internal/recruiting/accommodation.go\<close>, \<open>accommodation_store.go\<close>, and
  \<open>DecideAccommodation\<close> of \<open>cmd/api/invitations_adapter.go\<close>): a candidate asks for a named adjustment before or
  during preparation, a named human answers, and a standing grant is applied to a session.  The three tables are
  append-only; the state a candidate sees is read from them.  The store checks a grant before it writes a
  fulfilment, and the trigger of the table checks again, so both moments are arguments.
\<close>

section \<open>Requests\<close>

definition validAdjustments :: "string list" where
  "validAdjustments = [''captions'', ''push_to_talk'', ''extra_time'', ''alternative_path'']"

datatype session_phase = PhaseNoSession | PhasePreparation | PhaseUnderway | PhaseComplete | PhaseUnstated string

definition NewAccommodationRequest ::
  "time \<Rightarrow> string \<Rightarrow> string \<Rightarrow> string \<Rightarrow> string \<Rightarrow> session_phase \<Rightarrow> recruiting_error + accommodation_request" where
  "NewAccommodationRequest clock tenant campaign candidate adjustment phase =
     (if phase = PhaseUnderway \<or> phase = PhaseComplete then Inl ErrRequestTooLate
      else if phase \<noteq> PhaseNoSession \<and> phase \<noteq> PhasePreparation then Inl ErrUnknownPhase
      else if adjustment \<notin> set validAdjustments then Inl ErrUnknownAdjustment
      else if TrimSpace tenant = '''' \<or> TrimSpace campaign = '''' \<or> TrimSpace candidate = '''' then Inl FieldUnnamed
      else Inr \<lparr>qa_id = '''', qa_tenant = tenant, qa_campaign = campaign, qa_candidate = candidate,
             qa_adjustment = adjustment, qa_requested_at = clock\<rparr>)"

definition InsertAccommodationRequest :: "accommodation_request \<Rightarrow> recruiting_db \<Rightarrow> recruiting_error + recruiting_db" where
  "InsertAccommodationRequest q db =
     (if qa_id q \<in> qa_id ` set (ry_requests db) \<or> qa_campaign q \<notin> cm_id ` set (ry_campaigns db)
        \<or> qa_adjustment q \<notin> set validAdjustments
      then Inl StatementRefused
      else Inr (db\<lparr>ry_requests := ry_requests db @ [q]\<rparr>))"

definition RequestAccommodation ::
  "string \<Rightarrow> time \<Rightarrow> accommodation_request \<Rightarrow> recruiting_db \<Rightarrow> recruiting_error + accommodation_request \<times> recruiting_db" where
  "RequestAccommodation i now q db =
     as_tenant (qa_tenant q)
       (let row = q\<lparr>qa_id := i, qa_requested_at := now\<rparr> in
        bindE (InsertAccommodationRequest row db) (\<lambda>db'. Inr (row, db')))"

section \<open>Decisions\<close>

definition NewAccommodationDecision :: "time \<Rightarrow> string \<Rightarrow> bool \<Rightarrow> string \<Rightarrow> recruiting_error + accommodation_decision" where
  "NewAccommodationDecision clock request granted by =
     (if TrimSpace by = '''' then Inl ErrNoDecider
      else if TrimSpace request = '''' then Inl FieldUnnamed
      else Inr \<lparr>qd_request = request, qd_granted = granted, qd_decided_by = by, qd_decided_at = clock\<rparr>)"

text \<open>The insert selects the request on its campaign: the rows it adds, none or one.\<close>

definition RecordAccommodationDecision ::
  "string \<Rightarrow> string \<Rightarrow> accommodation_decision_row \<Rightarrow> recruiting_db \<Rightarrow> recruiting_error + nat \<times> recruiting_db" where
  "RecordAccommodationDecision tenant campaign row db =
     (case find (\<lambda>q. qa_tenant q = tenant \<and> qa_id q = qd_request (qdr_decision row) \<and> qa_campaign q = campaign) (ry_requests db) of
        None \<Rightarrow> Inr (0, db)
      | Some q \<Rightarrow>
          (if qdr_id row \<in> qdr_id ` set (ry_answers db) then Inl StatementRefused
           else Inr (1, db\<lparr>ry_answers := ry_answers db @ [row]\<rparr>)))"

definition store_DecideAccommodation ::
  "string \<Rightarrow> time \<Rightarrow> string \<Rightarrow> string \<Rightarrow> accommodation_decision \<Rightarrow> recruiting_db \<Rightarrow> recruiting_error + recruiting_db" where
  "store_DecideAccommodation i now tenant campaign d db =
     as_tenant tenant
       (bindE (RecordAccommodationDecision tenant campaign
            \<lparr>qdr_id = i, qdr_tenant = tenant, qdr_decision = d\<lparr>qd_decided_at := now\<rparr>\<rparr> db) (\<lambda>(n, db').
          if n = 0 then Inl ErrRequestNotFound else Inr db'))"

definition DecideAccommodation ::
  "string \<Rightarrow> time \<Rightarrow> time \<Rightarrow> string \<Rightarrow> string \<Rightarrow> string \<Rightarrow> string \<Rightarrow> bool \<Rightarrow> recruiting_db \<Rightarrow> recruiting_error + recruiting_db" where
  "DecideAccommodation i now clock tenant campaign request by granted db =
     bindE (NewAccommodationDecision clock request granted by) (\<lambda>d. store_DecideAccommodation i now tenant campaign d db)"

definition standingDecision :: "string \<Rightarrow> string \<Rightarrow> recruiting_db \<Rightarrow> accommodation_decision option" where
  "standingDecision tenant request db =
     newest_by qd_decided_at (map qdr_decision
       (filter (\<lambda>r. qdr_tenant r = tenant \<and> qd_request (qdr_decision r) = request) (ry_answers db)))"

section \<open>Fulfilment\<close>

definition standing_grant :: "accommodation_decision option \<Rightarrow> bool" where
  "standing_grant d = (case d of None \<Rightarrow> False | Some d \<Rightarrow> qd_granted d)"

definition NewFulfilment ::
  "time \<Rightarrow> string \<Rightarrow> string \<Rightarrow> accommodation_decision option \<Rightarrow> recruiting_error + fulfilment" where
  "NewFulfilment clock request session standing =
     (if \<not> standing_grant standing then Inl ErrNotGranted
      else if TrimSpace session = '''' then Inl FieldUnnamed
      else Inr \<lparr>qf_request = request, qf_session = session, qf_fulfilled_at = clock\<rparr>)"

definition RecordAccommodationFulfilment :: "fulfilment_row \<Rightarrow> recruiting_db \<Rightarrow> recruiting_error + recruiting_db" where
  "RecordAccommodationFulfilment r db =
     (if \<not> standing_grant (standingDecision (qfr_tenant r) (qf_request (qfr_fulfilment r)) db)
        \<or> qfr_id r \<in> qfr_id ` set (ry_fulfilments db)
        \<or> qf_request (qfr_fulfilment r) \<notin> qa_id ` set (ry_requests db)
      then Inl StatementRefused
      else Inr (db\<lparr>ry_fulfilments := ry_fulfilments db @ [r]\<rparr>))"

definition FulfilAccommodation ::
  "string \<Rightarrow> time \<Rightarrow> time \<Rightarrow> string \<Rightarrow> string \<Rightarrow> string \<Rightarrow> recruiting_db \<Rightarrow> recruiting_db
     \<Rightarrow> recruiting_error + fulfilment \<times> recruiting_db" where
  "FulfilAccommodation i now clock tenant request session seen db =
     as_tenant tenant
       (bindE (NewFulfilment clock request session (standingDecision tenant request seen)) (\<lambda>f.
        bindE (RecordAccommodationFulfilment
            \<lparr>qfr_id = i, qfr_tenant = tenant, qfr_fulfilment = f\<lparr>qf_fulfilled_at := now\<rparr>\<rparr> db) (\<lambda>db'. Inr (f, db'))))"

section \<open>Reads\<close>

definition StateOf :: "accommodation_decision option \<Rightarrow> string" where
  "StateOf standing =
     (case standing of None \<Rightarrow> ''requested'' | Some d \<Rightarrow> (if qd_granted d then ''granted'' else ''declined''))"

record accommodation_view =
  qv_request :: accommodation_request
  qv_state :: string
  qv_decided_by :: string
  qv_decided_at :: "time option"

definition view_of :: "string \<Rightarrow> recruiting_db \<Rightarrow> accommodation_request \<Rightarrow> accommodation_view" where
  "view_of tenant db q =
     (let standing = standingDecision tenant (qa_id q) db in
      \<lparr>qv_request = q, qv_state = StateOf standing,
       qv_decided_by = (case standing of None \<Rightarrow> '''' | Some d \<Rightarrow> qd_decided_by d),
       qv_decided_at = map_option qd_decided_at standing\<rparr>)"

definition AccommodationsFor ::
  "string \<Rightarrow> string \<Rightarrow> string \<Rightarrow> recruiting_db \<Rightarrow> recruiting_error + accommodation_view list" where
  "AccommodationsFor tenant campaign candidate db =
     as_tenant tenant (Inr (map (view_of tenant db)
       (newest_first qa_requested_at
         (filter (\<lambda>q. qa_tenant q = tenant \<and> qa_campaign q = campaign \<and> qa_candidate q = candidate) (ry_requests db)))))"

record session_accommodation =
  qs_request :: string
  qs_session :: string
  qs_adjustment :: string
  qs_fulfilled_at :: time

definition applied_of :: "fulfilment_row \<times> accommodation_request \<Rightarrow> session_accommodation" where
  "applied_of p = \<lparr>qs_request = qf_request (qfr_fulfilment (fst p)), qs_session = qf_session (qfr_fulfilment (fst p)),
     qs_adjustment = qa_adjustment (snd p), qs_fulfilled_at = qf_fulfilled_at (qfr_fulfilment (fst p))\<rparr>"

definition fulfilled_requests :: "string \<Rightarrow> string \<Rightarrow> recruiting_db \<Rightarrow> (fulfilment_row \<times> accommodation_request) list" where
  "fulfilled_requests tenant session db =
     [(r, q). r \<leftarrow> filter (\<lambda>r. qfr_tenant r = tenant \<and> qf_session (qfr_fulfilment r) = session) (ry_fulfilments db),
              q \<leftarrow> filter (\<lambda>q. qa_tenant q = tenant \<and> qa_id q = qf_request (qfr_fulfilment r)) (ry_requests db)]"

definition AccommodationsForSession ::
  "string \<Rightarrow> string \<Rightarrow> recruiting_db \<Rightarrow> recruiting_error + session_accommodation list" where
  "AccommodationsForSession tenant session db =
     as_tenant tenant (Inr (sort_key qs_fulfilled_at (map applied_of (fulfilled_requests tenant session db))))"

lemma AccommodationsForSession_Inr:
  assumes "AccommodationsForSession tenant session db = Inr applied" and "x \<in> set applied"
  shows "\<exists>p. fst p \<in> set (ry_fulfilments db) \<and> snd p \<in> set (ry_requests db) \<and> qf_session (qfr_fulfilment (fst p)) = session
    \<and> x = applied_of p"
proof -
  from assms obtain p where p: "p \<in> set (fulfilled_requests tenant session db)" "x = applied_of p"
    by (auto simp: AccommodationsForSession_def as_tenant_Inr)
  from p(1) have "fst p \<in> set (ry_fulfilments db) \<and> snd p \<in> set (ry_requests db) \<and> qf_session (qfr_fulfilment (fst p)) = session"
    by (auto simp: fulfilled_requests_def)
  with p(2) show ?thesis by blast
qed

section \<open>Steps and what they keep\<close>

inductive accommodation_step :: "recruiting_db \<Rightarrow> recruiting_db \<Rightarrow> bool" where
  asked: "NewAccommodationRequest clock tenant campaign candidate adjustment phase = Inr q
    \<Longrightarrow> RequestAccommodation i now q db = Inr (q', db') \<Longrightarrow> accommodation_step db db'"
| answered: "DecideAccommodation i now clock tenant campaign request by granted db = Inr db' \<Longrightarrow> accommodation_step db db'"
| applied: "FulfilAccommodation i now clock tenant request session seen db = Inr (f, db') \<Longrightarrow> accommodation_step db db'"

definition granted_to :: "accommodation_decision_row list \<Rightarrow> fulfilment_row \<Rightarrow> bool" where
  "granted_to answers r \<longleftrightarrow> (\<exists>a \<in> set answers. qdr_tenant a = qfr_tenant r \<and> qd_request (qdr_decision a) = qf_request (qfr_fulfilment r)
     \<and> qd_granted (qdr_decision a))"

definition accommodations_ok :: "recruiting_db \<Rightarrow> bool" where
  "accommodations_ok db \<longleftrightarrow>
     (\<forall>q \<in> set (ry_requests db). qa_adjustment q \<in> set validAdjustments)
     \<and> (\<forall>a \<in> set (ry_answers db). TrimSpace (qd_decided_by (qdr_decision a)) \<noteq> ''''
          \<and> (\<exists>q \<in> set (ry_requests db). qa_id q = qd_request (qdr_decision a) \<and> qa_tenant q = qdr_tenant a))
     \<and> (\<forall>r \<in> set (ry_fulfilments db). granted_to (ry_answers db) r)"

definition records_kept :: "recruiting_db \<Rightarrow> recruiting_db \<Rightarrow> bool" where
  "records_kept db db' \<longleftrightarrow> prefix (ry_requests db) (ry_requests db') \<and> prefix (ry_answers db) (ry_answers db')
     \<and> prefix (ry_fulfilments db) (ry_fulfilments db')"

lemma records_kept_refl: "records_kept db db"
  by (simp add: records_kept_def)

lemma records_kept_trans: "records_kept a b \<Longrightarrow> records_kept b c \<Longrightarrow> records_kept a c"
  unfolding records_kept_def by (blast intro: prefix_order.trans)

lemma NewAccommodationRequest_Inr:
  "NewAccommodationRequest clock tenant campaign candidate adjustment phase = Inr q \<Longrightarrow>
     (phase = PhaseNoSession \<or> phase = PhasePreparation) \<and> adjustment \<in> set validAdjustments \<and> qa_tenant q = tenant
     \<and> qa_campaign q = campaign \<and> qa_candidate q = candidate \<and> qa_adjustment q = adjustment"
  by (auto simp: NewAccommodationRequest_def split: if_splits)

lemma RequestAccommodation_Inr:
  "RequestAccommodation i now q db = Inr (q', db') \<Longrightarrow>
     q' = q\<lparr>qa_id := i, qa_requested_at := now\<rparr> \<and> qa_adjustment q \<in> set validAdjustments \<and> db' = db\<lparr>ry_requests := ry_requests db @ [q']\<rparr>"
  by (auto simp: RequestAccommodation_def as_tenant_Inr Let_def bindE_Inr InsertAccommodationRequest_def split: if_splits)

lemma DecideAccommodation_Inr:
  assumes "DecideAccommodation i now clock tenant campaign request by granted db = Inr db'"
  shows "\<exists>a. qdr_tenant a = tenant \<and> qdr_decision a = \<lparr>qd_request = request, qd_granted = granted, qd_decided_by = by, qd_decided_at = now\<rparr>
    \<and> TrimSpace by \<noteq> '''' \<and> (\<exists>q \<in> set (ry_requests db). qa_id q = request \<and> qa_tenant q = tenant \<and> qa_campaign q = campaign)
    \<and> db' = db\<lparr>ry_answers := ry_answers db @ [a]\<rparr>"
proof -
  let ?a = "\<lparr>qdr_id = i, qdr_tenant = tenant, qdr_decision = \<lparr>qd_request = request, qd_granted = granted, qd_decided_by = by,
     qd_decided_at = now\<rparr>\<rparr>"
  have "TrimSpace by \<noteq> '''' \<and> (\<exists>q \<in> set (ry_requests db). qa_id q = request \<and> qa_tenant q = tenant \<and> qa_campaign q = campaign)
    \<and> db' = db\<lparr>ry_answers := ry_answers db @ [?a]\<rparr>"
    using assms
    by (auto simp: DecideAccommodation_def bindE_Inr NewAccommodationDecision_def store_DecideAccommodation_def as_tenant_Inr
        RecordAccommodationDecision_def split: if_splits option.splits dest!: find_SomeD)
  then show ?thesis by (intro exI [of _ ?a]) simp
qed

lemma standing_grant_row:
  assumes "standing_grant (standingDecision tenant request db)"
  shows "\<exists>a \<in> set (ry_answers db). qdr_tenant a = tenant \<and> qd_request (qdr_decision a) = request \<and> qd_granted (qdr_decision a)"
proof -
  from assms obtain d where "standingDecision tenant request db = Some d" "qd_granted d"
    by (auto simp: standing_grant_def split: option.splits)
  with newest_by_Some(1) [of qd_decided_at _ d] show ?thesis unfolding standingDecision_def by fastforce
qed

lemma FulfilAccommodation_Inr:
  assumes "FulfilAccommodation i now clock tenant request session seen db = Inr (f, db')"
  shows "\<exists>r. qfr_tenant r = tenant \<and> qf_request (qfr_fulfilment r) = request \<and> qf_session (qfr_fulfilment r) = session
    \<and> standing_grant (standingDecision tenant request seen) \<and> standing_grant (standingDecision tenant request db)
    \<and> db' = db\<lparr>ry_fulfilments := ry_fulfilments db @ [r]\<rparr>"
proof -
  let ?r = "\<lparr>qfr_id = i, qfr_tenant = tenant, qfr_fulfilment = \<lparr>qf_request = request, qf_session = session, qf_fulfilled_at = now\<rparr>\<rparr>"
  have "standing_grant (standingDecision tenant request seen) \<and> standing_grant (standingDecision tenant request db)
    \<and> db' = db\<lparr>ry_fulfilments := ry_fulfilments db @ [?r]\<rparr>"
    using assms
    by (auto simp: FulfilAccommodation_def as_tenant_Inr bindE_Inr NewFulfilment_def RecordAccommodationFulfilment_def split: if_splits)
  then show ?thesis by (intro exI [of _ ?r]) simp
qed

lemma accommodation_step_keeps:
  assumes "accommodation_step db db'" and "accommodations_ok db"
  shows "accommodations_ok db' \<and> records_kept db db'"
  using assms
proof (cases rule: accommodation_step.cases)
  case (asked clock tenant campaign candidate adjustment phase q i now q')
  from RequestAccommodation_Inr [OF asked(2)] assms(2) show ?thesis
    by (auto simp: accommodations_ok_def records_kept_def)
next
  case (answered i now clock tenant campaign request "by" granted)
  from DecideAccommodation_Inr [OF answered] obtain a where a: "qdr_tenant a = tenant" "qd_request (qdr_decision a) = request"
    "TrimSpace (qd_decided_by (qdr_decision a)) \<noteq> ''''" "\<exists>q \<in> set (ry_requests db). qa_id q = request \<and> qa_tenant q = tenant"
    and db': "db' = db\<lparr>ry_answers := ry_answers db @ [a]\<rparr>" by (elim exE conjE bexE) (erule that; auto)
  with assms(2) show ?thesis by (auto simp: accommodations_ok_def records_kept_def granted_to_def)
next
  case (applied i now clock tenant request session seen f)
  from FulfilAccommodation_Inr [OF applied] obtain r where r: "qfr_tenant r = tenant" "qf_request (qfr_fulfilment r) = request"
    "standing_grant (standingDecision tenant request db)" and db': "db' = db\<lparr>ry_fulfilments := ry_fulfilments db @ [r]\<rparr>" by blast
  from standing_grant_row [OF r(3)] r(1,2) assms(2) show ?thesis
    by (auto simp: accommodations_ok_def records_kept_def granted_to_def db')
qed

lemma accommodations_reach:
  assumes "accommodation_step\<^sup>*\<^sup>* db db'" and "accommodations_ok db"
  shows "accommodations_ok db' \<and> records_kept db db'"
  using assms
proof (induction rule: rtranclp_induct)
  case base then show ?case by (simp add: records_kept_refl)
next
  case (step db1 db2)
  then have 1: "accommodations_ok db1" "records_kept db db1" by blast+
  from accommodation_step_keeps [OF step(2) 1(1)] 1(2) show ?case by (blast intro: records_kept_trans)
qed

text \<open>C17: An adjustment is applied only because a named human granted it.  Whatever is asked, answered, withdrawn and applied, by
  whatever stale reads, no request, answer or application is ever changed or removed; every adjustment applied to a
  session was granted on its request by somebody who is named; what a session is shown as having are such adjustments,
  all of the known vocabulary; and once the newest answer to a request is a refusal, nothing more can be applied under
  it and its candidate sees it declined.\<close>

theorem applied_adjustments_were_granted:
  assumes "accommodations_ok db" and "accommodation_step\<^sup>*\<^sup>* db db'"
  shows "records_kept db db'
    \<and> (\<forall>r \<in> set (ry_fulfilments db'). \<exists>a \<in> set (ry_answers db'). \<exists>q \<in> set (ry_requests db').
         qd_request (qdr_decision a) = qf_request (qfr_fulfilment r) \<and> qa_id q = qf_request (qfr_fulfilment r)
         \<and> qa_tenant q = qfr_tenant r \<and> qd_granted (qdr_decision a) \<and> TrimSpace (qd_decided_by (qdr_decision a)) \<noteq> '''')
    \<and> (\<forall>tenant session applied. AccommodationsForSession tenant session db' = Inr applied \<longrightarrow>
         (\<forall>x \<in> set applied. qs_adjustment x \<in> set validAdjustments
            \<and> (\<exists>r \<in> set (ry_fulfilments db'). qf_request (qfr_fulfilment r) = qs_request x \<and> qf_session (qfr_fulfilment r) = session)))
    \<and> (\<forall>i now clock tenant request session seen d. standingDecision tenant request db' = Some d \<and> \<not> qd_granted d \<longrightarrow>
         \<not> is_ok (FulfilAccommodation i now clock tenant request session seen db')
         \<and> StateOf (standingDecision tenant request db') = ''declined'')"
proof -
  from accommodations_reach [OF assms(2,1)] have ok: "accommodations_ok db'" and k: "records_kept db db'" by blast+
  have granted: "\<exists>a \<in> set (ry_answers db'). \<exists>q \<in> set (ry_requests db').
         qd_request (qdr_decision a) = qf_request (qfr_fulfilment r) \<and> qa_id q = qf_request (qfr_fulfilment r)
         \<and> qa_tenant q = qfr_tenant r \<and> qd_granted (qdr_decision a) \<and> TrimSpace (qd_decided_by (qdr_decision a)) \<noteq> ''''"
    if "r \<in> set (ry_fulfilments db')" for r
  proof -
    from ok that obtain a where a: "a \<in> set (ry_answers db')" "qdr_tenant a = qfr_tenant r"
      "qd_request (qdr_decision a) = qf_request (qfr_fulfilment r)" "qd_granted (qdr_decision a)"
      by (auto simp: accommodations_ok_def granted_to_def)
    with ok obtain q where "q \<in> set (ry_requests db')" "qa_id q = qf_request (qfr_fulfilment r)" "qa_tenant q = qfr_tenant r"
      "TrimSpace (qd_decided_by (qdr_decision a)) \<noteq> ''''" by (auto simp: accommodations_ok_def)
    with a show ?thesis by blast
  qed
  have shown: "qs_adjustment x \<in> set validAdjustments
      \<and> (\<exists>r \<in> set (ry_fulfilments db'). qf_request (qfr_fulfilment r) = qs_request x \<and> qf_session (qfr_fulfilment r) = session)"
    if "AccommodationsForSession tenant session db' = Inr applied" "x \<in> set applied" for tenant session applied x
  proof -
    from AccommodationsForSession_Inr [OF that] obtain p where p: "fst p \<in> set (ry_fulfilments db')" "snd p \<in> set (ry_requests db')"
      "qf_session (qfr_fulfilment (fst p)) = session" "x = applied_of p" by blast
    have "qa_adjustment (snd p) \<in> set validAdjustments" using ok p(2) by (simp add: accommodations_ok_def)
    with p(1,3,4) show ?thesis by (intro conjI bexI [of _ "fst p"]) (simp_all add: applied_of_def)
  qed
  have refused: "\<not> is_ok (FulfilAccommodation i now clock tenant request session seen db')
         \<and> StateOf (standingDecision tenant request db') = ''declined''"
    if "standingDecision tenant request db' = Some d" "\<not> qd_granted d" for i now clock tenant request session seen d
    using that by (auto simp: is_ok_iff StateOf_def standing_grant_def dest!: FulfilAccommodation_Inr)
  show ?thesis using k granted shown refused by blast
qed


definition ex_accommodated :: recruiting_db where
  "ex_accommodated = empty_recruiting\<lparr>
     ry_requests := [\<lparr>qa_id = ''q1'', qa_tenant = ''t1'', qa_campaign = ''c1'', qa_candidate = ''k1'', qa_adjustment = ''captions'', qa_requested_at = 1\<rparr>],
     ry_answers := [\<lparr>qdr_id = ''d1'', qdr_tenant = ''t1'', qdr_decision =
        \<lparr>qd_request = ''q1'', qd_granted = True, qd_decided_by = ''u1'', qd_decided_at = 2\<rparr>\<rparr>]\<rparr>"

definition ex_fulfilled :: recruiting_db where
  "ex_fulfilled = ex_accommodated\<lparr>ry_fulfilments := [\<lparr>qfr_id = ''f1'', qfr_tenant = ''t1'', qfr_fulfilment =
     \<lparr>qf_request = ''q1'', qf_session = ''s1'', qf_fulfilled_at = 3\<rparr>\<rparr>]\<rparr>"

theorem applied_adjustments_were_granted_witness:
  "records_kept ex_accommodated ex_fulfilled \<and> list_all (\<lambda>r. \<exists>a \<in> set (ry_answers ex_fulfilled).
     qd_request (qdr_decision a) = qf_request (qfr_fulfilment r) \<and> qd_granted (qdr_decision a)) (ry_fulfilments ex_fulfilled)"
proof -
  have ok: "accommodations_ok ex_accommodated"
    by (simp add: accommodations_ok_def ex_accommodated_def empty_recruiting_def validAdjustments_def TrimSpace_def is_space_def)
  have "FulfilAccommodation ''f1'' 3 3 ''t1'' ''q1'' ''s1'' ex_accommodated ex_accommodated
     = Inr (\<lparr>qf_request = ''q1'', qf_session = ''s1'', qf_fulfilled_at = 3\<rparr>, ex_fulfilled)"
    by (simp add: FulfilAccommodation_def as_tenant_def SetTenant_def TrimSpace_def is_space_def NewFulfilment_def standingDecision_def
        standing_grant_def newest_by_def RecordAccommodationFulfilment_def ex_accommodated_def ex_fulfilled_def empty_recruiting_def)
  then have "accommodation_step\<^sup>*\<^sup>* ex_accommodated ex_fulfilled" by (blast intro: accommodation_step.applied)
  from applied_adjustments_were_granted [OF ok this] show ?thesis unfolding list_all_iff by blast
qed

end
