(* ===== verification/Invitations.thy ===== *)
theory Invitations
  imports Campaigns
begin

text \<open>
  \<open>services/platform/internal/recruiting/invitation.go\<close>, \<open>invitation_store.go\<close> and \<open>reinvitation_store.go\<close>: the
  single-use link that admits one candidate to one campaign, and the recruiter's decision to let a candidate try
  again.  A link is live while it has no outcome; expiry is the clock's.  The holder of a token enters the
  scope of its hash, the candidate the scope of their own account.
\<close>

section \<open>The status a reader sees\<close>

definition InvitationExpiry :: duration where "InvitationExpiry = 7 * 24 * hour"

definition outcome_text :: "invitation_outcome \<Rightarrow> string" where
  "outcome_text out =
     (case out of
        InvitationLive \<Rightarrow> ''''
      | InvitationAccepted \<Rightarrow> ''accepted''
      | InvitationDeclined \<Rightarrow> ''declined''
      | InvitationRevoked \<Rightarrow> ''revoked''
      | InvitationSuperseded \<Rightarrow> ''superseded'')"

definition invitation_Status :: "time \<Rightarrow> invitation \<Rightarrow> string" where
  "invitation_Status now v =
     (if nv_outcome v \<noteq> InvitationLive then outcome_text (nv_outcome v)
      else if now > nv_expires_at v then ''expired'' else ''live'')"

definition Live :: "time \<Rightarrow> invitation \<Rightarrow> bool" where
  "Live now v \<longleftrightarrow> nv_outcome v = InvitationLive \<and> \<not> now > nv_expires_at v"

section \<open>Statements\<close>

text \<open>Recipients are compared as \<open>citext\<close>, whatever their case.\<close>

definition same_recipient :: "string \<Rightarrow> string \<Rightarrow> bool" where
  "same_recipient a b \<longleftrightarrow> ToLower a = ToLower b"

definition ended :: "invitation_outcome \<Rightarrow> time \<Rightarrow> invitation_row \<Rightarrow> invitation_row" where
  "ended out now r = r\<lparr>nvr_invitation := (nvr_invitation r)\<lparr>nv_outcome := out, nv_outcome_at := Some now\<rparr>\<rparr>"

definition row_live :: "invitation_row \<Rightarrow> bool" where
  "row_live r \<longleftrightarrow> nv_outcome (nvr_invitation r) = InvitationLive"

definition addressed :: "string \<Rightarrow> string \<Rightarrow> string \<Rightarrow> invitation_row \<Rightarrow> bool" where
  "addressed tenant campaign recipient r \<longleftrightarrow> nv_tenant (nvr_invitation r) = tenant
     \<and> nv_campaign (nvr_invitation r) = campaign \<and> same_recipient (nv_recipient (nvr_invitation r)) recipient"

definition SupersedeLiveInvitations :: "string \<Rightarrow> string \<Rightarrow> string \<Rightarrow> time \<Rightarrow> recruiting_db \<Rightarrow> recruiting_db" where
  "SupersedeLiveInvitations tenant campaign recipient now db =
     db\<lparr>ry_invitations := map (\<lambda>r. if addressed tenant campaign recipient r \<and> row_live r
          then ended InvitationSuperseded now r else r) (ry_invitations db)\<rparr>"

definition hashPattern :: "string \<Rightarrow> bool" where
  "hashPattern h \<longleftrightarrow> length h = 64 \<and> list_all lower_hex h"

definition InsertInvitation :: "invitation_row \<Rightarrow> recruiting_db \<Rightarrow> recruiting_error + recruiting_db" where
  "InsertInvitation r db =
     (if nv_id (nvr_invitation r) \<in> (\<lambda>q. nv_id (nvr_invitation q)) ` set (ry_invitations db)
         \<or> nvr_token_hash r \<in> nvr_token_hash ` set (ry_invitations db) \<or> \<not> hashPattern (nvr_token_hash r)
         \<or> nv_campaign (nvr_invitation r) \<notin> cm_id ` set (ry_campaigns db)
      then Inl StatementRefused
      else Inr (db\<lparr>ry_invitations := ry_invitations db @ [r]\<rparr>))"

section \<open>The recruiter's side\<close>

record issue_input =
  ii_campaign :: campaign
  ii_recipient :: string
  ii_issued_by :: string
  ii_expires_at :: time
  ii_token_hash :: string

definition issued_row :: "string \<Rightarrow> string \<Rightarrow> time \<Rightarrow> issue_input \<Rightarrow> invitation_row" where
  "issued_row i email now input =
     \<lparr>nvr_token_hash = ii_token_hash input,
      nvr_invitation = \<lparr>nv_id = i, nv_tenant = cm_tenant (ii_campaign input), nv_campaign = cm_id (ii_campaign input),
        nv_recipient = ii_recipient input, nv_email = email, nv_issued_by = ii_issued_by input, nv_issued_at = now,
        nv_expires_at = ii_expires_at input, nv_outcome = InvitationLive, nv_outcome_at = None, nv_accepted_candidate = ''''\<rparr>\<rparr>"

text \<open>The email is enqueued in the same transaction by the caller: its identifier, or a failure that undoes the rest.\<close>

definition IssueInvitation ::
  "string \<Rightarrow> time \<Rightarrow> issue_input \<Rightarrow> string option \<Rightarrow> recruiting_db \<Rightarrow> recruiting_error + invitation \<times> recruiting_db" where
  "IssueInvitation i now input enqueued db =
     (if cm_status (ii_campaign input) \<noteq> StatusOpen then Inl ErrCampaignNotOpen
      else as_tenant (cm_tenant (ii_campaign input))
        (let db1 = SupersedeLiveInvitations (cm_tenant (ii_campaign input)) (cm_id (ii_campaign input)) (ii_recipient input) now db in
         case enqueued of
           None \<Rightarrow> Inl EnqueueRefused
         | Some email \<Rightarrow>
             bindE (InsertInvitation (issued_row i email now input) db1) (\<lambda>db2.
               Inr (nvr_invitation (issued_row i email now input), db2))))"

definition write_invitations ::
  "recruiting_error \<Rightarrow> (invitation_row \<times> invitation_row list) option \<Rightarrow> recruiting_db
     \<Rightarrow> recruiting_error + invitation \<times> recruiting_db" where
  "write_invitations e r db =
     (case r of None \<Rightarrow> Inl e | Some (v, rows) \<Rightarrow> Inr (nvr_invitation v, db\<lparr>ry_invitations := rows\<rparr>))"

definition RevokeInvitation ::
  "string \<Rightarrow> string \<Rightarrow> string \<Rightarrow> time \<Rightarrow> recruiting_db \<Rightarrow> recruiting_error + invitation \<times> recruiting_db" where
  "RevokeInvitation tenant campaign i now db =
     as_tenant tenant
       (write_invitations ErrInvitationNotFound
         (update_returning (\<lambda>r. nv_tenant (nvr_invitation r) = tenant \<and> nv_id (nvr_invitation r) = i
              \<and> nv_campaign (nvr_invitation r) = campaign \<and> row_live r)
            (ended InvitationRevoked now) (ry_invitations db)) db)"

definition InvitationsForCampaign :: "string \<Rightarrow> string \<Rightarrow> recruiting_db \<Rightarrow> recruiting_error + invitation list" where
  "InvitationsForCampaign tenant campaign db =
     as_tenant tenant (Inr (newest_first nv_issued_at
       (filter (\<lambda>v. nv_tenant v = tenant \<and> nv_campaign v = campaign) (map nvr_invitation (ry_invitations db)))))"

definition InvitationByID :: "string \<Rightarrow> string \<Rightarrow> string \<Rightarrow> recruiting_db \<Rightarrow> recruiting_error + invitation" where
  "InvitationByID tenant campaign i db =
     as_tenant tenant
       (case find (\<lambda>v. nv_tenant v = tenant \<and> nv_id v = i \<and> nv_campaign v = campaign) (map nvr_invitation (ry_invitations db)) of
          None \<Rightarrow> Inl ErrInvitationNotFound
        | Some v \<Rightarrow> Inr v)"

section \<open>The holder of the token\<close>

definition as_token :: "string \<Rightarrow> recruiting_error + 'a \<Rightarrow> recruiting_error + 'a" where
  "as_token hash run = (if TrimSpace hash = '''' then Inl NoTenantScope else run)"

definition ResolveInvitationByToken :: "string \<Rightarrow> recruiting_db \<Rightarrow> recruiting_error + invitation" where
  "ResolveInvitationByToken hash db =
     as_token hash
       (case find (\<lambda>r. nvr_token_hash r = hash) (ry_invitations db) of
          None \<Rightarrow> Inl ErrInvitationUnknownToken
        | Some r \<Rightarrow> Inr (nvr_invitation r))"

definition answerable :: "string \<Rightarrow> time \<Rightarrow> invitation_row \<Rightarrow> bool" where
  "answerable hash now r \<longleftrightarrow> nvr_token_hash r = hash \<and> row_live r \<and> nv_expires_at (nvr_invitation r) > now"

definition accepted_by :: "string \<Rightarrow> time \<Rightarrow> invitation_row \<Rightarrow> invitation_row" where
  "accepted_by candidate now r =
     r\<lparr>nvr_invitation := (nvr_invitation r)\<lparr>nv_outcome := InvitationAccepted, nv_outcome_at := Some now,
        nv_accepted_candidate := candidate\<rparr>\<rparr>"

definition AcceptInvitationByToken ::
  "string \<Rightarrow> string \<Rightarrow> time \<Rightarrow> recruiting_db \<Rightarrow> recruiting_error + invitation \<times> recruiting_db" where
  "AcceptInvitationByToken hash candidate now db =
     as_token hash
       (if candidate = '''' then Inl StatementRefused
        else write_invitations ErrInvitationNotLive
          (update_returning (answerable hash now) (accepted_by candidate now) (ry_invitations db)) db)"

definition DeclineInvitationByToken ::
  "string \<Rightarrow> time \<Rightarrow> recruiting_db \<Rightarrow> recruiting_error + invitation \<times> recruiting_db" where
  "DeclineInvitationByToken hash now db =
     as_token hash
       (write_invitations ErrInvitationNotLive
         (update_returning (answerable hash now) (ended InvitationDeclined now) (ry_invitations db)) db)"

section \<open>The candidate\<close>

definition AcceptedInvitationForCandidate :: "string \<Rightarrow> string \<Rightarrow> recruiting_db \<Rightarrow> recruiting_error + invitation" where
  "AcceptedInvitationForCandidate campaign candidate db =
     as_user candidate
       (case find (\<lambda>v. nv_campaign v = campaign \<and> nv_accepted_candidate v = candidate \<and> nv_outcome v = InvitationAccepted)
               (map nvr_invitation (ry_invitations db)) of
          None \<Rightarrow> Inl ErrInvitationNotFound
        | Some v \<Rightarrow> Inr v)"

definition AuthorizeReInvitation ::
  "string \<Rightarrow> time \<Rightarrow> string \<Rightarrow> string \<Rightarrow> string \<Rightarrow> string \<Rightarrow> string \<Rightarrow> string \<Rightarrow> recruiting_db
     \<Rightarrow> recruiting_error + re_invitation \<times> recruiting_db" where
  "AuthorizeReInvitation i now tenant campaign candidate reason by interrupted db =
     (if TrimSpace reason = '''' then Inl ErrReInvitationReasonRequired
      else if TrimSpace by = '''' then Inl ErrReInvitationDeciderRequired
      else as_tenant tenant
        (let r = \<lparr>rn_id = i, rn_campaign = campaign, rn_tenant = tenant, rn_candidate = candidate, rn_reason = reason,
               rn_decided_by = by, rn_interrupted = interrupted, rn_consumed = '''', rn_created_at = now\<rparr> in
         if i \<in> rn_id ` set (ry_reinvitations db) \<or> campaign \<notin> cm_id ` set (ry_campaigns db) then Inl StatementRefused
         else Inr (r, db\<lparr>ry_reinvitations := ry_reinvitations db @ [r]\<rparr>)))"

text \<open>The oldest that is not yet claimed is bound to the new session.\<close>

definition unclaimed :: "string \<Rightarrow> string \<Rightarrow> re_invitation \<Rightarrow> bool" where
  "unclaimed campaign candidate r \<longleftrightarrow> rn_campaign r = campaign \<and> rn_candidate r = candidate \<and> rn_consumed r = ''''"

definition ClaimReInvitation :: "string \<Rightarrow> string \<Rightarrow> string \<Rightarrow> recruiting_db \<Rightarrow> recruiting_error + recruiting_db" where
  "ClaimReInvitation campaign candidate session db =
     as_user candidate
       (case sort_key rn_created_at (filter (unclaimed campaign candidate) (ry_reinvitations db)) of
          [] \<Rightarrow> Inl ErrNoReInvitation
        | oldest # _ \<Rightarrow>
            Inr (db\<lparr>ry_reinvitations := map (\<lambda>r. if rn_id r = rn_id oldest then r\<lparr>rn_consumed := session\<rparr> else r)
              (ry_reinvitations db)\<rparr>))"

definition ReInvitationsForCandidate ::
  "string \<Rightarrow> string \<Rightarrow> string \<Rightarrow> recruiting_db \<Rightarrow> recruiting_error + re_invitation list" where
  "ReInvitationsForCandidate tenant campaign candidate db =
     as_tenant tenant (Inr (sort_key rn_created_at
       (filter (\<lambda>r. rn_tenant r = tenant \<and> rn_campaign r = campaign \<and> rn_candidate r = candidate) (ry_reinvitations db))))"

section \<open>What the links keep\<close>

inductive invitation_step :: "recruiting_db \<Rightarrow> recruiting_db \<Rightarrow> bool" where
  issues: "IssueInvitation i now input enqueued db = Inr (v, db') \<Longrightarrow> invitation_step db db'"
| revokes: "RevokeInvitation tenant campaign i now db = Inr (v, db') \<Longrightarrow> invitation_step db db'"
| accepts: "AcceptInvitationByToken hash candidate now db = Inr (v, db') \<Longrightarrow> invitation_step db db'"
| declines: "DeclineInvitationByToken hash now db = Inr (v, db') \<Longrightarrow> invitation_step db db'"

text \<open>An ending is one fact with its time, and an acceptance one with its candidate.\<close>

definition link_ok :: "invitation_row \<Rightarrow> bool" where
  "link_ok r \<longleftrightarrow> (row_live r \<longleftrightarrow> nv_outcome_at (nvr_invitation r) = None)
     \<and> (nv_outcome (nvr_invitation r) = InvitationAccepted \<longleftrightarrow> nv_accepted_candidate (nvr_invitation r) \<noteq> '''')"

definition live_links :: "string \<Rightarrow> string \<Rightarrow> string \<Rightarrow> invitation_row list \<Rightarrow> invitation_row list" where
  "live_links tenant campaign recipient rows = filter (\<lambda>r. addressed tenant campaign recipient r \<and> row_live r) rows"

definition links_ok :: "invitation_row list \<Rightarrow> bool" where
  "links_ok rows \<longleftrightarrow> distinct (map (\<lambda>r. nv_id (nvr_invitation r)) rows) \<and> distinct (map nvr_token_hash rows)
     \<and> (\<forall>r \<in> set rows. link_ok r)
     \<and> (\<forall>tenant campaign recipient. length (live_links tenant campaign recipient rows) \<le> 1)"

text \<open>What names a link, and to whom.\<close>

definition same_link :: "invitation_row \<Rightarrow> invitation_row \<Rightarrow> bool" where
  "same_link r s \<longleftrightarrow> nvr_token_hash s = nvr_token_hash r \<and> nv_id (nvr_invitation s) = nv_id (nvr_invitation r)
     \<and> nv_tenant (nvr_invitation s) = nv_tenant (nvr_invitation r) \<and> nv_campaign (nvr_invitation s) = nv_campaign (nvr_invitation r)
     \<and> nv_recipient (nvr_invitation s) = nv_recipient (nvr_invitation r)
     \<and> nv_expires_at (nvr_invitation s) = nv_expires_at (nvr_invitation r)"

text \<open>A rewriting that ends live links and touches no other.\<close>

definition ends_links :: "(invitation_row \<Rightarrow> invitation_row) \<Rightarrow> bool" where
  "ends_links f \<longleftrightarrow> (\<forall>r. f r = r \<or> row_live r \<and> \<not> row_live (f r) \<and> same_link r (f r) \<and> (link_ok r \<longrightarrow> link_ok (f r)))"

definition endings_kept :: "invitation_row list \<Rightarrow> invitation_row list \<Rightarrow> bool" where
  "endings_kept rows rows' \<longleftrightarrow> (\<forall>r \<in> set rows. \<exists>s \<in> set rows'. same_link r s \<and> (\<not> row_live r \<longrightarrow> s = r))"

lemma same_link_refl [simp]: "same_link r r"
  by (simp add: same_link_def)

lemma same_link_trans: "same_link r s \<Longrightarrow> same_link s t \<Longrightarrow> same_link r t"
  by (simp add: same_link_def)

lemma endings_kept_refl: "endings_kept rows rows"
  unfolding endings_kept_def using same_link_refl by blast

lemma endings_kept_trans: "endings_kept as bs \<Longrightarrow> endings_kept bs cs \<Longrightarrow> endings_kept as cs"
  unfolding endings_kept_def
proof
  fix r assume 1: "\<forall>r \<in> set as. \<exists>s \<in> set bs. same_link r s \<and> (\<not> row_live r \<longrightarrow> s = r)"
    and 2: "\<forall>r \<in> set bs. \<exists>s \<in> set cs. same_link r s \<and> (\<not> row_live r \<longrightarrow> s = r)" and "r \<in> set as"
  then obtain s where s: "s \<in> set bs" "same_link r s" "\<not> row_live r \<longrightarrow> s = r" by blast
  with 2 obtain t where "t \<in> set cs" "same_link s t" "\<not> row_live s \<longrightarrow> t = s" by blast
  with s show "\<exists>s \<in> set cs. same_link r s \<and> (\<not> row_live r \<longrightarrow> s = r)" using same_link_trans by (intro bexI [of _ t]) auto
qed

lemma ends_links_same: "ends_links f \<Longrightarrow> same_link r (f r)"
  by (metis ends_links_def same_link_refl)

lemma ends_links_live: "ends_links f \<Longrightarrow> row_live (f r) \<Longrightarrow> f r = r"
  by (metis ends_links_def)

lemma ends_links_kept: "ends_links f \<Longrightarrow> endings_kept rows (map f rows @ more_rows)"
  unfolding endings_kept_def using ends_links_same [of f] by (fastforce simp: ends_links_def)

lemma live_links_map:
  assumes f: "ends_links f"
  shows "length (live_links t c m (map f rows)) \<le> length (live_links t c m rows)"
proof (induction rows)
  case (Cons r rows)
  have "addressed t c m (f r) \<longleftrightarrow> addressed t c m r" using ends_links_same [OF f, of r] by (simp add: same_link_def addressed_def)
  moreover have "row_live (f r) \<Longrightarrow> row_live r" using ends_links_live [OF f, of r] by simp
  ultimately show ?case using Cons by (auto simp: live_links_def)
qed (simp add: live_links_def)

lemma links_ok_map:
  assumes f: "ends_links f" and ok: "links_ok rows"
  shows "links_ok (map f rows)"
proof -
  have "map (\<lambda>r. nv_id (nvr_invitation r)) (map f rows) = map (\<lambda>r. nv_id (nvr_invitation r)) rows"
    "map nvr_token_hash (map f rows) = map nvr_token_hash rows"
    using ends_links_same [OF f] by (auto simp: same_link_def)
  moreover have "link_ok (f r)" if "r \<in> set rows" for r
    using ok that f by (metis ends_links_def links_ok_def)
  moreover have "length (live_links t c m (map f rows)) \<le> 1" for t c m
    using live_links_map [OF f, of t c m rows] ok by (metis links_ok_def le_trans)
  ultimately show ?thesis using ok by (simp del: map_map add: links_ok_def)
qed

lemma ends_links_if:
  assumes "\<And>r. P r \<Longrightarrow> row_live r" and "\<And>r. P r \<Longrightarrow> \<not> row_live (g r) \<and> same_link r (g r) \<and> (link_ok r \<longrightarrow> link_ok (g r))"
  shows "ends_links (\<lambda>r. if P r then g r else r)"
  using assms by (auto simp: ends_links_def)

lemma ended_ends: "out \<notin> {InvitationLive, InvitationAccepted} \<Longrightarrow> row_live r \<Longrightarrow>
    \<not> row_live (ended out now r) \<and> same_link r (ended out now r) \<and> (link_ok r \<longrightarrow> link_ok (ended out now r))"
  by (auto simp: ended_def row_live_def same_link_def link_ok_def)

lemma accepted_by_ends: "candidate \<noteq> '''' \<Longrightarrow> row_live r \<Longrightarrow>
    \<not> row_live (accepted_by candidate now r) \<and> same_link r (accepted_by candidate now r)
    \<and> (link_ok r \<longrightarrow> link_ok (accepted_by candidate now r))"
  by (auto simp: accepted_by_def row_live_def same_link_def link_ok_def)

lemma write_invitations_Inr:
  assumes w: "write_invitations e (update_returning P g (ry_invitations db)) db = Inr (v, db')"
    and p: "\<And>r. P r \<Longrightarrow> row_live r" and g: "\<And>r. P r \<Longrightarrow> \<not> row_live (g r) \<and> same_link r (g r) \<and> (link_ok r \<longrightarrow> link_ok (g r))"
    and ok: "links_ok (ry_invitations db)"
  shows "links_ok (ry_invitations db') \<and> endings_kept (ry_invitations db) (ry_invitations db')"
proof -
  from w have rows: "ry_invitations db' = map (\<lambda>r. if P r then g r else r) (ry_invitations db)"
    by (auto simp: write_invitations_def split: option.splits dest: update_returning_Some)
  note f = ends_links_if [of P g, OF p g]
  from links_ok_map [OF f ok] ends_links_kept [OF f, of "ry_invitations db" "[]"] show ?thesis by (simp add: rows)
qed

lemma links_ok_snoc:
  assumes "links_ok rows" and "nv_id (nvr_invitation n) \<notin> (\<lambda>q. nv_id (nvr_invitation q)) ` set rows"
    and "nvr_token_hash n \<notin> nvr_token_hash ` set rows" and "link_ok n"
    and "\<And>t c m. length (live_links t c m (rows @ [n])) \<le> 1"
  shows "links_ok (rows @ [n])"
  using assms by (simp add: links_ok_def)

lemma IssueInvitation_ok:
  assumes i: "IssueInvitation i now input enqueued db = Inr (v, db')" and ok: "links_ok (ry_invitations db)"
  shows "links_ok (ry_invitations db') \<and> endings_kept (ry_invitations db) (ry_invitations db')"
proof -
  let ?t = "cm_tenant (ii_campaign input)" and ?c = "cm_id (ii_campaign input)" and ?m = "ii_recipient input"
  let ?P = "\<lambda>r. addressed ?t ?c ?m r \<and> row_live r"
  let ?f = "\<lambda>r. if ?P r then ended InvitationSuperseded now r else r"
  from i obtain email where ins: "InsertInvitation (issued_row i email now input) (SupersedeLiveInvitations ?t ?c ?m now db) = Inr db'"
    by (auto simp: IssueInvitation_def as_tenant_Inr Let_def bindE_Inr split: if_splits option.splits)
  let ?n = "issued_row i email now input"
  have n: "row_live ?n" "link_ok ?n" "nv_id (nvr_invitation ?n) = i" "addressed ?t ?c ?m ?n"
    by (simp_all add: issued_row_def row_live_def link_ok_def addressed_def same_recipient_def)
  have f: "ends_links ?f" by (rule ends_links_if) (use ended_ends in auto)
  let ?db1 = "SupersedeLiveInvitations ?t ?c ?m now db"
  have sup: "ry_invitations ?db1 = map ?f (ry_invitations db)" by (simp add: SupersedeLiveInvitations_def)
  from ins have "db' = ?db1\<lparr>ry_invitations := ry_invitations ?db1 @ [?n]\<rparr>"
    and fresh: "nv_id (nvr_invitation ?n) \<notin> (\<lambda>q. nv_id (nvr_invitation q)) ` set (map ?f (ry_invitations db))"
      "nvr_token_hash ?n \<notin> nvr_token_hash ` set (map ?f (ry_invitations db))"
    unfolding sup [symmetric] by (auto simp: InsertInvitation_def split: if_splits)
  then have rows: "ry_invitations db' = map ?f (ry_invitations db) @ [?n]" by (simp add: sup)
  have k: "endings_kept (ry_invitations db) (ry_invitations db')" unfolding rows by (rule ends_links_kept [OF f])
  have none: "live_links ?t ?c ?m (map ?f (ry_invitations db)) = []"
    by (auto simp: live_links_def filter_empty_conv ended_def row_live_def addressed_def)
  have one: "length (live_links t c m (ry_invitations db')) \<le> 1" for t c m
  proof (cases "addressed t c m ?n")
    case True
    with n(4) have "addressed t c m r \<longleftrightarrow> addressed ?t ?c ?m r" for r by (auto simp: addressed_def same_recipient_def)
    then have "live_links t c m (map ?f (ry_invitations db)) = []" using none by (simp add: live_links_def)
    then show ?thesis by (simp add: rows live_links_def)
  next
    case False
    then have "live_links t c m (ry_invitations db') = live_links t c m (map ?f (ry_invitations db))"
      by (simp add: rows live_links_def)
    moreover have "length (live_links t c m (map ?f (ry_invitations db))) \<le> 1"
      using links_ok_map [OF f ok] unfolding links_ok_def by blast
    ultimately show ?thesis by simp
  qed
  have "links_ok (ry_invitations db')"
    unfolding rows by (rule links_ok_snoc [OF links_ok_map [OF f ok] fresh n(2)]) (use one rows in simp)
  with k show ?thesis by blast
qed

lemma invitation_step_ok:
  assumes "invitation_step db db'" and ok: "links_ok (ry_invitations db)"
  shows "links_ok (ry_invitations db') \<and> endings_kept (ry_invitations db) (ry_invitations db')"
  using assms(1)
proof (cases rule: invitation_step.cases)
  case (issues i now input enqueued v)
  then show ?thesis using IssueInvitation_ok [OF _ ok] by blast
next
  case (revokes tenant campaign i now v)
  then show ?thesis unfolding RevokeInvitation_def as_tenant_Inr
    by (elim conjE write_invitations_Inr [OF _ _ _ ok]) (use ended_ends in auto)
next
  case (accepts hash candidate now v)
  then have "candidate \<noteq> ''''" and w: "write_invitations ErrInvitationNotLive
      (update_returning (answerable hash now) (accepted_by candidate now) (ry_invitations db)) db = Inr (v, db')"
    by (auto simp: AcceptInvitationByToken_def as_token_def split: if_splits)
  show ?thesis by (rule write_invitations_Inr [OF w _ _ ok]) (use accepted_by_ends \<open>candidate \<noteq> ''''\<close> in \<open>auto simp: answerable_def\<close>)
next
  case (declines hash now v)
  then have w: "write_invitations ErrInvitationNotLive
      (update_returning (answerable hash now) (ended InvitationDeclined now) (ry_invitations db)) db = Inr (v, db')"
    by (auto simp: DeclineInvitationByToken_def as_token_def split: if_splits)
  show ?thesis by (rule write_invitations_Inr [OF w _ _ ok]) (use ended_ends in \<open>auto simp: answerable_def\<close>)
qed

lemma invitations_reach:
  assumes "invitation_step\<^sup>*\<^sup>* db db'" and "links_ok (ry_invitations db)"
  shows "links_ok (ry_invitations db') \<and> endings_kept (ry_invitations db) (ry_invitations db')"
  using assms
proof (induction rule: rtranclp_induct)
  case (step y z)
  then show ?case using invitation_step_ok [of y z] endings_kept_trans by blast
qed (simp add: endings_kept_refl)

lemma at_most_one:
  "length (filter P xs) \<le> 1 \<Longrightarrow> distinct xs \<Longrightarrow> x \<in> set xs \<Longrightarrow> y \<in> set xs \<Longrightarrow> P x \<Longrightarrow> P y \<Longrightarrow> x = y"
proof (rule ccontr)
  assume a: "length (filter P xs) \<le> 1" "distinct xs" "x \<in> set xs" "y \<in> set xs" "P x" "P y" "x \<noteq> y"
  then have "{x, y} \<subseteq> set (filter P xs)" by auto
  then have "card {x, y} \<le> length (filter P xs)" by (meson List.finite_set card_length card_mono le_trans)
  with a show False by simp
qed

text \<open>C9: A recipient never holds two working links.  Whatever is issued, sent again, revoked, accepted or declined, one
  transaction after another, no two live invitations of a campaign are addressed to one recipient, whatever the case
  their address was typed in; no invitation is ever removed or readdressed; and one that has ended stays ended
  exactly as it ended, so a revocation never overwrites an answer and a resend never revives a link.\<close>

theorem one_live_link_to_a_recipient:
  assumes "links_ok (ry_invitations db)" and "invitation_step\<^sup>*\<^sup>* db db'"
  shows "(\<forall>r \<in> set (ry_invitations db'). \<forall>s \<in> set (ry_invitations db').
        row_live r \<and> row_live s \<and> nv_tenant (nvr_invitation r) = nv_tenant (nvr_invitation s)
        \<and> nv_campaign (nvr_invitation r) = nv_campaign (nvr_invitation s)
        \<and> same_recipient (nv_recipient (nvr_invitation r)) (nv_recipient (nvr_invitation s)) \<longrightarrow> r = s)
    \<and> (\<forall>r \<in> set (ry_invitations db). \<exists>s \<in> set (ry_invitations db'). same_link r s \<and> (\<not> row_live r \<longrightarrow> s = r))"
proof -
  from invitations_reach [OF assms(2,1)] have ok: "links_ok (ry_invitations db')"
    and k: "endings_kept (ry_invitations db) (ry_invitations db')" by blast+
  have d: "distinct (ry_invitations db')" using ok by (simp add: links_ok_def distinct_map)
  have "r = s" if "r \<in> set (ry_invitations db')" "s \<in> set (ry_invitations db')" "row_live r" "row_live s"
    "nv_tenant (nvr_invitation r) = nv_tenant (nvr_invitation s)" "nv_campaign (nvr_invitation r) = nv_campaign (nvr_invitation s)"
    "same_recipient (nv_recipient (nvr_invitation r)) (nv_recipient (nvr_invitation s))" for r s
  proof -
    let ?P = "\<lambda>q. addressed (nv_tenant (nvr_invitation s)) (nv_campaign (nvr_invitation s)) (nv_recipient (nvr_invitation s)) q \<and> row_live q"
    have "length (filter ?P (ry_invitations db')) \<le> 1" using ok unfolding links_ok_def live_links_def by blast
    from at_most_one [OF this d that(1,2)] that show ?thesis by (simp add: addressed_def same_recipient_def)
  qed
  with k show ?thesis unfolding endings_kept_def by blast
qed

lemma write_invitations_row:
  assumes "write_invitations e (update_returning P g (ry_invitations db)) db = Inr (v, db')"
  shows "\<exists>r \<in> set (ry_invitations db). P r \<and> g r \<in> set (ry_invitations db') \<and> v = nvr_invitation (g r)"
proof -
  from assms obtain x rows where u: "update_returning P g (ry_invitations db) = Some (x, rows)"
    and v: "v = nvr_invitation x" and db': "db' = db\<lparr>ry_invitations := rows\<rparr>"
    by (auto simp: write_invitations_def split: option.splits)
  from update_returning_Some [OF u] obtain r where "r \<in> set (ry_invitations db)" "P r" "x = g r"
    "rows = map (\<lambda>y. if P y then g y else y) (ry_invitations db)" by blast
  then show ?thesis by (intro bexI [of _ r]) (auto simp: v db')
qed

lemma find_key:
  "distinct (map k xs) \<Longrightarrow> x \<in> set xs \<Longrightarrow> find (\<lambda>y. k y = k x) xs = Some x"
  by (induction xs) (auto dest: image_eqI)

text \<open>C10: A link is answered once.  When the holder of a token accepts, the link was live and not past its expiry, and its
  row records the acceptance, the time and the candidate; when they decline, the refusal.  From then on, whatever else
  is issued or revoked, no acceptance and no refusal by that token succeeds, no revocation touches the row, and the
  token still resolves to exactly what was answered; a candidate who accepted is found as having accepted an invitation
  to that campaign.\<close>

theorem a_link_is_answered_once:
  assumes "links_ok (ry_invitations db)"
    and "AcceptInvitationByToken hash candidate now db = Inr (v, db1) \<or> DeclineInvitationByToken hash now db = Inr (v, db1)"
    and "invitation_step\<^sup>*\<^sup>* db1 db2"
  shows "ResolveInvitationByToken hash db2 = Inr v \<and> nv_outcome_at v = Some now \<and> now < nv_expires_at v
    \<and> nv_outcome v \<in> {InvitationAccepted, InvitationDeclined}
    \<and> (\<forall>k t. AcceptInvitationByToken hash k t db2 \<in> {Inl ErrInvitationNotLive, Inl StatementRefused}
          \<and> DeclineInvitationByToken hash t db2 = Inl ErrInvitationNotLive)
    \<and> (\<forall>tenant campaign t. is_ok (RevokeInvitation tenant campaign (nv_id v) t db2) = False)
    \<and> (nv_outcome v = InvitationAccepted \<longrightarrow> TrimSpace candidate \<noteq> '''' \<longrightarrow>
         (\<exists>w. AcceptedInvitationForCandidate (nv_campaign v) candidate db2 = Inr w \<and> nv_campaign w = nv_campaign v
            \<and> nv_accepted_candidate w = candidate \<and> nv_outcome w = InvitationAccepted))"
proof -
  have "\<exists>r s. TrimSpace hash \<noteq> '''' \<and> r \<in> set (ry_invitations db) \<and> answerable hash now r \<and> s \<in> set (ry_invitations db1)
    \<and> (s = ended InvitationDeclined now r \<or> s = accepted_by candidate now r \<and> candidate \<noteq> '''') \<and> v = nvr_invitation s"
    using assms(2)
    by (auto simp: AcceptInvitationByToken_def DeclineInvitationByToken_def as_token_def split: if_splits
        dest!: write_invitations_row)
  then obtain r s where h: "TrimSpace hash \<noteq> ''''" and r: "r \<in> set (ry_invitations db)" "answerable hash now r"
    and s: "s \<in> set (ry_invitations db1)" "s = ended InvitationDeclined now r \<or> s = accepted_by candidate now r \<and> candidate \<noteq> ''''"
    and v: "v = nvr_invitation s" by blast
  have dead: "\<not> row_live s" "nvr_token_hash s = hash" "nv_outcome_at v = Some now" "now < nv_expires_at v"
    "nv_outcome v \<in> {InvitationAccepted, InvitationDeclined}"
    "nv_outcome v = InvitationAccepted \<longrightarrow> nv_accepted_candidate v = candidate"
    using s(2) r(2) by (auto simp: v ended_def accepted_by_def row_live_def answerable_def)
  have "invitation_step db db1" using assms(2) by (auto intro: invitation_step.intros)
  with assms(1) have ok1: "links_ok (ry_invitations db1)" using invitation_step_ok by blast
  from invitations_reach [OF assms(3) ok1] have ok2: "links_ok (ry_invitations db2)"
    and k: "endings_kept (ry_invitations db1) (ry_invitations db2)" by blast+
  from k s(1) dead(1) have s2: "s \<in> set (ry_invitations db2)" unfolding endings_kept_def by metis
  have only: "q = s" if "q \<in> set (ry_invitations db2)" "nvr_token_hash q = hash \<or> nv_id (nvr_invitation q) = nv_id v" for q
    using ok2 that s2 dead(2) v by (auto simp: links_ok_def distinct_map inj_on_def)
  have "find (\<lambda>q. nvr_token_hash q = nvr_token_hash s) (ry_invitations db2) = Some s"
    using ok2 s2 by (intro find_key) (simp_all add: links_ok_def)
  then have res: "ResolveInvitationByToken hash db2 = Inr v" using h v dead(2) by (simp add: ResolveInvitationByToken_def as_token_def)
  have no: "update_returning (answerable hash t) f (ry_invitations db2) = None" for t f
    using only dead(1) by (auto simp: update_returning_None answerable_def)
  have nr: "update_returning (\<lambda>q. nv_tenant (nvr_invitation q) = tenant \<and> nv_id (nvr_invitation q) = nv_id v
      \<and> nv_campaign (nvr_invitation q) = campaign \<and> row_live q) f (ry_invitations db2) = None" for tenant campaign f
    using only dead(1) by (auto simp: update_returning_None)
  have acc: "\<exists>w. AcceptedInvitationForCandidate (nv_campaign v) candidate db2 = Inr w \<and> nv_campaign w = nv_campaign v
            \<and> nv_accepted_candidate w = candidate \<and> nv_outcome w = InvitationAccepted"
    if "nv_outcome v = InvitationAccepted" "TrimSpace candidate \<noteq> ''''"
  proof -
    let ?P = "\<lambda>w. nv_campaign w = nv_campaign v \<and> nv_accepted_candidate w = candidate \<and> nv_outcome w = InvitationAccepted"
    have "v \<in> set (map nvr_invitation (ry_invitations db2))" "?P v" using s2 v that(1) dead(6) by auto
    then obtain w where w: "find ?P (map nvr_invitation (ry_invitations db2)) = Some w"
      by (cases "find ?P (map nvr_invitation (ry_invitations db2))") (auto simp: find_None_iff)
    from find_SomeD [OF w] w that(2) show ?thesis by (simp add: AcceptedInvitationForCandidate_def as_user_def SetUser_def)
  qed
  show ?thesis
    using res dead acc h by (simp add: AcceptInvitationByToken_def DeclineInvitationByToken_def RevokeInvitation_def as_token_def
        as_tenant_def write_invitations_def no nr)
qed

text \<open>An open campaign, and two links to one recipient: the second supersedes the first.\<close>

definition ex_open_campaign :: campaign where
  "ex_open_campaign = opened ''d1'' 5 ex_campaign"

definition ex_hash :: "char \<Rightarrow> string" where
  "ex_hash c = replicate 64 c"

definition ex_input :: "string \<Rightarrow> char \<Rightarrow> issue_input" where
  "ex_input recipient c = \<lparr>ii_campaign = ex_open_campaign, ii_recipient = recipient, ii_issued_by = ''u1'',
     ii_expires_at = 100, ii_token_hash = ex_hash c\<rparr>"

definition ex_campaigns :: recruiting_db where
  "ex_campaigns = ex_recruiting\<lparr>ry_campaigns := [ex_open_campaign]\<rparr>"

definition ex_first_link :: recruiting_db where
  "ex_first_link = (case IssueInvitation ''i1'' 10 (ex_input ''Ada@Example.org'' (CHR ''a'')) (Some ''e1'') ex_campaigns of
     Inr (v, db) \<Rightarrow> db | Inl _ \<Rightarrow> ex_campaigns)"

definition ex_second_link :: recruiting_db where
  "ex_second_link = (case IssueInvitation ''i2'' 20 (ex_input ''ada@example.org'' (CHR ''b'')) (Some ''e2'') ex_first_link of
     Inr (v, db) \<Rightarrow> db | Inl _ \<Rightarrow> ex_first_link)"

lemma links_ok_Nil: "links_ok []"
  by (simp add: links_ok_def live_links_def)

lemma issues_step:
  "is_ok (IssueInvitation i now input enqueued db) \<Longrightarrow>
     invitation_step db (case IssueInvitation i now input enqueued db of Inr (v, db') \<Rightarrow> db' | Inl _ \<Rightarrow> db)"
  by (auto simp: is_ok_iff intro: issues)

lemma ex_links: "invitation_step ex_campaigns ex_first_link" "invitation_step ex_first_link ex_second_link"
  unfolding ex_first_link_def ex_second_link_def
  by (rule issues_step, code_simp)+

lemma ex_links_ok: "links_ok (ry_invitations ex_campaigns)" "links_ok (ry_invitations ex_second_link)"
proof -
  have "ry_invitations ex_campaigns = []" by code_simp
  then show "links_ok (ry_invitations ex_campaigns)" by (simp add: links_ok_Nil)
  then show "links_ok (ry_invitations ex_second_link)" using ex_links invitation_step_ok by blast
qed

theorem one_live_link_to_a_recipient_witness:
  "map (\<lambda>r. invitation_Status 30 (nvr_invitation r)) (ry_invitations ex_second_link) = [''superseded'', ''live'']
   \<and> list_all (\<lambda>r. list_all (\<lambda>s. row_live r \<and> row_live s \<and> nv_tenant (nvr_invitation r) = nv_tenant (nvr_invitation s)
        \<and> nv_campaign (nvr_invitation r) = nv_campaign (nvr_invitation s)
        \<and> same_recipient (nv_recipient (nvr_invitation r)) (nv_recipient (nvr_invitation s)) \<longrightarrow> r = s)
        (ry_invitations ex_second_link)) (ry_invitations ex_second_link)"
proof -
  have "invitation_step\<^sup>*\<^sup>* ex_campaigns ex_second_link" using ex_links by (meson rtranclp.rtrancl_into_rtrancl rtranclp.rtrancl_refl)
  from one_live_link_to_a_recipient [OF ex_links_ok(1) this] show ?thesis
    unfolding list_all_iff by (intro conjI) (code_simp, blast)
qed

theorem a_link_is_answered_once_witness:
  "\<exists>v db. AcceptInvitationByToken (ex_hash (CHR ''b'')) ''k1'' 40 ex_second_link = Inr (v, db)
     \<and> DeclineInvitationByToken (ex_hash (CHR ''b'')) 41 db = Inl ErrInvitationNotLive
     \<and> is_ok (AcceptedInvitationForCandidate ''c1'' ''k1'' db)"
proof -
  have "is_ok (AcceptInvitationByToken (ex_hash (CHR ''b'')) ''k1'' 40 ex_second_link)" by code_simp
  then obtain v db where a: "AcceptInvitationByToken (ex_hash (CHR ''b'')) ''k1'' 40 ex_second_link = Inr (v, db)"
    by (auto simp: is_ok_iff)
  have "map_sum id (\<lambda>x. (nv_campaign (fst x), nv_outcome (fst x))) (AcceptInvitationByToken (ex_hash (CHR ''b'')) ''k1'' 40 ex_second_link)
    = Inr (''c1'', InvitationAccepted)" by code_simp
  with a have v: "nv_campaign v = ''c1''" "nv_outcome v = InvitationAccepted" by simp_all
  have t: "TrimSpace ''k1'' \<noteq> ''''" by code_simp
  from a_link_is_answered_once [OF ex_links_ok(2) disjI1 [OF a] rtranclp.rtrancl_refl] v t a show ?thesis
    by (auto simp: is_ok_iff)
qed

text \<open>
  At the instant of its expiry a link still reads as live, and can no longer be accepted.
\<close>

lemma live_at_expiry_is_not_acceptable:
  "(case ResolveInvitationByToken (ex_hash (CHR ''b'')) ex_second_link of
      Inr v \<Rightarrow> Live 100 v \<and> invitation_Status 100 v = ''live'' | Inl _ \<Rightarrow> False)
   \<and> AcceptInvitationByToken (ex_hash (CHR ''b'')) ''k1'' 100 ex_second_link = Inl ErrInvitationNotLive"
  by code_simp

text \<open>
  Two issues at once: each retires what it sees, neither sees the row the other has not committed, and the
  statements land in this order.  Both links are live.
\<close>

definition both_at_once :: "recruiting_error + recruiting_db" where
  "both_at_once =
     (let db = SupersedeLiveInvitations ''t1'' ''c1'' ''ada@example.org'' 50
                 (SupersedeLiveInvitations ''t1'' ''c1'' ''ada@example.org'' 50 ex_campaigns) in
      bindE (InsertInvitation (issued_row ''i1'' ''e1'' 50 (ex_input ''ada@example.org'' (CHR ''a''))) db)
        (InsertInvitation (issued_row ''i2'' ''e2'' 50 (ex_input ''ada@example.org'' (CHR ''b'')))))"

lemma two_issues_at_once_leave_two_links:
  "map_sum id (\<lambda>db. length (live_links ''t1'' ''c1'' ''ada@example.org'' (ry_invitations db))) both_at_once = Inr 2"
  by code_simp

section \<open>One further attempt\<close>

definition unclaimed_of :: "string \<Rightarrow> string \<Rightarrow> recruiting_db \<Rightarrow> re_invitation list" where
  "unclaimed_of campaign candidate db = filter (unclaimed campaign candidate) (ry_reinvitations db)"

lemma filter_unclaimed_claimed:
  "session \<noteq> '''' \<Longrightarrow>
     filter (unclaimed campaign candidate) (map (\<lambda>q. if rn_id q = i then q\<lparr>rn_consumed := session\<rparr> else q) xs)
     = filter (\<lambda>q. rn_id q \<noteq> i) (filter (unclaimed campaign candidate) xs)"
  by (induction xs) (auto simp: unclaimed_def)

lemma length_without:
  "distinct (map k xs) \<Longrightarrow> r \<in> set xs \<Longrightarrow> length xs = Suc (length (filter (\<lambda>q. k q \<noteq> k r) xs))"
proof (induction xs)
  case (Cons x xs)
  show ?case
  proof (cases "x = r")
    case True
    with Cons.prems(1) have "filter (\<lambda>q. k q \<noteq> k r) xs = xs" by (auto simp: filter_id_conv) (metis imageI)
    with True show ?thesis by simp
  next
    case False
    with Cons.prems have "r \<in> set xs" "k x \<noteq> k r" by (auto intro: image_eqI)
    with Cons show ?thesis by simp
  qed
qed simp

lemma claim_takes_one:
  assumes "ClaimReInvitation campaign candidate session db = Inr db'" and "session \<noteq> ''''"
    and "distinct (map rn_id (ry_reinvitations db))"
  shows "\<exists>r \<in> set (unclaimed_of campaign candidate db). (\<forall>q \<in> set (unclaimed_of campaign candidate db). rn_created_at r \<le> rn_created_at q)
    \<and> r\<lparr>rn_consumed := session\<rparr> \<in> set (ry_reinvitations db')
    \<and> unclaimed_of campaign candidate db' = filter (\<lambda>q. rn_id q \<noteq> rn_id r) (unclaimed_of campaign candidate db)
    \<and> length (unclaimed_of campaign candidate db) = Suc (length (unclaimed_of campaign candidate db'))"
proof -
  let ?U = "unclaimed_of campaign candidate db"
  from assms(1) obtain r rest where s: "sort_key rn_created_at ?U = r # rest"
    and db': "db' = db\<lparr>ry_reinvitations := map (\<lambda>q. if rn_id q = rn_id r then q\<lparr>rn_consumed := session\<rparr> else q) (ry_reinvitations db)\<rparr>"
    by (auto simp: ClaimReInvitation_def as_user_Inr unclaimed_of_def split: list.splits)
  have r: "r \<in> set ?U" using s by (metis list.set_intros(1) set_sort)
  have "sorted (map rn_created_at (r # rest))" using s by (metis sorted_sort_key)
  then have least: "\<forall>q \<in> set ?U. rn_created_at r \<le> rn_created_at q" using s by (metis set_sort sorted_simps(2) list.simps(9) image_eqI set_map set_ConsD order_refl)
  have rm: "r \<in> set (ry_reinvitations db)" using r by (simp add: unclaimed_of_def)
  have u': "unclaimed_of campaign candidate db' = filter (\<lambda>q. rn_id q \<noteq> rn_id r) ?U"
    unfolding unclaimed_of_def db' using filter_unclaimed_claimed [OF assms(2)] by simp
  have "distinct (map rn_id ?U)" using assms(3) by (simp add: unclaimed_of_def distinct_map_filter)
  from length_without [OF this r] u' have "length ?U = Suc (length (unclaimed_of campaign candidate db'))" by simp
  with r least u' rm show ?thesis by (intro bexI [of _ r] conjI) (auto simp: db' intro: image_eqI)
qed


end
