(* ===== verification/Disclosure.thy ===== *)
theory Disclosure
  imports Campaigns
begin

text \<open>
  \<open>services/platform/internal/recruiting/disclosure.go\<close> and the consent half of \<open>store.go\<close>: what a candidate must
  be told, what may be asked of them, what they accepted, and the answer that stands for each purpose.
\<close>

section \<open>The rules\<close>

definition neverRequired :: "string list" where
  "neverRequired = [''model_improvement'']"

definition requiredDisclosureAreas :: "string list" where
  "requiredDisclosureAreas = [''employer'', ''purpose'', ''ai_involvement'', ''recording'', ''access'', ''retention'',
     ''rights_route'', ''accommodations'', ''result_disclosure'', ''human_decision_ownership'']"

record purpose =
  pp_name :: string
  pp_required :: bool

definition ValidatePurposes :: "purpose list \<Rightarrow> recruiting_error option" where
  "ValidatePurposes purposes =
     first_error (\<lambda>p. if pp_required p \<and> pp_name p \<in> set neverRequired
       then Some (ErrPurposeCannotBeRequired (pp_name p)) else None) purposes"

text \<open>A section that is absent reads as empty.\<close>

definition ValidateDisclosure :: "(string \<times> string) list \<Rightarrow> recruiting_error option" where
  "ValidateDisclosure sections =
     first_error (\<lambda>area. if TrimSpace (case map_of sections area of Some t \<Rightarrow> t | None \<Rightarrow> '''') = ''''
       then Some (ErrDisclosureIncomplete area) else None) requiredDisclosureAreas"

definition answers :: "consent_decision list \<Rightarrow> string \<Rightarrow> consent_decision option" where
  "answers decisions = map_of (rev (map (\<lambda>d. (kd_purpose d, d)) decisions))"

definition MayProceed :: "purpose list \<Rightarrow> consent_decision list \<Rightarrow> recruiting_error option" where
  "MayProceed purposes decisions =
     first_error (\<lambda>p.
       if \<not> pp_required p then None
       else case answers decisions (pp_name p) of
              None \<Rightarrow> Some (ErrConsentMissing (pp_name p))
            | Some d \<Rightarrow> (if \<not> kd_granted d then Some (ErrConsentRefused (pp_name p)) else None)) purposes"

record acceptance_request =
  aq_tenant :: string
  aq_campaign :: string
  aq_candidate :: string
  aq_digest :: string
  aq_version :: string

definition NewAcceptance :: "time \<Rightarrow> acceptance_request \<Rightarrow> recruiting_error + acceptance" where
  "NewAcceptance now q =
     (if TrimSpace (aq_version q) = '''' then Inl FieldUnnamed
      else if \<not> digestPattern (aq_digest q) then Inl ErrNotADigest
      else if \<exists>v \<in> {aq_tenant q, aq_campaign q, aq_candidate q}. TrimSpace v = '''' then Inl FieldUnnamed
      else Inr \<lparr>dq_tenant = aq_tenant q, dq_campaign = aq_campaign q, dq_candidate = aq_candidate q,
        dq_digest = aq_digest q, dq_version = aq_version q, dq_accepted_at = now\<rparr>)"

section \<open>The store\<close>

definition InsertAcceptance :: "string \<Rightarrow> acceptance \<Rightarrow> recruiting_db \<Rightarrow> recruiting_error + recruiting_db" where
  "InsertAcceptance i a db =
     (if i \<in> fst ` set (ry_acceptances db) \<or> dq_campaign a \<notin> cm_id ` set (ry_campaigns db)
         \<or> \<not> digestPattern (dq_digest a) \<or> sql_trim (dq_version a) = ''''
      then Inl StatementRefused
      else Inr (db\<lparr>ry_acceptances := ry_acceptances db @ [(i, a)]\<rparr>))"

definition RecordConsentDecision :: "consent_row \<Rightarrow> recruiting_db \<Rightarrow> recruiting_error + recruiting_db" where
  "RecordConsentDecision r db =
     (if kdr_id r \<in> kdr_id ` set (ry_consents db) \<or> kdr_campaign r \<notin> cm_id ` set (ry_campaigns db)
         \<or> sql_trim (kd_purpose (kdr_decision r)) = '''' \<or> \<not> digestPattern (kdr_digest r)
         \<or> kd_required (kdr_decision r) \<and> kd_purpose (kdr_decision r) = ''model_improvement''
      then Inl StatementRefused
      else Inr (db\<lparr>ry_consents := ry_consents db @ [r]\<rparr>))"

definition consent_row_of :: "acceptance \<Rightarrow> time \<Rightarrow> string \<Rightarrow> consent_decision \<Rightarrow> consent_row" where
  "consent_row_of a now i d =
     \<lparr>kdr_id = i, kdr_tenant = dq_tenant a, kdr_campaign = dq_campaign a, kdr_candidate = dq_candidate a,
      kdr_decision = d, kdr_digest = dq_digest a, kdr_decided_at = now\<rparr>"

fun record_decisions ::
  "acceptance \<Rightarrow> time \<Rightarrow> (string \<times> consent_decision) list \<Rightarrow> recruiting_db \<Rightarrow> recruiting_error + recruiting_db" where
  "record_decisions a now [] db = Inr db"
| "record_decisions a now ((i, d) # rest) db =
     bindE (RecordConsentDecision (consent_row_of a now i d) db) (record_decisions a now rest)"

text \<open>The acceptance with every decision made against it, each with the identifier drawn for it.\<close>

definition RecordAcceptance ::
  "string \<Rightarrow> time \<Rightarrow> acceptance \<Rightarrow> (string \<times> consent_decision) list \<Rightarrow> recruiting_db \<Rightarrow> recruiting_error + recruiting_db" where
  "RecordAcceptance i now a decisions db =
     as_tenant (dq_tenant a)
       (bindE (InsertAcceptance i (a\<lparr>dq_accepted_at := now\<rparr>) db) (record_decisions a now decisions))"

definition consents_of :: "string \<Rightarrow> string \<Rightarrow> string \<Rightarrow> recruiting_db \<Rightarrow> consent_row list" where
  "consents_of tenant campaign candidate db =
     filter (\<lambda>r. kdr_tenant r = tenant \<and> kdr_campaign r = campaign \<and> kdr_candidate r = candidate) (ry_consents db)"

text \<open>One row to a purpose, the newest; the purposes in order.\<close>

definition standing_rows :: "consent_row list \<Rightarrow> consent_row list" where
  "standing_rows rows =
     map (\<lambda>p. the (newest_by kdr_decided_at (filter (\<lambda>r. kd_purpose (kdr_decision r) = p) rows)))
       (remdups (sort (map (\<lambda>r. kd_purpose (kdr_decision r)) rows)))"

definition StandingConsent :: "string \<Rightarrow> string \<Rightarrow> string \<Rightarrow> recruiting_db \<Rightarrow> recruiting_error + consent_decision list" where
  "StandingConsent tenant campaign candidate db =
     as_tenant tenant (Inr (map kdr_decision (standing_rows (consents_of tenant campaign candidate db))))"

definition AcceptancesFor :: "string \<Rightarrow> string \<Rightarrow> string \<Rightarrow> recruiting_db \<Rightarrow> recruiting_error + acceptance list" where
  "AcceptancesFor tenant campaign candidate db =
     as_tenant tenant (Inr (newest_first dq_accepted_at
       (filter (\<lambda>a. dq_tenant a = tenant \<and> dq_campaign a = campaign \<and> dq_candidate a = candidate)
         (map snd (ry_acceptances db)))))"

section \<open>What stands\<close>

lemma record_decisions_Inr:
  "record_decisions a now ds db = Inr db' \<Longrightarrow>
     db' = db\<lparr>ry_consents := ry_consents db @ map (\<lambda>(i, d). consent_row_of a now i d) ds\<rparr>"
proof (induction ds arbitrary: db)
  case (Cons x ds)
  obtain i d where x: "x = (i, d)" by (cases x)
  from Cons.prems obtain db1 where r: "RecordConsentDecision (consent_row_of a now i d) db = Inr db1"
    and rest: "record_decisions a now ds db1 = Inr db'" by (auto simp: x bindE_Inr)
  from r have "db1 = db\<lparr>ry_consents := ry_consents db @ [consent_row_of a now i d]\<rparr>"
    by (simp add: RecordConsentDecision_def split: if_splits)
  with Cons.IH [OF rest] show ?case by (simp add: x)
qed simp

lemma RecordAcceptance_Inr:
  assumes "RecordAcceptance i now a ds db = Inr db'"
  shows "TrimSpace (dq_tenant a) \<noteq> ''''
    \<and> db' = db\<lparr>ry_acceptances := ry_acceptances db @ [(i, a\<lparr>dq_accepted_at := now\<rparr>)],
        ry_consents := ry_consents db @ map (\<lambda>(i, d). consent_row_of a now i d) ds\<rparr>"
  using assms by (auto simp: RecordAcceptance_def as_tenant_Inr bindE_Inr InsertAcceptance_def split: if_splits
      dest!: record_decisions_Inr)

lemma answers_distinct:
  assumes "distinct (map kd_purpose ds)"
  shows "answers ds p = Some d \<longleftrightarrow> d \<in> set ds \<and> kd_purpose d = p"
proof -
  have "distinct (map fst (rev (map (\<lambda>d. (kd_purpose d, d)) ds)))" using assms by (simp add: rev_map [symmetric] comp_def)
  then show ?thesis unfolding answers_def by (auto simp: map_of_eq_Some_iff)
qed

lemma standing_rows_newest:
  "distinct (map (\<lambda>r. kd_purpose (kdr_decision r)) (standing_rows rows))
   \<and> (r \<in> set (standing_rows rows) \<longleftrightarrow>
        newest_by kdr_decided_at (filter (\<lambda>q. kd_purpose (kdr_decision q) = kd_purpose (kdr_decision r)) rows) = Some r)"
proof -
  let ?P = "\<lambda>p. filter (\<lambda>r. kd_purpose (kdr_decision r) = p) rows"
  let ?ps = "remdups (sort (map (\<lambda>r. kd_purpose (kdr_decision r)) rows))"
  have some: "\<exists>x. newest_by kdr_decided_at (?P p) = Some x \<and> kd_purpose (kdr_decision x) = p" if "p \<in> set ?ps" for p
  proof -
    from that have "?P p \<noteq> []" by (auto simp: filter_empty_conv)
    then obtain x where x: "newest_by kdr_decided_at (?P p) = Some x" by (metis newest_by_None not_None_eq)
    with newest_by_Some(1) [OF x] show ?thesis by auto
  qed
  have m: "map (\<lambda>r. kd_purpose (kdr_decision r)) (standing_rows rows) = ?ps"
    unfolding standing_rows_def map_map comp_def by (rule map_idI) (use some in fastforce)
  have "distinct ?ps" by simp
  then have 1: "distinct (map (\<lambda>r. kd_purpose (kdr_decision r)) (standing_rows rows))" unfolding m .
  have 2: "newest_by kdr_decided_at (?P (kd_purpose (kdr_decision r))) = Some r" if "r \<in> set (standing_rows rows)"
  proof -
    from that obtain p where p: "p \<in> set ?ps" "r = the (newest_by kdr_decided_at (?P p))"
      unfolding standing_rows_def by auto
    from some [OF p(1)] p(2) show ?thesis by auto
  qed
  have 3: "r \<in> set (standing_rows rows)" if n: "newest_by kdr_decided_at (?P (kd_purpose (kdr_decision r))) = Some r"
  proof -
    from newest_by_Some(1) [OF n] have "kd_purpose (kdr_decision r) \<in> set ?ps" by auto
    with n show ?thesis unfolding standing_rows_def by force
  qed
  from 1 2 3 show ?thesis by blast
qed

lemma MayProceed_None:
  assumes "distinct (map kd_purpose ds)"
  shows "MayProceed purposes ds = None \<longleftrightarrow>
    (\<forall>p \<in> set purposes. pp_required p \<longrightarrow> (\<exists>d \<in> set ds. kd_purpose d = pp_name p \<and> kd_granted d))"
proof -
  have "(if \<not> pp_required p then None
       else case answers ds (pp_name p) of None \<Rightarrow> Some (ErrConsentMissing (pp_name p))
            | Some d \<Rightarrow> (if \<not> kd_granted d then Some (ErrConsentRefused (pp_name p)) else None)) = None
     \<longleftrightarrow> (pp_required p \<longrightarrow> (\<exists>d \<in> set ds. kd_purpose d = pp_name p \<and> kd_granted d))" for p
  proof (cases "answers ds (pp_name p)")
    case None
    with answers_distinct [OF assms, of "pp_name p"] have "\<not> (\<exists>d \<in> set ds. kd_purpose d = pp_name p)" by auto
    with None show ?thesis by auto
  next
    case (Some x)
    with answers_distinct [OF assms, of "pp_name p"] have "d = x" if "d \<in> set ds" "kd_purpose d = pp_name p" for d
      using that by (metis option.inject)
    moreover have "x \<in> set ds \<and> kd_purpose x = pp_name p" using Some answers_distinct [OF assms] by blast
    ultimately show ?thesis using Some by auto
  qed
  then show ?thesis unfolding MayProceed_def first_error_None by (intro ball_cong refl)
qed

lemma filter_purpose_distinct:
  assumes "distinct (map (\<lambda>x. kd_purpose (snd x)) ds)" and "(i, d) \<in> set ds"
  shows "filter (\<lambda>x. kd_purpose (snd x) = kd_purpose d) ds = [(i, d)]"
  using assms
proof (induction ds)
  case (Cons x ds)
  show ?case
  proof (cases "x = (i, d)")
    case True
    with Cons.prems(1) have "filter (\<lambda>x. kd_purpose (snd x) = kd_purpose d) ds = []" by (force simp: filter_empty_conv)
    with True show ?thesis by simp
  next
    case False
    with Cons.prems(2) have m: "(i, d) \<in> set ds" by simp
    then have "kd_purpose d \<in> set (map (\<lambda>x. kd_purpose (snd x)) ds)" by force
    moreover from Cons.prems(1) have "kd_purpose (snd x) \<notin> set (map (\<lambda>x. kd_purpose (snd x)) ds)" by simp
    ultimately have "kd_purpose (snd x) \<noteq> kd_purpose d" by metis
    with Cons.IH [OF _ m] Cons.prems(1) show ?thesis by simp
  qed
qed simp

text \<open>C23: The last answer stands, and only what is required counts.  Recording an acceptance with decisions keeps every
  acceptance and decision there was; what stands for the candidate afterwards is one decision to a purpose: for the
  purposes just answered the answer just given, a withdrawal as much as a grant, and for every other purpose what
  stood before.  The candidate may proceed exactly when each required purpose stands granted, whatever stands, or does
  not, for the optional ones.\<close>

theorem the_last_answer_stands:
  assumes "RecordAcceptance i now a ds db = Inr db'"
    and "distinct (map (\<lambda>x. kd_purpose (snd x)) ds)"
    and "\<forall>r \<in> set (consents_of (dq_tenant a) (dq_campaign a) (dq_candidate a) db). kdr_decided_at r \<le> now"
  shows "\<exists>old new. StandingConsent (dq_tenant a) (dq_campaign a) (dq_candidate a) db = Inr old
    \<and> StandingConsent (dq_tenant a) (dq_campaign a) (dq_candidate a) db' = Inr new
    \<and> set (ry_consents db) \<subseteq> set (ry_consents db') \<and> set (ry_acceptances db) \<subseteq> set (ry_acceptances db')
    \<and> distinct (map kd_purpose new)
    \<and> set new = snd ` set ds \<union> {d \<in> set old. kd_purpose d \<notin> (\<lambda>x. kd_purpose (snd x)) ` set ds}
    \<and> (\<forall>purposes. MayProceed purposes new = None \<longleftrightarrow>
         (\<forall>p \<in> set purposes. pp_required p \<longrightarrow> (\<exists>d \<in> set new. kd_purpose d = pp_name p \<and> kd_granted d)))"
proof -
  let ?old = "consents_of (dq_tenant a) (dq_campaign a) (dq_candidate a) db"
  let ?rows = "map (\<lambda>(i, d). consent_row_of a now i d) ds"
  let ?k = "\<lambda>r. kd_purpose (kdr_decision r)"
  from RecordAcceptance_Inr [OF assms(1)] have t: "TrimSpace (dq_tenant a) \<noteq> ''''"
    and db': "db' = db\<lparr>ry_acceptances := ry_acceptances db @ [(i, a\<lparr>dq_accepted_at := now\<rparr>)], ry_consents := ry_consents db @ ?rows\<rparr>"
    by auto
  have new: "consents_of (dq_tenant a) (dq_campaign a) (dq_candidate a) db' = ?old @ ?rows"
    by (auto simp: db' consents_of_def consent_row_of_def filter_map comp_def split_def)
  have split: "filter (\<lambda>q. ?k q = p) (?old @ ?rows)
      = filter (\<lambda>q. ?k q = p) ?old @ map (\<lambda>(i, d). consent_row_of a now i d) (filter (\<lambda>x. kd_purpose (snd x) = p) ds)" for p
    by (simp add: filter_map comp_def split_def consent_row_of_def)
  have given: "newest_by kdr_decided_at (filter (\<lambda>q. ?k q = kd_purpose d) (?old @ ?rows)) = Some (consent_row_of a now j d)"
    if "(j, d) \<in> set ds" for j d
  proof -
    have "\<forall>y \<in> set (filter (\<lambda>q. ?k q = kd_purpose d) ?old). kdr_decided_at y \<le> kdr_decided_at (consent_row_of a now j d)"
      using assms(3) by (auto simp: consent_row_of_def)
    from newest_by_append [OF this] show ?thesis
      unfolding split using filter_purpose_distinct [OF assms(2) that] by simp
  qed
  have kept: "newest_by kdr_decided_at (filter (\<lambda>q. ?k q = p) (?old @ ?rows)) = newest_by kdr_decided_at (filter (\<lambda>q. ?k q = p) ?old)"
    if "p \<notin> (\<lambda>x. kd_purpose (snd x)) ` set ds" for p
  proof -
    from that have "filter (\<lambda>x. kd_purpose (snd x) = p) ds = []" by (force simp: filter_empty_conv)
    then show ?thesis unfolding split by simp
  qed
  define S where "S = standing_rows (?old @ ?rows)"
  have S: "r \<in> set S \<longleftrightarrow> (\<exists>(j, d) \<in> set ds. r = consent_row_of a now j d)
      \<or> r \<in> set (standing_rows ?old) \<and> ?k r \<notin> (\<lambda>x. kd_purpose (snd x)) ` set ds" for r
  proof (cases "?k r \<in> (\<lambda>x. kd_purpose (snd x)) ` set ds")
    case True
    then obtain j d where jd: "(j, d) \<in> set ds" "?k r = kd_purpose d" by force
    have "r \<in> set S \<longleftrightarrow> r = consent_row_of a now j d"
      unfolding S_def standing_rows_newest [of _ r, THEN conjunct2] jd(2) given [OF jd(1)] by auto
    moreover have "r = consent_row_of a now j d" if "(l, e) \<in> set ds" "r = consent_row_of a now l e" for l e
    proof -
      from that(2) jd(2) have "kd_purpose e = kd_purpose d" by (simp add: consent_row_of_def)
      with filter_purpose_distinct [OF assms(2) that(1)] filter_purpose_distinct [OF assms(2) jd(1)] have "(l, e) = (j, d)"
        by (metis list.inject)
      with that(2) show ?thesis by simp
    qed
    ultimately show ?thesis using True jd(1) by blast
  next
    case False
    have "\<not> (\<exists>(j, d) \<in> set ds. r = consent_row_of a now j d)" using False by (force simp: consent_row_of_def)
    moreover have "r \<in> set S \<longleftrightarrow> r \<in> set (standing_rows ?old)"
      unfolding S_def standing_rows_newest [of _ r, THEN conjunct2] kept [OF False] by simp
    ultimately show ?thesis using False by blast
  qed
  have dS: "distinct (map kd_purpose (map kdr_decision S))"
    using standing_rows_newest [of "?old @ ?rows"] unfolding S_def by (simp add: comp_def)
  have "set (map kdr_decision S) = snd ` set ds \<union> {d \<in> set (map kdr_decision (standing_rows ?old)). kd_purpose d \<notin> (\<lambda>x. kd_purpose (snd x)) ` set ds}"
    (is "?L = ?R")
  proof
    show "?L \<subseteq> ?R"
    proof
      fix d assume "d \<in> ?L"
      then obtain r where r: "r \<in> set S" "d = kdr_decision r" by auto
      from r(1) consider j e where "(j, e) \<in> set ds" "r = consent_row_of a now j e"
        | "r \<in> set (standing_rows ?old)" "?k r \<notin> (\<lambda>x. kd_purpose (snd x)) ` set ds" using S [of r] by blast
      then show "d \<in> ?R"
      proof cases
        case 1
        then have "d = e" using r(2) by (simp add: consent_row_of_def)
        with 1(1) have "d \<in> snd ` set ds" by force
        then show ?thesis by blast
      next
        case 2
        with r(2) show ?thesis by simp
      qed
    qed
    show "?R \<subseteq> ?L"
    proof
      fix d assume "d \<in> ?R"
      then consider j where "(j, d) \<in> set ds" | r where "r \<in> set (standing_rows ?old)" "d = kdr_decision r"
        "?k r \<notin> (\<lambda>x. kd_purpose (snd x)) ` set ds" by auto
      then show "d \<in> ?L"
      proof cases
        case 1
        then have "consent_row_of a now j d \<in> set S" using S by blast
        then show ?thesis by (force simp: consent_row_of_def)
      next
        case 2
        then have "r \<in> set S" using S by blast
        with 2 show ?thesis by simp
      qed
    qed
  qed
  note stands = this
  have o: "StandingConsent (dq_tenant a) (dq_campaign a) (dq_candidate a) db = Inr (map kdr_decision (standing_rows ?old))"
    using t by (simp add: StandingConsent_def as_tenant_Inr)
  have n: "StandingConsent (dq_tenant a) (dq_campaign a) (dq_candidate a) db' = Inr (map kdr_decision S)"
    using t by (simp add: StandingConsent_def as_tenant_Inr new S_def)
  have k: "set (ry_consents db) \<subseteq> set (ry_consents db')" "set (ry_acceptances db) \<subseteq> set (ry_acceptances db')"
    by (auto simp: db')
  show ?thesis
    by (intro exI conjI allI) (rule o n k dS stands MayProceed_None [OF dS])+
qed

text \<open>A candidate grants both, and then withdraws what is optional.\<close>

definition ex_acceptance :: acceptance where
  "ex_acceptance = \<lparr>dq_tenant = ''t1'', dq_campaign = ''c1'', dq_candidate = ''k1'',
     dq_digest = ''sha256:'' @ replicate 64 (CHR ''a''), dq_version = ''1'', dq_accepted_at = 0\<rparr>"

definition ex_decide :: "string \<Rightarrow> bool \<Rightarrow> consent_decision" where
  "ex_decide p g = \<lparr>kd_purpose = p, kd_required = False, kd_granted = g\<rparr>"

definition ex_consented :: recruiting_db where
  "ex_consented = (case RecordAcceptance ''a1'' 10 ex_acceptance
     [(''x1'', ex_decide ''recording'' True), (''x2'', ex_decide ''model_improvement'' True)] ex_recruiting of Inr db \<Rightarrow> db | Inl _ \<Rightarrow> ex_recruiting)"

theorem the_last_answer_stands_witness:
  "\<exists>db old new. RecordAcceptance ''a2'' 20 ex_acceptance [(''x3'', ex_decide ''model_improvement'' False)] ex_consented = Inr db
     \<and> StandingConsent ''t1'' ''c1'' ''k1'' ex_consented = Inr old \<and> StandingConsent ''t1'' ''c1'' ''k1'' db = Inr new
     \<and> ex_decide ''model_improvement'' True \<in> set old \<and> ex_decide ''model_improvement'' False \<in> set new
     \<and> ex_decide ''recording'' True \<in> set new
     \<and> MayProceed [\<lparr>pp_name = ''recording'', pp_required = True\<rparr>, \<lparr>pp_name = ''model_improvement'', pp_required = False\<rparr>] new = None"
proof -
  let ?ds = "[(''x3'', ex_decide ''model_improvement'' False)]"
  have "is_ok (RecordAcceptance ''a2'' 20 ex_acceptance ?ds ex_consented)" by code_simp
  then obtain db where r: "RecordAcceptance ''a2'' 20 ex_acceptance ?ds ex_consented = Inr db" by (auto simp: is_ok_iff)
  have d: "distinct (map (\<lambda>x. kd_purpose (snd x)) ?ds)" by simp
  have n: "\<forall>r \<in> set (consents_of (dq_tenant ex_acceptance) (dq_campaign ex_acceptance) (dq_candidate ex_acceptance) ex_consented).
    kdr_decided_at r \<le> 20" by code_simp
  have i: "dq_tenant ex_acceptance = ''t1''" "dq_campaign ex_acceptance = ''c1''" "dq_candidate ex_acceptance = ''k1''"
    by (simp_all add: ex_acceptance_def)
  have o: "StandingConsent ''t1'' ''c1'' ''k1'' ex_consented = Inr [ex_decide ''model_improvement'' True, ex_decide ''recording'' True]"
    by code_simp
  from the_last_answer_stands [OF r d n] obtain new where new: "StandingConsent ''t1'' ''c1'' ''k1'' db = Inr new"
    and set: "set new = snd ` set ?ds \<union> {d \<in> set [ex_decide ''model_improvement'' True, ex_decide ''recording'' True].
      kd_purpose d \<notin> (\<lambda>x. kd_purpose (snd x)) ` set ?ds}"
    and may: "\<And>purposes. MayProceed purposes new = None \<longleftrightarrow>
         (\<forall>p \<in> set purposes. pp_required p \<longrightarrow> (\<exists>d \<in> set new. kd_purpose d = pp_name p \<and> kd_granted d))"
    unfolding i o by auto
  from set have m: "ex_decide ''model_improvement'' False \<in> set new" "ex_decide ''recording'' True \<in> set new"
    by (auto simp: ex_decide_def)
  then have "MayProceed [\<lparr>pp_name = ''recording'', pp_required = True\<rparr>, \<lparr>pp_name = ''model_improvement'', pp_required = False\<rparr>] new = None"
    unfolding may by (auto simp: ex_decide_def intro!: bexI [of _ "ex_decide ''recording'' True"])
  with r o new m show ?thesis by auto
qed


end
