(* ===== verification/Screening.thy ===== *)
theory Screening
  imports Invitations Disclosure Accommodations Review_Desk
begin

text \<open>
  The candidate's side of a screening (\<open>services/platform/cmd/api/screening_adapter.go\<close>, and \<open>Resend\<close> of
  \<open>invitations_adapter.go\<close>): resolving, accepting and declining a link, starting a session, asking for an
  accommodation.  Recruiting, the interview store and the provisioning of accounts meet here; each store works
  in transactions of its own, so what a failed start leaves behind is part of its result.  Provisioning an
  account and signing it in is identity's, an argument over a state of its own.
\<close>

record screening_state =
  sw_recruiting :: recruiting_db
  sw_interview :: interview_db

datatype screening_error =
    ErrScreeningInvitationUnknown
  | ErrScreeningInvitationNotLive
  | ErrScreeningSessionMissing
  | ErrScreeningCampaignNotOpen
  | ErrReInvitationRequired
  | ErrDisclosureInvalid
  | ErrAccommodationUnknownAdjustment
  | ErrAccommodationTooLate
  | ErrInvitationNotResendable
  | ScreeningRecruiting recruiting_error
  | ScreeningInterview interview_error
  | ScreeningIdentity

section \<open>The link\<close>

definition screeningError :: "recruiting_error \<Rightarrow> screening_error" where
  "screeningError e =
     (if e = ErrInvitationUnknownToken then ErrScreeningInvitationUnknown
      else if e = ErrInvitationNotLive then ErrScreeningInvitationNotLive
      else ScreeningRecruiting e)"

text \<open>The account of an address, signed in: its identifier and session, or a failure; and what it leaves of identity.\<close>

type_synonym ('i, 's) provisioning = "string \<Rightarrow> 'i \<Rightarrow> (string \<times> 's) option \<times> 'i"

definition Accept_link ::
  "('i, 's) provisioning \<Rightarrow> string \<Rightarrow> time \<Rightarrow> 'i \<Rightarrow> recruiting_db \<Rightarrow> (screening_error + 's) \<times> 'i \<times> recruiting_db" where
  "Accept_link provision hash now ids db =
     (case ResolveInvitationByToken hash db of
        Inl e \<Rightarrow> (Inl (screeningError e), ids, db)
      | Inr v \<Rightarrow>
          (case provision (nv_recipient v) ids of
             (None, ids') \<Rightarrow> (Inl ScreeningIdentity, ids', db)
           | (Some (candidate, session), ids') \<Rightarrow>
               (case AcceptInvitationByToken hash candidate now db of
                  Inl e \<Rightarrow> (Inl (screeningError e), ids', db)
                | Inr (_, db') \<Rightarrow> (Inr session, ids', db'))))"

definition Decline_link :: "string \<Rightarrow> time \<Rightarrow> recruiting_db \<Rightarrow> screening_error + invitation \<times> recruiting_db" where
  "Decline_link hash now db =
     bindE (map_error screeningError (ResolveInvitationByToken hash db)) (\<lambda>_.
       map_error screeningError (DeclineInvitationByToken hash now db))"

text \<open>A fresh link to the recipient of one that has not been answered or revoked.\<close>

definition Resend ::
  "string \<Rightarrow> time \<Rightarrow> time \<Rightarrow> string \<Rightarrow> string option \<Rightarrow> campaign \<Rightarrow> string \<Rightarrow> string \<Rightarrow> recruiting_db
     \<Rightarrow> screening_error + invitation \<times> recruiting_db" where
  "Resend i now clock hash enqueued c invitation by db =
     bindE (map_error ScreeningRecruiting (InvitationByID (cm_tenant c) (cm_id c) invitation db)) (\<lambda>existing.
       if nv_outcome existing \<in> {InvitationAccepted, InvitationDeclined, InvitationRevoked} then Inl ErrInvitationNotResendable
       else map_error ScreeningRecruiting
         (IssueInvitation i now \<lparr>ii_campaign = c, ii_recipient = nv_recipient existing, ii_issued_by = by,
            ii_expires_at = clock + InvitationExpiry, ii_token_hash = hash\<rparr> enqueued db))"

section \<open>Starting a session\<close>

record screening_start =
  gs_campaign :: string
  gs_version :: string
  gs_digest :: string
  gs_consents :: "(string \<times> bool) list"

record start_draws =
  gd_session :: string
  gd_acceptance :: string
  gd_consent :: "nat \<Rightarrow> string"
  gd_created :: string
  gd_composing :: string
  gd_fulfilment :: "nat \<Rightarrow> string"

definition screening_session :: "string \<Rightarrow> string \<Rightarrow> invitation \<Rightarrow> screening_start \<Rightarrow> session" where
  "screening_session i candidate v input =
     \<lparr>se_ref = screening_ref i candidate (nv_tenant v), se_campaign = nv_campaign v,
      se_blueprint = ''campaign/'' @ nv_campaign v, se_config = '''', se_preference = '''', se_consent = gs_version input,
      se_epoch = 0, se_accepted = 0, se_state = StateDraft, se_version = 0, se_bundle_ref = '''', se_bundle_digest = '''',
      se_bundle_revision = 0, se_failure = '''', se_timing = 0, se_created_at = 0, se_changed_at = 0\<rparr>"

definition consent_rows :: "(nat \<Rightarrow> string) \<Rightarrow> (string \<times> bool) list \<Rightarrow> (string \<times> consent_decision) list" where
  "consent_rows ids consents =
     map (\<lambda>(n, p, g). (ids n, \<lparr>kd_purpose = p, kd_required = False, kd_granted = g\<rparr>)) (enumerate 0 consents)"

text \<open>Best effort: a fulfilment that cannot be recorded is passed over.\<close>

fun fulfil_granted ::
  "(nat \<Rightarrow> string) \<Rightarrow> nat \<Rightarrow> time \<Rightarrow> string \<Rightarrow> string \<Rightarrow> accommodation_view list \<Rightarrow> recruiting_db \<Rightarrow> recruiting_db" where
  "fulfil_granted ids n now tenant session [] db = db"
| "fulfil_granted ids n now tenant session (v # vs) db =
     fulfil_granted ids (n + 1) now tenant session vs
       (if qv_state v \<noteq> ''granted'' then db
        else case FulfilAccommodation (ids n) now now tenant (qa_id (qv_request v)) session db db of
               Inl _ \<Rightarrow> db | Inr (_, db') \<Rightarrow> db')"

definition fulfilGrantedAccommodations ::
  "(nat \<Rightarrow> string) \<Rightarrow> time \<Rightarrow> string \<Rightarrow> string \<Rightarrow> string \<Rightarrow> string \<Rightarrow> recruiting_db \<Rightarrow> recruiting_db" where
  "fulfilGrantedAccommodations ids now tenant campaign candidate session db =
     (case AccommodationsFor tenant campaign candidate db of
        Inl _ \<Rightarrow> db | Inr views \<Rightarrow> fulfil_granted ids 0 now tenant session views db)"

text \<open>The session in its own schema: created, read back and moved to composing.\<close>

definition create_composing ::
  "string \<Rightarrow> string \<Rightarrow> time \<Rightarrow> session \<Rightarrow> interview_db \<Rightarrow> (screening_error + session) \<times> interview_db" where
  "create_composing created composing now s db =
     (let actor = \<lparr>ac_id = ref_candidate (se_ref s), ac_type = ''user''\<rparr> in
      case Create s actor created now db of
        Inl e \<Rightarrow> (Inl (ScreeningInterview e), db)
      | Inr db1 \<Rightarrow>
          (case bindE (Get (se_ref s) db1) (\<lambda>read. Transition read StateComposing no_effects actor composing now db1) of
             Inl e \<Rightarrow> (Inl (ScreeningInterview e), db1)
           | Inr (s', db2) \<Rightarrow> (Inr s', db2)))"

text \<open>The authority to start: an accepted invitation to a campaign that is still open.\<close>

definition may_start :: "string \<Rightarrow> string \<Rightarrow> recruiting_db \<Rightarrow> screening_error + invitation" where
  "may_start candidate campaign db =
     (case AcceptedInvitationForCandidate campaign candidate db of
        Inl e \<Rightarrow> Inl (if e = ErrInvitationNotFound then ErrScreeningSessionMissing else ScreeningRecruiting e)
      | Inr v \<Rightarrow>
          (case CampaignByID (nv_tenant v) (nv_campaign v) db of
             Inl e \<Rightarrow> Inl (ScreeningRecruiting e)
           | Inr c \<Rightarrow> (if cm_status c \<noteq> StatusOpen then Inl ErrScreeningCampaignNotOpen else Inr v)))"

text \<open>A restart claims a re-invitation; \<open>seen\<close> is the interview schema as the check for an earlier session finds it.\<close>

definition claim_restart ::
  "string \<Rightarrow> string \<Rightarrow> invitation \<Rightarrow> interview_db \<Rightarrow> recruiting_db \<Rightarrow> screening_error + recruiting_db" where
  "claim_restart candidate new v seen db =
     (case ScreeningPhaseForCandidate (nv_campaign v) candidate seen of
        Inl e \<Rightarrow> Inl (ScreeningInterview e)
      | Inr None \<Rightarrow> Inr db
      | Inr (Some _) \<Rightarrow>
          map_error (\<lambda>e. if e = ErrNoReInvitation then ErrReInvitationRequired else ScreeningRecruiting e)
            (ClaimReInvitation (nv_campaign v) candidate new db))"

definition StartScreeningSession ::
  "start_draws \<Rightarrow> time \<Rightarrow> string \<Rightarrow> screening_start \<Rightarrow> interview_db \<Rightarrow> screening_state
     \<Rightarrow> (screening_error + session) \<times> screening_state" where
  "StartScreeningSession d now candidate input seen w =
     (case may_start candidate (gs_campaign input) (sw_recruiting w) of
        Inl e \<Rightarrow> (Inl e, w)
      | Inr v \<Rightarrow>
     (case claim_restart candidate (gd_session d) v seen (sw_recruiting w) of
        Inl e \<Rightarrow> (Inl e, w)
      | Inr db1 \<Rightarrow>
     (case NewAcceptance now \<lparr>aq_tenant = nv_tenant v, aq_campaign = nv_campaign v, aq_candidate = candidate,
             aq_digest = gs_digest input, aq_version = gs_version input\<rparr> of
        Inl e \<Rightarrow> (Inl ErrDisclosureInvalid, w\<lparr>sw_recruiting := db1\<rparr>)
      | Inr a \<Rightarrow>
     (case RecordAcceptance (gd_acceptance d) now a (consent_rows (gd_consent d) (gs_consents input)) db1 of
        Inl e \<Rightarrow> (Inl (ScreeningRecruiting e), w\<lparr>sw_recruiting := db1\<rparr>)
      | Inr db2 \<Rightarrow>
     (case create_composing (gd_created d) (gd_composing d) now (screening_session (gd_session d) candidate v input) (sw_interview w) of
        (Inl e, i) \<Rightarrow> (Inl e, \<lparr>sw_recruiting = db2, sw_interview = i\<rparr>)
      | (Inr s, i) \<Rightarrow>
          (Inr s, \<lparr>sw_recruiting = fulfilGrantedAccommodations (gd_fulfilment d) now (nv_tenant v) (nv_campaign v) candidate (se_id s) db2,
                   sw_interview = i\<rparr>))))))"

section \<open>Asking for an accommodation\<close>

definition screeningPhase :: "state option \<Rightarrow> session_phase" where
  "screeningPhase st =
     (case st of
        None \<Rightarrow> PhaseNoSession
      | Some s \<Rightarrow>
          (if s \<in> {StateDraft, StateComposing, StateReady, StateConnecting} then PhasePreparation
           else if s \<in> {StateInProgress, StateReconnecting} then PhaseUnderway
           else PhaseComplete))"

definition accommodationError :: "recruiting_error \<Rightarrow> screening_error" where
  "accommodationError e =
     (if e = ErrUnknownAdjustment then ErrAccommodationUnknownAdjustment
      else if e = ErrRequestTooLate then ErrAccommodationTooLate
      else ScreeningRecruiting e)"

definition accepted_invitation :: "string \<Rightarrow> string \<Rightarrow> recruiting_db \<Rightarrow> screening_error + invitation" where
  "accepted_invitation candidate campaign db =
     map_error (\<lambda>e. if e = ErrInvitationNotFound then ErrScreeningSessionMissing else ScreeningRecruiting e)
       (AcceptedInvitationForCandidate campaign candidate db)"

definition Request_accommodation ::
  "string \<Rightarrow> time \<Rightarrow> string \<Rightarrow> string \<Rightarrow> string \<Rightarrow> interview_db \<Rightarrow> recruiting_db
     \<Rightarrow> screening_error + accommodation_request \<times> recruiting_db" where
  "Request_accommodation i now candidate campaign adjustment seen db =
     bindE (accepted_invitation candidate campaign db) (\<lambda>v.
     bindE (map_error ScreeningInterview (ScreeningPhaseForCandidate campaign candidate seen)) (\<lambda>st.
     bindE (map_error accommodationError
       (NewAccommodationRequest now (nv_tenant v) campaign candidate adjustment (screeningPhase st))) (\<lambda>q.
       map_error ScreeningRecruiting (RequestAccommodation i now q db))))"

definition ListAccommodations ::
  "string \<Rightarrow> string \<Rightarrow> recruiting_db \<Rightarrow> screening_error + accommodation_view list" where
  "ListAccommodations candidate campaign db =
     bindE (accepted_invitation candidate campaign db) (\<lambda>v.
       map_error ScreeningRecruiting (AccommodationsFor (nv_tenant v) campaign candidate db))"


section \<open>What a start does\<close>

definition own_sessions :: "string \<Rightarrow> string \<Rightarrow> interview_db \<Rightarrow> session list" where
  "own_sessions campaign candidate db =
     filter (\<lambda>s. ref_mode (se_ref s) = ''screening'' \<and> ref_candidate (se_ref s) = candidate \<and> se_campaign s = campaign) (db_sessions db)"

definition authorized_restarts :: "string \<Rightarrow> string \<Rightarrow> recruiting_db \<Rightarrow> re_invitation list" where
  "authorized_restarts campaign candidate db =
     filter (\<lambda>r. rn_campaign r = campaign \<and> rn_candidate r = candidate \<and> rn_consumed r \<noteq> '''') (ry_reinvitations db)"

definition same_sessions :: "interview_db \<Rightarrow> interview_db \<Rightarrow> bool" where
  "same_sessions db db' \<longleftrightarrow>
     map (\<lambda>s. (se_ref s, se_campaign s)) (db_sessions db') = map (\<lambda>s. (se_ref s, se_campaign s)) (db_sessions db)"

lemma own_sessions_same:
  assumes "same_sessions db db'"
  shows "length (own_sessions campaign candidate db') = length (own_sessions campaign candidate db)"
proof -
  have count: "length (own_sessions campaign candidate d) = length (filter (\<lambda>(ref, c). ref_mode ref = ''screening''
      \<and> ref_candidate ref = candidate \<and> c = campaign) (map (\<lambda>s. (se_ref s, se_campaign s)) (db_sessions d)))" for d
    by (simp add: own_sessions_def filter_map comp_def)
  from assms show ?thesis unfolding count same_sessions_def by simp
qed

lemma phase_None_iff:
  assumes "ScreeningPhaseForCandidate campaign candidate db = Inr st"
  shows "st = None \<longleftrightarrow> own_sessions campaign candidate db = []"
proof -
  have "filter (\<lambda>s. session_visible (AsUser candidate) (se_ref s) \<and> se_campaign s = campaign
      \<and> ref_candidate (se_ref s) = candidate \<and> ref_mode (se_ref s) = ''screening'') (db_sessions db) = own_sessions campaign candidate db"
    unfolding own_sessions_def by (intro filter_cong) (auto simp: session_visible_def)
  moreover have "sort_key f xs = [] \<longleftrightarrow> xs = []" for f :: "session \<Rightarrow> int" and xs by (metis set_empty set_sort)
  ultimately show ?thesis using assms
    by (auto simp: ScreeningPhaseForCandidate_def SetUser_def split: option.splits if_splits list.splits)
qed

lemma Create_row:
  assumes "Create s actor e now db = Inr db'"
  shows "\<exists>row. db_sessions db' = db_sessions db @ [row] \<and> se_ref row = se_ref s \<and> se_campaign row = se_campaign s
    \<and> se_state row = StateDraft \<and> se_consent row = se_consent s \<and> se_blueprint row = se_blueprint s
    \<and> se_id s \<notin> se_id ` set (db_sessions db)"
proof -
  from assms obtain sc row db1 db2 where i: "InsertSession sc row db = Inr db1" and row: "se_ref row = se_ref s"
      "se_campaign row = se_campaign s" "se_state row = StateDraft" "se_consent row = se_consent s" "se_blueprint row = se_blueprint s"
    and p: "publish_event e now (created_event s actor) db1 = Inr db2"
    and a: "audit sc s actor ''interview.session_created'' ''allowed'' db2 = Inr db'"
    by (auto simp: Create_def Let_def bindE_Inr split: option.splits)
  from i have "db1 = db\<lparr>db_sessions := db_sessions db @ [row]\<rparr>" "se_id row \<notin> se_id ` set (db_sessions db)"
    by (auto simp: InsertSession_def split: if_splits)
  with publish_event_Inr [OF p] audit_Inr [OF a] row show ?thesis by auto
qed

lemma same_sessions_refl [simp]: "same_sessions db db"
  by (simp add: same_sessions_def)

lemma Transition_same_sessions: "Transition s to ef actor e now db = Inr (s', db') \<Longrightarrow> same_sessions db db'"
  using Transition_Inr [of s to ef actor e now db s' db']
  by (auto simp: same_sessions_def comp_def dest!: transition_frame_fields(1))

lemma create_composing_sessions:
  assumes "create_composing created composing now s db = (r, db')"
  shows "same_sessions db db' \<and> \<not> is_ok r
    \<or> (\<exists>db1 row. db_sessions db1 = db_sessions db @ [row] \<and> se_ref row = se_ref s \<and> se_campaign row = se_campaign s \<and> same_sessions db1 db')"
proof (cases "Create s \<lparr>ac_id = ref_candidate (se_ref s), ac_type = ''user''\<rparr> created now db")
  case (Inl e)
  with assms show ?thesis by (auto simp: create_composing_def same_sessions_def is_ok_iff)
next
  case (Inr db1)
  from Create_row [OF this] obtain row where "db_sessions db1 = db_sessions db @ [row]" "se_ref row = se_ref s" "se_campaign row = se_campaign s"
    by blast
  moreover have "same_sessions db1 db'" using assms Inr
    by (auto simp: create_composing_def Let_def bindE_Inr split: sum.splits dest: Transition_same_sessions)
  ultimately show ?thesis by blast
qed

lemma own_sessions_after:
  assumes "create_composing created composing now (screening_session i candidate v input) db = (r, db')"
  shows "length (own_sessions c k db') \<le> length (own_sessions c k db)
      + (if c = nv_campaign v \<and> k = candidate then 1 else 0)"
  using create_composing_sessions [OF assms]
proof (elim disjE exE conjE)
  assume "same_sessions db db'"
  then show ?thesis by (simp add: own_sessions_same)
next
  fix db1 row
  assume a: "db_sessions db1 = db_sessions db @ [row]" "se_ref row = se_ref (screening_session i candidate v input)"
    "se_campaign row = se_campaign (screening_session i candidate v input)" and "same_sessions db1 db'"
  then have "length (own_sessions c k db') = length (own_sessions c k db1)" by (simp add: own_sessions_same)
  also have "own_sessions c k db1 = own_sessions c k db @ (if c = nv_campaign v \<and> k = candidate then [row] else [])"
    using a by (auto simp: own_sessions_def screening_session_def screening_ref_def)
  finally show ?thesis by simp
qed

lemma more_satisfy:
  assumes "\<And>x. x \<in> set xs \<Longrightarrow> P x \<Longrightarrow> P (f x)" and "x \<in> set xs" and "\<not> P x" and "P (f x)"
  shows "length (filter P xs) < length (filter P (map f xs))"
  using assms
proof (induction xs)
  case (Cons y ys)
  have le: "length (filter P zs) \<le> length (filter P (map f zs))" if "\<And>x. x \<in> set zs \<Longrightarrow> P x \<Longrightarrow> P (f x)" for zs
    using that by (induction zs) (auto simp: le_SucI)
  show ?case
  proof (cases "x \<in> set ys")
    case True
    with Cons have "length (filter P ys) < length (filter P (map f ys))" by auto
    then show ?thesis using Cons.prems(1) [of y] by auto
  next
    case False
    then have "x = y" using Cons.prems(2) by simp
    with Cons.prems le [of ys] show ?thesis by (auto simp: less_Suc_eq_le)
  qed
qed simp

lemma ClaimReInvitation_Inr:
  assumes "ClaimReInvitation campaign candidate session db = Inr db'" and "session \<noteq> ''''"
  shows "\<exists>r \<in> set (ry_reinvitations db). unclaimed campaign candidate r
    \<and> db' = db\<lparr>ry_reinvitations := map (\<lambda>q. if rn_id q = rn_id r then q\<lparr>rn_consumed := session\<rparr> else q) (ry_reinvitations db)\<rparr>"
proof -
  from assms obtain r rest where s: "sort_key rn_created_at (filter (unclaimed campaign candidate) (ry_reinvitations db)) = r # rest"
    and db': "db' = db\<lparr>ry_reinvitations := map (\<lambda>q. if rn_id q = rn_id r then q\<lparr>rn_consumed := session\<rparr> else q) (ry_reinvitations db)\<rparr>"
    by (auto simp: ClaimReInvitation_def as_user_Inr split: list.splits)
  have "r \<in> set (filter (unclaimed campaign candidate) (ry_reinvitations db))" using s by (metis list.set_intros(1) set_sort)
  with db' show ?thesis by auto
qed

lemma claimed_restarts:
  assumes "ClaimReInvitation campaign candidate session db = Inr db'" and "session \<noteq> ''''"
  shows "length (authorized_restarts campaign candidate db) < length (authorized_restarts campaign candidate db')"
    and "length (authorized_restarts c k db) \<le> length (authorized_restarts c k db')"
proof -
  from ClaimReInvitation_Inr [OF assms] obtain r where r: "r \<in> set (ry_reinvitations db)" "unclaimed campaign candidate r"
    and db': "ry_reinvitations db' = map (\<lambda>q. if rn_id q = rn_id r then q\<lparr>rn_consumed := session\<rparr> else q) (ry_reinvitations db)"
    by auto
  show "length (authorized_restarts campaign candidate db) < length (authorized_restarts campaign candidate db')"
    unfolding authorized_restarts_def db' using r assms(2) by (intro more_satisfy [where x = r]) (auto simp: unclaimed_def)
  have "length (filter P xs) \<le> length (filter P (map f xs))" if "\<And>x. P x \<Longrightarrow> P (f x)" for P f and xs :: "re_invitation list"
    using that by (induction xs) (auto simp: le_SucI)
  then show "length (authorized_restarts c k db) \<le> length (authorized_restarts c k db')"
    unfolding authorized_restarts_def db' using assms(2) by auto
qed


lemma FulfilAccommodation_frame:
  "FulfilAccommodation i now clock tenant request session seen db = Inr (f, db')
     \<Longrightarrow> ry_reinvitations db' = ry_reinvitations db \<and> ry_acceptances db' = ry_acceptances db \<and> ry_invitations db' = ry_invitations db"
  by (auto dest: FulfilAccommodation_Inr)

lemma fulfil_granted_frame:
  "ry_reinvitations (fulfil_granted ids n now tenant session vs db) = ry_reinvitations db
   \<and> ry_acceptances (fulfil_granted ids n now tenant session vs db) = ry_acceptances db"
  by (induction vs arbitrary: n db)
    (auto simp: FulfilAccommodation_frame split: sum.splits dest: FulfilAccommodation_frame)

lemma fulfilGranted_frame:
  "ry_reinvitations (fulfilGrantedAccommodations ids now tenant campaign candidate session db) = ry_reinvitations db
   \<and> ry_acceptances (fulfilGrantedAccommodations ids now tenant campaign candidate session db) = ry_acceptances db"
  by (simp add: fulfilGrantedAccommodations_def fulfil_granted_frame split: sum.split)

text \<open>Whatever the outcome of a start: the sessions it leaves, and the restarts it has used up.\<close>

lemma start_leaves:
  assumes "StartScreeningSession d now candidate input seen w = (r, w')"
  obtains (refused) "w' = w"
  | (created) v db1 where "AcceptedInvitationForCandidate (gs_campaign input) candidate (sw_recruiting w) = Inr v"
      "claim_restart candidate (gd_session d) v seen (sw_recruiting w) = Inr db1"
      "ry_reinvitations (sw_recruiting w') = ry_reinvitations db1"
      "sw_interview w' = sw_interview w
       \<or> (\<exists>r i. create_composing (gd_created d) (gd_composing d) now (screening_session (gd_session d) candidate v input) (sw_interview w) = (r, i)
            \<and> sw_interview w' = i)"
proof (cases "may_start candidate (gs_campaign input) (sw_recruiting w)")
  case (Inl e)
  then have "w' = w" using assms by (simp add: StartScreeningSession_def)
  then show thesis by (rule refused)
next
  case (Inr v)
  note m = this
  then have v: "AcceptedInvitationForCandidate (gs_campaign input) candidate (sw_recruiting w) = Inr v"
    by (auto simp: may_start_def split: sum.splits if_splits)
  show thesis
  proof (cases "claim_restart candidate (gd_session d) v seen (sw_recruiting w)")
    case (Inl e)
    then have "w' = w" using assms m by (simp add: StartScreeningSession_def)
    then show thesis by (rule refused)
  next
    case (Inr db1)
    show thesis
    proof (rule created [OF v Inr])
      show "ry_reinvitations (sw_recruiting w') = ry_reinvitations db1"
        using assms m Inr by (auto simp: StartScreeningSession_def fulfilGranted_frame split: sum.splits prod.splits dest!: RecordAcceptance_Inr)
      show "sw_interview w' = sw_interview w
       \<or> (\<exists>r i. create_composing (gd_created d) (gd_composing d) now (screening_session (gd_session d) candidate v input) (sw_interview w) = (r, i)
            \<and> sw_interview w' = i)"
        using assms m Inr by (auto simp: StartScreeningSession_def split: sum.splits prod.splits)
    qed
  qed
qed


section \<open>One attempt to an authorization\<close>

text \<open>
  The steps: a start, whatever its outcome, that finds the sessions of the moment; an authorization; and
  whatever else moves sessions about without adding any of this candidate's, or leaves the re-invitations alone.
\<close>

inductive screening_step :: "screening_state \<Rightarrow> screening_state \<Rightarrow> bool" where
  start: "gd_session d \<noteq> '''' \<Longrightarrow> StartScreeningSession d now candidate input (sw_interview w) w = (r, w') \<Longrightarrow> screening_step w w'"
| authorize: "AuthorizeReInvitation i now tenant campaign candidate reason who interrupted (sw_recruiting w) = Inr (x, db)
    \<Longrightarrow> screening_step w (w\<lparr>sw_recruiting := db\<rparr>)"
| interview: "same_sessions (sw_interview w) i \<Longrightarrow> screening_step w (w\<lparr>sw_interview := i\<rparr>)"
| recruiting: "ry_reinvitations db = ry_reinvitations (sw_recruiting w) \<Longrightarrow> screening_step w (w\<lparr>sw_recruiting := db\<rparr>)"

definition attempts_bounded :: "screening_state \<Rightarrow> bool" where
  "attempts_bounded w \<longleftrightarrow> (\<forall>campaign candidate. length (own_sessions campaign candidate (sw_interview w))
     \<le> 1 + length (authorized_restarts campaign candidate (sw_recruiting w)))"

lemma authorized_restarts_cong:
  "ry_reinvitations db = ry_reinvitations db' \<Longrightarrow> authorized_restarts c k db = authorized_restarts c k db'"
  by (simp add: authorized_restarts_def)

lemma start_keeps_bound:
  assumes "attempts_bounded w" and "gd_session d \<noteq> ''''"
    and "StartScreeningSession d now candidate input (sw_interview w) w = (r, w')"
  shows "attempts_bounded w'"
  using assms(3)
proof (cases rule: start_leaves)
  case refused
  with assms(1) show ?thesis by simp
next
  case (created v db1)
  have bound: "length (own_sessions c k (sw_interview w)) \<le> 1 + length (authorized_restarts c k (sw_recruiting w))" for c k
    using assms(1) by (simp add: attempts_bounded_def)
  have grows: "length (own_sessions c k (sw_interview w')) \<le> length (own_sessions c k (sw_interview w))
      + (if c = nv_campaign v \<and> k = candidate then 1 else 0)" for c k
    using created(4) own_sessions_after by fastforce
  have after: "authorized_restarts c k (sw_recruiting w') = authorized_restarts c k db1" for c k
    using created(3) by (rule authorized_restarts_cong)
  from created(2) consider (first) "own_sessions (nv_campaign v) candidate (sw_interview w) = []" "db1 = sw_recruiting w"
    | (again) "ClaimReInvitation (nv_campaign v) candidate (gd_session d) (sw_recruiting w) = Inr db1"
    by (auto simp: claim_restart_def split: sum.splits option.splits dest: phase_None_iff)
  then show ?thesis
  proof cases
    case first
    have "length (own_sessions c k (sw_interview w')) \<le> 1 + length (authorized_restarts c k db1)" for c k
      using grows [of c k] bound [of c k] first by (auto split: if_splits)
    then show ?thesis by (simp add: attempts_bounded_def after)
  next
    case again
    have "length (own_sessions c k (sw_interview w')) \<le> 1 + length (authorized_restarts c k db1)" for c k
      using grows [of c k] bound [of c k] claimed_restarts(1) [OF again assms(2)] claimed_restarts(2) [OF again assms(2), of c k]
      by (auto split: if_splits)
    then show ?thesis by (simp add: attempts_bounded_def after)
  qed
qed

lemma AuthorizeReInvitation_restarts:
  "AuthorizeReInvitation i now tenant campaign candidate reason who interrupted db = Inr (x, db')
     \<Longrightarrow> authorized_restarts c k db' = authorized_restarts c k db"
  by (auto simp: AuthorizeReInvitation_def as_tenant_Inr Let_def authorized_restarts_def split: if_splits)

lemma screening_step_keeps: "screening_step w w' \<Longrightarrow> attempts_bounded w \<Longrightarrow> attempts_bounded w'"
proof (induction rule: screening_step.induct)
  case start
  from start_keeps_bound [OF start.prems start.hyps] show ?case .
next
  case recruiting
  then show ?case by (simp add: attempts_bounded_def authorized_restarts_def)
next
  case (authorize i now tenant campaign candidate reason who interrupted w x db)
  from AuthorizeReInvitation_restarts [OF authorize.hyps] authorize.prems show ?case by (simp add: attempts_bounded_def)
next
  case (interview w i)
  from own_sessions_same [OF interview.hyps] interview.prems show ?case by (simp add: attempts_bounded_def)
qed

text \<open>C13: A candidate has one attempt, and one more for every re-invitation that a recruiter authorized: whatever
  starts, failed starts and authorizations follow each other, in any order, a candidate never has more sessions
  in a campaign than one and the number of the re-invitations that starts have claimed.
\<close>

theorem one_attempt_to_an_authorization:
  assumes "screening_step\<^sup>*\<^sup>* w w'" and "db_sessions (sw_interview w) = []"
  shows "length (own_sessions campaign candidate (sw_interview w')) \<le> 1 + length (authorized_restarts campaign candidate (sw_recruiting w'))"
proof -
  have "attempts_bounded w" using assms(2) by (simp add: attempts_bounded_def own_sessions_def)
  with assms(1) have "attempts_bounded w'" by (induction rule: rtranclp_induct) (auto intro: screening_step_keeps)
  then show ?thesis by (simp add: attempts_bounded_def)
qed


lemma create_composing_Inr:
  assumes "create_composing created composing now s db = (Inr s', db')" and "sessions_keyed db"
  shows "s' \<in> set (db_sessions db') \<and> se_ref s' = se_ref s \<and> se_campaign s' = se_campaign s \<and> se_consent s' = se_consent s
    \<and> se_state s' = StateComposing"
proof -
  from assms(1) obtain db1 read where c: "Create s \<lparr>ac_id = ref_candidate (se_ref s), ac_type = ''user''\<rparr> created now db = Inr db1"
    and g: "Get (se_ref s) db1 = Inr read"
    and t: "Transition read StateComposing no_effects \<lparr>ac_id = ref_candidate (se_ref s), ac_type = ''user''\<rparr> composing now db1 = Inr (s', db')"
    by (auto simp: create_composing_def Let_def bindE_Inr split: sum.splits)
  from Create_row [OF c] obtain row where row: "db_sessions db1 = db_sessions db @ [row]" "se_ref row = se_ref s" "se_campaign row = se_campaign s"
    "se_consent row = se_consent s" "se_id s \<notin> se_id ` set (db_sessions db)" by blast
  have k: "sessions_keyed db1" using assms(2) row by (auto simp: sessions_keyed_def)
  from Transition_row [OF k t] obtain r where r: "r \<in> set (db_sessions db1)" "se_id r = se_id read"
    "s' = transitioned StateComposing no_effects now r" "db_sessions db' = map (\<lambda>x. if x = r then s' else x) (db_sessions db1)"
    by (auto simp: read_row_def)
  have "se_id read = se_id s" using g by (auto simp: Get_def get_def find_session_def split: option.splits dest!: find_SomeD)
  with keyed_unique [OF k r(1), of row] row r(2) have "r = row" by simp
  with r row show ?thesis by (force simp: transitioned_def no_effects_def)
qed

text \<open>C14: A session starts only on standing authority, and leaves its trail: a start that succeeds was for an accepted
  invitation of this candidate's to a campaign still open; the session is the candidate's own of that campaign,
  with the disclosure version agreed to, and is left composing; the acceptance of exactly that disclosure text is
  on record; and if there was an earlier session, a re-invitation not claimed before now names the new one.
\<close>

theorem a_start_rests_on_authority:
  assumes "StartScreeningSession d now candidate input seen w = (Inr s, w')" and "gd_session d \<noteq> ''''"
    and "sessions_keyed (sw_interview w)"
  shows "\<exists>v c. v \<in> nvr_invitation ` set (ry_invitations (sw_recruiting w)) \<and> nv_outcome v = InvitationAccepted
    \<and> nv_accepted_candidate v = candidate \<and> nv_campaign v = gs_campaign input
    \<and> CampaignByID (nv_tenant v) (nv_campaign v) (sw_recruiting w) = Inr c \<and> cm_status c = StatusOpen
    \<and> s \<in> set (db_sessions (sw_interview w')) \<and> se_ref s = screening_ref (gd_session d) candidate (nv_tenant v)
    \<and> se_campaign s = gs_campaign input \<and> se_consent s = gs_version input \<and> se_state s = StateComposing
    \<and> (\<exists>a. (gd_acceptance d, a) \<in> set (ry_acceptances (sw_recruiting w')) \<and> dq_candidate a = candidate
         \<and> dq_campaign a = gs_campaign input \<and> dq_digest a = gs_digest input \<and> dq_version a = gs_version input)
    \<and> (own_sessions (gs_campaign input) candidate seen \<noteq> [] \<longrightarrow>
        (\<exists>r \<in> set (ry_reinvitations (sw_recruiting w)). unclaimed (gs_campaign input) candidate r
          \<and> r\<lparr>rn_consumed := gd_session d\<rparr> \<in> set (ry_reinvitations (sw_recruiting w'))))"
proof -
  let ?w = "sw_recruiting w"
  from assms(1) obtain v db1 a db2 i where m: "may_start candidate (gs_campaign input) ?w = Inr v"
    and claim: "claim_restart candidate (gd_session d) v seen ?w = Inr db1"
    and a: "NewAcceptance now \<lparr>aq_tenant = nv_tenant v, aq_campaign = nv_campaign v, aq_candidate = candidate,
        aq_digest = gs_digest input, aq_version = gs_version input\<rparr> = Inr a"
    and rec: "RecordAcceptance (gd_acceptance d) now a (consent_rows (gd_consent d) (gs_consents input)) db1 = Inr db2"
    and comp: "create_composing (gd_created d) (gd_composing d) now (screening_session (gd_session d) candidate v input) (sw_interview w) = (Inr s, i)"
    and w': "w' = \<lparr>sw_recruiting = fulfilGrantedAccommodations (gd_fulfilment d) now (nv_tenant v) (nv_campaign v) candidate (se_id s) db2,
        sw_interview = i\<rparr>"
    unfolding StartScreeningSession_def by (auto split: sum.splits prod.splits)
  from m obtain c where v: "AcceptedInvitationForCandidate (gs_campaign input) candidate ?w = Inr v"
    and c: "CampaignByID (nv_tenant v) (nv_campaign v) ?w = Inr c" "cm_status c = StatusOpen"
    by (auto simp: may_start_def split: sum.splits if_splits)
  from v have v': "v \<in> nvr_invitation ` set (ry_invitations ?w)" "nv_outcome v = InvitationAccepted" "nv_accepted_candidate v = candidate"
    "nv_campaign v = gs_campaign input"
    by (auto simp: AcceptedInvitationForCandidate_def as_user_Inr split: option.splits dest!: find_SomeD)
  have s: "s \<in> set (db_sessions (sw_interview w'))" "se_ref s = screening_ref (gd_session d) candidate (nv_tenant v)"
    "se_campaign s = gs_campaign input" "se_consent s = gs_version input" "se_state s = StateComposing"
    using create_composing_Inr [OF comp assms(3)] by (simp_all add: w' screening_session_def v'(4))
  from a have "dq_candidate a = candidate" "dq_campaign a = gs_campaign input" "dq_digest a = gs_digest input" "dq_version a = gs_version input"
    by (auto simp: NewAcceptance_def v'(4) split: if_splits)
  with RecordAcceptance_Inr [OF rec] have acc: "\<exists>a. (gd_acceptance d, a) \<in> set (ry_acceptances (sw_recruiting w')) \<and> dq_candidate a = candidate
         \<and> dq_campaign a = gs_campaign input \<and> dq_digest a = gs_digest input \<and> dq_version a = gs_version input"
    by (intro exI [of _ "a\<lparr>dq_accepted_at := now\<rparr>"]) (simp add: w' fulfilGranted_frame)
  have "\<exists>r \<in> set (ry_reinvitations ?w). unclaimed (gs_campaign input) candidate r
      \<and> r\<lparr>rn_consumed := gd_session d\<rparr> \<in> set (ry_reinvitations (sw_recruiting w'))"
    if "own_sessions (gs_campaign input) candidate seen \<noteq> []"
  proof -
    from claim that have "ClaimReInvitation (gs_campaign input) candidate (gd_session d) ?w = Inr db1"
      by (auto simp: claim_restart_def v'(4) split: sum.splits option.splits dest: phase_None_iff)
    from ClaimReInvitation_Inr [OF this assms(2)] obtain r where r: "r \<in> set (ry_reinvitations ?w)" "unclaimed (gs_campaign input) candidate r"
      "db1 = ?w\<lparr>ry_reinvitations := map (\<lambda>q. if rn_id q = rn_id r then q\<lparr>rn_consumed := gd_session d\<rparr> else q) (ry_reinvitations ?w)\<rparr>"
      by blast
    have "ry_reinvitations (sw_recruiting w') = ry_reinvitations db1"
      using RecordAcceptance_Inr [OF rec] by (simp add: w' fulfilGranted_frame)
    with r show ?thesis by (intro bexI [of _ r] conjI) (auto simp: image_iff intro!: bexI [of _ r])
  qed
  with v' c s acc show ?thesis by blast
qed


section \<open>Starts on record\<close>

definition ex_accepted_link :: recruiting_db where
  "ex_accepted_link = (case AcceptInvitationByToken (ex_hash (CHR ''a'')) ''k1'' 12 ex_first_link of Inr (v, db) \<Rightarrow> db | Inl _ \<Rightarrow> ex_first_link)"

definition ex_authorized :: recruiting_db where
  "ex_authorized = (case AuthorizeReInvitation ''re1'' 20 ''t1'' ''c1'' ''k1'' ''power cut'' ''u1'' ''s1'' ex_accepted_link of
     Inr (r, db) \<Rightarrow> db | Inl _ \<Rightarrow> ex_accepted_link)"

definition ex_draws :: "string \<Rightarrow> start_draws" where
  "ex_draws s = \<lparr>gd_session = s, gd_acceptance = ''a'' @ s, gd_consent = (\<lambda>n. ''c'' @ s), gd_created = ''e1'' @ s, gd_composing = ''e2'' @ s,
     gd_fulfilment = (\<lambda>n. ''f'' @ s)\<rparr>"

definition ex_start_input :: "string \<Rightarrow> screening_start" where
  "ex_start_input digest = \<lparr>gs_campaign = ''c1'', gs_version = ''1'', gs_digest = digest, gs_consents = [(''recording'', True)]\<rparr>"

definition ex_disclosed :: string where
  "ex_disclosed = ''sha256:'' @ replicate 64 (CHR ''a'')"

definition ex_before :: screening_state where
  "ex_before = \<lparr>sw_recruiting = ex_authorized, sw_interview = empty_db\<rparr>"

definition ex_first_start :: "(screening_error + session) \<times> screening_state" where
  "ex_first_start = StartScreeningSession (ex_draws ''s1'') 15 ''k1'' (ex_start_input ex_disclosed) (sw_interview ex_before) ex_before"

lemma ex_first_start_ok: "is_ok (fst ex_first_start)"
  by code_simp

lemma ex_first_start_session: "length (own_sessions ''c1'' ''k1'' (sw_interview (snd ex_first_start))) = 1"
  by code_simp


definition ex_second_start :: "(screening_error + session) \<times> screening_state" where
  "ex_second_start = StartScreeningSession (ex_draws ''s2'') 25 ''k1'' (ex_start_input ex_disclosed)
     (sw_interview (snd ex_first_start)) (snd ex_first_start)"

lemma ex_second_start_ok:
  "is_ok (fst ex_second_start)" "sessions_keyed (sw_interview (snd ex_first_start))"
  "own_sessions ''c1'' ''k1'' (sw_interview (snd ex_first_start)) \<noteq> []"
  by code_simp+

theorem a_start_rests_on_authority_witness:
  "\<exists>r \<in> set (ry_reinvitations (sw_recruiting (snd ex_first_start))). unclaimed ''c1'' ''k1'' r
     \<and> r\<lparr>rn_consumed := ''s2''\<rparr> \<in> set (ry_reinvitations (sw_recruiting (snd ex_second_start)))"
proof -
  from ex_second_start_ok(1) obtain s w' where s: "ex_second_start = (Inr s, w')" by (metis is_ok_iff prod.collapse)
  from a_start_rests_on_authority [OF s [unfolded ex_second_start_def] _ ex_second_start_ok(2)] ex_second_start_ok(3)
  show ?thesis by (auto simp: s ex_draws_def ex_start_input_def)
qed

lemma ex_starts_run: "screening_step\<^sup>*\<^sup>* ex_before (snd ex_second_start)"
proof -
  have "screening_step ex_before (snd ex_first_start)"
    by (rule screening_step.start [where d = "ex_draws ''s1''" and r = "fst ex_first_start"]) (simp_all add: ex_draws_def ex_first_start_def)
  moreover have "screening_step (snd ex_first_start) (snd ex_second_start)"
    by (rule screening_step.start [where d = "ex_draws ''s2''" and r = "fst ex_second_start"]) (simp_all add: ex_draws_def ex_second_start_def)
  ultimately show ?thesis by (meson rtranclp.rtrancl_into_rtrancl rtranclp.rtrancl_refl)
qed

theorem one_attempt_to_an_authorization_witness:
  "length (own_sessions ''c1'' ''k1'' (sw_interview (snd ex_second_start))) \<le> 1 + length (authorized_restarts ''c1'' ''k1'' (sw_recruiting (snd ex_second_start)))"
  by (rule one_attempt_to_an_authorization [OF ex_starts_run]) (simp add: ex_before_def empty_db_def)

text \<open>
  A start refused for its disclosure has spent the re-invitation all the same: the claim is a transaction of its
  own that comes first, and the candidate who corrects the mistake is asked for another authorization.
\<close>

definition ex_spoiled_start :: "(screening_error + session) \<times> screening_state" where
  "ex_spoiled_start = StartScreeningSession (ex_draws ''s2'') 25 ''k1'' (ex_start_input ''no digest'')
     (sw_interview (snd ex_first_start)) (snd ex_first_start)"

lemma refused_start_spends_the_authorization:
  "fst ex_spoiled_start = Inl ErrDisclosureInvalid
   \<and> fst (StartScreeningSession (ex_draws ''s3'') 26 ''k1'' (ex_start_input ex_disclosed)
        (sw_interview (snd ex_spoiled_start)) (snd ex_spoiled_start)) = Inl ErrReInvitationRequired"
  by code_simp

text \<open>
  The check for an earlier session and the creation are transactions apart: two first starts that both look
  before either creates leave two sessions, with no re-invitation behind the second.
\<close>

definition ex_simultaneous_start :: "(screening_error + session) \<times> screening_state" where
  "ex_simultaneous_start = StartScreeningSession (ex_draws ''s2'') 15 ''k1'' (ex_start_input ex_disclosed)
     (sw_interview ex_before) (snd ex_first_start)"

lemma simultaneous_starts_make_two_sessions:
  "is_ok (fst ex_simultaneous_start)
   \<and> length (own_sessions ''c1'' ''k1'' (sw_interview (snd ex_simultaneous_start))) = 2
   \<and> authorized_restarts ''c1'' ''k1'' (sw_recruiting (snd ex_simultaneous_start)) = []"
  by code_simp


text \<open>
  An answered link is refused only after its recipient has been provisioned and signed in: the session of identity
  comes before the consume, not after it.
\<close>

lemma spent_link_signs_in:
  "Accept_link (\<lambda>recipient n. (Some (''k1'', recipient), n + 1)) (ex_hash (CHR ''a'')) 13 (0 :: nat) ex_accepted_link
     = (Inl ErrScreeningInvitationNotLive, 1, ex_accepted_link)"
  by code_simp

end
