(* ===== verification/Screening_Result.thy ===== *)
theory Screening_Result
  imports Review_Desk
begin

text \<open>
  What a candidate may see of their own screening (\<open>screeningAdapter.Result\<close> of
  \<open>services/platform/cmd/api/screening_adapter.go\<close>, \<open>internal/api/screening_result.go\<close>): the outcome is read
  for the candidate's own session and the level its campaign's determination pinned, and the response is built
  from the level up.  The theorem is that nothing above the level reaches the response.
\<close>

section \<open>The outcome\<close>

record screening_competency =
  yc_competency :: string
  yc_status :: string
  yc_band :: string
  yc_evidence_count :: nat

record screening_evidence =
  ye_competency :: string
  ye_quote :: string
  ye_disposition :: string

record screening_outcome =
  yo_disclosure :: string
  yo_state :: string
  yo_evaluated :: bool
  yo_competencies :: "screening_competency list"
  yo_evidence :: "screening_evidence list"
  yo_covered :: int
  yo_total :: int

definition DisclosureFullEvaluation :: string where "DisclosureFullEvaluation = ''full_evaluation''"
definition DisclosureEvidenceWithoutBand :: string where "DisclosureEvidenceWithoutBand = ''evidence_without_band''"
definition DisclosureCompletionStatus :: string where "DisclosureCompletionStatus = ''completion_status''"
definition DisclosureSubmissionOnly :: string where "DisclosureSubmissionOnly = ''submission_only''"

datatype result_failure =
    ResultSessionMissing
  | ResultInterview interview_error
  | ResultRecruiting recruiting_error
  | ResultEvaluation result_error
  | ResultEvidence store_error

definition competency_seen :: "competency_result \<Rightarrow> screening_competency" where
  "competency_seen c = \<lparr>yc_competency = re_competency c, yc_status = re_status c, yc_band = re_band c,
     yc_evidence_count = re_evidence_count c\<rparr>"

definition evidence_seen :: "stored_span \<Rightarrow> screening_evidence" where
  "evidence_seen x = \<lparr>ye_competency = sp_competency (ss_span x), ye_quote = sp_quote (ss_span x),
     ye_disposition = sp_kind (ss_span x)\<rparr>"

text \<open>The level: that of the determination the campaign pinned, none when there is none or its row is gone.\<close>

definition pinned_disclosure :: "campaign \<Rightarrow> recruiting_db \<Rightarrow> recruiting_error + string" where
  "pinned_disclosure c db =
     (if cm_determination c = '''' then Inr ''''
      else case DeterminationByID db (cm_determination c) of
        Inl e \<Rightarrow> (if e = ErrNoDetermination then Inr '''' else Inl e)
      | Inr d \<Rightarrow> Inr (jd_disclosure d))"

text \<open>What the stored evaluation adds to the state: read wider only at the levels that can show it.\<close>

definition outcome_at ::
  "string \<Rightarrow> string \<Rightarrow> session_ref \<Rightarrow> result_row list \<Rightarrow> evidence_db \<Rightarrow> result_failure + screening_outcome" where
  "outcome_at level st ref results evidence =
     (let outcome = \<lparr>yo_disclosure = level, yo_state = st, yo_evaluated = False, yo_competencies = [],
           yo_evidence = [], yo_covered = 0, yo_total = 0\<rparr> in
      case ResultOf ref results of
        Inl e \<Rightarrow> (if e = NoResult then Inr outcome else Inl (ResultEvaluation e))
      | Inr r \<Rightarrow>
          (let outcome1 = outcome\<lparr>yo_evaluated := True, yo_covered := rt_covered r, yo_total := rt_total r\<rparr> in
           if level \<noteq> DisclosureEvidenceWithoutBand \<and> level \<noteq> DisclosureFullEvaluation then Inr outcome1
           else bindE (map_error ResultEvidence (ListSpans ref evidence)) (\<lambda>spans.
             Inr (outcome1\<lparr>yo_competencies := map competency_seen (rt_competencies r), yo_evidence := map evidence_seen spans\<rparr>))))"

definition Result ::
  "string \<Rightarrow> string \<Rightarrow> interview_db \<Rightarrow> recruiting_db \<Rightarrow> result_row list \<Rightarrow> evidence_db \<Rightarrow> result_failure + screening_outcome" where
  "Result candidate session sessions db results evidence =
     bindE (map_error (\<lambda>e. if e = SessionNotFound then ResultSessionMissing else ResultInterview e)
       (GetScreeningForCandidate session candidate sessions)) (\<lambda>s.
     bindE (map_error ResultRecruiting (CampaignByID (ref_tenant (se_ref s)) (se_campaign s) db)) (\<lambda>c.
     bindE (map_error ResultRecruiting (pinned_disclosure c db)) (\<lambda>level.
       outcome_at level (state_text (se_state s)) (screening_ref session candidate (ref_tenant (se_ref s))) results evidence)))"

section \<open>The response\<close>

record competency_entry =
  ze_competency :: string
  ze_status :: string
  ze_evidence_count :: nat
  ze_band :: "string option"

record screening_response =
  zr_disclosure :: string
  zr_status :: string
  zr_competencies :: "competency_entry list option"
  zr_evidence :: "screening_evidence list option"
  zr_coverage :: "(int \<times> int) option"

definition screeningStatus :: "screening_outcome \<Rightarrow> string" where
  "screeningStatus x =
     (if yo_evaluated x then ''evaluated''
      else if yo_state x \<in> {''finalizing'', ''evaluating'', ''review_ready'', ''archived'', ''evaluation_failed''} then ''completed''
      else ''in_progress'')"

definition validLevel :: "string \<Rightarrow> bool" where
  "validLevel s \<longleftrightarrow> s \<in> {DisclosureFullEvaluation, DisclosureEvidenceWithoutBand, DisclosureCompletionStatus, DisclosureSubmissionOnly}"

definition entry_of :: "bool \<Rightarrow> screening_competency \<Rightarrow> competency_entry" where
  "entry_of withBand c = \<lparr>ze_competency = yc_competency c, ze_status = yc_status c, ze_evidence_count = yc_evidence_count c,
     ze_band = (if withBand \<and> yc_band c \<noteq> '''' then Some (yc_band c) else None)\<rparr>"

definition discloseScreening :: "screening_outcome \<Rightarrow> screening_response" where
  "discloseScreening x =
     (let level = (if validLevel (yo_disclosure x) then yo_disclosure x else DisclosureSubmissionOnly);
          response = \<lparr>zr_disclosure = level, zr_status = ''submitted'', zr_competencies = None, zr_evidence = None, zr_coverage = None\<rparr> in
      if level = DisclosureSubmissionOnly then response
      else let response1 = response\<lparr>zr_status := screeningStatus x\<rparr> in
      if level = DisclosureCompletionStatus then response1
      else response1\<lparr>zr_competencies := Some (map (entry_of (level = DisclosureFullEvaluation)) (yo_competencies x)),
        zr_evidence := Some (yo_evidence x), zr_coverage := Some (yo_covered x, yo_total x)\<rparr>)"

definition GetScreeningResult ::
  "string \<Rightarrow> string \<Rightarrow> interview_db \<Rightarrow> recruiting_db \<Rightarrow> result_row list \<Rightarrow> evidence_db \<Rightarrow> result_failure + screening_response" where
  "GetScreeningResult candidate session sessions db results evidence =
     bindE (Result candidate session sessions db results evidence) (\<lambda>x. Inr (discloseScreening x))"

section \<open>What a level may show\<close>

text \<open>Two records of evaluation the same at a level: what the level grants of them is.\<close>

definition strip_band :: "competency_result \<Rightarrow> string \<times> string \<times> nat" where
  "strip_band c = (re_competency c, re_status c, re_evidence_count c)"

definition alike_at :: "string \<Rightarrow> session_ref \<Rightarrow> result_row list \<times> evidence_db \<Rightarrow> result_row list \<times> evidence_db \<Rightarrow> bool" where
  "alike_at level ref a b \<longleftrightarrow>
     (level \<in> {DisclosureCompletionStatus, DisclosureEvidenceWithoutBand, DisclosureFullEvaluation} \<longrightarrow>
        (ResultOf ref (fst a) = Inl NoResult \<longleftrightarrow> ResultOf ref (fst b) = Inl NoResult))
     \<and> (\<forall>r s. level \<in> {DisclosureEvidenceWithoutBand, DisclosureFullEvaluation} \<and> ResultOf ref (fst a) = Inr r \<and> ResultOf ref (fst b) = Inr s \<longrightarrow>
        map strip_band (rt_competencies r) = map strip_band (rt_competencies s) \<and> rt_covered r = rt_covered s \<and> rt_total r = rt_total s
        \<and> (\<forall>x y. ListSpans ref (snd a) = Inr x \<and> ListSpans ref (snd b) = Inr y \<longrightarrow> map evidence_seen x = map evidence_seen y)
        \<and> (level = DisclosureFullEvaluation \<longrightarrow> map re_band (rt_competencies r) = map re_band (rt_competencies s)))"

lemmas level_defs = DisclosureFullEvaluation_def DisclosureEvidenceWithoutBand_def DisclosureCompletionStatus_def DisclosureSubmissionOnly_def

lemma GetScreeningResult_Inr:
  assumes "GetScreeningResult candidate session sessions db results evidence = Inr z"
  shows "\<exists>s c level x. GetScreeningForCandidate session candidate sessions = Inr s
    \<and> CampaignByID (ref_tenant (se_ref s)) (se_campaign s) db = Inr c \<and> pinned_disclosure c db = Inr level
    \<and> outcome_at level (state_text (se_state s)) (screening_ref session candidate (ref_tenant (se_ref s))) results evidence = Inr x
    \<and> z = discloseScreening x"
  using assms by (auto simp: GetScreeningResult_def Result_def bindE_Inr)

lemma outcome_at_level: "outcome_at level st ref results evidence = Inr x \<Longrightarrow> yo_disclosure x = level \<and> yo_state x = st"
  by (auto simp: outcome_at_def Let_def bindE_Inr split: sum.splits if_splits)

lemma outcome_at_evaluated:
  "outcome_at level st ref results evidence = Inr x \<Longrightarrow> yo_evaluated x \<longleftrightarrow> ResultOf ref results \<noteq> Inl NoResult"
  by (auto simp: outcome_at_def Let_def bindE_Inr split: sum.splits if_splits)

lemma entries_alike:
  assumes "map strip_band cs = map strip_band ds" and "w \<Longrightarrow> map re_band cs = map re_band ds"
  shows "map (entry_of w) (map competency_seen cs) = map (entry_of w) (map competency_seen ds)"
proof -
  have "length cs = length ds" using assms(1) by (metis length_map)
  then show ?thesis using assms
    by (induction cs ds rule: list_induct2) (auto simp: entry_of_def competency_seen_def strip_band_def)
qed


lemma wide_alike:
  assumes "level = DisclosureEvidenceWithoutBand \<or> level = DisclosureFullEvaluation"
    and "outcome_at level st ref (fst a) (snd a) = Inr x" and "outcome_at level st ref (fst b) (snd b) = Inr y"
    and "alike_at level ref a b"
  shows "map (entry_of (level = DisclosureFullEvaluation)) (yo_competencies x) = map (entry_of (level = DisclosureFullEvaluation)) (yo_competencies y)
    \<and> yo_evidence x = yo_evidence y \<and> yo_covered x = yo_covered y \<and> yo_total x = yo_total y"
proof (cases "ResultOf ref (fst a) = Inl NoResult")
  case True
  then have "ResultOf ref (fst b) = Inl NoResult" using assms(1,4) by (auto simp: alike_at_def)
  with True assms(2,3) show ?thesis by (auto simp: outcome_at_def)
next
  case False
  then have nb: "ResultOf ref (fst b) \<noteq> Inl NoResult" using assms(1,4) by (auto simp: alike_at_def)
  from False assms(1,2) obtain r spans where r: "ResultOf ref (fst a) = Inr r" "ListSpans ref (snd a) = Inr spans"
    "yo_competencies x = map competency_seen (rt_competencies r)" "yo_evidence x = map evidence_seen spans"
    "yo_covered x = rt_covered r" "yo_total x = rt_total r"
    by (auto simp: outcome_at_def Let_def bindE_Inr split: sum.splits if_splits)
  from nb assms(1,3) obtain s spans' where s: "ResultOf ref (fst b) = Inr s" "ListSpans ref (snd b) = Inr spans'"
    "yo_competencies y = map competency_seen (rt_competencies s)" "yo_evidence y = map evidence_seen spans'"
    "yo_covered y = rt_covered s" "yo_total y = rt_total s"
    by (auto simp: outcome_at_def Let_def bindE_Inr split: sum.splits if_splits)
  from assms(1,4) r(1,2) s(1,2) have same: "map strip_band (rt_competencies r) = map strip_band (rt_competencies s)"
    "rt_covered r = rt_covered s" "rt_total r = rt_total s" "map evidence_seen spans = map evidence_seen spans'"
    "level = DisclosureFullEvaluation \<longrightarrow> map re_band (rt_competencies r) = map re_band (rt_competencies s)"
    unfolding alike_at_def by blast+
  with entries_alike [OF same(1), of "level = DisclosureFullEvaluation"] r s show ?thesis by simp
qed

lemma disclosure_alike:
  assumes x: "outcome_at level st ref (fst a) (snd a) = Inr x" and y: "outcome_at level st ref (fst b) (snd b) = Inr y"
    and alike: "alike_at level ref a b"
  shows "discloseScreening x = discloseScreening y"
proof -
  note l = outcome_at_level [OF x] outcome_at_level [OF y] and e = outcome_at_evaluated [OF x] outcome_at_evaluated [OF y]
  consider "\<not> validLevel level \<or> level = DisclosureSubmissionOnly" | "level = DisclosureCompletionStatus"
    | "level = DisclosureEvidenceWithoutBand \<or> level = DisclosureFullEvaluation" by (auto simp: validLevel_def)
  then show ?thesis
  proof cases
    case 1 with l show ?thesis by (auto simp: discloseScreening_def Let_def)
  next
    case 2
    then have "yo_evaluated x = yo_evaluated y" using alike e by (simp add: alike_at_def)
    then have "screeningStatus x = screeningStatus y" using l by (simp add: screeningStatus_def)
    with 2 l show ?thesis by (simp add: discloseScreening_def Let_def)
  next
    case 3
    then have "yo_evaluated x = yo_evaluated y" using alike e by (auto simp: alike_at_def)
    then have "screeningStatus x = screeningStatus y" using l by (simp add: screeningStatus_def)
    moreover have "validLevel level" "level \<noteq> DisclosureSubmissionOnly" "level \<noteq> DisclosureCompletionStatus"
      using 3 by (auto simp: validLevel_def level_defs)
    ultimately show ?thesis using wide_alike [OF 3 x y alike] l by (simp add: discloseScreening_def Let_def)
  qed
qed

text \<open>C15: A candidate is shown no more than the level their campaign pinned.  When two states of the record of evaluation agree on what
  the pinned level may show - at submission only nothing at all, at completion status whether there is a result, without the bands
  everything but the bands, at the full level the bands too - the responses are the same, whatever else is in them; a
  level that is missing or unknown is served as submission only; and what is shown is of the candidate's own screening
  session.\<close>

theorem nothing_above_the_level_is_shown:
  assumes "GetScreeningResult candidate session sessions db (fst a) (snd a) = Inr x"
    and "GetScreeningResult candidate session sessions db (fst b) (snd b) = Inr y"
    and "\<And>s c level. GetScreeningForCandidate session candidate sessions = Inr s
        \<Longrightarrow> CampaignByID (ref_tenant (se_ref s)) (se_campaign s) db = Inr c \<Longrightarrow> pinned_disclosure c db = Inr level
        \<Longrightarrow> alike_at level (screening_ref session candidate (ref_tenant (se_ref s))) a b"
  shows "x = y
    \<and> (\<exists>s c level. s \<in> set (db_sessions sessions) \<and> se_id s = session \<and> ref_candidate (se_ref s) = candidate
         \<and> ref_mode (se_ref s) = ''screening'' \<and> CampaignByID (ref_tenant (se_ref s)) (se_campaign s) db = Inr c
         \<and> pinned_disclosure c db = Inr level \<and> zr_disclosure x = (if validLevel level then level else DisclosureSubmissionOnly)
         \<and> (\<not> validLevel level \<or> level = DisclosureSubmissionOnly \<longrightarrow>
              x = \<lparr>zr_disclosure = DisclosureSubmissionOnly, zr_status = ''submitted'', zr_competencies = None, zr_evidence = None, zr_coverage = None\<rparr>)
         \<and> (level \<noteq> DisclosureFullEvaluation \<longrightarrow> (\<forall>es. zr_competencies x = Some es \<longrightarrow> (\<forall>e \<in> set es. ze_band e = None))))"
proof -
  from GetScreeningResult_Inr [OF assms(1)] obtain s c level u where s: "GetScreeningForCandidate session candidate sessions = Inr s"
    and c: "CampaignByID (ref_tenant (se_ref s)) (se_campaign s) db = Inr c" and l: "pinned_disclosure c db = Inr level"
    and u: "outcome_at level (state_text (se_state s)) (screening_ref session candidate (ref_tenant (se_ref s))) (fst a) (snd a) = Inr u"
    and x: "x = discloseScreening u" by blast
  from GetScreeningResult_Inr [OF assms(2)] s c l obtain v where
    v: "outcome_at level (state_text (se_state s)) (screening_ref session candidate (ref_tenant (se_ref s))) (fst b) (snd b) = Inr v"
    and y: "y = discloseScreening v" by auto
  have eq: "x = y" unfolding x y by (rule disclosure_alike [OF u v assms(3) [OF s c l]])
  have own: "s \<in> set (db_sessions sessions)" "se_id s = session" "ref_candidate (se_ref s) = candidate" "ref_mode (se_ref s) = ''screening''"
    using s
    by (auto simp: GetScreeningForCandidate_def SetUser_def bindE_Inr get_def find_session_def session_visible_def visible_def
        split: option.splits if_splits dest!: find_SomeD)
  have shape: "zr_disclosure x = (if validLevel level then level else DisclosureSubmissionOnly)"
    "\<not> validLevel level \<or> level = DisclosureSubmissionOnly \<longrightarrow>
       x = \<lparr>zr_disclosure = DisclosureSubmissionOnly, zr_status = ''submitted'', zr_competencies = None, zr_evidence = None, zr_coverage = None\<rparr>"
    "level \<noteq> DisclosureFullEvaluation \<longrightarrow> (\<forall>es. zr_competencies x = Some es \<longrightarrow> (\<forall>e \<in> set es. ze_band e = None))"
    using outcome_at_level [OF u] by (auto simp: x discloseScreening_def Let_def entry_of_def level_defs)
  from eq own c l shape show ?thesis by blast
qed


definition ex_level_db :: recruiting_db where
  "ex_level_db = ex_desk\<lparr>ry_determinations := [\<lparr>jd_id = ''d1'', jd_jurisdiction = ''ie'', jd_version = 1,
     jd_disclosure = ''evidence_without_band'', jd_appeal = ''yes'', jd_approver = ''counsel'', jd_approved_at = 0\<rparr>]\<rparr>"

definition ex_other_band :: "result_row list" where
  "ex_other_band = map (\<lambda>r. r\<lparr>rw_result := (rw_result r)\<lparr>rt_competencies := [ex_competency\<lparr>re_band := ''basic''\<rparr>]\<rparr>\<rparr>) ex_results"

definition ex_spans :: evidence_db where
  "ex_spans = \<lparr>ed_spans = [], ed_pairs = []\<rparr>"

theorem nothing_above_the_level_is_shown_witness:
  "GetScreeningResult ''k1'' ''s1'' ex_sessions ex_level_db ex_results ex_spans
    = GetScreeningResult ''k1'' ''s1'' ex_sessions ex_level_db ex_other_band ex_spans
  \<and> is_ok (GetScreeningResult ''k1'' ''s1'' ex_sessions ex_level_db ex_results ex_spans)"
proof -
  have ok: "is_ok (GetScreeningResult ''k1'' ''s1'' ex_sessions ex_level_db ex_results ex_spans)"
    "is_ok (GetScreeningResult ''k1'' ''s1'' ex_sessions ex_level_db ex_other_band ex_spans)" by code_simp+
  then obtain x y where x: "GetScreeningResult ''k1'' ''s1'' ex_sessions ex_level_db (fst (ex_results, ex_spans)) (snd (ex_results, ex_spans)) = Inr x"
    and y: "GetScreeningResult ''k1'' ''s1'' ex_sessions ex_level_db (fst (ex_other_band, ex_spans)) (snd (ex_other_band, ex_spans)) = Inr y"
    by (auto simp: is_ok_iff)
  have s: "GetScreeningForCandidate ''s1'' ''k1'' ex_sessions = Inr ex_campaign_session" by code_simp
  have c: "map_sum id (\<lambda>c. pinned_disclosure c ex_level_db) (CampaignByID ''t1'' ''c1'' ex_level_db) = Inr (Inr DisclosureEvidenceWithoutBand)"
    by code_simp
  have r: "ResultOf (screening_ref ''s1'' ''k1'' ''t1'') ex_results = Inr (rw_result (hd ex_results))"
    "ResultOf (screening_ref ''s1'' ''k1'' ''t1'') ex_other_band = Inr (rw_result (hd ex_other_band))"
    by (simp_all add: ResultOf_def scope_of_def screening_ref_def SetTenant_def TrimSpace_def is_space_def visible_def ex_results_def ex_other_band_def)
  have alike: "alike_at DisclosureEvidenceWithoutBand (screening_ref ''s1'' ''k1'' ''t1'') (ex_results, ex_spans) (ex_other_band, ex_spans)"
    unfolding alike_at_def
    by (auto simp: r level_defs) (simp_all add: ex_results_def ex_other_band_def strip_band_def)
  have "x = y"
  proof (rule conjunct1 [OF nothing_above_the_level_is_shown [OF x y]])
    fix s' c' level
    assume "GetScreeningForCandidate ''s1'' ''k1'' ex_sessions = Inr s'"
      and "CampaignByID (ref_tenant (se_ref s')) (se_campaign s') ex_level_db = Inr c'" and "pinned_disclosure c' ex_level_db = Inr level"
    moreover from this s have "s' = ex_campaign_session" by simp
    ultimately show "alike_at level (screening_ref ''s1'' ''k1'' (ref_tenant (se_ref s'))) (ex_results, ex_spans) (ex_other_band, ex_spans)"
      using alike c by (simp add: ex_campaign_session_def screening_ref_def)
  qed
  with ok(1) x y show ?thesis by simp
qed

end
