(* ===== verification/Identifiers.thy ===== *)
theory Identifiers
  imports Prelude "HOL-Library.Word"
begin

unbundle bit_operations_syntax

text \<open>
  The identifiers of the platform (\<open>services/platform/platform/id/id.go\<close>): UUIDs of version 7, drawn under a
  lock from the wall clock, a sequence within the millisecond and the system's randomness; their canonical
  text and its parser; and the random suffix of a slug.  A byte is an \<open>8 word\<close>, the sequence a \<open>16 word\<close>, the
  milliseconds an \<open>int\<close> whose conversion to bytes truncates as the code's does.  What \<open>rand.Read\<close> fills is an
  argument.  The theorems: identifiers come out in strictly increasing order whatever the clock does, and
  text and identifier determine each other.
\<close>

section \<open>Drawing\<close>

type_synonym byte = "8 word"
type_synonym uuid = "byte list"

record id_clock =
  ck_last :: int
  ck_sequence :: "16 word"

definition tick :: "int \<Rightarrow> id_clock \<Rightarrow> id_clock" where
  "tick now c =
     (if now > ck_last c then \<lparr>ck_last = now, ck_sequence = 0\<rparr>
      else if now = ck_last c
      then (let s = ck_sequence c + 1 in
            if s > 0x0FFF then \<lparr>ck_last = ck_last c + 1, ck_sequence = 0\<rparr> else \<lparr>ck_last = ck_last c, ck_sequence = s\<rparr>)
      else \<lparr>ck_last = ck_last c + 1, ck_sequence = 0\<rparr>)"

definition byte_of :: "int \<Rightarrow> byte" where
  "byte_of x = word_of_int x"

definition layout :: "id_clock \<Rightarrow> byte list \<Rightarrow> uuid" where
  "layout c r =
     [byte_of (drop_bit 40 (ck_last c)), byte_of (drop_bit 32 (ck_last c)), byte_of (drop_bit 24 (ck_last c)),
      byte_of (drop_bit 16 (ck_last c)), byte_of (drop_bit 8 (ck_last c)), byte_of (ck_last c),
      0x70 OR ucast (drop_bit 8 (ck_sequence c) AND 0x0F), ucast (ck_sequence c),
      (r ! 0 AND 0x3F) OR 0x80, r ! 1, r ! 2, r ! 3, r ! 4, r ! 5, r ! 6, r ! 7]"

text \<open>\<open>r\<close> is the eight bytes of randomness.\<close>

definition New :: "int \<Rightarrow> byte list \<Rightarrow> id_clock \<Rightarrow> uuid \<times> id_clock" where
  "New now r c = (let c' = tick now c in (layout c' r, c'))"

section \<open>Text\<close>

definition hex_digit :: "nat \<Rightarrow> char" where
  "hex_digit n = ''0123456789abcdef'' ! n"

definition hex_byte :: "byte \<Rightarrow> string" where
  "hex_byte b = [hex_digit (unat b div 16), hex_digit (unat b mod 16)]"

definition hex_encode :: "byte list \<Rightarrow> string" where
  "hex_encode bs = concat (map hex_byte bs)"

definition uuid_String :: "uuid \<Rightarrow> string" where
  "uuid_String u = hex_encode (take 4 u) @ ''-'' @ hex_encode (take 2 (drop 4 u)) @ ''-'' @ hex_encode (take 2 (drop 6 u))
     @ ''-'' @ hex_encode (take 2 (drop 8 u)) @ ''-'' @ hex_encode (drop 10 u)"

definition Prefixed :: "string \<Rightarrow> uuid \<Rightarrow> string" where
  "Prefixed kind u = kind @ ''_'' @ hex_encode u"

definition from_hex :: "char \<Rightarrow> nat option" where
  "from_hex c =
     (let n = of_char c :: nat in
      if 48 \<le> n \<and> n \<le> 57 then Some (n - 48)
      else if 97 \<le> n \<and> n \<le> 102 then Some (n - 97 + 10)
      else if 65 \<le> n \<and> n \<le> 70 then Some (n - 65 + 10)
      else None)"

fun hex_decode :: "string \<Rightarrow> byte list option" where
  "hex_decode [] = Some []"
| "hex_decode [c] = None"
| "hex_decode (c # d # s) =
     (case (from_hex c, from_hex d) of
        (Some h, Some l) \<Rightarrow> map_option (\<lambda>bs. word_of_nat (h * 16 + l) # bs) (hex_decode s)
      | _ \<Rightarrow> None)"

definition group :: "nat \<Rightarrow> nat \<Rightarrow> string \<Rightarrow> string" where
  "group i j s = take (j - i) (drop i s)"

definition uuid_bytes :: "string \<Rightarrow> uuid option" where
  "uuid_bytes s =
     (case (hex_decode (group 0 8 s), hex_decode (group 9 13 s), hex_decode (group 14 18 s), hex_decode (group 19 23 s),
            hex_decode (group 24 36 s)) of
        (Some a, Some b, Some c, Some d, Some e) \<Rightarrow> Some (a @ b @ c @ d @ e)
      | _ \<Rightarrow> None)"

definition uuid_Parse :: "string \<Rightarrow> uuid option" where
  "uuid_Parse s =
     (if length s \<noteq> 36 then None
      else if s ! 8 \<noteq> CHR ''-'' \<or> s ! 13 \<noteq> CHR ''-'' \<or> s ! 18 \<noteq> CHR ''-'' \<or> s ! 23 \<noteq> CHR ''-'' then None
      else case uuid_bytes s of
        None \<Rightarrow> None
      | Some u \<Rightarrow>
          (if drop_bit 4 (u ! 6) \<noteq> 7 then None
           else if u ! 8 AND 0xC0 \<noteq> 0x80 then None
           else Some u))"

section \<open>Suffixes\<close>

definition suffixAlphabet :: string where
  "suffixAlphabet = ''abcdefghijklmnopqrstuvwxyz0123456789''"

definition suffixLength :: nat where "suffixLength = 6"

definition Suffix :: "byte list \<Rightarrow> string" where
  "Suffix raw = map (\<lambda>b. suffixAlphabet ! (unat b mod length suffixAlphabet)) (take suffixLength raw)"


section \<open>Order\<close>

text \<open>Identifiers are compared byte by byte, from the first.\<close>

definition uuid_before :: "uuid \<Rightarrow> uuid \<Rightarrow> bool" where
  "uuid_before u v \<longleftrightarrow> map unat u < map unat v"

fun big_endian :: "nat \<Rightarrow> nat \<Rightarrow> nat list" where
  "big_endian 0 n = []"
| "big_endian (Suc k) n = big_endian k (n div 256) @ [n mod 256]"

lemma big_endian_length [simp]: "length (big_endian k n) = k"
  by (induction k arbitrary: n) auto

lemma less_append_same: "xs < ys \<Longrightarrow> length xs = length ys \<Longrightarrow> xs @ as < ys @ (bs :: nat list)"
  by (induction xs ys rule: list_induct2') auto

lemma less_append_eq: "as < bs \<Longrightarrow> xs @ as < xs @ (bs :: nat list)"
  by (induction xs) auto

lemma big_endian_less:
  assumes "m < n" and "n < 256 ^ k"
  shows "big_endian k m < big_endian k n"
  using assms
proof (induction k arbitrary: m n)
  case (Suc k)
  have n: "n div 256 < 256 ^ k" using Suc.prems(2) by (simp add: less_mult_imp_div_less mult.commute)
  show ?case
  proof (cases "m div 256 = n div 256")
    case True
    then have "m mod 256 < n mod 256" using Suc.prems(1) by (metis div_mult_mod_eq nat_add_left_cancel_less)
    then show ?thesis by (simp add: True less_append_eq)
  next
    case False
    then have "m div 256 < n div 256" using Suc.prems(1) by (metis div_le_mono le_less less_imp_le)
    from Suc.IH [OF this n] show ?thesis by (simp add: less_append_same)
  qed
qed simp

definition clock_ok :: "id_clock \<Rightarrow> bool" where
  "clock_ok c \<longleftrightarrow> 0 \<le> ck_last c \<and> unat (ck_sequence c) < 4096"

text \<open>The number that the first eight bytes spell.\<close>

definition stamp :: "id_clock \<Rightarrow> nat" where
  "stamp c = nat (ck_last c) * 65536 + 28672 + unat (ck_sequence c)"

lemma unat_byte_of: "0 \<le> x \<Longrightarrow> unat (byte_of x) = nat x mod 256"
  by (simp add: byte_of_def unat_eq_nat_uint uint_word_of_int nat_mod_distrib)

lemma seq_low: "unat (ucast (s :: 16 word) :: byte) = unat s mod 256"
  by (simp add: unsigned_ucast_eq take_bit_eq_mod)

lemma seq_high:
  assumes "unat (s :: 16 word) < 4096"
  shows "unat (0x70 OR ucast (drop_bit 8 s AND 0x0F) :: byte) = 112 + unat s div 256"
proof -
  let ?h = "ucast (drop_bit 8 s AND 0x0F) :: byte"
  have d: "unat (drop_bit 8 s) = unat s div 256"
  proof -
    have "unat (drop_bit 8 s) = drop_bit 8 (take_bit LENGTH(16) (unat s))" by (rule unsigned_drop_bit_eq)
    also have "take_bit LENGTH(16) (unat s) = unat s" using assms by (intro take_bit_nat_eq_self) simp
    finally show ?thesis by (simp only: drop_bit_eq_div) simp
  qed
  have small: "unat s div 256 < 16" using assms by simp
  have "drop_bit 8 s AND 0x0F = take_bit 4 (drop_bit 8 s)" by (simp add: take_bit_eq_mask mask_eq_exp_minus_1)
  then have "unat (drop_bit 8 s AND 0x0F) = take_bit 4 (unat (drop_bit 8 s))" by (simp add: unsigned_take_bit_eq)
  then have "unat (drop_bit 8 s AND 0x0F) = unat s div 256" using d small by (simp add: take_bit_eq_mod)
  then have h: "unat ?h = unat s div 256" using small by (simp add: unsigned_ucast_eq take_bit_eq_mod)
  have "take_bit 4 ?h = ?h" using h small by (intro word_unat_eq_iff [THEN iffD2]) (simp add: take_bit_eq_mod unat_mod)
  then have "?h AND 0x70 = (?h AND mask 4) AND 0x70" by (simp add: take_bit_eq_mask)
  then have "?h AND 0x70 = 0" by (simp add: mask_eq_exp_minus_1 and.assoc)
  then have "0x70 AND ?h = 0" by (simp only: and.commute)
  then have "0x70 OR ?h = 0x70 + ?h" by (simp only: disjunctive_add_eq_or [symmetric])
  moreover have "unat (0x70 + ?h) = 112 + unat ?h"
    using h small by (subst unat_plus_simple [THEN iffD1]) (simp_all add: word_le_nat_alt unat_word_ariths)
  ultimately show ?thesis using h by simp
qed

lemma big_endian_8:
  "big_endian 8 n = [n div 2 ^ 56 mod 256, n div 2 ^ 48 mod 256, n div 2 ^ 40 mod 256, n div 2 ^ 32 mod 256,
     n div 2 ^ 24 mod 256, n div 2 ^ 16 mod 256, n div 2 ^ 8 mod 256, n mod 256]"
proof -
  have e: "(8 :: nat) = Suc (Suc (Suc (Suc (Suc (Suc (Suc (Suc 0)))))))" by simp
  show ?thesis by (simp only: e big_endian.simps) (simp add: div_mult2_eq [symmetric])
qed

lemma stamp_digits:
  assumes "q < 4096"
  shows "(m * 65536 + 28672 + q) div 2 ^ 8 mod 256 = 112 + q div (256 :: nat)"
    and "(m * 65536 + 28672 + q) mod 256 = q mod 256"
    and "(m * 65536 + 28672 + q) div 65536 = m"
proof -
  have e: "m * 65536 + 28672 + q = (m * 256 + 112) * 256 + q" by simp
  then have "(m * 65536 + 28672 + q) div 256 = m * 256 + 112 + q div 256" by (metis add.commute div_mult_self3 zero_neq_numeral)
  moreover have "(m * 256 + 112 + x) mod 256 = 112 + x" if "x < 16" for x :: nat
    using that by (simp only: add.assoc mod_mult_self3) simp
  moreover have "q div 256 < 16" using assms by simp
  ultimately show "(m * 65536 + 28672 + q) div 2 ^ 8 mod 256 = 112 + q div 256" by simp
  show "(m * 65536 + 28672 + q) mod 256 = q mod 256" unfolding e by (rule mod_mult_self3)
  show "(m * 65536 + 28672 + q) div 65536 = m" using assms by simp
qed

lemma layout_stamp:
  assumes "clock_ok c"
  shows "map unat (take 8 (layout c r)) = big_endian 8 (stamp c)"
proof -
  let ?m = "nat (ck_last c)" and ?q = "unat (ck_sequence c)"
  have q: "?q < 4096" and m: "0 \<le> ck_last c" using assms by (simp_all add: clock_ok_def)
  have high: "stamp c div (65536 * k) = ?m div k" for k
    using stamp_digits(3) [OF q, of ?m] by (simp add: stamp_def div_mult2_eq)
  have drop: "unat (byte_of (drop_bit n (ck_last c))) = ?m div 2 ^ n mod 256" for n
    using m by (simp add: unat_byte_of drop_bit_eq_div nat_div_distrib nat_power_eq pos_imp_zdiv_nonneg_iff)
  show ?thesis
    unfolding big_endian_8 layout_def using q m high [of "2 ^ 40"] high [of "2 ^ 32"] high [of "2 ^ 24"] high [of "2 ^ 16"] high [of "2 ^ 8"]
      high [of 1] stamp_digits(1,2) [OF q, of ?m]
    by (simp add: drop unat_byte_of seq_low seq_high stamp_def [symmetric])
qed

fun drawn :: "(int \<times> byte list) list \<Rightarrow> id_clock \<Rightarrow> uuid list \<times> id_clock" where
  "drawn [] c = ([], c)"
| "drawn ((now, r) # reqs) c = (let (u, c') = New now r c; (us, c'') = drawn reqs c' in (u # us, c''))"

lemma tick_advances:
  assumes "clock_ok c"
  shows "clock_ok (tick now c)" and "stamp c < stamp (tick now c)" and "ck_last c \<le> ck_last (tick now c)"
proof -
  have q: "unat (ck_sequence c) < 4096" and m: "0 \<le> ck_last c" using assms by (simp_all add: clock_ok_def)
  have s: "unat (ck_sequence c + 1) = unat (ck_sequence c) + 1" using q by (simp add: unat_word_ariths)
  have le: "ck_sequence c + 1 > 0x0FFF \<longleftrightarrow> unat (ck_sequence c) + 1 > 4095" using s by (simp add: word_less_nat_alt)
  show "clock_ok (tick now c)" "ck_last c \<le> ck_last (tick now c)"
    using q m s le by (auto simp: tick_def clock_ok_def Let_def)
  have "stamp c < (nat (ck_last c) + 1) * 65536" using q by (simp add: stamp_def)
  also have "(nat (ck_last c) + 1) * 65536 \<le> nat n * 65536" if "ck_last c < n" for n using m that by simp
  finally have "stamp c < nat n * 65536" if "ck_last c < n" for n using that by simp
  then have later: "stamp c < stamp \<lparr>ck_last = n, ck_sequence = 0\<rparr>" if "ck_last c < n" for n
    using that by (force simp: stamp_def)
  show "stamp c < stamp (tick now c)"
    using later [of now] later [of "ck_last c + 1"] s by (auto simp: tick_def Let_def stamp_def)
qed

lemma drawn_advances:
  "clock_ok c \<Longrightarrow> clock_ok (snd (drawn reqs c)) \<and> ck_last c \<le> ck_last (snd (drawn reqs c))"
proof (induction reqs arbitrary: c)
  case (Cons q reqs)
  obtain now r where q: "q = (now, r)" by fastforce
  from tick_advances [OF Cons.prems, of now] Cons.IH [of "tick now c"]
  have "clock_ok (snd (drawn reqs (tick now c))) \<and> ck_last c \<le> ck_last (snd (drawn reqs (tick now c)))" by auto
  then show ?case by (simp add: q New_def Let_def case_prod_beta)
qed simp

lemma uuid_before_stamps:
  assumes "clock_ok c" and "clock_ok d" and "stamp c < stamp d" and "ck_last d < 2 ^ 48"
  shows "uuid_before (layout c r) (layout d r')"
proof -
  have "unat (ck_sequence d) < 4096" "0 \<le> ck_last d" using assms(2) by (simp_all add: clock_ok_def)
  moreover have "nat (ck_last d) < 2 ^ 48" using assms(4) calculation(2) by (simp add: nat_less_iff)
  ultimately have "stamp d < 256 ^ 8" by (simp add: stamp_def)
  from big_endian_less [OF assms(3) this]
  have "map unat (take 8 (layout c r)) < map unat (take 8 (layout d r'))" by (simp only: layout_stamp assms(1,2))
  then have "map unat (take 8 (layout c r)) @ map unat (drop 8 (layout c r)) < map unat (take 8 (layout d r')) @ map unat (drop 8 (layout d r'))"
    by (rule less_append_same) (simp add: layout_def)
  then show ?thesis by (simp only: uuid_before_def map_append [symmetric] append_take_drop_id)
qed

lemma drawn_after:
  assumes "clock_ok c" and "ck_last (snd (drawn reqs c)) < 2 ^ 48"
  shows "\<forall>u \<in> set (fst (drawn reqs c)). \<exists>d r. u = layout d r \<and> clock_ok d \<and> stamp c < stamp d \<and> ck_last d < 2 ^ 48"
  using assms
proof (induction reqs c rule: drawn.induct)
  case (2 now r reqs c)
  let ?c = "tick now c"
  obtain us d where us: "drawn reqs ?c = (us, d)" by fastforce
  have ok: "clock_ok ?c" "stamp c < stamp ?c" using tick_advances [OF "2.prems"(1), of now] by simp_all
  have last: "ck_last d < 2 ^ 48" "ck_last ?c < 2 ^ 48"
    using "2.prems"(2) drawn_advances [OF ok(1), of reqs] us by (simp_all add: New_def Let_def)
  have "\<forall>u \<in> set us. \<exists>d r. u = layout d r \<and> clock_ok d \<and> stamp ?c < stamp d \<and> ck_last d < 2 ^ 48"
    using "2.IH" [of "(layout ?c r, ?c)" "layout ?c r" ?c] ok(1) last(1) us by (simp add: New_def Let_def)
  then have "\<forall>u \<in> set us. \<exists>d r. u = layout d r \<and> clock_ok d \<and> stamp c < stamp d \<and> ck_last d < 2 ^ 48"
    using ok(2) by (meson less_trans)
  moreover have "fst (drawn ((now, r) # reqs) c) = layout ?c r # us" using us by (simp add: New_def Let_def)
  ultimately show ?case using ok last(2) by auto
qed simp

text \<open>C27: Identifiers come out in creation order: whatever the wall clock says at each draw (standing still, moving
  back, or leaping), and whatever the randomness, any sequence of identifiers drawn from one clock is strictly
  increasing byte by byte, as long as the milliseconds fit their 48 bits; so no two are equal either.
\<close>

theorem ids_strictly_increase:
  assumes "clock_ok c" and "ck_last (snd (drawn reqs c)) < 2 ^ 48"
  shows "sorted_wrt uuid_before (fst (drawn reqs c)) \<and> distinct (fst (drawn reqs c))"
proof -
  have "sorted_wrt uuid_before (fst (drawn reqs c))" using assms
  proof (induction reqs c rule: drawn.induct)
    case (2 now r reqs c)
    let ?c = "tick now c"
    obtain us d where us: "drawn reqs ?c = (us, d)" by fastforce
    have ok: "clock_ok ?c" using tick_advances "2.prems"(1) by simp
    have last: "ck_last (snd (drawn reqs ?c)) < 2 ^ 48" using "2.prems"(2) us by (simp add: New_def Let_def)
    have "sorted_wrt uuid_before us" using "2.IH" [of "(layout ?c r, ?c)" "layout ?c r" ?c] ok last us by (simp add: New_def Let_def)
    moreover have "uuid_before (layout ?c r) u" if "u \<in> set us" for u
      using drawn_after [OF ok last] that us uuid_before_stamps [OF ok] by fastforce
    ultimately show ?case using us by (simp add: New_def Let_def)
  qed simp
  moreover have "distinct us" if "sorted_wrt uuid_before us" for us
    using that by (induction us) (auto simp: uuid_before_def)
  ultimately show ?thesis by simp
qed

theorem ids_strictly_increase_witness:
  "sorted_wrt uuid_before (fst (drawn [(5, [0,1,2,3,4,5,6,7]), (3, [9,1,2,3,4,5,6,7]), (4, [0,0,0,0,0,0,0,0])] \<lparr>ck_last = 0, ck_sequence = 0\<rparr>))"
  by (rule ids_strictly_increase [THEN conjunct1]) (simp_all add: clock_ok_def New_def tick_def Let_def)

section \<open>Text and identifier\<close>

definition lower_hex :: "char \<Rightarrow> char" where
  "lower_hex c = (let n = of_char c :: nat in if 65 \<le> n \<and> n \<le> 70 then char_of (n + 32) else c)"

lemma from_hex_digit: "n < 16 \<Longrightarrow> from_hex (hex_digit n) = Some n"
proof -
  have "\<forall>n \<in> set [0..<16]. from_hex (hex_digit n) = Some n" by code_simp
  then show "n < 16 \<Longrightarrow> from_hex (hex_digit n) = Some n" by simp
qed

lemma from_hex_Some:
  assumes "from_hex c = Some h"
  shows "h < 16 \<and> hex_digit h = lower_hex c"
proof -
  define n :: nat where "n = of_char c"
  then have c: "c = char_of n" by simp
  have d: "\<forall>n \<in> set [48..<58]. hex_digit (n - 48) = char_of (n :: nat)" by code_simp
  have l: "\<forall>n \<in> set [97..<103]. hex_digit (n - 97 + 10) = char_of (n :: nat)" by code_simp
  have u: "\<forall>n \<in> set [65..<71]. hex_digit (n - 65 + 10) = char_of (n + 32 :: nat)" by code_simp
  from assms consider "48 \<le> n" "n \<le> 57" "h = n - 48" | "97 \<le> n" "n \<le> 102" "h = n - 97 + 10" | "65 \<le> n" "n \<le> 70" "h = n - 65 + 10"
    by (auto simp: from_hex_def Let_def n_def split: if_splits)
  then show ?thesis
  proof cases
    case 1
    then have "n \<in> set [48..<58]" by (simp only: set_upt atLeastLessThan_iff, simp)
    with d have "hex_digit (n - 48) = char_of n" by blast
    with 1 have "hex_digit h = char_of n" by simp
    with 1 show ?thesis using n_def [symmetric] c [symmetric] by (simp add: lower_hex_def Let_def)
  next
    case 2
    then have "n \<in> set [97..<103]" by (simp only: set_upt atLeastLessThan_iff, simp)
    with l have "hex_digit (n - 97 + 10) = char_of n" by blast
    with 2 have "hex_digit h = char_of n" by simp
    with 2 show ?thesis using n_def [symmetric] c [symmetric] by (simp add: lower_hex_def Let_def)
  next
    case 3
    then have "n \<in> set [65..<71]" by (simp only: set_upt atLeastLessThan_iff, simp)
    with u have "hex_digit (n - 65 + 10) = char_of (n + 32)" by blast
    with 3 have "hex_digit h = char_of (n + 32)" by simp
    with 3 show ?thesis using n_def [symmetric] by (simp add: lower_hex_def Let_def)
  qed
qed

lemma hex_decode_encode: "hex_decode (hex_encode bs) = Some bs"
proof (induction bs)
  case (Cons b bs)
  have "unat b < 256" using unsigned_less [of b] by simp
  then have "unat b div 16 < 16" by simp
  with Cons show ?case by (simp add: hex_encode_def hex_byte_def from_hex_digit)
qed (simp add: hex_encode_def)

lemma hex_encode_length [simp]: "length (hex_encode bs) = 2 * length bs"
  by (induction bs) (simp_all add: hex_encode_def hex_byte_def)

lemma hex_decode_Some: "hex_decode s = Some bs \<Longrightarrow> hex_encode bs = map lower_hex s \<and> 2 * length bs = length s"
proof (induction s arbitrary: bs rule: hex_decode.induct)
  case (3 c d s)
  from "3.prems" obtain h l bs' where hl: "from_hex c = Some h" "from_hex d = Some l" and bs': "hex_decode s = Some bs'"
    and bs: "bs = word_of_nat (h * 16 + l) # bs'"
    by (auto split: option.splits)
  have "h < 16" "l < 16" using from_hex_Some hl by blast+
  then have "unat (word_of_nat (h * 16 + l) :: byte) = h * 16 + l" by (simp only: unat_of_nat) simp
  then have "hex_byte (word_of_nat (h * 16 + l)) = [lower_hex c, lower_hex d]"
    using hl [THEN from_hex_Some] \<open>l < 16\<close> by (simp add: hex_byte_def)
  with "3.IH" [OF refl hl bs'] bs show ?case by (simp add: hex_encode_def)
qed (auto simp: hex_encode_def)

lemma uuid_String_length: "length u = 16 \<Longrightarrow> length (uuid_String u) = 36"
  by (simp add: uuid_String_def)

lemma group_append: "length a = i \<Longrightarrow> length b = j - i \<Longrightarrow> group i j (a @ b @ c) = b"
  by (simp add: group_def)

lemma uuid_bytes_String:
  assumes "length u = 16"
  shows "uuid_bytes (uuid_String u) = Some u"
proof -
  let ?a = "hex_encode (take 4 u)" and ?b = "hex_encode (take 2 (drop 4 u))" and ?c = "hex_encode (take 2 (drop 6 u))"
    and ?d = "hex_encode (take 2 (drop 8 u))" and ?e = "hex_encode (drop 10 u)"
  have g: "group 0 8 (uuid_String u) = ?a" "group 9 13 (uuid_String u) = ?b" "group 14 18 (uuid_String u) = ?c"
    "group 19 23 (uuid_String u) = ?d" "group 24 36 (uuid_String u) = ?e"
    using assms by (simp_all add: uuid_String_def group_def)
  have "take 4 u @ take 2 (drop 4 u) @ take 2 (drop 6 u) @ take 2 (drop 8 u) @ drop 10 u = u"
    using append_take_drop_id [of 4 u] append_take_drop_id [of 2 "drop 4 u"] append_take_drop_id [of 2 "drop 6 u"] append_take_drop_id [of 2 "drop 8 u"]
    by (simp add: drop_drop)
  then show ?thesis unfolding uuid_bytes_def g hex_decode_encode by simp
qed

lemma uuid_Parse_String:
  assumes "length u = 16" and "drop_bit 4 (u ! 6) = 7" and "u ! 8 AND 0xC0 = 0x80"
  shows "uuid_Parse (uuid_String u) = Some u"
proof -
  have "length (uuid_String u) = 36" using assms(1) by (rule uuid_String_length)
  moreover have "uuid_String u ! 8 = CHR ''-''" "uuid_String u ! 13 = CHR ''-''" "uuid_String u ! 18 = CHR ''-''" "uuid_String u ! 23 = CHR ''-''"
    using assms(1) by (simp_all add: uuid_String_def nth_append)
  ultimately show ?thesis using assms by (simp add: uuid_Parse_def uuid_bytes_String)
qed

lemma layout_version:
  assumes "clock_ok c"
  shows "length (layout c r) = 16" and "drop_bit 4 (layout c r ! 6) = 7" and "layout c r ! 8 AND 0xC0 = 0x80"
proof -
  show "length (layout c r) = 16" by (simp add: layout_def)
  have "unat (layout c r ! 6) = 112 + unat (ck_sequence c) div 256"
    using assms by (simp add: layout_def clock_ok_def seq_high)
  moreover have "unat (ck_sequence c) div 256 < 16" using assms unfolding clock_ok_def by linarith
  ultimately have "unat (drop_bit 4 (layout c r ! 6)) = unat (7 :: byte)" by (simp add: drop_bit_eq_div unat_div)
  then show "drop_bit 4 (layout c r ! 6) = 7" by (simp only: word_unat_eq_iff)
  show "layout c r ! 8 AND 0xC0 = 0x80"
    by (simp add: layout_def bit.conj_disj_distrib2 and.assoc)
qed

lemma lower_split:
  assumes "j < length s" and "i \<le> j" and "s ! j = CHR ''-''"
  shows "map lower_hex (drop i s) = map lower_hex (group i j s) @ CHR ''-'' # map lower_hex (drop (Suc j) s)"
proof -
  have "drop i s = take (j - i) (drop i s) @ drop j s" using append_take_drop_id [of "j - i" "drop i s"] assms(2) by simp
  also have "drop j s = CHR ''-'' # drop (Suc j) s" using assms by (metis Cons_nth_drop_Suc)
  finally have "map lower_hex (drop i s) = map lower_hex (take (j - i) (drop i s) @ CHR ''-'' # drop (Suc j) s)" by (rule arg_cong)
  then show ?thesis by (simp add: group_def lower_hex_def)
qed

text \<open>Text and identifier determine each other: every identifier drawn from a sound clock is read back from its
  canonical text, which has 36 characters; and any text that the parser takes spells, up to the case of its
  hexadecimal letters, the canonical text of the identifier it yields.
\<close>

theorem identifier_text_round_trip:
  "(clock_ok c \<longrightarrow> (let u = fst (New now r c) in uuid_Parse (uuid_String u) = Some u \<and> length (uuid_String u) = 36))
   \<and> (uuid_Parse s = Some v \<longrightarrow> length v = 16 \<and> uuid_String v = map lower_hex s)"
proof (intro conjI impI)
  assume "clock_ok c"
  then have "clock_ok (tick now c)" by (rule tick_advances)
  from layout_version [OF this] show "let u = fst (New now r c) in uuid_Parse (uuid_String u) = Some u \<and> length (uuid_String u) = 36"
    by (simp add: New_def Let_def uuid_Parse_String uuid_String_length)
next
  assume s: "uuid_Parse s = Some v"
  then have n: "length s = 36" and dash: "s ! 8 = CHR ''-''" "s ! 13 = CHR ''-''" "s ! 18 = CHR ''-''" "s ! 23 = CHR ''-''"
    and v: "uuid_bytes s = Some v"
    by (auto simp: uuid_Parse_def split: if_splits option.splits)
  from v obtain a b c d e where parts: "hex_decode (group 0 8 s) = Some a" "hex_decode (group 9 13 s) = Some b" "hex_decode (group 14 18 s) = Some c"
    "hex_decode (group 19 23 s) = Some d" "hex_decode (group 24 36 s) = Some e" and v: "v = a @ b @ c @ d @ e"
    by (auto simp: uuid_bytes_def split: option.splits)
  note q = parts [THEN hex_decode_Some]
  have len: "length a = 4" "length b = 2" "length c = 2" "length d = 2" "length e = 6"
    using q n by (simp_all add: group_def)
  then show "length v = 16" by (simp add: v)
  have "map lower_hex (drop 0 s) = map lower_hex (group 0 8 s) @ ''-'' @ map lower_hex (group 9 13 s) @ ''-'' @ map lower_hex (group 14 18 s) @ ''-''
      @ map lower_hex (group 19 23 s) @ ''-'' @ map lower_hex (drop 24 s)"
    using n dash lower_split [of 8 s 0] lower_split [of 13 s 9] lower_split [of 18 s 14] lower_split [of 23 s 19] by simp
  then have "map lower_hex s = map lower_hex (group 0 8 s) @ ''-'' @ map lower_hex (group 9 13 s) @ ''-'' @ map lower_hex (group 14 18 s) @ ''-''
      @ map lower_hex (group 19 23 s) @ ''-'' @ map lower_hex (group 24 36 s)"
    using n dash by (simp add: group_def lower_hex_def)
  also have "\<dots> = uuid_String v" using q len by (simp add: v uuid_String_def)
  finally show "uuid_String v = map lower_hex s" ..
qed


lemma ex_upper_parses:
  "uuid_Parse ''0190A1B2-0000-7ABC-8001-0203040506FF''
     = Some [0x01, 0x90, 0xA1, 0xB2, 0, 0, 0x7A, 0xBC, 0x80, 1, 2, 3, 4, 5, 6, 0xFF]"
  by (simp add: uuid_Parse_def uuid_bytes_def group_def from_hex_def drop_bit_eq_div)

theorem identifier_text_round_trip_witness:
  "(let u = fst (New 7 [0,1,2,3,4,5,6,7] \<lparr>ck_last = 0, ck_sequence = 0\<rparr>) in uuid_Parse (uuid_String u) = Some u)
   \<and> uuid_String [0x01, 0x90, 0xA1, 0xB2, 0, 0, 0x7A, 0xBC, 0x80, 1, 2, 3, 4, 5, 6, 0xFF]
       = map lower_hex ''0190A1B2-0000-7ABC-8001-0203040506FF''"
  using identifier_text_round_trip [of "\<lparr>ck_last = 0, ck_sequence = 0\<rparr>" 7 "[0,1,2,3,4,5,6,7]" "''0190A1B2-0000-7ABC-8001-0203040506FF''"] ex_upper_parses
  by (simp add: clock_ok_def Let_def)

text \<open>The parser is called canonical, but takes text that is not: upper-case hexadecimal is read as well.\<close>

lemma upper_case_is_parsed:
  "uuid_Parse ''0190A1B2-0000-7ABC-8001-0203040506FF'' = uuid_Parse ''0190a1b2-0000-7abc-8001-0203040506ff''
   \<and> uuid_Parse ''0190A1B2-0000-7ABC-8001-0203040506FF'' \<noteq> None"
  unfolding ex_upper_parses by (simp add: uuid_Parse_def uuid_bytes_def group_def from_hex_def drop_bit_eq_div)

end
