(* ===== verification/Identity_Tables.thy ===== *)
theory Identity_Tables
  imports Authz Row_Scope
begin

text \<open>
  The rows of the identity and tenancy schemas (\<open>services/platform/internal/identity\<close>), the validation of what
  a person types (\<open>identity.go\<close>, \<open>slug.go\<close>), the purposes of tokens (\<open>platform/token\<close>), and the statements the
  repository shares (\<open>repository.go\<close>, \<open>db/queries.sql.gen.go\<close>).  A token is known by its hash only: the
  hash is an argument of the operations, as are the randomness of a token and the password hashing.
\<close>

section \<open>Rows\<close>

record user_row =
  us_id :: string
  us_email :: string
  us_verified :: bool
  us_status :: string

record session_row =
  sn_id :: string
  sn_user :: string
  sn_family :: string
  sn_token :: string
  sn_refresh :: string
  sn_issued_at :: time
  sn_expires_at :: time
  sn_refresh_expires_at :: time
  sn_authenticated_at :: time
  sn_retired :: "time option"
  sn_revoked :: "time option"
  sn_tenant :: string

record action_token =
  ak_id :: string
  ak_user :: string
  ak_purpose :: string
  ak_hash :: string
  ak_created_at :: time
  ak_expires_at :: time
  ak_used :: "time option"
  ak_superseded :: "time option"
  ak_attempts :: int

record membership_row =
  mb_id :: string
  mb_tenant :: string
  mb_user :: string
  mb_status :: string
  mb_role :: string
  mb_version :: int
  mb_created_at :: time

record tenant_row =
  tt_id :: string
  tt_name :: string
  tt_slug :: string
  tt_region :: string

record elevation_row =
  eg_id :: string
  eg_user :: string
  eg_reason :: string
  eg_ticket :: string
  eg_granted_at :: time
  eg_expires_at :: time
  eg_revoked :: "time option"

record oauth_state =
  oz_id :: string
  oz_provider :: string
  oz_hash :: string
  oz_verifier :: string
  oz_redirect :: string
  oz_expires_at :: time
  oz_used :: "time option"

record oauth_identity =
  ox_id :: string
  ox_user :: string
  ox_provider :: string
  ox_subject :: string
  ox_email :: string

text \<open>An empty tenant stands for \<open>NULL\<close>, as does an empty actor; the detail is the object that is encoded.\<close>

record audit_event =
  av_id :: string
  av_tenant :: string
  av_actor :: string
  av_action :: string
  av_subject_type :: string
  av_subject :: string
  av_outcome :: string
  av_request :: string
  av_detail :: "(string \<times> string) list"

record identity_db =
  iy_users :: "user_row list"
  iy_credentials :: "(string \<times> string) list"
  iy_sessions :: "session_row list"
  iy_tokens :: "action_token list"
  iy_memberships :: "membership_row list"
  iy_tenants :: "tenant_row list"
  iy_elevations :: "elevation_row list"
  iy_oauth_states :: "oauth_state list"
  iy_oauth_ids :: "oauth_identity list"
  iy_audit :: "audit_event list"

definition empty_identity :: identity_db where
  "empty_identity = \<lparr>iy_users = [], iy_credentials = [], iy_sessions = [], iy_tokens = [], iy_memberships = [],
     iy_tenants = [], iy_elevations = [], iy_oauth_states = [], iy_oauth_ids = [], iy_audit = []\<rparr>"

text \<open>
  The sentinels of the package, and the refusals that have none: an empty scope, a violated unique index, another
  refused statement, an email that was not enqueued, flows that are not configured, an unusable stored hash.
\<close>

datatype identity_error =
    IdentityNotFound
  | ErrEmailInvalid | ErrPasswordTooShort | ErrPasswordTooLong | ErrAccountType | ErrOrganisationName
  | ErrCredentialsInvalid | ErrNoMembership | ErrSessionInvalid
  | ErrTokenInvalid | ErrTokenExpired | ErrTokenUsed | ErrTokenSuperseded | ErrCodeIncorrect | ErrTooManyAttempts
  | CooldownError duration
  | ErrMemberNotFound | ErrMemberExists | ErrMemberOwner | ErrMemberRoleInvalid | ErrMemberUnknownEmail | ErrMemberStale
  | ErrElevationReason | ErrElevationTicket | ErrElevationTooLong | ErrElevationGone
  | ErrOAuthStateInvalid | ErrOAuthStateExpired | ErrOAuthEmailUnverified | ErrOAuthProviderUnknown
  | ForbiddenError reason
  | IdentityNoScope | IdentityUniqueViolation | IdentityStatementRefused | IdentityMailRefused | IdentityUnusable

section \<open>What a person types\<close>

definition maxEmailLength :: nat where "maxEmailLength = 320"
definition minPasswordLength :: nat where "minPasswordLength = 12"
definition maxPasswordLength :: nat where "maxPasswordLength = 1024"
definition maxOrgNameLength :: nat where "maxOrgNameLength = 200"

definition NormaliseEmail :: "string \<Rightarrow> string" where
  "NormaliseEmail raw = ToLower (TrimSpace raw)"

definition is_control :: "char \<Rightarrow> bool" where
  "is_control c \<longleftrightarrow> (of_char c :: nat) < 32 \<or> (of_char c :: nat) = 127"

definition ValidateEmail :: "string \<Rightarrow> identity_error option" where
  "ValidateEmail raw =
     (let address = NormaliseEmail raw; local = takeWhile (\<lambda>c. c \<noteq> CHR ''@'') address;
          domain = tl (dropWhile (\<lambda>c. c \<noteq> CHR ''@'') address) in
      if address = '''' \<or> length address > maxEmailLength then Some ErrEmailInvalid
      else if list_ex (\<lambda>c. is_control c \<or> is_space c) address then Some ErrEmailInvalid
      else if Contains (ToLower address) ''%0a'' \<or> Contains (ToLower address) ''%0d'' then Some ErrEmailInvalid
      else if CHR ''@'' \<notin> set address \<or> local = '''' \<or> domain = '''' then Some ErrEmailInvalid
      else if CHR ''@'' \<in> set domain then Some ErrEmailInvalid
      else if CHR ''.'' \<notin> set domain \<or> hd domain = CHR ''.'' \<or> last domain = CHR ''.'' then Some ErrEmailInvalid
      else None)"

definition ValidatePassword :: "string \<Rightarrow> identity_error option" where
  "ValidatePassword p =
     (if length p < minPasswordLength then Some ErrPasswordTooShort
      else if length p > maxPasswordLength then Some ErrPasswordTooLong
      else None)"

datatype account_type = AccountCandidate | AccountOrganisation | AccountOther string

definition ValidateAccountType :: "account_type \<Rightarrow> string \<Rightarrow> identity_error option" where
  "ValidateAccountType t organisation =
     (case t of
        AccountCandidate \<Rightarrow> None
      | AccountOrganisation \<Rightarrow>
          (let name = TrimSpace organisation in
           if name = '''' \<or> length name > maxOrgNameLength then Some ErrOrganisationName else None)
      | AccountOther _ \<Rightarrow> Some ErrAccountType)"

definition maxSlugLength :: nat where "maxSlugLength = 63"

text \<open>The ASCII letters and digits, by code point: what \<open>r <= unicode.MaxASCII\<close> leaves of \<open>IsLetter\<close> and \<open>IsDigit\<close>.
  A lower-cased non-ASCII letter that becomes ASCII (the Kelvin sign) is outside the model's one-byte characters.\<close>

definition code_within :: "nat \<Rightarrow> nat \<Rightarrow> char \<Rightarrow> bool" where
  "code_within first final c \<longleftrightarrow> first \<le> of_char c \<and> of_char c \<le> (final :: nat)"

definition slug_char :: "char \<Rightarrow> bool" where
  "slug_char c \<longleftrightarrow> code_within 97 122 c \<or> code_within 65 90 c \<or> code_within 48 57 c"

text \<open>The loop, with what it remembers of the character before: runs of anything else become one hyphen.\<close>

fun slug_loop :: "bool \<Rightarrow> string \<Rightarrow> string" where
  "slug_loop separated [] = []"
| "slug_loop separated (c # cs) =
     (if slug_char c then c # slug_loop False cs
      else if \<not> separated then CHR ''-'' # slug_loop True cs
      else slug_loop separated cs)"

definition trim_hyphens :: "string \<Rightarrow> string" where
  "trim_hyphens s = rev (dropWhile (\<lambda>c. c = CHR ''-'') (rev (dropWhile (\<lambda>c. c = CHR ''-'') s)))"

definition Slugify :: "string \<Rightarrow> string" where
  "Slugify name =
     (let slug = trim_hyphens (slug_loop True (ToLower name));
          cut = (if length slug > maxSlugLength then trim_hyphens (take maxSlugLength slug) else slug) in
      if cut = '''' then ''org'' else cut)"

lemma Slugify_bounded:
  "Slugify name \<noteq> '''' \<and> length (Slugify name) \<le> maxSlugLength"
proof -
  have trimmed: "length (trim_hyphens s) \<le> length s" for s
    using length_dropWhile_le [of "\<lambda>c. c = CHR ''-''" "rev (dropWhile (\<lambda>c. c = CHR ''-'') s)"]
      length_dropWhile_le [of "\<lambda>c. c = CHR ''-''" s]
    by (simp add: trim_hyphens_def)
  show ?thesis
    using trimmed [of "take maxSlugLength (trim_hyphens (slug_loop True (ToLower name)))"]
    by (auto simp: Slugify_def Let_def maxSlugLength_def)
qed

section \<open>Tokens\<close>

definition prefixes :: "(string \<times> string) list" where
  "prefixes = [(''session'', ''ses''), (''refresh'', ''ref''), (''email_verify'', ''vrf''), (''password_reset'', ''rst''),
     (''magic_link'', ''mgc''), (''otp'', ''otp''), (''invitation'', ''inv''), (''oauth_state'', ''oas''), (''oauth_verifier'', ''oav'')]"

definition PurposeOf :: "string \<Rightarrow> string option" where
  "PurposeOf plaintext =
     (if CHR ''_'' \<notin> set plaintext then None
      else map_option fst (find (\<lambda>(p, x). x = takeWhile (\<lambda>c. c \<noteq> CHR ''_'') plaintext) prefixes))"

text \<open>A token of a purpose, from its random part.\<close>

definition token_New :: "string \<Rightarrow> string \<Rightarrow> string" where
  "token_New purpose secret = the (map_of prefixes purpose) @ ''_'' @ secret"

definition token_Equals :: "string \<Rightarrow> string \<Rightarrow> bool" where
  "token_Equals a b \<longleftrightarrow> a \<noteq> '''' \<and> b \<noteq> '''' \<and> a = b"

section \<open>Statements\<close>

text \<open>The column of an address compares without regard to case.\<close>

definition same_address :: "string \<Rightarrow> string \<Rightarrow> bool" where
  "same_address a b \<longleftrightarrow> a \<noteq> '''' \<and> ToLower a = ToLower b"

definition FindActiveUserByEmail :: "string \<Rightarrow> identity_db \<Rightarrow> string option" where
  "FindActiveUserByEmail email db =
     map_option us_id (find (\<lambda>u. same_address (us_email u) email \<and> us_status u = ''active'') (iy_users db))"

definition FindCredentialsByEmail :: "string \<Rightarrow> identity_db \<Rightarrow> (string \<times> string) option" where
  "FindCredentialsByEmail email db =
     map_option (\<lambda>u. (us_id u, the (map_of (iy_credentials db) (us_id u))))
       (find (\<lambda>u. same_address (us_email u) email \<and> us_status u = ''active'' \<and> us_id u \<in> fst ` set (iy_credentials db))
         (iy_users db))"

definition InsertUser :: "string \<Rightarrow> string \<Rightarrow> identity_db \<Rightarrow> identity_error + identity_db" where
  "InsertUser i email db =
     (if i \<in> us_id ` set (iy_users db) \<or> list_ex (\<lambda>u. same_address (us_email u) email) (iy_users db)
      then Inl IdentityUniqueViolation
      else Inr (db\<lparr>iy_users := iy_users db @ [\<lparr>us_id = i, us_email = email, us_verified = False, us_status = ''active''\<rparr>]\<rparr>))"

definition InsertCredentials :: "string \<Rightarrow> string \<Rightarrow> identity_db \<Rightarrow> identity_error + identity_db" where
  "InsertCredentials user hash db =
     (if user \<in> fst ` set (iy_credentials db) then Inl IdentityUniqueViolation
      else if user \<notin> us_id ` set (iy_users db) then Inl IdentityStatementRefused
      else Inr (db\<lparr>iy_credentials := iy_credentials db @ [(user, hash)]\<rparr>))"

definition MarkEmailVerified :: "string \<Rightarrow> identity_db \<Rightarrow> identity_db" where
  "MarkEmailVerified user db =
     db\<lparr>iy_users := map (\<lambda>u. if us_id u = user then u\<lparr>us_verified := True\<rparr> else u) (iy_users db)\<rparr>"

definition UpdatePasswordHash :: "string \<Rightarrow> string \<Rightarrow> identity_db \<Rightarrow> identity_db" where
  "UpdatePasswordHash user hash db =
     db\<lparr>iy_credentials := map (\<lambda>(u, h). if u = user then (u, hash) else (u, h)) (iy_credentials db)\<rparr>"

definition insert_audit :: "audit_event \<Rightarrow> identity_db \<Rightarrow> identity_error + identity_db" where
  "insert_audit a db =
     (if av_id a \<in> av_id ` set (iy_audit db) then Inl IdentityUniqueViolation
      else Inr (db\<lparr>iy_audit := iy_audit db @ [a]\<rparr>))"

text \<open>\<open>writeAudit\<close>, for an act outside every workspace.\<close>

definition writeAudit ::
  "string \<Rightarrow> string \<Rightarrow> string \<Rightarrow> string \<Rightarrow> string \<Rightarrow> string \<Rightarrow> string \<Rightarrow> identity_db \<Rightarrow> identity_error + identity_db" where
  "writeAudit i actor action outcome subject_type subject request db =
     insert_audit \<lparr>av_id = i, av_tenant = '''', av_actor = actor, av_action = action, av_subject_type = subject_type,
       av_subject = subject, av_outcome = outcome, av_request = request, av_detail = []\<rparr> db"

end
