(* ===== verification/Sessions.thy ===== *)
theory Sessions
  imports Identity_Tables
begin

text \<open>
  Sessions (\<open>internal/identity/service.go\<close> and the session half of \<open>repository.go\<close>): issuing a token pair, signing in with
  a password, rotating, looking up, revoking, choosing a workspace, and the one authorization path.  A family is
  one login; rotation appends a row and retires the one before.  \<open>H\<close> is the hash of a token; the draws are the
  identifiers and secrets the code reads from the random source.  \<open>seen\<close> is the schema as an operation's first read
  finds it, \<open>db\<close> as its writes do.
\<close>

section \<open>Issuing\<close>

definition sessionLifetime :: duration where "sessionLifetime = 30 * minute"
definition refreshLifetime :: duration where "refreshLifetime = 30 * 24 * hour"

record issued_session =
  is_id :: string
  is_user :: string
  is_family :: string
  is_session_token :: string
  is_refresh_token :: string
  is_expires_at :: time
  is_refresh_expires :: time
  is_authenticated_at :: time

record session_draws =
  sd_id :: string
  sd_session_secret :: string
  sd_refresh_secret :: string

definition InsertSession :: "session_row \<Rightarrow> identity_db \<Rightarrow> identity_error + identity_db" where
  "InsertSession s db =
     (if sn_id s \<in> sn_id ` set (iy_sessions db) \<or> sn_token s \<in> sn_token ` set (iy_sessions db)
         \<or> sn_refresh s \<in> sn_refresh ` set (iy_sessions db) then Inl IdentityUniqueViolation
      else if sn_user s \<notin> us_id ` set (iy_users db) then Inl IdentityStatementRefused
      else Inr (db\<lparr>iy_sessions := iy_sessions db @ [s]\<rparr>))"

definition issue ::
  "(string \<Rightarrow> string) \<Rightarrow> session_draws \<Rightarrow> string \<Rightarrow> string \<Rightarrow> time \<Rightarrow> time \<Rightarrow> identity_db
     \<Rightarrow> identity_error + issued_session \<times> identity_db" where
  "issue H d user family now authenticated db =
     (let session = token_New ''session'' (sd_session_secret d); refresh = token_New ''refresh'' (sd_refresh_secret d);
          row = \<lparr>sn_id = sd_id d, sn_user = user, sn_family = family, sn_token = H session, sn_refresh = H refresh,
                 sn_issued_at = now, sn_expires_at = now + sessionLifetime, sn_refresh_expires_at = now + refreshLifetime,
                 sn_authenticated_at = authenticated, sn_retired = None, sn_revoked = None, sn_tenant = ''''\<rparr> in
      bindE (InsertSession row db) (\<lambda>db'. Inr
        (\<lparr>is_id = sd_id d, is_user = user, is_family = family, is_session_token = session, is_refresh_token = refresh,
          is_expires_at = sn_expires_at row, is_refresh_expires = sn_refresh_expires_at row, is_authenticated_at = authenticated\<rparr>, db')))"

section \<open>Signing in\<close>

text \<open>
  Verifying a password against a stored hash: nothing when the hash cannot be read, else whether it matches and
  whether it was made with parameters that are out of date.  \<open>rehash\<close> is the hash made of the same password now,
  when that succeeds.
\<close>

type_synonym verifier = "string \<Rightarrow> string \<Rightarrow> (bool \<times> bool) option"

definition Authenticate ::
  "(string \<Rightarrow> string) \<Rightarrow> verifier \<Rightarrow> string option \<Rightarrow> session_draws \<Rightarrow> string \<Rightarrow> time \<Rightarrow> string \<Rightarrow> string \<Rightarrow> identity_db
     \<Rightarrow> (identity_error + issued_session) \<times> identity_db" where
  "Authenticate H verify rehash d family now raw password db =
     (case FindCredentialsByEmail (NormaliseEmail raw) db of
        None \<Rightarrow> (Inl ErrCredentialsInvalid, db)
      | Some (user, hash) \<Rightarrow>
          (if hash = '''' then (Inl ErrCredentialsInvalid, db)
           else case verify hash password of
             None \<Rightarrow> (Inl IdentityUnusable, db)
           | Some (matches, outdated) \<Rightarrow>
               (if \<not> matches then (Inl ErrCredentialsInvalid, db)
                else
                  (let db1 = (case (outdated, rehash) of (True, Some h) \<Rightarrow> UpdatePasswordHash user h db | _ \<Rightarrow> db) in
                   case issue H d user family now now db1 of
                     Inl e \<Rightarrow> (Inl e, db1)
                   | Inr (s, db2) \<Rightarrow> (Inr s, db2)))))"

section \<open>Rotation and revocation\<close>

definition FindSessionByToken :: "string \<Rightarrow> identity_db \<Rightarrow> session_row option" where
  "FindSessionByToken hash db = find (\<lambda>s. sn_token s = hash) (iy_sessions db)"

definition FindSessionByRefresh :: "string \<Rightarrow> identity_db \<Rightarrow> session_row option" where
  "FindSessionByRefresh hash db = find (\<lambda>s. sn_refresh s = hash) (iy_sessions db)"

definition RetireSession :: "string \<Rightarrow> time \<Rightarrow> identity_db \<Rightarrow> identity_db" where
  "RetireSession i now db =
     db\<lparr>iy_sessions := map (\<lambda>s. if sn_id s = i \<and> sn_retired s = None then s\<lparr>sn_retired := Some now\<rparr> else s) (iy_sessions db)\<rparr>"

definition RevokeFamily :: "string \<Rightarrow> time \<Rightarrow> identity_db \<Rightarrow> identity_db" where
  "RevokeFamily family now db =
     db\<lparr>iy_sessions := map (\<lambda>s. if sn_family s = family \<and> sn_revoked s = None then s\<lparr>sn_revoked := Some now\<rparr> else s) (iy_sessions db)\<rparr>"

definition Refresh ::
  "(string \<Rightarrow> string) \<Rightarrow> session_draws \<Rightarrow> time \<Rightarrow> string \<Rightarrow> identity_db \<Rightarrow> identity_db
     \<Rightarrow> (identity_error + issued_session) \<times> identity_db" where
  "Refresh H d now token seen db =
     (case FindSessionByRefresh (H token) seen of
        None \<Rightarrow> (Inl ErrSessionInvalid, db)
      | Some row \<Rightarrow>
          (if sn_retired row \<noteq> None then (Inl ErrSessionInvalid, RevokeFamily (sn_family row) now db)
           else if sn_revoked row \<noteq> None \<or> \<not> now < sn_refresh_expires_at row then (Inl ErrSessionInvalid, db)
           else
             (let db1 = RetireSession (sn_id row) now db in
              case issue H d (sn_user row) (sn_family row) now (sn_authenticated_at row) db1 of
                Inl e \<Rightarrow> (Inl e, db1)
              | Inr (s, db2) \<Rightarrow> (Inr s, db2))))"

text \<open>
  Each statement of \<open>Refresh\<close> is a transaction of its own: the row is read, a row already rotated away has its
  family revoked, and otherwise the row is retired and the new pair issued.  The operation above is these run one
  after another (lemma \<open>Refresh_uninterrupted\<close>, with nothing between the two writes); what is in flight between
  them is a rotation, of the row as it was read.
\<close>

datatype rotation = Revoking session_row time | Retiring session_row time | Issuing session_row time

definition RefreshRead ::
  "(string \<Rightarrow> string) \<Rightarrow> time \<Rightarrow> string \<Rightarrow> identity_db \<Rightarrow> identity_error + rotation" where
  "RefreshRead H now token seen =
     (case FindSessionByRefresh (H token) seen of
        None \<Rightarrow> Inl ErrSessionInvalid
      | Some row \<Rightarrow>
          (if sn_retired row \<noteq> None then Inr (Revoking row now)
           else if sn_revoked row \<noteq> None \<or> \<not> now < sn_refresh_expires_at row then Inl ErrSessionInvalid
           else Inr (Retiring row now)))"

text \<open>The next transaction of a rotation: with the rotation that remains, or with its answer.\<close>

fun RefreshNext ::
  "(string \<Rightarrow> string) \<Rightarrow> session_draws \<Rightarrow> rotation \<Rightarrow> identity_db
     \<Rightarrow> (rotation + (identity_error + issued_session)) \<times> identity_db" where
  "RefreshNext H d (Revoking row now) db = (Inr (Inl ErrSessionInvalid), RevokeFamily (sn_family row) now db)"
| "RefreshNext H d (Retiring row now) db = (Inl (Issuing row now), RetireSession (sn_id row) now db)"
| "RefreshNext H d (Issuing row now) db =
     (case issue H d (sn_user row) (sn_family row) now (sn_authenticated_at row) db of
        Inl e \<Rightarrow> (Inr (Inl e), db)
      | Inr (s, db') \<Rightarrow> (Inr (Inr s), db'))"

fun RefreshRest :: "(string \<Rightarrow> string) \<Rightarrow> session_draws \<Rightarrow> nat \<Rightarrow> rotation \<Rightarrow> identity_db
     \<Rightarrow> ((identity_error + issued_session) \<times> identity_db) option" where
  "RefreshRest H d 0 r db = None"
| "RefreshRest H d (Suc n) r db =
     (case RefreshNext H d r db of
        (Inr answer, db') \<Rightarrow> Some (answer, db')
      | (Inl r', db') \<Rightarrow> RefreshRest H d n r' db')"

lemma Refresh_uninterrupted:
  "Some (Refresh H d now token seen db) =
     (case RefreshRead H now token seen of Inl e \<Rightarrow> Some (Inl e, db) | Inr r \<Rightarrow> RefreshRest H d 2 r db)"
  by (simp add: Refresh_def RefreshRead_def numeral_2_eq_2 Let_def split: option.split sum.split)

definition Revoke :: "(string \<Rightarrow> string) \<Rightarrow> time \<Rightarrow> string \<Rightarrow> identity_db \<Rightarrow> identity_db \<Rightarrow> identity_db" where
  "Revoke H now token seen db =
     (case FindSessionByToken (H token) seen of
        None \<Rightarrow> db
      | Some row \<Rightarrow> (if sn_revoked row \<noteq> None then db else RevokeFamily (sn_family row) now db))"

section \<open>Looking up\<close>

definition session_valid :: "time \<Rightarrow> session_row \<Rightarrow> bool" where
  "session_valid now s \<longleftrightarrow> sn_revoked s = None \<and> now < sn_expires_at s"

text \<open>The newest grant still alive; of equal ends the one read first.\<close>

definition ActiveElevationFor :: "string \<Rightarrow> time \<Rightarrow> identity_db \<Rightarrow> elevation_row option" where
  "ActiveElevationFor user now db =
     (case sort_key (\<lambda>e. - eg_expires_at e)
        (filter (\<lambda>e. eg_user e = user \<and> eg_revoked e = None \<and> eg_expires_at e > now) (iy_elevations db)) of
        [] \<Rightarrow> None | e # _ \<Rightarrow> Some e)"

definition AuditElevatedRequest :: "string \<Rightarrow> string \<Rightarrow> string \<Rightarrow> string \<Rightarrow> identity_db \<Rightarrow> identity_error + identity_db" where
  "AuditElevatedRequest i user grant request db =
     (if SetUser user = None then Inl IdentityNoScope
      else insert_audit \<lparr>av_id = i, av_tenant = '''', av_actor = user, av_action = ''identity.elevated_request'',
        av_subject_type = ''elevation'', av_subject = grant, av_outcome = ''allowed'', av_request = request, av_detail = []\<rparr> db)"

text \<open>\<open>i\<close> is the identifier drawn for the audit row, \<open>request\<close> that of the request; \<open>now\<close> the clock of both ends.\<close>

definition Lookup ::
  "(string \<Rightarrow> string) \<Rightarrow> string \<Rightarrow> string \<Rightarrow> time \<Rightarrow> string \<Rightarrow> identity_db \<Rightarrow> identity_error + session_row \<times> identity_db" where
  "Lookup H i request now token db =
     (case FindSessionByToken (H token) db of
        None \<Rightarrow> Inl ErrSessionInvalid
      | Some row \<Rightarrow>
          (if \<not> session_valid now row then Inl ErrSessionInvalid
           else case ActiveElevationFor (sn_user row) now db of
             None \<Rightarrow> Inr (row, db)
           | Some e \<Rightarrow> bindE (AuditElevatedRequest i (sn_user row) (eg_id e) request db) (\<lambda>db'. Inr (row, db'))))"

section \<open>Authority\<close>

definition FindRole :: "string \<Rightarrow> string \<Rightarrow> identity_db \<Rightarrow> identity_error + role option" where
  "FindRole user tenant db =
     (if SetUser user = None then Inl IdentityNoScope
      else Inr (map_option mb_role
        (find (\<lambda>m. mb_user m = user \<and> mb_tenant m = tenant \<and> mb_status m = ''active'') (iy_memberships db))))"

definition grantsFor :: "session_row \<Rightarrow> identity_db \<Rightarrow> identity_error + capability list" where
  "grantsFor row db =
     (let granted = CapabilitiesOf RoleCandidate in
      if sn_tenant row = '''' then Inr granted
      else bindE (FindRole (sn_user row) (sn_tenant row) db) (\<lambda>role.
        Inr (case role of None \<Rightarrow> granted | Some r \<Rightarrow> granted @ CapabilitiesOf r)))"

definition Capabilities :: "(string \<Rightarrow> string) \<Rightarrow> time \<Rightarrow> string \<Rightarrow> identity_db \<Rightarrow> identity_error + capability list" where
  "Capabilities H now token db =
     (case FindSessionByToken (H token) db of
        None \<Rightarrow> Inl ErrSessionInvalid
      | Some row \<Rightarrow> (if \<not> session_valid now row then Inl ErrSessionInvalid else grantsFor row db))"

definition session_context :: "session_row \<Rightarrow> capability list \<Rightarrow> authz_context" where
  "session_context row granted =
     \<lparr>c_subject = sn_user row, c_active_tenant = sn_tenant row, c_capabilities = granted, c_scopes = [], c_elevation = None,
      c_authenticated_at = sn_authenticated_at row, c_expires_at = sn_expires_at row\<rparr>"

definition Authorize ::
  "(string \<Rightarrow> string) \<Rightarrow> string \<Rightarrow> string \<Rightarrow> time \<Rightarrow> string \<Rightarrow> capability \<Rightarrow> identity_db
     \<Rightarrow> (identity_error + session_row) \<times> identity_db" where
  "Authorize H i request now token c db =
     (case Lookup H i request now token db of
        Inl e \<Rightarrow> (Inl e, db)
      | Inr (row, db') \<Rightarrow>
          (case grantsFor row db' of
             Inl e \<Rightarrow> (Inl e, db')
           | Inr granted \<Rightarrow>
               (let d = Can (session_context row granted) c \<lparr>q_tenant = sn_tenant row, q_scope = None, q_owner = ''''\<rparr> now in
                if d_allowed d then (Inr row, db') else (Inl (ForbiddenError (d_reason d)), db'))))"

section \<open>Choosing a workspace\<close>

definition MembershipExists :: "string \<Rightarrow> string \<Rightarrow> identity_db \<Rightarrow> bool" where
  "MembershipExists user tenant db \<longleftrightarrow>
     list_ex (\<lambda>m. mb_user m = user \<and> mb_tenant m = tenant \<and> mb_status m \<in> {''active'', ''invited''}) (iy_memberships db)"

definition ActivateInvitedMembership :: "string \<Rightarrow> string \<Rightarrow> identity_db \<Rightarrow> identity_error + nat \<times> identity_db" where
  "ActivateInvitedMembership user tenant db =
     (let invited = \<lambda>m. mb_user m = user \<and> mb_tenant m = tenant \<and> mb_status m = ''invited'' in
      if list_ex (\<lambda>m. invited m \<and> mb_version m = 2147483647) (iy_memberships db) then Inl IdentityStatementRefused
      else Inr (length (filter invited (iy_memberships db)),
        db\<lparr>iy_memberships := map (\<lambda>m. if invited m then m\<lparr>mb_status := ''active'', mb_version := mb_version m + 1\<rparr> else m)
          (iy_memberships db)\<rparr>))"

definition SetSessionActiveTenant :: "string \<Rightarrow> string \<Rightarrow> identity_db \<Rightarrow> identity_error + identity_db" where
  "SetSessionActiveTenant session tenant db =
     (if tenant \<noteq> '''' \<and> tenant \<notin> tt_id ` set (iy_tenants db) then Inl IdentityStatementRefused
      else Inr (db\<lparr>iy_sessions := map (\<lambda>s. if sn_id s = session then s\<lparr>sn_tenant := tenant\<rparr> else s) (iy_sessions db)\<rparr>))"

text \<open>Selecting a workspace is how an invitation to it is accepted.\<close>

definition accept_membership ::
  "string \<Rightarrow> string \<Rightarrow> string \<Rightarrow> string \<Rightarrow> identity_db \<Rightarrow> identity_error + identity_db" where
  "accept_membership i user tenant request db =
     (if tenant = '''' then Inr db
      else if SetTenant tenant = None then Inl IdentityNoScope
      else bindE (ActivateInvitedMembership user tenant db) (\<lambda>w.
        if fst w > 0 then writeAudit i user ''identity.membership_accepted'' ''allowed'' ''tenant'' tenant request (snd w)
        else Inr (snd w)))"

text \<open>The refusal of a workspace one does not belong to is committed with its audit row; \<open>ids\<close> are those of the rows.\<close>

definition SetActiveTenant ::
  "(nat \<Rightarrow> string) \<Rightarrow> string \<Rightarrow> string \<Rightarrow> string \<Rightarrow> string \<Rightarrow> identity_db \<Rightarrow> (identity_error + unit) \<times> identity_db" where
  "SetActiveTenant ids session user tenant request db =
     (if SetUser user = None then (Inl IdentityNoScope, db)
      else if tenant \<noteq> '''' \<and> \<not> MembershipExists user tenant db
      then (case writeAudit (ids 0) user ''identity.tenant_selected'' ''denied'' ''tenant'' tenant request db of
              Inl e \<Rightarrow> (Inl e, db) | Inr db' \<Rightarrow> (Inl ErrNoMembership, db'))
      else
        (case bindE (accept_membership (ids 1) user tenant request db) (\<lambda>db1.
           bindE (SetSessionActiveTenant session tenant db1)
             (writeAudit (ids 2) user (if tenant = '''' then ''identity.tenant_cleared'' else ''identity.tenant_selected'')
                ''allowed'' ''tenant'' tenant request)) of
           Inl e \<Rightarrow> (Inl e, db)
         | Inr db' \<Rightarrow> (Inr (), db')))"

definition SelectTenant ::
  "(string \<Rightarrow> string) \<Rightarrow> (nat \<Rightarrow> string) \<Rightarrow> time \<Rightarrow> string \<Rightarrow> string \<Rightarrow> string \<Rightarrow> identity_db \<Rightarrow> identity_db
     \<Rightarrow> (identity_error + unit) \<times> identity_db" where
  "SelectTenant H ids now token tenant request seen db =
     (case FindSessionByToken (H token) seen of
        None \<Rightarrow> (Inl ErrSessionInvalid, db)
      | Some row \<Rightarrow>
          (if \<not> session_valid now row then (Inl ErrSessionInvalid, db)
           else SetActiveTenant ids (sn_id row) (sn_user row) tenant request db))"


section \<open>What the operations leave of the table\<close>

lemma InsertSession_Inr:
  "InsertSession s db = Inr db' \<longleftrightarrow> sn_id s \<notin> sn_id ` set (iy_sessions db) \<and> sn_token s \<notin> sn_token ` set (iy_sessions db)
     \<and> sn_refresh s \<notin> sn_refresh ` set (iy_sessions db) \<and> sn_user s \<in> us_id ` set (iy_users db)
     \<and> db' = db\<lparr>iy_sessions := iy_sessions db @ [s]\<rparr>"
  by (auto simp: InsertSession_def)

lemma issue_Inr:
  assumes "issue H d user family now authenticated db = Inr (s, db')"
  shows "\<exists>row. iy_sessions db' = iy_sessions db @ [row] \<and> db' = db\<lparr>iy_sessions := iy_sessions db @ [row]\<rparr>
    \<and> sn_user row = user \<and> sn_family row = family \<and> sn_authenticated_at row = authenticated
    \<and> sn_retired row = None \<and> sn_revoked row = None \<and> sn_tenant row = ''''
    \<and> sn_expires_at row = now + sessionLifetime \<and> sn_refresh_expires_at row = now + refreshLifetime
    \<and> sn_token row = H (is_session_token s) \<and> sn_refresh row = H (is_refresh_token s) \<and> is_user s = user
    \<and> sn_id row \<notin> sn_id ` set (iy_sessions db) \<and> sn_token row \<notin> sn_token ` set (iy_sessions db)
    \<and> sn_refresh row \<notin> sn_refresh ` set (iy_sessions db) \<and> user \<in> us_id ` set (iy_users db)"
  using assms by (auto simp: issue_def Let_def bindE_Inr InsertSession_Inr)

text \<open>A login: the rows of one family.\<close>

definition login :: "string \<Rightarrow> identity_db \<Rightarrow> session_row list" where
  "login family db = filter (\<lambda>s. sn_family s = family) (iy_sessions db)"

definition sessions_ok :: "identity_db \<Rightarrow> bool" where
  "sessions_ok db \<longleftrightarrow> distinct (map sn_id (iy_sessions db)) \<and> distinct (map sn_token (iy_sessions db))
     \<and> distinct (map sn_refresh (iy_sessions db))
     \<and> (\<forall>family. length (filter (\<lambda>s. sn_retired s = None) (login family db)) \<le> 1
         \<and> (\<forall>s \<in> set (login family db). \<forall>t \<in> set (login family db).
              sn_user s = sn_user t \<and> sn_authenticated_at s = sn_authenticated_at t))"

text \<open>Rows change in place only, and never back: retired and revoked stay, and what a row is of does not move.\<close>

definition row_goes :: "session_row \<Rightarrow> session_row \<Rightarrow> bool" where
  "row_goes s t \<longleftrightarrow> sn_id t = sn_id s \<and> sn_token t = sn_token s \<and> sn_refresh t = sn_refresh s \<and> sn_family t = sn_family s
     \<and> sn_user t = sn_user s \<and> sn_authenticated_at t = sn_authenticated_at s
     \<and> sn_expires_at t = sn_expires_at s \<and> sn_refresh_expires_at t = sn_refresh_expires_at s
     \<and> (sn_retired s \<noteq> None \<longrightarrow> sn_retired t = sn_retired s) \<and> (sn_revoked s \<noteq> None \<longrightarrow> sn_revoked t = sn_revoked s)"

lemma row_goes_refl [simp]: "row_goes s s"
  by (simp add: row_goes_def)

lemma row_goes_trans: "row_goes s t \<Longrightarrow> row_goes t u \<Longrightarrow> row_goes s u"
  by (auto simp: row_goes_def)

definition rows_go :: "identity_db \<Rightarrow> identity_db \<Rightarrow> bool" where
  "rows_go db db' \<longleftrightarrow> (\<exists>f. iy_sessions db' = map f (iy_sessions db) \<and> (\<forall>s. row_goes s (f s)))"

lemma rows_go_same: "iy_sessions db' = iy_sessions db \<Longrightarrow> rows_go db db'"
  unfolding rows_go_def by (intro exI [of _ "\<lambda>s. s"]) simp

lemma rows_go_trans:
  assumes "rows_go a b" and "rows_go b c"
  shows "rows_go a c"
proof -
  from assms obtain f g where "iy_sessions b = map f (iy_sessions a)" "iy_sessions c = map g (iy_sessions b)"
    "\<forall>s. row_goes s (f s)" "\<forall>s. row_goes s (g s)" unfolding rows_go_def by blast
  then show ?thesis unfolding rows_go_def by (intro exI [of _ "g \<circ> f"]) (auto intro: row_goes_trans)
qed

lemma RetireSession_goes: "rows_go db (RetireSession i now db)"
  unfolding rows_go_def RetireSession_def
  by (intro exI [of _ "\<lambda>s. if sn_id s = i \<and> sn_retired s = None then s\<lparr>sn_retired := Some now\<rparr> else s"]) (simp add: row_goes_def)

lemma RevokeFamily_goes: "rows_go db (RevokeFamily family now db)"
  unfolding rows_go_def RevokeFamily_def
  by (intro exI [of _ "\<lambda>s. if sn_family s = family \<and> sn_revoked s = None then s\<lparr>sn_revoked := Some now\<rparr> else s"]) (simp add: row_goes_def)

lemma Revoke_goes: "rows_go db (Revoke H now token seen db)"
  by (simp add: Revoke_def RevokeFamily_goes rows_go_same split: option.split)

lemma insert_audit_Inr: "insert_audit a db = Inr db' \<longleftrightarrow> av_id a \<notin> av_id ` set (iy_audit db) \<and> db' = db\<lparr>iy_audit := iy_audit db @ [a]\<rparr>"
  by (auto simp: insert_audit_def)

lemma writeAudit_sessions: "writeAudit i actor action outcome ty subject request db = Inr db' \<Longrightarrow> iy_sessions db' = iy_sessions db"
  by (auto simp: writeAudit_def insert_audit_Inr)

lemma ActivateInvitedMembership_sessions:
  "ActivateInvitedMembership user tenant db = Inr (n, db') \<Longrightarrow> iy_sessions db' = iy_sessions db"
  by (auto simp: ActivateInvitedMembership_def Let_def split: if_splits)

lemma SetSessionActiveTenant_goes:
  "SetSessionActiveTenant session tenant db = Inr db' \<Longrightarrow> rows_go db db'"
  unfolding rows_go_def SetSessionActiveTenant_def
  by (intro exI [of _ "\<lambda>s. if sn_id s = session then s\<lparr>sn_tenant := tenant\<rparr> else s"]) (auto simp: row_goes_def split: if_splits)

lemma accept_membership_sessions:
  "accept_membership i user tenant request db = Inr db' \<Longrightarrow> iy_sessions db' = iy_sessions db"
  by (auto simp: accept_membership_def bindE_Inr split: if_splits dest!: writeAudit_sessions ActivateInvitedMembership_sessions)

lemma SetActiveTenant_goes:
  assumes "SetActiveTenant ids session user tenant request db = (r, db')"
  shows "rows_go db db'"
proof -
  consider "db' = db" | i x y z v q where "writeAudit i x y z v tenant q db = Inr db'"
    | a b i x y z v q where "accept_membership (ids 1) user tenant request db = Inr a" "SetSessionActiveTenant session tenant a = Inr b"
        "writeAudit i x y z v tenant q b = Inr db'"
    using assms by (auto simp: SetActiveTenant_def bindE_Inr split: if_splits sum.splits)
  then show ?thesis
  proof cases
    case 2
    then show ?thesis by (blast intro: rows_go_same writeAudit_sessions)
  next
    case 3
    from rows_go_same [OF accept_membership_sessions [OF 3(1)]] SetSessionActiveTenant_goes [OF 3(2)]
      rows_go_same [OF writeAudit_sessions [OF 3(3)]] show ?thesis by (blast intro: rows_go_trans)
  qed (simp add: rows_go_same)
qed

lemma SelectTenant_goes: "SelectTenant H ids now token tenant request seen db = (r, db') \<Longrightarrow> rows_go db db'"
  by (auto simp: SelectTenant_def rows_go_same split: option.splits if_splits dest: SetActiveTenant_goes)


section \<open>Steps\<close>

text \<open>
  The steps on sessions: a sign-in by whatever proof, which draws a family of its own; a rotation; a logout; a
  choice of workspace; a reset of the password, which revokes every session of the person; and whatever leaves
  the sessions alone.
\<close>

definition RevokeAllSessions :: "string \<Rightarrow> time \<Rightarrow> identity_db \<Rightarrow> identity_db" where
  "RevokeAllSessions user now db =
     db\<lparr>iy_sessions := map (\<lambda>s. if sn_user s = user \<and> sn_revoked s = None then s\<lparr>sn_revoked := Some now\<rparr> else s) (iy_sessions db)\<rparr>"

lemma RevokeAllSessions_goes: "rows_go db (RevokeAllSessions user now db)"
  unfolding rows_go_def RevokeAllSessions_def
  by (intro exI [of _ "\<lambda>s. if sn_user s = user \<and> sn_revoked s = None then s\<lparr>sn_revoked := Some now\<rparr> else s"]) (simp add: row_goes_def)

inductive other_step :: "(string \<Rightarrow> string) \<Rightarrow> identity_db \<Rightarrow> identity_db \<Rightarrow> bool" for H where
  signed_in: "family \<notin> sn_family ` set (iy_sessions db) \<Longrightarrow> issue H d user family now now db = Inr (s, db') \<Longrightarrow> other_step H db db'"
| logged_out: "other_step H db (Revoke H now token seen db)"
| chosen: "SelectTenant H ids now token tenant request seen db = (r, db') \<Longrightarrow> other_step H db db'"
| reset: "other_step H db (RevokeAllSessions user now db)"
| elsewhere: "iy_sessions db' = iy_sessions db \<Longrightarrow> other_step H db db'"

text \<open>With rotations one at a time.\<close>

inductive session_step :: "(string \<Rightarrow> string) \<Rightarrow> identity_db \<Rightarrow> identity_db \<Rightarrow> bool" for H where
  rotated: "Refresh H d now token db db = (r, db') \<Longrightarrow> session_step H db db'"
| other: "other_step H db db' \<Longrightarrow> session_step H db db'"

lemma other_step_cases:
  assumes "other_step H db db'"
  obtains (rows) "rows_go db db'"
  | (login) row where "iy_sessions db' = iy_sessions db @ [row]" "sn_family row \<notin> sn_family ` set (iy_sessions db)"
      "sn_id row \<notin> sn_id ` set (iy_sessions db)" "sn_token row \<notin> sn_token ` set (iy_sessions db)"
      "sn_refresh row \<notin> sn_refresh ` set (iy_sessions db)" "sn_retired row = None"
  using assms
proof cases
  case (signed_in family d user now s)
  from issue_Inr [OF signed_in(2)] signed_in(1) login show thesis by metis
qed (metis rows Revoke_goes SelectTenant_goes RevokeAllSessions_goes rows_go_same)+

lemma login_pair:
  assumes "sessions_ok db" and "x \<in> set (iy_sessions db)" and "y \<in> set (iy_sessions db)" and "sn_family x = sn_family y"
  shows "sn_user x = sn_user y \<and> sn_authenticated_at x = sn_authenticated_at y"
proof -
  have "x \<in> set (login (sn_family x) db)" "y \<in> set (login (sn_family x) db)" using assms by (simp_all add: login_def)
  with assms(1) show ?thesis unfolding sessions_ok_def by blast
qed

lemma RetireSession_login:
  assumes "sessions_ok db" and "row \<in> set (iy_sessions db)" and "sn_retired row = None"
  shows "filter (\<lambda>s. sn_retired s = None) (login (sn_family row) (RetireSession (sn_id row) now db)) = []"
proof -
  have "s = row" if "s \<in> set (iy_sessions db)" "sn_family s = sn_family row" "sn_retired s = None" for s
  proof -
    let ?open = "filter (\<lambda>s. sn_retired s = None) (login (sn_family row) db)"
    have "s \<in> set ?open" "row \<in> set ?open" using that assms by (simp_all add: login_def)
    moreover have "length ?open \<le> 1" using assms(1) by (simp add: sessions_ok_def)
    ultimately show ?thesis by (cases ?open) auto
  qed
  then show ?thesis by (auto simp: login_def RetireSession_def filter_empty_conv split: if_splits)
qed

lemma rows_go_sessions:
  assumes "rows_go db db'"
  shows "map sn_id (iy_sessions db') = map sn_id (iy_sessions db)" "map sn_token (iy_sessions db') = map sn_token (iy_sessions db)"
    "map sn_refresh (iy_sessions db') = map sn_refresh (iy_sessions db)"
    "length (filter (\<lambda>s. sn_retired s = None) (login family db')) \<le> length (filter (\<lambda>s. sn_retired s = None) (login family db))"
    "t \<in> set (iy_sessions db') \<Longrightarrow> \<exists>s \<in> set (iy_sessions db). row_goes s t"
    "s \<in> set (iy_sessions db) \<Longrightarrow> \<exists>t \<in> set (iy_sessions db'). row_goes s t"
proof -
  from assms obtain f where f: "iy_sessions db' = map f (iy_sessions db)" "\<And>s. row_goes s (f s)" unfolding rows_go_def by blast
  have g: "sn_id (f s) = sn_id s" "sn_token (f s) = sn_token s" "sn_refresh (f s) = sn_refresh s" "sn_family (f s) = sn_family s" for s
    using f(2) [of s] by (simp_all add: row_goes_def)
  show "map sn_id (iy_sessions db') = map sn_id (iy_sessions db)" "map sn_token (iy_sessions db') = map sn_token (iy_sessions db)"
    "map sn_refresh (iy_sessions db') = map sn_refresh (iy_sessions db)" using g by (simp_all add: f(1))
  have "sn_retired (f s) = None \<Longrightarrow> sn_retired s = None" for s using f(2) [of s] by (auto simp: row_goes_def)
  then have "length (filter (\<lambda>s. sn_family (f s) = family \<and> sn_retired (f s) = None) xs) \<le> length (filter (\<lambda>s. sn_family s = family \<and> sn_retired s = None) xs)" for xs
    by (induction xs) (auto simp: g)
  then show "length (filter (\<lambda>s. sn_retired s = None) (login family db')) \<le> length (filter (\<lambda>s. sn_retired s = None) (login family db))"
    by (simp add: login_def f(1) filter_map comp_def conj_commute)
  show "t \<in> set (iy_sessions db') \<Longrightarrow> \<exists>s \<in> set (iy_sessions db). row_goes s t" using f by auto
  show "s \<in> set (iy_sessions db) \<Longrightarrow> \<exists>t \<in> set (iy_sessions db'). row_goes s t" using f by auto
qed

lemma rows_go_ok:
  assumes "rows_go db db'" and "sessions_ok db"
  shows "sessions_ok db'"
proof -
  note g = rows_go_sessions [OF assms(1)]
  have "sn_user s = sn_user t \<and> sn_authenticated_at s = sn_authenticated_at t"
    if "s \<in> set (login family db')" "t \<in> set (login family db')" for family s t
  proof -
    from that have m: "s \<in> set (iy_sessions db')" "t \<in> set (iy_sessions db')" by (simp_all add: login_def)
    from g(5) [OF m(1)] g(5) [OF m(2)] obtain s0 t0 where "s0 \<in> set (iy_sessions db)" "row_goes s0 s" "t0 \<in> set (iy_sessions db)" "row_goes t0 t"
      by blast
    moreover from this that have "sn_family s0 = sn_family t0" by (simp add: row_goes_def login_def)
    ultimately show ?thesis using login_pair [OF assms(2), of s0 t0] by (simp add: row_goes_def)
  qed
  moreover have "length (filter (\<lambda>s. sn_retired s = None) (login family db')) \<le> 1" for family
    using g(4) [of family] assms(2) by (auto simp: sessions_ok_def intro: order_trans)
  ultimately show ?thesis using assms(2) unfolding sessions_ok_def g(1-3) by blast
qed

lemma appended_ok:
  assumes "sessions_ok db" and "iy_sessions db' = iy_sessions db @ [row]"
    and "sn_id row \<notin> sn_id ` set (iy_sessions db)" and "sn_token row \<notin> sn_token ` set (iy_sessions db)"
    and "sn_refresh row \<notin> sn_refresh ` set (iy_sessions db)"
    and "filter (\<lambda>s. sn_retired s = None) (login (sn_family row) db) = []"
    and "\<And>s. s \<in> set (iy_sessions db) \<Longrightarrow> sn_family s = sn_family row \<Longrightarrow> sn_user s = sn_user row \<and> sn_authenticated_at s = sn_authenticated_at row"
  shows "sessions_ok db'"
proof -
  have "length (filter (\<lambda>s. sn_retired s = None) (login family db')) \<le> 1" for family
    using assms(1,2,6) by (cases "family = sn_family row") (auto simp: sessions_ok_def login_def)
  moreover have "sn_user s = sn_user t \<and> sn_authenticated_at s = sn_authenticated_at t"
    if "s \<in> set (login family db')" "t \<in> set (login family db')" for family s t
  proof -
    from that have "s \<in> set (iy_sessions db) \<or> s = row" "t \<in> set (iy_sessions db) \<or> t = row" "sn_family s = sn_family t"
      by (auto simp: login_def assms(2) split: if_splits)
    then show ?thesis using login_pair [OF assms(1), of s t] assms(7) [of s] assms(7) [of t] by auto
  qed
  moreover have "distinct (map sn_id (iy_sessions db')) \<and> distinct (map sn_token (iy_sessions db')) \<and> distinct (map sn_refresh (iy_sessions db'))"
    using assms(1) unfolding sessions_ok_def assms(2) by (simp add: assms(3-5))
  ultimately show ?thesis unfolding sessions_ok_def by blast
qed

lemma FindSessionByRefresh_Some: "FindSessionByRefresh h db = Some row \<Longrightarrow> row \<in> set (iy_sessions db) \<and> sn_refresh row = h"
  by (auto simp: FindSessionByRefresh_def find_Some_iff)

lemma FindSessionByToken_Some: "FindSessionByToken h db = Some row \<Longrightarrow> row \<in> set (iy_sessions db) \<and> sn_token row = h"
  by (auto simp: FindSessionByToken_def find_Some_iff)

lemma Refresh_cases:
  assumes "Refresh H d now token seen db = (r, db')"
  obtains (unknown) "FindSessionByRefresh (H token) seen = None" "r = Inl ErrSessionInvalid" "db' = db"
  | (reused) row where "FindSessionByRefresh (H token) seen = Some row" "sn_retired row \<noteq> None" "r = Inl ErrSessionInvalid"
      "db' = RevokeFamily (sn_family row) now db"
  | (over) row where "FindSessionByRefresh (H token) seen = Some row" "sn_retired row = None"
      "sn_revoked row \<noteq> None \<or> \<not> now < sn_refresh_expires_at row" "r = Inl ErrSessionInvalid" "db' = db"
  | (failed) row e where "FindSessionByRefresh (H token) seen = Some row" "sn_retired row = None" "sn_revoked row = None"
      "r = Inl e" "db' = RetireSession (sn_id row) now db"
  | (issued) row s where "FindSessionByRefresh (H token) seen = Some row" "sn_retired row = None" "sn_revoked row = None"
      "now < sn_refresh_expires_at row" "r = Inr s"
      "issue H d (sn_user row) (sn_family row) now (sn_authenticated_at row) (RetireSession (sn_id row) now db) = Inr (s, db')"
  using assms by (auto simp: Refresh_def Let_def split: option.splits if_splits sum.splits prod.splits)


lemma Refresh_keeps:
  assumes "sessions_ok db" and "Refresh H d now token db db = (r, db')"
  shows "sessions_ok db'"
  using assms(2)
proof (cases rule: Refresh_cases)
  case (issued row s)
  let ?db1 = "RetireSession (sn_id row) now db"
  from FindSessionByRefresh_Some [OF issued(1)] have row: "row \<in> set (iy_sessions db)" by simp
  from issue_Inr [OF issued(6)] obtain new where new: "iy_sessions db' = iy_sessions ?db1 @ [new]" "sn_user new = sn_user row"
    "sn_family new = sn_family row" "sn_authenticated_at new = sn_authenticated_at row" "sn_id new \<notin> sn_id ` set (iy_sessions ?db1)"
    "sn_token new \<notin> sn_token ` set (iy_sessions ?db1)" "sn_refresh new \<notin> sn_refresh ` set (iy_sessions ?db1)" by blast
  have go: "rows_go db ?db1" by (rule RetireSession_goes)
  have same: "sn_user x = sn_user new \<and> sn_authenticated_at x = sn_authenticated_at new"
    if "x \<in> set (iy_sessions ?db1)" "sn_family x = sn_family new" for x
  proof -
    from rows_go_sessions(5) [OF go that(1)] obtain x0 where "x0 \<in> set (iy_sessions db)" "row_goes x0 x" by blast
    with login_pair [OF assms(1) _ row, of x0] that(2) new(2-4) show ?thesis by (simp add: row_goes_def)
  qed
  show ?thesis
    by (rule appended_ok [OF rows_go_ok [OF go assms(1)] new(1,5-7)])
      (use RetireSession_login [OF assms(1) row issued(2)] same new(3) in auto)
qed (use assms(1) RevokeFamily_goes RetireSession_goes rows_go_ok in blast)+

lemma other_step_keeps:
  assumes "other_step H db db'" and "sessions_ok db"
  shows "sessions_ok db'"
  using assms(1)
proof (cases rule: other_step_cases)
  case rows
  then show ?thesis using assms(2) by (rule rows_go_ok)
next
  case (login row)
  have "sn_family x \<noteq> sn_family row" if "x \<in> set (iy_sessions db)" for x using login(2) that by (metis imageI)
  then show ?thesis by (intro appended_ok [OF assms(2) login(1,3-5)]) (simp_all add: login_def filter_empty_conv)
qed

lemma session_step_keeps: "session_step H db db' \<Longrightarrow> sessions_ok db \<Longrightarrow> sessions_ok db'"
  by (induction rule: session_step.induct) (metis Refresh_keeps, rule other_step_keeps)














section \<open>Rotations in flight\<close>

text \<open>
  Rotations as they interleave: a configuration is the database, the rotations in flight, and the families of
  which a rotation was begun on a row while another was already about to retire that row, one entry for each.
  A request may end between its transactions.
\<close>

fun retiring :: "string \<Rightarrow> rotation \<Rightarrow> bool" where
  "retiring i (Retiring row now) = (sn_id row = i)"
| "retiring i _ = False"

fun issuing :: "string \<Rightarrow> rotation \<Rightarrow> bool" where
  "issuing family (Issuing row now) = (sn_family row = family)"
| "issuing family _ = False"

fun rotation_row :: "rotation \<Rightarrow> session_row" where
  "rotation_row (Revoking row now) = row"
| "rotation_row (Retiring row now) = row"
| "rotation_row (Issuing row now) = row"

fun meets :: "rotation \<Rightarrow> rotation list \<Rightarrow> string list" where
  "meets (Retiring row now) flight = (if list_ex (retiring (sn_id row)) flight then [sn_family row] else [])"
| "meets _ flight = []"

type_synonym crossing = "identity_db \<times> rotation list \<times> string list"

inductive crossing_step :: "(string \<Rightarrow> string) \<Rightarrow> crossing \<Rightarrow> crossing \<Rightarrow> bool" for H where
  other: "other_step H db db' \<Longrightarrow> crossing_step H (db, flight, met) (db', flight, met)"
| read: "RefreshRead H now token db = Inr r \<Longrightarrow> crossing_step H (db, flight, met) (db, r # flight, meets r flight @ met)"
| goes_on: "RefreshNext H d r db = (Inl r', db') \<Longrightarrow> crossing_step H (db, us @ r # vs, met) (db', us @ r' # vs, met)"
| answers: "RefreshNext H d r db = (Inr a, db') \<Longrightarrow> crossing_step H (db, us @ r # vs, met) (db', us @ vs, met)"
| abandoned: "crossing_step H (db, us @ r # vs, met) (db, us @ vs, met)"

text \<open>
  What a row may still become: the end it is, or as many ends as rotations are about to retire it; and the ends
  a login may come to have, with those being issued.
\<close>

definition weight :: "rotation list \<Rightarrow> session_row \<Rightarrow> nat" where
  "weight flight s = max (if sn_retired s = None then 1 else 0) (length (filter (retiring (sn_id s)) flight))"

definition ends_of :: "string \<Rightarrow> identity_db \<Rightarrow> rotation list \<Rightarrow> nat" where
  "ends_of family db flight = sum_list (map (weight flight) (login family db)) + length (filter (issuing family) flight)"

definition in_flight_of :: "identity_db \<Rightarrow> rotation list \<Rightarrow> bool" where
  "in_flight_of db flight \<longleftrightarrow> (\<forall>r \<in> set flight. \<exists>s \<in> set (iy_sessions db). row_goes (rotation_row r) s)"

definition logins_agree :: "identity_db \<Rightarrow> bool" where
  "logins_agree db \<longleftrightarrow> (\<forall>s \<in> set (iy_sessions db). \<forall>t \<in> set (iy_sessions db). sn_family s = sn_family t \<longrightarrow>
     sn_user s = sn_user t \<and> sn_authenticated_at s = sn_authenticated_at t)"

fun crossing_ok :: "crossing \<Rightarrow> bool" where
  "crossing_ok (db, flight, met) \<longleftrightarrow> distinct (map sn_id (iy_sessions db)) \<and> logins_agree db \<and> in_flight_of db flight
     \<and> (\<forall>family. ends_of family db flight \<le> 1 + count_list met family)"

lemma sum_list_change_one:
  fixes w w' :: "'a \<Rightarrow> nat"
  assumes "distinct xs" and "x \<in> set xs" and "\<And>y. y \<in> set xs \<Longrightarrow> y \<noteq> x \<Longrightarrow> w' y = w y"
  shows "sum_list (map w' xs) + w x = sum_list (map w xs) + w' x"
proof -
  from split_list [OF assms(2)] obtain ys zs where xs: "xs = ys @ x # zs" by blast
  with assms(1) have "x \<notin> set ys" "x \<notin> set zs" by simp_all
  with assms(3) have "sum_list (map w' ys) = sum_list (map w ys)" "sum_list (map w' zs) = sum_list (map w zs)"
    unfolding xs by (auto intro!: arg_cong [of _ _ sum_list] map_cong)
  then show ?thesis by (simp add: xs)
qed

lemma login_map:
  assumes "\<And>s. sn_family (f s) = sn_family s" and "iy_sessions db' = map f (iy_sessions db)"
  shows "login family db' = map f (login family db)"
  using assms by (simp add: login_def filter_map comp_def)

lemma rows_go_ends:
  assumes "rows_go db db'"
  shows "ends_of family db' flight \<le> ends_of family db flight"
proof -
  from assms obtain f where f: "iy_sessions db' = map f (iy_sessions db)" "\<And>s. row_goes s (f s)" unfolding rows_go_def by blast
  have "login family db' = map f (login family db)" by (rule login_map [OF _ f(1)]) (use f(2) in \<open>simp add: row_goes_def\<close>)
  moreover have "weight flight (f s) \<le> weight flight s" for s using f(2) [of s] by (auto simp: weight_def row_goes_def)
  ultimately show ?thesis by (simp add: ends_of_def comp_def sum_list_mono)
qed

lemma fewer_ends:
  "ends_of family db (us @ vs) \<le> ends_of family db (us @ r # vs)"
proof -
  have "weight (us @ vs) s \<le> weight (us @ r # vs) s" for s by (auto simp: weight_def)
  then have "sum_list (map (weight (us @ vs)) xs) \<le> sum_list (map (weight (us @ r # vs)) xs)" for xs by (intro sum_list_mono) auto
  then show ?thesis by (simp add: ends_of_def add_le_mono)
qed

lemma appended_ends:
  assumes "iy_sessions db' = iy_sessions db @ [row]" and "in_flight_of db flight" and "sn_id row \<notin> sn_id ` set (iy_sessions db)"
    and "sn_retired row = None"
  shows "ends_of family db' flight = ends_of family db flight + (if sn_family row = family then 1 else 0)"
proof -
  have "\<not> retiring (sn_id row) r" if r: "r \<in> set flight" for r
  proof -
    from assms(2) r obtain s where "s \<in> set (iy_sessions db)" "sn_id s = sn_id (rotation_row r)"
      by (auto simp: in_flight_of_def row_goes_def)
    with assms(3) have "sn_id row \<noteq> sn_id (rotation_row r)" by (metis imageI)
    then show ?thesis by (cases r) simp_all
  qed
  then have "filter (retiring (sn_id row)) flight = []" by (simp add: filter_empty_conv)
  then have "weight flight row = 1" using assms(4) by (simp add: weight_def)
  then show ?thesis by (simp add: ends_of_def login_def assms(1))
qed

lemma login_row:
  "distinct (map sn_id (iy_sessions db)) \<Longrightarrow> distinct (login family db)"
  "distinct (map sn_id (iy_sessions db)) \<Longrightarrow> x \<in> set (iy_sessions db) \<Longrightarrow> y \<in> set (iy_sessions db) \<Longrightarrow> sn_id x = sn_id y \<Longrightarrow> x = y"
  by (auto simp: login_def distinct_map dest: inj_onD)

lemma read_ends:
  assumes "distinct (map sn_id (iy_sessions db))" and "RefreshRead H now token db = Inr r"
  shows "ends_of family db (r # flight) \<le> ends_of family db flight + count_list (meets r flight) family"
proof (cases r)
  case (Retiring row t)
  with assms(2) have row: "row \<in> set (iy_sessions db)" "sn_retired row = None"
    by (auto simp: RefreshRead_def split: option.splits if_splits dest: FindSessionByRefresh_Some)
  have other: "weight (r # flight) y = weight flight y" if "y \<in> set (iy_sessions db)" "y \<noteq> row" for y
    using that login_row(2) [OF assms(1) that(1) row(1)] by (auto simp: weight_def Retiring)
  show ?thesis
  proof (cases "sn_family row = family")
    case True
    have "sum_list (map (weight (r # flight)) (login family db)) + weight flight row
        = sum_list (map (weight flight) (login family db)) + weight (r # flight) row"
      using row(1) True other by (intro sum_list_change_one login_row(1) assms(1)) (auto simp: login_def)
    moreover have "weight (r # flight) row \<le> weight flight row + count_list (meets r flight) family"
      using row(2) True by (auto simp: weight_def Retiring list_ex_iff filter_empty_conv)
    ultimately show ?thesis by (simp add: ends_of_def Retiring)
  next
    case False
    then have "sum_list (map (weight (r # flight)) (login family db)) = sum_list (map (weight flight) (login family db))"
      using other by (intro arg_cong [of _ _ sum_list] map_cong) (auto simp: login_def)
    then show ?thesis by (simp add: ends_of_def Retiring)
  qed
next
  case (Revoking row t)
  have "weight (Revoking row t # flight) = weight flight" by (simp add: fun_eq_iff weight_def)
  then show ?thesis by (simp add: ends_of_def Revoking)
next
  case (Issuing row t)
  with assms(2) show ?thesis by (auto simp: RefreshRead_def split: option.splits if_splits)
qed

lemma retire_ends:
  assumes "distinct (map sn_id (iy_sessions db))" and "in_flight_of db (us @ Retiring row now # vs)"
  shows "ends_of family (RetireSession (sn_id row) now db) (us @ Issuing row now # vs) \<le> ends_of family db (us @ Retiring row now # vs)"
proof -
  let ?f = "\<lambda>s. if sn_id s = sn_id row \<and> sn_retired s = None then s\<lparr>sn_retired := Some now\<rparr> else s"
  let ?old = "us @ Retiring row now # vs" and ?new = "us @ Issuing row now # vs"
  have login: "login family (RetireSession (sn_id row) now db) = map ?f (login family db)"
    by (rule login_map) (simp_all add: RetireSession_def)
  have less: "weight ?new (?f s) \<le> weight ?old s" for s by (auto simp: weight_def)
  from assms(2) obtain s0 where s0: "s0 \<in> set (iy_sessions db)" "sn_id s0 = sn_id row" "sn_family s0 = sn_family row"
    by (auto simp: in_flight_of_def row_goes_def)
  show ?thesis
  proof (cases "sn_family row = family")
    case True
    have same: "weight ?new (?f y) = weight ?old y" if "y \<in> set (login family db)" "y \<noteq> s0" for y
    proof -
      have "sn_id y \<noteq> sn_id row" using that login_row(2) [OF assms(1) _ s0(1), of y] s0(2) by (auto simp: login_def)
      then show ?thesis by (auto simp: weight_def)
    qed
    have "sum_list (map (\<lambda>s. weight ?new (?f s)) (login family db)) + weight ?old s0
        = sum_list (map (weight ?old) (login family db)) + weight ?new (?f s0)"
      using s0 True same by (intro sum_list_change_one login_row(1) assms(1)) (auto simp: login_def)
    moreover have "weight ?new (?f s0) + 1 \<le> weight ?old s0" using s0(2) by (auto simp: weight_def)
    ultimately show ?thesis using True by (simp add: ends_of_def login comp_def)
  next
    case False
    have "sum_list (map (\<lambda>s. weight ?new (?f s)) (login family db)) \<le> sum_list (map (weight ?old) (login family db))"
      using less by (rule sum_list_mono)
    with False show ?thesis by (simp add: ends_of_def login comp_def)
  qed
qed

lemma logins_agree_appended:
  assumes "logins_agree db" and "iy_sessions db' = iy_sessions db @ [row]"
    and "\<And>s. s \<in> set (iy_sessions db) \<Longrightarrow> sn_family s = sn_family row \<Longrightarrow> sn_user s = sn_user row \<and> sn_authenticated_at s = sn_authenticated_at row"
  shows "logins_agree db'"
proof -
  have "sn_user s = sn_user t \<and> sn_authenticated_at s = sn_authenticated_at t"
    if "s \<in> set (iy_sessions db')" "t \<in> set (iy_sessions db')" "sn_family s = sn_family t" for s t
  proof -
    from that(1,2) have "s \<in> set (iy_sessions db) \<or> s = row" "t \<in> set (iy_sessions db) \<or> t = row" by (auto simp: assms(2))
    moreover have "sn_user s = sn_user t \<and> sn_authenticated_at s = sn_authenticated_at t"
      if "s \<in> set (iy_sessions db)" "t \<in> set (iy_sessions db)" using that \<open>sn_family s = sn_family t\<close> assms(1)
      unfolding logins_agree_def by blast
    ultimately show ?thesis using assms(3) [of s] assms(3) [of t] \<open>sn_family s = sn_family t\<close> by auto
  qed
  then show ?thesis unfolding logins_agree_def by blast
qed

lemma rows_go_agree:
  assumes "rows_go db db'" and "distinct (map sn_id (iy_sessions db))" and "logins_agree db"
  shows "distinct (map sn_id (iy_sessions db')) \<and> logins_agree db'"
proof -
  note g = rows_go_sessions [OF assms(1)]
  have "sn_user s = sn_user t \<and> sn_authenticated_at s = sn_authenticated_at t"
    if m: "s \<in> set (iy_sessions db')" "t \<in> set (iy_sessions db')" "sn_family s = sn_family t" for s t
  proof -
    from g(5) [OF m(1)] g(5) [OF m(2)] obtain s0 t0 where o: "s0 \<in> set (iy_sessions db)" "row_goes s0 s" "t0 \<in> set (iy_sessions db)" "row_goes t0 t"
      by blast
    with m(3) have "sn_family s0 = sn_family t0" by (simp add: row_goes_def)
    with assms(3) o(1,3) have "sn_user s0 = sn_user t0 \<and> sn_authenticated_at s0 = sn_authenticated_at t0" unfolding logins_agree_def by blast
    with o(2,4) show ?thesis by (simp add: row_goes_def)
  qed
  then have "logins_agree db'" unfolding logins_agree_def by blast
  moreover have "distinct (map sn_id (iy_sessions db'))" unfolding g(1) by (rule assms(2))
  ultimately show ?thesis by simp
qed

lemma in_flight_mono:
  assumes "in_flight_of db flight" and "\<And>s. s \<in> set (iy_sessions db) \<Longrightarrow> \<exists>t \<in> set (iy_sessions db'). row_goes s t"
    and "rotation_row ` set flight' \<subseteq> rotation_row ` set flight"
  shows "in_flight_of db' flight'"
  unfolding in_flight_of_def
proof
  fix r assume "r \<in> set flight'"
  with assms(3) obtain q where q: "q \<in> set flight" "rotation_row r = rotation_row q" by blast
  with assms(1) obtain s where s: "s \<in> set (iy_sessions db)" "row_goes (rotation_row q) s" unfolding in_flight_of_def by blast
  from assms(2) [OF s(1)] row_goes_trans [OF s(2)] q(2) show "\<exists>s \<in> set (iy_sessions db'). row_goes (rotation_row r) s" by auto
qed

lemma appended_rows: "iy_sessions db' = iy_sessions db @ [row] \<Longrightarrow> s \<in> set (iy_sessions db) \<Longrightarrow> \<exists>t \<in> set (iy_sessions db'). row_goes s t"
  by (metis UnCI row_goes_refl set_append)

lemma other_step_agree:
  assumes "other_step H db db'" and "distinct (map sn_id (iy_sessions db))" and "logins_agree db"
  shows "distinct (map sn_id (iy_sessions db')) \<and> logins_agree db'"
  using assms(1)
proof (cases rule: other_step_cases)
  case rows
  then show ?thesis using assms(2,3) by (rule rows_go_agree)
next
  case (login row)
  have "logins_agree db'"
    by (rule logins_agree_appended [OF assms(3) login(1)]) (use login(2) in \<open>metis imageI\<close>)
  then show ?thesis using assms(2) login(3) by (simp add: login(1))
qed

lemma rows_go_crossing:
  assumes "rows_go db db'" and "crossing_ok (db, flight, met)"
  shows "crossing_ok (db', flight, met)"
proof -
  from assms(2) have ok: "distinct (map sn_id (iy_sessions db))" "logins_agree db" "in_flight_of db flight" by simp_all
  have "ends_of family db' flight \<le> 1 + count_list met family" for family
    using rows_go_ends [OF assms(1), of family flight] assms(2) by (auto intro: order_trans)
  moreover have "in_flight_of db' flight"
    by (rule in_flight_mono [OF ok(3) rows_go_sessions(6) [OF assms(1)]]) simp_all
  ultimately show ?thesis using rows_go_agree [OF assms(1) ok(1,2)] by simp
qed

lemma fewer_crossing:
  assumes "crossing_ok (db, us @ r # vs, met)"
  shows "crossing_ok (db, us @ vs, met)"
proof -
  have "ends_of family db (us @ vs) \<le> 1 + count_list met family" for family
    using fewer_ends [of family db us vs r] assms by (auto intro: order_trans)
  with assms show ?thesis by (auto simp: in_flight_of_def)
qed

lemma appended_crossing:
  assumes "iy_sessions db' = iy_sessions db @ [row]" and "sn_id row \<notin> sn_id ` set (iy_sessions db)"
    and "distinct (map sn_id (iy_sessions db))" and "in_flight_of db flight" and "logins_agree db'"
    and "\<And>family. ends_of family db' flight \<le> 1 + count_list met family"
  shows "crossing_ok (db', flight, met)"
proof -
  have "in_flight_of db' flight"
    by (rule in_flight_mono [OF assms(4) appended_rows [OF assms(1)]]) simp_all
  then show ?thesis using assms(2,3,5,6) by (simp add: assms(1))
qed

lemma fresh_login_ends:
  assumes "in_flight_of db flight" and "family \<notin> sn_family ` set (iy_sessions db)"
  shows "ends_of family db flight = 0"
proof -
  have "\<not> issuing family r" if r: "r \<in> set flight" for r
  proof -
    from assms(1) r obtain s where "s \<in> set (iy_sessions db)" "sn_family s = sn_family (rotation_row r)"
      by (auto simp: in_flight_of_def row_goes_def)
    with assms(2) have "family \<noteq> sn_family (rotation_row r)" by (metis imageI)
    then show ?thesis by (cases r) simp_all
  qed
  then have "filter (issuing family) flight = []" by (simp add: filter_empty_conv)
  moreover have "login family db = []" using assms(2) by (auto simp: login_def filter_empty_conv)
  ultimately show ?thesis by (simp add: ends_of_def)
qed

lemma other_crossing:
  assumes "other_step H db db'" and ok: "crossing_ok (db, flight, met)"
  shows "crossing_ok (db', flight, met)"
  using assms(1)
proof (cases rule: other_step_cases)
  case rows
  then show ?thesis using ok by (rule rows_go_crossing)
next
  case (login row)
  from ok have f: "in_flight_of db flight" by simp
  have "ends_of family db' flight \<le> 1 + count_list met family" for family
    using appended_ends [OF login(1) f login(3,6), of family] fresh_login_ends [OF f login(2)] ok
    by (cases "sn_family row = family") auto
  with other_step_agree [OF assms(1)] ok show ?thesis
    by (intro appended_crossing [OF login(1,3)]) simp_all
qed

lemma issue_crossing:
  assumes "issue H d (sn_user row) (sn_family row) now (sn_authenticated_at row) db = Inr (x, db')"
    and ok: "crossing_ok (db, us @ Issuing row t # vs, met)"
  shows "crossing_ok (db', us @ vs, met)"
proof -
  from issue_Inr [OF assms(1)] obtain new where new: "iy_sessions db' = iy_sessions db @ [new]" "sn_user new = sn_user row"
    "sn_family new = sn_family row" "sn_authenticated_at new = sn_authenticated_at row" "sn_id new \<notin> sn_id ` set (iy_sessions db)"
    "sn_retired new = None" by blast
  from ok obtain s0 where s0: "s0 \<in> set (iy_sessions db)" "row_goes row s0" by (auto simp: in_flight_of_def)
  from fewer_crossing [OF ok] have f: "in_flight_of db (us @ vs)" by simp
  have "sn_user y = sn_user new \<and> sn_authenticated_at y = sn_authenticated_at new"
    if "y \<in> set (iy_sessions db)" "sn_family y = sn_family new" for y
  proof -
    from ok have "logins_agree db" by simp
    moreover have "sn_family y = sn_family s0" using that(2) new(3) s0(2) by (simp add: row_goes_def)
    ultimately have "sn_user y = sn_user s0 \<and> sn_authenticated_at y = sn_authenticated_at s0"
      using that(1) s0(1) unfolding logins_agree_def by blast
    with s0(2) new(2,4) show ?thesis by (simp add: row_goes_def)
  qed
  then have agree: "logins_agree db'" using ok by (intro logins_agree_appended [OF _ new(1)]) simp_all
  have "ends_of family db' (us @ vs) \<le> 1 + count_list met family" for family
  proof -
    have "weight (us @ Issuing row t # vs) = weight (us @ vs)" by (simp add: fun_eq_iff weight_def)
    then have "ends_of family db (us @ Issuing row t # vs) = ends_of family db (us @ vs) + (if sn_family row = family then 1 else 0)"
      by (simp add: ends_of_def)
    with appended_ends [OF new(1) f new(5,6), of family] new(3) have "ends_of family db' (us @ vs) = ends_of family db (us @ Issuing row t # vs)"
      by simp
    with ok show ?thesis by simp
  qed
  with agree f ok show ?thesis by (intro appended_crossing [OF new(1,5)]) simp_all
qed

lemma crossing_step_ok: "crossing_step H c c' \<Longrightarrow> crossing_ok c \<Longrightarrow> crossing_ok c'"
proof (induction rule: crossing_step.induct)
  case (other db db' flight met)
  then show ?case by (metis other_crossing)
next
  case (read now token db r flight met)
  from read.prems have ok: "distinct (map sn_id (iy_sessions db))" "in_flight_of db flight" by simp_all
  have "rotation_row r \<in> set (iy_sessions db)" using read.hyps
    by (auto simp: RefreshRead_def split: option.splits if_splits dest: FindSessionByRefresh_Some)
  then have "in_flight_of db (r # flight)" using ok(2) by (auto simp: in_flight_of_def intro: row_goes_refl)
  moreover have "ends_of family db (r # flight) \<le> 1 + count_list (meets r flight @ met) family" for family
  proof -
    from read.prems have "ends_of family db flight \<le> 1 + count_list met family" by simp
    with read_ends [OF ok(1) read.hyps, of family flight] show ?thesis by simp
  qed
  ultimately show ?case using read.prems by simp
next
  case (goes_on d r db r' db' us vs met)
  then obtain row now where r: "r = Retiring row now" "r' = Issuing row now" "db' = RetireSession (sn_id row) now db"
    by (cases r) (auto split: sum.splits)
  from goes_on.prems have ok: "distinct (map sn_id (iy_sessions db))" "logins_agree db" "in_flight_of db (us @ Retiring row now # vs)"
    by (simp_all add: r)
  have go: "rows_go db db'" unfolding r(3) by (rule RetireSession_goes)
  have "ends_of family db' (us @ r' # vs) \<le> 1 + count_list met family" for family
    using retire_ends [OF ok(1,3), of family] goes_on.prems unfolding r by (auto intro: order_trans)
  moreover have "in_flight_of db' (us @ r' # vs)"
    by (rule in_flight_mono [OF ok(3) rows_go_sessions(6) [OF go]]) (auto simp: r)
  ultimately show ?case using rows_go_agree [OF go ok(1,2)] by simp
next
  case (answers d r db a db' us vs met)
  show ?case
  proof (cases r)
    case (Revoking row now)
    with answers.hyps have "rows_go db db'" using RevokeFamily_goes by auto
    from rows_go_crossing [OF this fewer_crossing [OF answers.prems]] show ?thesis .
  next
    case (Retiring row now)
    with answers.hyps show ?thesis by simp
  next
    case (Issuing row now)
    show ?thesis
    proof (cases "issue H d (sn_user row) (sn_family row) now (sn_authenticated_at row) db")
      case (Inl e)
      with answers.hyps Issuing have "db' = db" by simp
      with fewer_crossing [OF answers.prems] show ?thesis by simp
    next
      case (Inr p)
      then obtain x db2 where p: "issue H d (sn_user row) (sn_family row) now (sn_authenticated_at row) db = Inr (x, db2)" by (cases p) auto
      with answers.hyps Issuing have "db' = db2" by simp
      with issue_crossing [OF p] answers.prems Issuing show ?thesis by blast
    qed
  qed
next
  case (abandoned db us r vs met)
  then show ?case by (rule fewer_crossing)
qed

lemma crossing_step_rows:
  "crossing_step H c c' \<Longrightarrow> s \<in> set (iy_sessions (fst c)) \<Longrightarrow> \<exists>t \<in> set (iy_sessions (fst c')). row_goes s t"
proof (induction rule: crossing_step.induct)
  case (other db db' flight met)
  from other.hyps show ?case
  proof (cases rule: other_step_cases)
    case rows
    from rows_go_sessions(6) [OF this] other.prems show ?thesis by simp
  next
    case (login row)
    from appended_rows [OF login(1)] other.prems show ?thesis by simp
  qed
next
  case (goes_on d r db r' db' us vs met)
  then have "rows_go db db'" using RetireSession_goes by (cases r) (auto split: sum.splits)
  from rows_go_sessions(6) [OF this] goes_on.prems show ?case by simp
next
  case (answers d r db a db' us vs met)
  have "rows_go db db' \<or> (\<exists>new. iy_sessions db' = iy_sessions db @ [new])"
  proof (cases r)
    case (Issuing row now)
    with answers.hyps show ?thesis
      using rows_go_same [of db db'] by (auto split: sum.splits dest!: issue_Inr)
  qed (use answers.hyps RevokeFamily_goes in auto)
  with answers.prems rows_go_sessions(6) [of db db'] appended_rows [of db' db] show ?case by auto
qed (simp, blast intro: row_goes_refl)+

lemma crossings:
  assumes "(crossing_step H)\<^sup>*\<^sup>* c c'"
  shows "crossing_ok c \<Longrightarrow> crossing_ok c'"
    and "s \<in> set (iy_sessions (fst c)) \<Longrightarrow> \<exists>t \<in> set (iy_sessions (fst c')). row_goes s t"
proof -
  show "crossing_ok c \<Longrightarrow> crossing_ok c'" using assms by (induction rule: rtranclp_induct) (blast intro: crossing_step_ok)+
  show "s \<in> set (iy_sessions (fst c)) \<Longrightarrow> \<exists>t \<in> set (iy_sessions (fst c')). row_goes s t" using assms
  proof (induction rule: rtranclp_induct)
    case base
    then show ?case using row_goes_refl by blast
  next
    case (step b c)
    then obtain t where "t \<in> set (iy_sessions (fst b))" "row_goes s t" by blast
    with crossing_step_rows [OF step.hyps(2)] row_goes_trans show ?case by blast
  qed
qed

lemma sessions_ok_crossing: "sessions_ok db \<Longrightarrow> crossing_ok (db, [], [])"
proof -
  assume ok: "sessions_ok db"
  have "sum_list (map (weight []) xs) = length (filter (\<lambda>s. sn_retired s = None) xs)" for xs
    by (induction xs) (simp_all add: weight_def)
  with ok have "ends_of family db [] \<le> 1" for family by (simp add: ends_of_def sessions_ok_def)
  moreover have "logins_agree db" unfolding logins_agree_def using login_pair [OF ok] by blast
  ultimately show ?thesis using ok by (simp add: sessions_ok_def in_flight_of_def)
qed

lemma live_ends: "length (filter (\<lambda>s. sn_retired s = None) (login family db)) \<le> ends_of family db flight"
proof -
  have "length (filter (\<lambda>s. sn_retired s = None) xs) \<le> sum_list (map (weight flight) xs)" for xs
    by (induction xs) (auto simp: weight_def)
  then show ?thesis by (simp add: ends_of_def trans_le_add1)
qed

text \<open>C20: Rotating is not signing in again.  However rotations interleave with each other, transaction by transaction,
  and with sign-ins, logouts, choices of workspace and resets, the rows of a login are of one person and of the
  one moment they proved who they are; an issued pair never changes its tokens or its ends, and once rotated away
  or revoked remains so; and the pairs of a login not yet rotated away are at most one, and one more for every
  rotation that was begun of a pair while another rotation of that same pair was about to retire it.  So there is
  one where presentations of a pair do not cross; where they do, both may succeed (recorded as a finding).\<close>

theorem rotation_is_not_authentication:
  assumes "sessions_ok db" and "(crossing_step H)\<^sup>*\<^sup>* (db, [], []) (db', flight, met)"
  shows "(\<forall>s \<in> set (iy_sessions db'). \<forall>t \<in> set (iy_sessions db'). sn_family s = sn_family t \<longrightarrow>
        sn_user s = sn_user t \<and> sn_authenticated_at s = sn_authenticated_at t)
    \<and> (\<forall>s \<in> set (iy_sessions db). \<exists>t \<in> set (iy_sessions db'). row_goes s t)
    \<and> (\<forall>family. length (filter (\<lambda>s. sn_retired s = None) (login family db')) \<le> 1 + count_list met family)"
proof (intro conjI)
  have ok: "crossing_ok (db', flight, met)" by (rule crossings(1) [OF assms(2) sessions_ok_crossing [OF assms(1)]])
  then show "\<forall>s \<in> set (iy_sessions db'). \<forall>t \<in> set (iy_sessions db'). sn_family s = sn_family t \<longrightarrow>
      sn_user s = sn_user t \<and> sn_authenticated_at s = sn_authenticated_at t" unfolding crossing_ok.simps logins_agree_def by blast
  show "\<forall>s \<in> set (iy_sessions db). \<exists>t \<in> set (iy_sessions db'). row_goes s t" using crossings(2) [OF assms(2)] by simp
  show "\<forall>family. length (filter (\<lambda>s. sn_retired s = None) (login family db')) \<le> 1 + count_list met family"
  proof
    fix family
    from ok have "ends_of family db' flight \<le> 1 + count_list met family" by simp
    with live_ends show "length (filter (\<lambda>s. sn_retired s = None) (login family db')) \<le> 1 + count_list met family" by (rule order_trans)
  qed
qed

section \<open>Authority\<close>

lemma holds_in_set: "holds_in cs c \<longleftrightarrow> c \<in> set cs"
  by (induction cs) auto

lemma Can_allowed:
  assumes "d_allowed (Can ctx c q now)"
  shows "\<exists>r. Describe c = Some r \<and> now < c_expires_at ctx \<and> c \<in> set (c_capabilities ctx)
    \<and> (r_step_up r \<longrightarrow> time_sub now (c_authenticated_at ctx) \<le> stepUpWindow)
    \<and> (\<not> r_platform r \<and> r_tenant r \<longrightarrow> c_active_tenant ctx \<noteq> '''' \<and> q_tenant q = c_active_tenant ctx)"
  using assms
  by (auto simp: Can_def deny_def allow_def holds_def holds_in_set tenant_block_def split: option.splits if_splits)

lemma Lookup_Inr:
  assumes "Lookup H i request now t db = Inr (row, db')"
  shows "row \<in> set (iy_sessions db) \<and> sn_token row = H t \<and> sn_revoked row = None \<and> now < sn_expires_at row
    \<and> iy_memberships db' = iy_memberships db \<and> iy_sessions db' = iy_sessions db
    \<and> (case ActiveElevationFor (sn_user row) now db of
         None \<Rightarrow> db' = db
       | Some e \<Rightarrow> \<exists>a. iy_audit db' = iy_audit db @ [a] \<and> av_actor a = sn_user row
           \<and> av_action a = ''identity.elevated_request'' \<and> av_subject a = eg_id e \<and> av_request a = request)"
proof (cases "FindSessionByToken (H t) db")
  case (Some x)
  with assms have x: "session_valid now x" "row = x" and e: "(case ActiveElevationFor (sn_user x) now db of None \<Rightarrow> Inr (x, db)
      | Some e \<Rightarrow> bindE (AuditElevatedRequest i (sn_user x) (eg_id e) request db) (\<lambda>db'. Inr (x, db'))) = Inr (row, db')"
    by (auto simp: Lookup_def bindE_Inr split: if_splits option.splits)
  from FindSessionByToken_Some [OF Some] have "x \<in> set (iy_sessions db)" "sn_token x = H t" by blast+
  with x show ?thesis using e
    by (cases "ActiveElevationFor (sn_user x) now db")
      (auto simp: session_valid_def bindE_Inr AuditElevatedRequest_def insert_audit_Inr split: if_splits)
qed (use assms in \<open>simp add: Lookup_def\<close>)

text \<open>C19: Authority is what the person holds now.  A request is allowed only on a session that is neither revoked nor
  at its end, and only for a capability that everybody holds over their own data or that the role of an active
  membership of the workspace the session chose carries, as the memberships stand at the request; a capability that asks
  for a recent proof is allowed only within its window of the sign-in, however often the session was rotated; and a
  request under an active elevation is on the audit trail before it is answered.
\<close>

theorem authority_is_current:
  assumes "Authorize H i request now t c db = (Inr row, db')"
  shows "row \<in> set (iy_sessions db) \<and> sn_token row = H t \<and> sn_revoked row = None \<and> now < sn_expires_at row
    \<and> (c \<in> set (CapabilitiesOf RoleCandidate)
       \<or> (\<exists>m \<in> set (iy_memberships db). mb_user m = sn_user row \<and> mb_tenant m = sn_tenant row \<and> sn_tenant row \<noteq> ''''
            \<and> mb_status m = ''active'' \<and> c \<in> set (CapabilitiesOf (mb_role m))))
    \<and> (\<exists>q. Describe c = Some q
         \<and> (r_step_up q \<longrightarrow> time_sub now (sn_authenticated_at row) \<le> stepUpWindow)
         \<and> (\<not> r_platform q \<and> r_tenant q \<longrightarrow> sn_tenant row \<noteq> ''''))
    \<and> (\<forall>e. ActiveElevationFor (sn_user row) now db = Some e \<longrightarrow>
         (\<exists>a. iy_audit db' = iy_audit db @ [a] \<and> av_actor a = sn_user row \<and> av_action a = ''identity.elevated_request''
            \<and> av_subject a = eg_id e \<and> av_request a = request))"
proof -
  from assms obtain row1 db1 where l1: "Lookup H i request now t db = Inr (row1, db1)"
    by (cases "Lookup H i request now t db") (auto simp: Authorize_def)
  from assms obtain granted where g1: "grantsFor row1 db1 = Inr granted"
    by (cases "grantsFor row1 db1") (auto simp: Authorize_def l1)
  let ?d = "Can (session_context row1 granted) c \<lparr>q_tenant = sn_tenant row1, q_scope = None, q_owner = ''''\<rparr> now"
  from assms have d: "(if d_allowed ?d then (Inr row1, db1) else (Inl (ForbiddenError (d_reason ?d)), db1)) = (Inr row, db')"
    by (simp only: Authorize_def l1 g1 sum.case prod.case Let_def)
  then have "row1 = row" "db' = db1" "d_allowed ?d" by (cases "d_allowed ?d"; simp)+
  with l1 g1 have l: "Lookup H i request now t db = Inr (row, db1)" and g: "grantsFor row db1 = Inr granted" and db': "db' = db1"
    and a: "d_allowed (Can (session_context row granted) c \<lparr>q_tenant = sn_tenant row, q_scope = None, q_owner = ''''\<rparr> now)" by simp_all
  note look = Lookup_Inr [OF l]
  from Can_allowed [OF a] obtain q where q: "Describe c = Some q" "c \<in> set granted"
    "r_step_up q \<longrightarrow> time_sub now (sn_authenticated_at row) \<le> stepUpWindow"
    "\<not> r_platform q \<and> r_tenant q \<longrightarrow> sn_tenant row \<noteq> ''''"
    by (auto simp: session_context_def)
  have "c \<in> set (CapabilitiesOf RoleCandidate)
       \<or> (\<exists>m \<in> set (iy_memberships db1). mb_user m = sn_user row \<and> mb_tenant m = sn_tenant row \<and> sn_tenant row \<noteq> ''''
            \<and> mb_status m = ''active'' \<and> c \<in> set (CapabilitiesOf (mb_role m)))"
    using g q(2) by (force simp: grantsFor_def Let_def bindE_Inr FindRole_def find_Some_iff split: if_splits option.splits)
  with look q db' show ?thesis by auto
qed


section \<open>Logins on record\<close>

definition ex_hash :: "string \<Rightarrow> string" where
  "ex_hash t = ''#'' @ t"

definition ex_people :: identity_db where
  "ex_people = empty_identity\<lparr>iy_users := [\<lparr>us_id = ''u1'', us_email = ''ada@example.org'', us_verified = True, us_status = ''active''\<rparr>],
     iy_tenants := [\<lparr>tt_id = ''t1'', tt_name = ''Acme'', tt_slug = ''acme'', tt_region = ''eu-west-2''\<rparr>],
     iy_memberships := [\<lparr>mb_id = ''m1'', mb_tenant = ''t1'', mb_user = ''u1'', mb_status = ''active'', mb_role = ''viewer'', mb_version = 1, mb_created_at = 1\<rparr>]\<rparr>"

definition ex_pair :: "string \<Rightarrow> session_draws" where
  "ex_pair s = \<lparr>sd_id = s, sd_session_secret = s, sd_refresh_secret = s\<rparr>"

definition ex_signed_in :: identity_db where
  "ex_signed_in = (case issue ex_hash (ex_pair ''s1'') ''u1'' ''f1'' 10 10 ex_people of Inr (s, db) \<Rightarrow> db | Inl _ \<Rightarrow> ex_people)"

definition ex_rotated :: identity_db where
  "ex_rotated = snd (Refresh ex_hash (ex_pair ''s2'') 20 ''ref_s1'' ex_signed_in ex_signed_in)"


lemma ex_rotated_ok: "sessions_ok ex_signed_in" "session_step ex_hash ex_signed_in ex_rotated" "sessions_ok ex_rotated"
proof -
  have "sessions_ok ex_people" by (simp add: sessions_ok_def login_def ex_people_def empty_identity_def)
  moreover have "session_step ex_hash ex_people ex_signed_in"
  proof (rule session_step.other, rule other_step.signed_in [where family = "''f1''" and d = "ex_pair ''s1''" and user = "''u1''" and now = 10])
    have "is_ok (issue ex_hash (ex_pair ''s1'') ''u1'' ''f1'' 10 10 ex_people)" by code_simp
    then obtain s db where "issue ex_hash (ex_pair ''s1'') ''u1'' ''f1'' 10 10 ex_people = Inr (s, db)" by (auto simp: is_ok_iff)
    then show "issue ex_hash (ex_pair ''s1'') ''u1'' ''f1'' 10 10 ex_people
        = Inr (fst (projr (issue ex_hash (ex_pair ''s1'') ''u1'' ''f1'' 10 10 ex_people)), ex_signed_in)" by (simp add: ex_signed_in_def)
  qed (simp add: ex_people_def empty_identity_def)
  ultimately show ok: "sessions_ok ex_signed_in" by (metis session_step_keeps)
  show step: "session_step ex_hash ex_signed_in ex_rotated"
    unfolding ex_rotated_def by (rule session_step.rotated [where r = "fst (Refresh ex_hash (ex_pair ''s2'') 20 ''ref_s1'' ex_signed_in ex_signed_in)"]) simp
  with ok show "sessions_ok ex_rotated" by (metis session_step_keeps)
qed

text \<open>Two presentations of one token that cross: both read, both retire, both issue.\<close>

definition ex_crossed :: identity_db where
  "ex_crossed = snd (RefreshNext ex_hash (ex_pair ''s3'') (Issuing (hd (iy_sessions ex_signed_in)) 20)
     (snd (RefreshNext ex_hash (ex_pair ''s2'') (Issuing (hd (iy_sessions ex_signed_in)) 20)
       (RetireSession ''s1'' 20 (RetireSession ''s1'' 20 ex_signed_in)))))"

lemma issuing_answers:
  "crossing_step H (db, us @ Issuing row now # vs, met) (snd (RefreshNext H d (Issuing row now) db), us @ vs, met)"
proof -
  have "\<exists>a. RefreshNext H d (Issuing row now) db = (Inr a, snd (RefreshNext H d (Issuing row now) db))"
    by (simp split: sum.split prod.split)
  then obtain a where "RefreshNext H d (Issuing row now) db = (Inr a, snd (RefreshNext H d (Issuing row now) db))" ..
  then show ?thesis by (rule crossing_step.answers)
qed

lemma ex_crossing: "(crossing_step ex_hash)\<^sup>*\<^sup>* (ex_signed_in, [], []) (ex_crossed, [], [''f1''])"
proof -
  let ?row = "hd (iy_sessions ex_signed_in)"
  let ?r = "Retiring ?row 20" and ?i = "Issuing ?row 20" and ?db = "RetireSession ''s1'' 20"
  have seen: "RefreshRead ex_hash 20 ''ref_s1'' ex_signed_in = Inr ?r" by code_simp
  have row: "sn_id ?row = ''s1''" "sn_family ?row = ''f1''" by code_simp+
  have r1: "crossing_step ex_hash (ex_signed_in, [], []) (ex_signed_in, [?r], [])"
    using crossing_step.read [OF seen, of "[]" "[]"] by simp
  have r2: "crossing_step ex_hash (ex_signed_in, [?r], []) (ex_signed_in, [?r, ?r], [''f1''])"
    using crossing_step.read [OF seen, of "[?r]" "[]"] by (simp add: row)
  have r3: "crossing_step ex_hash (ex_signed_in, [?r, ?r], [''f1'']) (?db ex_signed_in, [?i, ?r], [''f1''])"
    using crossing_step.goes_on [of ex_hash _ ?r ex_signed_in ?i _ "[]" "[?r]"] by (simp add: row)
  have r4: "crossing_step ex_hash (?db ex_signed_in, [?i, ?r], [''f1'']) (?db (?db ex_signed_in), [?i, ?i], [''f1''])"
    using crossing_step.goes_on [of ex_hash _ ?r "?db ex_signed_in" ?i _ "[?i]" "[]"] by (simp add: row)
  have r5: "crossing_step ex_hash (?db (?db ex_signed_in), [?i, ?i], [''f1''])
      (snd (RefreshNext ex_hash (ex_pair ''s2'') ?i (?db (?db ex_signed_in))), [?i], [''f1''])"
    using issuing_answers [of ex_hash _ "[]" ?row 20 "[?i]"] by simp
  have r6: "crossing_step ex_hash (snd (RefreshNext ex_hash (ex_pair ''s2'') ?i (?db (?db ex_signed_in))), [?i], [''f1'']) (ex_crossed, [], [''f1''])"
    unfolding ex_crossed_def using issuing_answers [of ex_hash _ "[]" ?row 20 "[]"] by simp
  note next_step = converse_rtranclp_into_rtranclp [where r = "crossing_step ex_hash"]
  show ?thesis
    by (rule next_step [OF r1], rule next_step [OF r2], rule next_step [OF r3], rule next_step [OF r4], rule next_step [OF r5],
        rule next_step [OF r6], rule rtranclp.rtrancl_refl)
qed

text \<open>The bound is attained: both presentations succeeded.\<close>

lemma ex_crossed_ends: "length (filter (\<lambda>s. sn_retired s = None) (login ''f1'' ex_crossed)) = 2"
  by code_simp

theorem rotation_is_not_authentication_witness:
  "(\<exists>t \<in> set (iy_sessions ex_crossed). sn_id t = ''s1'' \<and> sn_authenticated_at t = 10)
   \<and> length (filter (\<lambda>s. sn_retired s = None) (login ''f1'' ex_crossed)) \<le> 2"
proof -
  have s: "hd (iy_sessions ex_signed_in) \<in> set (iy_sessions ex_signed_in)" "sn_id (hd (iy_sessions ex_signed_in)) = ''s1''"
    "sn_authenticated_at (hd (iy_sessions ex_signed_in)) = 10" by code_simp+
  note all = rotation_is_not_authentication [OF ex_rotated_ok(1) ex_crossing]
  from all s obtain t where "t \<in> set (iy_sessions ex_crossed)" "row_goes (hd (iy_sessions ex_signed_in)) t" by blast
  with s have "\<exists>t \<in> set (iy_sessions ex_crossed). sn_id t = ''s1'' \<and> sn_authenticated_at t = 10" by (auto simp: row_goes_def)
  moreover from all have "length (filter (\<lambda>s. sn_retired s = None) (login ''f1'' ex_crossed)) \<le> 1 + count_list [''f1''] ''f1''" by blast
  ultimately show ?thesis by simp
qed



definition ex_chosen :: identity_db where
  "ex_chosen = snd (SelectTenant ex_hash (\<lambda>n. replicate n CHR ''a'') 12 ''ses_s1'' ''t1'' ''q1'' ex_signed_in ex_signed_in)"

lemma ex_authorized:
  "is_ok (fst (Authorize ex_hash ''a9'' ''q2'' 13 ''ses_s1'' ''tenant.settings_read'' ex_chosen))"
  "''tenant.settings_read'' \<notin> set (CapabilitiesOf RoleCandidate)"
  by code_simp+

theorem authority_is_current_witness:
  "\<exists>m \<in> set (iy_memberships ex_chosen). mb_status m = ''active'' \<and> ''tenant.settings_read'' \<in> set (CapabilitiesOf (mb_role m))"
proof -
  obtain row where "Authorize ex_hash ''a9'' ''q2'' 13 ''ses_s1'' ''tenant.settings_read'' ex_chosen
      = (Inr row, snd (Authorize ex_hash ''a9'' ''q2'' 13 ''ses_s1'' ''tenant.settings_read'' ex_chosen))"
    using ex_authorized(1) by (metis is_ok_iff prod.collapse)
  from authority_is_current [OF this] ex_authorized(2) show ?thesis by blast
qed

section \<open>Where the code departs from its comments\<close>

text \<open>
  The update that retires a row does not say whether it retired one: two rotations of one token that both read
  before either writes both succeed, and the reuse is not seen.  The login has two live ends.
\<close>

lemma simultaneous_rotations_are_not_reuse:
  "is_ok (fst (Refresh ex_hash (ex_pair ''s3'') 20 ''ref_s1'' ex_signed_in ex_rotated))
   \<and> length (filter (\<lambda>s. sn_retired s = None \<and> sn_revoked s = None)
        (login ''f1'' (snd (Refresh ex_hash (ex_pair ''s3'') 20 ''ref_s1'' ex_signed_in ex_rotated)))) = 2"
  by code_simp

text \<open>A rotation that read its row before a logout issues its pair after it: the logout leaves a live session behind.\<close>

lemma rotation_outlives_a_logout:
  "is_ok (fst (Refresh ex_hash (ex_pair ''s2'') 20 ''ref_s1'' ex_signed_in (Revoke ex_hash 19 ''ses_s1'' ex_signed_in ex_signed_in)))
   \<and> is_ok (Lookup ex_hash ''a1'' ''q1'' 21 ''ses_s2''
        (snd (Refresh ex_hash (ex_pair ''s2'') 20 ''ref_s1'' ex_signed_in (Revoke ex_hash 19 ''ses_s1'' ex_signed_in ex_signed_in))))"
  by code_simp

end
