(* ===== verification/Job_Requirements.thy ===== *)
theory Job_Requirements
  imports Rubric
begin

text \<open>
  \<open>services/platform/internal/evaluation/requirements.go\<close>: each job requirement reported against the
  competency results and the stored evidence (\<open>MapRequirements\<close>, \<open>requirementStatus\<close>,
  \<open>followUpFor\<close>), linked by whole phrase (\<open>namePhraseIn\<close>).
\<close>

section \<open>Whole phrases\<close>

text \<open>
  \<open>isWordRune(rune(text[i]))\<close> classifies a single byte as if it were a code point: the letters and
  digits of Latin-1.
\<close>

definition isWordRune :: "char \<Rightarrow> bool" where
  "isWordRune c \<longleftrightarrow> (let n = of_char c :: nat in
     (65 \<le> n \<and> n \<le> 90) \<or> (97 \<le> n \<and> n \<le> 122) \<or> n = 170 \<or> n = 181 \<or> n = 186
     \<or> (192 \<le> n \<and> n \<noteq> 215 \<and> n \<noteq> 247) \<or> (48 \<le> n \<and> n \<le> 57))"

fun Index :: "string \<Rightarrow> string \<Rightarrow> nat option" where
  "Index [] p = (if prefix p [] then Some 0 else None)"
| "Index (c # cs) p = (if prefix p (c # cs) then Some 0 else map_option Suc (Index cs p))"

lemma Index_Some:
  "Index s p = Some i \<Longrightarrow> i \<le> length s \<and> prefix p (drop i s) \<and> (\<forall>j < i. \<not> prefix p (drop j s))"
proof (induction s arbitrary: i)
  case (Cons c s)
  show ?case
  proof (cases "prefix p (c # s)")
    case False
    with Cons.prems obtain j where j: "Index s p = Some j" "i = Suc j" by auto
    have "\<not> prefix p (drop k (c # s))" if "k < i" for k
      using that False Cons.IH [OF j(1)] j(2) by (cases k) auto
    with Cons.IH [OF j(1)] j(2) show ?thesis by simp
  qed (use Cons.prems in simp)
qed (simp split: if_splits)

lemma Index_None: "Index s p = None \<Longrightarrow> i \<le> length s \<Longrightarrow> \<not> prefix p (drop i s)"
proof (induction s arbitrary: i)
  case (Cons c s)
  then show ?case by (cases i) (auto split: if_splits)
qed (simp split: if_splits)

lemma Index_bound: "Index s p = Some i \<Longrightarrow> i + length p \<le> length s"
  using Index_Some [of s p i] prefix_length_le [of p "drop i s"] by (cases "p = []") auto

text \<open>
  The loop of \<open>namePhraseIn\<close>; the test for the empty name, made once before the loop in the code, is
  repeated where the recursion needs it.
\<close>

function phrase_from :: "string \<Rightarrow> string \<Rightarrow> nat \<Rightarrow> bool" where
  "phrase_from name body start =
     (if name = '''' then False
      else case Index (drop start body) name of
        None \<Rightarrow> False
      | Some found \<Rightarrow>
          let i = start + found;
              before = (i = 0 \<or> \<not> isWordRune (body ! (i - 1)));
              afterIndex = i + length name;
              after_ok = (afterIndex \<ge> length body \<or> \<not> isWordRune (body ! afterIndex)) in
          (if before \<and> after_ok then True else phrase_from name body (i + 1)))"
  by pat_completeness auto

termination
proof (relation "measure (\<lambda>(name, body, start). Suc (length body) - start)")
  fix name body :: string and start found i before afterIndex after_ok
  assume name: "name \<noteq> ''''" and found: "Index (drop start body) name = Some found" and i: "i = start + found"
  from Index_bound [OF found] have "found + length name \<le> length body - start" by simp
  with name have "found < length body - start" by (cases name) auto
  with i show "((name, body, i + 1), name, body, start) \<in> measure (\<lambda>(name, body, start). Suc (length body) - start)"
    by simp
qed simp

declare phrase_from.simps [simp del]

definition namePhraseIn :: "string \<Rightarrow> string \<Rightarrow> bool" where
  "namePhraseIn name body = phrase_from (ToLower (TrimSpace name)) (ToLower body) 0"

section \<open>Requirements and findings\<close>

record job_requirement =
  jr_id :: string
  jr_text :: string

record requirement_finding =
  rf_requirement :: string
  rf_status :: string
  rf_competencies :: "string list"
  rf_evidence_ids :: "string list"
  rf_follow_up :: string

definition hasReasonCode :: "competency_result \<Rightarrow> string \<Rightarrow> bool" where
  "hasReasonCode r code \<longleftrightarrow> code \<in> set (re_reason_codes r)"

definition requirementStatus :: "competency_result list \<Rightarrow> string" where
  "requirementStatus linked =
     (if linked = [] then ''not_assessable''
      else
        let heard = (\<exists>r \<in> set linked. re_evidence_count r > 0);
            settled = (\<forall>r \<in> set linked. \<not> (re_status r \<noteq> ''assessed'' \<or> hasReasonCode r ''CONTRADICTIONS_PRESENT'')) in
        (if \<not> heard then ''not_discussed'' else if settled then ''evidenced'' else ''partial''))"

definition quote_mark :: string where "quote_mark = [CHR 0x22]"

definition followUpFor :: "string \<Rightarrow> string \<Rightarrow> string" where
  "followUpFor status requirement =
     (if status = ''not_assessable''
      then ''Nothing this interview measured maps to '' @ quote_mark @ requirement @ quote_mark
        @ ''. Verify it directly, outside the interview record.''
      else if status = ''not_discussed''
      then ''The interview never reached '' @ quote_mark @ requirement @ quote_mark
        @ ''. Ask about it in a follow-up conversation.''
      else ''The recorded evidence for '' @ quote_mark @ requirement @ quote_mark
        @ '' is thin or contradicted. Probe it further before deciding.'')"

definition results_by :: "competency_result list \<Rightarrow> (string \<rightharpoonup> competency_result)" where
  "results_by rs = fold (\<lambda>r m. m(re_competency r \<mapsto> r)) rs Map.empty"

text \<open>The body of the loop over the requirements.\<close>

definition report_requirement ::
  "competency list \<Rightarrow> (string \<rightharpoonup> competency_result) \<Rightarrow> stored_span list \<Rightarrow> job_requirement
     \<Rightarrow> requirement_finding" where
  "report_requirement cs by spans q =
     (let links = filter (\<lambda>c. namePhraseIn (co_name c) (jr_text q)) cs;
          linked = List.map_filter (\<lambda>c. by (co_id c)) links;
          ids = concat (map (\<lambda>c. map ss_id (filter (\<lambda>x. sp_competency (ss_span x) = co_id c) spans)) links);
          status = requirementStatus linked in
      \<lparr>rf_requirement = jr_id q, rf_status = status, rf_competencies = map co_id links,
       rf_evidence_ids = sort ids,
       rf_follow_up = (if status \<noteq> ''evidenced'' then followUpFor status (jr_text q) else '''')\<rparr>)"

definition MapRequirements ::
  "job_requirement list \<Rightarrow> competency list \<Rightarrow> competency_result list \<Rightarrow> stored_span list
     \<Rightarrow> requirement_finding list" where
  "MapRequirements qs cs rs spans = map (report_requirement cs (results_by rs) spans) qs"

section \<open>Lemmas\<close>

text \<open>An occurrence of a name with no letter or digit on either side.\<close>

definition stands_at :: "string \<Rightarrow> string \<Rightarrow> nat \<Rightarrow> bool" where
  "stands_at name body i \<longleftrightarrow> i \<le> length body \<and> prefix name (drop i body)
     \<and> (i = 0 \<or> \<not> isWordRune (body ! (i - 1)))
     \<and> (i + length name \<ge> length body \<or> \<not> isWordRune (body ! (i + length name)))"

lemma phrase_from_iff:
  "name \<noteq> '''' \<Longrightarrow> phrase_from name body start \<longleftrightarrow> (\<exists>i \<ge> start. stands_at name body i)"
proof (induction name body start rule: phrase_from.induct)
  case (1 name body start)
  show ?case
  proof (cases "Index (drop start body) name")
    case None
    have "\<not> prefix name (drop i body)" if "start \<le> i" "i \<le> length body" for i
      using Index_None [OF None, of "i - start"] that by simp
    with None "1.prems" show ?thesis by (auto simp: phrase_from.simps stands_at_def)
  next
    case (Some found)
    note f = Index_Some [OF Some]
    let ?i = "start + found"
    from Index_bound [OF Some] have "found + length name \<le> length body - start" by simp
    with "1.prems" have i: "?i \<le> length body" "prefix name (drop ?i body)"
      using f by (cases "length body < start"; simp add: add.commute)+
    have low: "\<not> stands_at name body k" if "start \<le> k" "k < ?i" for k
    proof -
      have "k - start < found" "start + (k - start) = k" using that by auto
      with f have "\<not> prefix name (drop k body)" by (metis drop_drop add.commute)
      then show ?thesis by (simp add: stands_at_def)
    qed
    show ?thesis
    proof (cases "stands_at name body ?i")
      case True
      then have "phrase_from name body start"
        using Some "1.prems" by (subst phrase_from.simps) (simp add: stands_at_def Let_def)
      with True show ?thesis by (auto intro: exI [of _ ?i])
    next
      case False
      then have "phrase_from name body start = phrase_from name body (?i + 1)"
        using Some "1.prems" i by (subst phrase_from.simps) (auto simp: stands_at_def Let_def)
      also have "\<dots> \<longleftrightarrow> (\<exists>j \<ge> ?i + 1. stands_at name body j)"
        using "1.IH" [OF "1.prems" Some refl refl refl refl] False i "1.prems" by (auto simp: stands_at_def)
      also have "\<dots> \<longleftrightarrow> (\<exists>j \<ge> start. stands_at name body j)"
        using low False by (metis Suc_eq_plus1 Suc_leI le_add1 le_neq_implies_less le_trans linorder_not_less)
      finally show ?thesis .
    qed
  qed
qed

lemma stands_at_split:
  "(\<exists>i. stands_at name body i) \<longleftrightarrow>
     (\<exists>pre post. body = pre @ name @ post \<and> (pre = '''' \<or> \<not> isWordRune (last pre))
        \<and> (post = '''' \<or> \<not> isWordRune (hd post)))"
proof
  assume "\<exists>i. stands_at name body i"
  then obtain i where i: "i \<le> length body" "prefix name (drop i body)" "i = 0 \<or> \<not> isWordRune (body ! (i - 1))"
    "i + length name \<ge> length body \<or> \<not> isWordRune (body ! (i + length name))"
    by (auto simp: stands_at_def)
  from i(2) obtain post where post: "drop i body = name @ post" by (auto simp: prefix_def)
  have body: "body = take i body @ name @ post" using append_take_drop_id [of i body] post by simp
  have last: "last (take i body) = body ! (i - 1)" if "0 < i"
    using that i(1) by (subst last_conv_nth) auto
  have hd: "hd post = body ! (i + length name)" if "post \<noteq> ''''"
  proof -
    from post have "drop (i + length name) body = post" by (metis append_eq_conv_conj drop_drop add.commute)
    with that show ?thesis by (metis drop_eq_Nil hd_drop_conv_nth leI)
  qed
  have nil: "post = ''''" if "length body \<le> i + length name"
  proof -
    have "length post = 0" using that arg_cong [OF post, of length, unfolded length_drop length_append] by linarith
    then show ?thesis by simp
  qed
  show "\<exists>pre post. body = pre @ name @ post \<and> (pre = '''' \<or> \<not> isWordRune (last pre))
      \<and> (post = '''' \<or> \<not> isWordRune (hd post))"
  proof (intro exI conjI)
    show "body = take i body @ name @ post" by (rule body)
    show "take i body = '''' \<or> \<not> isWordRune (last (take i body))" using i(3) last by (cases "i = 0") simp_all
    show "post = '''' \<or> \<not> isWordRune (hd post)" using i(4) hd nil by metis
  qed
next
  assume "\<exists>pre post. body = pre @ name @ post \<and> (pre = '''' \<or> \<not> isWordRune (last pre))
      \<and> (post = '''' \<or> \<not> isWordRune (hd post))"
  then obtain pre post where p: "body = pre @ name @ post" "pre = '''' \<or> \<not> isWordRune (last pre)"
    "post = '''' \<or> \<not> isWordRune (hd post)" by blast
  have "pre \<noteq> '''' \<Longrightarrow> body ! (length pre - 1) = last pre"
    by (simp add: p(1) nth_append last_conv_nth)
  moreover have "post \<noteq> '''' \<Longrightarrow> body ! (length pre + length name) = hd post"
    by (simp add: p(1) nth_append hd_conv_nth)
  ultimately have "stands_at name body (length pre)"
    using p(2,3) unfolding stands_at_def by (auto simp: p(1))
  then show "\<exists>i. stands_at name body i" ..
qed

lemma report_static [simp]: "rf_requirement (report_requirement cs by spans q) = jr_id q"
  by (simp add: report_requirement_def Let_def)

definition linked_to :: "competency list \<Rightarrow> job_requirement \<Rightarrow> competency list" where
  "linked_to cs q = filter (\<lambda>c. namePhraseIn (co_name c) (jr_text q)) cs"

lemma results_fold_notin:
  "k \<notin> re_competency ` set rs \<Longrightarrow> fold (\<lambda>r m. m(re_competency r \<mapsto> r)) rs m k = m k"
  by (induction rs arbitrary: m) auto

lemma results_by_settled:
  assumes "\<forall>r \<in> set rs. r = f (re_competency r)" and "k \<in> re_competency ` set rs"
  shows "results_by rs k = Some (f k)"
proof -
  have "fold (\<lambda>r m. m(re_competency r \<mapsto> r)) rs m k = Some (f k)" for m
    using assms
  proof (induction rs arbitrary: m)
    case (Cons r rs)
    show ?case
    proof (cases "k \<in> re_competency ` set rs")
      case True
      with Cons show ?thesis by simp
    next
      case False
      with Cons.prems have "re_competency r = k" "r = f (re_competency r)" by auto
      then have "r = f k" by simp
      with results_fold_notin [OF False, of "m(k \<mapsto> f k)"] \<open>re_competency r = k\<close>
      show ?thesis by (simp del: fun_upd_apply) simp
    qed
  qed simp
  then show ?thesis by (simp add: results_by_def)
qed

lemma results_of_aggregate:
  assumes "c \<in> set cs"
  shows "results_by (ag_competencies (Aggregate rb cs spans)) (co_id c) = Some (settle rb (counted spans (co_id c)))"
proof (rule results_by_settled [where f = "\<lambda>k. settle rb (counted spans k)"])
  show "\<forall>r \<in> set (ag_competencies (Aggregate rb cs spans)). r = settle rb (counted spans (re_competency r))"
    by (auto simp: Aggregate_results)
  show "co_id c \<in> re_competency ` set (ag_competencies (Aggregate rb cs spans))"
    using assms by (force simp: Aggregate_results)
qed

lemma linked_results:
  "List.map_filter (\<lambda>c. results_by (ag_competencies (Aggregate rb cs spans)) (co_id c)) (linked_to cs q)
     = map (\<lambda>c. settle rb (counted spans (co_id c))) (linked_to cs q)"
proof -
  have "List.map_filter (\<lambda>c. results_by (ag_competencies (Aggregate rb cs spans)) (co_id c)) ls
      = map (\<lambda>c. settle rb (counted spans (co_id c))) ls" if "set ls \<subseteq> set cs" for ls
    using that by (induction ls) (simp_all add: results_of_aggregate)
  then show ?thesis by (simp add: linked_to_def)
qed

lemma report_of_aggregate:
  "report_requirement cs (results_by (ag_competencies (Aggregate rb cs spans))) spans q =
     \<lparr>rf_requirement = jr_id q,
      rf_status = requirementStatus (map (\<lambda>c. settle rb (counted spans (co_id c))) (linked_to cs q)),
      rf_competencies = map co_id (linked_to cs q),
      rf_evidence_ids = sort (concat (map (\<lambda>c. map ss_id (about (co_id c) spans)) (linked_to cs q))),
      rf_follow_up =
        (if requirementStatus (map (\<lambda>c. settle rb (counted spans (co_id c))) (linked_to cs q)) \<noteq> ''evidenced''
         then followUpFor (requirementStatus (map (\<lambda>c. settle rb (counted spans (co_id c))) (linked_to cs q))) (jr_text q)
         else '''')\<rparr>"
  by (simp add: report_requirement_def Let_def linked_to_def [symmetric] linked_results about_def)

lemma settle_contradicted:
  "re_status (settle rb r) = ''assessed'' \<Longrightarrow> hasReasonCode (settle rb r) ''CONTRADICTIONS_PRESENT'' \<longleftrightarrow> 0 < re_contradictory r"
  by (auto simp: settle_def hasReasonCode_def split: if_splits)

lemma settle_status: "re_status (settle rb r) = ''assessed'' \<longleftrightarrow> rb_min_supporting rb \<le> int (re_supporting r)"
  by (simp add: settle_def not_less)

lemma followUp_not_empty: "followUpFor status requirement \<noteq> ''''"
  by (simp add: followUpFor_def)

section \<open>Properties\<close>

text \<open>A link is stated, never guessed. A competency is linked to a requirement exactly when its whole
  name, lower-cased and trimmed, stands in the lower-cased requirement with no letter or digit on either
  side; an empty name links to nothing; and the search always ends.\<close>

theorem link_is_whole_phrase:
  "namePhraseIn name body \<longleftrightarrow>
     ToLower (TrimSpace name) \<noteq> ''''
     \<and> (\<exists>pre post. ToLower body = pre @ ToLower (TrimSpace name) @ post
          \<and> (pre = '''' \<or> \<not> isWordRune (last pre)) \<and> (post = '''' \<or> \<not> isWordRune (hd post)))"
proof (cases "ToLower (TrimSpace name) = ''''")
  case True
  then show ?thesis by (simp add: namePhraseIn_def phrase_from.simps)
next
  case False
  with phrase_from_iff [OF False, of "ToLower body" 0] show ?thesis
    unfolding namePhraseIn_def stands_at_split [symmetric] by simp
qed

theorem link_is_whole_phrase_witness: "namePhraseIn '' Performance'' ''Proven performance, at scale''"
  unfolding link_is_whole_phrase
  by (rule conjI, code_simp, rule exI [of _ "''proven ''"], rule exI [of _ "'', at scale''"], code_simp)

text \<open>
  The byte at a boundary is classified as a code point of its own: the closing quotation mark of
  UTF-8 starts with a byte that reads as a letter of Latin-1, and a name it follows is not linked.
\<close>

lemma closing_quote_hides_link:
  "\<not> namePhraseIn ''design'' (''design'' @ map char_of [226, 128, 157 :: nat])"
  by code_simp

text \<open>A requirement's status says what the record shows and why. Reported against the aggregation of
  the stored evidence, each requirement is answered once, in order; its evidence is all the stored spans
  about the competencies linked to it; it is not assessable exactly when nothing links, not discussed
  exactly when something links but no span is about it, evidenced exactly when there is evidence and
  every linked competency has sufficient support and no contradiction, and partial otherwise; and a
  follow-up question is suggested exactly when it is not evidenced.\<close>

theorem requirement_status_of_record:
  assumes "report = MapRequirements qs cs (ag_competencies (Aggregate rb cs spans)) spans"
  shows "map rf_requirement report = map jr_id qs
       \<and> (\<forall>(q, f) \<in> set (zip qs report).
            let linked = filter (\<lambda>c. namePhraseIn (co_name c) (jr_text q)) cs;
                settled = (\<lambda>c. rb_min_supporting rb \<le> int (kind_count ''supporting'' (co_id c) spans)
                  \<and> kind_count ''contradictory'' (co_id c) spans = 0) in
            mset (rf_evidence_ids f) = sum_list (map (\<lambda>c. mset (map ss_id (about (co_id c) spans))) linked)
            \<and> rf_status f =
                (if linked = [] then ''not_assessable''
                 else if rf_evidence_ids f = [] then ''not_discussed''
                 else if \<forall>c \<in> set linked. settled c then ''evidenced''
                 else ''partial'')
            \<and> (rf_follow_up f = '''' \<longleftrightarrow> rf_status f = ''evidenced''))"
proof
  show "map rf_requirement report = map jr_id qs"
    by (simp add: assms MapRequirements_def)
  show "\<forall>(q, f) \<in> set (zip qs report).
            let linked = filter (\<lambda>c. namePhraseIn (co_name c) (jr_text q)) cs;
                settled = (\<lambda>c. rb_min_supporting rb \<le> int (kind_count ''supporting'' (co_id c) spans)
                  \<and> kind_count ''contradictory'' (co_id c) spans = 0) in
            mset (rf_evidence_ids f) = sum_list (map (\<lambda>c. mset (map ss_id (about (co_id c) spans))) linked)
            \<and> rf_status f =
                (if linked = [] then ''not_assessable''
                 else if rf_evidence_ids f = [] then ''not_discussed''
                 else if \<forall>c \<in> set linked. settled c then ''evidenced''
                 else ''partial'')
            \<and> (rf_follow_up f = '''' \<longleftrightarrow> rf_status f = ''evidenced'')"
    (is "\<forall>(q, f) \<in> _. ?P q f")
  proof -
    have body: "?P q f" if "f = report_requirement cs (results_by (ag_competencies (Aggregate rb cs spans))) spans q" for q f
    proof -
      let ?ls = "linked_to cs q" and ?r = "\<lambda>c. settle rb (counted spans (co_id c))"
      have ids: "rf_evidence_ids f = sort (concat (map (\<lambda>c. map ss_id (about (co_id c) spans)) ?ls))"
        and st: "rf_status f = requirementStatus (map ?r ?ls)"
        and fu: "rf_follow_up f = '''' \<longleftrightarrow> rf_status f = ''evidenced''"
        unfolding that report_of_aggregate using followUp_not_empty by simp_all
      have "mset (concat (map (\<lambda>c. map ss_id (about (co_id c) spans)) ls))
          = sum_list (map (\<lambda>c. mset (map ss_id (about (co_id c) spans))) ls)" for ls
        by (induction ls) simp_all
      then have "mset (rf_evidence_ids f) = sum_list (map (\<lambda>c. mset (map ss_id (about (co_id c) spans))) ?ls)"
        by (simp add: ids)
      moreover have "rf_evidence_ids f = [] \<longleftrightarrow> (\<forall>c \<in> set ?ls. about (co_id c) spans = [])"
      proof -
        have "sort xs = [] \<longleftrightarrow> xs = []" for xs :: "string list" by (metis length_0_conv length_sort)
        then show ?thesis by (simp add: ids)
      qed
      moreover have "(\<exists>r \<in> set (map ?r ?ls). 0 < re_evidence_count r) \<longleftrightarrow> \<not> (\<forall>c \<in> set ?ls. about (co_id c) spans = [])"
        by auto
      moreover have "(\<forall>r \<in> set (map ?r ?ls). \<not> (re_status r \<noteq> ''assessed'' \<or> hasReasonCode r ''CONTRADICTIONS_PRESENT''))
          \<longleftrightarrow> (\<forall>c \<in> set ?ls. rb_min_supporting rb \<le> int (kind_count ''supporting'' (co_id c) spans)
                \<and> kind_count ''contradictory'' (co_id c) spans = 0)"
        using settle_contradicted [of rb] by (auto simp: settle_status)
      ultimately show ?thesis using fu
        unfolding st requirementStatus_def Let_def linked_to_def [symmetric] by simp
    qed
    have eq: "f = report_requirement cs (results_by (ag_competencies (Aggregate rb cs spans))) spans q"
      if "(q, f) \<in> set (zip qs report)" for q f
      using that by (auto simp: assms MapRequirements_def in_set_zip)
    show ?thesis using body [OF eq] by (intro ballI) (simp only: split_paired_all prod.case)
  qed
qed

definition ex_job :: job_requirement where
  "ex_job = \<lparr>jr_id = ''j'', jr_text = ''Proven performance, at scale''\<rparr>"

lemma ex_link: "namePhraseIn ''performance'' ''Proven performance, at scale''"
  by code_simp

theorem requirement_status_of_record_witness:
  "\<exists>f. MapRequirements [ex_job] (si_competencies ex_input)
      (ag_competencies (Aggregate ex_rubric (si_competencies ex_input) [ex_stored])) [ex_stored] = [f]
     \<and> rf_status f = ''evidenced'' \<and> rf_evidence_ids f = [''e1'']"
proof -
  let ?rep = "MapRequirements [ex_job] (si_competencies ex_input)
      (ag_competencies (Aggregate ex_rubric (si_competencies ex_input) [ex_stored])) [ex_stored]"
  obtain f where f: "?rep = [f]" by (simp add: MapRequirements_def)
  have "about ''perf'' [ex_stored] = [ex_stored]" "kind_count ''supporting'' ''perf'' [ex_stored] = 1"
    "kind_count ''contradictory'' ''perf'' [ex_stored] = 0"
    by (simp_all add: about_def kind_count_def ex_stored_def ex_span_def)
  with requirement_status_of_record [of ?rep "[ex_job]" "si_competencies ex_input" ex_rubric "[ex_stored]"] f
  have st: "mset (rf_evidence_ids f) = {#''e1''#}" "rf_status f = ''evidenced''"
    by (auto simp: Let_def ex_link ex_job_def ex_input_def ex_rubric_def ex_stored_def)
  then have "rf_evidence_ids f = [''e1'']" by (metis mset_single_iff)
  with st(2) f show ?thesis by (intro exI [of _ f] conjI)
qed

end
