(* ===== verification/Transcript.thy ===== *)
theory Transcript
  imports Interview_Tables
begin

text \<open>
  \<open>services/platform/internal/interview/transcript.go\<close> and \<open>timing.go\<close>: when a transcript segment can
  serve as evidence (\<open>validateTranscriptPayload\<close>), how a replayed timeline is assembled into the
  transcript, corrections over originals (\<open>AssembleTranscript\<close> after its replay, \<open>EffectiveText\<close>), and
  how long the interview was (\<open>ActiveSeconds\<close>).
\<close>

definition segment_final :: string where "segment_final = ''transcript.segment.final''"
definition segment_corrected :: string where "segment_corrected = ''transcript.segment.corrected''"

section \<open>Segments that can serve as evidence\<close>

datatype segment_refusal =
    UndecodablePayload
  | UnknownSpeaker string
  | NoText
  | NotASpan int int
  | ConfidenceOutside
  | FinalSupersedes
  | NoWordTiming
  | WordOutside nat
  | WordConfidenceOutside nat
  | CorrectionNamesNothing

definition check_word :: "transcript_payload \<Rightarrow> nat \<Rightarrow> transcript_word \<Rightarrow> segment_refusal option" where
  "check_word p i w =
     (if tw_word w = '''' \<or> tw_start w < tr_start p \<or> tw_end w > tr_end p \<or> tw_end w \<le> tw_start w
      then Some (WordOutside i)
      else if tw_confidence w < 0 \<or> tw_confidence w > 1 then Some (WordConfidenceOutside i) else None)"

definition validateTranscriptPayload :: "string \<Rightarrow> control_payload \<Rightarrow> segment_refusal option" where
  "validateTranscriptPayload ty raw =
     (case py_segment raw of
        None \<Rightarrow> Some UndecodablePayload
      | Some p \<Rightarrow>
          (if tr_speaker p \<noteq> ''candidate'' \<and> tr_speaker p \<noteq> ''interviewer'' then Some (UnknownSpeaker (tr_speaker p))
           else if tr_text p = '''' then Some NoText
           else if tr_start p < 0 \<or> tr_end p \<le> tr_start p then Some (NotASpan (tr_start p) (tr_end p))
           else if tr_confidence p < 0 \<or> tr_confidence p > 1 then Some ConfidenceOutside
           else if ty = segment_final then
             (if tr_supersedes p \<noteq> 0 then Some FinalSupersedes
              else if tr_words p = [] then Some NoWordTiming
              else first_error_at (check_word p) 0 (tr_words p))
           else if ty = segment_corrected then
             (if tr_supersedes p < 1 then Some CorrectionNamesNothing else None)
           else None))"

section \<open>Assembling\<close>

record segment =
  sg_epoch :: int
  sg_sequence :: int
  sg_type :: string
  sg_speaker :: string
  sg_text :: string
  sg_start :: int
  sg_end :: int
  sg_confidence :: real
  sg_words :: "transcript_word list"
  sg_superseded :: bool
  sg_corrected_by :: int
  sg_supersedes :: int

record transcript =
  ts_segments :: "segment list"
  ts_orphans :: "int list"

definition EffectiveText :: "transcript \<Rightarrow> segment list" where
  "EffectiveText t = filter (\<lambda>s. \<not> sg_superseded s) (ts_segments t)"

definition segment_of :: "control_event \<Rightarrow> transcript_payload \<Rightarrow> segment" where
  "segment_of e p =
     \<lparr>sg_epoch = cv_epoch e, sg_sequence = cv_sequence e, sg_type = cv_type e, sg_speaker = tr_speaker p,
      sg_text = tr_text p, sg_start = tr_start p, sg_end = tr_end p, sg_confidence = tr_confidence p,
      sg_words = tr_words p, sg_superseded = False, sg_corrected_by = 0, sg_supersedes = tr_supersedes p\<rparr>"

text \<open>The loop's variables: the segments so far, the originals by epoch and sequence, the orphans.\<close>

record assembly =
  as_segments :: "segment list"
  as_index :: "int \<times> int \<rightharpoonup> nat"
  as_orphans :: "int list"

definition superseded_by :: "int \<Rightarrow> segment \<Rightarrow> segment" where
  "superseded_by q s = s\<lparr>sg_superseded := True, sg_corrected_by := q\<rparr>"

text \<open>
  The correction marks its target, and every other correction of the same target held so far.
\<close>

definition mark_corrected :: "nat \<Rightarrow> control_event \<Rightarrow> transcript_payload \<Rightarrow> segment list \<Rightarrow> segment list" where
  "mark_corrected target e p ss =
     map (\<lambda>s. if sg_type s = segment_corrected \<and> sg_supersedes s = tr_supersedes p
                \<and> sg_epoch s = cv_epoch e \<and> sg_sequence s \<noteq> cv_sequence e
              then superseded_by (cv_sequence e) s else s)
       (ss[target := superseded_by (cv_sequence e) (ss ! target)])"

definition assemble_segment :: "control_event \<Rightarrow> transcript_payload \<Rightarrow> assembly \<Rightarrow> assembly" where
  "assemble_segment e p a =
     (if cv_type e = segment_corrected then
        (case as_index a (cv_epoch e, tr_supersedes p) of
           None \<Rightarrow> a\<lparr>as_orphans := as_orphans a @ [cv_sequence e], as_segments := as_segments a @ [segment_of e p]\<rparr>
         | Some target \<Rightarrow>
             a\<lparr>as_segments := mark_corrected target e p (as_segments a) @ [segment_of e p]\<rparr>)
      else
        a\<lparr>as_index := (as_index a)((cv_epoch e, cv_sequence e) \<mapsto> length (as_segments a)),
          as_segments := as_segments a @ [segment_of e p]\<rparr>)"

fun assemble_events :: "control_event list \<Rightarrow> assembly \<Rightarrow> interview_error + assembly" where
  "assemble_events [] a = Inr a"
| "assemble_events (e # es) a =
     (if cv_type e \<noteq> segment_final \<and> cv_type e \<noteq> segment_corrected then assemble_events es a
      else case py_segment (cv_payload e) of
        None \<Rightarrow> Inl (CorruptSegment (cv_id e))
      | Some p \<Rightarrow> assemble_events es (assemble_segment e p a))"

definition assemble :: "control_event list \<Rightarrow> interview_error + transcript" where
  "assemble es =
     bindE (assemble_events es \<lparr>as_segments = [], as_index = Map.empty, as_orphans = []\<rparr>)
       (\<lambda>a. Inr \<lparr>ts_segments = sort_key (\<lambda>s. (sg_epoch s, sg_sequence s)) (as_segments a), ts_orphans = as_orphans a\<rparr>)"

section \<open>Active time\<close>

text \<open>The zero value of the bounds stands for an epoch not seen, as the Go map answers it.\<close>

definition widen :: "segment \<Rightarrow> (int \<rightharpoonup> int \<times> int) \<Rightarrow> (int \<rightharpoonup> int \<times> int)" where
  "widen s m =
     (let b = (case m (sg_epoch s) of None \<Rightarrow> (0, 0) | Some b \<Rightarrow> b);
          first = (if m (sg_epoch s) = None \<or> sg_start s < fst b then sg_start s else fst b);
          last = (if sg_end s > snd b then sg_end s else snd b) in
      m(sg_epoch s \<mapsto> (first, last)))"

text \<open>Go ranges over the map of bounds in any order: the order is an argument. Division truncates.\<close>

definition total_of :: "(int \<rightharpoonup> int \<times> int) \<Rightarrow> int list \<Rightarrow> int" where
  "total_of m order =
     sum_list (map (\<lambda>e. case m e of Some (f, l) \<Rightarrow> (if l > f then l - f else 0) | None \<Rightarrow> 0) order)"

definition trunc_div :: "int \<Rightarrow> int \<Rightarrow> int" where
  "trunc_div a b = sgn a * sgn b * (\<bar>a\<bar> div \<bar>b\<bar>)"

definition ActiveSeconds :: "segment list \<Rightarrow> int" where
  "ActiveSeconds ss =
     trunc_div (total_of (fold widen ss Map.empty) (remdups (map sg_epoch ss))) 1000"

section \<open>What assembly keeps and what it supersedes\<close>

definition is_segment :: "control_event \<Rightarrow> bool" where
  "is_segment e \<longleftrightarrow> cv_type e = segment_final \<or> cv_type e = segment_corrected"

definition said :: "control_event \<Rightarrow> transcript_payload" where
  "said e = the (py_segment (cv_payload e))"

definition event_key :: "control_event \<Rightarrow> int \<times> int" where
  "event_key e = (cv_epoch e, cv_sequence e)"

text \<open>The correction at \<open>j\<close> finds its original: a final segment of its epoch stands before it.\<close>

definition finds_original :: "control_event list \<Rightarrow> nat \<Rightarrow> bool" where
  "finds_original xs j \<longleftrightarrow>
     (\<exists>i < j. cv_type (xs ! i) = segment_final \<and> event_key (xs ! i) = (cv_epoch (xs ! j), tr_supersedes (said (xs ! j))))"

text \<open>The correction at \<open>j\<close> replaces what stands at \<open>i\<close>: its original, or an earlier correction of it.\<close>

definition replaces :: "control_event list \<Rightarrow> nat \<Rightarrow> nat \<Rightarrow> bool" where
  "replaces xs j i \<longleftrightarrow> i < j \<and> j < length xs \<and> cv_type (xs ! j) = segment_corrected \<and> finds_original xs j
     \<and> cv_epoch (xs ! i) = cv_epoch (xs ! j)
     \<and> (if cv_type (xs ! i) = segment_corrected then tr_supersedes (said (xs ! i)) = tr_supersedes (said (xs ! j))
        else cv_sequence (xs ! i) = tr_supersedes (said (xs ! j)))"

definition replaced_by :: "control_event list \<Rightarrow> nat \<Rightarrow> int" where
  "replaced_by xs i = (if \<exists>j. replaces xs j i then cv_sequence (xs ! Max {j. replaces xs j i}) else 0)"

definition assembled_segment :: "control_event list \<Rightarrow> nat \<Rightarrow> segment" where
  "assembled_segment xs i =
     (segment_of (xs ! i) (said (xs ! i)))\<lparr>sg_superseded := (\<exists>j. replaces xs j i), sg_corrected_by := replaced_by xs i\<rparr>"

lemma segment_types [simp]: "segment_final \<noteq> segment_corrected" "segment_corrected \<noteq> segment_final"
  by (simp_all add: segment_final_def segment_corrected_def)

lemma finds_original_append: "j < length xs \<Longrightarrow> finds_original (xs @ ys) j = finds_original xs j"
  by (simp add: finds_original_def nth_append cong: conj_cong)

lemma replaces_append: "j < length xs \<Longrightarrow> replaces (xs @ ys) j i = replaces xs j i"
  by (simp add: replaces_def finds_original_append nth_append cong: conj_cong)

lemma replaces_bound: "replaces xs j i \<Longrightarrow> i < j \<and> j < length xs"
  by (simp add: replaces_def)

lemma finite_replaces: "finite {j. replaces xs j i}"
  by (rule finite_subset [of _ "{..< length xs}"]) (auto dest: replaces_bound)

lemma replaces_snoc:
  "replaces (xs @ [e]) j i \<longleftrightarrow> replaces xs j i \<or> (j = length xs \<and> replaces (xs @ [e]) (length xs) i)"
proof (cases "j < length xs")
  case True
  then show ?thesis by (simp add: replaces_append)
next
  case False
  then have "\<not> replaces xs j i" using replaces_bound [of xs j i] by blast
  moreover have "replaces (xs @ [e]) j i \<Longrightarrow> j = length xs"
    using replaces_bound [of "xs @ [e]" j i] False by simp
  ultimately show ?thesis by blast
qed

lemma replaced_snoc:
  "(\<exists>j. replaces (xs @ [e]) j i) \<longleftrightarrow> (\<exists>j. replaces xs j i) \<or> replaces (xs @ [e]) (length xs) i"
  using replaces_snoc by blast

lemma replaced_by_snoc:
  "replaced_by (xs @ [e]) i =
     (if replaces (xs @ [e]) (length xs) i then cv_sequence e else replaced_by xs i)"
proof (cases "replaces (xs @ [e]) (length xs) i")
  case True
  then have "Max {j. replaces (xs @ [e]) j i} = length xs"
    by (intro Max_eqI finite_replaces) (auto dest: replaces_bound)
  with True show ?thesis by (auto simp: replaced_by_def)
next
  case False
  then have same: "replaces (xs @ [e]) j i \<longleftrightarrow> replaces xs j i" for j using replaces_snoc by blast
  have "Max {j. replaces xs j i} < length xs" if "replaces xs j i" for j
    using Max_in [OF finite_replaces] that by (force dest: replaces_bound)
  then show ?thesis using False by (auto simp: replaced_by_def same nth_append)
qed

lemma assembled_snoc:
  "i < length xs \<Longrightarrow> assembled_segment (xs @ [e]) i =
     (if replaces (xs @ [e]) (length xs) i then superseded_by (cv_sequence e) (assembled_segment xs i)
      else assembled_segment xs i)"
  by (simp add: assembled_segment_def replaced_by_snoc superseded_by_def replaced_snoc nth_append)

lemma assembled_last: "assembled_segment (xs @ [e]) (length xs) = segment_of e (said e)"
proof -
  have "\<not> replaces (xs @ [e]) j (length xs)" for j using replaces_bound [of "xs @ [e]" j "length xs"] by auto
  then show ?thesis by (simp add: assembled_segment_def replaced_by_def segment_of_def)
qed

text \<open>The loop's invariant after the segments \<open>xs\<close>.\<close>

definition assembled :: "control_event list \<Rightarrow> assembly \<Rightarrow> bool" where
  "assembled xs a \<longleftrightarrow> as_segments a = map (assembled_segment xs) [0..<length xs]
     \<and> (\<forall>k i. as_index a k = Some i \<longleftrightarrow> i < length xs \<and> cv_type (xs ! i) = segment_final \<and> event_key (xs ! i) = k)
     \<and> as_orphans a = map (\<lambda>j. cv_sequence (xs ! j))
         (filter (\<lambda>j. cv_type (xs ! j) = segment_corrected \<and> \<not> finds_original xs j) [0..<length xs])"

lemma orphans_snoc:
  "map (\<lambda>j. cv_sequence ((xs @ [e]) ! j))
      (filter (\<lambda>j. cv_type ((xs @ [e]) ! j) = segment_corrected \<and> \<not> finds_original (xs @ [e]) j) [0..<length xs])
   = map (\<lambda>j. cv_sequence (xs ! j)) (filter (\<lambda>j. cv_type (xs ! j) = segment_corrected \<and> \<not> finds_original xs j) [0..<length xs])"
proof -
  have "filter (\<lambda>j. cv_type ((xs @ [e]) ! j) = segment_corrected \<and> \<not> finds_original (xs @ [e]) j) [0..<length xs]
      = filter (\<lambda>j. cv_type (xs ! j) = segment_corrected \<and> \<not> finds_original xs j) [0..<length xs]"
    by (rule filter_cong) (auto simp: finds_original_append nth_append)
  then show ?thesis by (auto simp: nth_append)
qed

lemma assembled_fields [simp]:
  "sg_type (assembled_segment xs i) = cv_type (xs ! i)" "sg_epoch (assembled_segment xs i) = cv_epoch (xs ! i)"
  "sg_sequence (assembled_segment xs i) = cv_sequence (xs ! i)"
  "sg_supersedes (assembled_segment xs i) = tr_supersedes (said (xs ! i))"
  by (simp_all add: assembled_segment_def segment_of_def)

lemma superseded_fields [simp]:
  "sg_type (superseded_by q s) = sg_type s" "sg_epoch (superseded_by q s) = sg_epoch s"
  "sg_sequence (superseded_by q s) = sg_sequence s" "sg_supersedes (superseded_by q s) = sg_supersedes s"
  by (simp_all add: superseded_by_def)

lemma distinct_key_eq:
  "distinct (map event_key xs) \<Longrightarrow> i < length xs \<Longrightarrow> j < length xs \<Longrightarrow> event_key (xs ! i) = event_key (xs ! j) \<Longrightarrow> i = j"
  by (metis distinct_conv_nth length_map nth_map)

lemma replaces_last_corrected:
  assumes "i < length xs" and "cv_type e = segment_corrected"
  shows "replaces (xs @ [e]) (length xs) i \<longleftrightarrow> finds_original (xs @ [e]) (length xs)
    \<and> cv_epoch (xs ! i) = cv_epoch e
    \<and> (if cv_type (xs ! i) = segment_corrected then tr_supersedes (said (xs ! i)) = tr_supersedes (said e)
       else cv_sequence (xs ! i) = tr_supersedes (said e))"
  using assms by (auto simp: replaces_def nth_append)

lemma finds_last:
  "finds_original (xs @ [e]) (length xs) \<longleftrightarrow>
     (\<exists>i < length xs. cv_type (xs ! i) = segment_final \<and> event_key (xs ! i) = (cv_epoch e, tr_supersedes (said e)))"
  by (simp add: finds_original_def nth_append cong: conj_cong)

lemma marked_segments:
  assumes "\<forall>x \<in> set xs. is_segment x" and "distinct (map event_key (xs @ [e]))" and "cv_type e = segment_corrected"
    and "target < length xs" "cv_type (xs ! target) = segment_final"
    and "event_key (xs ! target) = (cv_epoch e, tr_supersedes (said e))"
  shows "mark_corrected target e (said e) (map (assembled_segment xs) [0..<length xs])
    = map (assembled_segment (xs @ [e])) [0..<length xs]"
proof (rule nth_equalityI)
  fix i assume "i < length (mark_corrected target e (said e) (map (assembled_segment xs) [0..<length xs]))"
  then have i: "i < length xs" by (simp add: mark_corrected_def)
  have found: "finds_original (xs @ [e]) (length xs)" using assms(4-6) finds_last by blast
  have tgt: "i = target \<longleftrightarrow> cv_type (xs ! i) \<noteq> segment_corrected \<and> cv_epoch (xs ! i) = cv_epoch e
      \<and> cv_sequence (xs ! i) = tr_supersedes (said e)"
  proof
    assume "cv_type (xs ! i) \<noteq> segment_corrected \<and> cv_epoch (xs ! i) = cv_epoch e
      \<and> cv_sequence (xs ! i) = tr_supersedes (said e)"
    then have "event_key (xs ! i) = event_key (xs ! target)" using assms(6) by (simp add: event_key_def)
    with distinct_key_eq [of xs i target] assms(2,4) i show "i = target" by simp
  qed (use assms(5,6) in \<open>simp add: event_key_def\<close>)
  have other: "cv_sequence (xs ! i) \<noteq> cv_sequence e" if "cv_epoch (xs ! i) = cv_epoch e"
  proof -
    have "event_key e \<notin> event_key ` set xs" using assms(2) by simp
    then have "event_key (xs ! i) \<noteq> event_key e" using i by (metis image_eqI nth_mem)
    then show ?thesis using that by (simp add: event_key_def)
  qed
  have "replaces (xs @ [e]) (length xs) i \<longleftrightarrow> i = target \<or> (cv_type (xs ! i) = segment_corrected
      \<and> tr_supersedes (said (xs ! i)) = tr_supersedes (said e) \<and> cv_epoch (xs ! i) = cv_epoch e)"
    using tgt found by (auto simp: replaces_last_corrected [OF i assms(3)])
  then show "mark_corrected target e (said e) (map (assembled_segment xs) [0..<length xs]) ! i
      = map (assembled_segment (xs @ [e])) [0..<length xs] ! i"
    using i other assms(4) tgt
    by (auto simp: mark_corrected_def assembled_snoc nth_list_update)
qed (simp add: mark_corrected_def)

lemma assembled_step:
  assumes "assembled xs a" and "\<forall>x \<in> set (xs @ [e]). is_segment x" and "distinct (map event_key (xs @ [e]))"
  shows "assembled (xs @ [e]) (assemble_segment e (said e) a)"
proof -
  have segs: "as_segments a = map (assembled_segment xs) [0..<length xs]"
    and idx: "\<And>k i. as_index a k = Some i \<longleftrightarrow> i < length xs \<and> cv_type (xs ! i) = segment_final \<and> event_key (xs ! i) = k"
    and orph: "as_orphans a = map (\<lambda>j. cv_sequence (xs ! j))
         (filter (\<lambda>j. cv_type (xs ! j) = segment_corrected \<and> \<not> finds_original xs j) [0..<length xs])"
    using assms(1) by (auto simp: assembled_def)
  have new: "map (assembled_segment (xs @ [e])) [0..<length (xs @ [e])]
      = map (assembled_segment (xs @ [e])) [0..<length xs] @ [segment_of e (said e)]"
    by (simp add: assembled_last)
  have keep: "map (assembled_segment (xs @ [e])) [0..<length xs] = map (assembled_segment xs) [0..<length xs]"
    if "\<And>i. \<not> replaces (xs @ [e]) (length xs) i"
    using that by (simp add: assembled_snoc)
  have orphs: "map (\<lambda>j. cv_sequence ((xs @ [e]) ! j))
      (filter (\<lambda>j. cv_type ((xs @ [e]) ! j) = segment_corrected \<and> \<not> finds_original (xs @ [e]) j) [0..<length (xs @ [e])])
      = as_orphans a @ (if cv_type e = segment_corrected \<and> \<not> finds_original (xs @ [e]) (length xs) then [cv_sequence e] else [])"
    using orphans_snoc [of xs e] by (simp add: orph)
  have old: "(\<exists>i. as_index a k = Some i) \<longleftrightarrow> (\<exists>i < length xs. cv_type (xs ! i) = segment_final \<and> event_key (xs ! i) = k)" for k
    using idx by blast
  show ?thesis
  proof (cases "cv_type e = segment_corrected")
    case True
    have idx': "as_index a k = Some i \<longleftrightarrow> i < length (xs @ [e]) \<and> cv_type ((xs @ [e]) ! i) = segment_final
        \<and> event_key ((xs @ [e]) ! i) = k" for k i
      using idx [of k i] True by (auto simp: nth_append less_Suc_eq)
    show ?thesis
    proof (cases "as_index a (cv_epoch e, tr_supersedes (said e))")
      case None
      then have "\<not> finds_original (xs @ [e]) (length xs)" using old finds_last by (metis option.distinct(1))
      moreover from this have "\<not> replaces (xs @ [e]) (length xs) i" for i by (simp add: replaces_def)
      moreover have "assemble_segment e (said e) a = a\<lparr>as_orphans := as_orphans a @ [cv_sequence e],
          as_segments := as_segments a @ [segment_of e (said e)]\<rparr>"
        by (simp add: assemble_segment_def True None)
      ultimately show ?thesis using True keep segs orphs new idx' by (simp add: assembled_def)
    next
      case (Some target)
      with idx have t: "target < length xs" "cv_type (xs ! target) = segment_final"
        "event_key (xs ! target) = (cv_epoch e, tr_supersedes (said e))" by auto
      then have "finds_original (xs @ [e]) (length xs)" using finds_last by blast
      moreover have "\<forall>x \<in> set xs. is_segment x" using assms(2) by simp
      moreover have "assemble_segment e (said e) a
          = a\<lparr>as_segments := mark_corrected target e (said e) (as_segments a) @ [segment_of e (said e)]\<rparr>"
        by (simp add: assemble_segment_def True Some)
      ultimately show ?thesis
        using marked_segments [OF _ assms(3) True t] segs orphs new idx' by (simp add: assembled_def)
    qed
  next
    case False
    then have fin: "cv_type e = segment_final" using assms(2) by (simp add: is_segment_def)
    have "as_index (assemble_segment e (said e) a) k = Some i \<longleftrightarrow> i < length (xs @ [e])
        \<and> cv_type ((xs @ [e]) ! i) = segment_final \<and> event_key ((xs @ [e]) ! i) = k" for k i
    proof -
      have "event_key e \<notin> event_key ` set xs" using assms(3) by simp
      then have "event_key (xs ! i) \<noteq> event_key e" if "i < length xs" using that by (metis image_eqI nth_mem)
      then show ?thesis using fin idx [of k i] segs
        by (auto simp: assemble_segment_def nth_append less_Suc_eq event_key_def)
    qed
    moreover have "\<not> replaces (xs @ [e]) (length xs) i" for i using False by (simp add: replaces_def)
    ultimately show ?thesis using False keep segs orphs new
      by (simp add: assembled_def) (simp add: assemble_segment_def)
  qed
qed

lemma assemble_events_assembled:
  assumes "assembled xs a" and "\<forall>x \<in> set xs. is_segment x"
    and "distinct (map event_key (xs @ filter is_segment es))"
    and "\<forall>e \<in> set es. is_segment e \<longrightarrow> py_segment (cv_payload e) \<noteq> None"
  shows "\<exists>a'. assemble_events es a = Inr a' \<and> assembled (xs @ filter is_segment es) a'"
  using assms
proof (induction es arbitrary: xs a)
  case (Cons e es)
  show ?case
  proof (cases "is_segment e")
    case True
    then obtain p where p: "py_segment (cv_payload e) = Some p" using Cons.prems(4) by auto
    then have said: "said e = p" by (simp add: said_def)
    have "\<forall>x \<in> set (xs @ [e]). is_segment x" and "distinct (map event_key (xs @ [e]))"
      using Cons.prems(2,3) True by auto
    from assembled_step [OF Cons.prems(1) this]
    have "assembled (xs @ [e]) (assemble_segment e p a)" unfolding said .
    from Cons.IH [OF this] Cons.prems(2-4) True p show ?thesis by (auto simp: is_segment_def)
  qed (use Cons in \<open>auto simp: is_segment_def\<close>)
qed simp

lemma assembled_empty: "assembled [] \<lparr>as_segments = [], as_index = Map.empty, as_orphans = []\<rparr>"
  by (simp add: assembled_def)

text \<open>The timeline's one order, as \<open>Replay\<close> answers it.\<close>

definition timeline :: "control_event list \<Rightarrow> bool" where
  "timeline es \<longleftrightarrow> sorted_wrt (<) (map event_key es)"

lemma timeline_segments: "timeline es \<Longrightarrow> sorted_wrt (<) (map event_key (filter is_segment es))"
  by (simp add: timeline_def sorted_wrt_map sorted_wrt_filter)

lemma strict_distinct: "sorted_wrt (<) (xs :: 'a::linorder list) \<Longrightarrow> distinct xs \<and> sorted xs"
  by (simp add: strict_sorted_iff)

lemma assemble_timeline:
  assumes "timeline es" and "\<forall>e \<in> set es. is_segment e \<longrightarrow> py_segment (cv_payload e) \<noteq> None"
    and "xs = filter is_segment es"
  shows "assemble es = Inr \<lparr>ts_segments = map (assembled_segment xs) [0..<length xs],
    ts_orphans = map (\<lambda>j. cv_sequence (xs ! j))
      (filter (\<lambda>j. cv_type (xs ! j) = segment_corrected \<and> \<not> finds_original xs j) [0..<length xs])\<rparr>"
proof -
  have order: "distinct (map event_key xs)" "sorted (map event_key xs)"
    using timeline_segments [OF assms(1)] strict_distinct unfolding assms(3) by blast+
  obtain a where a: "assemble_events es \<lparr>as_segments = [], as_index = Map.empty, as_orphans = []\<rparr> = Inr a" "assembled xs a"
    using assemble_events_assembled [OF assembled_empty _ _ assms(2)] order(1) assms(3) by auto
  have "map (\<lambda>s. (sg_epoch s, sg_sequence s)) (as_segments a) = map event_key xs"
    using a(2) by (intro nth_equalityI) (simp_all add: assembled_def event_key_def)
  then have "sort_key (\<lambda>s. (sg_epoch s, sg_sequence s)) (as_segments a) = as_segments a"
    using order(2) by (simp add: sorted_sort_id sort_key_id_if_sorted)
  with a show ?thesis by (simp add: assemble_def assembled_def)
qed

lemma later_correction_replaces:
  assumes "replaces xs j i" "cv_type (xs ! i) = segment_final" and "replaces xs k i" "j < k"
  shows "replaces xs k j"
  using assms by (auto simp: replaces_def)

lemma latest_correction_stands:
  assumes "cv_type (xs ! i) = segment_final" and "replaces xs j i"
  shows "\<nexists>k. replaces xs k (Max {j. replaces xs j i})"
proof
  let ?m = "Max {j. replaces xs j i}"
  have m: "replaces xs ?m i" using Max_in [OF finite_replaces] assms(2) by blast
  assume "\<exists>k. replaces xs k ?m"
  then obtain k where k: "replaces xs k ?m" by blast
  with m assms(1) have "replaces xs k i" by (auto simp: replaces_def)
  then have "k \<le> ?m" by (simp add: finite_replaces)
  with replaces_bound [OF k] show False by simp
qed

text \<open>Nothing said is lost and the latest correction wins. From a timeline whose segments decode, the
  transcript holds every final and corrected segment once, in timeline order, in the speaker's words and
  on the room's clock as they were received; an original is superseded exactly when some correction of its
  epoch that names it follows, it then points to the last of them, that one stands in the effective text,
  and every earlier correction of it is superseded too; and the corrections listed as orphans are exactly
  those whose original does not stand before them.\<close>

theorem latest_correction_wins:
  assumes "timeline es" and "\<forall>e \<in> set es. is_segment e \<longrightarrow> py_segment (cv_payload e) \<noteq> None"
    and "xs = filter is_segment es"
  shows "\<exists>t. assemble es = Inr t \<and> length (ts_segments t) = length xs
    \<and> (\<forall>i < length xs. let s = ts_segments t ! i; p = said (xs ! i) in
         (sg_epoch s, sg_sequence s) = event_key (xs ! i) \<and> sg_speaker s = tr_speaker p \<and> sg_text s = tr_text p
         \<and> sg_start s = tr_start p \<and> sg_end s = tr_end p \<and> sg_words s = tr_words p)
    \<and> (\<forall>i < length xs. cv_type (xs ! i) = segment_final \<longrightarrow>
         (sg_superseded (ts_segments t ! i) \<longleftrightarrow> (\<exists>j. replaces xs j i))
         \<and> (sg_superseded (ts_segments t ! i) \<longrightarrow>
              (let last = Max {j. replaces xs j i} in
               sg_corrected_by (ts_segments t ! i) = cv_sequence (xs ! last)
               \<and> \<not> sg_superseded (ts_segments t ! last)
               \<and> (\<forall>j. replaces xs j i \<and> j \<noteq> last \<longrightarrow> sg_superseded (ts_segments t ! j)))))
    \<and> ts_orphans t = map cv_sequence (map (nth xs)
        (filter (\<lambda>j. cv_type (xs ! j) = segment_corrected \<and> \<not> finds_original xs j) [0..<length xs]))"
proof -
  let ?t = "\<lparr>ts_segments = map (assembled_segment xs) [0..<length xs],
    ts_orphans = map (\<lambda>j. cv_sequence (xs ! j))
      (filter (\<lambda>j. cv_type (xs ! j) = segment_corrected \<and> \<not> finds_original xs j) [0..<length xs])\<rparr>"
  have corrected: "(sg_superseded (ts_segments ?t ! i) \<longleftrightarrow> (\<exists>j. replaces xs j i))
      \<and> (sg_superseded (ts_segments ?t ! i) \<longrightarrow>
           (let last = Max {j. replaces xs j i} in
            sg_corrected_by (ts_segments ?t ! i) = cv_sequence (xs ! last)
            \<and> \<not> sg_superseded (ts_segments ?t ! last)
            \<and> (\<forall>j. replaces xs j i \<and> j \<noteq> last \<longrightarrow> sg_superseded (ts_segments ?t ! j))))"
    if i: "i < length xs" "cv_type (xs ! i) = segment_final" for i
  proof (intro conjI impI)
    show iff: "sg_superseded (ts_segments ?t ! i) \<longleftrightarrow> (\<exists>j. replaces xs j i)"
      using i by (simp add: assembled_segment_def)
    let ?m = "Max {j. replaces xs j i}"
    assume "sg_superseded (ts_segments ?t ! i)"
    then obtain j where j: "replaces xs j i" using iff by blast
    have m: "replaces xs ?m i" using Max_in [OF finite_replaces] j by blast
    have "replaces xs ?m k" if "replaces xs k i" "k \<noteq> ?m" for k
      using that later_correction_replaces [OF that(1) i(2) m] Max_ge [OF finite_replaces, of k xs i] by fastforce
    then have "sg_superseded (ts_segments ?t ! k)" if "replaces xs k i" "k \<noteq> ?m" for k
      using that replaces_bound [OF that(1)] by (auto simp: assembled_segment_def)
    then show "let last = Max {j. replaces xs j i} in
        sg_corrected_by (ts_segments ?t ! i) = cv_sequence (xs ! last)
        \<and> \<not> sg_superseded (ts_segments ?t ! last)
        \<and> (\<forall>j. replaces xs j i \<and> j \<noteq> last \<longrightarrow> sg_superseded (ts_segments ?t ! j))"
      using i j latest_correction_stands [OF i(2) j] replaces_bound [OF m]
      by (auto simp: Let_def assembled_segment_def replaced_by_def dest: replaces_bound)
  qed
  have "let s = ts_segments ?t ! i; p = said (xs ! i) in
      (sg_epoch s, sg_sequence s) = event_key (xs ! i) \<and> sg_speaker s = tr_speaker p \<and> sg_text s = tr_text p
      \<and> sg_start s = tr_start p \<and> sg_end s = tr_end p \<and> sg_words s = tr_words p" if "i < length xs" for i
    using that by (simp add: Let_def assembled_segment_def segment_of_def event_key_def)
  with corrected assemble_timeline [OF assms] show ?thesis by (intro exI [of _ ?t]) (simp add: comp_def)
qed

definition ex_payload :: "string \<Rightarrow> int \<Rightarrow> control_payload" where
  "ex_payload body supersedes = \<lparr>py_valid = True,
     py_segment = Some \<lparr>tr_speaker = ''candidate'', tr_text = body, tr_start = 0, tr_end = 1500, tr_confidence = 1,
       tr_words = [], tr_supersedes = supersedes\<rparr>, py_interruption = None\<rparr>"

definition ex_spoken :: "int \<Rightarrow> int \<Rightarrow> string \<Rightarrow> string \<Rightarrow> int \<Rightarrow> control_event" where
  "ex_spoken epoch q ty body supersedes = \<lparr>cv_id = ty, cv_epoch = epoch, cv_sequence = q, cv_type = ty,
     cv_payload = ex_payload body supersedes, cv_occurred_at = 0\<rparr>"

definition ex_timeline :: "control_event list" where
  "ex_timeline = [ex_spoken 1 1 segment_final ''we shard it'' 0, ex_spoken 1 2 segment_corrected ''we shared it'' 1,
     ex_spoken 1 3 segment_corrected ''we sharded it'' 1]"

lemma ex_timeline_said:
  "timeline ex_timeline" "filter is_segment ex_timeline = ex_timeline"
  "\<forall>e \<in> set ex_timeline. is_segment e \<longrightarrow> py_segment (cv_payload e) \<noteq> None"
  by (simp_all add: timeline_def ex_timeline_def ex_spoken_def event_key_def ex_payload_def is_segment_def less_prod_def)

theorem latest_correction_wins_witness:
  "\<exists>t. assemble ex_timeline = Inr t \<and> map sg_text (EffectiveText t) = [''we sharded it'']
     \<and> sg_corrected_by (ts_segments t ! 0) = 3"
proof -
  have r: "replaces ex_timeline j 0 \<longleftrightarrow> j = 1 \<or> j = 2" for j
    by (auto simp: replaces_def finds_original_def ex_timeline_def ex_spoken_def event_key_def said_def ex_payload_def
        less_Suc_eq nth_Cons' numeral_2_eq_2)
  then have m: "Max {j. replaces ex_timeline j 0} = 2" by (simp add: Collect_disj_eq)
  obtain t where t: "assemble ex_timeline = Inr t"
    and sup: "\<forall>i < length ex_timeline. cv_type (ex_timeline ! i) = segment_final \<longrightarrow>
         (sg_superseded (ts_segments t ! i) \<longleftrightarrow> (\<exists>j. replaces ex_timeline j i))
         \<and> (sg_superseded (ts_segments t ! i) \<longrightarrow>
              (let last = Max {j. replaces ex_timeline j i} in
               sg_corrected_by (ts_segments t ! i) = cv_sequence (ex_timeline ! last)
               \<and> \<not> sg_superseded (ts_segments t ! last)
               \<and> (\<forall>j. replaces ex_timeline j i \<and> j \<noteq> last \<longrightarrow> sg_superseded (ts_segments t ! j))))"
    using latest_correction_wins [OF ex_timeline_said(1,3) ex_timeline_said(2) [symmetric]]
    by (elim exE conjE) (rule that)
  have n: "0 < length ex_timeline" "cv_type (ex_timeline ! 0) = segment_final" "cv_sequence (ex_timeline ! 2) = 3"
    by (simp_all add: ex_timeline_def ex_spoken_def)
  have "sg_superseded (ts_segments t ! 0)" using sup [rule_format, OF n(1,2)] r by blast
  then have "sg_corrected_by (ts_segments t ! 0) = 3"
    using sup [rule_format, OF n(1,2)] m n(3) by (simp add: Let_def)
  moreover have "map_sum id (\<lambda>t. map sg_text (EffectiveText t)) (assemble ex_timeline) = Inr [''we sharded it'']"
    by (simp add: assemble_def assemble_segment_def ex_timeline_def ex_spoken_def ex_payload_def segment_of_def
        EffectiveText_def less_eq_prod_def less_prod_def mark_corrected_def superseded_by_def)
  ultimately show ?thesis using t by simp
qed

text \<open>
  A correction is looked up in its own epoch.  One that arrives after a reconnection therefore never
  finds the original it names, and both texts stand in the effective transcript.
\<close>

lemma correction_after_reconnect_is_orphaned:
  "map_sum id (\<lambda>t. (map sg_text (EffectiveText t), ts_orphans t))
     (assemble [ex_spoken 1 1 segment_final ''we shard it'' 0, ex_spoken 2 1 segment_corrected ''we sharded it'' 1])
   = Inr ([''we shard it'', ''we sharded it''], [1])"
  by (simp add: assemble_def assemble_segment_def ex_spoken_def ex_payload_def segment_of_def EffectiveText_def
      less_eq_prod_def less_prod_def)

section \<open>Active time, epoch by epoch\<close>

definition in_epoch :: "segment list \<Rightarrow> int \<Rightarrow> segment set" where
  "in_epoch ss e = {s \<in> set ss. sg_epoch s = e}"

definition on_clock :: "segment \<Rightarrow> bool" where
  "on_clock s \<longleftrightarrow> 0 \<le> sg_start s \<and> sg_start s < sg_end s"

lemma in_epoch_snoc: "in_epoch (ss @ [s]) e = (if sg_epoch s = e then insert s (in_epoch ss e) else in_epoch ss e)"
  by (auto simp: in_epoch_def)

lemma finite_in_epoch [simp]: "finite (in_epoch ss e)"
  by (simp add: in_epoch_def)

lemma fold_widen:
  assumes "\<forall>s \<in> set ss. on_clock s"
  shows "fold widen ss Map.empty e =
    (if in_epoch ss e = {} then None else Some (Min (sg_start ` in_epoch ss e), Max (sg_end ` in_epoch ss e)))"
  using assms
proof (induction ss rule: rev_induct)
  case Nil
  then show ?case by (simp add: in_epoch_def)
next
  case (snoc s ss)
  then have s: "0 < sg_end s" by (simp add: on_clock_def)
  from snoc have IH: "fold widen ss Map.empty e =
    (if in_epoch ss e = {} then None else Some (Min (sg_start ` in_epoch ss e), Max (sg_end ` in_epoch ss e)))" by simp
  define m where "m = fold widen ss Map.empty"
  have m: "fold widen (ss @ [s]) Map.empty = widen s m" by (simp add: m_def)
  note IH = IH [folded m_def]
  show ?case
  proof (cases "sg_epoch s = e")
    case True
    show ?thesis
    proof (cases "in_epoch ss e = {}")
      case none: True
      then show ?thesis unfolding m using IH True s by (simp add: in_epoch_snoc widen_def Let_def)
    next
      case False
      define lo hi where "lo = Min (sg_start ` in_epoch ss e)" and "hi = Max (sg_end ` in_epoch ss e)"
      have "m e = Some (lo, hi)" using IH False by (simp add: lo_def hi_def)
      then have "widen s m e = Some (min (sg_start s) lo, max (sg_end s) hi)"
        by (simp add: widen_def Let_def True min_def max_def)
      moreover have "Min (sg_start ` insert s (in_epoch ss e)) = min (sg_start s) lo"
        unfolding image_insert lo_def by (rule Min_insert) (simp_all add: False)
      moreover have "Max (sg_end ` insert s (in_epoch ss e)) = max (sg_end s) hi"
        unfolding image_insert hi_def by (rule Max_insert) (simp_all add: False)
      ultimately show ?thesis unfolding m in_epoch_snoc using True by (simp del: image_insert)
    qed
  next
    case False
    with IH show ?thesis unfolding m by (simp add: in_epoch_snoc widen_def Let_def)
  qed
qed

lemma in_epoch_span:
  assumes "\<forall>s \<in> set ss. on_clock s" and "e \<in> sg_epoch ` set ss"
  shows "in_epoch ss e \<noteq> {} \<and> Min (sg_start ` in_epoch ss e) < Max (sg_end ` in_epoch ss e)"
proof -
  obtain s where s: "s \<in> in_epoch ss e" using assms(2) by (auto simp: in_epoch_def)
  then have "Min (sg_start ` in_epoch ss e) \<le> sg_start s" "sg_end s \<le> Max (sg_end ` in_epoch ss e)" by simp_all
  moreover have "sg_start s < sg_end s" using s assms(1) by (simp add: in_epoch_def on_clock_def)
  ultimately have "Min (sg_start ` in_epoch ss e) < Max (sg_end ` in_epoch ss e)" by linarith
  then show ?thesis using s by blast
qed

text \<open>Reconnecting costs the candidate nothing. For segments that are spans of the room clock, the active
  time is the sum over the connection epochs of the time from the first word of the epoch to its last,
  in whole seconds: the gap between two epochs never counts, the order of the segments and the order in
  which Go visits the map of epochs do not matter, and it is never negative.\<close>

theorem active_time_is_epoch_spans:
  assumes "\<forall>s \<in> set ss. on_clock s"
  shows "ActiveSeconds ss =
      (\<Sum>e \<in> sg_epoch ` set ss. Max (sg_end ` in_epoch ss e) - Min (sg_start ` in_epoch ss e)) div 1000
    \<and> 0 \<le> ActiveSeconds ss
    \<and> (\<forall>order. distinct order \<and> set order = sg_epoch ` set ss \<longrightarrow>
         trunc_div (total_of (fold widen ss Map.empty) order) 1000 = ActiveSeconds ss)"
proof -
  let ?span = "\<lambda>e. Max (sg_end ` in_epoch ss e) - Min (sg_start ` in_epoch ss e)"
  let ?sum = "\<Sum>e \<in> sg_epoch ` set ss. ?span e"
  have total: "total_of (fold widen ss Map.empty) order = ?sum"
    if "distinct order" "set order = sg_epoch ` set ss" for order
  proof -
    have "total_of (fold widen ss Map.empty) order = sum_list (map ?span order)"
      unfolding total_of_def
      by (intro arg_cong [where f = sum_list] map_cong)
        (use in_epoch_span [OF assms] that(2) in \<open>auto simp: fold_widen [OF assms]\<close>)
    then show ?thesis using that by (simp add: sum_list_distinct_conv_sum_set)
  qed
  have nonneg: "0 \<le> ?sum" using in_epoch_span [OF assms] by (intro sum_nonneg) (simp add: less_imp_le)
  then have "trunc_div ?sum 1000 = ?sum div 1000" by (auto simp: trunc_div_def sgn_if)
  moreover have "ActiveSeconds ss = trunc_div ?sum 1000"
    using total [of "remdups (map sg_epoch ss)"] by (simp add: ActiveSeconds_def)
  ultimately show ?thesis using total nonneg by simp
qed

definition ex_segment :: "int \<Rightarrow> int \<Rightarrow> int \<Rightarrow> segment" where
  "ex_segment epoch b e = \<lparr>sg_epoch = epoch, sg_sequence = 1, sg_type = segment_final, sg_speaker = ''candidate'',
     sg_text = ''x'', sg_start = b, sg_end = e, sg_confidence = 1, sg_words = [], sg_superseded = False,
     sg_corrected_by = 0, sg_supersedes = 0\<rparr>"

definition ex_segments :: "segment list" where
  "ex_segments = [ex_segment 1 0 4000, ex_segment 1 5000 9000, ex_segment 2 90000 91500]"

lemma ex_segments_spans:
  "sg_epoch ` set ex_segments = {1, 2}" "sg_start ` in_epoch ex_segments 1 = {0, 5000}"
  "sg_end ` in_epoch ex_segments 1 = {4000, 9000}" "sg_start ` in_epoch ex_segments 2 = {90000}"
  "sg_end ` in_epoch ex_segments 2 = {91500}"
  by (force simp: ex_segments_def in_epoch_def ex_segment_def)+

theorem active_time_is_epoch_spans_witness: "ActiveSeconds ex_segments = 10"
proof -
  have "\<forall>s \<in> set ex_segments. on_clock s" by (simp add: on_clock_def ex_segment_def ex_segments_def)
  from active_time_is_epoch_spans [OF this] show ?thesis by (simp add: ex_segments_spans)
qed

end
