(* ===== verification/Control_Events.thy ===== *)
theory Control_Events
  imports Session_Store Transcript
begin

text \<open>
  \<open>services/platform/internal/interview/events.go\<close> and \<open>interruption.go\<close>: the control event protocol.
  Connection attempts open epochs (\<open>BeginAttempt\<close>), batches of events land in the slots of the current
  epoch (\<open>Ingest\<close> for the browser, \<open>IngestAsService\<close> for the agent), the contiguous cursor and the gaps
  are computed from the slots held (\<open>cursor\<close>), and the accepted connection lifecycle is folded into the
  session machine after the events commit.  The batch is one transaction; the transitions of the fold
  are transactions of their own, between which others may act: what they do is an argument.
\<close>

section \<open>The vocabulary\<close>

definition durableEventTypes :: "string list" where
  "durableEventTypes =
     [''connection.established'', ''connection.degraded'', ''connection.lost'', ''connection.resumed'',
      ''device.microphone'', ''transcript.segment.final'', ''transcript.segment.corrected'', ''turn.boundary'',
      ''interruption'', ''preference.captions'', ''preference.push_to_talk'', ''session.leave'']"

definition ephemeralEventTypes :: "string list" where
  "ephemeralEventTypes = [''transcript.segment.partial'', ''device.input_level'']"

definition conversationalEventTypes :: "string list" where
  "conversationalEventTypes =
     [''transcript.segment.partial'', ''transcript.segment.final'', ''transcript.segment.corrected'',
      ''turn.boundary'', ''interruption'']"

record event_outcome =
  eo_event :: string
  eo_status :: string
  eo_reason :: string

record acknowledgment =
  ak_epoch :: int
  ak_accepted :: int
  ak_missing :: "sequence_range list"
  ak_outcomes :: "event_outcome list"

section \<open>Attempts and epochs\<close>

definition SupersedeAttempts :: "row_scope \<Rightarrow> string \<Rightarrow> time \<Rightarrow> interview_db \<Rightarrow> interview_db" where
  "SupersedeAttempts sc i now db =
     db\<lparr>db_attempts := map (\<lambda>a. if ref_session (am_ref a) = i \<and> visible sc (am_ref a) \<and> am_superseded a = None
        then a\<lparr>am_superseded := Some now\<rparr> else a) (db_attempts db)\<rparr>"

text \<open>A constraint holds of every row, whoever sees it: one attempt for each epoch of a session.\<close>

definition attempt_key :: "attempt_row \<Rightarrow> string \<times> int" where
  "attempt_key a = (ref_session (am_ref a), am_epoch a)"

definition InsertAttempt :: "row_scope \<Rightarrow> attempt_row \<Rightarrow> interview_db \<Rightarrow> interview_error + interview_db" where
  "InsertAttempt sc a db =
     (if visible sc (am_ref a) \<and> ref_ok (am_ref a) \<and> am_epoch a \<ge> 1
        \<and> ref_session (am_ref a) \<in> se_id ` set (db_sessions db)
        \<and> attempt_key a \<notin> attempt_key ` set (db_attempts db)
      then Inr (db\<lparr>db_attempts := db_attempts db @ [a]\<rparr>) else Inl DatabaseRefused)"

definition AdvanceSessionEpoch :: "row_scope \<Rightarrow> string \<Rightarrow> int \<Rightarrow> interview_db \<Rightarrow> nat \<times> interview_db" where
  "AdvanceSessionEpoch sc i epoch db =
     update_sessions sc i (\<lambda>r. se_epoch r < epoch) (\<lambda>r. r\<lparr>se_epoch := epoch, se_accepted := 0\<rparr>) db"

definition BeginAttempt :: "session \<Rightarrow> time \<Rightarrow> interview_db \<Rightarrow> interview_error + int \<times> interview_db" where
  "BeginAttempt s now db =
     (case scope_of (se_ref s) of
        None \<Rightarrow> Inl EmptyScope
      | Some sc \<Rightarrow>
          (let epoch = se_epoch s + 1 in
           bindE (InsertAttempt sc \<lparr>am_ref = se_ref s, am_epoch = to_int32 epoch, am_superseded = None\<rparr>
               (SupersedeAttempts sc (se_id s) now db))
             (\<lambda>db. case AdvanceSessionEpoch sc (se_id s) (to_int32 epoch) db of
                (moved, db') \<Rightarrow> if moved = 0 then Inl EpochStale else Inr (epoch, db'))))"

section \<open>Interruptions\<close>

definition validCauses :: "string list" where
  "validCauses = [''connection_lost'', ''device_failure'', ''candidate_left'', ''grace_expired'']"

definition parseInterruptionPayload :: "control_payload \<Rightarrow> interview_error + interruption_payload" where
  "parseInterruptionPayload raw =
     (case py_interruption raw of
        None \<Rightarrow> Inl (Unavailable ''decoding the interruption'')
      | Some p \<Rightarrow>
          (if ip_cause p \<notin> set validCauses then Inl (UnknownCause (ip_cause p))
           else if ip_duration p < 0 then Inl (Unavailable ''an interruption cannot have negative duration'')
           else Inr p))"

text \<open>The policies of the interruptions: a tenant's, or a candidate's own whatever the mode.\<close>

definition interruption_visible :: "row_scope \<Rightarrow> session_ref \<Rightarrow> bool" where
  "interruption_visible sc r =
     (case sc of
        AsUser u \<Rightarrow> ref_candidate r = u
      | AsTenant t \<Rightarrow> ref_tenant r \<noteq> '''' \<and> ref_tenant r = t)"

definition InsertInterruption ::
  "row_scope \<Rightarrow> interruption_row \<Rightarrow> interview_db \<Rightarrow> interview_error + interview_db" where
  "InsertInterruption sc r db =
     (if interruption_visible sc (ir_ref r) \<and> ir_cause r \<in> set validCauses \<and> ir_duration r \<ge> 0 \<and> ir_epoch r \<ge> 0
        \<and> ref_session (ir_ref r) \<in> se_id ` set (db_sessions db) \<and> ir_id r \<notin> ir_id ` set (db_interruptions db)
      then Inr (db\<lparr>db_interruptions := db_interruptions db @ [r]\<rparr>) else Inl DatabaseRefused)"

definition recordInterruptionIn ::
  "row_scope \<Rightarrow> session \<Rightarrow> string \<Rightarrow> int \<Rightarrow> actor \<Rightarrow> string \<Rightarrow> time \<Rightarrow> interview_db \<Rightarrow> interview_error + interview_db" where
  "recordInterruptionIn sc s cause duration actor iid now db =
     (let d = (if duration < 0 then 0 else duration) in
      bindE (InsertInterruption sc \<lparr>ir_id = iid, ir_ref = se_ref s, ir_cause = cause, ir_duration = to_int32 d,
          ir_epoch = to_int32 (se_epoch s), ir_occurred_at = now\<rparr> db)
        (audit sc s actor ''interview.session_interrupted'' ''allowed''))"

definition in_flight :: "state \<Rightarrow> bool" where
  "in_flight st \<longleftrightarrow> st = StateInProgress \<or> st = StateReconnecting"

definition RecordInterruption ::
  "session \<Rightarrow> string \<Rightarrow> int \<Rightarrow> actor \<Rightarrow> string \<Rightarrow> time \<Rightarrow> interview_db
     \<Rightarrow> interview_error + interruption_row \<times> interview_db" where
  "RecordInterruption s cause duration actor iid now db =
     (if cause \<notin> set validCauses then Inl (UnknownCause cause)
      else if \<not> in_flight (se_state s) then Inl (NotInterruptible (se_state s))
      else (let d = (if duration < 0 then 0 else duration) in
        case scope_of (se_ref s) of
          None \<Rightarrow> Inl EmptyScope
        | Some sc \<Rightarrow>
            bindE (recordInterruptionIn sc s cause d actor iid now db)
              (\<lambda>db'. Inr (\<lparr>ir_id = iid, ir_ref = se_ref s, ir_cause = cause, ir_duration = d,
                 ir_epoch = se_epoch s, ir_occurred_at = now\<rparr>, db'))))"

definition Interruptions :: "session_ref \<Rightarrow> interview_db \<Rightarrow> interview_error + interruption_row list" where
  "Interruptions ref db =
     (case scope_of ref of
        None \<Rightarrow> Inl EmptyScope
      | Some sc \<Rightarrow> Inr (sort_key ir_occurred_at
          (filter (\<lambda>r. ref_session (ir_ref r) = ref_session ref \<and> interruption_visible sc (ir_ref r))
            (db_interruptions db))))"

section \<open>Landing one event\<close>

text \<open>What the insert answers: the row is stored, a unique constraint is violated, or it fails otherwise.\<close>

datatype insert_result = Stored interview_db | UniqueViolation | StoreFailed

definition slot_of :: "control_row \<Rightarrow> string \<times> int \<times> int" where
  "slot_of r = (ref_session (ce_ref r), cv_epoch (ce_event r), cv_sequence (ce_event r))"

abbreviation row_id :: "control_row \<Rightarrow> string" where
  "row_id r \<equiv> cv_id (ce_event r)"

definition InsertControlEvent :: "row_scope \<Rightarrow> control_row \<Rightarrow> interview_db \<Rightarrow> insert_result" where
  "InsertControlEvent sc r db =
     (if \<not> (visible sc (ce_ref r) \<and> ref_ok (ce_ref r) \<and> py_valid (cv_payload (ce_event r))
            \<and> cv_epoch (ce_event r) \<ge> 1 \<and> cv_sequence (ce_event r) \<ge> 1)
      then StoreFailed
      else if row_id r \<in> row_id ` set (db_events db) \<or> slot_of r \<in> slot_of ` set (db_events db)
      then UniqueViolation
      else if ref_session (ce_ref r) \<notin> se_id ` set (db_sessions db) then StoreFailed
      else Stored (db\<lparr>db_events := db_events db @ [r]\<rparr>))"

definition ControlEventExists :: "row_scope \<Rightarrow> string \<Rightarrow> interview_db \<Rightarrow> bool" where
  "ControlEventExists sc i db \<longleftrightarrow> (\<exists>r \<in> set (db_events db). row_id r = i \<and> visible sc (ce_ref r))"

abbreviation accepted :: "control_event \<Rightarrow> event_outcome" where
  "accepted e \<equiv> \<lparr>eo_event = cv_id e, eo_status = ''accepted'', eo_reason = ''''\<rparr>"

abbreviation refused :: "control_event \<Rightarrow> string \<Rightarrow> event_outcome" where
  "refused e why \<equiv> \<lparr>eo_event = cv_id e, eo_status = ''refused'', eo_reason = why\<rparr>"

text \<open>The checks \<open>apply\<close> makes before it stores: the reason of a refusal, none when the event may be stored.\<close>

definition refusal :: "session \<Rightarrow> control_event \<Rightarrow> string option" where
  "refusal s e =
     (if cv_type e \<notin> set durableEventTypes then Some ''EVENT_TYPE_UNKNOWN''
      else if cv_sequence e < 1 then Some ''SEQUENCE_INVALID''
      else if (cv_type e = segment_final \<or> cv_type e = segment_corrected)
        \<and> validateTranscriptPayload (cv_type e) (cv_payload e) \<noteq> None then Some ''TRANSCRIPT_INVALID''
      else if cv_type e = ''interruption'' \<and> \<not> is_ok (parseInterruptionPayload (cv_payload e))
      then Some ''INTERRUPTION_INVALID''
      else if cv_type e = ''interruption'' \<and> \<not> in_flight (se_state s) then Some ''INTERRUPTION_NOT_IN_FLIGHT''
      else None)"

definition stored_row :: "session \<Rightarrow> control_event \<Rightarrow> control_row" where
  "stored_row s e = \<lparr>ce_ref = se_ref s,
     ce_event = e\<lparr>cv_epoch := to_int32 (se_epoch s), cv_sequence := to_int32 (cv_sequence e)\<rparr>\<rparr>"

text \<open>The savepoint: the event and, for an interruption, its fact and audit row, together or not at all.\<close>

definition apply_event ::
  "row_scope \<Rightarrow> session \<Rightarrow> control_event \<Rightarrow> actor \<Rightarrow> string \<Rightarrow> time \<Rightarrow> interview_db
     \<Rightarrow> event_outcome \<times> interview_db" where
  "apply_event sc s e actor iid now db =
     (if cv_type e \<in> set ephemeralEventTypes then (accepted e, db)
      else case refusal s e of
        Some why \<Rightarrow> (refused e why, db)
      | None \<Rightarrow>
          (case InsertControlEvent sc (stored_row s e) db of
             Stored db1 \<Rightarrow>
               (if cv_type e = ''interruption'' then
                  (case parseInterruptionPayload (cv_payload e) of
                     Inl _ \<Rightarrow> (refused e ''INTERRUPTION_INVALID'', db)
                   | Inr p \<Rightarrow>
                       (case recordInterruptionIn sc s (ip_cause p) (ip_duration p) actor iid now db1 of
                          Inl _ \<Rightarrow> (refused e ''EVENT_STORE_FAILED'', db)
                        | Inr db2 \<Rightarrow> (accepted e, db2)))
                else (accepted e, db1))
           | UniqueViolation \<Rightarrow>
               (if ControlEventExists sc (cv_id e) db
                then (\<lparr>eo_event = cv_id e, eo_status = ''duplicate'', eo_reason = ''''\<rparr>, db)
                else (refused e ''SEQUENCE_CONFLICT'', db))
           | StoreFailed \<Rightarrow> (refused e ''EVENT_STORE_FAILED'', db)))"

section \<open>The cursor and the replay\<close>

definition held_rows :: "row_scope \<Rightarrow> string \<Rightarrow> interview_db \<Rightarrow> control_event list" where
  "held_rows sc i db =
     map ce_event (filter (\<lambda>r. ref_session (ce_ref r) = i \<and> visible sc (ce_ref r)) (db_events db))"

definition StoredSequences :: "row_scope \<Rightarrow> string \<Rightarrow> int \<Rightarrow> interview_db \<Rightarrow> int list" where
  "StoredSequences sc i epoch db =
     sort (map cv_sequence (filter (\<lambda>e. cv_epoch e = to_int32 epoch) (held_rows sc i db)))"

text \<open>The loop's variables are the contiguous cursor, the gaps so far and the sequence expected next.\<close>

fun cursor_loop :: "int list \<Rightarrow> int \<Rightarrow> sequence_range list \<Rightarrow> int \<Rightarrow> int \<times> sequence_range list" where
  "cursor_loop [] acc missing expected = (acc, missing)"
| "cursor_loop (s # stored) acc missing expected =
     (let missing' = (if s > expected then missing @ [(expected, s - 1)] else missing);
          acc' = (if s = acc + 1 \<and> missing' = [] then s else acc) in
      cursor_loop stored acc' missing' (s + 1))"

definition cursor :: "row_scope \<Rightarrow> string \<Rightarrow> int \<Rightarrow> interview_db \<Rightarrow> int \<times> sequence_range list" where
  "cursor sc i epoch db = cursor_loop (StoredSequences sc i epoch db) 0 [] 1"

definition CursorOf :: "session \<Rightarrow> int \<Rightarrow> interview_db \<Rightarrow> interview_error + int \<times> sequence_range list" where
  "CursorOf s epoch db =
     (case scope_of (se_ref s) of None \<Rightarrow> Inl EmptyScope | Some sc \<Rightarrow> Inr (cursor sc (se_id s) epoch db))"

definition Replay :: "session_ref \<Rightarrow> int \<Rightarrow> int \<Rightarrow> interview_db \<Rightarrow> interview_error + control_event list" where
  "Replay ref after_epoch after_sequence db =
     (case scope_of ref of
        None \<Rightarrow> Inl EmptyScope
      | Some sc \<Rightarrow> bindE (get sc (ref_session ref) db)
          (\<lambda>_. Inr (sort_key event_key
             (filter (\<lambda>e. event_key e > (to_int32 after_epoch, to_int32 after_sequence))
               (held_rows sc (ref_session ref) db)))))"

definition AssembleTranscript :: "session_ref \<Rightarrow> interview_db \<Rightarrow> interview_error + transcript" where
  "AssembleTranscript ref db = bindE (Replay ref 0 0 db) assemble"

section \<open>Ingesting a batch\<close>

fun assign_slots :: "int \<Rightarrow> int \<Rightarrow> control_event list \<Rightarrow> control_event list" where
  "assign_slots epoch nxt [] = []"
| "assign_slots epoch nxt (e # es) =
     (if cv_type e \<in> set ephemeralEventTypes
      then e\<lparr>cv_epoch := epoch, cv_sequence := 0\<rparr> # assign_slots epoch nxt es
      else e\<lparr>cv_epoch := epoch, cv_sequence := nxt\<rparr> # assign_slots epoch (nxt + 1) es)"

definition sealed_in :: "row_scope \<Rightarrow> string \<Rightarrow> interview_db \<Rightarrow> bool" where
  "sealed_in sc i db \<longleftrightarrow> (\<exists>r \<in> set (db_seals db). ref_session (sl_ref r) = i \<and> visible sc (sl_ref r))"

definition folds :: "control_event \<Rightarrow> event_outcome \<Rightarrow> bool" where
  "folds e out \<longleftrightarrow> eo_status out = ''accepted''
     \<and> cv_type e \<in> {''connection.established'', ''connection.resumed'', ''connection.lost''}"

text \<open>The batch in order: the outcomes, the connection lifecycle it accepted, the database.  The identifiers
  drawn for interruptions are the argument \<open>iid\<close>, by position.\<close>

fun ingest_events ::
  "row_scope \<Rightarrow> session \<Rightarrow> bool \<Rightarrow> actor \<Rightarrow> (nat \<Rightarrow> string) \<Rightarrow> time \<Rightarrow> nat \<Rightarrow> control_event list \<Rightarrow> interview_db
     \<Rightarrow> event_outcome list \<times> string list \<times> interview_db" where
  "ingest_events sc s sealed actor iid now n [] db = ([], [], db)"
| "ingest_events sc s sealed actor iid now n (e # es) db =
     (if sealed \<and> cv_type e \<in> set conversationalEventTypes then
        (case ingest_events sc s sealed actor iid now (Suc n) es db of
           (outs, life, db') \<Rightarrow> (refused e ''EVENT_AFTER_SEAL'' # outs, life, db'))
      else
        (case apply_event sc s e actor (iid n) now db of (out, db1) \<Rightarrow>
           (case ingest_events sc s sealed actor iid now (Suc n) es db1 of
              (outs, life, db') \<Rightarrow> (out # outs, (if folds e out then cv_type e # life else life), db'))))"

definition PersistCursor :: "row_scope \<Rightarrow> string \<Rightarrow> int \<Rightarrow> int \<Rightarrow> interview_db \<Rightarrow> interview_db" where
  "PersistCursor sc i epoch acc db =
     snd (update_sessions sc i (\<lambda>r. se_epoch r = to_int32 epoch \<and> se_accepted r < to_int32 acc)
       (\<lambda>r. r\<lparr>se_accepted := to_int32 acc\<rparr>) db)"

record ingested =
  ig_session :: session
  ig_epoch :: int
  ig_lifecycle :: "string list"
  ig_outcomes :: "event_outcome list"
  ig_accepted :: int
  ig_missing :: "sequence_range list"

text \<open>The first transaction of \<open>ingest\<close>, up to its commit.\<close>

definition ingest_batch ::
  "session_ref \<Rightarrow> int \<Rightarrow> control_event list \<Rightarrow> bool \<Rightarrow> (nat \<Rightarrow> string) \<Rightarrow> time \<Rightarrow> interview_db
     \<Rightarrow> interview_error + ingested \<times> interview_db" where
  "ingest_batch ref epoch events assign iid now db =
     (case scope_of ref of
        None \<Rightarrow> Inl EmptyScope
      | Some sc \<Rightarrow> bindE (get sc (ref_session ref) db)
          (\<lambda>s.
             let i = ref_session ref;
                 ep = (if assign then se_epoch s else epoch);
                 stored = StoredSequences sc i ep db;
                 nxt = (if stored = [] then 1 else last stored + 1);
                 batch = (if assign then assign_slots ep nxt events else events);
                 actor = \<lparr>ac_id = ref_candidate ref, ac_type = (if assign then ''service'' else ''user'')\<rparr> in
             if se_epoch s = 0 then Inl NoAttempt
             else if \<not> assign \<and> epoch \<noteq> se_epoch s then Inl EpochStale
             else
               (case ingest_events sc s (sealed_in sc i db) actor iid now 0 batch db of
                  (outs, life, db1) \<Rightarrow>
                    (case cursor sc (se_id s) ep db1 of
                       (acc, missing) \<Rightarrow>
                         Inr (\<lparr>ig_session = s, ig_epoch = ep, ig_lifecycle = life, ig_outcomes = outs,
                                ig_accepted = acc, ig_missing = missing\<rparr>,
                              (if acc > se_accepted s then PersistCursor sc (se_id s) ep acc db1 else db1))))))"

definition connection_event :: "string \<Rightarrow> session \<Rightarrow> (string \<times> json) list \<Rightarrow> event" where
  "connection_event ty s kvs = session_event ty s \<lparr>ac_id = ref_candidate (se_ref s), ac_type = ''user''\<rparr> kvs"

definition interruptedEvent :: "session \<Rightarrow> event" where
  "interruptedEvent s = connection_event ''interview.session_interrupted.v1'' s
     [(''session_id'', JString (se_id s)), (''reason'', JString ''network''), (''resumable'', JBool True),
      (''attempt'', JInt (se_epoch s))]"

definition startedEvent :: "session \<Rightarrow> event" where
  "startedEvent s = connection_event ''interview.session_started.v1'' s
     [(''session_id'', JString (se_id s)), (''bundle_digest'', JString (se_bundle_digest s))]"

text \<open>Where one accepted lifecycle event takes the session, and what is announced with it.\<close>

definition fold_step :: "string \<Rightarrow> session \<Rightarrow> (state \<times> effects) option" where
  "fold_step kind s =
     (if kind \<in> {''connection.established'', ''connection.resumed''}
        \<and> se_state s \<in> {StateConnecting, StateReconnecting}
      then Some (StateInProgress, no_effects\<lparr>ef_event :=
             (if se_state s = StateConnecting then Some (startedEvent s) else None)\<rparr>)
      else if kind = ''connection.lost'' \<and> se_state s = StateInProgress
      then Some (StateReconnecting, no_effects\<lparr>ef_event := Some (interruptedEvent s)\<rparr>)
      else None)"

text \<open>Before the \<open>n\<close>-th transaction of the fold the others act as \<open>env n\<close> says; it also has the event's
  identifier and the time.\<close>

type_synonym fold_env = "nat \<Rightarrow> string \<times> time \<times> (interview_db \<Rightarrow> interview_db)"

fun fold_lifecycle ::
  "fold_env \<Rightarrow> actor \<Rightarrow> nat \<Rightarrow> string list \<Rightarrow> session \<Rightarrow> interview_db \<Rightarrow> interview_error option \<times> interview_db" where
  "fold_lifecycle env actor n [] s db = (None, db)"
| "fold_lifecycle env actor n (kind # kinds) s db =
     (case fold_step kind s of
        None \<Rightarrow> fold_lifecycle env actor n kinds s db
      | Some (to, ef) \<Rightarrow>
          (case env n of (eid, now, others) \<Rightarrow>
             (case Transition s to ef actor eid now (others db) of
                Inl SessionStale \<Rightarrow> (None, others db)
              | Inl err \<Rightarrow> (Some err, others db)
              | Inr (s', db') \<Rightarrow> fold_lifecycle env actor (Suc n) kinds s' db')))"

definition ingest ::
  "session_ref \<Rightarrow> int \<Rightarrow> control_event list \<Rightarrow> bool \<Rightarrow> (nat \<Rightarrow> string) \<Rightarrow> time \<Rightarrow> fold_env \<Rightarrow> interview_db
     \<Rightarrow> (interview_error + acknowledgment) \<times> interview_db" where
  "ingest ref epoch events assign iid now env db =
     (case ingest_batch ref epoch events assign iid now db of
        Inl err \<Rightarrow> (Inl err, db)
      | Inr (ig, db1) \<Rightarrow>
          (case fold_lifecycle env \<lparr>ac_id = ref_candidate ref, ac_type = (if assign then ''service'' else ''user'')\<rparr>
                  0 (ig_lifecycle ig) (ig_session ig) db1 of
             (Some err, db2) \<Rightarrow> (Inl err, db2)
           | (None, db2) \<Rightarrow>
               (Inr \<lparr>ak_epoch = ig_epoch ig, ak_accepted = ig_accepted ig, ak_missing = ig_missing ig,
                     ak_outcomes = ig_outcomes ig\<rparr>, db2)))"

definition Ingest where
  "Ingest ref epoch events iid now env db = ingest ref epoch events False iid now env db"

definition IngestAsService where
  "IngestAsService ref events iid now env db = ingest ref 0 events True iid now env db"

section \<open>The cursor is exact\<close>

fun gap_list :: "int \<Rightarrow> int list \<Rightarrow> sequence_range list" where
  "gap_list e [] = []"
| "gap_list e (s # ss) = (if s > e then [(e, s - 1)] else []) @ gap_list (s + 1) ss"

definition in_gaps :: "int \<Rightarrow> sequence_range list \<Rightarrow> bool" where
  "in_gaps k gaps \<longleftrightarrow> (\<exists>g \<in> set gaps. fst g \<le> k \<and> k \<le> snd g)"

definition gaps_apart :: "int \<Rightarrow> sequence_range list \<Rightarrow> bool" where
  "gaps_apart e gaps \<longleftrightarrow> sorted_wrt (\<lambda>g h. snd g + 1 < fst h) gaps \<and> (\<forall>g \<in> set gaps. e \<le> fst g \<and> fst g \<le> snd g)"

lemma in_gaps_Nil [simp]: "\<not> in_gaps k []" by (simp add: in_gaps_def)

lemma in_gaps_append [simp]: "in_gaps k (gs @ hs) \<longleftrightarrow> in_gaps k gs \<or> in_gaps k hs"
  by (auto simp: in_gaps_def)

lemma in_gaps_Cons [simp]: "in_gaps k (g # gs) \<longleftrightarrow> (fst g \<le> k \<and> k \<le> snd g) \<or> in_gaps k gs"
  by (auto simp: in_gaps_def)

lemma cursor_loop_missing: "snd (cursor_loop ss acc missing e) = missing @ gap_list e ss"
  by (induction ss arbitrary: acc missing e) (simp_all add: Let_def)

lemma cursor_loop_stuck: "missing \<noteq> [] \<Longrightarrow> fst (cursor_loop ss acc missing e) = acc"
  by (induction ss arbitrary: acc missing e) (simp_all add: Let_def)

lemma gap_list_covers:
  "sorted ss \<Longrightarrow> \<forall>s \<in> set ss. e - 1 \<le> s \<Longrightarrow>
     in_gaps k (gap_list e ss) \<longleftrightarrow> e \<le> k \<and> k \<notin> set ss \<and> (\<exists>h \<in> set ss. k < h)"
proof (induction ss arbitrary: e)
  case (Cons s ss)
  then have IH: "in_gaps k (gap_list (s + 1) ss) \<longleftrightarrow> s + 1 \<le> k \<and> k \<notin> set ss \<and> (\<exists>h \<in> set ss. k < h)" by simp
  show ?case
  proof (cases "k < s")
    case True
    with Cons.prems(1) have "k \<notin> set ss" by auto
    with True show ?thesis by (auto simp: IH)
  next
    case False
    with Cons.prems(2) show ?thesis by (auto simp: IH)
  qed
qed simp

lemma gap_list_bound: "g \<in> set (gap_list e ss) \<Longrightarrow> sorted ss \<Longrightarrow> \<forall>s \<in> set ss. e - 1 \<le> s \<Longrightarrow> e \<le> fst g \<and> fst g \<le> snd g"
proof (induction ss arbitrary: e)
  case (Cons s ss)
  show ?case
  proof (cases "g \<in> set (gap_list (s + 1) ss)")
    case True
    with Cons.IH [of "s + 1"] Cons.prems show ?thesis by force
  next
    case False
    with Cons.prems(1) show ?thesis by (auto split: if_splits)
  qed
qed simp

lemma gap_list_apart: "sorted ss \<Longrightarrow> \<forall>s \<in> set ss. e - 1 \<le> s \<Longrightarrow> gaps_apart e (gap_list e ss)"
proof (induction ss arbitrary: e)
  case (Cons s ss)
  then have "gaps_apart (s + 1) (gap_list (s + 1) ss)" by simp
  moreover have "e \<le> s + 1" using Cons.prems(2) by simp
  ultimately show ?case by (fastforce simp: gaps_apart_def)
qed (simp add: gaps_apart_def)

lemma cursor_loop_accepted:
  "sorted ss \<Longrightarrow> \<forall>s \<in> set ss. a \<le> s \<Longrightarrow> fst (cursor_loop ss a [] (a + 1)) = a'
     \<Longrightarrow> a \<le> a' \<and> (\<forall>k. a < k \<longrightarrow> k \<le> a' \<longrightarrow> k \<in> set ss) \<and> a' + 1 \<notin> set ss"
proof (induction ss arbitrary: a)
  case (Cons s ss)
  consider "s = a" | "s = a + 1" | "s > a + 1" using Cons.prems(2) by fastforce
  then show ?case
  proof cases
    case 1
    with Cons.IH [of a] Cons.prems show ?thesis by auto
  next
    case 2
    have "\<forall>x \<in> set ss. a + 1 \<le> x" "fst (cursor_loop ss (a + 1) [] (a + 1 + 1)) = a'"
      using Cons.prems 2 by (simp_all add: Let_def)
    with Cons.IH [of "a + 1"] Cons.prems(1)
    have IH: "a + 1 \<le> a'" "\<forall>k. a + 1 < k \<longrightarrow> k \<le> a' \<longrightarrow> k \<in> set ss" "a' + 1 \<notin> set ss" by auto
    moreover have "k \<in> set (s # ss)" if "a < k" "k \<le> a'" for k
      using IH(2) that 2 by (cases "k = a + 1") simp_all
    ultimately show ?thesis using 2 by simp
  next
    case 3
    then have "a' = a" using Cons.prems(3) by (simp add: Let_def cursor_loop_stuck)
    with 3 Cons.prems(1) show ?thesis by auto
  qed
qed simp

definition slots_positive :: "interview_db \<Rightarrow> bool" where
  "slots_positive db \<longleftrightarrow> (\<forall>r \<in> set (db_events db). 1 \<le> cv_sequence (ce_event r))"

lemma StoredSequences_positive: "slots_positive db \<Longrightarrow> q \<in> set (StoredSequences sc i epoch db) \<Longrightarrow> 1 \<le> q"
  by (auto simp: slots_positive_def StoredSequences_def held_rows_def)

text \<open>C6: The acknowledgment's cursor and gaps are exact. For a session and an epoch, everything from the first
  slot to the cursor is held and the next slot is not; a slot is in some reported gap exactly when it is
  below the highest slot held and not held itself; and the gaps are non-empty, in order, disjoint and not
  even adjacent, so the client resends what is owed and nothing else.\<close>

theorem cursor_is_exact:
  assumes "slots_positive db" and "cursor sc i epoch db = (acc, missing)"
  shows "0 \<le> acc
    \<and> (\<forall>k. 1 \<le> k \<longrightarrow> k \<le> acc \<longrightarrow> k \<in> set (StoredSequences sc i epoch db))
    \<and> acc + 1 \<notin> set (StoredSequences sc i epoch db)
    \<and> (\<forall>k. (\<exists>g \<in> set missing. fst g \<le> k \<and> k \<le> snd g) \<longleftrightarrow>
          1 \<le> k \<and> k \<notin> set (StoredSequences sc i epoch db) \<and> (\<exists>h \<in> set (StoredSequences sc i epoch db). k < h))
    \<and> sorted_wrt (\<lambda>g h. snd g + 1 < fst h) missing
    \<and> (\<forall>g \<in> set missing. 1 \<le> fst g \<and> fst g \<le> snd g)"
proof -
  let ?ss = "StoredSequences sc i epoch db"
  have sorted: "sorted ?ss" by (simp add: StoredSequences_def)
  have pos: "\<forall>s \<in> set ?ss. 0 \<le> s" "\<forall>s \<in> set ?ss. 1 - 1 \<le> s"
    using StoredSequences_positive [OF assms(1)] by force+
  from assms(2) have loop: "fst (cursor_loop ?ss 0 [] (0 + 1)) = acc" "missing = gap_list 1 ?ss"
    using cursor_loop_missing [of ?ss 0 "[]" 1] by (simp_all add: cursor_def)
  note accepted = cursor_loop_accepted [OF sorted pos(1) loop(1)]
  have contiguous: "\<forall>k. 1 \<le> k \<longrightarrow> k \<le> acc \<longrightarrow> k \<in> set ?ss" using accepted by simp
  have covers: "(\<exists>g \<in> set missing. fst g \<le> k \<and> k \<le> snd g) \<longleftrightarrow>
      1 \<le> k \<and> k \<notin> set ?ss \<and> (\<exists>h \<in> set ?ss. k < h)" for k
    unfolding loop(2) by (rule gap_list_covers [OF sorted pos(2), unfolded in_gaps_def])
  show ?thesis
    using accepted contiguous covers gap_list_apart [OF sorted pos(2)]
    unfolding loop(2) gaps_apart_def by blast
qed

definition ex_words :: control_payload where
  "ex_words = \<lparr>py_valid = True, py_segment = Some \<lparr>tr_speaker = ''candidate'', tr_text = ''yes'', tr_start = 0,
     tr_end = 900, tr_confidence = 1, tr_words = [\<lparr>tw_word = ''yes'', tw_start = 100, tw_end = 800, tw_confidence = 1\<rparr>],
     tr_supersedes = 0\<rparr>, py_interruption = None\<rparr>"

definition ex_event :: "string \<Rightarrow> int \<Rightarrow> string \<Rightarrow> control_event" where
  "ex_event i q ty = \<lparr>cv_id = i, cv_epoch = 1, cv_sequence = q, cv_type = ty, cv_payload = ex_words, cv_occurred_at = 0\<rparr>"

definition ex_control_row :: "int \<Rightarrow> string \<Rightarrow> control_row" where
  "ex_control_row q i = \<lparr>ce_ref = se_ref ex_session, ce_event = ex_event i q segment_final\<rparr>"

definition ex_control_db :: interview_db where
  "ex_control_db = ex_db\<lparr>db_sessions := [ex_session\<lparr>se_epoch := 1, se_state := StateInProgress\<rparr>],
     db_events := [ex_control_row 5 ''e5'', ex_control_row 1 ''e1'', ex_control_row 2 ''e2'']\<rparr>"

theorem cursor_is_exact_witness:
  "cursor (AsUser ''u1'') ''s1'' 1 ex_control_db = (2, [(3, 4)]) \<and> 3 \<notin> set (StoredSequences (AsUser ''u1'') ''s1'' 1 ex_control_db)"
proof -
  have "slots_positive ex_control_db" by code_simp
  moreover have "cursor (AsUser ''u1'') ''s1'' 1 ex_control_db = (2, [(3, 4)])" by code_simp
  ultimately show ?thesis using cursor_is_exact [of ex_control_db "AsUser ''u1''" "''s1''" 1 2 "[(3, 4)]"] by simp
qed

section \<open>What landing an event does\<close>

text \<open>What a batch may add, with everything else in its place.\<close>

definition batch_frame ::
  "interview_db \<Rightarrow> interview_db \<Rightarrow> control_row list \<Rightarrow> interruption_row list \<Rightarrow> audit_row list \<Rightarrow> bool" where
  "batch_frame db db' rows stops audits \<longleftrightarrow>
     db' = db\<lparr>db_events := db_events db @ rows, db_interruptions := db_interruptions db @ stops,
       db_audit := db_audit db @ audits\<rparr>"

definition may_store :: "session \<Rightarrow> control_event \<Rightarrow> bool" where
  "may_store s e \<longleftrightarrow> cv_type e \<notin> set ephemeralEventTypes \<and> refusal s e = None"

lemma batch_frame_refl: "batch_frame db db [] [] []"
  by (simp add: batch_frame_def)

lemma batch_frame_trans:
  "batch_frame db db1 r1 s1 a1 \<Longrightarrow> batch_frame db1 db2 r2 s2 a2 \<Longrightarrow> batch_frame db db2 (r1 @ r2) (s1 @ s2) (a1 @ a2)"
  by (simp add: batch_frame_def)

lemma InsertControlEvent_Stored:
  "InsertControlEvent sc r db = Stored db' \<longleftrightarrow>
     visible sc (ce_ref r) \<and> ref_ok (ce_ref r) \<and> py_valid (cv_payload (ce_event r))
     \<and> 1 \<le> cv_epoch (ce_event r) \<and> 1 \<le> cv_sequence (ce_event r)
     \<and> row_id r \<notin> row_id ` set (db_events db) \<and> slot_of r \<notin> slot_of ` set (db_events db)
     \<and> ref_session (ce_ref r) \<in> se_id ` set (db_sessions db) \<and> db' = db\<lparr>db_events := db_events db @ [r]\<rparr>"
  unfolding InsertControlEvent_def by (simp split: if_split) blast

text \<open>The interruption recorded with an event, and the audit row of it.\<close>

definition stops_of :: "session \<Rightarrow> control_event \<Rightarrow> string \<Rightarrow> time \<Rightarrow> interruption_row list" where
  "stops_of s e iid now =
     (if cv_type e \<noteq> ''interruption'' then []
      else case parseInterruptionPayload (cv_payload e) of
        Inl _ \<Rightarrow> []
      | Inr p \<Rightarrow> [\<lparr>ir_id = iid, ir_ref = se_ref s, ir_cause = ip_cause p, ir_duration = to_int32 (ip_duration p),
           ir_epoch = to_int32 (se_epoch s), ir_occurred_at = now\<rparr>])"

definition stop_audits :: "session \<Rightarrow> control_event \<Rightarrow> actor \<Rightarrow> audit_row list" where
  "stop_audits s e actor =
     (if cv_type e \<noteq> ''interruption'' then []
      else [\<lparr>au_tenant = ref_tenant (se_ref s), au_actor = actor, au_action = ''interview.session_interrupted'',
        au_session = se_id s, au_outcome = ''allowed''\<rparr>])"

lemma recordInterruptionIn_Inr:
  assumes "recordInterruptionIn sc s cause d actor iid now db = Inr db'" and "0 \<le> d"
  shows "cause \<in> set validCauses \<and> iid \<notin> ir_id ` set (db_interruptions db)
    \<and> batch_frame db db' [] [\<lparr>ir_id = iid, ir_ref = se_ref s, ir_cause = cause, ir_duration = to_int32 d,
        ir_epoch = to_int32 (se_epoch s), ir_occurred_at = now\<rparr>]
      [\<lparr>au_tenant = ref_tenant (se_ref s), au_actor = actor, au_action = ''interview.session_interrupted'',
        au_session = se_id s, au_outcome = ''allowed''\<rparr>]"
proof -
  from assms obtain db1 where i: "InsertInterruption sc \<lparr>ir_id = iid, ir_ref = se_ref s, ir_cause = cause,
      ir_duration = to_int32 d, ir_epoch = to_int32 (se_epoch s), ir_occurred_at = now\<rparr> db = Inr db1"
    and a: "audit sc s actor ''interview.session_interrupted'' ''allowed'' db1 = Inr db'"
    by (auto simp: recordInterruptionIn_def bindE_Inr)
  from i a show ?thesis
    by (auto simp: InsertInterruption_def batch_frame_def dest!: audit_Inr split: if_splits)
qed

lemma apply_event_cases:
  assumes "apply_event sc s e actor iid now db = (out, db')"
  shows "(db' = db \<and> (eo_status out = ''accepted'' \<longrightarrow> cv_type e \<in> set ephemeralEventTypes))
    \<or> (out = accepted e \<and> may_store s e
       \<and> InsertControlEvent sc (stored_row s e) db = Stored (db\<lparr>db_events := db_events db @ [stored_row s e]\<rparr>)
       \<and> batch_frame db db' [stored_row s e] (stops_of s e iid now) (stop_audits s e actor))"
proof (cases "may_store s e")
  case False
  with assms show ?thesis by (auto simp: apply_event_def may_store_def split: if_splits option.splits)
next
  case True
  then have may: "cv_type e \<notin> set ephemeralEventTypes" "refusal s e = None" by (simp_all add: may_store_def)
  show ?thesis
  proof (cases "InsertControlEvent sc (stored_row s e) db")
    case (Stored db1)
    then have db1: "db1 = db\<lparr>db_events := db_events db @ [stored_row s e]\<rparr>" by (simp add: InsertControlEvent_Stored)
    then have f1: "batch_frame db db1 [stored_row s e] [] []" by (simp add: batch_frame_def)
    show ?thesis
    proof (cases "cv_type e = ''interruption''")
      case False
      with assms Stored may f1 True db1 show ?thesis by (simp add: apply_event_def stops_of_def stop_audits_def)
    next
      case stop: True
      show ?thesis
      proof (cases "parseInterruptionPayload (cv_payload e)")
        case (Inl x)
        with assms Stored may stop show ?thesis by (auto simp: apply_event_def)
      next
        case (Inr p)
        then have d: "0 \<le> ip_duration p" by (auto simp: parseInterruptionPayload_def split: option.splits if_splits)
        show ?thesis
        proof (cases "recordInterruptionIn sc s (ip_cause p) (ip_duration p) actor iid now db1")
          case (Inl x)
          with assms Stored may stop Inr show ?thesis by (auto simp: apply_event_def)
        next
          case stored: (Inr db2)
          with assms Stored may stop Inr have "db' = db2" "out = accepted e" by (simp_all add: apply_event_def)
          moreover have "batch_frame db1 db2 [] (stops_of s e iid now) (stop_audits s e actor)"
            using recordInterruptionIn_Inr [OF stored d] Inr stop by (simp add: stops_of_def stop_audits_def)
          ultimately show ?thesis using batch_frame_trans [OF f1] Stored True db1 by fastforce
        qed
      qed
    qed
  next
    case UniqueViolation
    with assms may show ?thesis by (auto simp: apply_event_def split: if_splits)
  next
    case StoreFailed
    with assms may show ?thesis by (auto simp: apply_event_def)
  qed
qed

section \<open>The invariant of the control timeline\<close>

text \<open>
  Every stored event sits alone in a slot of an epoch its session has opened, under the session's own
  reference, and could serve as evidence when it was stored.
\<close>

definition evidence_row :: "control_event \<Rightarrow> bool" where
  "evidence_row e \<longleftrightarrow> 1 \<le> cv_epoch e \<and> 1 \<le> cv_sequence e \<and> cv_type e \<in> set durableEventTypes \<and> py_valid (cv_payload e)
     \<and> (is_segment e \<longrightarrow> validateTranscriptPayload (cv_type e) (cv_payload e) = None)
     \<and> (cv_type e = ''interruption'' \<longrightarrow> is_ok (parseInterruptionPayload (cv_payload e)))"

definition placed :: "session list \<Rightarrow> control_row \<Rightarrow> bool" where
  "placed ss r \<longleftrightarrow> (\<exists>s \<in> set ss. se_ref s = ce_ref r \<and> cv_epoch (ce_event r) \<le> se_epoch s)"

definition small_epoch :: "session \<Rightarrow> bool" where
  "small_epoch s \<longleftrightarrow> 0 \<le> se_epoch s \<and> se_epoch s < 2147483648"

definition control_ok :: "interview_db \<Rightarrow> bool" where
  "control_ok db \<longleftrightarrow> sessions_keyed db \<and> (\<forall>s \<in> set (db_sessions db). small_epoch s)
     \<and> distinct (map row_id (db_events db)) \<and> distinct (map slot_of (db_events db))
     \<and> (\<forall>r \<in> set (db_events db). evidence_row (ce_event r) \<and> ref_ok (ce_ref r) \<and> placed (db_sessions db) r)"

lemma small_epoch_int32: "small_epoch s \<Longrightarrow> to_int32 (se_epoch s) = se_epoch s"
  by (simp add: small_epoch_def to_int32_id)

text \<open>A session row that keeps its reference and never goes back to an earlier epoch.\<close>

definition follows :: "session \<Rightarrow> session \<Rightarrow> bool" where
  "follows s s' \<longleftrightarrow> se_ref s' = se_ref s \<and> se_epoch s \<le> se_epoch s' \<and> (small_epoch s \<longrightarrow> small_epoch s')"

lemma follows_refl [simp]: "follows s s"
  by (simp add: follows_def)

lemma follows_placed:
  assumes "list_all2 follows ss ss'" and "placed ss r"
  shows "placed ss' r"
proof -
  obtain s where "s \<in> set ss" "se_ref s = ce_ref r" "cv_epoch (ce_event r) \<le> se_epoch s"
    using assms(2) by (auto simp: placed_def)
  moreover from assms(1) \<open>s \<in> set ss\<close> obtain s' where "s' \<in> set ss'" "follows s s'"
    by (induction rule: list_all2_induct) auto
  ultimately show ?thesis by (force simp: placed_def follows_def)
qed

lemma follows_keyed: "list_all2 follows ss ss' \<Longrightarrow> map se_id ss' = map se_id ss"
  by (induction rule: list_all2_induct) (simp_all add: follows_def)

lemma follows_small: "list_all2 follows ss ss' \<Longrightarrow> \<forall>s \<in> set ss. small_epoch s \<Longrightarrow> \<forall>s \<in> set ss'. small_epoch s"
  by (induction rule: list_all2_induct) (simp_all add: follows_def)

lemma control_ok_follows:
  assumes "control_ok db" and "list_all2 follows (db_sessions db) (db_sessions db')" and "db_events db' = db_events db"
  shows "control_ok db'"
  using assms follows_placed [OF assms(2)] follows_keyed [OF assms(2)] follows_small [OF assms(2)]
  by (simp add: control_ok_def sessions_keyed_def)

lemma update_sessions_follows:
  assumes "\<And>s. guard s \<Longrightarrow> follows s (f s)" and "update_sessions sc i guard f db = (moved, db')"
  shows "list_all2 follows (db_sessions db) (db_sessions db') \<and> db_events db' = db_events db"
  unfolding update_sessions_db [OF assms(2)] using assms(1) by (simp add: list.rel_map list.rel_refl)

lemma stored_row_fields [simp]:
  "ce_ref (stored_row s e) = se_ref s" "cv_type (ce_event (stored_row s e)) = cv_type e"
  "cv_payload (ce_event (stored_row s e)) = cv_payload e" "row_id (stored_row s e) = cv_id e"
  "cv_epoch (ce_event (stored_row s e)) = to_int32 (se_epoch s)"
  "is_segment (ce_event (stored_row s e)) = is_segment e"
  by (simp_all add: stored_row_def is_segment_def)

lemma may_store_evidence:
  "may_store s e \<Longrightarrow> cv_type e \<in> set durableEventTypes
     \<and> (is_segment e \<longrightarrow> validateTranscriptPayload (cv_type e) (cv_payload e) = None)
     \<and> (cv_type e = ''interruption'' \<longrightarrow> is_ok (parseInterruptionPayload (cv_payload e)) \<and> in_flight (se_state s))"
  by (auto simp: may_store_def refusal_def is_segment_def split: if_splits)

lemma apply_event_control_ok:
  assumes "control_ok db" "s \<in> set (db_sessions db)" "apply_event sc s e actor iid now db = (out, db')"
  shows "control_ok db' \<and> db_sessions db' = db_sessions db"
proof (cases "db' = db")
  case False
  with apply_event_cases [OF assms(3)] have may: "may_store s e"
    and ins: "InsertControlEvent sc (stored_row s e) db = Stored (db\<lparr>db_events := db_events db @ [stored_row s e]\<rparr>)"
    and fr: "batch_frame db db' [stored_row s e] (stops_of s e iid now) (stop_audits s e actor)" by blast+
  have "small_epoch s" using assms(1,2) by (simp add: control_ok_def)
  then have "placed (db_sessions db) (stored_row s e)"
    unfolding placed_def using assms(2) by (intro bexI [of _ s]) (simp_all add: small_epoch_int32)
  moreover have "evidence_row (ce_event (stored_row s e))"
    using ins may_store_evidence [OF may] by (simp add: evidence_row_def InsertControlEvent_Stored)
  ultimately show ?thesis
    using assms(1) fr ins by (simp add: batch_frame_def control_ok_def InsertControlEvent_Stored sessions_keyed_def)
qed (use assms in simp)

section \<open>What a batch does\<close>

text \<open>The rows of a batch, the interruptions and audit rows recorded with them, and the frame.\<close>

definition lands :: "row_scope \<Rightarrow> session \<Rightarrow> bool \<Rightarrow> control_event list \<Rightarrow> control_row \<Rightarrow> bool" where
  "lands sc s sealed es r \<longleftrightarrow> (\<exists>e \<in> set es. r = stored_row s e \<and> may_store s e \<and> visible sc (se_ref s)
     \<and> \<not> (sealed \<and> cv_type e \<in> set conversationalEventTypes))"

lemma ingest_events_frame:
  assumes "ingest_events sc s sealed actor iid now n es db = (outs, life, db')"
  shows "length outs = length es
    \<and> (\<exists>rows stops audits. batch_frame db db' rows stops audits \<and> (\<forall>r \<in> set rows. lands sc s sealed es r))"
  using assms
proof (induction es arbitrary: n db outs life)
  case Nil
  then show ?case using batch_frame_refl by fastforce
next
  case (Cons e es)
  show ?case
  proof (cases "sealed \<and> cv_type e \<in> set conversationalEventTypes")
    case True
    with Cons.prems obtain outs1 life1 where
      "ingest_events sc s sealed actor iid now (Suc n) es db = (outs1, life1, db')" "length outs = Suc (length outs1)"
      by (auto split: prod.splits)
    from Cons.IH [OF this(1)] this(2) show ?thesis by (fastforce simp: lands_def)
  next
    case False
    obtain out db1 where ap: "apply_event sc s e actor (iid n) now db = (out, db1)" by fastforce
    with Cons.prems False obtain outs1 life1 where
      rest: "ingest_events sc s sealed actor iid now (Suc n) es db1 = (outs1, life1, db')" "length outs = Suc (length outs1)"
      by (auto split: prod.splits)
    from Cons.IH [OF rest(1)] obtain rows stops audits where
      fr: "length outs1 = length es" "batch_frame db1 db' rows stops audits" "\<forall>r \<in> set rows. lands sc s sealed es r" by blast
    have later: "lands sc s sealed (e # es) r" if "lands sc s sealed es r" for r using that by (auto simp: lands_def)
    show ?thesis
    proof (cases "db1 = db")
      case True
      with fr rest(2) later show ?thesis by auto
    next
      case moved: False
      with apply_event_cases [OF ap] have may: "may_store s e"
        and ins: "InsertControlEvent sc (stored_row s e) db = Stored (db\<lparr>db_events := db_events db @ [stored_row s e]\<rparr>)"
        and f1: "batch_frame db db1 [stored_row s e] (stops_of s e (iid n) now) (stop_audits s e actor)" by blast+
      from ins have "visible sc (se_ref s)" by (simp add: InsertControlEvent_Stored)
      with may False have "lands sc s sealed (e # es) (stored_row s e)" by (auto simp: lands_def)
      with batch_frame_trans [OF f1 fr(2)] fr rest(2) later show ?thesis by fastforce
    qed
  qed
qed

lemma ingest_events_control_ok:
  assumes "control_ok db" "s \<in> set (db_sessions db)"
    and "ingest_events sc s sealed actor iid now n es db = (outs, life, db')"
  shows "control_ok db' \<and> db_sessions db' = db_sessions db"
  using assms
proof (induction es arbitrary: n db outs life)
  case (Cons e es)
  show ?case
  proof (cases "sealed \<and> cv_type e \<in> set conversationalEventTypes")
    case True
    with Cons.prems obtain outs1 life1 where
      "ingest_events sc s sealed actor iid now (Suc n) es db = (outs1, life1, db')" by (auto split: prod.splits)
    from Cons.IH [OF Cons.prems(1,2) this] show ?thesis .
  next
    case False
    obtain out db1 where ap: "apply_event sc s e actor (iid n) now db = (out, db1)" by fastforce
    with Cons.prems(3) False obtain outs1 life1 where
      rest: "ingest_events sc s sealed actor iid now (Suc n) es db1 = (outs1, life1, db')" by (auto split: prod.splits)
    from apply_event_control_ok [OF Cons.prems(1,2) ap] Cons.prems(2) have "control_ok db1" "s \<in> set (db_sessions db1)"
      and same: "db_sessions db1 = db_sessions db" by simp_all
    from Cons.IH [OF this(1,2) rest] same show ?thesis by simp
  qed
qed simp

lemma assign_slots_same:
  "map cv_id (assign_slots ep n es) = map cv_id es \<and> map cv_type (assign_slots ep n es) = map cv_type es
     \<and> map cv_payload (assign_slots ep n es) = map cv_payload es"
  by (induction es arbitrary: n) simp_all

text \<open>The facts a committed batch leaves: what it read, and the loop between the read and the cursor.\<close>

definition batch_read ::
  "session_ref \<Rightarrow> int \<Rightarrow> bool \<Rightarrow> interview_db \<Rightarrow> row_scope \<Rightarrow> session \<Rightarrow> bool" where
  "batch_read ref epoch assign db sc s \<longleftrightarrow> scope_of ref = Some sc \<and> find_session sc (ref_session ref) db = Some s
     \<and> se_epoch s \<noteq> 0 \<and> (assign \<or> epoch = se_epoch s)"

definition batch_ran ::
  "session_ref \<Rightarrow> control_event list \<Rightarrow> bool \<Rightarrow> (nat \<Rightarrow> string) \<Rightarrow> time \<Rightarrow> interview_db \<Rightarrow> row_scope \<Rightarrow> session
     \<Rightarrow> ingested \<Rightarrow> control_event list \<Rightarrow> interview_db \<Rightarrow> bool" where
  "batch_ran ref events assign iid now db sc s ig batch db1 \<longleftrightarrow>
     ingest_events sc s (sealed_in sc (se_id s) db)
       \<lparr>ac_id = ref_candidate ref, ac_type = (if assign then ''service'' else ''user'')\<rparr> iid now 0 batch db
       = (ig_outcomes ig, ig_lifecycle ig, db1)
     \<and> map cv_id batch = map cv_id events \<and> map cv_type batch = map cv_type events
     \<and> map cv_payload batch = map cv_payload events \<and> (assign \<or> batch = events)"

lemma ingest_batch_Inr:
  assumes "ingest_batch ref epoch events assign iid now db = Inr (ig, db')"
  shows "\<exists>sc s batch db1. batch_read ref epoch assign db sc s \<and> batch_ran ref events assign iid now db sc s ig batch db1
    \<and> cursor sc (se_id s) (se_epoch s) db1 = (ig_accepted ig, ig_missing ig)
    \<and> ig_epoch ig = se_epoch s \<and> ig_session ig = s
    \<and> db' = (if ig_accepted ig > se_accepted s then PersistCursor sc (se_id s) (se_epoch s) (ig_accepted ig) db1 else db1)"
proof -
  from assms obtain sc where sc: "scope_of ref = Some sc" by (auto simp: ingest_batch_def split: option.splits)
  with assms obtain s where g: "get sc (ref_session ref) db = Inr s" by (auto simp: ingest_batch_def bindE_Inr)
  then have found: "find_session sc (ref_session ref) db = Some s" by (simp add: get_def split: option.splits)
  then have i: "se_id s = ref_session ref" using find_session_Some by blast
  have ok: "se_epoch s \<noteq> 0" "assign \<or> epoch = se_epoch s"
    using assms by (auto simp: ingest_batch_def sc g Let_def split: if_splits)
  let ?stored = "StoredSequences sc (se_id s) (se_epoch s) db"
  let ?batch = "if assign then assign_slots (se_epoch s) (if ?stored = [] then 1 else last ?stored + 1) events else events"
  let ?actor = "\<lparr>ac_id = ref_candidate ref, ac_type = (if assign then ''service'' else ''user'')\<rparr>"
  obtain outs life db1 where run: "ingest_events sc s (sealed_in sc (se_id s) db) ?actor iid now 0 ?batch db = (outs, life, db1)"
    by (metis prod_cases3)
  obtain acc missing where cur: "cursor sc (se_id s) (se_epoch s) db1 = (acc, missing)" by fastforce
  have ep: "(if assign then se_epoch s else epoch) = se_epoch s" using ok(2) by auto
  have "ig = \<lparr>ig_session = s, ig_epoch = se_epoch s, ig_lifecycle = life, ig_outcomes = outs, ig_accepted = acc,
      ig_missing = missing\<rparr>
    \<and> db' = (if acc > se_accepted s then PersistCursor sc (se_id s) (se_epoch s) acc db1 else db1)"
    using assms ok run cur unfolding ingest_batch_def sc Let_def i [symmetric]
    by (auto simp: g [folded i] ep split: if_splits)
  then show ?thesis
    using sc found ok run cur assign_slots_same
    by (intro exI [of _ sc] exI [of _ s] exI [of _ ?batch] exI [of _ db1]) (simp add: batch_read_def batch_ran_def)
qed

text \<open>Persisting the cursor touches nothing but the cursor of the session.\<close>

definition cursor_kept :: "session \<Rightarrow> session \<Rightarrow> bool" where
  "cursor_kept r r' \<longleftrightarrow> (\<exists>acc. r' = r\<lparr>se_accepted := acc\<rparr>)"

lemma cursor_kept_refl: "cursor_kept r r"
  unfolding cursor_kept_def by (rule exI [of _ "se_accepted r"]) simp

lemma cursor_kept_follows: "cursor_kept r r' \<Longrightarrow> follows r r'"
  by (auto simp: cursor_kept_def follows_def small_epoch_def)

lemma PersistCursor_frame:
  "\<exists>ss. PersistCursor sc i epoch acc db = db\<lparr>db_sessions := ss\<rparr> \<and> list_all2 cursor_kept (db_sessions db) ss"
proof -
  let ?hit = "\<lambda>s. se_id s = i \<and> visible sc (se_ref s) \<and> se_epoch s = to_int32 epoch \<and> se_accepted s < to_int32 acc"
  have "list_all2 cursor_kept (db_sessions db) (map (\<lambda>s. if ?hit s then s\<lparr>se_accepted := to_int32 acc\<rparr> else s) (db_sessions db))"
    unfolding list.rel_map by (rule list.rel_refl_strong) (use cursor_kept_refl in \<open>auto simp: cursor_kept_def\<close>)
  then show ?thesis by (auto simp: PersistCursor_def update_sessions_def Let_def)
qed

lemma ingest_batch_frame:
  assumes "ingest_batch ref epoch events assign iid now db = Inr (ig, db')"
  shows "\<exists>sc s batch rows stops audits ss. batch_read ref epoch assign db sc s
    \<and> map cv_type batch = map cv_type events \<and> length (ig_outcomes ig) = length batch
    \<and> (\<forall>r \<in> set rows. lands sc s (sealed_in sc (se_id s) db) batch r)
    \<and> db' = db\<lparr>db_sessions := ss, db_events := db_events db @ rows, db_interruptions := db_interruptions db @ stops,
        db_audit := db_audit db @ audits\<rparr>
    \<and> list_all2 cursor_kept (db_sessions db) ss"
proof -
  from ingest_batch_Inr [OF assms] obtain sc s batch db1 where read: "batch_read ref epoch assign db sc s"
    and ran: "batch_ran ref events assign iid now db sc s ig batch db1"
    and db': "db' = (if ig_accepted ig > se_accepted s then PersistCursor sc (se_id s) (se_epoch s) (ig_accepted ig) db1 else db1)"
    by blast
  from ran have run: "ingest_events sc s (sealed_in sc (se_id s) db)
       \<lparr>ac_id = ref_candidate ref, ac_type = (if assign then ''service'' else ''user'')\<rparr> iid now 0 batch db
       = (ig_outcomes ig, ig_lifecycle ig, db1)" and types: "map cv_type batch = map cv_type events"
    by (simp_all add: batch_ran_def)
  from ingest_events_frame [OF run] obtain rows stops audits where fr: "batch_frame db db1 rows stops audits"
    and rows: "\<forall>r \<in> set rows. lands sc s (sealed_in sc (se_id s) db) batch r"
    and len: "length (ig_outcomes ig) = length batch" by blast
  have "\<exists>ss. db' = db1\<lparr>db_sessions := ss\<rparr> \<and> list_all2 cursor_kept (db_sessions db1) ss"
  proof (cases "ig_accepted ig > se_accepted s")
    case True
    then show ?thesis unfolding db' using PersistCursor_frame by simp
  next
    case False
    then show ?thesis unfolding db'
      by (intro exI [of _ "db_sessions db1"]) (simp add: list.rel_refl cursor_kept_refl)
  qed
  then obtain ss where "db' = db1\<lparr>db_sessions := ss\<rparr>" "list_all2 cursor_kept (db_sessions db1) ss" by blast
  with fr read rows len types show ?thesis
    by (intro exI [of _ sc] exI [of _ s] exI [of _ batch] exI [of _ rows] exI [of _ stops] exI [of _ audits] exI [of _ ss])
      (simp add: batch_frame_def)
qed

lemma ingest_batch_control_ok:
  assumes "control_ok db" and "ingest_batch ref epoch events assign iid now db = Inr (ig, db')"
  shows "control_ok db'"
proof -
  from ingest_batch_Inr [OF assms(2)] obtain sc s batch db1 where read: "batch_read ref epoch assign db sc s"
    and ran: "batch_ran ref events assign iid now db sc s ig batch db1"
    and db': "db' = (if ig_accepted ig > se_accepted s then PersistCursor sc (se_id s) (se_epoch s) (ig_accepted ig) db1 else db1)"
    by blast
  have "s \<in> set (db_sessions db)" using read find_session_Some by (auto simp: batch_read_def)
  with assms(1) ran ingest_events_control_ok have ok: "control_ok db1" unfolding batch_ran_def by blast
  obtain ss where "PersistCursor sc (se_id s) (se_epoch s) (ig_accepted ig) db1 = db1\<lparr>db_sessions := ss\<rparr>"
    "list_all2 cursor_kept (db_sessions db1) ss" using PersistCursor_frame by blast
  then have "control_ok (PersistCursor sc (se_id s) (se_epoch s) (ig_accepted ig) db1)"
    using ok by (intro control_ok_follows [OF ok]) (simp_all add: list_all2_mono [OF _ cursor_kept_follows])
  with ok show ?thesis by (simp add: db')
qed

section \<open>What the transcript reads\<close>

lemma find_session_cursor_kept:
  "list_all2 cursor_kept ss ss' \<Longrightarrow>
     (find (\<lambda>s. se_id s = i \<and> session_visible sc (se_ref s)) ss' = None)
     = (find (\<lambda>s. se_id s = i \<and> session_visible sc (se_ref s)) ss = None)"
  by (induction rule: list_all2_induct) (auto simp: cursor_kept_def)

lemma assemble_events_segments:
  "assemble_events (filter is_segment es) a = assemble_events es a"
  by (induction es arbitrary: a) (auto simp: is_segment_def split: option.splits)

lemma assemble_segments: "assemble es = assemble (filter is_segment es)"
  by (simp add: assemble_def assemble_events_segments)

text \<open>The segments a scope sees of a session, in the one authoritative order.\<close>

definition segments_of :: "row_scope \<Rightarrow> string \<Rightarrow> interview_db \<Rightarrow> control_event list" where
  "segments_of sc i db = sort_key event_key
     (filter (\<lambda>e. is_segment e \<and> (0, 0) < event_key e) (held_rows sc i db))"

lemma AssembleTranscript_segments:
  assumes "scope_of ref = Some sc" and "find_session sc (ref_session ref) db \<noteq> None"
  shows "AssembleTranscript ref db = assemble (segments_of sc (ref_session ref) db)"
proof -
  have "to_int32 0 = 0" by (simp add: to_int32_def)
  then have "AssembleTranscript ref db = assemble (sort_key event_key
      (filter (\<lambda>e. (0, 0) < event_key e) (held_rows sc (ref_session ref) db)))"
    using assms by (auto simp: AssembleTranscript_def Replay_def get_def)
  then show ?thesis
    unfolding segments_of_def
    by (subst (asm) assemble_segments) (simp add: filter_sort filter_filter conj_commute)
qed

lemma held_rows_same_session:
  "control_ok db \<Longrightarrow> distinct (map event_key (held_rows sc i db))"
  unfolding control_ok_def held_rows_def
  by (auto simp: distinct_map inj_on_def event_key_def slot_of_def)

lemma segments_of_timeline:
  assumes "control_ok db"
  shows "timeline (segments_of sc i db)"
    and "\<forall>e \<in> set (segments_of sc i db). is_segment e \<and> validateTranscriptPayload (cv_type e) (cv_payload e) = None"
proof -
  have "distinct (map event_key (segments_of sc i db))"
    using held_rows_same_session [OF assms, of sc i]
    by (simp add: segments_of_def distinct_map inj_on_def)
  then show "timeline (segments_of sc i db)"
    by (simp add: timeline_def strict_sorted_iff segments_of_def)
  show "\<forall>e \<in> set (segments_of sc i db). is_segment e \<and> validateTranscriptPayload (cv_type e) (cv_payload e) = None"
    using assms by (auto simp: segments_of_def held_rows_def control_ok_def evidence_row_def)
qed

lemma validated_decodes:
  "validateTranscriptPayload ty raw = None \<Longrightarrow> \<exists>p. py_segment raw = Some p
     \<and> tr_speaker p \<in> {''candidate'', ''interviewer''} \<and> tr_text p \<noteq> '''' \<and> 0 \<le> tr_start p \<and> tr_start p < tr_end p
     \<and> 0 \<le> tr_confidence p \<and> tr_confidence p \<le> 1 \<and> (ty = segment_final \<longrightarrow> tr_words p \<noteq> [])"
  by (auto simp: validateTranscriptPayload_def split: option.splits if_splits)

lemma ingest_batch_keeps_reading:
  assumes "ingest_batch ref epoch events assign iid now db = Inr (ig, db')"
  shows "\<exists>sc. scope_of ref = Some sc \<and> find_session sc (ref_session ref) db \<noteq> None
    \<and> find_session sc (ref_session ref) db' \<noteq> None"
proof -
  from ingest_batch_frame [OF assms] obtain sc s ss where read: "batch_read ref epoch assign db sc s"
    and db': "db_sessions db' = ss" and kept: "list_all2 cursor_kept (db_sessions db) ss" by force
  from read find_session_cursor_kept [OF kept, of "ref_session ref" sc] show ?thesis
    by (simp add: batch_read_def find_session_def db')
qed

text \<open>C36: Whatever is stored can serve as evidence. The timeline's invariant survives every batch, of the browser
  or of the agent: every event is of a durable type, sits alone in a positive slot of an epoch its session
  has opened, and was checked at the door. So the transcript of a session that took a batch always
  assembles, and every segment of it has one of the two speakers, words, a real span of the room's clock
  and a confidence between zero and one; and the log only ever grew.\<close>

theorem timeline_serves_as_evidence:
  assumes "control_ok db" and "ingest_batch ref epoch events assign iid now db = Inr (ig, db')"
  shows "control_ok db' \<and> (\<exists>rows. db_events db' = db_events db @ rows)
    \<and> (\<exists>t. AssembleTranscript ref db' = Inr t
        \<and> (\<forall>s \<in> set (ts_segments t). sg_speaker s \<in> {''candidate'', ''interviewer''} \<and> sg_text s \<noteq> ''''
             \<and> 0 \<le> sg_start s \<and> sg_start s < sg_end s \<and> 0 \<le> sg_confidence s \<and> sg_confidence s \<le> 1
             \<and> (sg_type s = segment_final \<longrightarrow> sg_words s \<noteq> [])))"
proof -
  have ok: "control_ok db'" by (rule ingest_batch_control_ok [OF assms])
  from ingest_batch_frame [OF assms(2)] have grows: "\<exists>rows. db_events db' = db_events db @ rows" by force
  from ingest_batch_keeps_reading [OF assms(2)] obtain sc where sc: "scope_of ref = Some sc"
    and found: "find_session sc (ref_session ref) db' \<noteq> None" by blast
  let ?es = "segments_of sc (ref_session ref) db'"
  note seg = segments_of_timeline [OF ok, of sc "ref_session ref"]
  have all: "filter is_segment ?es = ?es" using seg(2) by simp
  have dec: "\<forall>e \<in> set ?es. is_segment e \<longrightarrow> py_segment (cv_payload e) \<noteq> None"
    using seg(2) by (auto dest: validated_decodes)
  let ?t = "\<lparr>ts_segments = map (assembled_segment ?es) [0..<length ?es],
    ts_orphans = map (\<lambda>j. cv_sequence (?es ! j))
      (filter (\<lambda>j. cv_type (?es ! j) = segment_corrected \<and> \<not> finds_original ?es j) [0..<length ?es])\<rparr>"
  have "AssembleTranscript ref db' = Inr ?t"
    using assemble_timeline [OF seg(1) dec all [symmetric]] AssembleTranscript_segments [OF sc found] by simp
  moreover have "sg_speaker s \<in> {''candidate'', ''interviewer''} \<and> sg_text s \<noteq> ''''
      \<and> 0 \<le> sg_start s \<and> sg_start s < sg_end s \<and> 0 \<le> sg_confidence s \<and> sg_confidence s \<le> 1
      \<and> (sg_type s = segment_final \<longrightarrow> sg_words s \<noteq> [])" if "s \<in> set (ts_segments ?t)" for s
  proof -
    from that obtain i where i: "i < length ?es" "s = assembled_segment ?es i" by auto
    then have "validateTranscriptPayload (cv_type (?es ! i)) (cv_payload (?es ! i)) = None" using seg(2) by simp
    from validated_decodes [OF this] i show ?thesis by (auto simp: assembled_segment_def segment_of_def said_def)
  qed
  ultimately show ?thesis using ok grows by blast
qed

definition ex_running_db :: interview_db where
  "ex_running_db = ex_db\<lparr>db_sessions := [ex_session\<lparr>se_epoch := 1, se_state := StateInProgress\<rparr>]\<rparr>"

definition ex_batch :: "control_event list" where
  "ex_batch = [ex_event ''e1'' 1 segment_final, ex_event ''e9'' 9 ''made.up'', ex_event ''e2'' 3 ''turn.boundary'']"

lemma ex_running_ok: "control_ok ex_running_db"
  by (simp add: control_ok_def ex_running_db_def ex_db_def empty_db_def sessions_keyed_def small_epoch_def)

lemma ex_batch_ingested:
  "map_sum id (\<lambda>r. (ig_accepted (fst r), ig_missing (fst r), map eo_status (ig_outcomes (fst r))))
     (ingest_batch (se_ref ex_session) 1 ex_batch False (\<lambda>_. ''i1'') 9 ex_running_db)
   = Inr (1, [(2, 2)], [''accepted'', ''refused'', ''accepted''])"
  by code_simp

theorem timeline_serves_as_evidence_witness:
  "\<exists>ig db'. ingest_batch (se_ref ex_session) 1 ex_batch False (\<lambda>_. ''i1'') 9 ex_running_db = Inr (ig, db')
     \<and> control_ok db' \<and> is_ok (AssembleTranscript (se_ref ex_session) db')"
proof -
  from ex_batch_ingested obtain ig db' where
    r: "ingest_batch (se_ref ex_session) 1 ex_batch False (\<lambda>_. ''i1'') 9 ex_running_db = Inr (ig, db')"
    by (cases "ingest_batch (se_ref ex_session) 1 ex_batch False (\<lambda>_. ''i1'') 9 ex_running_db") auto
  from timeline_serves_as_evidence [OF ex_running_ok r] r show ?thesis by (auto simp: is_ok_iff)
qed

section \<open>Sealed sessions\<close>

lemma ingest_events_refusals:
  assumes "ingest_events sc s True actor iid now n es db = (outs, life, db')" and "i < length es"
    and "cv_type (es ! i) \<in> set conversationalEventTypes"
  shows "outs ! i = refused (es ! i) ''EVENT_AFTER_SEAL''"
  using assms
proof (induction es arbitrary: n db outs life i)
  case (Cons e es)
  show ?case
  proof (cases "cv_type e \<in> set conversationalEventTypes")
    case True
    with Cons.prems(1) obtain outs1 life1 where
      "ingest_events sc s True actor iid now (Suc n) es db = (outs1, life1, db')"
      and outs: "outs = refused e ''EVENT_AFTER_SEAL'' # outs1" by (auto split: prod.splits)
    from Cons.IH [OF this(1)] Cons.prems(2,3) show ?thesis by (cases i) (simp_all add: outs)
  next
    case False
    obtain out db1 where ap: "apply_event sc s e actor (iid n) now db = (out, db1)" by fastforce
    with Cons.prems(1) False obtain outs1 life1 where
      rest: "ingest_events sc s True actor iid now (Suc n) es db1 = (outs1, life1, db')" and outs: "outs = out # outs1"
      by (auto split: prod.splits)
    from Cons.IH [OF rest] Cons.prems(2,3) False show ?thesis by (cases i) (simp_all add: outs)
  qed
qed simp

text \<open>C5: A sealed conversation never grows. Once a session is sealed, a batch of the browser or of the agent has
  every conversational event in it refused by name, the transcript assembles to exactly what it was, and
  what else of the batch is stored is none of the conversation.\<close>

theorem nothing_said_after_the_seal:
  assumes "scope_of ref = Some sc" and "sealed_in sc (ref_session ref) db"
    and "ingest_batch ref epoch events assign iid now db = Inr (ig, db')"
  shows "AssembleTranscript ref db' = AssembleTranscript ref db
    \<and> (\<forall>i < length events. cv_type (events ! i) \<in> set conversationalEventTypes \<longrightarrow>
         ig_outcomes ig ! i = refused (events ! i) ''EVENT_AFTER_SEAL'')
    \<and> filter (\<lambda>r. cv_type (ce_event r) \<in> set conversationalEventTypes) (db_events db')
       = filter (\<lambda>r. cv_type (ce_event r) \<in> set conversationalEventTypes) (db_events db)"
proof -
  from ingest_batch_Inr [OF assms(3)] obtain s batch db1 where read: "batch_read ref epoch assign db sc s"
    and ran: "batch_ran ref events assign iid now db sc s ig batch db1"
    using assms(1) unfolding batch_read_def by (metis option.inject)
  have i: "se_id s = ref_session ref" using read find_session_Some by (auto simp: batch_read_def)
  from ran assms(2) have run: "ingest_events sc s True \<lparr>ac_id = ref_candidate ref,
      ac_type = (if assign then ''service'' else ''user'')\<rparr> iid now 0 batch db = (ig_outcomes ig, ig_lifecycle ig, db1)"
    and same: "map cv_id batch = map cv_id events" "map cv_type batch = map cv_type events"
    by (simp_all add: batch_ran_def i)
  have len: "length batch = length events" using same(1) by (metis length_map)
  have refs: "ig_outcomes ig ! i = refused (events ! i) ''EVENT_AFTER_SEAL''"
    if "i < length events" "cv_type (events ! i) \<in> set conversationalEventTypes" for i
  proof -
    have "cv_type (batch ! i) = cv_type (events ! i)" "cv_id (batch ! i) = cv_id (events ! i)"
      using same that(1) len by (metis nth_map)+
    with ingest_events_refusals [OF run, of i] that len show ?thesis by simp
  qed
  from ingest_batch_frame [OF assms(3)] obtain s' batch' rows where read': "batch_read ref epoch assign db sc s'"
    and rows: "\<forall>r \<in> set rows. lands sc s' (sealed_in sc (se_id s') db) batch' r"
    and ev: "db_events db' = db_events db @ rows"
    using assms(1) unfolding batch_read_def by force
  have "s' = s" using read read' by (simp add: batch_read_def)
  then have quiet: "\<forall>r \<in> set rows. cv_type (ce_event r) \<notin> set conversationalEventTypes"
    using rows assms(2) i by (auto simp: lands_def)
  then have "\<forall>r \<in> set rows. \<not> is_segment (ce_event r)"
    by (auto simp: is_segment_def conversationalEventTypes_def segment_final_def segment_corrected_def)
  then have none: "filter (\<lambda>e. is_segment e \<and> (0, 0) < event_key e)
      (map ce_event (filter (\<lambda>r. ref_session (ce_ref r) = ref_session ref \<and> visible sc (ce_ref r)) rows)) = []"
    by (auto simp: filter_empty_conv)
  then have "segments_of sc (ref_session ref) db' = segments_of sc (ref_session ref) db"
    by (simp add: segments_of_def held_rows_def ev)
  moreover from ingest_batch_keeps_reading [OF assms(3)] assms(1)
  have "find_session sc (ref_session ref) db \<noteq> None" "find_session sc (ref_session ref) db' \<noteq> None" by auto
  ultimately have "AssembleTranscript ref db' = AssembleTranscript ref db"
    using AssembleTranscript_segments assms(1) by metis
  moreover have "filter (\<lambda>r. cv_type (ce_event r) \<in> set conversationalEventTypes) rows = []"
    using quiet by (simp add: filter_empty_conv)
  ultimately show ?thesis using refs by (simp add: ev)
qed

definition ex_seal :: seal_row where
  "ex_seal = \<lparr>sl_ref = se_ref ex_session, sl_epoch = 1, sl_sequence = 1, sl_gaps = [], sl_transcript_digest = ''d'',
     sl_bundle_digest = ''b'', sl_media = ''none_by_choice'', sl_warnings = [], sl_input_digest = '''', sl_created_at = 0\<rparr>"

definition ex_sealed_db :: interview_db where
  "ex_sealed_db = ex_running_db\<lparr>db_seals := [ex_seal]\<rparr>"

theorem nothing_said_after_the_seal_witness:
  "\<exists>ig db'. ingest_batch (se_ref ex_session) 1 ex_batch False (\<lambda>_. ''i1'') 9 ex_sealed_db = Inr (ig, db')
     \<and> ig_outcomes ig ! 0 = refused (ex_event ''e1'' 1 segment_final) ''EVENT_AFTER_SEAL''
     \<and> AssembleTranscript (se_ref ex_session) db' = AssembleTranscript (se_ref ex_session) ex_sealed_db"
proof -
  let ?r = "ingest_batch (se_ref ex_session) 1 ex_batch False (\<lambda>_. ''i1'') 9 ex_sealed_db"
  have "is_ok ?r" by code_simp
  then obtain ig db' where r: "?r = Inr (ig, db')" by (auto simp: is_ok_iff)
  have sc: "scope_of (se_ref ex_session) = Some (AsUser ''u1'')"
    and sealed: "sealed_in (AsUser ''u1'') (ref_session (se_ref ex_session)) ex_sealed_db" by code_simp+
  have b: "0 < length ex_batch" "ex_batch ! 0 = ex_event ''e1'' 1 segment_final"
    "cv_type (ex_batch ! 0) \<in> set conversationalEventTypes" by code_simp+
  from nothing_said_after_the_seal [OF sc sealed r] r b show ?thesis by metis
qed

section \<open>Takeover\<close>

lemma find_session_keyed:
  assumes "sessions_keyed db" and "r \<in> set (db_sessions db)" and "session_visible sc (se_ref r)"
  shows "find_session sc (se_id r) db = Some r"
proof -
  have "find_session sc (se_id r) db \<noteq> None" using assms(2,3) by (auto simp: find_session_def find_None_iff)
  then obtain x where x: "find_session sc (se_id r) db = Some x" by blast
  with find_session_Some [OF x] keyed_unique [OF assms(1) _ assms(2)] show ?thesis by blast
qed

lemma superseded_keys: "map attempt_key (db_attempts (SupersedeAttempts sc i now db)) = map attempt_key (db_attempts db)"
  by (simp add: SupersedeAttempts_def attempt_key_def)

lemma BeginAttempt_Inr:
  assumes "BeginAttempt s now db = Inr (epoch, db')" and "se_epoch s < 2147483647" and "0 \<le> se_epoch s"
  shows "\<exists>sc. scope_of (se_ref s) = Some sc \<and> epoch = se_epoch s + 1
    \<and> (se_id s, epoch) \<notin> attempt_key ` set (db_attempts db)
    \<and> (\<exists>r \<in> set (db_sessions db). se_id r = se_id s \<and> visible sc (se_ref r) \<and> se_epoch r < epoch)
    \<and> db' = db\<lparr>db_sessions := map (\<lambda>r. if se_id r = se_id s \<and> visible sc (se_ref r) \<and> se_epoch r < epoch
          then r\<lparr>se_epoch := epoch, se_accepted := 0\<rparr> else r) (db_sessions db),
        db_attempts := db_attempts (SupersedeAttempts sc (se_id s) now db)
          @ [\<lparr>am_ref = se_ref s, am_epoch = epoch, am_superseded = None\<rparr>]\<rparr>"
proof -
  from assms(1) obtain sc where sc: "scope_of (se_ref s) = Some sc" by (auto simp: BeginAttempt_def split: option.splits)
  let ?e = "se_epoch s + 1"
  let ?a = "\<lparr>am_ref = se_ref s, am_epoch = ?e, am_superseded = None\<rparr>"
  have e: "to_int32 ?e = ?e" using assms(2,3) by (intro to_int32_id) simp_all
  from assms(1) obtain db1 where ins: "InsertAttempt sc ?a (SupersedeAttempts sc (se_id s) now db) = Inr db1"
    and rest: "(case AdvanceSessionEpoch sc (se_id s) ?e db1 of
        (moved, db') \<Rightarrow> if moved = 0 then Inl EpochStale else Inr (?e, db')) = Inr (epoch, db')"
    by (auto simp: BeginAttempt_def sc Let_def e bindE_Inr)
  obtain moved db2 where step: "AdvanceSessionEpoch sc (se_id s) ?e db1 = (moved, db2)" by fastforce
  with rest have adv: "AdvanceSessionEpoch sc (se_id s) ?e db1 = (moved, db')" and m: "moved \<noteq> 0" and epoch: "epoch = ?e"
    by (auto split: if_splits)
  have keys: "attempt_key ` set (db_attempts (SupersedeAttempts sc (se_id s) now db)) = attempt_key ` set (db_attempts db)"
    using arg_cong [OF superseded_keys, of set] by simp
  from ins have db1: "db1 = db\<lparr>db_attempts := db_attempts (SupersedeAttempts sc (se_id s) now db) @ [?a]\<rparr>"
    and fresh: "attempt_key ?a \<notin> attempt_key ` set (db_attempts (SupersedeAttempts sc (se_id s) now db))"
    by (auto simp: InsertAttempt_def SupersedeAttempts_def split: if_splits)
  from adv have u: "update_sessions sc (se_id s) (\<lambda>r. se_epoch r < ?e) (\<lambda>r. r\<lparr>se_epoch := ?e, se_accepted := 0\<rparr>) db1
      = (moved, db')" by (simp add: AdvanceSessionEpoch_def)
  show ?thesis
    using sc epoch fresh update_sessions_moved [OF u] m
    unfolding update_sessions_db [OF u] keys by (simp add: db1 attempt_key_def)
qed

text \<open>C30: A takeover silences the connection it replaces. When an attempt opens, the session is in the next epoch
  with its cursor at zero, and of the attempts of the session in this scope exactly the new one is open;
  from then on a batch of any other epoch is refused whole and stores nothing; and whoever began an attempt
  from the same reading of the session gets none, so two takeovers never share an epoch.\<close>

theorem takeover_silences_the_old_connection:
  assumes "control_ok db" and "BeginAttempt s now db = Inr (epoch, db')"
    and "small_epoch s" and "se_epoch s < 2147483647"
  shows "Get (se_ref s) db' = Inr (case Get (se_ref s) db of Inr r \<Rightarrow> r\<lparr>se_epoch := epoch, se_accepted := 0\<rparr> | Inl _ \<Rightarrow> s)
    \<and> epoch = se_epoch s + 1
    \<and> {a \<in> set (db_attempts db'). ref_session (am_ref a) = se_id s \<and> am_superseded a = None
          \<and> (\<exists>sc. scope_of (se_ref s) = Some sc \<and> visible sc (am_ref a))}
        = {\<lparr>am_ref = se_ref s, am_epoch = epoch, am_superseded = None\<rparr>}
    \<and> (\<forall>old events iid now env. old \<noteq> epoch \<longrightarrow> Ingest (se_ref s) old events iid now env db' = (Inl EpochStale, db'))
    \<and> (\<forall>now2. BeginAttempt s now2 db' = Inl DatabaseRefused)
    \<and> control_ok db'"
proof -
  have small: "0 \<le> se_epoch s" using assms(3) by (simp add: small_epoch_def)
  from BeginAttempt_Inr [OF assms(2,4) small] obtain sc r where sc: "scope_of (se_ref s) = Some sc"
    and epoch: "epoch = se_epoch s + 1" and r: "r \<in> set (db_sessions db)" "se_id r = se_id s" "visible sc (se_ref r)"
      "se_epoch r < epoch"
    and db': "db' = db\<lparr>db_sessions := map (\<lambda>r. if se_id r = se_id s \<and> visible sc (se_ref r) \<and> se_epoch r < epoch
          then r\<lparr>se_epoch := epoch, se_accepted := 0\<rparr> else r) (db_sessions db),
        db_attempts := db_attempts (SupersedeAttempts sc (se_id s) now db)
          @ [\<lparr>am_ref = se_ref s, am_epoch = epoch, am_superseded = None\<rparr>]\<rparr>" by blast
  have keyed: "sessions_keyed db" using assms(1) by (simp add: control_ok_def)
  let ?r = "r\<lparr>se_epoch := epoch, se_accepted := 0\<rparr>"
  have follow: "list_all2 follows (db_sessions db) (db_sessions db')"
    unfolding db' using assms(4) small
    by (simp add: list.rel_map epoch follows_def small_epoch_def list.rel_refl_strong)
  then have ok: "control_ok db'" by (intro control_ok_follows [OF assms(1)]) (simp_all add: db')
  have "?r \<in> set (db_sessions db')" using r by (force simp: db')
  then have found': "find_session sc (se_id s) db' = Some ?r"
    using find_session_keyed [of db' ?r sc] ok r by (simp add: control_ok_def visible_session_visible)
  have found: "find_session sc (se_id s) db = Some r"
    using find_session_keyed [OF keyed r(1)] r by (simp add: visible_session_visible)
  have get: "Get (se_ref s) db' = Inr ?r" "Get (se_ref s) db = Inr r"
    by (simp_all add: Get_def sc get_def found found')
  have open_attempts: "{a \<in> set (db_attempts db'). ref_session (am_ref a) = se_id s \<and> am_superseded a = None
      \<and> (\<exists>sc. scope_of (se_ref s) = Some sc \<and> visible sc (am_ref a))} = {\<lparr>am_ref = se_ref s, am_epoch = epoch, am_superseded = None\<rparr>}"
    using scope_sees_own [OF sc] by (auto simp: db' SupersedeAttempts_def sc)
  have stale: "Ingest (se_ref s) old events iid now env db' = (Inl EpochStale, db')" if "old \<noteq> epoch" for old events iid now env
    using that epoch small
    by (auto simp: Ingest_def ingest_def ingest_batch_def sc get_def found' Let_def split: prod.splits)
  have "to_int32 (se_epoch s + 1) = epoch" using assms(4) small by (simp add: epoch to_int32_id)
  then have again: "BeginAttempt s now2 db' = Inl DatabaseRefused" for now2
    by (auto simp: BeginAttempt_def sc Let_def InsertAttempt_def attempt_key_def SupersedeAttempts_def db')
  show ?thesis using get epoch open_attempts stale again ok by simp
qed

theorem takeover_silences_the_old_connection_witness:
  "\<exists>db'. BeginAttempt (ex_session\<lparr>se_epoch := 1, se_state := StateInProgress\<rparr>) 9 ex_running_db = Inr (2, db')
     \<and> (\<forall>events iid now env. Ingest (se_ref ex_session) 1 events iid now env db' = (Inl EpochStale, db'))"
proof -
  let ?s = "ex_session\<lparr>se_epoch := 1, se_state := StateInProgress\<rparr>"
  have "map_sum id fst (BeginAttempt ?s 9 ex_running_db) = Inr 2" by code_simp
  then obtain db' where b: "BeginAttempt ?s 9 ex_running_db = Inr (2, db')"
    by (cases "BeginAttempt ?s 9 ex_running_db") auto
  have "small_epoch ?s" "se_epoch ?s < 2147483647" by (simp_all add: small_epoch_def)
  from takeover_silences_the_old_connection [OF ex_running_ok b this] b show ?thesis by simp
qed

section \<open>Retries\<close>

abbreviation duplicate :: "control_event \<Rightarrow> event_outcome" where
  "duplicate e \<equiv> \<lparr>eo_event = cv_id e, eo_status = ''duplicate'', eo_reason = ''''\<rparr>"

lemma apply_event_again:
  assumes "control_ok db" and "stored_row s e \<in> set (db_events db)" and "visible sc (se_ref s)" and "may_store s e"
  shows "apply_event sc s e actor iid now db = (duplicate e, db)"
proof -
  have "evidence_row (ce_event (stored_row s e))" "ref_ok (se_ref s)"
    using assms(1,2) by (auto simp: control_ok_def)
  then have "InsertControlEvent sc (stored_row s e) db = UniqueViolation"
    using assms(2,3) by (auto simp: InsertControlEvent_def evidence_row_def)
  moreover have "ControlEventExists sc (cv_id e) db"
    using assms(2,3) unfolding ControlEventExists_def by (intro bexI [of _ "stored_row s e"]) simp_all
  ultimately show ?thesis using assms(4) by (simp add: apply_event_def may_store_def)
qed

definition resent_outcome :: "bool \<Rightarrow> control_event \<Rightarrow> event_outcome" where
  "resent_outcome sealed e =
     (if sealed \<and> cv_type e \<in> set conversationalEventTypes then refused e ''EVENT_AFTER_SEAL'' else duplicate e)"

lemma ingest_events_again:
  assumes "control_ok db" and "visible sc (se_ref s)"
    and "\<forall>e \<in> set es. stored_row s e \<in> set (db_events db) \<and> may_store s e"
  shows "ingest_events sc s sealed actor iid now n es db = (map (resent_outcome sealed) es, [], db)"
  using assms(3)
proof (induction es arbitrary: n)
  case (Cons e es)
  then have IH: "ingest_events sc s sealed actor iid now (Suc n) es db = (map (resent_outcome sealed) es, [], db)"
    and ap: "apply_event sc s e actor (iid n) now db = (duplicate e, db)"
    using apply_event_again [OF assms(1) _ assms(2)] by simp_all
  show ?case
    by (simp only: ingest_events.simps IH ap prod.case folds_def list.map resent_outcome_def [of sealed e]) simp
qed simp

text \<open>A retried batch converges. When every event of a batch already holds its slot in the session's current
  epoch, sending the batch again answers each of them as a duplicate, or as refused after the seal where
  the conversation is closed, stores nothing, records no interruption, publishes no event and moves no
  session: the database is what it was, but for the persisted cursor, and when that is up to date it is
  exactly what it was.\<close>

theorem resent_batch_converges:
  assumes "control_ok db" and "scope_of ref = Some sc" and "Get ref db = Inr s" and "visible sc (se_ref s)"
    and "\<forall>e \<in> set events. stored_row s e \<in> set (db_events db) \<and> may_store s e" and "se_epoch s \<noteq> 0"
  shows "\<exists>ack db'. Ingest ref (se_epoch s) events iid now env db = (Inr ack, db')
    \<and> ak_outcomes ack = map (resent_outcome (sealed_in sc (ref_session ref) db)) events
    \<and> (ak_accepted ack, ak_missing ack) = cursor sc (ref_session ref) (se_epoch s) db
    \<and> db' = db\<lparr>db_sessions := db_sessions db'\<rparr> \<and> list_all2 cursor_kept (db_sessions db) (db_sessions db')
    \<and> (ak_accepted ack \<le> se_accepted s \<longrightarrow> db' = db)"
proof -
  from assms(2,3) have get: "get sc (ref_session ref) db = Inr s" by (simp add: Get_def)
  then have i: "se_id s = ref_session ref" using find_session_Some by (auto simp: get_def split: option.splits)
  obtain acc missing where cur: "cursor sc (ref_session ref) (se_epoch s) db = (acc, missing)" by fastforce
  let ?outs = "map (resent_outcome (sealed_in sc (ref_session ref) db)) events"
  let ?db' = "if acc > se_accepted s then PersistCursor sc (ref_session ref) (se_epoch s) acc db else db"
  let ?ack = "\<lparr>ak_epoch = se_epoch s, ak_accepted = acc, ak_missing = missing, ak_outcomes = ?outs\<rparr>"
  have "ingest_batch ref (se_epoch s) events False iid now db
      = Inr (\<lparr>ig_session = s, ig_epoch = se_epoch s, ig_lifecycle = [], ig_outcomes = ?outs, ig_accepted = acc,
          ig_missing = missing\<rparr>, ?db')"
    using assms(6) ingest_events_again [OF assms(1,4,5)]
    by (simp add: ingest_batch_def assms(2) get Let_def cur i)
  then have run: "Ingest ref (se_epoch s) events iid now env db = (Inr ?ack, ?db')"
    by (simp add: Ingest_def ingest_def)
  have keep: "?db' = db\<lparr>db_sessions := db_sessions ?db'\<rparr> \<and> list_all2 cursor_kept (db_sessions db) (db_sessions ?db')"
  proof (cases "acc > se_accepted s")
    case True
    obtain ss where "PersistCursor sc (ref_session ref) (se_epoch s) acc db = db\<lparr>db_sessions := ss\<rparr>"
      "list_all2 cursor_kept (db_sessions db) ss" using PersistCursor_frame by blast
    with True show ?thesis by simp
  qed (simp add: list.rel_refl cursor_kept_refl)
  show ?thesis
    by (rule exI [of _ ?ack], rule exI [of _ ?db']) (use run keep cur in simp)
qed

definition ex_turn_db :: interview_db where
  "ex_turn_db = ex_running_db\<lparr>db_sessions := [ex_session\<lparr>se_epoch := 1, se_accepted := 1, se_state := StateInProgress\<rparr>],
     db_events := [ex_control_row 1 ''e1'']\<rparr>"

theorem resent_batch_converges_witness:
  "Ingest (se_ref ex_session) 1 [ex_event ''e1'' 1 segment_final] (\<lambda>_. ''i1'') 9 (\<lambda>_. (''x'', 0, id)) ex_turn_db
   = (Inr \<lparr>ak_epoch = 1, ak_accepted = 1, ak_missing = [], ak_outcomes = [duplicate (ex_event ''e1'' 1 segment_final)]\<rparr>,
      ex_turn_db)"
proof -
  let ?s = "ex_session\<lparr>se_epoch := 1, se_accepted := 1, se_state := StateInProgress\<rparr>"
  let ?es = "[ex_event ''e1'' 1 segment_final]"
  have row: "set (db_events ex_turn_db) = {ex_control_row 1 ''e1''}" by (simp add: ex_turn_db_def)
  have "evidence_row (ce_event (ex_control_row 1 ''e1''))" "ref_ok (ce_ref (ex_control_row 1 ''e1''))" by code_simp+
  moreover have "placed (db_sessions ex_turn_db) (ex_control_row 1 ''e1'')"
    by (simp add: placed_def ex_turn_db_def ex_control_row_def ex_event_def)
  ultimately have ok: "control_ok ex_turn_db"
    unfolding control_ok_def row by (simp add: ex_turn_db_def sessions_keyed_def small_epoch_def)
  have sc: "scope_of (se_ref ex_session) = Some (AsUser ''u1'')" and g: "Get (se_ref ex_session) ex_turn_db = Inr ?s"
    and v: "visible (AsUser ''u1'') (se_ref ?s)" and m: "may_store ?s (ex_event ''e1'' 1 segment_final)"
    and c: "cursor (AsUser ''u1'') (ref_session (se_ref ex_session)) (se_epoch ?s) ex_turn_db = (1, [])"
    and o: "map (resent_outcome (sealed_in (AsUser ''u1'') (ref_session (se_ref ex_session)) ex_turn_db)) ?es
      = [duplicate (ex_event ''e1'' 1 segment_final)]" by code_simp+
  have "stored_row ?s (ex_event ''e1'' 1 segment_final) = ex_control_row 1 ''e1''"
    by (simp add: stored_row_def ex_control_row_def ex_event_def to_int32_def)
  then have st: "\<forall>e \<in> set ?es. stored_row ?s e \<in> set (db_events ex_turn_db) \<and> may_store ?s e" using m row by simp
  from resent_batch_converges [OF ok sc g v st, of "\<lambda>_. ''i1''" 9 "\<lambda>_. (''x'', 0, id)"] c o obtain ack where
    "Ingest (se_ref ex_session) 1 ?es (\<lambda>_. ''i1'') 9 (\<lambda>_. (''x'', 0, id)) ex_turn_db = (Inr ack, ex_turn_db)"
    "ak_outcomes ack = [duplicate (ex_event ''e1'' 1 segment_final)]" "ak_accepted ack = 1" "ak_missing ack = []" by auto
  moreover have "map_sum id ak_epoch (fst (Ingest (se_ref ex_session) 1 ?es (\<lambda>_. ''i1'') 9 (\<lambda>_. (''x'', 0, id)) ex_turn_db)) = Inr 1"
    by code_simp
  ultimately show ?thesis by simp
qed

section \<open>Where the numbering is shared\<close>

text \<open>
  The agent's slots are assigned before its events are checked: an event of its batch that is refused has
  used its slot up, and as the next batch starts above the highest slot held, no later batch of the agent
  fills it.  The cursor of the epoch stops below the hole.
\<close>

lemma refused_agent_event_leaves_a_hole:
  "map_sum id (\<lambda>r. (ig_accepted (fst r), ig_missing (fst r), map eo_status (ig_outcomes (fst r))))
     (ingest_batch (se_ref ex_session) 0 [ex_event ''e1'' 0 ''made.up'', ex_event ''e2'' 0 ''turn.boundary''] True
       (\<lambda>_. ''i1'') 9 ex_running_db)
   = Inr (0, [(1, 1)], [''refused'', ''accepted''])"
  by code_simp

lemma assign_slots_above:
  "e \<in> set (assign_slots ep n es) \<Longrightarrow> cv_type e \<notin> set ephemeralEventTypes \<Longrightarrow> n \<le> cv_sequence e"
  by (induction es arbitrary: n) (fastforce split: if_splits)+

text \<open>Browser and agent number the same slots: the browser's first event finds the agent's in its place.\<close>

lemma agent_takes_the_browsers_slot:
  "(case ingest_batch (se_ref ex_session) 0 [ex_event ''e1'' 0 ''turn.boundary''] True (\<lambda>_. ''i1'') 9 ex_running_db of
      Inl _ \<Rightarrow> []
    | Inr (_, db) \<Rightarrow>
        (case ingest_batch (se_ref ex_session) 1 [ex_event ''e2'' 1 segment_final] False (\<lambda>_. ''i1'') 9 db of
           Inl _ \<Rightarrow> [] | Inr (ig, _) \<Rightarrow> map eo_reason (ig_outcomes ig)))
   = [''SEQUENCE_CONFLICT'']"
  by code_simp

text \<open>A sequence is cut to 32 bits on its way to the table: this one lands in slot 1.\<close>

lemma long_sequence_wraps:
  "cv_sequence (ce_event (stored_row ex_session (ex_event ''e1'' 4294967297 ''turn.boundary''))) = 1
   \<and> refusal ex_session (ex_event ''e1'' 4294967297 ''turn.boundary'') = None"
  by code_simp

end
