(* ===== verification/Object_Keys.thy ===== *)
theory Object_Keys
  imports Prelude
begin

text \<open>
  \<open>services/platform/platform/objectstore/key.go\<close>: where the objects of a session and of a candidate are
  stored.  A key is joined from its parts by Go's \<open>path.Join\<close>, which also cleans the path; the name is
  checked, the identifiers are only required.  The last section shows that keys of plain parts tell their
  owner, and what the cleaning does to parts that are not plain.
\<close>

section \<open>Paths\<close>

text \<open>Text split at the slashes, and \<open>path.Clean\<close> of a relative path as the list of its elements.\<close>

fun split_at :: "char \<Rightarrow> string \<Rightarrow> string list" where
  "split_at c [] = [[]]"
| "split_at c (x # xs) =
     (if x = c then [] # split_at c xs
      else case split_at c xs of [] \<Rightarrow> [[x]] | p # ps \<Rightarrow> (x # p) # ps)"

fun join_slash :: "string list \<Rightarrow> string" where
  "join_slash [] = ''''"
| "join_slash [p] = p"
| "join_slash (p # q # ps) = p @ ''/'' @ join_slash (q # ps)"

text \<open>The elements kept so far are in reverse order; \<open>..\<close> drops the last of them when there is one to drop.\<close>

fun clean_elements :: "string list \<Rightarrow> string list \<Rightarrow> string list" where
  "clean_elements kept [] = rev kept"
| "clean_elements kept (p # ps) =
     (if p = '''' \<or> p = ''.'' then clean_elements kept ps
      else if p = ''..'' then
        (case kept of
           [] \<Rightarrow> clean_elements [''..''] ps
         | k # ks \<Rightarrow> if k = ''..'' then clean_elements (''..'' # kept) ps else clean_elements ks ps)
      else clean_elements (p # kept) ps)"

text \<open>\<open>path.Join\<close> of elements the first of which is a plain word: the result is never rooted nor empty here.\<close>

definition path_join :: "string list \<Rightarrow> string" where
  "path_join parts =
     join_slash (clean_elements [] (concat (map (split_at (CHR ''/'')) (filter (\<lambda>p. p \<noteq> '''') parts))))"

section \<open>Keys\<close>

definition PurposeMedia :: string where "PurposeMedia = ''media''"
definition PurposeDocument :: string where "PurposeDocument = ''document''"
definition PurposeExport :: string where "PurposeExport = ''export''"
definition PurposeTranscript :: string where "PurposeTranscript = ''transcript''"

definition valid_purpose :: "string \<Rightarrow> bool" where
  "valid_purpose p \<longleftrightarrow> p \<in> {PurposeMedia, PurposeDocument, PurposeExport, PurposeTranscript}"

datatype invalid_key =
    TenantRequired | SessionRequired | UnknownPurpose string | UserRequired | PartsRequired
  | NameRequired | NameTooLong | NameHasSeparator string | NameIsElement string | NameTraverses string
  | NameHasControl | NotAStoredKey string

text \<open>The name as Go ranges over it: bytes of a UTF-8 text below the control bound stand for themselves.\<close>

definition control_char :: "char \<Rightarrow> bool" where
  "control_char c \<longleftrightarrow> (of_char c :: nat) < 32 \<or> (of_char c :: nat) = 127"

definition validateName :: "string \<Rightarrow> invalid_key option" where
  "validateName name =
     (if name = '''' then Some NameRequired
      else if length name > 255 then Some NameTooLong
      else if CHR ''/'' \<in> set name \<or> char_of (92 :: nat) \<in> set name then Some (NameHasSeparator name)
      else if name = ''.'' \<or> name = ''..'' then Some (NameIsElement name)
      else if Contains name ''..'' then Some (NameTraverses name)
      else if list_ex control_char name then Some NameHasControl
      else None)"

record key_parts =
  kp_tenant :: string
  kp_session :: string
  kp_purpose :: string
  kp_name :: string

definition NewKey :: "key_parts \<Rightarrow> invalid_key + string" where
  "NewKey p =
     (if kp_tenant p = '''' then Inl TenantRequired
      else if kp_session p = '''' then Inl SessionRequired
      else if \<not> valid_purpose (kp_purpose p) then Inl (UnknownPurpose (kp_purpose p))
      else case validateName (kp_name p) of
        Some e \<Rightarrow> Inl e
      | None \<Rightarrow> Inr (path_join [''tenant'', kp_tenant p, ''session'', kp_session p, kp_purpose p, kp_name p]))"

definition NewCandidateKey :: "string \<Rightarrow> string \<Rightarrow> invalid_key + string" where
  "NewCandidateKey user name =
     (if user = '''' then Inl UserRequired
      else case validateName name of
        Some e \<Rightarrow> Inl e
      | None \<Rightarrow> Inr (path_join [''candidate'', user, PurposeDocument, name]))"

definition key_prefix :: "string \<Rightarrow> string \<Rightarrow> string \<Rightarrow> invalid_key + string" where
  "key_prefix tenant session purpose =
     (if tenant = '''' \<or> session = '''' \<or> \<not> valid_purpose purpose then Inl PartsRequired
      else Inr (path_join [''tenant'', tenant, ''session'', session, purpose] @ ''/''))"

definition NewPracticeSessionKey :: "string \<Rightarrow> string \<Rightarrow> string \<Rightarrow> string \<Rightarrow> invalid_key + string" where
  "NewPracticeSessionKey candidate session purpose name =
     (if candidate = '''' \<or> session = '''' \<or> \<not> valid_purpose purpose then Inl PartsRequired
      else case validateName name of
        Some e \<Rightarrow> Inl e
      | None \<Rightarrow> Inr (path_join [''candidate'', candidate, ''session'', session, purpose, name]))"

definition SealedInputSiblingKey ::
  "string \<Rightarrow> string \<Rightarrow> string \<Rightarrow> string \<Rightarrow> string \<Rightarrow> string \<Rightarrow> invalid_key + string" where
  "SealedInputSiblingKey mode tenant candidate session purpose name =
     (if mode = ''practice'' then NewPracticeSessionKey candidate session purpose name
      else NewKey \<lparr>kp_tenant = tenant, kp_session = session, kp_purpose = purpose, kp_name = name\<rparr>)"

definition SealedInputKey :: "string \<Rightarrow> string \<Rightarrow> string \<Rightarrow> string \<Rightarrow> invalid_key + string" where
  "SealedInputKey mode tenant candidate session =
     (if mode = ''practice'' then NewPracticeSessionKey candidate session PurposeTranscript ''evaluation-input.json''
      else NewKey \<lparr>kp_tenant = tenant, kp_session = session, kp_purpose = PurposeTranscript,
        kp_name = ''evaluation-input.json''\<rparr>)"

definition ParseKey :: "string \<Rightarrow> invalid_key + string" where
  "ParseKey v =
     (if v = '''' \<or> prefix ''/'' v \<or> Contains v ''..'' then Inl (NotAStoredKey v) else Inr v)"

definition MinPresignTTL :: duration where "MinPresignTTL = 30 * second"
definition MaxPresignTTL :: duration where "MaxPresignTTL = 15 * minute"

definition ClampTTL :: "duration \<Rightarrow> duration" where
  "ClampTTL d = (if d < MinPresignTTL then MinPresignTTL else if d > MaxPresignTTL then MaxPresignTTL else d)"

section \<open>Keys tell their owner\<close>

definition plain_part :: "string \<Rightarrow> bool" where
  "plain_part p \<longleftrightarrow> p \<noteq> '''' \<and> CHR ''/'' \<notin> set p \<and> \<not> Contains p ''..'' \<and> p \<noteq> ''.''"

lemma split_at_some: "split_at c xs \<noteq> []"
  by (induction xs) (auto split: list.split)

lemma split_at_plain: "c \<notin> set p \<Longrightarrow> split_at c p = [p]"
  by (induction p) auto

lemma split_at_append: "c \<notin> set p \<Longrightarrow> split_at c (p @ c # q) = p # split_at c q"
  by (induction p) auto

lemma split_join: "list_all (\<lambda>p. CHR ''/'' \<notin> set p) ps \<Longrightarrow> ps \<noteq> [] \<Longrightarrow> split_at (CHR ''/'') (join_slash ps) = ps"
  by (induction ps rule: join_slash.induct) (simp_all add: split_at_plain split_at_append)

lemma clean_plain: "list_all plain_part ps \<Longrightarrow> clean_elements kept ps = rev kept @ ps"
  by (induction ps arbitrary: kept) (auto simp: plain_part_def Contains_def)

lemma path_join_plain:
  assumes "list_all plain_part ps"
  shows "path_join ps = join_slash ps"
proof -
  have "filter (\<lambda>p. p \<noteq> '''') ps = ps" using assms by (simp add: list_all_iff plain_part_def filter_id_conv)
  moreover have "concat (map (split_at (CHR ''/'')) ps) = ps"
    using assms by (induction ps) (auto simp: plain_part_def split_at_plain)
  ultimately show ?thesis using clean_plain [OF assms, of "[]"] by (simp add: path_join_def)
qed

lemma split_path_join:
  assumes "list_all plain_part ps" and "ps \<noteq> []"
  shows "split_at (CHR ''/'') (path_join ps) = ps"
  unfolding path_join_plain [OF assms(1)] using assms
  by (intro split_join) (simp_all add: list_all_iff plain_part_def)

lemma validName_plain: "validateName n = None \<Longrightarrow> plain_part n"
  by (auto simp: validateName_def plain_part_def split: if_splits)

lemma plain_words [simp]:
  "plain_part ''tenant''" "plain_part ''candidate''" "plain_part ''session''" "plain_part ''document''"
  "valid_purpose p \<Longrightarrow> plain_part p"
proof -
  show "plain_part ''tenant''" "plain_part ''candidate''" "plain_part ''session''" "plain_part ''document''" by code_simp+
  have "plain_part PurposeMedia" "plain_part PurposeDocument" "plain_part PurposeExport" "plain_part PurposeTranscript"
    by code_simp+
  then show "valid_purpose p \<Longrightarrow> plain_part p" by (auto simp: valid_purpose_def)
qed

definition key_owner :: "string \<Rightarrow> string \<Rightarrow> string \<Rightarrow> string \<times> string" where
  "key_owner mode tenant candidate =
     (if mode = ''practice'' then (''candidate'', candidate) else (''tenant'', tenant))"

definition key_elements :: "string \<Rightarrow> string \<Rightarrow> string \<Rightarrow> string \<Rightarrow> string \<Rightarrow> string \<Rightarrow> string list" where
  "key_elements mode tenant candidate session purpose name =
     [fst (key_owner mode tenant candidate), snd (key_owner mode tenant candidate), ''session'', session, purpose, name]"

lemma sibling_key_path:
  assumes "SealedInputSiblingKey mode tenant candidate session purpose name = Inr k"
    and "plain_part (snd (key_owner mode tenant candidate))" and "plain_part session"
  shows "k = path_join (key_elements mode tenant candidate session purpose name)"
    and "list_all plain_part (key_elements mode tenant candidate session purpose name)"
proof -
  have *: "k = path_join (key_elements mode tenant candidate session purpose name)
      \<and> valid_purpose purpose \<and> validateName name = None"
    using assms(1) by (auto simp: SealedInputSiblingKey_def NewPracticeSessionKey_def NewKey_def key_owner_def key_elements_def
      split: if_splits option.splits)
  then show "k = path_join (key_elements mode tenant candidate session purpose name)" by simp
  from * assms(2,3) validName_plain
  show "list_all plain_part (key_elements mode tenant candidate session purpose name)" by (simp add: key_owner_def key_elements_def)
qed

lemma sibling_key_elements:
  assumes "SealedInputSiblingKey mode tenant candidate session purpose name = Inr k"
    and "plain_part (snd (key_owner mode tenant candidate))" and "plain_part session"
  shows "split_at (CHR ''/'') k
    = [fst (key_owner mode tenant candidate), snd (key_owner mode tenant candidate), ''session'', session, purpose, name]"
  using split_path_join [OF sibling_key_path(2) [OF assms]] by (simp add: sibling_key_path(1) [OF assms] key_elements_def)

text \<open>What is read back: two dots do not straddle a slash, so a path of plain parts has none.\<close>

lemma Contains_dots_Cons: "Contains (c # s) ''..'' \<longleftrightarrow> (c = CHR ''.'' \<and> (\<exists>s'. s = CHR ''.'' # s')) \<or> Contains s ''..''"
  by (cases s) (auto simp: Contains_def sublist_Cons_right)

lemma Contains_dots_slash: "Contains (p @ CHR ''/'' # q) ''..'' \<longleftrightarrow> Contains p ''..'' \<or> Contains q ''..''"
proof (induction p)
  case Nil
  show ?case by (simp add: Contains_dots_Cons) (simp add: Contains_def)
next
  case (Cons c p)
  then show ?case by (cases p) (auto simp: Contains_dots_Cons)
qed

lemma plain_path_admitted: "list_all plain_part ps \<Longrightarrow> ps \<noteq> [] \<Longrightarrow> ParseKey (path_join ps) = Inr (path_join ps)"
proof -
  assume ps: "list_all plain_part ps" "ps \<noteq> []"
  have "join_slash ps \<noteq> '''' \<and> \<not> prefix ''/'' (join_slash ps) \<and> \<not> Contains (join_slash ps) ''..''"
    using ps
  proof (induction ps rule: join_slash.induct)
    case (2 p)
    then show ?case by (cases p) (auto simp: plain_part_def)
  next
    case (3 p q ps)
    then show ?case by (cases p) (auto simp: plain_part_def Contains_dots_slash [of "_ # _", simplified])
  qed simp
  then show ?thesis by (simp add: ParseKey_def path_join_plain [OF ps(1)])
qed

lemma split_at_pieces: "split_at c xs = p # ps \<Longrightarrow> prefix p xs \<and> (\<forall>q \<in> set ps. sublist q xs)"
proof (induction xs arbitrary: p ps)
  case (Cons x xs)
  obtain q qs where split: "split_at c xs = q # qs" by (cases "split_at c xs") (use split_at_some in auto)
  from Cons.IH [OF split] have q: "prefix q xs" "\<forall>r \<in> set qs. sublist r xs" by blast+
  then have "sublist r (x # xs)" if "r \<in> set (q # qs)" for r
    using that by (auto simp: sublist_Cons_right prefix_imp_sublist)
  then have pieces: "\<forall>r \<in> set (q # qs). sublist r (x # xs)" by blast
  show ?case
  proof (cases "x = c")
    case True
    with Cons.prems split have "p = ''''" "ps = q # qs" by simp_all
    with pieces show ?thesis by simp
  next
    case False
    with Cons.prems split have "p = x # q" "ps = qs" by simp_all
    with pieces q(1) show ?thesis by simp
  qed
qed simp

lemma ParseKey_Inr:
  assumes "ParseKey v = Inr w"
  shows "w = v \<and> \<not> prefix ''/'' w \<and> ''..'' \<notin> set (split_at (CHR ''/'') w)"
proof -
  from assms have w: "w = v" "\<not> prefix ''/'' w" "\<not> sublist ''..'' w"
    by (auto simp: ParseKey_def Contains_def split: if_splits)
  obtain p ps where split: "split_at (CHR ''/'') w = p # ps"
    by (cases "split_at (CHR ''/'') w") (use split_at_some in auto)
  from split_at_pieces [OF split] w(3) prefix_imp_sublist have "''..'' \<notin> set (p # ps)" by auto
  with w split show ?thesis by simp
qed

text \<open>C35: A stored object tells whose it is. Where the identifiers are plain words, the key of a session's object
  splits at its slashes into exactly the owner it was derived from (the candidate for practice, the tenant
  for screening), the session, the purpose and the name: two objects share a key only if they share all of
  them, so no name a caller supplies reaches another owner's, session's or purpose's prefix. Read back from
  the row that stores it, the key is admitted, and as itself; and whatever stored text is admitted is admitted
  as it is, is not rooted, and has no element that climbs.\<close>

theorem keys_tell_their_owner:
  assumes "SealedInputSiblingKey mode tenant candidate session purpose name = Inr k"
    and "plain_part (snd (key_owner mode tenant candidate))" and "plain_part session"
    and "SealedInputSiblingKey mode' tenant' candidate' session' purpose' name' = Inr k"
    and "plain_part (snd (key_owner mode' tenant' candidate'))" and "plain_part session'"
  shows "split_at (CHR ''/'') k = [fst (key_owner mode tenant candidate), snd (key_owner mode tenant candidate),
      ''session'', session, purpose, name]
    \<and> key_owner mode tenant candidate = key_owner mode' tenant' candidate' \<and> session = session' \<and> purpose = purpose'
    \<and> name = name'
    \<and> (mode \<noteq> ''practice'' \<longrightarrow> (\<exists>pre. key_prefix tenant session purpose = Inr pre \<and> k = pre @ name))
    \<and> ParseKey k = Inr k
    \<and> (\<forall>v w. ParseKey v = Inr w \<longrightarrow> w = v \<and> \<not> prefix ''/'' w \<and> ''..'' \<notin> set (split_at (CHR ''/'') w))"
proof -
  note a = sibling_key_elements [OF assms(1-3)] and b = sibling_key_elements [OF assms(4-6)]
  have "\<exists>pre. key_prefix tenant session purpose = Inr pre \<and> k = pre @ name" if m: "mode \<noteq> ''practice''"
  proof -
    from assms(1) m have k: "k = path_join [''tenant'', tenant, ''session'', session, purpose, name]"
      and v: "valid_purpose purpose" "validateName name = None"
      by (auto simp: SealedInputSiblingKey_def NewKey_def split: if_splits option.splits)
    from assms(2) m have t: "plain_part tenant" by (simp add: key_owner_def)
    have "list_all plain_part [''tenant'', tenant, ''session'', session, purpose, name]"
      "list_all plain_part [''tenant'', tenant, ''session'', session, purpose]"
      using t v validName_plain assms(3) by simp_all
    then have "path_join [''tenant'', tenant, ''session'', session, purpose, name]
        = path_join [''tenant'', tenant, ''session'', session, purpose] @ ''/'' @ name"
      by (simp add: path_join_plain)
    moreover have "tenant \<noteq> ''''" "session \<noteq> ''''" using t assms(3) by (simp_all add: plain_part_def)
    ultimately show ?thesis by (simp add: key_prefix_def v k)
  qed
  moreover have "ParseKey k = Inr k"
    using plain_path_admitted [OF sibling_key_path(2) [OF assms(1-3)]] sibling_key_path(1) [OF assms(1-3)]
    by (simp add: key_elements_def)
  moreover have "\<forall>v w. ParseKey v = Inr w \<longrightarrow> w = v \<and> \<not> prefix ''/'' w \<and> ''..'' \<notin> set (split_at (CHR ''/'') w)"
    using ParseKey_Inr by blast
  ultimately show ?thesis using a b by (simp add: prod_eq_iff)
qed

theorem keys_tell_their_owner_witness:
  "SealedInputSiblingKey ''screening'' ''t1'' ''u1'' ''s1'' PurposeMedia ''candidate.webm''
     = Inr ''tenant/t1/session/s1/media/candidate.webm''
   \<and> split_at (CHR ''/'') ''tenant/t1/session/s1/media/candidate.webm''
     = [''tenant'', ''t1'', ''session'', ''s1'', PurposeMedia, ''candidate.webm'']
   \<and> ParseKey ''tenant/t1/session/s1/media/candidate.webm'' = Inr ''tenant/t1/session/s1/media/candidate.webm''"
proof -
  have k: "SealedInputSiblingKey ''screening'' ''t1'' ''u1'' ''s1'' PurposeMedia ''candidate.webm''
     = Inr ''tenant/t1/session/s1/media/candidate.webm''"
    and p: "plain_part (snd (key_owner ''screening'' ''t1'' ''u1''))" "plain_part ''s1''"
    and o: "key_owner ''screening'' ''t1'' ''u1'' = (''tenant'', ''t1'')" by code_simp+
  from keys_tell_their_owner [OF k p k p] k o show ?thesis by simp
qed

text \<open>
  The identifiers themselves are required but not checked, and joining cleans: a session identifier with
  a traversal in it derives a key under another tenant.
\<close>

lemma traversing_session_reaches_another_tenant:
  "NewKey \<lparr>kp_tenant = ''t1'', kp_session = ''../../t2/session/s2'', kp_purpose = PurposeMedia, kp_name = ''a.webm''\<rparr>
   = Inr ''tenant/t2/session/s2/media/a.webm''"
  by code_simp

end
