(* ===== verification/Recording.thy ===== *)
theory Recording
  imports Control_Events Object_Keys
begin

text \<open>
  \<open>services/platform/internal/interview/media.go\<close>: which egress is writing which track of a session, and
  what completion may say of it.  A track is claimed before its egress starts, the egress is recorded on
  the claim, and finalizing reads every object back.  The recorder and the object store are arguments: the
  answer of one call to \<open>StartTrack\<close>, and what \<open>Stat\<close> finds under a key.  Each function here is a
  transaction of its own; the calls of \<open>StartRecording\<close> are interleaved with what others do.
\<close>

definition recordedTracks :: "string list" where
  "recordedTracks = [''candidate'', ''interviewer'']"

definition recordableStates :: "state list" where
  "recordableStates = [StateConnecting, StateInProgress, StateReconnecting]"

definition trackKey :: "session \<Rightarrow> string \<Rightarrow> interview_error + string" where
  "trackKey s track =
     (case SealedInputSiblingKey (ref_mode (se_ref s)) (ref_tenant (se_ref s)) (ref_candidate (se_ref s)) (se_id s)
             PurposeMedia (track @ ''.webm'') of
        Inl _ \<Rightarrow> Inl (Unavailable ''invalid key parts'') | Inr k \<Rightarrow> Inr k)"

section \<open>Claims\<close>

definition track_is :: "string \<Rightarrow> string \<Rightarrow> track_row \<Rightarrow> bool" where
  "track_is i track r \<longleftrightarrow> ref_session (mt_ref r) = i \<and> mt_track r = track"

definition defaultClaimStaleAfter :: duration where "defaultClaimStaleAfter = 2 * minute"

text \<open>The zero of PostgreSQL's clock, in nanoseconds since year 1.\<close>

definition unix_epoch :: time where "unix_epoch = 62135596800 * second"

text \<open>
  The insert with its conflict branch: a slot nobody holds is taken; a claim without an egress that is
  older than the window is adopted; otherwise no row is affected.  A resolved row refuses the update,
  by its trigger, and a row the scope cannot see refuses it by its policy.
\<close>

definition ClaimMediaTrack ::
  "row_scope \<Rightarrow> session \<Rightarrow> string \<Rightarrow> string \<Rightarrow> duration \<Rightarrow> time \<Rightarrow> interview_db \<Rightarrow> interview_error + nat \<times> interview_db" where
  "ClaimMediaTrack sc s track key stale_after now db =
     (if \<not> visible sc (se_ref s) \<or> \<not> ref_ok (se_ref s) \<or> track \<notin> set recordedTracks then Inl DatabaseRefused
      else case find (track_is (se_id s) track) (db_tracks db) of
        None \<Rightarrow>
          (if se_id s \<notin> se_id ` set (db_sessions db) then Inl DatabaseRefused
           else Inr (1, db\<lparr>db_tracks := db_tracks db @
             [\<lparr>mt_ref = se_ref s, mt_track = track, mt_key = key, mt_egress = '''', mt_state = ''recording'',
               mt_digest = '''', mt_size = 0, mt_created_at = now\<rparr>]\<rparr>))
      | Some r \<Rightarrow>
          (if \<not> visible sc (mt_ref r) then Inl DatabaseRefused
           else if mt_egress r = '''' \<and> mt_created_at r < now - stale_after then
             (if mt_state r \<noteq> ''recording'' then Inl DatabaseRefused
              else Inr (1, db\<lparr>db_tracks := map (\<lambda>x. if track_is (se_id s) track x
                     then x\<lparr>mt_key := key, mt_created_at := now\<rparr> else x) (db_tracks db)\<rparr>))
           else Inr (0, db)))"

text \<open>A failed claim is rolled back, so the database it leaves is the one it found.\<close>

definition claimTrack ::
  "session \<Rightarrow> string \<Rightarrow> string \<Rightarrow> duration \<Rightarrow> time \<Rightarrow> interview_db \<Rightarrow> interview_error + bool \<times> interview_db" where
  "claimTrack s track key stale_after now db =
     (case scope_of (se_ref s) of
        None \<Rightarrow> Inl EmptyScope
      | Some sc \<Rightarrow>
          (if sealed_in sc (se_id s) db then Inr (False, db)
           else case find_session sc (se_id s) db of
             None \<Rightarrow> Inl (Unavailable ''reading the session to record'')
           | Some current \<Rightarrow>
               (if se_state current \<notin> set recordableStates then Inr (False, db)
                else bindE (ClaimMediaTrack sc s track key stale_after now db)
                  (\<lambda>(rows, db'). if rows = 0 then Inr (False, db) else Inr (True, db')))))"

text \<open>An update of the track rows a guard admits; the trigger refuses to touch a resolved row, and the row's
  own constraints the size of an object below zero.\<close>

definition track_row_ok :: "track_row \<Rightarrow> bool" where
  "track_row_ok r \<longleftrightarrow> mt_state r \<in> {''recording'', ''finalized'', ''missing''} \<and> 0 \<le> mt_size r"

definition update_tracks ::
  "session \<Rightarrow> string \<Rightarrow> (track_row \<Rightarrow> bool) \<Rightarrow> (track_row \<Rightarrow> track_row) \<Rightarrow> interview_db \<Rightarrow> interview_error + interview_db" where
  "update_tracks s track guard f db =
     (case scope_of (se_ref s) of
        None \<Rightarrow> Inl EmptyScope
      | Some sc \<Rightarrow>
          (let hit = (\<lambda>r. track_is (se_id s) track r \<and> visible sc (mt_ref r) \<and> guard r) in
           if \<exists>r \<in> set (db_tracks db). hit r \<and> (mt_state r \<noteq> ''recording'' \<or> \<not> track_row_ok (f r)) then Inl DatabaseRefused
           else Inr (db\<lparr>db_tracks := map (\<lambda>r. if hit r then f r else r) (db_tracks db)\<rparr>)))"

definition releaseClaim :: "session \<Rightarrow> string \<Rightarrow> interview_db \<Rightarrow> interview_error + interview_db" where
  "releaseClaim s track = update_tracks s track (\<lambda>r. mt_egress r = '''') (\<lambda>r. r\<lparr>mt_created_at := unix_epoch\<rparr>)"

definition recordEgress :: "session \<Rightarrow> string \<Rightarrow> string \<Rightarrow> interview_db \<Rightarrow> interview_error + interview_db" where
  "recordEgress s track egress = update_tracks s track (\<lambda>r. mt_egress r = '''') (\<lambda>r. r\<lparr>mt_egress := egress\<rparr>)"

definition resolveTrack ::
  "session \<Rightarrow> string \<Rightarrow> string \<Rightarrow> string \<Rightarrow> int \<Rightarrow> interview_db \<Rightarrow> interview_error + interview_db" where
  "resolveTrack s track st digest bytes =
     update_tracks s track (\<lambda>r. mt_state r = ''recording'')
       (\<lambda>r. r\<lparr>mt_state := st, mt_digest := digest, mt_size := bytes\<rparr>)"

section \<open>Starting to record\<close>

text \<open>
  What one track's turn meets: the time of its claim, the recorder's answer (an egress identifier, or
  \<open>None\<close> when it fails), and what others do before the claim and before the record.
\<close>

record track_turn =
  tt_now :: time
  tt_answer :: "string option"
  tt_before :: "interview_db \<Rightarrow> interview_db"
  tt_meanwhile :: "interview_db \<Rightarrow> interview_db"

text \<open>The egresses the provider was asked to start are the second component.\<close>

fun start_tracks ::
  "duration \<Rightarrow> session \<Rightarrow> string list \<Rightarrow> (string \<Rightarrow> track_turn) \<Rightarrow> interview_db
     \<Rightarrow> interview_error option \<times> (string \<times> string) list \<times> interview_db" where
  "start_tracks stale s [] turn db = (None, [], db)"
| "start_tracks stale s (track # tracks) turn db =
     (case trackKey s track of
        Inl e \<Rightarrow> (Some e, [], db)
      | Inr key \<Rightarrow>
          (case claimTrack s track key stale (tt_now (turn track)) (tt_before (turn track) db) of
             Inl e \<Rightarrow> (Some e, [], tt_before (turn track) db)
           | Inr (False, db1) \<Rightarrow> start_tracks stale s tracks turn db1
           | Inr (True, db1) \<Rightarrow>
               (let identity = (if track = ''candidate'' then ref_candidate (se_ref s) else track);
                    db2 = tt_meanwhile (turn track) db1 in
                case tt_answer (turn track) of
                  None \<Rightarrow>
                    (case releaseClaim s track db2 of
                       Inl _ \<Rightarrow> (Some (Unavailable ''starting egress''), [(identity, key)], db2)
                     | Inr db3 \<Rightarrow> (Some (Unavailable ''starting egress''), [(identity, key)], db3))
                | Some egress \<Rightarrow>
                    (case recordEgress s track egress db2 of
                       Inl e \<Rightarrow> (Some e, [(identity, key)], db2)
                     | Inr db3 \<Rightarrow>
                         (case start_tracks stale s tracks turn db3 of
                            (err, asked, db4) \<Rightarrow> (err, (identity, key) # asked, db4))))))"

definition StartRecording ::
  "session \<Rightarrow> (string \<Rightarrow> track_turn) \<Rightarrow> interview_db \<Rightarrow> interview_error option \<times> (string \<times> string) list \<times> interview_db" where
  "StartRecording s turn db =
     (if se_preference s \<noteq> ''audio_and_transcript'' then (None, [], db)
      else start_tracks defaultClaimStaleAfter s recordedTracks turn db)"

section \<open>Finalizing\<close>

definition MediaTracks :: "session \<Rightarrow> interview_db \<Rightarrow> interview_error + track_row list" where
  "MediaTracks s db =
     (case scope_of (se_ref s) of
        None \<Rightarrow> Inl EmptyScope
      | Some sc \<Rightarrow> Inr (sort_key mt_track
          (filter (\<lambda>r. ref_session (mt_ref r) = se_id s \<and> visible sc (mt_ref r)) (db_tracks db))))"

text \<open>What the prober answers for a key: \<open>None\<close> is its error.\<close>

type_synonym prober = "string \<Rightarrow> (nat \<times> string) option"

definition verdict :: "prober \<Rightarrow> track_row \<Rightarrow> string \<times> string \<times> int" where
  "verdict stat r =
     (case stat (mt_key r) of
        None \<Rightarrow> (''missing'', '''', 0)
      | Some (bytes, digest) \<Rightarrow> if bytes = 0 then (''missing'', '''', 0) else (''finalized'', digest, int bytes))"

fun finalize_tracks ::
  "prober \<Rightarrow> session \<Rightarrow> track_row list \<Rightarrow> string \<Rightarrow> interview_db \<Rightarrow> interview_error + string \<times> interview_db" where
  "finalize_tracks stat s [] status db = Inr (status, db)"
| "finalize_tracks stat s (r # rs) status db =
     (if mt_state r \<noteq> ''recording''
      then finalize_tracks stat s rs (if mt_state r = ''missing'' then ''missing'' else status) db
      else case verdict stat r of
        (st, digest, bytes) \<Rightarrow>
          bindE (resolveTrack s (mt_track r) st digest bytes db)
            (finalize_tracks stat s rs (if st = ''missing'' then ''missing'' else status)))"

definition FinalizeRecording :: "prober \<Rightarrow> session \<Rightarrow> interview_db \<Rightarrow> interview_error + string \<times> interview_db" where
  "FinalizeRecording stat s db =
     bindE (MediaTracks s db)
       (\<lambda>tracks. if tracks = [] then Inr (''missing'', db) else finalize_tracks stat s tracks ''finalized'' db)"

section \<open>One egress for a track\<close>

definition track_key :: "track_row \<Rightarrow> string \<times> string" where
  "track_key r = (ref_session (mt_ref r), mt_track r)"

definition tracks_keyed :: "interview_db \<Rightarrow> bool" where
  "tracks_keyed db \<longleftrightarrow> distinct (map track_key (db_tracks db))"

lemma track_is_key: "track_is i track r \<longleftrightarrow> track_key r = (i, track)"
  by (auto simp: track_is_def track_key_def)

lemma tracks_keyed_unique:
  "tracks_keyed db \<Longrightarrow> r \<in> set (db_tracks db) \<Longrightarrow> x \<in> set (db_tracks db) \<Longrightarrow> track_key r = track_key x \<Longrightarrow> r = x"
  unfolding tracks_keyed_def distinct_map by (auto dest: inj_onD)

inductive track_step :: "interview_db \<Rightarrow> interview_db \<Rightarrow> bool" where
  claims: "claimTrack s track key stale now db = Inr (True, db') \<Longrightarrow> track_step db db'"
| releases: "releaseClaim s track db = Inr db' \<Longrightarrow> track_step db db'"
| records: "recordEgress s track egress db = Inr db' \<Longrightarrow> track_step db db'"
| resolves: "resolveTrack s track st digest bytes db = Inr db' \<Longrightarrow> track_step db db'"
| elsewhere: "db_tracks db' = db_tracks db \<Longrightarrow> track_step db db'"

text \<open>What no step takes back: a recorded egress with its key, and a resolved row as a whole.\<close>

definition track_stays :: "track_row \<Rightarrow> track_row \<Rightarrow> bool" where
  "track_stays r r' \<longleftrightarrow> track_key r' = track_key r \<and> mt_ref r' = mt_ref r \<and> mt_egress r' = mt_egress r
     \<and> mt_key r' = mt_key r \<and> (mt_state r \<noteq> ''recording'' \<longrightarrow> r' = r)"

lemma track_stays_refl [simp]: "track_stays r r"
  by (simp add: track_stays_def)

lemma track_stays_trans: "track_stays a b \<Longrightarrow> track_stays b c \<Longrightarrow> track_stays a c"
  by (auto simp: track_stays_def)

lemma update_tracks_Inr:
  assumes "update_tracks s track guard f db = Inr db'"
  shows "\<exists>sc. scope_of (se_ref s) = Some sc
    \<and> db' = db\<lparr>db_tracks := map (\<lambda>r. if track_is (se_id s) track r \<and> visible sc (mt_ref r) \<and> guard r then f r else r) (db_tracks db)\<rparr>
    \<and> (\<forall>r \<in> set (db_tracks db). track_is (se_id s) track r \<and> visible sc (mt_ref r) \<and> guard r \<longrightarrow>
         mt_state r = ''recording'' \<and> track_row_ok (f r))"
  using assms by (auto simp: update_tracks_def Let_def split: option.splits if_splits)

lemma update_tracks_step:
  assumes "update_tracks s track guard f db = Inr db'"
    and "\<And>r. track_key (f r) = track_key r"
    and "\<And>r. guard r \<Longrightarrow> mt_egress r \<noteq> '''' \<Longrightarrow> mt_state r = ''recording'' \<Longrightarrow> track_stays r (f r)"
  shows "map track_key (db_tracks db') = map track_key (db_tracks db)"
    and "r \<in> set (db_tracks db) \<Longrightarrow> mt_egress r \<noteq> '''' \<Longrightarrow> \<exists>r' \<in> set (db_tracks db'). track_stays r r'"
proof -
  from update_tracks_Inr [OF assms(1)] obtain sc where
    db': "db' = db\<lparr>db_tracks := map (\<lambda>r. if track_is (se_id s) track r \<and> visible sc (mt_ref r) \<and> guard r then f r else r) (db_tracks db)\<rparr>"
    and ok: "\<forall>r \<in> set (db_tracks db). track_is (se_id s) track r \<and> visible sc (mt_ref r) \<and> guard r \<longrightarrow>
         mt_state r = ''recording'' \<and> track_row_ok (f r)" by blast
  show "map track_key (db_tracks db') = map track_key (db_tracks db)" by (simp add: db' assms(2))
  assume r: "r \<in> set (db_tracks db)" "mt_egress r \<noteq> ''''"
  let ?r = "if track_is (se_id s) track r \<and> visible sc (mt_ref r) \<and> guard r then f r else r"
  have "?r \<in> set (db_tracks db')" using r(1) by (auto simp: db')
  moreover have "track_stays r ?r" using ok r assms(3) by simp
  ultimately show "\<exists>r' \<in> set (db_tracks db'). track_stays r r'" by blast
qed

lemma claimTrack_True:
  assumes "claimTrack s track key stale now db = Inr (True, db')"
  shows "\<exists>sc current. scope_of (se_ref s) = Some sc \<and> \<not> sealed_in sc (se_id s) db
    \<and> find_session sc (se_id s) db = Some current \<and> se_state current \<in> set recordableStates
    \<and> (case find (track_is (se_id s) track) (db_tracks db) of
         None \<Rightarrow> db' = db\<lparr>db_tracks := db_tracks db @ [\<lparr>mt_ref = se_ref s, mt_track = track, mt_key = key,
             mt_egress = '''', mt_state = ''recording'', mt_digest = '''', mt_size = 0, mt_created_at = now\<rparr>]\<rparr>
       | Some r \<Rightarrow> mt_egress r = '''' \<and> mt_created_at r < now - stale \<and> mt_state r = ''recording''
           \<and> db' = db\<lparr>db_tracks := map (\<lambda>x. if track_is (se_id s) track x
               then x\<lparr>mt_key := key, mt_created_at := now\<rparr> else x) (db_tracks db)\<rparr>)"
  using assms by (auto simp: claimTrack_def ClaimMediaTrack_def bindE_Inr split: option.splits if_splits prod.splits)

lemma find_track_None: "find (track_is i track) rs = None \<longleftrightarrow> (i, track) \<notin> track_key ` set rs"
  by (force simp: find_None_iff track_is_key)

lemma find_track_Some: "find (track_is i track) rs = Some r \<Longrightarrow> r \<in> set rs \<and> track_key r = (i, track)"
  by (auto simp: find_Some_iff track_is_key)

lemma claim_step:
  assumes "tracks_keyed db" and "claimTrack s track key stale now db = Inr (True, db')"
  shows "tracks_keyed db'"
    and "r \<in> set (db_tracks db) \<Longrightarrow> mt_egress r \<noteq> '''' \<Longrightarrow> \<exists>r' \<in> set (db_tracks db'). track_stays r r'"
proof -
  note claim = claimTrack_True [OF assms(2)]
  show "tracks_keyed db'"
  proof (cases "find (track_is (se_id s) track) (db_tracks db)")
    case None
    with claim assms(1) find_track_None show ?thesis by (auto simp: tracks_keyed_def track_key_def)
  next
    case (Some x)
    let ?f = "\<lambda>x. if track_is (se_id s) track x then x\<lparr>mt_key := key, mt_created_at := now\<rparr> else x"
    have "map track_key (map ?f (db_tracks db)) = map track_key (db_tracks db)" by (simp add: track_key_def)
    with claim Some assms(1) show ?thesis by (auto simp: tracks_keyed_def simp del: map_map)
  qed
  assume r: "r \<in> set (db_tracks db)" "mt_egress r \<noteq> ''''"
  show "\<exists>r' \<in> set (db_tracks db'). track_stays r r'"
  proof (cases "find (track_is (se_id s) track) (db_tracks db)")
    case None
    with claim r show ?thesis by (intro bexI [of _ r]) auto
  next
    case (Some x)
    with find_track_Some claim have x: "x \<in> set (db_tracks db)" "track_key x = (se_id s, track)" "mt_egress x = ''''"
      by fastforce+
    then have "track_key r \<noteq> (se_id s, track)" using tracks_keyed_unique [OF assms(1) r(1) x(1)] r(2) by auto
    with claim Some r(1) show ?thesis by (intro bexI [of _ r]) (auto simp: track_is_key image_iff intro!: bexI [of _ r])
  qed
qed

lemma track_step_stays:
  assumes "track_step db db'" and "tracks_keyed db"
  shows "tracks_keyed db' \<and> (\<forall>r \<in> set (db_tracks db). mt_egress r \<noteq> '''' \<longrightarrow> (\<exists>r' \<in> set (db_tracks db'). track_stays r r'))"
  using assms
proof cases
  case claims
  then show ?thesis using claim_step [OF assms(2)] by blast
next
  case (releases s track)
  note r = update_tracks_step [OF releases [unfolded releaseClaim_def]]
  show ?thesis using r assms(2) by (simp add: tracks_keyed_def track_key_def track_stays_def)
next
  case (records s track egress)
  note r = update_tracks_step [OF records [unfolded recordEgress_def]]
  show ?thesis using r assms(2) by (simp add: tracks_keyed_def track_key_def track_stays_def)
next
  case (resolves s track st digest bytes)
  note r = update_tracks_step [OF resolves [unfolded resolveTrack_def]]
  show ?thesis using r assms(2) by (simp add: tracks_keyed_def track_key_def track_stays_def)
next
  case elsewhere
  then show ?thesis using assms(2) by (auto simp: tracks_keyed_def intro: track_stays_refl)
qed

lemma track_steps_stay:
  assumes "track_step\<^sup>*\<^sup>* db db'" and "tracks_keyed db" and "r \<in> set (db_tracks db)" and "mt_egress r \<noteq> ''''"
  shows "tracks_keyed db' \<and> (\<exists>r' \<in> set (db_tracks db'). track_stays r r')"
  using assms
proof (induction rule: rtranclp_induct)
  case (step db1 db2)
  then obtain r1 where r1: "r1 \<in> set (db_tracks db1)" "track_stays r r1" and keyed: "tracks_keyed db1" by blast
  then have "mt_egress r1 \<noteq> ''''" using step.prems(3) by (simp add: track_stays_def)
  with track_step_stays [OF step.hyps(2) keyed] r1 track_stays_trans show ?case by blast
qed (auto intro: track_stays_refl)

text \<open>A track is recorded by one egress, under one key, for good. Once an egress is recorded for a track,
  then whatever claims, releases, records and resolutions of whatever deliveries follow, in any order and
  with anything else between them, the row still names that egress and that key, a resolved row is never
  touched again, and no delivery is ever granted a claim on the track, so no second egress is started for
  it.\<close>

theorem one_egress_for_a_track:
  assumes "tracks_keyed db" and "r \<in> set (db_tracks db)" and "mt_egress r \<noteq> ''''" and "track_step\<^sup>*\<^sup>* db db'"
  shows "(\<exists>r' \<in> set (db_tracks db'). mt_ref r' = mt_ref r \<and> mt_track r' = mt_track r \<and> mt_egress r' = mt_egress r
       \<and> mt_key r' = mt_key r \<and> (mt_state r \<noteq> ''recording'' \<longrightarrow> r' = r))
    \<and> (\<forall>s key stale now db''. se_id s = ref_session (mt_ref r) \<longrightarrow>
         claimTrack s (mt_track r) key stale now db' \<noteq> Inr (True, db''))"
proof -
  from track_steps_stay [OF assms(4,1-3)] obtain r' where keyed: "tracks_keyed db'"
    and r': "r' \<in> set (db_tracks db')" "track_stays r r'" by blast
  have "claimTrack s (mt_track r) key stale now db' \<noteq> Inr (True, db'')" if "se_id s = ref_session (mt_ref r)"
    for s key stale now db''
  proof
    assume c: "claimTrack s (mt_track r) key stale now db' = Inr (True, db'')"
    have k: "track_key r' = (se_id s, mt_track r)" using r'(2) that by (simp add: track_stays_def track_key_def)
    then have "find (track_is (se_id s) (mt_track r)) (db_tracks db') \<noteq> None"
      unfolding find_track_None using r'(1) by (metis image_eqI)
    then obtain x where f: "find (track_is (se_id s) (mt_track r)) (db_tracks db') = Some x" by blast
    from find_track_Some [OF f] k tracks_keyed_unique [OF keyed _ r'(1)] have "x = r'" by simp
    with claimTrack_True [OF c] f r'(2) assms(3) show False by (auto simp: track_stays_def)
  qed
  with r' show ?thesis by (auto simp: track_stays_def track_key_def)
qed

definition ex_track :: track_row where
  "ex_track = \<lparr>mt_ref = se_ref ex_session, mt_track = ''candidate'', mt_key = ''candidate/u1/session/s1/media/candidate.webm'',
     mt_egress = ''eg1'', mt_state = ''recording'', mt_digest = '''', mt_size = 0, mt_created_at = 0\<rparr>"

definition ex_recording :: session where
  "ex_recording = ex_session\<lparr>se_epoch := 1, se_state := StateInProgress, se_preference := ''audio_and_transcript''\<rparr>"

definition ex_recording_db :: interview_db where
  "ex_recording_db = ex_running_db\<lparr>db_sessions := [ex_recording], db_tracks := [ex_track]\<rparr>"

theorem one_egress_for_a_track_witness:
  "track_step\<^sup>*\<^sup>* ex_recording_db (ex_recording_db\<lparr>db_tracks := [ex_track\<lparr>mt_state := ''missing''\<rparr>]\<rparr>)
   \<and> (\<exists>r' \<in> {ex_track\<lparr>mt_state := ''missing''\<rparr>}. mt_egress r' = ''eg1'')"
proof -
  let ?db = "ex_recording_db\<lparr>db_tracks := [ex_track\<lparr>mt_state := ''missing''\<rparr>]\<rparr>"
  have r: "resolveTrack ex_recording ''candidate'' ''missing'' '''' 0 ex_recording_db = Inr ?db"
    by (simp add: resolveTrack_def update_tracks_def ex_recording_def ex_recording_db_def ex_track_def ex_session_def
        scope_of_def SetUser_def TrimSpace_def is_space_def track_is_def visible_def track_row_ok_def Let_def)
  have steps: "track_step\<^sup>*\<^sup>* ex_recording_db ?db" by (rule r_into_rtranclp, rule resolves [OF r])
  have k: "tracks_keyed ex_recording_db" "ex_track \<in> set (db_tracks ex_recording_db)" "mt_egress ex_track \<noteq> ''''"
    by (simp_all add: tracks_keyed_def ex_recording_db_def ex_track_def)
  from one_egress_for_a_track [OF k steps] steps show ?thesis by (simp add: ex_track_def)
qed

section \<open>Finalized means read back\<close>

definition settled :: "prober \<Rightarrow> track_row \<Rightarrow> track_row" where
  "settled stat r =
     (if mt_state r \<noteq> ''recording'' then r
      else case verdict stat r of (st, digest, bytes) \<Rightarrow> r\<lparr>mt_state := st, mt_digest := digest, mt_size := bytes\<rparr>)"

lemma verdict_cases: "verdict stat r = (st, digest, bytes) \<Longrightarrow>
    st = ''missing'' \<or> (st = ''finalized'' \<and> (\<exists>n. stat (mt_key r) = Some (n, digest) \<and> n \<noteq> 0 \<and> bytes = int n))"
  by (auto simp: verdict_def split: option.splits if_splits)

lemma settled_state: "mt_state (settled stat r) \<noteq> ''recording''"
  by (auto simp: settled_def split: prod.splits dest: verdict_cases)

lemma settled_fields [simp]: "track_key (settled stat r) = track_key r" "mt_ref (settled stat r) = mt_ref r"
  "mt_track (settled stat r) = mt_track r" "mt_key (settled stat r) = mt_key r" "mt_egress (settled stat r) = mt_egress r"
  by (simp_all add: settled_def track_key_def split: prod.splits)

lemma resolve_one:
  assumes "tracks_keyed db" and "r \<in> set (db_tracks db)" and "track_key r = (se_id s, mt_track r)"
    and "scope_of (se_ref s) = Some sc" and "visible sc (mt_ref r)" and "mt_state r = ''recording''"
    and "verdict stat r = (st, digest, bytes)" and "resolveTrack s (mt_track r) st digest bytes db = Inr db'"
  shows "db' = db\<lparr>db_tracks := map (\<lambda>x. if x = r then settled stat r else x) (db_tracks db)\<rparr>"
proof -
  let ?f = "\<lambda>r. r\<lparr>mt_state := st, mt_digest := digest, mt_size := bytes\<rparr>"
  have "track_is (se_id s) (mt_track r) x \<and> visible sc (mt_ref x) \<and> mt_state x = ''recording'' \<longleftrightarrow> x = r"
    if "x \<in> set (db_tracks db)" for x
    using tracks_keyed_unique [OF assms(1) that assms(2)] assms(3,5,6) by (auto simp: track_is_key)
  then have "map (\<lambda>x. if track_is (se_id s) (mt_track r) x \<and> visible sc (mt_ref x) \<and> mt_state x = ''recording'' then ?f x else x)
      (db_tracks db) = map (\<lambda>x. if x = r then settled stat r else x) (db_tracks db)"
    using assms(6,7) by (intro map_cong) (auto simp: settled_def)
  with update_tracks_Inr [OF assms(8) [unfolded resolveTrack_def]] assms(4) show ?thesis by simp
qed

lemma finalize_tracks_settles:
  assumes "finalize_tracks stat s rs status db = Inr (status', db')"
    and "tracks_keyed db" and "scope_of (se_ref s) = Some sc" and "distinct rs"
    and "\<forall>r \<in> set rs. r \<in> set (db_tracks db) \<and> ref_session (mt_ref r) = se_id s \<and> visible sc (mt_ref r)"
  shows "db' = db\<lparr>db_tracks := map (\<lambda>x. if x \<in> set rs then settled stat x else x) (db_tracks db)\<rparr>
    \<and> status' = (if \<exists>r \<in> set rs. mt_state (settled stat r) = ''missing'' then ''missing'' else status)"
  using assms
proof (induction rs arbitrary: status db)
  case (Cons r rs)
  have r: "r \<in> set (db_tracks db)" "track_key r = (se_id s, mt_track r)" "visible sc (mt_ref r)" "r \<notin> set rs"
    using Cons.prems(4,5) by (simp_all add: track_key_def)
  show ?case
  proof (cases "mt_state r = ''recording''")
    case False
    then have same: "settled stat r = r" by (simp add: settled_def)
    with Cons.IH [of "if mt_state r = ''missing'' then ''missing'' else status" db] Cons.prems False
    have IH: "db' = db\<lparr>db_tracks := map (\<lambda>x. if x \<in> set rs then settled stat x else x) (db_tracks db)\<rparr>"
      "status' = (if \<exists>r \<in> set rs. mt_state (settled stat r) = ''missing'' then ''missing''
        else if mt_state r = ''missing'' then ''missing'' else status)" by simp_all
    moreover have "map (\<lambda>x. if x \<in> set (r # rs) then settled stat x else x) (db_tracks db)
        = map (\<lambda>x. if x \<in> set rs then settled stat x else x) (db_tracks db)"
      using same by (intro map_cong) auto
    ultimately show ?thesis using same by simp
  next
    case True
    obtain st digest bytes where v: "verdict stat r = (st, digest, bytes)" by (cases "verdict stat r")
    with Cons.prems(1) True obtain db1 where res: "resolveTrack s (mt_track r) st digest bytes db = Inr db1"
      and rest: "finalize_tracks stat s rs (if st = ''missing'' then ''missing'' else status) db1 = Inr (status', db')"
      by (auto simp: bindE_Inr)
    from resolve_one [OF Cons.prems(2) r(1,2) Cons.prems(3) r(3) True v res]
    have db1: "db1 = db\<lparr>db_tracks := map (\<lambda>x. if x = r then settled stat r else x) (db_tracks db)\<rparr>" .
    have "map track_key (db_tracks db1) = map track_key (db_tracks db)" by (simp add: db1)
    then have keyed: "tracks_keyed db1" using Cons.prems(2) by (simp add: tracks_keyed_def)
    have st: "mt_state (settled stat r) = st" using v True by (simp add: settled_def)
    have "settled stat r \<notin> set rs"
      using Cons.prems(2,5) r tracks_keyed_unique [OF Cons.prems(2) _ r(1), of "settled stat r"] by auto
    moreover have "\<forall>x \<in> set rs. x \<in> set (db_tracks db1)" using Cons.prems(5) r(4) by (force simp: db1)
    ultimately show ?thesis
      using Cons.IH [OF rest keyed Cons.prems(3)] Cons.prems(4,5) r(4) st by (auto simp: db1)
  qed
qed simp

definition my_tracks :: "row_scope \<Rightarrow> session \<Rightarrow> interview_db \<Rightarrow> track_row set" where
  "my_tracks sc s db = {r \<in> set (db_tracks db). ref_session (mt_ref r) = se_id s \<and> visible sc (mt_ref r)}"

definition track_list :: "row_scope \<Rightarrow> session \<Rightarrow> interview_db \<Rightarrow> track_row list" where
  "track_list sc s db = sort_key mt_track
     (filter (\<lambda>r. ref_session (mt_ref r) = se_id s \<and> visible sc (mt_ref r)) (db_tracks db))"

lemma set_track_list: "set (track_list sc s db) = my_tracks sc s db"
  by (auto simp: track_list_def my_tracks_def)

lemma FinalizeRecording_tracks:
  "scope_of (se_ref s) = Some sc \<Longrightarrow> FinalizeRecording stat s db =
     (if track_list sc s db = [] then Inr (''missing'', db) else finalize_tracks stat s (track_list sc s db) ''finalized'' db)"
  by (simp add: FinalizeRecording_def MediaTracks_def track_list_def)

lemma finalize_tracks_done:
  "\<forall>r \<in> set rs. mt_state r \<noteq> ''recording'' \<Longrightarrow>
     finalize_tracks stat s rs st db = Inr (if \<exists>r \<in> set rs. mt_state r = ''missing'' then ''missing'' else st, db)"
  by (induction rs arbitrary: st) auto

text \<open>A recording is finalized only when every object was read back. After finalizing, no track of the session
  is left recording; the status is finalized exactly when there is a track and every one of them is, and a
  track this run finalized carries the digest and the non-zero size the object store answered for its own
  key; a track resolved earlier keeps what it had; and finalizing again, whatever the store answers by
  then, gives the same status and changes nothing.\<close>

theorem finalized_means_read_back:
  assumes "tracks_keyed db" and "FinalizeRecording stat s db = Inr (status, db')" and "scope_of (se_ref s) = Some sc"
    and "\<forall>r \<in> set (db_tracks db). track_row_ok r"
  shows "(\<forall>r \<in> my_tracks sc s db'. mt_state r \<noteq> ''recording'')
      \<and> (status = ''finalized'' \<longleftrightarrow> my_tracks sc s db' \<noteq> {} \<and> (\<forall>r \<in> my_tracks sc s db'. mt_state r = ''finalized''))
      \<and> (\<forall>r \<in> my_tracks sc s db. if mt_state r = ''recording''
           then settled stat r \<in> my_tracks sc s db' \<and> (mt_state (settled stat r) = ''finalized'' \<longrightarrow>
                  (\<exists>bytes digest. stat (mt_key r) = Some (bytes, digest) \<and> bytes \<noteq> 0
                     \<and> settled stat r = r\<lparr>mt_state := ''finalized'', mt_digest := digest, mt_size := int bytes\<rparr>))
           else r \<in> my_tracks sc s db')
    \<and> (\<forall>stat2. FinalizeRecording stat2 s db' = Inr (status, db'))"
proof -
  note fin = FinalizeRecording_tracks [OF assms(3)]
  have dist: "distinct (track_list sc s db)" using assms(1) by (simp add: track_list_def tracks_keyed_def distinct_map)
  have "db' = db\<lparr>db_tracks := map (\<lambda>x. if x \<in> my_tracks sc s db then settled stat x else x) (db_tracks db)\<rparr>
    \<and> status = (if my_tracks sc s db = {} \<or> (\<exists>r \<in> my_tracks sc s db. mt_state (settled stat r) = ''missing'') then ''missing'' else ''finalized'')"
  proof (cases "track_list sc s db = []")
    case True
    then have none: "my_tracks sc s db = {}" by (simp add: set_track_list [symmetric])
    have "db\<lparr>db_tracks := db_tracks db\<rparr> = db" by simp
    with True none assms(2) show ?thesis by (simp add: fin)
  next
    case False
    then have some: "my_tracks sc s db \<noteq> {}" by (simp add: set_track_list [symmetric])
    have run: "finalize_tracks stat s (track_list sc s db) ''finalized'' db = Inr (status, db')" using assms(2) False by (simp add: fin)
    from finalize_tracks_settles [OF run assms(1,3) dist] some show ?thesis by (simp add: set_track_list) (auto simp: my_tracks_def)
  qed
  then have db': "db' = db\<lparr>db_tracks := map (\<lambda>x. if x \<in> my_tracks sc s db then settled stat x else x) (db_tracks db)\<rparr>"
    and status: "status = (if my_tracks sc s db = {} \<or> (\<exists>r \<in> my_tracks sc s db. mt_state (settled stat r) = ''missing'') then ''missing'' else ''finalized'')"
    by blast+
  have mine': "my_tracks sc s db' = settled stat ` my_tracks sc s db"
  proof
    show "my_tracks sc s db' \<subseteq> settled stat ` my_tracks sc s db"
      by (auto simp: my_tracks_def db' split: if_splits)
    show "settled stat ` my_tracks sc s db \<subseteq> my_tracks sc s db'"
      by (auto simp: my_tracks_def db' image_iff track_key_def [symmetric] intro!: bexI)
  qed
  have done1: "mt_state r \<noteq> ''recording''" if "r \<in> my_tracks sc s db'" for r using that settled_state by (auto simp: mine')
  have states: "mt_state (settled stat r) = ''finalized'' \<or> mt_state (settled stat r) = ''missing''" if "r \<in> my_tracks sc s db" for r
    using that assms(4) by (auto simp: settled_def my_tracks_def track_row_ok_def split: prod.splits dest: verdict_cases)
  have exact: "status = ''finalized'' \<longleftrightarrow> my_tracks sc s db' \<noteq> {} \<and> (\<forall>r \<in> my_tracks sc s db'. mt_state r = ''finalized'')"
    using states by (force simp: status mine')
  have each: "if mt_state r = ''recording''
      then settled stat r \<in> my_tracks sc s db' \<and> (mt_state (settled stat r) = ''finalized'' \<longrightarrow>
             (\<exists>bytes digest. stat (mt_key r) = Some (bytes, digest) \<and> bytes \<noteq> 0
                \<and> settled stat r = r\<lparr>mt_state := ''finalized'', mt_digest := digest, mt_size := int bytes\<rparr>))
      else r \<in> my_tracks sc s db'" if r: "r \<in> my_tracks sc s db" for r
  proof (cases "mt_state r = ''recording''")
    case True
    obtain st digest bytes where v: "verdict stat r = (st, digest, bytes)" by (cases "verdict stat r")
    then have val: "settled stat r = r\<lparr>mt_state := st, mt_digest := digest, mt_size := bytes\<rparr>"
      using True by (simp add: settled_def)
    have "settled stat r \<in> my_tracks sc s db'" unfolding mine' using r by (rule imageI)
    with True verdict_cases [OF v] show ?thesis unfolding val by auto
  next
    case False
    then have "settled stat r = r" by (simp add: settled_def)
    with r False show ?thesis unfolding mine' by (metis imageI)
  qed
  have again: "FinalizeRecording stat2 s db' = Inr (status, db')" for stat2
  proof (cases "track_list sc s db' = []")
    case True
    then have "my_tracks sc s db' = {}" by (simp add: set_track_list [symmetric])
    then show ?thesis using True by (simp add: fin status mine')
  next
    case False
    then have "my_tracks sc s db' \<noteq> {}" by (simp add: set_track_list [symmetric])
    then have "status = (if \<exists>r \<in> my_tracks sc s db'. mt_state r = ''missing'' then ''missing'' else ''finalized'')"
      by (simp add: status mine')
    with False done1 show ?thesis by (simp add: fin finalize_tracks_done set_track_list)
  qed
  show ?thesis using done1 exact each again by blast
qed

definition ex_stat :: prober where
  "ex_stat k = (if k = mt_key ex_track then Some (4096, ''sha256:aa'') else None)"

lemma ex_finalized:
  "FinalizeRecording ex_stat ex_recording ex_recording_db = Inr (''finalized'', ex_recording_db\<lparr>db_tracks :=
     [ex_track\<lparr>mt_state := ''finalized'', mt_digest := ''sha256:aa'', mt_size := 4096\<rparr>]\<rparr>)"
  by code_simp

theorem finalized_means_read_back_witness:
  "\<exists>db'. FinalizeRecording ex_stat ex_recording ex_recording_db = Inr (''finalized'', db')
     \<and> (\<forall>stat2. FinalizeRecording stat2 ex_recording db' = Inr (''finalized'', db'))"
proof -
  have k: "tracks_keyed ex_recording_db" "\<forall>r \<in> set (db_tracks ex_recording_db). track_row_ok r"
    "scope_of (se_ref ex_recording) = Some (AsUser ''u1'')" by code_simp+
  from finalized_means_read_back [OF k(1) ex_finalized k(3,2)] ex_finalized show ?thesis by blast
qed

section \<open>A completion that meets a claim\<close>

text \<open>
  A completion can finalize between a claim and the record of its egress: the claim has no egress to
  stop, its track is missing, and the record that follows is refused by the trigger.  The egress the
  provider began is then named nowhere.
\<close>

lemma completion_orphans_a_claimed_egress:
  "case claimTrack ex_recording ''candidate'' ''k'' defaultClaimStaleAfter 9 (ex_recording_db\<lparr>db_tracks := []\<rparr>) of
     Inr (True, db1) \<Rightarrow>
       (case FinalizeRecording (\<lambda>_. None) ex_recording db1 of
          Inr (status, db2) \<Rightarrow> status = ''missing'' \<and> recordEgress ex_recording ''candidate'' ''eg1'' db2 = Inl DatabaseRefused
            \<and> map mt_egress (db_tracks db2) = ['''']
        | Inl _ \<Rightarrow> False)
   | _ \<Rightarrow> False"
  by code_simp

end
