(* ===== verification/Completion.thy ===== *)
theory Completion
  imports Recording
begin

text \<open>
  \<open>services/platform/internal/interview/complete.go\<close>: completion freezes the conversational record.  The
  gaps under the final cursor are recorded, the effective transcript digested, the media status decided,
  the sealed input written, the seal inserted, and the session moved through finalizing into evaluating,
  each step a transaction of its own, with whatever others do between them an argument.  Encoding and
  hashing of the documents, the object store, the recorder and the catalogue are the ports of the
  completer.
\<close>

record receipt =
  rc_session :: string
  rc_state :: state
  rc_epoch :: int
  rc_sequence :: int
  rc_gaps :: "sequence_range list"
  rc_transcript_digest :: string
  rc_bundle_digest :: string
  rc_media :: string
  rc_warnings :: "string list"
  rc_input_digest :: string
  rc_sealed_at :: time

record evaluation_turn =
  et_sequence :: int
  et_speaker :: string
  et_text :: string
  et_start :: int
  et_end :: int
  et_words :: "transcript_word list"

record evaluation_input =
  ei_session :: string
  ei_competencies :: "(string \<times> string) list"
  ei_turns :: "evaluation_turn list"

text \<open>
  The ports: the digests of a transcript and of a document, whether the object store takes the document,
  the competencies of a session (\<open>None\<close> where the source fails), and the prober where media is wired.
\<close>

record completer =
  cp_transcript_digest :: "segment list \<Rightarrow> string"
  cp_input_digest :: "evaluation_input \<Rightarrow> string"
  cp_writer :: "(session \<Rightarrow> evaluation_input \<Rightarrow> bool) option"
  cp_competencies :: "(session \<Rightarrow> (string \<times> string) list option) option"
  cp_media :: "prober option"

section \<open>Gaps\<close>

text \<open>The loop over the sequences up to the final one; \<open>start\<close> is zero outside a gap.\<close>

fun gap_scan :: "int list \<Rightarrow> int \<Rightarrow> int \<Rightarrow> int list \<Rightarrow> sequence_range list" where
  "gap_scan present final start [] = (if start \<noteq> 0 then [(start, final)] else [])"
| "gap_scan present final start (q # qs) =
     (if q \<notin> set present then gap_scan present final (if start = 0 then q else start) qs
      else if start \<noteq> 0 then (start, q - 1) # gap_scan present final 0 qs
      else gap_scan present final 0 qs)"

definition gapsUnder :: "session \<Rightarrow> int \<Rightarrow> int \<Rightarrow> interview_db \<Rightarrow> interview_error + sequence_range list" where
  "gapsUnder s epoch final db =
     (case scope_of (se_ref s) of
        None \<Rightarrow> Inl EmptyScope
      | Some sc \<Rightarrow> Inr (gap_scan (StoredSequences sc (se_id s) epoch db) final 0 [1..final]))"

section \<open>Seal and receipt\<close>

definition InsertSeal :: "row_scope \<Rightarrow> seal_row \<Rightarrow> interview_db \<Rightarrow> insert_result" where
  "InsertSeal sc r db =
     (if \<not> (visible sc (sl_ref r) \<and> ref_ok (sl_ref r) \<and> sl_epoch r \<ge> 1 \<and> sl_sequence r \<ge> 0
            \<and> sl_media r \<in> {''none_by_choice'', ''missing'', ''finalized''})
      then StoreFailed
      else if ref_session (sl_ref r) \<in> (\<lambda>r. ref_session (sl_ref r)) ` set (db_seals db) then UniqueViolation
      else if ref_session (sl_ref r) \<notin> se_id ` set (db_sessions db) then StoreFailed
      else Stored (db\<lparr>db_seals := db_seals db @ [r]\<rparr>))"

text \<open>A concurrent completion that sealed first leaves nothing to do.\<close>

definition seal ::
  "session \<Rightarrow> int \<Rightarrow> int \<Rightarrow> sequence_range list \<Rightarrow> string \<Rightarrow> string \<Rightarrow> string list \<Rightarrow> string \<Rightarrow> time \<Rightarrow> interview_db
     \<Rightarrow> interview_error + interview_db" where
  "seal s epoch q gaps digest media warnings input now db =
     (case scope_of (se_ref s) of
        None \<Rightarrow> Inl EmptyScope
      | Some sc \<Rightarrow>
          (case InsertSeal sc \<lparr>sl_ref = se_ref s, sl_epoch = to_int32 epoch, sl_sequence = to_int32 q, sl_gaps = gaps,
                  sl_transcript_digest = digest, sl_bundle_digest = se_bundle_digest s, sl_media = media,
                  sl_warnings = warnings, sl_input_digest = input, sl_created_at = now\<rparr> db of
             Stored db' \<Rightarrow> Inr db' | UniqueViolation \<Rightarrow> Inr db | StoreFailed \<Rightarrow> Inl DatabaseRefused))"

definition receipt_of :: "session \<Rightarrow> seal_row \<Rightarrow> receipt" where
  "receipt_of s r = \<lparr>rc_session = ref_session (sl_ref r), rc_state = se_state s, rc_epoch = sl_epoch r,
     rc_sequence = sl_sequence r, rc_gaps = sl_gaps r, rc_transcript_digest = sl_transcript_digest r,
     rc_bundle_digest = sl_bundle_digest r, rc_media = sl_media r, rc_warnings = sl_warnings r,
     rc_input_digest = sl_input_digest r, rc_sealed_at = sl_created_at r\<rparr>"

definition find_seal :: "row_scope \<Rightarrow> string \<Rightarrow> interview_db \<Rightarrow> seal_row option" where
  "find_seal sc i db = find (\<lambda>r. ref_session (sl_ref r) = i \<and> visible sc (sl_ref r)) (db_seals db)"

definition read_receipt :: "session \<Rightarrow> interview_db \<Rightarrow> interview_error + receipt" where
  "read_receipt s db =
     (case scope_of (se_ref s) of
        None \<Rightarrow> Inl EmptyScope
      | Some sc \<Rightarrow> (case find_seal sc (se_id s) db of None \<Rightarrow> Inl NotSealed | Some r \<Rightarrow> Inr (receipt_of s r)))"

definition SealOf :: "session_ref \<Rightarrow> interview_db \<Rightarrow> interview_error + receipt" where
  "SealOf ref db = bindE (Get ref db) (\<lambda>s. read_receipt s db)"

definition Sealed :: "session \<Rightarrow> interview_db \<Rightarrow> interview_error + bool" where
  "Sealed s db =
     (case read_receipt s db of Inr _ \<Rightarrow> Inr True | Inl NotSealed \<Rightarrow> Inr False | Inl e \<Rightarrow> Inl e)"

section \<open>The sealed documents\<close>

definition turn_of :: "segment \<Rightarrow> evaluation_turn" where
  "turn_of s = \<lparr>et_sequence = sg_sequence s, et_speaker = sg_speaker s, et_text = sg_text s, et_start = sg_start s,
     et_end = sg_end s, et_words = sg_words s\<rparr>"

definition evaluationInput :: "completer \<Rightarrow> session \<Rightarrow> transcript \<Rightarrow> interview_error + evaluation_input" where
  "evaluationInput cp s t =
     bindE (case cp_competencies cp of
              None \<Rightarrow> Inr []
            | Some source \<Rightarrow> (case source s of None \<Rightarrow> Inl (Unavailable ''resolving competencies'') | Some cs \<Rightarrow> Inr cs))
       (\<lambda>cs. Inr \<lparr>ei_session = se_id s, ei_competencies = cs,
          ei_turns = map turn_of (filter (\<lambda>g. sg_type g = segment_final \<or> sg_type g = segment_corrected)
            (EffectiveText t))\<rparr>)"

definition write_input :: "completer \<Rightarrow> session \<Rightarrow> transcript \<Rightarrow> interview_error + string" where
  "write_input cp s t =
     (case cp_writer cp of
        None \<Rightarrow> Inr ''''
      | Some put \<Rightarrow> bindE (evaluationInput cp s t)
          (\<lambda>input. if put s input then Inr (''sha256:'' @ cp_input_digest cp input)
             else Inl (Unavailable ''storing the evaluation input'')))"

definition transcriptDigest :: "completer \<Rightarrow> transcript \<Rightarrow> string" where
  "transcriptDigest cp t = ''sha256:'' @ cp_transcript_digest cp (EffectiveText t)"

definition completedEvent :: "session \<Rightarrow> transcript \<Rightarrow> string \<Rightarrow> event" where
  "completedEvent s t completion = connection_event ''interview.session_completed.v1'' s
     [(''session_id'', JString (se_id s)), (''completion'', JString completion),
      (''turn_count'', JInt (int (length (filter (\<lambda>g. sg_speaker g = ''candidate'') (EffectiveText t))))),
      (''duration_seconds'', JInt (ActiveSeconds (EffectiveText t)))]"

section \<open>Completing\<close>

definition WarningMediaMissing :: string where "WarningMediaMissing = ''MEDIA_MISSING''"
definition WarningGapsRecorded :: string where "WarningGapsRecorded = ''SEQUENCE_GAPS_RECORDED''"

definition media_status ::
  "completer \<Rightarrow> session \<Rightarrow> interview_db \<Rightarrow> interview_error + (string \<times> string list) \<times> interview_db" where
  "media_status cp s db =
     (if se_preference s = RecordingTranscriptOnly then Inr ((''none_by_choice'', []), db)
      else case cp_media cp of
        None \<Rightarrow> Inr ((''missing'', [WarningMediaMissing]), db)
      | Some stat \<Rightarrow> bindE (FinalizeRecording stat s db)
          (\<lambda>(status, db'). Inr ((status, if status \<noteq> ''finalized'' then [WarningMediaMissing] else []), db')))"

text \<open>The times and identifiers of the completion, and what others do before its \<open>n\<close>-th transaction.\<close>

record completion_env =
  cx_now :: time
  cx_event :: string
  cx_others :: "nat \<Rightarrow> interview_db \<Rightarrow> interview_db"

definition answer_receipt ::
  "completion_env \<Rightarrow> session_ref \<Rightarrow> interview_db \<Rightarrow> (interview_error + receipt) \<times> interview_db" where
  "answer_receipt env ref db =
     (let db8 = cx_others env 8 db; db9 = cx_others env 9 db8 in
      case Get ref db8 of Inl e \<Rightarrow> (Inl e, db8) | Inr final \<Rightarrow> (read_receipt final db9, db9))"

definition move_to_evaluating ::
  "completion_env \<Rightarrow> session_ref \<Rightarrow> session \<Rightarrow> event \<Rightarrow> actor \<Rightarrow> interview_db
     \<Rightarrow> (interview_error + receipt) \<times> interview_db" where
  "move_to_evaluating env ref s e actor db =
     (let db6 = cx_others env 6 db in
      case Transition s StateFinalizing (no_effects\<lparr>ef_event := Some e\<rparr>) actor (cx_event env) (cx_now env) db6 of
        Inl SessionStale \<Rightarrow> answer_receipt env ref db6
      | Inl err \<Rightarrow> (Inl err, db6)
      | Inr (finalizing, db) \<Rightarrow>
          (let db7 = cx_others env 7 db in
           case Transition finalizing StateEvaluating no_effects actor '''' (cx_now env) db7 of
             Inl SessionStale \<Rightarrow> answer_receipt env ref db7
           | Inl err \<Rightarrow> (Inl err, db7)
           | Inr (_, db) \<Rightarrow> answer_receipt env ref db))"

definition freeze ::
  "completer \<Rightarrow> completion_env \<Rightarrow> session_ref \<Rightarrow> int \<Rightarrow> int \<Rightarrow> actor \<Rightarrow> string \<Rightarrow> session \<Rightarrow> interview_db
     \<Rightarrow> (interview_error + receipt) \<times> interview_db" where
  "freeze cp env ref epoch q actor completion s db =
     (let db2 = cx_others env 2 db; db3 = cx_others env 3 db2; db4 = cx_others env 4 db3 in
      case AssembleTranscript ref db2 of Inl e \<Rightarrow> (Inl e, db2)
      | Inr t \<Rightarrow>
         (case gapsUnder s epoch q db3 of Inl e \<Rightarrow> (Inl e, db3)
          | Inr gaps \<Rightarrow>
             (case media_status cp s db4 of Inl e \<Rightarrow> (Inl e, db4)
              | Inr ((media, warnings), db) \<Rightarrow>
                 (case write_input cp s t of Inl e \<Rightarrow> (Inl e, db)
                  | Inr input \<Rightarrow>
                     (let db5 = cx_others env 5 db in
                      case seal s epoch q gaps (transcriptDigest cp t) media
                             (warnings @ (if gaps \<noteq> [] then [WarningGapsRecorded] else [])) input (cx_now env) db5 of
                        Inl e \<Rightarrow> (Inl e, db5)
                      | Inr db \<Rightarrow> move_to_evaluating env ref s (completedEvent s t completion) actor db)))))"

definition complete ::
  "completer \<Rightarrow> completion_env \<Rightarrow> session_ref \<Rightarrow> int \<Rightarrow> int \<Rightarrow> actor \<Rightarrow> string \<Rightarrow> interview_db
     \<Rightarrow> (interview_error + receipt) \<times> interview_db" where
  "complete cp env ref epoch q actor completion db =
     (case Get ref db of
        Inl e \<Rightarrow> (Inl e, db)
      | Inr s \<Rightarrow>
          (let db1 = cx_others env 1 db in
           case read_receipt s db1 of
             Inr rc \<Rightarrow> (if rc_epoch rc \<noteq> epoch \<or> rc_sequence rc \<noteq> q then Inl SealConflict else Inr rc, db1)
           | Inl e \<Rightarrow>
               (if e \<noteq> NotSealed then (Inl e, db1)
                else if \<not> in_flight (se_state s) then (Inl CompleteNotRunning, db1)
                else if epoch \<noteq> se_epoch s then (Inl EpochStale, db1)
                else freeze cp env ref epoch q actor completion s db1)))"

definition Complete ::
  "completer \<Rightarrow> completion_env \<Rightarrow> session_ref \<Rightarrow> int \<Rightarrow> int \<Rightarrow> interview_db \<Rightarrow> (interview_error + receipt) \<times> interview_db" where
  "Complete cp env ref epoch q db =
     complete cp env ref epoch q \<lparr>ac_id = ref_candidate ref, ac_type = ''user''\<rparr> ''completed'' db"

section \<open>Two ways to find the gaps\<close>

lemma gap_scan_covers:
  assumes "start = 0 \<or> (0 < start \<and> start < q \<and> (\<forall>j. start \<le> j \<longrightarrow> j < q \<longrightarrow> j \<notin> set present))" and "1 \<le> q"
    and "q \<le> final + 1"
  shows "in_gaps k (gap_scan present final start [q..final])
    \<longleftrightarrow> (if start = 0 then q else start) \<le> k \<and> k \<le> final \<and> k \<notin> set present"
  using assms
proof (induction "nat (final + 1 - q)" arbitrary: q start)
  case 0
  then have "[q..final] = []" "q = final + 1" by simp_all
  with 0 show ?case by auto
next
  case (Suc n)
  then have q: "q \<le> final" and n: "n = nat (final + 1 - (q + 1))" by simp_all
  then have list: "[q..final] = q # [q + 1..final]" by (simp add: upto_rec1)
  show ?case
  proof (cases "q \<in> set present")
    case True
    have "in_gaps k (gap_scan present final 0 [q + 1..final]) \<longleftrightarrow> q + 1 \<le> k \<and> k \<le> final \<and> k \<notin> set present"
      using Suc.hyps(1) [OF n, of 0] Suc.prems(2) q by simp
    with True Suc.prems q show ?thesis by (cases "k = q") (auto simp: list)
  next
    case False
    define st where "st = (if start = 0 then q else start)"
    have absent: "j \<notin> set present" if "st \<le> j" "j < q + 1" for j
      using that False Suc.prems(1) by (cases "j = q") (auto simp: st_def split: if_splits)
    have st: "0 < st" "st < q + 1" using Suc.prems by (auto simp: st_def)
    then have "st = 0 \<or> (0 < st \<and> st < q + 1 \<and> (\<forall>j. st \<le> j \<longrightarrow> j < q + 1 \<longrightarrow> j \<notin> set present))"
      using absent by blast
    from Suc.hyps(1) [OF n this] Suc.prems(2) q st
    have "in_gaps k (gap_scan present final st [q + 1..final]) \<longleftrightarrow> st \<le> k \<and> k \<le> final \<and> k \<notin> set present" by simp
    with False show ?thesis by (simp add: list st_def)
  qed
qed

lemma gap_scan_apart:
  assumes "start = 0 \<or> (0 < start \<and> start < q)" and "1 \<le> q" and "q \<le> final + 1"
  shows "gaps_apart (if start = 0 then q else start) (gap_scan present final start [q..final])"
  using assms
proof (induction "nat (final + 1 - q)" arbitrary: q start)
  case 0
  then have "[q..final] = []" "q = final + 1" by simp_all
  with 0 show ?case by (auto simp: gaps_apart_def)
next
  case (Suc n)
  then have q: "q \<le> final" and n: "n = nat (final + 1 - (q + 1))" by simp_all
  then have list: "[q..final] = q # [q + 1..final]" by (simp add: upto_rec1)
  show ?case
  proof (cases "q \<in> set present")
    case True
    have "gaps_apart (q + 1) (gap_scan present final 0 [q + 1..final])"
      using Suc.hyps(1) [OF n, of 0] Suc.prems(2) q by simp
    with True Suc.prems q show ?thesis by (fastforce simp: list gaps_apart_def)
  next
    case False
    have "gaps_apart (if start = 0 then q else start) (gap_scan present final (if start = 0 then q else start) [q + 1..final])"
      using Suc.hyps(1) [OF n, of "if start = 0 then q else start"] Suc.prems q by (auto split: if_splits)
    with False show ?thesis by (simp add: list)
  qed
qed

lemma gaps_apart_tail:
  "gaps_apart e (g # gs) \<Longrightarrow> gaps_apart (snd g + 2) gs \<and> e \<le> fst g \<and> fst g \<le> snd g"
  by (fastforce simp: gaps_apart_def)

lemma gaps_apart_lower: "gaps_apart e gs \<Longrightarrow> in_gaps k gs \<Longrightarrow> e \<le> k"
  by (force simp: gaps_apart_def in_gaps_def)

lemma gaps_unique:
  "gaps_apart e gs \<Longrightarrow> gaps_apart e' hs \<Longrightarrow> (\<And>k. in_gaps k gs = in_gaps k hs) \<Longrightarrow> gs = hs"
proof (induction gs arbitrary: hs e e')
  case Nil
  then show ?case by (cases hs) (force simp: gaps_apart_def)+
next
  case (Cons g gs)
  note g = gaps_apart_tail [OF Cons.prems(1)]
  have "in_gaps (fst g) (g # gs)" using g by simp
  then obtain h hs' where hs: "hs = h # hs'" using Cons.prems(3) by (cases hs) auto
  note h = gaps_apart_tail [OF Cons.prems(2) [unfolded hs]]
  have same: "in_gaps k (g # gs) = in_gaps k (h # hs')" for k using Cons.prems(3) hs by simp
  have lo: "in_gaps k gs \<Longrightarrow> snd g + 2 \<le> k" "in_gaps k hs' \<Longrightarrow> snd h + 2 \<le> k" for k
    using gaps_apart_lower g h by blast+
  have first: "fst g = fst h"
  proof (rule antisym)
    show "fst g \<le> fst h" using same [of "fst h"] lo(1) [of "fst h"] g h by auto
    show "fst h \<le> fst g" using same [of "fst g"] lo(2) [of "fst g"] g h by auto
  qed
  have last: "snd g = snd h"
  proof (rule antisym)
    show "snd g \<le> snd h" using same [of "snd h + 1"] lo(2) [of "snd h + 1"] first g h by (force simp: not_le)
    show "snd h \<le> snd g" using same [of "snd g + 1"] lo(1) [of "snd g + 1"] first g h by (force simp: not_le)
  qed
  have "in_gaps k gs = in_gaps k hs'" for k
    using same [of k] lo [of k] first last by (auto simp: in_gaps_Cons)
  from Cons.IH [OF _ _ this] g h first last show ?case unfolding hs by (metis prod.expand)
qed

lemma gapsUnder_exact:
  assumes "gapsUnder s epoch final db = Inr gaps" and "0 \<le> final" and "scope_of (se_ref s) = Some sc"
  shows "gaps_apart 1 gaps
    \<and> (\<forall>k. in_gaps k gaps \<longleftrightarrow> 1 \<le> k \<and> k \<le> final \<and> k \<notin> set (StoredSequences sc (se_id s) epoch db))"
proof -
  have "gaps = gap_scan (StoredSequences sc (se_id s) epoch db) final 0 [1..final]"
    using assms(1,3) by (simp add: gapsUnder_def)
  then show ?thesis
    using gap_scan_covers [of 0 1 _ final] gap_scan_apart [of 0 1 final] assms(2) by simp
qed

text \<open>C37: Completion and ingestion find the same gaps. Under any final cursor completion records exactly the slots
  from the first to the final one that are not held, as maximal ranges in order; and under the highest slot
  held, its scan of every sequence gives the very list the acknowledgments were computed with from the
  stored slots alone.\<close>

theorem gaps_under_the_final_cursor:
  assumes "slots_positive db" and "scope_of (se_ref s) = Some sc" and "0 \<le> final"
  shows "(\<exists>gaps. gapsUnder s epoch final db = Inr gaps
       \<and> (\<forall>k. (\<exists>g \<in> set gaps. fst g \<le> k \<and> k \<le> snd g) \<longleftrightarrow>
            1 \<le> k \<and> k \<le> final \<and> k \<notin> set (StoredSequences sc (se_id s) epoch db))
       \<and> sorted_wrt (\<lambda>g h. snd g + 1 < fst h) gaps)
    \<and> (StoredSequences sc (se_id s) epoch db \<noteq> [] \<longrightarrow>
         gapsUnder s epoch (last (StoredSequences sc (se_id s) epoch db)) db = Inr (snd (cursor sc (se_id s) epoch db)))"
proof (intro conjI impI)
  obtain gaps where gaps: "gapsUnder s epoch final db = Inr gaps" using assms(2) by (simp add: gapsUnder_def)
  from gapsUnder_exact [OF this assms(3,2)] gaps
  show "\<exists>gaps. gapsUnder s epoch final db = Inr gaps
       \<and> (\<forall>k. (\<exists>g \<in> set gaps. fst g \<le> k \<and> k \<le> snd g) \<longleftrightarrow>
            1 \<le> k \<and> k \<le> final \<and> k \<notin> set (StoredSequences sc (se_id s) epoch db))
       \<and> sorted_wrt (\<lambda>g h. snd g + 1 < fst h) gaps"
    by (auto simp: gaps_apart_def in_gaps_def)
next
  let ?ss = "StoredSequences sc (se_id s) epoch db"
  assume some: "?ss \<noteq> []"
  have sorted: "sorted ?ss" by (simp add: StoredSequences_def)
  have pos: "\<forall>q \<in> set ?ss. 1 - 1 \<le> q" using StoredSequences_positive [OF assms(1)] by force
  have final: "0 \<le> last ?ss" using pos last_in_set [OF some] by force
  obtain gaps where gaps: "gapsUnder s epoch (last ?ss) db = Inr gaps" using assms(2) by (simp add: gapsUnder_def)
  note a = gapsUnder_exact [OF gaps final assms(2)]
  have c: "snd (cursor sc (se_id s) epoch db) = gap_list 1 ?ss"
    by (simp add: cursor_def cursor_loop_missing)
  have "in_gaps k gaps = in_gaps k (gap_list 1 ?ss)" for k
  proof -
    have "(\<exists>h \<in> set ?ss. k < h) \<longleftrightarrow> k < last ?ss"
      using sorted_last_max [OF sorted] last_in_set [OF some] by force
    moreover have "k \<notin> set ?ss \<Longrightarrow> k \<le> last ?ss \<longleftrightarrow> k < last ?ss" by (metis last_in_set order_le_less some)
    ultimately show ?thesis using a gap_list_covers [OF sorted pos, of k] by auto
  qed
  with gaps_unique [OF conjunct1 [OF a] gap_list_apart [OF sorted pos]] gaps c
  show "gapsUnder s epoch (last ?ss) db = Inr (snd (cursor sc (se_id s) epoch db))" by simp
qed

theorem gaps_under_the_final_cursor_witness:
  "gapsUnder ex_session 1 5 ex_control_db = Inr [(3, 4)] \<and> snd (cursor (AsUser ''u1'') ''s1'' 1 ex_control_db) = [(3, 4)]"
proof -
  have "slots_positive ex_control_db" "scope_of (se_ref ex_session) = Some (AsUser ''u1'')"
    and s: "StoredSequences (AsUser ''u1'') ''s1'' 1 ex_control_db = [1, 2, 5]"
    and g: "gapsUnder ex_session 1 5 ex_control_db = Inr [(3, 4)]" by code_simp+
  from gaps_under_the_final_cursor [OF this(1,2), of 5 1] s g show ?thesis by (simp add: ex_session_def)
qed

section \<open>One seal, one receipt\<close>

lemma finalize_tracks_frame:
  "finalize_tracks stat s rs st db = Inr (st', db') \<Longrightarrow> \<exists>ts. db' = db\<lparr>db_tracks := ts\<rparr>"
proof (induction rs arbitrary: st db)
  case Nil
  then show ?case by (intro exI [of _ "db_tracks db"]) simp
next
  case (Cons r rs)
  show ?case
  proof (cases "mt_state r = ''recording''")
    case True
    obtain v digest bytes where v: "verdict stat r = (v, digest, bytes)" by (cases "verdict stat r")
    with Cons.prems True obtain db1 where res: "resolveTrack s (mt_track r) v digest bytes db = Inr db1"
      and rest: "finalize_tracks stat s rs (if v = ''missing'' then ''missing'' else st) db1 = Inr (st', db')"
      by (auto simp: bindE_Inr)
    from update_tracks_Inr [OF res [unfolded resolveTrack_def]] obtain ts where "db1 = db\<lparr>db_tracks := ts\<rparr>" by blast
    with Cons.IH [OF rest] show ?thesis by auto
  qed (use Cons in auto)
qed

lemma media_status_frame:
  assumes "media_status cp s db = Inr ((media, warnings), db')"
  shows "(\<exists>ts. db' = db\<lparr>db_tracks := ts\<rparr>) \<and> set warnings = (if media = ''missing'' then {WarningMediaMissing} else {})
    \<and> (se_preference s = RecordingTranscriptOnly \<longleftrightarrow> media = ''none_by_choice'')"
proof -
  have same: "\<exists>ts. db = db\<lparr>db_tracks := ts\<rparr>" by (rule exI [of _ "db_tracks db"]) simp
  show ?thesis
  proof (cases "se_preference s = RecordingTranscriptOnly \<or> cp_media cp = None")
    case True
    with assms same show ?thesis by (auto simp: media_status_def split: if_splits)
  next
    case False
    then obtain stat where stat: "cp_media cp = Some stat" "se_preference s \<noteq> RecordingTranscriptOnly" by auto
    with assms have fin: "FinalizeRecording stat s db = Inr (media, db')"
      and w: "warnings = (if media \<noteq> ''finalized'' then [WarningMediaMissing] else [])"
      by (auto simp: media_status_def bindE_Inr)
    then obtain tracks where run: "(if tracks = [] then Inr (''missing'', db) else finalize_tracks stat s tracks ''finalized'' db)
        = Inr (media, db')" by (auto simp: FinalizeRecording_def bindE_Inr)
    have statuses: "st' = ''missing'' \<or> st' = ''finalized''"
      if "finalize_tracks stat s rs st d = Inr (st', d')" "st = ''missing'' \<or> st = ''finalized''" for rs st d st' d'
      using that by (induction rs arbitrary: st d) (auto simp: bindE_Inr split: if_splits prod.splits)
    show ?thesis
    proof (cases "tracks = []")
      case True
      with run w stat same show ?thesis by auto
    next
      case False
      with run have "finalize_tracks stat s tracks ''finalized'' db = Inr (media, db')" by simp
      with finalize_tracks_frame [OF this] statuses [OF this] w stat show ?thesis by auto
    qed
  qed
qed

lemma read_receipt_row:
  "read_receipt s db = Inr rc \<Longrightarrow> \<exists>r \<in> set (db_seals db). ref_session (sl_ref r) = se_id s \<and> rc = receipt_of s r"
  by (auto simp: read_receipt_def find_seal_def find_Some_iff split: option.splits)

lemma Get_id: "Get ref db = Inr s \<Longrightarrow> se_id s = ref_session ref"
  using find_session_Some by (fastforce simp: Get_def get_def split: option.splits)

text \<open>What a receipt rests on: a row of the seals it is read from, whatever the state it adds.\<close>

definition answers_row :: "string \<Rightarrow> (interview_error + receipt) \<times> interview_db \<Rightarrow> bool" where
  "answers_row i p \<longleftrightarrow> (\<forall>rc. fst p = Inr rc \<longrightarrow>
     (\<exists>r \<in> set (db_seals (snd p)). \<exists>s. ref_session (sl_ref r) = i \<and> rc = receipt_of s r))"

lemma answers_row_Inl [simp]: "answers_row i (Inl e, db)"
  by (simp add: answers_row_def)

lemma answer_receipt_row: "answers_row (ref_session ref) (answer_receipt env ref db)"
  using read_receipt_row Get_id
  by (fastforce simp: answers_row_def answer_receipt_def Let_def split: sum.splits)

lemma move_to_evaluating_row: "answers_row (ref_session ref) (move_to_evaluating env ref s e actor db)"
  by (simp add: move_to_evaluating_def Let_def answer_receipt_row split: sum.splits prod.splits interview_error.splits)

lemma freeze_row: "answers_row (ref_session ref) (freeze cp env ref epoch q actor completion s db)"
  by (simp add: freeze_def Let_def move_to_evaluating_row split: sum.splits prod.splits)

lemma complete_row: "answers_row (ref_session ref) (complete cp env ref epoch q actor completion db)"
proof (cases "Get ref db")
  case (Inr s)
  let ?db1 = "cx_others env 1 db"
  show ?thesis
  proof (cases "read_receipt s ?db1")
    case rc: (Inr rc)
    from read_receipt_row [OF rc] Get_id [OF Inr] have "answers_row (ref_session ref) (Inr rc, ?db1)"
      by (auto simp: answers_row_def)
    then show ?thesis by (simp add: complete_def Let_def Inr rc del: One_nat_def)
  next
    case (Inl e)
    then show ?thesis by (simp add: complete_def Let_def Inr freeze_row del: One_nat_def)
  qed
qed (simp add: complete_def)

text \<open>Seals are one to a session, and nothing updates or deletes one.\<close>

definition seals_keyed :: "interview_db \<Rightarrow> bool" where
  "seals_keyed db \<longleftrightarrow> distinct (map (\<lambda>r. ref_session (sl_ref r)) (db_seals db))"

definition seals_stand :: "interview_db \<Rightarrow> interview_db \<Rightarrow> bool" where
  "seals_stand db db' \<longleftrightarrow> (seals_keyed db \<longrightarrow> seals_keyed db' \<and> set (db_seals db) \<subseteq> set (db_seals db'))"

lemma seals_stand_refl [simp]: "seals_stand db db"
  by (simp add: seals_stand_def)

lemma seals_stand_trans: "seals_stand db db1 \<Longrightarrow> seals_stand db1 db2 \<Longrightarrow> seals_stand db db2"
  by (auto simp: seals_stand_def)

lemma seals_stand_same: "db_seals db' = db_seals db \<Longrightarrow> seals_stand db db'"
  by (simp add: seals_stand_def seals_keyed_def)

lemma Transition_seals:
  "Transition s to ef actor eid now db = Inr (s', db') \<Longrightarrow> seals_stand db0 db \<Longrightarrow> seals_stand db0 db'"
  using seals_stand_trans [OF _ seals_stand_same] by (blast dest: Transition_Inr transition_frame_fields(9))

lemma seal_stands:
  "seal s epoch q gaps digest media warnings input now db = Inr db' \<Longrightarrow> seals_stand db0 db \<Longrightarrow> seals_stand db0 db'"
  by (rule seals_stand_trans)
    (auto simp: seal_def InsertSeal_def seals_stand_def seals_keyed_def split: option.splits if_splits insert_result.splits)

text \<open>What others do between the transactions of a completion keeps to the same rule.\<close>

definition orderly :: "completion_env \<Rightarrow> bool" where
  "orderly env \<longleftrightarrow> (\<forall>n db. seals_stand db (cx_others env n db))"

lemma orderly_step: "orderly env \<Longrightarrow> seals_stand db0 db \<Longrightarrow> seals_stand db0 (cx_others env n db)"
  by (meson orderly_def seals_stand_trans)

lemma answer_receipt_stands:
  "orderly env \<Longrightarrow> seals_stand db0 db \<Longrightarrow> seals_stand db0 (snd (answer_receipt env ref db))"
  by (simp add: answer_receipt_def Let_def orderly_step split: sum.splits)

lemma media_status_stands:
  "media_status cp s db = Inr (mw, db') \<Longrightarrow> seals_stand db0 db \<Longrightarrow> seals_stand db0 db'"
  by (cases mw) (auto simp: seals_stand_def seals_keyed_def dest!: media_status_frame)

lemma move_to_evaluating_stands:
  assumes "orderly env" and "seals_stand db0 db"
  shows "seals_stand db0 (snd (move_to_evaluating env ref s e actor db))"
  using assms
  by (auto simp: move_to_evaluating_def Let_def orderly_step answer_receipt_stands split: sum.splits prod.splits interview_error.splits)
    (blast intro: answer_receipt_stands Transition_seals orderly_step)+

lemma freeze_stands:
  assumes "orderly env" and "seals_stand db0 db"
  shows "seals_stand db0 (snd (freeze cp env ref epoch q actor completion s db))"
proof -
  have "media_status cp s (cx_others env 4 (cx_others env 3 (cx_others env 2 db))) = Inr (mw, db1) \<Longrightarrow> seals_stand db0 db1"
    for mw db1 using assms by (blast intro: media_status_stands orderly_step)
  with assms show ?thesis
    by (auto simp: freeze_def Let_def orderly_step split: sum.splits prod.splits
        intro: orderly_step)
      (blast intro: move_to_evaluating_stands seal_stands orderly_step)+
qed

lemma complete_stands:
  assumes "orderly env" and "seals_stand db0 db"
  shows "seals_stand db0 (snd (complete cp env ref epoch q actor completion db))"
  using assms by (auto simp: complete_def Let_def orderly_step freeze_stands split: sum.splits)

text \<open>C7: However many times a session is completed, by whomever and at the same time, there is one receipt.  A
  completion never seals a session twice and removes no seal, whatever others do between its transactions
  as long as they keep to the same rule; and a completion that succeeds answers, whatever cursor it asked
  for, exactly what an earlier one answered: the same sealed epoch and cursor, gaps, digests, media status,
  warnings and time.  Only the state the session has reached by then may differ.\<close>

theorem one_seal_one_receipt:
  assumes "complete cp1 env1 ref1 e1 q1 a1 c1 db1 = (Inr rc1, db1')"
    and "complete cp2 env2 ref2 e2 q2 a2 c2 db2 = (answer2, db2')"
    and "ref_session ref1 = ref_session ref2" and "orderly env1" and "orderly env2"
    and "seals_keyed db1" and "seals_stand db1' db2"
  shows "seals_keyed db2' \<and> set (db_seals db1) \<subseteq> set (db_seals db2')
    \<and> (\<forall>rc2. answer2 = Inr rc2 \<longrightarrow> rc2 = rc1\<lparr>rc_state := rc_state rc2\<rparr>)"
proof -
  have "seals_stand db1 db1'"
    using complete_stands [OF assms(4), of db1 db1 cp1 ref1 e1 q1 a1 c1] assms(1) by simp
  moreover have "seals_stand db2 db2'"
    using complete_stands [OF assms(5), of db2 db2 cp2 ref2 e2 q2 a2 c2] assms(2) by simp
  ultimately have keyed: "seals_keyed db2'" "set (db_seals db1) \<subseteq> set (db_seals db2')"
    and kept: "set (db_seals db1') \<subseteq> set (db_seals db2')" using assms(6,7) by (auto simp: seals_stand_def)
  have "rc2 = rc1\<lparr>rc_state := rc_state rc2\<rparr>" if ok: "answer2 = Inr rc2" for rc2
  proof -
    obtain r1 s1 where r1: "r1 \<in> set (db_seals db2')" "ref_session (sl_ref r1) = ref_session ref1" "rc1 = receipt_of s1 r1"
      using complete_row [of ref1 cp1 env1 e1 q1 a1 c1 db1] assms(1) kept by (auto simp: answers_row_def)
    obtain r2 s2 where r2: "r2 \<in> set (db_seals db2')" "ref_session (sl_ref r2) = ref_session ref2" "rc2 = receipt_of s2 r2"
      using complete_row [of ref2 cp2 env2 e2 q2 a2 c2 db2] assms(2) ok by (auto simp: answers_row_def)
    have "inj_on (\<lambda>r. ref_session (sl_ref r)) (set (db_seals db2'))"
      using keyed(1) by (simp add: seals_keyed_def distinct_map)
    from inj_onD [OF this _ r1(1) r2(1)] r1(2) r2(2) assms(3) have "r1 = r2" by simp
    with r1 r2 show ?thesis by (simp add: receipt_of_def)
  qed
  with keyed show ?thesis by blast
qed

section \<open>What completing does\<close>

definition quiet :: "completion_env \<Rightarrow> bool" where
  "quiet env \<longleftrightarrow> cx_others env = (\<lambda>_ db. db)"

lemma seal_Inr:
  assumes "seal s epoch q gaps digest media warnings input now db = Inr db'"
    and "scope_of (se_ref s) = Some sc" and "ref_session (se_ref s) \<notin> (\<lambda>r. ref_session (sl_ref r)) ` set (db_seals db)"
  shows "db' = db\<lparr>db_seals := db_seals db @ [\<lparr>sl_ref = se_ref s, sl_epoch = to_int32 epoch, sl_sequence = to_int32 q,
      sl_gaps = gaps, sl_transcript_digest = digest, sl_bundle_digest = se_bundle_digest s, sl_media = media,
      sl_warnings = warnings, sl_input_digest = input, sl_created_at = now\<rparr>]\<rparr>"
  using assms by (auto simp: seal_def InsertSeal_def split: if_splits insert_result.splits)

text \<open>The row a completion of \<open>s\<close> seals.\<close>

definition seal_for ::
  "completer \<Rightarrow> completion_env \<Rightarrow> session \<Rightarrow> int \<Rightarrow> transcript \<Rightarrow> sequence_range list \<Rightarrow> string \<Rightarrow> string list \<Rightarrow> string \<Rightarrow> seal_row" where
  "seal_for cp env s q t gaps media warnings input = \<lparr>sl_ref = se_ref s, sl_epoch = se_epoch s, sl_sequence = q, sl_gaps = gaps,
     sl_transcript_digest = transcriptDigest cp t, sl_bundle_digest = se_bundle_digest s, sl_media = media,
     sl_warnings = warnings @ (if gaps \<noteq> [] then [WarningGapsRecorded] else []), sl_input_digest = input,
     sl_created_at = cx_now env\<rparr>"

definition int32 :: "int \<Rightarrow> bool" where
  "int32 k \<longleftrightarrow> 0 \<le> k \<and> k < 2147483648"

lemma int32_to: "int32 k \<Longrightarrow> to_int32 k = k"
  by (simp add: int32_def to_int32_id)

lemma freeze_quiet:
  assumes "freeze cp env ref epoch q actor completion s db = (Inr rc, db')" and "quiet env"
    and "epoch = se_epoch s" and "int32 epoch" and "int32 q"
    and "se_id s \<notin> (\<lambda>r. ref_session (sl_ref r)) ` set (db_seals db)"
  shows "\<exists>sc t gaps media warnings input ts. scope_of (se_ref s) = Some sc \<and> AssembleTranscript ref db = Inr t
    \<and> gapsUnder s epoch q db = Inr gaps \<and> set warnings = (if media = ''missing'' then {WarningMediaMissing} else {})
    \<and> move_to_evaluating env ref s (completedEvent s t completion) actor
         (db\<lparr>db_tracks := ts, db_seals := db_seals db @ [seal_for cp env s q t gaps media warnings input]\<rparr>) = (Inr rc, db')"
proof -
  from assms(1,2) obtain t gaps media warnings dbm input dbs where t: "AssembleTranscript ref db = Inr t"
    and gaps: "gapsUnder s epoch q db = Inr gaps" and media: "media_status cp s db = Inr ((media, warnings), dbm)"
    and input: "write_input cp s t = Inr input"
    and seal: "seal s epoch q gaps (transcriptDigest cp t) media
        (warnings @ (if gaps \<noteq> [] then [WarningGapsRecorded] else [])) input (cx_now env) dbm = Inr dbs"
    and move: "move_to_evaluating env ref s (completedEvent s t completion) actor dbs = (Inr rc, db')"
    by (auto simp: freeze_def quiet_def Let_def split: sum.splits prod.splits)
  from gaps obtain sc where sc: "scope_of (se_ref s) = Some sc" by (auto simp: gapsUnder_def split: option.splits)
  from media_status_frame [OF media] obtain ts where dbm: "dbm = db\<lparr>db_tracks := ts\<rparr>"
    and w: "set warnings = (if media = ''missing'' then {WarningMediaMissing} else {})" by blast
  have "dbs = db\<lparr>db_tracks := ts, db_seals := db_seals db @ [seal_for cp env s q t gaps media warnings input]\<rparr>"
    using seal_Inr [OF seal sc] assms(3-6) by (simp add: dbm seal_for_def int32_to)
  with sc t gaps w move show ?thesis by blast
qed

lemma Get_mem: "Get ref db = Inr s \<Longrightarrow> s \<in> set (db_sessions db)"
  using find_session_Some by (fastforce simp: Get_def get_def split: option.splits)

lemma answer_receipt_quiet:
  "quiet env \<Longrightarrow> answer_receipt env ref db = (Inr rc, db') \<Longrightarrow>
     \<exists>final. Get ref db = Inr final \<and> read_receipt final db = Inr rc \<and> db' = db"
  by (cases "Get ref db") (auto simp: answer_receipt_def quiet_def Let_def)

lemma find_append_None: "find P xs = None \<Longrightarrow> find P (xs @ ys) = find P ys"
  by (induction xs) (auto split: if_splits)

lemma move_quiet:
  assumes "move_to_evaluating env ref s e actor db = (Inr rc, db')" and "quiet env" and "sessions_keyed db"
    and "s \<in> set (db_sessions db)" and "0 \<le> se_version s" and "se_version s < 2147483647" and "se_id s = ref_session ref"
  shows "\<exists>final x audits. Get ref db' = Inr final \<and> se_state final = StateEvaluating \<and> se_ref final = se_ref s
    \<and> read_receipt final db' = Inr rc \<and> db_seals db' = db_seals db \<and> db_events db' = db_events db
    \<and> db_outbox db' = db_outbox db @ [x] \<and> ev_type (ob_event x) = ev_type e
    \<and> db_audit db' = db_audit db @ audits
    \<and> map au_action audits = [''interview.session_finalizing'', ''interview.session_evaluating'']"
proof -
  have v: "to_int32 (se_version s) = se_version s" using assms(5,6) by (simp add: to_int32_id)
  let ?ef = "no_effects\<lparr>ef_event := Some e\<rparr>"
  obtain f dbf where f: "Transition s StateFinalizing ?ef actor (cx_event env) (cx_now env) db = Inr (f, dbf)"
    and rest: "(case Transition f StateEvaluating no_effects actor '''' (cx_now env) dbf of
        Inl SessionStale \<Rightarrow> answer_receipt env ref dbf | Inl err \<Rightarrow> (Inl err, dbf)
      | Inr (_, db) \<Rightarrow> answer_receipt env ref db) = (Inr rc, db')"
    using assms(1,2) Transition_not_stale [OF assms(4) v, of StateFinalizing ?ef actor "cx_event env" "cx_now env"]
    by (auto simp: move_to_evaluating_def quiet_def Let_def split: sum.splits prod.splits interview_error.splits)
  from Transition_row [OF assms(3) f] obtain r where r: "r \<in> set (db_sessions db)" "se_id r = se_id s"
    and ft: "f = transitioned StateFinalizing ?ef (cx_now env) r"
    and rowsf: "db_sessions dbf = map (\<lambda>x. if x = r then f else x) (db_sessions db)" by (auto simp: read_row_def)
  have "r = s" by (rule keyed_unique [OF assms(3) r(1) assms(4) r(2)])
  have keyf: "sessions_keyed dbf" by (rule Transition_keyed [OF assms(3) f])
  have inf: "f \<in> set (db_sessions dbf)" using r(1) by (simp add: rowsf)
  have "se_version f = se_version s + 1" by (simp add: ft \<open>r = s\<close>)
  then have vf: "to_int32 (se_version f) = se_version f" using assms(5,6) by (simp add: to_int32_id)
  obtain g dbg where g: "Transition f StateEvaluating no_effects actor '''' (cx_now env) dbf = Inr (g, dbg)"
    and ans: "answer_receipt env ref dbg = (Inr rc, db')"
    using rest Transition_not_stale [OF inf vf, of StateEvaluating no_effects actor "''''" "cx_now env"]
    by (auto split: sum.splits prod.splits interview_error.splits)
  from Transition_row [OF keyf g] obtain r2 where r2: "r2 \<in> set (db_sessions dbf)" "se_id r2 = se_id f"
    and gt: "g = transitioned StateEvaluating no_effects (cx_now env) r2"
    and rowsg: "db_sessions dbg = map (\<lambda>x. if x = r2 then g else x) (db_sessions dbf)" by (auto simp: read_row_def)
  have "r2 = f" by (rule keyed_unique [OF keyf r2(1) inf r2(2)])
  have keyg: "sessions_keyed dbg" by (rule Transition_keyed [OF keyf g])
  have ing: "g \<in> set (db_sessions dbg)" using r2(1) by (simp add: rowsg)
  from answer_receipt_quiet [OF assms(2) ans] obtain final
    where final: "Get ref dbg = Inr final" "read_receipt final dbg = Inr rc" and db': "db' = dbg" by blast
  have "final \<in> set (db_sessions dbg)" by (rule Get_mem [OF final(1)])
  moreover have "se_id final = se_id g" using Get_id [OF final(1)] assms(7) by (simp add: gt \<open>r2 = f\<close> ft \<open>r = s\<close>)
  ultimately have fin: "final = g" by (rule keyed_unique [OF keyg _ ing])
  from Transition_Inr [OF f] obtain ev1 where f1: "transition_frame db dbf (db_sessions dbf) [] ev1
      [transition_audit s StateFinalizing actor]" "map (ev_type \<circ> ob_event) ev1 = [ev_type e]"
    by (auto simp: transition_frame_def transition_bundles_def no_effects_def)
  from Transition_Inr [OF g] obtain ev2 where g1: "transition_frame dbf dbg (db_sessions dbg) [] ev2
      [transition_audit f StateEvaluating actor]" "map (ev_type \<circ> ob_event) ev2 = []"
    by (auto simp: transition_frame_def transition_bundles_def no_effects_def)
  from f1(2) obtain x where x: "ev1 = [x]" "ev_type (ob_event x) = ev_type e" by (auto simp: map_eq_Cons_conv)
  have parts: "db_seals dbg = db_seals db" "db_events dbg = db_events db" "db_outbox dbg = db_outbox db @ [x]"
    "db_audit dbg = db_audit db @ [transition_audit s StateFinalizing actor, transition_audit f StateEvaluating actor]"
    using transition_frame_fields [OF f1(1)] transition_frame_fields [OF g1(1)] g1(2) x(1) by simp_all
  have "se_state final = StateEvaluating" "se_ref final = se_ref s"
    by (simp_all add: fin gt \<open>r2 = f\<close> ft \<open>r = s\<close>)
  with final parts x(2) show ?thesis
    unfolding db' by (intro exI [of _ final] exI [of _ x] exI [of _ "[transition_audit s StateFinalizing actor, transition_audit f StateEvaluating actor]"])
      (simp add: transition_audit_def)
qed

text \<open>C8: Completing freezes the record and hands it to evaluation. When nobody interferes, a first completion that
  succeeds was of a session in flight at its current epoch; the receipt seals that epoch and the cursor asked
  for, the digest of the transcript as it assembles, and exactly the slots up to the cursor that are not held,
  with a warning when there are any and one when media is missing; the timeline is untouched, the completion
  is announced once, the session is left evaluating with both moves audited; and completing again, however,
  changes nothing and answers the same receipt at the same cursor and a conflict at any other.\<close>

theorem completion_freezes_the_record:
  assumes "complete cp env ref epoch q actor completion db = (Inr rc, db')" and "quiet env" and "sessions_keyed db"
    and "\<forall>s \<in> set (db_sessions db). small_epoch s \<and> 0 \<le> se_version s \<and> se_version s < 2147483647" and "int32 q"
    and "ref_session ref \<notin> (\<lambda>r. ref_session (sl_ref r)) ` set (db_seals db)"
  shows "\<exists>s sc t x audits. Get ref db = Inr s \<and> in_flight (se_state s) \<and> epoch = se_epoch s \<and> scope_of (se_ref s) = Some sc
    \<and> AssembleTranscript ref db = Inr t \<and> rc_transcript_digest rc = transcriptDigest cp t
    \<and> rc_state rc = StateEvaluating \<and> rc_epoch rc = epoch \<and> rc_sequence rc = q
    \<and> (\<forall>k. in_gaps k (rc_gaps rc) \<longleftrightarrow> 1 \<le> k \<and> k \<le> q \<and> k \<notin> set (StoredSequences sc (se_id s) epoch db))
    \<and> (WarningGapsRecorded \<in> set (rc_warnings rc) \<longleftrightarrow> rc_gaps rc \<noteq> [])
    \<and> (WarningMediaMissing \<in> set (rc_warnings rc) \<longleftrightarrow> rc_media rc = ''missing'')
    \<and> db_events db' = db_events db
    \<and> db_outbox db' = db_outbox db @ [x] \<and> ev_type (ob_event x) = ''interview.session_completed.v1''
    \<and> db_audit db' = db_audit db @ audits
    \<and> map au_action audits = [''interview.session_finalizing'', ''interview.session_evaluating'']
    \<and> (\<forall>cp2 env2 e2 q2 a2 c2. quiet env2 \<longrightarrow> complete cp2 env2 ref e2 q2 a2 c2 db'
         = (if e2 = epoch \<and> q2 = q then Inr rc else Inl SealConflict, db'))"
proof -
  from assms(1) obtain s where s: "Get ref db = Inr s" by (auto simp: complete_def split: sum.splits)
  have id: "se_id s = ref_session ref" by (rule Get_id [OF s])
  have mem: "s \<in> set (db_sessions db)" by (rule Get_mem [OF s])
  have "read_receipt s db \<noteq> Inr rc'" for rc' using read_receipt_row [of s db rc'] assms(6) id by force
  then obtain e where e: "read_receipt s db = Inl e" by (cases "read_receipt s db") auto
  with assms(1,2) s have fz: "freeze cp env ref epoch q actor completion s db = (Inr rc, db')"
    and flight: "in_flight (se_state s)" "epoch = se_epoch s"
    by (auto simp: complete_def quiet_def Let_def split: if_splits)
  have ep: "int32 epoch" using assms(4) mem flight(2) by (auto simp: small_epoch_def int32_def)
  from freeze_quiet [OF fz assms(2) flight(2) ep assms(5)] assms(6) id
  obtain sc t gaps media warnings input ts where sc: "scope_of (se_ref s) = Some sc" and t: "AssembleTranscript ref db = Inr t"
    and gaps: "gapsUnder s epoch q db = Inr gaps" and w: "set warnings = (if media = ''missing'' then {WarningMediaMissing} else {})"
    and move: "move_to_evaluating env ref s (completedEvent s t completion) actor
         (db\<lparr>db_tracks := ts, db_seals := db_seals db @ [seal_for cp env s q t gaps media warnings input]\<rparr>) = (Inr rc, db')"
    by auto
  let ?row = "seal_for cp env s q t gaps media warnings input"
  have keyed: "sessions_keyed (db\<lparr>db_tracks := ts, db_seals := db_seals db @ [?row]\<rparr>)" using assms(3) by (simp add: sessions_keyed_def)
  from move_quiet [OF move assms(2) keyed _ _ _ id] mem assms(4)
  obtain final x audits where final: "Get ref db' = Inr final" "se_state final = StateEvaluating" "se_ref final = se_ref s"
    "read_receipt final db' = Inr rc" and seals: "db_seals db' = db_seals db @ [?row]" and events: "db_events db' = db_events db"
    and out: "db_outbox db' = db_outbox db @ [x]" "ev_type (ob_event x) = ev_type (completedEvent s t completion)"
    and audits: "db_audit db' = db_audit db @ audits"
      "map au_action audits = [''interview.session_finalizing'', ''interview.session_evaluating'']" by auto
  have "find_seal sc (se_id s) db' = Some ?row"
  proof -
    have "find (\<lambda>r. ref_session (sl_ref r) = se_id s \<and> visible sc (sl_ref r)) (db_seals db) = None"
      using assms(6) id by (force simp: find_None_iff)
    then show ?thesis using scope_sees_own [OF sc] by (simp add: find_seal_def seals find_append_None seal_for_def)
  qed
  then have rc: "rc = receipt_of final ?row" using final(3,4) sc by (simp add: read_receipt_def)
  have q: "0 \<le> q" using assms(5) by (simp add: int32_def)
  note gaps_exact = gapsUnder_exact [OF gaps q sc]
  have fields: "rc_state rc = StateEvaluating" "rc_epoch rc = epoch" "rc_sequence rc = q" "rc_gaps rc = gaps"
    "rc_transcript_digest rc = transcriptDigest cp t" "rc_media rc = media"
    "rc_warnings rc = warnings @ (if gaps \<noteq> [] then [WarningGapsRecorded] else [])"
    using final(2) flight(2) by (simp_all add: rc receipt_of_def seal_for_def)
  have differ: "WarningGapsRecorded \<noteq> WarningMediaMissing" by (simp add: WarningGapsRecorded_def WarningMediaMissing_def)
  have again: "complete cp2 env2 ref e2 q2 a2 c2 db' = (if e2 = epoch \<and> q2 = q then Inr rc else Inl SealConflict, db')"
    if "quiet env2" for cp2 env2 e2 q2 a2 c2
    using that final(1,4) fields by (auto simp: complete_def quiet_def Let_def)
  have "ev_type (completedEvent s t completion) = ''interview.session_completed.v1''"
    by (simp add: completedEvent_def connection_event_def session_event_def)
  with s flight sc t fields gaps_exact w differ events out audits again show ?thesis
    by (intro exI [of _ s] exI [of _ sc] exI [of _ t] exI [of _ x] exI [of _ audits]) (simp split: if_splits)
qed

definition ex_completer :: completer where
  "ex_completer = \<lparr>cp_transcript_digest = (\<lambda>_. ''d1''), cp_input_digest = (\<lambda>_. ''i1''),
     cp_writer = Some (\<lambda>_ _. True), cp_competencies = None, cp_media = None\<rparr>"

definition ex_env :: completion_env where
  "ex_env = \<lparr>cx_now = 77, cx_event = ''c1'', cx_others = (\<lambda>_ db. db)\<rparr>"

definition ex_receipt :: receipt where
  "ex_receipt = \<lparr>rc_session = ''s1'', rc_state = StateEvaluating, rc_epoch = 1, rc_sequence = 3, rc_gaps = [(2, 3)],
     rc_transcript_digest = ''sha256:d1'', rc_bundle_digest = '''', rc_media = ''none_by_choice'',
     rc_warnings = [''SEQUENCE_GAPS_RECORDED''], rc_input_digest = ''sha256:i1'', rc_sealed_at = 77\<rparr>"

lemma ex_completed: "fst (Complete ex_completer ex_env (se_ref ex_session) 1 3 ex_turn_db) = Inr ex_receipt"
  by code_simp

theorem completion_freezes_the_record_witness:
  "\<exists>db'. Complete ex_completer ex_env (se_ref ex_session) 1 3 ex_turn_db = (Inr ex_receipt, db')
     \<and> Complete ex_completer ex_env (se_ref ex_session) 1 3 db' = (Inr ex_receipt, db')
     \<and> Complete ex_completer ex_env (se_ref ex_session) 1 4 db' = (Inl SealConflict, db')"
proof -
  obtain db' where r: "Complete ex_completer ex_env (se_ref ex_session) 1 3 ex_turn_db = (Inr ex_receipt, db')"
    using ex_completed by (metis prod.collapse)
  have k: "quiet ex_env" "sessions_keyed ex_turn_db" "int32 3"
    by (simp_all add: quiet_def ex_env_def sessions_keyed_def ex_turn_db_def int32_def)
  have v: "\<forall>s \<in> set (db_sessions ex_turn_db). small_epoch s \<and> 0 \<le> se_version s \<and> se_version s < 2147483647"
    by (simp add: ex_turn_db_def small_epoch_def ex_session_def)
  have u: "ref_session (se_ref ex_session) \<notin> (\<lambda>r. ref_session (sl_ref r)) ` set (db_seals ex_turn_db)"
    by (simp add: ex_turn_db_def ex_running_db_def ex_db_def empty_db_def)
  from completion_freezes_the_record [OF r [unfolded Complete_def] k(1,2) v k(3) u]
  have again: "complete cp2 env2 (se_ref ex_session) e2 q2 a2 c2 db'
      = (if e2 = 1 \<and> q2 = 3 then Inr ex_receipt else Inl SealConflict, db')" if "quiet env2" for cp2 env2 e2 q2 a2 c2
    using that by blast
  show ?thesis by (rule exI [of _ db']) (simp add: r, simp add: Complete_def again [OF k(1)])
qed

theorem one_seal_one_receipt_witness:
  "\<exists>db1 rc2 db2. Complete ex_completer ex_env (se_ref ex_session) 1 3 ex_turn_db = (Inr ex_receipt, db1)
     \<and> Complete ex_completer ex_env (se_ref ex_session) 1 3 db1 = (Inr rc2, db2) \<and> seals_keyed db2
     \<and> rc2 = ex_receipt\<lparr>rc_state := rc_state rc2\<rparr>"
proof -
  obtain db1 where r: "Complete ex_completer ex_env (se_ref ex_session) 1 3 ex_turn_db = (Inr ex_receipt, db1)"
    using ex_completed by (metis prod.collapse)
  let ?c = "Complete ex_completer ex_env (se_ref ex_session) 1 3 (snd (Complete ex_completer ex_env (se_ref ex_session) 1 3 ex_turn_db))"
  have "is_ok (fst ?c)" by code_simp
  then obtain rc2 db2 where c: "?c = (Inr rc2, db2)" by (metis is_ok_iff prod.collapse)
  have again: "Complete ex_completer ex_env (se_ref ex_session) 1 3 db1 = (Inr rc2, db2)" using c r by simp
  have o: "orderly ex_env" by (simp add: orderly_def ex_env_def)
  have k: "seals_keyed ex_turn_db" by (simp add: seals_keyed_def ex_turn_db_def ex_running_db_def ex_db_def empty_db_def)
  from one_seal_one_receipt [OF r [unfolded Complete_def] again [unfolded Complete_def] refl o o k seals_stand_refl] r again
  show ?thesis by blast
qed

section \<open>Where completion does not converge\<close>

text \<open>
  Idempotency is decided before the state: a session that was sealed and never moved (a crash between the
  seal and the transition) answers its receipt for ever after and is never moved again.
\<close>

lemma sealed_session_is_never_moved:
  assumes "Get ref db = Inr s" and "read_receipt s db = Inr rc" and "quiet env"
  shows "snd (complete cp env ref epoch q actor completion db) = db"
  using assms by (simp add: complete_def quiet_def Let_def)

text \<open>A completion that loses the race to the seal answers the winner's receipt, whatever cursor it asked for.\<close>

definition ex_racing :: completion_env where
  "ex_racing = ex_env\<lparr>cx_others := (\<lambda>n db. if n = 5 then
     db\<lparr>db_seals := db_seals db @ [ex_seal]\<rparr> else db)\<rparr>"

lemma race_answers_another_cursor:
  "map_sum id rc_sequence (fst (Complete ex_completer ex_racing (se_ref ex_session) 1 3 ex_turn_db)) = Inr 1"
  by code_simp

end
