(* ===== verification/Ledger.thy ===== *)
theory Ledger
  imports Row_Scope Float64
begin

text \<open>
  \<open>services/platform/internal/billing/ledger.go\<close>: the usage ledger and the quotas.  A started session is one
  entry, a correction a credit beside it, and the quota is enforced by reservation: the reserve
  transaction locks the tenant's quota row, counts the ledger and appends or refuses.  Entries are only
  ever appended (a trigger refuses the rest), so a transaction is a function of the tables.  The
  identifiers drawn for entries are arguments, and so is PostgreSQL's cast of a float to the column's
  \<open>numeric(3,2)\<close>.
\<close>

record usage_entry =
  ue_id :: string
  ue_tenant :: string
  ue_session :: string
  ue_kind :: string
  ue_reason :: string
  ue_mode :: string

record quota =
  qt_tenant :: string
  qt_limit :: "int option"
  qt_threshold :: rat

record ledger =
  lg_entries :: "usage_entry list"
  lg_quotas :: "quota list"

datatype ledger_error =
    QuotaExhausted
  | AlreadyMetered
  | TenantRequired
  | NotACredit string
  | NoStartToCredit string
  | LedgerRefused

definition ReasonEarlyAbandon :: string where "ReasonEarlyAbandon = ''early_abandon''"
definition ReasonPlatformInterrupted :: string where "ReasonPlatformInterrupted = ''interrupted_by_platform''"

section \<open>The tables\<close>

abbreviation started :: string where "started \<equiv> ''session_started''"
abbreviation credited :: string where "credited \<equiv> ''start_credited''"

definition count_kind :: "string \<Rightarrow> string \<Rightarrow> ledger \<Rightarrow> int" where
  "count_kind kind t l = int (length (filter (\<lambda>e. ue_tenant e = t \<and> ue_kind e = kind) (lg_entries l)))"

definition CountBillableStarts :: "string \<Rightarrow> ledger \<Rightarrow> int" where
  "CountBillableStarts t l = count_kind started t l - count_kind credited t l"

definition HasEntry :: "string \<Rightarrow> string \<Rightarrow> string \<Rightarrow> ledger \<Rightarrow> bool" where
  "HasEntry t session kind l \<longleftrightarrow>
     (\<exists>e \<in> set (lg_entries l). ue_tenant e = t \<and> ue_session e = session \<and> ue_kind e = kind)"

definition entry_key :: "usage_entry \<Rightarrow> string \<times> string" where
  "entry_key e = (ue_session e, ue_kind e)"

text \<open>A violation of either uniqueness, of the identifier or of session and kind, is the same error.\<close>

definition InsertUsageEntry :: "usage_entry \<Rightarrow> ledger \<Rightarrow> ledger_error + ledger" where
  "InsertUsageEntry e l =
     (if \<not> (ue_kind e \<in> {started, credited} \<and> (ue_kind e = started \<longleftrightarrow> ue_reason e = '''')
            \<and> ue_mode e \<in> {''practice'', ''screening''})
      then Inl LedgerRefused
      else if ue_id e \<in> ue_id ` set (lg_entries l) \<or> entry_key e \<in> entry_key ` set (lg_entries l)
      then Inl AlreadyMetered
      else Inr (l\<lparr>lg_entries := lg_entries l @ [e]\<rparr>))"

definition LockQuota :: "string \<Rightarrow> ledger \<Rightarrow> quota option" where
  "LockQuota t l = find (\<lambda>q. qt_tenant q = t) (lg_quotas l)"

section \<open>Metering\<close>

definition ReserveStart :: "string \<Rightarrow> string \<Rightarrow> string \<Rightarrow> string \<Rightarrow> ledger \<Rightarrow> ledger_error + ledger" where
  "ReserveStart t session mode eid l =
     (if SetTenant t = None then Inl TenantRequired
      else if case LockQuota t l of
                None \<Rightarrow> False
              | Some q \<Rightarrow> (case qt_limit q of None \<Rightarrow> False | Some n \<Rightarrow> CountBillableStarts t l \<ge> n)
      then Inl QuotaExhausted
      else InsertUsageEntry \<lparr>ue_id = eid, ue_tenant = t, ue_session = session, ue_kind = started, ue_reason = '''',
        ue_mode = mode\<rparr> l)"

definition CreditStart :: "string \<Rightarrow> string \<Rightarrow> string \<Rightarrow> string \<Rightarrow> ledger \<Rightarrow> ledger_error + ledger" where
  "CreditStart t session reason eid l =
     (if reason \<noteq> ReasonEarlyAbandon \<and> reason \<noteq> ReasonPlatformInterrupted then Inl (NotACredit reason)
      else if SetTenant t = None then Inl TenantRequired
      else if \<not> HasEntry t session started l then Inl (NoStartToCredit session)
      else InsertUsageEntry \<lparr>ue_id = eid, ue_tenant = t, ue_session = session, ue_kind = credited,
        ue_reason = reason, ue_mode = ''screening''\<rparr> l)"

text \<open>The cast of the limit to 32 bits, \<open>-1\<close> standing for none; the columns' own constraints.\<close>

definition SetQuota :: "(rat \<Rightarrow> rat) \<Rightarrow> string \<Rightarrow> int option \<Rightarrow> rat \<Rightarrow> ledger \<Rightarrow> ledger_error + ledger" where
  "SetQuota to_numeric t limit threshold l =
     (if SetTenant t = None then Inl TenantRequired
      else (let encoded = (case limit of None \<Rightarrow> - 1 | Some n \<Rightarrow> to_int32 n);
                n = (if encoded = - 1 then None else Some encoded);
                th = to_numeric threshold in
        if (case n of None \<Rightarrow> False | Some k \<Rightarrow> k < 0) \<or> th \<le> 0 \<or> th \<ge> 1 then Inl LedgerRefused
        else Inr (l\<lparr>lg_quotas := \<lparr>qt_tenant = t, qt_limit = n, qt_threshold = th\<rparr>
               # filter (\<lambda>q. qt_tenant q \<noteq> t) (lg_quotas l)\<rparr>)))"

section \<open>Usage\<close>

datatype warning = WarningNone | WarningApproaching | WarningReached

record usage =
  us_started :: int
  us_credited :: int
  us_billable :: int
  us_limit :: "int option"
  us_threshold :: rat
  us_warning :: warning
  us_remaining :: "int option"

definition Usage :: "string \<Rightarrow> ledger \<Rightarrow> ledger_error + usage" where
  "Usage t l =
     (if SetTenant t = None then Inl TenantRequired
      else (let billable = count_kind started t l - count_kind credited t l;
                u = \<lparr>us_started = count_kind started t l, us_credited = count_kind credited t l, us_billable = billable,
                  us_limit = None, us_threshold = fl (8 / 10), us_warning = WarningNone, us_remaining = None\<rparr> in
        case LockQuota t l of
          None \<Rightarrow> Inr u
        | Some q \<Rightarrow>
            (let u = u\<lparr>us_threshold := fl (qt_threshold q)\<rparr> in
             case qt_limit q of
               None \<Rightarrow> Inr u
             | Some n \<Rightarrow>
                 Inr (u\<lparr>us_limit := Some n, us_remaining := Some (max (n - billable) 0),
                   us_warning :=
                     (if billable \<ge> n then WarningReached
                      else if of_int billable \<ge> fl (of_int n * fl (qt_threshold q)) then WarningApproaching
                      else WarningNone)\<rparr>))))"

section \<open>The ledger's invariant\<close>

text \<open>Each session has one start and at most one credit, and a credit stands beside a start of its tenant.\<close>

definition ledger_ok :: "ledger \<Rightarrow> bool" where
  "ledger_ok l \<longleftrightarrow> distinct (map entry_key (lg_entries l))
     \<and> (\<forall>e \<in> set (lg_entries l). ue_kind e \<in> {started, credited}
          \<and> (ue_kind e = credited \<longrightarrow> HasEntry (ue_tenant e) (ue_session e) started l))"

inductive ledger_step :: "ledger \<Rightarrow> ledger \<Rightarrow> bool" where
  reserves: "ReserveStart t s m i l = Inr l' \<Longrightarrow> ledger_step l l'"
| credits: "CreditStart t s r i l = Inr l' \<Longrightarrow> ledger_step l l'"

lemma InsertUsageEntry_Inr:
  "InsertUsageEntry e l = Inr l' \<Longrightarrow> l' = l\<lparr>lg_entries := lg_entries l @ [e]\<rparr>
     \<and> entry_key e \<notin> entry_key ` set (lg_entries l) \<and> ue_kind e \<in> {started, credited}"
  by (auto simp: InsertUsageEntry_def split: if_splits)

lemma HasEntry_append: "HasEntry t s k l \<Longrightarrow> HasEntry t s k (l\<lparr>lg_entries := lg_entries l @ es\<rparr>)"
  by (auto simp: HasEntry_def)

lemma ledger_step_entry:
  assumes "ledger_step l l'"
  shows "\<exists>e. l' = l\<lparr>lg_entries := lg_entries l @ [e]\<rparr> \<and> entry_key e \<notin> entry_key ` set (lg_entries l)
    \<and> ue_kind e \<in> {started, credited}
    \<and> (ue_kind e = started \<longrightarrow> (\<forall>q n. LockQuota (ue_tenant e) l = Some q \<longrightarrow> qt_limit q = Some n
          \<longrightarrow> CountBillableStarts (ue_tenant e) l < n))
    \<and> (ue_kind e = credited \<longrightarrow> HasEntry (ue_tenant e) (ue_session e) started l)"
  using assms
proof cases
  case (reserves t s m i)
  then show ?thesis
    by (auto simp: ReserveStart_def split: if_splits option.splits dest!: InsertUsageEntry_Inr)
next
  case (credits t s r i)
  then show ?thesis
    by (auto simp: CreditStart_def split: if_splits dest!: InsertUsageEntry_Inr)
qed

lemma ledger_step_ok:
  assumes "ledger_step l l'" and "ledger_ok l"
  shows "ledger_ok l'"
proof -
  from ledger_step_entry [OF assms(1)] obtain e where l': "l' = l\<lparr>lg_entries := lg_entries l @ [e]\<rparr>"
    and e: "entry_key e \<notin> entry_key ` set (lg_entries l)" "ue_kind e \<in> {started, credited}"
      "ue_kind e = credited \<longrightarrow> HasEntry (ue_tenant e) (ue_session e) started l" by blast
  from assms(2) e show ?thesis
    unfolding l' ledger_ok_def by (auto intro: HasEntry_append)
qed

lemma filter_tenant_kind_le:
  assumes "ledger_ok l"
  shows "count_kind credited t l \<le> count_kind started t l"
proof -
  let ?S = "filter (\<lambda>e. ue_tenant e = t \<and> ue_kind e = started) (lg_entries l)"
  let ?C = "filter (\<lambda>e. ue_tenant e = t \<and> ue_kind e = credited) (lg_entries l)"
  have keys: "distinct (map entry_key (lg_entries l))" using assms by (simp add: ledger_ok_def)
  have inj: "inj_on ue_session (set (filter (\<lambda>e. ue_tenant e = t \<and> ue_kind e = k) (lg_entries l)))" for k
    using keys by (auto simp: distinct_map inj_on_def entry_key_def)
  have len: "length (filter (\<lambda>e. ue_tenant e = t \<and> ue_kind e = k) (lg_entries l))
      = card (ue_session ` set (filter (\<lambda>e. ue_tenant e = t \<and> ue_kind e = k) (lg_entries l)))" for k
    unfolding card_image [OF inj]
    by (rule distinct_card [symmetric], rule distinct_filter) (use keys in \<open>simp add: distinct_map\<close>)
  have "ue_session ` set ?C \<subseteq> ue_session ` set ?S"
  proof
    fix s assume "s \<in> ue_session ` set ?C"
    then obtain c where "c \<in> set (lg_entries l)" "ue_tenant c = t" "ue_kind c = credited" "ue_session c = s" by auto
    with assms have "HasEntry t s started l" by (auto simp: ledger_ok_def)
    then show "s \<in> ue_session ` set ?S" by (force simp: HasEntry_def)
  qed
  then have "card (ue_session ` set ?C) \<le> card (ue_session ` set ?S)" by (intro card_mono) simp_all
  then show ?thesis unfolding count_kind_def using len by simp
qed

lemma count_kind_append:
  "count_kind k t (l\<lparr>lg_entries := lg_entries l @ [e]\<rparr>) = count_kind k t l + (if ue_tenant e = t \<and> ue_kind e = k then 1 else 0)"
  by (simp add: count_kind_def)

lemma ledger_step_within:
  assumes "ledger_step l l'" and "LockQuota t l = Some q" and "qt_limit q = Some n" and "CountBillableStarts t l \<le> n"
  shows "LockQuota t l' = Some q \<and> CountBillableStarts t l' \<le> n"
proof -
  from ledger_step_entry [OF assms(1)] obtain e where l': "l' = l\<lparr>lg_entries := lg_entries l @ [e]\<rparr>"
    and kind: "ue_kind e \<in> {started, credited}"
    and room: "ue_kind e = started \<longrightarrow> (\<forall>q n. LockQuota (ue_tenant e) l = Some q \<longrightarrow> qt_limit q = Some n
          \<longrightarrow> CountBillableStarts (ue_tenant e) l < n)" by blast
  from assms(2-4) kind room show ?thesis
    unfolding l' by (auto simp: LockQuota_def CountBillableStarts_def count_kind_append)
qed

text \<open>C28: The quota is never exceeded and nothing is metered twice. From a consistent ledger, through any sequence
  of reservations and credits of any tenants: what is billable to a tenant under a quota it had not exceeded
  never exceeds it, it is never negative, each session keeps at most one start and one credit, every credit
  stands beside a start, and no entry is ever taken back.\<close>

theorem quota_is_never_exceeded:
  assumes "ledger_step\<^sup>*\<^sup>* l l'" and "ledger_ok l" and "LockQuota t l = Some q" and "qt_limit q = Some n"
    and "CountBillableStarts t l \<le> n"
  shows "CountBillableStarts t l' \<le> n \<and> 0 \<le> CountBillableStarts t' l' \<and> ledger_ok l'
    \<and> prefix (lg_entries l) (lg_entries l')"
proof -
  from assms(1) have "LockQuota t l' = Some q \<and> CountBillableStarts t l' \<le> n \<and> ledger_ok l'
      \<and> prefix (lg_entries l) (lg_entries l')"
  proof (induction rule: rtranclp_induct)
    case (step l1 l2)
    from ledger_step_entry [OF step.hyps(2)] have "prefix (lg_entries l1) (lg_entries l2)" by auto
    with step ledger_step_within assms(4) ledger_step_ok show ?case by (meson prefix_order.trans)
  qed (use assms in simp)
  moreover from this have "0 \<le> CountBillableStarts t' l'"
    using filter_tenant_kind_le [of l' t'] by (simp add: CountBillableStarts_def)
  ultimately show ?thesis by blast
qed

definition ex_ledger :: ledger where
  "ex_ledger = \<lparr>lg_entries = [], lg_quotas = [\<lparr>qt_tenant = ''t1'', qt_limit = Some 1, qt_threshold = 8 / 10\<rparr>]\<rparr>"

definition ex_entry :: usage_entry where
  "ex_entry = \<lparr>ue_id = ''e1'', ue_tenant = ''t1'', ue_session = ''s1'', ue_kind = started, ue_reason = '''',
     ue_mode = ''screening''\<rparr>"

lemma ex_reserved: "ReserveStart ''t1'' ''s1'' ''screening'' ''e1'' ex_ledger = Inr (ex_ledger\<lparr>lg_entries := [ex_entry]\<rparr>)"
  by (simp add: ReserveStart_def ex_ledger_def LockQuota_def CountBillableStarts_def count_kind_def InsertUsageEntry_def
      ex_entry_def SetTenant_def TrimSpace_def is_space_def)

lemma ex_ledger_facts:
  "ledger_ok ex_ledger" "LockQuota ''t1'' ex_ledger = Some \<lparr>qt_tenant = ''t1'', qt_limit = Some 1, qt_threshold = 8 / 10\<rparr>"
  "CountBillableStarts ''t1'' ex_ledger \<le> 1"
  by (simp_all add: ledger_ok_def ex_ledger_def LockQuota_def CountBillableStarts_def count_kind_def)

theorem quota_is_never_exceeded_witness:
  "ledger_step\<^sup>*\<^sup>* ex_ledger (ex_ledger\<lparr>lg_entries := [ex_entry]\<rparr>)
   \<and> CountBillableStarts ''t1'' (ex_ledger\<lparr>lg_entries := [ex_entry]\<rparr>) \<le> 1"
proof -
  have s: "ledger_step\<^sup>*\<^sup>* ex_ledger (ex_ledger\<lparr>lg_entries := [ex_entry]\<rparr>)"
    by (rule r_into_rtranclp, rule reserves [OF ex_reserved])
  from quota_is_never_exceeded [OF s ex_ledger_facts(1,2) _ ex_ledger_facts(3)] s show ?thesis by simp
qed

section \<open>What the tenant is told\<close>

text \<open>The usage a tenant reads is what its next start will meet. The numbers add up and are never negative; the
  warning says reached exactly when a start of a session not yet metered would be refused for the quota, the
  remaining count is positive exactly when it would be admitted, and admitting it lowers the count by one;
  and where no limit is configured nothing is ever refused for it.\<close>

theorem usage_tells_the_next_start:
  assumes "ledger_ok l" and "Usage t l = Inr u"
    and "(session, started) \<notin> entry_key ` set (lg_entries l)" and "eid \<notin> ue_id ` set (lg_entries l)"
  shows "us_billable u = us_started u - us_credited u \<and> 0 \<le> us_billable u
    \<and> (us_warning u = WarningReached \<longleftrightarrow> ReserveStart t session ''screening'' eid l = Inl QuotaExhausted)
    \<and> (us_limit u = None \<longrightarrow> us_warning u = WarningNone)
    \<and> (\<forall>n. us_remaining u = Some n \<longrightarrow> 0 \<le> n \<and> (n > 0 \<longleftrightarrow> is_ok (ReserveStart t session ''screening'' eid l))
         \<and> (\<forall>l'. ReserveStart t session ''screening'' eid l = Inr l' \<longrightarrow>
              map_sum id us_remaining (Usage t l') = Inr (Some (n - 1))))"
proof -
  let ?e = "\<lparr>ue_id = eid, ue_tenant = t, ue_session = session, ue_kind = started, ue_reason = '''', ue_mode = ''screening''\<rparr>"
  have ten: "SetTenant t \<noteq> None" using assms(2) by (auto simp: Usage_def split: if_splits)
  have ins: "InsertUsageEntry ?e l = Inr (l\<lparr>lg_entries := lg_entries l @ [?e]\<rparr>)"
    using assms(3,4) by (simp add: InsertUsageEntry_def entry_key_def)
  have nonneg: "0 \<le> CountBillableStarts t l"
    using filter_tenant_kind_le [OF assms(1), of t] by (simp add: CountBillableStarts_def)
  have more: "LockQuota t (l\<lparr>lg_entries := lg_entries l @ [?e]\<rparr>) = LockQuota t l"
    "CountBillableStarts t (l\<lparr>lg_entries := lg_entries l @ [?e]\<rparr>) = CountBillableStarts t l + 1"
    by (simp_all add: LockQuota_def CountBillableStarts_def count_kind_append)
  have same: "us_billable u = us_started u - us_credited u \<and> us_billable u = CountBillableStarts t l"
    using assms(2) ten by (auto simp: Usage_def Let_def CountBillableStarts_def split: option.splits)
  show ?thesis
  proof (cases "\<exists>q n. LockQuota t l = Some q \<and> qt_limit q = Some n")
    case True
    then obtain q n where q: "LockQuota t l = Some q" "qt_limit q = Some n" by blast
    have res: "ReserveStart t session ''screening'' eid l
        = (if n \<le> CountBillableStarts t l then Inl QuotaExhausted else Inr (l\<lparr>lg_entries := lg_entries l @ [?e]\<rparr>))"
      using ten ins by (simp add: ReserveStart_def q)
    have u: "us_limit u = Some n" "us_remaining u = Some (max (n - CountBillableStarts t l) 0)"
      "us_warning u = WarningReached \<longleftrightarrow> n \<le> CountBillableStarts t l"
      using assms(2) ten by (auto simp: Usage_def Let_def q CountBillableStarts_def split: if_splits)
    have after: "map_sum id us_remaining (Usage t (l\<lparr>lg_entries := lg_entries l @ [?e]\<rparr>))
        = Inr (Some (max (n - (CountBillableStarts t l + 1)) 0))"
      using ten more by (auto simp: Usage_def Let_def q CountBillableStarts_def)
    from u res after same nonneg show ?thesis by (auto simp: max_def)
  next
    case False
    then have res: "ReserveStart t session ''screening'' eid l = Inr (l\<lparr>lg_entries := lg_entries l @ [?e]\<rparr>)"
      using ten ins by (auto simp: ReserveStart_def split: option.splits)
    have "us_limit u = None \<and> us_warning u = WarningNone \<and> us_remaining u = None"
      using False assms(2) ten by (auto simp: Usage_def Let_def split: option.splits)
    with res same nonneg show ?thesis by simp
  qed
qed

theorem usage_tells_the_next_start_witness:
  "\<exists>u. Usage ''t1'' ex_ledger = Inr u \<and> us_warning u \<noteq> WarningReached \<and> us_billable u = 0"
proof -
  have "is_ok (Usage ''t1'' ex_ledger)"
    by (simp add: Usage_def ex_ledger_def LockQuota_def SetTenant_def TrimSpace_def is_space_def Let_def)
  then obtain u where u: "Usage ''t1'' ex_ledger = Inr u" by (auto simp: is_ok_iff)
  have "(''s1'', started) \<notin> entry_key ` set (lg_entries ex_ledger)" "''e1'' \<notin> ue_id ` set (lg_entries ex_ledger)"
    by (simp_all add: ex_ledger_def)
  from usage_tells_the_next_start [OF ex_ledger_facts(1) u this] ex_reserved
  have w: "us_warning u \<noteq> WarningReached" by simp
  have "us_billable u = 0" using u
    by (auto simp: Usage_def ex_ledger_def LockQuota_def SetTenant_def TrimSpace_def is_space_def Let_def count_kind_def split: if_splits)
  with u w show ?thesis by blast
qed

section \<open>Retrying a reservation\<close>

text \<open>A retried reservation never meters again, but it is not always told so. A reservation that succeeded is
  one entry; reserving the same session again appends nothing: it is told the session is already metered
  unless the tenant's count now stands at its limit, and then it is told the quota is exhausted.\<close>

theorem retried_reservation:
  assumes "ReserveStart t session mode eid l = Inr l'"
  shows "lg_entries l' = lg_entries l @ [\<lparr>ue_id = eid, ue_tenant = t, ue_session = session, ue_kind = started,
        ue_reason = '''', ue_mode = mode\<rparr>]
    \<and> ReserveStart t session mode eid2 l' = Inl
        (if \<exists>q n. LockQuota t l = Some q \<and> qt_limit q = Some n \<and> n \<le> CountBillableStarts t l + 1
         then QuotaExhausted else AlreadyMetered)"
proof -
  let ?e = "\<lparr>ue_id = eid, ue_tenant = t, ue_session = session, ue_kind = started, ue_reason = '''', ue_mode = mode\<rparr>"
  have ten: "SetTenant t \<noteq> None" and ins: "InsertUsageEntry ?e l = Inr l'"
    using assms by (auto simp: ReserveStart_def split: if_splits)
  from InsertUsageEntry_Inr [OF ins] have l': "l' = l\<lparr>lg_entries := lg_entries l @ [?e]\<rparr>" by blast
  have mode: "mode \<in> {''practice'', ''screening''}" using ins by (auto simp: InsertUsageEntry_def split: if_splits)
  have again: "InsertUsageEntry \<lparr>ue_id = eid2, ue_tenant = t, ue_session = session, ue_kind = started,
      ue_reason = '''', ue_mode = mode\<rparr> l' = Inl AlreadyMetered"
    using mode by (auto simp: InsertUsageEntry_def l' entry_key_def)
  have "LockQuota t l' = LockQuota t l" "CountBillableStarts t l' = CountBillableStarts t l + 1"
    by (simp_all add: l' LockQuota_def CountBillableStarts_def count_kind_append)
  with ten again show ?thesis
    by (auto simp: ReserveStart_def l' split: option.splits)
qed

theorem retried_reservation_witness:
  "ReserveStart ''t1'' ''s1'' ''screening'' ''e2'' (ex_ledger\<lparr>lg_entries := [ex_entry]\<rparr>) = Inl QuotaExhausted"
proof -
  have "\<exists>q n. LockQuota ''t1'' ex_ledger = Some q \<and> qt_limit q = Some n \<and> n \<le> CountBillableStarts ''t1'' ex_ledger + 1"
    using ex_ledger_facts by (simp add: CountBillableStarts_def count_kind_def ex_ledger_def)
  with retried_reservation [OF ex_reserved, of "''e2''"] show ?thesis by simp
qed

text \<open>A limit that the cast takes to \<open>-1\<close> is stored as none.\<close>

lemma huge_limit_is_no_limit:
  "map_sum id (\<lambda>l. map qt_limit (lg_quotas l)) (SetQuota id ''t1'' (Some 4294967295) (8 / 10) \<lparr>lg_entries = [], lg_quotas = []\<rparr>)
   = Inr [None]"
  by (simp add: SetQuota_def SetTenant_def TrimSpace_def is_space_def to_int32_def Let_def)

end
