(* ===== verification/Start_Resume.thy ===== *)
theory Start_Resume
  imports Completion Ledger
begin

text \<open>
  \<open>services/platform/internal/interview/start.go\<close>, \<open>resume.go\<close> and \<open>grace.go\<close>, with the adapter of
  \<open>cmd/api/interview_adapter.go\<close> that puts the billing ledger behind the port start declares: how a ready
  session is started (quota, transition, attempt, timing, grant), how a dropped one is resumed, and how its
  reconnection window expires.  What others do before the \<open>n\<close>-th transaction of a command is an argument,
  as are the identifiers drawn, the time of each, and what the signer of room grants answers.
\<close>

section \<open>Ports\<close>

record room_grant =
  rg_url :: string
  rg_room :: string
  rg_token :: string
  rg_expires :: time

type_synonym room_grants = "string \<Rightarrow> string \<Rightarrow> duration \<Rightarrow> room_grant option"

datatype reserve_refusal = LedgerAlreadyMetered | LedgerRefusal interview_error

text \<open>
  \<open>StartLedger\<close>: reserving a session for a tenant in a mode, with the identifier of the entry.  What start
  relies on: a reservation, and the answer that there is one already, mean that the session is metered.
\<close>

locale start_ledger =
  fixes reserve :: "string \<Rightarrow> string \<Rightarrow> string \<Rightarrow> string \<Rightarrow> 'l \<Rightarrow> reserve_refusal + 'l"
    and metered :: "string \<Rightarrow> 'l \<Rightarrow> bool"
    and fresh :: "string \<Rightarrow> 'l \<Rightarrow> bool"
  assumes reserved: "reserve t s m i l = Inr l' \<Longrightarrow> metered s l'"
    and already: "fresh i l \<Longrightarrow> reserve t s m i l = Inl LedgerAlreadyMetered \<Longrightarrow> metered s l"

text \<open>The adapter over the billing ledger.\<close>

definition ledgerPort_ReserveStart ::
  "string \<Rightarrow> string \<Rightarrow> string \<Rightarrow> string \<Rightarrow> ledger \<Rightarrow> reserve_refusal + ledger" where
  "ledgerPort_ReserveStart t session mode eid l =
     (case ReserveStart t session mode eid l of
        Inr l' \<Rightarrow> Inr l'
      | Inl QuotaExhausted \<Rightarrow> Inl (LedgerRefusal StartQuotaExhausted)
      | Inl AlreadyMetered \<Rightarrow> Inl LedgerAlreadyMetered
      | Inl _ \<Rightarrow> Inl (LedgerRefusal (Unavailable ''billing'')))"

definition session_metered :: "string \<Rightarrow> ledger \<Rightarrow> bool" where
  "session_metered session l \<longleftrightarrow> (\<exists>e \<in> set (lg_entries l). ue_session e = session \<and> ue_kind e = started)"

definition unused_entry :: "string \<Rightarrow> ledger \<Rightarrow> bool" where
  "unused_entry i l \<longleftrightarrow> i \<notin> ue_id ` set (lg_entries l)"

section \<open>Start\<close>

definition startJoinWindow :: duration where "startJoinWindow = 2 * minute"

definition start_refusal :: "state \<Rightarrow> interview_error option" where
  "start_refusal st =
     (if st = StateReady then None
      else if st = StateExpired then Some StartExpired
      else if st \<in> {StateConnecting, StateInProgress, StateReconnecting, StateFinalizing, StateEvaluating,
                     StateReviewReady, StateArchived}
      then Some StartAlreadyStarted
      else Some StartNotReady)"

record command_env =
  ce_now :: "nat \<Rightarrow> time"
  ce_entry :: string
  ce_others :: "nat \<Rightarrow> interview_db \<Rightarrow> interview_db"

record started_session =
  sd_session :: session
  sd_grant :: room_grant
  sd_timing :: timing_policy

text \<open>Opening the attempt, stamping the timing and minting the grant of a session that has moved.\<close>

definition open_started ::
  "room_grants \<Rightarrow> command_env \<Rightarrow> string \<Rightarrow> session \<Rightarrow> interview_db \<Rightarrow> (interview_error + started_session) \<times> interview_db" where
  "open_started grants env candidate s db =
     (let db2 = ce_others env 2 db in
      case BeginAttempt s (ce_now env 2) db2 of
        Inl e \<Rightarrow> (Inl e, db2)
      | Inr (epoch, db) \<Rightarrow>
          (let db3 = ce_others env 3 db in
           case CurrentTimingPolicy db3 of
             Inl e \<Rightarrow> (Inl e, db3)
           | Inr policy \<Rightarrow>
               (let db4 = ce_others env 4 db3 in
                case StampTimingPolicy s policy db4 of
                  Inl e \<Rightarrow> (Inl e, db4)
                | Inr db5 \<Rightarrow>
                    (case grants (se_id s) candidate startJoinWindow of
                       None \<Rightarrow> (Inl (Unavailable ''minting the room grant''), db5)
                     | Some g \<Rightarrow> (Inr \<lparr>sd_session = s\<lparr>se_epoch := epoch, se_timing := tp_version policy\<rparr>,
                         sd_grant = g, sd_timing = policy\<rparr>, db5)))))"

definition Start ::
  "(string \<Rightarrow> string \<Rightarrow> string \<Rightarrow> string \<Rightarrow> 'l \<Rightarrow> reserve_refusal + 'l) \<Rightarrow> room_grants \<Rightarrow> command_env \<Rightarrow> session_ref
     \<Rightarrow> interview_db \<Rightarrow> 'l \<Rightarrow> (interview_error + started_session) \<times> interview_db \<times> 'l" where
  "Start reserve grants env ref db l =
     (case Get ref db of
        Inl e \<Rightarrow> (Inl e, db, l)
      | Inr s \<Rightarrow>
          (case start_refusal (se_state s) of
             Some e \<Rightarrow> (Inl e, db, l)
           | None \<Rightarrow>
               (case (if ref_mode (se_ref s) = ''screening''
                      then (case reserve (ref_tenant (se_ref s)) (se_id s) (ref_mode (se_ref s)) (ce_entry env) l of
                              Inr l' \<Rightarrow> Inr l' | Inl LedgerAlreadyMetered \<Rightarrow> Inr l | Inl (LedgerRefusal e) \<Rightarrow> Inl e)
                      else Inr l) of
                  Inl e \<Rightarrow> (Inl e, db, l)
                | Inr l' \<Rightarrow>
                    (let db1 = ce_others env 1 db in
                     case Transition s StateConnecting no_effects \<lparr>ac_id = ref_candidate ref, ac_type = ''user''\<rparr> ''''
                            (ce_now env 1) db1 of
                       Inl SessionStale \<Rightarrow> (Inl StartAlreadyStarted, db1, l')
                     | Inl e \<Rightarrow> (Inl e, db1, l')
                     | Inr (s', db) \<Rightarrow>
                         (case open_started grants env (ref_candidate ref) s' db of
                            (answer, db') \<Rightarrow> (answer, db', l'))))))"

section \<open>Resume\<close>

definition resumeJoinWindow :: duration where "resumeJoinWindow = 2 * minute"

definition resumable :: "state \<Rightarrow> bool" where
  "resumable st \<longleftrightarrow> st \<in> {StateConnecting, StateInProgress, StateReconnecting}"

record resumed_session =
  rs_session :: session
  rs_grant :: room_grant
  rs_timing :: timing_policy
  rs_previous :: int
  rs_accepted :: int
  rs_missing :: "sequence_range list"

definition timingOf :: "session \<Rightarrow> interview_db \<Rightarrow> interview_error + timing_policy \<times> interview_db" where
  "timingOf s db =
     (if se_timing s > 0 then bindE (TimingPolicyByVersion (se_timing s) db) (\<lambda>p. Inr (p, db))
      else bindE (CurrentTimingPolicy db)
        (\<lambda>p. bindE (StampTimingPolicy s p db) (\<lambda>db'. Inr (p, db'))))"

definition deadline :: "session \<Rightarrow> timing_policy \<Rightarrow> time" where
  "deadline s p = se_changed_at s + tp_grace p * second"

definition take_over ::
  "room_grants \<Rightarrow> command_env \<Rightarrow> session_ref \<Rightarrow> session \<Rightarrow> timing_policy \<Rightarrow> interview_db
     \<Rightarrow> (interview_error + resumed_session) \<times> interview_db" where
  "take_over grants env ref s policy db =
     (let db2 = ce_others env 2 db in
      case (if se_epoch s > 0 then CursorOf s (se_epoch s) db2 else Inr (0, [])) of
        Inl e \<Rightarrow> (Inl e, db2)
      | Inr (acc, missing) \<Rightarrow>
          (let db3 = ce_others env 3 db2 in
           case BeginAttempt s (ce_now env 3) db3 of
             Inl e \<Rightarrow> (Inl e, db3)
           | Inr (epoch, db) \<Rightarrow>
               (let db4 = ce_others env 4 db in
                case Get ref db4 of
                  Inl e \<Rightarrow> (Inl e, db4)
                | Inr current \<Rightarrow>
                    (case grants (se_id current) (ref_candidate ref) resumeJoinWindow of
                       None \<Rightarrow> (Inl (Unavailable ''minting the resume grant''), db4)
                     | Some g \<Rightarrow> (Inr \<lparr>rs_session = current, rs_grant = g, rs_timing = policy, rs_previous = se_epoch s,
                         rs_accepted = acc, rs_missing = missing\<rparr>, db4)))))"

definition Resume ::
  "room_grants \<Rightarrow> command_env \<Rightarrow> session_ref \<Rightarrow> interview_db \<Rightarrow> (interview_error + resumed_session) \<times> interview_db" where
  "Resume grants env ref db =
     (case Get ref db of
        Inl e \<Rightarrow> (Inl e, db)
      | Inr s \<Rightarrow>
          (if \<not> resumable (se_state s) then (Inl ResumeNotResumable, db)
           else (let db1 = ce_others env 1 db in
             case timingOf s db1 of
               Inl e \<Rightarrow> (Inl e, db1)
             | Inr (policy, db) \<Rightarrow>
                 (if se_state s = StateReconnecting \<and> ce_now env 1 > deadline s policy
                  then (Inl ResumeGraceExpired, db)
                  else take_over grants env ref s policy db))))"

section \<open>Grace\<close>

definition CauseGraceExpired :: string where "CauseGraceExpired = ''grace_expired''"

definition deadlineOf :: "session \<Rightarrow> interview_db \<Rightarrow> interview_error + time" where
  "deadlineOf s db =
     bindE (if se_timing s > 0 then TimingPolicyByVersion (se_timing s) db else CurrentTimingPolicy db)
       (\<lambda>p. Inr (deadline s p))"

record grace_check =
  gc_reconnecting :: bool
  gc_remaining :: int

text \<open>Whole seconds of a duration; what is past is zero.\<close>

definition RemainingGrace :: "session_ref \<Rightarrow> time \<Rightarrow> interview_db \<Rightarrow> interview_error + grace_check" where
  "RemainingGrace ref now db =
     bindE (Get ref db)
       (\<lambda>s. if se_state s \<noteq> StateReconnecting then Inr \<lparr>gc_reconnecting = False, gc_remaining = 0\<rparr>
            else bindE (deadlineOf s db)
              (\<lambda>d. Inr \<lparr>gc_reconnecting = True, gc_remaining = max 0 (time_sub d now div second)\<rparr>))"

definition grace_recorded :: "session \<Rightarrow> interruption_row list \<Rightarrow> bool" where
  "grace_recorded s facts \<longleftrightarrow> (\<exists>f \<in> set facts. ir_cause f = CauseGraceExpired \<and> ir_epoch f = se_epoch s)"

text \<open>The sealing of an expired session, after the fact is recorded.\<close>

definition expire_sealed ::
  "completer \<Rightarrow> completion_env \<Rightarrow> session_ref \<Rightarrow> session \<Rightarrow> actor \<Rightarrow> interview_db \<Rightarrow> interview_error option \<times> interview_db" where
  "expire_sealed cp cenv ref s actor db =
     (case complete cp cenv ref (se_epoch s) (se_accepted s) actor ''expired'' (cx_others cenv 0 db) of
        (Inl e, db') \<Rightarrow> (Some e, db') | (Inr _, db') \<Rightarrow> (None, db'))"

definition ExpireGrace ::
  "completer \<Rightarrow> completion_env \<Rightarrow> session_ref \<Rightarrow> string \<Rightarrow> string \<Rightarrow> time \<Rightarrow> interview_db
     \<Rightarrow> interview_error option \<times> interview_db" where
  "ExpireGrace cp cenv ref actor_id iid now db =
     (case Get ref db of
        Inl e \<Rightarrow> (Some e, db)
      | Inr s \<Rightarrow>
          (let db1 = cx_others cenv 10 db; db2 = cx_others cenv 11 db1; db3 = cx_others cenv 12 db2;
               actor = \<lparr>ac_id = actor_id, ac_type = ''service''\<rparr> in
           if se_state s \<noteq> StateReconnecting then (None, db)
           else case deadlineOf s db1 of
             Inl e \<Rightarrow> (Some e, db1)
           | Inr d \<Rightarrow>
               (if now < d then (None, db1)
                else case Interruptions ref db2 of
                  Inl e \<Rightarrow> (Some e, db2)
                | Inr facts \<Rightarrow>
                    (if grace_recorded s facts then expire_sealed cp cenv ref s actor db2
                     else case RecordInterruption s CauseGraceExpired (time_sub now (se_changed_at s) div second)
                            actor iid now db3 of
                       Inl e \<Rightarrow> (Some e, db3)
                     | Inr (_, db') \<Rightarrow> expire_sealed cp cenv ref s actor db'))))"

text \<open>
  The workflow: the check under the retry policy of five attempts, each at its own time; a wait; and the
  expiry under the same policy, each attempt with its own environment.  Every failure is retried.
\<close>

definition GraceAttempts :: nat where "GraceAttempts = 5"

record expiry_attempt =
  xa_completion :: completion_env
  xa_interruption :: string
  xa_now :: time
  xa_before :: "interview_db \<Rightarrow> interview_db"

definition GraceWorkflow ::
  "completer \<Rightarrow> session_ref \<Rightarrow> string \<Rightarrow> (time \<times> (interview_db \<Rightarrow> interview_db)) list \<Rightarrow> expiry_attempt list \<Rightarrow> interview_db
     \<Rightarrow> interview_error option \<times> interview_db" where
  "GraceWorkflow cp ref actor_id checks expiries db =
     (case retry (\<lambda>(now, others) db. (RemainingGrace ref now (others db), others db)) (\<lambda>r. \<not> is_ok r)
             GraceAttempts checks db of
        (results, db1) \<Rightarrow>
          (case results of
             [] \<Rightarrow> (Some (Unavailable ''no attempt''), db1)
           | _ # _ \<Rightarrow>
               (case last results of
                  Inl e \<Rightarrow> (Some e, db1)
                | Inr check \<Rightarrow>
                    (if \<not> gc_reconnecting check then (None, db1)
                     else case retry (\<lambda>x db. ExpireGrace cp (xa_completion x) ref actor_id (xa_interruption x) (xa_now x)
                                    (xa_before x db)) (\<lambda>r. r \<noteq> None) GraceAttempts expiries db1 of
                       (results, db2) \<Rightarrow>
                         (if results = [] then (Some (Unavailable ''no attempt''), db2) else (last results, db2))))))"

section \<open>Quota before anything\<close>

context start_ledger
begin

text \<open>A screening start that gets past the ledger is metered, whatever becomes of it.\<close>

lemma start_past_the_ledger:
  assumes "Start reserve grants env ref db l = (answer, db', l')" and "Get ref db = Inr s"
    and "ref_mode (se_ref s) = ''screening''" and "fresh (ce_entry env) l"
  shows "metered (se_id s) l' \<or> (db' = db \<and> l' = l \<and> \<not> is_ok answer)"
proof (cases "start_refusal (se_state s)")
  case (Some e)
  with assms(1,2) show ?thesis by (auto simp: Start_def)
next
  case None
  let ?r = "reserve (ref_tenant (se_ref s)) (se_id s) (ref_mode (se_ref s)) (ce_entry env) l"
  show ?thesis
  proof (cases ?r)
    case (Inr l1)
    with reserved have "metered (se_id s) l1" by blast
    with assms(1-3) None Inr show ?thesis
      by (auto simp: Start_def Let_def split: sum.splits interview_error.splits prod.splits)
  next
    case (Inl x)
    show ?thesis
    proof (cases x)
      case LedgerAlreadyMetered
      with Inl already assms(4) have "metered (se_id s) l" by blast
      with assms(1-3) None Inl LedgerAlreadyMetered show ?thesis
        by (auto simp: Start_def Let_def split: sum.splits interview_error.splits prod.splits)
    next
      case (LedgerRefusal e)
      with assms(1-3) None Inl show ?thesis by (auto simp: Start_def)
    qed
  qed
qed

end

interpretation billing: start_ledger ledgerPort_ReserveStart session_metered unused_entry
proof
  fix t s m i :: string and l l' :: ledger
  show "ledgerPort_ReserveStart t s m i l = Inr l' \<Longrightarrow> session_metered s l'"
    by (auto simp: ledgerPort_ReserveStart_def ReserveStart_def session_metered_def
        split: sum.splits ledger_error.splits if_splits dest!: InsertUsageEntry_Inr)
  assume "unused_entry i l" "ledgerPort_ReserveStart t s m i l = Inl LedgerAlreadyMetered"
  then show "session_metered s l"
    by (force simp: ledgerPort_ReserveStart_def ReserveStart_def session_metered_def unused_entry_def entry_key_def
        InsertUsageEntry_def split: sum.splits ledger_error.splits if_splits option.splits)
qed

lemma start_refused_untouched:
  assumes "Start ledgerPort_ReserveStart grants env ref db l = (answer, db', l')" and "Get ref db = Inr s"
    and "ref_mode (se_ref s) \<noteq> ''screening''"
  shows "l' = l"
  using assms by (auto simp: Start_def Let_def split: sum.splits interview_error.splits prod.splits option.splits)

lemma start_quota:
  assumes "ReserveStart (ref_tenant (se_ref s)) (se_id s) ''screening'' (ce_entry env) l = Inl QuotaExhausted"
    and "Get ref db = Inr s" and "ref_mode (se_ref s) = ''screening''" and "se_state s = StateReady"
  shows "Start ledgerPort_ReserveStart grants env ref db l = (Inl StartQuotaExhausted, db, l)"
  using assms by (simp add: Start_def start_refusal_def ledgerPort_ReserveStart_def)

text \<open>C29: Nothing is spent before the quota is. A screening start over the billing ledger either ends with the
  session metered, or was refused with neither the sessions nor the ledger touched; at the limit it is
  refused by name before anything moves; and a practice start never reaches the ledger.\<close>

theorem start_is_metered_first:
  assumes "Start ledgerPort_ReserveStart grants env ref db l = (answer, db', l')" and "Get ref db = Inr s"
    and "unused_entry (ce_entry env) l"
  shows "(ref_mode (se_ref s) = ''screening'' \<longrightarrow>
        session_metered (se_id s) l' \<or> (db' = db \<and> l' = l \<and> \<not> is_ok answer))
    \<and> (ref_mode (se_ref s) = ''screening'' \<and> se_state s = StateReady
        \<and> ReserveStart (ref_tenant (se_ref s)) (se_id s) ''screening'' (ce_entry env) l = Inl QuotaExhausted
        \<longrightarrow> answer = Inl StartQuotaExhausted \<and> db' = db \<and> l' = l)
    \<and> (ref_mode (se_ref s) \<noteq> ''screening'' \<longrightarrow> l' = l)"
  using billing.start_past_the_ledger [OF assms(1,2) _ assms(3)] start_refused_untouched [OF assms(1,2)]
    start_quota [OF _ assms(2), of env l grants] assms(1) by auto

definition still :: "command_env \<Rightarrow> bool" where
  "still env \<longleftrightarrow> ce_others env = (\<lambda>_ db. db)"

definition ex_grants :: room_grants where
  "ex_grants room who ttl = Some \<lparr>rg_url = ''wss://rooms'', rg_room = room, rg_token = who, rg_expires = ttl\<rparr>"

definition ex_command :: command_env where
  "ex_command = \<lparr>ce_now = (\<lambda>n. 1000 + int n), ce_entry = ''e1'', ce_others = (\<lambda>_ db. db)\<rparr>"

definition ex_screening :: session where
  "ex_screening = ex_session\<lparr>se_ref := \<lparr>ref_session = ''s1'', ref_mode = ''screening'', ref_candidate = ''u1'',
     ref_tenant = ''t1''\<rparr>, se_campaign := ''c1'', se_state := StateReady\<rparr>"

definition ex_policy :: timing_policy where
  "ex_policy = \<lparr>tp_version = 1, tp_grace = 120, tp_overrun = 300\<rparr>"

definition ex_start_db :: interview_db where
  "ex_start_db = empty_db\<lparr>db_sessions := [ex_screening], db_policies := [ex_policy]\<rparr>"

theorem start_is_metered_first_witness:
  "Start ledgerPort_ReserveStart ex_grants ex_command (se_ref ex_screening) ex_start_db (ex_ledger\<lparr>lg_entries :=
     [ex_entry\<lparr>ue_id := ''e0'', ue_session := ''s0''\<rparr>]\<rparr>)
   = (Inl StartQuotaExhausted, ex_start_db, ex_ledger\<lparr>lg_entries := [ex_entry\<lparr>ue_id := ''e0'', ue_session := ''s0''\<rparr>]\<rparr>)"
proof -
  let ?l = "ex_ledger\<lparr>lg_entries := [ex_entry\<lparr>ue_id := ''e0'', ue_session := ''s0''\<rparr>]\<rparr>"
  have g: "Get (se_ref ex_screening) ex_start_db = Inr ex_screening" by code_simp
  have u: "unused_entry (ce_entry ex_command) ?l" by (simp add: unused_entry_def ex_command_def ex_entry_def)
  have q: "ReserveStart (ref_tenant (se_ref ex_screening)) (se_id ex_screening) ''screening'' (ce_entry ex_command) ?l
      = Inl QuotaExhausted" "ref_mode (se_ref ex_screening) = ''screening''" "se_state ex_screening = StateReady"
    by (simp_all add: ReserveStart_def ex_screening_def ex_ledger_def ex_entry_def SetTenant_def TrimSpace_def is_space_def
        LockQuota_def CountBillableStarts_def count_kind_def)
  obtain answer db' l' where r: "Start ledgerPort_ReserveStart ex_grants ex_command (se_ref ex_screening) ex_start_db ?l
      = (answer, db', l')" by (metis prod_cases3)
  from start_is_metered_first [OF r g u] q r show ?thesis by simp
qed

section \<open>What a start opens\<close>

lemma Get_keyed:
  assumes "Get ref db = Inr s" and "sessions_keyed db'" and "r \<in> set (db_sessions db')" and "se_ref r = se_ref s"
  shows "Get ref db' = Inr r"
proof -
  from assms(1) obtain sc where sc: "scope_of ref = Some sc" and f: "find_session sc (ref_session ref) db = Some s"
    by (auto simp: Get_def get_def split: option.splits)
  from find_session_Some [OF f] assms(4) have "session_visible sc (se_ref r)" "se_id r = ref_session ref" by simp_all
  with find_session_keyed [OF assms(2,3)] sc show ?thesis by (metis Get_def get_def option.simps(5))
qed

text \<open>An update of the one row a session's own scope sees.\<close>

lemma update_own_row:
  assumes "sessions_keyed db" and "r \<in> set (db_sessions db)" and "visible sc (se_ref r)" and "se_id r = i"
    and "\<And>x. se_ref (f x) = se_ref x" and "update_sessions sc i guard f db = (moved, db')"
  shows "sessions_keyed db' \<and> (if guard r then f r else r) \<in> set (db_sessions db') \<and> (moved \<noteq> 0 \<longleftrightarrow> guard r)
    \<and> db' = db\<lparr>db_sessions := db_sessions db'\<rparr>"
proof -
  note db' = update_sessions_db [OF assms(6)]
  have ids: "map se_id (db_sessions db') = map se_id (db_sessions db)" by (simp add: db' assms(5))
  have one: "moved \<noteq> 0 \<longleftrightarrow> guard r"
    unfolding update_sessions_moved [OF assms(6)]
  proof
    assume "\<exists>x \<in> set (db_sessions db). se_id x = i \<and> visible sc (se_ref x) \<and> guard x"
    then obtain x where "x \<in> set (db_sessions db)" "se_id x = i" "guard x" by blast
    with keyed_unique [OF assms(1) _ assms(2), of x] assms(4) show "guard r" by simp
  qed (use assms(2-4) in blast)
  have "(if se_id r = i \<and> visible sc (se_ref r) \<and> guard r then f r else r) \<in> set (db_sessions db')"
    using assms(2) by (simp add: db')
  moreover have "db' = db\<lparr>db_sessions := db_sessions db'\<rparr>" unfolding db' by simp
  ultimately show ?thesis using ids one assms(1,3,4) by (simp add: sessions_keyed_def)
qed

lemma BeginAttempt_own:
  assumes "BeginAttempt s now db = Inr (epoch, db')" and "sessions_keyed db" and "s \<in> set (db_sessions db)"
    and "small_epoch s" and "se_epoch s < 2147483647"
  shows "epoch = se_epoch s + 1 \<and> sessions_keyed db' \<and> s\<lparr>se_epoch := epoch, se_accepted := 0\<rparr> \<in> set (db_sessions db')
    \<and> db_policies db' = db_policies db \<and> db_events db' = db_events db"
proof -
  have small: "0 \<le> se_epoch s" using assms(4) by (simp add: small_epoch_def)
  from BeginAttempt_Inr [OF assms(1,5) small] obtain sc where sc: "scope_of (se_ref s) = Some sc"
    and epoch: "epoch = se_epoch s + 1"
    and db': "db' = db\<lparr>db_sessions := map (\<lambda>r. if se_id r = se_id s \<and> visible sc (se_ref r) \<and> se_epoch r < epoch
          then r\<lparr>se_epoch := epoch, se_accepted := 0\<rparr> else r) (db_sessions db),
        db_attempts := db_attempts (SupersedeAttempts sc (se_id s) now db)
          @ [\<lparr>am_ref = se_ref s, am_epoch = epoch, am_superseded = None\<rparr>]\<rparr>" by blast
  let ?f = "\<lambda>r. if se_id r = se_id s \<and> visible sc (se_ref r) \<and> se_epoch r < epoch
      then r\<lparr>se_epoch := epoch, se_accepted := 0\<rparr> else r"
  have "map se_id (db_sessions db') = map se_id (db_sessions db)" by (simp add: db')
  moreover have "?f s \<in> set (db_sessions db')" using imageI [OF assms(3), of ?f] by (simp add: db')
  moreover have "db_policies db' = db_policies db \<and> db_events db' = db_events db" by (simp add: db')
  ultimately show ?thesis using assms(2) scope_sees_own [OF sc] epoch by (simp add: sessions_keyed_def)
qed

lemma StampTimingPolicy_own:
  assumes "StampTimingPolicy s p db = Inr db'" and "sessions_keyed db" and "r \<in> set (db_sessions db)" and "se_ref r = se_ref s"
  shows "sessions_keyed db' \<and> (if se_timing r = 0 then r\<lparr>se_timing := to_int32 (tp_version p)\<rparr> else r) \<in> set (db_sessions db')
    \<and> db' = db\<lparr>db_sessions := db_sessions db'\<rparr>"
proof -
  from assms(1) obtain sc where sc: "scope_of (se_ref s) = Some sc" by (auto simp: StampTimingPolicy_def split: option.splits)
  obtain moved db1 where u: "update_sessions sc (se_id s) (\<lambda>r. se_timing r = 0)
      (\<lambda>r. r\<lparr>se_timing := to_int32 (tp_version p)\<rparr>) db = (moved, db1)" by fastforce
  with assms(1) sc have "db1 = db'" by (auto simp: StampTimingPolicy_def split: if_splits)
  moreover have "visible sc (se_ref r)" using scope_sees_own [OF sc] assms(4) by simp
  ultimately show ?thesis using update_own_row [OF assms(2,3) _ _ _ u] assms(4) by simp
qed

text \<open>A start opens the session's first room. When nobody interferes, a start that succeeds was of a ready
  session: it is connecting now, one version and one epoch further with its cursor at zero, stamped with
  the timing policy in force unless it carried a stamp already, and the grant is for its own room and the
  candidate's identity; starting it again is refused as already started and neither spends nor moves
  anything.\<close>

theorem start_opens_the_session:
  assumes "Start ledgerPort_ReserveStart grants env ref db l = (Inr sd, db', l')" and "still env" and "sessions_keyed db"
    and "\<forall>s \<in> set (db_sessions db). small_epoch s \<and> se_epoch s < 2147483647"
  shows "\<exists>s r. Get ref db = Inr s \<and> se_state s = StateReady \<and> Get ref db' = Inr r
    \<and> se_state r = StateConnecting \<and> se_version r = se_version s + 1 \<and> se_epoch r = se_epoch s + 1 \<and> se_accepted r = 0
    \<and> CurrentTimingPolicy db = Inr (sd_timing sd)
    \<and> se_timing r = (if se_timing s = 0 then to_int32 (tp_version (sd_timing sd)) else se_timing s)
    \<and> grants (se_id s) (ref_candidate ref) startJoinWindow = Some (sd_grant sd)
    \<and> (\<forall>env2 l2. Start ledgerPort_ReserveStart grants env2 ref db' l2 = (Inl StartAlreadyStarted, db', l2))"
proof -
  from assms(1) obtain s where s: "Get ref db = Inr s" by (auto simp: Start_def split: sum.splits)
  with assms(1) have "start_refusal (se_state s) = None" by (cases "start_refusal (se_state s)") (auto simp: Start_def)
  then have ready: "se_state s = StateReady" by (simp add: start_refusal_def split: if_splits)
  let ?actor = "\<lparr>ac_id = ref_candidate ref, ac_type = ''user''\<rparr>"
  from assms(1,2) s ready obtain s1 db1 where t: "Transition s StateConnecting no_effects ?actor '''' (ce_now env 1) db = Inr (s1, db1)"
    and os: "open_started grants env (ref_candidate ref) s1 db1 = (Inr sd, db')"
    by (auto simp: Start_def start_refusal_def still_def Let_def split: sum.splits interview_error.splits prod.splits reserve_refusal.splits if_splits)
  have mem: "s \<in> set (db_sessions db)" by (rule Get_mem [OF s])
  from Transition_row [OF assms(3) t] obtain x where x: "x \<in> set (db_sessions db)" "se_id x = se_id s"
    and s1: "s1 = transitioned StateConnecting no_effects (ce_now env 1) x"
    and rows: "db_sessions db1 = map (\<lambda>y. if y = x then s1 else y) (db_sessions db)" by (auto simp: read_row_def)
  have "x = s" by (rule keyed_unique [OF assms(3) x(1) mem x(2)])
  note s1 = s1 [unfolded this]
  have key1: "sessions_keyed db1" by (rule Transition_keyed [OF assms(3) t])
  have mem1: "s1 \<in> set (db_sessions db1)" using x(1) by (simp add: rows)
  have small1: "small_epoch s1" "se_epoch s1 < 2147483647" using assms(4) mem by (simp_all add: s1 small_epoch_def)
  from Transition_Inr [OF t] obtain rs bs evs aus where "transition_frame db db1 rs bs evs aus" by blast
  then have pol: "db_policies db1 = db_policies db" by (rule transition_frame_fields)
  from os assms(2) obtain epoch db2 policy where b: "BeginAttempt s1 (ce_now env 2) db1 = Inr (epoch, db2)"
    and p: "CurrentTimingPolicy db2 = Inr policy" and st: "StampTimingPolicy s1 policy db2 = Inr db'"
    and g: "grants (se_id s1) (ref_candidate ref) startJoinWindow = Some (sd_grant sd)" and sd: "sd_timing sd = policy"
    by (auto simp: open_started_def still_def Let_def split: sum.splits prod.splits option.splits)
  let ?r = "s1\<lparr>se_epoch := epoch, se_accepted := 0\<rparr>"
  from BeginAttempt_own [OF b key1 mem1 small1] have epoch: "epoch = se_epoch s1 + 1" and key2: "sessions_keyed db2"
    and mem2: "?r \<in> set (db_sessions db2)" and pol2: "db_policies db2 = db_policies db1" by blast+
  let ?f = "if se_timing ?r = 0 then ?r\<lparr>se_timing := to_int32 (tp_version policy)\<rparr> else ?r"
  from StampTimingPolicy_own [OF st key2 mem2] have key3: "sessions_keyed db'" and mem3: "?f \<in> set (db_sessions db')" by simp_all
  have get: "Get ref db' = Inr ?f" by (rule Get_keyed [OF s key3 mem3]) (simp add: s1)
  have "CurrentTimingPolicy db = Inr policy" using p by (simp add: CurrentTimingPolicy_def pol2 pol)
  moreover have "Start ledgerPort_ReserveStart grants env2 ref db' l2 = (Inl StartAlreadyStarted, db', l2)" for env2 l2
    using get by (simp add: Start_def start_refusal_def s1)
  ultimately show ?thesis using s ready get epoch g sd by (intro exI [of _ s] exI [of _ ?f]) (simp add: s1)
qed

definition ex_ready_db :: interview_db where
  "ex_ready_db = empty_db\<lparr>db_sessions := [ex_session\<lparr>se_state := StateReady\<rparr>], db_policies := [ex_policy]\<rparr>"

theorem start_opens_the_session_witness:
  "\<exists>sd db' l'. Start ledgerPort_ReserveStart ex_grants ex_command (se_ref ex_session) ex_ready_db ex_ledger = (Inr sd, db', l')
     \<and> (\<exists>r. Get (se_ref ex_session) db' = Inr r \<and> se_state r = StateConnecting \<and> se_epoch r = 1)"
proof -
  let ?c = "Start ledgerPort_ReserveStart ex_grants ex_command (se_ref ex_session) ex_ready_db ex_ledger"
  have "is_ok (fst ?c)" by code_simp
  then obtain sd db' l' where c: "?c = (Inr sd, db', l')" by (metis is_ok_iff prod.collapse)
  have k: "still ex_command" "sessions_keyed ex_ready_db"
    "\<forall>s \<in> set (db_sessions ex_ready_db). small_epoch s \<and> se_epoch s < 2147483647"
    by (simp_all add: still_def ex_command_def sessions_keyed_def ex_ready_db_def small_epoch_def ex_session_def)
  have "Get (se_ref ex_session) ex_ready_db = Inr (ex_session\<lparr>se_state := StateReady\<rparr>)" by code_simp
  with start_opens_the_session [OF c k] c show ?thesis by (auto simp: ex_session_def)
qed

section \<open>What a resume hands over\<close>

lemma timingOf_own:
  assumes "timingOf s db = Inr (p, db')" and "sessions_keyed db" and "s \<in> set (db_sessions db)"
  shows "sessions_keyed db' \<and> db' = db\<lparr>db_sessions := db_sessions db'\<rparr>
    \<and> (\<exists>k. s\<lparr>se_timing := k\<rparr> \<in> set (db_sessions db'))
    \<and> (if se_timing s > 0 then TimingPolicyByVersion (se_timing s) db else CurrentTimingPolicy db) = Inr p"
proof (cases "se_timing s > 0")
  case True
  with assms(1) have "db' = db" "TimingPolicyByVersion (se_timing s) db = Inr p" by (auto simp: timingOf_def bindE_Inr)
  moreover have "\<exists>k. s\<lparr>se_timing := k\<rparr> \<in> set (db_sessions db)"
    by (rule exI [of _ "se_timing s"]) (simp add: assms(3))
  ultimately show ?thesis using assms(2) True by simp
next
  case False
  with assms(1) have p: "CurrentTimingPolicy db = Inr p" and st: "StampTimingPolicy s p db = Inr db'"
    by (auto simp: timingOf_def bindE_Inr)
  note own = StampTimingPolicy_own [OF st assms(2,3) refl]
  have "(if se_timing s = 0 then s\<lparr>se_timing := to_int32 (tp_version p)\<rparr> else s) \<in> set (db_sessions db')" using own by blast
  moreover have "s = s\<lparr>se_timing := se_timing s\<rparr>" by simp
  ultimately have "\<exists>k. s\<lparr>se_timing := k\<rparr> \<in> set (db_sessions db')" by metis
  with own p False show ?thesis by simp
qed

text \<open>Resuming hands over exactly what the server holds. When nobody interferes, a resume that succeeds was of
  a session with an interview in flight, and of a dropped one only up to the deadline of the timing policy
  it was stamped with; the session keeps its state and version and is one epoch further with its cursor at
  zero; the answer names the epoch taken over and the exact cursor and gaps of what that epoch holds; and
  from then on that epoch's connection is refused whole.\<close>

theorem resume_hands_over:
  assumes "Resume grants env ref db = (Inr rs, db')" and "still env" and "sessions_keyed db"
    and "\<forall>s \<in> set (db_sessions db). small_epoch s \<and> se_epoch s < 2147483647"
  shows "\<exists>s sc. Get ref db = Inr s \<and> resumable (se_state s) \<and> scope_of (se_ref s) = Some sc
    \<and> (if se_timing s > 0 then TimingPolicyByVersion (se_timing s) db else CurrentTimingPolicy db) = Inr (rs_timing rs)
    \<and> (se_state s = StateReconnecting \<longrightarrow> ce_now env 1 \<le> deadline s (rs_timing rs))
    \<and> Get ref db' = Inr (rs_session rs) \<and> se_state (rs_session rs) = se_state s \<and> se_version (rs_session rs) = se_version s
    \<and> se_epoch (rs_session rs) = se_epoch s + 1 \<and> se_accepted (rs_session rs) = 0
    \<and> rs_previous rs = se_epoch s
    \<and> (rs_accepted rs, rs_missing rs) = (if se_epoch s > 0 then cursor sc (se_id s) (se_epoch s) db else (0, []))
    \<and> (\<forall>old events iid now fenv. old \<noteq> se_epoch s + 1 \<longrightarrow> Ingest ref old events iid now fenv db' = (Inl EpochStale, db'))"
proof -
  from assms(1) obtain s where s: "Get ref db = Inr s" by (auto simp: Resume_def split: sum.splits)
  with assms(1,2) obtain p db1 where res: "resumable (se_state s)" and t: "timingOf s db = Inr (p, db1)"
    and intime: "se_state s = StateReconnecting \<longrightarrow> ce_now env 1 \<le> deadline s p"
    and take_over: "take_over grants env ref s p db1 = (Inr rs, db')"
    by (auto simp: Resume_def still_def Let_def split: sum.splits prod.splits if_splits)
  have mem: "s \<in> set (db_sessions db)" by (rule Get_mem [OF s])
  from timingOf_own [OF t assms(3) mem] obtain k where key1: "sessions_keyed db1" and db1: "db1 = db\<lparr>db_sessions := db_sessions db1\<rparr>"
    and mem1: "s\<lparr>se_timing := k\<rparr> \<in> set (db_sessions db1)"
    and policy: "(if se_timing s > 0 then TimingPolicyByVersion (se_timing s) db else CurrentTimingPolicy db) = Inr p" by blast
  have small: "small_epoch s" "se_epoch s < 2147483647" using assms(4) mem by simp_all
  from take_over assms(2) obtain acc missing epoch g where
    cur: "(if se_epoch s > 0 then CursorOf s (se_epoch s) db1 else Inr (0, [])) = Inr (acc, missing)"
    and b: "BeginAttempt s (ce_now env 3) db1 = Inr (epoch, db')" and get: "Get ref db' = Inr (rs_session rs)"
    and rs: "rs = \<lparr>rs_session = rs_session rs, rs_grant = g, rs_timing = p, rs_previous = se_epoch s, rs_accepted = acc, rs_missing = missing\<rparr>"
    by (auto simp: take_over_def still_def Let_def split: sum.splits prod.splits option.splits if_splits)
  have same: "BeginAttempt (s\<lparr>se_timing := k\<rparr>) (ce_now env 3) db1 = Inr (epoch, db')"
    using b by (cases "scope_of (se_ref s)") (simp_all add: BeginAttempt_def)
  let ?r = "s\<lparr>se_timing := k, se_epoch := epoch, se_accepted := 0\<rparr>"
  have "small_epoch (s\<lparr>se_timing := k\<rparr>)" "se_epoch (s\<lparr>se_timing := k\<rparr>) < 2147483647" using small by (simp_all add: small_epoch_def)
  note own = BeginAttempt_own [OF same key1 mem1 this]
  then have epoch: "epoch = se_epoch s + 1" by simp
  from own have key2: "sessions_keyed db'" and mem2: "?r \<in> set (db_sessions db')" by blast+
  from Get_keyed [OF s key2 mem2] get have r: "rs_session rs = ?r" by simp
  from b obtain sc where sc: "scope_of (se_ref s) = Some sc" by (auto simp: BeginAttempt_def split: option.splits)
  have "StoredSequences sc (se_id s) (se_epoch s) db1 = StoredSequences sc (se_id s) (se_epoch s) db"
    by (subst db1) (simp add: StoredSequences_def held_rows_def)
  then have "(acc, missing) = (if se_epoch s > 0 then cursor sc (se_id s) (se_epoch s) db else (0, []))"
    using cur sc by (auto simp: CursorOf_def cursor_def split: if_splits)
  moreover have "Ingest ref old events iid now fenv db' = (Inl EpochStale, db')" if "old \<noteq> se_epoch s + 1"
    for old events iid now fenv
  proof -
    have "\<exists>sc0. scope_of ref = Some sc0 \<and> get sc0 (ref_session ref) db' = Inr ?r"
      using get r by (auto simp: Get_def split: option.splits)
    then show ?thesis using that epoch small
      by (auto simp: Ingest_def ingest_def ingest_batch_def Let_def small_epoch_def split: prod.splits)
  qed
  moreover have "rs_timing rs = p" "rs_previous rs = se_epoch s" "rs_accepted rs = acc" "rs_missing rs = missing"
    by (subst rs, simp)+
  ultimately show ?thesis using s sc res policy intime get r epoch
    by (intro exI [of _ s] exI [of _ sc]) simp
qed

definition ex_dropped_db :: interview_db where
  "ex_dropped_db = empty_db\<lparr>db_sessions := [ex_session\<lparr>se_state := StateReconnecting, se_epoch := 1, se_timing := 1\<rparr>],
     db_policies := [ex_policy], db_events := [ex_control_row 1 ''e1'', ex_control_row 3 ''e3'']\<rparr>"

theorem resume_hands_over_witness:
  "\<exists>rs db'. Resume ex_grants ex_command (se_ref ex_session) ex_dropped_db = (Inr rs, db')
     \<and> rs_previous rs = 1 \<and> rs_accepted rs = 1 \<and> rs_missing rs = [(2, 2)] \<and> se_epoch (rs_session rs) = 2"
proof -
  let ?c = "Resume ex_grants ex_command (se_ref ex_session) ex_dropped_db"
  let ?s = "ex_session\<lparr>se_state := StateReconnecting, se_epoch := 1, se_timing := 1\<rparr>"
  have "is_ok (fst ?c)" by code_simp
  then obtain rs db' where c: "?c = (Inr rs, db')" by (metis is_ok_iff prod.collapse)
  have k: "still ex_command" "sessions_keyed ex_dropped_db"
    "\<forall>s \<in> set (db_sessions ex_dropped_db). small_epoch s \<and> se_epoch s < 2147483647"
    by (simp_all add: still_def ex_command_def sessions_keyed_def ex_dropped_db_def small_epoch_def ex_session_def)
  have g: "Get (se_ref ex_session) ex_dropped_db = Inr ?s" and sc: "scope_of (se_ref ?s) = Some (AsUser ''u1'')"
    and cur: "cursor (AsUser ''u1'') (se_id ?s) 1 ex_dropped_db = (1, [(2, 2)])" by code_simp+
  from resume_hands_over [OF c k] g sc cur c show ?thesis by auto
qed

section \<open>The window\<close>

lemma seal_frame: "seal s epoch q gaps digest media warnings input now db = Inr db' \<Longrightarrow> db_interruptions db' = db_interruptions db"
  by (auto simp: seal_def InsertSeal_def split: option.splits insert_result.splits if_splits)

lemma Transition_interruptions: "Transition s to ef actor eid now db = Inr (s', db') \<Longrightarrow> db_interruptions db' = db_interruptions db"
proof -
  assume t: "Transition s to ef actor eid now db = Inr (s', db')"
  from Transition_Inr [OF t] obtain rs bs evs aus where "transition_frame db db' rs bs evs aus" by blast
  then show ?thesis by (rule transition_frame_fields)
qed

lemma media_interruptions: "media_status cp s db = Inr (x, db') \<Longrightarrow> db_interruptions db' = db_interruptions db"
  using media_status_frame [of cp s db "fst x" "snd x" db'] by auto

lemma answer_receipt_keeps: "quiet env \<Longrightarrow> snd (answer_receipt env ref db) = db"
  by (simp add: answer_receipt_def quiet_def Let_def split: sum.splits)

lemma move_keeps:
  assumes "quiet env"
  shows "db_interruptions (snd (move_to_evaluating env ref s e actor db)) = db_interruptions db"
  using answer_receipt_keeps [OF assms] Transition_interruptions assms
  by (auto simp: move_to_evaluating_def quiet_def Let_def split: sum.splits interview_error.splits prod.splits)

lemma freeze_keeps:
  assumes "quiet env"
  shows "db_interruptions (snd (freeze cp env ref epoch q actor completion s db)) = db_interruptions db"
  using move_keeps [OF assms] seal_frame media_interruptions assms
  by (auto simp: freeze_def quiet_def Let_def split: sum.splits prod.splits)

lemma complete_keeps:
  assumes "quiet env"
  shows "db_interruptions (snd (complete cp env ref epoch q actor completion db)) = db_interruptions db"
  using freeze_keeps [OF assms] assms by (auto simp: complete_def quiet_def Let_def split: sum.splits)

text \<open>The expiries recorded of a session's epoch.\<close>

definition expiries :: "session \<Rightarrow> interview_db \<Rightarrow> interruption_row list" where
  "expiries s db = filter (\<lambda>f. ir_ref f = se_ref s \<and> ir_cause f = CauseGraceExpired \<and> ir_epoch f = se_epoch s) (db_interruptions db)"

lemma session_visible_interruption: "session_visible sc r \<Longrightarrow> interruption_visible sc r"
  by (auto simp: session_visible_def visible_def interruption_visible_def split: row_scope.splits)

lemma grace_recorded_expiries:
  assumes "Get ref db = Inr s" and "Interruptions ref db = Inr facts" and "expiries s db \<noteq> []"
  shows "grace_recorded s facts"
proof -
  from assms(1) obtain sc where sc: "scope_of ref = Some sc" and f: "find_session sc (ref_session ref) db = Some s"
    by (auto simp: Get_def get_def split: option.splits)
  from assms(3) obtain x where x: "x \<in> set (expiries s db)" by (cases "expiries s db") auto
  then have "x \<in> set (db_interruptions db)" "ir_ref x = se_ref s" "ir_cause x = CauseGraceExpired" "ir_epoch x = se_epoch s"
    by (simp_all add: expiries_def)
  moreover have "x \<in> set facts"
    using assms(2) sc find_session_Some [OF f] calculation session_visible_interruption by (auto simp: Interruptions_def)
  ultimately show ?thesis by (auto simp: grace_recorded_def)
qed

lemma grace_recorded_found:
  assumes "Interruptions ref db = Inr facts" and "grace_recorded s facts"
    and "\<forall>f \<in> set (db_interruptions db). ref_session (ir_ref f) = se_id s \<longrightarrow> ir_ref f = se_ref s"
    and "se_id s = ref_session ref"
  shows "expiries s db \<noteq> []"
proof -
  from assms(2) obtain f where f: "f \<in> set facts" "ir_cause f = CauseGraceExpired" "ir_epoch f = se_epoch s"
    by (auto simp: grace_recorded_def)
  with assms(1,4) have "f \<in> set (db_interruptions db)" "ref_session (ir_ref f) = se_id s"
    by (auto simp: Interruptions_def split: option.splits)
  with f assms(3) have "f \<in> set (expiries s db)" by (simp add: expiries_def)
  then show ?thesis by auto
qed

lemma RecordInterruption_Inr:
  assumes "RecordInterruption s cause d actor iid now db = Inr (r, db')" and "small_epoch s"
  shows "\<exists>x. db_interruptions db' = db_interruptions db @ [x] \<and> ir_ref x = se_ref s \<and> ir_cause x = cause
    \<and> ir_epoch x = se_epoch s \<and> db_seals db' = db_seals db"
proof -
  let ?d = "if d < 0 then 0 else d"
  from assms(1) obtain sc where rec: "recordInterruptionIn sc s cause ?d actor iid now db = Inr db'"
    by (auto simp: RecordInterruption_def Let_def bindE_Inr split: if_splits option.splits)
  from recordInterruptionIn_Inr [OF rec] assms(2) show ?thesis
    by (auto simp: batch_frame_def small_epoch_int32)
qed

lemma take_over_grace: "fst (take_over grants env ref s p db) \<noteq> Inl ResumeGraceExpired"
  by (auto simp: take_over_def CursorOf_def BeginAttempt_def InsertAttempt_def Get_def get_def Let_def bindE_Inl
      split: sum.splits prod.splits option.splits if_splits)

text \<open>The window of a dropped session closes once, and nobody is turned away before it does. For a session with
  a stamped policy: a resume is refused for the window exactly after its deadline; before the deadline the
  expiry leaves everything as it is; at or after it, an expiry that succeeds leaves the session sealed with
  exactly one recorded expiry of its epoch, however often it had been tried before; and the wait the check
  answers never outlasts the time left, but may fall short of it by less than a second.\<close>

theorem the_window_closes_once:
  assumes "Get ref db = Inr s" and "se_state s = StateReconnecting" and "se_timing s > 0"
    and "deadlineOf s db = Inr d" and "small_epoch s" and "quiet cenv" and "still env"
    and "\<bar>d - now\<bar> \<le> max_duration"
    and "\<forall>f \<in> set (db_interruptions db). ref_session (ir_ref f) = se_id s \<longrightarrow> ir_ref f = se_ref s"
  shows "(ce_now env 1 = now \<longrightarrow> (fst (Resume grants env ref db) = Inl ResumeGraceExpired \<longleftrightarrow> d < now))
    \<and> (now < d \<longrightarrow> ExpireGrace cp cenv ref who iid now db = (None, db))
    \<and> (d \<le> now \<longrightarrow> length (expiries s db) \<le> 1 \<longrightarrow>
         length (expiries s (snd (ExpireGrace cp cenv ref who iid now db))) \<le> 1)
    \<and> (\<forall>db'. d \<le> now \<longrightarrow> length (expiries s db) \<le> 1 \<longrightarrow> ExpireGrace cp cenv ref who iid now db = (None, db') \<longrightarrow>
         (\<exists>r \<in> set (db_seals db'). ref_session (sl_ref r) = se_id s) \<and> length (expiries s db') = 1)
    \<and> (\<exists>c. RemainingGrace ref now db = Inr c \<and> gc_reconnecting c
         \<and> (now \<le> d \<longrightarrow> now + gc_remaining c * second \<le> d \<and> d < now + (gc_remaining c + 1) * second))"
proof -
  obtain p where p: "TimingPolicyByVersion (se_timing s) db = Inr p" and d: "d = deadline s p"
    using assms(3,4) by (auto simp: deadlineOf_def bindE_Inr)
  have id: "se_id s = ref_session ref" by (rule Get_id [OF assms(1)])
  have quiet: "cx_others cenv = (\<lambda>_ db. db)" and still: "ce_others env = (\<lambda>_ db. db)"
    using assms(6,7) by (simp_all add: quiet_def still_def)
  have resume: "fst (Resume grants env ref db) = Inl ResumeGraceExpired \<longleftrightarrow> d < now" if "ce_now env 1 = now"
    using take_over_grace [of grants env ref s p db] that assms(1-3) p
    by (auto simp: Resume_def still resumable_def timingOf_def Let_def d simp del: One_nat_def)
  have early: "ExpireGrace cp cenv ref who iid now db = (None, db)" if "now < d"
    using that assms(1,2,4) by (simp add: ExpireGrace_def quiet Let_def)
  let ?actor = "\<lparr>ac_id = who, ac_type = ''service''\<rparr>"
  let ?gone = "time_sub now (se_changed_at s) div second"
  have expire: "ExpireGrace cp cenv ref who iid now db =
      (case Interruptions ref db of Inl e \<Rightarrow> (Some e, db)
       | Inr facts \<Rightarrow> (if grace_recorded s facts then expire_sealed cp cenv ref s ?actor db
           else case RecordInterruption s CauseGraceExpired ?gone ?actor iid now db of
             Inl e \<Rightarrow> (Some e, db) | Inr (_, db') \<Rightarrow> expire_sealed cp cenv ref s ?actor db'))" if "d \<le> now"
    using that assms(1,2,4) by (simp add: ExpireGrace_def quiet Let_def)
  have sealed: "db_interruptions (snd (expire_sealed cp cenv ref s ?actor x)) = db_interruptions x" for x
    using complete_keeps [OF assms(6), of cp ref "se_epoch s" "se_accepted s" ?actor "''expired''" x]
    by (auto simp: expire_sealed_def quiet split: sum.splits prod.splits)
  have once: "length (expiries s (snd (ExpireGrace cp cenv ref who iid now db))) \<le> 1"
    if late: "d \<le> now" and few: "length (expiries s db) \<le> 1"
  proof (cases "Interruptions ref db")
    case (Inl e)
    with few show ?thesis by (simp add: expire [OF late])
  next
    case (Inr facts)
    show ?thesis
    proof (cases "grace_recorded s facts")
      case True
      with Inr few sealed show ?thesis by (simp add: expire [OF late] expiries_def)
    next
      case False
      with grace_recorded_expiries [OF assms(1) Inr] have none: "expiries s db = []" by blast
      show ?thesis
      proof (cases "RecordInterruption s CauseGraceExpired ?gone ?actor iid now db")
        case inl: (Inl e)
        with Inr False few show ?thesis by (simp add: expire [OF late])
      next
        case inr: (Inr y)
        obtain r db1 where y: "y = (r, db1)" by (cases y)
        from RecordInterruption_Inr [OF inr [unfolded y] assms(5)] obtain x where
          "db_interruptions db1 = db_interruptions db @ [x]" by blast
        then have "length (expiries s db1) \<le> 1" using none by (simp add: expiries_def)
        with Inr False inr y sealed show ?thesis by (simp add: expire [OF late] expiries_def)
      qed
    qed
  qed
  have seals: "\<exists>r \<in> set (db_seals db'). ref_session (sl_ref r) = se_id s"
    if late: "d \<le> now" and ok: "ExpireGrace cp cenv ref who iid now db = (None, db')" for db'
  proof -
    from ok obtain x where "expire_sealed cp cenv ref s ?actor x = (None, db')"
      by (auto simp: expire [OF late] split: sum.splits if_splits prod.splits)
    then obtain rc where c: "complete cp cenv ref (se_epoch s) (se_accepted s) ?actor ''expired'' x = (Inr rc, db')"
      by (auto simp: expire_sealed_def quiet split: sum.splits prod.splits)
    from complete_row [of ref cp cenv "se_epoch s" "se_accepted s" ?actor "''expired''" x] c id show ?thesis
      by (auto simp: answers_row_def)
  qed
  have kept: "length (expiries s db') = 1" if late: "d \<le> now" and few: "length (expiries s db) \<le> 1"
    and ok: "ExpireGrace cp cenv ref who iid now db = (None, db')" for db'
  proof -
    from ok obtain facts where facts: "Interruptions ref db = Inr facts" by (auto simp: expire [OF late] split: sum.splits)
    show ?thesis
    proof (cases "grace_recorded s facts")
      case True
      with ok facts have "expire_sealed cp cenv ref s ?actor db = (None, db')" by (simp add: expire [OF late])
      with sealed [of db] have "expiries s db' = expiries s db" by (simp add: expiries_def)
      moreover from grace_recorded_found [OF facts True assms(9) id] have "expiries s db \<noteq> []" .
      ultimately show ?thesis using few by (cases "expiries s db") auto
    next
      case False
      with ok facts obtain r db1 where rec: "RecordInterruption s CauseGraceExpired ?gone ?actor iid now db = Inr (r, db1)"
        and fin: "expire_sealed cp cenv ref s ?actor db1 = (None, db')" by (auto simp: expire [OF late] split: sum.splits prod.splits)
      from RecordInterruption_Inr [OF rec assms(5)] have "expiries s db1 \<noteq> []" by (auto simp: expiries_def)
      moreover from sealed [of db1] fin have "expiries s db' = expiries s db1" by (simp add: expiries_def)
      ultimately have "expiries s db' \<noteq> []" by simp
      with once [OF late few] ok show ?thesis by (cases "expiries s db'") auto
    qed
  qed
  have wait: "\<exists>c. RemainingGrace ref now db = Inr c \<and> gc_reconnecting c
      \<and> (now \<le> d \<longrightarrow> now + gc_remaining c * second \<le> d \<and> d < now + (gc_remaining c + 1) * second)"
    using assms(1,2,4) time_sub_exact [OF assms(8)]
    by (auto simp: RemainingGrace_def second_def max_def)
  from resume early once seals kept wait show ?thesis by blast
qed

definition ex_dropped :: session where
  "ex_dropped = ex_session\<lparr>se_state := StateReconnecting, se_epoch := 1, se_timing := 1\<rparr>"

theorem the_window_closes_once_witness:
  "fst (Resume ex_grants (ex_command\<lparr>ce_now := (\<lambda>_. 120000000006)\<rparr>) (se_ref ex_session) ex_dropped_db) = Inl ResumeGraceExpired
   \<and> length (expiries ex_dropped (snd (ExpireGrace ex_completer ex_env (se_ref ex_session) ''u1'' ''i1'' 120000000006 ex_dropped_db))) = 1"
proof -
  have g: "Get (se_ref ex_session) ex_dropped_db = Inr ex_dropped" and st: "se_state ex_dropped = StateReconnecting"
    and t: "se_timing ex_dropped > 0" and d: "deadlineOf ex_dropped ex_dropped_db = Inr 120000000005"
    and few: "length (expiries ex_dropped ex_dropped_db) \<le> 1" and none: "db_interruptions ex_dropped_db = []"
    and run: "fst (ExpireGrace ex_completer ex_env (se_ref ex_session) ''u1'' ''i1'' 120000000006 ex_dropped_db) = None"
    by code_simp+
  have k: "small_epoch ex_dropped" "quiet ex_env" "still (ex_command\<lparr>ce_now := (\<lambda>_. 120000000006)\<rparr>)"
    "\<bar>120000000005 - 120000000006 :: int\<bar> \<le> max_duration"
    by (simp_all add: small_epoch_def ex_dropped_def quiet_def ex_env_def still_def ex_command_def max_duration_def)
  have i: "\<forall>f \<in> set (db_interruptions ex_dropped_db). ref_session (ir_ref f) = se_id ex_dropped \<longrightarrow> ir_ref f = se_ref ex_dropped"
    using none by simp
  obtain db' where e: "ExpireGrace ex_completer ex_env (se_ref ex_session) ''u1'' ''i1'' 120000000006 ex_dropped_db = (None, db')"
    using run by (metis prod.collapse)
  from the_window_closes_once [OF g st t d k i, of ex_grants ex_completer "''u1''" "''i1''"] few e show ?thesis by simp
qed

text \<open>
  The check answers whole seconds and the expiry refuses to act before the deadline: a timer that waits
  exactly as long as it was told, and acts within what the seconds cut off, finds the window open, leaves
  the session reconnecting and ends.
\<close>

lemma truncated_wait_stands_down:
  "GraceWorkflow ex_completer (se_ref ex_session) ''u1'' [(600000005, id)]
     [\<lparr>xa_completion = ex_env, xa_interruption = ''i1'', xa_now = 119700000005, xa_before = id\<rparr>] ex_dropped_db
   = (None, ex_dropped_db)"
proof -
  have c: "RemainingGrace (se_ref ex_session) 600000005 ex_dropped_db = Inr \<lparr>gc_reconnecting = True, gc_remaining = 119\<rparr>"
    by code_simp
  have e: "ExpireGrace ex_completer ex_env (se_ref ex_session) ''u1'' ''i1'' 119700000005 ex_dropped_db = (None, ex_dropped_db)"
    by (simp add: ExpireGrace_def ex_env_def Let_def) code_simp
  show ?thesis by (simp add: GraceWorkflow_def GraceAttempts_def eval_nat_numeral c e)
qed

end
