(* ===== verification/Composition.thy ===== *)
theory Composition
  imports Session_Store
begin

text \<open>
  \<open>services/platform/internal/interview/workflow.go\<close>: the durable path from composing to ready.  The workflow
  runs its activities under a retry policy of five attempts; an attempt that commits may still be lost with
  its worker, and is then run again.  The answers of the composer, the losses, the clock and what others do
  before an attempt's transactions are its environment.  The type the workflow SDK gives an error that is
  not an application error is an argument: it is a function of the error's Go type.
\<close>

section \<open>Asking the composer\<close>

record compose_result =
  cr_ref :: string
  cr_digest :: string
  cr_revision :: int
  cr_body :: string

text \<open>A typed refusal has a code and says whether trying again could help; any other error has a Go type.\<close>

datatype compose_answer =
    Composed compose_result
  | ComposeFailure string bool
  | ComposeError string
  | ComposeTimeout

datatype go_error_type = ComposeFailureType | OtherErrorType string

datatype activity_error = ApplicationError string bool | ActivityTimeout

definition Compose :: "(go_error_type \<Rightarrow> string) \<Rightarrow> compose_answer \<Rightarrow> activity_error + compose_result" where
  "Compose sdk answer =
     (case answer of
        Composed r \<Rightarrow> Inr r
      | ComposeFailure code retryable \<Rightarrow>
          Inl (if \<not> retryable then ApplicationError code True else ApplicationError (sdk ComposeFailureType) False)
      | ComposeError t \<Rightarrow> Inl (ApplicationError (sdk (OtherErrorType t)) False)
      | ComposeTimeout \<Rightarrow> Inl ActivityTimeout)"

definition tried_again :: "activity_error + compose_result \<Rightarrow> bool" where
  "tried_again r = (case r of Inr _ \<Rightarrow> False | Inl (ApplicationError _ final) \<Rightarrow> \<not> final | Inl ActivityTimeout \<Rightarrow> True)"

definition failure_code :: "activity_error \<Rightarrow> string" where
  "failure_code e =
     (case e of
        ApplicationError t _ \<Rightarrow> (if t \<noteq> '''' then t else ''COMPOSITION_FAILED'')
      | ActivityTimeout \<Rightarrow> ''COMPOSITION_FAILED'')"

section \<open>Recording what came of it\<close>

text \<open>One attempt at recording: what others do before its read and before its transition, and whether its
  answer is lost.\<close>

record mark_attempt =
  ma_now :: time
  ma_event :: string
  ma_before :: "interview_db \<Rightarrow> interview_db"
  ma_between :: "interview_db \<Rightarrow> interview_db"
  ma_lost :: bool

definition ready_effects :: "session \<Rightarrow> actor \<Rightarrow> compose_result \<Rightarrow> effects" where
  "ready_effects s actor r =
     (let ef = \<lparr>ef_bundle_ref = cr_ref r, ef_bundle_digest = cr_digest r, ef_bundle_revision = cr_revision r,
                ef_body = cr_body r, ef_failure = '''', ef_event = None\<rparr> in
      ef\<lparr>ef_event := Some (ReadyEvent s ef actor)\<rparr>)"

definition service :: "string \<Rightarrow> actor" where
  "service i = \<lparr>ac_id = i, ac_type = ''service''\<rparr>"

definition MarkReady ::
  "session_ref \<Rightarrow> string \<Rightarrow> compose_result \<Rightarrow> mark_attempt \<Rightarrow> interview_db \<Rightarrow> interview_error option \<times> interview_db" where
  "MarkReady ref actor_id result att db =
     (let db0 = ma_before att db; db1 = ma_between att db0 in
      case Get ref db0 of
        Inl e \<Rightarrow> (Some e, db0)
      | Inr s \<Rightarrow>
          (if se_state s = StateReady \<and> se_bundle_digest s = cr_digest result then (None, db0)
           else case Transition s StateReady (ready_effects s (service actor_id) result) (service actor_id)
                  (ma_event att) (ma_now att) db1 of
             Inl e \<Rightarrow> (Some e, db1) | Inr (_, db2) \<Rightarrow> (None, db2)))"

definition MarkFailed ::
  "session_ref \<Rightarrow> string \<Rightarrow> string \<Rightarrow> mark_attempt \<Rightarrow> interview_db \<Rightarrow> interview_error option \<times> interview_db" where
  "MarkFailed ref actor_id code att db =
     (let db0 = ma_before att db; db1 = ma_between att db0 in
      case Get ref db0 of
        Inl e \<Rightarrow> (Some e, db0)
      | Inr s \<Rightarrow>
          (if se_state s = StateCompositionFailed then (None, db0)
           else case Transition s StateCompositionFailed (no_effects\<lparr>ef_failure := code\<rparr>) (service actor_id)
                  (ma_event att) (ma_now att) db1 of
             Inl e \<Rightarrow> (Some e, db1) | Inr (_, db2) \<Rightarrow> (None, db2)))"

section \<open>The workflow\<close>

definition ActivityAttempts :: nat where "ActivityAttempts = 5"

definition attempted ::
  "(mark_attempt \<Rightarrow> interview_db \<Rightarrow> interview_error option \<times> interview_db) \<Rightarrow> mark_attempt \<Rightarrow> interview_db
     \<Rightarrow> interview_error option \<times> interview_db" where
  "attempted activity att db =
     (case activity att db of (r, db') \<Rightarrow> (if ma_lost att then Some (Unavailable ''worker lost'') else r, db'))"

text \<open>The last attempt answers for the activity.\<close>

definition execute ::
  "(mark_attempt \<Rightarrow> interview_db \<Rightarrow> interview_error option \<times> interview_db) \<Rightarrow> mark_attempt list \<Rightarrow> interview_db
     \<Rightarrow> interview_error option \<times> interview_db" where
  "execute activity marks db =
     (case retry (attempted activity) (\<lambda>r. r \<noteq> None) ActivityAttempts marks db of
        (rs, db') \<Rightarrow> (if rs = [] then Some (Unavailable ''no attempt'') else last rs, db'))"

text \<open>Composing touches no table.\<close>

definition asked :: "(go_error_type \<Rightarrow> string) \<Rightarrow> compose_answer list \<Rightarrow> (activity_error + compose_result) list" where
  "asked sdk answers = fst (retry (\<lambda>a u. (Compose sdk a, u)) tried_again ActivityAttempts answers ())"

datatype composition_answer = ComposedReady | CompositionRefused activity_error | NotRecorded interview_error

definition CompositionWorkflow ::
  "(go_error_type \<Rightarrow> string) \<Rightarrow> session_ref \<Rightarrow> string \<Rightarrow> compose_answer list \<Rightarrow> mark_attempt list \<Rightarrow> interview_db
     \<Rightarrow> composition_answer \<times> interview_db" where
  "CompositionWorkflow sdk ref actor_id answers marks db =
     (case asked sdk answers of
        [] \<Rightarrow> (NotRecorded (Unavailable ''no attempt''), db)
      | o1 # os \<Rightarrow>
          (case last (o1 # os) of
             Inr result \<Rightarrow>
               (case execute (MarkReady ref actor_id result) marks db of
                  (None, db') \<Rightarrow> (ComposedReady, db') | (Some e, db') \<Rightarrow> (NotRecorded e, db'))
           | Inl err \<Rightarrow>
               (case execute (MarkFailed ref actor_id (failure_code err)) marks db of
                  (None, db') \<Rightarrow> (CompositionRefused err, db') | (Some e, db') \<Rightarrow> (NotRecorded e, db'))))"

section \<open>Activities that settle\<close>

text \<open>
  The contract that makes an activity safe to run again: an attempt either changes nothing or settles the
  matter in one move, and once it is settled an attempt changes nothing and succeeds.
\<close>

definition quiet_attempt :: "mark_attempt \<Rightarrow> bool" where
  "quiet_attempt att \<longleftrightarrow> ma_before att = (\<lambda>db. db) \<and> ma_between att = (\<lambda>db. db)"

lemma attempted_by:
  "activity att db = (r, db') \<Longrightarrow>
     attempted activity att db = (if ma_lost att then Some (Unavailable ''worker lost'') else r, db')"
  by (simp add: attempted_def)

locale settling_activity =
  fixes activity :: "mark_attempt \<Rightarrow> interview_db \<Rightarrow> interview_error option \<times> interview_db"
    and ok :: "interview_db \<Rightarrow> bool"
    and settled :: "interview_db \<Rightarrow> bool"
    and moved :: "mark_attempt \<Rightarrow> interview_db \<Rightarrow> interview_db \<Rightarrow> bool"
  assumes first: "quiet_attempt att \<Longrightarrow> ok db \<Longrightarrow> activity att db = (r, db') \<Longrightarrow>
      (db' = db \<and> (r = None \<longrightarrow> settled db)) \<or> (moved att db db' \<and> settled db')"
    and again: "quiet_attempt att \<Longrightarrow> settled db \<Longrightarrow> activity att db = (None, db)"
begin

lemma retry_settled:
  assumes "settled db" and "\<forall>att \<in> set marks. quiet_attempt att"
  shows "snd (retry (attempted activity) p n marks db) = db"
  using assms
proof (induction n arbitrary: marks)
  case (Suc n)
  show ?case
  proof (cases marks)
    case (Cons att marks')
    with Suc.prems have "attempted activity att db = (if ma_lost att then Some (Unavailable ''worker lost'') else None, db)"
      by (intro attempted_by again) simp_all
    with Suc.IH [OF Suc.prems(1), of marks'] Suc.prems(2) show ?thesis by (auto simp: Cons split: prod.splits)
  qed simp
qed simp

lemma retry_once:
  assumes "ok db" and "\<forall>att \<in> set marks. quiet_attempt att"
    and "retry (attempted activity) (\<lambda>r. r \<noteq> None) n marks db = (rs, db')"
  shows "(db' = db \<or> ((\<exists>att \<in> set marks. moved att db db') \<and> settled db'))
    \<and> (rs \<noteq> [] \<longrightarrow> last rs = None \<longrightarrow> settled db')"
  using assms
proof (induction n arbitrary: marks rs)
  case (Suc n)
  show ?case
  proof (cases marks)
    case (Cons att marks')
    have q: "quiet_attempt att" "\<forall>a \<in> set marks'. quiet_attempt a" using Suc.prems(2) Cons by simp_all
    obtain r db1 where act: "activity att db = (r, db1)" by (cases "activity att db")
    let ?r = "if ma_lost att then Some (Unavailable ''worker lost'') else r"
    note att = attempted_by [of activity, OF act]
    from first [OF q(1) Suc.prems(1) act] consider
        (kept) "db1 = db" "r = None \<longrightarrow> settled db" | (moved) "moved att db db1" "settled db1" by blast
    then show ?thesis
    proof cases
      case kept
      show ?thesis
      proof (cases "?r = None")
        case True
        with Suc.prems(3) Cons kept show ?thesis by (auto simp: att split: if_splits)
      next
        case False
        then obtain rs' where rest: "retry (attempted activity) (\<lambda>r. r \<noteq> None) n marks' db = (rs', db')"
          and rs: "rs = ?r # rs'"
          using Suc.prems(3) by (auto simp: Cons att kept(1) split: prod.splits if_splits)
        from Suc.IH [OF Suc.prems(1) q(2) rest] rs False show ?thesis by (auto simp: Cons split: if_splits)
      qed
    next
      case moved
      have "db' = db1"
        using Suc.prems(3) retry_settled [OF moved(2) q(2)]
        by (auto simp: Cons att split: prod.splits if_splits) (metis snd_conv)+
      with moved show ?thesis by (auto simp: Cons)
    qed
  qed (use Suc.prems in auto)
qed simp

lemma execute_once:
  assumes "ok db" and "\<forall>att \<in> set marks. quiet_attempt att" and "execute activity marks db = (r, db')"
  shows "(db' = db \<or> ((\<exists>att \<in> set marks. moved att db db') \<and> settled db')) \<and> (r = None \<longrightarrow> settled db')"
proof -
  obtain rs where run: "retry (attempted activity) (\<lambda>r. r \<noteq> None) ActivityAttempts marks db = (rs, db')"
    and r: "r = (if rs = [] then Some (Unavailable ''no attempt'') else last rs)"
    using assms(3) by (auto simp: execute_def split: prod.splits)
  from retry_once [OF assms(1,2) run] r show ?thesis by auto
qed

end

lemma find_session_only:
  assumes "sessions_keyed db" and "s \<in> set (db_sessions db)" and "session_visible sc (se_ref s)"
  shows "find_session sc (se_id s) db = Some s"
proof -
  obtain x where x: "find_session sc (se_id s) db = Some x"
    using assms(2,3) by (cases "find_session sc (se_id s) db") (auto simp: find_session_def find_None_iff)
  from find_session_Some [OF x] keyed_unique [OF assms(1) _ assms(2)] have "x = s" by blast
  with x show ?thesis by simp
qed

text \<open>What a caller reads after moving the session it had read.\<close>

lemma Get_after_Transition:
  assumes "sessions_keyed db" and "Get ref db = Inr s" and "Transition s to ef actor eid now db = Inr (s', db')"
  shows "Get ref db' = Inr s' \<and> s' = transitioned to ef now s"
proof -
  from assms(2) obtain sc where sc: "scope_of ref = Some sc" and found: "find_session sc (ref_session ref) db = Some s"
    by (auto simp: Get_def get_def split: option.splits)
  from find_session_Some [OF found] have s: "s \<in> set (db_sessions db)" "se_id s = ref_session ref"
    and vis: "session_visible sc (se_ref s)" by auto
  from Transition_row [OF assms(1,3)] obtain sc' r where r: "r \<in> set (db_sessions db)" "read_row sc' s r"
    and s': "s' = transitioned to ef now r" and rows: "db_sessions db' = map (\<lambda>x. if x = r then s' else x) (db_sessions db)"
    by blast
  have "r = s" using keyed_unique [OF assms(1) r(1) s(1)] r(2) by (simp add: read_row_def)
  with s' r(1) rows have t: "s' = transitioned to ef now s" and "s' \<in> set (db_sessions db')" by auto
  with find_session_only [OF Transition_keyed [OF assms(1,3)], of s' sc] vis
  have "find_session sc (se_id s') db' = Some s'" by simp
  with t s(2) sc show ?thesis by (simp add: Get_def get_def)
qed

section \<open>Composition happens once\<close>

definition stands_at :: "session_ref \<Rightarrow> (session \<Rightarrow> bool) \<Rightarrow> interview_db \<Rightarrow> bool" where
  "stands_at ref p db \<longleftrightarrow> (\<exists>s. Get ref db = Inr s \<and> p s)"

definition moved_by ::
  "session_ref \<Rightarrow> string \<Rightarrow> (session \<Rightarrow> state \<times> effects) \<Rightarrow> mark_attempt \<Rightarrow> interview_db \<Rightarrow> interview_db \<Rightarrow> bool" where
  "moved_by ref actor_id what att db db' \<longleftrightarrow>
     (\<exists>s to ef. Get ref db = Inr s \<and> what s = (to, ef)
        \<and> Transition s to ef (service actor_id) (ma_event att) (ma_now att) db = Inr (transitioned to ef (ma_now att) s, db'))"

definition is_ready :: "compose_result \<Rightarrow> session \<Rightarrow> bool" where
  "is_ready result s \<longleftrightarrow> se_state s = StateReady \<and> se_bundle_digest s = cr_digest result"

definition has_failed :: "session \<Rightarrow> bool" where
  "has_failed s \<longleftrightarrow> se_state s = StateCompositionFailed"

lemma MarkReady_quiet:
  "quiet_attempt att \<Longrightarrow> MarkReady ref a result att db =
     (case Get ref db of
        Inl e \<Rightarrow> (Some e, db)
      | Inr s \<Rightarrow>
          (if is_ready result s then (None, db)
           else case Transition s StateReady (ready_effects s (service a) result) (service a) (ma_event att) (ma_now att) db of
             Inl e \<Rightarrow> (Some e, db) | Inr (_, db2) \<Rightarrow> (None, db2)))"
  by (simp add: MarkReady_def quiet_attempt_def is_ready_def split: sum.split)

lemma MarkFailed_quiet:
  "quiet_attempt att \<Longrightarrow> MarkFailed ref a code att db =
     (case Get ref db of
        Inl e \<Rightarrow> (Some e, db)
      | Inr s \<Rightarrow>
          (if has_failed s then (None, db)
           else case Transition s StateCompositionFailed (no_effects\<lparr>ef_failure := code\<rparr>) (service a) (ma_event att)
                  (ma_now att) db of
             Inl e \<Rightarrow> (Some e, db) | Inr (_, db2) \<Rightarrow> (None, db2)))"
  by (simp add: MarkFailed_def quiet_attempt_def has_failed_def split: sum.split)

interpretation ready: settling_activity "MarkReady ref a result"
  "\<lambda>db. sessions_keyed db \<and> cr_digest result \<noteq> ''''" "stands_at ref (is_ready result)"
  "moved_by ref a (\<lambda>s. (StateReady, ready_effects s (service a) result))" for ref a result
proof
  fix att db r db'
  assume q: "quiet_attempt att" and ok: "sessions_keyed db \<and> cr_digest result \<noteq> ''''"
    and act: "MarkReady ref a result att db = (r, db')"
  show "db' = db \<and> (r = None \<longrightarrow> stands_at ref (is_ready result) db) \<or>
    moved_by ref a (\<lambda>s. (StateReady, ready_effects s (service a) result)) att db db' \<and> stands_at ref (is_ready result) db'"
  proof (cases "Get ref db")
    case (Inr s)
    let ?ef = "ready_effects s (service a) result"
    show ?thesis
    proof (cases "is_ready result s")
      case False
      let ?t = "Transition s StateReady ?ef (service a) (ma_event att) (ma_now att) db"
      show ?thesis
      proof (cases ?t)
        case t: (Inr p)
        obtain s' db2 where p: "p = (s', db2)" by (cases p)
        note g = Get_after_Transition [OF conjunct1 [OF ok] Inr t [unfolded p]]
        have "db' = db2" using act False t p Inr by (simp add: MarkReady_quiet [OF q])
        moreover have "is_ready result s'" using g ok
          by (simp add: is_ready_def) (simp add: transitioned_def ready_effects_def Let_def)
        ultimately show ?thesis using g t p Inr by (auto simp: moved_by_def stands_at_def)
      qed (use act False Inr in \<open>auto simp: MarkReady_quiet [OF q]\<close>)
    qed (use act Inr in \<open>auto simp: MarkReady_quiet [OF q] stands_at_def\<close>)
  qed (use act in \<open>auto simp: MarkReady_quiet [OF q]\<close>)
qed (auto simp: MarkReady_quiet stands_at_def)

interpretation failed: settling_activity "MarkFailed ref a code" sessions_keyed "stands_at ref has_failed"
  "moved_by ref a (\<lambda>s. (StateCompositionFailed, no_effects\<lparr>ef_failure := code\<rparr>))" for ref a code
proof
  fix att db r db'
  assume q: "quiet_attempt att" and ok: "sessions_keyed db" and act: "MarkFailed ref a code att db = (r, db')"
  show "db' = db \<and> (r = None \<longrightarrow> stands_at ref has_failed db) \<or>
    moved_by ref a (\<lambda>s. (StateCompositionFailed, no_effects\<lparr>ef_failure := code\<rparr>)) att db db' \<and> stands_at ref has_failed db'"
  proof (cases "Get ref db")
    case (Inr s)
    show ?thesis
    proof (cases "has_failed s")
      case False
      let ?t = "Transition s StateCompositionFailed (no_effects\<lparr>ef_failure := code\<rparr>) (service a) (ma_event att) (ma_now att) db"
      show ?thesis
      proof (cases ?t)
        case t: (Inr p)
        obtain s' db2 where p: "p = (s', db2)" by (cases p)
        note g = Get_after_Transition [OF ok Inr t [unfolded p]]
        have "db' = db2" using act False t p Inr by (simp add: MarkFailed_quiet [OF q])
        with g t p Inr show ?thesis by (auto simp: moved_by_def stands_at_def has_failed_def)
      qed (use act False Inr in \<open>auto simp: MarkFailed_quiet [OF q]\<close>)
    qed (use act Inr in \<open>auto simp: MarkFailed_quiet [OF q] stands_at_def\<close>)
  qed (use act in \<open>auto simp: MarkFailed_quiet [OF q]\<close>)
qed (auto simp: MarkFailed_quiet stands_at_def)

lemma retry_answers:
  "set (fst (retry (\<lambda>a u. (f a, u)) p n xs u)) \<subseteq> f ` set xs"
proof (induction n arbitrary: xs)
  case (Suc n)
  then show ?case by (cases xs) (auto split: prod.splits, metis fst_conv image_iff subsetD)
qed simp

lemma composer_asked: "asked sdk answers = o1 # os \<Longrightarrow> last (o1 # os) \<in> Compose sdk ` set answers"
  using retry_answers [of "Compose sdk" tried_again ActivityAttempts answers "()"] last_in_set [of "o1 # os"]
  by (auto simp: asked_def simp del: last.simps)

lemma own_code:
  assumes "asked sdk (ComposeFailure code False # rest) = o1 # os" and "last (o1 # os) = Inl err" and "code \<noteq> ''''"
  shows "failure_code err = code"
proof -
  have "asked sdk (ComposeFailure code False # rest) = [Inl (ApplicationError code True)]"
    by (simp add: asked_def ActivityAttempts_def eval_nat_numeral Compose_def tried_again_def)
  with assms show ?thesis by (auto simp: failure_code_def)
qed

lemma Compose_Inr: "Compose sdk a = Inr r \<longleftrightarrow> a = Composed r"
  by (cases a) (auto simp: Compose_def)

lemma moves_once:
  assumes "db1 = db \<or> (\<exists>att \<in> set marks. moved_by ref actor_id (\<lambda>s. (to, f s)) att db db1)" and "to \<in> tos"
  shows "db1 = db \<or> (\<exists>s att to ef. Get ref db = Inr s \<and> att \<in> set marks \<and> to \<in> tos
    \<and> Transition s to ef (service actor_id) (ma_event att) (ma_now att) db = Inr (transitioned to ef (ma_now att) s, db1))"
proof (cases "db1 = db")
  case False
  with assms(1) obtain att s where "att \<in> set marks" "Get ref db = Inr s"
    "Transition s to (f s) (service actor_id) (ma_event att) (ma_now att) db = Inr (transitioned to (f s) (ma_now att) s, db1)"
    by (auto simp: moved_by_def)
  with assms(2) show ?thesis by blast
qed simp

lemma moved_failure:
  assumes "sessions_keyed db" and "moved_by ref a (\<lambda>s. (to, no_effects\<lparr>ef_failure := code\<rparr>)) att db db1"
    and "Get ref db1 = Inr s"
  shows "se_failure s = code"
proof -
  let ?ef = "no_effects\<lparr>ef_failure := code\<rparr>"
  from assms(2) obtain s0 where s0: "Get ref db = Inr s0"
    and t: "Transition s0 to ?ef (service a) (ma_event att) (ma_now att) db = Inr (transitioned to ?ef (ma_now att) s0, db1)"
    by (auto simp: moved_by_def)
  from Get_after_Transition [OF assms(1) s0 t] assms(3) have "s = transitioned to ?ef (ma_now att) s0" by simp
  then show ?thesis by (simp add: transitioned_def)
qed

text \<open>However often its worker dies, a composition changes the session once.  The workflow leaves the database
  as it was or makes exactly one transition of the session the caller named, to ready or to failed, with its
  event, bundle and audit row, even where attempts that had committed were lost and run again.  When it
  answers success the session is ready with the digest of a bundle the composer answered; when it answers
  the refusal, the session has failed with the code of that refusal; and a refusal that is not to be retried
  is recorded under its own code.\<close>

theorem composition_happens_once:
  assumes "sessions_keyed db" and "\<forall>att \<in> set marks. quiet_attempt att"
    and "\<forall>r. Composed r \<in> set answers \<longrightarrow> cr_digest r \<noteq> ''''"
    and "CompositionWorkflow sdk ref actor_id answers marks db = (answer, db')"
  shows "(db' = db \<or> (\<exists>s att to ef. Get ref db = Inr s \<and> att \<in> set marks \<and> to \<in> {StateReady, StateCompositionFailed}
          \<and> Transition s to ef (service actor_id) (ma_event att) (ma_now att) db
              = Inr (transitioned to ef (ma_now att) s, db')))
    \<and> (answer = ComposedReady \<longrightarrow> (\<exists>s r. Get ref db' = Inr s \<and> se_state s = StateReady
          \<and> Composed r \<in> set answers \<and> se_bundle_digest s = cr_digest r))
    \<and> (\<forall>err. answer = CompositionRefused err \<longrightarrow> (\<exists>s. Get ref db' = Inr s \<and> se_state s = StateCompositionFailed
          \<and> (db' \<noteq> db \<longrightarrow> se_failure s = failure_code err)
          \<and> (\<forall>code rest. answers = ComposeFailure code False # rest \<longrightarrow> code \<noteq> '''' \<longrightarrow> failure_code err = code)))"
proof (cases "asked sdk answers")
  case Nil
  with assms(4) show ?thesis by (auto simp: CompositionWorkflow_def)
next
  case (Cons o1 os)
  note out = composer_asked [OF Cons]
  show ?thesis
  proof (cases "last (o1 # os)")
    case (Inr result)
    with out have r: "Composed result \<in> set answers" by (force simp: Compose_Inr dest: sym)
    obtain a db1 where run: "execute (MarkReady ref actor_id result) marks db = (a, db1)" by (cases "execute (MarkReady ref actor_id result) marks db")
    from assms(4) have ans: "db' = db1" "answer = (case a of None \<Rightarrow> ComposedReady | Some e \<Rightarrow> NotRecorded e)"
      by (auto simp: CompositionWorkflow_def Cons Inr run simp del: last.simps split: option.splits)
    have once: "db1 = db \<or> (\<exists>att \<in> set marks. moved_by ref actor_id (\<lambda>s. (StateReady, ready_effects s (service actor_id) result)) att db db1)"
      and fin: "a = None \<longrightarrow> stands_at ref (is_ready result) db1"
      using ready.execute_once [OF conjI [OF assms(1)] assms(2) run] assms(3) r by blast+
    have "db1 = db \<or> (\<exists>s att to ef. Get ref db = Inr s \<and> att \<in> set marks \<and> to \<in> {StateReady, StateCompositionFailed}
        \<and> Transition s to ef (service actor_id) (ma_event att) (ma_now att) db = Inr (transitioned to ef (ma_now att) s, db1))"
      by (rule moves_once [OF once]) simp
    with fin r ans show ?thesis by (auto simp: stands_at_def is_ready_def split: option.splits)
  next
    case (Inl err)
    let ?code = "failure_code err"
    obtain a db1 where run: "execute (MarkFailed ref actor_id ?code) marks db = (a, db1)" by (cases "execute (MarkFailed ref actor_id ?code) marks db")
    from assms(4) have ans: "db' = db1" "answer = (case a of None \<Rightarrow> CompositionRefused err | Some e \<Rightarrow> NotRecorded e)"
      by (auto simp: CompositionWorkflow_def Cons Inl run simp del: last.simps split: option.splits)
    have own: "failure_code err = code" if "answers = ComposeFailure code False # rest" "code \<noteq> ''''" for code rest
      using own_code [OF _ Inl that(2)] Cons that(1) by simp
    note once = failed.execute_once [OF assms(1,2) run]
    have "db1 = db \<or> (\<exists>att \<in> set marks. moved_by ref actor_id (\<lambda>s. (StateCompositionFailed, no_effects\<lparr>ef_failure := ?code\<rparr>)) att db db1)"
      using once by blast
    moreover have "\<exists>s. Get ref db1 = Inr s \<and> se_state s = StateCompositionFailed \<and> (db1 \<noteq> db \<longrightarrow> se_failure s = ?code)" if "a = None"
    proof -
      from once that obtain s where s: "Get ref db1 = Inr s" "has_failed s" by (auto simp: stands_at_def)
      have "se_failure s = ?code" if "db1 \<noteq> db" using moved_failure [OF assms(1) _ s(1)] once that by blast
      with s show ?thesis by (auto simp: has_failed_def)
    qed
    moreover from calculation(1) have "db1 = db \<or> (\<exists>s att to ef. Get ref db = Inr s \<and> att \<in> set marks \<and> to \<in> {StateReady, StateCompositionFailed}
        \<and> Transition s to ef (service actor_id) (ma_event att) (ma_now att) db = Inr (transitioned to ef (ma_now att) s, db1))"
      by (rule moves_once) simp
    ultimately show ?thesis using ans own by (auto split: option.splits)
  qed
qed

definition ex_composing_db :: interview_db where
  "ex_composing_db = empty_db\<lparr>db_sessions := [ex_session\<lparr>se_state := StateComposing, se_version := 2\<rparr>]\<rparr>"

definition ex_mark :: "bool \<Rightarrow> string \<Rightarrow> mark_attempt" where
  "ex_mark lost eid = \<lparr>ma_now = 20, ma_event = eid, ma_before = (\<lambda>db. db), ma_between = (\<lambda>db. db), ma_lost = lost\<rparr>"

definition ex_composed :: compose_result where
  "ex_composed = \<lparr>cr_ref = ''b1'', cr_digest = ''sha256:b1'', cr_revision = 1, cr_body = ''{}''\<rparr>"

abbreviation ex_composition :: "composition_answer \<times> interview_db" where
  "ex_composition \<equiv> CompositionWorkflow (\<lambda>_. '''') (se_ref ex_session) ''u1'' [ComposeError ''Unavailable'', Composed ex_composed]
     [ex_mark True ''e1'', ex_mark False ''e2''] ex_composing_db"

theorem composition_happens_once_witness:
  "fst ex_composition = ComposedReady \<and> length (db_outbox (snd ex_composition)) = 1
    \<and> (\<exists>s. Get (se_ref ex_session) (snd ex_composition) = Inr s \<and> se_state s = StateReady \<and> se_bundle_digest s = ''sha256:b1'')"
proof -
  have run: "fst ex_composition = ComposedReady" "length (db_outbox (snd ex_composition)) = 1" by code_simp+
  then have eq: "ex_composition = (ComposedReady, snd ex_composition)" by (metis prod.collapse)
  have keyed: "sessions_keyed ex_composing_db" by (simp add: sessions_keyed_def ex_composing_db_def empty_db_def)
  have quiet: "\<forall>att \<in> set [ex_mark True ''e1'', ex_mark False ''e2'']. quiet_attempt att"
    by (simp add: quiet_attempt_def ex_mark_def)
  have digest: "\<forall>r. Composed r \<in> set [ComposeError ''Unavailable'', Composed ex_composed] \<longrightarrow> cr_digest r \<noteq> ''''"
    by (simp add: ex_composed_def)
  from composition_happens_once [OF keyed quiet digest eq] run show ?thesis by (auto simp: ex_composed_def)
qed

text \<open>
  The code of a refusal that was worth retrying is not what the session records when the attempts run out:
  only a refusal that is final crosses the activity with its own code, any other with what the SDK makes of
  its Go type, which is the same for every code.
\<close>

lemma retryable_code_is_lost:
  "Compose sdk (ComposeFailure code True) = Compose sdk (ComposeFailure code' True)"
  by (simp add: Compose_def)

end
