(* ===== verification/Redo.thy ===== *)
theory Redo
  imports Control_Events "HOL-Library.AList"
begin

text \<open>
  \<open>services/platform/internal/interview/redo.go\<close>: the retake of one answer.  A redo is a new practice session
  whose configuration copies the parent's and names the answer it retakes; the \<open>redos\<close> table links the two,
  one retake to an answer.  A configuration is its decoding as an object; the codec is an argument.
\<close>

section \<open>Configurations\<close>

datatype config_value = ConfigBool bool | ConfigInt int | ConfigRedoOf string int string | ConfigOther string

type_synonym config = "(string \<times> config_value) list"

type_synonym config_codec = "(string \<Rightarrow> config option) \<times> (config \<Rightarrow> string)"

definition RedoMinutes :: int where "RedoMinutes = 5"

definition redo_allowed :: "config \<Rightarrow> bool" where
  "redo_allowed config \<longleftrightarrow>
     \<not> (case map_of config ''redo_allowed'' of Some (ConfigBool enabled) \<Rightarrow> \<not> enabled | _ \<Rightarrow> False)
     \<and> map_of config ''redo_of'' = None"

definition child_config :: "config \<Rightarrow> string \<Rightarrow> int \<Rightarrow> string \<Rightarrow> config" where
  "child_config config parent q question =
     AList.update ''redo_of'' (ConfigRedoOf parent q question) (AList.update ''minutes'' (ConfigInt RedoMinutes) config)"

section \<open>The links\<close>

record redo_row =
  rd_parent :: string
  rd_sequence :: int
  rd_session :: string
  rd_candidate :: string
  rd_created_at :: time

datatype redo_error =
    RedoNotAllowed
  | RedoExists
  | RedoTurnUnknown
  | ParentConfigUndecodable
  | RedoStoreError interview_error

text \<open>Links are seen and written by the candidate they belong to, outside any tenant.\<close>

definition redo_visible :: "row_scope \<Rightarrow> redo_row \<Rightarrow> bool" where
  "redo_visible sc r \<longleftrightarrow> (case sc of AsUser u \<Rightarrow> rd_candidate r = u | AsTenant _ \<Rightarrow> False)"

definition redo_key :: "redo_row \<Rightarrow> string \<times> int" where
  "redo_key r = (rd_parent r, rd_sequence r)"

definition InsertRedo ::
  "row_scope \<Rightarrow> redo_row \<Rightarrow> interview_db \<Rightarrow> redo_row list \<Rightarrow> redo_error + redo_row list" where
  "InsertRedo sc r db redos =
     (if \<not> redo_visible sc r \<or> rd_sequence r < 1 then Inl (RedoStoreError DatabaseRefused)
      else if redo_key r \<in> redo_key ` set redos \<or> rd_session r \<in> rd_session ` set redos then Inl RedoExists
      else if \<not> {rd_parent r, rd_session r} \<subseteq> se_id ` set (db_sessions db) then Inl (RedoStoreError DatabaseRefused)
      else Inr (redos @ [r]))"

definition Redos :: "session \<Rightarrow> redo_row list \<Rightarrow> redo_error + redo_row list" where
  "Redos parent redos =
     (case scope_of (se_ref parent) of
        None \<Rightarrow> Inl (RedoStoreError EmptyScope)
      | Some sc \<Rightarrow> Inr (sort_key rd_sequence (filter (\<lambda>r. rd_parent r = se_id parent \<and> redo_visible sc r) redos)))"

section \<open>Asking for a retake\<close>

text \<open>The turn asked for among the effective turns, with the question last asked before it.\<close>

fun find_answer :: "int \<Rightarrow> string \<Rightarrow> segment list \<Rightarrow> string option" where
  "find_answer q question [] = None"
| "find_answer q question (g # gs) =
     (let question' = (if sg_speaker g = ''interviewer'' then sg_text g else question) in
      if sg_sequence g = q \<and> sg_speaker g = ''candidate'' then Some question' else find_answer q question' gs)"

text \<open>The identifiers drawn, the clock, and what others do before each transaction.\<close>

record redo_env =
  re_session :: string
  re_event :: string
  re_now :: time
  re_others :: "nat \<Rightarrow> interview_db \<times> redo_row list \<Rightarrow> interview_db \<times> redo_row list"

definition retake :: "redo_env \<Rightarrow> session \<Rightarrow> string \<Rightarrow> session" where
  "retake env parent config =
     \<lparr>se_ref = \<lparr>ref_session = re_session env, ref_mode = ''practice'', ref_candidate = ref_candidate (se_ref parent),
        ref_tenant = ''''\<rparr>,
      se_campaign = '''', se_blueprint = se_blueprint parent, se_config = config, se_preference = se_preference parent,
      se_consent = se_consent parent, se_epoch = 0, se_accepted = 0, se_state = StateDraft, se_version = 0,
      se_bundle_ref = '''', se_bundle_digest = '''', se_bundle_revision = 0, se_failure = '''', se_timing = 0,
      se_created_at = 0, se_changed_at = 0\<rparr>"

text \<open>The two transactions that write: the child, then the link; a child whose link is refused stays.\<close>

definition link_retake ::
  "redo_env \<Rightarrow> session \<Rightarrow> int \<Rightarrow> session \<Rightarrow> actor \<Rightarrow> interview_db \<times> redo_row list
     \<Rightarrow> (redo_error + session) \<times> interview_db \<times> redo_row list" where
  "link_retake env parent q child actor w =
     (case re_others env 2 w of (db, redos) \<Rightarrow>
       (case Create child actor (re_event env) (re_now env) db of
          Inl e \<Rightarrow> (Inl (RedoStoreError e), db, redos)
        | Inr db1 \<Rightarrow>
            (case re_others env 3 (db1, redos) of (db2, redos2) \<Rightarrow>
              (case scope_of (se_ref parent) of
                 None \<Rightarrow> (Inl (RedoStoreError EmptyScope), db2, redos2)
               | Some sc \<Rightarrow>
                   (case InsertRedo sc \<lparr>rd_parent = se_id parent, rd_sequence = to_int32 q, rd_session = se_id child,
                           rd_candidate = ref_candidate (se_ref parent), rd_created_at = re_now env\<rparr> db2 redos2 of
                      Inl e \<Rightarrow> (Inl e, db2, redos2)
                    | Inr redos3 \<Rightarrow>
                        (case re_others env 4 (db2, redos3) of (db4, redos4) \<Rightarrow>
                          (case Get (se_ref child) db4 of
                             Inl e \<Rightarrow> (Inl (RedoStoreError e), db4, redos4)
                           | Inr s \<Rightarrow> (Inr s, db4, redos4))))))))"

definition CreateRedo ::
  "config_codec \<Rightarrow> redo_env \<Rightarrow> session \<Rightarrow> int \<Rightarrow> actor \<Rightarrow> interview_db \<times> redo_row list
     \<Rightarrow> (redo_error + session) \<times> interview_db \<times> redo_row list" where
  "CreateRedo codec env parent q actor w =
     (if ref_mode (se_ref parent) \<noteq> ''practice'' then (Inl RedoNotAllowed, w)
      else if se_state parent \<noteq> StateReviewReady \<and> se_state parent \<noteq> StateArchived then (Inl RedoNotAllowed, w)
      else case fst codec (se_config parent) of
        None \<Rightarrow> (Inl ParentConfigUndecodable, w)
      | Some config \<Rightarrow>
          (if \<not> redo_allowed config then (Inl RedoNotAllowed, w)
           else (case re_others env 1 w of w1 \<Rightarrow>
             case AssembleTranscript (se_ref parent) (fst w1) of
               Inl e \<Rightarrow> (Inl (RedoStoreError e), w1)
             | Inr t \<Rightarrow>
                 (case find_answer q '''' (EffectiveText t) of
                    None \<Rightarrow> (Inl RedoTurnUnknown, w1)
                  | Some question \<Rightarrow>
                      link_retake env parent q
                        (retake env parent (snd codec (child_config config (se_id parent) q question))) actor w1))))"

section \<open>One retake to an answer\<close>

definition undisturbed :: "redo_env \<Rightarrow> bool" where
  "undisturbed env \<longleftrightarrow> re_others env = (\<lambda>_ w. w)"

definition last_question :: "segment list \<Rightarrow> string" where
  "last_question gs = (case filter (\<lambda>g. sg_speaker g = ''interviewer'') gs of [] \<Rightarrow> '''' | h # hs \<Rightarrow> sg_text (last (h # hs)))"

lemma find_answer_at:
  assumes "find_answer q question gs = Some x"
  shows "\<exists>pre g post. gs = pre @ g # post \<and> sg_sequence g = q \<and> sg_speaker g = ''candidate''
    \<and> x = (if filter (\<lambda>g. sg_speaker g = ''interviewer'') pre = [] then question else last_question pre)
    \<and> (\<forall>h \<in> set pre. \<not> (sg_sequence h = q \<and> sg_speaker h = ''candidate''))"
  using assms
proof (induction gs arbitrary: question)
  case (Cons g gs)
  show ?case
  proof (cases "sg_sequence g = q \<and> sg_speaker g = ''candidate''")
    case True
    with Cons.prems have "x = question" by auto
    with True show ?thesis by (intro exI [of _ "[]"] exI [of _ g] exI [of _ gs]) simp
  next
    case False
    let ?q = "if sg_speaker g = ''interviewer'' then sg_text g else question"
    from False Cons.prems have "find_answer q ?q gs = Some x" by (auto simp: Let_def)
    from Cons.IH [OF this] obtain pre h post where "gs = pre @ h # post" "sg_sequence h = q" "sg_speaker h = ''candidate''"
      "x = (if filter (\<lambda>g. sg_speaker g = ''interviewer'') pre = [] then ?q else last_question pre)"
      "\<forall>h \<in> set pre. \<not> (sg_sequence h = q \<and> sg_speaker h = ''candidate'')" by blast
    with False show ?thesis
      by (intro exI [of _ "g # pre"] exI [of _ h] exI [of _ post])
        (auto simp: last_question_def split: list.splits)
  qed
qed simp

text \<open>The row \<open>Create\<close> inserts for a session.\<close>

definition draft_row :: "time \<Rightarrow> session \<Rightarrow> session" where
  "draft_row now s = s\<lparr>se_config := (if se_config s = '''' then ''{}'' else se_config s),
     se_preference := (if se_preference s = '''' then RecordingTranscriptOnly else se_preference s),
     se_epoch := 0, se_accepted := 0, se_state := StateDraft, se_version := 1, se_bundle_ref := '''',
     se_bundle_digest := '''', se_bundle_revision := 0, se_failure := '''', se_timing := 0,
     se_created_at := now, se_changed_at := now\<rparr>"

lemma Create_Inr:
  assumes "Create s actor eid now db = Inr db'"
  shows "\<exists>events audits. db' = db\<lparr>db_sessions := db_sessions db @ [draft_row now s],
      db_outbox := db_outbox db @ events, db_audit := db_audit db @ audits\<rparr>
    \<and> se_id s \<notin> se_id ` set (db_sessions db)"
proof -
  from assms obtain sc db1 where "scope_of (se_ref s) = Some sc" and ins: "InsertSession sc (draft_row now s) db = Inr db1"
    and rest: "bindE (publish_event eid now (created_event s actor) db1) (audit sc s actor ''interview.session_created'' ''allowed'') = Inr db'"
    by (auto simp: Create_def Let_def bindE_Inr draft_row_def split: option.splits)
  from rest obtain db2 where p: "publish_event eid now (created_event s actor) db1 = Inr db2"
    and a: "audit sc s actor ''interview.session_created'' ''allowed'' db2 = Inr db'" by (auto simp: bindE_Inr)
  from publish_event_Inr [OF p] obtain r where db2: "db2 = db1\<lparr>db_outbox := db_outbox db1 @ [r]\<rparr>" by blast
  from ins have db1: "db1 = db\<lparr>db_sessions := db_sessions db @ [draft_row now s]\<rparr>" "se_id s \<notin> se_id ` set (db_sessions db)"
    by (auto simp: InsertSession_def draft_row_def split: if_splits)
  show ?thesis unfolding audit_Inr [OF a] db2 db1(1) by (intro exI [of _ "[r]"] exI conjI db1(2)) simp
qed

text \<open>A link made before bars another, whatever else has happened since.\<close>

lemma linked_answer_is_refused:
  assumes "undisturbed env" and "r \<in> set redos" and "redo_key r = (se_id parent, to_int32 q)"
  shows "fst (CreateRedo codec env parent q actor (db, redos)) \<noteq> Inr s"
proof -
  have no: "InsertRedo sc \<lparr>rd_parent = se_id parent, rd_sequence = to_int32 q, rd_session = i, rd_candidate = c,
      rd_created_at = t\<rparr> db2 redos \<noteq> Inr redos3" for sc i c t db2 redos3
  proof -
    let ?r = "\<lparr>rd_parent = se_id parent, rd_sequence = to_int32 q, rd_session = i, rd_candidate = c, rd_created_at = t\<rparr>"
    have "redo_key ?r = redo_key r" using assms(3) by (simp add: redo_key_def)
    with assms(2) have "redo_key ?r \<in> redo_key ` set redos" by auto
    then show ?thesis by (simp add: InsertRedo_def)
  qed
  have "fst (link_retake env parent q child actor (db, redos)) \<noteq> Inr s" for child
    using no assms(1) by (auto simp: link_retake_def undisturbed_def split: sum.splits option.splits)
  with assms(1) show ?thesis by (auto simp: CreateRedo_def undisturbed_def split: sum.splits option.splits)
qed

lemma link_retake_Inr:
  assumes "undisturbed env" and "link_retake env parent q child actor (db, redos) = (Inr s, db', redos')"
  shows "Create child actor (re_event env) (re_now env) db = Inr db' \<and> s = draft_row (re_now env) child
    \<and> (\<exists>r. redos' = redos @ [r] \<and> redo_key r = (se_id parent, to_int32 q) \<and> rd_session r = se_id child
        \<and> redo_key r \<notin> redo_key ` set redos)"
proof -
  from assms obtain sc where c: "Create child actor (re_event env) (re_now env) db = Inr db'"
    and i: "InsertRedo sc \<lparr>rd_parent = se_id parent, rd_sequence = to_int32 q, rd_session = se_id child,
        rd_candidate = ref_candidate (se_ref parent), rd_created_at = re_now env\<rparr> db' redos = Inr redos'"
    and g: "Get (se_ref child) db' = Inr s"
    by (auto simp: link_retake_def undisturbed_def split: sum.splits option.splits)
  from Create_Inr [OF c] obtain events audits where
    db': "db' = db\<lparr>db_sessions := db_sessions db @ [draft_row (re_now env) child],
      db_outbox := db_outbox db @ events, db_audit := db_audit db @ audits\<rparr>"
    and fresh: "se_id child \<notin> se_id ` set (db_sessions db)" by blast
  from g have "s \<in> set (db_sessions db')" "se_id s = se_id child"
    using find_session_Some by (fastforce simp: Get_def get_def split: option.splits)+
  with fresh have "s = draft_row (re_now env) child" by (auto simp: db') (metis image_eqI)
  moreover from i have "\<exists>r. redos' = redos @ [r] \<and> redo_key r = (se_id parent, to_int32 q) \<and> rd_session r = se_id child
      \<and> redo_key r \<notin> redo_key ` set redos"
    by (auto simp: InsertRedo_def redo_key_def split: if_splits)
  ultimately show ?thesis using c by blast
qed

lemma child_is_a_redo: "map_of (child_config config i q question) ''redo_of'' \<noteq> None"
  by (simp add: child_config_def update_conv')

text \<open>An answer is retaken once, and the original survives.  A redo that is created belongs to a practice
  session that has results; its session is a new draft of the same candidate with the parent's blueprint,
  preference and consent, whose configuration names the answer and the question last asked before it in the
  effective transcript; every session, event, seal and track there was is as it was.  No later request for
  the same answer succeeds, whatever the parent has become, and a retake itself is never retaken.\<close>

theorem one_retake_per_answer:
  assumes "undisturbed env" and "distinct (map redo_key redos)"
    and "CreateRedo codec env parent q actor (db, redos) = (Inr child, db', redos')"
    and "\<forall>c. snd codec c \<noteq> '''' \<and> (\<exists>c'. fst codec (snd codec c) = Some c'
      \<and> (map_of c ''redo_of'' \<noteq> None \<longrightarrow> map_of c' ''redo_of'' \<noteq> None))"
  shows "ref_mode (se_ref parent) = ''practice'' \<and> se_state parent \<in> {StateReviewReady, StateArchived}
    \<and> (\<exists>t config pre g post. AssembleTranscript (se_ref parent) db = Inr t \<and> fst codec (se_config parent) = Some config
        \<and> EffectiveText t = pre @ g # post \<and> sg_sequence g = q \<and> sg_speaker g = ''candidate''
        \<and> se_config child = snd codec (child_config config (se_id parent) q (last_question pre)))
    \<and> db_sessions db' = db_sessions db @ [child] \<and> se_state child = StateDraft \<and> se_id child = re_session env
    \<and> ref_candidate (se_ref child) = ref_candidate (se_ref parent) \<and> se_consent child = se_consent parent
    \<and> db_events db' = db_events db \<and> db_seals db' = db_seals db \<and> db_tracks db' = db_tracks db
    \<and> distinct (map redo_key redos')
    \<and> (\<forall>parent2 codec2 env2 actor2 db2 redos2 s. se_id parent2 = se_id parent \<longrightarrow> set redos' \<subseteq> set redos2 \<longrightarrow> undisturbed env2
        \<longrightarrow> fst (CreateRedo codec2 env2 parent2 q actor2 (db2, redos2)) \<noteq> Inr s)
    \<and> (\<forall>s env2 q2 actor2 w2. se_config s = se_config child \<longrightarrow> CreateRedo codec env2 s q2 actor2 w2 = (Inl RedoNotAllowed, w2))"
proof -
  from assms(1,3) obtain config t question where mode: "ref_mode (se_ref parent) = ''practice''"
      "se_state parent \<in> {StateReviewReady, StateArchived}"
    and config: "fst codec (se_config parent) = Some config" and t: "AssembleTranscript (se_ref parent) db = Inr t"
    and question: "find_answer q '''' (EffectiveText t) = Some question"
    and link: "link_retake env parent q (retake env parent (snd codec (child_config config (se_id parent) q question))) actor
        (db, redos) = (Inr child, db', redos')"
    by (auto simp: CreateRedo_def undisturbed_def split: if_splits option.splits sum.splits)
  let ?config = "child_config config (se_id parent) q question"
  note l = link_retake_Inr [OF assms(1) link]
  from l have child: "child = draft_row (re_now env) (retake env parent (snd codec ?config))" by blast
  have conf: "se_config child = snd codec ?config" using assms(4) by (simp add: child draft_row_def retake_def)
  from l obtain r where r: "redos' = redos @ [r]" "redo_key r = (se_id parent, to_int32 q)"
    "redo_key r \<notin> redo_key ` set redos" by blast
  from Create_Inr [of _ actor "re_event env" "re_now env" db db'] l child have
    frame: "db_sessions db' = db_sessions db @ [child]" "db_events db' = db_events db" "db_seals db' = db_seals db"
      "db_tracks db' = db_tracks db" by force+
  from find_answer_at [OF question] obtain pre g post where at: "EffectiveText t = pre @ g # post" "sg_sequence g = q"
    "sg_speaker g = ''candidate''" "question = last_question pre"
    by (auto simp: last_question_def split: if_splits)
  have once: "fst (CreateRedo codec2 env2 parent2 q actor2 (db2, redos2)) \<noteq> Inr s"
    if "se_id parent2 = se_id parent" "set redos' \<subseteq> set redos2" "undisturbed env2" for parent2 codec2 env2 actor2 db2 redos2 s
    using linked_answer_is_refused [OF that(3), of r redos2 parent2 q] r that by auto
  have never: "CreateRedo codec env2 s q2 actor2 w2 = (Inl RedoNotAllowed, w2)" if "se_config s = se_config child" for s env2 q2 actor2 w2
  proof -
    from assms(4) child_is_a_redo [of config "se_id parent" q question] obtain c' where
      c': "fst codec (snd codec ?config) = Some c'" and "map_of c' ''redo_of'' \<noteq> None" by blast
    with c'(1) that conf show ?thesis by (auto simp: CreateRedo_def redo_allowed_def)
  qed
  have "se_state child = StateDraft" "se_id child = re_session env" "se_consent child = se_consent parent"
    "ref_candidate (se_ref child) = ref_candidate (se_ref parent)" by (simp_all add: child draft_row_def retake_def)
  moreover have "distinct (map redo_key redos')" using r assms(2) by simp
  ultimately show ?thesis using mode config t at conf frame once never by blast
qed

definition ex_line :: "int \<Rightarrow> int \<Rightarrow> string \<Rightarrow> string \<Rightarrow> control_row" where
  "ex_line epoch q speaker line = \<lparr>ce_ref = se_ref ex_session,
     ce_event = (ex_spoken epoch q segment_final line 0)\<lparr>cv_payload := (ex_payload line 0)\<lparr>py_segment :=
       map_option (\<lambda>p. p\<lparr>tr_speaker := speaker\<rparr>) (py_segment (ex_payload line 0))\<rparr>\<rparr>\<rparr>"

definition ex_reviewed :: session where
  "ex_reviewed = ex_session\<lparr>se_epoch := 2, se_state := StateReviewReady, se_version := 9\<rparr>"

definition ex_reviewed_db :: interview_db where
  "ex_reviewed_db = empty_db\<lparr>db_sessions := [ex_reviewed],
     db_events := [ex_line 1 1 ''interviewer'' ''Why a queue?'', ex_line 1 2 ''candidate'' ''to decouple'',
       ex_line 2 1 ''interviewer'' ''How do you test it?'', ex_line 2 2 ''candidate'' ''with a fake clock'']\<rparr>"

text \<open>A codec for the example: it only tells an empty configuration from a retake's.\<close>

definition ex_codec :: config_codec where
  "ex_codec = (\<lambda>raw. if raw = ''{}'' then Some [] else
       Some [(''minutes'', ConfigInt RedoMinutes), (''redo_of'', ConfigOther ''{}'')], \<lambda>c. ''redo'')"

definition ex_redo_env :: redo_env where
  "ex_redo_env = \<lparr>re_session = ''s2'', re_event = ''e1'', re_now = 50, re_others = (\<lambda>_ w. w)\<rparr>"

abbreviation ex_redo :: "int \<Rightarrow> redo_row list \<Rightarrow> (redo_error + session) \<times> interview_db \<times> redo_row list" where
  "ex_redo q redos \<equiv> CreateRedo ex_codec ex_redo_env ex_reviewed q ex_actor (ex_reviewed_db, redos)"

lemma ex_retaken: "is_ok (fst (ex_redo 2 []))" by code_simp

theorem one_retake_per_answer_witness:
  "\<exists>child db' redos'. ex_redo 2 [] = (Inr child, db', redos') \<and> se_state child = StateDraft \<and> se_consent child = ''1.0.0''
    \<and> length (db_sessions db') = 2 \<and> fst (CreateRedo ex_codec ex_redo_env ex_reviewed 2 ex_actor (db', redos')) \<noteq> Inr child
    \<and> CreateRedo ex_codec ex_redo_env child 2 ex_actor (db', redos') = (Inl RedoNotAllowed, db', redos')"
proof -
  from ex_retaken obtain child db' redos' where r: "ex_redo 2 [] = (Inr child, db', redos')"
    by (metis is_ok_iff prod.collapse)
  have env: "undisturbed ex_redo_env" by (simp add: undisturbed_def ex_redo_env_def)
  have codec: "\<forall>c. snd ex_codec c \<noteq> '''' \<and> (\<exists>c'. fst ex_codec (snd ex_codec c) = Some c'
      \<and> (map_of c ''redo_of'' \<noteq> None \<longrightarrow> map_of c' ''redo_of'' \<noteq> None))" by (simp add: ex_codec_def)
  have d: "distinct (map redo_key [])" by simp
  note all = one_retake_per_answer [OF env d r codec]
  then have "db_sessions db' = db_sessions ex_reviewed_db @ [child]" by blast
  then have two: "length (db_sessions db') = 2" by (simp add: ex_reviewed_db_def)
  from all have again: "fst (CreateRedo ex_codec ex_redo_env ex_reviewed 2 ex_actor (db', redos')) \<noteq> Inr child"
    using env by blast
  from all have never: "CreateRedo ex_codec ex_redo_env child 2 ex_actor (db', redos') = (Inl RedoNotAllowed, db', redos')" by blast
  have "se_consent ex_reviewed = ''1.0.0''" by (simp add: ex_reviewed_def ex_session_def)
  with all r two again never show ?thesis by (intro exI conjI) (blast | simp)+
qed

text \<open>
  A turn is named by its sequence alone, and sequences start again with every connection: after a reconnect
  the answer of the second epoch is looked for and its namesake of the first is found, with the question of
  that one; and once that one is retaken the other can no longer be.
\<close>

lemma redo_after_reconnect_asks_another_question:
  "\<exists>t. AssembleTranscript (se_ref ex_reviewed) ex_reviewed_db = Inr t
     \<and> map (\<lambda>g. (sg_epoch g, sg_sequence g, sg_text g)) (EffectiveText t)
         = [(1, 1, ''Why a queue?''), (1, 2, ''to decouple''), (2, 1, ''How do you test it?''), (2, 2, ''with a fake clock'')]
     \<and> find_answer 2 '''' (EffectiveText t) = Some ''Why a queue?''"
proof -
  let ?a = "AssembleTranscript (se_ref ex_reviewed) ex_reviewed_db"
  have ok: "is_ok ?a" by code_simp
  have m: "map_sum id (\<lambda>t. (map (\<lambda>g. (sg_epoch g, sg_sequence g, sg_text g)) (EffectiveText t), find_answer 2 '''' (EffectiveText t))) ?a
    = Inr ([(1, 1, ''Why a queue?''), (1, 2, ''to decouple''), (2, 1, ''How do you test it?''), (2, 2, ''with a fake clock'')],
        Some ''Why a queue?'')" by code_simp
  from ok obtain t where "?a = Inr t" by (auto simp: is_ok_iff)
  with m show ?thesis by simp
qed

end
