(* ===== verification/Interview_System.thy ===== *)
theory Interview_System
  imports Start_Resume Composition Redo
begin

text \<open>
  The interview context as one system: every transaction its commands commit, from whichever process, is a
  step of one relation on the database, and every command is a sequence of such steps with the steps of
  others between them.  The system refines the abstract lifecycle, in which a session is the list of the
  states it has been in: that list is what its audit trail spells out.
\<close>

section \<open>Transactions\<close>

inductive interview_step :: "interview_db \<Rightarrow> interview_db \<Rightarrow> bool" where
  created: "Create s actor eid now db = Inr db' \<Longrightarrow> interview_step db db'"
| moved: "Transition s to ef actor eid now db = Inr (s', db') \<Longrightarrow> interview_step db db'"
| attempted: "BeginAttempt s now db = Inr (epoch, db') \<Longrightarrow> interview_step db db'"
| stamped: "StampTimingPolicy s p db = Inr db' \<Longrightarrow> interview_step db db'"
| ingested: "ingest_batch ref epoch events assign iid now db = Inr (ig, db') \<Longrightarrow> interview_step db db'"
| interrupted: "RecordInterruption s cause duration actor iid now db = Inr (r, db') \<Longrightarrow> interview_step db db'"
| sealed: "seal s epoch q gaps digest media warnings input now db = Inr db' \<Longrightarrow> interview_step db db'"
| tracked: "track_step db db' \<Longrightarrow> db' = db\<lparr>db_tracks := db_tracks db'\<rparr> \<Longrightarrow> interview_step db db'"

section \<open>Lives\<close>

text \<open>
  What the audit trail says of transitions: the sessions that moved and where to, in order.  An action is read
  as a move to a state some transition leads to; the action an interruption is audited under is also that of
  a state, but of one nothing leads to.
\<close>

definition state_of_action :: "string \<Rightarrow> state option" where
  "state_of_action action =
     find (\<lambda>st. ''interview.session_'' @ state_text st = action) (concat (map transitions States))"

definition transitions_audited :: "audit_row list \<Rightarrow> (string \<times> state) list" where
  "transitions_audited rows = List.map_filter (\<lambda>a. map_option (Pair (au_session a)) (state_of_action (au_action a))) rows"

definition trail :: "string \<Rightarrow> interview_db \<Rightarrow> state list" where
  "trail i db = map snd (filter (\<lambda>m. fst m = i) (transitions_audited (db_audit db)))"

definition lives :: "interview_db \<Rightarrow> (string \<times> state \<times> int) list" where
  "lives db = map (\<lambda>s. (se_id s, se_state s, se_version s)) (db_sessions db)"

text \<open>The abstract state: the states each session has been in, the first of them draft.\<close>

type_synonym histories = "string \<rightharpoonup> state list"

definition histories :: "interview_db \<Rightarrow> histories" where
  "histories db i = (if i \<in> fst ` set (lives db) then Some (StateDraft # trail i db) else None)"

inductive lifecycle_step :: "histories \<Rightarrow> histories \<Rightarrow> bool" where
  born: "h i = None \<Longrightarrow> lifecycle_step h (h(i \<mapsto> [StateDraft]))"
| lives_on: "h i = Some ss \<Longrightarrow> ss \<noteq> [] \<Longrightarrow> t \<in> set (transitions (last ss)) \<Longrightarrow> lifecycle_step h (h(i \<mapsto> ss @ [t]))"

text \<open>The link between the two: rows and trails agree on where each session is and how often it has moved.\<close>

definition trails_agree :: "interview_db \<Rightarrow> bool" where
  "trails_agree db \<longleftrightarrow> distinct (map fst (lives db))
     \<and> (\<forall>(i, st, v) \<in> set (lives db). last (StateDraft # trail i db) = st \<and> v = 1 + int (length (trail i db)))
     \<and> fst ` set (transitions_audited (db_audit db)) \<subseteq> fst ` set (lives db)"

lemma map_fst_lives: "map fst (lives db) = map se_id (db_sessions db)"
  by (simp add: lives_def comp_def)

lemma ids_lives: "fst ` set (lives db) = se_id ` set (db_sessions db)"
  using arg_cong [OF map_fst_lives, of set] by simp

lemma trails_agree_keyed: "trails_agree db \<Longrightarrow> sessions_keyed db"
  by (simp add: trails_agree_def sessions_keyed_def map_fst_lives)

lemma trails_agree_row:
  "trails_agree db \<Longrightarrow> s \<in> set (db_sessions db) \<Longrightarrow>
     last (StateDraft # trail (se_id s) db) = se_state s \<and> se_version s = 1 + int (length (trail (se_id s) db))"
  unfolding trails_agree_def lives_def by auto

lemma transitions_audited_append [simp]:
  "transitions_audited (xs @ ys) = transitions_audited xs @ transitions_audited ys"
  by (simp add: transitions_audited_def List.map_filter_def)

lemma transitions_audited_Nil [simp]: "transitions_audited [] = []"
  by (simp add: transitions_audited_def List.map_filter_def)

lemma state_of_action_state:
  assumes "st \<in> set (transitions from_state)"
  shows "state_of_action (''interview.session_'' @ state_text st) = Some st"
proof -
  let ?p = "\<lambda>x. ''interview.session_'' @ state_text x = ''interview.session_'' @ state_text st"
  let ?targets = "concat (map transitions States)"
  have "st \<in> set ?targets" using assms States_all by auto
  then have "find ?p ?targets \<noteq> None" unfolding find_None_iff by blast
  then obtain x where x: "find ?p ?targets = Some x" by blast
  then have "?p x" by (auto simp: find_Some_iff)
  then have "x = st" using state_text_inj by blast
  with x show ?thesis unfolding state_of_action_def by simp
qed

lemma other_actions [simp]:
  "state_of_action ''interview.session_created'' = None" "state_of_action ''interview.session_interrupted'' = None"
  by code_simp+

lemma audited_move:
  "to \<in> set (transitions (se_state s)) \<Longrightarrow> transitions_audited [transition_audit s to actor] = [(se_id s, to)]"
  unfolding transitions_audited_def transition_audit_def
  by (simp add: List.map_filter_def state_of_action_state del: append.simps)

lemma audited_other [simp]:
  "state_of_action (au_action a) = None \<Longrightarrow> transitions_audited [a] = []"
  by (simp add: transitions_audited_def List.map_filter_def)

section \<open>Transactions that move no session\<close>

definition quietly :: "interview_db \<Rightarrow> interview_db \<Rightarrow> bool" where
  "quietly db db' \<longleftrightarrow> lives db' = lives db \<and> transitions_audited (db_audit db') = transitions_audited (db_audit db)"

lemma quietly_refl [simp]: "quietly db db"
  by (simp add: quietly_def)

lemma quietly_trans: "quietly db db1 \<Longrightarrow> quietly db1 db2 \<Longrightarrow> quietly db db2"
  by (simp add: quietly_def)

lemma quietly_elsewhere [intro]:
  "db_sessions db' = db_sessions db \<Longrightarrow> db_audit db' = db_audit db \<Longrightarrow> quietly db db'"
  by (simp add: quietly_def lives_def)

lemma update_sessions_quietly:
  assumes "update_sessions sc i guard f db = (moved, db')"
    and "\<And>r. se_ref (f r) = se_ref r \<and> se_state (f r) = se_state r \<and> se_version (f r) = se_version r"
  shows "quietly db db'"
  unfolding update_sessions_db [OF assms(1)] using assms(2) by (simp add: quietly_def lives_def)

lemma BeginAttempt_quietly: "BeginAttempt s now db = Inr (epoch, db') \<Longrightarrow> quietly db db'"
  by (auto simp: BeginAttempt_def Let_def bindE_Inr InsertAttempt_def AdvanceSessionEpoch_def SupersedeAttempts_def
      split: option.splits if_splits prod.splits dest!: update_sessions_quietly elim!: quietly_trans [rotated])

lemma StampTimingPolicy_quietly: "StampTimingPolicy s p db = Inr db' \<Longrightarrow> quietly db db'"
  by (auto simp: StampTimingPolicy_def split: option.splits prod.splits if_splits dest!: update_sessions_quietly)

lemma recordInterruptionIn_quietly: "recordInterruptionIn sc s cause d actor iid now db = Inr db' \<Longrightarrow> quietly db db'"
  by (auto simp: recordInterruptionIn_def InsertInterruption_def bindE_Inr quietly_def lives_def split: if_splits dest!: audit_Inr)

lemma RecordInterruption_quietly: "RecordInterruption s cause d actor iid now db = Inr (r, db') \<Longrightarrow> quietly db db'"
  by (auto simp: RecordInterruption_def Let_def bindE_Inr split: if_splits option.splits dest!: recordInterruptionIn_quietly)

lemma apply_event_quietly: "apply_event sc s e actor iid now db = (out, db') \<Longrightarrow> quietly db db'"
  using apply_event_cases [of sc s e actor iid now db out db']
  by (auto simp: batch_frame_def quietly_def lives_def stop_audits_def)

lemma ingest_events_quietly: "ingest_events sc s sealed actor iid now n es db = (outs, life, db') \<Longrightarrow> quietly db db'"
proof (induction es arbitrary: n db outs life)
  case (Cons e es)
  show ?case
  proof (cases "sealed \<and> cv_type e \<in> set conversationalEventTypes")
    case True
    with Cons show ?thesis by (auto split: prod.splits)
  next
    case False
    obtain out db1 where ap: "apply_event sc s e actor (iid n) now db = (out, db1)" by fastforce
    with Cons.prems False obtain outs1 life1 where
      "ingest_events sc s sealed actor iid now (Suc n) es db1 = (outs1, life1, db')" by (auto split: prod.splits)
    from quietly_trans [OF apply_event_quietly [OF ap] Cons.IH [OF this]] show ?thesis .
  qed
qed simp

lemma PersistCursor_quietly: "quietly db (PersistCursor sc i epoch acc db)"
  unfolding PersistCursor_def
  by (rule update_sessions_quietly [OF prod.collapse [symmetric]]) simp

lemma ingest_batch_quietly:
  assumes "ingest_batch ref epoch events assign iid now db = Inr (ig, db')"
  shows "quietly db db'"
proof -
  from ingest_batch_Inr [OF assms] obtain sc s batch db1 where
    ran: "batch_ran ref events assign iid now db sc s ig batch db1"
    and db': "db' = db1 \<or> (\<exists>acc. db' = PersistCursor sc (se_id s) (se_epoch s) acc db1)" by metis
  from ran have "quietly db db1" unfolding batch_ran_def by (blast intro: ingest_events_quietly)
  with db' PersistCursor_quietly quietly_trans show ?thesis by blast
qed

lemma seal_quietly: "seal s epoch q gaps digest media warnings input now db = Inr db' \<Longrightarrow> quietly db db'"
  by (auto simp: seal_def InsertSeal_def split: option.splits if_splits insert_result.splits)

section \<open>The system refines the lifecycle\<close>

lemma quietly_agrees:
  "quietly db db' \<Longrightarrow> trails_agree db \<Longrightarrow> trails_agree db' \<and> histories db' = histories db"
  unfolding trails_agree_def histories_def fun_eq_iff trail_def quietly_def by simp

lemma created_agrees:
  assumes "Create s actor eid now db = Inr db'" and "trails_agree db"
  shows "trails_agree db' \<and> lifecycle_step (histories db) (histories db')"
proof -
  from Create_Inr [OF assms(1)] obtain events audits where
    db': "db' = db\<lparr>db_sessions := db_sessions db @ [draft_row now s], db_outbox := db_outbox db @ events,
      db_audit := db_audit db @ audits\<rparr>" and "se_id s \<notin> se_id ` set (db_sessions db)" by blast
  then have fresh: "se_id s \<notin> fst ` set (lives db)" by (simp add: ids_lives)
  have lives: "lives db' = lives db @ [(se_id s, StateDraft, 1)]" by (simp add: lives_def db' draft_row_def)
  have audited: "transitions_audited (db_audit db') = transitions_audited (db_audit db)"
    using assms(1) by (auto simp: Create_def Let_def bindE_Inr InsertSession_def split: option.splits if_splits
        dest!: audit_Inr publish_event_Inr)
  then have trail: "trail i db' = trail i db" for i by (simp add: trail_def)
  have none: "trail (se_id s) db = []" using assms(2) fresh by (force simp: trails_agree_def trail_def filter_empty_conv)
  have "histories db' = (histories db)(se_id s \<mapsto> [StateDraft])"
    using none trail by (auto simp: histories_def fun_eq_iff lives)
  moreover have "histories db (se_id s) = None" using fresh by (simp add: histories_def)
  ultimately have "lifecycle_step (histories db) (histories db')" by (metis born)
  moreover have "trails_agree db'"
    using assms(2) trail none fresh audited by (auto simp: trails_agree_def lives)
  ultimately show ?thesis by blast
qed

lemma moved_agrees:
  assumes "Transition s to ef actor eid now db = Inr (s', db')" and "trails_agree db"
  shows "trails_agree db' \<and> lifecycle_step (histories db) (histories db')"
proof -
  from Transition_Inr [OF assms(1)] have legal: "to \<in> set (transitions (se_state s))"
    and "\<exists>rows bundles events. transition_frame db db' rows bundles events [transition_audit s to actor]" by blast+
  then have "db_audit db' = db_audit db @ [transition_audit s to actor]" using transition_frame_fields(4) by blast
  then have audited: "transitions_audited (db_audit db') = transitions_audited (db_audit db) @ [(se_id s, to)]"
    by (simp add: audited_move [OF legal])
  then have trail: "trail i db' = trail i db @ (if i = se_id s then [to] else [])" for i by (simp add: trail_def)
  note keyed = trails_agree_keyed [OF assms(2)]
  from Transition_row [OF keyed assms(1)] obtain sc r where r: "r \<in> set (db_sessions db)" "read_row sc s r"
    and s': "s' = transitioned to ef now r" and rows: "db_sessions db' = map (\<lambda>x. if x = r then s' else x) (db_sessions db)"
    by blast
  from r(2) have id: "se_id r = se_id s" "se_state r = se_state s" by (simp_all add: read_row_def)
  have ids: "map fst (lives db') = map fst (lives db)"
    by (simp add: map_fst_lives rows comp_def s' if_distrib [of se_id] cong: if_cong)
  note at = trails_agree_row [OF assms(2) r(1)]
  have agree: "last (StateDraft # trail (se_id x) db') = se_state x \<and> se_version x = 1 + int (length (trail (se_id x) db'))"
    if "x \<in> set (db_sessions db')" for x
  proof -
    from that obtain y where y: "y \<in> set (db_sessions db)" "x = (if y = r then s' else y)" unfolding rows set_map by blast
    show ?thesis
    proof (cases "y = r")
      case False
      then have "se_id y \<noteq> se_id s" using keyed_unique [OF keyed y(1) r(1)] id by auto
      with False y trails_agree_row [OF assms(2) y(1)] show ?thesis by (simp add: trail)
    qed (use at id y in \<open>simp add: trail s'\<close>)
  qed
  have mine: "se_id s \<in> fst ` set (lives db)" unfolding ids_lives using r(1) id(1) by (metis image_eqI)
  have same: "fst ` set (lives db') = fst ` set (lives db)" using arg_cong [OF ids, of set] by simp
  have "histories db' = (histories db)(se_id s \<mapsto> (StateDraft # trail (se_id s) db) @ [to])"
    using mine by (auto simp: histories_def fun_eq_iff same trail)
  moreover have "histories db (se_id s) = Some (StateDraft # trail (se_id s) db)" using mine by (simp add: histories_def)
  moreover have "to \<in> set (transitions (last (StateDraft # trail (se_id s) db)))" using legal at id by simp
  ultimately have "lifecycle_step (histories db) (histories db')" by (metis lives_on list.distinct(1))
  moreover have "trails_agree db'"
    unfolding trails_agree_def
  proof (intro conjI)
    show "distinct (map fst (lives db'))" using assms(2) unfolding ids by (simp add: trails_agree_def)
    show "\<forall>(i, st, v) \<in> set (lives db'). last (StateDraft # trail i db') = st \<and> v = 1 + int (length (trail i db'))"
      using agree by (auto simp: lives_def)
    show "fst ` set (transitions_audited (db_audit db')) \<subseteq> fst ` set (lives db')"
      using assms(2) mine unfolding same audited by (auto simp: trails_agree_def)
  qed
  ultimately show ?thesis by blast
qed

lemma step_agrees:
  assumes "interview_step db db'" and "trails_agree db"
  shows "trails_agree db' \<and> (histories db' = histories db \<or> lifecycle_step (histories db) (histories db'))"
  using assms(1)
proof cases
  case (created s actor eid now)
  with created_agrees assms(2) show ?thesis by blast
next
  case (moved s to ef actor eid now s')
  with moved_agrees assms(2) show ?thesis by blast
next
  case (attempted s now epoch)
  with BeginAttempt_quietly quietly_agrees assms(2) show ?thesis by blast
next
  case (stamped s p)
  with StampTimingPolicy_quietly quietly_agrees assms(2) show ?thesis by blast
next
  case (ingested ref epoch events assign iid now ig)
  with ingest_batch_quietly quietly_agrees assms(2) show ?thesis by blast
next
  case (interrupted s cause duration actor iid now r)
  with RecordInterruption_quietly quietly_agrees assms(2) show ?thesis by blast
next
  case (sealed s epoch q gaps digest media warnings input now)
  with seal_quietly quietly_agrees assms(2) show ?thesis by blast
next
  case tracked
  have "quietly db db'" by (subst tracked(2), rule quietly_elsewhere) simp_all
  with quietly_agrees assms(2) show ?thesis by blast
qed

text \<open>C1: The interview context refines the session lifecycle.  Seen as the list of states each session has been
  in, as its audit trail spells them, a transaction of any command is invisible, or opens one new session in
  draft, or takes one session one legal step further; it never rewrites a past, never moves two sessions at
  once and leaves the audit trail in agreement with the rows, so that every later transaction is a step of
  the lifecycle too.\<close>

theorem interview_refines_lifecycle:
  assumes "interview_step db db'" and "trails_agree db"
  shows "(histories db' = histories db \<or> lifecycle_step (histories db) (histories db')) \<and> trails_agree db'"
  using step_agrees [OF assms] by blast

lemma steps_agree:
  assumes "interview_step\<^sup>*\<^sup>* db db'" and "trails_agree db"
  shows "trails_agree db' \<and> lifecycle_step\<^sup>*\<^sup>* (histories db) (histories db')"
  using assms
proof (induction rule: rtranclp_induct)
  case (step db1 db2)
  from step_agrees [OF step(2)] step(3,4) show ?case by (auto intro: rtranclp.rtrancl_into_rtrancl)
qed simp

text \<open>A history is legal when it starts in draft and follows the transition table.\<close>

definition legal_histories :: "histories \<Rightarrow> bool" where
  "legal_histories h \<longleftrightarrow> (\<forall>i ss. h i = Some ss \<longrightarrow> (\<exists>ts. ss = StateDraft # ts \<and> session.walk StateDraft ts))"

lemma lifecycle_step_legal: "lifecycle_step h h' \<Longrightarrow> legal_histories h \<Longrightarrow> legal_histories h'"
proof (induction rule: lifecycle_step.induct)
  case (born h i)
  then show ?case by (auto simp: legal_histories_def)
next
  case (lives_on h i ss t)
  then obtain ts where ts: "ss = StateDraft # ts" "session.walk StateDraft ts" by (auto simp: legal_histories_def)
  with lives_on(3) have "session.walk StateDraft (ts @ [t])" by (simp add: session.walk_append session.edge_def)
  with lives_on(4) ts show ?case by (auto simp: legal_histories_def)
qed

lemma lifecycle_steps_legal: "lifecycle_step\<^sup>*\<^sup>* h h' \<Longrightarrow> legal_histories h \<Longrightarrow> legal_histories h'"
  by (induction rule: rtranclp_induct) (auto intro: lifecycle_step_legal)

section \<open>Commands are sequences of transactions\<close>

abbreviation reaches :: "interview_db \<Rightarrow> interview_db \<Rightarrow> bool" where
  "reaches \<equiv> interview_step\<^sup>*\<^sup>*"

lemma steps_then: "interview_step db db' \<Longrightarrow> reaches db0 db \<Longrightarrow> reaches db0 db'"
  by (rule rtranclp.rtrancl_into_rtrancl)

lemma claimTrack_False: "claimTrack s track key stale now db = Inr (False, db') \<Longrightarrow> db' = db"
  by (auto simp: claimTrack_def bindE_Inr split: option.splits if_splits prod.splits)

lemma claimTrack_step:
  assumes "claimTrack s track key stale now db = Inr (True, db')"
  shows "interview_step db db'"
proof (rule tracked)
  show "track_step db db'" using assms by (rule claims)
  show "db' = db\<lparr>db_tracks := db_tracks db'\<rparr>" using claimTrack_True [OF assms] by (auto split: option.splits)
qed

lemma update_tracks_only: "update_tracks s track guard f db = Inr db' \<Longrightarrow> db' = db\<lparr>db_tracks := db_tracks db'\<rparr>"
  using update_tracks_Inr by fastforce

lemma track_steps:
  "releaseClaim s track db = Inr db' \<Longrightarrow> interview_step db db'"
  "recordEgress s track egress db = Inr db' \<Longrightarrow> interview_step db db'"
  "resolveTrack s track st digest bytes db = Inr db' \<Longrightarrow> interview_step db db'"
  by (auto intro!: tracked intro: releases records resolves simp: releaseClaim_def recordEgress_def resolveTrack_def
      dest: update_tracks_only)

lemma claimTrack_then:
  "claimTrack s track key stale now db = Inr (won, db') \<Longrightarrow> reaches db0 db \<Longrightarrow> reaches db0 db'"
  by (cases won) (auto intro: steps_then [OF claimTrack_step] dest: claimTrack_False)

lemma finalize_tracks_then:
  "finalize_tracks stat s rs st db = Inr (st', db') \<Longrightarrow> reaches db0 db \<Longrightarrow> reaches db0 db'"
proof (induction rs arbitrary: st db)
  case (Cons r rs)
  show ?case
  proof (cases "mt_state r = ''recording''")
    case True
    obtain v digest bytes where v: "verdict stat r = (v, digest, bytes)" by (cases "verdict stat r")
    with Cons.prems True obtain db1 where res: "resolveTrack s (mt_track r) v digest bytes db = Inr db1"
      and rest: "finalize_tracks stat s rs (if v = ''missing'' then ''missing'' else st) db1 = Inr (st', db')"
      by (auto simp: bindE_Inr)
    from Cons.IH [OF rest steps_then [OF track_steps(3) [OF res] Cons.prems(2)]] show ?thesis .
  qed (use Cons in auto)
qed simp

lemma media_status_then: "media_status cp s db = Inr (mw, db') \<Longrightarrow> reaches db0 db \<Longrightarrow> reaches db0 db'"
  by (auto simp: media_status_def FinalizeRecording_def bindE_Inr split: if_splits option.splits
      dest: finalize_tracks_then)

lemmas transactions_then =
  steps_then [OF created] steps_then [OF moved] steps_then [OF attempted] steps_then [OF stamped]
  steps_then [OF ingested] steps_then [OF interrupted] steps_then [OF sealed]
  steps_then [OF track_steps(1)] steps_then [OF track_steps(2)] claimTrack_then media_status_then

text \<open>Others commit transactions of the same system.\<close>

definition plays_along :: "('n \<Rightarrow> interview_db \<Rightarrow> interview_db) \<Rightarrow> bool" where
  "plays_along others \<longleftrightarrow> (\<forall>n db. reaches db (others n db))"

lemma plays_then: "plays_along others \<Longrightarrow> reaches db0 db \<Longrightarrow> reaches db0 (others n db)"
  unfolding plays_along_def by (meson rtranclp_trans)

lemma fold_lifecycle_reaches:
  assumes "\<forall>n db. reaches db (snd (snd (env n)) db)" and "reaches db0 db"
  shows "reaches db0 (snd (fold_lifecycle env actor n kinds s db))"
  using assms(2)
proof (induction kinds arbitrary: n s db)
  case (Cons kind kinds)
  obtain eid now others where e: "env n = (eid, now, others)" by (cases "env n")
  have o: "reaches db0 (others db)" using assms(1) Cons.prems e by (metis rtranclp_trans snd_conv)
  show ?case
  proof (cases "fold_step kind s")
    case (Some p)
    obtain to ef where p: "p = (to, ef)" by (cases p)
    show ?thesis
    proof (cases "Transition s to ef actor eid now (others db)")
      case (Inr q)
      obtain s' db' where q: "q = (s', db')" by (cases q)
      from transactions_then(2) [OF Inr [unfolded q] o] Cons.IH Inr Some p q e show ?thesis by simp
    qed (use Some p e o in \<open>simp split: interview_error.split\<close>)
  qed (simp add: Cons)
qed simp

lemma ingest_reaches:
  assumes "\<forall>n db. reaches db (snd (snd (env n)) db)" and "reaches db0 db"
  shows "reaches db0 (snd (ingest ref epoch events assign iid now env db))"
proof (cases "ingest_batch ref epoch events assign iid now db")
  case (Inr p)
  obtain ig db1 where p: "p = (ig, db1)" by (cases p)
  let ?actor = "\<lparr>ac_id = ref_candidate ref, ac_type = (if assign then ''service'' else ''user'')\<rparr>"
  obtain err db2 where fold: "fold_lifecycle env ?actor 0 (ig_lifecycle ig) (ig_session ig) db1 = (err, db2)"
    by (cases "fold_lifecycle env ?actor 0 (ig_lifecycle ig) (ig_session ig) db1")
  have "reaches db0 db2"
    using fold_lifecycle_reaches [OF assms(1) transactions_then(5) [OF Inr [unfolded p] assms(2)],
        of ?actor 0 "ig_lifecycle ig" "ig_session ig"] fold by simp
  then show ?thesis by (cases err) (simp_all add: ingest_def Inr p fold split del: if_split)
qed (use assms(2) in \<open>simp add: ingest_def\<close>)

lemma answer_receipt_reaches:
  "plays_along (cx_others env) \<Longrightarrow> reaches db0 db \<Longrightarrow> reaches db0 (snd (answer_receipt env ref db))"
  by (simp add: answer_receipt_def Let_def plays_then split: sum.split)

lemma move_to_evaluating_reaches:
  "plays_along (cx_others env) \<Longrightarrow> reaches db0 db \<Longrightarrow> reaches db0 (snd (move_to_evaluating env ref s e actor db))"
  by (auto simp: move_to_evaluating_def Let_def plays_then answer_receipt_reaches split: sum.splits prod.splits interview_error.splits)
    (blast intro: answer_receipt_reaches transactions_then(2) plays_then)+

lemma freeze_reaches:
  assumes "plays_along (cx_others env)" and "reaches db0 db"
  shows "reaches db0 (snd (freeze cp env ref epoch q actor completion s db))"
proof -
  have "media_status cp s (cx_others env 4 (cx_others env 3 (cx_others env 2 db))) = Inr (mw, db1) \<Longrightarrow> reaches db0 db1"
    for mw db1 using assms by (blast intro: media_status_then plays_then)
  with assms show ?thesis
    by (auto simp: freeze_def Let_def plays_then split: sum.splits prod.splits)
      (blast intro: move_to_evaluating_reaches transactions_then(7) plays_then)+
qed

lemma complete_reaches:
  assumes "plays_along (cx_others env)" and "reaches db0 db"
  shows "reaches db0 (snd (complete cp env ref epoch q actor completion db))"
  using assms by (auto simp: complete_def Let_def plays_then freeze_reaches split: sum.splits)

lemma open_started_reaches:
  assumes "plays_along (ce_others env)" and "reaches db0 db"
  shows "reaches db0 (snd (open_started grants env c s db))"
  using assms by (auto simp: open_started_def Let_def plays_then split: sum.splits prod.splits option.splits)
    (blast intro: transactions_then(3,4) plays_then)+

lemma Start_reaches:
  assumes "plays_along (ce_others env)" and "reaches db0 db"
  shows "reaches db0 (fst (snd (Start reserve grants env ref db l)))"
proof -
  have "Transition s to ef actor eid now (ce_others env 1 db) = Inr (s', db1) \<Longrightarrow>
      reaches db0 (snd (open_started grants env c s' db1))" for s to ef actor eid now s' db1 c
    using assms by (blast intro: open_started_reaches transactions_then(2) plays_then)
  with assms show ?thesis
    by (auto simp: Start_def Let_def plays_then split: sum.splits option.splits prod.splits interview_error.splits)
      (metis snd_conv)+
qed

lemma timingOf_then: "timingOf s db = Inr (p, db') \<Longrightarrow> reaches db0 db \<Longrightarrow> reaches db0 db'"
  by (auto simp: timingOf_def bindE_Inr split: if_splits intro: transactions_then(4))

lemma take_over_reaches:
  assumes "plays_along (ce_others env)" and "reaches db0 db"
  shows "reaches db0 (snd (take_over grants env ref s policy db))"
  using assms by (auto simp: take_over_def Let_def plays_then split: sum.splits prod.splits option.splits)
    (blast intro: transactions_then(3) plays_then)+

lemma Resume_reaches:
  assumes "plays_along (ce_others env)" and "reaches db0 db"
  shows "reaches db0 (snd (Resume grants env ref db))"
proof -
  have "timingOf s (ce_others env 1 db) = Inr (p, db1) \<Longrightarrow> reaches db0 db1" for s p db1
    using assms by (blast intro: timingOf_then plays_then)
  with assms show ?thesis
    by (auto simp: Resume_def Let_def plays_then split: sum.splits prod.splits) (blast intro: take_over_reaches)+
qed

lemma expire_sealed_reaches:
  assumes "plays_along (cx_others env)" and "reaches db0 db"
  shows "reaches db0 (snd (expire_sealed cp env ref s actor db))"
proof -
  have "reaches db0 (snd (complete cp env ref (se_epoch s) (se_accepted s) actor ''expired'' (cx_others env 0 db)))"
    using assms by (blast intro: complete_reaches plays_then)
  then show ?thesis by (auto simp: expire_sealed_def split: prod.splits sum.splits)
qed

lemma ExpireGrace_reaches:
  assumes "plays_along (cx_others env)" and "reaches db0 db"
  shows "reaches db0 (snd (ExpireGrace cp env ref actor_id iid now db))"
proof -
  have "RecordInterruption s c d a iid now (cx_others env 12 (cx_others env 11 (cx_others env 10 db))) = Inr (r, db1)
      \<Longrightarrow> reaches db0 (snd (expire_sealed cp env ref s a db1))" for s c d a r db1
    using assms by (blast intro: expire_sealed_reaches transactions_then(6) plays_then)
  with assms show ?thesis
    by (auto simp: ExpireGrace_def Let_def plays_then expire_sealed_reaches split: sum.splits prod.splits)
qed

lemma MarkReady_reaches:
  assumes "\<forall>db. reaches db (ma_before att db)" and "\<forall>db. reaches db (ma_between att db)" and "reaches db0 db"
  shows "reaches db0 (snd (MarkReady ref actor_id result att db))"
proof -
  have before: "reaches db0 (ma_before att db)" and between: "reaches db0 (ma_between att (ma_before att db))"
    using assms by (meson rtranclp_trans)+
  then show ?thesis
    by (auto simp: MarkReady_def Let_def split: sum.splits prod.splits intro: transactions_then(2))
qed

lemma MarkFailed_reaches:
  assumes "\<forall>db. reaches db (ma_before att db)" and "\<forall>db. reaches db (ma_between att db)" and "reaches db0 db"
  shows "reaches db0 (snd (MarkFailed ref actor_id code att db))"
proof -
  have before: "reaches db0 (ma_before att db)" and between: "reaches db0 (ma_between att (ma_before att db))"
    using assms by (meson rtranclp_trans)+
  then show ?thesis
    by (auto simp: MarkFailed_def Let_def split: sum.splits prod.splits intro: transactions_then(2))
qed

lemma link_retake_reaches:
  assumes "\<forall>n w. reaches (fst w) (fst (re_others env n w))" and "reaches db0 (fst w)"
  shows "reaches db0 (fst (snd (link_retake env parent q child actor w)))"
proof -
  have o: "reaches db0 (fst v) \<Longrightarrow> re_others env n v = (db, redos) \<Longrightarrow> reaches db0 db" for n v db redos
    using assms(1) by (metis fst_conv rtranclp_trans)
  obtain db redos where w2: "re_others env 2 w = (db, redos)" by (cases "re_others env 2 w")
  have r2: "reaches db0 db" by (rule o [OF assms(2) w2])
  show ?thesis
  proof (cases "Create child actor (re_event env) (re_now env) db")
    case (Inr db1)
    obtain db2 redos2 where w3: "re_others env 3 (db1, redos) = (db2, redos2)" by (cases "re_others env 3 (db1, redos)")
    have "reaches db0 (fst (db1, redos))" using transactions_then(1) [OF Inr r2] by simp
    from o [OF this w3] have r3: "reaches db0 db2" .
    moreover have "reaches db0 db4" if "re_others env 4 (db2, redos3) = (db4, redos4)" for redos3 db4 redos4
      using o [of "(db2, redos3)"] r3 that by simp
    ultimately show ?thesis
      by (auto simp: link_retake_def w2 Inr w3 split: option.splits sum.splits prod.splits)
  qed (use r2 w2 in \<open>simp add: link_retake_def\<close>)
qed

lemma CreateRedo_reaches:
  assumes "\<forall>n w. reaches (fst w) (fst (re_others env n w))" and "reaches db0 (fst w)"
  shows "reaches db0 (fst (snd (CreateRedo codec env parent q actor w)))"
proof -
  have w1: "reaches db0 (fst (re_others env 1 w))" using assms by (meson rtranclp_trans)
  with assms show ?thesis
    by (auto simp: CreateRedo_def intro!: link_retake_reaches split: option.splits sum.splits)
qed

lemma start_tracks_reaches:
  assumes "\<forall>track db. reaches db (tt_before (turn track) db) \<and> reaches db (tt_meanwhile (turn track) db)" and "reaches db0 db"
  shows "reaches db0 (snd (snd (start_tracks stale s tracks turn db)))"
  using assms(2)
proof (induction tracks arbitrary: db)
  case (Cons track tracks)
  let ?db = "tt_before (turn track) db"
  have before: "reaches db0 ?db" using assms(1) Cons.prems by (meson rtranclp_trans)
  show ?case
  proof (cases "trackKey s track")
    case (Inr key)
    show ?thesis
    proof (cases "claimTrack s track key stale (tt_now (turn track)) ?db")
      case claim: (Inr p)
      obtain won db1 where p: "p = (won, db1)" by (cases p)
      have r1: "reaches db0 db1" by (rule claimTrack_then [OF claim [unfolded p] before])
      let ?db2 = "tt_meanwhile (turn track) db1"
      have r2: "reaches db0 ?db2" using assms(1) r1 by (meson rtranclp_trans)
      show ?thesis
      proof (cases "won")
        case won: True
        show ?thesis
        proof (cases "tt_answer (turn track)")
          case None
          then show ?thesis using Inr claim p won r2
            by (auto simp: Let_def split: sum.split intro: transactions_then(8))
        next
          case (Some egress)
          show ?thesis
          proof (cases "recordEgress s track egress ?db2")
            case rec: (Inr db3)
            from Cons.IH [OF transactions_then(9) [OF rec r2]] Some Inr claim p won rec
            show ?thesis by (auto simp: Let_def split: prod.split)
          qed (use Some Inr claim p won r2 in \<open>simp add: Let_def\<close>)
        qed
      qed (use Inr claim p Cons.IH [OF r1] in simp)
    qed (use Inr before in simp)
  qed (use Cons.prems in simp)
qed simp

section \<open>The audit trail is the history\<close>

text \<open>A command of the interview context, run to its answer, with others at work between its transactions.\<close>

inductive command_step :: "interview_db \<Rightarrow> interview_db \<Rightarrow> bool" where
  creating: "Create s actor eid now db = Inr db' \<Longrightarrow> command_step db db'"
| composing: "\<forall>db. reaches db (ma_before att db) \<and> reaches db (ma_between att db) \<Longrightarrow>
    db' = snd (MarkReady ref actor_id result att db) \<Longrightarrow> command_step db db'"
| failing: "\<forall>db. reaches db (ma_before att db) \<and> reaches db (ma_between att db) \<Longrightarrow>
    db' = snd (MarkFailed ref actor_id code att db) \<Longrightarrow> command_step db db'"
| starting: "plays_along (ce_others env) \<Longrightarrow>
    db' = fst (snd (Start ledgerPort_ReserveStart grants env ref db l)) \<Longrightarrow> command_step db db'"
| ingesting: "\<forall>n db. reaches db (snd (snd (fenv n)) db) \<Longrightarrow>
    db' = snd (ingest ref epoch events assign iid now fenv db) \<Longrightarrow> command_step db db'"
| resuming: "plays_along (ce_others env) \<Longrightarrow> db' = snd (Resume grants env ref db) \<Longrightarrow> command_step db db'"
| expiring: "plays_along (cx_others cenv) \<Longrightarrow> db' = snd (ExpireGrace cp cenv ref actor_id i now db) \<Longrightarrow> command_step db db'"
| completing: "plays_along (cx_others cenv) \<Longrightarrow> db' = snd (Complete cp cenv ref epoch q db) \<Longrightarrow> command_step db db'"
| recording: "\<forall>track db. reaches db (tt_before (turn track) db) \<and> reaches db (tt_meanwhile (turn track) db) \<Longrightarrow>
    db' = snd (snd (StartRecording s turn db)) \<Longrightarrow> command_step db db'"
| retaking: "\<forall>n w. reaches (fst w) (fst (re_others renv n w)) \<Longrightarrow>
    db' = fst (snd (CreateRedo codec renv s q actor (db, redos))) \<Longrightarrow> command_step db db'"
| reviewing: "Transition s to ef actor eid now db = Inr (s', db') \<Longrightarrow> command_step db db'"

lemma command_reaches: "command_step db db' \<Longrightarrow> reaches db db'"
proof (induction rule: command_step.induct)
  case (creating s actor eid now db db')
  then show ?case by (blast intro: created)
next
  case (composing att db' ref actor_id result db)
  then show ?case using MarkReady_reaches [of att db db] by blast
next
  case (failing att db' ref actor_id code db)
  then show ?case using MarkFailed_reaches [of att db db] by blast
next
  case (starting env db' grants ref db l)
  then show ?case using Start_reaches [of env db db ledgerPort_ReserveStart grants ref l] by simp
next
  case (ingesting fenv db' ref epoch events assign iid now db)
  then show ?case using ingest_reaches [of fenv db db] by blast
next
  case (resuming env db' grants ref db)
  then show ?case using Resume_reaches [of env db db] by blast
next
  case (expiring cenv db' cp ref actor_id i now db)
  then show ?case using ExpireGrace_reaches [of cenv db db] by blast
next
  case (completing cenv db' cp ref epoch q db)
  then show ?case using complete_reaches [of cenv db db] by (simp add: Complete_def)
next
  case (recording turn db' s db)
  then show ?case using start_tracks_reaches [of turn db db] by (simp add: StartRecording_def)
next
  case (retaking renv db' codec s q actor db redos)
  then show ?case using CreateRedo_reaches [of renv db "(db, redos)"] by simp
next
  case (reviewing s to ef actor eid now db s' db')
  then show ?case by (blast intro: moved)
qed

lemma commands_reach: "command_step\<^sup>*\<^sup>* db db' \<Longrightarrow> reaches db db'"
  by (induction rule: rtranclp_induct) (auto dest: command_reaches intro: rtranclp_trans)

text \<open>C2: The audit trail is the history.  Whatever commands have run since the context was empty, in whatever
  order and with whatever interleaving of their transactions, the moves the audit trail attributes to a
  session form a legal path of the lifecycle from draft to the state its row is in, one for each of its
  versions after the first, and that path has passed the stations every session in that state must have
  passed; no identifier names two sessions.\<close>

theorem audit_trail_is_the_history:
  assumes "command_step\<^sup>*\<^sup>* db0 db" and "db_sessions db0 = []" and "db_audit db0 = []"
  shows "sessions_keyed db \<and> (\<forall>s \<in> set (db_sessions db).
      session.walk StateDraft (trail (se_id s) db) \<and> last (StateDraft # trail (se_id s) db) = se_state s
    \<and> se_version s = 1 + int (length (trail (se_id s) db))
    \<and> subseq (Session_Machine.passed (se_state s)) (StateDraft # trail (se_id s) db))"
proof -
  have "trails_agree db0" and h0: "histories db0 = (\<lambda>_. None)"
    using assms(2,3) by (auto simp: trails_agree_def lives_def histories_def)
  from steps_agree [OF commands_reach [OF assms(1)] this(1)]
  have agree: "trails_agree db" and "lifecycle_step\<^sup>*\<^sup>* (histories db0) (histories db)" by blast+
  from lifecycle_steps_legal [OF this(2)] have legal: "legal_histories (histories db)"
    by (simp add: h0 legal_histories_def)
  show ?thesis
  proof (intro conjI ballI)
    show "sessions_keyed db" by (rule trails_agree_keyed [OF agree])
    fix s assume s: "s \<in> set (db_sessions db)"
    then have "histories db (se_id s) = Some (StateDraft # trail (se_id s) db)"
      unfolding histories_def ids_lives by simp
    with legal show w: "session.walk StateDraft (trail (se_id s) db)" by (auto simp: legal_histories_def)
    from trails_agree_row [OF agree s] show l: "last (StateDraft # trail (se_id s) db) = se_state s"
      and "se_version s = 1 + int (length (trail (se_id s) db))" by blast+
    show "subseq (Session_Machine.passed (se_state s)) (StateDraft # trail (se_id s) db)"
      using session.milestones [OF w] l by simp
  qed
qed

section \<open>A session of the example\<close>

abbreviation ex_created :: "interview_error + interview_db" where
  "ex_created \<equiv> Create ex_session ex_actor ''e0'' 5 empty_db"

abbreviation ex_composing :: "interview_error + session \<times> interview_db" where
  "ex_composing \<equiv> bindE ex_created (Transition (draft_row 5 ex_session) StateComposing no_effects ex_actor ''e1'' 9)"

theorem interview_refines_lifecycle_witness:
  "\<exists>db1 s db2. ex_created = Inr db1 \<and> ex_composing = Inr (s, db2) \<and> histories db1 ''s1'' = Some [StateDraft]
     \<and> histories db2 ''s1'' = Some [StateDraft, StateComposing] \<and> trails_agree db2"
proof -
  have ok: "is_ok ex_created" "is_ok ex_composing" by code_simp+
  then obtain db1 where c: "ex_created = Inr db1" by (auto simp: is_ok_iff)
  from ok(2) obtain s db2 where t: "ex_composing = Inr (s, db2)" by (metis is_ok_iff prod.collapse)
  with c have tr: "Transition (draft_row 5 ex_session) StateComposing no_effects ex_actor ''e1'' 9 db1 = Inr (s, db2)"
    by simp
  have "trails_agree empty_db" by (simp add: trails_agree_def lives_def empty_db_def)
  from interview_refines_lifecycle [OF created [OF c] this] have a1: "trails_agree db1" ..
  from interview_refines_lifecycle [OF moved [OF tr] a1] have a2: "trails_agree db2" ..
  have h: "map_sum id (\<lambda>db. histories db ''s1'') ex_created = Inr (Some [StateDraft])"
    "map_sum id (\<lambda>(s, db). histories db ''s1'') ex_composing = Inr (Some [StateDraft, StateComposing])" by code_simp+
  from h c t have "histories db1 ''s1'' = Some [StateDraft]" "histories db2 ''s1'' = Some [StateDraft, StateComposing]" by simp_all
  with c t a2 show ?thesis by blast
qed

theorem audit_trail_is_the_history_witness:
  "\<exists>s db. ex_composing = Inr (s, db) \<and> trail ''s1'' db = [StateComposing] \<and> session.walk StateDraft [StateComposing]
     \<and> sessions_keyed db"
proof -
  have ok: "is_ok ex_created" "is_ok ex_composing" by code_simp+
  then obtain db1 where c: "ex_created = Inr db1" by (auto simp: is_ok_iff)
  from ok(2) obtain s db where t: "ex_composing = Inr (s, db)" by (metis is_ok_iff prod.collapse)
  with c have tr: "Transition (draft_row 5 ex_session) StateComposing no_effects ex_actor ''e1'' 9 db1 = Inr (s, db)"
    by simp
  have run: "command_step\<^sup>*\<^sup>* empty_db db"
    using creating [OF c] reviewing [OF tr] by (meson r_into_rtranclp rtranclp.rtrancl_into_rtrancl)
  have empty: "db_sessions empty_db = []" "db_audit empty_db = []" by (simp_all add: empty_db_def)
  have h: "map_sum id (\<lambda>(s, db). (trail ''s1'' db, map se_id (db_sessions db))) ex_composing = Inr ([StateComposing], [''s1''])"
    by code_simp
  with t have trail: "trail ''s1'' db = [StateComposing]" and ids: "map se_id (db_sessions db) = [''s1'']" by simp_all
  then obtain r where "r \<in> set (db_sessions db)" "se_id r = ''s1''" by (cases "db_sessions db") auto
  with audit_trail_is_the_history [OF run empty] trail t show ?thesis by fastforce
qed

end
