(* ===== verification/Content_Loader.thy ===== *)
theory Content_Loader
  imports Content_Registry
begin

text \<open>
  \<open>services/platform/internal/content/loader.go\<close>: the publishing tool for git-authored artifacts.  A file is
  an envelope; the walk of the directory gives the files in path order; decoding an envelope and validating a
  body of a type are arguments, as are the two principals.  Each file is drafted, walked through the registry's
  own lifecycle and published, every step its own transaction.
\<close>

record envelope =
  el_type :: string
  el_reference :: string
  el_version :: string
  el_schema :: string
  el_body :: body

record loader =
  ld_decode :: "string \<Rightarrow> envelope option"
  ld_validators :: "string \<Rightarrow> (body \<Rightarrow> bool) option"
  ld_digest :: digester
  ld_author :: string
  ld_publisher :: string

datatype load_action = FilePublished | FileUnchanged

record load_outcome =
  lo_reference :: string
  lo_version :: string
  lo_action :: load_action

datatype load_error =
    EnvelopeUndecodable
  | EnvelopeIncomplete
  | ValidationRefused
  | ArtifactMutated
  | LoadStoreError content_error

definition outcome_of :: "envelope \<Rightarrow> load_action \<Rightarrow> load_outcome" where
  "outcome_of e action = \<lparr>lo_reference = el_reference e, lo_version = el_version e, lo_action = action\<rparr>"

definition draft_of :: "loader \<Rightarrow> envelope \<Rightarrow> artifact_draft" where
  "draft_of ld e = \<lparr>da_type = el_type e, da_reference = el_reference e, da_version = el_version e, da_schema = el_schema e,
     da_body = el_body e, da_tenant = '''', da_created_by = ld_author ld\<rparr>"

definition publish_file ::
  "loader \<Rightarrow> string \<Rightarrow> time \<Rightarrow> envelope \<Rightarrow> registry \<Rightarrow> (load_error + load_outcome) \<times> registry" where
  "publish_file ld i now e db =
     (case walk (ld_digest ld) i now (draft_of ld e) (ld_publisher ld) db of
        (Inl err, db') \<Rightarrow> (Inl (LoadStoreError err), db')
      | (Inr a, db') \<Rightarrow> (Inr (outcome_of e FilePublished), db'))"

definition load_file ::
  "loader \<Rightarrow> string \<Rightarrow> time \<Rightarrow> string \<Rightarrow> registry \<Rightarrow> (load_error + load_outcome) \<times> registry" where
  "load_file ld i now raw db =
     (case ld_decode ld raw of
        None \<Rightarrow> (Inl EnvelopeUndecodable, db)
      | Some e \<Rightarrow>
          (if el_type e = '''' \<or> el_reference e = '''' \<or> el_version e = '''' \<or> el_schema e = ''''
           then (Inl EnvelopeIncomplete, db)
           else if (case ld_validators ld (el_type e) of Some valid \<Rightarrow> \<not> valid (el_body e) | None \<Rightarrow> False)
           then (Inl ValidationRefused, db)
           else (case ld_digest ld (el_body e) of
              None \<Rightarrow> (Inl (LoadStoreError BodyUndecodable), db)
            | Some digest \<Rightarrow>
                (case Resolve (el_reference e) '''' db of
                   Inr current \<Rightarrow>
                     (if aa_version current = el_version e
                      then (if aa_digest current \<noteq> digest then (Inl ArtifactMutated, db)
                            else (Inr (outcome_of e FileUnchanged), db))
                      else publish_file ld i now e db)
                 | Inl err \<Rightarrow>
                     (if err \<noteq> ArtifactNotFound then (Inl (LoadStoreError err), db)
                      else publish_file ld i now e db)))))"

text \<open>The files in path order; the first that fails stops the run, and what came before it stands.\<close>

fun load_files ::
  "loader \<Rightarrow> (string \<Rightarrow> string) \<Rightarrow> time \<Rightarrow> (string \<times> string) list \<Rightarrow> registry
     \<Rightarrow> load_outcome list \<times> load_error option \<times> registry" where
  "load_files ld ids now [] db = ([], None, db)"
| "load_files ld ids now ((path, raw) # rest) db =
     (case load_file ld (ids path) now raw db of
        (Inl e, db') \<Rightarrow> ([], Some e, db')
      | (Inr out, db') \<Rightarrow>
          (case load_files ld ids now rest db' of (outs, e, db'') \<Rightarrow> (out # outs, e, db'')))"

definition LoadDirectory ::
  "loader \<Rightarrow> (string \<Rightarrow> string) \<Rightarrow> time \<Rightarrow> (string \<times> string) list \<Rightarrow> registry
     \<Rightarrow> load_outcome list \<times> load_error option \<times> registry" where
  "LoadDirectory ld ids now files db =
     load_files ld ids now (sort_key fst (filter (\<lambda>f. suffix ''.json'' (fst f)) files)) db"

section \<open>What publishing a file does\<close>

lemma GetArtifact_last:
  assumes "i \<notin> aa_id ` set as" and "xr_artifacts db = as @ [r]" and "aa_id r = i" and "artifact_visible tenant r"
  shows "GetArtifact tenant i db = Some r"
proof -
  have "find (\<lambda>a. artifact_visible tenant a \<and> aa_id a = i) as = None" using assms(1) by (auto simp: find_None_iff)
  then have "find (\<lambda>a. artifact_visible tenant a \<and> aa_id a = i) (as @ [r]) = Some r"
    using assms(3,4) by (induction as) (auto split: if_splits)
  then show ?thesis using assms(2) by (simp add: GetArtifact_def find_artifact_def)
qed

lemma guarded_update_last:
  assumes "i \<notin> aa_id ` set as" and "xr_artifacts db = as @ [r]" and "aa_id r = i" and "artifact_visible tenant r"
  shows "aa_status r = st \<Longrightarrow> guarded_update tenant i st f db = (1, db\<lparr>xr_artifacts := as @ [f r]\<rparr>)"
proof -
  assume st: "aa_status r = st"
  have "filter (\<lambda>a. artifact_visible tenant a \<and> aa_id a = i \<and> aa_status a = st) as = []"
    using assms(1) by (auto simp: filter_empty_conv)
  moreover have "map (\<lambda>a. if artifact_visible tenant a \<and> aa_id a = i \<and> aa_status a = st then f a else a) as = as"
    using assms(1) by (intro map_idI) auto
  ultimately show ?thesis using assms st by (simp add: guarded_update_def)
qed

text \<open>A file that is published leaves one more version, published, and its reference pointing at it.\<close>

definition published_row :: "loader \<Rightarrow> string \<Rightarrow> time \<Rightarrow> envelope \<Rightarrow> string \<Rightarrow> artifact" where
  "published_row ld i now e digest =
     (drafted i now digest (draft_of ld e))\<lparr>aa_status := ArtifactPublished, aa_published_by := ld_publisher ld,
        aa_published_at := Some now\<rparr>"

lemma platform_scope [simp]: "in_content_scope '''' r = r"
  by (simp add: in_content_scope_def)

lemma walk_platform:
  assumes "walk (ld_digest ld) i now (draft_of ld e) (ld_publisher ld) db = (Inr a, db')"
  shows "\<exists>digest. ld_digest ld (el_body e) = Some digest \<and> i \<notin> aa_id ` set (xr_artifacts db)
    \<and> ld_publisher ld \<noteq> ld_author ld
    \<and> db' = InsertAuditEvent (audited '''' (ld_publisher ld) ''content.artifact_published'' i now)
        (UpsertPointer (repointed (el_reference e) '''' i (ld_publisher ld) now)
          (db\<lparr>xr_artifacts := xr_artifacts db @ [published_row ld i now e digest]\<rparr>))"
proof -
  let ?d = "draft_of ld e"
  from assms obtain b db1 where c: "CreateDraftArtifact (ld_digest ld) i now ?d db = (Inr b, db1)"
    by (auto simp: walk_def split: prod.splits sum.splits)
  then obtain digest where dg: "ld_digest ld (el_body e) = Some digest"
    and ins: "InsertArtifact '''' (drafted i now digest ?d) db = Inr db1"
    by (auto simp: CreateDraftArtifact_def draft_of_def then_read_def split: option.splits sum.splits)
  let ?r = "drafted i now digest ?d"
  from ins have db1: "db1 = db\<lparr>xr_artifacts := xr_artifacts db @ [?r]\<rparr>" and fresh: "i \<notin> aa_id ` set (xr_artifacts db)"
    by (auto simp: InsertArtifact_def drafted_def split: if_splits)
  have r: "aa_id ?r = i" "aa_tenant ?r = ''''" "aa_status ?r = ArtifactDraft" "aa_created_by ?r = ld_author ld"
    "aa_reference ?r = el_reference e"
    by (simp_all add: drafted_def draft_of_def)
  note last = GetArtifact_last [OF fresh] guarded_update_last [OF fresh]
  have b: "b = ?r" using c dg ins last(1) [of db1 ?r "''''"] r
    by (auto simp: CreateDraftArtifact_def draft_of_def then_read_def Get_artifact_def some_artifact_def db1 artifact_visible_def)
  let ?s = "?r\<lparr>aa_status := ArtifactValidating\<rparr>" and ?u = "?r\<lparr>aa_status := ArtifactApproved\<rparr>"
  have t1: "TransitionTo b ArtifactValidating db1 = (Inr ?s, db\<lparr>xr_artifacts := xr_artifacts db @ [?s]\<rparr>)"
    using r last(1) [of "db\<lparr>xr_artifacts := xr_artifacts db @ [?s]\<rparr>" ?s "''''"] last(2) [of db1 ?r "''''" ArtifactDraft]
    by (simp add: b db1 TransitionTo_def TransitionArtifact_def artifact_can_move_def artifact_transitions_def then_read_def
        moved_one_def Get_artifact_def some_artifact_def artifact_visible_def)
  have t2: "TransitionTo ?s ArtifactApproved (db\<lparr>xr_artifacts := xr_artifacts db @ [?s]\<rparr>)
      = (Inr ?u, db\<lparr>xr_artifacts := xr_artifacts db @ [?u]\<rparr>)"
    using r last(1) [of "db\<lparr>xr_artifacts := xr_artifacts db @ [?u]\<rparr>" ?u "''''"]
      last(2) [of "db\<lparr>xr_artifacts := xr_artifacts db @ [?s]\<rparr>" ?s "''''" ArtifactValidating]
    by (simp add: TransitionTo_def TransitionArtifact_def artifact_can_move_def artifact_transitions_def then_read_def
        moved_one_def Get_artifact_def some_artifact_def artifact_visible_def)
  from assms have p: "PublishArtifact ?u (ld_publisher ld) now (db\<lparr>xr_artifacts := xr_artifacts db @ [?u]\<rparr>) = (Inr a, db')"
    by (simp add: walk_def c t1 t2)
  have m: "MarkPublished '''' i (ld_publisher ld) now (db\<lparr>xr_artifacts := xr_artifacts db @ [?u]\<rparr>)
      = (1, db\<lparr>xr_artifacts := xr_artifacts db @ [published_row ld i now e digest]\<rparr>)"
    using r last(2) [of "db\<lparr>xr_artifacts := xr_artifacts db @ [?u]\<rparr>" ?u "''''" ArtifactApproved]
    by (simp add: MarkPublished_def artifact_visible_def published_row_def)
  from p r m have "ld_publisher ld \<noteq> ld_author ld
    \<and> db' = InsertAuditEvent (audited '''' (ld_publisher ld) ''content.artifact_published'' i now)
        (UpsertPointer (repointed (el_reference e) '''' i (ld_publisher ld) now)
          (db\<lparr>xr_artifacts := xr_artifacts db @ [published_row ld i now e digest]\<rparr>))"
    by (auto simp: PublishArtifact_def then_read_def moved_one_def in_acting_scope_def split: if_splits)
  with dg fresh show ?thesis by blast
qed

text \<open>A platform version that its reference's platform pointer names.\<close>

definition in_place :: "string \<Rightarrow> string \<Rightarrow> string \<Rightarrow> registry \<Rightarrow> bool" where
  "in_place ref version digest db \<longleftrightarrow>
     (\<exists>p \<in> set (xr_pointers db). \<exists>a \<in> set (xr_artifacts db).
        po_tenant p = '''' \<and> po_reference p = ref \<and> po_artifact p = aa_id a \<and> aa_tenant a = ''''
        \<and> aa_version a = version \<and> aa_digest a = digest)"

text \<open>What loading needs of the registry, and keeps: identifiers, and the pointers' keys, are not repeated.\<close>

definition keys_ok :: "registry \<Rightarrow> bool" where
  "keys_ok db \<longleftrightarrow> distinct (map aa_id (xr_artifacts db)) \<and> distinct (map pointer_key (xr_pointers db))"

lemma registry_ok_keys: "registry_ok dg db \<Longrightarrow> keys_ok db"
  by (simp add: registry_ok_def keys_ok_def)

lemma Resolve_in_place:
  assumes ok: "keys_ok db" and inp: "in_place ref version digest db"
  shows "\<exists>a. Resolve ref '''' db = Inr a \<and> aa_version a = version \<and> aa_digest a = digest"
proof -
  from inp obtain p a where p: "p \<in> set (xr_pointers db)" "po_tenant p = ''''" "po_reference p = ref" "po_artifact p = aa_id a"
    and a: "a \<in> set (xr_artifacts db)" "aa_tenant a = ''''" "aa_version a = version" "aa_digest a = digest"
    by (auto simp: in_place_def)
  have mem: "(p, a) \<in> set (pointed '''' ref db)" using p a by (auto simp: pointed_def artifact_visible_def)
  have only: "x = (p, a)" if "x \<in> set (pointed '''' ref db)" for x
  proof -
    from that obtain q b where x: "x = (q, b)" "q \<in> set (xr_pointers db)" "po_reference q = ref" "po_tenant q = ''''"
      "b \<in> set (xr_artifacts db)" "aa_id b = po_artifact q" by (auto simp: pointed_def)
    with p ok have "q = p" by (auto simp: keys_ok_def distinct_map inj_on_def pointer_key_def)
    with x p a ok have "b = a" by (auto simp: keys_ok_def distinct_map inj_on_def)
    with \<open>q = p\<close> x show ?thesis by simp
  qed
  have "find (\<lambda>(p, a). po_tenant p \<noteq> '''') (pointed '''' ref db) = None"
    using only p by (auto simp: find_None_iff)
  moreover have "map_option snd (find (\<lambda>_. True) (pointed '''' ref db)) = Some a"
    using mem only [of "hd (pointed '''' ref db)"] by (cases "pointed '''' ref db") auto
  ultimately have "ResolvePointer '''' ref db = Some a" by (simp add: ResolvePointer_def)
  with a show ?thesis by (simp add: Resolve_def some_artifact_def)
qed

lemma publish_step:
  assumes ok: "keys_ok db" and fresh: "aa_id r \<notin> aa_id ` set (xr_artifacts db)" and r: "aa_tenant r = ''''"
    and db': "db' = InsertAuditEvent ev (UpsertPointer (repointed ref '''' (aa_id r) actor now)
      (db\<lparr>xr_artifacts := xr_artifacts db @ [r]\<rparr>))"
  shows "keys_ok db' \<and> in_place ref (aa_version r) (aa_digest r) db'
    \<and> (ref' \<noteq> ref \<longrightarrow> in_place ref' v d db \<longrightarrow> in_place ref' v d db')"
proof -
  let ?p = "repointed ref '''' (aa_id r) actor now"
  let ?same = "\<lambda>q. po_tenant q = po_tenant ?p \<and> po_reference q = po_reference ?p"
  let ?f = "\<lambda>q. if ?same q then q\<lparr>po_artifact := po_artifact ?p, po_updated_by := po_updated_by ?p, po_updated_at := po_updated_at ?p\<rparr> else q"
  have arts: "xr_artifacts db' = xr_artifacts db @ [r]" by (simp add: db')
  have ps: "xr_pointers db' = (if \<exists>q \<in> set (xr_pointers db). ?same q then map ?f (xr_pointers db) else xr_pointers db @ [?p])"
    by (simp add: db' UpsertPointer_def)
  have keys: "map pointer_key (map ?f (xr_pointers db)) = map pointer_key (xr_pointers db)"
    by (auto simp: pointer_key_def)
  have "distinct (map pointer_key (xr_pointers db'))"
  proof (cases "\<exists>q \<in> set (xr_pointers db). ?same q")
    case True
    with ok keys show ?thesis unfolding ps keys_ok_def by (simp del: map_map)
  next
    case False
    then have "pointer_key ?p \<notin> pointer_key ` set (xr_pointers db)" by (force simp: pointer_key_def)
    moreover from False have "xr_pointers db' = xr_pointers db @ [?p]" unfolding ps by (rule if_not_P)
    ultimately show ?thesis using ok by (simp add: keys_ok_def)
  qed
  then have 1: "keys_ok db'" using ok fresh by (simp add: keys_ok_def arts)
  have "\<exists>q \<in> set (xr_pointers db'). po_tenant q = '''' \<and> po_reference q = ref \<and> po_artifact q = aa_id r"
  proof (cases "\<exists>q \<in> set (xr_pointers db). ?same q")
    case True
    then obtain q where q: "q \<in> set (xr_pointers db)" "?same q" by blast
    from True have "xr_pointers db' = map ?f (xr_pointers db)" unfolding ps by (rule if_P)
    with q(1) have "?f q \<in> set (xr_pointers db')" by (simp only: set_map) (rule imageI)
    moreover have "po_tenant (?f q) = '''' \<and> po_reference (?f q) = ref \<and> po_artifact (?f q) = aa_id r"
      using q(2) by (simp add: repointed_def)
    ultimately show ?thesis by blast
  next
    case False
    then have "xr_pointers db' = xr_pointers db @ [?p]" unfolding ps by (rule if_not_P)
    then have "?p \<in> set (xr_pointers db')" by simp
    then show ?thesis by (intro bexI [of _ ?p]) (simp_all add: repointed_def)
  qed
  then have 2: "in_place ref (aa_version r) (aa_digest r) db'" unfolding in_place_def arts using r by auto
  have 3: "in_place ref' v d db'" if ne: "ref' \<noteq> ref" and old: "in_place ref' v d db"
  proof -
    from old obtain q a where q: "q \<in> set (xr_pointers db)" "po_tenant q = ''''" "po_reference q = ref'" "po_artifact q = aa_id a"
      and a: "a \<in> set (xr_artifacts db)" "aa_tenant a = ''''" "aa_version a = v" "aa_digest a = d"
      by (auto simp: in_place_def)
    have "?f q = q" using q ne by (simp add: repointed_def)
    then have "q \<in> set (map ?f (xr_pointers db))" using imageI [OF q(1), of ?f] by (simp only: set_map)
    then have "q \<in> set (xr_pointers db')" unfolding ps using q(1) by simp
    with q a show ?thesis unfolding in_place_def arts by (intro bexI [of _ q] bexI [of _ a]) auto
  qed
  show ?thesis using 1 2 3 by blast
qed

text \<open>A file that loads is in place afterwards, and the other references are where they were.\<close>

lemma load_file_in_place:
  assumes ok: "keys_ok db" and l: "load_file ld i now raw db = (Inr out, db')"
  shows "\<exists>e digest. ld_decode ld raw = Some e \<and> ld_digest ld (el_body e) = Some digest \<and> keys_ok db'
    \<and> in_place (el_reference e) (el_version e) digest db'
    \<and> (\<forall>ref v d. ref \<noteq> el_reference e \<longrightarrow> in_place ref v d db \<longrightarrow> in_place ref v d db')"
proof -
  from l obtain e digest where e: "ld_decode ld raw = Some e" and dg: "ld_digest ld (el_body e) = Some digest"
    by (auto simp: load_file_def split: option.splits if_splits)
  show ?thesis
  proof (cases "publish_file ld i now e db = (Inr out, db')")
    case True
    then obtain a where "walk (ld_digest ld) i now (draft_of ld e) (ld_publisher ld) db = (Inr a, db')"
      by (auto simp: publish_file_def split: prod.splits sum.splits)
    from walk_platform [OF this] dg have fresh: "i \<notin> aa_id ` set (xr_artifacts db)"
      and db': "db' = InsertAuditEvent (audited '''' (ld_publisher ld) ''content.artifact_published'' i now)
        (UpsertPointer (repointed (el_reference e) '''' i (ld_publisher ld) now)
          (db\<lparr>xr_artifacts := xr_artifacts db @ [published_row ld i now e digest]\<rparr>))" by auto
    have r: "aa_id (published_row ld i now e digest) = i" "aa_tenant (published_row ld i now e digest) = ''''"
      "aa_version (published_row ld i now e digest) = el_version e" "aa_digest (published_row ld i now e digest) = digest"
      by (simp_all add: published_row_def drafted_def draft_of_def)
    from publish_step [OF ok, of "published_row ld i now e digest"] fresh db' e dg show ?thesis unfolding r by blast
  next
    case False
    with l e dg obtain current where c: "Resolve (el_reference e) '''' db = Inr current" "aa_version current = el_version e"
      "aa_digest current = digest" and db': "db' = db"
      by (auto simp: load_file_def split: option.splits if_splits sum.splits)
    from c(1) have "ResolvePointer '''' (el_reference e) db = Some current"
      by (auto simp: Resolve_def some_artifact_def split: option.splits)
    from ResolvePointer_Some [OF this] obtain p where "p \<in> set (xr_pointers db)" "po_reference p = el_reference e"
      "po_tenant p = ''''" "current \<in> set (xr_artifacts db)" "aa_tenant current = ''''" "aa_id current = po_artifact p"
      by (auto simp: artifact_visible_def)
    with c(2,3) have "in_place (el_reference e) (el_version e) digest db"
      unfolding in_place_def by (intro bexI [of _ p] bexI [of _ current]) auto
    with ok e dg db' show ?thesis by blast
  qed
qed

text \<open>A file in place loads again as unchanged, and writes nothing.\<close>

definition envelopes :: "loader \<Rightarrow> (string \<times> string) list \<Rightarrow> envelope list" where
  "envelopes ld files = map (\<lambda>f. the (ld_decode ld (snd f))) files"

lemma load_file_unchanged:
  assumes ok: "keys_ok db" and e: "ld_decode ld raw = Some e" and dg: "ld_digest ld (el_body e) = Some digest"
    and inp: "in_place (el_reference e) (el_version e) digest db"
    and accepted: "load_file ld i now raw db0 = (Inr out, db1)"
  shows "load_file ld i' now' raw db = (Inr (outcome_of e FileUnchanged), db)"
  using accepted e dg Resolve_in_place [OF ok inp]
  by (auto simp: load_file_def split: option.splits if_splits)

lemma load_files_in_place:
  assumes "keys_ok db" and "load_files ld ids now files db = (outs, None, db')"
    and "distinct (map el_reference (envelopes ld files))"
  shows "keys_ok db' \<and> (\<forall>ref v d. ref \<notin> el_reference ` set (envelopes ld files) \<longrightarrow> in_place ref v d db \<longrightarrow> in_place ref v d db')
    \<and> (\<forall>f \<in> set files. \<exists>e digest i db0 db1 out. ld_decode ld (snd f) = Some e \<and> ld_digest ld (el_body e) = Some digest
        \<and> in_place (el_reference e) (el_version e) digest db' \<and> load_file ld i now (snd f) db0 = (Inr out, db1))"
  using assms
proof (induction files arbitrary: db outs)
  case (Cons f rest)
  obtain path raw where f: "f = (path, raw)" by (cases f)
  from Cons.prems(2) obtain out db1 outs' where l: "load_file ld (ids path) now raw db = (Inr out, db1)"
    and rest: "load_files ld ids now rest db1 = (outs', None, db')"
    by (auto simp: f split: prod.splits sum.splits)
  from load_file_in_place [OF Cons.prems(1) l] obtain e digest where e: "ld_decode ld raw = Some e"
    "ld_digest ld (el_body e) = Some digest" and ok1: "keys_ok db1"
    and inp: "in_place (el_reference e) (el_version e) digest db1"
    and keep: "\<And>ref v d. ref \<noteq> el_reference e \<Longrightarrow> in_place ref v d db \<Longrightarrow> in_place ref v d db1" by blast
  from Cons.prems(3) e(1) have dist: "el_reference e \<notin> el_reference ` set (envelopes ld rest)"
    "distinct (map el_reference (envelopes ld rest))" by (auto simp: f envelopes_def)
  from Cons.IH [OF ok1 rest dist(2)] dist(1) inp have "in_place (el_reference e) (el_version e) digest db'" by blast
  moreover have "in_place ref v d db'" if "ref \<notin> el_reference ` set (envelopes ld (f # rest))" "in_place ref v d db" for ref v d
    using that keep [of ref v d] Cons.IH [OF ok1 rest dist(2)] e(1) by (auto simp: f envelopes_def)
  ultimately show ?case using Cons.IH [OF ok1 rest dist(2)] e l by (auto simp: f; blast)
qed simp

lemma load_files_unchanged:
  assumes "keys_ok db"
    and "\<forall>f \<in> set files. \<exists>e digest i db0 db1 out. ld_decode ld (snd f) = Some e \<and> ld_digest ld (el_body e) = Some digest
        \<and> in_place (el_reference e) (el_version e) digest db \<and> load_file ld i now (snd f) db0 = (Inr out, db1)"
  shows "load_files ld ids now' files db = (map (\<lambda>e. outcome_of e FileUnchanged) (envelopes ld files), None, db)"
  using assms
proof (induction files)
  case (Cons f rest)
  from Cons.prems(2) obtain e digest i db0 db1 out where e: "ld_decode ld (snd f) = Some e" "ld_digest ld (el_body e) = Some digest"
    "in_place (el_reference e) (el_version e) digest db" "load_file ld i now (snd f) db0 = (Inr out, db1)" by auto
  from load_file_unchanged [OF Cons.prems(1) e] Cons.IH Cons.prems e(1) show ?case
    by (cases f) (auto simp: envelopes_def)
qed (simp add: envelopes_def)

text \<open>Loading a directory again does nothing.  When no two of its files are versions of one reference, and a
  run over a registry completes, a second run over what it left, at any time and with any identifiers, reports every
  file unchanged and leaves the registry exactly as it was.\<close>

theorem reloading_is_quiet:
  assumes "registry_ok dg db"
    and "LoadDirectory ld ids now files db = (outs, None, db')"
    and "distinct (map el_reference (envelopes ld (filter (\<lambda>f. suffix ''.json'' (fst f)) files)))"
  shows "LoadDirectory ld ids' now' files db'
    = (map (\<lambda>e. outcome_of e FileUnchanged)
         (envelopes ld (sort_key fst (filter (\<lambda>f. suffix ''.json'' (fst f)) files))), None, db')"
proof -
  let ?fs = "filter (\<lambda>f. suffix ''.json'' (fst f)) files"
  have "mset (map el_reference (envelopes ld (sort_key fst ?fs))) = mset (map el_reference (envelopes ld ?fs))"
    by (simp add: envelopes_def)
  with assms(3) have d: "distinct (map el_reference (envelopes ld (sort_key fst ?fs)))"
    using mset_eq_imp_distinct_iff by blast
  from load_files_in_place [OF registry_ok_keys [OF assms(1)] assms(2) [unfolded LoadDirectory_def] d]
  show ?thesis unfolding LoadDirectory_def by (intro load_files_unchanged) blast+
qed

definition ex_loader :: loader where
  "ex_loader = \<lparr>ld_decode = (\<lambda>raw. Some \<lparr>el_type = ''plan'', el_reference = take 1 raw, el_version = drop 1 raw,
       el_schema = ''1'', el_body = raw\<rparr>),
     ld_validators = (\<lambda>_. None), ld_digest = (\<lambda>b. Some b), ld_author = ''author'', ld_publisher = ''publisher''\<rparr>"

definition ex_files :: "(string \<times> string) list" where
  "ex_files = [(''plan/b.json'', ''b1''), (''notes.md'', ''x''), (''plan/a.json'', ''a1'')]"

theorem reloading_is_quiet_witness:
  "case LoadDirectory ex_loader id 1 ex_files empty_registry of (outs, err, db) \<Rightarrow>
     map lo_action outs = [FilePublished, FilePublished] \<and> err = None
     \<and> map lo_action (fst (LoadDirectory ex_loader rev 2 ex_files db)) = [FileUnchanged, FileUnchanged]
     \<and> snd (LoadDirectory ex_loader rev 2 ex_files db) = (None, db)"
proof -
  obtain outs err db where r: "LoadDirectory ex_loader id 1 ex_files empty_registry = (outs, err, db)" by (metis prod_cases3)
  have 1: "map lo_action (fst (LoadDirectory ex_loader id 1 ex_files empty_registry)) = [FilePublished, FilePublished]
    \<and> fst (snd (LoadDirectory ex_loader id 1 ex_files empty_registry)) = None" by code_simp
  with r have err: "err = None" by simp
  have 2: "distinct (map el_reference (envelopes ex_loader (filter (\<lambda>f. suffix ''.json'' (fst f)) ex_files)))" by code_simp
  have 3: "length (envelopes ex_loader (sort_key fst (filter (\<lambda>f. suffix ''.json'' (fst f)) ex_files))) = 2" by code_simp
  from reloading_is_quiet [OF empty_registry_ok [of ex_digester] r [unfolded err] 2, of rev 2] 1 r err 3
  show ?thesis by (auto simp: outcome_of_def numeral_2_eq_2 length_Suc_conv)
qed

text \<open>
  The run compares a file with the version its reference points at, so a directory that holds two versions of
  one reference loads once and never again: the older file is no longer current, is drafted anew, and the
  registry refuses the version it already has.
\<close>

definition ex_two_versions :: "(string \<times> string) list" where
  "ex_two_versions = [(''plan/a1.json'', ''a1''), (''plan/a2.json'', ''a2'')]"

lemma two_versions_load_only_once:
  "fst (snd (LoadDirectory ex_loader id 1 ex_two_versions empty_registry)) = None
   \<and> fst (snd (LoadDirectory ex_loader rev 2 ex_two_versions
        (snd (snd (LoadDirectory ex_loader id 1 ex_two_versions empty_registry)))))
       = Some (LoadStoreError ContentRefused)"
  by code_simp

text \<open>Nor does it finish what a run left half done: a version drafted and not yet published is refused.\<close>

lemma half_loaded_is_never_finished:
  "fst (load_file ex_loader ''n2'' 2 ''a1'' (snd (CreateDraftArtifact (ld_digest ex_loader) ''n1'' 1
      (draft_of ex_loader (the (ld_decode ex_loader ''a1''))) empty_registry)))
     = Inl (LoadStoreError ContentRefused)"
  by code_simp

end
