(* ===== verification/Rubric_Library.thy ===== *)
theory Rubric_Library
  imports Content_Registry
begin

text \<open>
  \<open>services/platform/internal/tenantadmin/rubric.go\<close>: what a workspace may do with a rubric.  The library
  reaches the artifact registry, the validator of bodies and the campaigns that use a rubric through ports; the
  registry's port is the interface \<open>Registry\<close>, a record of its operations over a state, and the validator and
  the usage port are arguments.  The port is interpreted on the registry of \<open>Content_Registry\<close>.
\<close>

record 's registry_port =
  rp_create :: "artifact_draft \<Rightarrow> 's \<Rightarrow> (content_error + artifact) \<times> 's"
  rp_get :: "string \<Rightarrow> string \<Rightarrow> 's \<Rightarrow> content_error + artifact"
  rp_transition :: "artifact \<Rightarrow> artifact_status \<Rightarrow> 's \<Rightarrow> (content_error + artifact) \<times> 's"
  rp_publish :: "artifact \<Rightarrow> string \<Rightarrow> 's \<Rightarrow> (content_error + artifact) \<times> 's"
  rp_versions :: "string \<Rightarrow> string \<Rightarrow> 's \<Rightarrow> content_error + artifact list"
  rp_list :: "string \<Rightarrow> string \<Rightarrow> 's \<Rightarrow> content_error + artifact list"
  rp_delete :: "string \<Rightarrow> string \<Rightarrow> 's \<Rightarrow> content_error + 's"

datatype rubric_error =
    RubricInvalid
  | RubricInUse string "string list"
  | RubricImmutable
  | RubricNotOwn
  | RubricNotFound
  | RegistryError content_error
  | UsageUnknown

record rubric_draft =
  dr_reference :: string
  dr_version :: string
  dr_schema :: string
  dr_body :: body

record rubric_version =
  rb_artifact :: string
  rb_reference :: string
  rb_version :: string
  rb_digest :: string
  rb_status :: artifact_status
  rb_body :: body
  rb_template :: bool
  rb_drafted_by :: string
  rb_drafted_at :: time
  rb_published_by :: string
  rb_published_at :: "time option"

definition asRubricVersion :: "artifact \<Rightarrow> rubric_version" where
  "asRubricVersion a =
     \<lparr>rb_artifact = aa_id a, rb_reference = aa_reference a, rb_version = aa_version a, rb_digest = aa_digest a,
      rb_status = aa_status a, rb_body = aa_body a, rb_template = (aa_tenant a = ''''),
      rb_drafted_by = aa_created_by a, rb_drafted_at = aa_created_at a, rb_published_by = aa_published_by a,
      rb_published_at = aa_published_at a\<rparr>"

text \<open>The registry's answer to a move, in the library's words.\<close>

definition as_version ::
  "(content_error + artifact) \<times> 's \<Rightarrow> (rubric_error + rubric_version) \<times> 's" where
  "as_version r = (case r of (Inl e, s) \<Rightarrow> (Inl (RegistryError e), s) | (Inr a, s) \<Rightarrow> (Inr (asRubricVersion a), s))"

definition rubric_Draft ::
  "'s registry_port \<Rightarrow> (body \<Rightarrow> bool) \<Rightarrow> string \<Rightarrow> string \<Rightarrow> rubric_draft \<Rightarrow> 's
     \<Rightarrow> (rubric_error + rubric_version) \<times> 's" where
  "rubric_Draft port valid tenant author d s =
     (if \<not> valid (dr_body d) then (Inl RubricInvalid, s)
      else as_version (rp_create port
        \<lparr>da_type = ''rubric'', da_reference = dr_reference d, da_version = dr_version d, da_schema = dr_schema d,
         da_body = dr_body d, da_tenant = tenant, da_created_by = author\<rparr> s))"

definition rubric_own :: "'s registry_port \<Rightarrow> string \<Rightarrow> string \<Rightarrow> 's \<Rightarrow> rubric_error + artifact" where
  "rubric_own port tenant i s =
     (case rp_get port i tenant s of
        Inl e \<Rightarrow> Inl (if e = ArtifactNotFound then RubricNotFound else RegistryError e)
      | Inr a \<Rightarrow>
          (if aa_tenant a = '''' then Inl RubricNotOwn
           else if aa_tenant a \<noteq> tenant then Inl RubricNotFound
           else Inr a))"

definition rubric_advance ::
  "'s registry_port \<Rightarrow> string \<Rightarrow> string \<Rightarrow> artifact_status \<Rightarrow> 's \<Rightarrow> (rubric_error + rubric_version) \<times> 's" where
  "rubric_advance port tenant i to s =
     (case rubric_own port tenant i s of
        Inl e \<Rightarrow> (Inl e, s)
      | Inr a \<Rightarrow> as_version (rp_transition port a to s))"

definition SubmitForApproval ::
  "'s registry_port \<Rightarrow> string \<Rightarrow> string \<Rightarrow> 's \<Rightarrow> (rubric_error + rubric_version) \<times> 's" where
  "SubmitForApproval port tenant i s = rubric_advance port tenant i ArtifactValidating s"

definition Approve ::
  "'s registry_port \<Rightarrow> string \<Rightarrow> string \<Rightarrow> 's \<Rightarrow> (rubric_error + rubric_version) \<times> 's" where
  "Approve port tenant i s = rubric_advance port tenant i ArtifactApproved s"

definition rubric_Publish ::
  "'s registry_port \<Rightarrow> string \<Rightarrow> string \<Rightarrow> string \<Rightarrow> 's \<Rightarrow> (rubric_error + rubric_version) \<times> 's" where
  "rubric_Publish port tenant publisher i s =
     (case rubric_own port tenant i s of
        Inl e \<Rightarrow> (Inl e, s)
      | Inr a \<Rightarrow> as_version (rp_publish port a publisher s))"

definition rubric_versions :: "content_error + artifact list \<Rightarrow> rubric_error + rubric_version list" where
  "rubric_versions r = (case r of Inl e \<Rightarrow> Inl (RegistryError e) | Inr as \<Rightarrow> Inr (map asRubricVersion as))"

definition History :: "'s registry_port \<Rightarrow> string \<Rightarrow> string \<Rightarrow> 's \<Rightarrow> rubric_error + rubric_version list" where
  "History port tenant reference s = rubric_versions (rp_versions port reference tenant s)"

definition rubric_List :: "'s registry_port \<Rightarrow> string \<Rightarrow> 's \<Rightarrow> rubric_error + rubric_version list" where
  "rubric_List port tenant s = rubric_versions (rp_list port ''rubric'' tenant s)"

text \<open>The campaigns' answer, \<open>None\<close> when they cannot say.\<close>

type_synonym 's usage = "string \<Rightarrow> string \<Rightarrow> 's \<Rightarrow> string list option"

definition refuseWhileInUse :: "'s usage \<Rightarrow> string \<Rightarrow> string \<Rightarrow> 's \<Rightarrow> rubric_error option" where
  "refuseWhileInUse usage tenant reference s =
     (case usage tenant reference s of
        None \<Rightarrow> Some UsageUnknown
      | Some [] \<Rightarrow> None
      | Some (c # cs) \<Rightarrow> Some (RubricInUse reference (c # cs)))"

definition DiscardDraft ::
  "'s registry_port \<Rightarrow> 's usage \<Rightarrow> string \<Rightarrow> string \<Rightarrow> 's \<Rightarrow> (rubric_error + unit) \<times> 's" where
  "DiscardDraft port usage tenant i s =
     (case rubric_own port tenant i s of
        Inl e \<Rightarrow> (Inl e, s)
      | Inr a \<Rightarrow>
          (if aa_status a \<noteq> ArtifactDraft then (Inl RubricImmutable, s)
           else (case refuseWhileInUse usage tenant (aa_reference a) s of
              Some e \<Rightarrow> (Inl e, s)
            | None \<Rightarrow>
                (case rp_delete port i tenant s of
                   Inl e \<Rightarrow> (Inl (RegistryError e), s)
                 | Inr s' \<Rightarrow> (Inr (), s')))))"

definition Retire ::
  "'s registry_port \<Rightarrow> 's usage \<Rightarrow> string \<Rightarrow> string \<Rightarrow> 's \<Rightarrow> (rubric_error + unit) \<times> 's" where
  "Retire port usage tenant i s =
     (case rubric_own port tenant i s of
        Inl e \<Rightarrow> (Inl e, s)
      | Inr a \<Rightarrow>
          (case refuseWhileInUse usage tenant (aa_reference a) s of
             Some e \<Rightarrow> (Inl e, s)
           | None \<Rightarrow>
               (case rp_transition port a ArtifactDeprecated s of
                  (Inl e, s') \<Rightarrow> (Inl (RegistryError e), s')
                | (Inr b, s') \<Rightarrow> (Inr (), s'))))"

section \<open>The port's contract\<close>

text \<open>
  What the library relies on: a read names the version asked for and is one of the versions, and an operation
  on a version leaves every other version as it was.
\<close>

locale registry_contract =
  fixes port :: "'s registry_port"
    and rows :: "'s \<Rightarrow> artifact list"
  assumes get_row: "rp_get port i tenant s = Inr a \<Longrightarrow> aa_id a = i \<and> a \<in> set (rows s)"
    and transition_local: "r \<in> set (rows s) \<Longrightarrow> aa_id r \<noteq> aa_id a \<Longrightarrow> r \<in> set (rows (snd (rp_transition port a to s)))"
    and publish_local: "r \<in> set (rows s) \<Longrightarrow> aa_id r \<noteq> aa_id a \<Longrightarrow> r \<in> set (rows (snd (rp_publish port a publisher s)))"
    and delete_local: "r \<in> set (rows s) \<Longrightarrow> aa_id r \<noteq> i \<Longrightarrow> rp_delete port i tenant s = Inr s' \<Longrightarrow> r \<in> set (rows s')"
begin

lemma own_row:
  assumes "rubric_own port tenant i s = Inr a"
  shows "a \<in> set (rows s) \<and> aa_id a = i \<and> aa_tenant a = tenant \<and> tenant \<noteq> ''''"
  using assms get_row by (fastforce simp: rubric_own_def split: sum.splits if_splits)

lemma others_rows_stay:
  assumes ids: "distinct (map aa_id (rows s))" and r: "r \<in> set (rows s)" "aa_tenant r \<noteq> tenant"
    and op: "s' \<in> {snd (SubmitForApproval port tenant i s), snd (Approve port tenant i s),
      snd (rubric_Publish port tenant publisher i s), snd (DiscardDraft port usage tenant i s),
      snd (Retire port usage tenant i s)}"
  shows "r \<in> set (rows s')"
proof -
  have other: "aa_id r \<noteq> aa_id a \<and> aa_id a = i" if "rubric_own port tenant i s = Inr a" for a
    using own_row [OF that] r ids by (auto simp: distinct_map inj_on_def)
  have t: "r \<in> set (rows (snd (as_version (rp_transition port a to s))))" if "rubric_own port tenant i s = Inr a" for a to
    using transition_local [OF r(1), of a to] other [OF that] by (auto simp: as_version_def split: prod.splits sum.splits)
  have p: "r \<in> set (rows (snd (as_version (rp_publish port a publisher s))))" if "rubric_own port tenant i s = Inr a" for a
    using publish_local [OF r(1), of a publisher] other [OF that] by (auto simp: as_version_def split: prod.splits sum.splits)
  have a: "r \<in> set (rows (snd (rubric_advance port tenant i to s)))" for to
    using t r(1) by (auto simp: rubric_advance_def split: sum.split)
  have b: "r \<in> set (rows (snd (rubric_Publish port tenant publisher i s)))"
    using p r(1) by (auto simp: rubric_Publish_def split: sum.split)
  have c: "r \<in> set (rows (snd (DiscardDraft port usage tenant i s)))"
    using delete_local [OF r(1)] other r(1) by (auto simp: DiscardDraft_def split: sum.split option.split)
  have d: "r \<in> set (rows (snd (Retire port usage tenant i s)))"
    using transition_local [OF r(1)] other r(1)
    by (auto simp: Retire_def split: sum.split option.split prod.split; metis snd_conv)
  from op a b c d show ?thesis by (auto simp: SubmitForApproval_def Approve_def)
qed

end

section \<open>The registry behind the port\<close>

text \<open>The identifier drawn for a draft and the clock are the environment's.\<close>

definition content_port :: "digester \<Rightarrow> string \<Rightarrow> time \<Rightarrow> registry registry_port" where
  "content_port dg i now =
     \<lparr>rp_create = CreateDraftArtifact dg i now, rp_get = Get_artifact, rp_transition = TransitionTo,
      rp_publish = (\<lambda>a publisher. PublishArtifact a publisher now), rp_versions = Versions, rp_list = ListByType,
      rp_delete = DeleteDraft\<rparr>"

lemma guarded_update_local:
  "r \<in> set (xr_artifacts db) \<Longrightarrow> aa_id r \<noteq> i \<Longrightarrow> r \<in> set (xr_artifacts (snd (guarded_update tenant i st f db)))"
  by (force simp: guarded_update_map)

interpretation library: registry_contract "content_port dg i now" xr_artifacts for dg i now
proof
  show "aa_id a = j \<and> a \<in> set (xr_artifacts s)" if "rp_get (content_port dg i now) j tenant s = Inr a" for j tenant s a
    using that by (auto simp: content_port_def Get_artifact_def in_content_scope_Inr some_artifact_def GetArtifact_def
        find_artifact_def find_Some_iff split: option.splits)
  show "r \<in> set (xr_artifacts (snd (rp_transition (content_port dg i now) a to s)))"
    if "r \<in> set (xr_artifacts s)" "aa_id r \<noteq> aa_id a" for r s a to
    using guarded_update_local [OF that] that(1)
    by (auto simp: content_port_def TransitionTo_def then_read_def in_content_scope_def moved_one_def TransitionArtifact_def
        split: sum.split)
  show "r \<in> set (xr_artifacts (snd (rp_publish (content_port dg i now) a publisher s)))"
    if "r \<in> set (xr_artifacts s)" "aa_id r \<noteq> aa_id a" for r s a publisher
    using guarded_update_local [OF that] that(1)
    by (auto simp: content_port_def PublishArtifact_def then_read_def in_acting_scope_Inr moved_one_Inr MarkPublished_def
        bindE_Inr split: sum.split)
  show "r \<in> set (xr_artifacts s')"
    if "r \<in> set (xr_artifacts s)" "aa_id r \<noteq> j" "rp_delete (content_port dg i now) j tenant s = Inr s'" for r s j tenant s'
    using that by (auto simp: content_port_def DeleteDraft_def DeleteDraftArtifact_def in_content_scope_Inr bindE_Inr Let_def
        split: if_splits)
qed

text \<open>A workspace changes its own rubrics and nobody else's.  In a registry that is kept, whatever a workspace
  asks the library to do with whatever identifier, no version of another workspace or of the platform is changed or
  removed; and while a campaign uses a rubric, or the campaigns cannot be asked, discarding and retiring it are
  refused and the registry is left exactly as it was.\<close>

theorem library_keeps_to_its_workspace:
  assumes "registry_ok dg db"
  shows "(\<forall>r \<in> set (xr_artifacts db). aa_tenant r \<noteq> tenant \<longrightarrow>
      (\<forall>db' \<in> {snd (SubmitForApproval (content_port dg j now) tenant i db), snd (Approve (content_port dg j now) tenant i db),
         snd (rubric_Publish (content_port dg j now) tenant publisher i db),
         snd (DiscardDraft (content_port dg j now) usage tenant i db),
         snd (Retire (content_port dg j now) usage tenant i db)}. r \<in> set (xr_artifacts db')))
    \<and> (\<forall>a. rubric_own (content_port dg j now) tenant i db = Inr a \<and> usage tenant (aa_reference a) db \<noteq> Some [] \<longrightarrow>
         \<not> is_ok (fst (Retire (content_port dg j now) usage tenant i db))
         \<and> snd (Retire (content_port dg j now) usage tenant i db) = db
         \<and> \<not> is_ok (fst (DiscardDraft (content_port dg j now) usage tenant i db))
         \<and> snd (DiscardDraft (content_port dg j now) usage tenant i db) = db)"
proof -
  have ids: "distinct (map aa_id (xr_artifacts db))" using assms by (simp add: registry_ok_def)
  have "\<not> is_ok (fst (Retire (content_port dg j now) usage tenant i db)) \<and> snd (Retire (content_port dg j now) usage tenant i db) = db
      \<and> \<not> is_ok (fst (DiscardDraft (content_port dg j now) usage tenant i db))
      \<and> snd (DiscardDraft (content_port dg j now) usage tenant i db) = db"
    if o: "rubric_own (content_port dg j now) tenant i db = Inr a" and u: "usage tenant (aa_reference a) db \<noteq> Some []" for a
  proof -
    from u obtain e where "refuseWhileInUse usage tenant (aa_reference a) db = Some e"
      by (cases "usage tenant (aa_reference a) db") (auto simp: refuseWhileInUse_def neq_Nil_conv)
    with o show ?thesis by (simp add: Retire_def DiscardDraft_def)
  qed
  then show ?thesis using library.others_rows_stay [OF ids] by blast
qed

definition ex_usage :: "registry usage" where
  "ex_usage tenant reference db = Some (if reference = ''backend'' then [''hiring-q3''] else [])"

theorem library_keeps_to_its_workspace_witness:
  "ex_second \<in> set (xr_artifacts (snd (Retire (content_port ex_digester ''n'' 7) ex_usage ''t2'' ''a2'' ex_twice)))
   \<and> \<not> is_ok (fst (Retire (content_port ex_digester ''n'' 7) ex_usage ''t1'' ''a2'' ex_twice))
   \<and> is_ok (fst (Retire (content_port ex_digester ''n'' 7) (\<lambda>_ _ _. Some []) ''t1'' ''a2'' ex_twice))"
proof -
  have o: "rubric_own (content_port ex_digester ''n'' 7) ''t1'' ''a2'' ex_twice = Inr ex_second"
    and u: "ex_usage ''t1'' (aa_reference ex_second) ex_twice \<noteq> Some []"
    and t: "aa_tenant ex_second \<noteq> ''t2''" by code_simp+
  have "is_ok (fst (Retire (content_port ex_digester ''n'' 7) (\<lambda>_ _ _. Some []) ''t1'' ''a2'' ex_twice))" by code_simp
  with library_keeps_to_its_workspace [OF ex_twice_ok, of "''t1''" "''n''" 7 "''a2''" "''p''" ex_usage] o u
    library_keeps_to_its_workspace [OF ex_twice_ok, of "''t2''" "''n''" 7 "''a2''" "''p''" ex_usage] ex_second_published t
  show ?thesis by blast
qed

end
