(* ===== verification/Spec2Isabelle.thy ===== *)
theory Spec2Isabelle
  imports Authz Targeting Goals Personal_Requirements Evaluation_Pipeline Coaching Delivery Dispatcher Review_Desk Job_Context Accommodations Screening Screening_Result Identifiers Sessions
    Job_Requirements Interview_System Content_Loader Rubric_Library Disclosure Invitations
begin

text \<open>
  The platform service of Prepeet (\<open>src/services/platform\<close>, Go), as definitions translated from the source and
  theorems about them.  The service runs practice and screening interviews: a session is created, composed,
  started against a tenant's quota, held over a control channel that stores an event timeline, completed by
  sealing that timeline, evaluated from the sealed record, and its results feed the candidate's progression.
  The modules talk through the outbox and through interfaces wired in \<open>cmd\<close>.

  \<^bold>\<open>The library and the code.\<close>
  \<^item> \<open>Prelude\<close>: results as sums with \<open>bindE\<close>, the retry loop of a workflow activity, generic lemmas and the
    shared bundles.  \<open>Float64\<close>: the binary64 arithmetic the code computes with, over rationals.
  \<^item> \<open>Row_Scope\<close>: which rows a transaction sees (\<open>platform/database\<close>: \<open>SetUser\<close>, \<open>SetTenant\<close>).
  \<^item> \<open>Authz\<close>: the capability catalogue and the decision (\<open>platform/authz\<close>).
  \<^item> \<open>Outbox\<close>, \<open>Dispatcher\<close>: publishing in the caller's transaction, claiming, delivering, failing, dead
    letters and recovery (\<open>platform/outbox\<close>).
  \<^item> \<open>Object_Keys\<close>: the keys of stored objects (\<open>platform/objectstore/key.go\<close>).
  \<^item> \<open>Session_Machine\<close>, \<open>Interview_Tables\<close>, \<open>Session_Store\<close>: the lifecycle of a session, the rows of the
    interview schema, and the version-guarded store (\<open>internal/interview/machine.go\<close>, \<open>store.go\<close>,
    \<open>timing.go\<close>, and the queries of \<open>db/queries.sql.gen.go\<close>).
  \<^item> \<open>Transcript\<close>, \<open>Control_Events\<close>: segments, corrections and their assembly; epochs, slots, cursors, ingest,
    replay and interruptions (\<open>transcript.go\<close>, \<open>events.go\<close>, \<open>interruption.go\<close>).
  \<^item> \<open>Recording\<close>, \<open>Completion\<close>: media claims and their finalization, the seal and its receipt (\<open>media.go\<close>,
    \<open>complete.go\<close>).
  \<^item> \<open>Ledger\<close>, \<open>Start_Resume\<close>: quotas and the commands that start, resume and expire a session
    (\<open>internal/billing/ledger.go\<close>, \<open>interview/start.go\<close>, \<open>resume.go\<close>, \<open>grace.go\<close>).
  \<^item> \<open>Composition\<close>, \<open>Redo\<close>: the durable path to ready, and retakes (\<open>interview/workflow.go\<close>, \<open>redo.go\<close>).
  \<^item> \<open>Interview_System\<close>: every transaction of the interview context as a step of one relation, every command as
    a sequence of steps, and the refinement of the session lifecycle.
  \<^item> \<open>Evidence\<close>, \<open>Rubric\<close>, \<open>Stage_Policy\<close>, \<open>Coaching\<close>, \<open>Delivery\<close>, \<open>Job_Requirements\<close>, \<open>Evaluation_Pipeline\<close>:
    the evidence gate, aggregation and publication, budgets and stages, the optional stages, and the workflow
    that composes them (\<open>internal/evaluation\<close>).
  \<^item> \<open>Observations\<close>, \<open>Readiness\<close>, \<open>Goals\<close>, \<open>Targeting\<close>, \<open>Personal_Requirements\<close>: what progression concludes
    from the observations (\<open>internal/progression\<close>).
  \<^item> \<open>Content_Registry\<close>, \<open>Content_Loader\<close>, \<open>Rubric_Library\<close>: the published content a session and a campaign are
    built from, its lifecycle, pointers and rollback, the loading of a directory, and the library of a workspace's
    own rubrics (\<open>internal/content\<close>, \<open>internal/tenantadmin/rubric.go\<close>).
  \<^item> \<open>Recruiting_Tables\<close>, \<open>Campaigns\<close>, \<open>Disclosure\<close>, \<open>Invitations\<close>: the rows of the recruiting schema; opening a
    campaign on what it pins; acceptances and consent; the links recipients answer (\<open>internal/recruiting\<close>).
  \<^item> \<open>Review\<close>, \<open>Review_Desk\<close>: decisions and appeals in the recruiting schema, and the adapters that read the
    session and its evaluation for them (\<open>decision.go\<close>, \<open>rereview.go\<close>; \<open>decision_adapter.go\<close> and
    \<open>appeal_adapter.go\<close> of \<open>cmd/api\<close>).
  \<^item> \<open>Job_Context\<close>, \<open>Accommodations\<close>: a job description and the requirements read from it with their spans;
    adjustments asked, granted and applied (\<open>requirements.go\<close>, \<open>accommodation.go\<close> and their stores).
  \<^item> \<open>Screening\<close>, \<open>Screening_Result\<close>: the candidate's side, where recruiting, interview and evaluation meet:
    links, starts and restarts, and what of a result the pinned level shows (\<open>cmd/api/screening_adapter.go\<close>,
    \<open>internal/api/screening_result.go\<close>).
  \<^item> \<open>Identity_Tables\<close>, \<open>Sessions\<close>: the rows of the identity schema and what a person types; a login and its
    rotations, their end, the choice of a workspace, and the one path that authorizes a request
    (\<open>internal/identity\<close>, \<open>platform/token\<close>).
  \<^item> \<open>Identifiers\<close>: time-ordered identifiers, their bytes and their text (\<open>platform/id\<close>).

  \<^bold>\<open>How the code is read.\<close>  A table is a list of records in insertion order, with its constraints written out in
  the insert; a transaction is a function of the tables that answers an error and no table, or the tables it
  commits.  An operation of several transactions takes as an argument what others do between them, so that
  a theorem about it holds under every interleaving it does not exclude.  Clocks, identifiers, random jitter
  and the answers of services (extractor, analyzer, recorder, object store, realtime grants) are arguments.
  Errors are the values of a sum; the width of an integer is written out where a cast can wrap it
  (\<open>to_int32\<close>, \<open>w word\<close> in \<open>Dispatcher.Backoff\<close>).  A raw JSON payload is its decoding; what a decoder does is
  the standard library's.

  \<^bold>\<open>Interfaces.\<close>  Where a component relies on another the contract is a locale, interpreted on the model of the
  provider: the lifecycle of a transition table (\<open>lifecycle\<close>, on the session states), the table a dispatcher
  works (\<open>event_store\<close>, on \<open>Claim\<close> and the marks), the choice of a latest observation (\<open>latest_choice\<close>), the
  ledger a start spends (\<open>start_ledger\<close>, on \<open>ledgerPort_ReserveStart\<close>), the registry the rubric library asks
  (\<open>registry_contract\<close>, on the store of \<open>Content_Registry\<close>), and the activities a workflow may run
  again (\<open>settling_activity\<close>, on \<open>MarkReady\<close> and \<open>MarkFailed\<close>).

  \<^bold>\<open>What the lemmas show.\<close>  Each theory proves what makes its component correct: the lifecycle passes its stations
  and transitions are optimistic; cursors are exact and every stored segment is evidence; nothing is said after
  the seal and there is one receipt; a quota is never exceeded and a start is metered first; settled work stays
  settled and a backlog drains; keys tell their owner; evidence, aggregation and publication gates are exact; a
  readiness answer is sound, and goals agree with it; what is published stays, a campaign is pinned for good, a
  recipient holds one link and answers it once, and the last answer to a purpose stands; decisions are appended
  and announced, appeals are independent and final, a start rests on standing authority and a candidate has one
  attempt to an authorization; a result shows nothing above its level; identifiers strictly increase;
  an ended login stays ended, rotations that interleave neither sign in again nor multiply beyond those that
  cross, and authority is what the person holds at the request.  Lemmas that show where the code departs from its comments
  stand at the end of their theories.

  \<^bold>\<open>Bounds.\<close>  Loops are structural recursions over the rows, batches and attempts they visit; a workflow's attempts
  are lists whose length the retry policy bounds, so no fuel is chosen.  Loops that wait for ticks
  (\<open>Dispatcher.Run\<close>) are modelled up to the drain of a backlog: its rounds are a list, each with the moment of its
  claim and of its deliveries, and a list longer than the deliveries the backlog has left fill batches is enough,
  since an event has at most ten recorded deliveries.

  \<^bold>\<open>Not modelled.\<close>  HTTP handlers and process wiring (translation and glue), generated contracts, adapters to
  external services, cryptography, telemetry and configuration; the members and
  settings of a tenant, registration, provider sign-in and member administration, the
  candidate's documents and notification are not modelled.
\<close>

end
